(* ===== verification/Prelude.thy ===== *)
theory Prelude
  imports Main "HOL-Library.Word" "HOL-Library.Char_ord"
begin

text \<open>
  Shared vocabulary of the development: the byte type of the wire protocol and of the
  firmware (\<open>uint8_t\<close>), the conversions between bytes, naturals and characters, C's
  truth values, and generic lemmas on lists and words that several components use.
  Nothing here models a particular source file.
\<close>

unbundle bit_operations_syntax

type_synonym u8 = "8 word"
type_synonym u16 = "16 word"
type_synonym u32 = "32 word"
type_synonym bytes = "u8 list"

named_theorems u8_nat \<open>readings of byte expressions as natural numbers\<close>
named_theorems queue_simps \<open>observable effect of the queue operations\<close>
named_theorems step_defs \<open>definitions unfolded when a handler is executed symbolically\<close>

section \<open>Truth values and bytes\<close>

text \<open>C functions of the firmware return \<open>1\<close> for success and \<open>0\<close> for failure.\<close>

definition of_flag :: "bool \<Rightarrow> u8" where
  "of_flag b = (if b then 1 else 0)"

lemma of_flag_eq [simp]:
  "(of_flag b = 0) = (\<not> b)" "(of_flag b = 1) = b"
  by (simp_all add: of_flag_def)

lemma of_flag_simps [simp]: "of_flag True = 1" "of_flag False = 0"
  by (simp_all add: of_flag_def)

lemma unat_u8_less [simp, intro]: "unat (x :: u8) < 256"
  using unsigned_less [of x] by simp

lemma unat_u8_le [simp, intro]: "unat (x :: u8) \<le> 255"
  using unat_u8_less [of x] by linarith

lemma unat_of_nat_u8 [simp]: "n < 256 \<Longrightarrow> unat (of_nat n :: u8) = n"
  by (simp add: unat_of_nat)

lemma u8_eq_iff: "(x :: u8) = y \<longleftrightarrow> unat x = unat y"
  by (simp add: word_unat_eq_iff)

lemma u8_le_iff [u8_nat]: "(x :: u8) \<le> y \<longleftrightarrow> unat x \<le> unat y"
  by (simp add: word_le_nat_alt)

lemma u8_less_iff [u8_nat]: "(x :: u8) < y \<longleftrightarrow> unat x < unat y"
  by (simp add: word_less_nat_alt)

lemma unat_u8_minus [u8_nat]: "y \<le> x \<Longrightarrow> unat ((x :: u8) - y) = unat x - unat y"
  by (simp add: unat_sub)

lemma unat_u8_plus [u8_nat]:
  "unat (x :: u8) + unat y < 256 \<Longrightarrow> unat (x + y) = unat x + unat y"
  by (simp add: unat_word_ariths)

lemma unat_u8_plus_mod: "unat ((x :: u8) + y) = (unat x + unat y) mod 256"
  by (simp add: unat_word_ariths)

lemma unat_u8_Suc [u8_nat]: "unat (x :: u8) < 255 \<Longrightarrow> unat (x + 1) = Suc (unat x)"
  by (simp add: unat_word_ariths)

lemma unat_u8_inc: "(x :: u8) < y \<Longrightarrow> unat (x + 1) = Suc (unat x)"
proof -
  assume "x < y"
  then have "unat x < 255" using unat_u8_less [of y] unfolding u8_less_iff by linarith
  then show ?thesis by (rule unat_u8_Suc)
qed

lemma u8_inc_le: "(x :: u8) < y \<Longrightarrow> x + 1 \<le> y"
  by (simp add: u8_le_iff unat_u8_inc) (simp add: u8_less_iff)

section \<open>Lists\<close>

lemma take_Suc_update_at:
  "n < length xs \<Longrightarrow> take (Suc n) (xs[n := x]) = take n xs @ [x]"
  by (simp add: take_Suc_conv_app_nth)

lemma drop_take_update_end:
  assumes "s \<le> n" "n < length xs"
  shows "drop s (take (Suc n) (xs[n := x])) = drop s (take n xs) @ [x]"
  using assms by (simp add: take_Suc_update_at)

lemma tl_drop_Suc: "tl (drop n xs) = drop (Suc n) xs"
  by (simp add: drop_Suc tl_drop)

lemma foldl_append_bytes: "foldl (\<lambda>acc x. acc @ [f x]) acc xs = acc @ map f xs"
  by (induction xs arbitrary: acc) auto

lemma map_nth_take: "n \<le> length xs \<Longrightarrow> map (\<lambda>i. xs ! i) [0..<n] = take n xs"
  by (rule nth_equalityI) auto

lemma concat_singletons: "concat (map (\<lambda>x. [x]) xs) = xs"
  by (induction xs) auto

end
