(* ===== verification/Util_Queue.thy ===== *)
theory Util_Queue
  imports Prelude
begin

text \<open>
  The queues of the daemon: \<open>move_queue_t\<close> (\<open>src/src/util/move-queue.hpp\<close>), the condition queue
  built on it (\<open>src/src/util/condition-queue.hpp\<close>), and the two small utilities
  \<open>final_action_t\<close> and the log core. A record is moved into the queue and out of it, so values
  model it. A method of the condition queue runs under its mutex; the model of a method gives
  the new queue and, where the code may call \<open>notify_one\<close>, whether it did. A wait is the only
  point where another thread runs, so \<open>cq_pop\<close> takes the queue found after the wait as an
  argument: it may be anything, a wake-up may be spurious.
\<close>

section \<open>\<open>move_queue_t\<close>\<close>

record 'a move_queue =
  m_holder :: "'a list"

definition mq_new :: "'a move_queue" where
  "mq_new = \<lparr>m_holder = []\<rparr>"

definition mq_push :: "'a move_queue \<Rightarrow> 'a \<Rightarrow> 'a move_queue" where
  "mq_push q r = q\<lparr>m_holder := m_holder q @ [r]\<rparr>"

definition mq_pop :: "'a move_queue \<Rightarrow> 'a option \<times> 'a move_queue" where
  "mq_pop q =
     (case m_holder q of
        [] \<Rightarrow> (None, q)
      | r # rs \<Rightarrow> (Some r, q\<lparr>m_holder := rs\<rparr>))"

definition mq_clear :: "'a move_queue \<Rightarrow> 'a move_queue" where
  "mq_clear q = q\<lparr>m_holder := []\<rparr>"

definition mq_empty :: "'a move_queue \<Rightarrow> bool" where
  "mq_empty q \<longleftrightarrow> m_holder q = []"

definition mq_size :: "'a move_queue \<Rightarrow> nat" where
  "mq_size q = length (m_holder q)"

lemma mq_simps [simp]:
  "m_holder mq_new = []"
  "m_holder (mq_push q r) = m_holder q @ [r]"
  "m_holder (mq_clear q) = []"
  "mq_empty q = (m_holder q = [])"
  "mq_size q = length (m_holder q)"
  by (simp_all add: mq_new_def mq_push_def mq_clear_def mq_empty_def mq_size_def)

lemma mq_pop_Nil [simp]: "m_holder q = [] \<Longrightarrow> mq_pop q = (None, q)"
  by (simp add: mq_pop_def)

lemma mq_pop_Cons [simp]:
  "m_holder q = r # rs \<Longrightarrow> mq_pop q = (Some r, q\<lparr>m_holder := rs\<rparr>)"
  by (simp add: mq_pop_def)

section \<open>\<open>condition_queue_t\<close>\<close>

text \<open>
  What the class adds to the queue is the mutex and the condition; the queue itself is the state.
\<close>

type_synonym 'a condition_queue = "'a move_queue"

definition cq_new :: "'a condition_queue" where
  "cq_new = mq_new"

text \<open>\<open>push\<close> notifies exactly when the queue was empty before.\<close>

definition cq_push :: "'a condition_queue \<Rightarrow> 'a \<Rightarrow> 'a condition_queue \<times> bool" where
  "cq_push q r = (let was_empty = mq_empty q; q' = mq_push q r in (q', was_empty))"

definition cq_pop ::
  "bool \<Rightarrow> 'a condition_queue \<Rightarrow> 'a condition_queue \<Rightarrow> 'a option \<times> 'a condition_queue" where
  "cq_pop really_wait q woken =
     (if \<not> mq_empty q then mq_pop q
      else
        let q' = (if really_wait then woken else q)
        in if mq_empty q' then (None, q') else mq_pop q')"

definition cq_clear :: "'a condition_queue \<Rightarrow> 'a condition_queue" where
  "cq_clear q = mq_clear q"

text \<open>
  \<open>empty\<close> and \<open>size\<close>: the template argument asks for the lock, but the \<open>lock_guard\<close> is the
  whole body of the \<open>if constexpr\<close> and is destroyed before the queue is read. The value
  returned is the same; the read is not protected either way.
\<close>

definition cq_empty :: "bool \<Rightarrow> 'a condition_queue \<Rightarrow> bool" where
  "cq_empty really_lock q = mq_empty q"

definition cq_size :: "bool \<Rightarrow> 'a condition_queue \<Rightarrow> nat" where
  "cq_size really_lock q = mq_size q"

text \<open>
  Whether the mutex is held while the queue is read, or while \<open>notify_one\<close> wakes the sleeper:
  never, whatever the argument.
\<close>

datatype lock_event = Lock | Unlock | Read_queue | Notify

definition cq_size_trace :: "bool \<Rightarrow> lock_event list" where
  "cq_size_trace really_lock = (if really_lock then [Lock, Unlock] else []) @ [Read_queue]"

definition cq_notify_trace :: "bool \<Rightarrow> lock_event list" where
  "cq_notify_trace really_lock = (if really_lock then [Lock, Unlock] else []) @ [Notify]"

fun read_while_locked :: "bool \<Rightarrow> lock_event list \<Rightarrow> bool" where
  "read_while_locked held [] = True"
| "read_while_locked held (Lock # es) = read_while_locked True es"
| "read_while_locked held (Unlock # es) = read_while_locked False es"
| "read_while_locked held (Read_queue # es) = (held \<and> read_while_locked held es)"
| "read_while_locked held (Notify # es) = (held \<and> read_while_locked held es)"

lemma cq_size_unprotected: "\<not> read_while_locked False (cq_size_trace really_lock)"
  by (simp add: cq_size_trace_def)

lemma cq_notify_unprotected: "\<not> read_while_locked False (cq_notify_trace really_lock)"
  by (simp add: cq_notify_trace_def)

lemma cq_push_simp [simp]:
  "cq_push q r = (mq_push q r, m_holder q = [])"
  by (simp add: cq_push_def)

lemma cq_pop_Nil [simp]: "m_holder q = [] \<Longrightarrow> cq_pop False q w = (None, q)"
  by (simp add: cq_pop_def)

lemma cq_pop_Cons [simp]:
  "m_holder q = r # rs \<Longrightarrow> cq_pop b q w = (Some r, q\<lparr>m_holder := rs\<rparr>)"
  by (simp add: cq_pop_def)

lemma cq_size_simps [simp]:
  "cq_empty b q = (m_holder q = [])" "cq_size b q = length (m_holder q)"
  by (simp_all add: cq_empty_def cq_size_def)

section \<open>The interface: a first-in first-out queue\<close>

locale fifo =
  fixes push :: "'q \<Rightarrow> 'a \<Rightarrow> 'q"
    and pop :: "'q \<Rightarrow> 'a option \<times> 'q"
    and items :: "'q \<Rightarrow> 'a list"
  assumes items_push: "items (push q x) = items q @ [x]"
    and pop_Nil: "items q = [] \<Longrightarrow> fst (pop q) = None \<and> items (snd (pop q)) = []"
    and pop_Cons: "items q = x # xs \<Longrightarrow> fst (pop q) = Some x \<and> items (snd (pop q)) = xs"
begin

lemma items_push_all: "items (fold (\<lambda>x q. push q x) xs q) = items q @ xs"
  by (induction xs arbitrary: q) (auto simp: items_push)

text \<open>Any interleaving of pushes and pops: what came out, then what is held, is what went in.\<close>

fun run :: "'q \<Rightarrow> 'a option list \<Rightarrow> 'a list \<times> 'q" where
  "run q [] = ([], q)"
| "run q (Some x # ops) = run (push q x) ops"
| "run q (None # ops) =
     (case pop q of (r, q') \<Rightarrow>
        case run q' ops of (out, q'') \<Rightarrow>
          ((case r of None \<Rightarrow> [] | Some x \<Rightarrow> [x]) @ out, q''))"

lemma run_fifo:
  "fst (run q ops) @ items (snd (run q ops)) = items q @ List.map_filter (\<lambda>x. x) ops"
proof (induction ops arbitrary: q)
  case Nil
  then show ?case by simp
next
  case (Cons op ops)
  show ?case
  proof (cases op)
    case None
    then show ?thesis
      using Cons.IH [of "snd (pop q)"] pop_Nil [of q] pop_Cons [of q]
      by (cases "items q") (auto simp: List.map_filter_simps split: prod.splits)
  next
    case (Some x)
    then show ?thesis
      using Cons.IH [of "push q x"] by (simp add: items_push List.map_filter_simps)
  qed
qed

end

interpretation cq: fifo "\<lambda>q x. fst (cq_push q x)" "\<lambda>q. cq_pop False q q" m_holder
  by unfold_locales (simp_all add: cq_pop_def)

section \<open>\<open>final_action_t\<close>\<close>

text \<open>An action on a state that the destructor runs; \<open>relax\<close> replaces it by the empty one.\<close>

record 's final_action =
  m_action :: "'s \<Rightarrow> 's"

definition final_action_new :: "('s \<Rightarrow> 's) \<Rightarrow> 's final_action" where
  "final_action_new cb = \<lparr>m_action = cb\<rparr>"

definition final_action_destroy :: "'s final_action \<Rightarrow> 's \<Rightarrow> 's" where
  "final_action_destroy a s = m_action a s"

definition final_action_relax :: "'s final_action \<Rightarrow> 's final_action" where
  "final_action_relax a = a\<lparr>m_action := (\<lambda>s. s)\<rparr>"

lemma final_action_simps [simp]:
  "final_action_destroy (final_action_new cb) s = cb s"
  "final_action_destroy (final_action_relax a) s = s"
  by (simp_all add: final_action_destroy_def final_action_new_def final_action_relax_def)

section \<open>The log core\<close>

text \<open>
  The two static media variables of \<open>core_t\<close>; a medium is a callback, modelled by the name
  under which its output appears. Without a medium a message goes to standard output, prefixed.
\<close>

record 'm log_core =
  error_var :: "'m option"
  info_var :: "'m option"

datatype 'm log_output = To_media 'm string | To_cout string

definition error_media :: "'m log_core \<Rightarrow> 'm option \<Rightarrow> 'm option \<times> 'm log_core" where
  "error_media l media =
     (let l' = (case media of None \<Rightarrow> l | Some m \<Rightarrow> l\<lparr>error_var := Some m\<rparr>)
      in (error_var l', l'))"

definition info_media :: "'m log_core \<Rightarrow> 'm option \<Rightarrow> 'm option \<times> 'm log_core" where
  "info_media l media =
     (let l' = (case media of None \<Rightarrow> l | Some m \<Rightarrow> l\<lparr>info_var := Some m\<rparr>)
      in (info_var l', l'))"

text \<open>A medium gets \<open>buf.c_str ()\<close>, so it sees the text up to the first null character.\<close>

definition c_str :: "string \<Rightarrow> string" where
  "c_str s = takeWhile (\<lambda>c. c \<noteq> char_of (0 :: nat)) s"

definition log_message :: "string \<Rightarrow> 'm option \<Rightarrow> bool \<Rightarrow> 'm log_output" where
  "log_message buf media err =
     (case media of
        Some m \<Rightarrow> To_media m (c_str buf)
      | None \<Rightarrow> To_cout ((if err then ''Error'' else ''Info'') @ '': '' @ buf @ [char_of (10 :: nat)]))"

definition log_error :: "'m log_core \<Rightarrow> string \<Rightarrow> 'm log_output \<times> 'm log_core" where
  "log_error l buf = (case error_media l None of (media, l') \<Rightarrow> (log_message buf media True, l'))"

definition log_info :: "'m log_core \<Rightarrow> string \<Rightarrow> 'm log_output \<times> 'm log_core" where
  "log_info l buf = (case info_media l None of (media, l') \<Rightarrow> (log_message buf media False, l'))"

definition log_init :: "'m log_core \<Rightarrow> 'm option \<Rightarrow> 'm option \<Rightarrow> 'm log_core" where
  "log_init l error_fun info_fun =
     (case error_media l error_fun of (_, l1) \<Rightarrow> case info_media l1 info_fun of (_, l2) \<Rightarrow> l2)"

lemma log_init_routes:
  "fst (log_error (log_init l (Some e) i) buf) = To_media e (c_str buf)"
  "fst (log_info (log_init l e' (Some i')) buf) = To_media i' (c_str buf)"
  by (simp_all add: log_error_def log_info_def log_init_def error_media_def info_media_def
      log_message_def Let_def split: option.splits)

end
