(* ===== verification/Cpp_Text.thy ===== *)
theory Cpp_Text
  imports Prelude
begin

text \<open>
  The parts of the C++ standard library that the daemon applies to text, as its sources use
  them: \<open>std::string::find\<close> and \<open>substr\<close>, formatted extraction of numbers from an
  \<open>istringstream\<close>, decimal output, and \<open>std::regex_match\<close> for patterns made of literal
  characters and greedy repetitions of a character class (every pattern the sources
  spell out has this shape). A position of a string is \<open>nat option\<close>, \<open>None\<close> being
  \<open>std::string::npos\<close>. Exceptions are values of the type \<open>cpp_exn\<close>.
\<close>

text \<open>
  \<open>Undefined\<close> is no exception: it marks a run that C++ gives no meaning to.
\<close>

datatype cpp_exn = Out_of_range | Runtime_error string | Undefined

section \<open>Characters\<close>

text \<open>\<open>isspace\<close> and \<open>isdigit\<close> of the classic locale.\<close>

definition is_space :: "char \<Rightarrow> bool" where
  "is_space c \<longleftrightarrow> c = CHR '' '' \<or> (9 \<le> (of_char c :: nat) \<and> (of_char c :: nat) \<le> 13)"

definition is_digit :: "char \<Rightarrow> bool" where
  "is_digit c \<longleftrightarrow> 48 \<le> (of_char c :: nat) \<and> (of_char c :: nat) \<le> 57"

definition digit_value :: "char \<Rightarrow> nat" where
  "digit_value c = of_char c - 48"

lemma digit_not_space: "is_digit c \<Longrightarrow> \<not> is_space c"
  by (auto simp: is_digit_def is_space_def)

lemma digit_not_sign: "is_digit c \<Longrightarrow> c \<noteq> CHR ''-'' \<and> c \<noteq> CHR ''+''"
  by (auto simp: is_digit_def)

section \<open>Decimal output\<close>

fun dec_string :: "nat \<Rightarrow> string" where
  "dec_string n = (if n < 10 then [char_of (48 + n)]
     else dec_string (n div 10) @ [char_of (48 + n mod 10)])"

declare dec_string.simps [simp del]

definition dec_string_int :: "int \<Rightarrow> string" where
  "dec_string_int i = (if i < 0 then ''-'' @ dec_string (nat (- i)) else dec_string (nat i))"

definition digits_value :: "string \<Rightarrow> nat" where
  "digits_value s = foldl (\<lambda>n c. 10 * n + digit_value c) 0 s"

lemma is_digit_char_of: "(n :: nat) < 10 \<Longrightarrow> is_digit (char_of (48 + n))"
  by (simp add: is_digit_def)

lemma digit_value_char_of: "(n :: nat) < 10 \<Longrightarrow> digit_value (char_of (48 + n)) = n"
  by (simp add: digit_value_def)

lemma dec_string_digits: "list_all is_digit (dec_string n)"
proof (induction n rule: dec_string.induct)
  case (1 n)
  then show ?case by (subst dec_string.simps) (simp add: is_digit_char_of)
qed

lemma dec_string_not_Nil [simp]: "dec_string n \<noteq> []"
  by (subst dec_string.simps) simp

lemma digits_value_dec_string [simp]: "digits_value (dec_string n) = n"
proof (induction n rule: dec_string.induct)
  case (1 n)
  then show ?case
    by (subst dec_string.simps) (auto simp: digits_value_def digit_value_char_of)
qed

section \<open>Formatted extraction\<close>

text \<open>
  \<open>stream >> x\<close> on a fresh \<open>istringstream\<close>: blanks are skipped; at the end of the text the
  extraction fails and \<open>x\<close> keeps its value; otherwise an optional sign and the longest run of
  digits are read. Without a digit \<open>x\<close> becomes 0 and the extraction fails; a magnitude beyond
  the type stores the limit and fails; a minus sign on an unsigned type negates modulo
  \<open>2 ^ w\<close>. The result is the value of \<open>x\<close> and whether the stream is still good.
\<close>

definition scan_number :: "string \<Rightarrow> (bool \<times> string) option" where
  "scan_number s =
     (case dropWhile is_space s of
        [] \<Rightarrow> None
      | c # cs \<Rightarrow>
          if c = CHR ''-'' then Some (True, takeWhile is_digit cs)
          else if c = CHR ''+'' then Some (False, takeWhile is_digit cs)
          else Some (False, takeWhile is_digit (c # cs)))"

definition read_unsigned :: "nat \<Rightarrow> string \<Rightarrow> nat \<Rightarrow> nat \<times> bool" where
  "read_unsigned w s old =
     (case scan_number s of
        None \<Rightarrow> (old, False)
      | Some (negative, ds) \<Rightarrow>
          if ds = [] then (0, False)
          else if digits_value ds \<ge> 2 ^ w then (2 ^ w - 1, False)
          else (if negative then (2 ^ w - digits_value ds) mod 2 ^ w else digits_value ds, True))"

definition read_signed :: "nat \<Rightarrow> string \<Rightarrow> int \<Rightarrow> int \<times> bool" where
  "read_signed w s old =
     (case scan_number s of
        None \<Rightarrow> (old, False)
      | Some (negative, ds) \<Rightarrow>
          if ds = [] then (0, False)
          else if negative then
            (if digits_value ds > 2 ^ (w - 1) then (- (2 ^ (w - 1)), False)
             else (- int (digits_value ds), True))
          else if digits_value ds \<ge> 2 ^ (w - 1) then (2 ^ (w - 1) - 1, False)
          else (int (digits_value ds), True))"

text \<open>\<open>stream >> b\<close> for a \<open>bool\<close> reads a \<open>long\<close>; a value other than 0 and 1 stores true and fails.\<close>

definition read_bool :: "nat \<Rightarrow> string \<Rightarrow> bool \<Rightarrow> bool \<times> bool" where
  "read_bool w s old =
     (case scan_number s of
        None \<Rightarrow> (old, False)
      | Some _ \<Rightarrow>
          (case read_signed w s 0 of (l, good) \<Rightarrow>
             if l = 0 then (False, good) else if l = 1 then (True, good) else (True, False)))"

lemma takeWhile_digits [simp]: "list_all is_digit ds \<Longrightarrow> takeWhile is_digit ds = ds"
  by (simp add: list_all_iff)

lemma takeWhile_digits_stop:
  "list_all is_digit ds \<Longrightarrow> \<not> is_digit c \<Longrightarrow> takeWhile is_digit (ds @ c # cs) = ds"
  by (induction ds) auto

lemma scan_number_digits:
  assumes "list_all is_digit ds" "ds \<noteq> []"
  shows "scan_number ds = Some (False, ds)"
proof -
  obtain d ds' where ds: "ds = d # ds'" using assms(2) by (cases ds) auto
  then have "\<not> is_space d" "d \<noteq> CHR ''-''" "d \<noteq> CHR ''+''" "is_digit d"
    using assms(1) digit_not_space digit_not_sign by auto
  then show ?thesis using assms(1) by (simp add: scan_number_def ds)
qed

lemma read_unsigned_digits:
  assumes "list_all is_digit ds" "ds \<noteq> []" "digits_value ds < 2 ^ w"
  shows "read_unsigned w ds old = (digits_value ds, True)"
  using assms by (simp add: read_unsigned_def scan_number_digits)

lemma read_unsigned_dec_string:
  "n < 2 ^ w \<Longrightarrow> read_unsigned w (dec_string n) old = (n, True)"
  using read_unsigned_digits [of "dec_string n" w old] dec_string_digits [of n] by simp

lemma read_unsigned_bound: "read_unsigned w s old = (v, True) \<Longrightarrow> v < 2 ^ w"
  by (auto simp: read_unsigned_def split: option.splits if_splits)

section \<open>Searching and slicing\<close>

fun index_of :: "char \<Rightarrow> string \<Rightarrow> nat option" where
  "index_of c [] = None"
| "index_of c (x # xs) = (if x = c then Some 0 else map_option Suc (index_of c xs))"

text \<open>\<open>s.find (c, pos)\<close>: \<open>npos\<close> when \<open>pos\<close> is past the end or nothing is found.\<close>

definition str_find :: "string \<Rightarrow> char \<Rightarrow> nat option \<Rightarrow> nat option" where
  "str_find s c pos =
     (case pos of None \<Rightarrow> None
      | Some p \<Rightarrow> map_option (\<lambda>i. p + i) (index_of c (drop p s)))"

text \<open>\<open>s.substr (pos, n)\<close>: throws when \<open>pos\<close> is past the end; \<open>n = None\<close> takes the rest.\<close>

definition str_substr :: "string \<Rightarrow> nat option \<Rightarrow> nat option \<Rightarrow> cpp_exn + string" where
  "str_substr s pos n =
     (case pos of None \<Rightarrow> Inl Out_of_range
      | Some p \<Rightarrow>
          if p > length s then Inl Out_of_range
          else Inr (case n of None \<Rightarrow> drop p s | Some k \<Rightarrow> take k (drop p s)))"

lemma index_of_None: "index_of c s = None \<longleftrightarrow> c \<notin> set s"
  by (induction s) auto

lemma index_of_append:
  "c \<notin> set xs \<Longrightarrow> index_of c (xs @ c # ys) = Some (length xs)"
  by (induction xs) auto

lemma index_of_Some:
  "index_of c s = Some i \<Longrightarrow> i < length s \<and> s ! i = c \<and> c \<notin> set (take i s)"
proof (induction s arbitrary: i)
  case Nil
  then show ?case by simp
next
  case (Cons x xs)
  then show ?case by (cases i) (auto split: if_splits)
qed

section \<open>Regular expressions\<close>

datatype cclass = Space | Digit | Not_of string | Dot

fun in_class :: "cclass \<Rightarrow> char \<Rightarrow> bool" where
  "in_class Space c = is_space c"
| "in_class Digit c = is_digit c"
| "in_class (Not_of cs) c = (c \<notin> set cs)"
| "in_class Dot c = (c \<noteq> char_of (10 :: nat) \<and> c \<noteq> char_of (13 :: nat))"

text \<open>
  \<open>Lit c\<close> is a literal character, \<open>Rep cap n cl\<close> is \<open>cl*\<close> or \<open>cl+\<close> (\<open>n\<close> the least number of
  characters), captured as a group when \<open>cap\<close> holds.
\<close>

datatype piece = Lit char | Rep bool nat cclass

text \<open>
  The matcher backtracks as ECMAScript prescribes: a repetition first takes the longest run of
  its class and gives characters back one at a time until the rest of the pattern matches.
  \<open>regex_match\<close> succeeds only on the whole text; the result lists the captured groups.
\<close>

primrec rx_rep ::
  "(string \<Rightarrow> string list option) \<Rightarrow> bool \<Rightarrow> nat \<Rightarrow> string \<Rightarrow> nat \<Rightarrow> string list option" where
  "rx_rep k cap least s 0 =
     (if least > 0 then None
      else case k s of None \<Rightarrow> None | Some gs \<Rightarrow> Some (if cap then [] # gs else gs))"
| "rx_rep k cap least s (Suc n) =
     (if Suc n < least then None
      else case k (drop (Suc n) s) of
             Some gs \<Rightarrow> Some (if cap then take (Suc n) s # gs else gs)
           | None \<Rightarrow> rx_rep k cap least s n)"

primrec regex_match :: "piece list \<Rightarrow> string \<Rightarrow> string list option" where
  "regex_match [] s = (if s = [] then Some [] else None)"
| "regex_match (p # ps) s =
     (case p of
        Lit c \<Rightarrow> (case s of [] \<Rightarrow> None | x # xs \<Rightarrow> if x = c then regex_match ps xs else None)
      | Rep cap least cl \<Rightarrow>
          rx_rep (regex_match ps) cap least s (length (takeWhile (in_class cl) s)))"

lemma rx_rep_first:
  "least \<le> n \<Longrightarrow> k (drop n s) = Some gs \<Longrightarrow>
     rx_rep k cap least s n = Some (if cap then take n s # gs else gs)"
  by (cases n) auto

lemma regex_match_Rep_greedy:
  assumes "list_all (in_class cl) xs" "ys = [] \<or> \<not> in_class cl (hd ys)"
    and "least \<le> length xs" "regex_match ps ys = Some gs"
  shows "regex_match (Rep cap least cl # ps) (xs @ ys) = Some (if cap then xs # gs else gs)"
proof -
  have "takeWhile (in_class cl) (xs @ ys) = xs"
    using assms(1,2) by (cases ys) (auto simp: list_all_iff takeWhile_append2)
  then show ?thesis using assms(3,4) by (simp add: rx_rep_first)
qed

text \<open>Every capture is a run of its class, in order: soundness of the matcher.\<close>

fun rx_groups :: "piece list \<Rightarrow> cclass list" where
  "rx_groups [] = []"
| "rx_groups (Lit _ # ps) = rx_groups ps"
| "rx_groups (Rep cap _ cl # ps) = (if cap then cl # rx_groups ps else rx_groups ps)"

lemma rx_rep_sound:
  assumes "rx_rep k cap least s n = Some gs"
  shows "\<exists>m gs'. m \<le> n \<and> least \<le> m \<and> k (drop m s) = Some gs'
    \<and> gs = (if cap then take m s # gs' else gs')"
  using assms
proof (induction n)
  case 0
  then show ?case by (auto split: option.splits if_splits)
next
  case (Suc n)
  show ?case
  proof (cases "k (drop (Suc n) s)")
    case None
    with Suc.prems have "rx_rep k cap least s n = Some gs"
      by (simp split: if_splits)
    from Suc.IH [OF this] obtain m gs' where "m \<le> n" "least \<le> m" "k (drop m s) = Some gs'"
      "gs = (if cap then take m s # gs' else gs')" by blast
    then show ?thesis by (intro exI [of _ m] exI [of _ gs']) simp
  next
    case (Some gs')
    with Suc.prems have "least \<le> Suc n"
      and "gs = (if cap then take (Suc n) s # gs' else gs')"
      by (simp_all split: if_splits)
    with Some show ?thesis by blast
  qed
qed

lemma regex_match_groups:
  "regex_match ps s = Some gs \<Longrightarrow>
     list_all2 (\<lambda>g cl. list_all (in_class cl) g) gs (rx_groups ps)"
proof (induction ps arbitrary: s gs)
  case Nil
  then show ?case by (auto split: if_splits)
next
  case (Cons p ps)
  show ?case
  proof (cases p)
    case (Lit c)
    with Cons.prems obtain xs where "s = c # xs" "regex_match ps xs = Some gs"
      by (cases s) (simp_all split: if_splits)
    with Cons.IH Lit show ?thesis by simp
  next
    case (Rep cap least cl)
    with Cons.prems have
      "rx_rep (regex_match ps) cap least s (length (takeWhile (in_class cl) s)) = Some gs"
      by simp
    from rx_rep_sound [OF this]
    obtain m gs' where m: "m \<le> length (takeWhile (in_class cl) s)"
      and rest: "regex_match ps (drop m s) = Some gs'"
      and gs: "gs = (if cap then take m s # gs' else gs')"
      by blast
    have "take m s = take m (takeWhile (in_class cl) s)"
      using m takeWhile_eq_take [of "in_class cl" s] by (metis min.absorb1 take_take)
    then have "list_all (in_class cl) (take m s)"
      by (simp add: list_all_iff) (meson in_set_takeD set_takeWhileD)
    then show ?thesis using Cons.IH [OF rest] gs Rep by simp
  qed
qed

end
