(* ===== verification/Util_Format.thy ===== *)
theory Util_Format
  imports Cpp_Text
begin

text \<open>
  The format strings of the daemon: splitting at a separator
  (\<open>src/src/util/token.hpp\<close>), the separator itself (\<open>refsymbol.hpp\<close>), the entries of a format
  with their defaults (\<open>format-entry.hpp\<close>) and the format record (\<open>format.hpp\<close>). \<open>size_t\<close> has
  32 bits on the target; \<open>npos\<close> is its largest value.
\<close>

section \<open>\<open>refsymbol_t\<close>\<close>

definition refsymbol_value :: char where
  "refsymbol_value = CHR 0x5C"

definition refsymbol_replace :: char where
  "refsymbol_replace = CHR ''/''"

definition refsymbol_validate :: "string \<Rightarrow> string" where
  "refsymbol_validate src =
     fold (\<lambda>i dst. if dst ! i = refsymbol_value then dst[i := refsymbol_replace] else dst)
       [0..<length src] src"

lemma refsymbol_validate_map:
  "refsymbol_validate src = map (\<lambda>c. if c = refsymbol_value then refsymbol_replace else c) src"
proof -
  let ?f = "\<lambda>c. if c = refsymbol_value then refsymbol_replace else c"
  have "n \<le> length src \<Longrightarrow>
    fold (\<lambda>i dst. if dst ! i = refsymbol_value then dst[i := refsymbol_replace] else dst)
      [0..<n] src = map ?f (take n src) @ drop n src" for n
  proof (induction n)
    case 0
    then show ?case by simp
  next
    case (Suc n)
    then have "drop n src = src ! n # drop (Suc n) src"
      by (simp add: Cons_nth_drop_Suc)
    with Suc show ?case
      by (auto simp: nth_append list_update_append take_Suc_conv_app_nth)
  qed
  from this [of "length src"] show ?thesis by (simp add: refsymbol_validate_def)
qed

section \<open>\<open>token_t\<close>\<close>

definition word_end :: "string \<Rightarrow> char \<Rightarrow> nat \<Rightarrow> nat" where
  "word_end src refsymbol start =
     (case str_find src refsymbol (Some start) of None \<Rightarrow> length src | Some e \<Rightarrow> e)"

lemma word_end_bounds:
  assumes "start \<le> length src"
  shows "start \<le> word_end src c start" "word_end src c start \<le> length src"
proof -
  have "index_of c (drop start src) = Some i \<Longrightarrow> start + i < length src" for i
    by (drule index_of_Some) auto
  then show "start \<le> word_end src c start" "word_end src c start \<le> length src"
    using assms by (auto simp: word_end_def str_find_def split: option.splits dest: less_imp_le)
qed

text \<open>
  The \<open>do\<close> loop of \<open>tokenize\<close> from position \<open>start\<close>: it always runs once; the word that starts
  at position zero is pushed only with \<open>first_only\<close>.
\<close>

function tokenize_from :: "string \<Rightarrow> char \<Rightarrow> bool \<Rightarrow> nat \<Rightarrow> (nat \<times> nat) list" where
  "tokenize_from src refsymbol first_only start =
     (let e = word_end src refsymbol start;
          pushed = (if first_only \<or> start \<noteq> 0 then [(start, e - start)] else [])
      in if first_only then pushed
         else if e + 1 < length src \<and> start < e + 1
         then pushed @ tokenize_from src refsymbol first_only (e + 1)
         else pushed)"
  by pat_completeness auto
termination
  by (relation "measure (\<lambda>(src, _, _, start). length src - start)") auto

declare tokenize_from.simps [simp del]

text \<open>
  The guard \<open>start < e + 1\<close> is not in the code; it holds for every position the loop
  reaches (\<open>word_end_bounds\<close>), so it only serves the termination proof.
\<close>

definition tokenize ::
  "(nat \<times> nat) list \<Rightarrow> string \<Rightarrow> char \<Rightarrow> bool \<Rightarrow> bool \<times> (nat \<times> nat) list" where
  "tokenize dst src refsymbol first_only =
     (True, dst @ tokenize_from src refsymbol first_only 0)"

text \<open>\<open>src.substr (pair.first, pair.second)\<close>\<close>

definition substr_pair :: "string \<Rightarrow> nat \<times> nat \<Rightarrow> string" where
  "substr_pair src p = take (snd p) (drop (fst p) src)"

text \<open>
  \<open>convert\<close>, decoding: one decoder per argument of the parameter pack, each updating a store
  of the decoded values and telling whether it succeeded; it stops at the first failure and
  fails when the tokens run out.
\<close>

fun convert_info ::
  "string \<Rightarrow> (nat \<times> nat) list \<Rightarrow> nat \<Rightarrow> (string \<Rightarrow> 's \<Rightarrow> 's \<times> bool) list \<Rightarrow> 's \<Rightarrow> bool \<times> 's" where
  "convert_info src pairs i [] s = (True, s)"
| "convert_info src pairs i (dec # decs) s =
     (if i \<ge> length pairs then (False, s)
      else case dec (substr_pair src (pairs ! i)) s of
             (s', good) \<Rightarrow> if good then convert_info src pairs (Suc i) decs s' else (False, s'))"

definition convert_decode ::
  "string \<Rightarrow> (nat \<times> nat) list \<Rightarrow> (string \<Rightarrow> 's \<Rightarrow> 's \<times> bool) list \<Rightarrow> 's \<Rightarrow> bool \<times> 's" where
  "convert_decode src pairs decs s = convert_info src pairs 0 decs s"

text \<open>\<open>convert\<close>, encoding: every encoded value followed by the separator.\<close>

fun convert_encode :: "string \<Rightarrow> char \<Rightarrow> string list \<Rightarrow> string" where
  "convert_encode dst refsymbol [] = dst"
| "convert_encode dst refsymbol (info # pack) =
     convert_encode (dst @ info @ [refsymbol]) refsymbol pack"

section \<open>The tokens are the words after the first separator\<close>

fun words_by :: "char \<Rightarrow> string \<Rightarrow> string list" where
  "words_by c s =
     (case index_of c s of
        None \<Rightarrow> [s]
      | Some i \<Rightarrow> take i s # (if Suc i < length s then words_by c (drop (Suc i) s) else []))"

declare words_by.simps [simp del]

lemma tokenize_from_words:
  assumes "start < length src"
  shows "map (substr_pair src) (tokenize_from src c False start)
    = (if start = 0 then tl else id) (words_by c (drop start src))"
  using assms
proof (induction "length src - start" arbitrary: start rule: less_induct)
  case less
  let ?e = "word_end src c start"
  have bounds: "start \<le> ?e" "?e \<le> length src"
    using word_end_bounds [of start src c] less.prems by auto
  show ?case
  proof (cases "index_of c (drop start src)")
    case None
    then have "?e = length src" by (simp add: word_end_def str_find_def)
    then show ?thesis
      using None less.prems
      by (subst tokenize_from.simps, subst words_by.simps) (auto simp: substr_pair_def)
  next
    case (Some i)
    then have e: "?e = start + i" by (simp add: word_end_def str_find_def)
    have first: "substr_pair src (start, ?e - start) = take i (drop start src)"
      by (simp add: substr_pair_def e)
    show ?thesis
    proof (cases "?e + 1 < length src")
      case True
      have IH: "map (substr_pair src) (tokenize_from src c False (?e + 1))
          = words_by c (drop (?e + 1) src)"
        using less.hyps [of "?e + 1"] bounds True by simp
      have "drop (Suc i) (drop start src) = drop (?e + 1) src"
        by (simp add: e add.commute)
      with True IH first Some e bounds show ?thesis
        by (subst tokenize_from.simps, subst words_by.simps) auto
    next
      case False
      with first Some e bounds show ?thesis
        by (subst tokenize_from.simps, subst words_by.simps) auto
    qed
  qed
qed

lemma tokenize_from_bounds:
  "start \<le> length src \<Longrightarrow> (p, n) \<in> set (tokenize_from src c b start) \<Longrightarrow> p + n \<le> length src"
proof (induction "length src - start" arbitrary: start rule: less_induct)
  case less
  have bounds: "start \<le> word_end src c start" "word_end src c start \<le> length src"
    using word_end_bounds [OF less.prems(1), of c] by auto
  show ?case
  proof (cases "(p, n) \<in> set (tokenize_from src c b (word_end src c start + 1))
      \<and> word_end src c start + 1 < length src")
    case True
    then show ?thesis using less.hyps [of "word_end src c start + 1"] bounds by auto
  next
    case False
    then show ?thesis
      using less.prems(2) bounds
      by (subst (asm) tokenize_from.simps) (auto simp: Let_def split: if_splits)
  qed
qed

text \<open>The extra guard of \<open>tokenize_from\<close> holds at every position the loop visits.\<close>

lemma tokenize_from_step:
  assumes "start \<le> length src"
  shows "tokenize_from src c first_only start =
    (let e = word_end src c start;
         pushed = (if first_only \<or> start \<noteq> 0 then [(start, e - start)] else [])
     in if first_only then pushed
        else if e + 1 < length src then pushed @ tokenize_from src c first_only (e + 1)
        else pushed)"
  using word_end_bounds(1) [OF assms, of c] by (subst tokenize_from.simps) (simp add: Let_def)

section \<open>\<open>entry_t\<close> and \<open>format_t\<close>\<close>

record 'i entry =
  e_key :: char
  e_info :: 'i
  e_default :: 'i

definition entry_new :: "char \<Rightarrow> 'i \<Rightarrow> 'i entry" where
  "entry_new k d = \<lparr>e_key = k, e_info = d, e_default = d\<rparr>"

definition entry_reset :: "'i entry \<Rightarrow> 'i entry" where
  "entry_reset e = e\<lparr>e_info := e_default e\<rparr>"

definition SIZE_BITS :: nat where
  "SIZE_BITS = 32"

definition npos :: nat where
  "npos = 2 ^ SIZE_BITS - 1"

record format_t =
  m_start :: "nat entry"
  m_size :: "nat entry"
  m_font :: "string entry"
  m_inversion :: "bool entry"

definition format_new :: format_t where
  "format_new = \<lparr>m_start = entry_new (CHR ''s'') 0, m_size = entry_new (CHR ''i'') npos,
     m_font = entry_new (CHR ''f'') [], m_inversion = entry_new (CHR ''n'') False\<rparr>"

definition format_end_key :: char where
  "format_end_key = CHR ''e''"

definition format_encode_empty :: string where
  "format_encode_empty = ''-''"

definition is_unlimited :: "format_t \<Rightarrow> bool" where
  "is_unlimited f \<longleftrightarrow> e_info (m_size f) = npos"

definition format_reset :: "format_t \<Rightarrow> format_t" where
  "format_reset f = f\<lparr>m_start := entry_reset (m_start f), m_size := entry_reset (m_size f),
     m_font := entry_reset (m_font f), m_inversion := entry_reset (m_inversion f)\<rparr>"

text \<open>
  \<open>decode\<close> of one token: its first character selects the entry, the rest is the value. The
  result is the returned status, the format and the out parameter \<open>last\<close>. A failed
  extraction may still have overwritten the entry.
\<close>

definition format_decode :: "format_t \<Rightarrow> bool \<Rightarrow> string \<Rightarrow> bool \<times> format_t \<times> bool" where
  "format_decode f is_last src =
     (case src of
        [] \<Rightarrow> (False, f, is_last)
      | key # rest \<Rightarrow>
          if key = e_key (m_start f) then
            (case read_unsigned SIZE_BITS rest (e_info (m_start f)) of
               (v, good) \<Rightarrow> (good, f\<lparr>m_start := (m_start f)\<lparr>e_info := v\<rparr>\<rparr>, is_last))
          else if key = e_key (m_size f) then
            (case read_unsigned SIZE_BITS rest (e_info (m_size f)) of
               (v, good) \<Rightarrow> (good, f\<lparr>m_size := (m_size f)\<lparr>e_info := v\<rparr>\<rparr>, is_last))
          else if key = e_key (m_font f) then
            (True, f\<lparr>m_font := (m_font f)\<lparr>e_info := rest\<rparr>\<rparr>, is_last)
          else if key = e_key (m_inversion f) then
            (case read_bool SIZE_BITS rest (e_info (m_inversion f)) of
               (v, good) \<Rightarrow> (good, f\<lparr>m_inversion := (m_inversion f)\<lparr>e_info := v\<rparr>\<rparr>, is_last))
          else if key = format_end_key then (True, f, True)
          else (False, f, is_last))"

text \<open>
  The inner \<open>split\<close>: consumes tokens from \<open>count\<close> until one ends a format. Tokens that do not
  decode are skipped. The result is the status, the format and the new \<open>count\<close>.
\<close>

function format_split_one ::
  "format_t \<Rightarrow> nat \<Rightarrow> (nat \<times> nat) list \<Rightarrow> string \<Rightarrow> bool \<times> format_t \<times> nat" where
  "format_split_one f count pairs src =
     (if count < length pairs then
        (case format_decode f False (substr_pair src (pairs ! count)) of
           (good, f', is_last) \<Rightarrow>
             if good \<and> is_last then (True, f', Suc count)
             else format_split_one f' (Suc count) pairs src)
      else (False, f, count))"
  by pat_completeness auto
termination
  by (relation "measure (\<lambda>(_, count, pairs, _). length pairs - count)") auto

declare format_split_one.simps [simp del]

lemma format_split_one_progress:
  "format_split_one f count pairs src = (True, f', count') \<Longrightarrow> count < count' \<and> count' \<le> length pairs"
proof (induction f count pairs src rule: format_split_one.induct)
  case (1 f count pairs src)
  obtain good g is_last where
    dec: "format_decode f False (substr_pair src (pairs ! count)) = (good, g, is_last)"
    by (cases "format_decode f False (substr_pair src (pairs ! count))") auto
  show ?case
  proof (cases "count < length pairs")
    case True
    show ?thesis
    proof (cases "good \<and> is_last")
      case True
      with "1.prems" dec \<open>count < length pairs\<close> show ?thesis
        by (simp add: format_split_one.simps [of f count])
    next
      case False
      with "1.prems" dec True have "format_split_one g (Suc count) pairs src = (True, f', count')"
        by (subst (asm) format_split_one.simps) auto
      with "1.IH" [OF True dec [symmetric] refl False] show ?thesis by simp
    qed
  next
    case False
    with "1.prems" show ?thesis by (subst (asm) format_split_one.simps) simp
  qed
qed

text \<open>The \<open>while\<close> loop of the outer \<open>split\<close>: a copy of every finished format, then a reset.\<close>

function format_split_loop ::
  "format_t \<Rightarrow> nat \<Rightarrow> (nat \<times> nat) list \<Rightarrow> string \<Rightarrow> format_t list" where
  "format_split_loop f count pairs src =
     (case format_split_one f count pairs src of
        (found, f', count') \<Rightarrow>
          if found then f' # format_split_loop (format_reset f') count' pairs src else [])"
  by pat_completeness auto
termination
proof (relation "measure (\<lambda>(_, count, pairs, _). length pairs - count)", goal_cases)
  case 1
  then show ?case by simp
next
  case 2
  then show ?case by (auto dest!: format_split_one_progress [OF sym])
qed

declare format_split_loop.simps [simp del]

definition format_split :: "format_t list \<Rightarrow> string \<Rightarrow> bool \<times> format_t list" where
  "format_split dst src =
     (case tokenize [] src refsymbol_replace False of
        (ok, pairs) \<Rightarrow>
          if \<not> ok then (False, dst)
          else let dst' = dst @ format_split_loop format_new 0 pairs src
               in (dst' \<noteq> [], dst'))"

lemma format_split_empty: "format_split [] format_encode_empty = (False, [])"
  by (simp add: format_split_def format_encode_empty_def tokenize_def tokenize_from.simps
      word_end_def str_find_def refsymbol_replace_def format_split_loop.simps
      format_split_one.simps)

section \<open>Properties\<close>

text \<open>
  The tokens of a text are its words between separators, without the word before the first
  separator: \<open>tokenize\<close> never records position zero unless it was asked for the first word only.
\<close>

theorem tokenize_words:
  assumes "src \<noteq> []"
  shows "map (substr_pair src) (snd (tokenize [] src c False)) = tl (words_by c src)
    \<and> map (substr_pair src) (snd (tokenize [] src c True)) = [hd (words_by c src)]"
proof
  show "map (substr_pair src) (snd (tokenize [] src c False)) = tl (words_by c src)"
    using tokenize_from_words [of 0 src c] assms by (simp add: tokenize_def)
  have "tokenize_from src c True 0 = [(0, word_end src c 0)]"
    by (subst tokenize_from.simps) simp
  moreover have "take (word_end src c 0) src = hd (words_by c src)"
    by (subst words_by.simps) (auto simp: word_end_def str_find_def split: option.split)
  ultimately show "map (substr_pair src) (snd (tokenize [] src c True)) = [hd (words_by c src)]"
    by (simp add: tokenize_def substr_pair_def)
qed

lemma tokenize_words_witness:
  "map (substr_pair ''x/s3/e'') (snd (tokenize [] ''x/s3/e'' (CHR ''/'') False)) = [''s3'', ''e'']"
proof -
  have "words_by (CHR ''/'') ''x/s3/e'' = [''x'', ''s3'', ''e'']"
    by (simp add: words_by.simps)
  then show ?thesis using tokenize_words [of "''x/s3/e''" "CHR ''/''"] by simp
qed

end
