(* ===== verification/Pi_Command.thy ===== *)
theory Pi_Command
  imports Cpp_Text Util_Queue
begin

text \<open>
  Commands for the shell and their results: the command ids (\<open>src/src/pi/command-id.hpp\<close>), the
  command (\<open>command.cpp\<close>), the status sent back (\<open>status.cpp\<close>) and the text on its way to the
  display (\<open>info.hpp\<close>). The ids are ordered as the enumeration, which is the order of the
  \<open>std::map\<close>s keyed by them.
\<close>

section \<open>Command ids\<close>

datatype command_id =
    MPC_PLAY
  | MPC_PLAYLIST_GET
  | MPC_PLAYLIST_NAME
  | MPC_PLAYLIST_SET
  | MPC_STOP
  | MPC_TRACK_GET
  | MPC_TRACK_NAME
  | MPC_TRACK_SET
  | MPC_VOLUME_GET
  | MPC_VOLUME_SET
  | POWEROFF
  | SHUTDOWN
  | REBOOT
  | STREAM_CLOCK
  | STREAM_SYSTEM
  | STREAM_TRACK_NAME

definition command_id_list :: "command_id list" where
  "command_id_list = [MPC_PLAY, MPC_PLAYLIST_GET, MPC_PLAYLIST_NAME, MPC_PLAYLIST_SET,
     MPC_STOP, MPC_TRACK_GET, MPC_TRACK_NAME, MPC_TRACK_SET,
     MPC_VOLUME_GET, MPC_VOLUME_SET, POWEROFF, SHUTDOWN,
     REBOOT, STREAM_CLOCK, STREAM_SYSTEM, STREAM_TRACK_NAME]"

definition command_id_stream :: "command_id \<Rightarrow> bool" where
  "command_id_stream i \<longleftrightarrow> i = STREAM_CLOCK \<or> i = STREAM_SYSTEM \<or> i = STREAM_TRACK_NAME"

fun command_id_name :: "command_id \<Rightarrow> string" where
  "command_id_name MPC_PLAY = ''mpc-play''"
| "command_id_name MPC_PLAYLIST_GET = ''mpc-playlist-get''"
| "command_id_name MPC_PLAYLIST_NAME = ''mpc-playlist-name''"
| "command_id_name MPC_PLAYLIST_SET = ''mpc-playlist-set''"
| "command_id_name MPC_STOP = ''mpc-stop''"
| "command_id_name MPC_TRACK_GET = ''mpc-track-get''"
| "command_id_name MPC_TRACK_NAME = ''mpc-track-name''"
| "command_id_name MPC_TRACK_SET = ''mpc-track-set''"
| "command_id_name MPC_VOLUME_GET = ''mpc-volume-get''"
| "command_id_name MPC_VOLUME_SET = ''mpc-volume-set''"
| "command_id_name POWEROFF = ''poweroff''"
| "command_id_name SHUTDOWN = ''shutdown''"
| "command_id_name REBOOT = ''reboot''"
| "command_id_name STREAM_CLOCK = ''stream-clock''"
| "command_id_name STREAM_SYSTEM = ''stream-system''"
| "command_id_name STREAM_TRACK_NAME = ''stream-track-name''"

fun command_id_rank :: "command_id \<Rightarrow> nat" where
  "command_id_rank MPC_PLAY = 0"
| "command_id_rank MPC_PLAYLIST_GET = 1"
| "command_id_rank MPC_PLAYLIST_NAME = 2"
| "command_id_rank MPC_PLAYLIST_SET = 3"
| "command_id_rank MPC_STOP = 4"
| "command_id_rank MPC_TRACK_GET = 5"
| "command_id_rank MPC_TRACK_NAME = 6"
| "command_id_rank MPC_TRACK_SET = 7"
| "command_id_rank MPC_VOLUME_GET = 8"
| "command_id_rank MPC_VOLUME_SET = 9"
| "command_id_rank POWEROFF = 10"
| "command_id_rank SHUTDOWN = 11"
| "command_id_rank REBOOT = 12"
| "command_id_rank STREAM_CLOCK = 13"
| "command_id_rank STREAM_SYSTEM = 14"
| "command_id_rank STREAM_TRACK_NAME = 15"

lemma command_id_rank_inject: "(command_id_rank i = command_id_rank j) = (i = j)"
  by (cases i; cases j) simp_all

instantiation command_id :: linorder
begin

definition less_eq_command_id :: "command_id \<Rightarrow> command_id \<Rightarrow> bool" where
  "less_eq_command_id i j \<longleftrightarrow> command_id_rank i \<le> command_id_rank j"

definition less_command_id :: "command_id \<Rightarrow> command_id \<Rightarrow> bool" where
  "less_command_id i j \<longleftrightarrow> command_id_rank i < command_id_rank j"

instance
  by standard (auto simp: less_eq_command_id_def less_command_id_def
      command_id_rank_inject [symmetric])

end

lemma command_id_list_all: "set command_id_list = UNIV"
proof -
  have "i \<in> set command_id_list" for i
    by (cases i) (simp_all add: command_id_list_def)
  then show ?thesis by auto
qed

lemma command_id_list_sorted: "sorted command_id_list" "distinct command_id_list"
  by (simp_all add: command_id_list_def less_eq_command_id_def)

lemma command_id_name_inject: "(command_id_name i = command_id_name j) = (i = j)"
  by (cases i; cases j) simp_all

section \<open>Statuses\<close>

record status =
  s_id :: command_id
  s_value :: int
  s_out :: string

type_synonym status_queue = "status condition_queue"

definition status_new :: "command_id \<Rightarrow> int \<Rightarrow> string \<Rightarrow> status" where
  "status_new i v out = \<lparr>s_id = i, s_value = v, s_out = out\<rparr>"

definition status_stream :: "status \<Rightarrow> bool" where
  "status_stream s = command_id_stream (s_id s)"

definition status_good :: int where
  "status_good = 0"

definition status_bad :: int where
  "status_bad = 2 ^ 31 - 1"

definition status_timeout :: int where
  "status_timeout = - (2 ^ 31)"

lemma status_distinct [simp]:
  "status_bad \<noteq> status_good" "status_timeout \<noteq> status_good" "status_bad \<noteq> status_timeout"
  "status_good \<noteq> status_bad" "status_good \<noteq> status_timeout"
  by (simp_all add: status_good_def status_bad_def status_timeout_def)

section \<open>Commands\<close>

text \<open>The asio timer of a command, as far as the code uses it: armed or cancelled.\<close>

datatype timer = Armed int | Cancelled

text \<open>\<open>c_popen\<close> says whether the popen object is attached; its state is kept by the shell.\<close>

record command =
  c_id :: command_id
  c_body :: string
  c_timeout :: int
  c_timer :: "timer option"
  c_popen :: bool
  c_result_list :: "string list"

type_synonym command_queue = "command condition_queue"

definition command_new :: "command_id \<Rightarrow> string \<Rightarrow> int \<Rightarrow> command" where
  "command_new i body time_out =
     \<lparr>c_id = i, c_body = body, c_timeout = time_out, c_timer = None, c_popen = False,
      c_result_list = []\<rparr>"

definition command_stream :: "command \<Rightarrow> bool" where
  "command_stream c = command_id_stream (c_id c)"

definition command_wrap :: "command \<Rightarrow> bool" where
  "command_wrap c \<longleftrightarrow> \<not> command_stream c"

definition command_cancel_timeout :: "command \<Rightarrow> command" where
  "command_cancel_timeout c =
     (case c_timer c of None \<Rightarrow> c | Some _ \<Rightarrow> c\<lparr>c_timer := Some Cancelled\<rparr>)"

definition command_infinity :: int where
  "command_infinity = 2 ^ 31 - 1"

definition three_seconds :: int where
  "three_seconds = 3"

definition ten_seconds :: int where
  "ten_seconds = 10"

definition command_add_result :: "command \<Rightarrow> string \<Rightarrow> command" where
  "command_add_result c info = c\<lparr>c_result_list := c_result_list c @ [info]\<rparr>"

definition command_result :: "command \<Rightarrow> string" where
  "command_result c =
     foldl (\<lambda>res info. (if res \<noteq> [] then res @ [char_of (10 :: nat)] else res) @ info) []
       (c_result_list c)"

text \<open>\<open>issue\<close> makes a command and pushes it; the queue is the shell's.\<close>

definition command_issue ::
  "command_id \<Rightarrow> string \<Rightarrow> int \<Rightarrow> command_queue \<Rightarrow> command_queue" where
  "command_issue i body time_out queue = fst (cq_push queue (command_new i body time_out))"

lemma command_issue_holder [simp]:
  "m_holder (command_issue i body t q) = m_holder q @ [command_new i body t]"
  by (simp add: command_issue_def)

text \<open>The result is the lines joined by newlines, when no line is empty.\<close>

fun join_lines :: "string list \<Rightarrow> string" where
  "join_lines [] = []"
| "join_lines [l] = l"
| "join_lines (l # ls) = l @ char_of (10 :: nat) # join_lines ls"

lemma command_result_join:
  "list_all (\<lambda>l. l \<noteq> []) (c_result_list c) \<Longrightarrow> command_result c = join_lines (c_result_list c)"
proof -
  have acc: "list_all (\<lambda>l. l \<noteq> []) ls \<Longrightarrow> l \<noteq> [] \<Longrightarrow>
    foldl (\<lambda>res info. (if res \<noteq> [] then res @ [char_of (10 :: nat)] else res) @ info) (xs @ l) ls
      = xs @ join_lines (l # ls)" for xs l ls
  proof (induction ls arbitrary: xs l)
    case Nil
    then show ?case by simp
  next
    case (Cons a ls)
    then show ?case using Cons.IH [of a "xs @ l @ [char_of (10 :: nat)]"] by simp
  qed
  assume "list_all (\<lambda>l. l \<noteq> []) (c_result_list c)"
  then show ?thesis
    using acc [of "tl (c_result_list c)" "hd (c_result_list c)" "[]"]
    by (cases "c_result_list c") (simp_all add: command_result_def)
qed

section \<open>Infos\<close>

record info =
  i_text :: string
  i_format :: string
  i_flag :: "u8 option"

definition info_new :: "string \<Rightarrow> string \<Rightarrow> u8 option \<Rightarrow> info" where
  "info_new t f flag = \<lparr>i_text = t, i_format = f, i_flag = flag\<rparr>"

end
