(* ===== verification/Pi_Popen.thy ===== *)
theory Pi_Popen
  imports Cpp_Text
begin

text \<open>
  Reading a child process line by line: \<open>src/src/pi/popen.cpp\<close>. The pipe, its asio descriptor and
  the process are outside the sources; what arrives from them is the argument of
  \<open>popen_handle_read\<close>: a chunk of bytes, or nothing for an error code. The two callbacks given
  to the constructor are modelled by the events they are called with, in order.
\<close>

section \<open>State and splitting\<close>

datatype popen_event = Info_arrived string | Error_occurred

record popen =
  p_pid :: int
  p_status :: "int option"
  p_buf :: string

definition popen_new :: popen where
  "popen_new = \<lparr>p_pid = 0, p_status = None, p_buf = []\<rparr>"

text \<open>The constructor throws when \<open>popen\<close> of the C library fails (\<open>spawned\<close> is false).\<close>

definition popen_create :: "bool \<Rightarrow> string \<Rightarrow> cpp_exn + popen" where
  "popen_create spawned cmd_body =
     (if spawned then Inr popen_new
      else Inl (Runtime_error (''Failed to invoke command '' @ [CHR 0x22] @ cmd_body @ [CHR 0x22])))"

text \<open>\<open>\s*([^: ]+)\s*:\s*(\d+)\s*\<close>\<close>

definition popen_regex :: "piece list" where
  "popen_regex = [Rep False 0 Space, Rep True 1 (Not_of '': ''), Rep False 0 Space, Lit (CHR '':''),
     Rep False 0 Space, Rep True 1 Digit, Rep False 0 Space]"

text \<open>\<open>split\<close>: the first two groups of a full match. \<open>result.size ()\<close> counts the whole match too.\<close>

definition popen_split :: "piece list \<Rightarrow> string \<Rightarrow> (string \<times> string) option" where
  "popen_split regex src =
     (case regex_match regex src of
        None \<Rightarrow> None
      | Some groups \<Rightarrow> if Suc (length groups) < 3 then None else Some (groups ! 0, groups ! 1))"

text \<open>\<open>kill\<close> refuses while no pid is known; \<open>kill_ok\<close> is the result of the system call.\<close>

definition popen_kill :: "popen \<Rightarrow> bool \<Rightarrow> bool" where
  "popen_kill p kill_ok = (if p_pid p = 0 then False else kill_ok)"

section \<open>Reading\<close>

text \<open>\<open>filter\<close>: lines \<open>pid:n\<close> and \<open>status:n\<close> are consumed, any other line passes.\<close>

definition popen_filter :: "popen \<Rightarrow> string \<Rightarrow> popen \<times> string" where
  "popen_filter p info =
     (case popen_split popen_regex info of
        None \<Rightarrow> (p, info)
      | Some (prefix, suffix) \<Rightarrow>
          if prefix \<noteq> ''pid'' \<and> prefix \<noteq> ''status'' then (p, info)
          else if prefix = ''pid'' then (p\<lparr>p_pid := fst (read_signed 32 suffix (p_pid p))\<rparr>, [])
          else (p\<lparr>p_status := Some (fst (read_signed 32 suffix (- 1)))\<rparr>, []))"

lemma popen_filter_buf [simp]: "p_buf (fst (popen_filter p info)) = p_buf p"
  by (simp add: popen_filter_def split: option.split)

lemma popen_filter_update_buf:
  "popen_filter (p\<lparr>p_buf := b\<rparr>) info =
     ((fst (popen_filter p info))\<lparr>p_buf := b\<rparr>, snd (popen_filter p info))"
  by (simp add: popen_filter_def split: option.split)

definition newline :: char where
  "newline = char_of (10 :: nat)"

text \<open>The loop over the complete lines of \<open>m_buf\<close>.\<close>

function popen_lines :: "popen \<Rightarrow> popen \<times> popen_event list" where
  "popen_lines p =
     (case index_of newline (p_buf p) of
        None \<Rightarrow> (p, [])
      | Some i \<Rightarrow>
          (let line = take i (p_buf p);
               p1 = p\<lparr>p_buf := drop (Suc i) (p_buf p)\<rparr>;
               p2 = fst (popen_filter p1 line);
               info = snd (popen_filter p1 line);
               rest = popen_lines p2
           in (fst rest, (if info \<noteq> [] then [Info_arrived info] else []) @ snd rest)))"
  by pat_completeness auto
termination
proof (relation "measure (\<lambda>p. length (p_buf p))", goal_cases)
  case (2 p i line p1 p2 info)
  then have "i < length (p_buf p)" by (auto dest: index_of_Some)
  with 2 show ?case by simp
qed simp

declare popen_lines.simps [simp del]

definition popen_handle_read :: "popen \<Rightarrow> string option \<Rightarrow> popen \<times> popen_event list" where
  "popen_handle_read p arrived =
     (case arrived of
        None \<Rightarrow> (p\<lparr>p_pid := 0\<rparr>, [Error_occurred])
      | Some chunk \<Rightarrow> popen_lines (p\<lparr>p_buf := p_buf p @ chunk\<rparr>))"

fun popen_read_all :: "popen \<Rightarrow> string list \<Rightarrow> popen \<times> popen_event list" where
  "popen_read_all p [] = (p, [])"
| "popen_read_all p (chunk # chunks) =
     (case popen_handle_read p (Some chunk) of (p', es) \<Rightarrow>
        case popen_read_all p' chunks of (p'', es') \<Rightarrow> (p'', es @ es'))"

section \<open>Lines do not depend on how the bytes were cut\<close>

lemma index_of_append_Some: "index_of c xs = Some i \<Longrightarrow> index_of c (xs @ ys) = Some i"
proof (induction xs arbitrary: i)
  case Nil
  then show ?case by simp
next
  case (Cons x xs)
  then show ?case by (auto split: if_splits)
qed

lemma popen_lines_append:
  "popen_lines (p\<lparr>p_buf := p_buf p @ ys\<rparr>) =
     (case popen_lines p of (p', es) \<Rightarrow>
        case popen_lines (p'\<lparr>p_buf := p_buf p' @ ys\<rparr>) of (p'', es') \<Rightarrow> (p'', es @ es'))"
proof (induction p rule: popen_lines.induct)
  case (1 p)
  show ?case
  proof (cases "index_of newline (p_buf p)")
    case None
    then have "popen_lines p = (p, [])" by (simp add: popen_lines.simps [of p])
    then show ?thesis by (simp add: case_prod_beta)
  next
    case (Some i)
    then have i: "i < length (p_buf p)" by (auto dest: index_of_Some)
    let ?line = "take i (p_buf p)"
    let ?p1 = "p\<lparr>p_buf := drop (Suc i) (p_buf p)\<rparr>"
    let ?p2 = "fst (popen_filter ?p1 ?line)"
    let ?es = "if snd (popen_filter ?p1 ?line) \<noteq> []
      then [Info_arrived (snd (popen_filter ?p1 ?line))] else []"
    have here: "popen_lines p = (fst (popen_lines ?p2), ?es @ snd (popen_lines ?p2))"
      using Some by (subst popen_lines.simps) (simp add: Let_def)
    have there: "popen_lines (p\<lparr>p_buf := p_buf p @ ys\<rparr>)
        = (fst (popen_lines (?p2\<lparr>p_buf := p_buf ?p2 @ ys\<rparr>)),
           ?es @ snd (popen_lines (?p2\<lparr>p_buf := p_buf ?p2 @ ys\<rparr>)))"
      using Some i index_of_append_Some [OF Some, of ys]
      by (subst popen_lines.simps) (simp add: Let_def popen_filter_update_buf)
    have IH: "popen_lines (?p2\<lparr>p_buf := p_buf ?p2 @ ys\<rparr>) =
       (case popen_lines ?p2 of (p', es) \<Rightarrow>
        case popen_lines (p'\<lparr>p_buf := p_buf p' @ ys\<rparr>) of (p'', es') \<Rightarrow> (p'', es @ es'))"
      using "1.IH" [OF Some refl refl refl refl] .
    show ?thesis unfolding here there IH by (simp only: case_prod_beta fst_conv snd_conv append_assoc)
  qed
qed

lemma popen_read_all_concat:
  "chunks \<noteq> [] \<Longrightarrow> popen_read_all p chunks = popen_handle_read p (Some (concat chunks))"
proof (induction chunks arbitrary: p)
  case Nil
  then show ?case by simp
next
  case (Cons chunk chunks)
  show ?case
  proof (cases "chunks = []")
    case True
    then show ?thesis by (simp add: case_prod_beta)
  next
    case False
    then show ?thesis
      using Cons.IH popen_lines_append [of "p\<lparr>p_buf := p_buf p @ chunk\<rparr>" "concat chunks"]
      by (simp add: popen_handle_read_def case_prod_beta)
  qed
qed

section \<open>Properties\<close>

text \<open>
  What a child process prints is read line by line: the events and the state after any
  sequence of reads depend on the bytes only, not on how they were cut into reads.
\<close>

theorem popen_chunks_irrelevant:
  assumes "chunks \<noteq> []" "chunks' \<noteq> []" "concat chunks = concat chunks'"
  shows "popen_read_all p chunks = popen_read_all p chunks'"
  using assms by (simp add: popen_read_all_concat)

lemma popen_chunks_irrelevant_witness:
  "popen_read_all popen_new [''pid'', '':7'' @ [newline] @ ''o'', ''k'' @ [newline]] =
   popen_read_all popen_new [''pid:7'' @ [newline], ''ok'' @ [newline]]"
  by (rule popen_chunks_irrelevant) simp_all

text \<open>
  The lines the wrapper script adds are consumed: \<open>status:n\<close> sets the exit status and
  \<open>pid:n\<close> the process id, for every \<open>n\<close> below the limit of \<open>int\<close>, and neither reaches the callback.
\<close>

theorem popen_filter_protocol:
  assumes "n < 2 ^ 31"
  shows "popen_filter p (''status:'' @ dec_string n) = (p\<lparr>p_status := Some (int n)\<rparr>, [])
    \<and> popen_filter p (''pid:'' @ dec_string n) = (p\<lparr>p_pid := int n\<rparr>, [])"
proof -
  have digits: "list_all is_digit (dec_string n)" "dec_string n \<noteq> []"
    by (simp_all add: dec_string_digits)
  have "\<not> is_space (hd (dec_string n))"
    using digits digit_not_space by (cases "dec_string n") auto
  then have sp: "regex_match [Rep False 0 Space, Rep True 1 Digit, Rep False 0 Space] (dec_string n)
      = Some [dec_string n]"
    using regex_match_Rep_greedy [of Digit "dec_string n" "[]" 1 "[Rep False 0 Space]" "[]" True]
      regex_match_Rep_greedy [of Space "[]" "[]" 0 "[]" "[]" False] digits
      regex_match_Rep_greedy [of Space "[]" "dec_string n" 0 "[Rep True 1 Digit, Rep False 0 Space]"
        "[dec_string n]" False]
    by (simp add: list_all_iff Suc_le_eq)
  have split: "regex_match popen_regex (w @ '':'' @ dec_string n) = Some [w, dec_string n]"
    if "w \<noteq> []" "\<forall>c \<in> set w. c \<noteq> CHR '':'' \<and> c \<noteq> CHR '' '' \<and> \<not> is_space c" for w
  proof -
    let ?r = "Rep False 0 Space # Lit (CHR '':'') # [Rep False 0 Space, Rep True 1 Digit, Rep False 0 Space]"
    have 1: "regex_match ?r ('':'' @ dec_string n) = Some [dec_string n]"
      using regex_match_Rep_greedy [of Space "[]" "'':'' @ dec_string n" 0 "tl ?r" "[dec_string n]" False] sp
      by (simp add: is_space_def)
    have 2: "regex_match (Rep True 1 (Not_of '': '') # ?r) (w @ '':'' @ dec_string n)
        = Some [w, dec_string n]"
      using regex_match_Rep_greedy [of "Not_of '': ''" w "'':'' @ dec_string n" 1 ?r "[dec_string n]" True]
        1 that by (simp add: list_all_iff Suc_le_eq)
    have "\<not> is_space (hd w)" using that by (cases w) auto
    then show ?thesis
      using regex_match_Rep_greedy [of Space "[]" "w @ '':'' @ dec_string n" 0 _ "[w, dec_string n]" False]
        2 that(1) by (simp add: popen_regex_def)
  qed
  have read: "read_signed 32 (dec_string n) old = (int n, True)" for old
    using assms digits by (simp add: read_signed_def scan_number_digits)
  show ?thesis
    using split [of "''status''"] split [of "''pid''"]
    by (simp add: popen_filter_def popen_split_def read is_space_def)
qed

lemma popen_filter_protocol_witness:
  "popen_filter popen_new (''status:'' @ dec_string 3) = (popen_new\<lparr>p_status := Some 3\<rparr>, [])"
  using popen_filter_protocol [of 3 popen_new] by simp

end
