(* ===== verification/Protocol.thy ===== *)
theory Protocol
  imports Prelude
begin

text \<open>
  The constants shared by the daemon and the firmware, \<open>src/src/const/constant.h\<close>: the frame
  marks of the SPI protocol and the enumerations of message ids, status codes, debug domains
  and parameters, each an \<open>uint8_t\<close> on the wire. A frame is
  \<open>EYE_CATCH size serial msg-id payload\<close>, \<open>size\<close> counting everything after itself.
\<close>

section \<open>Marks and sizes\<close>

definition PROTOCOL_VERSION :: u8 where
  "PROTOCOL_VERSION = 1"

definition SERIAL_ID_TO_IGNORE :: u8 where
  "SERIAL_ID_TO_IGNORE = 0"

definition EYE_CATCH :: u8 where
  "EYE_CATCH = 250"

definition SPI_READ_OVERFLOW :: u8 where
  "SPI_READ_OVERFLOW = 245"

definition SPI_WRITE_UNDERFLOW :: u8 where
  "SPI_WRITE_UNDERFLOW = 240"

definition SPI_SPEED_ERROR :: u8 where
  "SPI_SPEED_ERROR = 235"

definition QUEUE_INIT_PATTERN :: u8 where
  "QUEUE_INIT_PATTERN = 230"

definition MSG_OVERHEAD :: u8 where
  "MSG_OVERHEAD = 6"

definition LED_ARRAY_SIZE :: u8 where
  "LED_ARRAY_SIZE = 20"

definition BUFFER_INIT_PATTERN :: u8 where
  "BUFFER_INIT_PATTERN = QUEUE_INIT_PATTERN"

section \<open>Message ids\<close>

definition MSG_ID_DEBUG :: u8 where
  "MSG_ID_DEBUG = 0"

definition MSG_ID_EMPTY :: u8 where
  "MSG_ID_EMPTY = 1"

definition MSG_ID_HANDSHAKE :: u8 where
  "MSG_ID_HANDSHAKE = 2"

definition MSG_ID_IDLE :: u8 where
  "MSG_ID_IDLE = 3"

definition MSG_ID_LED_ARRAY :: u8 where
  "MSG_ID_LED_ARRAY = 4"

definition MSG_ID_PARAM_SET :: u8 where
  "MSG_ID_PARAM_SET = 5"

definition MSG_ID_POWEROFF :: u8 where
  "MSG_ID_POWEROFF = 6"

definition MSG_ID_QUERY_NAME :: u8 where
  "MSG_ID_QUERY_NAME = 7"

definition MSG_ID_QUERY_NUMBER :: u8 where
  "MSG_ID_QUERY_NUMBER = 8"

definition MSG_ID_REBOOT :: u8 where
  "MSG_ID_REBOOT = 9"

definition MSG_ID_RESUME :: u8 where
  "MSG_ID_RESUME = 10"

definition MSG_ID_STATUS :: u8 where
  "MSG_ID_STATUS = 11"

definition MSG_ID_SUSPEND :: u8 where
  "MSG_ID_SUSPEND = 12"

definition MSG_ID_SYNC_CLOCK :: u8 where
  "MSG_ID_SYNC_CLOCK = 13"

definition MSG_ID_VERSION :: u8 where
  "MSG_ID_VERSION = 14"

section \<open>Status codes\<close>

definition STATUS_SUCCESS :: u8 where
  "STATUS_SUCCESS = 0"

definition STATUS_FAIL :: u8 where
  "STATUS_FAIL = 1"

definition STATUS_UNKNOWN_MSG :: u8 where
  "STATUS_UNKNOWN_MSG = 2"

section \<open>Debug domains\<close>

definition DEBUG_BOOST :: u8 where
  "DEBUG_BOOST = 0"

definition DEBUG_BUZZ :: u8 where
  "DEBUG_BUZZ = 1"

definition DEBUG_CLOCK :: u8 where
  "DEBUG_CLOCK = 2"

definition DEBUG_DECODE :: u8 where
  "DEBUG_DECODE = 3"

definition DEBUG_FAN :: u8 where
  "DEBUG_FAN = 4"

definition DEBUG_FLUSH :: u8 where
  "DEBUG_FLUSH = 5"

definition DEBUG_MENU :: u8 where
  "DEBUG_MENU = 6"

definition DEBUG_ROTOR :: u8 where
  "DEBUG_ROTOR = 7"

definition DEBUG_SPI :: u8 where
  "DEBUG_SPI = 8"

definition DEBUG_TWI :: u8 where
  "DEBUG_TWI = 9"

definition DEBUG_WATCH :: u8 where
  "DEBUG_WATCH = 10"

section \<open>Parameters\<close>

definition PARAMETER_GO_AHEAD :: u8 where
  "PARAMETER_GO_AHEAD = 0"

definition PARAMETER_NEGATIVE :: u8 where
  "PARAMETER_NEGATIVE = 1"

definition PARAMETER_POSITIVE :: u8 where
  "PARAMETER_POSITIVE = 2"

definition PARAMETER_PLAYLIST :: u8 where
  "PARAMETER_PLAYLIST = 3"

definition PARAMETER_TRACK :: u8 where
  "PARAMETER_TRACK = 4"

definition PARAMETER_VOLUME :: u8 where
  "PARAMETER_VOLUME = 5"

section \<open>Collections\<close>

text \<open>The constants are numerals for the simplifier, so that their equality is decided.\<close>

lemmas mark_defs [simp] =
  PROTOCOL_VERSION_def SERIAL_ID_TO_IGNORE_def EYE_CATCH_def
  SPI_READ_OVERFLOW_def SPI_WRITE_UNDERFLOW_def SPI_SPEED_ERROR_def
  QUEUE_INIT_PATTERN_def MSG_OVERHEAD_def LED_ARRAY_SIZE_def

lemmas msg_id_defs [simp] =
  MSG_ID_DEBUG_def MSG_ID_EMPTY_def MSG_ID_HANDSHAKE_def
  MSG_ID_IDLE_def MSG_ID_LED_ARRAY_def MSG_ID_PARAM_SET_def
  MSG_ID_POWEROFF_def MSG_ID_QUERY_NAME_def MSG_ID_QUERY_NUMBER_def
  MSG_ID_REBOOT_def MSG_ID_RESUME_def MSG_ID_STATUS_def
  MSG_ID_SUSPEND_def MSG_ID_SYNC_CLOCK_def MSG_ID_VERSION_def

lemmas status_defs [simp] =
  STATUS_SUCCESS_def STATUS_FAIL_def STATUS_UNKNOWN_MSG_def

lemmas debug_defs [simp] =
  DEBUG_BOOST_def DEBUG_BUZZ_def DEBUG_CLOCK_def
  DEBUG_DECODE_def DEBUG_FAN_def DEBUG_FLUSH_def
  DEBUG_MENU_def DEBUG_ROTOR_def DEBUG_SPI_def
  DEBUG_TWI_def DEBUG_WATCH_def

lemmas parameter_defs [simp] =
  PARAMETER_GO_AHEAD_def PARAMETER_NEGATIVE_def PARAMETER_POSITIVE_def
  PARAMETER_PLAYLIST_def PARAMETER_TRACK_def PARAMETER_VOLUME_def

end
