(* ===== verification/Framing.thy ===== *)
theory Framing
  imports Prelude
begin

text \<open>
  The contract of a byte-wise frame parser, which both ends of the SPI link have: a parser
  that is idle ignores noise, and turns the bytes of a frame into the message it carries and
  is idle again. The locale derives that a stream of frames separated by noise is read
  completely and in order. It is interpreted on the daemon's parser in \<open>Pi_Mcu\<close>.
\<close>

text \<open>Feeding a parser a list of bytes: the final state and the messages, in order.\<close>

fun feed :: "('s \<Rightarrow> u8 \<Rightarrow> 's \<times> 'm option) \<Rightarrow> 's \<Rightarrow> bytes \<Rightarrow> 's \<times> 'm list" where
  "feed push s [] = (s, [])"
| "feed push s (b # bs) =
     (case push s b of (s', out) \<Rightarrow>
        case feed push s' bs of (s'', ms) \<Rightarrow>
          (s'', (case out of None \<Rightarrow> [] | Some m \<Rightarrow> [m]) @ ms))"

lemma feed_append:
  "feed push s (xs @ ys) =
     (case feed push s xs of (s', ms) \<Rightarrow>
        case feed push s' ys of (s'', ms') \<Rightarrow> (s'', ms @ ms'))"
  by (induction xs arbitrary: s) (auto split: prod.splits)

lemma feed_state_invariant:
  assumes "P s" "\<And>s b. P s \<Longrightarrow> P (fst (push s b))"
  shows "P (fst (feed push s bs))"
  using assms(1)
proof (induction bs arbitrary: s)
  case Nil
  then show ?case by simp
next
  case (Cons b bs)
  then have "P (fst (push s b))" using assms(2) by blast
  from Cons.IH [OF this] show ?case by (simp add: case_prod_beta)
qed

locale frame_parser =
  fixes push :: "'s \<Rightarrow> u8 \<Rightarrow> 's \<times> 'm option"
    and idle :: 's
    and frame :: "'m \<Rightarrow> bytes"
    and valid :: "'m \<Rightarrow> bool"
    and noise :: "u8 \<Rightarrow> bool"
  assumes noise_ignored: "noise b \<Longrightarrow> push idle b = (idle, None)"
    and frame_accepted: "valid m \<Longrightarrow> feed push idle (frame m) = (idle, [m])"
begin

lemma feed_noise: "list_all noise bs \<Longrightarrow> feed push idle bs = (idle, [])"
  by (induction bs) (auto simp: noise_ignored)

lemma feed_stream:
  assumes "list_all (\<lambda>(gap, m). list_all noise gap \<and> valid m) xs" "list_all noise tail"
  shows "feed push idle (concat (map (\<lambda>(gap, m). gap @ frame m) xs) @ tail) = (idle, map snd xs)"
  using assms(1)
proof (induction xs)
  case Nil
  then show ?case using feed_noise [OF assms(2)] by simp
next
  case (Cons x xs)
  obtain gap m where x: "x = (gap, m)" by (cases x)
  with Cons.prems have "feed push idle gap = (idle, [])" "feed push idle (frame m) = (idle, [m])"
    using feed_noise frame_accepted by auto
  with Cons x show ?case by (simp add: feed_append)
qed

end

end
