(* ===== verification/Pi_Mcu.thy ===== *)
theory Pi_Mcu
  imports Protocol Framing Util_Queue
begin

text \<open>
  The daemon's side of the SPI protocol: building messages (\<open>src/src/pi/mcu-encode.hpp\<close>),
  taking them apart (\<open>mcu-decode.hpp\<close>), the byte-wise parser (\<open>mcu-parse.cpp\<close>), the block that
  holds the daemon back until a message is confirmed (\<open>mcu-block.cpp\<close>) and serial numbers
  (\<open>mcu-id.hpp\<close>). A message is the list of its bytes, \<open>serial\<close> and \<open>msg-id\<close> first.
  Log output is not modelled.
\<close>

type_synonym mcu_msg = bytes

text \<open>The queues to and from the controller (\<open>mcu-queue.hpp\<close>).\<close>

type_synonym mcu_queue = "mcu_msg condition_queue"

section \<open>Encoding\<close>

text \<open>One argument of the parameter packs: a byte, or an array that is spliced in.\<close>

datatype payload = Byte u8 | Arr mcu_msg

fun encode_do_join :: "mcu_msg \<Rightarrow> payload list \<Rightarrow> mcu_msg" where
  "encode_do_join msg [] = msg"
| "encode_do_join msg (Byte load_1 # payload) = encode_do_join (msg @ [load_1]) payload"
| "encode_do_join msg (Arr arr # payload) = encode_do_join (msg @ arr) payload"

definition encode_join :: "u8 \<Rightarrow> u8 \<Rightarrow> payload list \<Rightarrow> mcu_msg" where
  "encode_join serial msg_id payload = encode_do_join [serial, msg_id] payload"

text \<open>The size byte is \<open>msg.size ()\<close> truncated to \<open>uint8_t\<close>.\<close>

definition encode_wrap :: "mcu_msg \<Rightarrow> mcu_msg" where
  "encode_wrap msg = EYE_CATCH # of_nat (length msg) # msg"

fun payload_bytes :: "payload \<Rightarrow> bytes" where
  "payload_bytes (Byte b) = [b]"
| "payload_bytes (Arr bs) = bs"

lemma encode_do_join_bytes: "encode_do_join msg ps = msg @ concat (map payload_bytes ps)"
  by (induction msg ps rule: encode_do_join.induct) auto

lemma encode_join_bytes: "encode_join s i ps = s # i # concat (map payload_bytes ps)"
  by (simp add: encode_join_def encode_do_join_bytes)

section \<open>Decoding\<close>

definition decode_unwrap :: "mcu_msg \<Rightarrow> bool \<times> mcu_msg" where
  "decode_unwrap msg =
     (let msg = dropWhile (\<lambda>b. b \<noteq> EYE_CATCH) msg
      in if msg = [] then (False, msg)
         else if length msg < 4 then (False, msg)
         else let sz = msg ! 1
              in if unat sz > length msg - 2 then (False, msg)
                 else (True, drop 2 msg))"

text \<open>The header: serial, message id, and what follows the iterator left at the id.\<close>

definition decode_do_split_header :: "mcu_msg \<Rightarrow> (u8 \<times> u8 \<times> bytes) option" where
  "decode_do_split_header msg =
     (case msg of [] \<Rightarrow> None
      | serial # rest \<Rightarrow> (case rest of [] \<Rightarrow> None | msg_id # tail \<Rightarrow> Some (serial, msg_id, tail)))"

text \<open>The payload references, \<open>n\<close> of them.\<close>

fun decode_do_split :: "bytes \<Rightarrow> nat \<Rightarrow> bytes option" where
  "decode_do_split bs 0 = Some []"
| "decode_do_split bs (Suc n) =
     (case bs of [] \<Rightarrow> None | load_1 # rest \<Rightarrow> map_option ((#) load_1) (decode_do_split rest n))"

definition decode_split :: "mcu_msg \<Rightarrow> nat \<Rightarrow> (u8 \<times> u8 \<times> bytes) option" where
  "decode_split msg n =
     (case decode_do_split_header msg of None \<Rightarrow> None
      | Some (serial, msg_id, tail) \<Rightarrow>
          map_option (\<lambda>payload. (serial, msg_id, payload)) (decode_do_split tail n))"

definition decode_split_payload :: "mcu_msg \<Rightarrow> nat \<Rightarrow> bytes option" where
  "decode_split_payload msg n = map_option (\<lambda>(_, _, payload). payload) (decode_split msg n)"

definition decode_get_serial :: "mcu_msg \<Rightarrow> u8 option" where
  "decode_get_serial msg = map_option (\<lambda>(serial, _, _). serial) (decode_split msg 0)"

definition decode_get_msg_id :: "mcu_msg \<Rightarrow> u8 option" where
  "decode_get_msg_id msg = map_option (\<lambda>(_, msg_id, _). msg_id) (decode_split msg 0)"

lemma decode_do_split_eq: "decode_do_split bs n = (if n \<le> length bs then Some (take n bs) else None)"
  by (induction bs n rule: decode_do_split.induct) (auto split: list.splits)

lemma decode_split_simps [simp]:
  "decode_split (s # i # bs) n = (if n \<le> length bs then Some (s, i, take n bs) else None)"
  "decode_split_payload (s # i # bs) n = (if n \<le> length bs then Some (take n bs) else None)"
  "decode_get_serial (s # i # bs) = Some s"
  "decode_get_msg_id (s # i # bs) = Some i"
  by (simp_all add: decode_split_def decode_do_split_header_def decode_do_split_eq
      decode_split_payload_def decode_get_serial_def decode_get_msg_id_def)

lemma decode_split_short:
  "length msg < 2 \<Longrightarrow> decode_split msg n = None"
  by (auto simp: decode_split_def decode_do_split_header_def split: list.splits)

lemma decode_get_serial_None: "decode_get_serial msg = None \<longleftrightarrow> length msg < 2"
  by (cases msg; cases "tl msg") (auto simp: decode_get_serial_def decode_split_short)

section \<open>The parser\<close>

record mcu_parse =
  m_buf :: mcu_msg

definition mcu_parse_push :: "mcu_parse \<Rightarrow> u8 \<Rightarrow> mcu_parse \<times> mcu_msg option" where
  "mcu_parse_push p info =
     (if m_buf p = [] \<and> info = SPI_WRITE_UNDERFLOW then (p, None)
      else if m_buf p = [] \<and> info = SPI_READ_OVERFLOW then (p, None)
      else case decode_unwrap (m_buf p @ [info]) of
             (ok, buf) \<Rightarrow>
               if \<not> ok then (p\<lparr>m_buf := buf\<rparr>, None)
               else (p\<lparr>m_buf := []\<rparr>, Some buf))"

definition mcu_parse_new :: mcu_parse where
  "mcu_parse_new = \<lparr>m_buf = []\<rparr>"

text \<open>What the buffer can hold between two bytes: nothing, or an incomplete frame.\<close>

definition mcu_parse_ok :: "mcu_parse \<Rightarrow> bool" where
  "mcu_parse_ok p \<longleftrightarrow>
     m_buf p = [] \<or>
     (hd (m_buf p) = EYE_CATCH \<and> (length (m_buf p) < 4 \<or> length (m_buf p) < 2 + unat (m_buf p ! 1)))"

lemma decode_unwrap_framed:
  "decode_unwrap (EYE_CATCH # bs) =
     (if length bs < 3 then (False, EYE_CATCH # bs)
      else if unat (hd bs) > length bs - 1 then (False, EYE_CATCH # bs)
      else (True, tl bs))"
  by (cases bs) (auto simp: decode_unwrap_def Let_def)

lemma mcu_parse_push_framed:
  assumes "m_buf p = EYE_CATCH # bs"
  shows "mcu_parse_push p b =
    (if length bs < 2 \<or> length bs < unat (hd (bs @ [b])) then (p\<lparr>m_buf := EYE_CATCH # bs @ [b]\<rparr>, None)
     else (p\<lparr>m_buf := []\<rparr>, Some (tl (bs @ [b]))))"
  using assms
  by (cases bs) (auto simp: mcu_parse_push_def decode_unwrap_framed not_less simp del: mark_defs)

lemma mcu_parse_push_noise:
  "m_buf p = [] \<Longrightarrow> b \<noteq> EYE_CATCH \<Longrightarrow> mcu_parse_push p b = (p, None)"
  by (cases p) (simp add: mcu_parse_push_def decode_unwrap_def)

lemma mcu_parse_push_catch:
  "m_buf p = [] \<Longrightarrow> mcu_parse_push p EYE_CATCH = (p\<lparr>m_buf := [EYE_CATCH]\<rparr>, None)"
  by (simp add: mcu_parse_push_def decode_unwrap_def)

lemma mcu_parse_cases:
  assumes "mcu_parse_ok p"
  obtains (idle) "m_buf p = []" | (busy) bs where "m_buf p = EYE_CATCH # bs"
  using assms by (cases "m_buf p") (auto simp: mcu_parse_ok_def)

lemma mcu_parse_push_ok:
  assumes "mcu_parse_ok p"
  shows "mcu_parse_ok (fst (mcu_parse_push p b))"
  using assms
proof (cases rule: mcu_parse_cases)
  case idle
  then show ?thesis
    by (cases "b = EYE_CATCH")
      (auto simp: mcu_parse_push_noise mcu_parse_push_catch mcu_parse_ok_def simp del: mark_defs)
next
  case (busy bs)
  then show ?thesis
    by (cases bs) (auto simp: mcu_parse_push_framed mcu_parse_ok_def simp del: mark_defs)
qed

lemma mcu_parse_push_out:
  assumes "mcu_parse_ok p" "mcu_parse_push p b = (p', Some m)"
  shows "2 \<le> length m" "m_buf p' = []"
  using assms
  by (cases rule: mcu_parse_cases; cases "b = EYE_CATCH";
      force simp: mcu_parse_push_framed mcu_parse_push_noise mcu_parse_push_catch
        simp del: mark_defs split: if_splits)+

text \<open>The bytes of a frame, one at a time.\<close>

lemma feed_frame_rest:
  assumes "m_buf p = EYE_CATCH # of_nat n # xs" "length xs + length ys = n" "2 \<le> n" "n < 256"
    and "ys \<noteq> []"
  shows "feed mcu_parse_push p ys = (p\<lparr>m_buf := []\<rparr>, [xs @ ys])"
  using assms
proof (induction ys arbitrary: p xs)
  case Nil
  then show ?case by simp
next
  case (Cons y ys)
  have n: "unat (of_nat n :: u8) = n" using Cons.prems by simp
  show ?case
  proof (cases "ys = []")
    case True
    then show ?thesis
      using Cons.prems n by (auto simp: mcu_parse_push_framed simp del: mark_defs)
  next
    case False
    then have "mcu_parse_push p y = (p\<lparr>m_buf := EYE_CATCH # of_nat n # xs @ [y]\<rparr>, None)"
      using Cons.prems n
      by (cases ys) (auto simp: mcu_parse_push_framed simp del: mark_defs)
    moreover have "feed mcu_parse_push (p\<lparr>m_buf := EYE_CATCH # of_nat n # xs @ [y]\<rparr>) ys
        = (p\<lparr>m_buf := []\<rparr>, [xs @ y # ys])"
      using Cons.IH [of "p\<lparr>m_buf := EYE_CATCH # of_nat n # xs @ [y]\<rparr>" "xs @ [y]"]
        Cons.prems False by simp
    ultimately show ?thesis by simp
  qed
qed

lemma feed_encode_wrap:
  assumes "2 \<le> length m" "length m < 256"
  shows "feed mcu_parse_push mcu_parse_new (encode_wrap m) = (mcu_parse_new, [m])"
proof -
  have "mcu_parse_push mcu_parse_new EYE_CATCH = (\<lparr>m_buf = [EYE_CATCH]\<rparr>, None)"
    by (simp add: mcu_parse_push_catch mcu_parse_new_def del: mark_defs)
  moreover have "mcu_parse_push \<lparr>m_buf = [EYE_CATCH]\<rparr> (of_nat (length m))
      = (\<lparr>m_buf = [EYE_CATCH, of_nat (length m)]\<rparr>, None)"
    by (subst mcu_parse_push_framed) auto
  moreover have "m \<noteq> []" using assms(1) by auto
  ultimately show ?thesis
    using feed_frame_rest [of "\<lparr>m_buf = [EYE_CATCH, of_nat (length m)]\<rparr>" "length m" "[]" m] assms
    by (simp add: encode_wrap_def mcu_parse_new_def del: mark_defs)
qed

interpretation pi_parse: frame_parser mcu_parse_push mcu_parse_new encode_wrap
  "\<lambda>m. 2 \<le> length m \<and> length m < 256" "\<lambda>b. b \<noteq> EYE_CATCH"
  by unfold_locales
    (auto simp: mcu_parse_push_noise mcu_parse_new_def feed_encode_wrap simp del: mark_defs
      intro: feed_encode_wrap [unfolded mcu_parse_new_def])

section \<open>The block\<close>

record mcu_block =
  m_pending_id :: u8

definition mcu_block_new :: mcu_block where
  "mcu_block_new = \<lparr>m_pending_id = SERIAL_ID_TO_IGNORE\<rparr>"

definition block_is_engaged :: "mcu_block \<Rightarrow> bool" where
  "block_is_engaged b \<longleftrightarrow> \<not> m_pending_id b = SERIAL_ID_TO_IGNORE"

definition block_engage :: "mcu_block \<Rightarrow> u8 \<Rightarrow> mcu_block" where
  "block_engage b i =
     (if i = SERIAL_ID_TO_IGNORE then b
      else if block_is_engaged b \<and> m_pending_id b \<noteq> i then b
      else b\<lparr>m_pending_id := i\<rparr>)"

definition block_relax :: "mcu_block \<Rightarrow> u8 \<Rightarrow> bool \<times> mcu_block" where
  "block_relax b i =
     (if i = SERIAL_ID_TO_IGNORE \<or> \<not> block_is_engaged b then (True, b)
      else if m_pending_id b \<noteq> i then (False, b)
      else (True, b\<lparr>m_pending_id := SERIAL_ID_TO_IGNORE\<rparr>))"

section \<open>Serial numbers\<close>

definition mcu_id_get :: "u8 \<Rightarrow> u8 \<times> u8" where
  "mcu_id_get serial_id =
     (let serial_id = serial_id + 1;
          serial_id = (if serial_id = SERIAL_ID_TO_IGNORE then serial_id + 1 else serial_id)
      in (serial_id, serial_id))"

lemma mcu_id_get_nonzero [simp]: "fst (mcu_id_get s) \<noteq> 0" "snd (mcu_id_get s) = fst (mcu_id_get s)"
  by (simp_all add: mcu_id_get_def Let_def)

lemma mcu_id_get_unat:
  "unat (fst (mcu_id_get s)) = unat s mod 255 + 1"
proof (cases "unat s = 255")
  case True
  then have "s = 255" by (simp add: u8_eq_iff)
  then show ?thesis by (simp add: mcu_id_get_def)
next
  case False
  then have less: "unat s < 255" using unat_u8_le [of s] by linarith
  then have "unat (s + 1) = Suc (unat s)" by (rule unat_u8_Suc)
  moreover from this have "s + 1 \<noteq> 0" by auto
  ultimately show ?thesis using less by (simp add: mcu_id_get_def Let_def)
qed

section \<open>Properties\<close>

text \<open>
  A frame is read back from any noise before it: unwrapping the bytes of a wrapped message
  gives the message, when it has at least a header and its size fits the size byte.
\<close>

theorem mcu_wrap_unwrap:
  assumes "2 \<le> length m" "length m < 256" "list_all (\<lambda>b. b \<noteq> EYE_CATCH) gap"
  shows "decode_unwrap (gap @ encode_wrap m) = (True, m)"
proof -
  have "dropWhile (\<lambda>b. b \<noteq> EYE_CATCH) (gap @ encode_wrap m) = encode_wrap m"
    using assms(3) by (simp add: dropWhile_append2 list_all_iff encode_wrap_def del: mark_defs)
  then show ?thesis
    using assms(1,2) by (simp add: decode_unwrap_def encode_wrap_def Let_def del: mark_defs)
qed

lemma mcu_wrap_unwrap_witness:
  "decode_unwrap ([1, 2] @ encode_wrap [5, MSG_ID_STATUS, 0]) = (True, [5, MSG_ID_STATUS, 0])"
  by (rule mcu_wrap_unwrap) simp_all

text \<open>
  The parser never holds more than a size byte can announce, and every message it gives out
  has a header, so its serial number can always be read.
\<close>

theorem mcu_parse_bounded:
  assumes "feed mcu_parse_push mcu_parse_new bs = (p, ms)"
  shows "length (m_buf p) \<le> 256 \<and> list_all (\<lambda>m. decode_get_serial m \<noteq> None) ms"
proof -
  have new: "mcu_parse_ok mcu_parse_new" by (simp add: mcu_parse_new_def mcu_parse_ok_def)
  have "mcu_parse_ok p \<and> list_all (\<lambda>m. decode_get_serial m \<noteq> None) ms"
    if "mcu_parse_ok q" "feed mcu_parse_push q bs = (p, ms)" for q
    using that
  proof (induction bs arbitrary: q ms)
    case Nil
    then show ?case by simp
  next
    case (Cons b bs)
    obtain q' out where q': "mcu_parse_push q b = (q', out)" by fastforce
    obtain rest where rest: "feed mcu_parse_push q' bs = (p, rest)"
      "ms = (case out of None \<Rightarrow> [] | Some m \<Rightarrow> [m]) @ rest"
      using Cons.prems(2) q' by (auto split: prod.splits)
    have "mcu_parse_ok q'" using mcu_parse_push_ok [OF Cons.prems(1), of b] q' by simp
    moreover have "2 \<le> length m" if "out = Some m" for m
      using mcu_parse_push_out(1) [OF Cons.prems(1)] q' that by blast
    ultimately show ?case
      using Cons.IH [of q' rest] rest by (auto simp: decode_get_serial_None split: option.split)
  qed
  from this [OF new assms] have ok: "mcu_parse_ok p" "list_all (\<lambda>m. decode_get_serial m \<noteq> None) ms"
    by blast+
  from ok(1) have "m_buf p = [] \<or> length (m_buf p) < 4 \<or> length (m_buf p) < 2 + unat (m_buf p ! 1)"
    by (auto simp: mcu_parse_ok_def)
  then have "length (m_buf p) \<le> 256"
    using unat_u8_le [of "m_buf p ! 1"] by (cases "m_buf p = []") (simp, linarith)
  with ok(2) show ?thesis by blast
qed

lemma mcu_parse_bounded_witness:
  "length (m_buf (fst (feed mcu_parse_push mcu_parse_new [250, 255, 7]))) \<le> 256"
  using mcu_parse_bounded by (metis prod.collapse)

text \<open>
  Serial numbers go through 1 to 255 and start again, skipping the number to ignore: the
  number drawn in draw \<open>k\<close> from a counter at \<open>s\<close> is \<open>(s + k - 1) mod 255 + 1\<close>.
\<close>

theorem mcu_id_cycle:
  "unat (((\<lambda>s. snd (mcu_id_get s)) ^^ Suc k) s) = (unat s + k) mod 255 + 1"
proof (induction k)
  case 0
  then show ?case by (simp add: mcu_id_get_unat)
next
  case (Suc k)
  have "((\<lambda>s. snd (mcu_id_get s)) ^^ Suc (Suc k)) s = fst (mcu_id_get (((\<lambda>s. snd (mcu_id_get s)) ^^ Suc k) s))"
    by simp
  then have "unat (((\<lambda>s. snd (mcu_id_get s)) ^^ Suc (Suc k)) s) = ((unat s + k) mod 255 + 1) mod 255 + 1"
    using Suc mcu_id_get_unat by simp
  then show ?case by (simp add: mod_Suc_eq)
qed

end
