(* ===== verification/Pi_Content.thy ===== *)
theory Pi_Content
  imports Pi_Command Pi_Popen Pi_Mcu Util_Format
begin

text \<open>
  What the display shows next: \<open>src/src/pi/content.cpp\<close>. The queue to the controller and the
  static serial number belong to other components and are passed along. The iterator of the
  bottom map is the key it points to, \<open>None\<close> being \<open>end ()\<close>; the map is read in the order of
  its keys. The expressions that the user gives on the command line are compiled and applied by
  \<open>std::regex\<close>; the two functions are parameters, \<open>None\<close> standing for an exception. Log output is
  not modelled.
\<close>

section \<open>State\<close>

record 're content =
  c_top_info :: string
  c_middle_info :: "string list"
  c_bottom_info :: "command_id \<rightharpoonup> string"
  c_iterator :: "command_id option"
  c_track_regex_list :: "('re \<times> string) list"

text \<open>\<open>\s*([^: ]+)\s*:(.*)\<close> and \<open>\s*(\d+)\s*:\s*(\d+).*\<close>\<close>

definition content_track_regex :: "piece list" where
  "content_track_regex = [Rep False 0 Space, Rep True 1 (Not_of '': ''), Rep False 0 Space,
     Lit (CHR '':''), Rep True 0 Dot]"

definition content_clock_regex :: "piece list" where
  "content_clock_regex = [Rep False 0 Space, Rep True 1 Digit, Rep False 0 Space, Lit (CHR '':''),
     Rep False 0 Space, Rep True 1 Digit, Rep False 0 Dot]"

fun content_regexes ::
  "(string \<Rightarrow> 're option) \<Rightarrow> string list \<Rightarrow> cpp_exn + ('re \<times> string) list" where
  "content_regexes compile [] = Inr []"
| "content_regexes compile (pattern_replace # rest) =
     (case popen_split content_track_regex pattern_replace of
        None \<Rightarrow> content_regexes compile rest
      | Some (pattern, replace) \<Rightarrow>
          (case compile pattern of
             None \<Rightarrow> Inl (Runtime_error ''regex_error'')
           | Some regex \<Rightarrow>
               (case content_regexes compile rest of
                  Inl e \<Rightarrow> Inl e
                | Inr list \<Rightarrow> Inr ((regex, replace) # list))))"

definition content_new ::
  "(string \<Rightarrow> 're option) \<Rightarrow> string list \<Rightarrow> cpp_exn + 're content" where
  "content_new compile regex_list =
     (case content_regexes compile regex_list of
        Inl e \<Rightarrow> Inl e
      | Inr list \<Rightarrow> Inr \<lparr>c_top_info = [], c_middle_info = [], c_bottom_info = Map.empty,
          c_iterator = None, c_track_regex_list = list\<rparr>)"

section \<open>Operations\<close>

text \<open>\<open>replace\<close>: the first expression whose result is neither empty nor the source.\<close>

fun content_replace_list ::
  "('re \<Rightarrow> string \<Rightarrow> string \<Rightarrow> string option) \<Rightarrow> ('re \<times> string) list \<Rightarrow> string \<Rightarrow> string" where
  "content_replace_list apply [] src = src"
| "content_replace_list apply ((regex, replace) # rest) src =
     (case apply regex src replace of
        None \<Rightarrow> content_replace_list apply rest src
      | Some dst \<Rightarrow>
          if dst \<noteq> [] \<and> dst \<noteq> src then dst else content_replace_list apply rest src)"

definition content_replace ::
  "('re \<Rightarrow> string \<Rightarrow> string \<Rightarrow> string option) \<Rightarrow> 're content \<Rightarrow> string \<Rightarrow> string" where
  "content_replace apply c src = content_replace_list apply (c_track_regex_list c) src"

text \<open>\<open>sync_clock\<close> on the queue to the controller and the serial number.\<close>

definition content_sync_clock ::
  "string \<Rightarrow> mcu_queue \<times> u8 \<Rightarrow> mcu_queue \<times> u8" where
  "content_sync_clock time_src out =
     (case popen_split content_clock_regex time_src of
        None \<Rightarrow> out
      | Some (hour_str, minute_str) \<Rightarrow>
          (let hour = fst (read_unsigned 32 hour_str 0);
               minute = fst (read_unsigned 32 minute_str 0);
               (serial, serial_id) = mcu_id_get (snd out);
               msg = encode_join serial MSG_ID_SYNC_CLOCK [Byte (of_nat hour), Byte (of_nat minute)]
           in (fst (cq_push (fst out) msg), serial_id)))"

definition content_find :: "'re content \<Rightarrow> command_id \<Rightarrow> command_id option" where
  "content_find c i = (if c_bottom_info c i = None then None else Some i)"

definition content_in ::
  "('re \<Rightarrow> string \<Rightarrow> string \<Rightarrow> string option) \<Rightarrow> status \<Rightarrow>
     're content \<times> mcu_queue \<times> u8 \<Rightarrow> 're content \<times> mcu_queue \<times> u8" where
  "content_in apply status st =
     (case st of (c, out) \<Rightarrow>
        let (c, out) =
          (case s_id status of
             MPC_PLAYLIST_NAME \<Rightarrow> (c\<lparr>c_top_info := s_out status\<rparr>, out)
           | MPC_TRACK_NAME \<Rightarrow> (c\<lparr>c_top_info := s_out status\<rparr>, out)
           | POWEROFF \<Rightarrow> (c\<lparr>c_top_info := ''Goodbye''\<rparr>, out)
           | STREAM_SYSTEM \<Rightarrow> (c\<lparr>c_middle_info := c_middle_info c @ [s_out status]\<rparr>, out)
           | STREAM_TRACK_NAME \<Rightarrow>
               (if s_out status \<noteq> []
                then (c\<lparr>c_bottom_info := (c_bottom_info c)
                        (STREAM_TRACK_NAME \<mapsto> content_replace apply c (s_out status))\<rparr>, out)
                else (c, out))
           | STREAM_CLOCK \<Rightarrow>
               (c\<lparr>c_bottom_info := (c_bottom_info c)(STREAM_CLOCK \<mapsto> s_out status)\<rparr>,
                content_sync_clock (s_out status) out)
           | _ \<Rightarrow> (c, out))
        in (if s_id status \<noteq> STREAM_SYSTEM
            then c\<lparr>c_iterator := content_find c (s_id status)\<rparr> else c, out))"

text \<open>The keys of the bottom map in order; \<open>begin ()\<close> and the increment of an iterator.\<close>

definition content_keys :: "'re content \<Rightarrow> command_id list" where
  "content_keys c = filter (\<lambda>i. c_bottom_info c i \<noteq> None) command_id_list"

definition content_begin :: "'re content \<Rightarrow> command_id option" where
  "content_begin c = (case content_keys c of [] \<Rightarrow> None | i # _ \<Rightarrow> Some i)"

definition content_next :: "'re content \<Rightarrow> command_id \<Rightarrow> command_id option" where
  "content_next c i = (case filter (\<lambda>j. i < j) (content_keys c) of [] \<Rightarrow> None | j # _ \<Rightarrow> Some j)"

definition content_out :: "'re content \<Rightarrow> info \<times> 're content" where
  "content_out c =
     (let format = format_encode_empty in
      if c_top_info c \<noteq> [] then (info_new (c_top_info c) format (Some 1), c)
      else case c_middle_info c of
        info # rest \<Rightarrow> (info_new info format None, c\<lparr>c_middle_info := rest\<rparr>)
      | [] \<Rightarrow>
          if content_keys c \<noteq> [] then
            (let it = (case c_iterator c of None \<Rightarrow> content_begin c | Some i \<Rightarrow> Some i)
             in (info_new (the (c_bottom_info c (the it))) format None,
                 c\<lparr>c_iterator := content_next c (the it)\<rparr>))
          else (info_new ''Content is empty, nothing to display '' format None, c))"

definition content_clear_top :: "'re content \<Rightarrow> 're content" where
  "content_clear_top c = c\<lparr>c_top_info := []\<rparr>"

section \<open>The iterator\<close>

definition content_ok :: "'re content \<Rightarrow> bool" where
  "content_ok c \<longleftrightarrow> (\<forall>i. c_iterator c = Some i \<longrightarrow> c_bottom_info c i \<noteq> None)"

lemma content_keys_mem [simp]: "i \<in> set (content_keys c) \<longleftrightarrow> c_bottom_info c i \<noteq> None"
  by (simp add: content_keys_def command_id_list_all)

lemma content_keys_sorted: "sorted (content_keys c)" "distinct (content_keys c)"
  using command_id_list_sorted by (simp_all add: content_keys_def sorted_wrt_filter)

lemma content_keys_cong [simp]:
  "content_keys (c\<lparr>c_iterator := it\<rparr>) = content_keys c"
  "content_keys (c\<lparr>c_middle_info := m\<rparr>) = content_keys c"
  "content_keys (c\<lparr>c_top_info := t\<rparr>) = content_keys c"
  by (simp_all add: content_keys_def)

lemma content_next_split:
  assumes "content_keys c = xs @ i # ys"
  shows "content_next c i = (case ys of [] \<Rightarrow> None | j # _ \<Rightarrow> Some j)"
proof -
  have "\<forall>x \<in> set xs. \<not> i < x" "\<forall>y \<in> set ys. i < y"
    using content_keys_sorted [of c] assms by (auto simp: sorted_append order_less_le)
  then have "filter (\<lambda>j. i < j) xs = []" "filter (\<lambda>j. i < j) ys = ys"
    by (simp_all add: filter_empty_conv filter_id_conv)
  then show ?thesis by (simp add: content_next_def assms)
qed

lemma content_next_known: "content_next c i = Some j \<Longrightarrow> c_bottom_info c j \<noteq> None"
proof -
  assume "content_next c i = Some j"
  then obtain js where "filter (\<lambda>j. i < j) (content_keys c) = j # js"
    by (auto simp: content_next_def split: list.splits)
  then have "j \<in> set (filter (\<lambda>j. i < j) (content_keys c))" by simp
  then show ?thesis by simp
qed

lemma content_in_ok: "content_ok c \<Longrightarrow> content_ok (fst (content_in apply s (c, out)))"
  by (cases "s_id s") (auto simp: content_in_def content_ok_def content_find_def Let_def)

lemma content_out_ok: "content_ok c \<Longrightarrow> content_ok (snd (content_out c))"
  by (auto simp: content_out_def content_ok_def Let_def split: list.split dest: content_next_known)

lemma content_clear_top_ok: "content_ok c \<Longrightarrow> content_ok (content_clear_top c)"
  by (simp add: content_ok_def content_clear_top_def)

section \<open>Rotation through the bottom entries\<close>

fun content_outs :: "nat \<Rightarrow> 're content \<Rightarrow> string list \<times> 're content" where
  "content_outs 0 c = ([], c)"
| "content_outs (Suc n) c =
     (case content_out c of (info, c') \<Rightarrow>
        case content_outs n c' of (texts, c'') \<Rightarrow> (i_text info # texts, c''))"

lemma content_outs_from:
  assumes "c_top_info c = []" "c_middle_info c = []" "content_keys c = xs @ i # ys"
    and "c_iterator c = Some i \<or> (c_iterator c = None \<and> xs = [])"
  shows "content_outs (Suc (length ys)) c =
    (map (\<lambda>j. the (c_bottom_info c j)) (i # ys), c\<lparr>c_iterator := None\<rparr>)"
  using assms
proof (induction ys arbitrary: c xs i)
  case Nil
  have "(case c_iterator c of None \<Rightarrow> content_begin c | Some i \<Rightarrow> Some i) = Some i"
    using Nil.prems by (auto simp: content_begin_def)
  then show ?case
    using Nil.prems content_next_split [OF Nil.prems(3)]
    by (simp add: content_out_def Let_def info_new_def)
next
  case (Cons j ys)
  let ?c = "c\<lparr>c_iterator := Some j\<rparr>"
  have "(case c_iterator c of None \<Rightarrow> content_begin c | Some i \<Rightarrow> Some i) = Some i"
    using Cons.prems by (auto simp: content_begin_def)
  then have step: "content_out c = (info_new (the (c_bottom_info c i)) format_encode_empty None, ?c)"
    using Cons.prems content_next_split [OF Cons.prems(3)]
    by (simp add: content_out_def Let_def)
  have "content_outs (Suc (length ys)) ?c =
      (map (\<lambda>j. the (c_bottom_info ?c j)) (j # ys), ?c\<lparr>c_iterator := None\<rparr>)"
    using Cons.IH [of ?c "xs @ [i]" j] Cons.prems by simp
  then show ?case using step by (simp add: info_new_def case_prod_beta)
qed

text \<open>
  With no message on top or in the middle, repeated calls show every bottom entry once, in the
  order of the command ids, and then start again from the first.
\<close>

theorem content_rotation:
  assumes "c_top_info c = []" "c_middle_info c = []" "content_keys c \<noteq> []" "c_iterator c = None"
  shows "content_outs (length (content_keys c)) c =
    (map (\<lambda>j. the (c_bottom_info c j)) (content_keys c), c)"
proof -
  obtain i ys where "content_keys c = [] @ i # ys" using assms(3) by (cases "content_keys c") auto
  with content_outs_from [OF assms(1,2) this] assms(4) show ?thesis by simp
qed

definition sample_content :: "unit content" where
  "sample_content = \<lparr>c_top_info = [], c_middle_info = [],
     c_bottom_info = [STREAM_TRACK_NAME \<mapsto> ''song'', STREAM_CLOCK \<mapsto> ''12:30''],
     c_iterator = None, c_track_regex_list = []\<rparr>"

lemma content_rotation_witness:
  "fst (content_outs 2 sample_content) = [''12:30'', ''song'']"
proof -
  have keys: "content_keys sample_content = [STREAM_CLOCK, STREAM_TRACK_NAME]"
    by (simp add: content_keys_def sample_content_def command_id_list_def)
  then show ?thesis
    using content_rotation [of sample_content]
    by (simp add: sample_content_def numeral_2_eq_2 del: content_outs.simps)
qed

section \<open>Setting the clock\<close>

lemma regex_clock:
  assumes "list_all is_digit h" "h \<noteq> []" "list_all is_digit m" "m \<noteq> []"
  shows "regex_match content_clock_regex (h @ CHR '':'' # m) = Some [h, m]"
proof -
  have colon: "\<not> is_space (CHR '':'')" "\<not> is_digit (CHR '':'')"
    by (simp_all add: is_space_def is_digit_def)
  have nosp: "\<not> is_space (hd h)" "\<not> is_space (hd m)"
    using assms digit_not_space by (cases h; cases m; simp)+
  have 1: "regex_match [Rep False 0 Dot] [] = Some []"
    using regex_match_Rep_greedy [of Dot "[]" "[]" 0 "[]" "[]" False] by simp
  have 2: "regex_match [Rep True 1 Digit, Rep False 0 Dot] m = Some [m]"
    using regex_match_Rep_greedy [of Digit m "[]" 1 "[Rep False 0 Dot]" "[]" True] 1 assms
    by (simp add: list_all_iff Suc_le_eq)
  have 3: "regex_match [Rep False 0 Space, Rep True 1 Digit, Rep False 0 Dot] m = Some [m]"
    using regex_match_Rep_greedy [of Space "[]" m 0 "[Rep True 1 Digit, Rep False 0 Dot]" "[m]" False]
      2 assms nosp by simp
  let ?r3 = "[Rep False 0 Space, Rep True 1 Digit, Rep False 0 Dot]"
  have 4: "regex_match (Lit (CHR '':'') # ?r3) (CHR '':'' # m) = Some [m]"
    using 3 by simp
  have 5: "regex_match (Rep False 0 Space # Lit (CHR '':'') # ?r3) (CHR '':'' # m) = Some [m]"
    using regex_match_Rep_greedy [of Space "[]" "CHR '':'' # m" 0 "Lit (CHR '':'') # ?r3" "[m]" False]
      4 colon by simp
  have 6: "regex_match (Rep True 1 Digit # Rep False 0 Space # Lit (CHR '':'') # ?r3) (h @ CHR '':'' # m)
      = Some [h, m]"
    using regex_match_Rep_greedy [of Digit h "CHR '':'' # m" 1 "Rep False 0 Space # Lit (CHR '':'') # ?r3" "[m]" True]
      5 colon assms by (simp add: list_all_iff Suc_le_eq)
  show ?thesis
    using regex_match_Rep_greedy [of Space "[]" "h @ CHR '':'' # m" 0 _ "[h, m]" False] 6 nosp assms
    by (simp add: content_clock_regex_def)
qed

text \<open>
  A clock line in hours and minutes sends the controller one message with these two numbers
  and the next serial number, and is shown from now on.
\<close>

theorem content_clock_message:
  assumes "s_id s = STREAM_CLOCK" "s_out s = dec_string h @ '':'' @ dec_string m"
    and "h < 256" "m < 256"
  shows "content_in apply s (c, queue, serial) =
    (c\<lparr>c_bottom_info := (c_bottom_info c)(STREAM_CLOCK \<mapsto> s_out s), c_iterator := Some STREAM_CLOCK\<rparr>,
     queue\<lparr>m_holder := m_holder queue
       @ [[fst (mcu_id_get serial), MSG_ID_SYNC_CLOCK, of_nat h, of_nat m]]\<rparr>,
     fst (mcu_id_get serial))"
proof -
  have "regex_match content_clock_regex (s_out s) = Some [dec_string h, dec_string m]"
    using regex_clock [OF dec_string_digits _ dec_string_digits, of h m] assms(2) by simp
  then have "popen_split content_clock_regex (s_out s) = Some (dec_string h, dec_string m)"
    by (simp add: popen_split_def)
  moreover have "read_unsigned 32 (dec_string h) 0 = (h, True)" "read_unsigned 32 (dec_string m) 0 = (m, True)"
    using assms(3,4) by (simp_all add: read_unsigned_dec_string)
  ultimately show ?thesis
    using assms(1)
    by (simp add: content_in_def content_sync_clock_def content_find_def Let_def case_prod_beta
        encode_join_bytes mq_push_def)
qed

lemma content_clock_message_witness:
  "fst (snd (content_in (\<lambda>_ _ _. None) (status_new STREAM_CLOCK 0 (dec_string 23 @ '':'' @ dec_string 5))
     (sample_content, mq_new, 0))) = \<lparr>m_holder = [[1, MSG_ID_SYNC_CLOCK, 23, 5]]\<rparr>"
  using content_clock_message [of "status_new STREAM_CLOCK 0 (dec_string 23 @ '':'' @ dec_string 5)" 23 5
      "\<lambda>_ _ _. None" sample_content mq_new 0]
  by (simp add: status_new_def mcu_id_get_def mq_new_def)

end
