(* ===== verification/Pi_Font.thy ===== *)
theory Pi_Font
  imports Cpp_Text
begin

text \<open>
  Glyphs of the daemon: the matrix of columns (\<open>src/src/pi/matrix.hpp\<close>) and the font
  (\<open>src/src/pi/font.cpp\<close>). The table is the source's, in its order; \<open>std::map::insert\<close> keeps the
  first entry of a key. Symbols are drawn row by row in the source and stored column by column,
  so \<open>transpose\<close> is proved to be the transposition of an 8 by 8 bit matrix. \<open>m_first_byte\<close> is
  not initialised by the constructor, so the initial font has an arbitrary one.
\<close>

section \<open>Matrices\<close>

type_synonym matrix = "u8 list"

definition matrix_invert :: "matrix \<Rightarrow> matrix" where
  "matrix_invert m = map (\<lambda>x. NOT x) m"

definition empty_symbol :: matrix where
  "empty_symbol = []"

text \<open>One destination byte: the source is walked from its end, shifting the bit under the mask in.\<close>

definition transpose_byte :: "matrix \<Rightarrow> u8 \<Rightarrow> u8" where
  "transpose_byte src src_mask =
     foldl (\<lambda>rotated x.
         let rotated = push_bit 1 rotated
         in if x AND src_mask \<noteq> 0 then rotated OR 1 else rotated)
       0 (rev src)"

primrec transpose_rows :: "matrix \<Rightarrow> nat \<Rightarrow> u8 \<Rightarrow> matrix" where
  "transpose_rows src 0 src_mask = []"
| "transpose_rows src (Suc n) src_mask =
     transpose_byte src src_mask # transpose_rows src n (push_bit 1 src_mask)"

definition transpose_matrix :: "matrix \<Rightarrow> matrix" where
  "transpose_matrix src = (if length src \<noteq> 8 then src else transpose_rows src 8 1)"

lemma and_mask_bit: "(x AND 2 ^ n \<noteq> 0) = bit (x :: u8) n" if "n < 8"
proof -
  have "x AND 2 ^ n = (if bit x n then 2 ^ n else 0)"
    by (rule bit_word_eqI) (auto simp: bit_simps)
  moreover have "(2 :: u8) ^ n \<noteq> 0"
    using that by (auto dest: arg_cong [of _ _ "\<lambda>w. bit w n"] simp: bit_simps)
  ultimately show ?thesis by simp
qed

lemma bit_transpose_byte:
  assumes "length src \<le> 8" "k < 8"
  shows "bit (transpose_byte src (2 ^ k)) i = (i < length src \<and> bit (src ! i) k)"
  using assms(1)
proof (induction src arbitrary: i)
  case Nil
  then show ?case by (simp add: transpose_byte_def)
next
  case (Cons x src)
  have step: "transpose_byte (x # src) (2 ^ k) =
      (if bit x k then push_bit 1 (transpose_byte src (2 ^ k)) OR 1
       else push_bit 1 (transpose_byte src (2 ^ k)))"
    using and_mask_bit [OF assms(2), of x] by (simp add: transpose_byte_def Let_def)
  show ?case
  proof (cases i)
    case 0
    then show ?thesis by (simp add: step bit_0 even_or_iff)
  next
    case (Suc j)
    have "bit (r * 2) (Suc j) \<longleftrightarrow> Suc j < 8 \<and> bit r j" for r :: u8
      using bit_double_iff [of r "Suc j"] by (simp add: mult.commute)
    with Suc show ?thesis using Cons.IH [of j] Cons.prems
      by (auto simp: step bit_or_iff bit_1_iff)
  qed
qed

lemma transpose_rows_nth:
  "transpose_rows src n (2 ^ k) = map (\<lambda>i. transpose_byte src (2 ^ i)) [k..<k + n]"
proof (induction n arbitrary: k)
  case 0
  then show ?case by simp
next
  case (Suc n)
  have "push_bit 1 (2 ^ k) = (2 ^ Suc k :: u8)" by (simp add: push_bit_eq_mult)
  then have "transpose_rows src (Suc n) (2 ^ k)
      = transpose_byte src (2 ^ k) # transpose_rows src n (2 ^ Suc k)"
    by (simp only: transpose_rows.simps)
  also have "\<dots> = transpose_byte src (2 ^ k)
      # map (\<lambda>i. transpose_byte src (2 ^ i)) [Suc k..<Suc k + n]"
    by (simp only: Suc.IH)
  also have "\<dots> = map (\<lambda>i. transpose_byte src (2 ^ i)) [k..<k + Suc n]"
    by (simp add: upt_conv_Cons del: upt_Suc)
  finally show ?case .
qed

lemma transpose_matrix_length [simp]: "length (transpose_matrix src) = length src"
  using transpose_rows_nth [of src 8 0] by (simp add: transpose_matrix_def)

lemma transpose_matrix_bit:
  assumes "length src = 8" "i < 8" "j < 8"
  shows "bit (transpose_matrix src ! j) i = bit (src ! i) j"
proof -
  have "transpose_matrix src ! j = transpose_byte src (2 ^ j)"
    using transpose_rows_nth [of src 8 0] assms by (simp add: transpose_matrix_def del: upt.simps)
  then show ?thesis using assms by (simp add: bit_transpose_byte)
qed

lemma transpose_matrix_involution:
  assumes "length src = 8"
  shows "transpose_matrix (transpose_matrix src) = src"
proof (rule nth_equalityI)
  fix j assume "j < length (transpose_matrix (transpose_matrix src))"
  then have j: "j < 8" using assms by simp
  show "transpose_matrix (transpose_matrix src) ! j = src ! j"
  proof (rule bit_word_eqI)
    fix i assume "i < LENGTH(8)"
    then show "bit (transpose_matrix (transpose_matrix src) ! j) i = bit (src ! j) i"
      using transpose_matrix_bit [of "transpose_matrix src" i j] transpose_matrix_bit [of src j i]
        assms j by simp
  qed
qed (simp add: assms)

section \<open>Keys\<close>

definition is_basic :: "char \<Rightarrow> bool" where
  "is_basic s \<longleftrightarrow> (of_char s :: nat) \<le> 127"

definition to_uint8 :: "char \<Rightarrow> u8" where
  "to_uint8 s = of_nat (of_char s)"

definition to_uint16 :: "char \<Rightarrow> u16" where
  "to_uint16 s = of_nat (of_char s)"

definition to_uint16_pair :: "u8 \<Rightarrow> u8 \<Rightarrow> u16" where
  "to_uint16_pair first second =
     push_bit 6 (ucast first AND 0x1F) OR (ucast second AND 0x3F)"

section \<open>The symbol map\<close>

type_synonym symbol_map = "(u16 \<times> matrix) list"

definition map_insert :: "symbol_map \<Rightarrow> u16 \<Rightarrow> matrix \<Rightarrow> symbol_map" where
  "map_insert data key symbol =
     (if map_of data key = None then data @ [(key, symbol)] else data)"

definition find_symbol :: "u16 \<Rightarrow> symbol_map \<Rightarrow> matrix" where
  "find_symbol key data = (case map_of data key of None \<Rightarrow> empty_symbol | Some m \<Rightarrow> m)"

definition add_basic_symbol :: "symbol_map \<Rightarrow> char \<Rightarrow> matrix \<Rightarrow> symbol_map" where
  "add_basic_symbol data key raw_symbol =
     map_insert data (to_uint16 key) (transpose_matrix raw_symbol)"

definition add_extended_symbol ::
  "symbol_map \<Rightarrow> u8 \<Rightarrow> u8 \<Rightarrow> matrix \<Rightarrow> bool \<Rightarrow> symbol_map" where
  "add_extended_symbol data first second raw_symbol do_rotate =
     (let symbol = (if do_rotate then transpose_matrix raw_symbol else empty_symbol)
      in map_insert data (to_uint16_pair first second) (if do_rotate then symbol else raw_symbol))"

text \<open>The four lambdas of \<open>fill_data\<close>, as the entries of its table.\<close>

datatype glyph =
    Add_basic char matrix
  | Add_german u8 matrix
  | Add_russian bool u8 matrix
  | Map_russian bool u8 char

fun add_glyph :: "symbol_map \<Rightarrow> glyph \<Rightarrow> symbol_map" where
  "add_glyph data (Add_basic key symbol) = add_basic_symbol data key symbol"
| "add_glyph data (Add_german second symbol) = add_extended_symbol data 0xC3 second symbol True"
| "add_glyph data (Add_russian d0 second symbol) =
     add_extended_symbol data (if d0 then 0xD0 else 0xD1) second symbol True"
| "add_glyph data (Map_russian d0 second basic) =
     (let symbol = find_symbol (to_uint16 basic) data
      in if symbol = [] then data
         else add_extended_symbol data (if d0 then 0xD0 else 0xD1) second symbol False)"

definition basic_glyphs :: "glyph list" where
  "basic_glyphs = [
  Add_basic (CHR '' '') [0x00, 0x00, 0x00, 0x00, 0x00, 0x00, 0x00, 0x00],
  Add_basic (CHR ''!'') [0x18, 0x3C, 0x3C, 0x18, 0x18, 0x00, 0x18, 0x00],
  Add_basic (CHR 0x22) [0x36, 0x36, 0x00, 0x00, 0x00, 0x00, 0x00, 0x00],
  Add_basic (CHR ''#'') [0x36, 0x36, 0x7F, 0x36, 0x7F, 0x36, 0x36, 0x00],
  Add_basic (CHR ''$'') [0x0C, 0x3E, 0x03, 0x1E, 0x30, 0x1F, 0x0C, 0x00],
  Add_basic (CHR ''%'') [0x00, 0x63, 0x33, 0x18, 0x0C, 0x66, 0x63, 0x00],
  Add_basic (CHR ''&'') [0x1C, 0x36, 0x1C, 0x6E, 0x3B, 0x33, 0x6E, 0x00],
  Add_basic (CHR 0x27) [0x06, 0x06, 0x03, 0x00, 0x00, 0x00, 0x00, 0x00],
  Add_basic (CHR ''('') [0x18, 0x0C, 0x06, 0x06, 0x06, 0x0C, 0x18, 0x00],
  Add_basic (CHR '')'') [0x06, 0x0C, 0x18, 0x18, 0x18, 0x0C, 0x06, 0x00],
  Add_basic (CHR ''*'') [0x00, 0x66, 0x3C, 0xFF, 0x3C, 0x66, 0x00, 0x00],
  Add_basic (CHR ''+'') [0x00, 0x0C, 0x0C, 0x3F, 0x0C, 0x0C, 0x00, 0x00],
  Add_basic (CHR '','') [0x00, 0x00, 0x00, 0x00, 0x00, 0x0C, 0x0C, 0x06],
  Add_basic (CHR ''-'') [0x00, 0x00, 0x00, 0x3F, 0x00, 0x00, 0x00, 0x00],
  Add_basic (CHR ''.'') [0x00, 0x00, 0x00, 0x00, 0x00, 0x0C, 0x0C, 0x00],
  Add_basic (CHR ''/'') [0x60, 0x30, 0x18, 0x0C, 0x06, 0x03, 0x01, 0x00],
  Add_basic (CHR ''0'') [0x3E, 0x63, 0x73, 0x7B, 0x6F, 0x67, 0x3E, 0x00],
  Add_basic (CHR ''1'') [0x0C, 0x0E, 0x0C, 0x0C, 0x0C, 0x0C, 0x3F, 0x00],
  Add_basic (CHR ''2'') [0x1E, 0x33, 0x30, 0x1C, 0x06, 0x33, 0x3F, 0x00],
  Add_basic (CHR ''3'') [0x1E, 0x33, 0x30, 0x1C, 0x30, 0x33, 0x1E, 0x00],
  Add_basic (CHR ''4'') [0x38, 0x3C, 0x36, 0x33, 0x7F, 0x30, 0x78, 0x00],
  Add_basic (CHR ''5'') [0x3F, 0x03, 0x1F, 0x30, 0x30, 0x33, 0x1E, 0x00],
  Add_basic (CHR ''6'') [0x1C, 0x06, 0x03, 0x1F, 0x33, 0x33, 0x1E, 0x00],
  Add_basic (CHR ''7'') [0x3F, 0x33, 0x30, 0x18, 0x0C, 0x0C, 0x0C, 0x00],
  Add_basic (CHR ''8'') [0x1E, 0x33, 0x33, 0x1E, 0x33, 0x33, 0x1E, 0x00],
  Add_basic (CHR ''9'') [0x1E, 0x33, 0x33, 0x3E, 0x30, 0x18, 0x0E, 0x00],
  Add_basic (CHR '':'') [0x00, 0x0C, 0x0C, 0x00, 0x00, 0x0C, 0x0C, 0x00],
  Add_basic (CHR ''/'') [0x00, 0x0C, 0x0C, 0x00, 0x00, 0x0C, 0x0C, 0x06],
  Add_basic (CHR ''<'') [0x18, 0x0C, 0x06, 0x03, 0x06, 0x0C, 0x18, 0x00],
  Add_basic (CHR ''='') [0x00, 0x00, 0x3F, 0x00, 0x00, 0x3F, 0x00, 0x00],
  Add_basic (CHR ''>'') [0x06, 0x0C, 0x18, 0x30, 0x18, 0x0C, 0x06, 0x00],
  Add_basic (CHR ''?'') [0x1E, 0x33, 0x30, 0x18, 0x0C, 0x00, 0x0C, 0x00],
  Add_basic (CHR ''@'') [0x3E, 0x63, 0x7B, 0x7B, 0x7B, 0x03, 0x1E, 0x00],
  Add_basic (CHR ''A'') [0x0C, 0x1E, 0x33, 0x33, 0x3F, 0x33, 0x33, 0x00],
  Add_basic (CHR ''B'') [0x3F, 0x66, 0x66, 0x3E, 0x66, 0x66, 0x3F, 0x00],
  Add_basic (CHR ''C'') [0x3C, 0x66, 0x03, 0x03, 0x03, 0x66, 0x3C, 0x00],
  Add_basic (CHR ''D'') [0x1F, 0x36, 0x66, 0x66, 0x66, 0x36, 0x1F, 0x00],
  Add_basic (CHR ''E'') [0x7F, 0x46, 0x16, 0x1E, 0x16, 0x46, 0x7F, 0x00],
  Add_basic (CHR ''F'') [0x7F, 0x46, 0x16, 0x1E, 0x16, 0x06, 0x0F, 0x00],
  Add_basic (CHR ''G'') [0x3C, 0x66, 0x03, 0x03, 0x73, 0x66, 0x7C, 0x00],
  Add_basic (CHR ''H'') [0x33, 0x33, 0x33, 0x3F, 0x33, 0x33, 0x33, 0x00],
  Add_basic (CHR ''I'') [0x1E, 0x0C, 0x0C, 0x0C, 0x0C, 0x0C, 0x1E, 0x00],
  Add_basic (CHR ''J'') [0x78, 0x30, 0x30, 0x30, 0x33, 0x33, 0x1E, 0x00],
  Add_basic (CHR ''K'') [0x67, 0x66, 0x36, 0x1E, 0x36, 0x66, 0x67, 0x00],
  Add_basic (CHR ''L'') [0x0F, 0x06, 0x06, 0x06, 0x46, 0x66, 0x7F, 0x00],
  Add_basic (CHR ''M'') [0x63, 0x77, 0x7F, 0x7F, 0x6B, 0x63, 0x63, 0x00],
  Add_basic (CHR ''N'') [0x63, 0x67, 0x6F, 0x7B, 0x73, 0x63, 0x63, 0x00],
  Add_basic (CHR ''O'') [0x1C, 0x36, 0x63, 0x63, 0x63, 0x36, 0x1C, 0x00],
  Add_basic (CHR ''P'') [0x3F, 0x66, 0x66, 0x3E, 0x06, 0x06, 0x0F, 0x00],
  Add_basic (CHR ''Q'') [0x1E, 0x33, 0x33, 0x33, 0x3B, 0x1E, 0x38, 0x00],
  Add_basic (CHR ''R'') [0x3F, 0x66, 0x66, 0x3E, 0x36, 0x66, 0x67, 0x00],
  Add_basic (CHR ''S'') [0x1E, 0x33, 0x07, 0x0E, 0x38, 0x33, 0x1E, 0x00],
  Add_basic (CHR ''T'') [0x3F, 0x2D, 0x0C, 0x0C, 0x0C, 0x0C, 0x1E, 0x00],
  Add_basic (CHR ''U'') [0x33, 0x33, 0x33, 0x33, 0x33, 0x33, 0x3F, 0x00],
  Add_basic (CHR ''V'') [0x33, 0x33, 0x33, 0x33, 0x33, 0x1E, 0x0C, 0x00],
  Add_basic (CHR ''W'') [0x63, 0x63, 0x63, 0x6B, 0x7F, 0x77, 0x63, 0x00],
  Add_basic (CHR ''X'') [0x63, 0x63, 0x36, 0x1C, 0x1C, 0x36, 0x63, 0x00],
  Add_basic (CHR ''Y'') [0x33, 0x33, 0x33, 0x1E, 0x0C, 0x0C, 0x1E, 0x00],
  Add_basic (CHR ''Z'') [0x7F, 0x63, 0x31, 0x18, 0x4C, 0x66, 0x7F, 0x00],
  Add_basic (CHR ''['') [0x1E, 0x06, 0x06, 0x06, 0x06, 0x06, 0x1E, 0x00],
  Add_basic (CHR 0x5C) [0x03, 0x06, 0x0C, 0x18, 0x30, 0x60, 0x40, 0x00],
  Add_basic (CHR '']'') [0x1E, 0x18, 0x18, 0x18, 0x18, 0x18, 0x1E, 0x00],
  Add_basic (CHR ''^'') [0x08, 0x1C, 0x36, 0x63, 0x00, 0x00, 0x00, 0x00],
  Add_basic (CHR ''_'') [0x00, 0x00, 0x00, 0x00, 0x00, 0x00, 0x00, 0xFF],
  Add_basic (CHR 0x60) [0x0C, 0x0C, 0x18, 0x00, 0x00, 0x00, 0x00, 0x00],
  Add_basic (CHR ''a'') [0x00, 0x00, 0x1E, 0x30, 0x3E, 0x33, 0x6E, 0x00],
  Add_basic (CHR ''b'') [0x07, 0x06, 0x06, 0x3E, 0x66, 0x66, 0x3B, 0x00],
  Add_basic (CHR ''c'') [0x00, 0x00, 0x1E, 0x33, 0x03, 0x33, 0x1E, 0x00],
  Add_basic (CHR ''d'') [0x38, 0x30, 0x30, 0x3e, 0x33, 0x33, 0x6E, 0x00],
  Add_basic (CHR ''e'') [0x00, 0x00, 0x1E, 0x33, 0x3f, 0x03, 0x1E, 0x00],
  Add_basic (CHR ''f'') [0x1C, 0x36, 0x06, 0x0f, 0x06, 0x06, 0x0F, 0x00],
  Add_basic (CHR ''g'') [0x00, 0x00, 0x6E, 0x33, 0x33, 0x3E, 0x30, 0x1F],
  Add_basic (CHR ''h'') [0x07, 0x06, 0x36, 0x6E, 0x66, 0x66, 0x67, 0x00],
  Add_basic (CHR ''i'') [0x0C, 0x00, 0x0E, 0x0C, 0x0C, 0x0C, 0x1E, 0x00],
  Add_basic (CHR ''j'') [0x30, 0x00, 0x30, 0x30, 0x30, 0x33, 0x33, 0x1E],
  Add_basic (CHR ''k'') [0x07, 0x06, 0x66, 0x36, 0x1E, 0x36, 0x67, 0x00],
  Add_basic (CHR ''l'') [0x0E, 0x0C, 0x0C, 0x0C, 0x0C, 0x0C, 0x1E, 0x00],
  Add_basic (CHR ''m'') [0x00, 0x00, 0x33, 0x7F, 0x7F, 0x6B, 0x63, 0x00],
  Add_basic (CHR ''n'') [0x00, 0x00, 0x1F, 0x33, 0x33, 0x33, 0x33, 0x00],
  Add_basic (CHR ''o'') [0x00, 0x00, 0x1E, 0x33, 0x33, 0x33, 0x1E, 0x00],
  Add_basic (CHR ''p'') [0x00, 0x00, 0x3B, 0x66, 0x66, 0x3E, 0x06, 0x0F],
  Add_basic (CHR ''q'') [0x00, 0x00, 0x6E, 0x33, 0x33, 0x3E, 0x30, 0x78],
  Add_basic (CHR ''r'') [0x00, 0x00, 0x3B, 0x6E, 0x66, 0x06, 0x0F, 0x00],
  Add_basic (CHR ''s'') [0x00, 0x00, 0x3E, 0x03, 0x1E, 0x30, 0x1F, 0x00],
  Add_basic (CHR ''t'') [0x08, 0x0C, 0x3E, 0x0C, 0x0C, 0x2C, 0x18, 0x00],
  Add_basic (CHR ''u'') [0x00, 0x00, 0x33, 0x33, 0x33, 0x33, 0x6E, 0x00],
  Add_basic (CHR ''v'') [0x00, 0x00, 0x33, 0x33, 0x33, 0x1E, 0x0C, 0x00],
  Add_basic (CHR ''w'') [0x00, 0x00, 0x63, 0x6B, 0x7F, 0x7F, 0x36, 0x00],
  Add_basic (CHR ''x'') [0x00, 0x00, 0x63, 0x36, 0x1C, 0x36, 0x63, 0x00],
  Add_basic (CHR ''y'') [0x00, 0x00, 0x33, 0x33, 0x33, 0x3E, 0x30, 0x1F],
  Add_basic (CHR ''z'') [0x00, 0x00, 0x3F, 0x19, 0x0C, 0x26, 0x3F, 0x00],
  Add_basic (CHR ''{'') [0x38, 0x0C, 0x0C, 0x07, 0x0C, 0x0C, 0x38, 0x00],
  Add_basic (CHR ''|'') [0x18, 0x18, 0x18, 0x00, 0x18, 0x18, 0x18, 0x00],
  Add_basic (CHR ''}'') [0x07, 0x0C, 0x0C, 0x38, 0x0C, 0x0C, 0x07, 0x00],
  Add_basic (CHR ''~'') [0x6E, 0x3B, 0x00, 0x00, 0x00, 0x00, 0x00, 0x00]]"

definition extended_glyphs :: "glyph list" where
  "extended_glyphs = [
  Add_german 0x84 [0x22, 0x0C, 0x1E, 0x33, 0x33, 0x3F, 0x33, 0x33],
  Add_german 0xA4 [0x22, 0x00, 0x1E, 0x30, 0x3E, 0x33, 0x6E, 0x00],
  Add_german 0x96 [0x22, 0x1C, 0x36, 0x63, 0x63, 0x63, 0x36, 0x1C],
  Add_german 0xB6 [0x22, 0x00, 0x1E, 0x33, 0x33, 0x33, 0x1E, 0x00],
  Add_german 0x9C [0x22, 0x33, 0x33, 0x33, 0x33, 0x33, 0x33, 0x3F],
  Add_german 0xBC [0x22, 0x00, 0x33, 0x33, 0x33, 0x33, 0x6E, 0x00],
  Map_russian True 0x90 (CHR ''A''),
  Add_russian True 0x91 [0x3F, 0x3F, 0x03, 0x1F, 0x23, 0x23, 0x1F, 0x00],
  Map_russian True 0x95 (CHR ''E''),
  Map_russian True 0x9A (CHR ''K''),
  Map_russian True 0x9C (CHR ''M''),
  Map_russian True 0x9D (CHR ''H''),
  Map_russian True 0x9E (CHR ''O''),
  Map_russian True 0xA0 (CHR ''P''),
  Map_russian True 0xA1 (CHR ''C''),
  Map_russian True 0xA2 (CHR ''T''),
  Map_russian True 0xB0 (CHR ''a''),
  Add_russian True 0xB1 [0x7E, 0x03, 0x06, 0x3E, 0x43, 0x43, 0x3F, 0x00],
  Map_russian True 0xB5 (CHR ''e''),
  Map_russian True 0xB9 (CHR ''k''),
  Map_russian True 0xBE (CHR ''o''),
  Map_russian False 0x80 (CHR ''p''),
  Map_russian False 0x81 (CHR ''c'')]"

definition fill_data :: symbol_map where
  "fill_data = foldl add_glyph [] (basic_glyphs @ extended_glyphs)"

section \<open>The font\<close>

record font =
  f_first_byte :: u8
  f_data :: symbol_map

definition font_new :: "u8 \<Rightarrow> font" where
  "font_new garbage = \<lparr>f_first_byte = garbage, f_data = fill_data\<rparr>"

text \<open>\<open>get\<close> is const but changes the mutable \<open>m_first_byte\<close>, so it returns the font too.\<close>

definition font_get :: "font \<Rightarrow> char \<Rightarrow> matrix \<times> font" where
  "font_get f s =
     (if is_basic s then (find_symbol (to_uint16 s) (f_data f), f)
      else if f_first_byte f = 0 then (empty_symbol, f\<lparr>f_first_byte := to_uint8 s\<rparr>)
      else
        (let symbol = find_symbol (to_uint16_pair (to_uint8 s) (f_first_byte f)) (f_data f)
         in if symbol = []
            then (find_symbol (to_uint16 (CHR ''*'')) (f_data f), f\<lparr>f_first_byte := 0\<rparr>)
            else (symbol, f\<lparr>f_first_byte := 0\<rparr>)))"

section \<open>Lookups in the finished table\<close>

fun glyph_key :: "glyph \<Rightarrow> u16" where
  "glyph_key (Add_basic c m) = to_uint16 c"
| "glyph_key (Add_german second m) = to_uint16_pair 0xC3 second"
| "glyph_key (Add_russian d0 second m) = to_uint16_pair (if d0 then 0xD0 else 0xD1) second"
| "glyph_key (Map_russian d0 second c) = to_uint16_pair (if d0 then 0xD0 else 0xD1) second"

lemma map_of_map_insert:
  "map_of (map_insert data k v) k' =
     (case map_of data k' of Some v' \<Rightarrow> Some v' | None \<Rightarrow> if k = k' then Some v else None)"
  by (auto simp: map_insert_def map_add_def split: option.splits)

lemmas add_symbol_defs = add_basic_symbol_def add_extended_symbol_def Let_def map_of_map_insert

lemma add_glyph_keeps: "map_of data k = Some v \<Longrightarrow> map_of (add_glyph data g) k = Some v"
  by (cases g) (simp_all add: add_symbol_defs)

lemma add_glyph_other: "glyph_key g \<noteq> k \<Longrightarrow> map_of (add_glyph data g) k = map_of data k"
  by (cases g) (auto simp: add_symbol_defs split: option.splits)

lemma add_glyphs_keep: "map_of data k = Some v \<Longrightarrow> map_of (foldl add_glyph data gs) k = Some v"
  by (induction gs arbitrary: data) (auto intro: add_glyph_keeps)

lemma add_glyphs_other:
  "list_all (\<lambda>g. glyph_key g \<noteq> k) gs \<Longrightarrow> map_of (foldl add_glyph data gs) k = map_of data k"
  by (induction gs arbitrary: data) (auto simp: add_glyph_other)

fun raw_basic :: "glyph list \<Rightarrow> char \<Rightarrow> matrix option" where
  "raw_basic [] c = None"
| "raw_basic (Add_basic c' m # gs) c = (if c' = c then Some m else raw_basic gs c)"
| "raw_basic (_ # gs) c = raw_basic gs c"

lemma unat_to_uint16: "unat (to_uint16 c) = of_char c"
proof -
  have small: "(of_char c :: nat) < 256" by simp
  have "unat (to_uint16 c) = of_char c mod 2 ^ LENGTH(16)"
    by (simp only: to_uint16_def unat_of_nat)
  also have "\<dots> = of_char c" using less_trans [OF small, of "2 ^ LENGTH(16)"] by (intro mod_less) simp
  finally show ?thesis .
qed

lemma to_uint16_inject [simp]: "(to_uint16 c = to_uint16 c') = (c = c')"
proof
  assume "to_uint16 c = to_uint16 c'"
  then have "(of_char c :: nat) = of_char c'" by (metis unat_to_uint16)
  then show "c = c'" by (rule of_char_eq_iff [THEN iffD1])
qed simp

fun is_add_basic :: "glyph \<Rightarrow> bool" where
  "is_add_basic (Add_basic _ _) = True"
| "is_add_basic _ = False"

lemma map_of_basic_glyphs:
  "list_all is_add_basic gs \<Longrightarrow> map_of data (to_uint16 c) = None \<Longrightarrow>
     map_of (foldl add_glyph data gs) (to_uint16 c) = map_option transpose_matrix (raw_basic gs c)"
proof (induction gs arbitrary: data)
  case Nil
  then show ?case by simp
next
  case (Cons g gs)
  then obtain c' m where g: "g = Add_basic c' m" by (cases g) auto
  show ?case
  proof (cases "c' = c")
    case True
    then have "map_of (add_glyph data g) (to_uint16 c) = Some (transpose_matrix m)"
      using Cons.prems g by (simp add: add_symbol_defs)
    then show ?thesis using True g by (simp add: add_glyphs_keep)
  next
    case False
    then have "map_of (add_glyph data g) (to_uint16 c) = None"
      using Cons.prems add_glyph_other [of g "to_uint16 c" data] False g by simp
    with Cons.IH [of "add_glyph data g"] Cons.prems False g show ?thesis by simp
  qed
qed

lemma basic_glyphs_basic: "list_all is_add_basic basic_glyphs"
  by (simp add: basic_glyphs_def)

lemma extended_keys:
  "map glyph_key extended_glyphs =
     [196, 228, 214, 246, 220, 252, 1040, 1041, 1045, 1050, 1052, 1053, 1054, 1056, 1057, 1058,
      1072, 1073, 1077, 1081, 1086, 1088, 1089]"
  by (simp add: extended_glyphs_def to_uint16_pair_def)

lemma extended_keys_large: "list_all (\<lambda>g. 128 \<le> glyph_key g) extended_glyphs"
proof -
  have "list_all (\<lambda>k. 128 \<le> k) (map glyph_key extended_glyphs)"
    by (simp add: extended_keys)
  then show ?thesis by (simp add: list_all_iff)
qed

lemma to_uint16_basic: "is_basic c \<Longrightarrow> to_uint16 c < 128"
  by (simp add: is_basic_def word_less_nat_alt unat_to_uint16)

lemma find_symbol_basic:
  assumes "is_basic c"
  shows "find_symbol (to_uint16 c) fill_data =
    (case raw_basic basic_glyphs c of None \<Rightarrow> [] | Some m \<Rightarrow> transpose_matrix m)"
proof -
  have "list_all (\<lambda>g. glyph_key g \<noteq> to_uint16 c) extended_glyphs"
    using extended_keys_large to_uint16_basic [OF assms] by (fastforce simp: list_all_iff)
  then have "map_of fill_data (to_uint16 c) = map_of (foldl add_glyph [] basic_glyphs) (to_uint16 c)"
    by (simp add: fill_data_def add_glyphs_other)
  also have "\<dots> = map_option transpose_matrix (raw_basic basic_glyphs c)"
    by (simp add: map_of_basic_glyphs basic_glyphs_basic)
  finally show ?thesis by (simp add: find_symbol_def empty_symbol_def split: option.split)
qed

text \<open>Every printable ASCII character has a glyph of eight columns, except the semicolon.\<close>

lemma raw_basic_printable:
  "n \<in> {32..<127} \<Longrightarrow>
     (if n = 59 then raw_basic basic_glyphs (char_of n) = None
      else \<exists>m. raw_basic basic_glyphs (char_of (n :: nat)) = Some m \<and> length m = 8)"
proof -
  have "list_all (\<lambda>n. if n = 59 then raw_basic basic_glyphs (char_of n) = None
      else map_option length (raw_basic basic_glyphs (char_of (n :: nat))) = Some 8) [32..<127]"
    by code_simp
  moreover assume "n \<in> {32..<127}"
  ultimately have "if n = 59 then raw_basic basic_glyphs (char_of n) = None
      else map_option length (raw_basic basic_glyphs (char_of (n :: nat))) = Some 8"
    by (simp only: list_all_iff set_upt) blast
  then show ?thesis by auto
qed

end
