(* ===== verification/Pi_Render.thy ===== *)
theory Pi_Render
  imports Util_Format Pi_Font
begin

text \<open>
  Text to columns: \<open>src/src/pi/render.cpp\<close>. \<open>text[pos]\<close> is defined up to \<open>pos = text.size ()\<close>,
  where it is the null character; beyond that the read is undefined behaviour and the model
  gives \<open>None\<close>. Positions are \<open>size_t\<close> values, so the end of the range wraps.
\<close>

section \<open>Rendering\<close>

definition text_at :: "string \<Rightarrow> nat \<Rightarrow> char option" where
  "text_at text pos =
     (if pos < length text then Some (text ! pos)
      else if pos = length text then Some (char_of (0 :: nat)) else None)"

text \<open>The columns of the characters at the given positions, appended to \<open>tmp_matrix\<close>.\<close>

fun pixel_loop :: "font \<Rightarrow> string \<Rightarrow> nat list \<Rightarrow> matrix \<Rightarrow> (matrix \<times> font) option" where
  "pixel_loop f text [] tmp = Some (tmp, f)"
| "pixel_loop f text (pos # ps) tmp =
     (case text_at text pos of None \<Rightarrow> None
      | Some c \<Rightarrow>
          (case font_get f c of (symbol, f') \<Rightarrow>
             pixel_loop f' text ps (if symbol \<noteq> [] then tmp @ symbol else tmp)))"

definition pixelize_format ::
  "font \<Rightarrow> matrix \<Rightarrow> string \<Rightarrow> format_t \<Rightarrow> (bool \<times> matrix \<times> font) option" where
  "pixelize_format f matrix text format =
     (let info_start = e_info (m_start format);
          info_finish = (info_start +
            (if is_unlimited format then length text else e_info (m_size format))) mod 2 ^ SIZE_BITS
      in case pixel_loop f text [info_start..<info_finish] [] of
           None \<Rightarrow> None
         | Some (tmp, f') \<Rightarrow>
             Some (True,
               matrix @ (if e_info (m_inversion format) then matrix_invert tmp else tmp), f'))"

text \<open>One pass per format of the list; a failed pass is only logged.\<close>

fun pixelize_all ::
  "font \<Rightarrow> matrix \<Rightarrow> string \<Rightarrow> format_t list \<Rightarrow> (bool \<times> matrix \<times> font) option" where
  "pixelize_all f matrix text [] = Some (True, matrix, f)"
| "pixelize_all f matrix text (fmt # fmts) =
     (case pixelize_format f matrix text fmt of
        None \<Rightarrow> None
      | Some (_, matrix', f') \<Rightarrow> pixelize_all f' matrix' text fmts)"

definition pixelize ::
  "font \<Rightarrow> matrix \<Rightarrow> string \<Rightarrow> string \<Rightarrow> (bool \<times> matrix \<times> font) option" where
  "pixelize f matrix text format_string =
     (case format_split [] format_string of
        (ok, format_list) \<Rightarrow>
          if \<not> ok then pixelize_format f matrix text format_new
          else pixelize_all f matrix text format_list)"

section \<open>Rendering a whole text\<close>

fun glyphs_of :: "font \<Rightarrow> string \<Rightarrow> matrix \<times> font" where
  "glyphs_of f [] = ([], f)"
| "glyphs_of f (c # cs) =
     (case font_get f c of (symbol, f') \<Rightarrow>
        case glyphs_of f' cs of (rest, f'') \<Rightarrow> (symbol @ rest, f''))"

lemma pixel_loop_from:
  "k \<le> length text \<Longrightarrow>
     pixel_loop f text [k..<length text] tmp
       = Some (tmp @ fst (glyphs_of f (drop k text)), snd (glyphs_of f (drop k text)))"
proof (induction "length text - k" arbitrary: k f tmp)
  case 0
  then show ?case by simp
next
  case (Suc n)
  then have k: "k < length text" by simp
  obtain symbol f' where get: "font_get f (text ! k) = (symbol, f')" by (cases "font_get f (text ! k)")
  have "n = length text - Suc k" "Suc k \<le> length text" using Suc.hyps(2) k by auto
  from Suc.hyps(1) [OF this] k get show ?case
    by (simp add: upt_conv_Cons text_at_def Cons_nth_drop_Suc [symmetric] split: prod.split)
qed

text \<open>The format the daemon uses, \<open>"-"\<close>, renders the whole text and cannot fail.\<close>

lemma pixelize_whole:
  assumes "length text < npos"
  shows "pixelize f matrix text format_encode_empty
    = Some (True, matrix @ fst (glyphs_of f text), snd (glyphs_of f text))"
proof -
  have "length text mod 2 ^ SIZE_BITS = length text"
    using assms by (simp add: npos_def SIZE_BITS_def)
  then show ?thesis
    using pixel_loop_from [of 0 "text" f "[]"]
    by (simp add: pixelize_def format_split_empty pixelize_format_def format_new_def entry_new_def
        is_unlimited_def Let_def case_prod_beta)
qed

lemma font_get_basic:
  "is_basic c \<Longrightarrow> font_get f c = (find_symbol (to_uint16 c) (f_data f), f)"
  by (simp add: font_get_def)

definition drawable :: "char \<Rightarrow> bool" where
  "drawable c \<longleftrightarrow> 32 \<le> (of_char c :: nat) \<and> (of_char c :: nat) < 127 \<and> c \<noteq> CHR '';''"

lemma drawable_basic: "drawable c \<Longrightarrow> is_basic c"
  by (simp add: drawable_def is_basic_def)

lemma drawable_glyph:
  assumes "drawable c"
  shows "length (find_symbol (to_uint16 c) fill_data) = 8"
proof -
  have "(of_char c :: nat) \<in> {32..<127}" "(of_char c :: nat) \<noteq> 59"
    using assms of_char_eq_iff [where 'a = nat, of c "CHR '';''"] by (auto simp: drawable_def)
  from raw_basic_printable [OF this(1)] this(2) obtain m where
    "raw_basic basic_glyphs c = Some m" "length m = 8" by auto
  then show ?thesis by (simp add: find_symbol_basic [OF drawable_basic [OF assms]])
qed

lemma glyphs_of_drawable:
  "list_all drawable str \<Longrightarrow> f_data f = fill_data \<Longrightarrow>
     length (fst (glyphs_of f str)) = 8 * length str \<and> snd (glyphs_of f str) = f"
  by (induction str arbitrary: f)
    (simp_all add: font_get_basic drawable_basic drawable_glyph case_prod_beta)

section \<open>Properties\<close>

text \<open>Stored glyphs are the drawn ones turned by ninety degrees: bit \<open>i\<close> of column \<open>j\<close> of
  the stored symbol is bit \<open>j\<close> of row \<open>i\<close> of the table's, and transposing twice restores it.\<close>

theorem font_transpose_correct:
  assumes "length src = 8" "i < 8" "j < 8"
  shows "bit (transpose_matrix src ! j) i = bit (src ! i) j
    \<and> transpose_matrix (transpose_matrix src) = src"
  using transpose_matrix_bit [OF assms] transpose_matrix_involution [OF assms(1)] by simp

theorem font_transpose_correct_witness:
  "bit (transpose_matrix [1, 0, 0, 0, 0, 0, 0, 128] ! 7) 7 = bit ([1, 0, 0, 0, 0, 0, 0, 128 :: u8] ! 7) 7"
  using font_transpose_correct [of "[1, 0, 0, 0, 0, 0, 0, 128]" 7 7] by simp

text \<open>With the daemon's format a text of drawable characters (printable ASCII but the
  semicolon) becomes exactly eight columns per character after the columns already there,
  whatever the uninitialised first byte of the font was, and leaves the font as it was.\<close>

theorem render_text_columns:
  assumes "list_all drawable text" "length text < npos"
  shows "\<exists>columns. pixelize (font_new garbage) matrix text format_encode_empty
      = Some (True, matrix @ columns, font_new garbage)
    \<and> length columns = 8 * length text"
proof -
  have "f_data (font_new garbage) = fill_data" by (simp add: font_new_def)
  with glyphs_of_drawable [OF assms(1)] pixelize_whole [OF assms(2)] show ?thesis by auto
qed

theorem render_text_columns_witness:
  "\<exists>columns. pixelize (font_new 77) [1, 2] ''led 9'' format_encode_empty
      = Some (True, [1, 2] @ columns, font_new 77) \<and> length columns = 40"
  using render_text_columns [of "''led 9''" 77 "[1, 2]"]
  by (simp add: drawable_def npos_def SIZE_BITS_def)

text \<open>The glyph drawn for the semicolon is registered under the slash, which already has one,
  so it is dropped: the semicolon has no glyph at all and is skipped when a text is rendered.\<close>

theorem font_semicolon_missing:
  "font_get (font_new garbage) (CHR '';'') = ([], font_new garbage)
   \<and> fst (glyphs_of (font_new garbage) ''a;b'') = fst (glyphs_of (font_new garbage) ''ab'')"
proof -
  have none: "find_symbol (to_uint16 (CHR '';'')) fill_data = []"
  proof -
    have "char_of (59 :: nat) = CHR '';''" by code_simp
    then show ?thesis
      using raw_basic_printable [of 59] by (simp add: find_symbol_basic is_basic_def)
  qed
  then show ?thesis
    by (simp add: font_get_def font_new_def is_basic_def split: prod.split)
qed

lemma umlaut_key_missing:
  assumes "k \<in> {259, 1411, 1795}"
  shows "find_symbol k fill_data = []"
proof -
  have big: "list_all (\<lambda>g. glyph_key g < 128) basic_glyphs"
    by (simp add: basic_glyphs_def to_uint16_def)
  have "list_all (\<lambda>k'. k' \<noteq> k) (map glyph_key extended_glyphs)"
    using assms by (auto simp: extended_keys)
  moreover have "128 \<le> k" using assms by auto
  ultimately have "list_all (\<lambda>g. glyph_key g \<noteq> k) (basic_glyphs @ extended_glyphs)"
    using big by (fastforce simp: list_all_iff)
  then show ?thesis
    by (simp add: find_symbol_def fill_data_def add_glyphs_other empty_symbol_def)
qed

text \<open>Two-byte symbols are stored under (first, second) but looked up under (second, first):
  every umlaut of the table, read from a clean state, is shown as a star.\<close>

theorem font_umlaut_star:
  assumes "second \<in> {0x84, 0xA4, 0x96, 0xB6, 0x9C, 0xBC :: u8}"
    and "f_data f = fill_data" "f_first_byte f = 0"
  shows "fst (glyphs_of f [char_of (0xC3 :: nat), char_of (unat second)])
    = fst (font_get f (CHR ''*''))"
proof -
  have "to_uint16_pair second 0xC3 \<in> {259, 1411, 1795}"
    using assms(1) by (auto simp: to_uint16_pair_def)
  then have none: "find_symbol (to_uint16_pair second 0xC3) fill_data = []"
    by (rule umlaut_key_missing)
  have second: "\<not> is_basic (char_of (unat second))" "to_uint8 (char_of (unat second)) = second"
    "second \<noteq> 0"
    using assms(1) by (auto simp: is_basic_def to_uint8_def)
  have first: "font_get f (char_of (0xC3 :: nat)) = ([], f\<lparr>f_first_byte := 0xC3\<rparr>)"
    using assms(3) by (simp add: font_get_def is_basic_def to_uint8_def empty_symbol_def)
  have "fst (font_get (f\<lparr>f_first_byte := 0xC3\<rparr>) (char_of (unat second)))
      = find_symbol (to_uint16 (CHR ''*'')) fill_data"
    using second none assms(2) by (simp add: font_get_def Let_def)
  with first show ?thesis
    using assms(2) by (simp add: font_get_def is_basic_def split: prod.split)
qed

theorem font_umlaut_star_witness:
  "fst (glyphs_of (font_new 0) [char_of (0xC3 :: nat), char_of (0xA4 :: nat)])
    = fst (font_get (font_new 0) (CHR ''*''))"
  using font_umlaut_star [of "0xA4" "font_new 0"] by (simp add: font_new_def)

end
