(* ===== verification/Pi_Handle.thy ===== *)
theory Pi_Handle
  imports Pi_Content Pi_Render
begin

text \<open>
  The daemon's dispatcher: \<open>src/src/pi/handle.cpp\<close>. It takes statuses of the shell and messages
  of the controller from its two queues, sends messages to the controller and commands to the
  shell. The two queues it holds pointers to are part of its state, and so is the static serial
  number. A handler that may throw returns an exception or the new state. Log output is not
  modelled.
\<close>

section \<open>State\<close>

record 're handle =
  h_from_mcu_queue :: "mcu_queue"
  h_to_mcu_queue :: "mcu_queue"
  h_command_queue :: "command_queue"
  h_status_queue :: "status_queue"
  h_content :: "'re content"
  h_suspend :: bool
  h_font :: font
  h_go :: bool
  h_playlist_id :: u8
  h_serial_id :: u8

definition handle_new :: "u8 \<Rightarrow> 're content \<Rightarrow> 're handle" where
  "handle_new garbage c = \<lparr>h_from_mcu_queue = mq_new, h_to_mcu_queue = mq_new,
     h_command_queue = mq_new, h_status_queue = mq_new, h_content = c, h_suspend = False,
     h_font = font_new garbage, h_go = True, h_playlist_id = 0, h_serial_id = 0\<rparr>"

definition QUEUE_SIZE_LIMIT :: nat where
  "QUEUE_SIZE_LIMIT = 3"

definition MPC_PLAY_PREFIX :: string where
  "MPC_PLAY_PREFIX = ''mpc play''"

text \<open>\<open>\s*([^:]+):(.*)\<close>\<close>

definition system_regex :: "piece list" where
  "system_regex = [Rep False 0 Space, Rep True 1 (Not_of '':''), Lit (CHR '':''), Rep True 0 Dot]"

section \<open>Numbers in a status\<close>

definition handle_to_uint8 :: "string \<Rightarrow> u8 \<Rightarrow> bool \<times> u8" where
  "handle_to_uint8 src dst =
     (case read_unsigned 32 src 0 of
        (tmp, good) \<Rightarrow> if \<not> good \<or> tmp > 0xFF then (False, dst) else (True, of_nat tmp))"

definition handle_from_uint8 :: "u8 \<Rightarrow> string" where
  "handle_from_uint8 src = dec_string (unat src)"

definition split_to_uint8 ::
  "string \<Rightarrow> nat option \<Rightarrow> u8 \<Rightarrow> cpp_exn + (bool \<times> nat option \<times> u8)" where
  "split_to_uint8 src pos dst =
     (case str_find src (CHR ''-'') pos of
        None \<Rightarrow>
          (case str_substr src pos None of
             Inl e \<Rightarrow> Inl e
           | Inr tmp \<Rightarrow> (case handle_to_uint8 tmp dst of (ok, d) \<Rightarrow> Inr (ok, None, d)))
      | Some new_pos \<Rightarrow>
          (case str_substr src pos (Some (new_pos - the pos)) of
             Inl e \<Rightarrow> Inl e
           | Inr tmp \<Rightarrow> (case handle_to_uint8 tmp dst of (ok, d) \<Rightarrow> Inr (ok, Some (new_pos + 1), d))))"

definition split_info :: "string \<Rightarrow> u8 \<times> u8 \<times> u8 \<Rightarrow> cpp_exn + (bool \<times> u8 \<times> u8 \<times> u8)" where
  "split_info src vals =
     (case vals of (value, least, most) \<Rightarrow>
        case split_to_uint8 src (Some 0) value of
          Inl e \<Rightarrow> Inl e
        | Inr (ok, pos, value) \<Rightarrow>
            if \<not> ok then Inr (False, value, least, most)
            else case split_to_uint8 src pos least of
              Inl e \<Rightarrow> Inl e
            | Inr (ok, pos, least) \<Rightarrow>
                if \<not> ok then Inr (False, value, least, most)
                else case split_to_uint8 src pos most of
                  Inl e \<Rightarrow> Inl e
                | Inr (ok, pos, most) \<Rightarrow> Inr (ok, value, least, most))"

section \<open>Sending\<close>

definition handle_push_mcu :: "mcu_msg \<Rightarrow> 're handle \<Rightarrow> 're handle" where
  "handle_push_mcu msg h = h\<lparr>h_to_mcu_queue := fst (cq_push (h_to_mcu_queue h) msg)\<rparr>"

text \<open>\<open>m_to_mcu_queue->push (mcu::encode::join (mcu_id::get (), msg_id, ...))\<close>\<close>

definition handle_send :: "u8 \<Rightarrow> payload list \<Rightarrow> 're handle \<Rightarrow> 're handle" where
  "handle_send msg_id payload h =
     (case mcu_id_get (h_serial_id h) of (serial, serial_id) \<Rightarrow>
        handle_push_mcu (encode_join serial msg_id payload) (h\<lparr>h_serial_id := serial_id\<rparr>))"

definition handle_issue :: "command_id \<Rightarrow> string \<Rightarrow> int \<Rightarrow> 're handle \<Rightarrow> 're handle" where
  "handle_issue i body time_out h =
     h\<lparr>h_command_queue := command_issue i body time_out (h_command_queue h)\<rparr>"

fun push_full_chunks :: "matrix \<Rightarrow> nat \<Rightarrow> nat \<Rightarrow> 're handle \<Rightarrow> 're handle" where
  "push_full_chunks m start 0 h = h"
| "push_full_chunks m start (Suc n) h =
     push_full_chunks m (start + unat LED_ARRAY_SIZE) n
       (handle_send MSG_ID_LED_ARRAY [Arr (take (unat LED_ARRAY_SIZE) (drop start m))] h)"

definition push_matrix :: "matrix \<Rightarrow> 're handle \<Rightarrow> 're handle" where
  "push_matrix m h =
     (let full = length m div unat LED_ARRAY_SIZE;
          h = push_full_chunks m 0 full h;
          len = length m mod unat LED_ARRAY_SIZE
      in if len > 0
         then handle_send MSG_ID_LED_ARRAY [Arr (take len (drop (full * unat LED_ARRAY_SIZE) m))] h
         else h)"

definition info_push :: "'re handle \<Rightarrow> cpp_exn + 're handle" where
  "info_push h =
     (if h_suspend h \<or> cq_size True (h_to_mcu_queue h) \<ge> QUEUE_SIZE_LIMIT then Inr h
      else
        case content_out (h_content h) of (content_info, c) \<Rightarrow>
          let info = i_text content_info @ '' '';
              h = h\<lparr>h_content := c\<rparr>
          in case pixelize (h_font h) [] info (i_format content_info) of
               None \<Rightarrow> Inl Undefined
             | Some (ok, matrix, f) \<Rightarrow>
                 let h = h\<lparr>h_font := f\<rparr>
                 in if \<not> ok then Inr h else Inr (push_matrix matrix h))"

definition filter_system :: "string \<Rightarrow> 're handle \<Rightarrow> bool \<times> 're handle" where
  "filter_system info h =
     (case popen_split system_regex info of
        None \<Rightarrow> (False, h)
      | Some (prefix, suffix) \<Rightarrow>
          if prefix = MPC_PLAY_PREFIX
          then (True, handle_issue MPC_PLAY ''led-mpc.sh play'' three_seconds h)
          else (False, h))"

definition handle_content_in ::
  "('re \<Rightarrow> string \<Rightarrow> string \<Rightarrow> string option) \<Rightarrow> status \<Rightarrow> 're handle \<Rightarrow> 're handle" where
  "handle_content_in apply s h =
     (case content_in apply s (h_content h, h_to_mcu_queue h, h_serial_id h) of
        (c, q, serial_id) \<Rightarrow> h\<lparr>h_content := c, h_to_mcu_queue := q, h_serial_id := serial_id\<rparr>)"

section \<open>Statuses\<close>

definition status_get :: "status \<Rightarrow> 're handle \<Rightarrow> cpp_exn + 're handle" where
  "status_get s h =
     (case split_info (s_out s) (0, 0, 0) of
        Inl e \<Rightarrow> Inl e
      | Inr (ok, value, least, most) \<Rightarrow>
          if \<not> ok then Inr h
          else
            let param = (if s_id s = MPC_VOLUME_GET then PARAMETER_VOLUME
                         else if s_id s = MPC_TRACK_GET then PARAMETER_TRACK
                         else PARAMETER_PLAYLIST);
                value = (if param = PARAMETER_PLAYLIST then h_playlist_id h else value)
            in Inr (handle_send MSG_ID_QUERY_NUMBER
                 [Byte param, Byte value, Byte least, Byte most] h))"

definition status_name ::
  "('re \<Rightarrow> string \<Rightarrow> string \<Rightarrow> string option) \<Rightarrow> status \<Rightarrow> 're handle \<Rightarrow> cpp_exn + 're handle" where
  "status_name apply s h =
     (let parameter = (if s_id s = MPC_PLAYLIST_NAME then PARAMETER_PLAYLIST else PARAMETER_TRACK)
      in case split_to_uint8 (s_out s) (Some 0) 0 of
           Inl e \<Rightarrow> Inl e
         | Inr (ok, pos, i) \<Rightarrow>
             if \<not> ok then Inr h
             else Inr (handle_send MSG_ID_QUERY_NAME [Byte parameter, Byte i]
               (handle_content_in apply s h)))"

definition handle_status ::
  "('re \<Rightarrow> string \<Rightarrow> string \<Rightarrow> string option) \<Rightarrow> status \<Rightarrow> 're handle \<Rightarrow> cpp_exn + 're handle" where
  "handle_status apply s h =
     (if s_value s \<noteq> status_good then Inr h
      else
        let filtered = (if s_id s = STREAM_SYSTEM then filter_system (s_out s) h else (False, h));
            h = snd filtered
        in if fst filtered then Inr h
           else if s_id s \<in> {MPC_PLAYLIST_GET, MPC_TRACK_GET, MPC_VOLUME_GET} then status_get s h
           else if s_id s \<in> {MPC_PLAYLIST_NAME, MPC_TRACK_NAME} then status_name apply s h
           else if s_id s \<in> {MPC_PLAY, MPC_PLAYLIST_SET, MPC_STOP, MPC_TRACK_SET, MPC_VOLUME_SET}
             then Inr h
           else Inr (handle_content_in apply s h))"

section \<open>Messages of the controller\<close>

definition mcu_query_name :: "mcu_msg \<Rightarrow> 're handle \<Rightarrow> 're handle" where
  "mcu_query_name msg h =
     (case decode_split_payload msg 2 of
        Some [param, i] \<Rightarrow>
          if param \<noteq> PARAMETER_PLAYLIST \<and> param \<noteq> PARAMETER_TRACK then h
          else
            let (cmd_id, prefix) =
                  (if param = PARAMETER_PLAYLIST
                   then (MPC_PLAYLIST_NAME, ''led-mpc.sh playlist-name '')
                   else (MPC_TRACK_NAME, ''led-mpc.sh track-name ''))
            in handle_issue cmd_id (prefix @ handle_from_uint8 i) three_seconds h
      | _ \<Rightarrow> h)"

definition mcu_query_number :: "mcu_msg \<Rightarrow> 're handle \<Rightarrow> 're handle" where
  "mcu_query_number msg h =
     (case decode_split_payload msg 1 of
        Some [param] \<Rightarrow>
          if param \<noteq> PARAMETER_PLAYLIST \<and> param \<noteq> PARAMETER_TRACK \<and> param \<noteq> PARAMETER_VOLUME then h
          else
            let (cmd_id, cmd) =
                  (if param = PARAMETER_PLAYLIST then (MPC_PLAYLIST_GET, ''led-mpc.sh playlist-get'')
                   else if param = PARAMETER_TRACK then (MPC_TRACK_GET, ''led-mpc.sh track-get'')
                   else (MPC_VOLUME_GET, ''led-mpc.sh volume-get''))
            in handle_issue cmd_id cmd three_seconds h
      | _ \<Rightarrow> h)"

definition playlist_new_id :: "u8 \<Rightarrow> u8 \<Rightarrow> u8 \<Rightarrow> u8" where
  "playlist_new_id playlist_id positive delta =
     (if positive = PARAMETER_POSITIVE then playlist_id + delta
      else if playlist_id > delta then playlist_id - delta else 0)"

definition mcu_param_set :: "mcu_msg \<Rightarrow> 're handle \<Rightarrow> 're handle" where
  "mcu_param_set msg h =
     (case decode_split_payload msg 3 of
        Some [param, positive, delta] \<Rightarrow>
          if (param \<noteq> PARAMETER_VOLUME \<and> param \<noteq> PARAMETER_TRACK \<and> param \<noteq> PARAMETER_PLAYLIST
               \<and> param \<noteq> PARAMETER_GO_AHEAD)
             \<or> (positive \<noteq> PARAMETER_POSITIVE \<and> positive \<noteq> PARAMETER_NEGATIVE) then h
          else
            let cmd = (if param = PARAMETER_VOLUME then ''led-mpc.sh volume-set ''
                       else if param = PARAMETER_TRACK then ''led-mpc.sh track-set ''
                       else if param = PARAMETER_PLAYLIST then ''led-mpc.sh playlist-set ''
                       else if positive = PARAMETER_POSITIVE then ''led-mpc.sh play''
                       else ''led-mpc.sh stop'');
                new_id = playlist_new_id (h_playlist_id h) positive delta;
                (cmd, playlist_id) =
                  (if param \<noteq> PARAMETER_GO_AHEAD \<and> param \<noteq> PARAMETER_PLAYLIST
                   then (cmd @ (if positive = PARAMETER_POSITIVE then ''+ '' else ''- '')
                           @ handle_from_uint8 delta, h_playlist_id h)
                   else if param = PARAMETER_PLAYLIST
                   then (cmd @ handle_from_uint8 new_id,
                         if new_id > 0 then new_id else h_playlist_id h)
                   else (cmd, h_playlist_id h));
                cmd_id = (if param = PARAMETER_VOLUME then MPC_VOLUME_SET
                          else if param = PARAMETER_TRACK then MPC_TRACK_SET
                          else if param = PARAMETER_PLAYLIST then MPC_PLAYLIST_SET
                          else if positive = PARAMETER_POSITIVE then MPC_PLAY else MPC_STOP)
            in handle_issue cmd_id cmd three_seconds (h\<lparr>h_playlist_id := playlist_id\<rparr>)
      | _ \<Rightarrow> h)"

definition mcu_poweroff :: "mcu_msg \<Rightarrow> 're handle \<Rightarrow> 're handle" where
  "mcu_poweroff msg h =
     (case decode_split_payload msg 1 of
        Some [delay] \<Rightarrow>
          if delay = 0 then handle_issue POWEROFF ''sudo poweroff'' ten_seconds h
          else handle_issue SHUTDOWN (''sudo /sbin/shutdown '' @ dec_string (unat delay)) ten_seconds h
      | _ \<Rightarrow> h)"

definition mcu_status :: "mcu_msg \<Rightarrow> 're handle \<Rightarrow> cpp_exn + 're handle" where
  "mcu_status msg h =
     (case decode_split_payload msg 2 of
        Some [status, src_msg_id] \<Rightarrow> if src_msg_id = MSG_ID_LED_ARRAY then info_push h else Inr h
      | _ \<Rightarrow> Inr h)"

definition mcu_suspend :: "'re handle \<Rightarrow> 're handle" where
  "mcu_suspend h = h\<lparr>h_suspend := True, h_content := content_clear_top (h_content h)\<rparr>"

definition mcu_reboot :: "'re handle \<Rightarrow> 're handle" where
  "mcu_reboot h = handle_issue REBOOT ''sudo reboot'' ten_seconds h"

definition mcu_resume :: "'re handle \<Rightarrow> cpp_exn + 're handle" where
  "mcu_resume h = info_push (h\<lparr>h_suspend := False\<rparr>)"

definition version_mismatch :: string where
  "version_mismatch = ''handle: Pi & Mcu protocol version mismatch, can't continue...''"

definition mcu_version :: "mcu_msg \<Rightarrow> 're handle \<Rightarrow> cpp_exn + 're handle" where
  "mcu_version msg h =
     (case decode_split_payload msg 1 of
        Some [version] \<Rightarrow>
          if version \<noteq> PROTOCOL_VERSION then Inl (Runtime_error version_mismatch)
          else info_push
            (handle_push_mcu (encode_join SERIAL_ID_TO_IGNORE MSG_ID_HANDSHAKE []) h)
      | _ \<Rightarrow> Inr h)"

definition handle_mcu :: "mcu_msg \<Rightarrow> 're handle \<Rightarrow> cpp_exn + 're handle" where
  "handle_mcu msg h =
     (case decode_get_msg_id msg of
        None \<Rightarrow> Inr h
      | Some msg_id \<Rightarrow>
          if msg_id = MSG_ID_PARAM_SET then Inr (mcu_param_set msg h)
          else if msg_id = MSG_ID_POWEROFF then Inr (mcu_poweroff msg h)
          else if msg_id = MSG_ID_QUERY_NAME then Inr (mcu_query_name msg h)
          else if msg_id = MSG_ID_QUERY_NUMBER then Inr (mcu_query_number msg h)
          else if msg_id = MSG_ID_REBOOT then Inr (mcu_reboot h)
          else if msg_id = MSG_ID_RESUME then mcu_resume h
          else if msg_id = MSG_ID_STATUS then mcu_status msg h
          else if msg_id = MSG_ID_SUSPEND then Inr (mcu_suspend h)
          else if msg_id = MSG_ID_VERSION then mcu_version msg h
          else Inr h)"

section \<open>The loop\<close>

definition handle_stop :: "'re handle \<Rightarrow> 're handle" where
  "handle_stop h = h\<lparr>h_go := False\<rparr>"

text \<open>
  One round of \<open>start\<close> up to the wait: at most one status, then at most one message. The other
  threads may push in between; \<open>handle_round\<close> takes the queues as the round finds them. The flag
  says whether the round goes to sleep at its end.
\<close>

definition handle_round ::
  "('re \<Rightarrow> string \<Rightarrow> string \<Rightarrow> string option) \<Rightarrow> 're handle \<Rightarrow> cpp_exn + (bool \<times> 're handle)" where
  "handle_round apply h =
     (case cq_pop False (h_status_queue h) mq_new of
        (status, q) \<Rightarrow>
          case (case status of None \<Rightarrow> Inr (h\<lparr>h_status_queue := q\<rparr>)
                | Some s \<Rightarrow> handle_status apply s (h\<lparr>h_status_queue := q\<rparr>)) of
            Inl e \<Rightarrow> Inl e
          | Inr h \<Rightarrow>
              (case cq_pop False (h_from_mcu_queue h) mq_new of
                 (mcu_msg, q) \<Rightarrow>
                   case (case mcu_msg of None \<Rightarrow> Inr (h\<lparr>h_from_mcu_queue := q\<rparr>)
                         | Some msg \<Rightarrow> handle_mcu msg (h\<lparr>h_from_mcu_queue := q\<rparr>)) of
                     Inl e \<Rightarrow> Inl e
                   | Inr h \<Rightarrow> Inr (cq_empty False (h_status_queue h)
                       \<and> cq_empty False (h_from_mcu_queue h), h)))"

fun handle_rounds ::
  "('re \<Rightarrow> string \<Rightarrow> string \<Rightarrow> string option) \<Rightarrow> nat \<Rightarrow> 're handle \<Rightarrow> cpp_exn + 're handle" where
  "handle_rounds apply 0 h = Inr h"
| "handle_rounds apply (Suc n) h =
     (if \<not> h_go h then Inr h
      else case handle_round apply h of
             Inl e \<Rightarrow> Inl e
           | Inr (sleep, h) \<Rightarrow> if sleep then Inr h else handle_rounds apply n h)"

section \<open>Numbers in a status\<close>

lemma handle_to_uint8_dec: "handle_to_uint8 (dec_string (unat v)) d = (True, v)"
proof -
  have "read_unsigned 32 (dec_string (unat v)) 0 = (unat v, True)"
    by (rule read_unsigned_dec_string, rule less_trans [OF unat_u8_less]) simp
  then show ?thesis
    by (simp add: handle_to_uint8_def not_less)
qed

lemma dash_not_digit: "CHR ''-'' \<notin> set (dec_string n)"
  using dec_string_digits [of n] by (auto simp: list_all_iff is_digit_def)

lemma split_to_uint8_middle:
  "split_to_uint8 (pre @ dec_string (unat v) @ CHR ''-'' # rest) (Some (length pre)) d =
     Inr (True, Some (length pre + length (dec_string (unat v)) + 1), v)"
  by (simp add: split_to_uint8_def str_find_def index_of_append [OF dash_not_digit] str_substr_def
      handle_to_uint8_dec)

lemma split_to_uint8_end:
  "split_to_uint8 (pre @ dec_string (unat v)) (Some (length pre)) d = Inr (True, None, v)"
  using dash_not_digit [of "unat v"]
  by (simp add: split_to_uint8_def str_find_def index_of_None [THEN iffD2] str_substr_def
      handle_to_uint8_dec)

text \<open>
  The three numbers that a status prints as value-min-max are read back, each of them any
  byte, whatever the variables held before.
\<close>

theorem split_info_print:
  "split_info (dec_string (unat v) @ '''' @ ''-'' @ dec_string (unat mn) @ ''-'' @ dec_string (unat mx)) old
     = Inr (True, v, mn, mx)"
proof -
  let ?a = "dec_string (unat v)" and ?b = "dec_string (unat mn)" and ?c = "dec_string (unat mx)"
  obtain v0 m0 x0 where old: "old = (v0, m0, x0)" by (cases old)
  have 1: "split_to_uint8 (?a @ CHR ''-'' # ?b @ CHR ''-'' # ?c) (Some 0) v0
      = Inr (True, Some (length ?a + 1), v)"
    using split_to_uint8_middle [of "[]" v "?b @ CHR ''-'' # ?c" v0] by simp
  have 2: "split_to_uint8 (?a @ CHR ''-'' # ?b @ CHR ''-'' # ?c) (Some (length ?a + 1)) m0
      = Inr (True, Some (length ?a + 1 + length ?b + 1), mn)"
    using split_to_uint8_middle [of "?a @ ''-''" mn ?c m0] by simp
  have 3: "split_to_uint8 (?a @ CHR ''-'' # ?b @ CHR ''-'' # ?c) (Some (length ?a + 1 + length ?b + 1)) x0
      = Inr (True, None, mx)"
    using split_to_uint8_end [of "?a @ ''-'' @ ?b @ ''-''" mx x0] by simp
  show ?thesis using 1 2 3 by (simp add: split_info_def old)
qed

text \<open>
  A good status of a query whose text is a single number makes the second \<open>substr\<close> throw: the
  exception leaves the thread instead of the log line that the code has for this case.
\<close>

theorem handle_status_short_throws:
  fixes v :: u8
  assumes "s_id s \<in> {MPC_PLAYLIST_GET, MPC_TRACK_GET, MPC_VOLUME_GET}" "s_value s = status_good"
    and "s_out s = dec_string (unat v)"
  shows "handle_status apply s h = Inl Out_of_range"
proof -
  have "split_to_uint8 (s_out s) (Some 0) 0 = Inr (True, None, v)"
    using split_to_uint8_end [of "[]" v 0] assms(3) by simp
  then have "split_info (s_out s) (0, 0, 0) = Inl Out_of_range"
    by (simp add: split_info_def split_to_uint8_def [of _ None] str_find_def str_substr_def)
  moreover have "s_id s \<noteq> STREAM_SYSTEM" using assms(1) by auto
  ultimately show ?thesis using assms(1,2) by (simp add: handle_status_def status_get_def)
qed

lemma handle_status_short_throws_witness:
  "handle_status (\<lambda>_ _ _. None) (status_new MPC_VOLUME_GET status_good (dec_string (unat (80 :: u8)))) h
     = Inl Out_of_range"
  by (rule handle_status_short_throws [where v = 80]) (simp_all add: status_new_def)

text \<open>
  The answer to a volume or track query is one message with the numbers the shell printed; for
  a playlist the first number is the one the daemon remembers.
\<close>

theorem handle_status_query_number:
  fixes v mn mx :: u8
  assumes "s_id s \<in> {MPC_PLAYLIST_GET, MPC_TRACK_GET, MPC_VOLUME_GET}" "s_value s = status_good"
    and "s_out s = dec_string (unat v) @ ''-'' @ dec_string (unat mn) @ ''-'' @ dec_string (unat mx)"
  shows "handle_status apply s h = Inr (handle_send MSG_ID_QUERY_NUMBER
    (if s_id s = MPC_PLAYLIST_GET
     then [Byte PARAMETER_PLAYLIST, Byte (h_playlist_id h), Byte mn, Byte mx]
     else [Byte (if s_id s = MPC_VOLUME_GET then PARAMETER_VOLUME else PARAMETER_TRACK),
           Byte v, Byte mn, Byte mx]) h)"
proof -
  let ?a = "dec_string (unat v)" and ?b = "dec_string (unat mn)" and ?c = "dec_string (unat mx)"
  have 1: "split_to_uint8 (s_out s) (Some 0) 0 = Inr (True, Some (length ?a + 1), v)"
    using split_to_uint8_middle [of "[]" v "?b @ CHR ''-'' # ?c" 0] assms(3) by simp
  have 2: "split_to_uint8 (s_out s) (Some (length ?a + 1)) 0
      = Inr (True, Some (length ?a + 1 + length ?b + 1), mn)"
    using split_to_uint8_middle [of "?a @ ''-''" mn ?c 0] assms(3) by simp
  have 3: "split_to_uint8 (s_out s) (Some (length ?a + 1 + length ?b + 1)) 0 = Inr (True, None, mx)"
    using split_to_uint8_end [of "?a @ ''-'' @ ?b @ ''-''" mx 0] assms(3) by simp
  have "split_info (s_out s) (0, 0, 0) = Inr (True, v, mn, mx)"
    using 1 2 3 by (simp add: split_info_def)
  moreover have "s_id s \<noteq> STREAM_SYSTEM" using assms(1) by auto
  ultimately show ?thesis
    using assms(1,2) by (auto simp: handle_status_def status_get_def Let_def)
qed

section \<open>Columns on their way to the controller\<close>

lemma handle_send_simps [simp]:
  "m_holder (h_to_mcu_queue (handle_send i ps h)) =
     m_holder (h_to_mcu_queue h) @ [fst (mcu_id_get (h_serial_id h)) # i # concat (map payload_bytes ps)]"
  "h_serial_id (handle_send i ps h) = fst (mcu_id_get (h_serial_id h))"
  by (simp_all add: handle_send_def handle_push_mcu_def case_prod_beta mq_push_def encode_join_bytes)

text \<open>A message that carries a piece of at most twenty columns.\<close>

definition led_message :: "bytes \<Rightarrow> mcu_msg \<Rightarrow> bool" where
  "led_message columns msg \<longleftrightarrow>
     (\<exists>serial. serial \<noteq> 0 \<and> msg = serial # MSG_ID_LED_ARRAY # columns) \<and>
     0 < length columns \<and> length columns \<le> 20"

definition led_pushed :: "'re handle \<Rightarrow> bytes list \<Rightarrow> 're handle \<Rightarrow> bool" where
  "led_pushed h pieces h' \<longleftrightarrow>
     (\<exists>msgs. m_holder (h_to_mcu_queue h') = m_holder (h_to_mcu_queue h) @ msgs \<and>
       list_all2 led_message pieces msgs)"

lemma led_pushed_refl: "led_pushed h [] h"
  by (simp add: led_pushed_def)

lemma led_pushed_trans: "led_pushed h xs h' \<Longrightarrow> led_pushed h' ys h'' \<Longrightarrow> led_pushed h (xs @ ys) h''"
  by (auto simp: led_pushed_def) (metis append.assoc list_all2_appendI)

lemma led_pushed_send:
  "0 < length piece \<Longrightarrow> length piece \<le> 20 \<Longrightarrow>
     led_pushed h [piece] (handle_send MSG_ID_LED_ARRAY [Arr piece] h)"
  by (auto simp: led_pushed_def led_message_def list_all2_Cons1 simp del: msg_id_defs)

lemma push_full_chunks_pushed:
  "start + n * 20 \<le> length m \<Longrightarrow>
     \<exists>pieces. led_pushed h pieces (push_full_chunks m start n h) \<and> length pieces = n \<and>
       concat pieces = take (n * 20) (drop start m)"
proof (induction n arbitrary: start h)
  case 0
  then show ?case by (auto intro: led_pushed_refl exI [of _ "[]"])
next
  case (Suc n)
  let ?piece = "take 20 (drop start m)"
  let ?h = "handle_send MSG_ID_LED_ARRAY [Arr ?piece] h"
  obtain pieces where p: "led_pushed ?h pieces (push_full_chunks m (start + 20) n ?h)"
    "length pieces = n" "concat pieces = take (n * 20) (drop (start + 20) m)"
    using Suc.IH [of "start + 20" ?h] Suc.prems by auto
  have "led_pushed h [?piece] ?h" using Suc.prems by (intro led_pushed_send) auto
  from led_pushed_trans [OF this p(1)] have
    "led_pushed h (?piece # pieces) (push_full_chunks m start (Suc n) h)" by simp
  moreover have "take (Suc n * 20) (drop start m) = ?piece @ take (n * 20) (drop (start + 20) m)"
    using take_add [of 20 "n * 20" "drop start m"] by (simp add: add.commute)
  ultimately show ?case using p(2,3) by (intro exI [of _ "?piece # pieces"]) simp
qed

lemma chunk_count: "(n + 19) div 20 = (if n mod 20 = 0 then n div 20 else Suc (n div 20))" for n :: nat
proof -
  obtain q r where n: "n = 20 * q + r" and r: "r < 20"
    by (metis mult_div_mod_eq mod_less_divisor zero_less_numeral)
  show ?thesis
  proof (cases r)
    case 0
    then show ?thesis by (simp add: n)
  next
    case (Suc k)
    then have "n + 19 = 20 * Suc q + k" "k < 20" using n r by simp_all
    then have "(n + 19) div 20 = Suc q" by simp
    then show ?thesis using n r Suc by simp
  qed
qed

lemma push_matrix_pushed:
  "\<exists>pieces. led_pushed h pieces (push_matrix m h) \<and> concat pieces = m
    \<and> length pieces = (length m + 19) div 20"
proof -
  let ?full = "length m div 20"
  have le: "0 + ?full * 20 \<le> length m" by simp
  obtain pieces where p: "led_pushed h pieces (push_full_chunks m 0 ?full h)"
    "length pieces = ?full" "concat pieces = take (?full * 20) m"
    using push_full_chunks_pushed [OF le, of h] by auto
  show ?thesis
  proof (cases "length m mod 20 = 0")
    case True
    then have len: "?full * 20 = length m" using div_mult_mod_eq [of "length m" 20] by linarith
    then show ?thesis using p True len by (intro exI [of _ pieces]) (simp add: push_matrix_def Let_def chunk_count)
  next
    case False
    let ?piece = "take (length m mod 20) (drop (?full * 20) m)"
    have whole: "?piece = drop (?full * 20) m"
      by (intro take_all) (simp add: minus_div_mult_eq_mod)
    have "length ?piece = length m mod 20" by (simp add: minus_div_mult_eq_mod)
    then have "led_pushed (push_full_chunks m 0 ?full h) [?piece]
        (handle_send MSG_ID_LED_ARRAY [Arr ?piece] (push_full_chunks m 0 ?full h))"
      using False by (intro led_pushed_send) auto
    from led_pushed_trans [OF p(1) this] have "led_pushed h (pieces @ [?piece]) (push_matrix m h)"
      using False by (simp add: push_matrix_def Let_def del: msg_id_defs)
    moreover have "concat (pieces @ [?piece]) = m" unfolding whole using p(3) by simp
    ultimately show ?thesis
      using p(2) False by (intro exI [of _ "pieces @ [?piece]"]) (simp add: chunk_count)
  qed
qed

text \<open>The longest text the content holds is far from the limit of \<open>size_t\<close>.\<close>

definition content_fits :: "'re content \<Rightarrow> bool" where
  "content_fits c \<longleftrightarrow> length (i_text (fst (content_out c))) + 1 < npos"

lemma content_out_format: "i_format (fst (content_out c)) = format_encode_empty"
  by (auto simp: content_out_def info_new_def Let_def split: list.split)

lemma info_push_runs:
  assumes "\<not> h_suspend h" "length (m_holder (h_to_mcu_queue h)) < 3" "content_fits (h_content h)"
  shows "info_push h = Inr (push_matrix
      (fst (glyphs_of (h_font h) (i_text (fst (content_out (h_content h))) @ '' '')))
      (h\<lparr>h_content := snd (content_out (h_content h)),
         h_font := snd (glyphs_of (h_font h) (i_text (fst (content_out (h_content h))) @ '' ''))\<rparr>))"
  using assms pixelize_whole [of "i_text (fst (content_out (h_content h))) @ '' ''" "h_font h" "[]"]
  by (simp add: info_push_def QUEUE_SIZE_LIMIT_def content_fits_def Let_def case_prod_beta
      content_out_format)

text \<open>
  C19: a text is pushed only while the daemon is not suspended and fewer than three messages wait;
  then the columns of the whole text, in order, are cut into messages of one to twenty columns,
  and nothing else is pushed. Otherwise the state is left as it was.
\<close>

theorem info_push_columns:
  assumes "content_fits (h_content h)"
  shows "if h_suspend h \<or> length (m_holder (h_to_mcu_queue h)) \<ge> 3 then info_push h = Inr h
    else \<exists>h' pieces. info_push h = Inr h' \<and> led_pushed h pieces h' \<and>
      concat pieces = fst (glyphs_of (h_font h) (i_text (fst (content_out (h_content h))) @ '' '')) \<and>
      length pieces = (length (concat pieces) + 19) div 20"
proof (cases "h_suspend h \<or> length (m_holder (h_to_mcu_queue h)) \<ge> 3")
  case True
  then show ?thesis by (auto simp: info_push_def QUEUE_SIZE_LIMIT_def)
next
  case False
  let ?g = "glyphs_of (h_font h) (i_text (fst (content_out (h_content h))) @ '' '')"
  let ?h = "h\<lparr>h_content := snd (content_out (h_content h)), h_font := snd ?g\<rparr>"
  obtain pieces where "led_pushed ?h pieces (push_matrix (fst ?g) ?h)" "concat pieces = fst ?g"
    "length pieces = (length (fst ?g) + 19) div 20"
    using push_matrix_pushed [of ?h "fst ?g"] by auto
  then have "led_pushed h pieces (push_matrix (fst ?g) ?h)" "concat pieces = fst ?g"
    "length pieces = (length (concat pieces) + 19) div 20"
    by (simp_all add: led_pushed_def)
  then show ?thesis using info_push_runs [of h] False assms by (auto simp: not_le)
qed

lemma info_push_columns_witness:
  "\<exists>h' pieces. info_push (handle_new 0 sample_content) = Inr h' \<and>
     led_pushed (handle_new 0 sample_content) pieces h' \<and>
     concat pieces = fst (glyphs_of (font_new 0) ''12:30 '')"
proof -
  have "content_out sample_content = (info_new ''12:30'' format_encode_empty None,
      sample_content\<lparr>c_iterator := Some STREAM_TRACK_NAME\<rparr>)"
    by (simp add: content_out_def sample_content_def content_keys_def command_id_list_def
        content_begin_def content_next_def less_command_id_def)
  then have "i_text (fst (content_out sample_content)) = ''12:30''"
    by (simp add: info_new_def)
  moreover from this have "content_fits sample_content"
    by (simp add: content_fits_def npos_def SIZE_BITS_def)
  ultimately show ?thesis
    using info_push_columns [of "handle_new 0 sample_content"]
    by (auto simp: handle_new_def mq_new_def simp del: glyphs_of.simps)
qed

section \<open>The dispatcher as a whole\<close>

lemma info_push_total: "content_fits (h_content h) \<Longrightarrow> \<exists>h'. info_push h = Inr h'"
  using info_push_runs [of h]
  by (cases "h_suspend h \<or> length (m_holder (h_to_mcu_queue h)) \<ge> 3")
    (auto simp: info_push_def QUEUE_SIZE_LIMIT_def not_le)

lemma decode_split_payload_length: "decode_split_payload msg n = Some ps \<Longrightarrow> length ps = n"
  by (auto simp: decode_split_payload_def decode_split_def decode_do_split_eq
      split: option.splits if_splits)

text \<open>
  No message of the controller, however malformed, makes the dispatcher throw, except a version
  message with a payload that is not the daemon's protocol version: that one always does.
\<close>

theorem handle_mcu_throws:
  assumes "content_fits (h_content h)"
  shows "(\<exists>e. handle_mcu msg h = Inl e) =
    (decode_get_msg_id msg = Some MSG_ID_VERSION \<and>
     (\<exists>version. decode_split_payload msg 1 = Some [version] \<and> version \<noteq> PROTOCOL_VERSION))"
proof -
  have push: "info_push h' \<noteq> Inl e" if "h_content h' = h_content h" for h' e
    using info_push_total [of h'] assms that by auto
  show ?thesis
  proof (cases "decode_get_msg_id msg = Some MSG_ID_VERSION")
    case False
    then have "handle_mcu msg h \<noteq> Inl e" for e
      by (auto simp: handle_mcu_def mcu_resume_def mcu_status_def push
          simp del: msg_id_defs split: option.splits list.splits)
    then show ?thesis using False by auto
  next
    case True
    have "handle_mcu msg h = mcu_version msg h" by (simp add: handle_mcu_def True)
    moreover have "info_push (handle_push_mcu m h) \<noteq> Inl e" for m e
      by (intro push) (simp add: handle_push_mcu_def)
    ultimately show ?thesis
      using True decode_split_payload_length [of msg 1]
      by (cases "decode_split_payload msg 1")
        (auto simp: mcu_version_def length_Suc_conv split: list.splits)
  qed
qed

lemma handle_mcu_throws_witness:
  "\<exists>e. handle_mcu [7, MSG_ID_VERSION, 2] (handle_new 0 sample_content) = Inl e"
proof -
  have "content_fits sample_content"
    by (simp add: content_fits_def content_out_def sample_content_def content_keys_def
        command_id_list_def content_begin_def info_new_def npos_def SIZE_BITS_def)
  then show ?thesis
    using handle_mcu_throws [of "handle_new 0 sample_content" "[7, MSG_ID_VERSION, 2]"]
    by (simp add: handle_new_def)
qed

lemma playlist_new_id_unat:
  "unat (playlist_new_id i positive delta) =
     (if positive = PARAMETER_POSITIVE then (unat i + unat delta) mod 256 else unat i - unat delta)"
proof (cases "delta < i")
  case True
  then show ?thesis by (simp add: playlist_new_id_def unat_u8_plus_mod unat_u8_minus)
next
  case False
  then have "unat i \<le> unat delta" by (simp add: u8_less_iff)
  then show ?thesis using False by (simp add: playlist_new_id_def unat_u8_plus_mod)
qed

lemma handle_mcu_playlist:
  assumes "positive \<in> {PARAMETER_POSITIVE, PARAMETER_NEGATIVE}"
    and "n = (if positive = PARAMETER_POSITIVE then (unat (h_playlist_id h) + unat delta) mod 256
              else unat (h_playlist_id h) - unat delta)"
  shows "handle_mcu (serial # MSG_ID_PARAM_SET # PARAMETER_PLAYLIST # positive # delta # rest) h =
    Inr (h\<lparr>h_playlist_id := (if n = 0 then h_playlist_id h else of_nat n),
           h_command_queue := (h_command_queue h)\<lparr>m_holder := m_holder (h_command_queue h)
             @ [command_new MPC_PLAYLIST_SET (''led-mpc.sh playlist-set '' @ dec_string n) 3]\<rparr>\<rparr>)"
proof -
  let ?new = "playlist_new_id (h_playlist_id h) positive delta"
  have n: "unat ?new = n" using assms(2) by (simp add: playlist_new_id_unat)
  then have new: "?new = of_nat n" by (simp add: n [symmetric])
  have zero: "(0 < ?new) = (n \<noteq> 0)" using n by (auto simp: u8_less_iff)
  show ?thesis
    using assms(1) n zero
    by (auto simp: handle_mcu_def mcu_param_set_def handle_issue_def command_issue_def mq_push_def
        handle_from_uint8_def three_seconds_def new [symmetric])
qed

text \<open>
  Moving through the playlists issues one command with the new number, which never goes below
  zero but wraps above 255, and the daemon remembers it unless it is zero.
\<close>

theorem mcu_param_set_playlist:
  assumes "positive \<in> {PARAMETER_POSITIVE, PARAMETER_NEGATIVE}"
    and "n = (if positive = PARAMETER_POSITIVE then (unat (h_playlist_id h) + unat delta) mod 256
              else unat (h_playlist_id h) - unat delta)"
  shows "handle_mcu (serial # MSG_ID_PARAM_SET # PARAMETER_PLAYLIST # positive # delta # rest) h =
    Inr (h\<lparr>h_playlist_id := (if n = 0 then h_playlist_id h else of_nat n),
           h_command_queue := (h_command_queue h)\<lparr>m_holder := m_holder (h_command_queue h)
             @ [command_new MPC_PLAYLIST_SET (''led-mpc.sh playlist-set '' @ dec_string n) 3]\<rparr>\<rparr>)"
  by (rule handle_mcu_playlist [OF assms])

lemma mcu_param_set_playlist_witness:
  "\<exists>h. handle_mcu [9, MSG_ID_PARAM_SET, PARAMETER_PLAYLIST, PARAMETER_NEGATIVE, 5]
        ((handle_new 0 sample_content)\<lparr>h_playlist_id := 7\<rparr>) = Inr h \<and> h_playlist_id h = 2"
  using mcu_param_set_playlist [of PARAMETER_NEGATIVE 2 "(handle_new 0 sample_content)\<lparr>h_playlist_id := 7\<rparr>" 5 9 "[]"]
  by (auto simp: handle_new_def)

lemma handle_status_query_number_witness:
  "\<exists>h. handle_status (\<lambda>_ _ _. None)
      (status_new MPC_VOLUME_GET status_good
        (dec_string (unat (80 :: u8)) @ ''-'' @ dec_string (unat (0 :: u8)) @ ''-'' @ dec_string (unat (100 :: u8))))
      (handle_new 0 sample_content) = Inr h \<and>
    m_holder (h_to_mcu_queue h) = [[1, MSG_ID_QUERY_NUMBER, PARAMETER_VOLUME, 80, 0, 100]]"
  using handle_status_query_number [of "status_new MPC_VOLUME_GET status_good
      (dec_string (unat (80 :: u8)) @ ''-'' @ dec_string (unat (0 :: u8)) @ ''-'' @ dec_string (unat (100 :: u8)))"
      80 0 100 "\<lambda>_ _ _. None" "handle_new 0 sample_content"]
  by (simp add: status_new_def handle_new_def mq_new_def mcu_id_get_def)

end
