(* ===== verification/Pi_Bash.thy ===== *)
theory Pi_Bash
  imports Pi_Command Pi_Popen
begin

text \<open>
  The shell of the daemon (\<open>src/src/pi/bash.cpp\<close>): it takes commands from its queue, runs each
  in a child process and reports statuses. Commands are shared objects, so they live in a heap
  keyed by address; the address is given when the command leaves the queue. A popen object is
  stored under the address of its command: the object exists from the moment it is constructed,
  \<open>c_popen\<close> of the command is set one statement later. The loop runs in its own thread and the
  callbacks in the thread of the \<open>io_context\<close>, so \<open>execute_command\<close> is split at that statement and
  the step relation interleaves the pieces. Log output is not modelled.
\<close>

section \<open>State\<close>

record bash =
  b_timeout_timer :: "timer option"
  b_status_queue :: "status_queue"
  b_command_queue :: "command_queue"
  b_go :: bool
  b_command_map :: "nat set"
  b_heap :: "nat \<rightharpoonup> command"
  b_popens :: "nat \<rightharpoonup> popen"
  b_next :: nat

definition bash_new :: bash where
  "bash_new = \<lparr>b_timeout_timer = None, b_status_queue = mq_new, b_command_queue = mq_new,
     b_go = True, b_command_map = {}, b_heap = Map.empty, b_popens = Map.empty, b_next = 0\<rparr>"

definition system_command :: string where
  "system_command = ''led-system.sh''"

definition track_name_command :: string where
  "track_name_command = ''led-track-name.sh''"

definition clock_command :: string where
  "clock_command = ''led-clock.sh''"

section \<open>Operations\<close>

definition bash_wrap :: "string \<Rightarrow> string" where
  "bash_wrap src = ''led-command.sh '' @ [CHR 0x22] @ src @ [CHR 0x22]"

definition bash_insert :: "nat \<Rightarrow> bash \<Rightarrow> bash" where
  "bash_insert a b = b\<lparr>b_command_map := insert a (b_command_map b)\<rparr>"

definition bash_erase :: "nat \<Rightarrow> bash \<Rightarrow> bash" where
  "bash_erase a b = b\<lparr>b_command_map := b_command_map b - {a}\<rparr>"

definition bash_push_status :: "status \<Rightarrow> bash \<Rightarrow> bash" where
  "bash_push_status s b = b\<lparr>b_status_queue := fst (cq_push (b_status_queue b) s)\<rparr>"

definition bash_set_command :: "nat \<Rightarrow> command \<Rightarrow> bash \<Rightarrow> bash" where
  "bash_set_command a c b = b\<lparr>b_heap := (b_heap b)(a \<mapsto> c)\<rparr>"

definition bash_set_popen :: "nat \<Rightarrow> popen \<Rightarrow> bash \<Rightarrow> bash" where
  "bash_set_popen a p b = b\<lparr>b_popens := (b_popens b)(a \<mapsto> p)\<rparr>"

definition bash_command :: "bash \<Rightarrow> nat \<Rightarrow> command" where
  "bash_command b a = the (b_heap b a)"

text \<open>\<open>start\<close> issues the three stream commands before its loop.\<close>

definition bash_start :: "bash \<Rightarrow> bash" where
  "bash_start b =
     (let q1 = command_issue STREAM_SYSTEM system_command command_infinity (b_command_queue b);
          q2 = command_issue STREAM_TRACK_NAME track_name_command command_infinity q1;
          q3 = command_issue STREAM_CLOCK clock_command command_infinity q2
      in b\<lparr>b_command_queue := q3\<rparr>)"

definition bash_stop :: "bash \<Rightarrow> bash" where
  "bash_stop b = b\<lparr>b_go := False,
     b_timeout_timer := map_option (\<lambda>_. Cancelled) (b_timeout_timer b)\<rparr>"

text \<open>The body the child process gets.\<close>

definition bash_body :: "command \<Rightarrow> string" where
  "bash_body c = (if command_wrap c then bash_wrap (c_body c) else c_body c)"

text \<open>
  \<open>execute_command\<close> up to the construction of the popen object: the timer is armed, the command is
  inserted, the process is started (\<open>spawned\<close> says whether the C library could). The result is
  the address of the command.
\<close>

definition bash_execute_begin :: "bool \<Rightarrow> command \<Rightarrow> bash \<Rightarrow> cpp_exn + (nat \<times> bash)" where
  "bash_execute_begin spawned c b =
     (let a = b_next b;
          c = c\<lparr>c_timer := Some (Armed (c_timeout c))\<rparr>;
          b = bash_insert a (bash_set_command a c (b\<lparr>b_next := Suc a\<rparr>))
      in case popen_create spawned (bash_body c) of
           Inl e \<Rightarrow> Inl e
         | Inr p \<Rightarrow> Inr (a, bash_set_popen a p b))"

text \<open>Its last statement, \<open>command->popen (popen)\<close>.\<close>

definition bash_execute_end :: "nat \<Rightarrow> bash \<Rightarrow> bash" where
  "bash_execute_end a b = bash_set_command a ((bash_command b a)\<lparr>c_popen := True\<rparr>) b"

definition bash_execute_command :: "bool \<Rightarrow> command \<Rightarrow> bash \<Rightarrow> cpp_exn + (nat \<times> bash)" where
  "bash_execute_command spawned c b =
     (case bash_execute_begin spawned c b of Inl e \<Rightarrow> Inl e
      | Inr (a, b') \<Rightarrow> Inr (a, bash_execute_end a b'))"

definition bash_stream_info :: "nat \<Rightarrow> string \<Rightarrow> bash \<Rightarrow> bash" where
  "bash_stream_info a info b =
     bash_push_status (status_new (c_id (bash_command b a)) status_good info) b"

definition bash_clot_info :: "nat \<Rightarrow> string \<Rightarrow> bash \<Rightarrow> bash" where
  "bash_clot_info a info b = bash_set_command a (command_add_result (bash_command b a) info) b"

definition bash_cancel_timeout :: "nat \<Rightarrow> bash \<Rightarrow> bash" where
  "bash_cancel_timeout a b = bash_set_command a (command_cancel_timeout (bash_command b a)) b"

definition bash_stream_error :: "nat \<Rightarrow> bash \<Rightarrow> bash" where
  "bash_stream_error a b = bash_erase a (bash_cancel_timeout a b)"

definition bash_clot_error :: "nat \<Rightarrow> bash \<Rightarrow> bash" where
  "bash_clot_error a b =
     (let b = bash_cancel_timeout a b;
          c = bash_command b a;
          popen = (if c_popen c then b_popens b a else None);
          status_value = (case popen of None \<Rightarrow> status_bad
            | Some p \<Rightarrow> (case p_status p of None \<Rightarrow> status_bad | Some v \<Rightarrow> v));
          status = status_new (c_id c) status_value (command_result c)
      in bash_erase a (bash_push_status status b))"

definition bash_timeout :: "bool \<Rightarrow> nat \<Rightarrow> bash \<Rightarrow> bash" where
  "bash_timeout error a b =
     (if error then b
      else let c = bash_command b a;
               status = status_new (c_id c) status_timeout (command_result c)
           in bash_erase a (bash_push_status status b))"

text \<open>The callbacks that \<open>execute_command\<close> binds, chosen by the kind of the command.\<close>

definition bash_event :: "nat \<Rightarrow> popen_event \<Rightarrow> bash \<Rightarrow> bash" where
  "bash_event a e b =
     (case e of
        Info_arrived info \<Rightarrow>
          (if command_stream (bash_command b a) then bash_stream_info a info b
           else bash_clot_info a info b)
      | Error_occurred \<Rightarrow>
          (if command_stream (bash_command b a) then bash_stream_error a b
           else bash_clot_error a b))"

text \<open>
  A read completes on the descriptor of command \<open>a\<close>. The popen object is updated as a whole before
  its callbacks run: they only push results and statuses and read \<open>p_status\<close>, and \<open>p_status\<close> is
  read by the error callback alone, which comes after every line.
\<close>

definition bash_read :: "nat \<Rightarrow> string option \<Rightarrow> bash \<Rightarrow> bash" where
  "bash_read a arrived b =
     (case b_popens b a of None \<Rightarrow> b
      | Some p \<Rightarrow>
          (case popen_handle_read p arrived of
             (p', es) \<Rightarrow> fold (bash_event a) es (bash_set_popen a p' b)))"

fun bash_reads :: "nat \<Rightarrow> string list \<Rightarrow> bash \<Rightarrow> bash" where
  "bash_reads a [] b = b"
| "bash_reads a (chunk # chunks) b = bash_reads a chunks (bash_read a (Some chunk) b)"

lemmas bash_op_defs = bash_insert_def bash_erase_def bash_push_status_def bash_set_command_def bash_set_popen_def
  bash_command_def bash_execute_end_def bash_stream_info_def bash_clot_info_def
  bash_cancel_timeout_def bash_stream_error_def bash_clot_error_def bash_timeout_def
  bash_event_def

section \<open>What a child process leads to\<close>

fun event_info :: "popen_event \<Rightarrow> string list" where
  "event_info (Info_arrived info) = [info]"
| "event_info Error_occurred = []"

definition event_infos :: "popen_event list \<Rightarrow> string list" where
  "event_infos es = concat (map event_info es)"

lemma event_infos_simps [simp]:
  "event_infos [] = []" "event_infos (e # es) = event_info e @ event_infos es"
  "event_infos (es @ fs) = event_infos es @ event_infos fs"
  by (simp_all add: event_infos_def)

lemma popen_lines_no_error: "Error_occurred \<notin> set (snd (popen_lines p))"
proof (induction p rule: popen_lines.induct)
  case (1 p)
  then show ?case
    by (subst popen_lines.simps) (auto simp: Let_def split: option.splits)
qed

lemma bash_set_simps [simp]:
  "b_heap (bash_set_popen a p b) = b_heap b" "b_popens (bash_set_popen a p b) = (b_popens b)(a \<mapsto> p)"
  "b_heap (bash_set_command a c b) = (b_heap b)(a \<mapsto> c)" "b_popens (bash_set_command a c b) = b_popens b"
  "b_status_queue (bash_set_popen a p b) = b_status_queue b"
  "b_status_queue (bash_set_command a c b) = b_status_queue b"
  "b_command_map (bash_set_popen a p b) = b_command_map b"
  "b_command_map (bash_set_command a c b) = b_command_map b"
  "bash_set_popen a p (bash_set_popen a q b) = bash_set_popen a p b"
  "bash_set_command a c (bash_set_command a d b) = bash_set_command a c b"
  "bash_set_popen a p (bash_set_command a c b) = bash_set_command a c (bash_set_popen a p b)"
  by (simp_all add: bash_set_popen_def bash_set_command_def)

lemma bash_set_same: "b_heap b a = Some c \<Longrightarrow> bash_set_command a c b = b"
  by (simp add: bash_set_command_def fun_upd_idem)

definition add_infos :: "command \<Rightarrow> string list \<Rightarrow> command" where
  "add_infos c infos = c\<lparr>c_result_list := c_result_list c @ infos\<rparr>"

lemma add_infos_simps [simp]:
  "add_infos c [] = c" "add_infos (add_infos c xs) ys = add_infos c (xs @ ys)"
  "command_add_result c x = add_infos c [x]"
  "c_id (add_infos c xs) = c_id c" "c_popen (add_infos c xs) = c_popen c"
  "c_timer (add_infos c xs) = c_timer c"
  "command_wrap (add_infos c xs) = command_wrap c"
  by (simp_all add: add_infos_def command_add_result_def command_wrap_def command_stream_def)

definition push_statuses :: "bash \<Rightarrow> status list \<Rightarrow> bash" where
  "push_statuses b ss = b\<lparr>b_status_queue := (b_status_queue b)
     \<lparr>m_holder := m_holder (b_status_queue b) @ ss\<rparr>\<rparr>"

lemma push_statuses_simps [simp]:
  "push_statuses b [] = b" "push_statuses (push_statuses b xs) ys = push_statuses b (xs @ ys)"
  "bash_push_status s b = push_statuses b [s]"
  "b_heap (push_statuses b xs) = b_heap b" "b_popens (push_statuses b xs) = b_popens b"
  "bash_set_popen a p (push_statuses b xs) = push_statuses (bash_set_popen a p b) xs"
  "m_holder (b_status_queue (push_statuses b xs)) = m_holder (b_status_queue b) @ xs"
  by (simp_all add: push_statuses_def bash_push_status_def mq_push_def bash_set_popen_def)

lemma bash_clot_events:
  assumes "Error_occurred \<notin> set es" "b_heap b a = Some c" "command_wrap c"
  shows "fold (bash_event a) es b = bash_set_command a (add_infos c (event_infos es)) b"
  using assms
proof (induction es arbitrary: b c)
  case Nil
  then show ?case by (simp add: bash_set_same)
next
  case (Cons e es)
  then obtain info where e: "e = Info_arrived info" by (cases e) auto
  have "bash_event a e b = bash_set_command a (add_infos c [info]) b"
    using Cons.prems e
    by (simp add: bash_event_def bash_clot_info_def bash_command_def command_wrap_def)
  then show ?case
    using Cons.IH [of "bash_set_command a (add_infos c [info]) b" "add_infos c [info]"] Cons.prems e
    by simp
qed

lemma bash_stream_events:
  assumes "Error_occurred \<notin> set es" "b_heap b a = Some c" "command_stream c"
  shows "fold (bash_event a) es b =
    push_statuses b (map (status_new (c_id c) status_good) (event_infos es))"
  using assms
proof (induction es arbitrary: b)
  case Nil
  then show ?case by simp
next
  case (Cons e es)
  then obtain info where e: "e = Info_arrived info" by (cases e) auto
  have "bash_event a e b = push_statuses b [status_new (c_id c) status_good info]"
    using Cons.prems e by (simp add: bash_event_def bash_stream_info_def bash_command_def)
  then show ?case
    using Cons.IH [of "push_statuses b [status_new (c_id c) status_good info]"] Cons.prems e
    by simp
qed

text \<open>The lines that a text leads to, and the popen object after it.\<close>

definition read_infos :: "popen \<Rightarrow> string \<Rightarrow> string list" where
  "read_infos p s = event_infos (snd (popen_handle_read p (Some s)))"

definition read_state :: "popen \<Rightarrow> string \<Rightarrow> popen" where
  "read_state p s = fst (popen_handle_read p (Some s))"

lemma read_append:
  "read_state p (s @ t) = read_state (read_state p s) t"
  "read_infos p (s @ t) = read_infos p s @ read_infos (read_state p s) t"
  using popen_lines_append [of "p\<lparr>p_buf := p_buf p @ s\<rparr>" t]
  by (simp_all add: read_state_def read_infos_def popen_handle_read_def case_prod_beta)

lemma bash_read_some:
  "b_popens b a = Some p \<Longrightarrow> bash_read a (Some s) b =
     fold (bash_event a) (snd (popen_handle_read p (Some s)))
       (bash_set_popen a (read_state p s) b)"
  by (simp add: bash_read_def case_prod_beta read_state_def)

lemma bash_clot_reads:
  assumes "b_heap b a = Some c" "command_wrap c" "b_popens b a = Some p" "chunks \<noteq> []"
  shows "bash_reads a chunks b =
     bash_set_command a (add_infos c (read_infos p (concat chunks)))
       (bash_set_popen a (read_state p (concat chunks)) b)"
  using assms
proof (induction chunks arbitrary: b c p)
  case Nil
  then show ?case by simp
next
  case (Cons s chunks)
  let ?c = "add_infos c (read_infos p s)"
  let ?b = "bash_set_command a ?c (bash_set_popen a (read_state p s) b)"
  have first: "bash_read a (Some s) b = ?b"
    using Cons.prems by (simp add: bash_read_some bash_clot_events read_infos_def
        popen_handle_read_def popen_lines_no_error)
  show ?case
  proof (cases "chunks = []")
    case True
    then show ?thesis by (simp only: bash_reads.simps concat.simps append_Nil2 first)
  next
    case False
    then show ?thesis
      using Cons.IH [of ?b ?c "read_state p s"] Cons.prems(2) first
      by (simp add: read_append)
  qed
qed

lemma bash_stream_reads:
  assumes "b_heap b a = Some c" "command_stream c" "b_popens b a = Some p" "chunks \<noteq> []"
  shows "bash_reads a chunks b =
     push_statuses (bash_set_popen a (read_state p (concat chunks)) b)
       (map (status_new (c_id c) status_good) (read_infos p (concat chunks)))"
  using assms
proof (induction chunks arbitrary: b p)
  case Nil
  then show ?case by simp
next
  case (Cons s chunks)
  let ?b = "push_statuses (bash_set_popen a (read_state p s) b)
       (map (status_new (c_id c) status_good) (read_infos p s))"
  have first: "bash_read a (Some s) b = ?b"
    using Cons.prems by (simp add: bash_read_some bash_stream_events read_infos_def
        popen_handle_read_def popen_lines_no_error)
  show ?case
  proof (cases "chunks = []")
    case True
    then show ?thesis by (simp only: bash_reads.simps concat.simps append_Nil2 first)
  next
    case False
    then show ?thesis
      using Cons.IH [of ?b "read_state p s"] Cons.prems(1,2) first
      by (simp add: read_append)
  qed
qed


text \<open>
  Each line of a stream command is a status of its own, good, in the order of the lines and
  whatever the chunks in which the output arrived.
\<close>

theorem bash_stream_status:
  assumes "b_heap b a = Some c" "command_stream c" "b_popens b a = Some p" "chunks \<noteq> []"
  shows "m_holder (b_status_queue (bash_reads a chunks b)) =
    m_holder (b_status_queue b)
      @ map (status_new (c_id c) status_good) (read_infos p (concat chunks))"
  using bash_stream_reads [OF assms] by simp

text \<open>
  The timeout of a one-shot command reports a status and forgets the command, but the process
  is not killed and its callbacks stay bound: when it ends later, a second status for the same
  command is reported, and it can be a good one.
\<close>

theorem bash_timeout_then_end:
  assumes "b_heap b a = Some c" "command_wrap c" "c_popen c" "b_popens b a = Some p"
  shows "m_holder (b_status_queue (bash_read a None (bash_timeout False a b))) =
    m_holder (b_status_queue b)
      @ [status_new (c_id c) status_timeout (command_result c),
         status_new (c_id c) (case p_status p of None \<Rightarrow> status_bad | Some v \<Rightarrow> v) (command_result c)]"
  using assms
  by (auto simp: bash_timeout_def bash_read_def popen_handle_read_def bash_event_def
      bash_clot_error_def bash_cancel_timeout_def bash_erase_def bash_command_def Let_def
      command_wrap_def command_stream_def command_cancel_timeout_def command_result_def
      split: option.splits)

text \<open>
  When the process ends before \<open>execute_command\<close> has attached the popen object, the status is
  the bad one even though the exit status has been read.
\<close>

theorem bash_end_before_attach:
  assumes "bash_execute_begin True c b = Inr (a, b')" "command_wrap c" "\<not> c_popen c"
  shows "m_holder (b_status_queue (bash_read a None (bash_read a (Some s) b'))) =
    m_holder (b_status_queue b)
      @ [status_new (c_id c) status_bad (command_result (add_infos c (read_infos popen_new s)))]"
proof -
  let ?c = "c\<lparr>c_timer := Some (Armed (c_timeout c))\<rparr>"
  have b': "b_heap b' a = Some ?c" "b_popens b' a = Some popen_new"
    "b_status_queue b' = b_status_queue b"
    using assms(1) by (auto simp: bash_execute_begin_def popen_create_def bash_insert_def Let_def)
  have "command_wrap ?c" using assms(2) by (simp add: command_wrap_def command_stream_def)
  then have "bash_read a (Some s) b' = bash_set_command a (add_infos ?c (read_infos popen_new s))
      (bash_set_popen a (read_state popen_new s) b')"
    using bash_clot_reads [of b' a ?c popen_new "[s]"] b' by simp
  then show ?thesis
    using assms(2,3) b'
    by (auto simp: bash_read_def [of _ None] popen_handle_read_def bash_event_def bash_clot_error_def
        bash_cancel_timeout_def bash_erase_def bash_command_def Let_def add_infos_def
        command_wrap_def command_stream_def command_cancel_timeout_def command_result_def)
qed

section \<open>Interleavings\<close>

text \<open>
  The threads: the loop of \<open>start\<close>, cut at its atomic regions, the thread that calls \<open>stop\<close>, and
  the thread of the \<open>io_context\<close>. \<open>sys_fired\<close> and \<open>sys_ended\<close> record what the outside world has
  already delivered: a timer fires at most once (also after \<open>cancel\<close>, when its handler was
  already queued), and nothing is read after an error. A wait ends when it is notified (\<open>At_wait\<close> becomes \<open>At_woken\<close>) or spuriously.
\<close>

datatype loop_pc = At_check | At_pop | At_wait | At_woken | At_execute command | At_attach nat | Finished

datatype stop_pc = At_store | At_notify | Stopped

record bash_sys =
  sys_bash :: bash
  sys_loop :: loop_pc
  sys_stop :: stop_pc
  sys_fired :: "nat set"
  sys_ended :: "nat set"

definition sys_new :: bash_sys where
  "sys_new = \<lparr>sys_bash = bash_start bash_new, sys_loop = At_check, sys_stop = At_store,
     sys_fired = {}, sys_ended = {}\<rparr>"

definition notify :: "loop_pc \<Rightarrow> loop_pc" where
  "notify l = (if l = At_wait then At_woken else l)"

inductive bash_step :: "bash_sys \<Rightarrow> bash_sys \<Rightarrow> bool" where
  check_go: "sys_loop s = At_check \<Longrightarrow> b_go (sys_bash s) \<Longrightarrow> bash_step s (s\<lparr>sys_loop := At_pop\<rparr>)"
| check_done: "sys_loop s = At_check \<Longrightarrow> \<not> b_go (sys_bash s) \<Longrightarrow>
    bash_step s (s\<lparr>sys_loop := Finished\<rparr>)"
| pop_some: "sys_loop s = At_pop \<or> sys_loop s = At_woken \<Longrightarrow>
    cq_pop False (b_command_queue (sys_bash s)) q = (Some c, q') \<Longrightarrow>
    bash_step s (s\<lparr>sys_bash := (sys_bash s)\<lparr>b_command_queue := q'\<rparr>, sys_loop := At_execute c\<rparr>)"
| pop_wait: "sys_loop s = At_pop \<Longrightarrow> cq_empty False (b_command_queue (sys_bash s)) \<Longrightarrow>
    bash_step s (s\<lparr>sys_loop := At_wait\<rparr>)"
| pop_none: "sys_loop s = At_woken \<Longrightarrow> cq_empty False (b_command_queue (sys_bash s)) \<Longrightarrow>
    bash_step s (s\<lparr>sys_loop := At_check\<rparr>)"
| spurious: "sys_loop s = At_wait \<Longrightarrow> bash_step s (s\<lparr>sys_loop := At_woken\<rparr>)"
| execute: "sys_loop s = At_execute c \<Longrightarrow>
    bash_execute_begin True c (sys_bash s) = Inr (a, b) \<Longrightarrow>
    bash_step s (s\<lparr>sys_bash := b, sys_loop := At_attach a\<rparr>)"
| attach: "sys_loop s = At_attach a \<Longrightarrow>
    bash_step s (s\<lparr>sys_bash := bash_execute_end a (sys_bash s), sys_loop := At_check\<rparr>)"
| issue: "cq_push (b_command_queue (sys_bash s)) (command_new i body t) = (q, wake) \<Longrightarrow>
    bash_step s (s\<lparr>sys_bash := (sys_bash s)\<lparr>b_command_queue := q\<rparr>,
      sys_loop := (if wake then notify (sys_loop s) else sys_loop s)\<rparr>)"
| stop_store: "sys_stop s = At_store \<Longrightarrow>
    bash_step s (s\<lparr>sys_bash := bash_stop (sys_bash s), sys_stop := At_notify\<rparr>)"
| stop_notify: "sys_stop s = At_notify \<Longrightarrow>
    bash_step s (s\<lparr>sys_loop := notify (sys_loop s), sys_stop := Stopped\<rparr>)"
| read_chunk: "a \<in> dom (b_popens (sys_bash s)) \<Longrightarrow> a \<notin> sys_ended s \<Longrightarrow>
    bash_step s (s\<lparr>sys_bash := bash_read a (Some chunk) (sys_bash s)\<rparr>)"
| read_end: "a \<in> dom (b_popens (sys_bash s)) \<Longrightarrow> a \<notin> sys_ended s \<Longrightarrow>
    bash_step s (s\<lparr>sys_bash := bash_read a None (sys_bash s), sys_ended := insert a (sys_ended s)\<rparr>)"
| timer_fires: "b_heap (sys_bash s) a = Some c \<Longrightarrow> c_timer c \<noteq> None \<Longrightarrow>
    a \<notin> sys_fired s \<Longrightarrow>
    bash_step s (s\<lparr>sys_bash := bash_timeout False a (sys_bash s), sys_fired := insert a (sys_fired s)\<rparr>)"

inductive_cases bash_stepE: "bash_step s s'"

abbreviation sys_reachable :: "bash_sys \<Rightarrow> bool" where
  "sys_reachable s \<equiv> bash_step\<^sup>*\<^sup>* sys_new s"

section \<open>Invariants of the interleavings\<close>

definition clots :: "bash \<Rightarrow> nat set" where
  "clots b = {a. \<exists>c. b_heap b a = Some c \<and> command_wrap c}"

definition clot_statuses :: "bash \<Rightarrow> nat" where
  "clot_statuses b = length (filter (\<lambda>s. \<not> status_stream s) (m_holder (b_status_queue b)))"

text \<open>What the operations on a known address keep: the heap's domain, ids, and the queues.\<close>

definition same_commands :: "bash \<Rightarrow> bash \<Rightarrow> bool" where
  "same_commands b b' \<longleftrightarrow>
     clots b' = clots b \<and> dom (b_heap b') = dom (b_heap b) \<and>
     dom (b_popens b') = dom (b_popens b) \<and> b_next b' = b_next b \<and>
     b_command_map b' \<subseteq> b_command_map b"

lemma same_commands_refl [simp]: "same_commands b b"
  by (simp add: same_commands_def)

lemma same_commands_set:
  assumes "b_heap b a = Some c" "command_wrap c' = command_wrap c"
  shows "same_commands b (bash_set_command a c' b)"
  using assms by (auto simp: same_commands_def clots_def bash_set_command_def split: if_splits)

lemma command_wrap_cancel [simp]: "command_wrap (command_cancel_timeout c) = command_wrap c"
  by (simp add: command_wrap_def command_stream_def command_cancel_timeout_def split: option.split)

lemma command_stream_cancel [simp]: "command_stream (command_cancel_timeout c) = command_stream c"
  "c_id (command_cancel_timeout c) = c_id c"
  by (simp_all add: command_stream_def command_cancel_timeout_def split: option.split)

lemma bash_timeout_keeps:
  assumes "b_heap b a = Some c"
  shows "same_commands b (bash_timeout False a b)"
    "clot_statuses (bash_timeout False a b) = clot_statuses b + (if command_wrap c then 1 else 0)"
  using assms
  by (auto simp: same_commands_def clots_def bash_timeout_def Let_def bash_erase_def
      clot_statuses_def bash_command_def push_statuses_def status_stream_def status_new_def
      command_wrap_def command_stream_def)

lemma bash_read_end_keeps:
  assumes "b_heap b a = Some c" "b_popens b a = Some p"
  shows "same_commands b (bash_read a None b)"
    "clot_statuses (bash_read a None b) = clot_statuses b + (if command_wrap c then 1 else 0)"
  using assms
  by (auto simp: same_commands_def clots_def bash_read_def popen_handle_read_def bash_event_def
      bash_stream_error_def bash_clot_error_def bash_cancel_timeout_def Let_def bash_erase_def
      clot_statuses_def bash_command_def push_statuses_def status_stream_def status_new_def
      bash_set_command_def bash_set_popen_def command_wrap_def command_stream_def
      split: if_splits option.splits)

lemma bash_read_some_keeps:
  assumes "b_heap b a = Some c" "b_popens b a = Some p"
  shows "same_commands b (bash_read a (Some s) b)"
    "clot_statuses (bash_read a (Some s) b) = clot_statuses b"
proof -
  have "same_commands b (bash_read a (Some s) b) \<and>
    clot_statuses (bash_read a (Some s) b) = clot_statuses b"
  proof (cases "command_wrap c")
    case True
    then show ?thesis
      using bash_clot_reads [OF assms(1) _ assms(2), of "[s]"] assms
      by (auto simp: same_commands_def clots_def clot_statuses_def bash_set_command_def
          bash_set_popen_def split: if_splits)
  next
    case False
    then have c: "command_stream c" by (simp add: command_wrap_def)
    then have "filter (\<lambda>s. \<not> status_stream s) (map (status_new (c_id c) v) infos) = []" for v infos
      by (simp add: filter_empty_conv status_stream_def status_new_def command_stream_def)
    then show ?thesis
      using bash_stream_reads [OF assms(1) c assms(2), of "[s]"] assms
      by (auto simp: same_commands_def clots_def clot_statuses_def push_statuses_def
          bash_set_popen_def split: if_splits)
  qed
  then show "same_commands b (bash_read a (Some s) b)"
    "clot_statuses (bash_read a (Some s) b) = clot_statuses b" by auto
qed

definition sys_ok :: "bash_sys \<Rightarrow> bool" where
  "sys_ok s \<longleftrightarrow>
     (let b = sys_bash s in
       dom (b_popens b) \<subseteq> dom (b_heap b) \<and> dom (b_heap b) \<subseteq> {..<b_next b} \<and>
       b_command_map b \<subseteq> dom (b_heap b) \<and>
       sys_fired s \<subseteq> dom (b_heap b) \<and> sys_ended s \<subseteq> dom (b_heap b) \<and>
       (\<forall>a. sys_loop s = At_attach a \<longrightarrow> a \<in> dom (b_heap b)) \<and>
       clot_statuses b = card (sys_fired s \<inter> clots b) + card (sys_ended s \<inter> clots b))"

lemma sys_ok_new: "sys_ok sys_new"
  by (simp add: sys_ok_def sys_new_def bash_start_def bash_new_def Let_def clot_statuses_def clots_def)

lemma sys_ok_same:
  assumes "sys_ok s" "same_commands (sys_bash s) b'" "clot_statuses b' = clot_statuses (sys_bash s)"
    and "\<And>a. l = At_attach a \<Longrightarrow> a \<in> dom (b_heap (sys_bash s))"
  shows "sys_ok (s\<lparr>sys_bash := b', sys_loop := l, sys_stop := st\<rparr>)"
  using assms by (simp add: sys_ok_def same_commands_def Let_def) (metis subset_trans)

lemma card_insert_clot:
  assumes "finite X" "a \<notin> X" "b_heap b a = Some c"
  shows "card (insert a X \<inter> clots b) = card (X \<inter> clots b) + (if command_wrap c then 1 else 0)"
  using assms by (auto simp: clots_def)

lemma sys_ok_finite:
  assumes "sys_ok s"
  shows "finite (sys_fired s)" "finite (sys_ended s)"
  using assms finite_subset [of _ "{..<b_next (sys_bash s)}"]
  by (auto simp: sys_ok_def Let_def)

lemma sys_ok_fired:
  assumes "sys_ok s" "same_commands (sys_bash s) b'" "a \<notin> sys_fired s"
    and "b_heap (sys_bash s) a = Some c"
    and "clot_statuses b' = clot_statuses (sys_bash s) + (if command_wrap c then 1 else 0)"
  shows "sys_ok (s\<lparr>sys_bash := b', sys_fired := insert a (sys_fired s)\<rparr>)"
  using assms card_insert_clot [of "sys_fired s" a "sys_bash s" c] sys_ok_finite [OF assms(1)]
  by (auto simp: sys_ok_def same_commands_def Let_def)

lemma sys_ok_ended:
  assumes "sys_ok s" "same_commands (sys_bash s) b'" "a \<notin> sys_ended s"
    and "b_heap (sys_bash s) a = Some c"
    and "clot_statuses b' = clot_statuses (sys_bash s) + (if command_wrap c then 1 else 0)"
  shows "sys_ok (s\<lparr>sys_bash := b', sys_ended := insert a (sys_ended s)\<rparr>)"
  using assms card_insert_clot [of "sys_ended s" a "sys_bash s" c] sys_ok_finite [OF assms(1)]
  by (auto simp: sys_ok_def same_commands_def Let_def)

lemma bash_execute_begin_ok:
  assumes "bash_execute_begin True c b = Inr (a, b')"
    "dom (b_heap b) \<subseteq> {..<b_next b}" "dom (b_popens b) \<subseteq> dom (b_heap b)"
    "b_command_map b \<subseteq> dom (b_heap b)"
  shows "dom (b_heap b') = insert a (dom (b_heap b))" "b_next b' = Suc a" "a = b_next b"
    "dom (b_popens b') = insert a (dom (b_popens b))" "b_command_map b' = insert a (b_command_map b)"
    "clot_statuses b' = clot_statuses b" "clots b' - {a} = clots b" "a \<notin> dom (b_heap b)"
  using assms
  by (auto simp: bash_execute_begin_def popen_create_def bash_insert_def bash_set_popen_def
      bash_set_command_def clot_statuses_def clots_def Let_def split: if_splits)

lemma sys_ok_execute:
  assumes "sys_ok s" "bash_execute_begin True c (sys_bash s) = Inr (a, b)"
  shows "sys_ok (s\<lparr>sys_bash := b, sys_loop := At_attach a\<rparr>)"
proof -
  note ok = assms(1) [unfolded sys_ok_def Let_def]
  note step = bash_execute_begin_ok [OF assms(2)]
  have *: "X \<inter> clots b = X \<inter> clots (sys_bash s)" if "X \<subseteq> dom (b_heap (sys_bash s))" for X
    using step(7,8) ok that by blast
  show ?thesis
    using ok step * [of "sys_fired s"] * [of "sys_ended s"]
    by (auto simp: sys_ok_def Let_def)
qed

lemma sys_ok_step:
  assumes "sys_ok s" "bash_step s s'"
  shows "sys_ok s'"
  using assms(2,1)
proof cases
  case (execute c a b)
  then show ?thesis using assms(1) sys_ok_execute by simp
next
  case (attach a)
  then obtain c where c: "b_heap (sys_bash s) a = Some c"
    using assms(1) by (auto simp: sys_ok_def Let_def)
  have "same_commands (sys_bash s) (bash_execute_end a (sys_bash s))"
    unfolding bash_execute_end_def
    by (rule same_commands_set [OF c]) (simp add: bash_command_def c command_wrap_def command_stream_def)
  then have "sys_ok (s\<lparr>sys_bash := bash_execute_end a (sys_bash s), sys_loop := At_check,
      sys_stop := sys_stop s\<rparr>)"
    by (intro sys_ok_same [OF assms(1)])
      (auto simp: bash_execute_end_def clot_statuses_def)
  then show ?thesis using attach by simp
next
  case (read_chunk a chunk)
  then obtain p c where "b_popens (sys_bash s) a = Some p" "b_heap (sys_bash s) a = Some c"
    using assms(1) by (auto simp: sys_ok_def Let_def)
  note keeps = bash_read_some_keeps [OF this(2,1), of chunk]
  have "sys_ok (s\<lparr>sys_bash := bash_read a (Some chunk) (sys_bash s), sys_loop := sys_loop s,
      sys_stop := sys_stop s\<rparr>)"
    using assms(1) keeps by (intro sys_ok_same) (auto simp: sys_ok_def Let_def)
  then show ?thesis using read_chunk by simp
next
  case (read_end a)
  then obtain p c where "b_popens (sys_bash s) a = Some p" "b_heap (sys_bash s) a = Some c"
    using assms(1) by (auto simp: sys_ok_def Let_def)
  then show ?thesis
    using read_end sys_ok_ended [OF assms(1)] bash_read_end_keeps by simp
next
  case (timer_fires a c)
  then show ?thesis
    using sys_ok_fired [OF assms(1)] bash_timeout_keeps [of "sys_bash s" a c] by simp
next
  case (pop_some q c q')
  then show ?thesis
    using assms(1) by (auto simp: sys_ok_def Let_def clots_def clot_statuses_def)
next
  case (issue i body t q wake)
  then show ?thesis
    using assms(1) by (auto simp: sys_ok_def Let_def clots_def clot_statuses_def notify_def)
next
  case stop_store
  then show ?thesis
    using assms(1) by (auto simp: sys_ok_def Let_def clots_def clot_statuses_def bash_stop_def)
qed (auto simp: sys_ok_def Let_def notify_def)

lemma sys_reachable_ok: "sys_reachable s \<Longrightarrow> sys_ok s"
  by (induction rule: rtranclp_induct) (auto intro: sys_ok_new sys_ok_step)

text \<open>
  C15: in every interleaving, each one-shot command has reported one status for its process having
  ended and one for its timer having fired, and nothing else: never more than two, and none while
  it runs undisturbed.
\<close>

theorem bash_statuses_counted:
  assumes "sys_reachable s"
  shows "clot_statuses (sys_bash s) =
    card (sys_fired s \<inter> clots (sys_bash s)) + card (sys_ended s \<inter> clots (sys_bash s))"
  using sys_reachable_ok [OF assms] by (simp add: sys_ok_def Let_def)

section \<open>A lost wake-up\<close>

lemma four_steps:
  assumes "r a b" "r b c" "r c d" "r d e"
  shows "r\<^sup>*\<^sup>* a e"
  using assms by (intro rtranclp.rtrancl_into_rtrancl [OF rtranclp.rtrancl_into_rtrancl
        [OF rtranclp.rtrancl_into_rtrancl [OF r_into_rtranclp]]])

lemma loop_round:
  assumes "sys_loop s = At_check" "b_go (sys_bash s)"
    and "m_holder (b_command_queue (sys_bash s)) = c # cs"
  shows "\<exists>s'. bash_step\<^sup>*\<^sup>* s s' \<and> sys_loop s' = At_check \<and> b_go (sys_bash s') \<and>
    sys_stop s' = sys_stop s \<and> m_holder (b_command_queue (sys_bash s')) = cs"
proof -
  let ?s1 = "s\<lparr>sys_loop := At_pop\<rparr>"
  let ?q = "(b_command_queue (sys_bash s))\<lparr>m_holder := cs\<rparr>"
  let ?s2 = "?s1\<lparr>sys_bash := (sys_bash s)\<lparr>b_command_queue := ?q\<rparr>, sys_loop := At_execute c\<rparr>"
  obtain a b where b: "bash_execute_begin True c (sys_bash ?s2) = Inr (a, b)"
    by (simp add: bash_execute_begin_def popen_create_def Let_def)
  let ?s3 = "?s2\<lparr>sys_bash := b, sys_loop := At_attach a\<rparr>"
  let ?s4 = "?s3\<lparr>sys_bash := bash_execute_end a (sys_bash ?s3), sys_loop := At_check\<rparr>"
  have "bash_step s ?s1" using assms by (intro check_go)
  moreover have "bash_step ?s1 ?s2"
    using assms pop_some [of ?s1 "b_command_queue (sys_bash s)" c ?q] by simp
  moreover have "bash_step ?s2 ?s3" using b by (intro execute) simp_all
  moreover have "bash_step ?s3 ?s4" by (intro attach) simp
  ultimately have "bash_step\<^sup>*\<^sup>* s ?s4" by (rule four_steps)
  moreover have "b_go (sys_bash ?s4)" "m_holder (b_command_queue (sys_bash ?s4)) = cs"
    using b assms(2)
    by (auto simp: bash_execute_begin_def popen_create_def Let_def bash_execute_end_def
        bash_set_command_def bash_set_popen_def bash_insert_def)
  ultimately show ?thesis by (intro exI [of _ ?s4]) simp
qed

lemma loop_drains:
  assumes "sys_loop s = At_check" "b_go (sys_bash s)"
  shows "\<exists>s'. bash_step\<^sup>*\<^sup>* s s' \<and> sys_loop s' = At_check \<and> b_go (sys_bash s') \<and>
    sys_stop s' = sys_stop s \<and> m_holder (b_command_queue (sys_bash s')) = []"
  using assms
proof (induction "m_holder (b_command_queue (sys_bash s))" arbitrary: s)
  case Nil
  then show ?case by (intro exI [of _ s]) simp
next
  case (Cons c cs)
  obtain s1 where s1: "bash_step\<^sup>*\<^sup>* s s1" "sys_loop s1 = At_check" "b_go (sys_bash s1)"
    "sys_stop s1 = sys_stop s" "m_holder (b_command_queue (sys_bash s1)) = cs"
    using loop_round [OF Cons.prems Cons.hyps(2) [symmetric]] by blast
  then show ?case using Cons.hyps(1) [of s1] rtranclp_trans by metis
qed

text \<open>The loop sleeps, nobody is left to notify it, and only a new command could.\<close>

definition asleep_for_good :: "bash_sys \<Rightarrow> bool" where
  "asleep_for_good s \<longleftrightarrow> sys_loop s = At_wait \<and> sys_stop s = Stopped \<and> \<not> b_go (sys_bash s) \<and>
     m_holder (b_command_queue (sys_bash s)) = []"

text \<open>
  \<open>stop\<close> can lose its wake-up: when it stores the flag and notifies between the loop's check
  of the flag and its wait, the loop goes to sleep although it was told to stop. From there only
  a spurious wake-up or a new command moves it, so \<open>join\<close> on its thread may not return.
\<close>

theorem bash_stop_lost_wakeup:
  "\<exists>s. sys_reachable s \<and> asleep_for_good s"
proof -
  obtain s where s: "sys_reachable s" "sys_loop s = At_check" "b_go (sys_bash s)"
    "sys_stop s = At_store" "m_holder (b_command_queue (sys_bash s)) = []"
    using loop_drains [of sys_new]
    by (auto simp: sys_new_def bash_start_def bash_new_def Let_def)
  let ?s1 = "s\<lparr>sys_loop := At_pop\<rparr>"
  let ?s2 = "?s1\<lparr>sys_bash := bash_stop (sys_bash ?s1), sys_stop := At_notify\<rparr>"
  let ?s3 = "?s2\<lparr>sys_loop := notify (sys_loop ?s2), sys_stop := Stopped\<rparr>"
  let ?s4 = "?s3\<lparr>sys_loop := At_wait\<rparr>"
  have "bash_step s ?s1" using s by (intro check_go)
  moreover have "bash_step ?s1 ?s2" using s by (intro stop_store) simp
  moreover have "bash_step ?s2 ?s3" by (intro stop_notify) simp
  moreover have "bash_step ?s3 ?s4" using s by (intro pop_wait) (simp_all add: notify_def bash_stop_def)
  ultimately have "bash_step\<^sup>*\<^sup>* s ?s4" by (rule four_steps)
  then have "sys_reachable ?s4" using s(1) by (rule rtranclp_trans [rotated])
  moreover have "asleep_for_good ?s4" using s by (simp add: asleep_for_good_def bash_stop_def)
  ultimately show ?thesis by blast
qed

lemma bash_read_go [simp]: "b_go (bash_read a x b) = b_go b"
proof -
  have "b_go (fold (bash_event a) es b) = b_go b" for es b
    by (induction es arbitrary: b)
      (auto simp: bash_op_defs mq_push_def Let_def push_statuses_def split: popen_event.split)
  then show ?thesis
    by (auto simp: bash_read_def bash_set_popen_def split: option.split prod.split)
qed

text \<open>
  Once the loop sleeps after the notification of \<open>stop\<close>, every step that neither is a spurious
  wake-up nor brings a command leaves it asleep.
\<close>

theorem bash_asleep_stays:
  assumes "asleep_for_good s" "bash_step s s'" "sys_loop s' \<noteq> At_woken"
    and "m_holder (b_command_queue (sys_bash s')) = []"
  shows "asleep_for_good s'"
  using assms(2)
proof cases
  case (read_chunk a chunk)
  then show ?thesis using assms by (simp add: asleep_for_good_def)
next
  case (read_end a)
  then show ?thesis using assms by (simp add: asleep_for_good_def)
qed (use assms in \<open>auto simp: asleep_for_good_def bash_timeout_def bash_erase_def Let_def
       push_statuses_def\<close>)

section \<open>Examples\<close>

definition sample_command :: command where
  "sample_command = (command_new MPC_STOP ''led-mpc.sh stop'' 3)\<lparr>c_popen := True\<rparr>"

definition sample_bash :: bash where
  "sample_bash = bash_set_command 0 sample_command (bash_set_popen 0 popen_new bash_new)"

definition sample_stream :: bash where
  "sample_stream = bash_set_command 0 (command_new STREAM_SYSTEM system_command 3)
     (bash_set_popen 0 popen_new bash_new)"

lemma sample_facts:
  "b_heap sample_bash 0 = Some sample_command" "command_wrap sample_command" "c_popen sample_command"
  "b_popens sample_bash 0 = Some popen_new"
  "b_heap sample_stream 0 = Some (command_new STREAM_SYSTEM system_command 3)"
  "command_stream (command_new STREAM_SYSTEM system_command 3)"
  "b_popens sample_stream 0 = Some popen_new"
  by (simp_all add: sample_bash_def sample_stream_def sample_command_def command_new_def
      command_wrap_def command_stream_def command_id_stream_def)


lemma bash_stream_status_witness:
  "m_holder (b_status_queue (bash_reads 0 [''ok''] sample_stream)) =
    m_holder (b_status_queue sample_stream)
      @ map (status_new STREAM_SYSTEM status_good) (read_infos popen_new ''ok'')"
  using bash_stream_status [of sample_stream 0 _ popen_new "[''ok'']"] sample_facts
  by (simp add: command_new_def)

lemma bash_timeout_then_end_witness:
  "m_holder (b_status_queue (bash_read 0 None (bash_timeout False 0 sample_bash))) =
    [status_new MPC_STOP status_timeout '''', status_new MPC_STOP status_bad '''']"
  using bash_timeout_then_end [of sample_bash 0 sample_command popen_new] sample_facts
  by (simp add: sample_bash_def sample_command_def bash_new_def popen_new_def
      command_new_def command_result_def)

lemma bash_end_before_attach_witness:
  "\<exists>a b. bash_execute_begin True (command_new MPC_STOP ''led-mpc.sh stop'' 3) bash_new = Inr (a, b) \<and>
    m_holder (b_status_queue (bash_read a None (bash_read a (Some (''status:0'' @ [newline])) b))) =
      [status_new MPC_STOP status_bad
        (command_result (add_infos (command_new MPC_STOP ''led-mpc.sh stop'' 3)
          (read_infos popen_new (''status:0'' @ [newline]))))]"
proof -
  let ?c = "command_new MPC_STOP ''led-mpc.sh stop'' 3"
  obtain a b where ab: "bash_execute_begin True ?c bash_new = Inr (a, b)"
    by (simp add: bash_execute_begin_def popen_create_def Let_def)
  have "command_wrap ?c" "\<not> c_popen ?c" "c_id ?c = MPC_STOP"
    by (simp_all add: command_new_def command_wrap_def command_stream_def command_id_stream_def)
  then show ?thesis
    using bash_end_before_attach [OF ab, of "''status:0'' @ [newline]"] ab
    by (simp add: bash_new_def)
qed

lemma bash_statuses_counted_witness:
  "\<exists>s. bash_step sys_new s \<and> clot_statuses (sys_bash s) =
    card (sys_fired s \<inter> clots (sys_bash s)) + card (sys_ended s \<inter> clots (sys_bash s))"
proof -
  have "bash_step sys_new (sys_new\<lparr>sys_loop := At_pop\<rparr>)"
    by (intro check_go) (simp_all add: sys_new_def bash_start_def bash_new_def Let_def)
  then show ?thesis using bash_statuses_counted by blast
qed

lemma bash_asleep_stays_witness:
  "asleep_for_good (sys_new\<lparr>sys_loop := At_wait, sys_stop := Stopped, sys_bash := bash_stop (bash_set_command 0 (sample_command\<lparr>c_timer := Some (Armed 3)\<rparr>) bash_new)\<rparr>) \<and>
   asleep_for_good (sys_new\<lparr>sys_loop := At_wait, sys_stop := Stopped, sys_bash := bash_timeout False 0 (bash_stop (bash_set_command 0 (sample_command\<lparr>c_timer := Some (Armed 3)\<rparr>) bash_new)), sys_fired := {0}\<rparr>)"
proof -
  let ?b = "bash_stop (bash_set_command 0 (sample_command\<lparr>c_timer := Some (Armed 3)\<rparr>) bash_new)"
  let ?s = "sys_new\<lparr>sys_loop := At_wait, sys_stop := Stopped, sys_bash := ?b\<rparr>"
  let ?t = "sys_new\<lparr>sys_loop := At_wait, sys_stop := Stopped, sys_bash := bash_timeout False 0 ?b, sys_fired := {0}\<rparr>"
  have s: "asleep_for_good ?s"
    by (simp add: asleep_for_good_def bash_stop_def bash_set_command_def bash_new_def)
  have "bash_step ?s (?s\<lparr>sys_bash := bash_timeout False 0 (sys_bash ?s), sys_fired := insert 0 (sys_fired ?s)\<rparr>)"
    by (rule timer_fires [of _ 0 "sample_command\<lparr>c_timer := Some (Armed 3)\<rparr>"])
      (simp_all add: bash_stop_def sys_new_def)
  then have step: "bash_step ?s ?t" by (simp add: sys_new_def)
  have "asleep_for_good ?t"
    by (rule bash_asleep_stays [OF s step])
      (simp_all add: bash_stop_def bash_set_command_def bash_new_def bash_timeout_def Let_def
        bash_erase_def push_statuses_def)
  with s show ?thesis by blast
qed

end
