(* ===== verification/Pi_Spi.thy ===== *)
theory Pi_Spi
  imports Cpp_Text Util_Queue Protocol
begin

text \<open>
  The daemon's hardware lines: the SPI device (\<open>src/src/pi/spi-dev.cpp\<close>), the enable and confirm
  lines of the level shifter (\<open>spi-enable.cpp\<close>) and the interrupt line (\<open>spi-interrupt.cpp\<close>). The
  kernel and \<open>libgpiod\<close> answer the calls: their answers are arguments, and the calls made are
  recorded in order where the order matters. A \<open>gpiod\<close> line belongs to its chip: closing the chip
  frees the lines.
\<close>

section \<open>The SPI device\<close>

text \<open>
  The transfer buffers are static variables of \<open>transfer\<close>. Fresh memory is written as zeros; the
  code never reads a byte of it before it was written.
\<close>

record spi_dev =
  d_device :: int
  d_write_buf :: bytes
  d_read_buf :: bytes
  d_buf_size :: nat

definition spi_dev_new :: spi_dev where
  "spi_dev_new = \<lparr>d_device = 0, d_write_buf = [], d_read_buf = [], d_buf_size = 0\<rparr>"

datatype spi_ioctl =
    Wr_mode | Rd_mode | Wr_bits_per_word | Rd_bits_per_word | Wr_max_speed | Rd_max_speed

text \<open>The configuration calls in order, each with the text thrown when it fails.\<close>

definition spi_setup :: "(spi_ioctl \<times> nat \<times> string) list" where
  "spi_setup =
     [(Wr_mode, 0, ''Failed to set spi write mode''),
      (Rd_mode, 0, ''Failed to set spi read mode''),
      (Wr_bits_per_word, 8, ''Failed to set spi write bits''),
      (Rd_bits_per_word, 8, ''Failed to set spi read bits''),
      (Wr_max_speed, 10, ''Failed to set spi write speed''),
      (Rd_max_speed, 10, ''Failed to set spi read speed'')]"

fun spi_configure ::
  "(spi_ioctl \<Rightarrow> nat \<Rightarrow> int) \<Rightarrow> (spi_ioctl \<times> nat \<times> string) list \<Rightarrow> cpp_exn + unit" where
  "spi_configure ioctl [] = Inr ()"
| "spi_configure ioctl ((request, arg, message) # rest) =
     (if ioctl request arg < 0 then Inl (Runtime_error message) else spi_configure ioctl rest)"

definition spi_dev_start ::
  "int \<Rightarrow> (spi_ioctl \<Rightarrow> nat \<Rightarrow> int) \<Rightarrow> spi_dev \<Rightarrow> cpp_exn + spi_dev" where
  "spi_dev_start opened ioctl d =
     (if opened < 0 then Inl (Runtime_error ''Failed to open spi device'')
      else case spi_configure ioctl spi_setup of
             Inl e \<Rightarrow> Inl e
           | Inr _ \<Rightarrow> Inr (d\<lparr>d_device := opened\<rparr>))"

definition spi_dev_stop :: "spi_dev \<Rightarrow> spi_dev" where
  "spi_dev_stop d = d\<lparr>d_device := 0\<rparr>"

text \<open>\<open>memory\<close> with its first bytes overwritten.\<close>

definition overwrite :: "bytes \<Rightarrow> bytes \<Rightarrow> bytes" where
  "overwrite memory bs = bs @ drop (length bs) memory"

text \<open>
  \<open>transfer\<close>: \<open>message\<close> is what the kernel answers to the first \<open>len\<close> bytes of the write buffer: the
  bytes clocked in, or nothing for an error. The result is appended to \<open>incoming\<close>.
\<close>

definition spi_dev_transfer ::
  "(bytes \<Rightarrow> bytes option) \<Rightarrow> bytes \<Rightarrow> bytes \<Rightarrow> spi_dev \<Rightarrow> bytes \<times> spi_dev" where
  "spi_dev_transfer message out incoming d =
     (let d = (if length out > d_buf_size d
               then d\<lparr>d_buf_size := length out, d_write_buf := replicate (length out) 0,
                      d_read_buf := replicate (length out) 0\<rparr>
               else d);
          d = d\<lparr>d_write_buf := overwrite (d_write_buf d) out\<rparr>
      in case message (take (length out) (d_write_buf d)) of
           None \<Rightarrow> (incoming, d)
         | Some answer \<Rightarrow>
             let d = d\<lparr>d_read_buf := overwrite (d_read_buf d) (take (length out) answer)\<rparr>
             in (incoming @ take (length out) (d_read_buf d), d))"

definition spi_dev_ok :: "spi_dev \<Rightarrow> bool" where
  "spi_dev_ok d \<longleftrightarrow> length (d_write_buf d) = d_buf_size d \<and> length (d_read_buf d) = d_buf_size d"

text \<open>An SPI transfer clocks in as many bytes as it clocks out.\<close>

definition full_duplex :: "(bytes \<Rightarrow> bytes option) \<Rightarrow> bool" where
  "full_duplex message \<longleftrightarrow> (\<forall>out answer. message out = Some answer \<longrightarrow> length answer = length out)"

lemma spi_dev_transfer_exact:
  assumes "full_duplex message" "spi_dev_ok d"
  shows "spi_dev_ok (snd (spi_dev_transfer message out incoming d)) \<and>
    fst (spi_dev_transfer message out incoming d)
      = incoming @ (case message out of None \<Rightarrow> [] | Some answer \<Rightarrow> answer)"
  using assms
  by (auto simp: spi_dev_transfer_def spi_dev_ok_def overwrite_def full_duplex_def Let_def
      split: option.split)

text \<open>
  A transfer sends exactly the bytes of its message and appends exactly the bytes the device
  answered, whatever an earlier, longer transfer left in the static buffers; a failed transfer
  appends nothing.
\<close>

theorem spi_transfer_exact:
  assumes "full_duplex message" "spi_dev_ok d"
  shows "fst (spi_dev_transfer message out incoming (snd (spi_dev_transfer message out' incoming' d)))
    = incoming @ (case message out of None \<Rightarrow> [] | Some answer \<Rightarrow> answer)"
  using spi_dev_transfer_exact [OF assms(1)] spi_dev_transfer_exact [OF assms] by blast

lemma spi_transfer_exact_witness:
  "fst (spi_dev_transfer Some [7, 8] [1] (snd (spi_dev_transfer Some [3, 4, 5] [] spi_dev_new)))
    = [1, 7, 8]"
  using spi_transfer_exact [of Some spi_dev_new "[7, 8]" "[1]" "[3, 4, 5]" "[]"]
  by (simp add: full_duplex_def spi_dev_ok_def spi_dev_new_def)

section \<open>Lines\<close>

datatype gpio_call =
    Chip_open
  | Chip_close
  | Get_line nat
  | Request_output nat
  | Request_input nat
  | Request_events nat
  | Event_fd nat
  | Set_value nat int
  | Get_value nat
  | Release nat
  | Read_event nat
  | Wait_event
  | Sleep nat

text \<open>What the library answers; \<open>Get_line\<close> gives null when the answer is not zero.\<close>

type_synonym gpio = "gpio_call \<Rightarrow> int"

definition enable_offset :: nat where "enable_offset = 27"
definition confirm_offset :: nat where "confirm_offset = 12"
definition interrupt_offset :: nat where "interrupt_offset = 23"

record spi_enable =
  e_chip :: bool
  e_enable :: bool

definition spi_enable_new :: spi_enable where
  "spi_enable_new = \<lparr>e_chip = False, e_enable = False\<rparr>"

text \<open>
  A run of \<open>start\<close>: the calls made, and the exception or nothing; the state is updated in both
  cases. The two reads of the confirm line may differ, so they are separate answers. A null
  confirm line is only logged before it is used.
\<close>

definition confirm_check :: "gpio \<Rightarrow> int \<Rightarrow> int \<Rightarrow> gpio_call list \<times> cpp_exn option" where
  "confirm_check g first second =
     (if g (Get_line confirm_offset) \<noteq> 0 then ([Get_line confirm_offset], Some Undefined)
      else
        let calls = [Get_line confirm_offset, Request_input confirm_offset, Get_value confirm_offset]
              @ (if first \<noteq> 1 then [Sleep 100, Get_value confirm_offset] else []);
            status = (if first \<noteq> 1 then second else first)
        in if status \<noteq> 1
           then (calls, Some (Runtime_error ''spi-enable: Spi confirm line has a bad value!''))
           else (calls @ [Release confirm_offset, Sleep 500], None))"

definition spi_enable_start ::
  "gpio \<Rightarrow> int \<Rightarrow> int \<Rightarrow> spi_enable \<Rightarrow> spi_enable \<times> gpio_call list \<times> cpp_exn option" where
  "spi_enable_start g first second e =
     (if g Chip_open \<noteq> 0
      then (e\<lparr>e_chip := False\<rparr>, [Chip_open],
            Some (Runtime_error ''spi-enable: Failed to open the chip''))
      else let e = e\<lparr>e_chip := True\<rparr> in
      if g (Get_line enable_offset) \<noteq> 0
      then (e\<lparr>e_enable := False\<rparr>, [Chip_open, Get_line enable_offset],
            Some (Runtime_error ''spi-enable: Failed to open enable line''))
      else let e = e\<lparr>e_enable := True\<rparr>;
               calls = [Chip_open, Get_line enable_offset, Request_output enable_offset] in
      if g (Request_output enable_offset) \<noteq> 0
      then (e, calls, Some (Runtime_error ''spi-enable: Failed to configure enable for output''))
      else let calls = calls @ [Set_value enable_offset 1] in
      if g (Set_value enable_offset 1) \<noteq> 0
      then (e, calls, Some (Runtime_error ''spi-enable: Failed to set enable line to 1''))
      else case confirm_check g first second of (rest, res) \<Rightarrow> (e, calls @ rest, res))"

definition spi_enable_stop :: "spi_enable \<Rightarrow> spi_enable \<times> gpio_call list" where
  "spi_enable_stop e =
     (e\<lparr>e_enable := False, e_chip := False\<rparr>,
      (if e_enable e then [Set_value enable_offset 0, Release enable_offset] else [])
      @ (if e_chip e then [Chip_close] else []))"

section \<open>The interrupt line\<close>

record spi_interrupt =
  i_interrupt :: bool
  i_descriptor :: int
  i_waiting :: bool

definition spi_interrupt_new :: spi_interrupt where
  "spi_interrupt_new = \<lparr>i_interrupt = False, i_descriptor = - 1, i_waiting = False\<rparr>"

text \<open>
  \<open>start\<close>: the last two errors, a bad descriptor and a failed \<open>assign\<close>, build an exception object
  without throwing it, so the code goes on to wait on whatever the descriptor is.
\<close>

definition spi_interrupt_start ::
  "gpio \<Rightarrow> bool \<Rightarrow> spi_interrupt \<Rightarrow> spi_interrupt \<times> gpio_call list \<times> cpp_exn option" where
  "spi_interrupt_start g assigned i =
     (if g (Get_line interrupt_offset) \<noteq> 0
      then (i\<lparr>i_interrupt := False\<rparr>, [Get_line interrupt_offset],
            Some (Runtime_error ''spi_interrupt: Failed to open interrupt line''))
      else let i = i\<lparr>i_interrupt := True\<rparr>;
               calls = [Get_line interrupt_offset, Request_events interrupt_offset] in
      if g (Request_events interrupt_offset) \<noteq> 0
      then (i, calls, Some (Runtime_error ''spi_interrupt: Failed to request interrupt events''))
      else
        let fd = g (Event_fd interrupt_offset);
            i = (if assigned then i\<lparr>i_descriptor := fd\<rparr> else i)
        in (i\<lparr>i_waiting := True\<rparr>, calls @ [Event_fd interrupt_offset, Wait_event], None))"

definition spi_interrupt_stop :: "spi_interrupt \<Rightarrow> spi_interrupt \<times> gpio_call list" where
  "spi_interrupt_stop i =
     (i\<lparr>i_interrupt := False\<rparr>, if i_interrupt i then [Release interrupt_offset] else [])"

text \<open>
  \<open>handle_event\<close>: \<open>event\<close> is \<open>None\<close> when the event cannot be read, otherwise whether the edge was a
  rising one. After an error nothing waits for the next event.
\<close>

definition spi_interrupt_handle_event ::
  "bool \<Rightarrow> bool option \<Rightarrow> spi_interrupt \<times> bool condition_queue \<Rightarrow> spi_interrupt \<times> bool condition_queue" where
  "spi_interrupt_handle_event errc event st =
     (case st of (i, queue) \<Rightarrow>
        if errc then (i\<lparr>i_waiting := False\<rparr>, queue)
        else case event of
               None \<Rightarrow> (i\<lparr>i_waiting := False\<rparr>, queue)
             | Some rising \<Rightarrow> (i\<lparr>i_waiting := True\<rparr>, fst (cq_push queue rising)))"

text \<open>
  The interrupt line is reported as running, and waits, even when \<open>libgpiod\<close> gave no file
  descriptor: the exception for that case is built and dropped.
\<close>

theorem spi_interrupt_bad_fd_ignored:
  assumes "g (Get_line interrupt_offset) = 0" "g (Request_events interrupt_offset) = 0"
    and "g (Event_fd interrupt_offset) < 0"
  shows "\<exists>i' calls. spi_interrupt_start g False i = (i', calls, None) \<and> i_waiting i' \<and>
    i_descriptor i' = i_descriptor i"
  using assms by (simp add: spi_interrupt_start_def Let_def)

lemma spi_interrupt_bad_fd_ignored_witness:
  "\<exists>i' calls. spi_interrupt_start (\<lambda>c. if c = Event_fd interrupt_offset then - 1 else 0) False
     spi_interrupt_new = (i', calls, None) \<and> i_waiting i' \<and> i_descriptor i' = - 1"
  using spi_interrupt_bad_fd_ignored [of "\<lambda>c. if c = Event_fd interrupt_offset then - 1 else 0"
      spi_interrupt_new] by (simp add: spi_interrupt_new_def)

section \<open>Lines and their chip\<close>

text \<open>
  The calls are proper when every line used belongs to the chip that is open now: lines got
  before a close are gone.
\<close>

fun gpio_proper :: "bool \<Rightarrow> nat set \<Rightarrow> gpio_call list \<Rightarrow> bool" where
  "gpio_proper opened lines [] = True"
| "gpio_proper opened lines (c # cs) =
     (case c of
        Chip_open \<Rightarrow> gpio_proper True {} cs
      | Chip_close \<Rightarrow> opened \<and> gpio_proper False {} cs
      | Get_line l \<Rightarrow> opened \<and> gpio_proper opened (insert l lines) cs
      | Request_output l \<Rightarrow> l \<in> lines \<and> gpio_proper opened lines cs
      | Request_input l \<Rightarrow> l \<in> lines \<and> gpio_proper opened lines cs
      | Request_events l \<Rightarrow> l \<in> lines \<and> gpio_proper opened lines cs
      | Event_fd l \<Rightarrow> l \<in> lines \<and> gpio_proper opened lines cs
      | Set_value l v \<Rightarrow> l \<in> lines \<and> gpio_proper opened lines cs
      | Get_value l \<Rightarrow> l \<in> lines \<and> gpio_proper opened lines cs
      | Release l \<Rightarrow> l \<in> lines \<and> gpio_proper opened lines cs
      | _ \<Rightarrow> gpio_proper opened lines cs)"

text \<open>
  The enable line is handled properly: whatever the library answers, starting and then
  stopping uses a line only while its chip is open, and a line that was set is reset before it
  is released; the only exception is a null confirm line, which is used.
\<close>

theorem spi_enable_proper:
  assumes "spi_enable_start g first second spi_enable_new = (e, calls, res)"
  shows "gpio_proper False {} (calls @ snd (spi_enable_stop e))
    \<and> (e_enable e \<longrightarrow> snd (spi_enable_stop e) =
        [Set_value enable_offset 0, Release enable_offset, Chip_close])
    \<and> fst (spi_enable_stop e) = spi_enable_new"
  using assms
  by (auto simp: spi_enable_start_def spi_enable_stop_def spi_enable_new_def confirm_check_def
      Let_def enable_offset_def confirm_offset_def split: if_splits)

lemma spi_enable_proper_witness:
  "gpio_proper False {} (fst (snd (spi_enable_start (\<lambda>_. 0) 1 1 spi_enable_new))
     @ snd (spi_enable_stop (fst (spi_enable_start (\<lambda>_. 0) 1 1 spi_enable_new))))"
  using spi_enable_proper [of "\<lambda>_. 0" 1 1] by (metis prod.collapse)

end
