(* ===== verification/Pi_Mcu_Handle.thy ===== *)
theory Pi_Mcu_Handle
  imports Pi_Mcu Pi_Spi
begin

text \<open>
  The daemon's link to the controller: \<open>src/src/pi/mcu-handle.cpp\<close>. Messages leave through the SPI
  device one at a time: after a message with a serial number nothing but idle messages is sent
  until the controller has answered with the same number. \<open>mh_trace\<close> records the messages
  handed to the device and the answers accepted, in order; the code only logs them.
\<close>

section \<open>State\<close>

datatype mcu_event = Sent u8 | Confirmed u8

record mcu_handle =
  mh_go :: bool
  mh_to_queue :: "mcu_queue"
  mh_from_queue :: "mcu_queue"
  mh_interrupt_queue :: "bool condition_queue"
  mh_interrupt_rised :: bool
  mh_device :: spi_dev
  mh_block :: mcu_block
  mh_parse :: mcu_parse
  mh_show_msg :: bool
  mh_trace :: "mcu_event list"

definition mcu_handle_new :: "bool \<Rightarrow> mcu_handle" where
  "mcu_handle_new show_msg = \<lparr>mh_go = True, mh_to_queue = mq_new, mh_from_queue = mq_new,
     mh_interrupt_queue = mq_new, mh_interrupt_rised = False, mh_device = spi_dev_new,
     mh_block = mcu_block_new, mh_parse = mcu_parse_new, mh_show_msg = show_msg, mh_trace = []\<rparr>"

definition id_mismatch :: string where
  "id_mismatch = ''Incoming/outcoming message id mismatch, can't continue...''"

section \<open>Writing a message\<close>

text \<open>The bytes clocked in, through the parser; a message whose serial is wrong throws.\<close>

fun mcu_receive :: "bytes \<Rightarrow> mcu_handle \<Rightarrow> cpp_exn + mcu_handle" where
  "mcu_receive [] h = Inr h"
| "mcu_receive (number # rest) h =
     (case mcu_parse_push (mh_parse h) number of
        (parse, msg) \<Rightarrow>
          let h = h\<lparr>mh_parse := parse\<rparr>
          in case msg of
               None \<Rightarrow> mcu_receive rest h
             | Some msg \<Rightarrow>
                 (case decode_get_serial msg of
                    None \<Rightarrow> mcu_receive rest h
                  | Some serial \<Rightarrow>
                      (case block_relax (mh_block h) serial of
                         (status, block) \<Rightarrow>
                           if \<not> status then Inl (Runtime_error id_mismatch)
                           else mcu_receive rest
                             (h\<lparr>mh_block := block,
                                mh_from_queue := fst (cq_push (mh_from_queue h) msg),
                                mh_trace := mh_trace h @ [Confirmed serial]\<rparr>))))"

definition mcu_write_msg ::
  "(bytes \<Rightarrow> bytes option) \<Rightarrow> mcu_msg \<Rightarrow> mcu_handle \<Rightarrow> cpp_exn + mcu_handle" where
  "mcu_write_msg message msg_src h =
     (case decode_get_serial msg_src of
        None \<Rightarrow> Inr h
      | Some serial_id \<Rightarrow>
          let msg = encode_wrap msg_src;
              h = h\<lparr>mh_block := block_engage (mh_block h) serial_id,
                    mh_trace := mh_trace h @ [Sent serial_id]\<rparr>
          in case spi_dev_transfer message msg [] (mh_device h) of
               (in_msg, device) \<Rightarrow> mcu_receive in_msg (h\<lparr>mh_device := device\<rparr>))"

section \<open>The loop\<close>

text \<open>
  One round of the loop of \<open>start\<close>, with the device's answers to the idle message and to the
  queued one. The flag says that the round waits for a notification.
\<close>

definition mcu_round_idle :: "(bytes \<Rightarrow> bytes option) \<Rightarrow> mcu_handle \<Rightarrow> cpp_exn + mcu_handle" where
  "mcu_round_idle message h =
     (if mh_interrupt_rised h
      then mcu_write_msg message (encode_join SERIAL_ID_TO_IGNORE MSG_ID_IDLE []) h else Inr h)"

definition mcu_round_interrupt :: "mcu_handle \<Rightarrow> mcu_handle" where
  "mcu_round_interrupt h =
     (case cq_pop False (mh_interrupt_queue h) mq_new of
        (bool_opt, q) \<Rightarrow>
          h\<lparr>mh_interrupt_queue := q,
            mh_interrupt_rised := (case bool_opt of None \<Rightarrow> mh_interrupt_rised h | Some b \<Rightarrow> b)\<rparr>)"

definition mcu_round_send ::
  "(bytes \<Rightarrow> bytes option) \<Rightarrow> mcu_handle \<Rightarrow> cpp_exn + (bool \<times> mcu_handle)" where
  "mcu_round_send message h =
     (if mh_go h \<and> cq_empty False (mh_interrupt_queue h)
         \<and> (block_is_engaged (mh_block h) \<or> cq_empty False (mh_to_queue h))
      then Inr (True, h)
      else if \<not> block_is_engaged (mh_block h) then
        (case cq_pop False (mh_to_queue h) mq_new of
           (msg, q) \<Rightarrow>
             let h = h\<lparr>mh_to_queue := q\<rparr>
             in case msg of None \<Rightarrow> Inr (False, h)
                | Some msg \<Rightarrow>
                    (case mcu_write_msg message msg h of
                       Inl e \<Rightarrow> Inl e | Inr h \<Rightarrow> Inr (False, h)))
      else Inr (False, h))"

definition mcu_round ::
  "(bytes \<Rightarrow> bytes option) \<Rightarrow> (bytes \<Rightarrow> bytes option) \<Rightarrow> mcu_handle \<Rightarrow>
     cpp_exn + (bool \<times> mcu_handle)" where
  "mcu_round idle_message message h =
     (case mcu_round_idle idle_message h of
        Inl e \<Rightarrow> Inl e
      | Inr h \<Rightarrow>
          let h = mcu_round_interrupt h
          in if mh_interrupt_rised h then Inr (False, h) else mcu_round_send message h)"

definition mcu_handle_start ::
  "int \<Rightarrow> (spi_ioctl \<Rightarrow> nat \<Rightarrow> int) \<Rightarrow> mcu_handle \<Rightarrow> cpp_exn + mcu_handle" where
  "mcu_handle_start opened ioctl h =
     (case spi_dev_start opened ioctl (mh_device h) of
        Inl e \<Rightarrow> Inl e | Inr d \<Rightarrow> Inr (h\<lparr>mh_device := d\<rparr>))"

definition mcu_handle_stop :: "mcu_handle \<Rightarrow> mcu_handle" where
  "mcu_handle_stop h = h\<lparr>mh_go := False, mh_device := spi_dev_stop (mh_device h)\<rparr>"

text \<open>The rounds, with what the other threads do between them.\<close>

inductive mcu_step :: "mcu_handle \<Rightarrow> mcu_handle \<Rightarrow> bool" where
  round: "mh_go h \<Longrightarrow> mcu_round idle_message message h = Inr (sleep, h') \<Longrightarrow> mcu_step h h'"
| queued: "mcu_step h (h\<lparr>mh_to_queue := fst (cq_push (mh_to_queue h) msg)\<rparr>)"
| edge: "mcu_step h (h\<lparr>mh_interrupt_queue := fst (cq_push (mh_interrupt_queue h) rising)\<rparr>)"
| taken: "cq_pop False (mh_from_queue h) mq_new = (msg, q) \<Longrightarrow> mcu_step h (h\<lparr>mh_from_queue := q\<rparr>)"
| stopped: "mcu_step h (mcu_handle_stop h)"

section \<open>Stop and wait\<close>

text \<open>
  The protocol as an observer of the wire sees it: which serial number is outstanding, and
  nothing when a numbered message is sent while another is outstanding or a wrong number is
  accepted.
\<close>

fun stop_and_wait :: "u8 \<Rightarrow> mcu_event list \<Rightarrow> u8 option" where
  "stop_and_wait pending [] = Some pending"
| "stop_and_wait pending (Sent s # es) =
     (if s = 0 then stop_and_wait pending es
      else if pending = 0 then stop_and_wait s es else None)"
| "stop_and_wait pending (Confirmed s # es) =
     (if s = 0 \<or> pending = 0 then stop_and_wait pending es
      else if pending = s then stop_and_wait 0 es else None)"

lemma stop_and_wait_append:
  "stop_and_wait p (xs @ ys) =
     (case stop_and_wait p xs of None \<Rightarrow> None | Some q \<Rightarrow> stop_and_wait q ys)"
  by (induction p xs rule: stop_and_wait.induct) auto

definition link_ok :: "mcu_handle \<Rightarrow> bool" where
  "link_ok h \<longleftrightarrow> stop_and_wait 0 (mh_trace h) = Some (m_pending_id (mh_block h))"

lemma mcu_receive_ok:
  "link_ok h \<Longrightarrow> mcu_receive bs h = Inr h' \<Longrightarrow> link_ok h'"
proof (induction bs arbitrary: h)
  case Nil
  then show ?case by simp
next
  case (Cons b bs)
  obtain parse msg where p: "mcu_parse_push (mh_parse h) b = (parse, msg)" by fastforce
  let ?h = "h\<lparr>mh_parse := parse\<rparr>"
  have ok: "link_ok ?h" using Cons.prems(1) by (simp add: link_ok_def)
  show ?case
  proof (cases msg)
    case None
    then show ?thesis using Cons.IH [OF ok] Cons.prems(2) p by simp
  next
    case (Some m)
    show ?thesis
    proof (cases "decode_get_serial m")
      case None
      then show ?thesis using Cons.IH [OF ok] Cons.prems(2) p Some by simp
    next
      case (Some s)
      let ?block = "snd (block_relax (mh_block h) s)"
      let ?h = "h\<lparr>mh_parse := parse, mh_block := ?block,
         mh_from_queue := fst (cq_push (mh_from_queue h) m), mh_trace := mh_trace h @ [Confirmed s]\<rparr>"
      have "fst (block_relax (mh_block h) s)" "mcu_receive bs ?h = Inr h'"
        using Cons.prems(2) p \<open>msg = Some m\<close> Some
        by (simp_all add: case_prod_beta Let_def split: if_splits)
      moreover from this(1) have "link_ok ?h"
        using Cons.prems(1)
        by (auto simp: link_ok_def stop_and_wait_append block_relax_def block_is_engaged_def
            split: if_splits)
      ultimately show ?thesis using Cons.IH by blast
    qed
  qed
qed

lemma mcu_write_msg_ok:
  assumes "link_ok h" "mcu_write_msg message msg h = Inr h'"
    and "\<not> block_is_engaged (mh_block h) \<or> decode_get_serial msg = Some 0"
  shows "link_ok h'"
proof (cases "decode_get_serial msg")
  case None
  then show ?thesis using assms by (simp add: mcu_write_msg_def)
next
  case (Some s)
  let ?h = "h\<lparr>mh_block := block_engage (mh_block h) s, mh_trace := mh_trace h @ [Sent s]\<rparr>"
  have ok: "link_ok ?h"
    using assms(1,3) Some
    by (auto simp: link_ok_def stop_and_wait_append block_engage_def block_is_engaged_def)
  obtain in_msg d where t: "spi_dev_transfer message (encode_wrap msg) [] (mh_device h) = (in_msg, d)"
    by fastforce
  then have "mcu_receive in_msg (?h\<lparr>mh_device := d\<rparr>) = Inr h'"
    using assms(2) Some by (simp add: mcu_write_msg_def Let_def)
  moreover have "link_ok (?h\<lparr>mh_device := d\<rparr>)" using ok by (simp add: link_ok_def)
  ultimately show ?thesis by (rule mcu_receive_ok [rotated])
qed

lemma mcu_round_ok:
  assumes "link_ok h" "mcu_round idle_message message h = Inr (sleep, h')"
  shows "link_ok h'"
proof -
  obtain h1 where h1: "mcu_round_idle idle_message h = Inr h1"
    using assms(2) by (auto simp: mcu_round_def split: sum.splits)
  have "link_ok h1"
    using h1 assms(1) mcu_write_msg_ok [OF assms(1)]
    by (auto simp: mcu_round_idle_def encode_join_bytes split: if_splits)
  then have ok2: "link_ok (mcu_round_interrupt h1)" (is "link_ok ?h2")
    by (auto simp: mcu_round_interrupt_def link_ok_def split: prod.split)
  show ?thesis
  proof (cases "mh_interrupt_rised ?h2")
    case True
    then show ?thesis using assms(2) h1 ok2 by (simp add: mcu_round_def)
  next
    case False
    then have send: "mcu_round_send message ?h2 = Inr (sleep, h')"
      using assms(2) h1 by (simp add: mcu_round_def)
    obtain msg q where pop: "cq_pop False (mh_to_queue ?h2) mq_new = (msg, q)" by fastforce
    have ok3: "link_ok (?h2\<lparr>mh_to_queue := q\<rparr>)" using ok2 by (simp add: link_ok_def)
    show ?thesis
      using send ok2 ok3 pop mcu_write_msg_ok [OF ok3]
      by (auto simp: mcu_round_send_def Let_def split: if_splits option.splits sum.splits)
  qed
qed

text \<open>
  C3: whatever the device answers and however the other threads interleave, the link is a stop
  and wait protocol: a numbered message is never sent while another one is unconfirmed, no
  confirmation of another number is accepted, and the block always holds the outstanding number.
\<close>

theorem mcu_link_stop_and_wait:
  assumes "mcu_step\<^sup>*\<^sup>* (mcu_handle_new show_msg) h"
  shows "stop_and_wait 0 (mh_trace h) = Some (m_pending_id (mh_block h))"
proof -
  have "link_ok h"
    using assms
  proof (induction rule: rtranclp_induct)
    case base
    show ?case by (simp add: link_ok_def mcu_handle_new_def mcu_block_new_def)
  next
    case (step h h')
    from step.hyps(2) step.IH show ?case
    proof cases
      case (round idle_message message sleep)
      then show ?thesis using mcu_round_ok step.IH by blast
    qed (simp_all add: link_ok_def mcu_handle_stop_def)
  qed
  then show ?thesis by (simp add: link_ok_def)
qed

section \<open>Delivery\<close>

fun mcu_accept :: "mcu_msg list \<Rightarrow> mcu_handle \<Rightarrow> cpp_exn + mcu_handle" where
  "mcu_accept [] h = Inr h"
| "mcu_accept (msg # msgs) h =
     (case decode_get_serial msg of
        None \<Rightarrow> mcu_accept msgs h
      | Some serial \<Rightarrow>
          (case block_relax (mh_block h) serial of
             (status, block) \<Rightarrow>
               if \<not> status then Inl (Runtime_error id_mismatch)
               else mcu_accept msgs
                 (h\<lparr>mh_block := block, mh_from_queue := fst (cq_push (mh_from_queue h) msg),
                    mh_trace := mh_trace h @ [Confirmed serial]\<rparr>)))"

lemma mh_parse_swap:
  "h\<lparr>mh_parse := p, mh_block := b, mh_from_queue := q, mh_trace := t\<rparr> =
   (h\<lparr>mh_block := b, mh_from_queue := q, mh_trace := t\<rparr>)\<lparr>mh_parse := p\<rparr>"
  by simp

lemma mcu_receive_accept:
  "mcu_receive bs h =
     (case mcu_accept (snd (feed mcu_parse_push (mh_parse h) bs)) h of
        Inl e \<Rightarrow> Inl e
      | Inr h' \<Rightarrow> Inr (h'\<lparr>mh_parse := fst (feed mcu_parse_push (mh_parse h) bs)\<rparr>))"
proof -
  have indep: "mcu_accept ms (h\<lparr>mh_parse := p\<rparr>) =
      map_sum id (\<lambda>h'. h'\<lparr>mh_parse := p\<rparr>) (mcu_accept ms h)" for ms h p
  proof (induction ms arbitrary: h)
    case (Cons m ms)
    show ?case
      by (auto simp: case_prod_beta mh_parse_swap Cons.IH split: option.split)
  qed simp
  show ?thesis
  proof (induction bs arbitrary: h)
    case Nil
    then show ?case by simp
  next
    case (Cons b bs)
    obtain p m where p: "mcu_parse_push (mh_parse h) b = (p, m)" by fastforce
    show ?case
      by (auto simp: p Cons.IH indep mh_parse_swap case_prod_beta Let_def
          split: option.split sum.split)
  qed
qed


lemma block_relax_pending:
  assumes "s = 0 \<or> s = pending" "m_pending_id b = pending \<or> m_pending_id b = 0"
  shows "fst (block_relax b s)"
    "m_pending_id (snd (block_relax b s)) = (if s = pending then 0 else m_pending_id b)"
    "s \<noteq> pending \<Longrightarrow> snd (block_relax b s) = b"
  using assms by (auto simp: block_relax_def block_is_engaged_def)

lemma mcu_accept_all:
  assumes "\<forall>m \<in> set ms. 2 \<le> length m \<and> (hd m = 0 \<or> hd m = pending)"
    and "m_pending_id (mh_block h) = pending \<or> m_pending_id (mh_block h) = 0"
  shows "\<exists>h'. mcu_accept ms h = Inr h' \<and>
    m_holder (mh_from_queue h') = m_holder (mh_from_queue h) @ ms \<and>
    m_pending_id (mh_block h') = (if pending \<in> hd ` set ms then 0 else m_pending_id (mh_block h))"
  using assms
proof (induction ms arbitrary: h)
  case (Cons m ms)
  then obtain s i rest where m: "m = s # i # rest" by (cases m; cases "tl m") auto
  let ?b = "snd (block_relax (mh_block h) s)"
  let ?h = "h\<lparr>mh_block := ?b, mh_from_queue := fst (cq_push (mh_from_queue h) m),
    mh_trace := mh_trace h @ [Confirmed s]\<rparr>"
  have s: "s = 0 \<or> s = pending" using Cons.prems(1) m by simp
  note relax = block_relax_pending [OF s Cons.prems(2)]
  have "m_pending_id (mh_block ?h) = pending \<or> m_pending_id (mh_block ?h) = 0"
    using relax(2) Cons.prems(2) by simp
  then obtain h' where h': "mcu_accept ms ?h = Inr h'"
    "m_holder (mh_from_queue h') = m_holder (mh_from_queue ?h) @ ms"
    "m_pending_id (mh_block h') = (if pending \<in> hd ` set ms then 0 else m_pending_id (mh_block ?h))"
    using Cons.IH [of ?h] Cons.prems(1) by auto
  have "mcu_accept (m # ms) h = Inr h'"
    using h'(1) relax(1) by (simp add: m case_prod_beta)
  moreover have "m_pending_id (mh_block h') =
      (if pending \<in> hd ` set (m # ms) then 0 else m_pending_id (mh_block h))"
    using h'(3) relax(2) by (cases "s = pending") (simp_all add: m)
  ultimately show ?case using h'(2) by simp
qed simp

text \<open>
  C17: the daemon receives every message of the controller: a stream of frames between filler bytes
  hands the messages over in order, when none of them confirms a number other than the
  outstanding one; the outstanding number is cleared by its confirmation only.
\<close>

theorem mcu_receive_stream:
  assumes "mh_parse h = mcu_parse_new"
    and "list_all (\<lambda>(gap, m). list_all (\<lambda>b. b \<noteq> EYE_CATCH) gap \<and> 2 \<le> length m \<and> length m < 256) xs"
    and "list_all (\<lambda>b. b \<noteq> EYE_CATCH) tail"
    and "list_all (\<lambda>(gap, m). hd m = 0 \<or> hd m = m_pending_id (mh_block h)) xs"
  shows "\<exists>h'. mcu_receive (concat (map (\<lambda>(gap, m). gap @ encode_wrap m) xs) @ tail) h = Inr h' \<and>
    m_holder (mh_from_queue h') = m_holder (mh_from_queue h) @ map snd xs \<and>
    m_pending_id (mh_block h') =
      (if m_pending_id (mh_block h) \<in> (hd \<circ> snd) ` set xs then 0 else m_pending_id (mh_block h))"
proof -
  have feed: "feed mcu_parse_push mcu_parse_new (concat (map (\<lambda>(gap, m). gap @ encode_wrap m) xs) @ tail)
      = (mcu_parse_new, map snd xs)"
    by (rule pi_parse.feed_stream [OF assms(2,3)])
  have "\<forall>m \<in> set (map snd xs). 2 \<le> length m \<and> (hd m = 0 \<or> hd m = m_pending_id (mh_block h))"
    using assms(2,4) by (fastforce simp: list_all_iff)
  then obtain h' where "mcu_accept (map snd xs) h = Inr h'"
    "m_holder (mh_from_queue h') = m_holder (mh_from_queue h) @ map snd xs"
    "m_pending_id (mh_block h') = (if m_pending_id (mh_block h) \<in> hd ` set (map snd xs) then 0
      else m_pending_id (mh_block h))"
    using mcu_accept_all [of "map snd xs" "m_pending_id (mh_block h)" h] by blast
  then show ?thesis
    using feed assms(1) by (simp add: mcu_receive_accept image_comp)
qed

lemma mcu_receive_stream_witness:
  "\<exists>h'. mcu_receive ([] @ encode_wrap [5, MSG_ID_STATUS, 0] @ [234])
     ((mcu_handle_new False)\<lparr>mh_block := \<lparr>m_pending_id = 5\<rparr>\<rparr>) = Inr h' \<and>
     m_holder (mh_from_queue h') = [[5, MSG_ID_STATUS, 0]] \<and> m_pending_id (mh_block h') = 0"
  using mcu_receive_stream [of "(mcu_handle_new False)\<lparr>mh_block := \<lparr>m_pending_id = 5\<rparr>\<rparr>"
      "[([], [5, MSG_ID_STATUS, 0])]" "[234]"]
  by (simp add: mcu_handle_new_def mq_new_def)

lemma mcu_link_stop_and_wait_witness:
  "\<exists>h. mcu_step\<^sup>*\<^sup>* (mcu_handle_new False) h \<and> stop_and_wait 0 (mh_trace h) = Some 0 \<and> \<not> mh_go h"
proof -
  have "mcu_step\<^sup>*\<^sup>* (mcu_handle_new False) (mcu_handle_stop (mcu_handle_new False))"
    by (intro r_into_rtranclp stopped)
  from mcu_link_stop_and_wait [OF this] this show ?thesis
    by (intro exI [of _ "mcu_handle_stop (mcu_handle_new False)"])
      (simp add: mcu_handle_stop_def mcu_handle_new_def mcu_block_new_def)
qed

end
