(* ===== verification/Pi_Base.thy ===== *)
theory Pi_Base
  imports Pi_Handle Pi_Bash Pi_Mcu_Handle
begin

text \<open>
  How the daemon is put together: its arguments (\<open>src/src/pi/arg.cpp\<close>), the object that owns the
  components and their threads (\<open>base.cpp\<close>) and \<open>main\<close> (\<open>led-d.cpp\<close>). The command line parser
  TCLAP, the GPIO library and the \<open>io_context\<close> are outside the sources: the result of parsing, the
  answers of the library and the exception that \<open>run\<close> may end with are arguments. The queues that
  two components share are one queue of the state each; \<open>base_link\<close> copies them between the views.
\<close>

section \<open>Arguments\<close>

record arg =
  arg_spi_msg :: bool
  arg_subject_regexp_list :: "string list"

text \<open>\<open>init\<close>: \<open>parsed\<close> is what TCLAP found, nothing when it threw.\<close>

definition arg_init :: "(bool \<times> string list) option \<Rightarrow> arg \<Rightarrow> bool \<times> arg" where
  "arg_init parsed arg =
     (case parsed of
        None \<Rightarrow> (False, arg)
      | Some (spi, regexps) \<Rightarrow>
          (True, arg\<lparr>arg_spi_msg := spi,
             arg_subject_regexp_list := arg_subject_regexp_list arg @ regexps\<rparr>))"

section \<open>The owner of the components\<close>

record 're base =
  base_handle :: "'re handle"
  base_bash :: bash
  base_mcu_handle :: mcu_handle
  base_spi_enable :: spi_enable
  base_interrupt :: spi_interrupt
  base_handle_thread :: bool
  base_bash_thread :: bool
  base_mcu_thread :: bool

definition base_new ::
  "(string \<Rightarrow> 're option) \<Rightarrow> u8 \<Rightarrow> arg \<Rightarrow> cpp_exn + 're base" where
  "base_new compile garbage arg =
     (case content_new compile (arg_subject_regexp_list arg) of
        Inl e \<Rightarrow> Inl e
      | Inr c \<Rightarrow> Inr
          \<lparr>base_handle = handle_new garbage c, base_bash = bash_new,
           base_mcu_handle = mcu_handle_new (arg_spi_msg arg),
           base_spi_enable = spi_enable_new, base_interrupt = spi_interrupt_new,
           base_handle_thread = False, base_bash_thread = False, base_mcu_thread = False\<rparr>)"

text \<open>\<open>stop\<close>: the threads are joined after every component was told to stop.\<close>

definition base_stop :: "'re base \<Rightarrow> 're base \<times> gpio_call list" where
  "base_stop b =
     (case spi_enable_stop (base_spi_enable b) of (e, calls) \<Rightarrow>
        (b\<lparr>base_spi_enable := e,
           base_handle := handle_stop (base_handle b),
           base_bash := bash_stop (base_bash b),
           base_mcu_handle := mcu_handle_stop (base_mcu_handle b),
           base_handle_thread := False, base_bash_thread := False, base_mcu_thread := False\<rparr>,
         calls))"

definition base_start ::
  "gpio \<Rightarrow> int \<Rightarrow> int \<Rightarrow> bool \<Rightarrow> 're base \<Rightarrow> bool \<times> 're base \<times> gpio_call list" where
  "base_start g first second assigned b =
     (case spi_enable_start g first second (base_spi_enable b) of
        (e, calls, Some exn) \<Rightarrow>
          (case base_stop (b\<lparr>base_spi_enable := e\<rparr>) of (b, rest) \<Rightarrow> (False, b, calls @ rest))
      | (e, calls, None) \<Rightarrow>
          (let b = b\<lparr>base_spi_enable := e\<rparr> in
           case spi_interrupt_start g assigned (base_interrupt b) of
             (i, calls', Some exn) \<Rightarrow>
               (case base_stop (b\<lparr>base_interrupt := i\<rparr>) of
                  (b, rest) \<Rightarrow> (False, b, calls @ calls' @ rest))
           | (i, calls', None) \<Rightarrow>
               (True,
                b\<lparr>base_interrupt := i, base_handle_thread := True, base_bash_thread := True,
                  base_mcu_thread := True\<rparr>,
                calls @ calls')))"

text \<open>The destructor: the members in reverse order; the interrupt line before the enable line.\<close>

definition base_destroy :: "'re base \<Rightarrow> gpio_call list" where
  "base_destroy b =
     snd (spi_interrupt_stop (base_interrupt b)) @ snd (spi_enable_stop (base_spi_enable b))"

section \<open>\<open>main\<close>\<close>

text \<open>
  The exit status of the daemon and the calls to the GPIO library of a whole run. \<open>run\<close> is the
  exception that \<open>context.run ()\<close> ends with, if any; a signal ends it without one.
\<close>

definition led_d_main ::
  "(bool \<times> string list) option \<Rightarrow> (string \<Rightarrow> 're option) \<Rightarrow> u8 \<Rightarrow> gpio \<Rightarrow> int \<Rightarrow> int \<Rightarrow> bool
     \<Rightarrow> cpp_exn option \<Rightarrow> int \<times> gpio_call list" where
  "led_d_main parsed compile garbage g first second assigned run =
     (case arg_init parsed \<lparr>arg_spi_msg = False, arg_subject_regexp_list = []\<rparr> of
        (ok, arg) \<Rightarrow>
          if \<not> ok then (101, [])
          else case base_new compile garbage arg of
            Inl e \<Rightarrow> (128, [])
          | Inr b \<Rightarrow>
              (case base_start g first second assigned b of
                 (ok, b, calls) \<Rightarrow>
                   if \<not> ok then (128, calls @ base_destroy b)
                   else case base_stop b of
                     (b, calls') \<Rightarrow>
                       (if run = None then 0 else 128, calls @ calls' @ base_destroy b)))"

text \<open>A signal ends the event loop unless it came with an error.\<close>

definition signal_handler :: "bool \<Rightarrow> bool \<Rightarrow> bool" where
  "signal_handler errc running = (if errc then running else False)"

text \<open>
  In every run of the daemon that starts, stopping closes the chip while the interrupt line is
  still held, and the destructor releases that line afterwards: a use after free.
\<close>

theorem base_line_used_after_close:
  assumes "\<And>c. g c = 0"
    and "base_start g 1 second assigned b = (True, b', calls)"
    and "base_spi_enable b = spi_enable_new"
  shows "\<exists>pre. calls @ snd (base_stop b') @ base_destroy (fst (base_stop b')) =
      pre @ [Chip_close, Release interrupt_offset] \<and>
    gpio_proper False {} (pre @ [Chip_close]) \<and>
    \<not> gpio_proper False {} (pre @ [Chip_close, Release interrupt_offset])"
proof -
  have calls: "calls = [Chip_open, Get_line 27, Request_output 27, Set_value 27 1, Get_line 12,
      Request_input 12, Get_value 12, Release 12, Sleep 500, Get_line 23, Request_events 23,
      Event_fd 23, Wait_event]"
    and b': "e_enable (base_spi_enable b')" "e_chip (base_spi_enable b')" "i_interrupt (base_interrupt b')"
    using assms(2) by (auto simp: base_start_def spi_enable_start_def spi_interrupt_start_def
        confirm_check_def assms(1,3) enable_offset_def confirm_offset_def interrupt_offset_def Let_def)
  let ?pre = "calls @ [Set_value 27 0, Release 27]"
  have "calls @ snd (base_stop b') @ base_destroy (fst (base_stop b'))
      = ?pre @ [Chip_close, Release interrupt_offset]"
    using b' by (simp add: base_stop_def base_destroy_def spi_enable_stop_def
        spi_interrupt_stop_def enable_offset_def case_prod_beta)
  moreover have "gpio_proper False {} (?pre @ [Chip_close])"
    "\<not> gpio_proper False {} (?pre @ [Chip_close, Release interrupt_offset])"
    by (simp_all add: calls interrupt_offset_def)
  ultimately show ?thesis by blast
qed

definition sample_base :: "unit base" where
  "sample_base = \<lparr>base_handle = handle_new 0 sample_content, base_bash = bash_new,
     base_mcu_handle = mcu_handle_new False, base_spi_enable = spi_enable_new,
     base_interrupt = spi_interrupt_new, base_handle_thread = False, base_bash_thread = False,
     base_mcu_thread = False\<rparr>"

lemma base_line_used_after_close_witness:
  "\<exists>b' calls. base_start (\<lambda>_. 0) 1 1 True sample_base = (True, b', calls) \<and>
    \<not> gpio_proper False {} (calls @ snd (base_stop b') @ base_destroy (fst (base_stop b')))"
proof -
  obtain b' calls where run: "base_start (\<lambda>_. 0) 1 1 True sample_base = (True, b', calls)"
    by (simp add: base_start_def spi_enable_start_def spi_interrupt_start_def
        confirm_check_def sample_base_def spi_enable_new_def enable_offset_def
        confirm_offset_def interrupt_offset_def Let_def)
  have "base_spi_enable sample_base = spi_enable_new" by (simp add: sample_base_def)
  from base_line_used_after_close [OF _ run this] run show ?thesis by auto
qed

text \<open>
  The exit status is 101 for bad arguments, 0 when every expression compiled, the enable and
  the interrupt line started and the event loop ended without an exception, and 128 otherwise;
  a run that fails to start leaves the enable line released and the chip closed.
\<close>

theorem led_d_main_status:
  "fst (led_d_main parsed compile garbage g first second assigned run) =
    (case parsed of
       None \<Rightarrow> 101
     | Some (spi, regexps) \<Rightarrow>
         if (\<exists>c. content_new compile regexps = Inr c)
            \<and> snd (snd (spi_enable_start g first second spi_enable_new)) = None
            \<and> snd (snd (spi_interrupt_start g assigned spi_interrupt_new)) = None
            \<and> run = None
         then 0 else 128)
   \<and> (base_spi_enable b = spi_enable_new \<longrightarrow> fst (base_start g first second assigned b) = False
       \<longrightarrow> base_spi_enable (fst (snd (base_start g first second assigned b))) = spi_enable_new)"
proof
  show "fst (led_d_main parsed compile garbage g first second assigned run) =
    (case parsed of
       None \<Rightarrow> 101
     | Some (spi, regexps) \<Rightarrow>
         if (\<exists>c. content_new compile regexps = Inr c)
            \<and> snd (snd (spi_enable_start g first second spi_enable_new)) = None
            \<and> snd (snd (spi_interrupt_start g assigned spi_interrupt_new)) = None
            \<and> run = None
         then 0 else 128)"
    by (auto simp: led_d_main_def arg_init_def base_new_def base_start_def Let_def
        split: option.splits sum.splits prod.splits)
  show "base_spi_enable b = spi_enable_new \<longrightarrow> fst (base_start g first second assigned b) = False
       \<longrightarrow> base_spi_enable (fst (snd (base_start g first second assigned b))) = spi_enable_new"
    by (auto simp: base_start_def base_stop_def spi_enable_stop_def spi_enable_new_def Let_def
        split: option.splits prod.splits)
qed

lemma led_d_main_status_witness:
  "fst (led_d_main (Some (False, [])) (\<lambda>_. Some ()) 0 (\<lambda>_. 0) 1 1 True None) = 0 \<and>
   fst (led_d_main (Some (False, [])) (\<lambda>_. Some ()) 0 (\<lambda>_. 0) 0 0 True None) = 128"
  using led_d_main_status [of "Some (False, [])" "\<lambda>_. Some ()" 0 "\<lambda>_. 0" 1 1 True None sample_base]
    led_d_main_status [of "Some (False, [])" "\<lambda>_. Some ()" 0 "\<lambda>_. 0" 0 0 True None sample_base]
  by (simp add: content_new_def spi_enable_start_def spi_interrupt_start_def confirm_check_def Let_def
      enable_offset_def confirm_offset_def interrupt_offset_def)

end
