(* ===== verification/Pi_Lifetime.thy ===== *)
theory Pi_Lifetime
  imports Pi_Bash
begin

text \<open>
  Who owns the objects of the shell: the destructor of \<open>popen_t\<close> (\<open>src/src/pi/popen.cpp\<close>) and the
  shared pointers between a command (\<open>command.hpp\<close>), its reader and the callbacks that
  \<open>execute_command\<close> (\<open>bash.cpp\<close>) binds. An object is destroyed when its last owner lets go of it;
  the owners are read off the state of \<open>Pi_Bash\<close>.
\<close>

section \<open>The destructor\<close>

datatype popen_call = Cancel_descriptor | Kill_process int | Close_pipe

text \<open>
  What the destructor of \<open>popen_t\<close> does: it cancels the read, kills a process whose number is known and
  waits for it. \<open>opened\<close> says whether the pipe is there, which it is once the constructor returned.
\<close>

definition popen_destroy :: "bool \<Rightarrow> popen \<Rightarrow> popen_call list" where
  "popen_destroy opened p =
     (if \<not> opened then []
      else Cancel_descriptor # (if p_pid p = 0 then [] else [Kill_process (p_pid p)]) @ [Close_pipe])"

text \<open>A process that has closed its pipe is waited for and not killed.\<close>

lemma popen_destroy_ended:
  "popen_destroy True (fst (popen_handle_read p None)) = [Cancel_descriptor, Close_pipe]"
  by (simp add: popen_destroy_def popen_handle_read_def)

section \<open>Owners\<close>

datatype command_owner = By_loop | By_map | By_wait | By_callbacks

datatype popen_owner = By_local | By_command

text \<open>
  A command is held by the loop while it executes it, by the map, by the handler of its timer while that
  waits, and by the two callbacks that its reader keeps (\<open>m_info_arrived\<close>, \<open>m_error_occured\<close>).
\<close>

definition command_owners :: "bash_sys \<Rightarrow> nat \<Rightarrow> command_owner list" where
  "command_owners s a =
     (let b = sys_bash s in
      (if sys_loop s = At_attach a then [By_loop] else [])
      @ (if a \<in> b_command_map b then [By_map] else [])
      @ (if a \<notin> sys_fired s \<and> c_timer (bash_command b a) \<noteq> Some Cancelled then [By_wait] else [])
      @ (if a \<in> dom (b_popens b) then [By_callbacks] else []))"

text \<open>A reader is held by the local variable of \<open>execute_command\<close> and by its command.\<close>

definition popen_owners :: "bash_sys \<Rightarrow> nat \<Rightarrow> popen_owner list" where
  "popen_owners s a =
     (if sys_loop s = At_attach a then [By_local] else [])
     @ (if c_popen (bash_command (sys_bash s) a) then [By_command] else [])"

text \<open>The readers whose destructor has not run, and whose pipe is open therefore.\<close>

definition open_pipes :: "bash_sys \<Rightarrow> nat set" where
  "open_pipes s = {a \<in> dom (b_popens (sys_bash s)). popen_owners s a \<noteq> []}"

section \<open>What keeps a command attached\<close>

definition keeps_life :: "bash \<Rightarrow> bash \<Rightarrow> bool" where
  "keeps_life b b' \<longleftrightarrow> dom (b_popens b') = dom (b_popens b) \<and> b_next b' = b_next b \<and>
     b_command_map b' \<subseteq> b_command_map b \<and>
     (\<forall>a c. b_heap b a = Some c \<longrightarrow> (\<exists>c'. b_heap b' a = Some c' \<and> c_popen c' = c_popen c \<and>
        (c_timer c = Some Cancelled \<longrightarrow> c_timer c' = Some Cancelled) \<and> (c_timer c \<noteq> None \<longrightarrow> c_timer c' \<noteq> None)))"

lemma keeps_life_refl [simp]: "keeps_life b b"
  by (simp add: keeps_life_def)

lemma keeps_life_trans: "keeps_life b c \<Longrightarrow> keeps_life c d \<Longrightarrow> keeps_life b d"
  unfolding keeps_life_def by (metis subset_trans)

lemma keeps_life_set:
  assumes "b_heap b a = Some c" "c_popen c' = c_popen c"
    "c_timer c = Some Cancelled \<longrightarrow> c_timer c' = Some Cancelled" "c_timer c \<noteq> None \<longrightarrow> c_timer c' \<noteq> None"
  shows "keeps_life b (bash_set_command a c' b)"
  using assms by (auto simp: keeps_life_def bash_set_command_def)

lemma keeps_life_event:
  assumes "b_heap b a = Some c"
  shows "keeps_life b (bash_event a e b)"
proof -
  have cancel: "keeps_life b (bash_cancel_timeout a b)"
    unfolding bash_cancel_timeout_def
    by (rule keeps_life_set [OF assms]) (auto simp: bash_command_def assms command_cancel_timeout_def split: option.split)
  have add: "keeps_life b (bash_clot_info a info b)" for info
    unfolding bash_clot_info_def
    by (rule keeps_life_set [OF assms]) (simp_all add: bash_command_def assms add_infos_def)
  have erase: "keeps_life d (bash_erase a d)" "keeps_life d (push_statuses d ss)" for d ss
    by (auto simp: keeps_life_def bash_erase_def push_statuses_def)
  have "keeps_life b (bash_erase a (bash_cancel_timeout a b))"
    "keeps_life b (bash_erase a (push_statuses (bash_cancel_timeout a b) ss))" for ss
    by (meson cancel erase keeps_life_trans)+
  then show ?thesis
    using add erase(2)
    by (auto simp: bash_event_def bash_stream_info_def bash_stream_error_def bash_clot_error_def Let_def
        split: popen_event.split)
qed

lemma keeps_life_heap: "keeps_life b b' \<Longrightarrow> b_heap b a = Some c \<Longrightarrow> \<exists>c'. b_heap b' a = Some c'"
  unfolding keeps_life_def by blast

lemma keeps_life_read:
  assumes "b_heap b a = Some c"
  shows "keeps_life b (bash_read a x b)"
proof -
  have "keeps_life d (fold (bash_event a) es d)" if "b_heap d a = Some c" for es d c
    using that
  proof (induction es arbitrary: d c)
    case Nil
    then show ?case by simp
  next
    case (Cons e es)
    note one = keeps_life_event [OF Cons.prems, of e]
    obtain c' where "b_heap (bash_event a e d) a = Some c'" using keeps_life_heap [OF one Cons.prems] by blast
    from Cons.IH [OF this] keeps_life_trans [OF one] show ?case by simp
  qed
  then have "keeps_life (bash_set_popen a p b) (fold (bash_event a) es (bash_set_popen a p b))" for p es
    using assms by simp
  moreover have "keeps_life b (bash_set_popen a p b)" if "b_popens b a \<noteq> None" for p
    using that by (auto simp: keeps_life_def bash_set_popen_def)
  ultimately have "keeps_life b (fold (bash_event a) es (bash_set_popen a p b))" if "b_popens b a \<noteq> None" for p es
    using that keeps_life_trans by blast
  then show ?thesis by (auto simp: bash_read_def split: option.split prod.split)
qed

text \<open>The end of the process cancels the timer and erases the command.\<close>

lemma read_end_life:
  assumes "b_heap b a = Some c" "b_popens b a = Some p" "c_timer c \<noteq> None"
  shows "a \<notin> b_command_map (bash_read a None b)"
    "c_timer (bash_command (bash_read a None b) a) = Some Cancelled"
  using assms
  by (auto simp: bash_read_def popen_handle_read_def bash_event_def bash_stream_error_def bash_clot_error_def
      bash_cancel_timeout_def bash_erase_def bash_command_def command_cancel_timeout_def Let_def
      push_statuses_def split: option.splits)

section \<open>Nothing is ever destroyed\<close>

definition life_ok :: "bash_sys \<Rightarrow> bool" where
  "life_ok s \<longleftrightarrow>
     (let b = sys_bash s in
      dom (b_popens b) = {..<b_next b} \<and>
      (\<forall>a < b_next b. \<exists>c. b_heap b a = Some c \<and> c_timer c \<noteq> None \<and> (c_popen c \<or> sys_loop s = At_attach a) \<and>
         (a \<in> sys_ended s \<longrightarrow> a \<notin> b_command_map b \<and> c_timer c = Some Cancelled)) \<and>
      (\<forall>a. sys_loop s = At_attach a \<longrightarrow> a < b_next b) \<and> sys_ended s \<subseteq> {..<b_next b})"

lemma life_ok_new: "life_ok sys_new"
  by (simp add: life_ok_def sys_new_def bash_start_def bash_new_def Let_def)

lemma life_ok_keeps:
  assumes "life_ok s" "keeps_life (sys_bash s) b'"
    "\<And>a. sys_loop s = At_attach a \<Longrightarrow> l = At_attach a" "\<And>a. l = At_attach a \<Longrightarrow> sys_loop s = At_attach a"
  shows "life_ok (s\<lparr>sys_bash := b', sys_loop := l, sys_stop := st, sys_fired := f\<rparr>)"
  unfolding life_ok_def Let_def
proof (intro conjI allI impI, goal_cases)
  case 1
  then show ?case using assms(1,2) by (simp add: life_ok_def keeps_life_def Let_def)
next
  case (2 a)
  then have "a < b_next (sys_bash s)" using assms(2) by (simp add: keeps_life_def)
  then obtain c where c: "b_heap (sys_bash s) a = Some c" "c_timer c \<noteq> None" "c_popen c \<or> sys_loop s = At_attach a"
    "a \<in> sys_ended s \<longrightarrow> a \<notin> b_command_map (sys_bash s) \<and> c_timer c = Some Cancelled"
    using assms(1) unfolding life_ok_def Let_def by blast
  then obtain c' where "b_heap b' a = Some c'" "c_popen c' = c_popen c"
    "c_timer c = Some Cancelled \<longrightarrow> c_timer c' = Some Cancelled" "c_timer c' \<noteq> None"
    using assms(2) unfolding keeps_life_def by blast
  then show ?case using c assms(2,3) by (auto simp: keeps_life_def)
next
  case (3 a)
  then show ?case using assms(1,2,4) by (auto simp: life_ok_def keeps_life_def Let_def)
next
  case 4
  then show ?case using assms(1,2) by (simp add: life_ok_def keeps_life_def Let_def)
qed

lemma life_ok_step:
  assumes "life_ok s" "bash_step s s'"
  shows "life_ok s'"
proof -
  have heap: "\<exists>c. b_heap (sys_bash s) a = Some c \<and> c_timer c \<noteq> None" if "a \<in> dom (b_popens (sys_bash s))" for a
    using assms(1) that unfolding life_ok_def Let_def by blast
  show ?thesis
    using assms(2)
  proof cases
    case (pop_some q c q')
    then show ?thesis using assms(1) by (auto simp: life_ok_def Let_def)
  next
    case (execute c a b)
    then have a: "a = b_next (sys_bash s)" "b_next b = Suc a" "dom (b_popens b) = insert a (dom (b_popens (sys_bash s)))"
      "b_heap b = (b_heap (sys_bash s))(a \<mapsto> c\<lparr>c_timer := Some (Armed (c_timeout c))\<rparr>)"
      "b_command_map b = insert a (b_command_map (sys_bash s))"
      by (auto simp: bash_execute_begin_def popen_create_def bash_insert_def bash_set_popen_def
          bash_set_command_def Let_def)
    have "a \<notin> sys_ended s" using assms(1) a(1) by (auto simp: life_ok_def Let_def)
    then show ?thesis
      using assms(1) a execute by (auto simp: life_ok_def Let_def less_Suc_eq)
  next
    case (attach a)
    then have "a < b_next (sys_bash s)" using assms(1) by (simp add: life_ok_def Let_def)
    then obtain c where "b_heap (sys_bash s) a = Some c" "c_timer c \<noteq> None"
      using assms(1) unfolding life_ok_def Let_def by blast
    then show ?thesis
      using assms(1) attach
      by (auto simp: life_ok_def Let_def bash_execute_end_def bash_command_def bash_set_command_def)
  next
    case (issue i body t q wake)
    then show ?thesis using assms(1) by (auto simp: life_ok_def Let_def notify_def)
  next
    case stop_store
    then show ?thesis using assms(1) by (auto simp: life_ok_def Let_def bash_stop_def)
  next
    case stop_notify
    then show ?thesis using assms(1) by (auto simp: life_ok_def Let_def notify_def)
  next
    case (read_chunk a chunk)
    from heap [OF read_chunk(2)] obtain c where "b_heap (sys_bash s) a = Some c" by blast
    from life_ok_keeps [OF assms(1) keeps_life_read [OF this, of "Some chunk"], where l = "sys_loop s" and st = "sys_stop s" and f = "sys_fired s"]
    show ?thesis using read_chunk(1) by simp
  next
    case (read_end a)
    from heap [OF read_end(2)] obtain c where c: "b_heap (sys_bash s) a = Some c" "c_timer c \<noteq> None" by blast
    let ?b = "bash_read a None (sys_bash s)"
    from read_end(2) obtain p where p: "b_popens (sys_bash s) a = Some p" by blast
    from life_ok_keeps [OF assms(1) keeps_life_read [OF c(1), of None], where l = "sys_loop s" and st = "sys_stop s" and f = "sys_fired s"]
    have ok: "life_ok (s\<lparr>sys_bash := bash_read a None (sys_bash s)\<rparr>)" by simp
    moreover have "a < b_next (bash_read a None (sys_bash s))"
      using read_end(2) ok by (simp add: life_ok_def Let_def keeps_life_read [OF c(1), unfolded keeps_life_def])
    moreover have "\<exists>d. b_heap ?b x = Some d \<and> c_timer d \<noteq> None \<and> (c_popen d \<or> sys_loop s = At_attach x) \<and>
        (x \<in> insert a (sys_ended s) \<longrightarrow> x \<notin> b_command_map ?b \<and> c_timer d = Some Cancelled)"
      if "x < b_next ?b" for x
    proof -
      from ok that obtain d where "b_heap ?b x = Some d" "c_timer d \<noteq> None" "c_popen d \<or> sys_loop s = At_attach x"
        "x \<in> sys_ended s \<longrightarrow> x \<notin> b_command_map ?b \<and> c_timer d = Some Cancelled"
        unfolding life_ok_def Let_def by auto
      then show ?thesis
        using read_end_life [OF c(1) p c(2)] by (intro exI [of _ d]) (auto simp: bash_command_def)
    qed
    ultimately show ?thesis unfolding read_end(1) by (simp add: life_ok_def Let_def)
  next
    case (timer_fires a c)
    have "keeps_life (sys_bash s) (bash_timeout False a (sys_bash s))"
      by (auto simp: keeps_life_def bash_timeout_def bash_erase_def push_statuses_def Let_def)
    from life_ok_keeps [OF assms(1) this, where l = "sys_loop s" and st = "sys_stop s"] show ?thesis
      using timer_fires(1) by simp
  qed (use assms(1) in \<open>auto simp: life_ok_def Let_def\<close>)
qed

lemma life_ok_reachable: "sys_reachable s \<Longrightarrow> life_ok s"
  by (induction rule: rtranclp_induct) (auto intro: life_ok_new life_ok_step)

text \<open>
  C8: no child process is ever given back: in every interleaving each reader that was constructed still
  has an owner, so that its destructor never runs and its pipe stays open, one for every command
  executed since the start; once its process has ended and the command is reported and erased,
  the command is held by the callbacks of its reader and the reader by its command, and by nothing else.
\<close>

theorem pipes_stay_open:
  assumes "sys_reachable s"
  shows "open_pipes s = {..<b_next (sys_bash s)} \<and>
    (\<forall>a \<in> sys_ended s. sys_loop s \<noteq> At_attach a \<longrightarrow>
       command_owners s a = [By_callbacks] \<and> popen_owners s a = [By_command])"
proof -
  note ok = life_ok_reachable [OF assms, unfolded life_ok_def Let_def]
  have "popen_owners s a \<noteq> []" if "a < b_next (sys_bash s)" for a
    using ok that by (auto simp: popen_owners_def bash_command_def)
  then have "open_pipes s = {..<b_next (sys_bash s)}"
    using ok by (auto simp: open_pipes_def)
  moreover have "command_owners s a = [By_callbacks] \<and> popen_owners s a = [By_command]"
    if "a \<in> sys_ended s" "sys_loop s \<noteq> At_attach a" for a
  proof -
    have "a < b_next (sys_bash s)" using ok that(1) by blast
    then show ?thesis
      using ok that by (auto simp: command_owners_def popen_owners_def bash_command_def Let_def)
  qed
  ultimately show ?thesis by blast
qed

lemma pipes_stay_open_witness:
  "\<exists>s. sys_reachable s \<and> open_pipes s = {0} \<and> command_owners s 0 = [By_callbacks]"
proof -
  have start: "sys_loop sys_new = At_check" "b_go (sys_bash sys_new)" "b_next (sys_bash sys_new) = 0"
    "sys_ended sys_new = {}"
    by (simp_all add: sys_new_def bash_start_def bash_new_def Let_def)
  let ?s1 = "sys_new\<lparr>sys_loop := At_pop\<rparr>"
  obtain c cs where cs: "m_holder (b_command_queue (sys_bash ?s1)) = c # cs"
    by (simp add: sys_new_def bash_start_def bash_new_def Let_def)
  let ?q = "(b_command_queue (sys_bash ?s1))\<lparr>m_holder := cs\<rparr>"
  have c: "cq_pop False (b_command_queue (sys_bash ?s1)) (b_command_queue (sys_bash ?s1)) = (Some c, ?q)"
    using cs by simp
  let ?s2 = "?s1\<lparr>sys_bash := (sys_bash ?s1)\<lparr>b_command_queue := ?q\<rparr>, sys_loop := At_execute c\<rparr>"
  obtain b where b: "bash_execute_begin True c (sys_bash ?s2) = Inr (0, b)" "b_next b = 1" "0 \<in> dom (b_popens b)"
    using start(3)
    by (simp add: bash_execute_begin_def popen_create_def Let_def bash_insert_def bash_set_command_def
        bash_set_popen_def)
  let ?s3 = "?s2\<lparr>sys_bash := b, sys_loop := At_attach 0\<rparr>"
  let ?s4 = "?s3\<lparr>sys_bash := bash_execute_end 0 (sys_bash ?s3), sys_loop := At_check\<rparr>"
  let ?s5 = "?s4\<lparr>sys_bash := bash_read 0 None (sys_bash ?s4), sys_ended := insert 0 (sys_ended ?s4)\<rparr>"
  have "bash_step sys_new ?s1" using start by (intro check_go)
  moreover have "bash_step ?s1 ?s2" by (rule pop_some [OF _ c]) simp
  moreover have "bash_step ?s2 ?s3" using b(1) by (intro execute) simp_all
  moreover have "bash_step ?s3 ?s4" by (intro attach) simp
  ultimately have s4: "sys_reachable ?s4" by (rule four_steps)
  moreover have "bash_step ?s4 ?s5"
    by (rule read_end) (use b(3) start(4) in \<open>simp_all add: bash_execute_end_def\<close>)
  ultimately have s5: "sys_reachable ?s5" by (rule rtranclp.rtrancl_into_rtrancl)
  from life_ok_reachable [OF s4] have "b_heap (sys_bash ?s4) 0 \<noteq> None"
    using b(2) by (auto simp: life_ok_def Let_def bash_execute_end_def bash_set_command_def)
  then obtain d where "b_heap (sys_bash ?s4) 0 = Some d" by blast
  from keeps_life_read [OF this, of None] have "b_next (sys_bash ?s5) = 1"
    using b(2) by (simp add: keeps_life_def bash_execute_end_def bash_set_command_def)
  then show ?thesis
    using pipes_stay_open [OF s5] s5 by (intro exI [of _ ?s5]) (auto simp: lessThan_Suc)
qed

end
