(* ===== verification/Pi_Dispatch.thy ===== *)
theory Pi_Dispatch
  imports Pi_Handle
begin

text \<open>
  The thread of the dispatcher (\<open>handle_t::start\<close> in \<open>src/src/pi/handle.cpp\<close>), cut at its atomic
  regions: the shell and the link push into its two queues under the mutex that they share, and
  \<open>stop\<close> stores the flag and notifies without it. Waiting releases the mutex and falls asleep in
  one step; a wait ends when it is notified, or spuriously.
\<close>

datatype dispatch_pc = D_check | D_status | D_message | D_lock | D_asleep | D_done

datatype dispatch_stop = D_running | D_stored | D_stopped

record 're dispatch =
  dp_handle :: "'re handle"
  dp_loop :: dispatch_pc
  dp_stop :: dispatch_stop

definition dispatch_new :: "'re handle \<Rightarrow> 're dispatch" where
  "dispatch_new h = \<lparr>dp_handle = h, dp_loop = D_check, dp_stop = D_running\<rparr>"

definition dispatch_notify :: "dispatch_pc \<Rightarrow> dispatch_pc" where
  "dispatch_notify l = (if l = D_asleep then D_check else l)"

definition dispatch_status ::
  "('re \<Rightarrow> string \<Rightarrow> string \<Rightarrow> string option) \<Rightarrow> 're handle \<Rightarrow> cpp_exn + 're handle" where
  "dispatch_status rep h =
     (case cq_pop False (h_status_queue h) mq_new of
        (None, q) \<Rightarrow> Inr (h\<lparr>h_status_queue := q\<rparr>)
      | (Some st, q) \<Rightarrow> handle_status rep st (h\<lparr>h_status_queue := q\<rparr>))"

definition dispatch_message :: "'re handle \<Rightarrow> cpp_exn + 're handle" where
  "dispatch_message h =
     (case cq_pop False (h_from_mcu_queue h) mq_new of
        (None, q) \<Rightarrow> Inr (h\<lparr>h_from_mcu_queue := q\<rparr>)
      | (Some msg, q) \<Rightarrow> handle_mcu msg (h\<lparr>h_from_mcu_queue := q\<rparr>))"

definition dispatch_idle :: "'re handle \<Rightarrow> bool" where
  "dispatch_idle h \<longleftrightarrow> cq_empty False (h_status_queue h) \<and> cq_empty False (h_from_mcu_queue h)"

inductive dispatch_step ::
  "('re \<Rightarrow> string \<Rightarrow> string \<Rightarrow> string option) \<Rightarrow> 're dispatch \<Rightarrow> 're dispatch \<Rightarrow> bool" for rep where
  check: "dp_loop s = D_check \<Longrightarrow>
    dispatch_step rep s (s\<lparr>dp_loop := (if h_go (dp_handle s) then D_status else D_done)\<rparr>)"
| status: "dp_loop s = D_status \<Longrightarrow> dispatch_status rep (dp_handle s) = Inr h \<Longrightarrow>
    dispatch_step rep s (s\<lparr>dp_handle := h, dp_loop := D_message\<rparr>)"
| message: "dp_loop s = D_message \<Longrightarrow> dispatch_message (dp_handle s) = Inr h \<Longrightarrow>
    dispatch_step rep s (s\<lparr>dp_handle := h, dp_loop := D_lock\<rparr>)"
| lock: "dp_loop s = D_lock \<Longrightarrow>
    dispatch_step rep s (s\<lparr>dp_loop := (if dispatch_idle (dp_handle s) then D_asleep else D_check)\<rparr>)"
| spurious: "dp_loop s = D_asleep \<Longrightarrow> dispatch_step rep s (s\<lparr>dp_loop := D_check\<rparr>)"
| push_status: "cq_push (h_status_queue (dp_handle s)) st = (q, wake) \<Longrightarrow>
    dispatch_step rep s (s\<lparr>dp_handle := (dp_handle s)\<lparr>h_status_queue := q\<rparr>,
      dp_loop := (if wake then dispatch_notify (dp_loop s) else dp_loop s)\<rparr>)"
| push_message: "cq_push (h_from_mcu_queue (dp_handle s)) msg = (q, wake) \<Longrightarrow>
    dispatch_step rep s (s\<lparr>dp_handle := (dp_handle s)\<lparr>h_from_mcu_queue := q\<rparr>,
      dp_loop := (if wake then dispatch_notify (dp_loop s) else dp_loop s)\<rparr>)"
| stop_store: "dp_stop s = D_running \<Longrightarrow>
    dispatch_step rep s (s\<lparr>dp_handle := handle_stop (dp_handle s), dp_stop := D_stored\<rparr>)"
| stop_notify: "dp_stop s = D_stored \<Longrightarrow>
    dispatch_step rep s (s\<lparr>dp_loop := dispatch_notify (dp_loop s), dp_stop := D_stopped\<rparr>)"

text \<open>A round is the two pops in sequence.\<close>

lemma handle_round_dispatch:
  "handle_round rep h =
     (case dispatch_status rep h of Inl e \<Rightarrow> Inl e
      | Inr h \<Rightarrow> (case dispatch_message h of Inl e \<Rightarrow> Inl e | Inr h \<Rightarrow> Inr (dispatch_idle h, h)))"
  by (auto simp: handle_round_def dispatch_status_def dispatch_message_def dispatch_idle_def
      split: prod.split option.split sum.split)

section \<open>Nothing waits while the dispatcher sleeps\<close>

definition dispatch_ok :: "'re dispatch \<Rightarrow> bool" where
  "dispatch_ok s \<longleftrightarrow> (dp_loop s = D_asleep \<longrightarrow> dispatch_idle (dp_handle s))"

lemma dispatch_step_ok: "dispatch_step rep s t \<Longrightarrow> dispatch_ok s \<Longrightarrow> dispatch_ok t"
  by (induction rule: dispatch_step.induct)
    (auto simp: dispatch_ok_def dispatch_idle_def dispatch_notify_def handle_stop_def)

text \<open>
  C11: No status and no message waits for a dispatcher that is asleep, whenever they were pushed: a
  push notifies only a queue that was empty, which is enough, since the dispatcher sleeps only on two
  empty queues and checks them under the mutex of the pushes.
\<close>

theorem dispatcher_sleeps_empty:
  assumes "(dispatch_step rep)\<^sup>*\<^sup>* (dispatch_new h) s" "dp_loop s = D_asleep"
  shows "m_holder (h_status_queue (dp_handle s)) = [] \<and> m_holder (h_from_mcu_queue (dp_handle s)) = []"
proof -
  from assms(1) have "dispatch_ok s"
  proof (induction rule: rtranclp_induct)
    case base
    then show ?case by (simp add: dispatch_ok_def dispatch_new_def)
  next
    case (step t u)
    then show ?case by (intro dispatch_step_ok [OF step.hyps(2)])
  qed
  then show ?thesis using assms(2) by (simp add: dispatch_ok_def dispatch_idle_def)
qed

section \<open>A stop that is not noticed\<close>

lemma dispatch_to_lock:
  assumes "dispatch_idle h" "h_go h"
  shows "(dispatch_step rep)\<^sup>*\<^sup>* (dispatch_new h) ((dispatch_new h)\<lparr>dp_loop := D_lock\<rparr>)"
proof -
  let ?s = "\<lambda>l. (dispatch_new h)\<lparr>dp_loop := l\<rparr>"
  have pops: "dispatch_status rep h = Inr h" "dispatch_message h = Inr h"
    using assms(1) by (simp_all add: dispatch_idle_def dispatch_status_def dispatch_message_def)
  have 1: "dispatch_step rep (dispatch_new h) (?s D_status)"
    using dispatch_step.check [of "dispatch_new h"] assms(2) by (simp add: dispatch_new_def)
  have 2: "dispatch_step rep (?s D_status) (?s D_message)"
    using dispatch_step.status [of "?s D_status"] pops by (simp add: dispatch_new_def)
  have 3: "dispatch_step rep (?s D_message) (?s D_lock)"
    using dispatch_step.message [of "?s D_message"] pops by (simp add: dispatch_new_def)
  from 1 2 3 show ?thesis
    by (intro rtranclp.rtrancl_into_rtrancl [OF rtranclp.rtrancl_into_rtrancl [OF r_into_rtranclp]])
qed

text \<open>
  \<open>stop\<close> between the check of the flag and the wait: the dispatcher falls asleep after the
  notification, with the flag down, so the thread that joins it waits until something else is pushed.
\<close>

theorem dispatcher_stop_lost_wakeup:
  assumes "dispatch_idle h" "h_go h"
  shows "\<exists>s. (dispatch_step rep)\<^sup>*\<^sup>* (dispatch_new h) s
    \<and> dp_stop s = D_stopped \<and> \<not> h_go (dp_handle s) \<and> dp_loop s = D_asleep"
proof -
  let ?a = "(dispatch_new h)\<lparr>dp_loop := D_lock\<rparr>"
  let ?b = "?a\<lparr>dp_handle := handle_stop h, dp_stop := D_stored\<rparr>"
  let ?c = "?b\<lparr>dp_stop := D_stopped\<rparr>"
  let ?d = "?c\<lparr>dp_loop := D_asleep\<rparr>"
  have 1: "dispatch_step rep ?a ?b"
    using dispatch_step.stop_store [of ?a] by (simp add: dispatch_new_def)
  have 2: "dispatch_step rep ?b ?c"
    using dispatch_step.stop_notify [of ?b] by (simp add: dispatch_new_def dispatch_notify_def)
  have 3: "dispatch_step rep ?c ?d"
    using dispatch_step.lock [of ?c] assms(1)
    by (simp add: dispatch_new_def dispatch_idle_def handle_stop_def)
  have "(dispatch_step rep)\<^sup>*\<^sup>* (dispatch_new h) ?d"
    using dispatch_to_lock [OF assms, of rep] 1 2 3 by (meson rtranclp.rtrancl_into_rtrancl)
  then show ?thesis by (intro exI [of _ ?d]) (simp add: dispatch_new_def handle_stop_def)
qed

lemma sample_idle: "dispatch_idle (handle_new 0 sample_content)" "h_go (handle_new 0 sample_content)"
  by (simp_all add: dispatch_idle_def handle_new_def)

lemma dispatcher_sleeps_empty_witness:
  "\<exists>s. dp_loop s = D_asleep \<and> m_holder (h_status_queue (dp_handle s)) = []
     \<and> (dispatch_step (\<lambda>_ _ _. None))\<^sup>*\<^sup>* (dispatch_new (handle_new 0 sample_content)) s"
proof -
  let ?n = "dispatch_new (handle_new 0 sample_content)"
  let ?s = "?n\<lparr>dp_loop := D_asleep\<rparr>"
  have "dispatch_step (\<lambda>_ _ _. None) (?n\<lparr>dp_loop := D_lock\<rparr>) ?s"
    using dispatch_step.lock [of "?n\<lparr>dp_loop := D_lock\<rparr>" "\<lambda>_ _ _. None"] sample_idle
    by (simp add: dispatch_new_def)
  with dispatch_to_lock [OF sample_idle] have
    run: "(dispatch_step (\<lambda>_ _ _. None))\<^sup>*\<^sup>* ?n ?s" by (rule rtranclp.rtrancl_into_rtrancl)
  from dispatcher_sleeps_empty [OF run] run show ?thesis by (intro exI [of _ ?s]) simp
qed

lemma dispatcher_stop_lost_wakeup_witness:
  "\<exists>s. (dispatch_step (\<lambda>_ _ _. None))\<^sup>*\<^sup>* (dispatch_new (handle_new 0 sample_content)) s
    \<and> dp_stop s = D_stopped \<and> dp_loop s = D_asleep"
  using dispatcher_stop_lost_wakeup [OF sample_idle] by blast

end
