(* ===== verification/Pi_Ticker.thy ===== *)
theory Pi_Ticker
  imports Pi_Handle
begin

text \<open>
  The text that runs over the display. The dispatcher (\<open>handle.cpp\<close>) has no clock of its own: it
  pushes the columns of the next text when the controller confirms columns, and the confirmation
  of the last ones must find it ready to push. This theory puts the dispatcher together with the
  link, which keeps one numbered message unconfirmed (\<open>Pi_Mcu_Handle\<close>), and a controller that
  confirms what it is sent, in any interleaving with the statuses of the shell and with what the user does at the
  controller.
\<close>

section \<open>Dispatcher, link and controller\<close>

record 're ticker =
  tk_handle :: "'re handle"
  tk_out :: "mcu_msg option"

text \<open>
  \<open>status_in\<close>: the shell; \<open>status_out\<close> and \<open>message_out\<close>: the two halves of a round of the
  dispatcher; \<open>send\<close>: the link, with nothing unconfirmed; \<open>confirm\<close>: the controller's status;
  \<open>message_in\<close>: any other message of the controller.
\<close>

inductive ticker_step ::
  "('re \<Rightarrow> string \<Rightarrow> string \<Rightarrow> string option) \<Rightarrow> 're ticker \<Rightarrow> 're ticker \<Rightarrow> bool" for rep where
  status_in: "ticker_step rep s (s\<lparr>tk_handle := (tk_handle s)\<lparr>h_status_queue :=
      fst (cq_push (h_status_queue (tk_handle s)) st)\<rparr>\<rparr>)"
| status_out: "cq_pop False (h_status_queue (tk_handle s)) mq_new = (Some st, q) \<Longrightarrow>
    handle_status rep st ((tk_handle s)\<lparr>h_status_queue := q\<rparr>) = Inr h \<Longrightarrow>
    ticker_step rep s (s\<lparr>tk_handle := h\<rparr>)"
| message_in: "decode_get_msg_id msg \<noteq> Some MSG_ID_STATUS \<Longrightarrow>
    ticker_step rep s (s\<lparr>tk_handle := (tk_handle s)\<lparr>h_from_mcu_queue :=
      fst (cq_push (h_from_mcu_queue (tk_handle s)) msg)\<rparr>\<rparr>)"
| message_out: "cq_pop False (h_from_mcu_queue (tk_handle s)) mq_new = (Some msg, q) \<Longrightarrow>
    handle_mcu msg ((tk_handle s)\<lparr>h_from_mcu_queue := q\<rparr>) = Inr h \<Longrightarrow>
    ticker_step rep s (s\<lparr>tk_handle := h\<rparr>)"
| send: "tk_out s = None \<Longrightarrow>
    cq_pop False (h_to_mcu_queue (tk_handle s)) mq_new = (Some msg, q) \<Longrightarrow>
    ticker_step rep s (s\<lparr>tk_handle := (tk_handle s)\<lparr>h_to_mcu_queue := q\<rparr>,
      tk_out := (if decode_get_serial msg = Some SERIAL_ID_TO_IGNORE then None else Some msg)\<rparr>)"
| confirm: "tk_out s = Some msg \<Longrightarrow> decode_get_serial msg = Some serial \<Longrightarrow>
    decode_get_msg_id msg = Some msg_id \<Longrightarrow>
    ticker_step rep s (s\<lparr>tk_handle := (tk_handle s)\<lparr>h_from_mcu_queue :=
        fst (cq_push (h_from_mcu_queue (tk_handle s)) [serial, MSG_ID_STATUS, status, msg_id])\<rparr>,
      tk_out := None\<rparr>)"

section \<open>Columns on their way\<close>

definition is_led :: "mcu_msg \<Rightarrow> bool" where
  "is_led msg \<longleftrightarrow> decode_get_msg_id msg = Some MSG_ID_LED_ARRAY
     \<and> decode_get_serial msg \<noteq> Some SERIAL_ID_TO_IGNORE"

definition confirms_led :: "mcu_msg \<Rightarrow> bool" where
  "confirms_led msg \<longleftrightarrow> decode_get_msg_id msg = Some MSG_ID_STATUS
     \<and> (\<exists>status. decode_split_payload msg 2 = Some [status, MSG_ID_LED_ARRAY])"

text \<open>Columns wait, or are unconfirmed, or their confirmation has not been handled yet.\<close>

definition ticker_runs :: "'re ticker \<Rightarrow> bool" where
  "ticker_runs s \<longleftrightarrow> (\<exists>m \<in> set (m_holder (h_to_mcu_queue (tk_handle s))). is_led m)
     \<or> (\<exists>m. tk_out s = Some m \<and> is_led m)
     \<or> (\<exists>m \<in> set (m_holder (h_from_mcu_queue (tk_handle s))). confirms_led m)"

text \<open>Not suspended, and fewer than three messages without columns wait.\<close>

definition ticker_calm :: "'re ticker \<Rightarrow> bool" where
  "ticker_calm s \<longleftrightarrow> \<not> h_suspend (tk_handle s) \<and> content_fits (h_content (tk_handle s))
     \<and> length (filter (\<lambda>m. \<not> is_led m) (m_holder (h_to_mcu_queue (tk_handle s)))) < 3"

section \<open>What the handlers do to the queues\<close>

text \<open>The queue to the controller only grows; the queue from it, suspension and the glyphs stay.\<close>

definition handle_grows :: "'re handle \<Rightarrow> mcu_msg list \<Rightarrow> 're handle \<Rightarrow> bool" where
  "handle_grows h ms h' \<longleftrightarrow> m_holder (h_to_mcu_queue h') = m_holder (h_to_mcu_queue h) @ ms
     \<and> h_from_mcu_queue h' = h_from_mcu_queue h \<and> f_data (h_font h') = f_data (h_font h)"

lemma handle_grows_refl [simp]: "handle_grows h [] h"
  by (simp add: handle_grows_def)

lemma handle_grows_trans:
  "handle_grows h xs h' \<Longrightarrow> handle_grows h' ys h'' \<Longrightarrow> handle_grows h (xs @ ys) h''"
  by (simp add: handle_grows_def)

lemma handle_grows_send: "\<exists>m. handle_grows h [m] (handle_send i ps h) \<and> decode_get_msg_id m = Some i
    \<and> decode_get_serial m \<noteq> Some 0"
  by (auto simp: handle_grows_def handle_send_def handle_push_mcu_def case_prod_beta mq_push_def
      encode_join_bytes)

lemma handle_grows_issue [simp]: "handle_grows h ms (handle_issue i body t h') = handle_grows h ms h'"
  by (simp add: handle_grows_def handle_issue_def)

lemma is_led_iff:
  "is_led m = (decode_get_msg_id m = Some MSG_ID_LED_ARRAY \<and> decode_get_serial m \<noteq> Some 0)"
  by (simp add: is_led_def)

text \<open>Only messages without columns are added.\<close>

definition grows_other :: "'re handle \<Rightarrow> 're handle \<Rightarrow> bool" where
  "grows_other h h' \<longleftrightarrow> (\<exists>ms. handle_grows h ms h' \<and> list_all (\<lambda>m. \<not> is_led m) ms)"

lemma grows_other_refl [simp]: "grows_other h h"
  by (auto simp: grows_other_def intro: exI [of _ "[]"])

lemma grows_other_same: "handle_grows h [] h' \<Longrightarrow> grows_other h h'"
  by (auto simp: grows_other_def intro: exI [of _ "[]"])

lemma grows_other_trans: "grows_other h h' \<Longrightarrow> grows_other h' h'' \<Longrightarrow> grows_other h h''"
  unfolding grows_other_def by (metis handle_grows_trans list_all_append)

lemma grows_other_send:
  assumes "i \<noteq> MSG_ID_LED_ARRAY"
  shows "grows_other h (handle_send i ps h)"
proof -
  obtain m where "handle_grows h [m] (handle_send i ps h)" "decode_get_msg_id m = Some i"
    using handle_grows_send by blast
  then show ?thesis using assms unfolding grows_other_def is_led_iff by (intro exI [of _ "[m]"]) simp
qed

lemma grows_other_content_in: "grows_other h (handle_content_in rep st h)"
  by (cases "s_id st")
    (auto simp: grows_other_def handle_grows_def handle_content_in_def content_in_def
      content_sync_clock_def Let_def case_prod_beta mq_push_def encode_join_bytes is_led_iff
      split: option.split)

lemma push_full_chunks_grows: "\<exists>ms. handle_grows h ms (push_full_chunks m start n h) \<and> list_all is_led ms"
proof (induction n arbitrary: start h)
  case 0
  show ?case by (intro exI [of _ "[]"]) simp
next
  case (Suc n)
  let ?h = "handle_send MSG_ID_LED_ARRAY [Arr (take (unat LED_ARRAY_SIZE) (drop start m))] h"
  obtain msg where "handle_grows h [msg] ?h" "is_led msg"
    using handle_grows_send [of h MSG_ID_LED_ARRAY] unfolding is_led_iff by blast
  moreover obtain ms where "handle_grows ?h ms (push_full_chunks m (start + unat LED_ARRAY_SIZE) n ?h)"
    "list_all is_led ms" using Suc.IH by blast
  ultimately show ?case
    using handle_grows_trans by (intro exI [of _ "msg # ms"]) fastforce
qed

lemma push_matrix_grows:
  "\<exists>ms. handle_grows h ms (push_matrix m h) \<and> list_all is_led ms \<and> (m \<noteq> [] \<longrightarrow> ms \<noteq> [])"
proof -
  let ?full = "length m div 20"
  obtain ms where ms: "handle_grows h ms (push_full_chunks m 0 ?full h)" "list_all is_led ms"
    using push_full_chunks_grows by blast
  obtain msg where msg: "handle_grows (push_full_chunks m 0 ?full h) [msg]
      (handle_send MSG_ID_LED_ARRAY [Arr (take (length m mod 20) (drop (?full * 20) m))]
        (push_full_chunks m 0 ?full h))" "is_led msg"
    using handle_grows_send [of "push_full_chunks m 0 ?full h" MSG_ID_LED_ARRAY]
    unfolding is_led_iff by blast
  have "\<exists>ms. handle_grows h ms (push_matrix m h) \<and> list_all is_led ms"
    using ms msg handle_grows_trans [OF ms(1) msg(1)]
    by (cases "length m mod 20 > 0") (auto simp: push_matrix_def Let_def simp del: msg_id_defs)
  then obtain ms' where ms': "handle_grows h ms' (push_matrix m h)" "list_all is_led ms'" by blast
  have "ms' \<noteq> []" if "m \<noteq> []"
  proof -
    obtain pieces where p: "led_pushed h pieces (push_matrix m h)" "concat pieces = m"
      using push_matrix_pushed by blast
    then have "pieces \<noteq> []" using that by auto
    then show ?thesis using p(1) ms'(1) by (auto simp: led_pushed_def handle_grows_def)
  qed
  with ms' show ?thesis by blast
qed

lemma glyphs_of_last:
  assumes "f_data f = fill_data"
  shows "fst (glyphs_of f (xs @ '' '')) \<noteq> []"
  using assms
proof (induction xs arbitrary: f)
  case Nil
  have "drawable (CHR '' '')" by (simp add: drawable_def)
  from drawable_glyph [OF this] Nil show ?case
    by (auto simp: font_get_basic [OF drawable_basic [OF \<open>drawable (CHR '' '')\<close>]])
next
  case (Cons x xs)
  obtain sym g where g: "font_get f x = (sym, g)" by fastforce
  then have "f_data g = fill_data"
    using Cons.prems by (auto simp: font_get_def Let_def split: if_splits)
  from Cons.IH [OF this] show ?case by (auto simp: g case_prod_beta)
qed

lemma glyphs_of_data: "f_data (snd (glyphs_of f xs)) = f_data f"
  by (induction xs arbitrary: f) (auto simp: case_prod_beta font_get_def Let_def)

lemma info_push_grows:
  assumes "content_fits (h_content h)" "info_push h = Inr h'"
  shows "\<exists>ms. handle_grows h ms h' \<and> list_all is_led ms
    \<and> (\<not> h_suspend h \<longrightarrow> length (m_holder (h_to_mcu_queue h)) < 3 \<longrightarrow> f_data (h_font h) = fill_data
         \<longrightarrow> ms \<noteq> [])"
proof (cases "h_suspend h \<or> length (m_holder (h_to_mcu_queue h)) \<ge> 3")
  case True
  then have "h' = h" using assms(2) by (auto simp: info_push_def QUEUE_SIZE_LIMIT_def)
  then show ?thesis using True by (intro exI [of _ "[]"]) auto
next
  case False
  let ?str = "i_text (fst (content_out (h_content h))) @ '' ''"
  let ?g = "glyphs_of (h_font h) ?str"
  let ?h = "h\<lparr>h_content := snd (content_out (h_content h)), h_font := snd ?g\<rparr>"
  have h': "h' = push_matrix (fst ?g) ?h"
    using info_push_runs [of h] False assms by (simp add: not_le)
  obtain ms where "handle_grows ?h ms (push_matrix (fst ?g) ?h)" "list_all is_led ms"
    "fst ?g \<noteq> [] \<longrightarrow> ms \<noteq> []" using push_matrix_grows by blast
  then show ?thesis
    using glyphs_of_last [of "h_font h" "i_text (fst (content_out (h_content h)))"]
    by (intro exI [of _ ms]) (auto simp: h' handle_grows_def glyphs_of_data)
qed

lemma status_get_grows: "status_get st h = Inr h' \<Longrightarrow> grows_other h h'"
  by (auto simp: status_get_def Let_def split: sum.splits prod.splits if_splits intro: grows_other_send)

lemma status_name_grows: "status_name rep st h = Inr h' \<Longrightarrow> grows_other h h'"
  by (auto simp: status_name_def Let_def split: sum.splits prod.splits if_splits
      intro: grows_other_trans [OF grows_other_content_in grows_other_send])

lemma filter_system_grows: "grows_other h (snd (filter_system i h))"
  by (auto simp: filter_system_def intro: grows_other_same split: option.split prod.split)

lemma handle_status_grows:
  assumes "handle_status rep st h = Inr h'"
  shows "grows_other h h'"
proof -
  define h2 where "h2 = (if s_id st = STREAM_SYSTEM then snd (filter_system (s_out st) h) else h)"
  have "h' = h \<or> h' = h2 \<or> status_get st h2 = Inr h' \<or> status_name rep st h2 = Inr h'
      \<or> h' = handle_content_in rep st h2"
    using assms by (auto simp: handle_status_def h2_def Let_def split: if_splits)
  then have "h' = h \<or> grows_other h2 h'"
    using status_get_grows status_name_grows grows_other_content_in grows_other_refl by metis
  moreover have "grows_other h h2" by (simp add: h2_def filter_system_grows)
  ultimately show ?thesis using grows_other_trans grows_other_refl by blast
qed

text \<open>A message that changes nothing but commands, the playlist and suspension.\<close>

lemma handle_quiet_simps [simp]:
  "handle_grows h ms (mcu_param_set msg h) = handle_grows h ms h"
  "handle_grows h ms (mcu_poweroff msg h) = handle_grows h ms h"
  "handle_grows h ms (mcu_query_name msg h) = handle_grows h ms h"
  "handle_grows h ms (mcu_query_number msg h) = handle_grows h ms h"
  "handle_grows h ms (mcu_reboot h) = handle_grows h ms h"
  "handle_grows h ms (mcu_suspend h) = handle_grows h ms h"
  by (auto simp: mcu_param_set_def mcu_poweroff_def mcu_query_name_def mcu_query_number_def
      mcu_reboot_def mcu_suspend_def handle_grows_def handle_issue_def Let_def
      split: option.splits list.splits)

text \<open>A confirmation of columns, a resume and a version push; nothing else does.\<close>

lemma handle_mcu_cases:
  assumes "handle_mcu msg h = Inr h'"
  shows "handle_grows h [] h' \<and> \<not> confirms_led msg
    \<or> confirms_led msg \<and> info_push h = Inr h'
    \<or> decode_get_msg_id msg = Some MSG_ID_RESUME \<and> info_push (h\<lparr>h_suspend := False\<rparr>) = Inr h'
    \<or> decode_get_msg_id msg = Some MSG_ID_VERSION
        \<and> info_push (handle_push_mcu (encode_join SERIAL_ID_TO_IGNORE MSG_ID_HANDSHAKE []) h) = Inr h'
    \<or> decode_get_msg_id msg = Some MSG_ID_VERSION \<and> h' = h"
proof (cases "decode_get_msg_id msg \<in> {Some MSG_ID_STATUS, Some MSG_ID_RESUME, Some MSG_ID_VERSION}")
  case False
  then have "handle_grows h [] h' \<and> \<not> confirms_led msg"
    using assms by (auto simp: handle_mcu_def confirms_led_def simp del: msg_id_defs
        split: option.splits if_splits)
  then show ?thesis by blast
next
  case True
  then show ?thesis
    using assms
    by (auto simp: handle_mcu_def mcu_status_def mcu_resume_def mcu_version_def confirms_led_def
        split: option.splits if_splits list.splits)
qed

section \<open>The ticker goes on\<close>

lemma info_push_led:
  assumes "content_fits (h_content h)" "info_push h = Inr h'"
  shows "\<exists>ms. handle_grows h ms h' \<and> list_all is_led ms"
  using info_push_grows [OF assms] by blast

text \<open>After a message that does not confirm columns, whatever it pushes.\<close>

lemma runs_after:
  assumes "ticker_runs s" "m_holder (h_from_mcu_queue (tk_handle s)) = msg # rest"
    and "\<not> confirms_led msg" "handle_grows h1 ms h"
    and "m_holder (h_to_mcu_queue h1) = m_holder (h_to_mcu_queue (tk_handle s)) @ ks"
    and "m_holder (h_from_mcu_queue h1) = rest"
  shows "ticker_runs (s\<lparr>tk_handle := h\<rparr>)"
  using assms by (auto simp: ticker_runs_def handle_grows_def)

lemma message_out_runs:
  assumes msg: "m_holder (h_from_mcu_queue (tk_handle s)) = msg # rest"
    and "handle_mcu msg ((tk_handle s)\<lparr>h_from_mcu_queue := q\<rparr>) = Inr h" "m_holder q = rest"
    and "ticker_runs s" "ticker_calm s" "f_data (h_font (tk_handle s)) = fill_data"
  shows "ticker_runs (s\<lparr>tk_handle := h\<rparr>) \<and> f_data (h_font h) = fill_data"
proof -
  let ?h = "(tk_handle s)\<lparr>h_from_mcu_queue := q\<rparr>"
  let ?v = "handle_push_mcu (encode_join SERIAL_ID_TO_IGNORE MSG_ID_HANDSHAKE []) ?h"
  have fits: "content_fits (h_content ?h)" "content_fits (h_content (?h\<lparr>h_suspend := False\<rparr>))"
    "content_fits (h_content ?v)"
    using assms(5) by (simp_all add: ticker_calm_def handle_push_mcu_def)
  have data: "f_data (h_font ?h) = fill_data" using assms(6) by simp
  note after = runs_after [OF assms(4) msg]
  consider (quiet) "handle_grows ?h [] h" "\<not> confirms_led msg"
    | (confirm) "confirms_led msg" "info_push ?h = Inr h"
    | (resume) "decode_get_msg_id msg = Some MSG_ID_RESUME" "info_push (?h\<lparr>h_suspend := False\<rparr>) = Inr h"
    | (version) "decode_get_msg_id msg = Some MSG_ID_VERSION" "info_push ?v = Inr h"
    | (same) "decode_get_msg_id msg = Some MSG_ID_VERSION" "h = ?h"
    using handle_mcu_cases [OF assms(2)] by blast
  then show ?thesis
  proof cases
    case quiet
    then show ?thesis using after [OF _ quiet(1), of "[]"] assms(3) data
      by (simp add: handle_grows_def)
  next
    case confirm
    obtain ms where ms: "handle_grows ?h ms h" "list_all is_led ms"
      "length (m_holder (h_to_mcu_queue ?h)) < 3 \<longrightarrow> ms \<noteq> []"
      using info_push_grows [OF fits(1) confirm(2)] assms(5) data by (auto simp: ticker_calm_def)
    have "\<exists>m \<in> set (m_holder (h_to_mcu_queue h)). is_led m"
    proof (cases "length (m_holder (h_to_mcu_queue ?h)) < 3")
      case True
      then show ?thesis using ms by (cases ms) (auto simp: handle_grows_def)
    next
      case False
      then have "filter (\<lambda>m. \<not> is_led m) (m_holder (h_to_mcu_queue (tk_handle s)))
          \<noteq> m_holder (h_to_mcu_queue (tk_handle s))"
        using assms(5) by (auto simp: ticker_calm_def)
      then show ?thesis using ms(1) by (auto simp: filter_id_conv handle_grows_def)
    qed
    then show ?thesis using ms(1) data by (auto simp: ticker_runs_def handle_grows_def)
  next
    case resume
    obtain ms where ms: "handle_grows (?h\<lparr>h_suspend := False\<rparr>) ms h"
      using info_push_led [OF fits(2) resume(2)] by blast
    moreover have "\<not> confirms_led msg" using resume(1) by (simp add: confirms_led_def)
    ultimately show ?thesis using after [OF _ ms, of "[]"] assms(3) data
      by (simp add: handle_grows_def)
  next
    case version
    obtain ms where ms: "handle_grows ?v ms h"
      using info_push_led [OF fits(3) version(2)] by blast
    moreover have "\<not> confirms_led msg" using version(1) by (simp add: confirms_led_def)
    ultimately show ?thesis
      using after [OF _ ms, of "[encode_join SERIAL_ID_TO_IGNORE MSG_ID_HANDSHAKE []]"] assms(3) data
      by (simp add: handle_grows_def handle_push_mcu_def mq_push_def)
  next
    case same
    moreover have "\<not> confirms_led msg" using same(1) by (simp add: confirms_led_def)
    ultimately show ?thesis using after [OF _ handle_grows_refl, of "h" "[]"] assms(3) data by simp
  qed
qed

lemma ticker_step_runs:
  assumes "ticker_step rep s t" "ticker_runs s" "ticker_calm s"
    and "f_data (h_font (tk_handle s)) = fill_data"
  shows "ticker_runs t \<and> f_data (h_font (tk_handle t)) = fill_data"
  using assms(1)
proof cases
  case (status_in st)
  then show ?thesis using assms(2,4) by (simp add: ticker_runs_def)
next
  case (status_out st q h)
  then have "grows_other ((tk_handle s)\<lparr>h_status_queue := q\<rparr>) h" by (intro handle_status_grows)
  then show ?thesis
    using assms(2,4) status_out(1) by (auto simp: ticker_runs_def grows_other_def handle_grows_def)
next
  case (message_in msg)
  then show ?thesis using assms(2,4) by (auto simp: ticker_runs_def)
next
  case (message_out msg q h)
  then have "m_holder (h_from_mcu_queue (tk_handle s)) = msg # m_holder q"
    by (cases "m_holder (h_from_mcu_queue (tk_handle s))") auto
  from message_out_runs [OF this message_out(3) refl assms(2-4)] show ?thesis
    using message_out(1) by simp
next
  case (send msg q)
  then have "m_holder (h_to_mcu_queue (tk_handle s)) = msg # m_holder q"
    by (cases "m_holder (h_to_mcu_queue (tk_handle s))") auto
  then show ?thesis using assms(2,4) send(1,2) by (auto simp: ticker_runs_def is_led_def)
next
  case (confirm msg serial msg_id status)
  then have "confirms_led [serial, MSG_ID_STATUS, status, msg_id]" if "is_led msg"
    using that by (simp add: is_led_def confirms_led_def)
  then show ?thesis using assms(2,4) confirm(1,2) by (auto simp: ticker_runs_def simp del: msg_id_defs)
qed

text \<open>
  C4: The display does not run dry: while the daemon is not suspended and fewer than three messages
  without columns wait for the controller, some columns wait, are unconfirmed, or their
  confirmation is on its way to the dispatcher, in every interleaving of the dispatcher with the
  shell, the link, the user and a controller that confirms.
\<close>

theorem ticker_goes_on:
  assumes "(\<lambda>s t. ticker_calm s \<and> ticker_step rep s t)\<^sup>*\<^sup>* s t"
    and "ticker_runs s" "f_data (h_font (tk_handle s)) = fill_data"
  shows "ticker_runs t"
proof -
  have "ticker_runs t \<and> f_data (h_font (tk_handle t)) = fill_data"
    using assms
  proof (induction rule: rtranclp_induct)
    case base
    then show ?case by simp
  next
    case (step t u)
    then show ?case using ticker_step_runs by blast
  qed
  then show ?thesis by blast
qed

definition sample_ticker :: "unit ticker" where
  "sample_ticker = \<lparr>tk_handle = handle_new 0 sample_content, tk_out = Some [9, MSG_ID_LED_ARRAY, 1]\<rparr>"

lemma content_fits_sample: "content_fits sample_content"
  by (simp add: content_fits_def content_out_def sample_content_def content_keys_def
      command_id_list_def content_begin_def info_new_def npos_def SIZE_BITS_def)

lemma ticker_goes_on_witness:
  "\<exists>t. (\<lambda>s t. ticker_calm s \<and> ticker_step (\<lambda>_ _ _. None) s t)\<^sup>*\<^sup>* sample_ticker t
    \<and> tk_out t = None \<and> m_holder (h_from_mcu_queue (tk_handle t)) = [] \<and> ticker_runs t"
proof -
  let ?R = "\<lambda>s t. ticker_calm s \<and> ticker_step (\<lambda>_ _ _. None) s t"
  let ?m = "[9, MSG_ID_STATUS, STATUS_SUCCESS, MSG_ID_LED_ARRAY]"
  let ?h0 = "handle_new 0 sample_content"
  let ?s1 = "sample_ticker\<lparr>tk_handle := ?h0\<lparr>h_from_mcu_queue := fst (cq_push (h_from_mcu_queue ?h0) ?m)\<rparr>,
    tk_out := None\<rparr>"
  let ?h1 = "?h0\<lparr>h_from_mcu_queue := mq_new\<rparr>"
  have calm: "ticker_calm sample_ticker" "ticker_calm ?s1"
    using content_fits_sample by (simp_all add: ticker_calm_def sample_ticker_def handle_new_def)
  have 1: "ticker_step (\<lambda>_ _ _. None) sample_ticker ?s1"
    using ticker_step.confirm [of sample_ticker "[9, MSG_ID_LED_ARRAY, 1]" 9 MSG_ID_LED_ARRAY "\<lambda>_ _ _. None"
        STATUS_SUCCESS] by (simp add: sample_ticker_def del: msg_id_defs)
  obtain h where h: "info_push ?h1 = Inr h"
    using info_push_total [of ?h1] content_fits_sample by (auto simp: handle_new_def)
  then have "handle_mcu ?m ?h1 = Inr h" by (simp add: handle_mcu_def mcu_status_def)
  then have 2: "ticker_step (\<lambda>_ _ _. None) ?s1 (?s1\<lparr>tk_handle := h\<rparr>)"
    by (intro ticker_step.message_out [where msg = ?m and q = mq_new])
      (simp_all add: handle_new_def mq_push_def mq_new_def cq_pop_def mq_pop_def)
  have run: "?R\<^sup>*\<^sup>* sample_ticker (?s1\<lparr>tk_handle := h\<rparr>)"
    using 1 2 calm by (intro rtranclp.rtrancl_into_rtrancl [OF r_into_rtranclp]) simp_all
  have start: "ticker_runs sample_ticker" "f_data (h_font (tk_handle sample_ticker)) = fill_data"
    by (simp_all add: ticker_runs_def sample_ticker_def is_led_def handle_new_def font_new_def)
  have "h_from_mcu_queue h = mq_new"
    using info_push_led [OF _ h] content_fits_sample by (auto simp: handle_new_def handle_grows_def)
  then show ?thesis
    using ticker_goes_on [OF run start] run by (intro exI [of _ "?s1\<lparr>tk_handle := h\<rparr>"]) simp
qed

section \<open>The ticker stops\<close>

definition ticker_stopped :: "'re ticker \<Rightarrow> bool" where
  "ticker_stopped s \<longleftrightarrow> \<not> ticker_runs s
     \<and> (\<forall>m. tk_out s = Some m \<longrightarrow> decode_get_serial m \<noteq> Some SERIAL_ID_TO_IGNORE)"

definition no_start :: "'re ticker \<Rightarrow> bool" where
  "no_start s \<longleftrightarrow> (\<forall>m \<in> set (m_holder (h_from_mcu_queue (tk_handle s))).
     decode_get_msg_id m \<notin> {Some MSG_ID_RESUME, Some MSG_ID_VERSION})"

lemma ticker_step_stopped:
  assumes "ticker_step rep s t" "ticker_stopped s" "no_start s"
  shows "ticker_stopped t"
  using assms(1)
proof cases
  case (status_in st)
  then show ?thesis using assms(2) by (simp add: ticker_stopped_def ticker_runs_def)
next
  case (status_out st q h)
  then have "grows_other ((tk_handle s)\<lparr>h_status_queue := q\<rparr>) h" by (intro handle_status_grows)
  then show ?thesis
    using assms(2) status_out(1)
    by (auto simp: ticker_stopped_def ticker_runs_def grows_other_def handle_grows_def list_all_iff)
next
  case (message_in msg)
  then show ?thesis
    using assms(2) by (auto simp: ticker_stopped_def ticker_runs_def confirms_led_def)
next
  case (message_out msg q h)
  then have from_q: "m_holder (h_from_mcu_queue (tk_handle s)) = msg # m_holder q"
    by (cases "m_holder (h_from_mcu_queue (tk_handle s))") auto
  then have "\<not> confirms_led msg" "decode_get_msg_id msg \<noteq> Some MSG_ID_RESUME"
    "decode_get_msg_id msg \<noteq> Some MSG_ID_VERSION"
    using assms(2,3) by (auto simp: ticker_stopped_def ticker_runs_def no_start_def)
  then have "handle_grows ((tk_handle s)\<lparr>h_from_mcu_queue := q\<rparr>) [] h"
    using handle_mcu_cases [OF message_out(3)] by blast
  then show ?thesis
    using assms(2) message_out(1) from_q
    by (auto simp: ticker_stopped_def ticker_runs_def handle_grows_def)
next
  case (send msg q)
  then have "m_holder (h_to_mcu_queue (tk_handle s)) = msg # m_holder q"
    by (cases "m_holder (h_to_mcu_queue (tk_handle s))") auto
  then show ?thesis
    using assms(2) send(1) by (auto simp: ticker_stopped_def ticker_runs_def)
next
  case (confirm msg serial msg_id status)
  then have "\<not> confirms_led [serial, MSG_ID_STATUS, status, msg_id]"
    using assms(2)
    by (auto simp: ticker_stopped_def ticker_runs_def is_led_def confirms_led_def simp del: msg_id_defs)
  then show ?thesis
    using assms(2) confirm(1)
    by (auto simp: ticker_stopped_def ticker_runs_def simp del: msg_id_defs)
qed

text \<open>
  C10: The display can run dry: when three other messages wait while the confirmation of the last
  columns is handled, nothing is pushed, and nothing that the shell, the link or the controller
  do pushes columns again until the user resumes or the controller starts anew.
\<close>

theorem ticker_stops:
  assumes "tk_out s = None" "m_holder (h_from_mcu_queue (tk_handle s)) = [msg]" "confirms_led msg"
    and "3 \<le> length (m_holder (h_to_mcu_queue (tk_handle s)))"
    and "list_all (\<lambda>m. \<not> is_led m) (m_holder (h_to_mcu_queue (tk_handle s)))"
    and "handle_mcu msg ((tk_handle s)\<lparr>h_from_mcu_queue := mq_new\<rparr>) = Inr h"
    and "(\<lambda>s t. no_start s \<and> ticker_step rep s t)\<^sup>*\<^sup>* (s\<lparr>tk_handle := h\<rparr>) t"
  shows "\<not> ticker_runs t"
proof -
  let ?h = "(tk_handle s)\<lparr>h_from_mcu_queue := mq_new\<rparr>"
  have "handle_mcu msg ?h = Inr ?h"
    using assms(3,4)
    by (auto simp: confirms_led_def handle_mcu_def mcu_status_def info_push_def QUEUE_SIZE_LIMIT_def)
  then have "h = ?h" using assms(6) by simp
  then have "ticker_stopped (s\<lparr>tk_handle := h\<rparr>)"
    using assms(1,5) by (auto simp: ticker_stopped_def ticker_runs_def list_all_iff)
  with assms(7) have "ticker_stopped t"
  proof (induction rule: rtranclp_induct)
    case base
    then show ?case by simp
  next
    case (step t u)
    then show ?case using ticker_step_stopped by blast
  qed
  then show ?thesis by (simp add: ticker_stopped_def)
qed

lemma ticker_stops_witness:
  "\<exists>h q. handle_mcu [9, MSG_ID_STATUS, STATUS_SUCCESS, MSG_ID_LED_ARRAY]
        ((handle_new 0 sample_content)\<lparr>h_to_mcu_queue := \<lparr>m_holder = [[1, MSG_ID_SYNC_CLOCK, 9, 0],
            [2, MSG_ID_SYNC_CLOCK, 9, 1], [3, MSG_ID_SYNC_CLOCK, 9, 2]]\<rparr>\<rparr>) = Inr h
     \<and> \<not> ticker_runs \<lparr>tk_handle = h\<lparr>h_to_mcu_queue := q\<rparr>, tk_out = Some [1, MSG_ID_SYNC_CLOCK, 9, 0]\<rparr>"
proof -
  let ?msgs = "[[1, MSG_ID_SYNC_CLOCK, 9, 0], [2, MSG_ID_SYNC_CLOCK, 9, 1], [3, MSG_ID_SYNC_CLOCK, 9, 2]]"
  let ?q = "\<lparr>m_holder = tl ?msgs\<rparr>"
  let ?m = "[9, MSG_ID_STATUS, STATUS_SUCCESS, MSG_ID_LED_ARRAY]"
  let ?h = "(handle_new 0 sample_content)\<lparr>h_to_mcu_queue := \<lparr>m_holder = ?msgs\<rparr>\<rparr>"
  let ?s = "\<lparr>tk_handle = ?h\<lparr>h_from_mcu_queue := \<lparr>m_holder = [?m]\<rparr>\<rparr>, tk_out = None\<rparr>"
  let ?t = "\<lparr>tk_handle = ?h\<lparr>h_to_mcu_queue := ?q\<rparr>, tk_out = Some (hd ?msgs)\<rparr>"
  have h: "handle_mcu ?m ?h = Inr ?h"
    by (simp add: handle_mcu_def mcu_status_def info_push_def QUEUE_SIZE_LIMIT_def)
  have same: "(tk_handle ?s)\<lparr>h_from_mcu_queue := mq_new\<rparr> = ?h" by (simp add: handle_new_def)
  have start: "?s\<lparr>tk_handle := ?h\<rparr> = \<lparr>tk_handle = ?h, tk_out = None\<rparr>" by simp
  have "ticker_step (\<lambda>_ _ _. None) \<lparr>tk_handle = ?h, tk_out = None\<rparr> ?t"
    using ticker_step.send [of "\<lparr>tk_handle = ?h, tk_out = None\<rparr>" "hd ?msgs" ?q "\<lambda>_ _ _. None"] by simp
  moreover have "no_start \<lparr>tk_handle = ?h, tk_out = None\<rparr>" by (simp add: no_start_def handle_new_def)
  ultimately have run: "(\<lambda>s t. no_start s \<and> ticker_step (\<lambda>_ _ _. None) s t)\<^sup>*\<^sup>* (?s\<lparr>tk_handle := ?h\<rparr>) ?t"
    unfolding start by (intro r_into_rtranclp) simp
  have "handle_mcu ?m ((tk_handle ?s)\<lparr>h_from_mcu_queue := mq_new\<rparr>) = Inr ?h"
    unfolding same by (rule h)
  from ticker_stops [OF _ _ _ _ _ this run] have "\<not> ticker_runs ?t"
    by (simp add: confirms_led_def is_led_def)
  then show ?thesis using h by auto
qed

end
