(* ===== verification/Avr_Const.thy ===== *)
theory Avr_Const
  imports Prelude
begin

text \<open>
  The constants of the firmware, as the bytes the C code computes with: its enumerations and
  the object-like macros, header by header. Each group is a bundle of definitions, and all of
  them are unfolded by the simplifier.
\<close>

section \<open>Counters (\<open>src/src/avr/counter.h\<close>)\<close>

definition COUNTER_0 :: u8 where
  "COUNTER_0 = 0"

definition COUNTER_1 :: u8 where
  "COUNTER_1 = 1"

definition COUNTER_2 :: u8 where
  "COUNTER_2 = 2"

definition COUNTER_3 :: u8 where
  "COUNTER_3 = 3"

definition COUNTER_4 :: u8 where
  "COUNTER_4 = 4"

definition COUNTER_5 :: u8 where
  "COUNTER_5 = 5"

lemmas counter_defs [simp] =
  COUNTER_0_def COUNTER_1_def COUNTER_2_def COUNTER_3_def COUNTER_4_def COUNTER_5_def

section \<open>Prescalers (\<open>src/src/avr/counter.h\<close>)\<close>

definition COUNTER_PRESCALER_1 :: u8 where
  "COUNTER_PRESCALER_1 = 1"

definition COUNTER_PRESCALER_8 :: u8 where
  "COUNTER_PRESCALER_8 = 2"

definition COUNTER_PRESCALER_256 :: u8 where
  "COUNTER_PRESCALER_256 = 4"

definition COUNTER_PRESCALER_1024 :: u8 where
  "COUNTER_PRESCALER_1024 = 5"

lemmas prescaler_defs [simp] =
  COUNTER_PRESCALER_1_def COUNTER_PRESCALER_8_def COUNTER_PRESCALER_256_def
  COUNTER_PRESCALER_1024_def

section \<open>Counter value registers (\<open>src/src/avr/counter.h\<close>)\<close>

definition COUNTER_OUTPUT_COMPARE_A :: u8 where
  "COUNTER_OUTPUT_COMPARE_A = 0"

definition COUNTER_OUTPUT_COMPARE_B :: u8 where
  "COUNTER_OUTPUT_COMPARE_B = 1"

definition COUNTER_VALUE :: u8 where
  "COUNTER_VALUE = 2"

lemmas compare_defs [simp] =
  COUNTER_OUTPUT_COMPARE_A_def COUNTER_OUTPUT_COMPARE_B_def COUNTER_VALUE_def

section \<open>Control flags of the counters (\<open>src/src/avr/counter.c\<close>)\<close>

definition FLAG_8_ENABLE_CTC_COMPARE_A :: u8 where
  "FLAG_8_ENABLE_CTC_COMPARE_A = 2"

definition FLAG_16_ENABLE_CTC_COMPARE_A :: u8 where
  "FLAG_16_ENABLE_CTC_COMPARE_A = 8"

definition FLAG_8_ENABLE_PWM_A :: u8 where
  "FLAG_8_ENABLE_PWM_A = 35"

definition FLAG_8_ENABLE_PWM_A_INVERT :: u8 where
  "FLAG_8_ENABLE_PWM_A_INVERT = 16"

definition FLAG_8_ENABLE_PWM_B :: u8 where
  "FLAG_8_ENABLE_PWM_B = 8"

definition FLAG_16_ENABLE_PWM_A :: u8 where
  "FLAG_16_ENABLE_PWM_A = 35"

definition FLAG_16_ENABLE_PWM_A_INVERT :: u8 where
  "FLAG_16_ENABLE_PWM_A_INVERT = 16"

definition FLAG_16_ENABLE_PWM_B :: u8 where
  "FLAG_16_ENABLE_PWM_B = 24"

definition FLAG_INTERRUPT_COMPARE_A :: u8 where
  "FLAG_INTERRUPT_COMPARE_A = 2"

lemmas counter_flag_defs [simp] =
  FLAG_8_ENABLE_CTC_COMPARE_A_def FLAG_16_ENABLE_CTC_COMPARE_A_def FLAG_8_ENABLE_PWM_A_def
  FLAG_8_ENABLE_PWM_A_INVERT_def FLAG_8_ENABLE_PWM_B_def FLAG_16_ENABLE_PWM_A_def
  FLAG_16_ENABLE_PWM_A_INVERT_def FLAG_16_ENABLE_PWM_B_def FLAG_INTERRUPT_COMPARE_A_def

section \<open>Control registers (\<open>src/src/avr/counter.c\<close>)\<close>

definition CONTROL_REGISTER_A :: u8 where
  "CONTROL_REGISTER_A = 0"

definition CONTROL_REGISTER_B :: u8 where
  "CONTROL_REGISTER_B = 1"

definition CONTROL_REGISTER_INTERRUPT :: u8 where
  "CONTROL_REGISTER_INTERRUPT = 2"

lemmas control_defs [simp] =
  CONTROL_REGISTER_A_def CONTROL_REGISTER_B_def CONTROL_REGISTER_INTERRUPT_def

section \<open>Cron ids (\<open>src/src/avr/cron.h\<close>)\<close>

definition CRON_ID_AT :: u8 where
  "CRON_ID_AT = 0"

definition CRON_ID_FAN :: u8 where
  "CRON_ID_FAN = 1"

definition CRON_ID_FLUSH :: u8 where
  "CRON_ID_FLUSH = 2"

definition CRON_ID_HEARTBEAT :: u8 where
  "CRON_ID_HEARTBEAT = 3"

definition CRON_ID_MAX :: u8 where
  "CRON_ID_MAX = 4"

lemmas cron_defs [simp] =
  CRON_ID_AT_def CRON_ID_FAN_def CRON_ID_FLUSH_def CRON_ID_HEARTBEAT_def CRON_ID_MAX_def

section \<open>Cron timer (\<open>src/src/avr/cron.c\<close>)\<close>

definition FACTOR_LOW :: u8 where
  "FACTOR_LOW = 77"

definition FACTOR_HIGH :: u8 where
  "FACTOR_HIGH = 0"

lemmas cron_factor_defs [simp] =
  FACTOR_LOW_def FACTOR_HIGH_def

section \<open>At ids (\<open>src/src/avr/at.h\<close>)\<close>

definition AT_BOOT :: u8 where
  "AT_BOOT = 0"

definition AT_MENU :: u8 where
  "AT_MENU = 1"

definition AT_MENU_TAG :: u8 where
  "AT_MENU_TAG = 2"

definition AT_SPI :: u8 where
  "AT_SPI = 3"

definition AT_MAX :: u8 where
  "AT_MAX = 4"

lemmas at_defs [simp] =
  AT_BOOT_def AT_MENU_def AT_MENU_TAG_def AT_SPI_def AT_MAX_def

section \<open>At delay (\<open>src/src/avr/at.c\<close>)\<close>

definition AT_DELAY :: u8 where
  "AT_DELAY = 200"

lemmas at_delay_defs [simp] =
  AT_DELAY_def

section \<open>Heartbeat (\<open>src/src/avr/heartbeat.c\<close>)\<close>

definition PROVOKE_LIMIT :: u8 where
  "PROVOKE_LIMIT = 1"

lemmas heartbeat_defs [simp] =
  PROVOKE_LIMIT_def

section \<open>Postponed message (\<open>src/src/avr/postpone.c\<close>)\<close>

definition POSTPONE_BUF_SIZE :: u8 where
  "POSTPONE_BUF_SIZE = 20"

definition ENOUGH_SPACE :: u8 where
  "ENOUGH_SPACE = 26"

lemmas postpone_defs [simp] =
  POSTPONE_BUF_SIZE_def ENOUGH_SPACE_def

section \<open>Encoder (\<open>src/src/avr/encode.c\<close>)\<close>

definition OUT_SIZE :: u8 where
  "OUT_SIZE = 15"

lemmas encode_defs [simp] =
  OUT_SIZE_def

section \<open>Decoder (\<open>src/src/avr/decode.c\<close>)\<close>

definition IN_SIZE :: u8 where
  "IN_SIZE = 26"

definition CATCH_DECODED :: u8 where
  "CATCH_DECODED = 1"

definition SIZE_DECODED :: u8 where
  "SIZE_DECODED = 2"

definition SERIAL_DECODED :: u8 where
  "SERIAL_DECODED = 4"

definition MSG_ID_DECODED :: u8 where
  "MSG_ID_DECODED = 8"

lemmas decode_defs [simp] =
  IN_SIZE_def CATCH_DECODED_def SIZE_DECODED_def SERIAL_DECODED_def MSG_ID_DECODED_def

section \<open>Brightness (\<open>src/src/avr/flush.h\<close>)\<close>

definition FLUSH_BRIGHTNESS_MIN :: u8 where
  "FLUSH_BRIGHTNESS_MIN = 0"

definition FLUSH_BRIGHTNESS_MIDDLE :: u8 where
  "FLUSH_BRIGHTNESS_MIDDLE = 7"

definition FLUSH_BRIGHTNESS_MAX :: u8 where
  "FLUSH_BRIGHTNESS_MAX = 15"

lemmas brightness_defs [simp] =
  FLUSH_BRIGHTNESS_MIN_def FLUSH_BRIGHTNESS_MIDDLE_def FLUSH_BRIGHTNESS_MAX_def

section \<open>Display size (\<open>src/src/avr/flush.c\<close>)\<close>

definition MATRIX_SIZE :: u8 where
  "MATRIX_SIZE = 32"

definition MIN_DATA_SIZE :: u8 where
  "MIN_DATA_SIZE = 64"

lemmas flush_defs [simp] =
  MATRIX_SIZE_def MIN_DATA_SIZE_def

section \<open>Display commands (\<open>src/src/avr/display.c\<close>)\<close>

definition CMD_DISABLE :: u8 where
  "CMD_DISABLE = 0"

definition CMD_ENABLE :: u8 where
  "CMD_ENABLE = 1"

definition CMD_NMOS_8COM :: u8 where
  "CMD_NMOS_8COM = 32"

definition CMD_LED_ON :: u8 where
  "CMD_LED_ON = 3"

definition CMD_BRIGHTNESS_MASK :: u8 where
  "CMD_BRIGHTNESS_MASK = 160"

definition PREFIX_CMD :: u8 where
  "PREFIX_CMD = 4"

definition PREFIX_DATA :: u8 where
  "PREFIX_DATA = 5"

lemmas display_defs [simp] =
  CMD_DISABLE_def CMD_ENABLE_def CMD_NMOS_8COM_def CMD_LED_ON_def CMD_BRIGHTNESS_MASK_def
  PREFIX_CMD_def PREFIX_DATA_def

section \<open>Modes (\<open>src/src/avr/mode.h\<close>)\<close>

definition MODE_MENU :: u8 where
  "MODE_MENU = 0"

definition MODE_WATCH :: u8 where
  "MODE_WATCH = 1"

definition MODE_RADIO :: u8 where
  "MODE_RADIO = 2"

lemmas mode_defs [simp] =
  MODE_MENU_def MODE_WATCH_def MODE_RADIO_def

section \<open>Mode delays (\<open>src/src/avr/mode.c\<close>)\<close>

definition SLAVE_DELAY :: u8 where
  "SLAVE_DELAY = 5"

definition HB_DELAY :: u8 where
  "HB_DELAY = 50"

definition HB_MISS :: u8 where
  "HB_MISS = 3"

lemmas mode_delay_defs [simp] =
  SLAVE_DELAY_def HB_DELAY_def HB_MISS_def

section \<open>Leading zeros (\<open>src/src/avr/render.h\<close>)\<close>

definition RENDER_LEADING_DISABLE :: u8 where
  "RENDER_LEADING_DISABLE = 0"

definition RENDER_LEADING_TEN :: u8 where
  "RENDER_LEADING_TEN = 1"

definition RENDER_LEADING_HUNDRED :: u8 where
  "RENDER_LEADING_HUNDRED = 3"

lemmas leading_defs [simp] =
  RENDER_LEADING_DISABLE_def RENDER_LEADING_TEN_def RENDER_LEADING_HUNDRED_def

section \<open>Symbols (\<open>src/src/avr/font.h\<close>)\<close>

definition FONT_0 :: u8 where
  "FONT_0 = 0"

definition FONT_1 :: u8 where
  "FONT_1 = 1"

definition FONT_2 :: u8 where
  "FONT_2 = 2"

definition FONT_3 :: u8 where
  "FONT_3 = 3"

definition FONT_4 :: u8 where
  "FONT_4 = 4"

definition FONT_5 :: u8 where
  "FONT_5 = 5"

definition FONT_6 :: u8 where
  "FONT_6 = 6"

definition FONT_7 :: u8 where
  "FONT_7 = 7"

definition FONT_8 :: u8 where
  "FONT_8 = 8"

definition FONT_9 :: u8 where
  "FONT_9 = 9"

definition FONT_A :: u8 where
  "FONT_A = 10"

definition FONT_B :: u8 where
  "FONT_B = 11"

definition FONT_C :: u8 where
  "FONT_C = 12"

definition FONT_D :: u8 where
  "FONT_D = 13"

definition FONT_E :: u8 where
  "FONT_E = 14"

definition FONT_H :: u8 where
  "FONT_H = 15"

definition FONT_L :: u8 where
  "FONT_L = 16"

definition FONT_M :: u8 where
  "FONT_M = 17"

definition FONT_N :: u8 where
  "FONT_N = 18"

definition FONT_O :: u8 where
  "FONT_O = 19"

definition FONT_P :: u8 where
  "FONT_P = 20"

definition FONT_R :: u8 where
  "FONT_R = 21"

definition FONT_S :: u8 where
  "FONT_S = 22"

definition FONT_T :: u8 where
  "FONT_T = 23"

definition FONT_V :: u8 where
  "FONT_V = 24"

definition FONT_X :: u8 where
  "FONT_X = 25"

definition FONT_Y :: u8 where
  "FONT_Y = 26"

definition FONT_a :: u8 where
  "FONT_a = 27"

definition FONT_b :: u8 where
  "FONT_b = 28"

definition FONT_c :: u8 where
  "FONT_c = 29"

definition FONT_d :: u8 where
  "FONT_d = 30"

definition FONT_e :: u8 where
  "FONT_e = 31"

definition FONT_f :: u8 where
  "FONT_f = 32"

definition FONT_g :: u8 where
  "FONT_g = 33"

definition FONT_h :: u8 where
  "FONT_h = 34"

definition FONT_i :: u8 where
  "FONT_i = 35"

definition FONT_k :: u8 where
  "FONT_k = 36"

definition FONT_l :: u8 where
  "FONT_l = 37"

definition FONT_m :: u8 where
  "FONT_m = 38"

definition FONT_n :: u8 where
  "FONT_n = 39"

definition FONT_o :: u8 where
  "FONT_o = 40"

definition FONT_p :: u8 where
  "FONT_p = 41"

definition FONT_r :: u8 where
  "FONT_r = 42"

definition FONT_s :: u8 where
  "FONT_s = 43"

definition FONT_t :: u8 where
  "FONT_t = 44"

definition FONT_u :: u8 where
  "FONT_u = 45"

definition FONT_v :: u8 where
  "FONT_v = 46"

definition FONT_x :: u8 where
  "FONT_x = 47"

definition FONT_y :: u8 where
  "FONT_y = 48"

definition FONT_AT :: u8 where
  "FONT_AT = 49"

definition FONT_COLON :: u8 where
  "FONT_COLON = 50"

definition FONT_EQUAL :: u8 where
  "FONT_EQUAL = 51"

definition FONT_MINUS :: u8 where
  "FONT_MINUS = 52"

definition FONT_MORE :: u8 where
  "FONT_MORE = 53"

definition FONT_PLUS :: u8 where
  "FONT_PLUS = 54"

definition FONT_SPACE :: u8 where
  "FONT_SPACE = 55"

definition FONT_STAR :: u8 where
  "FONT_STAR = 56"

definition FONT_MAX_SYMBOL :: u8 where
  "FONT_MAX_SYMBOL = 57"

lemmas font_id_defs [simp] =
  FONT_0_def FONT_1_def FONT_2_def FONT_3_def FONT_4_def FONT_5_def FONT_6_def FONT_7_def
  FONT_8_def FONT_9_def FONT_A_def FONT_B_def FONT_C_def FONT_D_def FONT_E_def FONT_H_def
  FONT_L_def FONT_M_def FONT_N_def FONT_O_def FONT_P_def FONT_R_def FONT_S_def FONT_T_def
  FONT_V_def FONT_X_def FONT_Y_def FONT_a_def FONT_b_def FONT_c_def FONT_d_def FONT_e_def
  FONT_f_def FONT_g_def FONT_h_def FONT_i_def FONT_k_def FONT_l_def FONT_m_def FONT_n_def
  FONT_o_def FONT_p_def FONT_r_def FONT_s_def FONT_t_def FONT_u_def FONT_v_def FONT_x_def
  FONT_y_def FONT_AT_def FONT_COLON_def FONT_EQUAL_def FONT_MINUS_def FONT_MORE_def
  FONT_PLUS_def FONT_SPACE_def FONT_STAR_def FONT_MAX_SYMBOL_def

section \<open>Symbol size (\<open>src/src/avr/font.c\<close>)\<close>

definition SYMBOL_SIZE :: u8 where
  "SYMBOL_SIZE = 5"

lemmas symbol_size_defs [simp] =
  SYMBOL_SIZE_def

section \<open>TWI statuses (\<open>src/src/avr/twi.h\<close>)\<close>

definition TWI_SUCCESS :: u8 where
  "TWI_SUCCESS = 0"

definition TWI_WRITE_START_ERROR :: u8 where
  "TWI_WRITE_START_ERROR = 1"

definition TWI_READ_START_ERROR :: u8 where
  "TWI_READ_START_ERROR = 2"

definition TWI_READ_RESTART_ERROR :: u8 where
  "TWI_READ_RESTART_ERROR = 3"

definition TWI_WRITE_SLAVE_ERROR :: u8 where
  "TWI_WRITE_SLAVE_ERROR = 4"

definition TWI_READ_SLAVE_ERROR :: u8 where
  "TWI_READ_SLAVE_ERROR = 5"

definition TWI_READ_RESTART_SLAVE_ERROR :: u8 where
  "TWI_READ_RESTART_SLAVE_ERROR = 6"

definition TWI_WRITE_REG_ERROR :: u8 where
  "TWI_WRITE_REG_ERROR = 7"

definition TWI_READ_REG_ERROR :: u8 where
  "TWI_READ_REG_ERROR = 8"

definition TWI_WRITE_VALUE_ERROR :: u8 where
  "TWI_WRITE_VALUE_ERROR = 9"

definition TWI_READ_VALUE_ERROR :: u8 where
  "TWI_READ_VALUE_ERROR = 10"

lemmas twi_status_defs [simp] =
  TWI_SUCCESS_def TWI_WRITE_START_ERROR_def TWI_READ_START_ERROR_def TWI_READ_RESTART_ERROR_def
  TWI_WRITE_SLAVE_ERROR_def TWI_READ_SLAVE_ERROR_def TWI_READ_RESTART_SLAVE_ERROR_def
  TWI_WRITE_REG_ERROR_def TWI_READ_REG_ERROR_def TWI_WRITE_VALUE_ERROR_def
  TWI_READ_VALUE_ERROR_def

section \<open>TWI ids (\<open>src/src/avr/twi.h\<close>)\<close>

definition TWI_ID_RTC :: u8 where
  "TWI_ID_RTC = 0"

definition TWI_ID_SIZE :: u8 where
  "TWI_ID_SIZE = 1"

lemmas twi_id_defs [simp] =
  TWI_ID_RTC_def TWI_ID_SIZE_def

section \<open>TWI modes (\<open>src/src/avr/twi.c\<close>)\<close>

definition MODE_WRITE_START :: u8 where
  "MODE_WRITE_START = 0"

definition MODE_WRITE_SLAVE :: u8 where
  "MODE_WRITE_SLAVE = 1"

definition MODE_WRITE_REG :: u8 where
  "MODE_WRITE_REG = 2"

definition MODE_WRITE_VALUE :: u8 where
  "MODE_WRITE_VALUE = 3"

definition MODE_READ_START :: u8 where
  "MODE_READ_START = 4"

definition MODE_READ_SLAVE :: u8 where
  "MODE_READ_SLAVE = 5"

definition MODE_READ_REG :: u8 where
  "MODE_READ_REG = 6"

definition MODE_READ_RESTART :: u8 where
  "MODE_READ_RESTART = 7"

definition MODE_READ_RESTART_SLAVE :: u8 where
  "MODE_READ_RESTART_SLAVE = 8"

definition MODE_READ_VALUE :: u8 where
  "MODE_READ_VALUE = 9"

definition MODE_IDLE :: u8 where
  "MODE_IDLE = 10"

lemmas twi_mode_defs [simp] =
  MODE_WRITE_START_def MODE_WRITE_SLAVE_def MODE_WRITE_REG_def MODE_WRITE_VALUE_def
  MODE_READ_START_def MODE_READ_SLAVE_def MODE_READ_REG_def MODE_READ_RESTART_def
  MODE_READ_RESTART_SLAVE_def MODE_READ_VALUE_def MODE_IDLE_def

section \<open>TWI (\<open>src/src/avr/twi.c\<close>)\<close>

definition MAX_LEN :: u8 where
  "MAX_LEN = 128"

definition OVERHEAD :: u8 where
  "OVERHEAD = 4"

definition ACTION_WRITE :: u8 where
  "ACTION_WRITE = 0"

definition ACTION_READ :: u8 where
  "ACTION_READ = 1"

definition ACTION_IDLE :: u8 where
  "ACTION_IDLE = 2"

definition ACTION_MASK :: u8 where
  "ACTION_MASK = 1"

definition LEN_MASK :: u8 where
  "LEN_MASK = 254"

definition GO_AHEAD :: u8 where
  "GO_AHEAD = 133"

definition FOR_WRITE :: u8 where
  "FOR_WRITE = 0"

definition FOR_READ :: u8 where
  "FOR_READ = 1"

lemmas twi_defs [simp] =
  MAX_LEN_def OVERHEAD_def ACTION_WRITE_def ACTION_READ_def ACTION_IDLE_def ACTION_MASK_def
  LEN_MASK_def GO_AHEAD_def FOR_WRITE_def FOR_READ_def

section \<open>RTC registers (\<open>src/src/avr/watch.c\<close>)\<close>

definition RTC_ADDRESS :: u8 where
  "RTC_ADDRESS = 104"

definition REG_CONTROL :: u8 where
  "REG_CONTROL = 14"

definition REG_STATUS :: u8 where
  "REG_STATUS = 15"

definition REG_SECOND :: u8 where
  "REG_SECOND = 0"

definition REG_VALUE_ENABLE :: u8 where
  "REG_VALUE_ENABLE = 0"

definition REG_VALUE_DISABLE :: u8 where
  "REG_VALUE_DISABLE = 4"

definition REG_VALUE_DISABLE_32KHZ :: u8 where
  "REG_VALUE_DISABLE_32KHZ = 0"

definition REG_MINUTE :: u8 where
  "REG_MINUTE = 1"

definition REG_HOUR :: u8 where
  "REG_HOUR = 2"

definition INITIAL_TIME :: u8 where
  "INITIAL_TIME = 1"

definition IMAGE_INDENT :: u8 where
  "IMAGE_INDENT = 10"

lemmas watch_reg_defs [simp] =
  RTC_ADDRESS_def REG_CONTROL_def REG_STATUS_def REG_SECOND_def REG_VALUE_ENABLE_def
  REG_VALUE_DISABLE_def REG_VALUE_DISABLE_32KHZ_def REG_MINUTE_def REG_HOUR_def
  INITIAL_TIME_def IMAGE_INDENT_def

section \<open>Watch buffer (\<open>src/src/avr/watch.c\<close>)\<close>

definition BUFFER_SECOND :: u8 where
  "BUFFER_SECOND = 0"

definition BUFFER_MINUTE :: u8 where
  "BUFFER_MINUTE = 1"

definition BUFFER_HOUR :: u8 where
  "BUFFER_HOUR = 2"

definition WATCH_BUFFER_SIZE :: u8 where
  "WATCH_BUFFER_SIZE = 3"

lemmas watch_buffer_defs [simp] =
  BUFFER_SECOND_def BUFFER_MINUTE_def BUFFER_HOUR_def WATCH_BUFFER_SIZE_def

section \<open>RTC conversion (\<open>src/src/avr/watch.c\<close>)\<close>

definition RTC_TO :: u8 where
  "RTC_TO = 0"

definition RTC_FROM :: u8 where
  "RTC_FROM = 1"

definition RTC_HOUR :: u8 where
  "RTC_HOUR = 2"

definition RTC_MINUTE :: u8 where
  "RTC_MINUTE = 3"

definition RTC_SECOND :: u8 where
  "RTC_SECOND = 4"

lemmas rtc_defs [simp] =
  RTC_TO_def RTC_FROM_def RTC_HOUR_def RTC_MINUTE_def RTC_SECOND_def

section \<open>Alarm limits (\<open>src/src/avr/watch.h\<close>)\<close>

definition WATCH_HOUR_MAX :: u8 where
  "WATCH_HOUR_MAX = 23"

definition WATCH_MINUTE_MAX :: u8 where
  "WATCH_MINUTE_MAX = 59"

lemmas watch_max_defs [simp] =
  WATCH_HOUR_MAX_def WATCH_MINUTE_MAX_def

section \<open>Rotors and actions (\<open>src/src/avr/rotor.h\<close>)\<close>

definition ROTOR_0 :: u8 where
  "ROTOR_0 = 0"

definition ROTOR_1 :: u8 where
  "ROTOR_1 = 1"

definition ROTOR_2 :: u8 where
  "ROTOR_2 = 2"

definition ROTOR_3 :: u8 where
  "ROTOR_3 = 3"

definition ROTOR_4 :: u8 where
  "ROTOR_4 = 4"

definition ROTOR_CLOCKWISE :: u8 where
  "ROTOR_CLOCKWISE = 5"

definition ROTOR_COUNTER_CLOCKWISE :: u8 where
  "ROTOR_COUNTER_CLOCKWISE = 6"

lemmas rotor_defs [simp] =
  ROTOR_0_def ROTOR_1_def ROTOR_2_def ROTOR_3_def ROTOR_4_def ROTOR_CLOCKWISE_def
  ROTOR_COUNTER_CLOCKWISE_def

section \<open>Rotor sources (\<open>src/src/avr/rotor.c\<close>)\<close>

definition ID_J :: u8 where
  "ID_J = 0"

definition ID_K :: u8 where
  "ID_K = 1"

lemmas rotor_id_defs [simp] =
  ID_J_def ID_K_def

section \<open>Rotor masks (\<open>src/src/avr/rotor.c\<close>)\<close>

definition MASK_K :: u8 where
  "MASK_K = 255"

definition MASK_J :: u8 where
  "MASK_J = 3"

definition MASK_A :: u8 where
  "MASK_A = 1"

definition MASK_B :: u8 where
  "MASK_B = 2"

definition STEP :: u8 where
  "STEP = 2"

lemmas rotor_mask_defs [simp] =
  MASK_K_def MASK_J_def MASK_A_def MASK_B_def STEP_def

section \<open>Menu delays (\<open>src/src/avr/menu.c\<close>)\<close>

definition DELAY_APPLY :: u8 where
  "DELAY_APPLY = 1"

definition DELAY_READ :: u8 where
  "DELAY_READ = 8"

definition DELAY_SELECT :: u8 where
  "DELAY_SELECT = 5"

definition DELAY_TAG :: u8 where
  "DELAY_TAG = 2"

lemmas menu_delay_defs [simp] =
  DELAY_APPLY_def DELAY_READ_def DELAY_SELECT_def DELAY_TAG_def

section \<open>Roles of the rotors (\<open>src/src/avr/menu.c\<close>)\<close>

definition ROTOR_VOLUME :: u8 where
  "ROTOR_VOLUME = 3"

definition ROTOR_TRACK :: u8 where
  "ROTOR_TRACK = 2"

definition ROTOR_PLAYLIST :: u8 where
  "ROTOR_PLAYLIST = 0"

definition ROTOR_PARAM :: u8 where
  "ROTOR_PARAM = 1"

definition ROTOR_APPLY :: u8 where
  "ROTOR_APPLY = 4"

lemmas rotor_role_defs [simp] =
  ROTOR_VOLUME_def ROTOR_TRACK_def ROTOR_PLAYLIST_def ROTOR_PARAM_def ROTOR_APPLY_def

section \<open>Menu flags (\<open>src/src/avr/menu.c\<close>)\<close>

definition FLAG_BRIGNHTNESS :: u8 where
  "FLAG_BRIGNHTNESS = 1"

definition FLAG_BRIGNHTNESS_SENT :: u8 where
  "FLAG_BRIGNHTNESS_SENT = 2"

definition FLAG_PLAYLIST :: u8 where
  "FLAG_PLAYLIST = 4"

definition FLAG_PLAYLIST_SENT :: u8 where
  "FLAG_PLAYLIST_SENT = 8"

definition FLAG_TRACK :: u8 where
  "FLAG_TRACK = 16"

definition FLAG_TRACK_SENT :: u8 where
  "FLAG_TRACK_SENT = 32"

definition FLAG_VOLUME :: u8 where
  "FLAG_VOLUME = 64"

definition FLAG_VOLUME_SENT :: u8 where
  "FLAG_VOLUME_SENT = 128"

definition FLAG_MASK_BRIGNHTNESS :: u8 where
  "FLAG_MASK_BRIGNHTNESS = 3"

definition FLAG_MASK_PLAYLIST :: u8 where
  "FLAG_MASK_PLAYLIST = 12"

definition FLAG_MASK_TRACK :: u8 where
  "FLAG_MASK_TRACK = 48"

definition FLAG_MASK_VOLUME :: u8 where
  "FLAG_MASK_VOLUME = 192"

lemmas menu_flag_defs [simp] =
  FLAG_BRIGNHTNESS_def FLAG_BRIGNHTNESS_SENT_def FLAG_PLAYLIST_def FLAG_PLAYLIST_SENT_def
  FLAG_TRACK_def FLAG_TRACK_SENT_def FLAG_VOLUME_def FLAG_VOLUME_SENT_def
  FLAG_MASK_BRIGNHTNESS_def FLAG_MASK_PLAYLIST_def FLAG_MASK_TRACK_def FLAG_MASK_VOLUME_def

section \<open>Menu parameters (\<open>src/src/avr/menu.c\<close>)\<close>

definition PARAM_TRACK :: u8 where
  "PARAM_TRACK = 0"

definition PARAM_VOLUME :: u8 where
  "PARAM_VOLUME = 1"

definition PARAM_PLAYLIST :: u8 where
  "PARAM_PLAYLIST = 2"

definition PARAM_POWER_OFF :: u8 where
  "PARAM_POWER_OFF = 3"

definition PARAM_POWER_OFF_15 :: u8 where
  "PARAM_POWER_OFF_15 = 4"

definition PARAM_POWER_OFF_30 :: u8 where
  "PARAM_POWER_OFF_30 = 5"

definition PARAM_BRIGHTNESS_MIN :: u8 where
  "PARAM_BRIGHTNESS_MIN = 6"

definition PARAM_BRIGHTNESS_MIDDLE :: u8 where
  "PARAM_BRIGHTNESS_MIDDLE = 7"

definition PARAM_BRIGHTNESS_MAX :: u8 where
  "PARAM_BRIGHTNESS_MAX = 8"

definition PARAM_NEXT :: u8 where
  "PARAM_NEXT = 9"

definition PARAM_PREVIOUS :: u8 where
  "PARAM_PREVIOUS = 10"

definition PARAM_STOP :: u8 where
  "PARAM_STOP = 11"

definition PARAM_PLAY :: u8 where
  "PARAM_PLAY = 12"

definition PARAM_REBOOT :: u8 where
  "PARAM_REBOOT = 13"

definition PARAM_BRIGHTNESS :: u8 where
  "PARAM_BRIGHTNESS = 14"

definition PARAM_POWER_ON :: u8 where
  "PARAM_POWER_ON = 15"

definition PARAM_CANCEL :: u8 where
  "PARAM_CANCEL = 16"

definition PARAM_APPLY :: u8 where
  "PARAM_APPLY = 17"

lemmas param_defs [simp] =
  PARAM_TRACK_def PARAM_VOLUME_def PARAM_PLAYLIST_def PARAM_POWER_OFF_def
  PARAM_POWER_OFF_15_def PARAM_POWER_OFF_30_def PARAM_BRIGHTNESS_MIN_def
  PARAM_BRIGHTNESS_MIDDLE_def PARAM_BRIGHTNESS_MAX_def PARAM_NEXT_def PARAM_PREVIOUS_def
  PARAM_STOP_def PARAM_PLAY_def PARAM_REBOOT_def PARAM_BRIGHTNESS_def PARAM_POWER_ON_def
  PARAM_CANCEL_def PARAM_APPLY_def

section \<open>Menu states (\<open>src/src/avr/menu.c\<close>)\<close>

definition STATE_APPLY :: u8 where
  "STATE_APPLY = 0"

definition STATE_IDLE :: u8 where
  "STATE_IDLE = 1"

definition STATE_PARAM :: u8 where
  "STATE_PARAM = 2"

definition STATE_TAG :: u8 where
  "STATE_TAG = 3"

definition STATE_VALUE :: u8 where
  "STATE_VALUE = 4"

lemmas menu_state_defs [simp] =
  STATE_APPLY_def STATE_IDLE_def STATE_PARAM_def STATE_TAG_def STATE_VALUE_def

section \<open>Menu values (\<open>src/src/avr/menu.c\<close>)\<close>

definition VALUE_BRIGHTNESS :: u8 where
  "VALUE_BRIGHTNESS = 0"

definition VALUE_PLAYLIST :: u8 where
  "VALUE_PLAYLIST = 1"

definition VALUE_TRACK :: u8 where
  "VALUE_TRACK = 2"

definition VALUE_VOLUME :: u8 where
  "VALUE_VOLUME = 3"

definition VALUE_MAX :: u8 where
  "VALUE_MAX = 4"

lemmas value_defs [simp] =
  VALUE_BRIGHTNESS_def VALUE_PLAYLIST_def VALUE_TRACK_def VALUE_VOLUME_def VALUE_MAX_def

end
