(* ===== verification/Avr_Ring.thy ===== *)
theory Avr_Ring
  imports Protocol
begin

text \<open>
  The byte ring of the firmware, \<open>src/src/avr/ring.c\<close>. A ring is an array of \<open>size\<close> bytes
  (\<open>sz\<close> below, at most 255) and two indices; the C functions take the array and pointers to the
  indices, so the definitions take their values and return the new ones. Every function runs
  inside \<open>ATOMIC_BLOCK\<close>, so each definition is one atomic step.

  \<open>ring_abs\<close> reads the bytes held, oldest first, and \<open>ring_ok\<close> is the invariant of the
  indices. The lemmas refine the operations to a bounded FIFO. The ring cannot tell full
  from empty once it has wrapped: \<open>ring_byte_fill_overflow\<close> states what happens to the
  byte that fills the last cell of a ring that does not start at index zero.
\<close>

section \<open>Operations\<close>

text \<open>\<open>ring_init\<close> fills the first \<open>size\<close> bytes with the pattern and resets both indices.\<close>

definition ring_init :: "u8 \<Rightarrow> bytes \<Rightarrow> bytes \<times> u8 \<times> u8" where
  "ring_init sz data =
     (fold (\<lambda>i d. d[i := BUFFER_INIT_PATTERN]) [0..<unat sz] data, 0, 0)"

definition ring_size :: "u8 \<Rightarrow> u8 \<Rightarrow> u8 \<Rightarrow> u8" where
  "ring_size sz start finish =
     (if finish \<ge> start then finish - start else sz - start + finish)"

definition ring_clear :: "u8 \<times> u8" where
  "ring_clear = (0, 0)"

definition ring_space :: "u8 \<Rightarrow> u8 \<Rightarrow> u8 \<Rightarrow> u8" where
  "ring_space sz start finish = sz - ring_size sz start finish"

definition ring_is_fillable :: "u8 \<Rightarrow> u8 \<Rightarrow> u8 \<Rightarrow> u8 \<Rightarrow> u8" where
  "ring_is_fillable sz start finish fill_size =
     (let free = sz - ring_size sz start finish in if fill_size \<le> free then 1 else 0)"

definition ring_is_drainable :: "u8 \<Rightarrow> u8 \<Rightarrow> u8 \<Rightarrow> u8 \<Rightarrow> u8" where
  "ring_is_drainable sz start finish drain_size =
     (if drain_size \<le> ring_size sz start finish then 1 else 0)"

text \<open>Result, new array, new \<open>finish\<close>.\<close>

definition ring_byte_fill :: "u8 \<Rightarrow> bytes \<Rightarrow> u8 \<Rightarrow> u8 \<Rightarrow> u8 \<Rightarrow> u8 \<times> bytes \<times> u8" where
  "ring_byte_fill sz data start finish byte =
     (if ring_is_fillable sz start finish 1 \<noteq> 0 then
        (if finish < sz then (1, data[unat finish := byte], finish + 1)
         else (1, data[0 := byte], 1))
      else (0, data, finish))"

text \<open>
  Result, new \<open>start\<close>, new \<open>finish\<close> and the value of the out parameter, which keeps its old
  value when nothing is drained. The two resets are separate \<open>if\<close> statements in the code.
\<close>

definition ring_byte_drain :: "u8 \<Rightarrow> bytes \<Rightarrow> u8 \<Rightarrow> u8 \<Rightarrow> u8 \<Rightarrow> u8 \<times> u8 \<times> u8 \<times> u8" where
  "ring_byte_drain sz data start finish byte =
     (if ring_is_drainable sz start finish 1 \<noteq> 0 then
        (let byte' = data ! unat start;
             start1 = start + 1;
             (start2, finish2) = (if start1 = finish then (0, 0) else (start1, finish));
             start3 = (if start2 = sz then 0 else start2)
         in (1, start3, finish2, byte'))
      else (0, start, finish, byte))"

definition ring_byte_get :: "u8 \<Rightarrow> bytes \<Rightarrow> u8 \<Rightarrow> u8 \<Rightarrow> u8 \<Rightarrow> u8 \<Rightarrow> u8 \<times> u8" where
  "ring_byte_get sz data start finish index byte =
     (if index \<ge> sz then (0, byte)
      else if ring_is_drainable sz start finish (index + 1) \<noteq> 0 then
        (let long_index = unat start + unat index in
         if long_index < unat sz then (1, data ! (unat start + unat index))
         else (1, data ! unat (of_nat (long_index - unat sz) :: u8)))
      else (0, byte))"

definition ring_fill_step :: "u8 \<Rightarrow> u8 \<Rightarrow> bytes \<Rightarrow> nat \<Rightarrow> bytes \<times> u8 \<Rightarrow> bytes \<times> u8" where
  "ring_fill_step sz start array i df =
     (case ring_byte_fill sz (fst df) start (snd df) (array ! i) of (_, d', f') \<Rightarrow> (d', f'))"

definition ring_array_fill ::
  "u8 \<Rightarrow> bytes \<Rightarrow> u8 \<Rightarrow> u8 \<Rightarrow> bytes \<Rightarrow> u8 \<Rightarrow> u8 \<times> bytes \<times> u8" where
  "ring_array_fill sz data start finish array array_size =
     (if ring_is_fillable sz start finish array_size \<noteq> 0 then
        (let (data', finish') =
           fold (ring_fill_step sz start array) [0..<unat array_size] (data, finish)
         in (1, data', finish'))
      else (0, data, finish))"

definition ring_drain_step ::
  "u8 \<Rightarrow> bytes \<Rightarrow> nat \<Rightarrow> u8 \<times> u8 \<times> bytes \<Rightarrow> u8 \<times> u8 \<times> bytes" where
  "ring_drain_step sz data i sfa =
     (case sfa of (s, f, arr) \<Rightarrow>
        case ring_byte_drain sz data s f 0 of (status, s', f', byte) \<Rightarrow>
          (s', f', if status \<noteq> 0 then arr[i := byte] else arr))"

text \<open>Result, new \<open>start\<close>, new \<open>finish\<close>, new contents of the output array.\<close>

definition ring_array_drain ::
  "u8 \<Rightarrow> bytes \<Rightarrow> u8 \<Rightarrow> u8 \<Rightarrow> bytes \<Rightarrow> u8 \<Rightarrow> u8 \<times> u8 \<times> u8 \<times> bytes" where
  "ring_array_drain sz data start finish array array_size =
     (if ring_is_drainable sz start finish array_size \<noteq> 0 then
        (let (start', finish', array') =
           fold (ring_drain_step sz data) [0..<unat array_size] (start, finish, array)
         in (1, start', finish', array'))
      else (0, start, finish, array))"

section \<open>Abstraction and invariant\<close>

definition ring_abs :: "u8 \<Rightarrow> bytes \<Rightarrow> u8 \<Rightarrow> u8 \<Rightarrow> bytes" where
  "ring_abs sz data start finish =
     (if start \<le> finish then drop (unat start) (take (unat finish) data)
      else drop (unat start) (take (unat sz) data) @ take (unat finish) data)"

definition ring_ok :: "u8 \<Rightarrow> bytes \<Rightarrow> u8 \<Rightarrow> u8 \<Rightarrow> bool" where
  "ring_ok sz data start finish \<longleftrightarrow>
     length data = unat sz \<and> start < sz \<and> finish \<le> sz"

lemmas ring_defs = ring_ok_def ring_abs_def ring_size_def ring_space_def
  ring_is_fillable_def ring_is_drainable_def

lemma unat_ring_size:
  assumes "start < sz" "finish \<le> sz"
  shows "unat (ring_size sz start finish) =
    (if start \<le> finish then unat finish - unat start
     else unat sz - unat start + unat finish)"
proof (cases "start \<le> finish")
  case True
  then show ?thesis by (simp add: ring_size_def unat_u8_minus)
next
  case False
  have "unat (sz - start) = unat sz - unat start"
    using assms(1) by (simp add: unat_u8_minus)
  moreover have "unat sz - unat start + unat finish < 256"
    using assms False unat_u8_less [of sz] unfolding u8_le_iff u8_less_iff by linarith
  ultimately show ?thesis
    using False by (simp add: ring_size_def unat_u8_plus)
qed

lemma ring_abs_length:
  "ring_ok sz data start finish \<Longrightarrow>
     length (ring_abs sz data start finish) = unat (ring_size sz start finish)"
  by (auto simp: ring_ok_def ring_abs_def unat_ring_size u8_nat)

lemma ring_size_le:
  "start < sz \<Longrightarrow> finish \<le> sz \<Longrightarrow> ring_size sz start finish \<le> sz"
  by (auto simp: unat_ring_size u8_le_iff u8_less_iff)

lemma ring_space_abs:
  "ring_ok sz data start finish \<Longrightarrow>
     unat (ring_space sz start finish) = unat sz - length (ring_abs sz data start finish)"
  by (auto simp: ring_space_def ring_abs_length ring_ok_def ring_size_le unat_u8_minus)

lemma ring_is_fillable_abs:
  assumes "ring_ok sz data start finish"
  shows "ring_is_fillable sz start finish n \<noteq> 0 \<longleftrightarrow>
    unat n + length (ring_abs sz data start finish) \<le> unat sz"
proof -
  have "ring_size sz start finish \<le> sz"
    using assms by (simp add: ring_ok_def ring_size_le)
  then show ?thesis
    by (auto simp: ring_is_fillable_def Let_def ring_abs_length [OF assms] u8_le_iff
        unat_u8_minus)
qed

lemma ring_is_drainable_abs:
  "ring_ok sz data start finish \<Longrightarrow>
   ring_is_drainable sz start finish n \<noteq> 0 \<longleftrightarrow> unat n \<le> length (ring_abs sz data start finish)"
  by (auto simp: ring_is_drainable_def ring_abs_length u8_le_iff)

section \<open>Refinement to a bounded FIFO\<close>

text \<open>
  \<open>ring_room\<close> is the condition under which a byte can be added without losing anything: a
  cell is free, and it is not the last free cell of a ring whose start has moved.
\<close>

definition ring_room :: "u8 \<Rightarrow> bytes \<Rightarrow> u8 \<Rightarrow> u8 \<Rightarrow> bool" where
  "ring_room sz data start finish \<longleftrightarrow>
     Suc (length (ring_abs sz data start finish)) < unat sz
     \<or> (start = 0 \<and> length (ring_abs sz data start finish) < unat sz)"

lemma ring_byte_fill_ok:
  assumes "ring_ok sz data start finish"
    and "ring_byte_fill sz data start finish b = (r, data', finish')"
  shows "ring_ok sz data' start finish'"
proof -
  have "start < sz \<Longrightarrow> (1 :: u8) \<le> sz"
    by (auto simp: u8_nat)
  then show ?thesis
    using assms u8_inc_le [of finish sz]
    by (auto simp: ring_byte_fill_def ring_ok_def split: if_splits)
qed

lemma ring_byte_fill_full:
  assumes "ring_ok sz data start finish"
    and "length (ring_abs sz data start finish) = unat sz"
  shows "ring_byte_fill sz data start finish b = (0, data, finish)"
  using assms ring_is_fillable_abs [OF assms(1), of 1] by (simp add: ring_byte_fill_def)

lemma ring_byte_fill_abs:
  assumes ok: "ring_ok sz data start finish" and room: "ring_room sz data start finish"
  obtains data' finish' where
    "ring_byte_fill sz data start finish b = (1, data', finish')"
    "ring_abs sz data' start finish' = ring_abs sz data start finish @ [b]"
proof (cases "finish < sz")
  case True
  have len: "length data = unat sz" and st: "unat start < unat sz"
    using ok by (auto simp: ring_ok_def u8_nat)
  have fin: "unat finish < unat sz" using True by (simp add: u8_less_iff)
  have suc: "unat (finish + 1) = Suc (unat finish)"
    using fin unat_u8_less [of sz] by (intro unat_u8_Suc) linarith
  have "ring_byte_fill sz data start finish b = (1, data[unat finish := b], finish + 1)"
    using ring_is_fillable_abs [OF ok, of 1] room True
    by (auto simp: ring_byte_fill_def ring_room_def)
  moreover have "ring_abs sz (data[unat finish := b]) start (finish + 1)
      = ring_abs sz data start finish @ [b]"
  proof (cases "start \<le> finish")
    case True
    then show ?thesis
      using len fin suc
      by (simp add: ring_abs_def u8_le_iff drop_take_update_end)
  next
    case False
    then have "Suc (unat finish) < unat start"
      using room ring_abs_length [OF ok] ok
      by (auto simp: ring_room_def ring_ok_def unat_ring_size u8_nat)
    then show ?thesis
      using len st suc by (simp add: ring_abs_def u8_le_iff take_Suc_update_at)
  qed
  ultimately show thesis by (rule that)
next
  case False
  then have full: "finish = sz" and len: "length data = unat sz" and st: "unat start < unat sz"
    using ok by (auto simp: ring_ok_def u8_nat u8_eq_iff)
  have "1 < unat start"
    using room ring_abs_length [OF ok] st full
    by (auto simp: ring_room_def unat_ring_size u8_nat)
  then have wrap: "\<not> start \<le> 1" by (simp add: u8_le_iff)
  have "ring_byte_fill sz data start finish b = (1, data[0 := b], 1)"
    using ring_is_fillable_abs [OF ok, of 1] room False
    by (auto simp: ring_byte_fill_def ring_room_def)
  moreover have "ring_abs sz (data[0 := b]) start 1 = ring_abs sz data start finish @ [b]"
    using wrap full len st \<open>1 < unat start\<close>
    by (cases data) (auto simp: ring_abs_def u8_le_iff drop_Cons' take_Cons')
  ultimately show thesis by (rule that)
qed

text \<open>The last free cell of a ring that has moved: the fill succeeds and the ring reads empty.\<close>

lemma ring_byte_fill_overflow:
  assumes ok: "ring_ok sz data start finish" and moved: "start \<noteq> 0"
    and last: "Suc (length (ring_abs sz data start finish)) = unat sz"
  obtains data' finish' where
    "ring_byte_fill sz data start finish b = (1, data', finish')"
    "ring_abs sz data' start finish' = []"
proof -
  have st: "unat start < unat sz" "0 < unat start"
    using ok moved by (auto simp: ring_ok_def u8_nat unat_gt_0)
  have fin: "unat finish \<le> unat sz" using ok by (simp add: ring_ok_def u8_le_iff)
  have cnt: "Suc (if unat start \<le> unat finish then unat finish - unat start
      else unat sz - unat start + unat finish) = unat sz"
    using last ok by (simp add: ring_abs_length ring_ok_def unat_ring_size u8_le_iff)
  have fillable: "ring_is_fillable sz start finish 1 \<noteq> 0"
    using ring_is_fillable_abs [OF ok, of 1] last by simp
  show thesis
  proof (cases "finish < sz")
    case True
    then have "unat (finish + 1) = unat start"
      using cnt st fin by (simp add: unat_u8_inc u8_less_iff split: if_splits)
    then have "finish + 1 = start" by (simp add: u8_eq_iff)
    then show thesis
      using True fillable
      by (intro that [of "data[unat finish := b]" start])
        (simp_all add: ring_byte_fill_def ring_abs_def)
  next
    case False
    then have "unat start = 1" using cnt st fin by (simp add: u8_less_iff)
    then have "start = 1" by (simp add: u8_eq_iff)
    then show thesis
      using False fillable
      by (intro that [of "data[0 := b]" 1]) (simp_all add: ring_byte_fill_def ring_abs_def)
  qed
qed

text \<open>The last free cell: the byte is added, or everything is lost.\<close>

lemma ring_byte_fill_last:
  assumes ok: "ring_ok sz data start finish"
    and last: "Suc (length (ring_abs sz data start finish)) = unat sz"
  shows "\<exists>data' finish'. ring_byte_fill sz data start finish b = (1, data', finish') \<and>
    (ring_abs sz data' start finish' = [] \<or>
     ring_abs sz data' start finish' = ring_abs sz data start finish @ [b])"
proof (cases "start = 0")
  case True
  then have "ring_room sz data start finish" using last by (simp add: ring_room_def)
  from ring_byte_fill_abs [OF ok this, of b] show ?thesis by metis
next
  case False
  from ring_byte_fill_overflow [OF ok False last, of b] show ?thesis by metis
qed

lemma ring_byte_drain_empty:
  assumes "ring_ok sz data start finish" "ring_abs sz data start finish = []"
  shows "ring_byte_drain sz data start finish b = (0, start, finish, b)"
  using assms ring_is_drainable_abs [OF assms(1), of 1] by (simp add: ring_byte_drain_def)

lemma ring_byte_drain_abs:
  assumes ok: "ring_ok sz data start finish" and ne: "ring_abs sz data start finish \<noteq> []"
  obtains start' finish' where
    "ring_byte_drain sz data start finish b
       = (1, start', finish', hd (ring_abs sz data start finish))"
    "ring_ok sz data start' finish'"
    "ring_abs sz data start' finish' = tl (ring_abs sz data start finish)"
proof -
  have len: "length data = unat sz" and st: "unat start < unat sz"
    and fin: "unat finish \<le> unat sz"
    using ok by (auto simp: ring_ok_def u8_nat)
  have suc: "unat (start + 1) = Suc (unat start)"
    using st unat_u8_less [of sz] by (intro unat_u8_Suc) linarith
  have drainable: "ring_is_drainable sz start finish 1 \<noteq> 0"
    using ring_is_drainable_abs [OF ok, of 1] ne by (cases "ring_abs sz data start finish") auto
  have split: "start < finish \<or> finish < start"
    using ne by (auto simp: ring_abs_def u8_nat split: if_splits)
  have head: "hd (ring_abs sz data start finish) = data ! unat start"
    using split len st fin
    by (auto simp: ring_abs_def hd_append hd_drop_conv_nth u8_nat)
  consider (last) "start + 1 = finish" | (wrap) "start + 1 \<noteq> finish" "start + 1 = sz"
    | (plain) "start + 1 \<noteq> finish" "start + 1 \<noteq> sz" by blast
  then show thesis
  proof cases
    case last
    have "sz \<noteq> 0" using st by auto
    moreover have "unat finish = Suc (unat start)" using last suc by simp
    then have "start \<le> finish" "tl (drop (unat start) (take (unat finish) data)) = []"
      using len st by (simp_all add: u8_le_iff tl_drop_Suc)
    ultimately show thesis
      using last drainable head ok
      by (intro that [of 0 0])
        (simp_all add: ring_byte_drain_def ring_ok_def ring_abs_def u8_less_iff word_greater_zero_iff)
  next
    case wrap
    have sz: "unat sz = Suc (unat start)" using wrap suc by simp
    have nz: "0 < sz" using st by (simp add: u8_less_iff)
    have "finish < start"
      using split wrap suc fin sz by (auto simp: u8_less_iff u8_eq_iff)
    then have "\<not> start \<le> finish" "finish \<noteq> 0 \<or> finish = 0" by auto
    moreover have "tl (drop (unat start) (take (unat sz) data)) = []"
      "drop (unat start) (take (unat sz) data) \<noteq> []"
      using len st sz by (simp_all add: tl_drop_Suc)
    ultimately show thesis
      using wrap drainable head ok nz
      by (intro that [of 0 finish])
        (simp_all add: ring_byte_drain_def ring_ok_def ring_abs_def word_greater_zero_iff)
  next
    case plain
    have less: "start + 1 < sz"
      using plain suc st by (auto simp: u8_less_iff u8_eq_iff)
    have "tl (ring_abs sz data start finish) = ring_abs sz data (start + 1) finish"
    proof (cases "start \<le> finish")
      case True
      then have "start + 1 \<le> finish" using split u8_inc_le by auto
      then show ?thesis using True suc by (simp add: ring_abs_def tl_drop_Suc)
    next
      case False
      then have "\<not> start + 1 \<le> finish" using suc by (simp add: u8_le_iff)
      moreover have "drop (unat start) (take (unat sz) data) \<noteq> []" using len st by simp
      ultimately show ?thesis using False suc by (simp add: ring_abs_def tl_drop_Suc)
    qed
    then show thesis
      using plain drainable head ok less
      by (intro that [of "start + 1" finish])
        (simp_all add: ring_byte_drain_def ring_ok_def)
  qed
qed

lemma ring_byte_get_abs:
  assumes ok: "ring_ok sz data start finish"
  shows "ring_byte_get sz data start finish i b =
    (if unat i < length (ring_abs sz data start finish)
     then (1, ring_abs sz data start finish ! unat i) else (0, b))"
proof -
  have len: "length data = unat sz" and st: "unat start < unat sz"
    and fin: "unat finish \<le> unat sz"
    using ok by (auto simp: ring_ok_def u8_nat)
  have cnt: "length (ring_abs sz data start finish) \<le> unat sz"
    using ring_size_le ok by (simp add: ring_abs_length ring_ok_def u8_le_iff)
  show ?thesis
  proof (cases "i \<ge> sz")
    case True
    then show ?thesis using cnt by (simp add: ring_byte_get_def u8_le_iff)
  next
    case False
    then have "i < sz" by simp
    then have suc: "unat (i + 1) = Suc (unat i)" by (rule unat_u8_inc)
    have small: "unat start + unat i - unat sz < 256"
      using st \<open>i < sz\<close> unat_u8_less [of sz] unfolding u8_less_iff by linarith
    show ?thesis
    proof (cases "unat i < length (ring_abs sz data start finish)")
      case True
      then have "ring_is_drainable sz start finish (i + 1) \<noteq> 0"
        using ring_is_drainable_abs [OF ok] suc by simp
      then show ?thesis
        using True False len st fin small
        by (auto simp: ring_byte_get_def ring_abs_def nth_append u8_le_iff Let_def
            add.commute less_diff_conv simp del: of_nat_diff of_nat_add)
    next
      case outside: False
      then have "ring_is_drainable sz start finish (i + 1) = 0"
        using ring_is_drainable_abs [OF ok, of "i + 1"] suc by simp
      then show ?thesis using False outside by (simp add: ring_byte_get_def)
    qed
  qed
qed

section \<open>Array transfers\<close>

text \<open>The indices stay good whatever is written.\<close>

lemma ring_array_fill_ok:
  assumes "ring_ok sz data start finish"
    and "ring_array_fill sz data start finish arr n = (r, data', finish')"
  shows "ring_ok sz data' start finish'"
proof -
  have "ring_ok sz (fst df') start (snd df')"
    if "df' = fold (ring_fill_step sz start arr) is df" "ring_ok sz (fst df) start (snd df)" for "is" df df'
    using that
  proof (induction "is" arbitrary: df df')
    case Nil
    then show ?case by simp
  next
    case (Cons i "is")
    have "ring_ok sz (fst (ring_fill_step sz start arr i df)) start (snd (ring_fill_step sz start arr i df))"
      using ring_byte_fill_ok [OF Cons.prems(2)] by (simp add: ring_fill_step_def split: prod.split)
    with Cons.IH [OF refl this] Cons.prems(1) show ?case by simp
  qed
  from this [OF refl, of "(data, finish)"] assms show ?thesis
    by (auto simp: ring_array_fill_def split: if_splits prod.splits) (metis fst_conv snd_conv)
qed

lemma ring_array_fill_refuse:
  assumes "ring_ok sz data start finish"
    and "unat sz < unat n + length (ring_abs sz data start finish)"
  shows "ring_array_fill sz data start finish arr n = (0, data, finish)"
  using assms ring_is_fillable_abs [OF assms(1), of n] by (simp add: ring_array_fill_def)

lemma ring_fill_loop:
  assumes "ring_ok sz data start finish"
    and "length (ring_abs sz data start finish) + n < unat sz
      \<or> (start = 0 \<and> length (ring_abs sz data start finish) + n \<le> unat sz)"
    and "n \<le> length arr"
  shows "\<exists>data' finish'.
    fold (ring_fill_step sz start arr) [0..<n] (data, finish) = (data', finish')
    \<and> ring_ok sz data' start finish'
    \<and> ring_abs sz data' start finish' = ring_abs sz data start finish @ take n arr"
  using assms
proof (induction n)
  case 0
  then show ?case by simp
next
  case (Suc n)
  then obtain d f where loop:
    "fold (ring_fill_step sz start arr) [0..<n] (data, finish) = (d, f)"
    and ok: "ring_ok sz d start f"
    and abs: "ring_abs sz d start f = ring_abs sz data start finish @ take n arr"
    by auto
  have "ring_room sz d start f" using Suc.prems abs by (auto simp: ring_room_def)
  then obtain d' f' where "ring_byte_fill sz d start f (arr ! n) = (1, d', f')"
    "ring_abs sz d' start f' = ring_abs sz d start f @ [arr ! n]"
    using ring_byte_fill_abs [OF ok] by metis
  moreover from this have "ring_fill_step sz start arr n (d, f) = (d', f')"
    by (simp add: ring_fill_step_def)
  ultimately show ?case
    using loop abs Suc.prems(3) ring_byte_fill_ok [OF ok, of "arr ! n"]
    by (simp add: take_Suc_conv_app_nth)
qed

lemma ring_array_fill_abs:
  assumes ok: "ring_ok sz data start finish"
    and room: "length (ring_abs sz data start finish) + unat n < unat sz
      \<or> (start = 0 \<and> length (ring_abs sz data start finish) + unat n \<le> unat sz)"
    and arr: "unat n \<le> length arr"
  obtains data' finish' where
    "ring_array_fill sz data start finish arr n = (1, data', finish')"
    "ring_ok sz data' start finish'"
    "ring_abs sz data' start finish' = ring_abs sz data start finish @ take (unat n) arr"
proof -
  have "ring_is_fillable sz start finish n \<noteq> 0"
    using room by (auto simp: ring_is_fillable_abs [OF ok])
  then show thesis
    using ring_fill_loop [OF ok room arr] that by (auto simp: ring_array_fill_def)
qed

lemma ring_drain_loop:
  assumes "ring_ok sz data start finish"
    and "n \<le> length (ring_abs sz data start finish)" and "n \<le> length arr"
  shows "\<exists>start' finish'.
    fold (ring_drain_step sz data) [0..<n] (start, finish, arr)
      = (start', finish', take n (ring_abs sz data start finish) @ drop n arr)
    \<and> ring_ok sz data start' finish'
    \<and> ring_abs sz data start' finish' = drop n (ring_abs sz data start finish)"
  using assms
proof (induction n)
  case 0
  then show ?case by simp
next
  case (Suc n)
  then obtain s f where loop:
    "fold (ring_drain_step sz data) [0..<n] (start, finish, arr) = (s, f, take n (ring_abs sz data start finish) @ drop n arr)"
    and ok: "ring_ok sz data s f"
    and abs: "ring_abs sz data s f = drop n (ring_abs sz data start finish)"
    by auto
  have "ring_abs sz data s f \<noteq> []" using abs Suc.prems by simp
  then obtain s' f' where "ring_byte_drain sz data s f 0 = (1, s', f', hd (ring_abs sz data s f))"
    "ring_ok sz data s' f'" "ring_abs sz data s' f' = tl (ring_abs sz data s f)"
    using ring_byte_drain_abs [OF ok] by metis
  moreover have "hd (ring_abs sz data s f) = ring_abs sz data start finish ! n"
    using abs Suc.prems by (simp add: hd_drop_conv_nth)
  moreover have "(take n (ring_abs sz data start finish) @ drop n arr)
      [n := ring_abs sz data start finish ! n]
      = take (Suc n) (ring_abs sz data start finish) @ drop (Suc n) arr"
    using Suc.prems by (simp add: list_update_append take_Suc_conv_app_nth
        Cons_nth_drop_Suc [symmetric])
  ultimately have "ring_drain_step sz data n
      (s, f, take n (ring_abs sz data start finish) @ drop n arr)
      = (s', f', take (Suc n) (ring_abs sz data start finish) @ drop (Suc n) arr)"
    and "ring_abs sz data s' f' = drop (Suc n) (ring_abs sz data start finish)"
    using abs by (simp_all add: tl_drop_Suc ring_drain_step_def)
  then show ?case using loop \<open>ring_ok sz data s' f'\<close> by simp
qed

lemma ring_array_drain_abs:
  assumes ok: "ring_ok sz data start finish"
    and avail: "unat n \<le> length (ring_abs sz data start finish)" and arr: "unat n \<le> length arr"
  obtains start' finish' where
    "ring_array_drain sz data start finish arr n
       = (1, start', finish', take (unat n) (ring_abs sz data start finish) @ drop (unat n) arr)"
    "ring_ok sz data start' finish'"
    "ring_abs sz data start' finish' = drop (unat n) (ring_abs sz data start finish)"
proof -
  have "ring_is_drainable sz start finish n \<noteq> 0"
    using avail by (simp add: ring_is_drainable_abs [OF ok])
  then show thesis
    using ring_drain_loop [OF ok avail arr] that by (auto simp: ring_array_drain_def)
qed

lemma ring_array_drain_refuse:
  assumes "ring_ok sz data start finish"
    and "length (ring_abs sz data start finish) < unat n"
  shows "ring_array_drain sz data start finish arr n = (0, start, finish, arr)"
  using assms ring_is_drainable_abs [OF assms(1), of n] by (simp add: ring_array_drain_def)

lemma ring_init_ok:
  assumes "length data = unat sz" "0 < sz"
  shows "ring_init sz data = (replicate (unat sz) BUFFER_INIT_PATTERN, 0, 0)"
    "ring_ok sz (replicate (unat sz) BUFFER_INIT_PATTERN) 0 0"
    "ring_abs sz (replicate (unat sz) BUFFER_INIT_PATTERN) 0 0 = []"
proof -
  have "n \<le> length data \<Longrightarrow> fold (\<lambda>i d. d[i := BUFFER_INIT_PATTERN]) [0..<n] data
      = replicate n BUFFER_INIT_PATTERN @ drop n data" for n
    by (induction n)
      (auto simp: list_update_append replicate_append_same [symmetric]
        Cons_nth_drop_Suc [symmetric])
  from this [of "unat sz"] assms
  show "ring_init sz data = (replicate (unat sz) BUFFER_INIT_PATTERN, 0, 0)"
    by (simp add: ring_init_def)
qed (use assms in \<open>auto simp: ring_ok_def ring_abs_def\<close>)

end
