(* ===== verification/Avr_Buf.thy ===== *)
theory Avr_Buf
  imports Avr_Ring
begin

text \<open>
  The two queue types the firmware builds on the ring: \<open>buf_t\<close> (64 bytes,
  \<open>src/src/avr/buf.c\<close>) and \<open>buffer_t\<close> (255 bytes, \<open>src/src/avr/buffer.c\<close>). Both offer the
  same operations; the locale \<open>bounded_queue\<close> states what clients of any queue rely on, in terms of
  the list of bytes held, and \<open>byte_queue\<close> extends it to these two and is interpreted on both.
\<close>

section \<open>The interface of a bounded byte queue\<close>

locale bounded_queue =
  fixes cap :: nat
    and size :: "'q \<Rightarrow> u8" and space :: "'q \<Rightarrow> u8"
    and fill :: "'q \<Rightarrow> u8 \<Rightarrow> u8 \<times> 'q"
    and drain :: "'q \<Rightarrow> u8 \<Rightarrow> u8 \<times> 'q \<times> u8"
    and afill :: "'q \<Rightarrow> bytes \<Rightarrow> u8 \<Rightarrow> u8 \<times> 'q"
    and adrain :: "'q \<Rightarrow> bytes \<Rightarrow> u8 \<Rightarrow> u8 \<times> 'q \<times> bytes"
    and held :: "'q \<Rightarrow> bytes" and ok :: "'q \<Rightarrow> bool"
  assumes held_le: "ok q \<Longrightarrow> length (held q) \<le> cap"
    and size_held: "ok q \<Longrightarrow> unat (size q) = length (held q)"
    and space_held: "ok q \<Longrightarrow> unat (space q) = cap - length (held q)"
    and fill_full: "ok q \<Longrightarrow> length (held q) = cap \<Longrightarrow> fill q b = (0, q)"
    and fill_room: "ok q \<Longrightarrow> Suc (length (held q)) < cap \<Longrightarrow>
      \<exists>q'. fill q b = (1, q') \<and> ok q' \<and> held q' = held q @ [b]"
    and drain_empty: "ok q \<Longrightarrow> held q = [] \<Longrightarrow> drain q b = (0, q, b)"
    and drain_held: "ok q \<Longrightarrow> held q \<noteq> [] \<Longrightarrow>
      \<exists>q'. drain q b = (1, q', hd (held q)) \<and> ok q' \<and> held q' = tl (held q)"
    and afill_refuse: "ok q \<Longrightarrow> cap < unat n + length (held q) \<Longrightarrow> afill q arr n = (0, q)"
    and afill_room: "ok q \<Longrightarrow> length (held q) + unat n < cap \<Longrightarrow> unat n \<le> length arr \<Longrightarrow>
      \<exists>q'. afill q arr n = (1, q') \<and> ok q' \<and> held q' = held q @ take (unat n) arr"
    and adrain_refuse: "ok q \<Longrightarrow> length (held q) < unat n \<Longrightarrow> adrain q arr n = (0, q, arr)"
    and adrain_held: "ok q \<Longrightarrow> unat n \<le> length (held q) \<Longrightarrow> unat n \<le> length arr \<Longrightarrow>
      \<exists>q'. adrain q arr n = (1, q', take (unat n) (held q) @ drop (unat n) arr)
        \<and> ok q' \<and> held q' = drop (unat n) (held q)"
begin

lemma drain_cases:
  assumes "ok q"
  obtains (empty) "held q = []" "drain q b = (0, q, b)"
  | (byte) q' x xs where "held q = x # xs" "drain q b = (1, q', x)" "ok q'" "held q' = xs"
  using drain_empty [OF assms, of b] drain_held [OF assms, of b] by (cases "held q") auto

lemma drain_ok: "ok q \<Longrightarrow> drain q b = (r, q', b') \<Longrightarrow> ok q'"
  by (rule drain_cases [of q b]) auto

lemma drain_subset:
  assumes "ok q" "drain q b = (r, q', b')"
  shows "set (held q') \<subseteq> set (held q)" "r \<noteq> 0 \<Longrightarrow> b' \<in> set (held q)"
  by (rule drain_cases [OF assms(1), of b]; use assms(2) in auto)+

lemma size_zero: "ok q \<Longrightarrow> (size q = 0) = (held q = [])"
  using size_held [of q] by (metis length_0_conv unat_eq_zero)

lemma adrain_cases:
  assumes "ok q" "unat n \<le> length arr"
  obtains (refuse) "length (held q) < unat n" "adrain q arr n = (0, q, arr)"
  | (bytes) q' where "unat n \<le> length (held q)"
      "adrain q arr n = (1, q', take (unat n) (held q) @ drop (unat n) arr)"
      "ok q'" "held q' = drop (unat n) (held q)"
  using assms adrain_refuse [of q n arr] adrain_held [of q n arr] by (meson not_le)

text \<open>Bytes written one after the other with the result ignored, as the code often does.\<close>

lemma fill_list:
  assumes "ok q" "length (held q) + length xs < cap"
  shows "ok (fold (\<lambda>b q. snd (fill q b)) xs q)
    \<and> held (fold (\<lambda>b q. snd (fill q b)) xs q) = held q @ xs"
  using assms
proof (induction xs arbitrary: q)
  case Nil
  then show ?case by simp
next
  case (Cons x xs)
  from fill_room [OF Cons.prems(1), of x] Cons.prems(2) obtain q' where
    "fill q x = (1, q')" "ok q'" "held q' = held q @ [x]" by auto
  with Cons.IH [of q'] Cons.prems(2) show ?case by simp
qed

text \<open>What an array fill puts in, an array drain of the same length takes out, in order.\<close>

lemma afill_adrain:
  assumes "ok q" "held q = []" "unat n < cap" "unat n \<le> length arr" "unat n \<le> length out"
  shows "\<exists>q' q''. afill q arr n = (1, q') \<and>
    adrain q' out n = (1, q'', take (unat n) arr @ drop (unat n) out) \<and> held q'' = []"
proof -
  from afill_room [OF assms(1), of n arr] assms obtain q' where
    q': "afill q arr n = (1, q')" "ok q'" "held q' = take (unat n) arr" by auto
  with adrain_held [OF q'(2), of n out] assms show ?thesis by auto
qed

end

text \<open>
  The rings of the firmware: any byte held can be read, and the byte that fills the queue completely
  is kept or empties it.
\<close>

locale byte_queue = bounded_queue +
  fixes get :: "'a \<Rightarrow> u8 \<Rightarrow> u8 \<Rightarrow> u8 \<times> u8"
  assumes get_held: "ok q \<Longrightarrow> get q i b =
      (if unat i < length (held q) then (1, held q ! unat i) else (0, b))"
    and fill_ok: "ok q \<Longrightarrow> ok (snd (fill q b))"
    and fill_last: "ok q \<Longrightarrow> Suc (length (held q)) = cap \<Longrightarrow>
      \<exists>q'. fill q b = (1, q') \<and> ok q' \<and> (held q' = [] \<or> held q' = held q @ [b])"
    and afill_ok: "ok q \<Longrightarrow> ok (snd (afill q arr n))"
begin

lemma fill_held:
  assumes "ok q"
  shows "held (snd (fill q b)) \<in> {[], held q, held q @ [b]}"
proof -
  consider "Suc (length (held q)) < cap" | "Suc (length (held q)) = cap" | "length (held q) = cap"
    using held_le [OF assms] by linarith
  then show ?thesis
    using fill_room [OF assms, of b] fill_last [OF assms, of b] fill_full [OF assms, of b]
    by cases auto
qed

end

section \<open>\<open>buf.c\<close>: a ring of 64 bytes\<close>

record buf_t =
  buf_data :: bytes
  buf_start :: u8
  buf_finish :: u8

definition BUF_SIZE :: u8 where
  "BUF_SIZE = 64"

definition buf_init :: "buf_t \<Rightarrow> buf_t" where
  "buf_init q =
     (case ring_init BUF_SIZE (buf_data q) of (data, start, finish) \<Rightarrow>
        q\<lparr>buf_data := data, buf_start := start, buf_finish := finish\<rparr>)"

definition buf_size :: "buf_t \<Rightarrow> u8" where
  "buf_size q = ring_size BUF_SIZE (buf_start q) (buf_finish q)"

definition buf_clear :: "buf_t \<Rightarrow> buf_t" where
  "buf_clear q = (case ring_clear of (start, finish) \<Rightarrow>
     q\<lparr>buf_start := start, buf_finish := finish\<rparr>)"

definition buf_space :: "buf_t \<Rightarrow> u8" where
  "buf_space q = ring_space BUF_SIZE (buf_start q) (buf_finish q)"

definition buf_byte_fill :: "buf_t \<Rightarrow> u8 \<Rightarrow> u8 \<times> buf_t" where
  "buf_byte_fill q byte =
     (case ring_byte_fill BUF_SIZE (buf_data q) (buf_start q) (buf_finish q) byte of
        (result, data, finish) \<Rightarrow> (result, q\<lparr>buf_data := data, buf_finish := finish\<rparr>))"

definition buf_byte_drain :: "buf_t \<Rightarrow> u8 \<Rightarrow> u8 \<times> buf_t \<times> u8" where
  "buf_byte_drain q byte =
     (case ring_byte_drain BUF_SIZE (buf_data q) (buf_start q) (buf_finish q) byte of
        (result, start, finish, byte') \<Rightarrow>
          (result, q\<lparr>buf_start := start, buf_finish := finish\<rparr>, byte'))"

definition buf_byte_get :: "buf_t \<Rightarrow> u8 \<Rightarrow> u8 \<Rightarrow> u8 \<times> u8" where
  "buf_byte_get q index byte =
     ring_byte_get BUF_SIZE (buf_data q) (buf_start q) (buf_finish q) index byte"

definition buf_array_fill :: "buf_t \<Rightarrow> bytes \<Rightarrow> u8 \<Rightarrow> u8 \<times> buf_t" where
  "buf_array_fill q array array_size =
     (case ring_array_fill BUF_SIZE (buf_data q) (buf_start q) (buf_finish q) array array_size of
        (result, data, finish) \<Rightarrow> (result, q\<lparr>buf_data := data, buf_finish := finish\<rparr>))"

definition buf_array_drain :: "buf_t \<Rightarrow> bytes \<Rightarrow> u8 \<Rightarrow> u8 \<times> buf_t \<times> bytes" where
  "buf_array_drain q array array_size =
     (case ring_array_drain BUF_SIZE (buf_data q) (buf_start q) (buf_finish q) array array_size of
        (result, start, finish, array') \<Rightarrow>
          (result, q\<lparr>buf_start := start, buf_finish := finish\<rparr>, array'))"

definition buf_is_fillable :: "buf_t \<Rightarrow> u8 \<Rightarrow> u8" where
  "buf_is_fillable q fill_size =
     ring_is_fillable BUF_SIZE (buf_start q) (buf_finish q) fill_size"

definition buf_is_drainable :: "buf_t \<Rightarrow> u8 \<Rightarrow> u8" where
  "buf_is_drainable q drain_size =
     ring_is_drainable BUF_SIZE (buf_start q) (buf_finish q) drain_size"

text \<open>The bytes held, oldest first, and the invariant.\<close>

definition buf_held :: "buf_t \<Rightarrow> bytes" where
  "buf_held q = ring_abs BUF_SIZE (buf_data q) (buf_start q) (buf_finish q)"

definition buf_ok :: "buf_t \<Rightarrow> bool" where
  "buf_ok q \<longleftrightarrow> ring_ok BUF_SIZE (buf_data q) (buf_start q) (buf_finish q)"

definition buf_empty :: buf_t where
  "buf_empty = \<lparr>buf_data = replicate 64 BUFFER_INIT_PATTERN, buf_start = 0, buf_finish = 0\<rparr>"

lemma unat_BUF_SIZE [simp]: "unat BUF_SIZE = 64"
  by (simp add: BUF_SIZE_def)

lemma buf_init_empty: "length (buf_data q) = 64 \<Longrightarrow> buf_init q = buf_empty"
  by (simp add: buf_init_def ring_init_ok buf_empty_def word_greater_zero_iff BUF_SIZE_def)

lemma buf_empty_ok [simp]: "buf_ok buf_empty" "buf_held buf_empty = []"
  by (simp_all add: buf_ok_def buf_held_def buf_empty_def ring_ok_def ring_abs_def
      BUF_SIZE_def)

lemma buf_clear_ok [simp]: "buf_ok q \<Longrightarrow> buf_ok (buf_clear q)" "buf_held (buf_clear q) = []"
  by (simp_all add: buf_ok_def buf_held_def buf_clear_def ring_clear_def ring_ok_def ring_abs_def
      BUF_SIZE_def)

interpretation buf: byte_queue 64 buf_size buf_space buf_byte_fill buf_byte_drain
  buf_array_fill buf_array_drain buf_held buf_ok buf_byte_get
proof unfold_locales
  fix q :: buf_t and b :: u8 and arr :: bytes and n i :: u8
  assume ok: "buf_ok q"
  note ring = ok [unfolded buf_ok_def]
  show "length (buf_held q) \<le> 64"
    using ring ring_size_le [of "buf_start q" "BUF_SIZE" "buf_finish q"]
    by (simp add: buf_held_def ring_abs_length ring_ok_def u8_le_iff)
  show "unat (buf_size q) = length (buf_held q)"
    by (simp add: buf_size_def buf_held_def ring_abs_length [OF ring])
  show "unat (buf_space q) = 64 - length (buf_held q)"
    by (simp add: buf_space_def buf_held_def ring_space_abs [OF ring])
  show "buf_byte_get q i b =
      (if unat i < length (buf_held q) then (1, buf_held q ! unat i) else (0, b))"
    by (simp add: buf_byte_get_def buf_held_def ring_byte_get_abs [OF ring])
  show "buf_ok (snd (buf_byte_fill q b))"
    using ring_byte_fill_ok [OF ring] by (auto simp: buf_byte_fill_def buf_ok_def split: prod.split)
  show "buf_ok (snd (buf_array_fill q arr n))"
    using ring_array_fill_ok [OF ring] by (auto simp: buf_array_fill_def buf_ok_def split: prod.split)
  show "buf_held q = [] \<Longrightarrow> buf_byte_drain q b = (0, q, b)"
    using ring_byte_drain_empty [OF ring] by (simp add: buf_byte_drain_def buf_held_def)
  show "length (buf_held q) = 64 \<Longrightarrow> buf_byte_fill q b = (0, q)"
    using ring_byte_fill_full [OF ring] by (simp add: buf_byte_fill_def buf_held_def)
  show "64 < unat n + length (buf_held q) \<Longrightarrow> buf_array_fill q arr n = (0, q)"
    using ring_array_fill_refuse [OF ring] by (simp add: buf_array_fill_def buf_held_def)
  show "length (buf_held q) < unat n \<Longrightarrow> buf_array_drain q arr n = (0, q, arr)"
    using ring_array_drain_refuse [OF ring] by (simp add: buf_array_drain_def buf_held_def)
next
  fix q :: buf_t and b :: u8
  assume ok: "buf_ok q" and room: "Suc (length (buf_held q)) < 64"
  note ring = ok [unfolded buf_ok_def]
  have "ring_room BUF_SIZE (buf_data q) (buf_start q) (buf_finish q)"
    using room by (simp add: ring_room_def buf_held_def)
  then obtain data' finish' where
    "ring_byte_fill BUF_SIZE (buf_data q) (buf_start q) (buf_finish q) b = (1, data', finish')"
    "ring_abs BUF_SIZE data' (buf_start q) finish' = buf_held q @ [b]"
    unfolding buf_held_def by (rule ring_byte_fill_abs [OF ring])
  with ring_byte_fill_ok [OF ring this(1)]
  show "\<exists>q'. buf_byte_fill q b = (1, q') \<and> buf_ok q' \<and> buf_held q' = buf_held q @ [b]"
    by (simp add: buf_byte_fill_def buf_ok_def) (simp add: buf_held_def)
next
  fix q :: buf_t and b :: u8
  assume ok: "buf_ok q" and last: "Suc (length (buf_held q)) = 64"
  note ring = ok [unfolded buf_ok_def]
  have "Suc (length (ring_abs BUF_SIZE (buf_data q) (buf_start q) (buf_finish q))) = unat BUF_SIZE"
    using last by (simp add: buf_held_def)
  from ring_byte_fill_last [OF ring this, of b] obtain data' finish' where
    "ring_byte_fill BUF_SIZE (buf_data q) (buf_start q) (buf_finish q) b = (1, data', finish')"
    "ring_abs BUF_SIZE data' (buf_start q) finish' = [] \<or>
     ring_abs BUF_SIZE data' (buf_start q) finish' = buf_held q @ [b]"
    unfolding buf_held_def by blast
  with ring_byte_fill_ok [OF ring this(1)]
  show "\<exists>q'. buf_byte_fill q b = (1, q') \<and> buf_ok q' \<and> (buf_held q' = [] \<or> buf_held q' = buf_held q @ [b])"
    by (simp add: buf_byte_fill_def buf_ok_def) (simp add: buf_held_def)
next
  fix q :: buf_t and b :: u8
  assume ok: "buf_ok q" and ne: "buf_held q \<noteq> []"
  obtain start' finish' where
    "ring_byte_drain BUF_SIZE (buf_data q) (buf_start q) (buf_finish q) b
      = (1, start', finish', hd (buf_held q))"
    "ring_ok BUF_SIZE (buf_data q) start' finish'"
    "ring_abs BUF_SIZE (buf_data q) start' finish' = tl (buf_held q)"
    using ring_byte_drain_abs [OF ok [unfolded buf_ok_def] ne [unfolded buf_held_def]]
    unfolding buf_held_def by metis
  then show "\<exists>q'. buf_byte_drain q b = (1, q', hd (buf_held q)) \<and> buf_ok q'
      \<and> buf_held q' = tl (buf_held q)"
    by (simp add: buf_byte_drain_def buf_ok_def) (simp add: buf_held_def)
next
  fix q :: buf_t and arr :: bytes and n :: u8
  assume ok: "buf_ok q" and room: "length (buf_held q) + unat n < 64" and arr: "unat n \<le> length arr"
  then have "length (ring_abs BUF_SIZE (buf_data q) (buf_start q) (buf_finish q)) + unat n
      < unat BUF_SIZE"
    by (simp add: buf_held_def)
  from ring_array_fill_abs [OF ok [unfolded buf_ok_def] disjI1 [OF this] arr]
  obtain data' finish' where
    "ring_array_fill BUF_SIZE (buf_data q) (buf_start q) (buf_finish q) arr n
      = (1, data', finish')"
    "ring_ok BUF_SIZE data' (buf_start q) finish'"
    "ring_abs BUF_SIZE data' (buf_start q) finish' = buf_held q @ take (unat n) arr"
    unfolding buf_held_def by metis
  then show "\<exists>q'. buf_array_fill q arr n = (1, q') \<and> buf_ok q'
      \<and> buf_held q' = buf_held q @ take (unat n) arr"
    by (simp add: buf_array_fill_def buf_ok_def) (simp add: buf_held_def)
next
  fix q :: buf_t and arr :: bytes and n :: u8
  assume ok: "buf_ok q" and avail: "unat n \<le> length (buf_held q)" and arr: "unat n \<le> length arr"
  from ring_array_drain_abs [OF ok [unfolded buf_ok_def] avail [unfolded buf_held_def] arr]
  obtain start' finish' where
    "ring_array_drain BUF_SIZE (buf_data q) (buf_start q) (buf_finish q) arr n
      = (1, start', finish', take (unat n) (buf_held q) @ drop (unat n) arr)"
    "ring_ok BUF_SIZE (buf_data q) start' finish'"
    "ring_abs BUF_SIZE (buf_data q) start' finish' = drop (unat n) (buf_held q)"
    unfolding buf_held_def by metis
  then show "\<exists>q'. buf_array_drain q arr n = (1, q', take (unat n) (buf_held q) @ drop (unat n) arr)
      \<and> buf_ok q' \<and> buf_held q' = drop (unat n) (buf_held q)"
    by (simp add: buf_array_drain_def buf_ok_def) (simp add: buf_held_def)
qed

section \<open>\<open>buffer.c\<close>: a ring of 255 bytes\<close>

record buffer_t =
  buffer_data :: bytes
  buffer_start :: u8
  buffer_finish :: u8

definition BUFFER_SIZE :: u8 where
  "BUFFER_SIZE = 255"

definition buffer_init :: "buffer_t \<Rightarrow> buffer_t" where
  "buffer_init q =
     (case ring_init BUFFER_SIZE (buffer_data q) of (data, start, finish) \<Rightarrow>
        q\<lparr>buffer_data := data, buffer_start := start, buffer_finish := finish\<rparr>)"

definition buffer_size :: "buffer_t \<Rightarrow> u8" where
  "buffer_size q = ring_size BUFFER_SIZE (buffer_start q) (buffer_finish q)"

definition buffer_clear :: "buffer_t \<Rightarrow> buffer_t" where
  "buffer_clear q = (case ring_clear of (start, finish) \<Rightarrow>
     q\<lparr>buffer_start := start, buffer_finish := finish\<rparr>)"

definition buffer_space :: "buffer_t \<Rightarrow> u8" where
  "buffer_space q = ring_space BUFFER_SIZE (buffer_start q) (buffer_finish q)"

definition buffer_byte_fill :: "buffer_t \<Rightarrow> u8 \<Rightarrow> u8 \<times> buffer_t" where
  "buffer_byte_fill q byte =
     (case ring_byte_fill BUFFER_SIZE (buffer_data q) (buffer_start q) (buffer_finish q) byte of
        (result, data, finish) \<Rightarrow> (result, q\<lparr>buffer_data := data, buffer_finish := finish\<rparr>))"

definition buffer_byte_drain :: "buffer_t \<Rightarrow> u8 \<Rightarrow> u8 \<times> buffer_t \<times> u8" where
  "buffer_byte_drain q byte =
     (case ring_byte_drain BUFFER_SIZE (buffer_data q) (buffer_start q) (buffer_finish q) byte of
        (result, start, finish, byte') \<Rightarrow>
          (result, q\<lparr>buffer_start := start, buffer_finish := finish\<rparr>, byte'))"

definition buffer_byte_get :: "buffer_t \<Rightarrow> u8 \<Rightarrow> u8 \<Rightarrow> u8 \<times> u8" where
  "buffer_byte_get q index byte =
     ring_byte_get BUFFER_SIZE (buffer_data q) (buffer_start q) (buffer_finish q) index byte"

definition buffer_array_fill :: "buffer_t \<Rightarrow> bytes \<Rightarrow> u8 \<Rightarrow> u8 \<times> buffer_t" where
  "buffer_array_fill q array array_size =
     (case ring_array_fill BUFFER_SIZE (buffer_data q) (buffer_start q) (buffer_finish q) array array_size of
        (result, data, finish) \<Rightarrow> (result, q\<lparr>buffer_data := data, buffer_finish := finish\<rparr>))"

definition buffer_array_drain :: "buffer_t \<Rightarrow> bytes \<Rightarrow> u8 \<Rightarrow> u8 \<times> buffer_t \<times> bytes" where
  "buffer_array_drain q array array_size =
     (case ring_array_drain BUFFER_SIZE (buffer_data q) (buffer_start q) (buffer_finish q) array array_size of
        (result, start, finish, array') \<Rightarrow>
          (result, q\<lparr>buffer_start := start, buffer_finish := finish\<rparr>, array'))"

definition buffer_is_fillable :: "buffer_t \<Rightarrow> u8 \<Rightarrow> u8" where
  "buffer_is_fillable q fill_size =
     ring_is_fillable BUFFER_SIZE (buffer_start q) (buffer_finish q) fill_size"

definition buffer_is_drainable :: "buffer_t \<Rightarrow> u8 \<Rightarrow> u8" where
  "buffer_is_drainable q drain_size =
     ring_is_drainable BUFFER_SIZE (buffer_start q) (buffer_finish q) drain_size"

text \<open>The bytes held, oldest first, and the invariant.\<close>

definition buffer_held :: "buffer_t \<Rightarrow> bytes" where
  "buffer_held q = ring_abs BUFFER_SIZE (buffer_data q) (buffer_start q) (buffer_finish q)"

definition buffer_ok :: "buffer_t \<Rightarrow> bool" where
  "buffer_ok q \<longleftrightarrow> ring_ok BUFFER_SIZE (buffer_data q) (buffer_start q) (buffer_finish q)"

definition buffer_empty :: buffer_t where
  "buffer_empty = \<lparr>buffer_data = replicate 255 BUFFER_INIT_PATTERN, buffer_start = 0, buffer_finish = 0\<rparr>"

lemma unat_BUFFER_SIZE [simp]: "unat BUFFER_SIZE = 255"
  by (simp add: BUFFER_SIZE_def)

lemma buffer_init_empty: "length (buffer_data q) = 255 \<Longrightarrow> buffer_init q = buffer_empty"
  by (simp add: buffer_init_def ring_init_ok buffer_empty_def word_greater_zero_iff BUFFER_SIZE_def)

lemma buffer_empty_ok [simp]: "buffer_ok buffer_empty" "buffer_held buffer_empty = []"
  by (simp_all add: buffer_ok_def buffer_held_def buffer_empty_def ring_ok_def ring_abs_def
      BUFFER_SIZE_def)

lemma buffer_clear_ok [simp]: "buffer_ok q \<Longrightarrow> buffer_ok (buffer_clear q)" "buffer_held (buffer_clear q) = []"
  by (simp_all add: buffer_ok_def buffer_held_def buffer_clear_def ring_clear_def ring_ok_def ring_abs_def
      BUFFER_SIZE_def)

interpretation buffer: byte_queue 255 buffer_size buffer_space buffer_byte_fill buffer_byte_drain
  buffer_array_fill buffer_array_drain buffer_held buffer_ok buffer_byte_get
proof unfold_locales
  fix q :: buffer_t and b :: u8 and arr :: bytes and n i :: u8
  assume ok: "buffer_ok q"
  note ring = ok [unfolded buffer_ok_def]
  show "length (buffer_held q) \<le> 255"
    using ring ring_size_le [of "buffer_start q" "BUFFER_SIZE" "buffer_finish q"]
    by (simp add: buffer_held_def ring_abs_length ring_ok_def u8_le_iff)
  show "unat (buffer_size q) = length (buffer_held q)"
    by (simp add: buffer_size_def buffer_held_def ring_abs_length [OF ring])
  show "unat (buffer_space q) = 255 - length (buffer_held q)"
    by (simp add: buffer_space_def buffer_held_def ring_space_abs [OF ring])
  show "buffer_byte_get q i b =
      (if unat i < length (buffer_held q) then (1, buffer_held q ! unat i) else (0, b))"
    by (simp add: buffer_byte_get_def buffer_held_def ring_byte_get_abs [OF ring])
  show "buffer_ok (snd (buffer_byte_fill q b))"
    using ring_byte_fill_ok [OF ring] by (auto simp: buffer_byte_fill_def buffer_ok_def split: prod.split)
  show "buffer_ok (snd (buffer_array_fill q arr n))"
    using ring_array_fill_ok [OF ring] by (auto simp: buffer_array_fill_def buffer_ok_def split: prod.split)
  show "buffer_held q = [] \<Longrightarrow> buffer_byte_drain q b = (0, q, b)"
    using ring_byte_drain_empty [OF ring] by (simp add: buffer_byte_drain_def buffer_held_def)
  show "length (buffer_held q) = 255 \<Longrightarrow> buffer_byte_fill q b = (0, q)"
    using ring_byte_fill_full [OF ring] by (simp add: buffer_byte_fill_def buffer_held_def)
  show "255 < unat n + length (buffer_held q) \<Longrightarrow> buffer_array_fill q arr n = (0, q)"
    using ring_array_fill_refuse [OF ring] by (simp add: buffer_array_fill_def buffer_held_def)
  show "length (buffer_held q) < unat n \<Longrightarrow> buffer_array_drain q arr n = (0, q, arr)"
    using ring_array_drain_refuse [OF ring] by (simp add: buffer_array_drain_def buffer_held_def)
next
  fix q :: buffer_t and b :: u8
  assume ok: "buffer_ok q" and room: "Suc (length (buffer_held q)) < 255"
  note ring = ok [unfolded buffer_ok_def]
  have "ring_room BUFFER_SIZE (buffer_data q) (buffer_start q) (buffer_finish q)"
    using room by (simp add: ring_room_def buffer_held_def)
  then obtain data' finish' where
    "ring_byte_fill BUFFER_SIZE (buffer_data q) (buffer_start q) (buffer_finish q) b = (1, data', finish')"
    "ring_abs BUFFER_SIZE data' (buffer_start q) finish' = buffer_held q @ [b]"
    unfolding buffer_held_def by (rule ring_byte_fill_abs [OF ring])
  with ring_byte_fill_ok [OF ring this(1)]
  show "\<exists>q'. buffer_byte_fill q b = (1, q') \<and> buffer_ok q' \<and> buffer_held q' = buffer_held q @ [b]"
    by (simp add: buffer_byte_fill_def buffer_ok_def) (simp add: buffer_held_def)
next
  fix q :: buffer_t and b :: u8
  assume ok: "buffer_ok q" and last: "Suc (length (buffer_held q)) = 255"
  note ring = ok [unfolded buffer_ok_def]
  have "Suc (length (ring_abs BUFFER_SIZE (buffer_data q) (buffer_start q) (buffer_finish q))) = unat BUFFER_SIZE"
    using last by (simp add: buffer_held_def)
  from ring_byte_fill_last [OF ring this, of b] obtain data' finish' where
    "ring_byte_fill BUFFER_SIZE (buffer_data q) (buffer_start q) (buffer_finish q) b = (1, data', finish')"
    "ring_abs BUFFER_SIZE data' (buffer_start q) finish' = [] \<or>
     ring_abs BUFFER_SIZE data' (buffer_start q) finish' = buffer_held q @ [b]"
    unfolding buffer_held_def by blast
  with ring_byte_fill_ok [OF ring this(1)]
  show "\<exists>q'. buffer_byte_fill q b = (1, q') \<and> buffer_ok q' \<and> (buffer_held q' = [] \<or> buffer_held q' = buffer_held q @ [b])"
    by (simp add: buffer_byte_fill_def buffer_ok_def) (simp add: buffer_held_def)
next
  fix q :: buffer_t and b :: u8
  assume ok: "buffer_ok q" and ne: "buffer_held q \<noteq> []"
  obtain start' finish' where
    "ring_byte_drain BUFFER_SIZE (buffer_data q) (buffer_start q) (buffer_finish q) b
      = (1, start', finish', hd (buffer_held q))"
    "ring_ok BUFFER_SIZE (buffer_data q) start' finish'"
    "ring_abs BUFFER_SIZE (buffer_data q) start' finish' = tl (buffer_held q)"
    using ring_byte_drain_abs [OF ok [unfolded buffer_ok_def] ne [unfolded buffer_held_def]]
    unfolding buffer_held_def by metis
  then show "\<exists>q'. buffer_byte_drain q b = (1, q', hd (buffer_held q)) \<and> buffer_ok q'
      \<and> buffer_held q' = tl (buffer_held q)"
    by (simp add: buffer_byte_drain_def buffer_ok_def) (simp add: buffer_held_def)
next
  fix q :: buffer_t and arr :: bytes and n :: u8
  assume ok: "buffer_ok q" and room: "length (buffer_held q) + unat n < 255" and arr: "unat n \<le> length arr"
  then have "length (ring_abs BUFFER_SIZE (buffer_data q) (buffer_start q) (buffer_finish q)) + unat n
      < unat BUFFER_SIZE"
    by (simp add: buffer_held_def)
  from ring_array_fill_abs [OF ok [unfolded buffer_ok_def] disjI1 [OF this] arr]
  obtain data' finish' where
    "ring_array_fill BUFFER_SIZE (buffer_data q) (buffer_start q) (buffer_finish q) arr n
      = (1, data', finish')"
    "ring_ok BUFFER_SIZE data' (buffer_start q) finish'"
    "ring_abs BUFFER_SIZE data' (buffer_start q) finish' = buffer_held q @ take (unat n) arr"
    unfolding buffer_held_def by metis
  then show "\<exists>q'. buffer_array_fill q arr n = (1, q') \<and> buffer_ok q'
      \<and> buffer_held q' = buffer_held q @ take (unat n) arr"
    by (simp add: buffer_array_fill_def buffer_ok_def) (simp add: buffer_held_def)
next
  fix q :: buffer_t and arr :: bytes and n :: u8
  assume ok: "buffer_ok q" and avail: "unat n \<le> length (buffer_held q)" and arr: "unat n \<le> length arr"
  from ring_array_drain_abs [OF ok [unfolded buffer_ok_def] avail [unfolded buffer_held_def] arr]
  obtain start' finish' where
    "ring_array_drain BUFFER_SIZE (buffer_data q) (buffer_start q) (buffer_finish q) arr n
      = (1, start', finish', take (unat n) (buffer_held q) @ drop (unat n) arr)"
    "ring_ok BUFFER_SIZE (buffer_data q) start' finish'"
    "ring_abs BUFFER_SIZE (buffer_data q) start' finish' = drop (unat n) (buffer_held q)"
    unfolding buffer_held_def by metis
  then show "\<exists>q'. buffer_array_drain q arr n = (1, q', take (unat n) (buffer_held q) @ drop (unat n) arr)
      \<and> buffer_ok q' \<and> buffer_held q' = drop (unat n) (buffer_held q)"
    by (simp add: buffer_array_drain_def buffer_ok_def) (simp add: buffer_held_def)
qed

section \<open>Properties\<close>

text \<open>
  A 64-byte ring and a 255-byte ring keep what was put in: an array that fits with a byte to
  spare is taken whole and drained again in order, and a ring without that byte refuses.
\<close>

theorem ring_array_roundtrip:
  assumes "buf_ok q" "buf_held q = []" "unat n < 64" "unat n \<le> length arr" "unat n \<le> length out"
  shows "\<exists>q' q''. buf_array_fill q arr n = (1, q') \<and>
    buf_array_drain q' out n = (1, q'', take (unat n) arr @ drop (unat n) out) \<and> buf_held q'' = []"
  by (rule buf.afill_adrain [OF assms])

lemma ring_array_roundtrip_witness:
  "\<exists>q' q''. buf_array_fill buf_empty [5, 6, 7] 3 = (1, q') \<and>
    buf_array_drain q' [0, 0, 0, 9] 3 = (1, q'', [5, 6, 7, 9]) \<and> buf_held q'' = []"
  using ring_array_roundtrip [of buf_empty 3 "[5, 6, 7]" "[0, 0, 0, 9]"] by simp

text \<open>
  Adding the byte that makes a ring full when its oldest byte is not in the first cell
  reports success and leaves the ring empty: all its bytes are lost, because finish meets start.
\<close>

theorem ring_full_reads_empty:
  assumes "buf_ok q" "buf_start q \<noteq> 0" "length (buf_held q) = 63"
  shows "\<exists>q'. buf_byte_fill q b = (1, q') \<and> buf_held q' = [] \<and> buf_size q' = 0"
proof -
  have "Suc (length (ring_abs BUF_SIZE (buf_data q) (buf_start q) (buf_finish q))) = unat BUF_SIZE"
    using assms(3) by (simp add: buf_held_def)
  from ring_byte_fill_overflow [OF assms(1) [unfolded buf_ok_def] assms(2) this, of b]
  obtain data' finish' where fill:
    "ring_byte_fill BUF_SIZE (buf_data q) (buf_start q) (buf_finish q) b = (1, data', finish')"
    "ring_abs BUF_SIZE data' (buf_start q) finish' = []" .
  have "ring_ok BUF_SIZE data' (buf_start q) finish'"
    using ring_byte_fill_ok [OF assms(1) [unfolded buf_ok_def] fill(1)] .
  from ring_abs_length [OF this] fill(2) have "ring_size BUF_SIZE (buf_start q) finish' = 0"
    by (simp add: unat_eq_zero)
  with fill show ?thesis by (simp add: buf_byte_fill_def buf_held_def buf_size_def)
qed

lemma ring_full_reads_empty_witness:
  "\<exists>q'. buf_byte_fill \<lparr>buf_data = replicate 64 0, buf_start = 2, buf_finish = 1\<rparr> 9 = (1, q')
    \<and> buf_held q' = [] \<and> buf_size q' = 0"
  by (rule ring_full_reads_empty)
    (simp_all add: buf_ok_def buf_held_def ring_ok_def ring_abs_def BUF_SIZE_def
      word_le_nat_alt)

end
