(* ===== verification/Avr_State.thy ===== *)
theory Avr_State
  imports Avr_Const Protocol Avr_Buf
begin

text \<open>
  The memory of the firmware (\<open>src/src/avr\<close>): one record per C file with the file's static
  variables, the I/O registers, and the record \<open>avr\<close> that joins them. Arrays are lists of the
  declared length. Function pointers are values of \<open>callback\<close>, the null pointer being
  \<open>No_callback\<close>. Every assignment to the display's port is also recorded in \<open>a_wire\<close>, for the
  display reads its pins at every one of them.
\<close>

section \<open>I/O registers\<close>

datatype ioreg =
    CLKPR
  | TCCRA u8 | TCCRB u8 | TIMSK u8
  | OCRA_L u8 | OCRA_H u8 | OCRB_L u8 | OCRB_H u8 | TCNT_L u8 | TCNT_H u8
  | PORTA | DDRA | PORTB | DDRB | PORTC | DDRC | DDRE | PORTH | DDRH
  | PORTJ | DDRJ | PINJ | PORTK | DDRK | PINK
  | EICRA | EIMSK | PCICR | PCMSK1 | PCMSK2 | ADMUX | ADCSRA | ADCH | DIDR0
  | SPDR | SPCR | TWBR | TWCR | TWDR | TWSR

type_synonym io = "ioreg \<Rightarrow> u8"

section \<open>Callbacks\<close>

datatype callback =
    No_callback
  | Cron_interrupt
  | At_verify
  | Heartbeat_verify
  | Flush_shift_display
  | Switch_to_watch
  | Spi_interrupt_start
  | Spi_misconfirm
  | Menu_stop
  | Menu_tag_request
  | Boot_release_wire
  | Buzz_stop

datatype twi_callback = No_twi_callback | Dummy_callback | Watch_read_callback

section \<open>The modules\<close>

record counter =
  ct_callback_array :: "callback list"
  ct_invoke_queue :: buf_t

record cron =
  cr_callback_array :: "callback list"
  cr_factor_array :: bytes
  cr_counter_array :: bytes
  cr_queue :: buf_t

record at =
  at_current :: bytes
  at_limit :: bytes
  at_callback_array :: "callback list"

record heartbeat =
  hb_current_misses :: u8
  hb_max_misses :: u8
  hb_report :: callback
  hb_provoke :: callback

record postpone =
  pp_message :: bytes
  pp_size :: u8

record spi =
  sp_read_buf :: buffer_t
  sp_write_buf :: buffer_t

record decode =
  de_decoded :: u8
  de_msg_size :: u8
  de_msg_serial :: u8
  de_msg_id :: u8
  de_in_buf :: bytes

record display =
  di_cs :: u8
  di_clk :: u8
  di_data :: u8

record flush =
  fl_shift_data :: buffer_t
  fl_stable_data :: bytes
  fl_display_right :: display
  fl_display_left :: display
  fl_drain :: u8
  fl_brightness :: u8

record mode =
  mo_current_mode :: u8
  mo_is_connected :: u8

record menu =
  me_backup_mode :: u8
  me_param_flag :: u8
  me_param_max :: bytes
  me_param_min :: bytes
  me_param_old :: bytes
  me_param_new :: bytes
  me_param_id :: u8
  me_param_id_min :: u8
  me_param_id_max :: u8
  me_secondary_param :: u8
  me_state :: u8
  me_tag_param :: u8
  me_tag_value :: u8

record twi =
  tw_mode :: u8
  tw_status :: u8
  tw_action :: u8
  tw_tag :: u8
  tw_id :: u8
  tw_reg :: u8
  tw_index :: u8
  tw_max_index :: u8
  tw_data :: bytes
  tw_address :: bytes
  tw_write_cb :: "twi_callback list"
  tw_read_cb :: "twi_callback list"
  tw_queue :: buffer_t

record watch =
  wa_buffer :: bytes
  wa_alarm_engaged :: u8
  wa_alarm_hour :: u8
  wa_alarm_minute :: u8

record rotor =
  ro_j_event_buf :: buf_t
  ro_k_event_buf :: buf_t

record avr =
  a_io :: io
  a_wire :: bytes
  a_counter :: counter
  a_cron :: cron
  a_at :: at
  a_heartbeat :: heartbeat
  a_postpone :: postpone
  a_out_buf :: bytes
  a_spi :: spi
  a_decode :: decode
  a_flush :: flush
  a_mode :: mode
  a_menu :: menu
  a_twi :: twi
  a_watch :: watch
  a_rotor :: rotor

section \<open>Register access\<close>

definition io_get :: "ioreg \<Rightarrow> avr \<Rightarrow> u8" where
  "io_get r s = a_io s r"

definition io_set :: "ioreg \<Rightarrow> u8 \<Rightarrow> avr \<Rightarrow> avr" where
  "io_set r v s = s\<lparr>a_io := (a_io s)(r := v)\<rparr>"

text \<open>\<open>reg |= v\<close> and \<open>reg &= ~v\<close>\<close>

definition io_or :: "ioreg \<Rightarrow> u8 \<Rightarrow> avr \<Rightarrow> avr" where
  "io_or r v s = io_set r (io_get r s OR v) s"

definition io_clear :: "ioreg \<Rightarrow> u8 \<Rightarrow> avr \<Rightarrow> avr" where
  "io_clear r v s = io_set r (io_get r s AND NOT v) s"

lemma io_get_set [simp]: "io_get r (io_set r' v s) = (if r = r' then v else io_get r s)"
  by (simp add: io_get_def io_set_def)

lemma io_get_or [simp]:
  "io_get r (io_or r' v s) = (if r = r' then io_get r' s OR v else io_get r s)"
  by (simp add: io_or_def)

lemma io_get_clear [simp]:
  "io_get r (io_clear r' v s) = (if r = r' then io_get r' s AND NOT v else io_get r s)"
  by (simp add: io_clear_def)

lemma io_keeps [simp]:
  "a_wire (io_set r v s) = a_wire s" "a_counter (io_set r v s) = a_counter s"
  "a_cron (io_set r v s) = a_cron s" "a_at (io_set r v s) = a_at s"
  "a_heartbeat (io_set r v s) = a_heartbeat s" "a_postpone (io_set r v s) = a_postpone s"
  "a_out_buf (io_set r v s) = a_out_buf s" "a_spi (io_set r v s) = a_spi s"
  "a_decode (io_set r v s) = a_decode s" "a_flush (io_set r v s) = a_flush s"
  "a_mode (io_set r v s) = a_mode s" "a_menu (io_set r v s) = a_menu s"
  "a_twi (io_set r v s) = a_twi s" "a_watch (io_set r v s) = a_watch s"
  "a_rotor (io_set r v s) = a_rotor s"
  by (simp_all add: io_set_def)

lemma io_or_keeps [simp]:
  "a_wire (io_or r v s) = a_wire s" "a_counter (io_or r v s) = a_counter s"
  "a_cron (io_or r v s) = a_cron s" "a_at (io_or r v s) = a_at s"
  "a_heartbeat (io_or r v s) = a_heartbeat s" "a_postpone (io_or r v s) = a_postpone s"
  "a_out_buf (io_or r v s) = a_out_buf s" "a_spi (io_or r v s) = a_spi s"
  "a_decode (io_or r v s) = a_decode s" "a_flush (io_or r v s) = a_flush s"
  "a_mode (io_or r v s) = a_mode s" "a_menu (io_or r v s) = a_menu s"
  "a_twi (io_or r v s) = a_twi s" "a_watch (io_or r v s) = a_watch s"
  "a_rotor (io_or r v s) = a_rotor s"
  by (simp_all add: io_or_def)

lemma io_clear_keeps [simp]:
  "a_wire (io_clear r v s) = a_wire s" "a_counter (io_clear r v s) = a_counter s"
  "a_cron (io_clear r v s) = a_cron s" "a_at (io_clear r v s) = a_at s"
  "a_heartbeat (io_clear r v s) = a_heartbeat s" "a_postpone (io_clear r v s) = a_postpone s"
  "a_out_buf (io_clear r v s) = a_out_buf s" "a_spi (io_clear r v s) = a_spi s"
  "a_decode (io_clear r v s) = a_decode s" "a_flush (io_clear r v s) = a_flush s"
  "a_mode (io_clear r v s) = a_mode s" "a_menu (io_clear r v s) = a_menu s"
  "a_twi (io_clear r v s) = a_twi s" "a_watch (io_clear r v s) = a_watch s"
  "a_rotor (io_clear r v s) = a_rotor s"
  by (simp_all add: io_clear_def)

text \<open>Memory before \<open>main\<close>: static variables are zero unless they are initialised.\<close>

definition buf_zero :: buf_t where
  "buf_zero = \<lparr>buf_data = replicate 64 0, buf_start = 0, buf_finish = 0\<rparr>"

definition buffer_zero :: buffer_t where
  "buffer_zero = \<lparr>buffer_data = replicate 255 0, buffer_start = 0, buffer_finish = 0\<rparr>"

definition display_zero :: display where
  "display_zero = \<lparr>di_cs = 0, di_clk = 0, di_data = 0\<rparr>"

definition avr_reset :: avr where
  "avr_reset =
     \<lparr>a_io = (\<lambda>_. 0), a_wire = [],
      a_counter = \<lparr>ct_callback_array = replicate 6 No_callback, ct_invoke_queue = buf_zero\<rparr>,
      a_cron = \<lparr>cr_callback_array = replicate 4 No_callback, cr_factor_array = replicate 4 0,
        cr_counter_array = replicate 4 0, cr_queue = buf_zero\<rparr>,
      a_at = \<lparr>at_current = replicate 4 0, at_limit = replicate 4 0,
        at_callback_array = replicate 4 No_callback\<rparr>,
      a_heartbeat = \<lparr>hb_current_misses = 0, hb_max_misses = 0, hb_report = No_callback,
        hb_provoke = No_callback\<rparr>,
      a_postpone = \<lparr>pp_message = replicate 20 0, pp_size = 0\<rparr>,
      a_out_buf = replicate 15 0,
      a_spi = \<lparr>sp_read_buf = buffer_zero, sp_write_buf = buffer_zero\<rparr>,
      a_decode = \<lparr>de_decoded = 0, de_msg_size = 0, de_msg_serial = 0, de_msg_id = 0,
        de_in_buf = replicate 26 0\<rparr>,
      a_flush = \<lparr>fl_shift_data = buffer_zero, fl_stable_data = replicate 64 0,
        fl_display_right = display_zero, fl_display_left = display_zero, fl_drain = 0,
        fl_brightness = FLUSH_BRIGHTNESS_MIN\<rparr>,
      a_mode = \<lparr>mo_current_mode = MODE_MENU, mo_is_connected = 0\<rparr>,
      a_menu = \<lparr>me_backup_mode = MODE_MENU, me_param_flag = 0, me_param_max = replicate 4 0,
        me_param_min = replicate 4 0, me_param_old = replicate 4 0, me_param_new = replicate 4 0,
        me_param_id = PARAM_BRIGHTNESS, me_param_id_min = PARAM_BRIGHTNESS,
        me_param_id_max = PARAM_BRIGHTNESS, me_secondary_param = PARAM_CANCEL,
        me_state = STATE_IDLE, me_tag_param = PARAM_CANCEL, me_tag_value = 0\<rparr>,
      a_twi = \<lparr>tw_mode = MODE_IDLE, tw_status = TWI_SUCCESS, tw_action = ACTION_IDLE, tw_tag = 0,
        tw_id = TWI_ID_SIZE, tw_reg = 0, tw_index = 0, tw_max_index = 0,
        tw_data = replicate 128 0, tw_address = [0], tw_write_cb = [No_twi_callback],
        tw_read_cb = [No_twi_callback], tw_queue = buffer_zero\<rparr>,
      a_watch = \<lparr>wa_buffer = replicate 3 0, wa_alarm_engaged = 0, wa_alarm_hour = 0,
        wa_alarm_minute = 0\<rparr>,
      a_rotor = \<lparr>ro_j_event_buf = buf_zero, ro_k_event_buf = buf_zero\<rparr>\<rparr>"

end
