(* ===== verification/Avr_Timer.thy ===== *)
theory Avr_Timer
  imports Avr_State
begin

text \<open>
  Time in the firmware: the hardware counters (\<open>counter.c\<close>), the periodic jobs that share one of
  them (\<open>cron.c\<close>), the one-shot jobs on top of those (\<open>at.c\<close>) and the heartbeat that watches the
  link (\<open>heartbeat.c\<close>). Functions that call a stored callback take the function \<open>run\<close> that
  executes callbacks; \<open>Avr_Main\<close> ties the knot. An interrupt routine is an operation of its own,
  which may happen between any two steps of the main loop.
\<close>

section \<open>Counters\<close>

definition MAX_ID :: u8 where
  "MAX_ID = COUNTER_5"

definition PRESCALER_MASK :: u8 where
  "PRESCALER_MASK = COUNTER_PRESCALER_1 OR COUNTER_PRESCALER_8 OR COUNTER_PRESCALER_256"

definition counter_init :: "avr \<Rightarrow> avr" where
  "counter_init s = s\<lparr>a_counter :=
     \<lparr>ct_callback_array = replicate 6 No_callback,
      ct_invoke_queue = buf_init (ct_invoke_queue (a_counter s))\<rparr>\<rparr>"

definition eight_bits :: "u8 \<Rightarrow> u8" where
  "eight_bits i = (if i = COUNTER_0 \<or> i = COUNTER_2 then 1 else 0)"

text \<open>The array of pointers to registers: the register of a counter.\<close>

definition control_register_get :: "u8 \<Rightarrow> u8 \<Rightarrow> ioreg" where
  "control_register_get counter_id register_id =
     (if register_id = CONTROL_REGISTER_B then TCCRB counter_id
      else if register_id = CONTROL_REGISTER_INTERRUPT then TIMSK counter_id
      else TCCRA counter_id)"

definition control_register_set :: "u8 \<Rightarrow> u8 \<Rightarrow> u8 \<Rightarrow> avr \<Rightarrow> avr" where
  "control_register_set counter_id register_id v s =
     io_or (control_register_get counter_id register_id) v s"

definition control_register_clear :: "u8 \<Rightarrow> u8 \<Rightarrow> u8 \<Rightarrow> avr \<Rightarrow> avr" where
  "control_register_clear counter_id register_id v s =
     io_clear (control_register_get counter_id register_id) v s"

definition counter_enable :: "u8 \<Rightarrow> u8 \<Rightarrow> avr \<Rightarrow> avr" where
  "counter_enable i prescaler s =
     (if i > MAX_ID then s
      else control_register_set i CONTROL_REGISTER_B (prescaler AND PRESCALER_MASK) s)"

definition counter_disable :: "u8 \<Rightarrow> avr \<Rightarrow> avr" where
  "counter_disable i s =
     (if i > MAX_ID then s else control_register_clear i CONTROL_REGISTER_B PRESCALER_MASK s)"

definition counter_interrupt :: "u8 \<Rightarrow> u8 \<Rightarrow> callback \<Rightarrow> avr \<Rightarrow> avr" where
  "counter_interrupt enable counter_id fn s =
     (if counter_id > MAX_ID \<or> (enable \<noteq> 0 \<and> fn = No_callback) then s
      else
        let flag = (if eight_bits counter_id \<noteq> 0
                    then FLAG_8_ENABLE_CTC_COMPARE_A else FLAG_16_ENABLE_CTC_COMPARE_A);
            control_reg = (if eight_bits counter_id \<noteq> 0
                           then CONTROL_REGISTER_A else CONTROL_REGISTER_B);
            handle = (if enable \<noteq> 0 then control_register_set else control_register_clear);
            s = (if enable \<noteq> 0
                 then s\<lparr>a_counter := (a_counter s)\<lparr>ct_callback_array :=
                        (ct_callback_array (a_counter s))[unat counter_id := fn]\<rparr>\<rparr>
                 else s)
        in handle counter_id CONTROL_REGISTER_INTERRUPT FLAG_INTERRUPT_COMPARE_A
             (handle counter_id control_reg flag s))"

definition counter_interrupt_enable :: "u8 \<Rightarrow> callback \<Rightarrow> avr \<Rightarrow> avr" where
  "counter_interrupt_enable counter_id fn s = counter_interrupt 1 counter_id fn s"

definition counter_interrupt_disable :: "u8 \<Rightarrow> avr \<Rightarrow> avr" where
  "counter_interrupt_disable counter_id s = counter_interrupt 0 counter_id No_callback s"

definition counter_pwm :: "u8 \<Rightarrow> u8 \<Rightarrow> u8 \<Rightarrow> avr \<Rightarrow> avr" where
  "counter_pwm enable counter_id positive s =
     (let handle = (if enable \<noteq> 0 then control_register_set else control_register_clear);
          eight = eight_bits counter_id;
          invert = (if positive > 0 then 0
                    else if eight \<noteq> 0 then FLAG_8_ENABLE_PWM_A_INVERT
                    else FLAG_16_ENABLE_PWM_A_INVERT);
          flag_a = (if eight \<noteq> 0 then FLAG_8_ENABLE_PWM_A else FLAG_16_ENABLE_PWM_A) OR invert;
          flag_b = (if eight \<noteq> 0 then FLAG_8_ENABLE_PWM_B else FLAG_16_ENABLE_PWM_B)
      in handle counter_id CONTROL_REGISTER_B flag_b
           (handle counter_id CONTROL_REGISTER_A flag_a s))"

definition counter_pwm_enable :: "u8 \<Rightarrow> u8 \<Rightarrow> avr \<Rightarrow> avr" where
  "counter_pwm_enable counter_id positive s = counter_pwm 1 counter_id positive s"

definition counter_pwm_disable :: "u8 \<Rightarrow> u8 \<Rightarrow> avr \<Rightarrow> avr" where
  "counter_pwm_disable counter_id positive s = counter_pwm 0 counter_id positive s"

text \<open>The value registers: low, and high for the sixteen-bit counters.\<close>

definition value_register_get :: "u8 \<Rightarrow> u8 \<Rightarrow> ioreg \<times> ioreg option" where
  "value_register_get counter_id reg_id =
     (let (low, high) =
        (if reg_id = COUNTER_OUTPUT_COMPARE_B then (OCRB_L counter_id, OCRB_H counter_id)
         else if reg_id = COUNTER_VALUE then (TCNT_L counter_id, TCNT_H counter_id)
         else (OCRA_L counter_id, OCRA_H counter_id))
      in (low, if eight_bits counter_id = 0 then Some high else None))"

definition counter_register_write :: "u8 \<Rightarrow> u8 \<Rightarrow> u8 \<Rightarrow> u8 \<Rightarrow> avr \<Rightarrow> avr" where
  "counter_register_write counter_id reg_id low high s =
     (case value_register_get counter_id reg_id of
        (reg_low, None) \<Rightarrow> io_set reg_low low s
      | (reg_low, Some reg_high) \<Rightarrow> io_set reg_low low (io_set reg_high high s))"

text \<open>The high byte is left as it was for an eight-bit counter.\<close>

definition counter_register_read :: "u8 \<Rightarrow> u8 \<Rightarrow> u8 \<Rightarrow> avr \<Rightarrow> u8 \<times> u8" where
  "counter_register_read counter_id reg_id high s =
     (case value_register_get counter_id reg_id of
        (reg_low, None) \<Rightarrow> (io_get reg_low s, high)
      | (reg_low, Some reg_high) \<Rightarrow> (io_get reg_low s, io_get reg_high s))"

text \<open>The compare interrupts queue the number of their counter.\<close>

definition timer_isr :: "u8 \<Rightarrow> avr \<Rightarrow> avr" where
  "timer_isr counter_id s = s\<lparr>a_counter := (a_counter s)\<lparr>ct_invoke_queue :=
     snd (buf_byte_fill (ct_invoke_queue (a_counter s)) counter_id)\<rparr>\<rparr>"

definition counter_try :: "(callback \<Rightarrow> avr \<Rightarrow> avr) \<Rightarrow> avr \<Rightarrow> avr" where
  "counter_try run s =
     (case buf_byte_drain (ct_invoke_queue (a_counter s)) 0 of
        (status, q, i) \<Rightarrow>
          let s = s\<lparr>a_counter := (a_counter s)\<lparr>ct_invoke_queue := q\<rparr>\<rparr>
          in if status = 0 \<or> i > MAX_ID then s
             else run (ct_callback_array (a_counter s) ! unat i) s)"

section \<open>Cron\<close>

definition cron_init :: "avr \<Rightarrow> avr" where
  "cron_init s = s\<lparr>a_cron :=
     \<lparr>cr_callback_array = replicate 4 No_callback, cr_factor_array = replicate 4 0,
      cr_counter_array = replicate 4 0, cr_queue = buf_init (cr_queue (a_cron s))\<rparr>\<rparr>"

definition cron_try :: "(callback \<Rightarrow> avr \<Rightarrow> avr) \<Rightarrow> avr \<Rightarrow> avr" where
  "cron_try run s =
     (case buf_byte_drain (cr_queue (a_cron s)) CRON_ID_MAX of
        (status, q, i) \<Rightarrow>
          let s = s\<lparr>a_cron := (a_cron s)\<lparr>cr_queue := q\<rparr>\<rparr>
          in if status = 0 \<or> i \<ge> CRON_ID_MAX
                \<or> cr_callback_array (a_cron s) ! unat i = No_callback then s
             else run (cr_callback_array (a_cron s) ! unat i) s)"

text \<open>One job of the tick: its counter goes up, and at its factor the job is queued.\<close>

definition cron_tick_one :: "nat \<Rightarrow> cron \<Rightarrow> cron" where
  "cron_tick_one i c =
     (if cr_callback_array c ! i = No_callback then c
      else
        let c = c\<lparr>cr_counter_array := (cr_counter_array c)[i := cr_counter_array c ! i + 1]\<rparr>
        in if cr_counter_array c ! i \<ge> cr_factor_array c ! i
           then c\<lparr>cr_counter_array := (cr_counter_array c)[i := 0],
                  cr_queue := snd (buf_byte_fill (cr_queue c) (of_nat i))\<rparr>
           else c)"

definition cron_interrupt_function :: "avr \<Rightarrow> avr" where
  "cron_interrupt_function s = s\<lparr>a_cron := fold cron_tick_one [0..<unat CRON_ID_MAX] (a_cron s)\<rparr>"

definition engage_timer :: "avr \<Rightarrow> avr" where
  "engage_timer s =
     counter_enable COUNTER_1 COUNTER_PRESCALER_1024
       (counter_register_write COUNTER_1 COUNTER_OUTPUT_COMPARE_A FACTOR_LOW FACTOR_HIGH
         (counter_interrupt_enable COUNTER_1 Cron_interrupt s))"

definition disengage_timer :: "avr \<Rightarrow> avr" where
  "disengage_timer s = counter_disable COUNTER_1 (counter_interrupt_disable COUNTER_1 s)"

definition is_required :: "avr \<Rightarrow> u8" where
  "is_required s =
     of_flag (\<exists>i \<in> {..<unat CRON_ID_MAX}. cr_callback_array (a_cron s) ! i \<noteq> No_callback)"

definition cron_set :: "u8 \<Rightarrow> callback \<Rightarrow> u8 \<Rightarrow> avr \<Rightarrow> avr" where
  "cron_set i callback factor s = s\<lparr>a_cron := (a_cron s)
     \<lparr>cr_callback_array := (cr_callback_array (a_cron s))[unat i := callback],
      cr_factor_array := (cr_factor_array (a_cron s))[unat i := factor],
      cr_counter_array := (cr_counter_array (a_cron s))[unat i := 0]\<rparr>\<rparr>"

definition cron_enable :: "u8 \<Rightarrow> u8 \<Rightarrow> callback \<Rightarrow> avr \<Rightarrow> u8 \<times> avr" where
  "cron_enable i factor callback s =
     (if i \<ge> CRON_ID_MAX then (0, s)
      else
        let s = cron_set i callback factor s
        in (1, if is_required s \<noteq> 0 then engage_timer s else s))"

definition cron_disable :: "u8 \<Rightarrow> avr \<Rightarrow> u8 \<times> avr" where
  "cron_disable i s =
     (if i \<ge> CRON_ID_MAX then (0, s)
      else
        let s = cron_set i No_callback 0 s
        in (1, if is_required s = 0 then disengage_timer s else s))"

section \<open>At\<close>

definition at_init :: "avr \<Rightarrow> avr" where
  "at_init s = s\<lparr>a_at := \<lparr>at_current = replicate 4 0, at_limit = replicate 4 0,
     at_callback_array = replicate 4 No_callback\<rparr>\<rparr>"

definition at_none :: "avr \<Rightarrow> u8" where
  "at_none s = of_flag (\<forall>i \<in> {..<unat AT_MAX}. at_callback_array (a_at s) ! i = No_callback)"

definition at_clear :: "nat \<Rightarrow> avr \<Rightarrow> avr" where
  "at_clear i s = s\<lparr>a_at := (a_at s)\<lparr>at_callback_array :=
     (at_callback_array (a_at s))[i := No_callback]\<rparr>\<rparr>"

text \<open>One job of \<open>verify\<close>: at its delay it runs and is forgotten, also when it scheduled itself.\<close>

definition at_verify_one :: "(callback \<Rightarrow> avr \<Rightarrow> avr) \<Rightarrow> nat \<Rightarrow> avr \<Rightarrow> avr" where
  "at_verify_one run i s =
     (if at_callback_array (a_at s) ! i = No_callback then s
      else
        let s = s\<lparr>a_at := (a_at s)\<lparr>at_current := (at_current (a_at s))[i := at_current (a_at s) ! i + 1]\<rparr>\<rparr>
        in if at_current (a_at s) ! i \<ge> at_limit (a_at s) ! i
           then
             (let s = at_clear i (run (at_callback_array (a_at s) ! i) s)
              in if at_none s \<noteq> 0 then snd (cron_disable CRON_ID_AT s) else s)
           else s)"

definition at_verify :: "(callback \<Rightarrow> avr \<Rightarrow> avr) \<Rightarrow> avr \<Rightarrow> avr" where
  "at_verify run s = fold (at_verify_one run) [0..<unat AT_MAX] s"

definition at_schedule :: "u8 \<Rightarrow> u8 \<Rightarrow> callback \<Rightarrow> avr \<Rightarrow> avr" where
  "at_schedule i delay cb s =
     (if i \<ge> AT_MAX \<or> cb = No_callback then s
      else snd (cron_enable CRON_ID_AT AT_DELAY At_verify
        (s\<lparr>a_at := (a_at s)\<lparr>at_current := (at_current (a_at s))[unat i := 0],
                            at_limit := (at_limit (a_at s))[unat i := delay],
                            at_callback_array := (at_callback_array (a_at s))[unat i := cb]\<rparr>\<rparr>)))"

definition at_postpone :: "u8 \<Rightarrow> avr \<Rightarrow> avr" where
  "at_postpone i s =
     (if i \<ge> AT_MAX then s
      else s\<lparr>a_at := (a_at s)\<lparr>at_current := (at_current (a_at s))[unat i := 0]\<rparr>\<rparr>)"

definition at_cancel :: "u8 \<Rightarrow> avr \<Rightarrow> avr" where
  "at_cancel i s =
     (if i \<ge> AT_MAX then s
      else
        let s = at_clear (unat i) s
        in if at_none s \<noteq> 0 then snd (cron_disable CRON_ID_AT s) else s)"

definition at_empty :: "u8 \<Rightarrow> avr \<Rightarrow> u8" where
  "at_empty i s =
     (if i \<ge> AT_MAX then 0
      else of_flag (at_callback_array (a_at s) ! unat i = No_callback))"

section \<open>Heartbeat\<close>

definition heartbeat_init :: "avr \<Rightarrow> avr" where
  "heartbeat_init s = s\<lparr>a_heartbeat := \<lparr>hb_current_misses = 0, hb_max_misses = 0,
     hb_report = No_callback, hb_provoke = No_callback\<rparr>\<rparr>"

definition heartbeat_confirm :: "avr \<Rightarrow> avr" where
  "heartbeat_confirm s = s\<lparr>a_heartbeat := (a_heartbeat s)\<lparr>hb_current_misses := 0\<rparr>\<rparr>"

definition heartbeat_cancel :: "avr \<Rightarrow> avr" where
  "heartbeat_cancel s = snd (cron_disable CRON_ID_HEARTBEAT s)"

definition heartbeat_verify :: "(callback \<Rightarrow> avr \<Rightarrow> avr) \<Rightarrow> avr \<Rightarrow> avr" where
  "heartbeat_verify run s =
     (let s = s\<lparr>a_heartbeat := (a_heartbeat s)\<lparr>hb_current_misses := hb_current_misses (a_heartbeat s) + 1\<rparr>\<rparr>
      in if hb_current_misses (a_heartbeat s) \<ge> hb_max_misses (a_heartbeat s)
         then run (hb_report (a_heartbeat s)) (heartbeat_cancel s)
         else if hb_current_misses (a_heartbeat s) > PROVOKE_LIMIT
         then run (hb_provoke (a_heartbeat s)) s
         else s)"

definition heartbeat_start :: "u8 \<Rightarrow> u8 \<Rightarrow> callback \<Rightarrow> callback \<Rightarrow> avr \<Rightarrow> avr" where
  "heartbeat_start delay limit report_cb provoke_cb s =
     (if report_cb = No_callback \<or> provoke_cb = No_callback then s
      else snd (cron_enable CRON_ID_HEARTBEAT delay Heartbeat_verify
        (s\<lparr>a_heartbeat := \<lparr>hb_current_misses = 0, hb_max_misses = PROVOKE_LIMIT + limit,
             hb_report = report_cb, hb_provoke = provoke_cb\<rparr>\<rparr>)))"

end
