(* ===== verification/Avr_Display.thy ===== *)
theory Avr_Display
  imports Avr_Timer
begin

text \<open>
  The LED matrices: the bit-banged protocol of their controllers (\<open>src/src/avr/display.c\<close>).
  The delays between port writes take no part in the
  model. A display sees the values of the port in the order they are written, so what it
  receives is computed from \<open>a_wire\<close>.
\<close>

section \<open>Port writes\<close>

definition port_write :: "u8 \<Rightarrow> avr \<Rightarrow> avr" where
  "port_write v s = (io_set PORTC v s)\<lparr>a_wire := a_wire s @ [v]\<rparr>"

definition port_or :: "u8 \<Rightarrow> avr \<Rightarrow> avr" where
  "port_or v s = port_write (io_get PORTC s OR v) s"

definition port_clear :: "u8 \<Rightarrow> avr \<Rightarrow> avr" where
  "port_clear v s = port_write (io_get PORTC s AND NOT v) s"

section \<open>The protocol\<close>

definition cs_activate :: "u8 \<Rightarrow> avr \<Rightarrow> avr" where
  "cs_activate cs s = port_clear cs (port_or cs s)"

definition cs_deactivate :: "u8 \<Rightarrow> avr \<Rightarrow> avr" where
  "cs_deactivate cs s = port_or cs s"

definition flush_bit :: "u8 \<Rightarrow> u8 \<Rightarrow> u8 \<Rightarrow> avr \<Rightarrow> avr" where
  "flush_bit clk data b s =
     (let s = port_clear clk s;
          s = (if b \<noteq> 0 then port_or data s else port_clear data s)
      in port_or clk s)"

text \<open>The loops: a mask that moves right or left, for a number of bits.\<close>

fun flush_bits_down :: "u8 \<Rightarrow> u8 \<Rightarrow> u8 \<Rightarrow> u8 \<Rightarrow> nat \<Rightarrow> avr \<Rightarrow> avr" where
  "flush_bits_down clk data v msk 0 s = s"
| "flush_bits_down clk data v msk (Suc n) s =
     flush_bits_down clk data v (drop_bit 1 msk) n (flush_bit clk data (v AND msk) s)"

fun flush_bits_up :: "u8 \<Rightarrow> u8 \<Rightarrow> u8 \<Rightarrow> u8 \<Rightarrow> nat \<Rightarrow> avr \<Rightarrow> avr" where
  "flush_bits_up clk data v msk 0 s = s"
| "flush_bits_up clk data v msk (Suc n) s =
     flush_bits_up clk data v (push_bit 1 msk) n (flush_bit clk data (v AND msk) s)"

definition flush_prefix :: "u8 \<Rightarrow> u8 \<Rightarrow> u8 \<Rightarrow> avr \<Rightarrow> avr" where
  "flush_prefix clk data prefix s = flush_bits_down clk data prefix 4 3 s"

definition flush_zero_address :: "u8 \<Rightarrow> u8 \<Rightarrow> avr \<Rightarrow> avr" where
  "flush_zero_address clk data s = ((flush_bit clk data 0) ^^ 7) s"

definition flush_nibble :: "u8 \<Rightarrow> u8 \<Rightarrow> u8 \<Rightarrow> avr \<Rightarrow> avr" where
  "flush_nibble clk data nibble s = flush_bits_up clk data nibble 1 4 s"

definition flush_cmd :: "u8 \<Rightarrow> u8 \<Rightarrow> u8 \<Rightarrow> avr \<Rightarrow> avr" where
  "flush_cmd clk data cmd s = flush_bit clk data 0 (flush_bits_down clk data cmd 128 8 s)"

definition display_start :: "u8 \<Rightarrow> u8 \<Rightarrow> u8 \<Rightarrow> avr \<Rightarrow> avr" where
  "display_start cs clk data s =
     cs_deactivate cs
      (flush_cmd clk data (CMD_BRIGHTNESS_MASK OR 0xF)
      (flush_cmd clk data CMD_LED_ON
      (flush_cmd clk data CMD_ENABLE
      (flush_cmd clk data CMD_NMOS_8COM
      (flush_cmd clk data CMD_DISABLE
      (flush_prefix clk data PREFIX_CMD
      (cs_activate cs s)))))))"

text \<open>\<open>display_init\<close>: the display's three bits, and the state.\<close>

definition display_init :: "u8 \<Rightarrow> u8 \<Rightarrow> u8 \<Rightarrow> avr \<Rightarrow> display \<times> avr" where
  "display_init cs clk data s =
     (let d = \<lparr>di_cs = push_bit (unat cs) 1, di_clk = push_bit (unat clk) 1,
               di_data = push_bit (unat data) 1\<rparr>
      in (d, display_start (di_cs d) (di_clk d) (di_data d)
               (io_or DDRC (di_cs d OR di_clk d OR di_data d) s)))"

definition display_data_start :: "display \<Rightarrow> avr \<Rightarrow> avr" where
  "display_data_start d s =
     flush_zero_address (di_clk d) (di_data d)
       (flush_prefix (di_clk d) (di_data d) PREFIX_DATA (cs_activate (di_cs d) s))"

definition display_data_column :: "display \<Rightarrow> u8 \<Rightarrow> avr \<Rightarrow> avr" where
  "display_data_column d column s =
     flush_nibble (di_clk d) (di_data d) (drop_bit 4 (column AND 0xF0))
       (flush_nibble (di_clk d) (di_data d) (column AND 0xF) s)"

definition display_data_stop :: "display \<Rightarrow> avr \<Rightarrow> avr" where
  "display_data_stop d s = cs_deactivate (di_cs d) s"

definition display_brightness :: "display \<Rightarrow> u8 \<Rightarrow> avr \<Rightarrow> avr" where
  "display_brightness d v s =
     cs_deactivate (di_cs d)
      (flush_cmd (di_clk d) (di_data d) (CMD_BRIGHTNESS_MASK OR (v AND 0xF))
      (flush_prefix (di_clk d) (di_data d) PREFIX_CMD
      (cs_activate (di_cs d) s)))"

section \<open>The display's side\<close>

text \<open>
  What a display reads while its chip select is low: the data bit at every rising edge of its
  clock. The first value is the port before the writes.
\<close>

fun sampled :: "display \<Rightarrow> u8 \<Rightarrow> bytes \<Rightarrow> bool list" where
  "sampled d old [] = []"
| "sampled d old (v # vs) =
     (if v AND di_cs d = 0 \<and> old AND di_clk d = 0 \<and> v AND di_clk d \<noteq> 0
      then [v AND di_data d \<noteq> 0] else []) @ sampled d v vs"

text \<open>A display's three bits are different single bits.\<close>

definition display_ok :: "display \<Rightarrow> bool" where
  "display_ok d \<longleftrightarrow>
     (\<exists>i j k. i < 8 \<and> j < 8 \<and> k < 8 \<and> i \<noteq> j \<and> i \<noteq> k \<and> j \<noteq> k \<and>
       di_cs d = 2 ^ i \<and> di_clk d = 2 ^ j \<and> di_data d = 2 ^ k)"

lemma and_bit_mask: "(v AND 2 ^ i = 0) = (\<not> bit (v :: u8) i)"
  by (simp add: and_exp_eq_0_iff_not_bit)

definition wired :: "display \<Rightarrow> avr \<Rightarrow> avr \<Rightarrow> bool list \<Rightarrow> bool" where
  "wired d s s' bits \<longleftrightarrow>
     (\<exists>vs. a_wire s' = a_wire s @ vs \<and> last (io_get PORTC s # vs) = io_get PORTC s' \<and>
        sampled d (io_get PORTC s) vs = bits)"

lemma sampled_append:
  "sampled d old (xs @ ys) = sampled d old xs @ sampled d (last (old # xs)) ys"
  by (induction xs arbitrary: old) auto

lemma wired_refl: "wired d s s []"
  by (simp add: wired_def)

lemma wired_trans: "wired d s s' xs \<Longrightarrow> wired d s' s'' ys \<Longrightarrow> wired d s s'' (xs @ ys)"
  unfolding wired_def
proof (elim exE conjE)
  fix vs ws
  assume "a_wire s' = a_wire s @ vs" "last (io_get PORTC s # vs) = io_get PORTC s'"
    "sampled d (io_get PORTC s) vs = xs" "a_wire s'' = a_wire s' @ ws"
    "last (io_get PORTC s' # ws) = io_get PORTC s''" "sampled d (io_get PORTC s') ws = ys"
  then show "\<exists>vs. a_wire s'' = a_wire s @ vs \<and> last (io_get PORTC s # vs) = io_get PORTC s'' \<and>
      sampled d (io_get PORTC s) vs = xs @ ys"
    by (intro exI [of _ "vs @ ws"]) (auto simp: sampled_append split: if_splits)
qed

text \<open>Selected: the chip select of the display is low.\<close>

definition selected :: "display \<Rightarrow> avr \<Rightarrow> bool" where
  "selected d s \<longleftrightarrow> io_get PORTC s AND di_cs d = 0"

lemma port_write_simps [simp]:
  "io_get PORTC (port_write v s) = v" "a_wire (port_write v s) = a_wire s @ [v]"
  by (simp_all add: port_write_def io_get_def io_set_def)

lemma flush_bit_wired:
  assumes "display_ok d" "selected d s"
  shows "wired d s (flush_bit (di_clk d) (di_data d) b s) [b \<noteq> 0]"
    and "selected d (flush_bit (di_clk d) (di_data d) b s)"
proof -
  obtain i j k where ijk: "i < 8" "j < 8" "k < 8" "i \<noteq> j" "i \<noteq> k" "j \<noteq> k"
    "di_cs d = 2 ^ i" "di_clk d = 2 ^ j" "di_data d = 2 ^ k"
    using assms(1) by (auto simp: display_ok_def)
  have sel: "\<not> bit (io_get PORTC s) i" using assms(2) ijk by (simp add: selected_def and_bit_mask)
  show "wired d s (flush_bit (di_clk d) (di_data d) b s) [b \<noteq> 0]"
    using ijk sel
    by (auto simp: wired_def flush_bit_def Let_def port_or_def port_clear_def and_bit_mask bit_simps)
  show "selected d (flush_bit (di_clk d) (di_data d) b s)"
    using ijk sel
    by (auto simp: selected_def flush_bit_def Let_def port_or_def port_clear_def and_bit_mask bit_simps)
qed

lemma flush_bits_up_wired:
  assumes "display_ok d" "selected d s" "k + n \<le> 8"
  shows "wired d s (flush_bits_up (di_clk d) (di_data d) v (2 ^ k) n s) (map (bit v) [k..<k + n])
    \<and> selected d (flush_bits_up (di_clk d) (di_data d) v (2 ^ k) n s)"
  using assms(2,3)
proof (induction n arbitrary: k s)
  case 0
  then show ?case by (simp add: wired_refl)
next
  case (Suc n)
  let ?s = "flush_bit (di_clk d) (di_data d) (v AND 2 ^ k) s"
  note step = flush_bit_wired [OF assms(1) Suc.prems(1), of "v AND 2 ^ k"]
  have next_mask: "push_bit 1 (2 ^ k :: u8) = 2 ^ Suc k" by (simp add: push_bit_eq_mult)
  have "wired d ?s (flush_bits_up (di_clk d) (di_data d) v (2 ^ Suc k) n ?s) (map (bit v) [Suc k..<Suc k + n])
    \<and> selected d (flush_bits_up (di_clk d) (di_data d) v (2 ^ Suc k) n ?s)"
    using Suc.IH [OF step(2), of "Suc k"] Suc.prems(2) by simp
  moreover have "map (bit v) [k..<k + Suc n] = [v AND 2 ^ k \<noteq> 0] @ map (bit v) [Suc k..<Suc k + n]"
    by (subst upt_conv_Cons) (simp add: and_bit_mask)+
  ultimately show ?case
    using wired_trans [OF step(1)] by (simp only: flush_bits_up.simps next_mask)
qed

lemma flush_bits_down_wired:
  assumes "display_ok d" "selected d s" "n \<le> Suc k" "k < 8"
  shows "wired d s (flush_bits_down (di_clk d) (di_data d) v (2 ^ k) n s)
      (map (\<lambda>i. bit v (k - i)) [0..<n])
    \<and> selected d (flush_bits_down (di_clk d) (di_data d) v (2 ^ k) n s)"
  using assms(2-4)
proof (induction n arbitrary: k s)
  case 0
  then show ?case by (simp add: wired_refl)
next
  case (Suc n)
  let ?s = "flush_bit (di_clk d) (di_data d) (v AND 2 ^ k) s"
  note step = flush_bit_wired [OF assms(1) Suc.prems(1), of "v AND 2 ^ k"]
  show ?case
  proof (cases n)
    case 0
    then show ?thesis using step by (simp add: and_bit_mask)
  next
    case (Suc m)
    then obtain j where k: "k = Suc j" using Suc.prems(2) by (cases k) auto
    have next_mask: "drop_bit 1 (2 ^ k :: u8) = 2 ^ j"
    proof -
      have "j \<in> {0, 1, 2, 3, 4, 5, 6}" using Suc.prems(3) k by auto
      then show ?thesis by (auto simp: k)
    qed
    have IH: "wired d ?s (flush_bits_down (di_clk d) (di_data d) v (2 ^ j) n ?s) (map (\<lambda>i. bit v (j - i)) [0..<n])
      \<and> selected d (flush_bits_down (di_clk d) (di_data d) v (2 ^ j) n ?s)"
      using Suc.IH [OF step(2), of j] Suc.prems(2,3) k by simp
    have "map (\<lambda>i. bit v (k - i)) [0..<Suc n] = [v AND 2 ^ k \<noteq> 0] @ map (\<lambda>i. bit v (j - i)) [0..<n]"
      unfolding upt_conv_Cons [OF zero_less_Suc] map_Suc_upt [symmetric]
      using and_bit_mask [of v k] by (simp add: k)
    then show ?thesis
      using IH wired_trans [OF step(1)] by (simp only: flush_bits_down.simps next_mask)
  qed
qed

lemma flush_prefix_wired:
  assumes "display_ok d" "selected d s"
  shows "wired d s (flush_prefix (di_clk d) (di_data d) prefix s) [bit prefix 2, bit prefix 1, bit prefix 0]"
    "selected d (flush_prefix (di_clk d) (di_data d) prefix s)"
  using flush_bits_down_wired [OF assms, of 3 2 prefix]
  by (simp_all add: flush_prefix_def numeral_3_eq_3 numeral_2_eq_2)

lemma flush_cmd_wired:
  assumes "display_ok d" "selected d s"
  shows "wired d s (flush_cmd (di_clk d) (di_data d) cmd s) (map (\<lambda>i. bit cmd (7 - i)) [0..<8] @ [False])"
    "selected d (flush_cmd (di_clk d) (di_data d) cmd s)"
proof -
  let ?s = "flush_bits_down (di_clk d) (di_data d) cmd 128 8 s"
  have bits: "wired d s ?s (map (\<lambda>i. bit cmd (7 - i)) [0..<8])" "selected d ?s"
    using flush_bits_down_wired [OF assms, of 8 7 cmd] by simp_all
  note final = flush_bit_wired [OF assms(1) bits(2), of 0]
  show "wired d s (flush_cmd (di_clk d) (di_data d) cmd s) (map (\<lambda>i. bit cmd (7 - i)) [0..<8] @ [False])"
    unfolding flush_cmd_def by (rule wired_trans [OF bits(1)]) (use final in simp)
  show "selected d (flush_cmd (di_clk d) (di_data d) cmd s)"
    unfolding flush_cmd_def by (rule final(2))
qed

lemma flush_zero_address_wired:
  assumes "display_ok d" "selected d s"
  shows "wired d s (flush_zero_address (di_clk d) (di_data d) s) (replicate 7 False)"
    "selected d (flush_zero_address (di_clk d) (di_data d) s)"
proof -
  have "wired d s ((flush_bit (di_clk d) (di_data d) 0 ^^ n) s) (replicate n False)
    \<and> selected d ((flush_bit (di_clk d) (di_data d) 0 ^^ n) s)" for n
  proof (induction n)
    case 0
    then show ?case using assms(2) by (simp add: wired_refl)
  next
    case (Suc n)
    then have IH: "wired d s ((flush_bit (di_clk d) (di_data d) 0 ^^ n) s) (replicate n False)"
      "selected d ((flush_bit (di_clk d) (di_data d) 0 ^^ n) s)" by auto
    note step = flush_bit_wired [OF assms(1) IH(2), of 0]
    show ?case
      using wired_trans [OF IH(1) step(1)] step(2) by (simp add: replicate_append_same)
  qed
  from this [of 7] show "wired d s (flush_zero_address (di_clk d) (di_data d) s) (replicate 7 False)"
    "selected d (flush_zero_address (di_clk d) (di_data d) s)"
    unfolding flush_zero_address_def by blast+
qed

lemma display_data_column_wired:
  assumes "display_ok d" "selected d s"
  shows "wired d s (display_data_column d column s) (map (bit column) [0..<8])"
    "selected d (display_data_column d column s)"
proof -
  let ?low = "flush_nibble (di_clk d) (di_data d) (column AND 0xF) s"
  have low: "wired d s ?low (map (bit (column AND 0xF)) [0..<4])" "selected d ?low"
    using flush_bits_up_wired [OF assms, of 0 4 "column AND 0xF"]
    by (simp_all add: flush_nibble_def)
  have high: "wired d ?low (display_data_column d column s)
      (map (bit (drop_bit 4 (column AND 0xF0))) [0..<4])"
    "selected d (display_data_column d column s)"
    using flush_bits_up_wired [OF assms(1) low(2), of 0 4 "drop_bit 4 (column AND 0xF0)"]
    by (simp_all add: flush_nibble_def display_data_column_def)
  have masks: "(0xF :: u8) = mask 4" "(0xF0 :: u8) = push_bit 4 (mask 4)"
    by (simp_all add: mask_eq_exp_minus_1 push_bit_eq_mult)
  have "map (bit (column AND 0xF)) [0..<4] = map (bit column) [0..<4]"
    unfolding masks by (rule map_cong) (auto simp: bit_and_iff bit_mask_iff)
  moreover have "map (bit (drop_bit 4 (column AND 0xF0))) [0..<4] = map (bit column) [4..<8]"
  proof -
    have "map (bit (drop_bit 4 (column AND 0xF0))) [0..<4] = map (\<lambda>i. bit column (i + 4)) [0..<4]"
      unfolding masks
      by (rule map_cong) (auto simp: bit_drop_bit_eq bit_and_iff bit_push_bit_iff bit_mask_iff add.commute)
    also have "\<dots> = map (bit column) [4..<8]"
      using map_add_upt [of 4 4, symmetric] by (simp only: numeral_Bit0 map_map comp_def)
    finally show ?thesis .
  qed
  moreover have "map (bit column) [0..<8] = map (bit column) [0..<4] @ map (bit column) [4..<8]"
  proof -
    have "[0..<8 :: nat] = [0..<4] @ [4..<8]" by code_simp
    then show ?thesis by (simp only: map_append)
  qed
  ultimately show "wired d s (display_data_column d column s) (map (bit column) [0..<8])"
    using wired_trans [OF low(1) high(1)] by (simp only:)
  show "selected d (display_data_column d column s)" by (rule high(2))
qed

text \<open>Selecting a display: the bits before are not read by it, it is selected afterwards.\<close>

lemma cs_activate_wired:
  assumes "display_ok d"
  shows "wired d s (cs_activate (di_cs d) s) []" "selected d (cs_activate (di_cs d) s)"
proof -
  obtain i j k where ijk: "i < 8" "j < 8" "k < 8" "i \<noteq> j" "i \<noteq> k" "j \<noteq> k"
    "di_cs d = 2 ^ i" "di_clk d = 2 ^ j" "di_data d = 2 ^ k"
    using assms(1) by (auto simp: display_ok_def)
  show "wired d s (cs_activate (di_cs d) s) []" "selected d (cs_activate (di_cs d) s)"
    using ijk
    by (auto simp: wired_def selected_def cs_activate_def port_or_def port_clear_def and_bit_mask bit_simps)
qed

lemma cs_deactivate_wired:
  assumes "display_ok d"
  shows "wired d s (cs_deactivate (di_cs d) s) []"
proof -
  obtain i j k where ijk: "i < 8" "j < 8" "k < 8" "i \<noteq> j" "i \<noteq> k" "j \<noteq> k"
    "di_cs d = 2 ^ i" "di_clk d = 2 ^ j" "di_data d = 2 ^ k"
    using assms(1) by (auto simp: display_ok_def)
  show ?thesis
    using ijk by (auto simp: wired_def cs_deactivate_def port_or_def and_bit_mask bit_simps)
qed

section \<open>What a command and a column look like on the wire\<close>

text \<open>
  Setting the brightness makes the selected display read the command prefix 100, the byte
  \<open>0xA0\<close> with the value in its low half, most significant bit first, and a zero.
\<close>

theorem display_brightness_wire:
  assumes "display_ok d"
  shows "wired d s (display_brightness d v s)
    ([True, False, False] @ map (\<lambda>i. bit (0xA0 OR (v AND 0xF)) (7 - i)) [0..<8] @ [False])"
proof -
  let ?s1 = "cs_activate (di_cs d) s"
  let ?s2 = "flush_prefix (di_clk d) (di_data d) PREFIX_CMD ?s1"
  let ?s3 = "flush_cmd (di_clk d) (di_data d) (0xA0 OR (v AND 0xF)) ?s2"
  note a = cs_activate_wired [OF assms, of s]
  note p = flush_prefix_wired [OF assms a(2), of PREFIX_CMD]
  note c = flush_cmd_wired [OF assms p(2), of "0xA0 OR (v AND 0xF)"]
  have "wired d s ?s3 ([True, False, False] @ map (\<lambda>i. bit (0xA0 OR (v AND 0xF)) (7 - i)) [0..<8] @ [False])"
    using wired_trans [OF wired_trans [OF a(1) p(1)] c(1)] by simp
  from wired_trans [OF this cs_deactivate_wired [OF assms, of ?s3]] show ?thesis
    by (simp add: display_brightness_def)
qed

text \<open>
  A run of columns between \<open>display_data_start\<close> and \<open>display_data_stop\<close> makes the display read
  the data prefix 101, seven zero address bits and then every column, its lowest bit first.
\<close>

theorem display_columns_wire:
  assumes "display_ok d"
  shows "wired d s (display_data_stop d (fold (display_data_column d) columns (display_data_start d s)))
    ([True, False, True] @ replicate 7 False @ concat (map (\<lambda>c. map (bit c) [0..<8]) columns))"
proof -
  let ?s1 = "cs_activate (di_cs d) s"
  let ?s2 = "flush_prefix (di_clk d) (di_data d) PREFIX_DATA ?s1"
  note a = cs_activate_wired [OF assms, of s]
  note p = flush_prefix_wired [OF assms a(2), of PREFIX_DATA]
  note z = flush_zero_address_wired [OF assms p(2)]
  have start: "wired d s (display_data_start d s) ([True, False, True] @ replicate 7 False)"
    "selected d (display_data_start d s)"
    using wired_trans [OF wired_trans [OF a(1) p(1)] z(1)] z(2)
    by (simp_all add: display_data_start_def)
  have columns: "wired d t (fold (display_data_column d) cs t) (concat (map (\<lambda>c. map (bit c) [0..<8]) cs))"
    if "selected d t" for cs t
    using that
  proof (induction cs arbitrary: t)
    case Nil
    then show ?case by (simp add: wired_refl)
  next
    case (Cons c cs)
    note step = display_data_column_wired [OF assms Cons.prems, of c]
    show ?case
      unfolding fold_simps list.map concat.simps
      by (rule wired_trans [OF step(1) Cons.IH [OF step(2)]])
  qed
  show ?thesis
    using wired_trans [OF wired_trans [OF start(1) columns [OF start(2)]] cs_deactivate_wired [OF assms]]
    by (simp add: display_data_stop_def)
qed

definition sample_display :: display where
  "sample_display = \<lparr>di_cs = 2 ^ 5, di_clk = 2 ^ 3, di_data = 2 ^ 1\<rparr>"

lemma sample_display_ok: "display_ok sample_display"
  unfolding display_ok_def sample_display_def
  by (intro exI [of _ 5] exI [of _ 3] exI [of _ 1]) simp

lemma display_brightness_wire_witness:
  "wired sample_display avr_reset (display_brightness sample_display 5 avr_reset)
    ([True, False, False] @ map (\<lambda>i. bit (0xA0 OR (5 AND 0xF) :: u8) (7 - i)) [0..<8] @ [False])"
  by (rule display_brightness_wire [OF sample_display_ok])

lemma display_columns_wire_witness:
  "wired sample_display avr_reset
    (display_data_stop sample_display (fold (display_data_column sample_display) [3, 200]
      (display_data_start sample_display avr_reset)))
    ([True, False, True] @ replicate 7 False @ concat (map (\<lambda>c. map (bit c) [0..<8]) [3, 200 :: u8]))"
  by (rule display_columns_wire [OF sample_display_ok])

end
