(* ===== verification/Avr_Flush.thy ===== *)
theory Avr_Flush
  imports Avr_Display
begin

text \<open>
  The two pictures behind the display (\<open>src/src/avr/flush.c\<close>): the shift data, a ring of columns
  that scrolls through the display, and the stable data, a picture drawn by the firmware
  itself. Two displays of thirty-two columns stand side by side.
\<close>

section \<open>Operations\<close>

definition flush_brightness_get :: "avr \<Rightarrow> u8" where
  "flush_brightness_get s = fl_brightness (a_flush s)"

definition flush_brightness_set :: "u8 \<Rightarrow> avr \<Rightarrow> avr" where
  "flush_brightness_set b_ness s =
     (if b_ness > FLUSH_BRIGHTNESS_MAX then s
      else
        let s = s\<lparr>a_flush := (a_flush s)\<lparr>fl_brightness := b_ness\<rparr>\<rparr>;
            s = display_brightness (fl_display_left (a_flush s)) b_ness s
        in display_brightness (fl_display_right (a_flush s)) b_ness s)"

definition flush_init :: "avr \<Rightarrow> avr" where
  "flush_init s =
     (let s = s\<lparr>a_flush := (a_flush s)\<lparr>fl_shift_data := buffer_init (fl_shift_data (a_flush s)),
                                       fl_stable_data := replicate 64 0\<rparr>\<rparr>;
          (left, s) = display_init 5 3 1 s;
          s = s\<lparr>a_flush := (a_flush s)\<lparr>fl_display_left := left\<rparr>\<rparr>;
          (right, s) = display_init 4 2 0 s;
          s = s\<lparr>a_flush := (a_flush s)\<lparr>fl_display_right := right,
                                       fl_brightness := FLUSH_BRIGHTNESS_MIN\<rparr>\<rparr>;
          s = flush_brightness_set FLUSH_BRIGHTNESS_MIN s
      in s\<lparr>a_flush := (a_flush s)\<lparr>fl_drain := 0\<rparr>\<rparr>)"

text \<open>A position beyond the data reads as zero.\<close>

definition flush_get_data :: "u8 \<Rightarrow> u8 \<Rightarrow> avr \<Rightarrow> u8" where
  "flush_get_data shift_mode position s =
     (case (if shift_mode \<noteq> 0 then buffer_byte_get (fl_shift_data (a_flush s)) position 0
            else (1, fl_stable_data (a_flush s) ! unat position)) of
        (status, byte) \<Rightarrow> if status \<noteq> 0 then byte else 0)"

definition flush_dump_column :: "u8 \<Rightarrow> nat \<Rightarrow> avr \<Rightarrow> avr" where
  "flush_dump_column shift_mode i s =
     (let s = display_data_column (fl_display_left (a_flush s))
                (flush_get_data shift_mode (of_nat i) s) s
      in display_data_column (fl_display_right (a_flush s))
           (flush_get_data shift_mode (of_nat i + MATRIX_SIZE) s) s)"

definition flush_dump :: "u8 \<Rightarrow> avr \<Rightarrow> avr" where
  "flush_dump shift_mode s =
     (let s = display_data_start (fl_display_left (a_flush s)) s;
          s = display_data_start (fl_display_right (a_flush s)) s;
          s = fold (flush_dump_column shift_mode) [0..<unat MATRIX_SIZE] s;
          s = display_data_stop (fl_display_left (a_flush s)) s
      in display_data_stop (fl_display_right (a_flush s)) s)"

definition flush_shift_data :: "bytes \<Rightarrow> u8 \<Rightarrow> avr \<Rightarrow> u8 \<times> avr" where
  "flush_shift_data arr arr_size s =
     (if fl_drain (a_flush s) \<noteq> 0 then (1, s)
      else case buffer_array_fill (fl_shift_data (a_flush s)) arr arr_size of
             (status, q) \<Rightarrow> (status, s\<lparr>a_flush := (a_flush s)\<lparr>fl_shift_data := q\<rparr>\<rparr>))"

definition flush_shift_display :: "avr \<Rightarrow> avr" where
  "flush_shift_display s =
     (if buffer_size (fl_shift_data (a_flush s)) < MIN_DATA_SIZE then s
      else
        let s = flush_dump 1 s
        in case buffer_byte_drain (fl_shift_data (a_flush s)) 0 of
             (_, q, _) \<Rightarrow> s\<lparr>a_flush := (a_flush s)\<lparr>fl_shift_data := q\<rparr>\<rparr>)"

definition flush_shift_drain_start :: "avr \<Rightarrow> avr" where
  "flush_shift_drain_start s = s\<lparr>a_flush := (a_flush s)\<lparr>fl_drain := 1,
     fl_shift_data := buffer_clear (fl_shift_data (a_flush s))\<rparr>\<rparr>"

definition flush_shift_drain_stop :: "avr \<Rightarrow> avr" where
  "flush_shift_drain_stop s = s\<lparr>a_flush := (a_flush s)\<lparr>fl_drain := 0\<rparr>\<rparr>"

definition flush_shift_buffer_space :: "avr \<Rightarrow> u8" where
  "flush_shift_buffer_space s = buffer_space (fl_shift_data (a_flush s))"

definition flush_shift_buffer_size :: "avr \<Rightarrow> u8" where
  "flush_shift_buffer_size s = buffer_size (fl_shift_data (a_flush s))"

text \<open>The position of a picture is read into \<open>info\<close>, which keeps its value on failure.\<close>

definition flush_stable_display :: "buf_t \<Rightarrow> avr \<Rightarrow> avr" where
  "flush_stable_display buf s =
     flush_dump 0 (s\<lparr>a_flush := (a_flush s)\<lparr>fl_stable_data :=
       map (\<lambda>i. case buf_byte_get buf (of_nat i) 0 of
                  (status, info) \<Rightarrow> if status \<noteq> 0 then info else 0) [0..<unat MIN_DATA_SIZE]\<rparr>\<rparr>)"

section \<open>What drawing leaves alone\<close>

text \<open>The display code changes the port and nothing else.\<close>

definition off_port :: "avr \<Rightarrow> avr" where
  "off_port s = s\<lparr>a_io := (a_io s)(PORTC := 0), a_wire := []\<rparr>"

definition only_port :: "(avr \<Rightarrow> avr) \<Rightarrow> bool" where
  "only_port f \<longleftrightarrow> (\<forall>s. off_port (f s) = off_port s)"

lemma only_port_comp: "only_port f \<Longrightarrow> only_port g \<Longrightarrow> only_port (\<lambda>s. g (f s))"
  by (simp add: only_port_def)

lemma only_port_id: "only_port (\<lambda>s. s)"
  by (simp add: only_port_def)

lemma only_port_flush_bit: "only_port (flush_bit clk data b)"
  by (simp add: only_port_def off_port_def flush_bit_def port_or_def port_clear_def port_write_def
      io_set_def Let_def)

lemma only_port_bits:
  "only_port (flush_bits_up clk data v m n)" "only_port (flush_bits_down clk data v m n)"
proof -
  show "only_port (flush_bits_up clk data v m n)"
  proof (induction n arbitrary: m)
    case 0
    then show ?case using only_port_id by simp
  next
    case (Suc n)
    then show ?case
      unfolding flush_bits_up.simps by (rule only_port_comp [OF only_port_flush_bit])
  qed
  show "only_port (flush_bits_down clk data v m n)"
  proof (induction n arbitrary: m)
    case 0
    then show ?case using only_port_id by simp
  next
    case (Suc n)
    then show ?case
      unfolding flush_bits_down.simps by (rule only_port_comp [OF only_port_flush_bit])
  qed
qed

lemma only_portD:
  assumes "only_port f"
  shows "a_counter (f s) = a_counter s" "a_cron (f s) = a_cron s"
    "a_at (f s) = a_at s" "a_heartbeat (f s) = a_heartbeat s"
    "a_postpone (f s) = a_postpone s" "a_out_buf (f s) = a_out_buf s"
    "a_spi (f s) = a_spi s" "a_decode (f s) = a_decode s"
    "a_flush (f s) = a_flush s" "a_mode (f s) = a_mode s"
    "a_menu (f s) = a_menu s" "a_twi (f s) = a_twi s"
    "a_watch (f s) = a_watch s" "a_rotor (f s) = a_rotor s"
    "r \<noteq> PORTC \<Longrightarrow> io_get r (f s) = io_get r s"
proof -
  have eq: "off_port (f s) = off_port s" using assms by (simp add: only_port_def)
  show "a_counter (f s) = a_counter s" using arg_cong [OF eq, of a_counter] by (simp add: off_port_def)
  show "a_cron (f s) = a_cron s" using arg_cong [OF eq, of a_cron] by (simp add: off_port_def)
  show "a_at (f s) = a_at s" using arg_cong [OF eq, of a_at] by (simp add: off_port_def)
  show "a_heartbeat (f s) = a_heartbeat s" using arg_cong [OF eq, of a_heartbeat] by (simp add: off_port_def)
  show "a_postpone (f s) = a_postpone s" using arg_cong [OF eq, of a_postpone] by (simp add: off_port_def)
  show "a_out_buf (f s) = a_out_buf s" using arg_cong [OF eq, of a_out_buf] by (simp add: off_port_def)
  show "a_spi (f s) = a_spi s" using arg_cong [OF eq, of a_spi] by (simp add: off_port_def)
  show "a_decode (f s) = a_decode s" using arg_cong [OF eq, of a_decode] by (simp add: off_port_def)
  show "a_flush (f s) = a_flush s" using arg_cong [OF eq, of a_flush] by (simp add: off_port_def)
  show "a_mode (f s) = a_mode s" using arg_cong [OF eq, of a_mode] by (simp add: off_port_def)
  show "a_menu (f s) = a_menu s" using arg_cong [OF eq, of a_menu] by (simp add: off_port_def)
  show "a_twi (f s) = a_twi s" using arg_cong [OF eq, of a_twi] by (simp add: off_port_def)
  show "a_watch (f s) = a_watch s" using arg_cong [OF eq, of a_watch] by (simp add: off_port_def)
  show "a_rotor (f s) = a_rotor s" using arg_cong [OF eq, of a_rotor] by (simp add: off_port_def)
  show "r \<noteq> PORTC \<Longrightarrow> io_get r (f s) = io_get r s"
    using arg_cong [OF eq, of "\<lambda>s. a_io s r"] by (simp add: off_port_def io_get_def)
qed

lemma only_port_display:
  "only_port (cs_activate cs)" "only_port (cs_deactivate cs)" "only_port (display_data_start d)"
  "only_port (display_data_column d c)" "only_port (display_data_stop d)" "only_port (display_brightness d v)"
  "only_port (display_start c k dt)"
proof -
  have bits: "off_port (flush_bit clk data b s) = off_port s"
    "off_port (flush_bits_up clk data v m n s) = off_port s"
    "off_port (flush_bits_down clk data v m n s) = off_port s" for clk data b v m n s
    using only_port_flush_bit only_port_bits by (simp_all add: only_port_def)
  have zeros: "off_port (((flush_bit clk data 0) ^^ n) s) = off_port s" for clk data n s
    by (induction n) (simp_all add: bits)
  have cs: "off_port (cs_activate c s) = off_port s" "off_port (cs_deactivate c s) = off_port s" for c s
    by (simp_all add: off_port_def cs_activate_def cs_deactivate_def port_or_def
        port_clear_def port_write_def io_set_def)
  show "only_port (cs_activate cs)" "only_port (cs_deactivate cs)" "only_port (display_data_start d)"
    "only_port (display_data_column d c)" "only_port (display_data_stop d)" "only_port (display_brightness d v)"
    "only_port (display_start c k dt)"
    by (simp_all add: only_port_def cs bits zeros display_data_start_def flush_zero_address_def
        flush_prefix_def display_data_column_def flush_nibble_def display_data_stop_def
        display_brightness_def flush_cmd_def display_start_def)
qed

lemma only_port_dump: "only_port (flush_dump m)"
proof -
  have app: "off_port (display_data_start d s) = off_port s" "off_port (display_data_column d c s) = off_port s"
    "off_port (display_data_stop d s) = off_port s" for d c s
    using only_port_display by (simp_all add: only_port_def)
  have "off_port (fold (flush_dump_column m) is s) = off_port s" for "is" s
    by (induction "is" arbitrary: s) (simp_all add: flush_dump_column_def Let_def app)
  then show ?thesis by (simp add: only_port_def flush_dump_def Let_def app)
qed

section \<open>Two displays on one port\<close>

text \<open>A display whose three bits are not touched reads nothing and stays selected.\<close>

definition apart :: "display \<Rightarrow> u8 \<Rightarrow> bool" where
  "apart d v \<longleftrightarrow> v AND (di_cs d OR di_clk d OR di_data d) = 0"

definition unseen :: "display \<Rightarrow> avr \<Rightarrow> avr \<Rightarrow> bool" where
  "unseen d s s' \<longleftrightarrow> wired d s s' [] \<and>
     (io_get PORTC s' AND di_cs d) = (io_get PORTC s AND di_cs d)"

lemma unseen_refl: "unseen d s s"
  by (simp add: unseen_def wired_refl)

lemma unseen_trans: "unseen d s s' \<Longrightarrow> unseen d s' s'' \<Longrightarrow> unseen d s s''"
  using wired_trans by (fastforce simp: unseen_def)

lemma unseen_selected: "unseen d s s' \<Longrightarrow> selected d s \<Longrightarrow> selected d s'"
  by (simp add: unseen_def selected_def)

lemma apart_bits:
  assumes "apart d v"
  shows "(w OR v) AND di_cs d = w AND di_cs d" "(w OR v) AND di_clk d = w AND di_clk d"
    "(w AND NOT v) AND di_cs d = w AND di_cs d" "(w AND NOT v) AND di_clk d = w AND di_clk d"
proof -
  have "\<not> bit v n" if "bit (di_cs d) n \<or> bit (di_clk d) n" for n
    using assms that unfolding apart_def
    by (metis bit_and_iff bit_or_iff bit_0_eq bot_apply bot_bool_def)
  then show "(w OR v) AND di_cs d = w AND di_cs d" "(w OR v) AND di_clk d = w AND di_clk d"
    "(w AND NOT v) AND di_cs d = w AND di_cs d" "(w AND NOT v) AND di_clk d = w AND di_clk d"
    by (auto intro!: bit_word_eqI simp: bit_and_iff bit_or_iff bit_not_iff)
qed

lemma port_or_unseen: "apart d v \<Longrightarrow> unseen d s (port_or v s)"
  by (auto simp: unseen_def wired_def port_or_def apart_bits)

lemma port_clear_unseen: "apart d v \<Longrightarrow> unseen d s (port_clear v s)"
  by (auto simp: unseen_def wired_def port_clear_def apart_bits)

lemma flush_bit_unseen:
  "apart d clk \<Longrightarrow> apart d data \<Longrightarrow> unseen d s (flush_bit clk data b s)"
  by (auto simp: flush_bit_def Let_def intro!: port_or_unseen port_clear_unseen
      intro: unseen_trans)

lemma flush_bits_unseen:
  assumes "apart d clk" "apart d data"
  shows "unseen d s (flush_bits_up clk data v m n s)" "unseen d s (flush_bits_down clk data v m n s)"
proof -
  show "unseen d s (flush_bits_up clk data v m n s)"
  proof (induction n arbitrary: m s)
    case (Suc n)
    show ?case
      unfolding flush_bits_up.simps
      by (rule unseen_trans [OF flush_bit_unseen [OF assms] Suc.IH])
  qed (simp add: unseen_refl)
  show "unseen d s (flush_bits_down clk data v m n s)"
  proof (induction n arbitrary: m s)
    case (Suc n)
    show ?case
      unfolding flush_bits_down.simps
      by (rule unseen_trans [OF flush_bit_unseen [OF assms] Suc.IH])
  qed (simp add: unseen_refl)
qed

definition separate :: "display \<Rightarrow> display \<Rightarrow> bool" where
  "separate d d' \<longleftrightarrow> apart d (di_cs d') \<and> apart d (di_clk d') \<and> apart d (di_data d')"

lemma cs_unseen:
  "apart d cs \<Longrightarrow> unseen d s (cs_activate cs s)" "apart d cs \<Longrightarrow> unseen d s (cs_deactivate cs s)"
  by (auto simp: cs_activate_def cs_deactivate_def
      intro: unseen_trans port_or_unseen port_clear_unseen)

lemma column_unseen:
  assumes "separate d d'"
  shows "unseen d s (display_data_column d' c s)"
proof -
  have a: "apart d (di_clk d')" "apart d (di_data d')"
    using assms by (simp_all add: separate_def)
  show ?thesis
    unfolding display_data_column_def flush_nibble_def
    by (rule unseen_trans [OF flush_bits_unseen(1) [OF a] flush_bits_unseen(1) [OF a]])
qed

lemma data_start_unseen:
  assumes "separate d d'"
  shows "unseen d s (display_data_start d' s)"
proof -
  have a: "apart d (di_cs d')" "apart d (di_clk d')" "apart d (di_data d')"
    using assms by (simp_all add: separate_def)
  have zeros: "unseen d t (((flush_bit (di_clk d') (di_data d') 0) ^^ n) t)" for n t
  proof (induction n)
    case (Suc n)
    show ?case
      unfolding funpow.simps o_apply
      by (rule unseen_trans [OF Suc.IH flush_bit_unseen [OF a(2,3)]])
  qed (simp add: unseen_refl)
  show ?thesis
    unfolding display_data_start_def flush_zero_address_def flush_prefix_def
    by (rule unseen_trans [OF unseen_trans [OF cs_unseen(1) [OF a(1)]
          flush_bits_unseen(2) [OF a(2,3)]] zeros])
qed

section \<open>A picture on both displays\<close>

definition displays_ok :: "avr \<Rightarrow> bool" where
  "displays_ok s \<longleftrightarrow>
     display_ok (fl_display_left (a_flush s)) \<and> display_ok (fl_display_right (a_flush s)) \<and>
     separate (fl_display_left (a_flush s)) (fl_display_right (a_flush s)) \<and>
     separate (fl_display_right (a_flush s)) (fl_display_left (a_flush s))"

text \<open>Writing to the port leaves the modules alone.\<close>

lemma port_keeps [simp]:
  "a_flush (port_write v s) = a_flush s" "a_flush (port_or v s) = a_flush s"
  "a_flush (port_clear v s) = a_flush s"
  by (simp_all add: port_write_def port_or_def port_clear_def)

lemma flush_bit_keeps [simp]: "a_flush (flush_bit clk data b s) = a_flush s"
  by (simp add: flush_bit_def Let_def)

lemma flush_bits_keep [simp]:
  "a_flush (flush_bits_up clk data v m n s) = a_flush s"
  "a_flush (flush_bits_down clk data v m n s) = a_flush s"
proof -
  show "a_flush (flush_bits_up clk data v m n s) = a_flush s"
    by (induction n arbitrary: m s) simp_all
  show "a_flush (flush_bits_down clk data v m n s) = a_flush s"
    by (induction n arbitrary: m s) simp_all
qed

lemma display_keeps [simp]:
  "a_flush (cs_activate cs s) = a_flush s" "a_flush (cs_deactivate cs s) = a_flush s"
  "a_flush (flush_zero_address clk data s) = a_flush s"
  "a_flush (display_data_start d s) = a_flush s"
  "a_flush (display_data_column d c s) = a_flush s"
  "a_flush (display_data_stop d s) = a_flush s"
  "a_flush (display_brightness d v s) = a_flush s"
proof -
  have "a_flush (((flush_bit clk data 0) ^^ n) s) = a_flush s" for clk data n s
    by (induction n) simp_all
  then show "a_flush (cs_activate cs s) = a_flush s" "a_flush (cs_deactivate cs s) = a_flush s"
    "a_flush (flush_zero_address clk data s) = a_flush s"
    "a_flush (display_data_start d s) = a_flush s"
    "a_flush (display_data_column d c s) = a_flush s"
    "a_flush (display_data_stop d s) = a_flush s"
    "a_flush (display_brightness d v s) = a_flush s"
    by (simp_all add: cs_activate_def cs_deactivate_def flush_zero_address_def
        display_data_start_def flush_prefix_def display_data_column_def flush_nibble_def
        display_data_stop_def display_brightness_def flush_cmd_def)
qed

lemma flush_get_data_cong: "a_flush s = a_flush s' \<Longrightarrow> flush_get_data m i s = flush_get_data m i s'"
  by (simp add: flush_get_data_def)

lemma dump_column_keeps [simp]: "a_flush (flush_dump_column m i s) = a_flush s"
  by (simp add: flush_dump_column_def Let_def)

lemma dump_columns_keep [simp]: "a_flush (fold (flush_dump_column m) is s) = a_flush s"
  by (induction "is" arbitrary: s) simp_all

lemma flush_dump_keeps [simp]: "a_flush (flush_dump m s) = a_flush s"
  by (simp add: flush_dump_def Let_def)

lemma dump_columns_wired:
  assumes "displays_ok s" "selected (fl_display_left (a_flush s)) t"
    "selected (fl_display_right (a_flush s)) t" "a_flush t = a_flush s"
  shows "wired (fl_display_left (a_flush s)) t (fold (flush_dump_column m) is t)
      (concat (map (\<lambda>i. map (bit (flush_get_data m (of_nat i) s)) [0..<8]) is))
    \<and> wired (fl_display_right (a_flush s)) t (fold (flush_dump_column m) is t)
      (concat (map (\<lambda>i. map (bit (flush_get_data m (of_nat i + 32) s)) [0..<8]) is))"
  using assms(2-4)
proof (induction "is" arbitrary: t)
  case Nil
  then show ?case by (simp add: wired_refl)
next
  case (Cons i rest)
  let ?l = "fl_display_left (a_flush s)" and ?r = "fl_display_right (a_flush s)"
  let ?t1 = "display_data_column ?l (flush_get_data m (of_nat i) s) t"
  let ?t2 = "display_data_column ?r (flush_get_data m (of_nat i + 32) s) ?t1"
  have t2: "flush_dump_column m i t = ?t2"
    using Cons.prems(3)
    by (simp add: flush_dump_column_def Let_def flush_get_data_cong [of t s] flush_get_data_cong [of ?t1 s])
  have ok: "display_ok ?l" "display_ok ?r" "separate ?l ?r" "separate ?r ?l"
    using assms(1) by (simp_all add: displays_ok_def)
  note left = display_data_column_wired [OF ok(1) Cons.prems(1)]
  have r1: "unseen ?r t ?t1" by (rule column_unseen [OF ok(4)])
  note right = display_data_column_wired [OF ok(2) unseen_selected [OF r1 Cons.prems(2)]]
  have l2: "unseen ?l ?t1 ?t2" by (rule column_unseen [OF ok(3)])
  have IH: "wired ?l ?t2 (fold (flush_dump_column m) rest ?t2)
      (concat (map (\<lambda>i. map (bit (flush_get_data m (of_nat i) s)) [0..<8]) rest))"
    "wired ?r ?t2 (fold (flush_dump_column m) rest ?t2)
      (concat (map (\<lambda>i. map (bit (flush_get_data m (of_nat i + 32) s)) [0..<8]) rest))"
    using Cons.IH [OF unseen_selected [OF l2 left(2)] right(2)] Cons.prems(3) by simp_all
  have "wired ?l t ?t2 (map (bit (flush_get_data m (of_nat i) s)) [0..<8])"
    "wired ?r t ?t2 (map (bit (flush_get_data m (of_nat i + 32) s)) [0..<8])"
    using wired_trans [OF left(1) conjunct1 [OF l2 [unfolded unseen_def]]]
      wired_trans [OF conjunct1 [OF r1 [unfolded unseen_def]] right(1)]
    by (simp_all only: append_Nil append_Nil2)
  from wired_trans [OF this(1) IH(1)] wired_trans [OF this(2) IH(2)] show ?case
    by (simp only: fold_simps t2 list.map concat.simps)
qed

lemma display_data_start_wired:
  assumes "display_ok d"
  shows "wired d s (display_data_start d s) ([True, False, True] @ replicate 7 False)"
    "selected d (display_data_start d s)"
proof -
  note a = cs_activate_wired [OF assms, of s]
  note p = flush_prefix_wired [OF assms a(2), of PREFIX_DATA]
  note z = flush_zero_address_wired [OF assms p(2)]
  show "wired d s (display_data_start d s) ([True, False, True] @ replicate 7 False)"
    "selected d (display_data_start d s)"
    using wired_trans [OF wired_trans [OF a(1) p(1)] z(1)] z(2)
    by (simp_all add: display_data_start_def)
qed

text \<open>
  C23: a dump shows columns 0 to 31 of its picture on the left display and columns 32 to 63 on the
  right one, although both hang on the same port: each display reads the data prefix, the zero
  address and its own thirty-two columns, lowest bit first, and nothing of its neighbour's.
\<close>

theorem flush_dump_wire:
  assumes "displays_ok s"
  shows "wired (fl_display_left (a_flush s)) s (flush_dump m s)
      ([True, False, True] @ replicate 7 False @
       concat (map (\<lambda>i. map (bit (flush_get_data m (of_nat i) s)) [0..<8]) [0..<32]))
    \<and> wired (fl_display_right (a_flush s)) s (flush_dump m s)
      ([True, False, True] @ replicate 7 False @
       concat (map (\<lambda>i. map (bit (flush_get_data m (of_nat i + 32) s)) [0..<8]) [0..<32]))"
proof -
  let ?l = "fl_display_left (a_flush s)" and ?r = "fl_display_right (a_flush s)"
  have ok: "display_ok ?l" "display_ok ?r" "separate ?l ?r" "separate ?r ?l"
    and cs: "apart ?l (di_cs ?r)" "apart ?r (di_cs ?l)"
    using assms by (simp_all add: displays_ok_def separate_def)
  let ?s1 = "display_data_start ?l s"
  let ?s2 = "display_data_start ?r ?s1"
  let ?s3 = "fold (flush_dump_column m) [0..<32] ?s2"
  let ?s4 = "cs_deactivate (di_cs ?l) ?s3"
  let ?s5 = "cs_deactivate (di_cs ?r) ?s4"
  have dump: "flush_dump m s = ?s5"
    by (simp add: flush_dump_def Let_def display_data_stop_def)
  note l1 = display_data_start_wired [OF ok(1), of s]
  note r1 = data_start_unseen [OF ok(4), of s]
  note l2 = data_start_unseen [OF ok(3), of ?s1]
  note r2 = display_data_start_wired [OF ok(2), of ?s1]
  have keeps: "a_flush ?s2 = a_flush s" by simp
  note c = dump_columns_wired [OF assms unseen_selected [OF l2 l1(2)] r2(2) keeps, of m "[0..<32]"]
  note quiet = unseen_def [THEN iffD1, THEN conjunct1]
  have left: "wired ?l s ?s5 ([True, False, True] @ replicate 7 False @
      concat (map (\<lambda>i. map (bit (flush_get_data m (of_nat i) s)) [0..<8]) [0..<32]))"
    using wired_trans [OF wired_trans [OF wired_trans [OF l1(1) quiet [OF l2]] c [THEN conjunct1]]
        wired_trans [OF cs_deactivate_wired [OF ok(1)] quiet [OF cs_unseen(2) [OF cs(1)]]]]
    by (simp only: append_Nil append_Nil2 append_assoc)
  have right: "wired ?r s ?s5 ([True, False, True] @ replicate 7 False @
      concat (map (\<lambda>i. map (bit (flush_get_data m (of_nat i + 32) s)) [0..<8]) [0..<32]))"
    using wired_trans [OF wired_trans [OF wired_trans [OF quiet [OF r1] r2(1)] c [THEN conjunct2]]
        wired_trans [OF quiet [OF cs_unseen(2) [OF cs(2)]] cs_deactivate_wired [OF ok(2)]]]
    by (simp only: append_Nil append_Nil2 append_assoc)
  from left right show ?thesis unfolding dump by (rule conjI)
qed

text \<open>The wiring that the initialisation chooses is such a pair of displays.\<close>

lemma flush_cmd_keeps [simp]:
  "a_flush (flush_cmd clk data cmd s) = a_flush s"
  "a_flush (flush_prefix clk data p s) = a_flush s"
  "a_flush (io_or r v s) = a_flush s"
  by (simp_all add: flush_cmd_def flush_prefix_def io_or_def io_set_def)

lemma display_init_keeps [simp]:
  "fst (display_init cs clk data s) =
     \<lparr>di_cs = push_bit (unat cs) 1, di_clk = push_bit (unat clk) 1, di_data = push_bit (unat data) 1\<rparr>"
  "a_flush (snd (display_init cs clk data s)) = a_flush s"
  by (simp_all add: display_init_def Let_def display_start_def)

lemma flush_brightness_set_displays [simp]:
  "fl_display_left (a_flush (flush_brightness_set b s)) = fl_display_left (a_flush s)"
  "fl_display_right (a_flush (flush_brightness_set b s)) = fl_display_right (a_flush s)"
  by (simp_all add: flush_brightness_set_def Let_def)

lemma flush_init_displays: "displays_ok (flush_init s)"
proof -
  have "fl_display_left (a_flush (flush_init s)) = \<lparr>di_cs = 2 ^ 5, di_clk = 2 ^ 3, di_data = 2 ^ 1\<rparr>"
    "fl_display_right (a_flush (flush_init s)) = \<lparr>di_cs = 2 ^ 4, di_clk = 2 ^ 2, di_data = 2 ^ 0\<rparr>"
    by (simp_all add: flush_init_def Let_def case_prod_beta)
  moreover have "display_ok \<lparr>di_cs = 2 ^ 5, di_clk = 2 ^ 3, di_data = 2 ^ 1\<rparr>"
    unfolding display_ok_def by (intro exI [of _ 5] exI [of _ 3] exI [of _ 1]) simp
  moreover have "display_ok \<lparr>di_cs = 2 ^ 4, di_clk = 2 ^ 2, di_data = 2 ^ 0\<rparr>"
    unfolding display_ok_def by (intro exI [of _ 4] exI [of _ 2] exI [of _ 0]) simp
  ultimately show ?thesis by (simp add: displays_ok_def separate_def apart_def)
qed

lemma flush_dump_wire_witness:
  "let s = flush_init avr_reset in
    wired (fl_display_left (a_flush s)) s (flush_dump 1 s)
      ([True, False, True] @ replicate 7 False @
       concat (map (\<lambda>i. map (bit (flush_get_data 1 (of_nat i) s)) [0..<8]) [0..<32]))
    \<and> wired (fl_display_right (a_flush s)) s (flush_dump 1 s)
      ([True, False, True] @ replicate 7 False @
       concat (map (\<lambda>i. map (bit (flush_get_data 1 (of_nat i + 32) s)) [0..<8]) [0..<32]))"
  unfolding Let_def by (rule flush_dump_wire [OF flush_init_displays])

end
