(* ===== verification/Avr_Link.thy ===== *)
theory Avr_Link
  imports Avr_Flush
begin

text \<open>
  The firmware's sending half of the SPI link: the two byte buffers of the SPI hardware
  (\<open>src/src/avr/spi.c\<close>), the one-message buffer that keeps numbered messages back until the
  firmware has room for the next one (\<open>postpone.c\<close>), the message builders (\<open>encode.c\<close>) and the
  debug messages (\<open>debug.c\<close>). The interrupt of the confirm line is in \<open>Avr_Main\<close>, for it resets
  the decoder.
\<close>

section \<open>\<open>spi.c\<close>\<close>

definition IRQ_BIT :: u8 where
  "IRQ_BIT = 16"

definition CONFIRM_BIT :: u8 where
  "CONFIRM_BIT = 32"

definition avr_spi_interrupt_start :: "avr \<Rightarrow> avr" where
  "avr_spi_interrupt_start s = io_or PORTB IRQ_BIT s"

definition interrupt_stop :: "avr \<Rightarrow> avr" where
  "interrupt_stop s = io_clear PORTB IRQ_BIT s"

definition misconfirm :: "avr \<Rightarrow> avr" where
  "misconfirm s = io_clear PORTB CONFIRM_BIT s"

text \<open>Pins: \<open>MISO\<close> is bit 3; \<open>ISC31\<close> is bit 7, \<open>INT3\<close> bit 3, \<open>SPIE\<close> bit 7 and \<open>SPE\<close> bit 6.\<close>

definition spi_init :: "avr \<Rightarrow> avr" where
  "spi_init s =
     (let s = io_or DDRB (8 OR IRQ_BIT OR CONFIRM_BIT) s;
          s = io_set SPDR 0 s;
          s = s\<lparr>a_spi := \<lparr>sp_read_buf = buffer_init (sp_read_buf (a_spi s)),
                          sp_write_buf = buffer_init (sp_write_buf (a_spi s))\<rparr>\<rparr>;
          s = misconfirm s;
          s = io_or EICRA 128 s;
          s = io_or EIMSK 8 s;
          s = interrupt_stop s
      in io_set SPCR (128 OR 64) s)"

definition spi_read_symbol :: "u8 \<Rightarrow> avr \<Rightarrow> u8 \<times> avr \<times> u8" where
  "spi_read_symbol symbol s =
     (case buffer_byte_drain (sp_read_buf (a_spi s)) symbol of
        (status, q, symbol') \<Rightarrow> (status, s\<lparr>a_spi := (a_spi s)\<lparr>sp_read_buf := q\<rparr>\<rparr>, symbol'))"

definition spi_read_array :: "bytes \<Rightarrow> u8 \<Rightarrow> avr \<Rightarrow> u8 \<times> avr \<times> bytes" where
  "spi_read_array arr arr_size s =
     (case buffer_array_drain (sp_read_buf (a_spi s)) arr arr_size of
        (status, q, arr') \<Rightarrow> (status, s\<lparr>a_spi := (a_spi s)\<lparr>sp_read_buf := q\<rparr>\<rparr>, arr'))"

definition spi_read_space :: "avr \<Rightarrow> u8" where
  "spi_read_space s = buffer_space (sp_read_buf (a_spi s))"

definition spi_write_space :: "avr \<Rightarrow> u8" where
  "spi_write_space s = buffer_space (sp_write_buf (a_spi s))"

definition spi_read_size :: "avr \<Rightarrow> u8" where
  "spi_read_size s = buffer_size (sp_read_buf (a_spi s))"

definition spi_write_array :: "bytes \<Rightarrow> u8 \<Rightarrow> avr \<Rightarrow> u8 \<times> avr" where
  "spi_write_array arr arr_size s =
     (case buffer_array_fill (sp_write_buf (a_spi s)) arr arr_size of
        (status, q) \<Rightarrow> (status, avr_spi_interrupt_start (s\<lparr>a_spi := (a_spi s)\<lparr>sp_write_buf := q\<rparr>\<rparr>)))"

text \<open>
  The interrupt after every byte: \<open>SPDR\<close> holds the byte that came in and afterwards the byte
  that goes out with the next exchange.
\<close>

definition spi_stc_isr :: "avr \<Rightarrow> avr" where
  "spi_stc_isr s =
     (case buffer_byte_fill (sp_read_buf (a_spi s)) (io_get SPDR s) of
        (status, rq) \<Rightarrow>
          let s = s\<lparr>a_spi := (a_spi s)\<lparr>sp_read_buf := rq\<rparr>\<rparr>
          in if status = 0 then io_set SPDR SPI_READ_OVERFLOW s
             else
               (case buffer_byte_drain (sp_write_buf (a_spi s)) 0 of
                  (status, wq, to_send) \<Rightarrow>
                    let s = s\<lparr>a_spi := (a_spi s)\<lparr>sp_write_buf := wq\<rparr>\<rparr>
                    in if status \<noteq> 0 then io_set SPDR to_send s
                       else interrupt_stop (io_set SPDR SPI_WRITE_UNDERFLOW s)))"

section \<open>\<open>postpone.c\<close>\<close>

definition is_writable :: "avr \<Rightarrow> u8" where
  "is_writable s = of_flag (spi_write_space s \<ge> ENOUGH_SPACE)"

definition is_enough_space :: "avr \<Rightarrow> u8" where
  "is_enough_space s = of_flag (is_writable s = 1 \<and> spi_read_space s \<ge> ENOUGH_SPACE
     \<and> flush_shift_buffer_space s \<ge> ENOUGH_SPACE)"

definition postpone_flush :: "bytes \<Rightarrow> u8 \<Rightarrow> avr \<Rightarrow> avr" where
  "postpone_flush msg msg_size s = snd (spi_write_array msg msg_size s)"

definition postpone_init :: "avr \<Rightarrow> avr" where
  "postpone_init s = s\<lparr>a_postpone :=
     \<lparr>pp_message = fold (\<lambda>i m. m[i := SPI_WRITE_UNDERFLOW]) [0..<unat POSTPONE_BUF_SIZE]
        (pp_message (a_postpone s)),
      pp_size = 0\<rparr>\<rparr>"

definition postpone_try :: "avr \<Rightarrow> avr" where
  "postpone_try s =
     (if pp_size (a_postpone s) = 0 \<or> is_enough_space s = 0 then s
      else
        let s = postpone_flush (pp_message (a_postpone s)) (pp_size (a_postpone s)) s
        in s\<lparr>a_postpone := (a_postpone s)\<lparr>pp_size := 0\<rparr>\<rparr>)"

definition postpone_message :: "bytes \<Rightarrow> u8 \<Rightarrow> u8 \<Rightarrow> avr \<Rightarrow> avr" where
  "postpone_message msg msg_size serial_id s =
     (if serial_id = SERIAL_ID_TO_IGNORE
      then if is_writable s = 1 then postpone_flush msg msg_size s else s
      else if pp_size (a_postpone s) \<noteq> 0 then s
      else s\<lparr>a_postpone :=
        \<lparr>pp_message = fold (\<lambda>i m. m[i := msg ! i]) [0..<unat msg_size] (pp_message (a_postpone s)),
         pp_size = msg_size\<rparr>\<rparr>)"

section \<open>\<open>encode.c\<close>\<close>

text \<open>The header goes to cells 0 to 3; the result is the index of the last byte written.\<close>

definition encode_msg :: "u8 \<Rightarrow> u8 \<Rightarrow> u8 \<Rightarrow> avr \<Rightarrow> u8 \<times> avr" where
  "encode_msg msg_id serial_id sz s =
     (3, s\<lparr>a_out_buf := (a_out_buf s)[0 := EYE_CATCH, 1 := sz, 2 := serial_id, 3 := msg_id]\<rparr>)"

text \<open>\<open>out_buf[++len] = payload\<close>\<close>

definition out_put :: "u8 \<Rightarrow> u8 \<times> avr \<Rightarrow> u8 \<times> avr" where
  "out_put payload ls =
     (fst ls + 1, (snd ls)\<lparr>a_out_buf := (a_out_buf (snd ls))[unat (fst ls + 1) := payload]\<rparr>)"

text \<open>\<open>postpone_message (out_buf, ++len, serial_id)\<close>\<close>

definition out_post :: "u8 \<Rightarrow> u8 \<times> avr \<Rightarrow> avr" where
  "out_post serial_id ls = postpone_message (a_out_buf (snd ls)) (fst ls + 1) serial_id (snd ls)"

definition encode_msg_0 :: "u8 \<Rightarrow> u8 \<Rightarrow> avr \<Rightarrow> avr" where
  "encode_msg_0 msg_id serial_id s = out_post serial_id (encode_msg msg_id serial_id 2 s)"

definition encode_msg_1 :: "u8 \<Rightarrow> u8 \<Rightarrow> u8 \<Rightarrow> avr \<Rightarrow> avr" where
  "encode_msg_1 msg_id serial_id p1 s =
     out_post serial_id (out_put p1 (encode_msg msg_id serial_id 3 s))"

definition encode_msg_2 :: "u8 \<Rightarrow> u8 \<Rightarrow> u8 \<Rightarrow> u8 \<Rightarrow> avr \<Rightarrow> avr" where
  "encode_msg_2 msg_id serial_id p1 p2 s =
     out_post serial_id (out_put p2 (out_put p1 (encode_msg msg_id serial_id 4 s)))"

definition encode_msg_3 :: "u8 \<Rightarrow> u8 \<Rightarrow> u8 \<Rightarrow> u8 \<Rightarrow> u8 \<Rightarrow> avr \<Rightarrow> avr" where
  "encode_msg_3 msg_id serial_id p1 p2 p3 s =
     out_post serial_id (out_put p3 (out_put p2 (out_put p1 (encode_msg msg_id serial_id 5 s))))"

definition encode_msg_4 :: "u8 \<Rightarrow> u8 \<Rightarrow> u8 \<Rightarrow> u8 \<Rightarrow> u8 \<Rightarrow> u8 \<Rightarrow> avr \<Rightarrow> avr" where
  "encode_msg_4 msg_id serial_id p1 p2 p3 p4 s =
     out_post serial_id (out_put p4 (out_put p3 (out_put p2 (out_put p1
       (encode_msg msg_id serial_id 6 s)))))"

definition encode_msg_5 :: "u8 \<Rightarrow> u8 \<Rightarrow> u8 \<Rightarrow> u8 \<Rightarrow> u8 \<Rightarrow> u8 \<Rightarrow> u8 \<Rightarrow> avr \<Rightarrow> avr" where
  "encode_msg_5 msg_id serial_id p1 p2 p3 p4 p5 s =
     out_post serial_id (out_put p5 (out_put p4 (out_put p3 (out_put p2 (out_put p1
       (encode_msg msg_id serial_id 7 s))))))"

definition encode_msg_6 ::
  "u8 \<Rightarrow> u8 \<Rightarrow> u8 \<Rightarrow> u8 \<Rightarrow> u8 \<Rightarrow> u8 \<Rightarrow> u8 \<Rightarrow> u8 \<Rightarrow> avr \<Rightarrow> avr" where
  "encode_msg_6 msg_id serial_id p1 p2 p3 p4 p5 p6 s =
     out_post serial_id (out_put p6 (out_put p5 (out_put p4 (out_put p3 (out_put p2 (out_put p1
       (encode_msg msg_id serial_id 8 s)))))))"

definition encode_msg_8 ::
  "u8 \<Rightarrow> u8 \<Rightarrow> u8 \<Rightarrow> u8 \<Rightarrow> u8 \<Rightarrow> u8 \<Rightarrow> u8 \<Rightarrow> u8 \<Rightarrow> u8 \<Rightarrow> u8 \<Rightarrow> avr \<Rightarrow> avr" where
  "encode_msg_8 msg_id serial_id p1 p2 p3 p4 p5 p6 p7 p8 s =
     out_post serial_id (out_put p8 (out_put p7 (out_put p6 (out_put p5 (out_put p4 (out_put p3
       (out_put p2 (out_put p1 (encode_msg msg_id serial_id 10 s)))))))))"

section \<open>\<open>debug.c\<close>\<close>

definition mode_is_connnected :: "avr \<Rightarrow> u8" where
  "mode_is_connnected s = mo_is_connected (a_mode s)"

definition debug_0 :: "u8 \<Rightarrow> u8 \<Rightarrow> avr \<Rightarrow> avr" where
  "debug_0 domain key s =
     (if mode_is_connnected s \<noteq> 0
      then encode_msg_2 MSG_ID_DEBUG SERIAL_ID_TO_IGNORE domain key s else s)"

definition debug_1 :: "u8 \<Rightarrow> u8 \<Rightarrow> u8 \<Rightarrow> avr \<Rightarrow> avr" where
  "debug_1 domain key v1 s =
     (if mode_is_connnected s \<noteq> 0
      then encode_msg_3 MSG_ID_DEBUG SERIAL_ID_TO_IGNORE domain key v1 s else s)"

definition debug_2 :: "u8 \<Rightarrow> u8 \<Rightarrow> u8 \<Rightarrow> u8 \<Rightarrow> avr \<Rightarrow> avr" where
  "debug_2 domain key v1 v2 s =
     (if mode_is_connnected s \<noteq> 0
      then encode_msg_4 MSG_ID_DEBUG SERIAL_ID_TO_IGNORE domain key v1 v2 s else s)"

definition debug_3 :: "u8 \<Rightarrow> u8 \<Rightarrow> u8 \<Rightarrow> u8 \<Rightarrow> u8 \<Rightarrow> avr \<Rightarrow> avr" where
  "debug_3 domain key v1 v2 v3 s =
     (if mode_is_connnected s \<noteq> 0
      then encode_msg_5 MSG_ID_DEBUG SERIAL_ID_TO_IGNORE domain key v1 v2 v3 s else s)"

definition debug_4 :: "u8 \<Rightarrow> u8 \<Rightarrow> u8 \<Rightarrow> u8 \<Rightarrow> u8 \<Rightarrow> u8 \<Rightarrow> avr \<Rightarrow> avr" where
  "debug_4 domain key v1 v2 v3 v4 s =
     (if mode_is_connnected s \<noteq> 0
      then encode_msg_6 MSG_ID_DEBUG SERIAL_ID_TO_IGNORE domain key v1 v2 v3 v4 s else s)"

text \<open>The diagnostic LED is bit 6 of port A.\<close>

definition debug_led_on :: "avr \<Rightarrow> avr" where
  "debug_led_on s = io_or PORTA 64 (io_or DDRA 64 s)"

definition debug_led_off :: "avr \<Rightarrow> avr" where
  "debug_led_off s = io_clear DDRA 64 (io_clear PORTA 64 s)"

definition debug_matrix :: "u8 \<Rightarrow> avr \<Rightarrow> avr" where
  "debug_matrix pattern s =
     flush_stable_display (fold (\<lambda>_ q. snd (buf_byte_fill q pattern)) [0..<64] (buf_init buf_zero)) s"

section \<open>What the link holds\<close>

text \<open>Bytes on their way to the daemon, the message kept back, and bytes that came in.\<close>

definition sent :: "avr \<Rightarrow> bytes" where
  "sent s = buffer_held (sp_write_buf (a_spi s))"

definition waiting :: "avr \<Rightarrow> bytes" where
  "waiting s = take (unat (pp_size (a_postpone s))) (pp_message (a_postpone s))"

definition received :: "avr \<Rightarrow> bytes" where
  "received s = buffer_held (sp_read_buf (a_spi s))"

definition avr_link_ok :: "avr \<Rightarrow> bool" where
  "avr_link_ok s \<longleftrightarrow> buffer_ok (sp_read_buf (a_spi s)) \<and> buffer_ok (sp_write_buf (a_spi s))
     \<and> length (pp_message (a_postpone s)) = 20 \<and> unat (pp_size (a_postpone s)) \<le> 20
     \<and> length (a_out_buf s) = 15"

lemma avr_link_okD:
  assumes "avr_link_ok s"
  shows "buffer_ok (sp_read_buf (a_spi s))" "buffer_ok (sp_write_buf (a_spi s))"
    "length (pp_message (a_postpone s)) = 20" "unat (pp_size (a_postpone s)) \<le> 20"
    "length (a_out_buf s) = 15"
  using assms by (simp_all add: avr_link_ok_def)

lemma waiting_empty: "avr_link_ok s \<Longrightarrow> (waiting s = []) = (pp_size (a_postpone s) = 0)"
  by (auto simp: waiting_def avr_link_ok_def unat_eq_zero)

lemma is_writable_sent: "avr_link_ok s \<Longrightarrow> (is_writable s = 1) = (length (sent s) \<le> 229)"
  using buffer.space_held [OF avr_link_okD(2), of s] buffer.held_le [OF avr_link_okD(2), of s]
  by (auto simp: is_writable_def spi_write_space_def sent_def u8_le_iff)

lemma avr_spi_interrupt_start_keeps [simp]:
  "a_spi (avr_spi_interrupt_start s) = a_spi s" "a_postpone (avr_spi_interrupt_start s) = a_postpone s"
  "a_out_buf (avr_spi_interrupt_start s) = a_out_buf s" "a_flush (avr_spi_interrupt_start s) = a_flush s"
  "a_decode (avr_spi_interrupt_start s) = a_decode s" "a_mode (avr_spi_interrupt_start s) = a_mode s"
  "a_menu (avr_spi_interrupt_start s) = a_menu s" "a_cron (avr_spi_interrupt_start s) = a_cron s"
  "a_heartbeat (avr_spi_interrupt_start s) = a_heartbeat s"
  by (simp_all add: avr_spi_interrupt_start_def)

text \<open>A message written with enough room lands behind what is on its way.\<close>

lemma postpone_flush_effect:
  assumes "avr_link_ok s" "is_writable s = 1" "unat n \<le> 20" "unat n \<le> length msg"
  shows "avr_link_ok (postpone_flush msg n s) \<and> sent (postpone_flush msg n s) = sent s @ take (unat n) msg
    \<and> received (postpone_flush msg n s) = received s
    \<and> a_postpone (postpone_flush msg n s) = a_postpone s
    \<and> a_flush (postpone_flush msg n s) = a_flush s"
proof -
  have "length (sent s) \<le> 229" using assms(1,2) by (simp add: is_writable_sent)
  then obtain q where "buffer_array_fill (sp_write_buf (a_spi s)) msg n = (1, q)" "buffer_ok q"
    "buffer_held q = sent s @ take (unat n) msg"
    using buffer.afill_room [OF avr_link_okD(2) [OF assms(1)], of n msg] assms(3,4)
    by (auto simp: sent_def)
  then show ?thesis
    using assms(1)
    by (simp add: postpone_flush_def spi_write_array_def avr_link_ok_def sent_def received_def)
qed

lemma copy_bytes:
  assumes "n \<le> length xs" "n \<le> length m"
  shows "fold (\<lambda>i m. m[i := xs ! i]) [0..<n] m = take n xs @ drop n m"
  using assms
proof (induction n)
  case 0
  then show ?case by simp
next
  case (Suc n)
  then have IH: "fold (\<lambda>i m. m[i := xs ! i]) [0..<n] m = take n xs @ drop n m" by simp
  have "(take n xs @ drop n m)[n := xs ! n] = take (Suc n) xs @ drop (Suc n) m"
    using Suc.prems
    by (auto simp: list_update_append Cons_nth_drop_Suc [symmetric] take_Suc_conv_app_nth)
  then show ?case by (simp add: IH)
qed

text \<open>
  The effect of a message on the link: without a number it is on its way at once if there is room
  and lost otherwise; with a number it waits, unless another one waits already.
\<close>

definition posted :: "avr \<Rightarrow> u8 \<Rightarrow> bytes \<Rightarrow> avr \<Rightarrow> bool" where
  "posted s serial_id f s' \<longleftrightarrow> avr_link_ok s'
     \<and> sent s' = (if serial_id = SERIAL_ID_TO_IGNORE \<and> length (sent s) \<le> 229 then sent s @ f else sent s)
     \<and> waiting s' = (if serial_id \<noteq> SERIAL_ID_TO_IGNORE \<and> waiting s = [] then f else waiting s)
     \<and> received s' = received s \<and> a_flush s' = a_flush s"

lemma postpone_message_posted:
  assumes "avr_link_ok s" "unat n \<le> 20" "unat n \<le> length msg"
  shows "posted s serial_id (take (unat n) msg) (postpone_message msg n serial_id s)"
proof (cases "serial_id = SERIAL_ID_TO_IGNORE")
  case True
  then show ?thesis
    using postpone_flush_effect [OF assms(1) _ assms(2,3)] is_writable_sent [OF assms(1)] assms(1)
    by (simp add: posted_def postpone_message_def waiting_def)
next
  case False
  then show ?thesis
    using assms copy_bytes [of "unat n" msg "pp_message (a_postpone s)"] waiting_empty [OF assms(1)]
    by (auto simp: posted_def postpone_message_def waiting_def avr_link_ok_def sent_def received_def)
qed

section \<open>Messages as frames\<close>

definition avr_frame :: "u8 \<Rightarrow> u8 \<Rightarrow> bytes \<Rightarrow> bytes" where
  "avr_frame msg_id serial_id payload =
     [EYE_CATCH, of_nat (length payload + 2), serial_id, msg_id] @ payload"

definition built :: "avr \<Rightarrow> bytes \<Rightarrow> u8 \<times> avr \<Rightarrow> bool" where
  "built s f ls \<longleftrightarrow> unat (fst ls) + 1 = length f \<and> length f \<le> 15 \<and>
     (\<exists>out. snd ls = s\<lparr>a_out_buf := out\<rparr> \<and> length out = 15 \<and> take (length f) out = f)"

lemma built_start:
  assumes "avr_link_ok s"
  shows "built s [EYE_CATCH, sz, serial_id, msg_id] (encode_msg msg_id serial_id sz s)"
proof -
  obtain a b c d rest where "a_out_buf s = a # b # c # d # rest" "length rest = 11"
    using avr_link_okD(5) [OF assms] by (auto simp: length_Suc_conv numeral_eq_Suc)
  then have out: "(a_out_buf s)[0 := EYE_CATCH, 1 := sz, 2 := serial_id, 3 := msg_id] =
      [EYE_CATCH, sz, serial_id, msg_id] @ rest" "length rest = 11"
    by (simp_all add: numeral_2_eq_2 numeral_3_eq_3)
  then have "length ([EYE_CATCH, sz, serial_id, msg_id] @ rest) = 15"
    "take (length [EYE_CATCH, sz, serial_id, msg_id]) ([EYE_CATCH, sz, serial_id, msg_id] @ rest) =
      [EYE_CATCH, sz, serial_id, msg_id]" by simp_all
  with out(1) show ?thesis
    unfolding built_def encode_msg_def by fastforce
qed

lemma built_put: "built s f ls \<Longrightarrow> length f < 15 \<Longrightarrow> built s (f @ [p]) (out_put p ls)"
proof -
  assume "built s f ls" "length f < 15"
  then obtain out where f: "unat (fst ls) + 1 = length f" "snd ls = s\<lparr>a_out_buf := out\<rparr>"
    "length out = 15" "take (length f) out = f" by (auto simp: built_def)
  have next_index: "unat (fst ls + 1) = length f"
    using f(1) \<open>length f < 15\<close> by (simp add: unat_u8_Suc)
  have "take (Suc (length f)) (out[length f := p]) = f @ [p]"
    using take_Suc_update_at [of "length f" out p] f(3,4) \<open>length f < 15\<close> by simp
  with f(2,3) next_index \<open>length f < 15\<close> show ?thesis
    by (auto simp: built_def out_put_def)
qed

lemma built_post:
  assumes "built s f ls" "avr_link_ok s"
  shows "posted s serial_id f (out_post serial_id ls)"
proof -
  obtain out where f: "unat (fst ls) + 1 = length f" "length f \<le> 15" "snd ls = s\<lparr>a_out_buf := out\<rparr>"
    "length out = 15" "take (length f) out = f" using assms(1) by (auto simp: built_def)
  let ?t = "s\<lparr>a_out_buf := out\<rparr>"
  have n: "unat (fst ls + 1) = length f" using f(1,2) by (simp add: unat_u8_Suc)
  have "avr_link_ok ?t" using assms(2) f(4) by (simp add: avr_link_ok_def)
  from postpone_message_posted [OF this, of "fst ls + 1" out serial_id] n f(2,4,5)
  have "posted ?t serial_id f (postpone_message out (fst ls + 1) serial_id ?t)" by simp
  moreover have "sent ?t = sent s" "waiting ?t = waiting s" "received ?t = received s"
    by (simp_all add: sent_def waiting_def received_def)
  ultimately show ?thesis by (simp add: out_post_def f(3) posted_def)
qed

lemmas built_chain = built_post built_put built_start

text \<open>Every message builder posts the frame of its message.\<close>

lemma encode_msg_posted:
  assumes "avr_link_ok s"
  shows "posted s n (avr_frame i n []) (encode_msg_0 i n s)"
    "posted s n (avr_frame i n [p1]) (encode_msg_1 i n p1 s)"
    "posted s n (avr_frame i n [p1, p2]) (encode_msg_2 i n p1 p2 s)"
    "posted s n (avr_frame i n [p1, p2, p3]) (encode_msg_3 i n p1 p2 p3 s)"
    "posted s n (avr_frame i n [p1, p2, p3, p4]) (encode_msg_4 i n p1 p2 p3 p4 s)"
    "posted s n (avr_frame i n [p1, p2, p3, p4, p5]) (encode_msg_5 i n p1 p2 p3 p4 p5 s)"
    "posted s n (avr_frame i n [p1, p2, p3, p4, p5, p6]) (encode_msg_6 i n p1 p2 p3 p4 p5 p6 s)"
    "posted s n (avr_frame i n [p1, p2, p3, p4, p5, p6, p7, p8])
       (encode_msg_8 i n p1 p2 p3 p4 p5 p6 p7 p8 s)"
proof -
  note start = built_start [OF assms]
  have put: "built s (f @ [p]) (out_put p ls)" if "built s f ls" "length f < 15" for f p ls
    using built_put that by blast
  note post = built_post [OF _ assms]
  show "posted s n (avr_frame i n []) (encode_msg_0 i n s)"
    using post [OF start [of 2 n i], of n] by (simp add: encode_msg_0_def avr_frame_def)
  show "posted s n (avr_frame i n [p1]) (encode_msg_1 i n p1 s)"
    using post [OF put [OF start [of 3 n i], of p1], of n]
    by (simp add: encode_msg_1_def avr_frame_def)
  show "posted s n (avr_frame i n [p1, p2]) (encode_msg_2 i n p1 p2 s)"
    using post [OF put [OF put [OF start [of 4 n i], of p1], of p2], of n]
    by (simp add: encode_msg_2_def avr_frame_def)
  show "posted s n (avr_frame i n [p1, p2, p3]) (encode_msg_3 i n p1 p2 p3 s)"
    using post [OF put [OF put [OF put [OF start [of 5 n i], of p1], of p2], of p3], of n]
    by (simp add: encode_msg_3_def avr_frame_def)
  show "posted s n (avr_frame i n [p1, p2, p3, p4]) (encode_msg_4 i n p1 p2 p3 p4 s)"
    using post [OF put [OF put [OF put [OF put [OF start [of 6 n i], of p1], of p2], of p3], of p4], of n]
    by (simp add: encode_msg_4_def avr_frame_def)
  show "posted s n (avr_frame i n [p1, p2, p3, p4, p5]) (encode_msg_5 i n p1 p2 p3 p4 p5 s)"
    using post [OF put [OF put [OF put [OF put [OF put [OF start [of 7 n i],
      of p1], of p2], of p3], of p4], of p5], of n]
    by (simp add: encode_msg_5_def avr_frame_def)
  show "posted s n (avr_frame i n [p1, p2, p3, p4, p5, p6]) (encode_msg_6 i n p1 p2 p3 p4 p5 p6 s)"
    using post [OF put [OF put [OF put [OF put [OF put [OF put [OF start [of 8 n i],
      of p1], of p2], of p3], of p4], of p5], of p6], of n]
    by (simp add: encode_msg_6_def avr_frame_def)
  show "posted s n (avr_frame i n [p1, p2, p3, p4, p5, p6, p7, p8])
      (encode_msg_8 i n p1 p2 p3 p4 p5 p6 p7 p8 s)"
    using post [OF put [OF put [OF put [OF put [OF put [OF put [OF put [OF put [OF start [of 10 n i],
      of p1], of p2], of p3], of p4], of p5], of p6], of p7], of p8], of n]
    by (simp add: encode_msg_8_def avr_frame_def)
qed

lemma posted_link_ok: "posted s n f s' \<Longrightarrow> avr_link_ok s'"
  by (simp add: posted_def)

section \<open>Flow control\<close>

lemma postpone_try_effect:
  assumes "avr_link_ok s" "buffer_ok (fl_shift_data (a_flush s))"
  shows "(let room = length (sent s) \<le> 229 \<and> length (received s) \<le> 229 \<and>
                length (buffer_held (fl_shift_data (a_flush s))) \<le> 229;
              s' = postpone_try s
          in avr_link_ok s' \<and> received s' = received s \<and> a_flush s' = a_flush s \<and>
             sent s' = (if room then sent s @ waiting s else sent s) \<and>
             waiting s' = (if room then [] else waiting s) \<and>
             (room \<and> waiting s \<noteq> [] \<longrightarrow> io_get PORTB s' AND IRQ_BIT = IRQ_BIT))"
proof -
  have room: "(is_enough_space s \<noteq> 0) = (length (sent s) \<le> 229 \<and> length (received s) \<le> 229 \<and>
      length (buffer_held (fl_shift_data (a_flush s))) \<le> 229)"
    using is_writable_sent [OF assms(1)] buffer.space_held [OF avr_link_okD(1) [OF assms(1)]]
      buffer.held_le [OF avr_link_okD(1) [OF assms(1)]]
      buffer.space_held [OF assms(2)] buffer.held_le [OF assms(2)]
    by (auto simp: is_enough_space_def spi_read_space_def flush_shift_buffer_space_def received_def u8_le_iff)
  show ?thesis
  proof (cases "pp_size (a_postpone s) = 0 \<or> is_enough_space s = 0")
    case True
    then have idle: "postpone_try s = s" by (simp add: postpone_try_def)
    show ?thesis
      using True assms(1) waiting_empty [OF assms(1)] room
      unfolding Let_def idle by auto
  next
    case False
    then have writable: "is_writable s = 1"
      by (auto simp: is_enough_space_def of_flag_def split: if_splits)
    let ?t = "postpone_flush (pp_message (a_postpone s)) (pp_size (a_postpone s)) s"
    note t = postpone_flush_effect [OF assms(1) writable avr_link_okD(4) [OF assms(1)],
        of "pp_message (a_postpone s)"]
    have s': "postpone_try s = ?t\<lparr>a_postpone := (a_postpone s)\<lparr>pp_size := 0\<rparr>\<rparr>"
      using False t avr_link_okD(3,4) [OF assms(1)] by (simp add: postpone_try_def)
    have irq: "io_get PORTB ?t AND IRQ_BIT = IRQ_BIT"
      by (simp add: postpone_flush_def spi_write_array_def avr_spi_interrupt_start_def case_prod_beta
          bit.conj_disj_distrib2)
    have "length (sent s) \<le> 229 \<and> length (received s) \<le> 229 \<and>
        length (buffer_held (fl_shift_data (a_flush s))) \<le> 229"
      using False room by blast
    then show ?thesis
      using t avr_link_okD(3,4) [OF assms(1)] irq unfolding s' Let_def
      by (simp add: avr_link_ok_def sent_def received_def waiting_def io_get_def)
  qed
qed

text \<open>
  C22: the message kept back leaves completely or not at all: it stays while fewer than 26 bytes are
  free in one of the three buffers, and once 26 are free in all of them it is appended to the bytes
  on their way, the daemon is interrupted, and the next message of the daemon, which has at most 26
  bytes, fits into the receive buffer and its columns into the shift buffer.
\<close>

theorem postpone_try_flow:
  assumes "avr_link_ok s" "buffer_ok (fl_shift_data (a_flush s))"
  shows "(let room = length (sent s) \<le> 229 \<and> length (received s) \<le> 229 \<and>
                length (buffer_held (fl_shift_data (a_flush s))) \<le> 229;
              s' = postpone_try s
          in avr_link_ok s' \<and> received s' = received s \<and> a_flush s' = a_flush s \<and>
             sent s' = (if room then sent s @ waiting s else sent s) \<and>
             waiting s' = (if room then [] else waiting s) \<and>
             (room \<and> waiting s \<noteq> [] \<longrightarrow> io_get PORTB s' AND IRQ_BIT = IRQ_BIT))"
  by (rule postpone_try_effect [OF assms])

lemma link_zero: "avr_link_ok avr_reset" "buffer_ok (fl_shift_data (a_flush avr_reset))"
  by (simp_all add: avr_link_ok_def avr_reset_def buffer_zero_def buffer_ok_def ring_ok_def BUFFER_SIZE_def)

lemma postpone_try_flow_witness:
  "let s = encode_msg_2 MSG_ID_STATUS 7 STATUS_SUCCESS MSG_ID_LED_ARRAY avr_reset
   in sent (postpone_try s) = [250, 4, 7, 11, 0, 4]"
proof -
  let ?s = "encode_msg_2 MSG_ID_STATUS 7 STATUS_SUCCESS MSG_ID_LED_ARRAY avr_reset"
  have empty: "sent avr_reset = []" "received avr_reset = []" "waiting avr_reset = []"
    "buffer_held (fl_shift_data (a_flush avr_reset)) = []"
    by (simp_all add: sent_def received_def waiting_def avr_reset_def buffer_zero_def
        buffer_held_def ring_abs_def)
  have "posted avr_reset 7 [250, 4, 7, 11, 0, 4] ?s"
    using encode_msg_posted(3) [OF link_zero(1), of 7 MSG_ID_STATUS STATUS_SUCCESS MSG_ID_LED_ARRAY]
    by (simp add: avr_frame_def)
  then have s: "avr_link_ok ?s" "sent ?s = []" "waiting ?s = [250, 4, 7, 11, 0, 4]" "received ?s = []"
    "a_flush ?s = a_flush avr_reset"
    using empty by (simp_all add: posted_def)
  then have "buffer_ok (fl_shift_data (a_flush ?s))" using link_zero(2) by simp
  from postpone_try_flow [OF s(1) this] s empty show ?thesis by (simp add: Let_def)
qed

end
