(* ===== verification/Avr_Twi.thy ===== *)
theory Avr_Twi
  imports Avr_Link
begin

text \<open>
  The two-wire bus (\<open>src/src/avr/twi.c\<close>): a queue of register reads and writes, and the interrupt
  routine that carries the front one through the states of the bus hardware. The status codes
  are those of the hardware. A transaction's outcome reaches the slave's callback, which
  \<open>call\<close> executes.
\<close>

section \<open>Codes of the hardware\<close>

definition TW_START :: u8 where "TW_START = 0x08"
definition TW_REP_START :: u8 where "TW_REP_START = 0x10"
definition TW_MT_SLA_ACK :: u8 where "TW_MT_SLA_ACK = 0x18"
definition TW_MT_DATA_ACK :: u8 where "TW_MT_DATA_ACK = 0x28"
definition TW_MR_SLA_ACK :: u8 where "TW_MR_SLA_ACK = 0x40"
definition TW_MR_DATA_ACK :: u8 where "TW_MR_DATA_ACK = 0x50"
definition TWSTA_BIT :: u8 where "TWSTA_BIT = 32"
definition TWSTO_BIT :: u8 where "TWSTO_BIT = 16"

lemmas twi_code_defs [simp] =
  TW_START_def TW_REP_START_def TW_MT_SLA_ACK_def TW_MT_DATA_ACK_def TW_MR_SLA_ACK_def
  TW_MR_DATA_ACK_def TWSTA_BIT_def TWSTO_BIT_def

section \<open>The queue of transactions\<close>

definition twi_slave :: "u8 \<Rightarrow> u8 \<Rightarrow> avr \<Rightarrow> u8 \<times> avr" where
  "twi_slave i address s =
     (if i \<ge> TWI_ID_SIZE then (0, s)
      else (1, s\<lparr>a_twi := (a_twi s)\<lparr>tw_address := (tw_address (a_twi s))[unat i := address],
                 tw_write_cb := (tw_write_cb (a_twi s))[unat i := Dummy_callback],
                 tw_read_cb := (tw_read_cb (a_twi s))[unat i := Dummy_callback]\<rparr>\<rparr>))"

definition twi_slave_r :: "u8 \<Rightarrow> u8 \<Rightarrow> twi_callback \<Rightarrow> avr \<Rightarrow> u8 \<times> avr" where
  "twi_slave_r i address read_cb s =
     (if i \<ge> TWI_ID_SIZE then (0, s)
      else (1, s\<lparr>a_twi := (a_twi s)\<lparr>tw_address := (tw_address (a_twi s))[unat i := address],
                 tw_write_cb := (tw_write_cb (a_twi s))[unat i := Dummy_callback],
                 tw_read_cb := (tw_read_cb (a_twi s))[unat i := read_cb]\<rparr>\<rparr>))"

definition twi_slave_rw :: "u8 \<Rightarrow> u8 \<Rightarrow> twi_callback \<Rightarrow> twi_callback \<Rightarrow> avr \<Rightarrow> u8 \<times> avr" where
  "twi_slave_rw i address write_cb read_cb s =
     (if i \<ge> TWI_ID_SIZE then (0, s)
      else (1, s\<lparr>a_twi := (a_twi s)\<lparr>tw_address := (tw_address (a_twi s))[unat i := address],
                 tw_write_cb := (tw_write_cb (a_twi s))[unat i := write_cb],
                 tw_read_cb := (tw_read_cb (a_twi s))[unat i := read_cb]\<rparr>\<rparr>))"

text \<open>The conjunctions of fills stop at the first one that fails; the result is their success.\<close>

fun queue_fill :: "bytes \<Rightarrow> buffer_t \<Rightarrow> u8 \<times> buffer_t" where
  "queue_fill [] q = (1, q)"
| "queue_fill (b # bs) q =
     (case buffer_byte_fill q b of (status, q') \<Rightarrow>
        if status = 0 then (0, q') else queue_fill bs q')"

definition twi_enqueue :: "bytes \<Rightarrow> avr \<Rightarrow> u8 \<times> avr" where
  "twi_enqueue bs s = (case queue_fill bs (tw_queue (a_twi s)) of
     (status, q) \<Rightarrow> (status, s\<lparr>a_twi := (a_twi s)\<lparr>tw_queue := q\<rparr>\<rparr>))"

definition twi_write_array :: "u8 \<Rightarrow> u8 \<Rightarrow> u8 \<Rightarrow> u8 \<Rightarrow> bytes \<Rightarrow> avr \<Rightarrow> u8 \<times> avr" where
  "twi_write_array i tag len reg data s =
     (if i \<ge> TWI_ID_SIZE \<or> len = 0 \<or> len > MAX_LEN
         \<or> unat (buffer_space (tw_queue (a_twi s))) < unat len + unat OVERHEAD then (0, s)
      else case twi_enqueue [push_bit 1 len OR ACTION_WRITE, i, tag, reg] s of
             (status, s) \<Rightarrow>
               if status = 0 then (0, s)
               else twi_enqueue (map ((!) data) [0..<unat len]) s)"

definition twi_read_array :: "u8 \<Rightarrow> u8 \<Rightarrow> u8 \<Rightarrow> u8 \<Rightarrow> avr \<Rightarrow> u8 \<times> avr" where
  "twi_read_array i tag len reg s =
     (if i \<ge> TWI_ID_SIZE \<or> len = 0 \<or> len > MAX_LEN
         \<or> buffer_space (tw_queue (a_twi s)) < OVERHEAD then (0, s)
      else twi_enqueue [push_bit 1 len OR ACTION_READ, i, tag, reg] s)"

definition twi_write_byte :: "u8 \<Rightarrow> u8 \<Rightarrow> u8 \<Rightarrow> u8 \<Rightarrow> avr \<Rightarrow> u8 \<times> avr" where
  "twi_write_byte i tag reg v s = twi_write_array i tag 1 reg [v] s"

definition twi_read_byte :: "u8 \<Rightarrow> u8 \<Rightarrow> u8 \<Rightarrow> avr \<Rightarrow> u8 \<times> avr" where
  "twi_read_byte i tag reg s = twi_read_array i tag 1 reg s"

section \<open>The interrupt routine\<close>

definition twi_set_mode :: "u8 \<Rightarrow> avr \<Rightarrow> avr" where
  "twi_set_mode m s = s\<lparr>a_twi := (a_twi s)\<lparr>tw_mode := m\<rparr>\<rparr>"

definition twi_start :: "u8 \<Rightarrow> avr \<Rightarrow> avr" where
  "twi_start new_mode s =
     io_set TWCR (GO_AHEAD OR TWSTA_BIT)
       (twi_set_mode (if new_mode = MODE_WRITE_START then MODE_WRITE_START else MODE_READ_START) s)"

definition twi_stop :: "avr \<Rightarrow> avr" where
  "twi_stop s = twi_set_mode MODE_IDLE (io_set TWCR (GO_AHEAD OR TWSTO_BIT) s)"

definition slave_address :: "u8 \<Rightarrow> avr \<Rightarrow> u8" where
  "slave_address action s =
     push_bit 1 (tw_address (a_twi s) ! unat (tw_id (a_twi s))) OR (if action = FOR_READ then 1 else 0)"

definition check_status_register :: "u8 \<Rightarrow> avr \<Rightarrow> u8" where
  "check_status_register msk s = of_flag ((io_get TWSR s AND 0xF8) AND msk = msk)"

text \<open>The two outcomes of every case: the error of the case, or its action.\<close>

definition twi_check :: "u8 \<Rightarrow> u8 \<Rightarrow> (avr \<Rightarrow> avr) \<Rightarrow> avr \<Rightarrow> avr" where
  "twi_check msk error act s =
     (if check_status_register msk s = 0
      then twi_stop (s\<lparr>a_twi := (a_twi s)\<lparr>tw_status := error\<rparr>\<rparr>) else act s)"

definition twi_go :: "avr \<Rightarrow> avr" where
  "twi_go s = io_set TWCR GO_AHEAD s"

definition twi_send :: "u8 \<Rightarrow> avr \<Rightarrow> avr" where
  "twi_send v s = twi_go (io_set TWDR v s)"

definition twi_data_byte :: "avr \<Rightarrow> u8" where
  "twi_data_byte s = tw_data (a_twi s) ! unat (tw_index (a_twi s))"

definition twi_advance :: "avr \<Rightarrow> avr" where
  "twi_advance s = s\<lparr>a_twi := (a_twi s)\<lparr>tw_index := tw_index (a_twi s) + 1\<rparr>\<rparr>"

definition twi_isr :: "avr \<Rightarrow> avr" where
  "twi_isr s =
     (let mode_old = tw_mode (a_twi s);
          s = (if mode_old < MODE_IDLE then twi_set_mode (mode_old + 1) s else s)
      in if mode_old = MODE_WRITE_START then
           twi_check TW_START TWI_WRITE_START_ERROR (\<lambda>s. twi_send (slave_address FOR_WRITE s) s) s
         else if mode_old = MODE_WRITE_SLAVE then
           twi_check TW_MT_SLA_ACK TWI_WRITE_SLAVE_ERROR (\<lambda>s. twi_send (tw_reg (a_twi s)) s) s
         else if mode_old = MODE_WRITE_REG then
           twi_check TW_MT_DATA_ACK TWI_WRITE_REG_ERROR (\<lambda>s. twi_send (twi_data_byte s) s) s
         else if mode_old = MODE_WRITE_VALUE then
           twi_check TW_MT_DATA_ACK TWI_WRITE_VALUE_ERROR (\<lambda>s.
             let s = twi_advance s
             in if tw_index (a_twi s) < tw_max_index (a_twi s)
                then (let s = twi_send (twi_data_byte s) s
                      in twi_set_mode (tw_mode (a_twi s) - 1) s)
                else twi_stop s) s
         else if mode_old = MODE_READ_START then
           twi_check TW_START TWI_READ_START_ERROR (\<lambda>s. twi_send (slave_address FOR_WRITE s) s) s
         else if mode_old = MODE_READ_SLAVE then
           twi_check TW_MT_SLA_ACK TWI_READ_SLAVE_ERROR (\<lambda>s. twi_send (tw_reg (a_twi s)) s) s
         else if mode_old = MODE_READ_REG then
           twi_check TW_MT_DATA_ACK TWI_READ_REG_ERROR (\<lambda>s. io_set TWCR (GO_AHEAD OR TWSTA_BIT) s) s
         else if mode_old = MODE_READ_RESTART then
           twi_check TW_REP_START TWI_READ_RESTART_ERROR (\<lambda>s. twi_send (slave_address FOR_READ s) s) s
         else if mode_old = MODE_READ_RESTART_SLAVE then
           twi_check TW_MR_SLA_ACK TWI_READ_RESTART_SLAVE_ERROR twi_go s
         else if mode_old = MODE_READ_VALUE then
           twi_check TW_MR_DATA_ACK TWI_READ_VALUE_ERROR (\<lambda>s.
             let s = s\<lparr>a_twi := (a_twi s)\<lparr>tw_data :=
                       (tw_data (a_twi s))[unat (tw_index (a_twi s)) := io_get TWDR s]\<rparr>\<rparr>;
                 s = twi_advance s
             in if tw_index (a_twi s) < tw_max_index (a_twi s)
                then (let s = twi_go s in twi_set_mode (tw_mode (a_twi s) - 1) s)
                else twi_stop s) s
         else if mode_old = MODE_IDLE then twi_set_mode MODE_IDLE s
         else s)"

section \<open>The main loop's part\<close>

definition action_reset :: "avr \<Rightarrow> avr" where
  "action_reset s = s\<lparr>a_twi := (a_twi s)\<lparr>tw_status := TWI_SUCCESS, tw_action := ACTION_IDLE,
     tw_tag := 0, tw_reg := 0, tw_data := fold (\<lambda>i d. d[i := 0]) [0..<unat MAX_LEN] (tw_data (a_twi s)),
     tw_index := 0, tw_max_index := 0\<rparr>\<rparr>"

text \<open>\<open>TWEN\<close> is bit 2 and \<open>TWIE\<close> bit 0.\<close>

definition twi_init :: "avr \<Rightarrow> avr" where
  "twi_init s =
     (let s = action_reset (twi_set_mode MODE_IDLE s);
          s = s\<lparr>a_twi := (a_twi s)\<lparr>tw_address := [0], tw_write_cb := [No_twi_callback],
                tw_read_cb := [No_twi_callback], tw_queue := buffer_init (tw_queue (a_twi s))\<rparr>\<rparr>
      in io_or TWCR 5 (io_set TWBR 4 s))"

text \<open>Draining a number of bytes, up to the first that is missing.\<close>

fun queue_drain :: "nat \<Rightarrow> buffer_t \<Rightarrow> bytes \<times> buffer_t" where
  "queue_drain 0 q = ([], q)"
| "queue_drain (Suc n) q =
     (case buffer_byte_drain q 0 of (status, q', b) \<Rightarrow>
        if status = 0 then ([], q')
        else case queue_drain n q' of (bs, q'') \<Rightarrow> (b # bs, q''))"

definition action_set :: "avr \<Rightarrow> avr" where
  "action_set s =
     (case queue_drain 4 (tw_queue (a_twi s)) of (head, q) \<Rightarrow>
        let s = s\<lparr>a_twi := (a_twi s)\<lparr>tw_queue := q\<rparr>\<rparr>
        in case head of
             [action, i, tag, reg] \<Rightarrow>
               (let s = s\<lparr>a_twi := (a_twi s)\<lparr>tw_action := action AND ACTION_MASK, tw_index := 0,
                          tw_max_index := drop_bit 1 (action AND LEN_MASK), tw_id := i,
                          tw_tag := tag, tw_reg := reg\<rparr>\<rparr>
                in if tw_action (a_twi s) = ACTION_WRITE
                   then (case queue_drain (unat (tw_max_index (a_twi s))) (tw_queue (a_twi s)) of
                           (bs, q) \<Rightarrow>
                             s\<lparr>a_twi := (a_twi s)\<lparr>tw_queue := q,
                               tw_data := bs @ drop (length bs) (tw_data (a_twi s))\<rparr>\<rparr>)
                   else s)
           | _ \<Rightarrow> s)"

text \<open>
  \<open>call\<close> executes a callback with its tag, status, length and data; a write callback has no
  length and no data.
\<close>

definition twi_try :: "(twi_callback \<Rightarrow> u8 \<Rightarrow> u8 \<Rightarrow> u8 \<Rightarrow> bytes \<Rightarrow> avr \<Rightarrow> avr) \<Rightarrow> avr \<Rightarrow> avr" where
  "twi_try call s =
     (let t = a_twi s
      in if tw_mode t \<noteq> MODE_IDLE then s
         else if tw_action t \<noteq> ACTION_IDLE then
           action_reset
             (if tw_action t = ACTION_WRITE
              then call (tw_write_cb t ! unat (tw_id t)) (tw_tag t) (tw_status t) 0 [] s
              else call (tw_read_cb t ! unat (tw_id t)) (tw_tag t) (tw_status t) (tw_max_index t) (tw_data t) s)
         else if buffer_size (tw_queue t) > 0 then
           (let s = action_set s
            in twi_start (if tw_action (a_twi s) = ACTION_WRITE then MODE_WRITE_START else MODE_READ_START) s)
         else s)"

section \<open>Transactions\<close>

lemma queue_fill_held:
  "buffer_ok q \<Longrightarrow> length (buffer_held q) + length bs < 255 \<Longrightarrow>
   \<exists>q'. queue_fill bs q = (1, q') \<and> buffer_ok q' \<and> buffer_held q' = buffer_held q @ bs"
proof (induction bs arbitrary: q)
  case Nil
  then show ?case by simp
next
  case (Cons b bs)
  from buffer.fill_room [OF Cons.prems(1), of b] Cons.prems(2) obtain q' where
    q': "buffer_byte_fill q b = (1, q')" "buffer_ok q'" "buffer_held q' = buffer_held q @ [b]" by auto
  with Cons.IH [OF q'(2)] Cons.prems(2) show ?case by auto
qed

lemma queue_drain_held:
  "buffer_ok q \<Longrightarrow> n \<le> length (buffer_held q) \<Longrightarrow>
   \<exists>q'. queue_drain n q = (take n (buffer_held q), q') \<and> buffer_ok q'
     \<and> buffer_held q' = drop n (buffer_held q)"
proof (induction n arbitrary: q)
  case 0
  then show ?case by simp
next
  case (Suc n)
  then obtain x xs where held: "buffer_held q = x # xs" by (cases "buffer_held q") auto
  with buffer.drain_held [OF Suc.prems(1), of 0] obtain q' where
    q': "buffer_byte_drain q 0 = (1, q', x)" "buffer_ok q'" "buffer_held q' = xs" by auto
  with Suc.IH [OF q'(2)] Suc.prems(2) held show ?case by auto
qed

text \<open>
  The bus: each interrupt comes with a status code; the bytes that the routine hands to the
  hardware are collected.
\<close>

fun bus_run :: "bytes \<Rightarrow> avr \<Rightarrow> bytes \<times> avr" where
  "bus_run [] s = ([], s)"
| "bus_run (code # codes) s =
     (let s' = twi_isr (io_set TWSR code s) in
      case bus_run codes s' of (out, s'') \<Rightarrow>
        (if tw_mode (a_twi s') \<noteq> MODE_IDLE then io_get TWDR s' # out else out, s''))"

lemma io_get_module [simp]: "io_get r (s\<lparr>a_twi := t\<rparr>) = io_get r s"
  by (simp add: io_get_def)

lemmas twi_step_defs = twi_isr_def twi_check_def check_status_register_def twi_send_def twi_go_def
  twi_set_mode_def twi_stop_def twi_advance_def twi_data_byte_def slave_address_def Let_def

lemma write_values_bus:
  assumes "tw_mode (a_twi s) = MODE_WRITE_VALUE" "unat (tw_max_index (a_twi s)) = n"
    "unat (tw_index (a_twi s)) + Suc k = n"
  shows "fst (bus_run (replicate (Suc k) TW_MT_DATA_ACK) s)
      = map ((!) (tw_data (a_twi s))) [Suc (unat (tw_index (a_twi s)))..<n]
    \<and> tw_mode (a_twi (snd (bus_run (replicate (Suc k) TW_MT_DATA_ACK) s))) = MODE_IDLE
    \<and> tw_status (a_twi (snd (bus_run (replicate (Suc k) TW_MT_DATA_ACK) s))) = tw_status (a_twi s)
    \<and> tw_action (a_twi (snd (bus_run (replicate (Suc k) TW_MT_DATA_ACK) s))) = tw_action (a_twi s)
    \<and> tw_tag (a_twi (snd (bus_run (replicate (Suc k) TW_MT_DATA_ACK) s))) = tw_tag (a_twi s)
    \<and> tw_id (a_twi (snd (bus_run (replicate (Suc k) TW_MT_DATA_ACK) s))) = tw_id (a_twi s)
    \<and> tw_write_cb (a_twi (snd (bus_run (replicate (Suc k) TW_MT_DATA_ACK) s))) = tw_write_cb (a_twi s)"
  using assms
proof (induction k arbitrary: s)
  case 0
  let ?i = "tw_index (a_twi s)"
  have small: "unat ?i < 255" using 0(2,3) unat_u8_le [of "tw_max_index (a_twi s)"] by arith
  have "\<not> ?i + 1 < tw_max_index (a_twi s)"
    unfolding u8_less_iff unat_u8_Suc [OF small] using 0(2,3) by simp
  then show ?case
    using 0 by (simp add: twi_step_defs)
next
  case (Suc k)
  let ?i = "tw_index (a_twi s)"
  let ?s = "twi_isr (io_set TWSR TW_MT_DATA_ACK s)"
  have small: "unat ?i < 255"
    using Suc.prems(2,3) unat_u8_le [of "tw_max_index (a_twi s)"] by arith
  have "?i + 1 < tw_max_index (a_twi s)"
    unfolding u8_less_iff unat_u8_Suc [OF small] using Suc.prems(2,3) by simp
  then have s: "tw_mode (a_twi ?s) = MODE_WRITE_VALUE" "tw_max_index (a_twi ?s) = tw_max_index (a_twi s)"
    "tw_index (a_twi ?s) = ?i + 1" "io_get TWDR ?s = tw_data (a_twi s) ! unat (?i + 1)"
    "tw_data (a_twi ?s) = tw_data (a_twi s)" "tw_status (a_twi ?s) = tw_status (a_twi s)"
    "tw_action (a_twi ?s) = tw_action (a_twi s)" "tw_tag (a_twi ?s) = tw_tag (a_twi s)"
    "tw_id (a_twi ?s) = tw_id (a_twi s)" "tw_write_cb (a_twi ?s) = tw_write_cb (a_twi s)"
    using Suc.prems(1) by (simp_all add: twi_step_defs io_get_def io_set_def)
  have i: "unat (tw_index (a_twi ?s)) = Suc (unat ?i)" unfolding s(3) by (rule unat_u8_Suc [OF small])
  have range: "[Suc (unat ?i)..<n] = Suc (unat ?i) # [Suc (Suc (unat ?i))..<n]"
    by (rule upt_conv_Cons) (use Suc.prems(3) in simp)
  have IH: "fst (bus_run (replicate (Suc k) TW_MT_DATA_ACK) ?s)
      = map ((!) (tw_data (a_twi s))) [Suc (Suc (unat ?i))..<n]"
    "tw_mode (a_twi (snd (bus_run (replicate (Suc k) TW_MT_DATA_ACK) ?s))) = MODE_IDLE"
    "tw_status (a_twi (snd (bus_run (replicate (Suc k) TW_MT_DATA_ACK) ?s))) = tw_status (a_twi s)"
    "tw_action (a_twi (snd (bus_run (replicate (Suc k) TW_MT_DATA_ACK) ?s))) = tw_action (a_twi s)"
    "tw_tag (a_twi (snd (bus_run (replicate (Suc k) TW_MT_DATA_ACK) ?s))) = tw_tag (a_twi s)"
    "tw_id (a_twi (snd (bus_run (replicate (Suc k) TW_MT_DATA_ACK) ?s))) = tw_id (a_twi s)"
    "tw_write_cb (a_twi (snd (bus_run (replicate (Suc k) TW_MT_DATA_ACK) ?s))) = tw_write_cb (a_twi s)"
    using Suc.IH [of ?s] s Suc.prems(2,3) i by auto
  have run: "bus_run (replicate (Suc (Suc k)) TW_MT_DATA_ACK) s =
      (io_get TWDR ?s # fst (bus_run (replicate (Suc k) TW_MT_DATA_ACK) ?s),
       snd (bus_run (replicate (Suc k) TW_MT_DATA_ACK) ?s))"
    using s(1) by (subst replicate_Suc, subst bus_run.simps) (simp add: Let_def case_prod_beta)
  show ?case
    unfolding run fst_conv snd_conv IH range list.map s(4) using i s(3) IH by simp
qed

text \<open>The action byte: length in the upper seven bits, direction in the lowest.\<close>

lemma action_byte:
  assumes "unat (len :: u8) < 128"
  shows "push_bit 1 len AND 1 = 0" "drop_bit 1 (push_bit 1 len AND 254) = len"
proof -
  have top: "\<not> bit len 7"
  proof -
    have "unat (take_bit 7 len) = unat len"
      using assms by (simp add: unsigned_take_bit_eq take_bit_nat_eq_self)
    then have "take_bit 7 len = len" by (simp only: u8_eq_iff)
    then show ?thesis by (metis bit_take_bit_iff less_irrefl)
  qed
  show "push_bit 1 len AND 1 = 0"
  proof -
    have "\<not> bit (push_bit 1 len) 0" by (simp only: bit_push_bit_iff) simp
    then show ?thesis using and_exp_eq_0_iff_not_bit [of "push_bit 1 len" 0] by (simp only: power_0 not_False_eq_True)
  qed
  have "drop_bit 1 (push_bit 1 len AND NOT 1) = len"
  proof (rule bit_word_eqI)
    fix n
    assume "n < LENGTH(8)"
    then show "bit (drop_bit 1 (push_bit 1 len AND NOT 1)) n = bit len n"
      unfolding bit_drop_bit_eq comp_def bit_and_iff bit_push_bit_iff bit_not_iff
      using top by (cases "n = 7") (auto simp: bit_1_iff)
  qed
  then show "drop_bit 1 (push_bit 1 len AND 254) = len" by simp
qed

lemma twi_write_array_held:
  assumes "buffer_ok (tw_queue (a_twi s))" "length (buffer_held (tw_queue (a_twi s))) + unat len + 4 < 255"
    "len \<noteq> 0" "unat len < 128" "i < TWI_ID_SIZE"
  shows "\<exists>q. twi_write_array i tag len reg data s = (1, s\<lparr>a_twi := (a_twi s)\<lparr>tw_queue := q\<rparr>\<rparr>)
    \<and> buffer_ok q \<and> buffer_held q = buffer_held (tw_queue (a_twi s))
        @ [push_bit 1 len, i, tag, reg] @ map ((!) data) [0..<unat len]"
proof -
  let ?q = "tw_queue (a_twi s)"
  obtain q1 where q1: "queue_fill [push_bit 1 len, i, tag, reg] ?q = (1, q1)" "buffer_ok q1"
    "buffer_held q1 = buffer_held ?q @ [push_bit 1 len, i, tag, reg]"
    using queue_fill_held [OF assms(1), of "[push_bit 1 len, i, tag, reg]"] assms(2) by auto
  obtain q2 where q2: "queue_fill (map ((!) data) [0..<unat len]) q1 = (1, q2)" "buffer_ok q2"
    "buffer_held q2 = buffer_held q1 @ map ((!) data) [0..<unat len]"
    using queue_fill_held [OF q1(2), of "map ((!) data) [0..<unat len]"] q1(3) assms(2) by auto
  have "\<not> len > MAX_LEN" using assms(4) by (simp add: u8_less_iff)
  moreover have "\<not> unat (buffer_space ?q) < unat len + unat OVERHEAD"
    using buffer.space_held [OF assms(1)] assms(2) by simp
  ultimately show ?thesis
    using assms(3,5) q1 q2
    by (auto simp add: twi_write_array_def twi_enqueue_def simp del: queue_fill.simps)
qed

text \<open>The first three interrupts of a write: address, register and first byte.\<close>

lemma bus_run_go:
  assumes "tw_mode (a_twi (twi_isr (io_set TWSR code s))) \<noteq> MODE_IDLE"
  shows "bus_run (code # codes) s =
    (io_get TWDR (twi_isr (io_set TWSR code s)) # fst (bus_run codes (twi_isr (io_set TWSR code s))),
     snd (bus_run codes (twi_isr (io_set TWSR code s))))"
  using assms by (simp add: Let_def case_prod_beta)

lemma write_start_isr:
  assumes "tw_mode (a_twi s) = MODE_WRITE_START"
  shows "a_twi (twi_isr (io_set TWSR TW_START s)) = (a_twi s)\<lparr>tw_mode := MODE_WRITE_SLAVE\<rparr>"
    "io_get TWDR (twi_isr (io_set TWSR TW_START s)) =
       push_bit 1 (tw_address (a_twi s) ! unat (tw_id (a_twi s)))"
  using assms by (simp_all add: twi_step_defs)

lemma write_slave_isr:
  assumes "tw_mode (a_twi s) = MODE_WRITE_SLAVE"
  shows "a_twi (twi_isr (io_set TWSR TW_MT_SLA_ACK s)) = (a_twi s)\<lparr>tw_mode := MODE_WRITE_REG\<rparr>"
    "io_get TWDR (twi_isr (io_set TWSR TW_MT_SLA_ACK s)) = tw_reg (a_twi s)"
  using assms by (simp_all add: twi_step_defs)

lemma write_reg_isr:
  assumes "tw_mode (a_twi s) = MODE_WRITE_REG"
  shows "a_twi (twi_isr (io_set TWSR TW_MT_DATA_ACK s)) = (a_twi s)\<lparr>tw_mode := MODE_WRITE_VALUE\<rparr>"
    "io_get TWDR (twi_isr (io_set TWSR TW_MT_DATA_ACK s)) =
       tw_data (a_twi s) ! unat (tw_index (a_twi s))"
  using assms by (simp_all add: twi_step_defs)

lemma write_header_bus:
  assumes "tw_mode (a_twi s) = MODE_WRITE_START"
  shows "\<exists>s'. bus_run (TW_START # TW_MT_SLA_ACK # TW_MT_DATA_ACK # codes) s =
      ([push_bit 1 (tw_address (a_twi s) ! unat (tw_id (a_twi s))), tw_reg (a_twi s),
        tw_data (a_twi s) ! unat (tw_index (a_twi s))] @ fst (bus_run codes s'), snd (bus_run codes s'))
    \<and> a_twi s' = (a_twi s)\<lparr>tw_mode := MODE_WRITE_VALUE\<rparr>"
proof -
  let ?s1 = "twi_isr (io_set TWSR TW_START s)"
  let ?s2 = "twi_isr (io_set TWSR TW_MT_SLA_ACK ?s1)"
  let ?s3 = "twi_isr (io_set TWSR TW_MT_DATA_ACK ?s2)"
  note 1 = write_start_isr [OF assms]
  have m1: "tw_mode (a_twi ?s1) = MODE_WRITE_SLAVE" unfolding 1 by simp
  note 2 = write_slave_isr [OF m1]
  have m2: "tw_mode (a_twi ?s2) = MODE_WRITE_REG" unfolding 2 by simp
  note 3 = write_reg_isr [OF m2]
  have busy: "tw_mode (a_twi ?s1) \<noteq> MODE_IDLE" "tw_mode (a_twi ?s2) \<noteq> MODE_IDLE"
    "tw_mode (a_twi ?s3) \<noteq> MODE_IDLE" unfolding m1 m2 3 by simp_all
  have twi: "a_twi ?s3 = (a_twi s)\<lparr>tw_mode := MODE_WRITE_VALUE\<rparr>" unfolding 3 2 1 by simp
  show ?thesis
    unfolding bus_run_go [OF busy(1)] bus_run_go [OF busy(2)] bus_run_go [OF busy(3)] 1(2) 2(2) 3(2)
    by (intro exI [of _ ?s3] conjI twi) (unfold 2 1, simp)
qed

text \<open>
  A register write of 1 to 127 bytes on an idle bus to a slave that acknowledges everything puts
  the address, the register and exactly the given bytes on the bus, in order, and then reports
  success to the slave's write callback, once, with the tag of the request.
\<close>

theorem twi_write_transaction:
  assumes "tw_mode (a_twi s) = MODE_IDLE" "tw_action (a_twi s) = ACTION_IDLE"
    "tw_status (a_twi s) = TWI_SUCCESS" "length (tw_data (a_twi s)) = 128"
    "buffer_ok (tw_queue (a_twi s))" "buffer_held (tw_queue (a_twi s)) = []"
    "len \<noteq> 0" "unat len < 128" "length data = unat len"
  shows "(let (status, s1) = twi_write_array TWI_ID_RTC tag len reg data s;
              s2 = twi_try call s1;
              (out, s3) = bus_run ([TW_START, TW_MT_SLA_ACK] @ replicate (Suc (unat len)) TW_MT_DATA_ACK) s2
          in status = 1 \<and> out = [push_bit 1 (tw_address (a_twi s) ! 0), reg] @ data \<and>
             twi_try call s3 = action_reset (call (tw_write_cb (a_twi s) ! 0) tag TWI_SUCCESS 0 [] s3))"
proof -
  define n where "n = unat len"
  have n: "0 < n" "n < 128" using assms(7,8) by (auto simp: n_def unat_gt_0)
  obtain q where q: "twi_write_array TWI_ID_RTC tag len reg data s =
      (1, s\<lparr>a_twi := (a_twi s)\<lparr>tw_queue := q\<rparr>\<rparr>)" "buffer_ok q"
    "buffer_held q = [push_bit 1 len, 0, tag, reg] @ data"
    using twi_write_array_held [OF assms(5), of len 0 tag reg data] assms(6-9)
      map_nth [of data] by auto
  let ?s1 = "s\<lparr>a_twi := (a_twi s)\<lparr>tw_queue := q\<rparr>\<rparr>"
  obtain q1 where q1: "queue_drain 4 q = ([push_bit 1 len, 0, tag, reg], q1)" "buffer_ok q1"
    "buffer_held q1 = data"
    using queue_drain_held [OF q(2), of 4] q(3) by auto
  obtain q2 where q2: "queue_drain n q1 = (data, q2)"
    using queue_drain_held [OF q1(2), of n] q1(3) assms(9) by (auto simp: n_def)
  have busy: "buffer_size q > 0"
    using buffer.size_held [OF q(2)] q(3) by (simp add: u8_less_iff)
  have s2: "twi_try call ?s1 = twi_start MODE_WRITE_START
      (s\<lparr>a_twi := (a_twi s)\<lparr>tw_action := 0, tw_index := 0, tw_max_index := len,
        tw_id := 0, tw_tag := tag, tw_reg := reg, tw_queue := q2, tw_data := data @ drop n (tw_data (a_twi s))\<rparr>\<rparr>)"
    using assms(1,2,9) busy q1(1) q2 action_byte [OF assms(8)]
    by (simp add: twi_try_def action_set_def n_def Let_def)
  let ?s2 = "twi_try call ?s1"
  have t2: "a_twi ?s2 = (a_twi s)\<lparr>tw_mode := MODE_WRITE_START, tw_action := 0, tw_index := 0,
      tw_max_index := len, tw_id := 0, tw_tag := tag, tw_reg := reg, tw_queue := q2,
      tw_data := data @ drop n (tw_data (a_twi s))\<rparr>"
    by (simp add: s2 twi_start_def twi_set_mode_def)
  have m2: "tw_mode (a_twi ?s2) = MODE_WRITE_START" by (simp add: t2)
  obtain s5 where run: "bus_run ([TW_START, TW_MT_SLA_ACK] @ replicate (Suc n) TW_MT_DATA_ACK) ?s2 =
      ([push_bit 1 (tw_address (a_twi s) ! 0), reg, data ! 0] @ fst (bus_run (replicate n TW_MT_DATA_ACK) s5),
       snd (bus_run (replicate n TW_MT_DATA_ACK) s5))"
    and t5: "a_twi s5 = (a_twi ?s2)\<lparr>tw_mode := MODE_WRITE_VALUE\<rparr>"
    using write_header_bus [OF m2, of "replicate n TW_MT_DATA_ACK"] n(1) assms(9)
    by (auto simp: t2 nth_append n_def)
  have s5: "tw_mode (a_twi s5) = MODE_WRITE_VALUE" "tw_max_index (a_twi s5) = len"
    "tw_index (a_twi s5) = 0" "tw_data (a_twi s5) = data @ drop n (tw_data (a_twi s))"
    "tw_status (a_twi s5) = TWI_SUCCESS" "tw_action (a_twi s5) = ACTION_WRITE"
    "tw_tag (a_twi s5) = tag" "tw_id (a_twi s5) = 0" "tw_write_cb (a_twi s5) = tw_write_cb (a_twi s)"
    using assms(3) by (simp_all add: t5 t2)
  obtain k where k: "n = Suc k" using n(1) by (cases n) auto
  define s6 where "s6 = snd (bus_run (replicate n TW_MT_DATA_ACK) s5)"
  have vals: "fst (bus_run (replicate n TW_MT_DATA_ACK) s5)
      = map ((!) (data @ drop n (tw_data (a_twi s)))) [Suc 0..<n]"
    "tw_mode (a_twi s6) = MODE_IDLE" "tw_status (a_twi s6) = TWI_SUCCESS"
    "tw_action (a_twi s6) = ACTION_WRITE" "tw_tag (a_twi s6) = tag" "tw_id (a_twi s6) = 0"
    "tw_write_cb (a_twi s6) = tw_write_cb (a_twi s)"
    using write_values_bus [OF s5(1), of n k] k s5 unfolding s6_def n_def by simp_all
  have rest: "map ((!) (data @ drop n (tw_data (a_twi s)))) [Suc 0..<n] = tl data"
    using assms(9) by (intro nth_equalityI) (auto simp: nth_append nth_tl n_def)
  have head: "data ! 0 # tl data = data"
    using assms(9) n(1) by (cases data) (auto simp: n_def)
  have report: "twi_try call s6 = action_reset (call (tw_write_cb (a_twi s) ! 0) tag TWI_SUCCESS 0 [] s6)"
    using vals(2-) by (simp add: twi_try_def)
  have out: "[push_bit 1 (tw_address (a_twi s) ! 0), reg, data ! 0]
      @ fst (bus_run (replicate n TW_MT_DATA_ACK) s5) = [push_bit 1 (tw_address (a_twi s) ! 0), reg] @ data"
    unfolding vals(1) rest by (subst (2) head [symmetric]) (simp only: append.simps)
  show ?thesis
    unfolding q(1) Let_def prod.case run [unfolded n_def] s6_def [symmetric, unfolded n_def]
      out [unfolded n_def] report by simp
qed

lemma twi_write_transaction_witness:
  "let (status, s1) = twi_write_array TWI_ID_RTC 9 3 REG_SECOND [0x10, 0x20, 0x12] avr_reset;
       s2 = twi_try (\<lambda>_ _ _ _ _ s. s) s1;
       (out, s3) = bus_run ([TW_START, TW_MT_SLA_ACK] @ replicate (Suc (unat (3 :: u8))) TW_MT_DATA_ACK) s2
   in status = 1 \<and> out = [push_bit 1 (tw_address (a_twi avr_reset) ! 0), REG_SECOND] @ [0x10, 0x20, 0x12]
      \<and> twi_try (\<lambda>_ _ _ _ _ s. s) s3 = action_reset s3"
proof -
  have idle: "tw_mode (a_twi avr_reset) = MODE_IDLE" "tw_action (a_twi avr_reset) = ACTION_IDLE"
    "tw_status (a_twi avr_reset) = TWI_SUCCESS" "length (tw_data (a_twi avr_reset)) = 128"
    "buffer_ok (tw_queue (a_twi avr_reset))" "buffer_held (tw_queue (a_twi avr_reset)) = []"
    by (simp_all add: avr_reset_def buffer_zero_def buffer_ok_def buffer_held_def ring_ok_def
        ring_abs_def BUFFER_SIZE_def)
  show ?thesis
    by (rule twi_write_transaction [OF idle, of 3 "[0x10, 0x20, 0x12]"]) simp_all
qed

text \<open>
  A write of 128 bytes, the length that \<open>twi.h\<close> gives as the greatest one, is accepted, but its
  length does not fit into the seven bits of the action byte: the transaction that is started
  has length zero, and all 128 bytes stay in the queue, where they are taken for requests.
\<close>

theorem twi_write_128_truncated:
  assumes "tw_mode (a_twi s) = MODE_IDLE" "tw_action (a_twi s) = ACTION_IDLE"
    "buffer_ok (tw_queue (a_twi s))" "buffer_held (tw_queue (a_twi s)) = []" "length data = 128"
  shows "(let (status, s1) = twi_write_array TWI_ID_RTC tag 128 reg data s;
              t = a_twi (twi_try call s1)
          in status = 1 \<and> tw_mode t = MODE_WRITE_START \<and> tw_max_index t = 0 \<and>
             buffer_held (tw_queue t) = data)"
proof -
  obtain q1 where q1: "queue_fill [0, 0, tag, reg] (tw_queue (a_twi s)) = (1, q1)" "buffer_ok q1"
    "buffer_held q1 = [0, 0, tag, reg]"
    using queue_fill_held [OF assms(3), of "[0, 0, tag, reg]"] assms(4) by auto
  have data: "map ((!) data) [0..<128] = data" using map_nth [of data] assms(5) by simp
  obtain q2 where q2: "queue_fill data q1 = (1, q2)" "buffer_ok q2"
    "buffer_held q2 = [0, 0, tag, reg] @ data"
    using queue_fill_held [OF q1(2), of data] q1(3) assms(5) by auto
  obtain q3 where q3: "queue_drain 4 q2 = ([0, 0, tag, reg], q3)" "buffer_held q3 = data"
    using queue_drain_held [OF q2(2), of 4] q2(3) by auto
  have "\<not> unat (buffer_space (tw_queue (a_twi s))) < unat (128 :: u8) + unat OVERHEAD"
    using buffer.space_held [OF assms(3)] assms(4) by simp
  moreover have action: "(256 :: u8) = 0" by simp
  ultimately have w: "twi_write_array TWI_ID_RTC tag 128 reg data s = (1, s\<lparr>a_twi := (a_twi s)\<lparr>tw_queue := q2\<rparr>\<rparr>)"
    using q1(1) q2(1) data
    by (simp add: action twi_write_array_def twi_enqueue_def del: queue_fill.simps)
  have "buffer_size q2 > 0" using buffer.size_held [OF q2(2)] q2(3) by (simp add: u8_less_iff)
  then show ?thesis
    unfolding w Let_def prod.case
    using assms(1,2) q3
    by (simp add: twi_try_def action_set_def twi_start_def twi_set_mode_def Let_def)
qed

lemma twi_write_128_truncated_witness:
  "let (status, s1) = twi_write_array TWI_ID_RTC 0 128 0 (replicate 128 7) avr_reset;
       t = a_twi (twi_try (\<lambda>_ _ _ _ _ s. s) s1)
   in status = 1 \<and> tw_mode t = MODE_WRITE_START \<and> tw_max_index t = 0 \<and>
      buffer_held (tw_queue t) = replicate 128 7"
  by (rule twi_write_128_truncated)
    (simp_all add: avr_reset_def buffer_zero_def buffer_ok_def buffer_held_def ring_ok_def
        ring_abs_def BUFFER_SIZE_def)

text \<open>
  When the slave does not acknowledge its address in the reading half of a transaction
  (hardware code \<open>0x48\<close>), the interrupt routine goes on as if it had (code \<open>0x40\<close>): the status
  register is compared under the mask of the expected code only, and no error is recorded.
\<close>

theorem twi_read_nack_accepted:
  assumes "tw_mode (a_twi s) = MODE_READ_RESTART_SLAVE"
  shows "twi_isr (io_set TWSR 0x48 s) = io_set TWCR GO_AHEAD (twi_set_mode MODE_READ_VALUE (io_set TWSR 0x48 s))
    \<and> tw_status (a_twi (twi_isr (io_set TWSR 0x48 s))) = tw_status (a_twi s)"
  using assms by (simp add: twi_step_defs)

lemma twi_read_nack_accepted_witness:
  "let s = twi_set_mode MODE_READ_RESTART_SLAVE avr_reset
   in tw_status (a_twi (twi_isr (io_set TWSR 0x48 s))) = TWI_SUCCESS"
proof -
  have "tw_mode (a_twi (twi_set_mode MODE_READ_RESTART_SLAVE avr_reset)) = MODE_READ_RESTART_SLAVE"
    by (simp add: twi_set_mode_def)
  from twi_read_nack_accepted [OF this] show ?thesis
    by (simp add: Let_def twi_set_mode_def avr_reset_def)
qed

end
