(* ===== verification/Avr_Watch.thy ===== *)
theory Avr_Watch
  imports Avr_Twi
begin

text \<open>
  Pictures of glyphs (\<open>src/src/avr/font.c\<close>, \<open>render.c\<close>) and the clock (\<open>watch.c\<close>), which
  talks to the real time clock over the two-wire bus and shows the time on the display; the small
  modules \<open>boot.c\<close> and \<open>buzz.c\<close>.
\<close>

section \<open>\<open>font.c\<close>\<close>

text \<open>The cases of the switch, in order.\<close>

definition glyphs_upper :: "(u8 \<times> bytes) list" where
  "glyphs_upper = [
    (FONT_0, [0x3E, 0x51, 0x49, 0x45, 0x3E]),
    (FONT_1, [0x00, 0x42, 0x7F, 0x40, 0x00]),
    (FONT_2, [0x42, 0x61, 0x51, 0x49, 0x46]),
    (FONT_3, [0x21, 0x41, 0x45, 0x4B, 0x31]),
    (FONT_4, [0x18, 0x14, 0x12, 0x7F, 0x10]),
    (FONT_5, [0x27, 0x45, 0x45, 0x45, 0x39]),
    (FONT_6, [0x3C, 0x4A, 0x49, 0x49, 0x30]),
    (FONT_7, [0x01, 0x71, 0x09, 0x05, 0x03]),
    (FONT_8, [0x36, 0x49, 0x49, 0x49, 0x36]),
    (FONT_9, [0x06, 0x49, 0x49, 0x29, 0x1E]),
    (FONT_A, [0x7E, 0x11, 0x11, 0x11, 0x7E]),
    (FONT_B, [0x7F, 0x49, 0x49, 0x49, 0x36]),
    (FONT_C, [0x3E, 0x41, 0x41, 0x41, 0x22]),
    (FONT_D, [0x7F, 0x41, 0x41, 0x22, 0x1C]),
    (FONT_E, [0x7F, 0x49, 0x49, 0x49, 0x41]),
    (FONT_H, [0x7F, 0x08, 0x08, 0x08, 0x7F]),
    (FONT_L, [0x7F, 0x40, 0x40, 0x40, 0x40]),
    (FONT_M, [0x7F, 0x02, 0x04, 0x02, 0x7F]),
    (FONT_N, [0x7F, 0x04, 0x08, 0x10, 0x7F]),
    (FONT_O, [0x3E, 0x41, 0x41, 0x41, 0x3E]),
    (FONT_P, [0x7F, 0x09, 0x09, 0x09, 0x06]),
    (FONT_R, [0x7F, 0x09, 0x19, 0x29, 0x46]),
    (FONT_S, [0x46, 0x49, 0x49, 0x49, 0x31]),
    (FONT_T, [0x01, 0x01, 0x7F, 0x01, 0x01]),
    (FONT_V, [0x1F, 0x20, 0x40, 0x20, 0x1F])]"

definition glyphs_lower :: "(u8 \<times> bytes) list" where
  "glyphs_lower = [
    (FONT_X, [0x63, 0x14, 0x08, 0x14, 0x63]),
    (FONT_Y, [0x03, 0x04, 0x78, 0x04, 0x03]),
    (FONT_a, [0x20, 0x54, 0x54, 0x54, 0x78]),
    (FONT_b, [0x7F, 0x48, 0x44, 0x44, 0x38]),
    (FONT_c, [0x38, 0x44, 0x44, 0x44, 0x20]),
    (FONT_d, [0x38, 0x44, 0x44, 0x48, 0x7F]),
    (FONT_e, [0x38, 0x54, 0x54, 0x54, 0x18]),
    (FONT_f, [0x08, 0x7E, 0x09, 0x01, 0x02]),
    (FONT_g, [0x08, 0x14, 0x54, 0x54, 0x3C]),
    (FONT_h, [0x7F, 0x08, 0x04, 0x04, 0x78]),
    (FONT_i, [0x00, 0x44, 0x7D, 0x40, 0x00]),
    (FONT_k, [0x00, 0x7F, 0x10, 0x28, 0x44]),
    (FONT_l, [0x00, 0x41, 0x7F, 0x40, 0x00]),
    (FONT_m, [0x7C, 0x04, 0x18, 0x04, 0x78]),
    (FONT_n, [0x7C, 0x08, 0x04, 0x04, 0x78]),
    (FONT_o, [0x38, 0x44, 0x44, 0x44, 0x38]),
    (FONT_p, [0x7C, 0x14, 0x14, 0x14, 0x08]),
    (FONT_r, [0x7C, 0x08, 0x04, 0x04, 0x08]),
    (FONT_s, [0x48, 0x54, 0x54, 0x54, 0x20]),
    (FONT_t, [0x04, 0x3F, 0x44, 0x40, 0x20]),
    (FONT_u, [0x3C, 0x40, 0x40, 0x20, 0x7C]),
    (FONT_v, [0x1C, 0x20, 0x40, 0x20, 0x1C]),
    (FONT_x, [0x44, 0x28, 0x10, 0x28, 0x44]),
    (FONT_y, [0x0C, 0x50, 0x50, 0x50, 0x3C]),
    (FONT_AT, [0x32, 0x49, 0x79, 0x41, 0x3E]),
    (FONT_COLON, [0x00, 0x36, 0x36, 0x00, 0x00]),
    (FONT_EQUAL, [0x14, 0x14, 0x14, 0x14, 0x14]),
    (FONT_MINUS, [0x08, 0x08, 0x08, 0x08, 0x08]),
    (FONT_MORE, [0x41, 0x22, 0x14, 0x08, 0x00]),
    (FONT_PLUS, [0x08, 0x08, 0x3E, 0x08, 0x08]),
    (FONT_SPACE, [0x00, 0x00, 0x00, 0x00, 0x00]),
    (FONT_STAR, [0x08, 0x2A, 0x1C, 0x2A, 0x08])]"

definition glyph_table :: "(u8 \<times> bytes) list" where
  "glyph_table = glyphs_upper @ glyphs_lower"

lemmas glyph_table_defs = glyph_table_def glyphs_upper_def glyphs_lower_def

definition fill_matrix :: "u8 \<Rightarrow> bytes option" where
  "fill_matrix symbol_id = map_of glyph_table symbol_id"

text \<open>Columns are appended until one does not fit.\<close>

fun fill_columns :: "bytes \<Rightarrow> buf_t \<Rightarrow> u8 \<times> buf_t" where
  "fill_columns [] q = (1, q)"
| "fill_columns (c # cs) q =
     (case buf_byte_fill q c of (status, q') \<Rightarrow>
        if status = 0 then (0, q') else fill_columns cs q')"

definition font_add_symbol :: "u8 \<Rightarrow> buf_t \<Rightarrow> u8 \<times> buf_t" where
  "font_add_symbol symbol q =
     (case fill_matrix symbol of None \<Rightarrow> (0, q) | Some m \<Rightarrow> fill_columns m q)"

section \<open>\<open>render.c\<close>\<close>

definition render_symbol :: "u8 \<Rightarrow> buf_t \<Rightarrow> u8 \<times> buf_t" where
  "render_symbol symbol q =
     (case font_add_symbol symbol q of (status, q) \<Rightarrow>
        if status = 0 then (0, q)
        else case buf_byte_fill q 0 of (status, q) \<Rightarrow> (if status \<noteq> 0 then 1 else 0, q))"

definition is_zero_needed :: "u8 \<Rightarrow> u8 \<Rightarrow> u8" where
  "is_zero_needed flag order = of_flag (flag AND order = order)"

definition render_number :: "u8 \<Rightarrow> u8 \<Rightarrow> buf_t \<Rightarrow> u8 \<times> buf_t" where
  "render_number num leading_zero q =
     (let hundred = num div 100;
          (status, q) = (if hundred \<noteq> 0 \<or> is_zero_needed leading_zero RENDER_LEADING_HUNDRED \<noteq> 0
                         then render_symbol hundred q else (1, q))
      in if status = 0 then (0, q)
         else
           let rest = num mod 100;
               ten = rest div 10;
               (status, q) = (if hundred \<noteq> 0 \<or> ten \<noteq> 0 \<or> is_zero_needed leading_zero RENDER_LEADING_TEN \<noteq> 0
                              then render_symbol ten q else (1, q))
           in if status = 0 then (0, q) else render_symbol (rest mod 10) q)"

fun render_word :: "bytes \<Rightarrow> buf_t \<Rightarrow> u8 \<times> buf_t" where
  "render_word [] q = (1, q)"
| "render_word (symbol # word) q =
     (case render_symbol symbol q of (status, q) \<Rightarrow>
        if status = 0 then (0, q) else render_word word q)"

text \<open>
  Zeros until the buffer refuses one. The loop ends for a buffer that starts at cell zero,
  which all pictures do; \<open>None\<close> is a loop that does not end.
\<close>

partial_function (option) render_tail :: "buf_t \<Rightarrow> buf_t option" where
  "render_tail q =
     (case buf_byte_fill q 0 of (status, q') \<Rightarrow>
        if status \<noteq> 0 then render_tail q' else Some q')"

section \<open>\<open>boot.c\<close> and \<open>buzz.c\<close>\<close>

text \<open>The wire to the daemon's computer is bit 6 of port B.\<close>

definition boot_release_wire :: "avr \<Rightarrow> avr" where
  "boot_release_wire s = io_clear DDRB 64 s"

definition HOLD_TIME :: u8 where
  "HOLD_TIME = 2"

definition boot_pi :: "avr \<Rightarrow> avr" where
  "boot_pi s = at_schedule AT_BOOT HOLD_TIME Boot_release_wire (io_clear PORTB 64 (io_or DDRB 64 s))"

definition buzz_start :: "avr \<Rightarrow> avr" where
  "buzz_start s =
     (let s = counter_register_write COUNTER_4 COUNTER_OUTPUT_COMPARE_A 255 0 s;
          s = counter_register_write COUNTER_4 COUNTER_OUTPUT_COMPARE_B 127 0 s;
          s = counter_pwm_enable COUNTER_4 1 s
      in counter_enable COUNTER_4 COUNTER_PRESCALER_8 s)"

definition buzz_stop :: "avr \<Rightarrow> avr" where
  "buzz_stop s =
     io_clear DDRH 16 (io_clear PORTH 16 (counter_pwm_disable COUNTER_4 1 (counter_disable COUNTER_4 s)))"

section \<open>\<open>watch.c\<close>\<close>

definition rtc :: "u8 \<Rightarrow> u8 \<Rightarrow> u8 \<Rightarrow> u8" where
  "rtc src direction unit =
     (if direction = RTC_TO then
        (let src = (if unit = RTC_HOUR \<and> src > 23 then 23 else src);
             src = (if unit \<noteq> RTC_HOUR \<and> src > 59 then 59 else src)
         in push_bit 4 (src div 10) OR (src mod 10))
      else
        (let tens_mask = (if unit = RTC_HOUR then 3 else 7)
         in (drop_bit 4 src AND tens_mask) * 10 + (src AND 0xf)))"

definition watch_alarm_set :: "u8 \<Rightarrow> u8 \<Rightarrow> avr \<Rightarrow> u8 \<times> avr" where
  "watch_alarm_set hour minute s =
     (if hour > WATCH_HOUR_MAX \<or> minute > WATCH_MINUTE_MAX then (0, s)
      else (1, s\<lparr>a_watch := (a_watch s)\<lparr>wa_alarm_hour := hour, wa_alarm_minute := minute\<rparr>\<rparr>))"

definition watch_alarm_get :: "avr \<Rightarrow> u8 \<times> u8" where
  "watch_alarm_get s = (wa_alarm_hour (a_watch s), wa_alarm_minute (a_watch s))"

definition watch_alarm_state :: "avr \<Rightarrow> u8" where
  "watch_alarm_state s = wa_alarm_engaged (a_watch s)"

definition watch_alarm_control :: "u8 \<Rightarrow> avr \<Rightarrow> avr" where
  "watch_alarm_control engage s =
     s\<lparr>a_watch := (a_watch s)\<lparr>wa_alarm_engaged := (if engage = 0 then 0 else 1)\<rparr>\<rparr>"

text \<open>The picture of the time, and showing it.\<close>

definition watch_image :: "avr \<Rightarrow> buf_t" where
  "watch_image s =
     (let pic = fold (\<lambda>_ q. snd (buf_byte_fill q 0)) [0..<unat IMAGE_INDENT] (buf_init buf_zero);
          b = wa_buffer (a_watch s);
          pic = snd (render_number (rtc (b ! unat BUFFER_HOUR) RTC_FROM RTC_HOUR) RENDER_LEADING_DISABLE pic);
          pic = snd (render_symbol FONT_COLON pic);
          pic = snd (render_number (rtc (b ! unat BUFFER_MINUTE) RTC_FROM RTC_MINUTE) RENDER_LEADING_TEN pic);
          pic = snd (render_symbol FONT_COLON pic)
      in snd (render_number (rtc (b ! unat BUFFER_SECOND) RTC_FROM RTC_SECOND) RENDER_LEADING_TEN pic))"

definition watch_render :: "avr \<Rightarrow> avr" where
  "watch_render s = (case render_tail (watch_image s) of
     Some pic \<Rightarrow> flush_stable_display pic s | None \<Rightarrow> s)"

definition watch_read_callback :: "u8 \<Rightarrow> u8 \<Rightarrow> u8 \<Rightarrow> bytes \<Rightarrow> avr \<Rightarrow> avr" where
  "watch_read_callback tag status len v s =
     (if status \<noteq> TWI_SUCCESS \<or> tag \<ge> WATCH_BUFFER_SIZE \<or> len < 1 then s
      else watch_render (s\<lparr>a_watch := (a_watch s)\<lparr>wa_buffer :=
             (wa_buffer (a_watch s))[unat tag := v ! 0]\<rparr>\<rparr>))"

definition watch_enable :: "avr \<Rightarrow> avr" where
  "watch_enable s = snd (twi_write_byte TWI_ID_RTC 0 REG_CONTROL REG_VALUE_ENABLE s)"

definition watch_disable :: "avr \<Rightarrow> avr" where
  "watch_disable s = snd (twi_write_byte TWI_ID_RTC 0 REG_CONTROL REG_VALUE_DISABLE s)"

definition watch_set :: "u8 \<Rightarrow> u8 \<Rightarrow> u8 \<Rightarrow> avr \<Rightarrow> avr" where
  "watch_set hour minute second s =
     snd (twi_write_array TWI_ID_RTC 0 WATCH_BUFFER_SIZE REG_SECOND
       [rtc second RTC_TO RTC_SECOND, rtc minute RTC_TO RTC_MINUTE, rtc hour RTC_TO RTC_HOUR] s)"

text \<open>\<open>ISC21\<close> is bit 5, \<open>ISC20\<close> bit 4 and \<open>INT2\<close> bit 2.\<close>

definition watch_init :: "avr \<Rightarrow> avr" where
  "watch_init s =
     (let s = io_or EICRA 48 s;
          s = io_or EIMSK 4 s;
          s = s\<lparr>a_watch := (a_watch s)\<lparr>wa_buffer := [0, 0, 0]\<rparr>\<rparr>;
          s = snd (watch_alarm_set 0 0 s);
          s = watch_alarm_control 0 s;
          s = snd (twi_slave_r TWI_ID_RTC RTC_ADDRESS Watch_read_callback s);
          s = snd (twi_write_byte TWI_ID_RTC 0 REG_STATUS REG_VALUE_DISABLE_32KHZ s)
      in watch_set INITIAL_TIME INITIAL_TIME INITIAL_TIME s)"

text \<open>The interrupt of the clock, once a second.\<close>

definition int2_isr :: "avr \<Rightarrow> avr" where
  "int2_isr s =
     (let s = snd (twi_read_byte TWI_ID_RTC BUFFER_HOUR REG_HOUR s);
          s = snd (twi_read_byte TWI_ID_RTC BUFFER_MINUTE REG_MINUTE s)
      in snd (twi_read_byte TWI_ID_RTC BUFFER_SECOND REG_SECOND s))"

section \<open>Pictures\<close>

text \<open>A picture under construction: a buffer that starts at cell zero and holds the columns.\<close>

definition picture :: "buf_t \<Rightarrow> bytes \<Rightarrow> bool" where
  "picture q xs \<longleftrightarrow> buf_start q = 0 \<and> length (buf_data q) = 64 \<and> length xs \<le> 64
     \<and> unat (buf_finish q) = length xs \<and> take (length xs) (buf_data q) = xs"

lemmas buf_ring_defs = ring_is_fillable_def ring_is_drainable_def ring_size_def BUF_SIZE_def

lemma picture_fill:
  assumes "picture q xs" "length xs < 64"
  shows "\<exists>q'. buf_byte_fill q b = (1, q') \<and> picture q' (xs @ [b])"
proof -
  have q: "buf_start q = 0" "length (buf_data q) = 64" "unat (buf_finish q) = length xs"
    "take (length xs) (buf_data q) = xs" using assms(1) by (simp_all add: picture_def)
  have room: "(1 :: u8) \<le> 64 - buf_finish q"
    using q(3) assms(2) by (simp add: u8_le_iff unat_u8_minus)
  have less: "buf_finish q < 64" using q(3) assms(2) by (simp add: u8_less_iff)
  have next_index: "unat (buf_finish q + 1) = Suc (length xs)"
    using unat_u8_Suc [of "buf_finish q"] q(3) assms(2) by simp
  show ?thesis
    using q room less next_index assms(2) take_Suc_update_at [of "length xs" "buf_data q" b]
    by (simp add: buf_byte_fill_def ring_byte_fill_def buf_ring_defs picture_def)
qed

lemma picture_full:
  assumes "picture q xs" "length xs = 64"
  shows "buf_byte_fill q b = (0, q)"
proof -
  have "unat (buf_finish q) = unat (64 :: u8)" "buf_start q = 0"
    using assms by (simp_all add: picture_def)
  then have "buf_finish q = 64" by (simp only: u8_eq_iff)
  with \<open>buf_start q = 0\<close> show ?thesis
    by (simp add: buf_byte_fill_def ring_byte_fill_def buf_ring_defs)
qed

lemma picture_get:
  assumes "picture q xs" "i < length xs"
  shows "buf_byte_get q (of_nat i) b = (1, xs ! i)"
proof -
  have q: "buf_start q = 0" "unat (buf_finish q) = length xs" "take (length xs) (buf_data q) = xs"
    "length xs \<le> 64" using assms(1) by (simp_all add: picture_def)
  have i: "unat (of_nat i :: u8) = i" using q(4) assms(2) by simp
  have "unat (of_nat i + 1 :: u8) = Suc i"
    using unat_u8_Suc [of "of_nat i"] i q(4) assms(2) by simp
  then have drain: "of_nat i + 1 \<le> buf_finish q" using q(2) assms(2) by (simp add: u8_le_iff)
  have data: "buf_data q ! i = xs ! i" using q(3) assms(2) nth_take [of i "length xs" "buf_data q"] by simp
  have "\<not> (64 :: u8) \<le> of_nat i" using i q(4) assms(2) by (simp add: u8_le_iff)
  then show ?thesis
    using q(1,4) i drain data assms(2)
    by (simp add: buf_byte_get_def ring_byte_get_def buf_ring_defs Let_def)
qed

lemma picture_init: "picture (buf_init buf_zero) []"
  by (simp add: buf_init_empty buf_zero_def picture_def buf_empty_def)

lemma picture_columns:
  "picture q xs \<Longrightarrow> length xs + length cs \<le> 64 \<Longrightarrow>
   \<exists>q'. fill_columns cs q = (1, q') \<and> picture q' (xs @ cs)"
proof (induction cs arbitrary: q xs)
  case Nil
  then show ?case by simp
next
  case (Cons c cs)
  from picture_fill [OF Cons.prems(1), of c] Cons.prems(2) obtain q' where
    q': "buf_byte_fill q c = (1, q')" "picture q' (xs @ [c])" by auto
  with Cons.IH [OF q'(2)] Cons.prems(2) show ?case by simp
qed

lemma picture_zeros:
  "picture q xs \<Longrightarrow> length xs + n \<le> 64 \<Longrightarrow>
   picture (fold (\<lambda>_ q. snd (buf_byte_fill q 0)) [0..<n] q) (xs @ replicate n 0)"
proof (induction n)
  case 0
  then show ?case by simp
next
  case (Suc n)
  then have IH: "picture (fold (\<lambda>_ q. snd (buf_byte_fill q 0)) [0..<n] q) (xs @ replicate n 0)" by simp
  from picture_fill [OF this, of 0] Suc.prems(2) show ?case
    by (auto simp: replicate_append_same)
qed

text \<open>The tail of every picture ends, and fills it with dark columns.\<close>

lemma render_tail_ends:
  "picture q xs \<Longrightarrow> \<exists>q'. render_tail q = Some q' \<and> picture q' (xs @ replicate (64 - length xs) 0)"
proof (induction "64 - length xs" arbitrary: q xs)
  case 0
  then have "length xs = 64" by (simp add: picture_def)
  with picture_full [OF 0(2)] 0(2) show ?case by (subst render_tail.simps) simp
next
  case (Suc n)
  then have room: "length xs < 64" by simp
  with picture_fill [OF Suc(3), of 0] obtain q' where
    q': "buf_byte_fill q 0 = (1, q')" "picture q' (xs @ [0])" by auto
  have "n = 64 - length (xs @ [0])" using Suc(2) by simp
  from Suc(1) [OF this q'(2)] obtain q'' where
    "render_tail q' = Some q''" "picture q'' ((xs @ [0]) @ replicate (64 - length (xs @ [0])) 0)" by auto
  moreover have "[0] @ replicate (64 - length (xs @ [0])) 0 = replicate (64 - length xs) (0 :: u8)"
    using room by (cases "64 - length xs") auto
  ultimately show ?case
    using q'(1) by (subst render_tail.simps) (simp add: append_assoc del: append_Cons)
qed

lemma stable_display_picture:
  assumes "picture q xs" "length xs = 64"
  shows "fl_stable_data (a_flush (flush_stable_display q s)) = xs"
proof -
  have "map (\<lambda>i. case buf_byte_get q (of_nat i) 0 of (status, info) \<Rightarrow> if status \<noteq> 0 then info else 0)
      [0..<64] = map ((!) xs) [0..<64]"
    by (rule map_cong) (auto simp: picture_get [OF assms(1)] assms(2))
  also have "\<dots> = xs" using map_nth [of xs] assms(2) by simp
  finally show ?thesis by (simp add: flush_stable_display_def)
qed

section \<open>Numbers\<close>

definition glyph_columns :: "u8 \<Rightarrow> bytes" where
  "glyph_columns c = (case fill_matrix c of None \<Rightarrow> [] | Some m \<Rightarrow> m @ [0])"

lemma glyph_table_sizes: "list_all (\<lambda>(c, m). length m = 5) glyph_table"
  by (simp add: glyph_table_defs)

lemma glyph_size:
  assumes "fill_matrix c = Some m"
  shows "length m = 5" "glyph_columns c = m @ [0]"
proof -
  have "(c, m) \<in> set glyph_table" using assms by (simp add: fill_matrix_def map_of_SomeD)
  then show "length m = 5" using glyph_table_sizes by (auto simp: list_all_iff)
  show "glyph_columns c = m @ [0]" using assms by (simp add: glyph_columns_def)
qed

lemma picture_symbol:
  assumes "picture q xs" "fill_matrix c \<noteq> None" "length xs \<le> 58"
  shows "\<exists>q'. render_symbol c q = (1, q') \<and> picture q' (xs @ glyph_columns c)"
proof -
  obtain m where m: "fill_matrix c = Some m" "length m = 5" "glyph_columns c = m @ [0]"
    using assms(2) glyph_size by auto
  from picture_columns [OF assms(1), of m] assms(3) m(2) obtain q1 where
    q1: "fill_columns m q = (1, q1)" "picture q1 (xs @ m)" by auto
  from picture_fill [OF q1(2), of 0] assms(3) m(2) obtain q2 where
    "buf_byte_fill q1 0 = (1, q2)" "picture q2 (xs @ m @ [0])" by auto
  then show ?thesis using m q1(1) by (simp add: render_symbol_def font_add_symbol_def)
qed

lemma digit_cases: "unat (d :: u8) < 10 \<Longrightarrow> d \<in> {0, 1, 2, 3, 4, 5, 6, 7, 8, 9}"
proof -
  assume "unat d < 10"
  then have "unat d = 0 \<or> unat d = 1 \<or> unat d = 2 \<or> unat d = 3 \<or> unat d = 4 \<or> unat d = 5
      \<or> unat d = 6 \<or> unat d = 7 \<or> unat d = 8 \<or> unat d = 9" by arith
  then have "d = of_nat 0 \<or> d = of_nat 1 \<or> d = of_nat 2 \<or> d = of_nat 3 \<or> d = of_nat 4 \<or> d = of_nat 5
      \<or> d = of_nat 6 \<or> d = of_nat 7 \<or> d = of_nat 8 \<or> d = of_nat 9"
    by (simp only: u8_eq_iff) simp
  then show ?thesis by simp
qed

lemma digit_glyph: "unat d < 10 \<Longrightarrow> fill_matrix d \<noteq> None"
  by (drule digit_cases) (auto simp: fill_matrix_def glyph_table_defs)

lemma colon_glyph: "fill_matrix FONT_COLON \<noteq> None"
  by (simp add: fill_matrix_def glyph_table_defs)

text \<open>A number below 100: its two digits, the tens only when they are wanted.\<close>

definition number_columns :: "bool \<Rightarrow> u8 \<Rightarrow> bytes" where
  "number_columns tens n = (if tens \<or> n div 10 \<noteq> 0 then glyph_columns (n div 10) else []) @ glyph_columns (n mod 10)"

lemma number_columns_size: "unat n < 100 \<Longrightarrow> length (number_columns tens n) \<le> 12"
proof -
  have size: "length (glyph_columns c) \<le> 6" for c by (cases "fill_matrix c") (auto simp: glyph_columns_def glyph_size)
  show ?thesis using size [of "n div 10"] size [of "n mod 10"] by (auto simp: number_columns_def)
qed

lemma picture_number:
  assumes "picture q xs" "unat n < 100" "length xs \<le> 52" "leading = (if tens then RENDER_LEADING_TEN else 0)"
  shows "\<exists>q'. render_number n leading q = (1, q') \<and> picture q' (xs @ number_columns tens n)"
proof -
  have small: "n div 100 = 0" "n mod 100 = n"
    by (rule u8_eq_iff [THEN iffD2], use assms(2) in \<open>simp add: unat_div unat_mod\<close>)+
  have digits: "unat (n div 10) < 10" "unat (n mod 10) < 10"
    using assms(2) by (simp_all add: unat_div unat_mod)
  have hundred: "is_zero_needed leading RENDER_LEADING_HUNDRED = 0"
    using assms(4) by (simp add: is_zero_needed_def)
  have ten: "(n div 10 \<noteq> 0 \<or> is_zero_needed leading RENDER_LEADING_TEN \<noteq> 0) = (tens \<or> n div 10 \<noteq> 0)"
    using assms(4) by (auto simp: is_zero_needed_def)
  have size: "length (glyph_columns c) \<le> 6" for c by (cases "fill_matrix c") (auto simp: glyph_columns_def glyph_size)
  show ?thesis
  proof (cases "tens \<or> n div 10 \<noteq> 0")
    case True
    from picture_symbol [OF assms(1) digit_glyph [OF digits(1)]] assms(3) obtain q1 where
      q1: "render_symbol (n div 10) q = (1, q1)" "picture q1 (xs @ glyph_columns (n div 10))" by auto
    from picture_symbol [OF q1(2) digit_glyph [OF digits(2)]] assms(3) size [of "n div 10"] obtain q2 where
      "render_symbol (n mod 10) q1 = (1, q2)" "picture q2 (xs @ number_columns tens n)"
      using True by (auto simp: number_columns_def)
    with q1 True ten hundred small show ?thesis by (simp add: render_number_def Let_def)
  next
    case False
    from picture_symbol [OF assms(1) digit_glyph [OF digits(2)]] assms(3) obtain q2 where
      "render_symbol (n mod 10) q = (1, q2)" "picture q2 (xs @ number_columns tens n)"
      using False by (auto simp: number_columns_def)
    with False ten hundred small show ?thesis by (simp add: render_number_def Let_def)
  qed
qed

section \<open>Time\<close>

lemma rtc_table:
  "list_all (\<lambda>n. rtc (push_bit 4 (of_nat n div 10) OR (of_nat n mod 10)) RTC_FROM RTC_MINUTE = of_nat n)
    [0..<60]"
  "list_all (\<lambda>n. rtc (push_bit 4 (of_nat n div 10) OR (of_nat n mod 10)) RTC_FROM RTC_HOUR = of_nat n)
    [0..<24]"
  by code_simp+

lemma rtc_clamp:
  "rtc x RTC_TO RTC_HOUR = push_bit 4 (min x 23 div 10) OR (min x 23 mod 10)"
  "rtc x RTC_TO RTC_MINUTE = push_bit 4 (min x 59 div 10) OR (min x 59 mod 10)"
  "rtc x RTC_TO RTC_SECOND = push_bit 4 (min x 59 div 10) OR (min x 59 mod 10)"
  by (auto simp: rtc_def min_def Let_def)

lemma rtc_second: "rtc y RTC_FROM RTC_SECOND = rtc y RTC_FROM RTC_MINUTE"
  by (simp add: rtc_def)

lemma u8_of_list: "list_all P [0..<k] \<Longrightarrow> unat (x :: u8) < k \<Longrightarrow> P (unat x)"
  by (simp add: list_all_iff)

text \<open>
  A time sent to the clock chip and read back is the time clamped to 23 hours, or to 59 minutes
  or seconds: the binary coded decimal conversions are inverse to each other on the chip's range,
  and greater values are cut off before the conversion.
\<close>

theorem rtc_roundtrip:
  "rtc (rtc x RTC_TO RTC_HOUR) RTC_FROM RTC_HOUR = min x 23 \<and>
   rtc (rtc x RTC_TO RTC_MINUTE) RTC_FROM RTC_MINUTE = min x 59 \<and>
   rtc (rtc x RTC_TO RTC_SECOND) RTC_FROM RTC_SECOND = min x 59"
proof -
  have range: "unat (min x 23) < 24" "unat (min x 59) < 60"
    by (auto simp: min_def u8_le_iff)
  show ?thesis
    unfolding rtc_clamp rtc_second
    using u8_of_list [OF rtc_table(1) range(2)] u8_of_list [OF rtc_table(2) range(1)] by simp
qed

lemma rtc_shown:
  "h \<le> 23 \<Longrightarrow> rtc (rtc h RTC_TO RTC_HOUR) RTC_FROM RTC_HOUR = h"
  "m \<le> 59 \<Longrightarrow> rtc (rtc m RTC_TO RTC_MINUTE) RTC_FROM RTC_MINUTE = m"
  "m \<le> 59 \<Longrightarrow> rtc (rtc m RTC_TO RTC_SECOND) RTC_FROM RTC_SECOND = m"
proof -
  show "h \<le> 23 \<Longrightarrow> rtc (rtc h RTC_TO RTC_HOUR) RTC_FROM RTC_HOUR = h"
    unfolding rtc_clamp using u8_of_list [OF rtc_table(2), of h] by (simp add: min_def u8_le_iff)
  show "m \<le> 59 \<Longrightarrow> rtc (rtc m RTC_TO RTC_MINUTE) RTC_FROM RTC_MINUTE = m"
    "m \<le> 59 \<Longrightarrow> rtc (rtc m RTC_TO RTC_SECOND) RTC_FROM RTC_SECOND = m"
    unfolding rtc_clamp rtc_second using u8_of_list [OF rtc_table(1), of m] by (simp_all add: min_def u8_le_iff)
qed

text \<open>
  With a time in the clock's registers the display shows ten dark columns, the hour without a
  leading zero, a colon, the minute and the second with two digits each and a colon between
  them, and is dark to its end.
\<close>

theorem watch_shows_time:
  assumes "h \<le> 23" "m \<le> 59" "sec \<le> 59"
    "wa_buffer (a_watch s) = [rtc sec RTC_TO RTC_SECOND, rtc m RTC_TO RTC_MINUTE, rtc h RTC_TO RTC_HOUR]"
  shows "(let columns = replicate 10 0 @ number_columns False h @ glyph_columns FONT_COLON
                @ number_columns True m @ glyph_columns FONT_COLON @ number_columns True sec
          in fl_stable_data (a_flush (watch_render s)) = columns @ replicate (64 - length columns) 0
             \<and> length columns \<le> 58)"
proof -
  have small: "unat h < 100" "unat m < 100" "unat sec < 100" using assms(1-3) by (auto simp: u8_le_iff)
  note size = number_columns_size [OF small(1), of False] number_columns_size [OF small(2), of True]
    number_columns_size [OF small(3), of True]
  have colon: "length (glyph_columns FONT_COLON) = 6"
    using glyph_size [of FONT_COLON] colon_glyph by (cases "fill_matrix FONT_COLON") auto
  let ?q0 = "fold (\<lambda>_ q. snd (buf_byte_fill q 0)) [0..<10] (buf_init buf_zero)"
  have q0: "picture ?q0 (replicate 10 0)" using picture_zeros [OF picture_init, of 10] by simp
  from picture_number [OF q0 small(1), of 0 False] obtain q1 where
    q1: "render_number h 0 ?q0 = (1, q1)" "picture q1 (replicate 10 0 @ number_columns False h)" by auto
  from picture_symbol [OF q1(2) colon_glyph] size obtain q2 where
    q2: "render_symbol FONT_COLON q1 = (1, q2)"
      "picture q2 (replicate 10 0 @ number_columns False h @ glyph_columns FONT_COLON)" by auto
  from picture_number [OF q2(2) small(2), of 1 True] size colon obtain q3 where
    q3: "render_number m 1 q2 = (1, q3)"
      "picture q3 (replicate 10 0 @ number_columns False h @ glyph_columns FONT_COLON @ number_columns True m)"
    by auto
  from picture_symbol [OF q3(2) colon_glyph] size colon obtain q4 where
    q4: "render_symbol FONT_COLON q3 = (1, q4)"
      "picture q4 (replicate 10 0 @ number_columns False h @ glyph_columns FONT_COLON @ number_columns True m
        @ glyph_columns FONT_COLON)" by auto
  let ?columns = "replicate 10 0 @ number_columns False h @ glyph_columns FONT_COLON @ number_columns True m
        @ glyph_columns FONT_COLON @ number_columns True sec"
  from picture_number [OF q4(2) small(3), of 1 True] size colon obtain q5 where
    q5: "render_number sec 1 q4 = (1, q5)" "picture q5 ?columns" by auto
  have pic: "watch_image s = q5"
    using q1(1) q2(1) q3(1) q4(1) q5(1) rtc_shown(1) [OF assms(1)] rtc_shown(2) [OF assms(2)]
      rtc_shown(3) [OF assms(3)]
    by (simp add: watch_image_def Let_def assms(4))
  from render_tail_ends [OF q5(2)] obtain q6 where
    q6: "render_tail q5 = Some q6" "picture q6 (?columns @ replicate (64 - length ?columns) 0)" by auto
  have le: "length ?columns \<le> 58" using size colon by simp
  then have "fl_stable_data (a_flush (watch_render s)) = ?columns @ replicate (64 - length ?columns) 0"
    using stable_display_picture [OF q6(2)] q6(1) pic by (simp add: watch_render_def)
  with le show ?thesis unfolding Let_def by blast
qed

definition sample_watch :: avr where
  "sample_watch = avr_reset\<lparr>a_watch := (a_watch avr_reset)
     \<lparr>wa_buffer := [rtc 5 RTC_TO RTC_SECOND, rtc 40 RTC_TO RTC_MINUTE, rtc 7 RTC_TO RTC_HOUR]\<rparr>\<rparr>"

lemma watch_shows_time_witness:
  "let columns = replicate 10 0 @ number_columns False 7 @ glyph_columns FONT_COLON
         @ number_columns True 40 @ glyph_columns FONT_COLON @ number_columns True 5
   in fl_stable_data (a_flush (watch_render sample_watch)) = columns @ replicate (64 - length columns) 0
      \<and> length columns \<le> 58"
  by (rule watch_shows_time) (simp_all add: sample_watch_def)

end
