(* ===== verification/Avr_Menu.thy ===== *)
theory Avr_Menu
  imports Avr_Watch
begin

text \<open>
  The user interface of the firmware: the modes of the device (\<open>src/src/avr/mode.c\<close>) and the menu
  driven by five rotary knobs (\<open>menu.c\<close>), which changes the brightness itself and asks the daemon
  for everything else. \<open>me_param_id\<close> is the parameter shown, \<open>me_param_old\<close> and \<open>me_param_new\<close>
  the current and the chosen value of the adjustable ones.
\<close>

section \<open>\<open>mode.c\<close>\<close>

definition mode_init :: "avr \<Rightarrow> avr" where
  "mode_init s = s\<lparr>a_mode := \<lparr>mo_current_mode = MODE_MENU, mo_is_connected = 0\<rparr>\<rparr>"

definition mode_get :: "avr \<Rightarrow> u8" where
  "mode_get s = mo_current_mode (a_mode s)"

definition set_connected :: "u8 \<Rightarrow> avr \<Rightarrow> avr" where
  "set_connected c s = s\<lparr>a_mode := (a_mode s)\<lparr>mo_is_connected := c\<rparr>\<rparr>"

definition mode_set :: "u8 \<Rightarrow> avr \<Rightarrow> avr" where
  "mode_set new_mode s =
     (if mo_current_mode (a_mode s) = new_mode then s
      else
        let s = watch_disable s;
            s = heartbeat_cancel s;
            s = snd (cron_disable CRON_ID_FLUSH s);
            s = s\<lparr>a_mode := (a_mode s)\<lparr>mo_current_mode := new_mode\<rparr>\<rparr>
        in if new_mode = MODE_WATCH then set_connected 0 (watch_enable s)
           else if new_mode = MODE_RADIO then
             (let s = snd (cron_enable CRON_ID_FLUSH SLAVE_DELAY Flush_shift_display s)
              in set_connected 1 (heartbeat_start HB_DELAY HB_MISS Switch_to_watch Spi_interrupt_start s))
           else s)"

definition switch_to_watch :: "avr \<Rightarrow> avr" where
  "switch_to_watch s = mode_set MODE_WATCH s"

section \<open>Messages of the menu\<close>

definition send_message_0 :: "u8 \<Rightarrow> avr \<Rightarrow> avr" where
  "send_message_0 msg_id s =
     (if mode_is_connnected s \<noteq> 0 then encode_msg_0 msg_id SERIAL_ID_TO_IGNORE s else s)"

definition send_message_1 :: "u8 \<Rightarrow> u8 \<Rightarrow> avr \<Rightarrow> avr" where
  "send_message_1 msg_id p1 s =
     (if mode_is_connnected s \<noteq> 0 then encode_msg_1 msg_id SERIAL_ID_TO_IGNORE p1 s else s)"

definition send_message_2 :: "u8 \<Rightarrow> u8 \<Rightarrow> u8 \<Rightarrow> avr \<Rightarrow> avr" where
  "send_message_2 msg_id p1 p2 s =
     (if mode_is_connnected s \<noteq> 0 then encode_msg_2 msg_id SERIAL_ID_TO_IGNORE p1 p2 s else s)"

definition send_message_3 :: "u8 \<Rightarrow> u8 \<Rightarrow> u8 \<Rightarrow> avr \<Rightarrow> avr" where
  "send_message_3 parameter sign_code abs_value s =
     (if mode_is_connnected s = 0 then s
      else encode_msg_3 MSG_ID_PARAM_SET SERIAL_ID_TO_IGNORE parameter sign_code abs_value s)"

section \<open>State changes\<close>

definition me_set_state :: "u8 \<Rightarrow> avr \<Rightarrow> avr" where
  "me_set_state v s = s\<lparr>a_menu := (a_menu s)\<lparr>me_state := v\<rparr>\<rparr>"

definition me_set_param :: "u8 \<Rightarrow> avr \<Rightarrow> avr" where
  "me_set_param v s = s\<lparr>a_menu := (a_menu s)\<lparr>me_param_id := v\<rparr>\<rparr>"

definition me_set_flag :: "u8 \<Rightarrow> avr \<Rightarrow> avr" where
  "me_set_flag v s = s\<lparr>a_menu := (a_menu s)\<lparr>me_param_flag := me_param_flag (a_menu s) OR v\<rparr>\<rparr>"

definition query_source :: "avr \<Rightarrow> avr" where
  "query_source s =
     (let param = me_param_id (a_menu s) in
      if param \<noteq> PARAM_TRACK \<and> param \<noteq> PARAM_VOLUME \<and> param \<noteq> PARAM_PLAYLIST then s
      else
        let msk = (if param = PARAM_TRACK then FLAG_MASK_TRACK
                   else if param = PARAM_VOLUME then FLAG_MASK_VOLUME else FLAG_MASK_PLAYLIST)
        in if me_param_flag (a_menu s) AND msk \<noteq> 0 then s
           else
             let msg_body = (if param = PARAM_TRACK then PARAMETER_TRACK
                             else if param = PARAM_VOLUME then PARAMETER_VOLUME else PARAMETER_PLAYLIST);
                 s = send_message_1 MSG_ID_QUERY_NUMBER msg_body s
             in me_set_flag (if param = PARAM_TRACK then FLAG_TRACK_SENT
                             else if param = PARAM_VOLUME then FLAG_VOLUME_SENT
                             else FLAG_PLAYLIST_SENT) s)"

definition set_param_range :: "u8 \<Rightarrow> avr \<Rightarrow> avr" where
  "set_param_range new_state s =
     (let connected = mode_is_connnected s \<noteq> 0;
          m = a_menu s;
          m = (if new_state = STATE_APPLY
               then m\<lparr>me_param_id_min := PARAM_CANCEL, me_param_id_max := PARAM_APPLY\<rparr>
               else if new_state = STATE_PARAM \<or> new_state = STATE_VALUE
               then m\<lparr>me_param_id_min := (if connected then PARAM_POWER_OFF else PARAM_POWER_ON),
                      me_param_id_max := (if connected then PARAM_REBOOT else PARAM_POWER_ON)\<rparr>
               else m);
          m = (if new_state \<noteq> STATE_VALUE then m\<lparr>me_param_id := me_param_id_min m\<rparr> else m)
      in s\<lparr>a_menu := m\<rparr>)"

definition menu_set_state :: "u8 \<Rightarrow> avr \<Rightarrow> avr" where
  "menu_set_state new_state s =
     (let state = me_state (a_menu s) in
      if state = new_state then s
      else
        let s = (if state = STATE_TAG
                 then mode_set MODE_MENU (flush_shift_drain_start (send_message_0 MSG_ID_SUSPEND s))
                 else if new_state = STATE_TAG
                 then mode_set MODE_RADIO (send_message_0 MSG_ID_RESUME (flush_shift_drain_stop s))
                 else s);
            s = (if (state = STATE_IDLE \<or> state = STATE_APPLY)
                    \<and> (new_state = STATE_PARAM \<or> new_state = STATE_VALUE)
                 then set_param_range new_state s
                 else if (state = STATE_PARAM \<or> state = STATE_VALUE) \<and> new_state = STATE_APPLY
                 then set_param_range new_state
                   (s\<lparr>a_menu := (a_menu s)\<lparr>me_secondary_param := me_param_id (a_menu s)\<rparr>\<rparr>)
                 else s)
        in me_set_state new_state s)"

text \<open>Values are indexed \<open>VALUE_BRIGHTNESS\<close>, \<open>VALUE_PLAYLIST\<close>, \<open>VALUE_TRACK\<close>, \<open>VALUE_VOLUME\<close>.\<close>

definition menu_reset :: "avr \<Rightarrow> avr" where
  "menu_reset s =
     (let b = flush_brightness_get s in
      s\<lparr>a_menu := (a_menu s)\<lparr>me_backup_mode := MODE_MENU,
         me_param_max := (me_param_max (a_menu s))
           [unat VALUE_BRIGHTNESS := 0xF, unat VALUE_PLAYLIST := 0, unat VALUE_TRACK := 0, unat VALUE_VOLUME := 0],
         me_param_min := (me_param_min (a_menu s))
           [unat VALUE_BRIGHTNESS := 0, unat VALUE_PLAYLIST := 0, unat VALUE_TRACK := 0, unat VALUE_VOLUME := 0],
         me_param_old := (me_param_old (a_menu s))
           [unat VALUE_BRIGHTNESS := b, unat VALUE_PLAYLIST := 0, unat VALUE_TRACK := 0, unat VALUE_VOLUME := 0],
         me_param_new := (me_param_new (a_menu s))
           [unat VALUE_BRIGHTNESS := b, unat VALUE_PLAYLIST := 0, unat VALUE_TRACK := 0, unat VALUE_VOLUME := 0],
         me_param_flag := FLAG_MASK_BRIGNHTNESS,
         me_param_id := PARAM_TRACK, me_secondary_param := PARAM_TRACK, me_state := STATE_IDLE,
         me_tag_param := PARAM_TRACK, me_tag_value := 0\<rparr>\<rparr>)"

definition get_sign_abs :: "u8 \<Rightarrow> u8 \<Rightarrow> u8 \<times> u8" where
  "get_sign_abs src dst =
     (if src = dst then (PARAMETER_POSITIVE, 0)
      else if src < dst then (PARAMETER_POSITIVE, dst - src)
      else (PARAMETER_NEGATIVE, src - dst))"

definition menu_start :: "u8 \<Rightarrow> avr \<Rightarrow> avr" where
  "menu_start rotor_id s =
     (if rotor_id = ROTOR_APPLY then s
      else
        let s = menu_reset s;
            s = s\<lparr>a_menu := (a_menu s)\<lparr>me_backup_mode := mode_get s\<rparr>\<rparr>;
            s = mode_set MODE_MENU s;
            s = send_message_0 MSG_ID_SUSPEND s
        in flush_shift_drain_start s)"

text \<open>The switch of \<open>stop\<close>: what is done for the parameter that was chosen.\<close>

definition send_difference :: "u8 \<Rightarrow> u8 \<Rightarrow> u8 \<Rightarrow> bool \<Rightarrow> avr \<Rightarrow> avr" where
  "send_difference msk value_id parameter skip_zero s =
     (let m = a_menu s in
      if me_param_flag m AND msk = msk then
        (case get_sign_abs (me_param_old m ! unat value_id) (me_param_new m ! unat value_id) of
           (sign_code, abs_value) \<Rightarrow>
             if skip_zero \<and> abs_value = 0 then s else send_message_3 parameter sign_code abs_value s)
      else s)"

definition menu_perform :: "u8 \<Rightarrow> avr \<Rightarrow> avr" where
  "menu_perform param s =
     (let m = a_menu s in
      if param = PARAM_BRIGHTNESS then
        (if me_param_old m ! unat VALUE_BRIGHTNESS \<noteq> me_param_new m ! unat VALUE_BRIGHTNESS
         then flush_brightness_set (me_param_new m ! unat VALUE_BRIGHTNESS) s else s)
      else if param = PARAM_BRIGHTNESS_MIN then flush_brightness_set FLUSH_BRIGHTNESS_MIN s
      else if param = PARAM_BRIGHTNESS_MIDDLE then flush_brightness_set FLUSH_BRIGHTNESS_MIDDLE s
      else if param = PARAM_BRIGHTNESS_MAX then flush_brightness_set FLUSH_BRIGHTNESS_MAX s
      else if param = PARAM_CANCEL then s
      else if param = PARAM_NEXT then send_message_3 PARAMETER_TRACK PARAMETER_POSITIVE 1 s
      else if param = PARAM_PLAY then
        send_message_3 PARAMETER_GO_AHEAD PARAMETER_POSITIVE PARAMETER_POSITIVE s
      else if param = PARAM_PLAYLIST then
        send_difference FLAG_MASK_PLAYLIST VALUE_PLAYLIST PARAMETER_PLAYLIST True s
      else if param = PARAM_PREVIOUS then send_message_3 PARAMETER_TRACK PARAMETER_NEGATIVE 1 s
      else if param = PARAM_STOP then
        send_message_3 PARAMETER_GO_AHEAD PARAMETER_NEGATIVE PARAMETER_NEGATIVE s
      else if param = PARAM_TRACK then
        send_difference FLAG_MASK_TRACK VALUE_TRACK PARAMETER_TRACK False s
      else if param = PARAM_VOLUME then
        send_difference FLAG_MASK_VOLUME VALUE_VOLUME PARAMETER_VOLUME False s
      else if param = PARAM_POWER_OFF then send_message_1 MSG_ID_POWEROFF 0 s
      else if param = PARAM_POWER_OFF_15 then send_message_1 MSG_ID_POWEROFF 15 s
      else if param = PARAM_POWER_OFF_30 then send_message_1 MSG_ID_POWEROFF 30 s
      else if param = PARAM_POWER_ON then boot_pi s
      else if param = PARAM_REBOOT then send_message_0 MSG_ID_REBOOT s
      else s)"

definition stop_param :: "avr \<Rightarrow> u8" where
  "stop_param s =
     (let m = a_menu s in
      if me_state m = STATE_IDLE \<or> (me_state m = STATE_APPLY \<and> me_param_id m = PARAM_CANCEL)
      then PARAM_CANCEL
      else if me_state m = STATE_APPLY then me_secondary_param m
      else me_param_id m)"

definition menu_stop :: "avr \<Rightarrow> avr" where
  "menu_stop s =
     (let s = (if me_state (a_menu s) = STATE_TAG then menu_set_state STATE_VALUE s else s);
          s = menu_perform (stop_param s) s;
          s = flush_shift_drain_stop s;
          s = mode_set (me_backup_mode (a_menu s)) s;
          s = send_message_0 MSG_ID_RESUME s
      in menu_reset s)"

definition menu_schedule :: "u8 \<Rightarrow> avr \<Rightarrow> avr" where
  "menu_schedule delay s = at_schedule AT_MENU delay Menu_stop (at_cancel AT_MENU s)"

definition tag_request :: "avr \<Rightarrow> avr" where
  "tag_request s =
     (let m = a_menu s;
          value_id = (if me_param_id m = PARAM_PLAYLIST then VALUE_PLAYLIST else VALUE_TRACK)
      in if me_state m \<noteq> STATE_VALUE \<or> me_param_id m \<noteq> me_tag_param m
            \<or> me_tag_value m \<noteq> me_param_new m ! unat value_id then s
         else send_message_2 MSG_ID_QUERY_NAME
           (if me_param_id m = PARAM_PLAYLIST then PARAMETER_PLAYLIST else PARAMETER_TRACK)
           (me_tag_value m) s)"

definition schedule_tag :: "avr \<Rightarrow> avr" where
  "schedule_tag s =
     (let m = a_menu s in
      if me_state m \<noteq> STATE_VALUE \<or> (me_param_id m \<noteq> PARAM_PLAYLIST \<and> me_param_id m \<noteq> PARAM_TRACK) then s
      else
        let s = at_cancel AT_MENU_TAG s;
            value_id = (if me_param_id m = PARAM_PLAYLIST then VALUE_PLAYLIST else VALUE_TRACK);
            s = s\<lparr>a_menu := (a_menu s)\<lparr>me_tag_param := me_param_id (a_menu s),
                                      me_tag_value := me_param_new (a_menu s) ! unat value_id\<rparr>\<rparr>
        in at_schedule AT_MENU_TAG DELAY_TAG Menu_tag_request s)"

section \<open>The knobs\<close>

definition select_param :: "u8 \<Rightarrow> avr \<Rightarrow> avr" where
  "select_param action s =
     (let m = a_menu s in
      if action = ROTOR_CLOCKWISE \<and> me_param_id m < me_param_id_max m
      then me_set_param (me_param_id m + 1) s
      else if action = ROTOR_COUNTER_CLOCKWISE \<and> me_param_id m > me_param_id_min m
      then me_set_param (me_param_id m - 1) s
      else s)"

text \<open>The adjustable parameters: their flag and the index of their value.\<close>

definition is_adjustable :: "u8 \<Rightarrow> bool" where
  "is_adjustable param \<longleftrightarrow> param = PARAM_TRACK \<or> param = PARAM_VOLUME \<or> param = PARAM_BRIGHTNESS
     \<or> param = PARAM_PLAYLIST"

definition range_flag :: "u8 \<Rightarrow> u8" where
  "range_flag param =
     (if param = PARAM_TRACK then FLAG_TRACK else if param = PARAM_VOLUME then FLAG_VOLUME
      else if param = PARAM_BRIGHTNESS then FLAG_BRIGNHTNESS else FLAG_PLAYLIST)"

definition param_value_id :: "u8 \<Rightarrow> u8" where
  "param_value_id param =
     (if param = PARAM_TRACK then VALUE_TRACK else if param = PARAM_VOLUME then VALUE_VOLUME
      else if param = PARAM_BRIGHTNESS then VALUE_BRIGHTNESS else VALUE_PLAYLIST)"

definition set_new_value :: "nat \<Rightarrow> u8 \<Rightarrow> avr \<Rightarrow> avr" where
  "set_new_value i v s = s\<lparr>a_menu := (a_menu s)\<lparr>me_param_new := (me_param_new (a_menu s))[i := v]\<rparr>\<rparr>"

definition select_value :: "u8 \<Rightarrow> avr \<Rightarrow> avr" where
  "select_value action s =
     (let m = a_menu s; param = me_param_id m; i = unat (param_value_id param) in
      if \<not> is_adjustable param \<or> me_param_flag m AND range_flag param = 0 then s
      else if action = ROTOR_CLOCKWISE \<and> me_param_new m ! i < me_param_max m ! i
      then set_new_value i (me_param_new m ! i + 1) s
      else if action = ROTOR_COUNTER_CLOCKWISE \<and> me_param_new m ! i > me_param_min m ! i
      then set_new_value i (me_param_new m ! i - 1) s
      else s)"

definition select_apply :: "u8 \<Rightarrow> avr \<Rightarrow> avr" where
  "select_apply action s =
     me_set_param (if action = ROTOR_CLOCKWISE then PARAM_APPLY else PARAM_CANCEL) s"

text \<open>The words of the labels, in the order of the switch.\<close>

definition label_word :: "u8 \<Rightarrow> bytes" where
  "label_word param =
     (if param = PARAM_APPLY then [FONT_A, FONT_p, FONT_p, FONT_l, FONT_y]
      else if param = PARAM_BRIGHTNESS then [FONT_B, FONT_r]
      else if param = PARAM_BRIGHTNESS_MIN then [FONT_B, FONT_r, FONT_MINUS, FONT_M, FONT_i, FONT_n]
      else if param = PARAM_BRIGHTNESS_MIDDLE then [FONT_B, FONT_r, FONT_MINUS, FONT_M, FONT_i, FONT_d, FONT_d, FONT_l, FONT_e]
      else if param = PARAM_BRIGHTNESS_MAX then [FONT_B, FONT_r, FONT_MINUS, FONT_M, FONT_a, FONT_x]
      else if param = PARAM_CANCEL then [FONT_C, FONT_a, FONT_n, FONT_c, FONT_e, FONT_l]
      else if param = PARAM_NEXT then [FONT_N, FONT_e, FONT_x, FONT_t]
      else if param = PARAM_PLAY then [FONT_P, FONT_l, FONT_a, FONT_y]
      else if param = PARAM_PLAYLIST then [FONT_P, FONT_L]
      else if param = PARAM_PREVIOUS then [FONT_P, FONT_r, FONT_e, FONT_v]
      else if param = PARAM_REBOOT then [FONT_R, FONT_e, FONT_b, FONT_o, FONT_o, FONT_t]
      else if param = PARAM_POWER_OFF then [FONT_O, FONT_f, FONT_f]
      else if param = PARAM_POWER_OFF_15 then [FONT_O, FONT_f, FONT_f, FONT_MINUS, FONT_1, FONT_5]
      else if param = PARAM_POWER_OFF_30 then [FONT_O, FONT_f, FONT_f, FONT_MINUS, FONT_3, FONT_0]
      else if param = PARAM_POWER_ON then [FONT_O, FONT_n]
      else if param = PARAM_STOP then [FONT_S, FONT_t, FONT_o, FONT_p]
      else if param = PARAM_TRACK then [FONT_C, FONT_h]
      else if param = PARAM_VOLUME then [FONT_V, FONT_o]
      else [])"

definition render_label :: "u8 \<Rightarrow> buf_t \<Rightarrow> buf_t" where
  "render_label param q = snd (render_word (label_word param) q)"

definition render_source :: "menu \<Rightarrow> u8 \<Rightarrow> buf_t \<Rightarrow> buf_t" where
  "render_source m param q =
     (if \<not> is_adjustable param then q
      else
        let q = snd (render_symbol FONT_COLON q)
        in if me_param_flag m AND range_flag param = 0 then snd (render_symbol FONT_STAR q)
           else snd (render_number (me_param_old m ! unat (param_value_id param)) RENDER_LEADING_DISABLE q))"

definition render_destination :: "menu \<Rightarrow> u8 \<Rightarrow> buf_t \<Rightarrow> buf_t" where
  "render_destination m param q =
     (if \<not> is_adjustable param \<or> me_param_flag m AND range_flag param = 0 then q
      else snd (render_number (me_param_new m ! unat (param_value_id param)) RENDER_LEADING_DISABLE
             (snd (render_symbol FONT_COLON q))))"

definition menu_image :: "menu \<Rightarrow> buf_t" where
  "menu_image m =
     (let q = snd (buf_byte_fill (buf_init buf_zero) 0);
          q = render_label (me_param_id m) q
      in if me_state m = STATE_PARAM \<or> me_state m = STATE_VALUE
         then render_destination m (me_param_id m) (render_source m (me_param_id m) q) else q)"

definition menu_render :: "avr \<Rightarrow> avr" where
  "menu_render s =
     (if me_state (a_menu s) = STATE_IDLE then s
      else case render_tail (menu_image (a_menu s)) of
             Some pic \<Rightarrow> flush_stable_display pic s | None \<Rightarrow> s)"

definition rotor_to_state :: "u8 \<Rightarrow> u8" where
  "rotor_to_state i =
     (if i = ROTOR_APPLY then STATE_APPLY else if i = ROTOR_PARAM then STATE_PARAM else STATE_VALUE)"

definition rotor_to_param :: "u8 \<Rightarrow> avr \<Rightarrow> u8" where
  "rotor_to_param i s =
     (if i = ROTOR_APPLY then PARAM_APPLY
      else if mode_is_connnected s = 0 then (if i = ROTOR_PARAM then PARAM_POWER_ON else PARAM_BRIGHTNESS)
      else if i = ROTOR_VOLUME then PARAM_VOLUME
      else if i = ROTOR_TRACK then PARAM_TRACK
      else if i = ROTOR_PLAYLIST then PARAM_PLAYLIST
      else PARAM_POWER_OFF)"

text \<open>A turn in the state of its knob, and one that changes the state.\<close>

definition rotor_same_state :: "u8 \<Rightarrow> u8 \<Rightarrow> avr \<Rightarrow> avr" where
  "rotor_same_state i action s =
     (let state = me_state (a_menu s);
          s = (if state = STATE_APPLY then select_apply action s
               else if state = STATE_PARAM then select_param action s
               else if state = STATE_VALUE then
                 schedule_tag (select_value action
                   (if me_param_id (a_menu s) \<noteq> rotor_to_param i s
                    then query_source (me_set_param (rotor_to_param i s) s) else s))
               else s)
      in menu_render (menu_schedule
           (if me_state (a_menu s) = STATE_APPLY then DELAY_APPLY else DELAY_SELECT) s))"

definition rotor_new_state :: "u8 \<Rightarrow> u8 \<Rightarrow> avr \<Rightarrow> avr" where
  "rotor_new_state i action s =
     (let rotor_state = rotor_to_state i;
          s = (if me_state (a_menu s) = STATE_IDLE then menu_start i s else s);
          s = menu_set_state rotor_state s;
          s = (if rotor_state = STATE_APPLY then select_apply action s
               else if rotor_state = STATE_PARAM then select_param action s
               else if rotor_state = STATE_VALUE then
                 query_source (select_value action (me_set_param (rotor_to_param i s) s))
               else s)
      in menu_render (menu_schedule (if rotor_state = STATE_APPLY then DELAY_APPLY else DELAY_SELECT) s))"

definition menu_handle_rotor :: "u8 \<Rightarrow> u8 \<Rightarrow> avr \<Rightarrow> avr" where
  "menu_handle_rotor i action s =
     (let rotor_state = rotor_to_state i in
      if rotor_state = STATE_APPLY \<and> me_state (a_menu s) = STATE_IDLE then s
      else if me_state (a_menu s) = rotor_state then rotor_same_state i action s
      else rotor_new_state i action s)"

definition menu_init :: "avr \<Rightarrow> avr" where
  "menu_init s = menu_reset s"

section \<open>Answers of the daemon\<close>

definition menu_set_range :: "nat \<Rightarrow> u8 \<Rightarrow> u8 \<Rightarrow> u8 \<Rightarrow> avr \<Rightarrow> avr" where
  "menu_set_range i v low high s =
     s\<lparr>a_menu := (a_menu s)\<lparr>me_param_old := (me_param_old (a_menu s))[i := v],
                           me_param_new := (me_param_new (a_menu s))[i := v],
                           me_param_min := (me_param_min (a_menu s))[i := low],
                           me_param_max := (me_param_max (a_menu s))[i := high]\<rparr>\<rparr>"

definition menu_parameter_value :: "u8 \<Rightarrow> u8 \<Rightarrow> u8 \<Rightarrow> u8 \<Rightarrow> avr \<Rightarrow> u8 \<times> avr" where
  "menu_parameter_value parameter v low high s =
     (if parameter \<noteq> PARAMETER_VOLUME \<and> parameter \<noteq> PARAMETER_TRACK \<and> parameter \<noteq> PARAMETER_PLAYLIST
      then (0, s)
      else
        let i = unat (if parameter = PARAMETER_VOLUME then VALUE_VOLUME
                      else if parameter = PARAMETER_TRACK then VALUE_TRACK else VALUE_PLAYLIST);
            s = menu_set_range i v low high s;
            s = me_set_flag (if parameter = PARAMETER_VOLUME then FLAG_VOLUME
                             else if parameter = PARAMETER_TRACK then FLAG_TRACK else FLAG_PLAYLIST) s;
            s = menu_schedule DELAY_SELECT s;
            param = (if parameter = PARAMETER_VOLUME then PARAM_VOLUME
                     else if parameter = PARAMETER_TRACK then PARAM_TRACK else PARAM_PLAYLIST)
        in (1, if param = me_param_id (a_menu s) then menu_render s else s))"

definition menu_parameter_name :: "u8 \<Rightarrow> u8 \<Rightarrow> avr \<Rightarrow> u8 \<times> avr" where
  "menu_parameter_name parameter i s =
     (if parameter \<noteq> PARAMETER_PLAYLIST \<and> parameter \<noteq> PARAMETER_TRACK then (0, s)
      else
        let param = (if parameter = PARAMETER_PLAYLIST then PARAM_PLAYLIST else PARAM_TRACK);
            m = a_menu s
        in if param \<noteq> me_param_id m \<or> param \<noteq> me_tag_param m \<or> i \<noteq> me_tag_value m then (1, s)
           else (1, menu_set_state STATE_TAG (menu_schedule DELAY_READ s)))"

section \<open>What the other modules leave alone\<close>

text \<open>The menu and the brightness are changed by this theory and by \<open>flush_brightness_set\<close> only.\<close>

definition keeps_menu :: "(avr \<Rightarrow> avr) \<Rightarrow> bool" where
  "keeps_menu f \<longleftrightarrow> (\<forall>s. a_menu (f s) = a_menu s \<and> fl_brightness (a_flush (f s)) = fl_brightness (a_flush s))"

lemma keeps_menuD:
  assumes "keeps_menu f"
  shows "a_menu (f s) = a_menu s" "fl_brightness (a_flush (f s)) = fl_brightness (a_flush s)"
  using assms by (simp_all add: keeps_menu_def)

lemma keeps_menu_io:
  "keeps_menu (io_set r v)" "keeps_menu (io_or r v)" "keeps_menu (io_clear r v)"
  by (simp_all add: keeps_menu_def)

lemmas keeps_io [simp] = keeps_menu_io [THEN keeps_menuD(1)] keeps_menu_io [THEN keeps_menuD(2)]

lemma keeps_menu_counter:
  "keeps_menu (counter_enable i p)" "keeps_menu (counter_disable i)"
  "keeps_menu (counter_interrupt e i f)" "keeps_menu (counter_register_write i r lo hi)"
  by (auto simp: keeps_menu_def counter_enable_def counter_disable_def counter_interrupt_def
      counter_register_write_def control_register_set_def control_register_clear_def Let_def
      split: prod.splits option.splits)

lemmas keeps_counter [simp] =
  keeps_menu_counter [THEN keeps_menuD(1)] keeps_menu_counter [THEN keeps_menuD(2)]

lemma keeps_menu_cron:
  "keeps_menu (\<lambda>s. snd (cron_enable i factor cb s))" "keeps_menu (\<lambda>s. snd (cron_disable i s))"
  by (auto simp: keeps_menu_def cron_enable_def cron_disable_def cron_set_def engage_timer_def
      disengage_timer_def counter_interrupt_enable_def counter_interrupt_disable_def Let_def)

lemmas keeps_cron [simp] = keeps_menu_cron [THEN keeps_menuD(1)] keeps_menu_cron [THEN keeps_menuD(2)]

lemma keeps_menu_at:
  "keeps_menu (at_schedule i delay cb)" "keeps_menu (at_cancel i)" "keeps_menu boot_pi"
  "keeps_menu (menu_schedule delay)"
  by (auto simp: keeps_menu_def at_schedule_def at_cancel_def at_clear_def boot_pi_def
      menu_schedule_def Let_def)

lemma keeps_menu_heartbeat:
  "keeps_menu heartbeat_cancel" "keeps_menu (heartbeat_start delay limit r p)"
  by (auto simp: keeps_menu_def heartbeat_cancel_def heartbeat_start_def)

lemma keeps_menu_twi:
  "keeps_menu (\<lambda>s. snd (twi_write_array i tag len reg data s))"
  "keeps_menu watch_enable" "keeps_menu watch_disable" "keeps_menu (watch_set h m sec)"
  by (auto simp: keeps_menu_def twi_write_array_def twi_enqueue_def watch_enable_def watch_disable_def
      watch_set_def twi_write_byte_def split: prod.splits)

lemmas keeps_modules [simp] =
  keeps_menu_at [THEN keeps_menuD(1)] keeps_menu_at [THEN keeps_menuD(2)]
  keeps_menu_heartbeat [THEN keeps_menuD(1)] keeps_menu_heartbeat [THEN keeps_menuD(2)]
  keeps_menu_twi [THEN keeps_menuD(1)] keeps_menu_twi [THEN keeps_menuD(2)]

lemma keeps_menu_mode: "keeps_menu (set_connected c)" "keeps_menu (mode_set m)"
  by (auto simp: keeps_menu_def set_connected_def mode_set_def Let_def)

lemma keeps_menu_encode:
  "keeps_menu (encode_msg_0 i n)" "keeps_menu (encode_msg_1 i n p1)"
  "keeps_menu (encode_msg_2 i n p1 p2)" "keeps_menu (encode_msg_3 i n p1 p2 p3)"
proof -
  have post: "a_menu (out_post n ls) = a_menu (snd ls)"
    "fl_brightness (a_flush (out_post n ls)) = fl_brightness (a_flush (snd ls))" for n ls
    by (auto simp: out_post_def postpone_message_def postpone_flush_def spi_write_array_def
        split: prod.splits)
  show "keeps_menu (encode_msg_0 i n)" "keeps_menu (encode_msg_1 i n p1)"
    "keeps_menu (encode_msg_2 i n p1 p2)" "keeps_menu (encode_msg_3 i n p1 p2 p3)"
    by (simp_all add: keeps_menu_def encode_msg_0_def encode_msg_1_def encode_msg_2_def
        encode_msg_3_def post out_put_def encode_msg_def)
qed

lemmas keeps_link [simp] =
  keeps_menu_mode [THEN keeps_menuD(1)] keeps_menu_mode [THEN keeps_menuD(2)]
  keeps_menu_encode [THEN keeps_menuD(1)] keeps_menu_encode [THEN keeps_menuD(2)]

lemma keeps_menu_send:
  "keeps_menu (send_message_0 i)" "keeps_menu (send_message_1 i p1)"
  "keeps_menu (send_message_2 i p1 p2)" "keeps_menu (send_message_3 p x y)"
  by (simp_all add: keeps_menu_def send_message_0_def send_message_1_def send_message_2_def
      send_message_3_def)

lemma keeps_menu_flush:
  "keeps_menu flush_shift_drain_start" "keeps_menu flush_shift_drain_stop"
  by (simp_all add: keeps_menu_def flush_shift_drain_start_def flush_shift_drain_stop_def)

lemmas keeps_send [simp] =
  keeps_menu_send [THEN keeps_menuD(1)] keeps_menu_send [THEN keeps_menuD(2)]
  keeps_menu_flush [THEN keeps_menuD(1)] keeps_menu_flush [THEN keeps_menuD(2)]

lemma keeps_menu_stable: "keeps_menu (flush_stable_display q)"
  unfolding keeps_menu_def flush_stable_display_def
  by (simp add: only_portD [OF only_port_dump])

lemma keeps_menu_render: "keeps_menu menu_render"
  using keeps_menu_stable by (auto simp: keeps_menu_def menu_render_def split: option.split)

lemmas keeps_render [simp] = keeps_menu_render [THEN keeps_menuD(1)] keeps_menu_render [THEN keeps_menuD(2)]

lemma brightness_set_effect:
  "a_menu (flush_brightness_set b s) = a_menu s"
  "fl_brightness (a_flush (flush_brightness_set b s)) =
     (if b \<le> FLUSH_BRIGHTNESS_MAX then b else fl_brightness (a_flush s))"
  by (auto simp: flush_brightness_set_def Let_def only_portD [OF only_port_display(6)])

section \<open>The values stay in their range\<close>

definition values_ok :: "avr \<Rightarrow> bool" where
  "values_ok s \<longleftrightarrow>
     (let m = a_menu s in
      length (me_param_max m) = 4 \<and> length (me_param_min m) = 4 \<and> length (me_param_old m) = 4 \<and>
      length (me_param_new m) = 4 \<and>
      (\<forall>i < 4. me_param_min m ! i \<le> me_param_new m ! i \<and> me_param_new m ! i \<le> me_param_max m ! i)) \<and>
     fl_brightness (a_flush s) \<le> FLUSH_BRIGHTNESS_MAX"

text \<open>Steps of the menu: a knob, the time-out, the delayed name request, and the daemon's answers.\<close>

datatype menu_event =
    Knob u8 u8
  | Timeout
  | Tag_timer
  | Range u8 u8 u8 u8
  | Name u8 u8

fun menu_step :: "avr \<Rightarrow> menu_event \<Rightarrow> avr" where
  "menu_step s (Knob i action) = menu_handle_rotor i action s"
| "menu_step s Timeout = menu_stop s"
| "menu_step s Tag_timer = tag_request s"
| "menu_step s (Range parameter v low high) = snd (menu_parameter_value parameter v low high s)"
| "menu_step s (Name parameter i) = snd (menu_parameter_name parameter i s)"

text \<open>The daemon sends a value that lies in the range it sends.\<close>

fun range_honest :: "menu_event \<Rightarrow> bool" where
  "range_honest (Range parameter v low high) \<longleftrightarrow> low \<le> v \<and> v \<le> high"
| "range_honest _ \<longleftrightarrow> True"

lemma values_ok_cong:
  assumes "values_ok s" "fl_brightness (a_flush s') = fl_brightness (a_flush s)"
    "me_param_max (a_menu s') = me_param_max (a_menu s)" "me_param_min (a_menu s') = me_param_min (a_menu s)"
    "me_param_old (a_menu s') = me_param_old (a_menu s)" "me_param_new (a_menu s') = me_param_new (a_menu s)"
  shows "values_ok s'"
  using assms by (simp add: values_ok_def Let_def)

lemma values_ok_keeps: "keeps_menu f \<Longrightarrow> values_ok s \<Longrightarrow> values_ok (f s)"
  by (rule values_ok_cong) (simp_all add: keeps_menuD)

lemma values_ok_small:
  "values_ok s \<Longrightarrow> values_ok (me_set_param v s)" "values_ok s \<Longrightarrow> values_ok (me_set_flag v s)"
  "values_ok s \<Longrightarrow> values_ok (me_set_state v s)" "values_ok s \<Longrightarrow> values_ok (set_param_range v s)"
  "values_ok s \<Longrightarrow> values_ok (select_param action s)" "values_ok s \<Longrightarrow> values_ok (select_apply action s)"
  "values_ok s \<Longrightarrow> values_ok (query_source s)"
  by (auto elim!: values_ok_cong simp: me_set_param_def me_set_flag_def me_set_state_def
      set_param_range_def select_param_def select_apply_def query_source_def Let_def)

lemma values_ok_schedule_tag: "values_ok s \<Longrightarrow> values_ok (schedule_tag s)"
  by (auto elim!: values_ok_cong simp: schedule_tag_def Let_def)

lemma values_ok_set_state: "values_ok s \<Longrightarrow> values_ok (menu_set_state v s)"
  by (auto elim!: values_ok_cong simp: menu_set_state_def me_set_state_def set_param_range_def Let_def)

lemma all4: "(\<forall>i < (4 :: nat). P i) = (P 0 \<and> P 1 \<and> P 2 \<and> P 3)"
  by (auto simp: numeral_eq_Suc less_Suc_eq)

lemma values_ok_reset:
  assumes "values_ok s"
  shows "values_ok (menu_reset s)"
  using assms by (simp add: values_ok_def menu_reset_def flush_brightness_get_def Let_def all4)

lemma values_ok_new:
  assumes "values_ok s" "me_param_min (a_menu s) ! i \<le> v" "v \<le> me_param_max (a_menu s) ! i"
  shows "values_ok (set_new_value i v s)"
proof (cases "i < 4")
  case True
  with assms show ?thesis by (auto simp: values_ok_def set_new_value_def Let_def nth_list_update)
next
  case False
  with assms have "set_new_value i v s = s"
    by (simp add: values_ok_def set_new_value_def Let_def list_update_beyond)
  with assms(1) show ?thesis by simp
qed

lemma values_ok_select_value:
  assumes "values_ok s"
  shows "values_ok (select_value action s)"
proof -
  let ?i = "unat (param_value_id (me_param_id (a_menu s)))" and ?m = "a_menu s"
  have "?i < 4" by (simp add: param_value_id_def)
  then have range: "me_param_min ?m ! ?i \<le> me_param_new ?m ! ?i" "me_param_new ?m ! ?i \<le> me_param_max ?m ! ?i"
    using assms by (simp_all add: values_ok_def Let_def)
  have up: "me_param_min ?m ! ?i \<le> me_param_new ?m ! ?i + 1 \<and> me_param_new ?m ! ?i + 1 \<le> me_param_max ?m ! ?i"
    if "me_param_new ?m ! ?i < me_param_max ?m ! ?i"
    using that range(1) unat_u8_inc [OF that] by (simp add: u8_le_iff u8_less_iff)
  have down: "me_param_min ?m ! ?i \<le> me_param_new ?m ! ?i - 1 \<and> me_param_new ?m ! ?i - 1 \<le> me_param_max ?m ! ?i"
    if "me_param_new ?m ! ?i > me_param_min ?m ! ?i"
  proof -
    have "1 \<le> me_param_new ?m ! ?i" using that by (simp add: u8_le_iff u8_less_iff)
    then show ?thesis
      using that range(2) unat_u8_minus [of 1 "me_param_new ?m ! ?i"]
      by (auto simp: u8_le_iff u8_less_iff)
  qed
  show ?thesis
    using assms values_ok_new [OF assms] up down by (auto simp: select_value_def Let_def)
qed

lemma values_ok_start: "values_ok s \<Longrightarrow> values_ok (menu_start i s)"
proof -
  assume "values_ok s"
  then have "values_ok (menu_reset s)" by (rule values_ok_reset)
  then show ?thesis
    using \<open>values_ok s\<close> by (auto elim!: values_ok_cong simp: menu_start_def Let_def)
qed

lemma values_ok_brightness:
  assumes "values_ok s"
  shows "values_ok (flush_brightness_set b s)"
  using assms brightness_set_effect [of b s] by (simp add: values_ok_def Let_def)

lemma values_ok_perform:
  assumes "values_ok s"
  shows "values_ok (menu_perform param s)"
proof -
  have sent: "values_ok (send_message_0 i s)" "values_ok (send_message_1 i p1 s)"
    "values_ok (send_message_3 p x y s)" "values_ok (boot_pi s)" for i p1 p x y
    using values_ok_keeps [OF keeps_menu_send(1) assms] values_ok_keeps [OF keeps_menu_send(2) assms]
      values_ok_keeps [OF keeps_menu_send(4) assms] values_ok_keeps [OF keeps_menu_at(3) assms] by auto
  have "values_ok (send_difference k i p z s)" for k i p z
    using assms sent(3) by (simp add: send_difference_def Let_def case_prod_beta)
  then show ?thesis
    using assms sent values_ok_brightness [OF assms] by (simp add: menu_perform_def Let_def)
qed

lemma values_ok_stop:
  assumes "values_ok s"
  shows "values_ok (menu_stop s)"
proof -
  let ?s1 = "if me_state (a_menu s) = STATE_TAG then menu_set_state STATE_VALUE s else s"
  have "values_ok ?s1" using assms values_ok_set_state by simp
  then have "values_ok (menu_perform (stop_param ?s1) ?s1)" by (rule values_ok_perform)
  then have "values_ok (flush_shift_drain_stop (menu_perform (stop_param ?s1) ?s1))"
    by (rule values_ok_keeps [OF keeps_menu_flush(2)])
  then have "values_ok (mode_set m (flush_shift_drain_stop (menu_perform (stop_param ?s1) ?s1)))" for m
    by (rule values_ok_keeps [OF keeps_menu_mode(2)])
  then have "values_ok (send_message_0 i (mode_set m (flush_shift_drain_stop (menu_perform (stop_param ?s1) ?s1))))"
    for i m by (rule values_ok_keeps [OF keeps_menu_send(1)])
  then show ?thesis unfolding menu_stop_def Let_def by (rule values_ok_reset)
qed

lemma values_ok_show: "values_ok s \<Longrightarrow> values_ok (menu_render (menu_schedule d s))"
  by (intro values_ok_keeps [OF keeps_menu_render] values_ok_keeps [OF keeps_menu_at(4)])

lemma values_ok_rotor:
  assumes "values_ok s"
  shows "values_ok (menu_handle_rotor i action s)"
proof -
  note small = values_ok_small values_ok_select_value values_ok_schedule_tag values_ok_set_state values_ok_start
  have "values_ok (rotor_same_state i action s)"
    unfolding rotor_same_state_def Let_def by (rule values_ok_show) (auto intro!: small assms)
  moreover have "values_ok (rotor_new_state i action s)"
    unfolding rotor_new_state_def Let_def by (rule values_ok_show) (auto intro!: small assms)
  ultimately show ?thesis using assms by (simp add: menu_handle_rotor_def Let_def)
qed

lemma values_ok_range:
  assumes "values_ok s" "low \<le> v" "v \<le> high"
  shows "values_ok (snd (menu_parameter_value p v low high s))"
proof -
  have put: "values_ok (menu_set_range i v low high s)" if "i < 4" for i
    using assms that by (auto simp: menu_set_range_def values_ok_def Let_def nth_list_update)
  have flag: "values_ok (menu_schedule d (me_set_flag f (menu_set_range i v low high s)))"
    if "i < 4" for d f i
    by (rule values_ok_keeps [OF keeps_menu_at(4)], rule values_ok_small(2), rule put [OF that])
  then have "values_ok (menu_render (menu_schedule d (me_set_flag f (menu_set_range i v low high s))))"
    if "i < 4" for d f i
    using that by (auto intro: values_ok_keeps [OF keeps_menu_render])
  with flag assms(1) show ?thesis by (simp add: menu_parameter_value_def Let_def)
qed

lemma values_ok_step: "values_ok s \<Longrightarrow> range_honest e \<Longrightarrow> values_ok (menu_step s e)"
proof (cases e)
  case Tag_timer
  assume "values_ok s"
  then show ?thesis
    using Tag_timer values_ok_keeps [OF keeps_menu_send(3)] by (simp add: tag_request_def Let_def)
next
  case (Name p i)
  assume ok: "values_ok s"
  then have "values_ok (menu_set_state STATE_TAG (menu_schedule DELAY_READ s))"
    by (intro values_ok_set_state values_ok_keeps [OF keeps_menu_at(4)])
  with Name ok show ?thesis by (simp add: menu_parameter_name_def Let_def)
qed (simp_all add: values_ok_rotor values_ok_stop values_ok_range)



section \<open>Leaving the menu with a playlist\<close>

lemma mode_set_link:
  "a_spi (mode_set m s) = a_spi s" "a_postpone (mode_set m s) = a_postpone s"
  "a_out_buf (mode_set m s) = a_out_buf s"
proof -
  have cron: "a_spi (snd (cron_disable i s)) = a_spi s" "a_postpone (snd (cron_disable i s)) = a_postpone s"
    "a_out_buf (snd (cron_disable i s)) = a_out_buf s" "a_spi (snd (cron_enable i f cb s)) = a_spi s"
    "a_postpone (snd (cron_enable i f cb s)) = a_postpone s" "a_out_buf (snd (cron_enable i f cb s)) = a_out_buf s"
    for i f cb s
    by (auto simp: cron_disable_def cron_enable_def cron_set_def engage_timer_def disengage_timer_def
        counter_interrupt_enable_def counter_interrupt_disable_def counter_interrupt_def
        counter_enable_def counter_disable_def counter_register_write_def control_register_set_def
        control_register_clear_def Let_def split: prod.splits option.splits)
  have twi: "a_spi (snd (twi_write_byte i tag r v s)) = a_spi s"
    "a_postpone (snd (twi_write_byte i tag r v s)) = a_postpone s"
    "a_out_buf (snd (twi_write_byte i tag r v s)) = a_out_buf s" for i tag r v s
    by (auto simp: twi_write_byte_def twi_write_array_def twi_enqueue_def split: prod.splits)
  show "a_spi (mode_set m s) = a_spi s" "a_postpone (mode_set m s) = a_postpone s"
    "a_out_buf (mode_set m s) = a_out_buf s"
    by (simp_all add: mode_set_def watch_disable_def watch_enable_def heartbeat_cancel_def
        heartbeat_start_def set_connected_def cron twi Let_def)
qed

lemma mode_set_connected:
  "mo_current_mode (a_mode s) \<noteq> MODE_RADIO \<Longrightarrow> mode_is_connnected (mode_set MODE_RADIO s) = 1"
  by (simp add: mode_set_def mode_is_connnected_def set_connected_def Let_def)

lemma encode_mode:
  "a_mode (encode_msg_3 i n p1 p2 p3 s) = a_mode s"
  by (auto simp: encode_msg_3_def out_post_def out_put_def encode_msg_def postpone_message_def
      postpone_flush_def spi_write_array_def split: prod.splits)

lemma menu_reset_link:
  "sent (menu_reset s) = sent s" "avr_link_ok (menu_reset s) = avr_link_ok s"
  by (simp_all add: menu_reset_def sent_def avr_link_ok_def Let_def)

lemma menu_stop_playlist:
  assumes "avr_link_ok s" "me_state (a_menu s) = STATE_APPLY" "me_param_id (a_menu s) = PARAM_APPLY"
    "me_secondary_param (a_menu s) = PARAM_PLAYLIST"
    "me_param_flag (a_menu s) AND FLAG_MASK_PLAYLIST = FLAG_MASK_PLAYLIST"
    "mode_is_connnected s \<noteq> 0" "mode_get s = MODE_MENU" "me_backup_mode (a_menu s) = MODE_RADIO"
    "length (sent s) \<le> 222" "me_param_old (a_menu s) ! unat VALUE_PLAYLIST = old"
    "me_param_new (a_menu s) ! unat VALUE_PLAYLIST = new" "old \<noteq> new"
    "get_sign_abs old new = (sign_code, abs_value)"
  shows "sent (menu_stop s) = sent s
      @ avr_frame MSG_ID_PARAM_SET SERIAL_ID_TO_IGNORE [PARAMETER_PLAYLIST, sign_code, abs_value]
      @ avr_frame MSG_ID_RESUME SERIAL_ID_TO_IGNORE []"
proof -
  have nonzero: "abs_value \<noteq> 0" using assms(12,13) by (auto simp: get_sign_abs_def split: if_splits)
  let ?s1 = "encode_msg_3 MSG_ID_PARAM_SET SERIAL_ID_TO_IGNORE PARAMETER_PLAYLIST sign_code abs_value s"
  have perform: "menu_perform (stop_param s) s = ?s1"
    using assms(2-6,10,11,13) nonzero
    by (simp add: stop_param_def menu_perform_def send_difference_def send_message_3_def Let_def)
  note posted = encode_msg_posted(4) [OF assms(1), of SERIAL_ID_TO_IGNORE MSG_ID_PARAM_SET
      PARAMETER_PLAYLIST sign_code abs_value]
  let ?s2 = "mode_set MODE_RADIO (flush_shift_drain_stop ?s1)"
  have drain: "a_spi (flush_shift_drain_stop t) = a_spi t" "a_postpone (flush_shift_drain_stop t) = a_postpone t"
    "a_out_buf (flush_shift_drain_stop t) = a_out_buf t" "a_mode (flush_shift_drain_stop t) = a_mode t" for t
    by (simp_all add: flush_shift_drain_stop_def)
  have s2: "avr_link_ok ?s2" "sent ?s2 = sent s
      @ avr_frame MSG_ID_PARAM_SET SERIAL_ID_TO_IGNORE [PARAMETER_PLAYLIST, sign_code, abs_value]"
    using posted assms(9) by (simp_all add: posted_def avr_link_ok_def sent_def mode_set_link drain)
  have connected: "mode_is_connnected ?s2 \<noteq> 0"
    using mode_set_connected [of "flush_shift_drain_stop ?s1"] assms(7)
    by (simp add: drain encode_mode mode_get_def)
  have stop: "menu_stop s = menu_reset (encode_msg_0 MSG_ID_RESUME SERIAL_ID_TO_IGNORE ?s2)"
    using assms(2,8) connected perform
    by (simp add: menu_stop_def send_message_0_def Let_def del: mark_defs)
  note resumed = encode_msg_posted(1) [OF s2(1), of SERIAL_ID_TO_IGNORE MSG_ID_RESUME]
  have "length (sent ?s2) \<le> 229" using s2(2) assms(9) by (simp add: avr_frame_def)
  then show ?thesis
    using resumed s2(2) by (simp add: stop menu_reset_link posted_def)
qed

text \<open>A difference of two values, applied to the first, gives the second.\<close>

lemma get_sign_abs_apply:
  assumes "get_sign_abs old new = (sign_code, abs_value)"
  shows "sign_code \<in> {PARAMETER_POSITIVE, PARAMETER_NEGATIVE}"
    "(if sign_code = PARAMETER_POSITIVE then (unat old + unat abs_value) mod 256 else unat old - unat abs_value)
      = unat new"
proof -
  show "sign_code \<in> {PARAMETER_POSITIVE, PARAMETER_NEGATIVE}"
    using assms by (auto simp: get_sign_abs_def split: if_splits)
  consider "old = new" | "old < new" | "new < old" by (meson linorder_less_linear)
  then show "(if sign_code = PARAMETER_POSITIVE then (unat old + unat abs_value) mod 256 else unat old - unat abs_value)
      = unat new"
  proof cases
    case 2
    then have "sign_code = PARAMETER_POSITIVE" "abs_value = new - old"
      using assms by (auto simp: get_sign_abs_def split: if_splits)
    then show ?thesis using 2 unat_u8_minus [of old new] by (simp add: u8_less_iff u8_le_iff)
  next
    case 3
    then have "sign_code = PARAMETER_NEGATIVE" "abs_value = old - new"
      using assms by (auto simp: get_sign_abs_def split: if_splits)
    then show ?thesis using 3 unat_u8_minus [of new old] by (simp add: u8_less_iff u8_le_iff)
  qed (use assms in \<open>auto simp: get_sign_abs_def\<close>)
qed

end
