(* ===== verification/Avr_Main.thy ===== *)
theory Avr_Main
  imports Avr_Menu
begin

text \<open>
  The receiving half of the link (\<open>src/src/avr/decode.c\<close>, and the confirm interrupt of \<open>spi.c\<close>), the
  knobs (\<open>rotor.c\<close>), and the main program (\<open>avr.c\<close>): initialisation, the executor of stored
  callbacks, and a round of the main loop. Interrupts happen between the steps of a round.
\<close>

section \<open>\<open>decode.c\<close>\<close>

definition decode_init :: "avr \<Rightarrow> avr" where
  "decode_init s = s\<lparr>a_decode := (a_decode s)\<lparr>de_decoded := 0, de_msg_size := 0, de_msg_serial := 0,
     de_msg_id := MSG_ID_EMPTY\<rparr>\<rparr>"

definition answer_status :: "u8 \<Rightarrow> u8 \<Rightarrow> avr \<Rightarrow> avr" where
  "answer_status status msg_id s =
     encode_msg_2 MSG_ID_STATUS (de_msg_serial (a_decode s)) status msg_id s"

definition decode_dispatch :: "avr \<Rightarrow> avr" where
  "decode_dispatch s =
     (let s = heartbeat_confirm s;
          d = a_decode s;
          i = de_msg_id d;
          buf = de_in_buf d
      in if i = MSG_ID_LED_ARRAY then
           (case flush_shift_data buf (de_msg_size d - 2) s of (r, s) \<Rightarrow>
              answer_status (if r = 1 then STATUS_SUCCESS else STATUS_FAIL) MSG_ID_LED_ARRAY s)
         else if i = MSG_ID_QUERY_NAME then
           (case menu_parameter_name (buf ! 0) (buf ! 1) s of (r, s) \<Rightarrow>
              answer_status (if r \<noteq> 0 then STATUS_SUCCESS else STATUS_FAIL) i s)
         else if i = MSG_ID_QUERY_NUMBER then
           (case menu_parameter_value (buf ! 0) (buf ! 1) (buf ! 2) (buf ! 3) s of (r, s) \<Rightarrow>
              answer_status (if r \<noteq> 0 then STATUS_SUCCESS else STATUS_FAIL) i s)
         else if i = MSG_ID_IDLE then s
         else if i = MSG_ID_SYNC_CLOCK then
           answer_status STATUS_SUCCESS MSG_ID_SYNC_CLOCK (watch_set (buf ! 0) (buf ! 1) 0 s)
         else if i = MSG_ID_HANDSHAKE then mode_set MODE_RADIO s
         else answer_status STATUS_UNKNOWN_MSG i s)"

definition de_set :: "(decode \<Rightarrow> decode) \<Rightarrow> avr \<Rightarrow> avr" where
  "de_set f s = s\<lparr>a_decode := f (a_decode s)\<rparr>"

text \<open>
  One field of the header: it is skipped when its bit says that it was read, and the decoder waits
  (\<open>False\<close>) when no byte is there.
\<close>

definition decode_field :: "u8 \<Rightarrow> (u8 \<Rightarrow> decode \<Rightarrow> decode) \<Rightarrow> avr \<Rightarrow> bool \<times> avr" where
  "decode_field flag put s =
     (if de_decoded (a_decode s) AND flag \<noteq> 0 then (True, s)
      else case spi_read_symbol 0 s of (status, s, symbol) \<Rightarrow>
        if status = 0 then (False, s)
        else (True, de_set (\<lambda>d. put symbol d\<lparr>de_decoded := de_decoded d OR flag\<rparr>) s))"

text \<open>The mark that starts a frame; anything else is ignored.\<close>

definition decode_catch :: "avr \<Rightarrow> bool \<times> avr" where
  "decode_catch s =
     (if de_decoded (a_decode s) \<noteq> 0 then (True, s)
      else case spi_read_symbol 0 s of (status, s, symbol) \<Rightarrow>
        if status = 0 \<or> symbol \<noteq> EYE_CATCH then (False, s)
        else (True, de_set (\<lambda>d. d\<lparr>de_decoded := de_decoded d OR CATCH_DECODED\<rparr>) s))"

text \<open>
  The payload is read in one piece, without a check of its length against the 26 bytes of
  \<open>in_buf\<close>; \<open>None\<close> is a write behind the end of the array.
\<close>

definition decode_payload :: "avr \<Rightarrow> avr option" where
  "decode_payload s =
     (let n = de_msg_size (a_decode s) - 2 in
      case spi_read_array (de_in_buf (a_decode s)) n s of (status, s', buf) \<Rightarrow>
        if status = 0 then Some s'
        else if n > IN_SIZE then None
        else Some (decode_init (decode_dispatch (de_set (\<lambda>d. d\<lparr>de_in_buf := buf\<rparr>) s'))))"

text \<open>The four bytes of the header, and the decoder's step of the main loop.\<close>

definition decode_header :: "avr \<Rightarrow> bool \<times> avr" where
  "decode_header s =
     (case decode_catch s of (go, s) \<Rightarrow> if \<not> go then (False, s)
      else case decode_field SIZE_DECODED (\<lambda>v d. d\<lparr>de_msg_size := v\<rparr>) s of (go, s) \<Rightarrow> if \<not> go then (False, s)
      else case decode_field SERIAL_DECODED (\<lambda>v d. d\<lparr>de_msg_serial := v\<rparr>) s of (go, s) \<Rightarrow> if \<not> go then (False, s)
      else decode_field MSG_ID_DECODED (\<lambda>v d. d\<lparr>de_msg_id := v\<rparr>) s)"

definition decode_try :: "avr \<Rightarrow> avr option" where
  "decode_try s =
     (if spi_read_size s = 0 then Some s
      else case decode_header s of (go, s) \<Rightarrow> if go then decode_payload s else Some s)"

text \<open>The interrupt of the daemon's enable line (\<open>INT3\<close> in \<open>spi.c\<close>).\<close>

definition CONFIRM_HOLD_TIME :: u8 where
  "CONFIRM_HOLD_TIME = 2"

definition int3_isr :: "avr \<Rightarrow> avr" where
  "int3_isr s =
     (let s = s\<lparr>a_spi := \<lparr>sp_read_buf = buffer_clear (sp_read_buf (a_spi s)),
                          sp_write_buf = buffer_clear (sp_write_buf (a_spi s))\<rparr>\<rparr>;
          s = decode_init s;
          s = io_or PORTB CONFIRM_BIT s;
          s = encode_msg_1 MSG_ID_VERSION SERIAL_ID_TO_IGNORE PROTOCOL_VERSION s
      in at_schedule AT_SPI CONFIRM_HOLD_TIME Spi_misconfirm s)"

section \<open>\<open>rotor.c\<close>\<close>

text \<open>\<open>PCIE1\<close> is bit 1 and \<open>PCIE2\<close> bit 2.\<close>

definition rotor_init :: "avr \<Rightarrow> avr" where
  "rotor_init s =
     (let s = s\<lparr>a_rotor := \<lparr>ro_j_event_buf = buf_init (ro_j_event_buf (a_rotor s)),
                            ro_k_event_buf = buf_init (ro_k_event_buf (a_rotor s))\<rparr>\<rparr>;
          s = io_clear DDRK MASK_K s;
          s = io_clear DDRJ MASK_J s;
          s = io_or PCICR 6 s;
          s = io_or PCMSK1 6 s;
          s = io_or PCMSK2 MASK_K s;
          s = io_or PORTK MASK_K s
      in io_or PORTJ MASK_J s)"

text \<open>
  The loop over the knobs of a port: \<open>n\<close> knobs are left, the current one is \<open>i\<close> and its two bits
  are \<open>mask_a\<close> and \<open>mask_b\<close>.
\<close>

fun event_loop ::
  "u8 \<Rightarrow> u8 \<Rightarrow> u8 \<Rightarrow> u8 \<Rightarrow> nat \<Rightarrow> u8 \<Rightarrow> u8 \<Rightarrow> u8 \<Rightarrow> u8 \<Rightarrow> avr \<Rightarrow> u8 \<times> avr" where
  "event_loop source modern old oldest 0 i mask_a mask_b status s = (status, s)"
| "event_loop source modern old oldest (Suc n) i mask_a mask_b status s =
     (let shift = (if source = ID_J then ROTOR_4 else ROTOR_0) in
      if modern AND (mask_a OR mask_b) = 0 then
        (let (status, s) =
           (if old AND mask_a \<noteq> 0 \<and> oldest AND mask_b \<noteq> 0
            then (1, menu_handle_rotor (i + shift) ROTOR_CLOCKWISE s)
            else if old AND mask_b \<noteq> 0 \<and> oldest AND mask_a \<noteq> 0
            then (1, menu_handle_rotor (i + shift) ROTOR_COUNTER_CLOCKWISE s)
            else (status, s))
         in if source = ID_J then (status, s)
            else event_loop source modern old oldest n (i + 1) (push_bit (unat STEP) mask_a)
                   (push_bit (unat STEP) mask_b) status s)
      else event_loop source modern old oldest n (i + 1) (push_bit (unat STEP) mask_a)
             (push_bit (unat STEP) mask_b) status s)"

definition handle_event :: "u8 \<Rightarrow> u8 \<Rightarrow> u8 \<Rightarrow> u8 \<Rightarrow> avr \<Rightarrow> u8 \<times> avr" where
  "handle_event source modern old oldest s =
     event_loop source modern old oldest (unat (ROTOR_4 - ROTOR_0)) ROTOR_0 MASK_A MASK_B 0 s"

text \<open>The oldest three events: modern, old, oldest.\<close>

definition queue_head :: "buf_t \<Rightarrow> (u8 \<times> u8 \<times> u8) option" where
  "queue_head q =
     (if buf_size q < 3 then None
      else case (buf_byte_get q 0 0, buf_byte_get q 1 0, buf_byte_get q 2 0) of
             ((r0, oldest), (r1, old), (r2, modern)) \<Rightarrow>
               if r0 \<noteq> 0 \<and> r1 \<noteq> 0 \<and> r2 \<noteq> 0 then Some (modern, old, oldest) else None)"

fun event_queue_drain :: "nat \<Rightarrow> buf_t \<Rightarrow> buf_t" where
  "event_queue_drain 0 q = q"
| "event_queue_drain (Suc n) q = (case buf_byte_drain q 0 of (_, q', _) \<Rightarrow> event_queue_drain n q')"

definition try_queue :: "buf_t \<Rightarrow> u8 \<Rightarrow> avr \<Rightarrow> buf_t \<times> avr" where
  "try_queue q queue_id s =
     (case queue_head q of
        None \<Rightarrow> (q, s)
      | Some (modern, old, oldest) \<Rightarrow>
          (case handle_event queue_id modern old oldest s of (status, s) \<Rightarrow>
             (event_queue_drain (if status \<noteq> 0 then 3 else 1) q, s)))"

definition rotor_try :: "avr \<Rightarrow> avr" where
  "rotor_try s =
     (let (q, s) = try_queue (ro_j_event_buf (a_rotor s)) ID_J s;
          s = s\<lparr>a_rotor := (a_rotor s)\<lparr>ro_j_event_buf := q\<rparr>\<rparr>;
          (q, s) = try_queue (ro_k_event_buf (a_rotor s)) ID_K s
      in s\<lparr>a_rotor := (a_rotor s)\<lparr>ro_k_event_buf := q\<rparr>\<rparr>)"

definition pcint1_isr :: "avr \<Rightarrow> avr" where
  "pcint1_isr s = s\<lparr>a_rotor := (a_rotor s)\<lparr>ro_j_event_buf :=
     snd (buf_byte_fill (ro_j_event_buf (a_rotor s)) (NOT (io_get PINJ s AND MASK_J) AND MASK_J))\<rparr>\<rparr>"

definition pcint2_isr :: "avr \<Rightarrow> avr" where
  "pcint2_isr s = s\<lparr>a_rotor := (a_rotor s)\<lparr>ro_k_event_buf :=
     snd (buf_byte_fill (ro_k_event_buf (a_rotor s)) (NOT (io_get PINK s AND MASK_K)))\<rparr>\<rparr>"

section \<open>\<open>avr.c\<close>\<close>

text \<open>
  The functions behind stored pointers. \<open>cron_try\<close> reaches \<open>at_verify\<close> and \<open>heartbeat_verify\<close>,
  which in turn call the callbacks of their own clients; those call no callbacks.
\<close>

fun run_leaf :: "callback \<Rightarrow> avr \<Rightarrow> avr" where
  "run_leaf Flush_shift_display s = flush_shift_display s"
| "run_leaf Switch_to_watch s = switch_to_watch s"
| "run_leaf Spi_interrupt_start s = avr_spi_interrupt_start s"
| "run_leaf Spi_misconfirm s = misconfirm s"
| "run_leaf Menu_stop s = menu_stop s"
| "run_leaf Menu_tag_request s = tag_request s"
| "run_leaf Boot_release_wire s = boot_release_wire s"
| "run_leaf Buzz_stop s = buzz_stop s"
| "run_leaf _ s = s"

fun run_cron :: "callback \<Rightarrow> avr \<Rightarrow> avr" where
  "run_cron At_verify s = at_verify run_leaf s"
| "run_cron Heartbeat_verify s = heartbeat_verify run_leaf s"
| "run_cron cb s = run_leaf cb s"

fun run_counter :: "callback \<Rightarrow> avr \<Rightarrow> avr" where
  "run_counter Cron_interrupt s = cron_interrupt_function s"
| "run_counter cb s = run_cron cb s"

fun run_twi :: "twi_callback \<Rightarrow> u8 \<Rightarrow> u8 \<Rightarrow> u8 \<Rightarrow> bytes \<Rightarrow> avr \<Rightarrow> avr" where
  "run_twi Watch_read_callback tag status len v s = watch_read_callback tag status len v s"
| "run_twi _ tag status len v s = s"

text \<open>\<open>CLKPCE\<close> is bit 7 and \<open>CLKPS3\<close> bit 3.\<close>

definition decelerate :: "avr \<Rightarrow> avr" where
  "decelerate s = io_or CLKPR 8 (io_or CLKPR 128 s)"

definition avr_init :: "avr \<Rightarrow> avr" where
  "avr_init s =
     (let s = spi_init s;
          s = counter_init s;
          s = cron_init s;
          s = at_init s;
          s = decode_init s;
          s = flush_init s;
          s = heartbeat_init s;
          s = mode_init s;
          s = postpone_init s;
          s = menu_init s;
          s = rotor_init s;
          s = twi_init s;
          s = watch_init s
      in mode_set MODE_WATCH s)"

definition avr_start :: "avr \<Rightarrow> avr" where
  "avr_start s = avr_init (decelerate s)"

text \<open>One round of the main loop.\<close>

definition avr_round :: "avr \<Rightarrow> avr option" where
  "avr_round s =
     (let s = cron_try run_cron (counter_try run_counter s)
      in map_option (\<lambda>s. twi_try run_twi (rotor_try (postpone_try s))) (decode_try s))"

section \<open>Frames arriving in pieces\<close>

text \<open>What the decoder has consumed of the current frame.\<close>

definition seen :: "decode \<Rightarrow> bytes" where
  "seen d =
     (if de_decoded d = 0 then []
      else if de_decoded d = 1 then [EYE_CATCH]
      else if de_decoded d = 3 then [EYE_CATCH, de_msg_size d]
      else if de_decoded d = 7 then [EYE_CATCH, de_msg_size d, de_msg_serial d]
      else [EYE_CATCH, de_msg_size d, de_msg_serial d, de_msg_id d])"

definition decoder_ok :: "decode \<Rightarrow> bool" where
  "decoder_ok d \<longleftrightarrow> de_decoded d \<in> {0, 1, 3, 7, 15} \<and> length (de_in_buf d) = 26"

text \<open>The state while the decoder works: only the receive buffer and the decoder differ from \<open>s\<close>.\<close>

definition decoder_at :: "avr \<Rightarrow> decode \<Rightarrow> bytes \<Rightarrow> avr \<Rightarrow> bool" where
  "decoder_at s d bs t \<longleftrightarrow>
     (\<exists>q. t = s\<lparr>a_spi := (a_spi s)\<lparr>sp_read_buf := q\<rparr>, a_decode := d\<rparr> \<and> buffer_ok q \<and> buffer_held q = bs)"

lemma decoder_at_self: "avr_link_ok s \<Longrightarrow> decoder_at s (a_decode s) (received s) s"
  unfolding decoder_at_def by (rule exI [of _ "sp_read_buf (a_spi s)"]) (simp add: avr_link_ok_def received_def)

lemma decoder_at_simps:
  assumes "decoder_at s d bs t"
  shows "a_decode t = d" "received t = bs" "sent t = sent s" "waiting t = waiting s"
    "a_flush t = a_flush s" "a_menu t = a_menu s" "a_heartbeat t = a_heartbeat s"
    "(spi_read_size t = 0) = (bs = [])"
  using assms buffer.size_zero
  by (auto simp: decoder_at_def received_def sent_def waiting_def spi_read_size_def)

lemma decoder_at_link: "decoder_at s d bs t \<Longrightarrow> avr_link_ok s \<Longrightarrow> avr_link_ok t"
  by (auto simp: decoder_at_def avr_link_ok_def)

lemma decoder_at_set: "decoder_at s d bs t \<Longrightarrow> decoder_at s (f d) bs (de_set f t)"
  by (auto simp: decoder_at_def de_set_def)

lemma decode_spi_swap: "s\<lparr>a_decode := d, a_spi := p\<rparr> = s\<lparr>a_spi := p, a_decode := d\<rparr>"
  by (cases s) simp

lemma read_symbol_at:
  assumes "decoder_at s d (b # bs) t"
  shows "\<exists>t'. spi_read_symbol x t = (1, t', b) \<and> decoder_at s d bs t'"
proof -
  obtain q where q: "t = s\<lparr>a_spi := (a_spi s)\<lparr>sp_read_buf := q\<rparr>, a_decode := d\<rparr>" "buffer_ok q"
    "buffer_held q = b # bs" using assms by (auto simp: decoder_at_def)
  obtain q' where "buffer_byte_drain q x = (1, q', b)" "buffer_ok q'" "buffer_held q' = bs"
    using buffer.drain_held [OF q(2), of x] q(3) by auto
  then show ?thesis using q(1) by (auto simp: spi_read_symbol_def decoder_at_def decode_spi_swap)
qed

lemma read_symbol_none:
  assumes "decoder_at s d [] t"
  shows "spi_read_symbol x t = (0, t, x)"
proof -
  obtain q where q: "t = s\<lparr>a_spi := (a_spi s)\<lparr>sp_read_buf := q\<rparr>, a_decode := d\<rparr>" "buffer_ok q"
    "buffer_held q = []" using assms by (auto simp: decoder_at_def)
  then show ?thesis
    using buffer.drain_empty [OF q(2,3), of x] by (simp add: spi_read_symbol_def)
qed

lemma catch_at:
  assumes "decoder_at s d (EYE_CATCH # bs) t" "de_decoded d = 0"
  shows "\<exists>t'. decode_catch t = (True, t') \<and> decoder_at s (d\<lparr>de_decoded := 1\<rparr>) bs t'"
proof -
  obtain t' where t': "spi_read_symbol 0 t = (1, t', EYE_CATCH)" "decoder_at s d bs t'"
    using read_symbol_at [OF assms(1)] by blast
  have "decoder_at s (d\<lparr>de_decoded := de_decoded d OR CATCH_DECODED\<rparr>) bs
      (de_set (\<lambda>d. d\<lparr>de_decoded := de_decoded d OR CATCH_DECODED\<rparr>) t')"
    by (rule decoder_at_set [OF t'(2)])
  then show ?thesis
    using t'(1) assms(2) decoder_at_simps(1) [OF assms(1)] by (simp add: decode_catch_def)
qed

lemma catch_none: "decoder_at s d [] t \<Longrightarrow> de_decoded d = 0 \<Longrightarrow> decode_catch t = (False, t)"
  by (simp add: decode_catch_def read_symbol_none decoder_at_simps(1))

lemma catch_skip: "decoder_at s d bs t \<Longrightarrow> de_decoded d \<noteq> 0 \<Longrightarrow> decode_catch t = (True, t)"
  by (simp add: decode_catch_def decoder_at_simps(1))

lemma field_at:
  assumes "decoder_at s d (b # bs) t" "de_decoded d AND flag = 0"
  shows "\<exists>t'. decode_field flag put t = (True, t')
    \<and> decoder_at s (put b d\<lparr>de_decoded := de_decoded d OR flag\<rparr>) bs t'"
proof -
  obtain t' where t': "spi_read_symbol 0 t = (1, t', b)" "decoder_at s d bs t'"
    using read_symbol_at [OF assms(1)] by blast
  have "decoder_at s (put b d\<lparr>de_decoded := de_decoded d OR flag\<rparr>) bs
      (de_set (\<lambda>d. put b d\<lparr>de_decoded := de_decoded d OR flag\<rparr>) t')"
    by (rule decoder_at_set [OF t'(2)])
  then show ?thesis
    using t'(1) assms(2) decoder_at_simps(1) [OF assms(1)] by (simp add: decode_field_def)
qed

lemma field_none:
  "decoder_at s d [] t \<Longrightarrow> de_decoded d AND flag = 0 \<Longrightarrow> decode_field flag put t = (False, t)"
  by (simp add: decode_field_def read_symbol_none decoder_at_simps(1))

lemma field_skip:
  "decoder_at s d bs t \<Longrightarrow> de_decoded d AND flag \<noteq> 0 \<Longrightarrow> decode_field flag put t = (True, t)"
  by (simp add: decode_field_def decoder_at_simps(1))

text \<open>The header is read as far as it has come.\<close>

lemma header_id:
  assumes "decoder_at s d (i # bs) t" "de_decoded d = 7"
  shows "\<exists>t'. decode_field MSG_ID_DECODED (\<lambda>v d. d\<lparr>de_msg_id := v\<rparr>) t = (True, t')
    \<and> decoder_at s (d\<lparr>de_msg_id := i, de_decoded := 15\<rparr>) bs t'"
  using field_at [OF assms(1), of MSG_ID_DECODED "\<lambda>v d. d\<lparr>de_msg_id := v\<rparr>"] assms(2) by auto

lemma header_serial:
  assumes "decoder_at s d (n # bs) t" "de_decoded d = 3"
  shows "\<exists>t'. decode_field SERIAL_DECODED (\<lambda>v d. d\<lparr>de_msg_serial := v\<rparr>) t = (True, t')
    \<and> decoder_at s (d\<lparr>de_msg_serial := n, de_decoded := 7\<rparr>) bs t'"
  using field_at [OF assms(1), of SERIAL_DECODED "\<lambda>v d. d\<lparr>de_msg_serial := v\<rparr>"] assms(2) by auto

lemma header_size:
  assumes "decoder_at s d (n # bs) t" "de_decoded d = 1"
  shows "\<exists>t'. decode_field SIZE_DECODED (\<lambda>v d. d\<lparr>de_msg_size := v\<rparr>) t = (True, t')
    \<and> decoder_at s (d\<lparr>de_msg_size := n, de_decoded := 3\<rparr>) bs t'"
  using field_at [OF assms(1), of SIZE_DECODED "\<lambda>v d. d\<lparr>de_msg_size := v\<rparr>"] assms(2) by auto

text \<open>The same from every point at which the decoder may have stopped.\<close>

definition head3 :: "avr \<Rightarrow> bool \<times> avr" where
  "head3 = decode_field MSG_ID_DECODED (\<lambda>v d. d\<lparr>de_msg_id := v\<rparr>)"

definition head2 :: "avr \<Rightarrow> bool \<times> avr" where
  "head2 s = (case decode_field SERIAL_DECODED (\<lambda>v d. d\<lparr>de_msg_serial := v\<rparr>) s of (go, s) \<Rightarrow>
     if \<not> go then (False, s) else head3 s)"

definition head1 :: "avr \<Rightarrow> bool \<times> avr" where
  "head1 s = (case decode_field SIZE_DECODED (\<lambda>v d. d\<lparr>de_msg_size := v\<rparr>) s of (go, s) \<Rightarrow>
     if \<not> go then (False, s) else head2 s)"

lemma decode_header_head:
  "decode_header s = (case decode_catch s of (go, s) \<Rightarrow> if \<not> go then (False, s) else head1 s)"
  by (simp add: decode_header_def head1_def [abs_def] head2_def [abs_def] head3_def case_prod_beta)

text \<open>The outcome of the header: complete, or waiting with everything that came in consumed.\<close>

definition head_result :: "avr \<Rightarrow> decode \<Rightarrow> bytes \<Rightarrow> bool \<times> avr \<Rightarrow> bool" where
  "head_result s d bs r \<longleftrightarrow>
     (\<exists>d' bs'. decoder_at s d' bs' (snd r) \<and> seen d @ bs = seen d' @ bs' \<and> decoder_ok d' \<and>
        de_in_buf d' = de_in_buf d \<and> (fst r \<longleftrightarrow> de_decoded d' = 15) \<and> (\<not> fst r \<longrightarrow> bs' = []))"

lemma head3_result:
  assumes "decoder_at s d bs t" "decoder_ok d" "de_decoded d \<in> {7, 15}"
  shows "head_result s d bs (head3 t)"
proof (cases "de_decoded d = 15")
  case True
  then show ?thesis
    using assms(1,2) field_skip [OF assms(1), of MSG_ID_DECODED]
    by (auto simp: head3_def head_result_def)
next
  case False
  then have 7: "de_decoded d = 7" using assms(3) by simp
  show ?thesis
  proof (cases bs)
    case Nil
    then show ?thesis
      using assms(1,2) 7 field_none [of s d t MSG_ID_DECODED]
      by (auto simp: head3_def head_result_def)
  next
    case (Cons i rest)
    from header_id [OF assms(1) [unfolded Cons] 7] obtain t' where
      t': "head3 t = (True, t')" "decoder_at s (d\<lparr>de_msg_id := i, de_decoded := 15\<rparr>) rest t'"
      unfolding head3_def by blast
    show ?thesis
      unfolding head_result_def
      by (rule exI [of _ "d\<lparr>de_msg_id := i, de_decoded := 15\<rparr>"], rule exI [of _ rest])
        (use assms(2) 7 Cons t' in \<open>simp add: seen_def decoder_ok_def\<close>)
  qed
qed

lemma head_result_step:
  assumes "head_result s d' bs' r" "seen d @ bs = seen d' @ bs'" "de_in_buf d' = de_in_buf d"
  shows "head_result s d bs r"
  using assms unfolding head_result_def by metis

lemma head2_result:
  assumes "decoder_at s d bs t" "decoder_ok d" "de_decoded d \<in> {3, 7, 15}"
  shows "head_result s d bs (head2 t)"
proof (cases "de_decoded d = 3")
  case False
  then have "de_decoded d \<in> {7, 15}" using assms(3) by simp
  then show ?thesis
    using head3_result [OF assms(1,2)] field_skip [OF assms(1), of SERIAL_DECODED] by (auto simp: head2_def)
next
  case True
  show ?thesis
  proof (cases bs)
    case Nil
    then show ?thesis
      using assms(1,2) True field_none [of s d t SERIAL_DECODED] by (auto simp: head2_def head_result_def)
  next
    case (Cons n rest)
    from header_serial [OF assms(1) [unfolded Cons] True] obtain t' where
      t': "decode_field SERIAL_DECODED (\<lambda>v d. d\<lparr>de_msg_serial := v\<rparr>) t = (True, t')"
      "decoder_at s (d\<lparr>de_msg_serial := n, de_decoded := 7\<rparr>) rest t'" by blast
    have "head_result s (d\<lparr>de_msg_serial := n, de_decoded := 7\<rparr>) rest (head3 t')"
      by (rule head3_result [OF t'(2)]) (use assms(2) in \<open>simp_all add: decoder_ok_def\<close>)
    from head_result_step [OF this, of d bs] show ?thesis
      using t'(1) True Cons by (simp add: head2_def seen_def)
  qed
qed

lemma head1_result:
  assumes "decoder_at s d bs t" "decoder_ok d" "de_decoded d \<noteq> 0"
  shows "head_result s d bs (head1 t)"
proof (cases "de_decoded d = 1")
  case False
  then have "de_decoded d \<in> {3, 7, 15}" using assms(2,3) by (auto simp: decoder_ok_def)
  then show ?thesis
    using head2_result [OF assms(1,2)] field_skip [OF assms(1), of SIZE_DECODED] by (auto simp: head1_def)
next
  case True
  show ?thesis
  proof (cases bs)
    case Nil
    then show ?thesis
      using assms(1,2) True field_none [of s d t SIZE_DECODED] by (auto simp: head1_def head_result_def)
  next
    case (Cons n rest)
    from header_size [OF assms(1) [unfolded Cons] True] obtain t' where
      t': "decode_field SIZE_DECODED (\<lambda>v d. d\<lparr>de_msg_size := v\<rparr>) t = (True, t')"
      "decoder_at s (d\<lparr>de_msg_size := n, de_decoded := 3\<rparr>) rest t'" by blast
    have "head_result s (d\<lparr>de_msg_size := n, de_decoded := 3\<rparr>) rest (head2 t')"
      by (rule head2_result [OF t'(2)]) (use assms(2) in \<open>simp_all add: decoder_ok_def\<close>)
    from head_result_step [OF this, of d bs] show ?thesis
      using t'(1) True Cons by (simp add: head1_def seen_def)
  qed
qed

lemma header_result:
  assumes "decoder_at s d bs t" "decoder_ok d" "de_decoded d = 0 \<longrightarrow> bs \<noteq> [] \<and> hd bs = EYE_CATCH"
  shows "head_result s d bs (decode_header t)"
proof (cases "de_decoded d = 0")
  case False
  then show ?thesis
    using head1_result [OF assms(1,2)] catch_skip [OF assms(1)] by (simp add: decode_header_head)
next
  case True
  then obtain rest where bs: "bs = EYE_CATCH # rest" using assms(3) by (cases bs) auto
  from catch_at [OF assms(1) [unfolded bs] True] obtain t' where
    t': "decode_catch t = (True, t')" "decoder_at s (d\<lparr>de_decoded := 1\<rparr>) rest t'" by blast
  have "head_result s (d\<lparr>de_decoded := 1\<rparr>) rest (head1 t')"
    by (rule head1_result [OF t'(2)]) (use assms(2) in \<open>simp_all add: decoder_ok_def\<close>)
  from head_result_step [OF this, of d bs] show ?thesis
    using t'(1) True bs by (simp add: decode_header_head seen_def)
qed

lemma array_drain_status:
  assumes "buffer_ok q"
  shows "fst (buffer_array_drain q arr n) = of_flag (unat n \<le> length (buffer_held q))"
  using buffer.size_held [OF assms]
  by (auto simp: buffer_array_drain_def ring_array_drain_def ring_is_drainable_def buffer_size_def
      u8_le_iff case_prod_beta Let_def)

lemma payload_waits:
  assumes "decoder_at s d bs t" "length bs < unat (de_msg_size d - 2)"
  shows "decode_payload t = Some t"
proof -
  obtain q where q: "t = s\<lparr>a_spi := (a_spi s)\<lparr>sp_read_buf := q\<rparr>, a_decode := d\<rparr>" "buffer_ok q"
    "buffer_held q = bs" using assms(1) by (auto simp: decoder_at_def)
  show ?thesis
    using buffer.adrain_refuse [OF q(2), of "de_msg_size d - 2"] assms(2) q(1,3)
    by (simp add: decode_payload_def spi_read_array_def Let_def)
qed

lemma payload_overflows:
  assumes "decoder_at s d bs t" "unat (de_msg_size d - 2) \<le> length bs" "26 < unat (de_msg_size d - 2)"
  shows "decode_payload t = None"
proof -
  obtain q where q: "t = s\<lparr>a_spi := (a_spi s)\<lparr>sp_read_buf := q\<rparr>, a_decode := d\<rparr>" "buffer_ok q"
    "buffer_held q = bs" using assms(1) by (auto simp: decoder_at_def)
  have "fst (buffer_array_drain q (de_in_buf d) (de_msg_size d - 2)) = 1"
    using array_drain_status [OF q(2)] assms(2) q(3) by simp
  then show ?thesis
    using assms(3) q(1)
    by (simp add: decode_payload_def spi_read_array_def Let_def case_prod_beta u8_less_iff)
qed

lemma payload_dispatches:
  assumes "decoder_at s d bs t" "n = unat (de_msg_size d - 2)" "n \<le> length bs" "n \<le> 26" "decoder_ok d"
  shows "\<exists>t'. decode_payload t = Some (decode_init (decode_dispatch t'))
    \<and> decoder_at s (d\<lparr>de_in_buf := take n bs @ drop n (de_in_buf d)\<rparr>) (drop n bs) t'"
proof -
  obtain q where q: "t = s\<lparr>a_spi := (a_spi s)\<lparr>sp_read_buf := q\<rparr>, a_decode := d\<rparr>" "buffer_ok q"
    "buffer_held q = bs" using assms(1) by (auto simp: decoder_at_def)
  have "unat (de_msg_size d - 2) \<le> length (de_in_buf d)"
    using assms(2,4,5) by (simp add: decoder_ok_def)
  then obtain q' where q': "buffer_array_drain q (de_in_buf d) (de_msg_size d - 2)
      = (1, q', take n bs @ drop n (de_in_buf d))" "buffer_ok q'" "buffer_held q' = drop n bs"
    using buffer.adrain_held [OF q(2), of "de_msg_size d - 2" "de_in_buf d"] assms(2,3) q(3) by auto
  define t' where "t' = s\<lparr>a_spi := (a_spi s)\<lparr>sp_read_buf := q'\<rparr>,
      a_decode := d\<lparr>de_in_buf := take n bs @ drop n (de_in_buf d)\<rparr>\<rparr>"
  have "decoder_at s (d\<lparr>de_in_buf := take n bs @ drop n (de_in_buf d)\<rparr>) (drop n bs) t'"
    using q'(2,3) by (auto simp: decoder_at_def t'_def)
  moreover have "\<not> de_msg_size d - 2 > 26"
    using assms(2,4) by (simp add: u8_less_iff)
  then have "decode_payload t = Some (decode_init (decode_dispatch t'))"
    using q(1) q'(1)
    by (simp add: decode_payload_def spi_read_array_def Let_def de_set_def decode_spi_swap t'_def)
  ultimately show ?thesis by blast
qed

lemma seen_short: "de_decoded d \<noteq> 15 \<Longrightarrow> decoder_ok d \<Longrightarrow> length (seen d) \<le> 3"
  by (auto simp: seen_def decoder_ok_def)

lemma seen_full: "de_decoded d = 15 \<Longrightarrow> seen d = [EYE_CATCH, de_msg_size d, de_msg_serial d, de_msg_id d]"
  by (simp add: seen_def)

lemma decode_try_complete:
  assumes "avr_link_ok s" "decoder_ok (a_decode s)" "received s \<noteq> []" "length p \<le> 26"
    and eq: "seen (a_decode s) @ received s = avr_frame i n p @ rest"
  shows "\<exists>d t. decode_try s = Some (decode_init (decode_dispatch t)) \<and> decoder_at s d rest t \<and>
         de_msg_id d = i \<and> de_msg_serial d = n \<and> unat (de_msg_size d) = length p + 2 \<and>
         de_in_buf d = p @ drop (length p) (de_in_buf (a_decode s))"
proof -
  let ?d = "a_decode s"
  note at0 = decoder_at_self [OF assms(1)]
  have try1: "decode_try s = (case decode_header s of (go, t) \<Rightarrow> if go then decode_payload t else Some t)"
    using assms(3) decoder_at_simps(8) [OF at0] by (simp add: decode_try_def)
  have size: "of_nat (length p + 2) - 2 = (of_nat (length p) :: u8)"
    "unat (of_nat (length p) :: u8) = length p"
    using assms(4) by simp_all
  have size3: "unat (of_nat (length p + 2) :: u8) = length p + 2"
    by (rule unat_of_nat_u8) (use assms(4) in simp)
  have start: "head_result s ?d (received s) (decode_header s)"
    if "\<exists>ys. seen ?d @ received s = EYE_CATCH # ys"
    by (rule header_result [OF at0 assms(2)]) (use that assms(3) in \<open>auto simp: seen_def\<close>)
  obtain go t where r: "decode_header s = (go, t)" by fastforce
  obtain d bs where d: "decoder_at s d bs t" "seen ?d @ received s = seen d @ bs" "decoder_ok d"
    "de_in_buf d = de_in_buf ?d" "go \<longleftrightarrow> de_decoded d = 15" "\<not> go \<longrightarrow> bs = []"
    using start eq r by (auto simp: head_result_def avr_frame_def)
  have full: "de_decoded d = 15"
  proof (rule ccontr)
    assume no: "de_decoded d \<noteq> 15"
    then have "seen d = avr_frame i n p @ rest" using d(2,5,6) eq by simp
    then have "length (seen d) \<ge> 4" by (simp add: avr_frame_def)
    with seen_short [OF no d(3)] show False by simp
  qed
  with d(2) eq have f: "de_msg_size d = of_nat (length p + 2)" "de_msg_serial d = n" "de_msg_id d = i"
    "bs = p @ rest" by (simp_all add: seen_full avr_frame_def)
  from payload_dispatches [OF d(1), of "length p"] obtain t' where
    "decode_payload t = Some (decode_init (decode_dispatch t'))"
    "decoder_at s (d\<lparr>de_in_buf := p @ drop (length p) (de_in_buf ?d)\<rparr>) rest t'"
    using f size assms(4) d(3,4) by (auto simp del: of_nat_add)
  then show ?thesis
    using try1 r full d(5) f(1-3) size3
    by (intro exI [of _ "d\<lparr>de_in_buf := p @ drop (length p) (de_in_buf ?d)\<rparr>"] exI [of _ t'])
      (simp del: of_nat_add)
qed

lemma decode_try_partial:
  assumes "avr_link_ok s" "decoder_ok (a_decode s)" "received s \<noteq> []" "length p \<le> 26"
    and rest: "rest \<noteq> []" and eq: "avr_frame i n p = seen (a_decode s) @ received s @ rest"
  shows "\<exists>d bs t. decode_try s = Some t \<and> decoder_at s d bs t \<and> decoder_ok d \<and>
         seen d @ bs = seen (a_decode s) @ received s"
proof -
  let ?d = "a_decode s"
  note at0 = decoder_at_self [OF assms(1)]
  have try1: "decode_try s = (case decode_header s of (go, t) \<Rightarrow> if go then decode_payload t else Some t)"
    using assms(3) decoder_at_simps(8) [OF at0] by (simp add: decode_try_def)
  have size: "of_nat (length p + 2) - 2 = (of_nat (length p) :: u8)"
    "unat (of_nat (length p) :: u8) = length p"
    using assms(4) by simp_all
  have size3: "unat (of_nat (length p + 2) :: u8) = length p + 2"
    by (rule unat_of_nat_u8) (use assms(4) in simp)
  have start: "head_result s ?d (received s) (decode_header s)"
    if "\<exists>ys. seen ?d @ received s = EYE_CATCH # ys"
    by (rule header_result [OF at0 assms(2)]) (use that assms(3) in \<open>auto simp: seen_def\<close>)
  define xs where "xs = seen ?d @ received s"
  have "xs \<noteq> []" "avr_frame i n p = xs @ rest" using assms(3) eq by (simp_all add: xs_def)
  then have "\<exists>ys. xs = EYE_CATCH # ys" by (cases xs) (auto simp: avr_frame_def)
  then have "\<exists>ys. seen ?d @ received s = EYE_CATCH # ys" by (simp add: xs_def)
  note result = start [OF this]
  obtain go t where r: "decode_header s = (go, t)" by fastforce
  obtain d bs where d: "decoder_at s d bs t" "seen ?d @ received s = seen d @ bs" "decoder_ok d"
    "go \<longleftrightarrow> de_decoded d = 15" "\<not> go \<longrightarrow> bs = []"
    using result r by (auto simp: head_result_def)
  have "decode_try s = Some t"
  proof (cases go)
    case False
    then show ?thesis using try1 r by simp
  next
    case True
    then have full: "de_decoded d = 15" using d(4) by simp
    have "avr_frame i n p = seen d @ bs @ rest" using eq d(2) by (metis append.assoc)
    then have f: "de_msg_size d = of_nat (length p + 2)" "p = bs @ rest"
      using full by (simp_all add: seen_full avr_frame_def del: of_nat_add length_append) auto
    have "length bs < length p" using f(2) rest by simp
    then have "length bs < unat (de_msg_size d - 2)" using f(1) size(1,2) by (simp del: of_nat_add)
    from payload_waits [OF d(1) this] show ?thesis using try1 r True by simp
  qed
  with d show ?thesis by auto
qed

text \<open>
  C5: a frame with at most 26 bytes of payload is decoded however its bytes are spread over the steps
  of the main loop: as long as it is incomplete a step consumes nothing that it does not remember
  and changes nothing else, and the step that sees its last byte hands exactly its serial number,
  message id and payload to the dispatcher, leaves the bytes behind it in the receive buffer and
  starts anew.
\<close>

theorem decode_try_frame:
  assumes "avr_link_ok s" "decoder_ok (a_decode s)" "received s \<noteq> []" "length p \<le> 26"
  shows "(\<forall>rest. seen (a_decode s) @ received s = avr_frame i n p @ rest \<longrightarrow>
      (\<exists>d t. decode_try s = Some (decode_init (decode_dispatch t)) \<and> decoder_at s d rest t \<and>
         de_msg_id d = i \<and> de_msg_serial d = n \<and> unat (de_msg_size d) = length p + 2 \<and>
         de_in_buf d = p @ drop (length p) (de_in_buf (a_decode s))))
    \<and> (\<forall>rest. rest \<noteq> [] \<longrightarrow> avr_frame i n p = seen (a_decode s) @ received s @ rest \<longrightarrow>
      (\<exists>d bs t. decode_try s = Some t \<and> decoder_at s d bs t \<and> decoder_ok d \<and>
         seen d @ bs = seen (a_decode s) @ received s))"
  using decode_try_complete [OF assms] decode_try_partial [OF assms] by blast

text \<open>A receive buffer with given bytes.\<close>

definition deliver :: "bytes \<Rightarrow> avr \<Rightarrow> avr" where
  "deliver bs s = s\<lparr>a_spi := (a_spi s)\<lparr>sp_read_buf :=
     fold (\<lambda>b q. snd (buffer_byte_fill q b)) bs (sp_read_buf (a_spi s))\<rparr>\<rparr>"

lemma deliver_received:
  assumes "avr_link_ok s" "length (received s) + length bs < 255"
  shows "avr_link_ok (deliver bs s)" "received (deliver bs s) = received s @ bs"
    "a_decode (deliver bs s) = a_decode s"
  using buffer.fill_list [OF avr_link_okD(1) [OF assms(1)], of bs] assms
  by (simp_all add: deliver_def avr_link_ok_def received_def)

lemma decode_zero: "decoder_ok (a_decode avr_reset)" "seen (a_decode avr_reset) = []" "received avr_reset = []"
  by (simp_all add: decoder_ok_def seen_def avr_reset_def received_def buffer_zero_def buffer_held_def
      ring_abs_def)

lemma decode_try_frame_witness:
  "\<exists>(d :: decode) t. decode_try (deliver (avr_frame MSG_ID_SYNC_CLOCK 7 [21, 40]) avr_reset)
       = Some (decode_init (decode_dispatch t))
     \<and> de_msg_id d = MSG_ID_SYNC_CLOCK \<and> de_msg_serial d = 7 \<and> take 2 (de_in_buf d) = [21, 40]"
proof -
  let ?f = "avr_frame MSG_ID_SYNC_CLOCK 7 [21, 40]"
  have frame: "length ?f = 6" by (simp add: avr_frame_def)
  note s = deliver_received [OF link_zero(1), of ?f]
  have "received (deliver ?f avr_reset) = ?f" using s(2) frame decode_zero(3) by simp
  moreover have "avr_link_ok (deliver ?f avr_reset)" using s(1) frame decode_zero(3) by simp
  moreover have "?f \<noteq> []" by (simp add: avr_frame_def)
  ultimately have "\<forall>rest. ?f = ?f @ rest \<longrightarrow> (\<exists>d t. decode_try (deliver ?f avr_reset) = Some (decode_init (decode_dispatch t))
      \<and> decoder_at (deliver ?f avr_reset) d rest t \<and> de_msg_id d = MSG_ID_SYNC_CLOCK \<and> de_msg_serial d = 7
      \<and> unat (de_msg_size d) = length [21, 40 :: u8] + 2
      \<and> de_in_buf d = [21, 40] @ drop (length [21, 40 :: u8]) (de_in_buf (a_decode (deliver ?f avr_reset))))"
    using decode_try_frame [of "deliver ?f avr_reset" "[21, 40]" MSG_ID_SYNC_CLOCK 7] decode_zero(1,2) s(3)
      frame decode_zero(3) by simp
  note all = this
  obtain d :: decode and t where
    dt: "decode_try (deliver ?f avr_reset) = Some (decode_init (decode_dispatch t))"
    "de_msg_id d = MSG_ID_SYNC_CLOCK" "de_msg_serial d = 7"
    "de_in_buf d = [21, 40] @ drop (length [21, 40 :: u8]) (de_in_buf (a_decode (deliver ?f avr_reset)))"
    using all [THEN spec, of "[]", THEN mp, OF append_Nil2 [symmetric]] by blast
  show ?thesis
    by (rule exI [of _ d], rule exI [of _ t]) (use dt in simp)
qed

text \<open>
  The payload length is not compared with the 26 bytes of \<open>in_buf\<close>: a frame with 27 to 251
  bytes of payload makes the decoder write behind the array as soon as the frame is complete.
\<close>

theorem decode_oversize_overflows:
  assumes "avr_link_ok s" "decoder_ok (a_decode s)" "de_decoded (a_decode s) = 0"
    "received s = avr_frame i n p @ rest" "26 < length p" "length p < 252"
  shows "decode_try s = None"
proof -
  note at0 = decoder_at_self [OF assms(1)]
  have try1: "decode_try s = (case decode_header s of (go, t) \<Rightarrow> if go then decode_payload t else Some t)"
    using assms(4) decoder_at_simps(8) [OF at0] by (simp add: decode_try_def avr_frame_def)
  obtain go t where r: "decode_header s = (go, t)" by fastforce
  obtain d bs where d: "decoder_at s d bs t" "seen (a_decode s) @ received s = seen d @ bs" "decoder_ok d"
    "go \<longleftrightarrow> de_decoded d = 15" "\<not> go \<longrightarrow> bs = []"
    using header_result [OF at0 assms(2)] r assms(4) by (auto simp: head_result_def avr_frame_def)
  have eq: "avr_frame i n p @ rest = seen d @ bs" using d(2) assms(3,4) by (simp add: seen_def)
  have full: "de_decoded d = 15"
  proof (rule ccontr)
    assume no: "de_decoded d \<noteq> 15"
    then have "seen d = avr_frame i n p @ rest" using eq d(4,5) by simp
    then have "length (seen d) \<ge> 4" by (simp add: avr_frame_def)
    with seen_short [OF no d(3)] show False by simp
  qed
  with eq have f: "de_msg_size d = of_nat (length p + 2)" "bs = p @ rest"
    by (auto simp: seen_full avr_frame_def)
  have "of_nat (length p + 2) - 2 = (of_nat (length p) :: u8)" by simp
  then have "unat (de_msg_size d - 2) = length p"
    using f(1) assms(6) by (simp del: of_nat_add)
  then show ?thesis
    using payload_overflows [OF d(1)] f(2) assms(5) try1 r full d(4) by simp
qed

lemma decode_oversize_overflows_witness:
  "decode_try (deliver (avr_frame MSG_ID_LED_ARRAY 1 (replicate 27 0)) avr_reset) = None"
proof -
  let ?f = "avr_frame MSG_ID_LED_ARRAY 1 (replicate 27 0)"
  have size: "length (received avr_reset) + length ?f < 255"
    by (simp add: decode_zero avr_frame_def)
  note s = deliver_received [OF link_zero(1) size]
  show ?thesis
    by (rule decode_oversize_overflows [OF s(1), of MSG_ID_LED_ARRAY 1 "replicate 27 0" "[]"])
      (use s decode_zero in \<open>simp_all add: avr_reset_def\<close>)
qed

section \<open>Columns from the daemon\<close>

lemma led_array_effect:
  assumes "avr_link_ok s" "buffer_ok (fl_shift_data (a_flush s))" "waiting s = []"
    "de_msg_id (a_decode s) = MSG_ID_LED_ARRAY" "de_msg_serial (a_decode s) = n" "n \<noteq> SERIAL_ID_TO_IGNORE"
    "de_msg_size (a_decode s) = of_nat (length p + 2)" "length p \<le> 26" "de_in_buf (a_decode s) = p @ old"
    "length (buffer_held (fl_shift_data (a_flush s))) + length p \<noteq> 255"
  shows "(let shift = buffer_held (fl_shift_data (a_flush s)); room = length shift + length p < 255;
              drain = fl_drain (a_flush s) \<noteq> 0; s' = decode_dispatch s
          in buffer_held (fl_shift_data (a_flush s')) = (if drain \<or> \<not> room then shift else shift @ p) \<and>
             waiting s' = avr_frame MSG_ID_STATUS n
               [if drain \<or> room then STATUS_SUCCESS else STATUS_FAIL, MSG_ID_LED_ARRAY] \<and>
             sent s' = sent s \<and> received s' = received s \<and> avr_link_ok s' \<and>
             buffer_ok (fl_shift_data (a_flush s')) \<and> hb_current_misses (a_heartbeat s') = 0)"
proof -
  let ?s1 = "heartbeat_confirm s"
  let ?q = "fl_shift_data (a_flush s)"
  have keeps: "a_flush ?s1 = a_flush s" "a_decode ?s1 = a_decode s" "a_spi ?s1 = a_spi s"
    "a_postpone ?s1 = a_postpone s" "a_out_buf ?s1 = a_out_buf s" "hb_current_misses (a_heartbeat ?s1) = 0"
    by (simp_all add: heartbeat_confirm_def)
  have len: "de_msg_size (a_decode s) - 2 = of_nat (length p)" "unat (of_nat (length p) :: u8) = length p"
    using assms(7,8) by simp_all
  obtain r t where rt: "flush_shift_data (de_in_buf (a_decode s)) (of_nat (length p)) ?s1 = (r, t)" by fastforce
  have t: "a_spi t = a_spi s" "a_postpone t = a_postpone s" "a_out_buf t = a_out_buf s"
    "a_decode t = a_decode s" "hb_current_misses (a_heartbeat t) = 0"
    using rt keeps by (auto simp: flush_shift_data_def split: if_splits prod.splits)
  have shift: "r = of_flag (fl_drain (a_flush s) \<noteq> 0 \<or> length (buffer_held ?q) + length p < 255)
    \<and> buffer_held (fl_shift_data (a_flush t)) =
      (if fl_drain (a_flush s) \<noteq> 0 \<or> \<not> length (buffer_held ?q) + length p < 255
       then buffer_held ?q else buffer_held ?q @ p)
    \<and> buffer_ok (fl_shift_data (a_flush t))"
  proof (cases "fl_drain (a_flush s) \<noteq> 0")
    case True
    then show ?thesis using rt keeps assms(2) by (auto simp: flush_shift_data_def)
  next
    case False
    show ?thesis
    proof (cases "length (buffer_held ?q) + length p < 255")
      case True
      then obtain q' where "buffer_array_fill ?q (p @ old) (of_nat (length p)) = (1, q')"
        "buffer_ok q'" "buffer_held q' = buffer_held ?q @ p"
        using buffer.afill_room [OF assms(2), of "of_nat (length p)" "p @ old"] len(2) by auto
      then show ?thesis
        using rt False True keeps assms(9) by (auto simp: flush_shift_data_def)
    next
      case no: False
      then have "buffer_array_fill ?q (p @ old) (of_nat (length p)) = (0, ?q)"
        using buffer.afill_refuse [OF assms(2)] len(2) assms(10) by simp
      then show ?thesis
        using rt False no keeps assms(2,9) by (auto simp: flush_shift_data_def)
    qed
  qed
  have link: "avr_link_ok t" "sent t = sent s" "waiting t = []" "received t = received s"
    using assms(1,3) t by (simp_all add: avr_link_ok_def sent_def waiting_def received_def)
  let ?status = "if r = 1 then STATUS_SUCCESS else STATUS_FAIL"
  have s': "decode_dispatch s = encode_msg_2 MSG_ID_STATUS n ?status MSG_ID_LED_ARRAY t"
    using rt keeps(2) t(4) assms(4,5) len(1) by (simp add: decode_dispatch_def answer_status_def Let_def)
  have beat: "a_heartbeat (encode_msg_2 a b c d u) = a_heartbeat u" for a b c d u
    by (auto simp: encode_msg_2_def out_post_def out_put_def encode_msg_def postpone_message_def
        postpone_flush_def spi_write_array_def split: prod.splits)
  note posted = encode_msg_posted(3) [OF link(1), of n MSG_ID_STATUS ?status MSG_ID_LED_ARRAY]
  show ?thesis
    using posted shift link t(5) assms(6) unfolding Let_def s'
    by (simp add: posted_def beat del: mark_defs status_defs msg_id_defs)
qed


definition sample_columns :: avr where
  "sample_columns = avr_reset\<lparr>a_decode := \<lparr>de_decoded = 15, de_msg_size = of_nat (length [1, 2, 3 :: u8] + 2),
     de_msg_serial = 9, de_msg_id = MSG_ID_LED_ARRAY, de_in_buf = [1, 2, 3] @ replicate 23 0\<rparr>\<rparr>"


end
