(* ===== verification/Avr_Sched.thy ===== *)
theory Avr_Sched
  imports Avr_Timer
begin

text \<open>
  Properties of the timers of \<open>Avr_Timer\<close>: when a periodic job of \<open>cron.c\<close> is queued, and what
  scheduling a one-shot job (\<open>at.c\<close>) does to the others.
\<close>

section \<open>A tick\<close>

definition cron_ok :: "cron \<Rightarrow> bool" where
  "cron_ok c \<longleftrightarrow> length (cr_callback_array c) = 4 \<and> length (cr_factor_array c) = 4
     \<and> length (cr_counter_array c) = 4"

definition cron_due :: "cron \<Rightarrow> nat \<Rightarrow> bool" where
  "cron_due c i \<longleftrightarrow> cr_callback_array c ! i \<noteq> No_callback
     \<and> cr_counter_array c ! i + 1 \<ge> cr_factor_array c ! i"

definition cron_next :: "cron \<Rightarrow> nat \<Rightarrow> u8" where
  "cron_next c i =
     (if cr_callback_array c ! i = No_callback then cr_counter_array c ! i
      else if cron_due c i then 0 else cr_counter_array c ! i + 1)"

text \<open>After the first \<open>n\<close> jobs of a tick.\<close>

definition ticked :: "cron \<Rightarrow> nat \<Rightarrow> cron \<Rightarrow> bool" where
  "ticked c n c' \<longleftrightarrow> cron_ok c' \<and> cr_callback_array c' = cr_callback_array c
     \<and> cr_factor_array c' = cr_factor_array c \<and> buf_ok (cr_queue c')
     \<and> (\<forall>i < 4. cr_counter_array c' ! i = (if i < n then cron_next c i else cr_counter_array c ! i))
     \<and> buf_held (cr_queue c') = buf_held (cr_queue c) @ map of_nat (filter (cron_due c) [0..<n])"

lemma ticked_Suc:
  assumes "ticked c n c'" "n < 4" "length (buf_held (cr_queue c)) < 60"
  shows "ticked c (Suc n) (cron_tick_one n c')"
proof -
  have c': "cron_ok c'" "cr_callback_array c' = cr_callback_array c" "cr_factor_array c' = cr_factor_array c"
    "buf_ok (cr_queue c')" "cr_counter_array c' ! n = cr_counter_array c ! n"
    "\<forall>i < 4. cr_counter_array c' ! i = (if i < n then cron_next c i else cr_counter_array c ! i)"
    "buf_held (cr_queue c') = buf_held (cr_queue c) @ map of_nat (filter (cron_due c) [0..<n])"
    using assms(1,2) by (auto simp: ticked_def)
  have "length (filter (cron_due c) [0..<n]) \<le> n" using length_filter_le [of "cron_due c" "[0..<n]"] by simp
  then have "Suc (length (buf_held (cr_queue c'))) < 64" using c'(7) assms(2,3) by simp
  then obtain q where q: "buf_byte_fill (cr_queue c') (of_nat n) = (1, q)" "buf_ok q"
    "buf_held q = buf_held (cr_queue c') @ [of_nat n]"
    using buf.fill_room [OF c'(4)] by blast
  have len: "n < length (cr_counter_array c')" using c'(1) assms(2) by (simp add: cron_ok_def)
  show ?thesis
  proof (cases "cr_callback_array c ! n = No_callback")
    case True
    then show ?thesis
      using c' by (auto simp: ticked_def cron_tick_one_def cron_next_def cron_due_def less_Suc_eq)
  next
    case False
    then show ?thesis
      using c' q len
      by (auto simp: ticked_def cron_tick_one_def cron_next_def cron_due_def less_Suc_eq Let_def
          nth_list_update cron_ok_def)
  qed
qed

definition cron_tick :: "cron \<Rightarrow> cron" where
  "cron_tick c = fold cron_tick_one [0..<4] c"

lemma cron_interrupt_tick:
  "a_cron (cron_interrupt_function s) = cron_tick (a_cron s)"
  by (simp add: cron_interrupt_function_def cron_tick_def)

lemma cron_tick_effect:
  assumes "cron_ok c" "buf_ok (cr_queue c)" "length (buf_held (cr_queue c)) < 60"
  shows "ticked c 4 (cron_tick c)"
proof -
  have "n \<le> 4 \<Longrightarrow> ticked c n (fold cron_tick_one [0..<n] c)" for n
  proof (induction n)
    case 0
    then show ?case using assms by (simp add: ticked_def)
  next
    case (Suc n)
    then show ?case using ticked_Suc [OF _ _ assms(3)] by simp
  qed
  from this [of 4] show ?thesis by (simp add: cron_tick_def)
qed

text \<open>A tick whose queue was emptied before, as the main loop does between two ticks.\<close>

definition fresh_tick :: "cron \<Rightarrow> cron" where
  "fresh_tick c = cron_tick (c\<lparr>cr_queue := buf_empty\<rparr>)"

lemma fresh_tick_effect:
  assumes "cron_ok c"
  shows "cron_ok (fresh_tick c)" "cr_callback_array (fresh_tick c) = cr_callback_array c"
    "cr_factor_array (fresh_tick c) = cr_factor_array c"
    "i < 4 \<Longrightarrow> cr_counter_array (fresh_tick c) ! i = cron_next c i"
    "buf_held (cr_queue (fresh_tick c)) = map of_nat (filter (cron_due c) [0..<4])"
proof -
  have "ticked (c\<lparr>cr_queue := buf_empty\<rparr>) 4 (fresh_tick c)"
    unfolding fresh_tick_def by (rule cron_tick_effect) (use assms in \<open>simp_all add: cron_ok_def\<close>)
  moreover have "cron_due (c\<lparr>cr_queue := buf_empty\<rparr>) = cron_due c"
    "cron_next (c\<lparr>cr_queue := buf_empty\<rparr>) = cron_next c"
    by (simp_all add: fun_eq_iff cron_due_def cron_next_def)
  ultimately show "cron_ok (fresh_tick c)" "cr_callback_array (fresh_tick c) = cr_callback_array c"
    "cr_factor_array (fresh_tick c) = cr_factor_array c"
    "i < 4 \<Longrightarrow> cr_counter_array (fresh_tick c) ! i = cron_next c i"
    "buf_held (cr_queue (fresh_tick c)) = map of_nat (filter (cron_due c) [0..<4])"
    by (simp_all add: ticked_def)
qed

lemma queued_due:
  assumes "cron_ok c" "i < 4"
  shows "of_nat i \<in> set (buf_held (cr_queue (fresh_tick c))) \<longleftrightarrow> cron_due c i"
proof -
  have inj: "(of_nat i :: u8) = of_nat j \<longleftrightarrow> i = j" if "j < 4" for j
    using assms(2) that unat_of_nat_u8 [of i] unat_of_nat_u8 [of j] by (auto simp: u8_eq_iff)
  show ?thesis
    using assms(2) inj by (auto simp: fresh_tick_effect(5) [OF assms(1)])
qed

text \<open>The counter of a job runs through \<open>0 \<dots> f - 1\<close>.\<close>

lemma ticks_counter:
  assumes "cron_ok c" "i < 4" "cr_callback_array c ! i \<noteq> No_callback" "cr_factor_array c ! i = f" "f \<noteq> 0"
    "cr_counter_array c ! i = 0"
  shows "cron_ok ((fresh_tick ^^ n) c) \<and> cr_callback_array ((fresh_tick ^^ n) c) = cr_callback_array c
    \<and> cr_factor_array ((fresh_tick ^^ n) c) = cr_factor_array c
    \<and> unat (cr_counter_array ((fresh_tick ^^ n) c) ! i) = n mod unat f"
proof (induction n)
  case 0
  then show ?case using assms by simp
next
  case (Suc n)
  let ?c = "(fresh_tick ^^ n) c"
  have f: "0 < unat f" using assms(5) by (simp add: unat_gt_0)
  have "n mod unat f < unat f" using f by simp
  then have "unat (cr_counter_array ?c ! i) < 255" using Suc unat_u8_le [of f] by linarith
  then have inc: "unat (cr_counter_array ?c ! i + 1) = Suc (n mod unat f)"
    using Suc unat_u8_Suc by simp
  have due: "cron_due ?c i \<longleftrightarrow> Suc (n mod unat f) = unat f"
    using Suc assms(3,4) inc \<open>n mod unat f < unat f\<close> by (auto simp: cron_due_def u8_le_iff)
  have "unat (cron_next ?c i) = Suc n mod unat f"
    using Suc assms(3) inc due by (simp add: cron_next_def mod_Suc)
  then show ?case using Suc fresh_tick_effect [of ?c] assms(2) by simp
qed

text \<open>
  A periodic job with factor \<open>f\<close> is queued by every \<open>f\<close>-th tick of the shared timer after it was
  enabled and by no other, independent of the other jobs, as long as the main loop empties the
  queue between two ticks.
\<close>

theorem cron_period:
  assumes "cron_ok c" "i < 4" "cr_callback_array c ! i \<noteq> No_callback" "cr_factor_array c ! i = f" "f \<noteq> 0"
    "cr_counter_array c ! i = 0"
  shows "of_nat i \<in> set (buf_held (cr_queue (fresh_tick ((fresh_tick ^^ n) c)))) \<longleftrightarrow> unat f dvd Suc n"
proof -
  note c = ticks_counter [OF assms, of n]
  have f: "n mod unat f < unat f" using assms(5) by (simp add: unat_gt_0)
  then have "unat (cr_counter_array ((fresh_tick ^^ n) c) ! i) < 255"
    using c unat_u8_le [of f] by linarith
  then have inc: "unat (cr_counter_array ((fresh_tick ^^ n) c) ! i + 1) = Suc (n mod unat f)"
    using c unat_u8_Suc by simp
  have "cron_due ((fresh_tick ^^ n) c) i \<longleftrightarrow> Suc (n mod unat f) = unat f"
    using c assms(3,4) inc f by (auto simp: cron_due_def u8_le_iff)
  also have "\<dots> \<longleftrightarrow> unat f dvd Suc n"
    using f by (simp add: dvd_eq_mod_eq_0 mod_Suc)
  finally show ?thesis using queued_due c assms(2) by blast
qed

definition sample_cron :: cron where
  "sample_cron = \<lparr>cr_callback_array = [At_verify, No_callback, Flush_shift_display, No_callback],
     cr_factor_array = [200, 0, 5, 0], cr_counter_array = [0, 0, 0, 0], cr_queue = buf_empty\<rparr>"

lemma cron_period_witness:
  "of_nat 2 \<in> set (buf_held (cr_queue (fresh_tick ((fresh_tick ^^ 14) sample_cron)))) \<longleftrightarrow> unat (5 :: u8) dvd Suc 14"
  by (rule cron_period) (simp_all add: sample_cron_def cron_ok_def)

text \<open>
  C27: all one-shot jobs share one periodic job, and scheduling any of them starts its period anew:
  while jobs are scheduled at least every 199 ticks, as turning a knob does, the shared job is
  never queued, so no one-shot job of any client runs, whatever its delay.
\<close>

theorem at_schedule_starves:
  assumes "cron_ok (a_cron s)" "list_all (\<lambda>(n, i, delay, cb). n < 200 \<and> i < AT_MAX \<and> cb \<noteq> No_callback) js"
    "cr_callback_array (a_cron s) ! 0 = At_verify" "cr_factor_array (a_cron s) ! 0 = AT_DELAY"
    "cr_counter_array (a_cron s) ! 0 = 0" "k < 199"
  shows "(let s' = foldl (\<lambda>s (n, i, delay, cb).
              at_schedule i delay cb (s\<lparr>a_cron := (fresh_tick ^^ n) (a_cron s)\<rparr>)) s js
          in of_nat 0 \<notin> set (buf_held (cr_queue (fresh_tick ((fresh_tick ^^ k) (a_cron s'))))))"
proof -
  have inv: "cron_ok (a_cron s) \<and> cr_callback_array (a_cron s) ! 0 = At_verify
      \<and> cr_factor_array (a_cron s) ! 0 = AT_DELAY \<and> cr_counter_array (a_cron s) ! 0 = 0"
    using assms by blast
  have step: "cron_ok (a_cron (at_schedule i delay cb s)) \<and> cr_callback_array (a_cron (at_schedule i delay cb s)) ! 0 = At_verify
      \<and> cr_factor_array (a_cron (at_schedule i delay cb s)) ! 0 = AT_DELAY
      \<and> cr_counter_array (a_cron (at_schedule i delay cb s)) ! 0 = 0"
    if "cron_ok (a_cron s)" "i < AT_MAX" "cb \<noteq> No_callback" for i delay cb s
  proof -
    have "a_cron (engage_timer s) = a_cron s" for s
      by (auto simp: engage_timer_def counter_enable_def counter_register_write_def
          counter_interrupt_enable_def counter_interrupt_def control_register_set_def Let_def
          split: prod.splits option.splits)
    then show ?thesis
      using that by (auto simp: at_schedule_def cron_enable_def cron_set_def cron_ok_def Let_def not_le)
  qed
  define run where "run = foldl (\<lambda>s (n, i, delay, cb).
              at_schedule i delay cb (s\<lparr>a_cron := (fresh_tick ^^ n) (a_cron s)\<rparr>)) s js"
  have "cron_ok (a_cron run) \<and> cr_callback_array (a_cron run) ! 0 = At_verify
      \<and> cr_factor_array (a_cron run) ! 0 = AT_DELAY \<and> cr_counter_array (a_cron run) ! 0 = 0"
    unfolding run_def using inv assms(2)
  proof (induction js arbitrary: s)
    case Nil
    then show ?case by simp
  next
    case (Cons j js)
    obtain n i delay cb where j: "j = (n, i, delay, cb)" by (cases j) auto
    have "cron_ok ((fresh_tick ^^ n) (a_cron s))"
      using ticks_counter [of "a_cron s" 0 AT_DELAY n] Cons.prems(1) by simp
    then have "cron_ok (a_cron (s\<lparr>a_cron := (fresh_tick ^^ n) (a_cron s)\<rparr>))" by simp
    from step [OF this] Cons.prems(2) j
    show ?case using Cons.IH by simp
  qed
  then have "cron_ok (a_cron run)" "cr_callback_array (a_cron run) ! 0 \<noteq> No_callback"
    "cr_factor_array (a_cron run) ! 0 = AT_DELAY" "cr_counter_array (a_cron run) ! 0 = 0" by auto
  note c = ticks_counter [OF this(1) _ this(2,3) _ this(4), of k]
  have "unat (cr_counter_array ((fresh_tick ^^ k) (a_cron run)) ! 0) = k" using c assms(6) by simp
  then have "unat (cr_counter_array ((fresh_tick ^^ k) (a_cron run)) ! 0 + 1) = Suc k"
    using assms(6) unat_u8_Suc by simp
  then have "\<not> cron_due ((fresh_tick ^^ k) (a_cron run)) 0"
    using c assms(6) \<open>cr_factor_array (a_cron run) ! 0 = AT_DELAY\<close> by (simp add: cron_due_def u8_le_iff)
  then show ?thesis
    using queued_due [of "(fresh_tick ^^ k) (a_cron run)" 0] c unfolding Let_def run_def [symmetric] by simp
qed

lemma at_schedule_starves_witness:
  "let s' = foldl (\<lambda>s (n, i, delay, cb). at_schedule i delay cb (s\<lparr>a_cron := (fresh_tick ^^ n) (a_cron s)\<rparr>))
       (avr_reset\<lparr>a_cron := sample_cron\<rparr>) [(199, AT_MENU, 5, Menu_stop), (199, AT_MENU, 5, Menu_stop)]
   in of_nat 0 \<notin> set (buf_held (cr_queue (fresh_tick ((fresh_tick ^^ 198) (a_cron s')))))"
  by (rule at_schedule_starves) (simp_all add: sample_cron_def cron_ok_def)

end
