(* ===== verification/Avr_Fifo.thy ===== *)
theory Avr_Fifo
  imports Avr_Buf
begin

text \<open>
  The queues of the firmware against their specification: as long as a queue does not become full,
  every sequence of its operations answers as a list of bounded length does, byte for byte and
  status for status. Proved once for the interfaces \<open>bounded_queue\<close> (without access by index) and
  \<open>byte_queue\<close>, and so for both queue types; a queue that keeps its promise also when it is full
  (\<open>exact_queue\<close>) needs no such condition.
\<close>

section \<open>Operations and what a client sees of them\<close>

datatype queue_op =
    Fill u8
  | Drain
  | Get u8
  | Size
  | Space
  | Fill_array bytes
  | Drain_array u8

text \<open>The specification: a list, and the answers as lists of bytes with the status first.\<close>

fun fifo_step :: "nat \<Rightarrow> queue_op \<Rightarrow> bytes \<Rightarrow> bytes \<times> bytes" where
  "fifo_step cap (Fill b) xs = (if length xs < cap then ([1], xs @ [b]) else ([0], xs))"
| "fifo_step cap Drain xs = (case xs of [] \<Rightarrow> ([0], []) | x # ys \<Rightarrow> ([1, x], ys))"
| "fifo_step cap (Get i) xs = (if unat i < length xs then [1, xs ! unat i] else [0], xs)"
| "fifo_step cap Size xs = ([of_nat (length xs)], xs)"
| "fifo_step cap Space xs = ([of_nat (cap - length xs)], xs)"
| "fifo_step cap (Fill_array ys) xs =
     (if length xs + length ys \<le> cap then ([1], xs @ ys) else ([0], xs))"
| "fifo_step cap (Drain_array n) xs =
     (if unat n \<le> length xs then (1 # take (unat n) xs, drop (unat n) xs) else ([0], xs))"

text \<open>A client that never makes the queue full, and gives arrays of their true length.\<close>

fun fifo_roomy :: "nat \<Rightarrow> queue_op list \<Rightarrow> bytes \<Rightarrow> bool" where
  "fifo_roomy cap [] xs \<longleftrightarrow> True"
| "fifo_roomy cap (op # ops) xs \<longleftrightarrow>
     (case op of Fill_array ys \<Rightarrow> length ys < 256 | _ \<Rightarrow> True) \<and>
     length (snd (fifo_step cap op xs)) < cap \<and> fifo_roomy cap ops (snd (fifo_step cap op xs))"

text \<open>The operations of a queue, for any implementation of them.\<close>

fun queue_step ::
  "('q \<Rightarrow> u8) \<Rightarrow> ('q \<Rightarrow> u8) \<Rightarrow> ('q \<Rightarrow> u8 \<Rightarrow> u8 \<times> 'q) \<Rightarrow> ('q \<Rightarrow> u8 \<Rightarrow> u8 \<times> 'q \<times> u8) \<Rightarrow>
   ('q \<Rightarrow> u8 \<Rightarrow> u8 \<Rightarrow> u8 \<times> u8) \<Rightarrow> ('q \<Rightarrow> bytes \<Rightarrow> u8 \<Rightarrow> u8 \<times> 'q) \<Rightarrow>
   ('q \<Rightarrow> bytes \<Rightarrow> u8 \<Rightarrow> u8 \<times> 'q \<times> bytes) \<Rightarrow> queue_op \<Rightarrow> 'q \<Rightarrow> bytes \<times> 'q" where
  "queue_step siz spc fil drn gt afil adrn (Fill b) q = (case fil q b of (r, q') \<Rightarrow> ([r], q'))"
| "queue_step siz spc fil drn gt afil adrn Drain q =
     (case drn q 0 of (r, q', b) \<Rightarrow> (if r = 0 then [r] else [r, b], q'))"
| "queue_step siz spc fil drn gt afil adrn (Get i) q =
     (case gt q i 0 of (r, b) \<Rightarrow> (if r = 0 then [r] else [r, b], q))"
| "queue_step siz spc fil drn gt afil adrn Size q = ([siz q], q)"
| "queue_step siz spc fil drn gt afil adrn Space q = ([spc q], q)"
| "queue_step siz spc fil drn gt afil adrn (Fill_array ys) q =
     (case afil q ys (of_nat (length ys)) of (r, q') \<Rightarrow> ([r], q'))"
| "queue_step siz spc fil drn gt afil adrn (Drain_array n) q =
     (case adrn q (replicate (unat n) 0) n of (r, q', ys) \<Rightarrow> (if r = 0 then [r] else r # ys, q'))"

text \<open>A sequence of operations, and all its answers.\<close>

fun run_ops :: "(queue_op \<Rightarrow> 'q \<Rightarrow> bytes \<times> 'q) \<Rightarrow> queue_op list \<Rightarrow> 'q \<Rightarrow> bytes list \<times> 'q" where
  "run_ops step [] q = ([], q)"
| "run_ops step (op # ops) q =
     (case step op q of (out, q') \<Rightarrow> case run_ops step ops q' of (outs, q'') \<Rightarrow> (out # outs, q''))"

definition buffer_step :: "queue_op \<Rightarrow> buffer_t \<Rightarrow> bytes \<times> buffer_t" where
  "buffer_step = queue_step buffer_size buffer_space buffer_byte_fill buffer_byte_drain buffer_byte_get
     buffer_array_fill buffer_array_drain"

definition buf_step :: "queue_op \<Rightarrow> buf_t \<Rightarrow> bytes \<times> buf_t" where
  "buf_step = queue_step buf_size buf_space buf_byte_fill buf_byte_drain buf_byte_get
     buf_array_fill buf_array_drain"

section \<open>Refinement\<close>

text \<open>Operations that every queue answers alike.\<close>

fun plain_op :: "queue_op \<Rightarrow> bool" where
  "plain_op Drain = True"
| "plain_op Size = True"
| "plain_op Space = True"
| "plain_op (Drain_array n) = True"
| "plain_op _ = False"

context bounded_queue begin

lemma plain_refines:
  assumes "ok q" "plain_op op"
  shows "\<exists>q'. queue_step size space fill drain g afill adrain op q = (fst (fifo_step cap op (held q)), q')
    \<and> ok q' \<and> held q' = snd (fifo_step cap op (held q))"
proof (cases op)
  case Drain
  then show ?thesis
    using drain_empty [OF assms(1), of 0] drain_held [OF assms(1), of 0] assms(1)
    by (cases "held q") auto
next
  case Size
  have "size q = of_nat (length (held q))" using size_held [OF assms(1)] by (metis of_nat_unat ucast_id)
  then show ?thesis using Size assms(1) by simp
next
  case Space
  have "space q = of_nat (cap - length (held q))" using space_held [OF assms(1)] by (metis of_nat_unat ucast_id)
  then show ?thesis using Space assms(1) by simp
next
  case (Drain_array n)
  show ?thesis
    using Drain_array adrain_refuse [OF assms(1), of n "replicate (unat n) 0"]
      adrain_held [OF assms(1), of n "replicate (unat n) 0"] assms(1)
    by (cases "unat n \<le> length (held q)") auto
qed (use assms(2) in simp_all)

end

context byte_queue begin

lemma step_refines:
  assumes "ok q" "fifo_roomy cap [op] (held q)"
  shows "\<exists>q'. queue_step size space fill drain get afill adrain op q = (fst (fifo_step cap op (held q)), q')
    \<and> ok q' \<and> held q' = snd (fifo_step cap op (held q))"
proof (cases op)
  case (Fill b)
  then have "Suc (length (held q)) < cap \<or> length (held q) = cap"
    using assms held_le [OF assms(1)] by (auto split: if_splits)
  then show ?thesis
    using Fill assms fill_room [OF assms(1), of b] fill_full [OF assms(1), of b] by auto
next
  case (Get i)
  then show ?thesis using get_held [OF assms(1), of i 0] assms(1) by simp
next
  case (Fill_array ys)
  then have len: "unat (of_nat (length ys) :: u8) = length ys" using assms(2) by simp
  have "length (held q) + length ys < cap \<or> cap < length ys + length (held q)"
    using Fill_array assms(2) by (auto split: if_splits)
  then show ?thesis
    using Fill_array assms len afill_room [OF assms(1), of "of_nat (length ys)" ys]
      afill_refuse [OF assms(1), of "of_nat (length ys)" ys] by auto
qed (rule plain_refines [OF assms(1)]; simp)+

lemma run_refines:
  assumes "ok q" "fifo_roomy cap ops (held q)"
  shows "\<exists>q'. run_ops (queue_step size space fill drain get afill adrain) ops q
      = (fst (run_ops (fifo_step cap) ops (held q)), q')
    \<and> ok q' \<and> held q' = snd (run_ops (fifo_step cap) ops (held q))"
  using assms
proof (induction ops arbitrary: q)
  case Nil
  then show ?case by simp
next
  case (Cons op ops)
  have "fifo_roomy cap [op] (held q)" using Cons.prems(2) by simp
  from step_refines [OF Cons.prems(1) this] obtain q' where
    q': "queue_step size space fill drain get afill adrain op q = (fst (fifo_step cap op (held q)), q')"
    "ok q'" "held q' = snd (fifo_step cap op (held q))" by blast
  with Cons.IH [OF q'(2)] Cons.prems(2) show ?case by (auto simp: case_prod_beta)
qed

end

text \<open>
  A queue that can be filled completely: a client only has to ask for indices below 255 and to give
  arrays that are not empty, with their true length.
\<close>

fun proper_op :: "queue_op \<Rightarrow> bool" where
  "proper_op (Get i) = (i \<noteq> 255)"
| "proper_op (Fill_array ys) = (ys \<noteq> [] \<and> length ys < 256)"
| "proper_op _ = True"

locale exact_queue = bounded_queue +
  fixes get :: "'a \<Rightarrow> u8 \<Rightarrow> u8 \<Rightarrow> u8 \<times> u8"
  assumes get_near: "ok q \<Longrightarrow> i \<noteq> 255 \<Longrightarrow> get q i b =
      (if unat i < length (held q) then (1, held q ! unat i) else (0, b))"
    and fill_exact: "ok q \<Longrightarrow> Suc (length (held q)) = cap \<Longrightarrow>
      \<exists>q'. fill q b = (1, q') \<and> ok q' \<and> held q' = held q @ [b]"
    and afill_exact: "ok q \<Longrightarrow> 0 < unat n \<Longrightarrow> length (held q) + unat n = cap \<Longrightarrow> unat n \<le> length arr \<Longrightarrow>
      \<exists>q'. afill q arr n = (1, q') \<and> ok q' \<and> held q' = held q @ take (unat n) arr"
begin

lemma exact_step_refines:
  assumes "ok q" "proper_op op"
  shows "\<exists>q'. queue_step size space fill drain get afill adrain op q = (fst (fifo_step cap op (held q)), q')
    \<and> ok q' \<and> held q' = snd (fifo_step cap op (held q))"
proof (cases op)
  case (Fill b)
  consider "Suc (length (held q)) < cap" | "Suc (length (held q)) = cap" | "length (held q) = cap"
    using held_le [OF assms(1)] by linarith
  then show ?thesis
    using Fill assms(1) fill_room [OF assms(1), of b] fill_exact [OF assms(1), of b]
      fill_full [OF assms(1), of b] by cases auto
next
  case (Get i)
  then show ?thesis using get_near [OF assms(1), of i 0] assms by simp
next
  case (Fill_array ys)
  then have len: "unat (of_nat (length ys) :: u8) = length ys" "ys \<noteq> []" using assms(2) by simp_all
  consider "length (held q) + length ys < cap" | "length (held q) + length ys = cap"
    | "cap < length ys + length (held q)" by linarith
  then show ?thesis
    using Fill_array assms(1) len afill_room [OF assms(1), of "of_nat (length ys)" ys]
      afill_exact [OF assms(1), of "of_nat (length ys)" ys]
      afill_refuse [OF assms(1), of "of_nat (length ys)" ys] by cases auto
qed (rule plain_refines [OF assms(1)]; simp)+

lemma exact_run_refines:
  assumes "ok q" "list_all proper_op ops"
  shows "\<exists>q'. run_ops (queue_step size space fill drain get afill adrain) ops q
      = (fst (run_ops (fifo_step cap) ops (held q)), q')
    \<and> ok q' \<and> held q' = snd (run_ops (fifo_step cap) ops (held q))"
  using assms
proof (induction ops arbitrary: q)
  case Nil
  then show ?case by simp
next
  case (Cons op ops)
  have "proper_op op" using Cons.prems(2) by simp
  from exact_step_refines [OF Cons.prems(1) this] obtain q' where
    q': "queue_step size space fill drain get afill adrain op q = (fst (fifo_step cap op (held q)), q')"
    "ok q'" "held q' = snd (fifo_step cap op (held q))" by blast
  with Cons.IH [OF q'(2)] Cons.prems(2) show ?case by (auto simp: case_prod_beta)
qed

end

text \<open>
  C20: the byte buffers of the firmware refine a bounded queue: whatever sequence of single and array
  fills and drains, reads and size queries a client makes, as long as it does not fill the buffer
  completely, every status, size and byte it gets is that of a list to which bytes are appended and
  from whose front they are taken, and fills beyond the capacity are refused without effect.
\<close>

theorem buffer_refines_fifo:
  assumes "buffer_ok q" "fifo_roomy 255 ops (buffer_held q)"
  shows "fst (run_ops buffer_step ops q) = fst (run_ops (fifo_step 255) ops (buffer_held q)) \<and>
    buffer_held (snd (run_ops buffer_step ops q)) = snd (run_ops (fifo_step 255) ops (buffer_held q))"
  using buffer.run_refines [OF assms] unfolding buffer_step_def by auto

lemma buffer_refines_fifo_witness:
  "fst (run_ops buffer_step [Fill 7, Fill_array [8, 9], Get 2, Drain, Size, Drain_array 2, Drain] buffer_empty)
    = [[1], [1], [1, 9], [1, 7], [2], [1, 8, 9], [0]]"
  using buffer_refines_fifo [of buffer_empty "[Fill 7, Fill_array [8, 9], Get 2, Drain, Size, Drain_array 2, Drain]"]
  by simp

lemma buf_refines_fifo:
  assumes "buf_ok q" "fifo_roomy 64 ops (buf_held q)"
  shows "fst (run_ops buf_step ops q) = fst (run_ops (fifo_step 64) ops (buf_held q)) \<and>
    buf_held (snd (run_ops buf_step ops q)) = snd (run_ops (fifo_step 64) ops (buf_held q))"
  using buf.run_refines [OF assms] unfolding buf_step_def by auto

end
