(* ===== verification/Avr_Pictures.thy ===== *)
theory Avr_Pictures
  imports Avr_Menu
begin

text \<open>
  The one loop of the firmware without a bound, \<open>render_tail\<close> of \<open>src/src/avr/render.c\<close>: when it ends, and
  that it ends for every picture of the menu (\<open>menu.c\<close>) and of the clock (\<open>watch.c\<close>).
\<close>

section \<open>Buffers that start at the first cell\<close>

definition drawn :: "buf_t \<Rightarrow> bool" where
  "drawn q \<longleftrightarrow> (\<exists>xs. picture q xs)"

lemma drawn_fill: "drawn q \<Longrightarrow> drawn (snd (buf_byte_fill q b))"
proof -
  assume "drawn q"
  then obtain xs where xs: "picture q xs" by (auto simp: drawn_def)
  then have "length xs = 64 \<or> length xs < 64" by (auto simp: picture_def)
  then show ?thesis
    using picture_full [OF xs] picture_fill [OF xs, of b] xs unfolding drawn_def by (metis snd_conv)
qed

lemma drawn_columns: "drawn q \<Longrightarrow> drawn (snd (fill_columns cs q))"
proof (induction cs arbitrary: q)
  case Nil
  then show ?case by simp
next
  case (Cons c cs)
  show ?case
    using Cons.IH [OF drawn_fill [OF Cons.prems]] drawn_fill [OF Cons.prems] by (simp add: case_prod_beta)
qed

lemma drawn_symbol: "drawn q \<Longrightarrow> drawn (snd (render_symbol c q))"
  by (simp add: render_symbol_def font_add_symbol_def case_prod_beta drawn_columns drawn_fill split: option.split)

lemma drawn_word: "drawn q \<Longrightarrow> drawn (snd (render_word w q))"
proof (induction w arbitrary: q)
  case Nil
  then show ?case by simp
next
  case (Cons c w)
  show ?case
    using Cons.IH [OF drawn_symbol [OF Cons.prems]] drawn_symbol [OF Cons.prems] Cons.prems
    by (simp add: case_prod_beta)
qed

lemma drawn_number: "drawn q \<Longrightarrow> drawn (snd (render_number n z q))"
  by (simp add: render_number_def Let_def case_prod_beta drawn_symbol)

lemma drawn_init: "drawn (buf_init buf_zero)"
  using picture_init by (auto simp: drawn_def)

lemma drawn_menu: "drawn (menu_image m)"
proof -
  have label: "drawn q \<Longrightarrow> drawn (render_label p q)" for p q by (simp add: render_label_def drawn_word)
  have source: "drawn q \<Longrightarrow> drawn (render_source m p q)" for p q
    by (simp add: render_source_def Let_def drawn_symbol drawn_number)
  have dest: "drawn q \<Longrightarrow> drawn (render_destination m p q)" for p q
    by (simp add: render_destination_def drawn_symbol drawn_number)
  show ?thesis by (simp add: menu_image_def Let_def label source dest drawn_fill drawn_init)
qed

lemma drawn_watch: "drawn (watch_image s)"
proof -
  have "drawn q \<Longrightarrow> drawn (fold (\<lambda>_ q. snd (buf_byte_fill q 0)) is q)" for q and "is" :: "nat list"
    by (induction "is" arbitrary: q) (simp_all add: drawn_fill)
  then show ?thesis
    by (simp add: watch_image_def Let_def drawn_symbol drawn_number drawn_init del: upt_conv_Nil)
qed

section \<open>The loop\<close>

lemma render_tail_picture: "drawn q \<Longrightarrow> \<exists>q' xs. render_tail q = Some q' \<and> picture q' xs \<and> length xs = 64"
proof -
  assume "drawn q"
  then obtain xs where xs: "picture q xs" by (auto simp: drawn_def)
  then have "length (xs @ replicate (64 - length xs) 0) = 64" by (simp add: picture_def)
  with render_tail_ends [OF xs] show ?thesis by blast
qed

lemma fill_keeps_start: "buf_start (snd (buf_byte_fill q b)) = buf_start q"
  by (simp add: buf_byte_fill_def case_prod_beta)

text \<open>A ring that does not start in the first cell always takes another byte.\<close>

lemma fill_always:
  assumes "buf_ok q" "buf_start q \<noteq> 0"
  shows "fst (buf_byte_fill q b) = 1"
proof -
  have "buf_start q < 64" "buf_finish q \<le> 64"
    using assms(1) by (simp_all add: buf_ok_def ring_ok_def BUF_SIZE_def)
  moreover have "0 < unat (buf_start q)" using assms(2) by (simp add: unat_gt_0)
  ultimately have "unat (ring_size 64 (buf_start q) (buf_finish q)) < 64"
    by (auto simp: ring_size_def u8_less_iff u8_le_iff unat_u8_minus unat_u8_plus)
  then show ?thesis
    by (simp add: buf_byte_fill_def ring_byte_fill_def ring_is_fillable_def BUF_SIZE_def u8_le_iff
        unat_u8_minus case_prod_beta)
qed

lemma render_tail_start:
  assumes "render_tail q = Some q'" "buf_ok q"
  shows "buf_start q = 0"
proof -
  have "buf_ok q \<longrightarrow> buf_start q = 0"
  proof (rule render_tail.raw_induct [OF _ assms(1)])
    fix f :: "buf_t \<Rightarrow> buf_t option" and p r
    assume IH: "\<And>p r. f p = Some r \<Longrightarrow> buf_ok p \<longrightarrow> buf_start p = 0"
      and step: "(case buf_byte_fill p 0 of (status, q') \<Rightarrow> if status \<noteq> 0 then f q' else Some q') = Some r"
    show "buf_ok p \<longrightarrow> buf_start p = 0"
    proof
      assume ok: "buf_ok p"
      show "buf_start p = 0"
      proof (cases "fst (buf_byte_fill p 0) = 0")
        case True
        then show ?thesis using fill_always [OF ok, of 0] by fastforce
      next
        case False
        then have "f (snd (buf_byte_fill p 0)) = Some r" using step by (simp add: case_prod_beta)
        from IH [OF this] buf.fill_ok [OF ok, of 0] show ?thesis by (simp add: fill_keeps_start)
      qed
    qed
  qed
  with assms(2) show ?thesis by simp
qed

lemma start_drawn: "buf_ok q \<Longrightarrow> buf_start q = 0 \<Longrightarrow> drawn q"
  unfolding drawn_def
  by (rule exI [of _ "take (unat (buf_finish q)) (buf_data q)"])
    (simp add: picture_def buf_ok_def ring_ok_def BUF_SIZE_def u8_le_iff min_def)

text \<open>
  When the loop that fills a picture with dark columns ends: for every well formed buffer it ends
  if and only if the buffer starts at its first cell; otherwise it never sees a full buffer and
  writes for ever.
\<close>

theorem render_tail_terminates_iff:
  assumes "buf_ok q"
  shows "(\<exists>q'. render_tail q = Some q') \<longleftrightarrow> buf_start q = 0"
  using render_tail_start [OF _ assms] render_tail_picture [OF start_drawn [OF assms]] by blast

lemma render_tail_terminates_iff_witness:
  "(\<exists>q'. render_tail buf_empty = Some q')
     \<and> \<not> (\<exists>q'. render_tail \<lparr>buf_data = replicate 64 0, buf_start = 2, buf_finish = 5\<rparr> = Some q')"
  using render_tail_terminates_iff [of buf_empty]
    render_tail_terminates_iff [of "\<lparr>buf_data = replicate 64 0, buf_start = 2, buf_finish = 5\<rparr>"]
  by (simp add: buf_ok_def ring_ok_def BUF_SIZE_def) (simp add: buf_empty_def)

text \<open>
  C26: every picture is finished: whatever the menu's state, values and names and whatever the clock
  chip answers, the loop ends and the picture has exactly the 64 columns of the two displays.
\<close>

theorem pictures_end:
  "(\<exists>pic xs. render_tail (menu_image m) = Some pic \<and> picture pic xs \<and> length xs = 64) \<and>
   (\<exists>pic xs. render_tail (watch_image s) = Some pic \<and> picture pic xs \<and> length xs = 64)"
  using render_tail_picture [OF drawn_menu] render_tail_picture [OF drawn_watch] by blast

end
