(* ===== verification/Avr_Wire.thy ===== *)
theory Avr_Wire
  imports Avr_Main
begin

text \<open>
  Bytes on the SPI wire. The daemon is the master: with every byte that it clocks out it gets the byte
  that the firmware's data register held, and the interrupt routine of \<open>src/src/avr/spi.c\<close> then takes
  the byte in and puts the next one there. The daemon's clock is slow enough for the routine to
  finish between two bytes.
\<close>

definition spi_byte :: "u8 \<Rightarrow> avr \<Rightarrow> u8 \<times> avr" where
  "spi_byte b s = (io_get SPDR s, spi_stc_isr (io_set SPDR b s))"

fun spi_exchange :: "bytes \<Rightarrow> avr \<Rightarrow> bytes \<times> avr" where
  "spi_exchange [] s = ([], s)"
| "spi_exchange (b # bs) s =
     (case spi_byte b s of (out, s) \<Rightarrow> case spi_exchange bs s of (outs, s) \<Rightarrow> (out # outs, s))"

lemma spi_exchange_length: "length (fst (spi_exchange bs s)) = length bs"
  by (induction bs arbitrary: s) (auto simp: case_prod_beta)

text \<open>An exchange changes the buffers, the data register and the interrupt line only.\<close>

definition off_wire :: "avr \<Rightarrow> avr" where
  "off_wire s = s\<lparr>a_io := (a_io s)(PORTB := 0, SPDR := 0),
     a_spi := \<lparr>sp_read_buf = buffer_zero, sp_write_buf = buffer_zero\<rparr>\<rparr>"

lemma off_wire_keeps [simp]:
  "off_wire (s\<lparr>a_spi := p\<rparr>) = off_wire s" "off_wire (io_set SPDR v s) = off_wire s"
  "off_wire (interrupt_stop s) = off_wire s"
  by (simp_all add: off_wire_def io_set_def interrupt_stop_def io_clear_def fun_upd_twist)

lemma off_wire_byte: "off_wire (spi_stc_isr s) = off_wire s"
  by (simp add: spi_stc_isr_def Let_def case_prod_beta)

lemma off_wire_exchange: "off_wire (snd (spi_exchange bs s)) = off_wire s"
  by (induction bs arbitrary: s) (simp_all add: spi_byte_def case_prod_beta off_wire_byte)

lemma off_wire_parts:
  assumes "off_wire s' = off_wire s"
  shows "a_decode s' = a_decode s" "a_flush s' = a_flush s" "a_postpone s' = a_postpone s"
    "a_out_buf s' = a_out_buf s" "a_menu s' = a_menu s" "a_mode s' = a_mode s" "a_cron s' = a_cron s"
    "a_at s' = a_at s" "a_heartbeat s' = a_heartbeat s"
proof -
  show "a_decode s' = a_decode s" using arg_cong [OF assms, of a_decode] by (simp add: off_wire_def)
  show "a_flush s' = a_flush s" using arg_cong [OF assms, of a_flush] by (simp add: off_wire_def)
  show "a_postpone s' = a_postpone s" using arg_cong [OF assms, of a_postpone] by (simp add: off_wire_def)
  show "a_out_buf s' = a_out_buf s" using arg_cong [OF assms, of a_out_buf] by (simp add: off_wire_def)
  show "a_menu s' = a_menu s" using arg_cong [OF assms, of a_menu] by (simp add: off_wire_def)
  show "a_mode s' = a_mode s" using arg_cong [OF assms, of a_mode] by (simp add: off_wire_def)
  show "a_cron s' = a_cron s" using arg_cong [OF assms, of a_cron] by (simp add: off_wire_def)
  show "a_at s' = a_at s" using arg_cong [OF assms, of a_at] by (simp add: off_wire_def)
  show "a_heartbeat s' = a_heartbeat s" using arg_cong [OF assms, of a_heartbeat] by (simp add: off_wire_def)
qed

text \<open>One byte, when there is room for it.\<close>

definition line_up :: "avr \<Rightarrow> bool" where
  "line_up s \<longleftrightarrow> io_get PORTB s AND IRQ_BIT \<noteq> 0"

lemma spi_byte_room:
  assumes "avr_link_ok s" "length (received s) < 254"
  shows "(let s' = snd (spi_byte b s) in
      avr_link_ok s' \<and> received s' = received s @ [b] \<and> sent s' = tl (sent s) \<and>
      io_get SPDR s' = hd (sent s @ [SPI_WRITE_UNDERFLOW]) \<and>
      (line_up s' \<longleftrightarrow> line_up s \<and> sent s \<noteq> []))"
proof -
  let ?s = "io_set SPDR b s"
  have q: "buffer_ok (sp_read_buf (a_spi s))" "buffer_ok (sp_write_buf (a_spi s))"
    using avr_link_okD [OF assms(1)] by blast+
  obtain rq where rq: "buffer_byte_fill (sp_read_buf (a_spi s)) b = (1, rq)" "buffer_ok rq"
    "buffer_held rq = received s @ [b]"
    using buffer.fill_room [OF q(1), of b] assms(2) by (auto simp: received_def)
  have line: "line_up (io_set SPDR v t) = line_up t" "line_up (t\<lparr>a_spi := p\<rparr>) = line_up t"
    "\<not> line_up (interrupt_stop t)" for v t p
    by (simp_all add: line_up_def interrupt_stop_def io_get_def io_set_def io_clear_def
        and.assoc)
  show ?thesis
  proof (rule buffer.drain_cases [OF q(2), of 0])
    assume "buffer_held (sp_write_buf (a_spi s)) = []"
      "buffer_byte_drain (sp_write_buf (a_spi s)) 0 = (0, sp_write_buf (a_spi s), 0)"
    then show ?thesis
      using rq q assms(1) line
      by (simp add: spi_byte_def spi_stc_isr_def Let_def avr_link_ok_def received_def sent_def
          interrupt_stop_def)
  next
    fix wq x xs
    assume "buffer_held (sp_write_buf (a_spi s)) = x # xs"
      "buffer_byte_drain (sp_write_buf (a_spi s)) 0 = (1, wq, x)" "buffer_ok wq" "buffer_held wq = xs"
    then show ?thesis
      using rq q assms(1) line
      by (simp add: spi_byte_def spi_stc_isr_def Let_def avr_link_ok_def received_def sent_def)
  qed
qed

text \<open>A message of the daemon, when there is room for all of it.\<close>

lemma spi_exchange_room:
  assumes "avr_link_ok s" "length (received s) + length bs < 255"
  shows "(let s' = snd (spi_exchange bs s);
              stream = io_get SPDR s # sent s @ replicate (length bs) SPI_WRITE_UNDERFLOW
          in fst (spi_exchange bs s) = take (length bs) stream \<and> io_get SPDR s' = stream ! length bs \<and>
             avr_link_ok s' \<and> received s' = received s @ bs \<and> sent s' = drop (length bs) (sent s) \<and>
             (line_up s' \<longleftrightarrow> line_up s \<and> length bs \<le> length (sent s)))"
  using assms
proof (induction bs arbitrary: s)
  case Nil
  then show ?case by simp
next
  case (Cons b bs)
  obtain out t where b: "spi_byte b s = (out, t)" by fastforce
  have out: "out = io_get SPDR s" using b by (simp add: spi_byte_def)
  have "length (received s) < 254" using Cons.prems(2) by simp
  note t = spi_byte_room [OF Cons.prems(1) this, of b, unfolded Let_def b snd_conv]
  have "avr_link_ok t" "length (received t) + length bs < 255" using t Cons.prems(2) by simp_all
  note IH = Cons.IH [OF this]
  show ?case
  proof (cases "sent s")
    case Nil
    then show ?thesis
      using IH t unfolding Let_def by (simp add: b out case_prod_beta)
  next
    case (Cons x xs)
    have "take (length bs) (ys @ replicate (Suc (length bs)) u) = take (length bs) (ys @ replicate (length bs) u)"
      "(ys @ replicate (Suc (length bs)) u) ! length bs = (ys @ replicate (length bs) u) ! length bs"
      if "ys = x # xs" for ys and u :: u8
    proof -
      have "ys @ replicate (Suc (length bs)) u = (ys @ replicate (length bs) u) @ [u]"
        by (simp add: replicate_append_same)
      moreover have "length bs < length (ys @ replicate (length bs) u)" using that by simp
      ultimately show "take (length bs) (ys @ replicate (Suc (length bs)) u) = take (length bs) (ys @ replicate (length bs) u)"
        "(ys @ replicate (Suc (length bs)) u) ! length bs = (ys @ replicate (length bs) u) ! length bs"
        by (simp_all only: nth_append if_True take_append) simp
    qed
    from this [OF refl]
    show ?thesis
      using IH t Cons unfolding Let_def by (auto simp: b out case_prod_beta drop_Suc)
  qed
qed

text \<open>
  the wire carries every byte once and in order in both directions: when the daemon clocks out a
  message that fits into the receive buffer, the firmware gets exactly its bytes; the daemon gets
  the byte that lay in the data register, then the bytes on their way and then fill bytes, and the
  interrupt line falls with the first fill byte and not before.
\<close>

theorem wire_exchange:
  assumes "avr_link_ok s" "length (received s) + length bs < 255"
  shows "(let s' = snd (spi_exchange bs s);
              stream = io_get SPDR s # sent s @ replicate (length bs) SPI_WRITE_UNDERFLOW
          in fst (spi_exchange bs s) = take (length bs) stream \<and> io_get SPDR s' = stream ! length bs \<and>
             avr_link_ok s' \<and> received s' = received s @ bs \<and> sent s' = drop (length bs) (sent s) \<and>
             (line_up s' \<longleftrightarrow> line_up s \<and> length bs \<le> length (sent s)))"
  by (rule spi_exchange_room [OF assms])

lemma wire_exchange_witness:
  "let s = postpone_flush [5, 6] 2 avr_reset
   in fst (spi_exchange [1, 2, 3, 4] s) = [0, 5, 6, SPI_WRITE_UNDERFLOW] \<and>
      received (snd (spi_exchange [1, 2, 3, 4] s)) = [1, 2, 3, 4]"
proof -
  let ?s = "postpone_flush [5, 6] 2 avr_reset"
  have empty: "sent avr_reset = []" "received avr_reset = []"
    by (simp_all add: sent_def received_def avr_reset_def buffer_zero_def buffer_held_def ring_abs_def)
  then have "is_writable avr_reset = 1" by (simp add: is_writable_sent [OF link_zero(1)])
  from postpone_flush_effect [OF link_zero(1) this, of 2 "[5, 6]"]
  have s: "avr_link_ok ?s" "sent ?s = [5, 6]" "received ?s = []" using empty by simp_all
  have "io_get SPDR ?s = 0"
    by (simp add: postpone_flush_def spi_write_array_def case_prod_beta avr_spi_interrupt_start_def
        io_get_def io_or_def io_set_def avr_reset_def)
  with s wire_exchange [OF s(1), of "[1, 2, 3, 4]"] show ?thesis by (simp add: Let_def)
qed

end
