(* ===== verification/Avr_Memory.thy ===== *)
theory Avr_Memory
  imports Avr_Main
begin

text \<open>
  The memory of the firmware as a whole: \<open>avr_inv\<close> says that every array has its declared length,
  every ring is well formed, every stored number lies in its enumeration, every function pointer is
  null or one of the functions registered for its slot, and the queue of the two wire bus holds
  whole requests. Each operation of the main loop and each interrupt routine preserves it;
  \<open>Avr_System\<close> concludes that it holds in every reachable state.
\<close>

section \<open>The invariant, module by module\<close>

text \<open>A slot holds the null pointer or the only function that the program registers for it.\<close>

definition slots_ok :: "callback list \<Rightarrow> callback list \<Rightarrow> bool" where
  "slots_ok allowed cbs \<longleftrightarrow> list_all2 (\<lambda>f cb. cb = No_callback \<or> cb = f) allowed cbs"

definition timer_slots :: "callback list" where
  "timer_slots = [No_callback, Cron_interrupt, No_callback, No_callback, No_callback, No_callback]"

definition cron_slots :: "callback list" where
  "cron_slots = [At_verify, No_callback, Flush_shift_display, Heartbeat_verify]"

definition at_slots :: "callback list" where
  "at_slots = [Boot_release_wire, Menu_stop, Menu_tag_request, Spi_misconfirm]"

text \<open>A timer that may interrupt has its function, and so has a timer that waits in the queue.\<close>

definition timer_armed :: "avr \<Rightarrow> u8 \<Rightarrow> bool" where
  "timer_armed s i \<longleftrightarrow> i \<le> MAX_ID \<and> io_get (TIMSK i) s AND FLAG_INTERRUPT_COMPARE_A \<noteq> 0"

definition counter_inv :: "counter \<Rightarrow> bool" where
  "counter_inv c \<longleftrightarrow> slots_ok timer_slots (ct_callback_array c) \<and> buf_ok (ct_invoke_queue c) \<and>
     (\<forall>i \<in> set (buf_held (ct_invoke_queue c)). i \<le> MAX_ID \<and> ct_callback_array c ! unat i \<noteq> No_callback)"

definition irq_inv :: "avr \<Rightarrow> bool" where
  "irq_inv s \<longleftrightarrow> (\<forall>i. timer_armed s i \<longrightarrow> ct_callback_array (a_counter s) ! unat i \<noteq> No_callback)"

definition cron_inv :: "cron \<Rightarrow> bool" where
  "cron_inv c \<longleftrightarrow> slots_ok cron_slots (cr_callback_array c) \<and> length (cr_factor_array c) = 4 \<and>
     length (cr_counter_array c) = 4 \<and> buf_ok (cr_queue c) \<and>
     (\<forall>i \<in> set (buf_held (cr_queue c)). i < CRON_ID_MAX)"

definition at_inv :: "at \<Rightarrow> bool" where
  "at_inv a \<longleftrightarrow> slots_ok at_slots (at_callback_array a) \<and> length (at_current a) = 4 \<and>
     length (at_limit a) = 4"

definition heartbeat_inv :: "cron \<Rightarrow> heartbeat \<Rightarrow> bool" where
  "heartbeat_inv c h \<longleftrightarrow> (cr_callback_array c ! unat CRON_ID_HEARTBEAT \<noteq> No_callback \<longrightarrow>
     hb_report h = Switch_to_watch \<and> hb_provoke h = Spi_interrupt_start)"

definition flush_inv :: "flush \<Rightarrow> bool" where
  "flush_inv f \<longleftrightarrow> buffer_ok (fl_shift_data f) \<and> length (fl_stable_data f) = 64 \<and>
     fl_brightness f \<le> FLUSH_BRIGHTNESS_MAX"

definition mode_inv :: "mode \<Rightarrow> bool" where
  "mode_inv m \<longleftrightarrow> mo_current_mode m \<le> MODE_RADIO \<and> mo_is_connected m \<le> 1"

definition menu_inv :: "menu \<Rightarrow> bool" where
  "menu_inv m \<longleftrightarrow> length (me_param_max m) = 4 \<and> length (me_param_min m) = 4 \<and>
     length (me_param_old m) = 4 \<and> length (me_param_new m) = 4 \<and> me_backup_mode m \<le> MODE_RADIO \<and>
     me_state m \<le> STATE_VALUE \<and> me_param_id m \<le> PARAM_APPLY \<and> me_param_id_min m \<le> PARAM_APPLY \<and>
     me_param_id_max m \<le> PARAM_APPLY \<and> me_secondary_param m \<le> PARAM_APPLY"

text \<open>The requests of the two wire bus: four bytes, and the data of a write behind them.\<close>

definition request_data :: "u8 \<Rightarrow> nat" where
  "request_data action =
     (if action AND ACTION_MASK = ACTION_WRITE then unat (drop_bit 1 (action AND LEN_MASK)) else 0)"

fun requests :: "bytes \<Rightarrow> bool" where
  "requests [] = True"
| "requests (action # i # tag # reg # rest) =
     (i < TWI_ID_SIZE \<and> request_data action \<le> length rest \<and> requests (drop (request_data action) rest))"
| "requests _ = False"

text \<open>
  \<open>ready\<close> says whether the slave of the bus is registered, which \<open>watch_init\<close> does before the first
  request.
\<close>

definition twi_inv :: "bool \<Rightarrow> twi \<Rightarrow> bool" where
  "twi_inv ready t \<longleftrightarrow> length (tw_data t) = 128 \<and> length (tw_address t) = 1 \<and> buffer_ok (tw_queue t) \<and>
     tw_mode t \<le> MODE_IDLE \<and>
     (if ready
      then tw_write_cb t = [Dummy_callback] \<and> tw_read_cb t = [Watch_read_callback] \<and>
        requests (buffer_held (tw_queue t)) \<and> (tw_action t \<noteq> ACTION_IDLE \<longrightarrow> tw_id t < TWI_ID_SIZE) \<and>
        (tw_mode t \<noteq> MODE_IDLE \<longrightarrow> tw_action t \<noteq> ACTION_IDLE \<and>
           unat (tw_index t) < max 1 (unat (tw_max_index t)) \<and> unat (tw_max_index t) \<le> 127)
      else length (tw_write_cb t) = 1 \<and> length (tw_read_cb t) = 1 \<and> buffer_held (tw_queue t) = [] \<and>
        tw_action t = ACTION_IDLE \<and> tw_mode t = MODE_IDLE)"

definition rotor_inv :: "rotor \<Rightarrow> bool" where
  "rotor_inv r \<longleftrightarrow> buf_ok (ro_j_event_buf r) \<and> buf_ok (ro_k_event_buf r)"

definition avr_inv :: "bool \<Rightarrow> avr \<Rightarrow> bool" where
  "avr_inv ready s \<longleftrightarrow> irq_inv s \<and> counter_inv (a_counter s) \<and> cron_inv (a_cron s) \<and> at_inv (a_at s) \<and>
     heartbeat_inv (a_cron s) (a_heartbeat s) \<and> avr_link_ok s \<and> decoder_ok (a_decode s) \<and>
     flush_inv (a_flush s) \<and> mode_inv (a_mode s) \<and> menu_inv (a_menu s) \<and> twi_inv ready (a_twi s) \<and>
     length (wa_buffer (a_watch s)) = 3 \<and> rotor_inv (a_rotor s)"

lemma zero_rings:
  "buf_ok buf_zero" "buf_held buf_zero = []" "buffer_ok buffer_zero" "buffer_held buffer_zero = []"
  by (simp_all add: buf_zero_def buffer_zero_def buf_ok_def buf_held_def buffer_ok_def buffer_held_def
      ring_ok_def ring_abs_def BUF_SIZE_def BUFFER_SIZE_def)

lemma null_slots:
  "slots_ok timer_slots (replicate 6 No_callback)" "slots_ok cron_slots (replicate 4 No_callback)"
  "slots_ok at_slots (replicate 4 No_callback)"
  by (simp_all add: slots_ok_def timer_slots_def cron_slots_def at_slots_def numeral_eq_Suc)

lemma avr_inv_reset: "avr_inv False avr_reset"
  by (simp add: avr_inv_def irq_inv_def timer_armed_def counter_inv_def cron_inv_def at_inv_def
      heartbeat_inv_def avr_link_ok_def decoder_ok_def flush_inv_def mode_inv_def menu_inv_def
      twi_inv_def rotor_inv_def avr_reset_def io_get_def zero_rings null_slots)

section \<open>What an operation leaves alone\<close>

text \<open>Registers other than the timers' interrupt masks do not matter.\<close>

lemma irq_inv_cong:
  assumes "irq_inv s" "\<And>i. io_get (TIMSK i) s' = io_get (TIMSK i) s" "a_counter s' = a_counter s"
  shows "irq_inv s'"
  using assms by (simp add: irq_inv_def timer_armed_def)

lemma inv_io [simp]:
  assumes "\<And>i. r \<noteq> TIMSK i"
  shows "avr_inv b (io_set r v s) = avr_inv b s" "avr_inv b (io_or r v s) = avr_inv b s"
    "avr_inv b (io_clear r v s) = avr_inv b s"
  using assms assms [symmetric] by (simp_all add: avr_inv_def irq_inv_def timer_armed_def avr_link_ok_def)

lemma inv_module:
  assumes "avr_inv b s"
  shows "avr_inv b (s\<lparr>a_cron := c\<rparr>) = (cron_inv c \<and> heartbeat_inv c (a_heartbeat s))"
    "avr_inv b (s\<lparr>a_at := a\<rparr>) = at_inv a"
    "avr_inv b (s\<lparr>a_heartbeat := h\<rparr>) = heartbeat_inv (a_cron s) h"
    "avr_inv b (s\<lparr>a_decode := d\<rparr>) = decoder_ok d" "avr_inv b (s\<lparr>a_flush := f\<rparr>) = flush_inv f"
    "avr_inv b (s\<lparr>a_mode := m\<rparr>) = mode_inv m" "avr_inv b (s\<lparr>a_menu := n\<rparr>) = menu_inv n"
    "avr_inv b' (s\<lparr>a_twi := t\<rparr>) = twi_inv b' t" "avr_inv b (s\<lparr>a_rotor := r\<rparr>) = rotor_inv r"
    "avr_inv b (s\<lparr>a_watch := w\<rparr>) = (length (wa_buffer w) = 3)"
    "avr_inv b (s\<lparr>a_counter := k\<rparr>) = (counter_inv k \<and> irq_inv (s\<lparr>a_counter := k\<rparr>))"
    "avr_inv b (s\<lparr>a_spi := p\<rparr>) = (buffer_ok (sp_read_buf p) \<and> buffer_ok (sp_write_buf p))"
    "avr_inv b (s\<lparr>a_out_buf := out\<rparr>) = (length out = 15)"
    "avr_inv b (s\<lparr>a_postpone := q\<rparr>) = (length (pp_message q) = 20 \<and> unat (pp_size q) \<le> 20)"
  using assms by (auto simp: avr_inv_def irq_inv_def timer_armed_def avr_link_ok_def io_get_def)

lemma avr_invD:
  assumes "avr_inv b s"
  shows "irq_inv s" "counter_inv (a_counter s)" "cron_inv (a_cron s)" "at_inv (a_at s)"
    "heartbeat_inv (a_cron s) (a_heartbeat s)" "avr_link_ok s" "decoder_ok (a_decode s)"
    "flush_inv (a_flush s)" "mode_inv (a_mode s)" "menu_inv (a_menu s)" "twi_inv b (a_twi s)"
    "length (wa_buffer (a_watch s)) = 3" "rotor_inv (a_rotor s)"
  using assms by (simp_all add: avr_inv_def)

text \<open>Drawing.\<close>

lemma inv_only_port: "only_port f \<Longrightarrow> avr_inv b (f s) = avr_inv b s"
  by (simp add: avr_inv_def irq_inv_def timer_armed_def avr_link_ok_def only_portD)

lemmas inv_draw [simp] = only_port_dump [THEN inv_only_port] only_port_display [THEN inv_only_port]

section \<open>Timers\<close>

lemma slots_length: "slots_ok allowed cbs \<Longrightarrow> length cbs = length allowed"
  by (simp add: slots_ok_def list_all2_lengthD)

lemma slots_nth: "slots_ok allowed cbs \<Longrightarrow> i < length allowed \<Longrightarrow> cbs ! i = No_callback \<or> cbs ! i = allowed ! i"
  unfolding slots_ok_def by (drule (1) list_all2_nthD) auto

lemma slots_update:
  assumes "slots_ok allowed cbs" "cb = No_callback \<or> cb = allowed ! i"
  shows "slots_ok allowed (cbs[i := cb])"
proof -
  have "list_all2 (\<lambda>f cb. cb = No_callback \<or> cb = f) (allowed[i := allowed ! i]) (cbs[i := cb])"
    using assms by (intro list_all2_update_cong) (simp_all add: slots_ok_def)
  then show ?thesis by (simp add: slots_ok_def)
qed

lemmas slot_defs = timer_slots_def cron_slots_def at_slots_def

lemma inv_counter [simp]:
  "avr_inv b (counter_enable i p s) = avr_inv b s" "avr_inv b (counter_disable i s) = avr_inv b s"
  "avr_inv b (counter_register_write i r lo hi s) = avr_inv b s"
  by (auto simp: counter_enable_def counter_disable_def control_register_set_def
      control_register_clear_def control_register_get_def counter_register_write_def
      value_register_get_def Let_def)

lemma inv_interrupt_disable:
  assumes "avr_inv b s"
  shows "avr_inv b (counter_interrupt_disable i s)"
proof -
  have "timer_armed (io_clear (TIMSK i) v t) j \<Longrightarrow> timer_armed t j" for j v t
    by (auto simp: timer_armed_def split: if_splits) (metis and.commute and.left_commute bit.conj_cancel_right bit.conj_zero_right)
  then have "avr_inv b (io_clear (TIMSK i) v t)" if "avr_inv b t" for v t
    using that by (auto simp: avr_inv_def irq_inv_def avr_link_ok_def)
  then show ?thesis
    using assms by (simp add: counter_interrupt_disable_def counter_interrupt_def
        control_register_clear_def control_register_get_def Let_def)
qed

lemma inv_timer_interrupt_enable:
  assumes "avr_inv b s"
  shows "avr_inv b (counter_interrupt_enable COUNTER_1 Cron_interrupt s)"
proof -
  let ?k = "(a_counter s)\<lparr>ct_callback_array := (ct_callback_array (a_counter s))[1 := Cron_interrupt]\<rparr>"
  have slots: "slots_ok timer_slots (ct_callback_array (a_counter s))"
    using avr_invD(2) [OF assms] by (simp add: counter_inv_def)
  then have len: "length (ct_callback_array (a_counter s)) = 6"
    using slots_length by (fastforce simp: slot_defs)
  have keep: "ct_callback_array (a_counter s) ! j \<noteq> No_callback \<Longrightarrow>
      ct_callback_array ?k ! j \<noteq> No_callback" for j
    using len by (simp add: nth_list_update)
  have "counter_inv ?k"
    using avr_invD(2) [OF assms] slots_update [OF slots, of Cron_interrupt 1] keep
    by (simp add: counter_inv_def slot_defs)
  moreover have "irq_inv (s\<lparr>a_counter := ?k\<rparr>)"
    using avr_invD(1) [OF assms] keep by (simp add: irq_inv_def timer_armed_def io_get_def)
  ultimately have "avr_inv b (s\<lparr>a_counter := ?k\<rparr>)" using inv_module(11) [OF assms] by simp
  moreover have "avr_inv b (io_or (TIMSK 1) v t)"
    if "avr_inv b t" "ct_callback_array (a_counter t) ! 1 \<noteq> No_callback" for v t
    using that by (auto simp: avr_inv_def irq_inv_def timer_armed_def avr_link_ok_def)
  ultimately show ?thesis
    using len by (simp add: counter_interrupt_enable_def counter_interrupt_def control_register_set_def
        control_register_get_def Let_def eight_bits_def MAX_ID_def)
qed

section \<open>Jobs\<close>

lemma inv_timer: "avr_inv b s \<Longrightarrow> avr_inv b (engage_timer s)" "avr_inv b s \<Longrightarrow> avr_inv b (disengage_timer s)"
  by (simp_all add: engage_timer_def disengage_timer_def inv_interrupt_disable inv_timer_interrupt_enable
      del: counter_defs)

lemma inv_cron_set:
  assumes "avr_inv b s" "unat i < 4" "cb = No_callback \<or> cb = cron_slots ! unat i"
    "i = CRON_ID_HEARTBEAT \<Longrightarrow> cb \<noteq> No_callback \<Longrightarrow>
      hb_report (a_heartbeat s) = Switch_to_watch \<and> hb_provoke (a_heartbeat s) = Spi_interrupt_start"
  shows "avr_inv b (cron_set i cb f s)"
proof -
  have c: "cron_inv (a_cron s)" by (rule avr_invD [OF assms(1)])
  then have slots: "slots_ok cron_slots (cr_callback_array (a_cron s))" by (simp add: cron_inv_def)
  then have len: "length (cr_callback_array (a_cron s)) = 4"
    using slots_length by (fastforce simp: slot_defs)
  have "unat i = 3 \<longleftrightarrow> i = 3" by (simp add: u8_eq_iff)
  then have "heartbeat_inv ((a_cron s)\<lparr>cr_callback_array := (cr_callback_array (a_cron s))[unat i := cb]\<rparr>) (a_heartbeat s)"
    using avr_invD(5) [OF assms(1)] assms(4) len by (auto simp: heartbeat_inv_def nth_list_update)
  then show ?thesis
    using c slots_update [OF slots assms(3)] inv_module(1) [OF assms(1)]
    by (simp add: cron_set_def cron_inv_def heartbeat_inv_def)
qed

lemma inv_cron_disable: "avr_inv b s \<Longrightarrow> avr_inv b (snd (cron_disable i s))"
  by (auto simp: cron_disable_def Let_def u8_nat not_le intro!: inv_timer inv_cron_set)

lemma inv_cron_enable:
  assumes "avr_inv b s" "cb = No_callback \<or> cb = cron_slots ! unat i"
    "i = CRON_ID_HEARTBEAT \<Longrightarrow> cb \<noteq> No_callback \<Longrightarrow>
      hb_report (a_heartbeat s) = Switch_to_watch \<and> hb_provoke (a_heartbeat s) = Spi_interrupt_start"
  shows "avr_inv b (snd (cron_enable i f cb s))"
  using inv_cron_set [OF assms(1) _ assms(2,3)] assms(1)
  by (auto simp: cron_enable_def Let_def inv_timer u8_nat not_le)

lemma inv_at_update:
  assumes "avr_inv b s" "cb = No_callback \<or> cb = at_slots ! i"
  shows "avr_inv b (s\<lparr>a_at := (a_at s)\<lparr>at_callback_array := (at_callback_array (a_at s))[i := cb]\<rparr>\<rparr>)"
    "avr_inv b (s\<lparr>a_at := (a_at s)\<lparr>at_current := (at_current (a_at s))[i := v]\<rparr>\<rparr>)"
    "avr_inv b (s\<lparr>a_at := (a_at s)\<lparr>at_current := (at_current (a_at s))[i := v],
       at_limit := (at_limit (a_at s))[i := w], at_callback_array := (at_callback_array (a_at s))[i := cb]\<rparr>\<rparr>)"
  using avr_invD(4) [OF assms(1)] slots_update [OF _ assms(2)]
  by (simp_all add: inv_module(2) [OF assms(1)] at_inv_def)

lemma inv_at_cancel: "avr_inv b s \<Longrightarrow> avr_inv b (at_cancel i s)"
  using inv_at_update(1) [of b s No_callback]
  by (simp add: at_cancel_def at_clear_def Let_def inv_cron_disable)

lemma inv_at_schedule:
  assumes "avr_inv b s" "cb = at_slots ! unat i"
  shows "avr_inv b (at_schedule i delay cb s)"
  using inv_cron_enable [OF inv_at_update(3) [OF assms(1) disjI2 [OF assms(2)]], of At_verify CRON_ID_AT]
    assms(1) by (simp add: at_schedule_def slot_defs)

lemma inv_at_postpone: "avr_inv b s \<Longrightarrow> avr_inv b (at_postpone i s)"
  using inv_at_update(2) [of b s No_callback] by (simp add: at_postpone_def)

lemma inv_heartbeat:
  assumes "avr_inv b s"
  shows "avr_inv b (heartbeat_confirm s)" "avr_inv b (heartbeat_cancel s)"
    "avr_inv b (s\<lparr>a_heartbeat := (a_heartbeat s)\<lparr>hb_current_misses := v\<rparr>\<rparr>)"
    "avr_inv b (heartbeat_start delay limit Switch_to_watch Spi_interrupt_start s)"
proof -
  show keep: "avr_inv b (s\<lparr>a_heartbeat := (a_heartbeat s)\<lparr>hb_current_misses := v\<rparr>\<rparr>)" for v
    using avr_invD(5) [OF assms] by (simp add: inv_module(3) [OF assms] heartbeat_inv_def)
  from keep show "avr_inv b (heartbeat_confirm s)" by (simp add: heartbeat_confirm_def)
  show "avr_inv b (heartbeat_cancel s)" by (simp add: heartbeat_cancel_def inv_cron_disable assms)
  have "avr_inv b (s\<lparr>a_heartbeat := \<lparr>hb_current_misses = 0, hb_max_misses = PROVOKE_LIMIT + limit,
      hb_report = Switch_to_watch, hb_provoke = Spi_interrupt_start\<rparr>\<rparr>)"
    by (simp add: inv_module(3) [OF assms] heartbeat_inv_def)
  from inv_cron_enable [OF this, of Heartbeat_verify CRON_ID_HEARTBEAT delay]
  show "avr_inv b (heartbeat_start delay limit Switch_to_watch Spi_interrupt_start s)"
    by (simp add: heartbeat_start_def slot_defs)
qed

section \<open>Messages\<close>

text \<open>The link changes its buffers, the pin of the interrupt line, and nothing else.\<close>

definition off_link :: "avr \<Rightarrow> avr" where
  "off_link s = s\<lparr>a_io := (a_io s)(PORTB := 0), a_out_buf := [],
     a_postpone := \<lparr>pp_message = [], pp_size = 0\<rparr>,
     a_spi := \<lparr>sp_read_buf = buffer_zero, sp_write_buf = buffer_zero\<rparr>\<rparr>"

lemma off_link_parts:
  assumes "off_link s' = off_link s"
  shows "a_counter s' = a_counter s" "a_cron s' = a_cron s" "a_at s' = a_at s"
    "a_heartbeat s' = a_heartbeat s" "a_decode s' = a_decode s" "a_flush s' = a_flush s"
    "a_mode s' = a_mode s" "a_menu s' = a_menu s" "a_twi s' = a_twi s" "a_watch s' = a_watch s"
    "a_rotor s' = a_rotor s" "r \<noteq> PORTB \<Longrightarrow> io_get r s' = io_get r s"
proof -
  show "a_counter s' = a_counter s" using arg_cong [OF assms, of a_counter] by (simp add: off_link_def)
  show "a_cron s' = a_cron s" using arg_cong [OF assms, of a_cron] by (simp add: off_link_def)
  show "a_at s' = a_at s" using arg_cong [OF assms, of a_at] by (simp add: off_link_def)
  show "a_heartbeat s' = a_heartbeat s" using arg_cong [OF assms, of a_heartbeat] by (simp add: off_link_def)
  show "a_decode s' = a_decode s" using arg_cong [OF assms, of a_decode] by (simp add: off_link_def)
  show "a_flush s' = a_flush s" using arg_cong [OF assms, of a_flush] by (simp add: off_link_def)
  show "a_mode s' = a_mode s" using arg_cong [OF assms, of a_mode] by (simp add: off_link_def)
  show "a_menu s' = a_menu s" using arg_cong [OF assms, of a_menu] by (simp add: off_link_def)
  show "a_twi s' = a_twi s" using arg_cong [OF assms, of a_twi] by (simp add: off_link_def)
  show "a_watch s' = a_watch s" using arg_cong [OF assms, of a_watch] by (simp add: off_link_def)
  show "a_rotor s' = a_rotor s" using arg_cong [OF assms, of a_rotor] by (simp add: off_link_def)
  show "r \<noteq> PORTB \<Longrightarrow> io_get r s' = io_get r s"
    using arg_cong [OF assms, of "\<lambda>s. a_io s r"] by (simp add: off_link_def io_get_def)
qed

lemma inv_off_link:
  assumes "avr_inv b s" "off_link s' = off_link s" "avr_link_ok s'"
  shows "avr_inv b s'"
  using assms(1,3) off_link_parts [OF assms(2)] by (simp add: avr_inv_def irq_inv_def timer_armed_def)

lemma off_link_pin [simp]: "off_link (io_or PORTB v s) = off_link s" "off_link (io_clear PORTB v s) = off_link s"
  by (simp_all add: off_link_def io_or_def io_clear_def io_set_def)

lemma off_link_fields [simp]:
  "off_link (s\<lparr>a_spi := p\<rparr>) = off_link s" "off_link (s\<lparr>a_postpone := q\<rparr>) = off_link s"
  "off_link (s\<lparr>a_out_buf := out\<rparr>) = off_link s"
  by (simp_all add: off_link_def)

lemma off_link_flush [simp]: "off_link (postpone_flush msg n s) = off_link s"
  by (simp add: postpone_flush_def spi_write_array_def avr_spi_interrupt_start_def split: prod.split)

lemma off_link_post [simp]: "off_link (out_post n ls) = off_link (snd ls)"
  by (simp add: out_post_def postpone_message_def)

lemma off_link_put [simp]: "off_link (snd (out_put p ls)) = off_link (snd ls)"
  "off_link (snd (encode_msg i n sz s)) = off_link s"
  by (simp_all add: out_put_def encode_msg_def)

lemma inv_encode:
  assumes "avr_inv b s"
  shows "avr_inv b (encode_msg_0 i n s)" "avr_inv b (encode_msg_1 i n p1 s)"
    "avr_inv b (encode_msg_2 i n p1 p2 s)" "avr_inv b (encode_msg_3 i n p1 p2 p3 s)"
proof -
  note posted = encode_msg_posted [OF avr_invD(6) [OF assms], THEN posted_link_ok]
  show "avr_inv b (encode_msg_0 i n s)" by (rule inv_off_link [OF assms _ posted(1)]) (simp add: encode_msg_0_def)
  show "avr_inv b (encode_msg_1 i n p1 s)" by (rule inv_off_link [OF assms _ posted(2)]) (simp add: encode_msg_1_def)
  show "avr_inv b (encode_msg_2 i n p1 p2 s)" by (rule inv_off_link [OF assms _ posted(3)]) (simp add: encode_msg_2_def)
  show "avr_inv b (encode_msg_3 i n p1 p2 p3 s)" by (rule inv_off_link [OF assms _ posted(4)]) (simp add: encode_msg_3_def)
qed

lemma inv_send:
  assumes "avr_inv b s"
  shows "avr_inv b (send_message_0 i s)" "avr_inv b (send_message_1 i p1 s)"
    "avr_inv b (send_message_2 i p1 p2 s)" "avr_inv b (send_message_3 p sg v s)"
  by (simp_all add: send_message_0_def send_message_1_def send_message_2_def send_message_3_def
      inv_encode assms)

lemma inv_postpone_try: "avr_inv b s \<Longrightarrow> avr_inv b (postpone_try s)"
proof -
  assume s: "avr_inv b s"
  note flush = avr_invD(8) [OF s]
  have "avr_link_ok (postpone_try s)"
    using postpone_try_effect [OF avr_invD(6) [OF s]] flush by (simp add: flush_inv_def Let_def)
  moreover have "off_link (postpone_try s) = off_link s" by (simp add: postpone_try_def Let_def)
  ultimately show ?thesis using inv_off_link [OF s] by blast
qed

section \<open>Pictures\<close>

lemma inv_flush_field:
  assumes "avr_inv b s"
  shows "buffer_ok q \<Longrightarrow> avr_inv b (s\<lparr>a_flush := (a_flush s)\<lparr>fl_shift_data := q\<rparr>\<rparr>)"
    "length xs = 64 \<Longrightarrow> avr_inv b (s\<lparr>a_flush := (a_flush s)\<lparr>fl_stable_data := xs\<rparr>\<rparr>)"
    "avr_inv b (s\<lparr>a_flush := (a_flush s)\<lparr>fl_drain := d\<rparr>\<rparr>)"
    "v \<le> FLUSH_BRIGHTNESS_MAX \<Longrightarrow> avr_inv b (s\<lparr>a_flush := (a_flush s)\<lparr>fl_brightness := v\<rparr>\<rparr>)"
    "buffer_ok q \<Longrightarrow> avr_inv b (s\<lparr>a_flush := (a_flush s)\<lparr>fl_drain := d, fl_shift_data := q\<rparr>\<rparr>)"
  using avr_invD(8) [OF assms] by (simp_all add: inv_module(5) [OF assms] flush_inv_def)

lemma inv_flush:
  assumes "avr_inv b s"
  shows "avr_inv b (flush_brightness_set v s)" "avr_inv b (flush_shift_display s)"
    "avr_inv b (snd (flush_shift_data arr n s))" "avr_inv b (flush_shift_drain_start s)"
    "avr_inv b (flush_shift_drain_stop s)" "avr_inv b (flush_stable_display pic s)"
proof -
  note fl = avr_invD(8) [OF assms, unfolded flush_inv_def]
  note field = inv_flush_field [OF assms]
  show "avr_inv b (flush_brightness_set v s)"
    using field(4) [of v] assms by (simp add: flush_brightness_set_def Let_def not_less)
  have dump: "avr_inv b (flush_dump 1 s)" by (simp add: assms)
  have "a_flush (flush_dump 1 s) = a_flush s" by (rule only_portD [OF only_port_dump])
  then have ok: "buffer_ok (fl_shift_data (a_flush (flush_dump 1 s)))" using fl by simp
  show "avr_inv b (flush_shift_display s)"
    using buffer.drain_ok [OF ok] inv_flush_field(1) [OF dump] assms
    by (auto simp: flush_shift_display_def Let_def split: prod.split)
  show "avr_inv b (snd (flush_shift_data arr n s))"
    using buffer.afill_ok [of "fl_shift_data (a_flush s)" arr n] fl field(1) assms
    by (auto simp: flush_shift_data_def split: prod.split)
  show "avr_inv b (flush_shift_drain_start s)" "avr_inv b (flush_shift_drain_stop s)"
    using field(3,5) fl by (simp_all add: flush_shift_drain_start_def flush_shift_drain_stop_def)
  show "avr_inv b (flush_stable_display pic s)"
    using field(2) by (simp add: flush_stable_display_def)
qed

section \<open>The two wire bus\<close>

lemma requests_append: "requests xs \<Longrightarrow> requests ys \<Longrightarrow> requests (xs @ ys)"
  by (induction xs rule: requests.induct) auto

lemma requests_split:
  assumes "requests xs" "xs \<noteq> []"
  obtains action i tag reg rest where "xs = action # i # tag # reg # rest" "i < TWI_ID_SIZE"
    "request_data action \<le> length rest" "requests (drop (request_data action) rest)"
  using assms by (cases xs rule: requests.cases) auto

lemma request_data_byte:
  "unat len < 128 \<Longrightarrow> request_data (push_bit 1 len OR ACTION_WRITE) = unat len"
  "request_data (push_bit 1 len OR ACTION_READ) = 0"
proof -
  show "unat len < 128 \<Longrightarrow> request_data (push_bit 1 len OR ACTION_WRITE) = unat len"
    using action_byte [of len] by (simp add: request_data_def)
  have "bit ((push_bit 1 len OR 1) AND (1 :: u8)) 0" by (simp add: bit_simps)
  then have "(push_bit 1 len OR 1) AND (1 :: u8) \<noteq> 0" by (metis bit_0_eq bot_fun_def bot_bool_def)
  then show "request_data (push_bit 1 len OR ACTION_READ) = 0" by (simp add: request_data_def)
qed

text \<open>A request that fits is appended, or makes a moved ring full and empties it.\<close>

lemma queue_fill_end:
  "buffer_ok q \<Longrightarrow> length (buffer_held q) + length bs \<le> 255 \<Longrightarrow>
   \<exists>q'. queue_fill bs q = (1, q') \<and> buffer_ok q' \<and>
     (buffer_held q' = buffer_held q @ bs \<or> buffer_held q' = [])"
proof (induction bs arbitrary: q)
  case Nil
  then show ?case by simp
next
  case (Cons b bs)
  show ?case
  proof (cases "Suc (length (buffer_held q)) < 255")
    case True
    from buffer.fill_room [OF Cons.prems(1) this, of b] obtain q' where
      q': "buffer_byte_fill q b = (1, q')" "buffer_ok q'" "buffer_held q' = buffer_held q @ [b]" by blast
    with Cons.IH [OF q'(2)] Cons.prems(2) show ?thesis by auto
  next
    case False
    have "length (buffer_held q) + Suc (length bs) \<le> 255" using Cons.prems(2) by simp
    with False have last: "length bs = 0" "Suc (length (buffer_held q)) = 255" by linarith+
    then have "bs = []" by simp
    with buffer.fill_last [OF Cons.prems(1) last(2), of b] show ?thesis by auto
  qed
qed

lemma inv_queue:
  assumes "avr_inv True s" "buffer_ok q" "requests (buffer_held q)"
  shows "avr_inv True (s\<lparr>a_twi := (a_twi s)\<lparr>tw_queue := q\<rparr>\<rparr>)"
  using avr_invD(11) [OF assms(1)] assms(2,3)
  by (simp add: inv_module(8) [OF assms(1)] twi_inv_def)

lemma inv_twi_write_array:
  assumes "avr_inv True s" "unat len < 128"
  shows "avr_inv True (snd (twi_write_array i tag len reg data s))"
proof (cases "i \<ge> TWI_ID_SIZE \<or> len = 0 \<or> len > MAX_LEN
    \<or> unat (buffer_space (tw_queue (a_twi s))) < unat len + unat OVERHEAD")
  case True
  then show ?thesis using assms(1) by (simp add: twi_write_array_def)
next
  case False
  let ?q = "tw_queue (a_twi s)" and ?head = "[push_bit 1 len OR ACTION_WRITE, i, tag, reg]"
    and ?data = "map ((!) data) [0..<unat len]"
  have q: "buffer_ok ?q" "requests (buffer_held ?q)"
    using avr_invD(11) [OF assms(1)] by (simp_all add: twi_inv_def)
  have len: "0 < unat len" using False by (simp add: unat_gt_0)
  have room: "length (buffer_held ?q) + unat len + 4 \<le> 255"
    using False len buffer.space_held [OF q(1)] by (simp del: One_nat_def) linarith
  then have "length (buffer_held ?q) + length ?head < 255" using len by simp
  from queue_fill_held [OF q(1) this] obtain q1 where
    q1: "queue_fill ?head ?q = (1, q1)" "buffer_ok q1" "buffer_held q1 = buffer_held ?q @ ?head" by blast
  have "length (buffer_held q1) + length ?data \<le> 255" using q1(3) room by simp
  from queue_fill_end [OF q1(2) this] obtain q2 where
    q2: "queue_fill ?data q1 = (1, q2)" "buffer_ok q2"
    "buffer_held q2 = buffer_held q1 @ ?data \<or> buffer_held q2 = []" by blast
  have "requests (?head @ ?data)"
    using False request_data_byte(1) [OF assms(2)] by (simp add: not_le)
  then have "requests (buffer_held q2)"
    using q2(3) requests_append [OF q(2)] by (auto simp: q1(3))
  then have "avr_inv True (s\<lparr>a_twi := (a_twi s)\<lparr>tw_queue := q2\<rparr>\<rparr>)"
    using inv_queue [OF assms(1) q2(2)] by blast
  with False q1(1) q2(1) show ?thesis
    by (simp add: twi_write_array_def twi_enqueue_def del: queue_fill.simps)
qed

lemma inv_twi_read_array:
  assumes "avr_inv True s"
  shows "avr_inv True (snd (twi_read_array i tag len reg s))"
proof (cases "i \<ge> TWI_ID_SIZE \<or> len = 0 \<or> len > MAX_LEN \<or> buffer_space (tw_queue (a_twi s)) < OVERHEAD")
  case True
  then show ?thesis using assms by (auto simp: twi_read_array_def)
next
  case False
  let ?q = "tw_queue (a_twi s)" and ?head = "[push_bit 1 len OR ACTION_READ, i, tag, reg]"
  have q: "buffer_ok ?q" "requests (buffer_held ?q)"
    using avr_invD(11) [OF assms] by (simp_all add: twi_inv_def)
  have "length (buffer_held ?q) + length ?head \<le> 255"
    using False buffer.space_held [OF q(1)] buffer.held_le [OF q(1)]
    by (simp add: u8_le_iff not_less) linarith
  from queue_fill_end [OF q(1) this] obtain q1 where
    q1: "queue_fill ?head ?q = (1, q1)" "buffer_ok q1"
    "buffer_held q1 = buffer_held ?q @ ?head \<or> buffer_held q1 = []" by blast
  have "requests ?head" using False request_data_byte(2) by (simp add: not_le)
  then have "requests (buffer_held q1)" using q1(3) requests_append [OF q(2)] by auto
  then have "avr_inv True (s\<lparr>a_twi := (a_twi s)\<lparr>tw_queue := q1\<rparr>\<rparr>)"
    using inv_queue [OF assms q1(2)] by blast
  with False q1(1) show ?thesis
    by (auto simp: twi_read_array_def twi_enqueue_def simp del: queue_fill.simps)
qed

lemma io_set_twi_swap: "(io_set r v s)\<lparr>a_twi := t\<rparr> = io_set r v (s\<lparr>a_twi := t\<rparr>)"
  by (simp add: io_set_def)

text \<open>The interrupt routine stays inside its 128 bytes of data.\<close>

lemma inv_twi_isr:
  assumes "avr_inv True s"
  shows "avr_inv True (twi_isr s)"
proof -
  let ?t = "a_twi s"
  have t: "twi_inv True ?t" by (rule avr_invD [OF assms])
  have act: "tw_mode ?t \<noteq> MODE_IDLE \<Longrightarrow> tw_action ?t \<noteq> ACTION_IDLE \<and>
      unat (tw_index ?t) < max 1 (unat (tw_max_index ?t)) \<and> unat (tw_max_index ?t) \<le> 127"
    using t by (simp add: twi_inv_def)
  have suc: "tw_mode ?t \<noteq> MODE_IDLE \<Longrightarrow> unat (tw_index ?t + 1) = Suc (unat (tw_index ?t))"
    using act by (intro unat_u8_Suc) auto
  have "tw_mode ?t = 0 \<or> tw_mode ?t = 1 \<or> tw_mode ?t = 2 \<or> tw_mode ?t = 3 \<or> tw_mode ?t = 4
      \<or> tw_mode ?t = 5 \<or> tw_mode ?t = 6 \<or> tw_mode ?t = 7 \<or> tw_mode ?t = 8 \<or> tw_mode ?t = 9
      \<or> tw_mode ?t = 10"
  proof -
    have "unat (tw_mode ?t) \<le> 10" using t by (simp add: twi_inv_def u8_le_iff)
    then show ?thesis unfolding u8_eq_iff by simp presburger
  qed
  then show ?thesis
    using t act suc
    by (elim disjE; simp add: twi_step_defs io_set_twi_swap inv_module(8) [OF assms] twi_inv_def)
      (auto simp: u8_less_iff)
qed

lemma inv_action_set:
  assumes "avr_inv True s" "tw_mode (a_twi s) = MODE_IDLE" "buffer_held (tw_queue (a_twi s)) \<noteq> []"
  shows "avr_inv True (twi_start m (action_set s))"
proof -
  let ?t = "a_twi s"
  have t: "twi_inv True ?t" by (rule avr_invD [OF assms(1)])
  then have q: "buffer_ok (tw_queue ?t)" "requests (buffer_held (tw_queue ?t))"
    by (simp_all add: twi_inv_def)
  from requests_split [OF q(2) assms(3)] obtain action i tag reg rest where
    held: "buffer_held (tw_queue ?t) = action # i # tag # reg # rest" "i < TWI_ID_SIZE"
    "request_data action \<le> length rest" "requests (drop (request_data action) rest)" .
  from queue_drain_held [OF q(1), of 4] held(1) obtain q1 where
    q1: "queue_drain 4 (tw_queue ?t) = ([action, i, tag, reg], q1)" "buffer_ok q1" "buffer_held q1 = rest"
    by auto
  let ?n = "unat (drop_bit 1 (action AND LEN_MASK))"
  have n: "?n \<le> 127" 
    using div_le_mono [OF unat_u8_le [of "action AND LEN_MASK"], of 2] by (simp add: drop_bit_eq_div unat_div)
  have "action AND 1 = 0 \<or> action AND 1 = 1"
    by (simp add: and_one_eq mod2_eq_if)
  then have act: "action AND 1 \<noteq> 2" by auto
  show ?thesis
  proof (cases "action AND ACTION_MASK = ACTION_WRITE")
    case True
    then have size: "request_data action = ?n" by (simp add: request_data_def)
    from queue_drain_held [OF q1(2), of ?n] held(3) size q1(3) obtain q2 where
      q2: "queue_drain ?n q1 = (take ?n rest, q2)" "buffer_ok q2" "buffer_held q2 = drop ?n rest" by auto
    have len: "length (take ?n rest) = ?n" using held(3) size by simp
    show ?thesis
      using True t q1(1) q2 n act held(2,4) size len
      by (simp add: action_set_def twi_start_def twi_set_mode_def io_set_twi_swap Let_def
          inv_module(8) [OF assms(1)] twi_inv_def del: queue_drain.simps)
  next
    case False
    then have "requests rest" using held(4) by (simp add: request_data_def)
    then show ?thesis
      using False t q1 n act held(2)
      by (simp add: action_set_def twi_start_def twi_set_mode_def io_set_twi_swap Let_def
          inv_module(8) [OF assms(1)] twi_inv_def del: queue_drain.simps)
  qed
qed

lemma inv_action_reset:
  assumes "avr_inv b s" "tw_mode (a_twi s) = MODE_IDLE"
  shows "avr_inv b (action_reset s)"
proof -
  have "length (fold (\<lambda>i d. d[i := 0]) is xs) = length xs" for "is" and xs :: bytes
    by (induction "is" arbitrary: xs) auto
  then show ?thesis
    using avr_invD(11) [OF assms(1)] assms(2)
    by (simp add: action_reset_def inv_module(8) [OF assms(1)] twi_inv_def)
qed

section \<open>The clock\<close>

lemma inv_watch_render: "avr_inv b s \<Longrightarrow> avr_inv b (watch_render s)"
  by (simp add: watch_render_def inv_flush split: option.split)

lemma inv_watch_read:
  assumes "avr_inv b s"
  shows "avr_inv b (watch_read_callback tag status len v s)"
  using avr_invD(12) [OF assms] assms
  by (simp add: watch_read_callback_def inv_watch_render inv_module(10) [OF assms])

lemma inv_watch:
  assumes "avr_inv True s"
  shows "avr_inv True (watch_enable s)" "avr_inv True (watch_disable s)" "avr_inv True (watch_set h m sec s)"
    "avr_inv True (int2_isr s)"
  by (simp_all add: watch_enable_def watch_disable_def watch_set_def int2_isr_def twi_write_byte_def
      twi_read_byte_def inv_twi_write_array inv_twi_read_array assms Let_def)

lemma watch_render_twi: "a_twi (watch_render s) = a_twi s"
  by (simp add: watch_render_def flush_stable_display_def only_portD [OF only_port_dump] split: option.split)

lemma inv_twi_try:
  assumes "avr_inv True s"
  shows "avr_inv True (twi_try run_twi s)"
proof -
  let ?t = "a_twi s"
  have t: "twi_inv True ?t" by (rule avr_invD [OF assms])
  have "avr_inv True (run_twi cb tag status len v s) \<and> tw_mode (a_twi (run_twi cb tag status len v s)) = tw_mode ?t"
    for cb tag status len v
    using inv_watch_read [OF assms] assms
    by (cases cb) (simp_all add: watch_read_callback_def watch_render_twi)
  then have "avr_inv True (action_reset (run_twi cb tag status len v s))"
    if "tw_mode ?t = MODE_IDLE" for cb tag status len v
    using inv_action_reset that by metis
  moreover have "avr_inv True (twi_start m (action_set s))"
    if "tw_mode ?t = MODE_IDLE" "buffer_size (tw_queue ?t) > 0" for m
  proof -
    have "buffer_ok (tw_queue ?t)" using t by (simp add: twi_inv_def)
    from buffer.size_zero [OF this] that(2) have "buffer_held (tw_queue ?t) \<noteq> []" by auto
    then show ?thesis by (rule inv_action_set [OF assms that(1)])
  qed
  ultimately show ?thesis using assms by (simp add: twi_try_def Let_def)
qed

section \<open>Modes and the menu\<close>

lemma inv_mode_field:
  assumes "avr_inv b s"
  shows "v \<le> MODE_RADIO \<Longrightarrow> avr_inv b (s\<lparr>a_mode := (a_mode s)\<lparr>mo_current_mode := v\<rparr>\<rparr>)"
    "c \<le> 1 \<Longrightarrow> avr_inv b (set_connected c s)"
  using avr_invD(9) [OF assms] by (simp_all add: set_connected_def inv_module(6) [OF assms] mode_inv_def)

lemma inv_mode_set:
  assumes "avr_inv True s" "new_mode \<le> MODE_RADIO"
  shows "avr_inv True (mode_set new_mode s)"
proof -
  let ?s = "snd (cron_disable CRON_ID_FLUSH (heartbeat_cancel (watch_disable s)))"
  let ?m = "?s\<lparr>a_mode := (a_mode ?s)\<lparr>mo_current_mode := new_mode\<rparr>\<rparr>"
  have m: "avr_inv True ?m"
    by (intro inv_mode_field inv_cron_disable inv_heartbeat inv_watch assms)
  have "avr_inv True (set_connected 0 (watch_enable ?m))"
    by (intro inv_mode_field inv_watch m) simp
  moreover have "avr_inv True (set_connected 1 (heartbeat_start HB_DELAY HB_MISS Switch_to_watch Spi_interrupt_start
      (snd (cron_enable CRON_ID_FLUSH SLAVE_DELAY Flush_shift_display ?m))))"
    by (intro inv_mode_field inv_heartbeat inv_cron_enable m) (simp_all add: slot_defs)
  ultimately show ?thesis using m assms(1) by (auto simp: mode_set_def Let_def)
qed

lemma inv_menu_field:
  assumes "avr_inv b s"
  shows "v \<le> STATE_VALUE \<Longrightarrow> avr_inv b (me_set_state v s)" "v \<le> PARAM_APPLY \<Longrightarrow> avr_inv b (me_set_param v s)"
    "avr_inv b (me_set_flag v s)" "avr_inv b (set_new_value i v s)" "avr_inv b (menu_set_range i v lo hi s)"
    "v \<le> MODE_RADIO \<Longrightarrow> avr_inv b (s\<lparr>a_menu := (a_menu s)\<lparr>me_backup_mode := v\<rparr>\<rparr>)"
    "avr_inv b (s\<lparr>a_menu := (a_menu s)\<lparr>me_secondary_param := me_param_id (a_menu s)\<rparr>\<rparr>)"
    "avr_inv b (s\<lparr>a_menu := (a_menu s)\<lparr>me_tag_param := p, me_tag_value := v\<rparr>\<rparr>)"
    "avr_inv b (set_param_range w s)" "avr_inv b (menu_reset s)"
    "avr_inv b (select_param a s)" "avr_inv b (select_apply a s)"
proof -
  note m = avr_invD(10) [OF assms, unfolded menu_inv_def]
  note upd = inv_module(7) [OF assms]
  show "v \<le> STATE_VALUE \<Longrightarrow> avr_inv b (me_set_state v s)" using m by (simp add: me_set_state_def upd menu_inv_def)
  show set: "v \<le> PARAM_APPLY \<Longrightarrow> avr_inv b (me_set_param v s)" for v
    using m by (simp add: me_set_param_def upd menu_inv_def)
  show "avr_inv b (me_set_flag v s)" using m by (simp add: me_set_flag_def upd menu_inv_def)
  show "avr_inv b (set_new_value i v s)" using m by (simp add: set_new_value_def upd menu_inv_def)
  show "avr_inv b (menu_set_range i v lo hi s)" using m by (simp add: menu_set_range_def upd menu_inv_def)
  show "v \<le> MODE_RADIO \<Longrightarrow> avr_inv b (s\<lparr>a_menu := (a_menu s)\<lparr>me_backup_mode := v\<rparr>\<rparr>)"
    using m by (simp add: upd menu_inv_def)
  show "avr_inv b (s\<lparr>a_menu := (a_menu s)\<lparr>me_secondary_param := me_param_id (a_menu s)\<rparr>\<rparr>)"
    using m by (simp add: upd menu_inv_def)
  show "avr_inv b (s\<lparr>a_menu := (a_menu s)\<lparr>me_tag_param := p, me_tag_value := v\<rparr>\<rparr>)"
    using m by (simp add: upd menu_inv_def)
  show "avr_inv b (set_param_range w s)" using m by (simp add: set_param_range_def Let_def upd menu_inv_def)
  show "avr_inv b (menu_reset s)" using m by (simp add: menu_reset_def Let_def upd menu_inv_def)
  have "me_param_id (a_menu s) + 1 \<le> PARAM_APPLY" if "me_param_id (a_menu s) < me_param_id_max (a_menu s)"
    using u8_inc_le [OF that] m by (meson order_trans)
  moreover have "me_param_id (a_menu s) - 1 \<le> PARAM_APPLY" if "me_param_id_min (a_menu s) < me_param_id (a_menu s)"
  proof -
    have "1 \<le> me_param_id (a_menu s)" using that by (simp add: u8_le_iff u8_less_iff)
    then have "me_param_id (a_menu s) - 1 \<le> me_param_id (a_menu s)"
      by (simp add: u8_le_iff unat_u8_minus)
    then show ?thesis using m by (meson order_trans)
  qed
  ultimately show "avr_inv b (select_param a s)" using set assms by (simp add: select_param_def Let_def)
  show "avr_inv b (select_apply a s)" using set by (simp add: select_apply_def)
qed

lemma inv_menu_schedule: "avr_inv b s \<Longrightarrow> avr_inv b (menu_schedule d s)"
  by (simp add: menu_schedule_def inv_at_schedule inv_at_cancel slot_defs)

lemma inv_menu_render: "avr_inv b s \<Longrightarrow> avr_inv b (menu_render s)"
  by (simp add: menu_render_def inv_flush split: option.split)

lemma inv_query_source: "avr_inv b s \<Longrightarrow> avr_inv b (query_source s)"
  by (simp add: query_source_def Let_def inv_send inv_menu_field)

lemma inv_menu_set_state:
  assumes "avr_inv True s" "v \<le> STATE_VALUE"
  shows "avr_inv True (menu_set_state v s)"
  using assms(1) unfolding menu_set_state_def Let_def
  by (auto intro!: inv_menu_field inv_mode_set inv_flush inv_send assms(2))

lemma inv_menu_start: "avr_inv True s \<Longrightarrow> avr_inv True (menu_start i s)"
proof -
  assume s: "avr_inv True s"
  then have "avr_inv True (menu_reset s)" by (rule inv_menu_field)
  moreover have "mode_get (menu_reset s) \<le> MODE_RADIO"
    using avr_invD(9) [OF calculation] by (simp add: mode_get_def mode_inv_def)
  ultimately show ?thesis
    using s unfolding menu_start_def Let_def
    by (auto intro!: inv_flush inv_send inv_mode_set inv_menu_field)
qed

lemma inv_boot: "avr_inv b s \<Longrightarrow> avr_inv b (boot_pi s)"
  unfolding boot_pi_def by (rule inv_at_schedule) (simp_all add: slot_defs)

lemma inv_menu_perform: "avr_inv b s \<Longrightarrow> avr_inv b (menu_perform p s)"
  by (simp add: menu_perform_def Let_def send_difference_def inv_send inv_flush inv_boot split: prod.split)

lemma inv_menu_stop:
  assumes "avr_inv True s"
  shows "avr_inv True (menu_stop s)"
proof -
  let ?s1 = "if me_state (a_menu s) = STATE_TAG then menu_set_state STATE_VALUE s else s"
  let ?s2 = "flush_shift_drain_stop (menu_perform (stop_param ?s1) ?s1)"
  have "avr_inv True ?s1" using assms inv_menu_set_state [OF assms, of STATE_VALUE] by simp
  then have s2: "avr_inv True ?s2" by (intro inv_flush inv_menu_perform)
  then have "me_backup_mode (a_menu ?s2) \<le> MODE_RADIO" 
    using avr_invD(10) [OF s2, unfolded menu_inv_def] by blast
  then show ?thesis
    unfolding menu_stop_def Let_def by (intro inv_menu_field inv_send inv_mode_set s2)
qed

lemma inv_tag:
  assumes "avr_inv b s"
  shows "avr_inv b (tag_request s)" "avr_inv b (schedule_tag s)"
proof -
  show "avr_inv b (tag_request s)" using assms by (simp add: tag_request_def Let_def inv_send)
  have "avr_inv b (at_schedule AT_MENU_TAG DELAY_TAG Menu_tag_request
      ((at_cancel AT_MENU_TAG s)\<lparr>a_menu := (a_menu (at_cancel AT_MENU_TAG s))\<lparr>me_tag_param := p, me_tag_value := v\<rparr>\<rparr>))"
    for p v
    by (intro inv_at_schedule inv_menu_field inv_at_cancel assms) (simp add: slot_defs)
  then show "avr_inv b (schedule_tag s)"
    using assms by (simp add: schedule_tag_def Let_def)
qed

lemma inv_select_value: "avr_inv b s \<Longrightarrow> avr_inv b (select_value a s)"
  by (simp add: select_value_def Let_def inv_menu_field)

lemma inv_rotor_event:
  assumes "avr_inv True s"
  shows "avr_inv True (menu_handle_rotor i a s)"
proof -
  have param: "rotor_to_param i s \<le> PARAM_APPLY" for s by (simp add: rotor_to_param_def)
  have state: "rotor_to_state i \<le> STATE_VALUE" by (simp add: rotor_to_state_def)
  have "avr_inv True (rotor_same_state i a s)"
    unfolding rotor_same_state_def Let_def
    by (intro inv_menu_render inv_menu_schedule)
      (auto intro!: inv_tag inv_select_value inv_query_source inv_menu_field assms param)
  moreover have "avr_inv True (rotor_new_state i a s)"
    unfolding rotor_new_state_def Let_def
    by (intro inv_menu_render inv_menu_schedule)
      (auto intro!: inv_select_value inv_query_source inv_menu_field inv_menu_set_state inv_menu_start
        assms param state)
  ultimately show ?thesis using assms by (simp add: menu_handle_rotor_def Let_def)
qed

lemma inv_parameter:
  assumes "avr_inv True s"
  shows "avr_inv True (snd (menu_parameter_value p v lo hi s))" "avr_inv True (snd (menu_parameter_name p i s))"
proof -
  show "avr_inv True (snd (menu_parameter_value p v lo hi s))"
    using assms unfolding menu_parameter_value_def Let_def
    by (auto intro!: inv_menu_render inv_menu_schedule inv_menu_field)
  show "avr_inv True (snd (menu_parameter_name p i s))"
    using assms unfolding menu_parameter_name_def Let_def
    by (auto intro!: inv_menu_set_state inv_menu_schedule)
qed

section \<open>The decoder\<close>

lemma inv_decoder_at:
  assumes "avr_inv b s" "decoder_at s d bs t" "decoder_ok d"
  shows "avr_inv b t"
proof -
  obtain q where q: "t = s\<lparr>a_spi := (a_spi s)\<lparr>sp_read_buf := q\<rparr>, a_decode := d\<rparr>" "buffer_ok q"
    using assms(2) by (auto simp: decoder_at_def)
  have "avr_inv b (s\<lparr>a_spi := (a_spi s)\<lparr>sp_read_buf := q\<rparr>\<rparr>)"
    using avr_invD(6) [OF assms(1)] q(2) by (simp add: inv_module(12) [OF assms(1)] avr_link_ok_def)
  from inv_module(4) [OF this] assms(3) show ?thesis by (simp add: q(1))
qed

lemma inv_decode_init: "avr_inv b s \<Longrightarrow> avr_inv b (decode_init s)"
  using avr_invD(7) [of b s] by (simp add: decode_init_def inv_module(4) decoder_ok_def)

lemma inv_decode_dispatch:
  assumes "avr_inv True s"
  shows "avr_inv True (decode_dispatch s)"
  unfolding decode_dispatch_def Let_def answer_status_def case_prod_beta
  by (auto intro!: inv_encode inv_parameter inv_watch inv_mode_set inv_flush inv_heartbeat assms)

text \<open>The header leaves the decoder in one of its five states.\<close>

lemma decode_header_state:
  assumes "avr_link_ok s" "decoder_ok (a_decode s)" "received s \<noteq> []"
  shows "\<exists>d bs. decoder_at s d bs (snd (decode_header s)) \<and> decoder_ok d \<and>
    (fst (decode_header s) \<longrightarrow> de_decoded d = 15)"
proof (cases "de_decoded (a_decode s) = 0 \<and> hd (received s) \<noteq> EYE_CATCH")
  case True
  note at0 = decoder_at_self [OF assms(1)]
  obtain b rest where bs: "received s = b # rest" using assms(3) by (cases "received s") auto
  from read_symbol_at [OF at0 [unfolded bs], of 0] obtain t' where
    t': "spi_read_symbol 0 s = (1, t', b)" "decoder_at s (a_decode s) rest t'" by blast
  then have "decode_header s = (False, t')" using True bs by (simp add: decode_header_def decode_catch_def)
  with t'(2) assms(2) show ?thesis by auto
next
  case False
  have "head_result s (a_decode s) (received s) (decode_header s)"
    by (rule header_result [OF decoder_at_self [OF assms(1)] assms(2)]) (use False assms(3) in auto)
  then show ?thesis by (auto simp: head_result_def)
qed

lemma array_drain_refused: "buffer_array_drain q arr n = (0, q', arr') \<Longrightarrow> q' = q \<and> arr' = arr"
  by (auto simp: buffer_array_drain_def ring_array_drain_def split: if_splits prod.splits)

lemma array_drain_ok:
  assumes "buffer_ok q" "unat n \<le> length arr" "buffer_array_drain q arr n = (status, q', arr')"
  shows "buffer_ok q' \<and> length arr' = length arr"
proof (rule buffer.adrain_cases [OF assms(1,2)])
  assume "buffer_array_drain q arr n = (0, q, arr)"
  then show ?thesis using assms by simp
next
  fix q2
  assume "unat n \<le> length (buffer_held q)" "buffer_ok q2"
    "buffer_array_drain q arr n = (1, q2, take (unat n) (buffer_held q) @ drop (unat n) arr)"
  then show ?thesis using assms by simp
qed

lemma inv_decode_payload:
  assumes "avr_inv True s" "decode_payload s = Some s'"
  shows "avr_inv True s'"
proof -
  let ?d = "a_decode s" and ?q = "sp_read_buf (a_spi s)"
  let ?n = "de_msg_size ?d - 2"
  have q: "buffer_ok ?q" "decoder_ok ?d" using avr_invD(6,7) [OF assms(1)] by (simp_all add: avr_link_ok_def)
  obtain status q' buf where drain: "buffer_array_drain ?q (de_in_buf ?d) ?n = (status, q', buf)"
    by (metis prod.collapse)
  show ?thesis
  proof (cases "status = 0")
    case True
    then have "q' = ?q" using array_drain_refused drain by blast
    then have "s' = s" using assms(2) drain True by (simp add: decode_payload_def spi_read_array_def Let_def)
    then show ?thesis using assms(1) by simp
  next
    case False
    then have small: "\<not> ?n > IN_SIZE"
      using assms(2) drain by (auto simp: decode_payload_def spi_read_array_def Let_def split: if_splits)
    then have n: "unat ?n \<le> length (de_in_buf ?d)" using q(2) by (simp add: decoder_ok_def u8_less_iff)
    from array_drain_ok [OF q(1) n drain] have ok: "buffer_ok q'" "length buf = 26"
      using q(2) by (simp_all add: decoder_ok_def)
    have "decoder_at s (?d\<lparr>de_in_buf := buf\<rparr>) (buffer_held q')
        (de_set (\<lambda>d. d\<lparr>de_in_buf := buf\<rparr>) (s\<lparr>a_spi := (a_spi s)\<lparr>sp_read_buf := q'\<rparr>\<rparr>))"
      using ok(1) by (auto simp: decoder_at_def de_set_def decode_spi_swap)
    then have "avr_inv True (de_set (\<lambda>d. d\<lparr>de_in_buf := buf\<rparr>) (s\<lparr>a_spi := (a_spi s)\<lparr>sp_read_buf := q'\<rparr>\<rparr>))"
      by (rule inv_decoder_at [OF assms(1)]) (use q(2) ok(2) in \<open>simp add: decoder_ok_def\<close>)
    moreover have "s' = decode_init (decode_dispatch (de_set (\<lambda>d. d\<lparr>de_in_buf := buf\<rparr>)
        (s\<lparr>a_spi := (a_spi s)\<lparr>sp_read_buf := q'\<rparr>\<rparr>)))"
      using assms(2) drain False small by (simp add: decode_payload_def spi_read_array_def Let_def)
    ultimately show ?thesis by (simp add: inv_decode_init inv_decode_dispatch)
  qed
qed

lemma inv_decode_try:
  assumes "avr_inv True s" "decode_try s = Some s'"
  shows "avr_inv True s'"
proof (cases "spi_read_size s = 0")
  case True
  then show ?thesis using assms by (simp add: decode_try_def)
next
  case False
  have rec: "received s \<noteq> []"
    using False decoder_at_simps(8) [OF decoder_at_self [OF avr_invD(6) [OF assms(1)]]] by simp
  obtain go t where r: "decode_header s = (go, t)" by fastforce
  from decode_header_state [OF avr_invD(6,7) [OF assms(1)] rec] r
  have t: "avr_inv True t" using inv_decoder_at [OF assms(1)] by auto
  then show ?thesis
    using assms(2) False r inv_decode_payload [OF t] by (auto simp: decode_try_def split: if_splits)
qed

section \<open>The knobs\<close>

lemma inv_event_loop: "avr_inv True s \<Longrightarrow> avr_inv True (snd (event_loop src m ol os n i ma mb st s))"
proof (induction n arbitrary: i ma mb st s)
  case 0
  then show ?case by simp
next
  case (Suc n)
  then show ?case by (auto simp: Let_def inv_rotor_event)
qed

lemma queue_head_ok: "buf_ok q \<Longrightarrow> buf_ok (event_queue_drain n q)"
proof (induction n arbitrary: q)
  case 0
  then show ?case by simp
next
  case (Suc n)
  obtain r q' b where d: "buf_byte_drain q 0 = (r, q', b)" by (metis prod_cases3)
  from Suc.IH [OF buf.drain_ok [OF Suc.prems d]] d show ?case by simp
qed

lemma inv_try_queue:
  assumes "avr_inv True s" "buf_ok q"
  shows "buf_ok (fst (try_queue q i s)) \<and> avr_inv True (snd (try_queue q i s))"
  using assms inv_event_loop [OF assms(1)]
  by (auto simp: try_queue_def handle_event_def queue_head_ok case_prod_beta split: option.split
      simp del: event_queue_drain.simps event_loop.simps)

lemma inv_rotor_try:
  assumes "avr_inv True s"
  shows "avr_inv True (rotor_try s)"
proof -
  have put: "avr_inv True (t\<lparr>a_rotor := (a_rotor t)\<lparr>ro_j_event_buf := q\<rparr>\<rparr>)"
    "avr_inv True (t\<lparr>a_rotor := (a_rotor t)\<lparr>ro_k_event_buf := q\<rparr>\<rparr>)"
    if "buf_ok q" "avr_inv True t" for q t
    using that avr_invD(13) [OF that(2)] by (simp_all add: inv_module(9) [OF that(2)] rotor_inv_def)
  have rings: "buf_ok (ro_j_event_buf (a_rotor t))" "buf_ok (ro_k_event_buf (a_rotor t))"
    if "avr_inv True t" for t
    using avr_invD(13) [OF that] by (simp_all add: rotor_inv_def)
  obtain q t where j: "try_queue (ro_j_event_buf (a_rotor s)) ID_J s = (q, t)" by fastforce
  from inv_try_queue [OF assms rings(1) [OF assms], of ID_J] j have t: "buf_ok q" "avr_inv True t" by simp_all
  let ?t = "t\<lparr>a_rotor := (a_rotor t)\<lparr>ro_j_event_buf := q\<rparr>\<rparr>"
  have t': "avr_inv True ?t" by (rule put(1) [OF t])
  obtain p u where k: "try_queue (ro_k_event_buf (a_rotor ?t)) ID_K ?t = (p, u)" by fastforce
  from inv_try_queue [OF t' rings(2) [OF t'], of ID_K] k have u: "buf_ok p" "avr_inv True u" by simp_all
  show ?thesis
    unfolding rotor_try_def Let_def j prod.case k by (rule put(2) [OF u])
qed

section \<open>Stored functions\<close>

lemma inv_pwm_disable: "avr_inv b s \<Longrightarrow> avr_inv b (counter_pwm_disable i p s)"
  by (simp add: counter_pwm_disable_def counter_pwm_def control_register_clear_def
      control_register_get_def Let_def)

lemma inv_leaf:
  assumes "avr_inv True s"
  shows "avr_inv True (run_leaf cb s)"
  using assms
  by (cases cb) (simp_all add: inv_flush switch_to_watch_def inv_mode_set avr_spi_interrupt_start_def
      misconfirm_def inv_menu_stop inv_tag boot_release_wire_def buzz_stop_def inv_pwm_disable)

lemma inv_at_verify:
  assumes "avr_inv True s"
  shows "avr_inv True (at_verify run_leaf s)"
proof -
  have one: "avr_inv True (at_verify_one run_leaf i t)" if t: "avr_inv True t" for i t
  proof -
    let ?t = "t\<lparr>a_at := (a_at t)\<lparr>at_current := (at_current (a_at t))[i := at_current (a_at t) ! i + 1]\<rparr>\<rparr>"
    have clear: "avr_inv True u \<Longrightarrow> avr_inv True (at_clear i u)" for u
      unfolding at_clear_def by (rule inv_at_update(1)) simp_all
    have "avr_inv True ?t" by (rule inv_at_update(2) [OF t, of No_callback]) simp
    then have "avr_inv True ?t" "avr_inv True (at_clear i (run_leaf (at_callback_array (a_at ?t) ! i) ?t))"
      by (simp_all add: clear inv_leaf)
    then show ?thesis using t by (simp add: at_verify_one_def Let_def inv_cron_disable)
  qed
  have "avr_inv True (fold (at_verify_one run_leaf) is t)" if "avr_inv True t" for "is" t
    using that by (induction "is" arbitrary: t) (simp_all add: one)
  then show ?thesis using assms by (simp add: at_verify_def)
qed

lemma inv_heartbeat_verify:
  assumes "avr_inv True s"
  shows "avr_inv True (heartbeat_verify run_leaf s)"
  unfolding heartbeat_verify_def Let_def
  by (simp add: inv_leaf inv_heartbeat assms)

lemma inv_run_cron: "avr_inv True s \<Longrightarrow> avr_inv True (run_cron cb s)"
  by (cases cb) (simp_all add: inv_at_verify inv_heartbeat_verify inv_leaf del: run_leaf.simps)

section \<open>Interrupts\<close>

text \<open>A tick of the shared timer queues the numbers of jobs only.\<close>

lemma cron_inv_tick:
  assumes "cron_inv c" "n < 4"
  shows "cron_inv (cron_tick_one n c)" "cr_callback_array (cron_tick_one n c) = cr_callback_array c"
proof -
  have q: "buf_ok (cr_queue c)" using assms(1) by (simp add: cron_inv_def)
  have "(of_nat n :: u8) < CRON_ID_MAX" using assms(2) by (simp add: u8_less_iff)
  moreover have "i \<in> set (buf_held (snd (buf_byte_fill (cr_queue c) (of_nat n)))) \<Longrightarrow>
      i \<in> set (buf_held (cr_queue c)) \<or> i = of_nat n" for i
    using buf.fill_held [OF q, of "of_nat n"] by auto
  ultimately have "i \<in> set (buf_held (snd (buf_byte_fill (cr_queue c) (of_nat n)))) \<Longrightarrow> i < CRON_ID_MAX" for i
    using assms(1) by (auto simp: cron_inv_def)
  then show "cron_inv (cron_tick_one n c)" 
    using assms(1) buf.fill_ok [OF q, of "of_nat n"] by (simp add: cron_inv_def cron_tick_one_def Let_def)
  show "cr_callback_array (cron_tick_one n c) = cr_callback_array c"
    by (simp add: cron_tick_one_def Let_def)
qed

lemma inv_cron_interrupt:
  assumes "avr_inv b s"
  shows "avr_inv b (cron_interrupt_function s)"
proof -
  have "cron_inv (fold cron_tick_one is c) \<and>
      cr_callback_array (fold cron_tick_one is c) = cr_callback_array c"
    if "cron_inv c" "\<forall>i \<in> set is. i < 4" for "is" c
    using that by (induction "is" arbitrary: c) (simp_all add: cron_inv_tick)
  from this [OF avr_invD(3) [OF assms], of "[0..<unat CRON_ID_MAX]"]
  show ?thesis
    using avr_invD(5) [OF assms]
    by (simp add: cron_interrupt_function_def inv_module(1) [OF assms] heartbeat_inv_def)
qed

lemma inv_timer_isr:
  assumes "avr_inv b s" "timer_armed s i"
  shows "avr_inv b (timer_isr i s)"
proof -
  let ?c = "a_counter s"
  have c: "counter_inv ?c" "irq_inv s" using avr_invD(1,2) [OF assms(1)] by blast+
  then have q: "buf_ok (ct_invoke_queue ?c)" by (simp add: counter_inv_def)
  have "i \<le> MAX_ID" using assms(2) by (simp add: timer_armed_def)
  moreover have "ct_callback_array ?c ! unat i \<noteq> No_callback" using c(2) assms(2) by (simp add: irq_inv_def)
  ultimately have "counter_inv (?c\<lparr>ct_invoke_queue := snd (buf_byte_fill (ct_invoke_queue ?c) i)\<rparr>)"
    using c(1) buf.fill_ok [OF q, of i] buf.fill_held [OF q, of i] by (auto simp: counter_inv_def)
  moreover have "irq_inv (s\<lparr>a_counter := ?c\<lparr>ct_invoke_queue := k\<rparr>\<rparr>)" for k
    using c(2) by (simp add: irq_inv_def timer_armed_def io_get_def)
  ultimately show ?thesis by (simp add: timer_isr_def inv_module(11) [OF assms(1)])
qed

lemma inv_spi_stc_isr:
  assumes "avr_inv b s"
  shows "avr_inv b (spi_stc_isr s)"
proof -
  have q: "buffer_ok (sp_read_buf (a_spi s))" "buffer_ok (sp_write_buf (a_spi s))"
    using avr_invD(6) [OF assms] by (simp_all add: avr_link_ok_def)
  obtain r rq where f: "buffer_byte_fill (sp_read_buf (a_spi s)) (io_get SPDR s) = (r, rq)" by fastforce
  have rq: "buffer_ok rq" using buffer.fill_ok [OF q(1)] f by (metis snd_conv)
  obtain w wq v where d: "buffer_byte_drain (sp_write_buf (a_spi s)) 0 = (w, wq, v)" by (metis prod_cases3)
  have wq: "buffer_ok wq" by (rule buffer.drain_ok [OF q(2) d])
  show ?thesis
    using rq wq q(2) by (simp add: spi_stc_isr_def f d Let_def interrupt_stop_def inv_module(12) [OF assms])
qed

lemma inv_int3_isr:
  assumes "avr_inv b s"
  shows "avr_inv b (int3_isr s)"
proof -
  have q: "buffer_ok (sp_read_buf (a_spi s))" "buffer_ok (sp_write_buf (a_spi s))"
    using avr_invD(6) [OF assms] by (simp_all add: avr_link_ok_def)
  have "avr_inv b (s\<lparr>a_spi := \<lparr>sp_read_buf = buffer_clear (sp_read_buf (a_spi s)),
      sp_write_buf = buffer_clear (sp_write_buf (a_spi s))\<rparr>\<rparr>)"
    using q by (simp add: inv_module(12) [OF assms] buffer_clear_ok)
  then show ?thesis
    unfolding int3_isr_def Let_def
    by (intro inv_at_schedule inv_encode inv_io(2) [THEN iffD2] inv_decode_init) (simp_all add: slot_defs)
qed

lemma inv_pcint:
  assumes "avr_inv b s"
  shows "avr_inv b (pcint1_isr s)" "avr_inv b (pcint2_isr s)"
  using avr_invD(13) [OF assms]
  by (simp_all add: pcint1_isr_def pcint2_isr_def inv_module(9) [OF assms] rotor_inv_def buf.fill_ok)

section \<open>The steps of the main loop\<close>

lemma inv_cron_try:
  assumes "avr_inv True s"
  shows "avr_inv True (cron_try run_cron s)"
proof -
  let ?c = "a_cron s"
  have c: "cron_inv ?c" by (rule avr_invD [OF assms])
  then have q: "buf_ok (cr_queue ?c)" by (simp add: cron_inv_def)
  obtain r k i where d: "buf_byte_drain (cr_queue ?c) CRON_ID_MAX = (r, k, i)" by (metis prod_cases3)
  have "cron_inv (?c\<lparr>cr_queue := k\<rparr>)"
    using c buf.drain_ok [OF q d] buf.drain_subset(1) [OF q d] by (auto simp: cron_inv_def)
  then have "avr_inv True (s\<lparr>a_cron := ?c\<lparr>cr_queue := k\<rparr>\<rparr>)"
    using avr_invD(5) [OF assms] by (simp add: inv_module(1) [OF assms] heartbeat_inv_def)
  then show ?thesis unfolding cron_try_def d by (simp add: Let_def inv_run_cron)
qed

lemma inv_counter_try:
  assumes "avr_inv True s"
  shows "avr_inv True (counter_try run_counter s)"
proof -
  let ?c = "a_counter s"
  have c: "counter_inv ?c" "irq_inv s" using avr_invD(1,2) [OF assms] by blast+
  then have q: "buf_ok (ct_invoke_queue ?c)" by (simp add: counter_inv_def)
  obtain r k i where d: "buf_byte_drain (ct_invoke_queue ?c) 0 = (r, k, i)" by (metis prod_cases3)
  have "counter_inv (?c\<lparr>ct_invoke_queue := k\<rparr>)"
    using c(1) buf.drain_ok [OF q d] buf.drain_subset(1) [OF q d] by (auto simp: counter_inv_def)
  moreover have "irq_inv (s\<lparr>a_counter := ?c\<lparr>ct_invoke_queue := k\<rparr>\<rparr>)"
    using c(2) by (simp add: irq_inv_def timer_armed_def io_get_def)
  ultimately have s: "avr_inv True (s\<lparr>a_counter := ?c\<lparr>ct_invoke_queue := k\<rparr>\<rparr>)"
    by (simp add: inv_module(11) [OF assms])
  have "avr_inv True (run_counter cb t)" if "avr_inv True t" for cb t
    using that by (cases cb) (simp_all add: inv_cron_interrupt inv_run_cron del: run_cron.simps)
  with s show ?thesis by (simp add: counter_try_def d Let_def)
qed

section \<open>Initialisation\<close>

lemma rings_init:
  "buf_ok q \<Longrightarrow> buf_init q = buf_empty" "buffer_ok r \<Longrightarrow> buffer_init r = buffer_empty"
  by (auto simp: buf_init_empty buffer_init_empty buf_ok_def buffer_ok_def ring_ok_def BUF_SIZE_def
      BUFFER_SIZE_def)

lemma inv_spi_init:
  assumes "avr_inv b s"
  shows "avr_inv b (spi_init s)"
proof -
  let ?s = "io_set SPDR 0 (io_or DDRB (8 OR IRQ_BIT OR CONFIRM_BIT) s)"
  have s: "avr_inv b ?s" using assms by simp
  have "avr_inv b (?s\<lparr>a_spi := \<lparr>sp_read_buf = buffer_init (sp_read_buf (a_spi ?s)),
      sp_write_buf = buffer_init (sp_write_buf (a_spi ?s))\<rparr>\<rparr>)"
    using avr_invD(6) [OF s] unfolding inv_module(12) [OF s] by (simp add: avr_link_ok_def rings_init)
  then show ?thesis
    unfolding spi_init_def misconfirm_def interrupt_stop_def Let_def by simp
qed

lemma inv_counter_init:
  assumes "avr_inv b s" "\<And>i. io_get (TIMSK i) s = 0"
  shows "avr_inv b (counter_init s)"
proof -
  have "counter_inv \<lparr>ct_callback_array = replicate 6 No_callback,
      ct_invoke_queue = buf_init (ct_invoke_queue (a_counter s))\<rparr>"
    using avr_invD(2) [OF assms(1)] null_slots by (simp add: counter_inv_def rings_init)
  then show ?thesis
    using assms(2)
    by (simp add: counter_init_def inv_module(11) [OF assms(1)] irq_inv_def timer_armed_def io_get_def)
qed

lemma inv_cron_init:
  assumes "avr_inv b s"
  shows "avr_inv b (cron_init s)" "cr_callback_array (a_cron (cron_init s)) = replicate 4 No_callback"
  using avr_invD(3) [OF assms] null_slots
  by (simp_all add: cron_init_def inv_module(1) [OF assms] cron_inv_def heartbeat_inv_def rings_init)

lemma inv_at_init: "avr_inv b s \<Longrightarrow> avr_inv b (at_init s)"
  using null_slots by (simp add: at_init_def inv_module(2) at_inv_def)

lemma inv_heartbeat_init:
  "avr_inv b s \<Longrightarrow> cr_callback_array (a_cron s) = replicate 4 No_callback \<Longrightarrow> avr_inv b (heartbeat_init s)"
  by (simp add: heartbeat_init_def inv_module(3) heartbeat_inv_def)

lemma inv_display_init: "avr_inv b s \<Longrightarrow> avr_inv b (snd (display_init c k d s))"
  by (simp add: display_init_def Let_def)

lemma inv_flush_init:
  assumes "avr_inv b s"
  shows "avr_inv b (flush_init s)"
proof -
  have put: "avr_inv b (t\<lparr>a_flush := f\<rparr>)" if "avr_inv b t" "flush_inv f" for t f
    using that by (simp add: inv_module(5))
  have fl: "flush_inv (a_flush t)" if "avr_inv b t" for t by (rule avr_invD [OF that])
  let ?s1 = "s\<lparr>a_flush := (a_flush s)\<lparr>fl_shift_data := buffer_init (fl_shift_data (a_flush s)),
      fl_stable_data := replicate 64 0\<rparr>\<rparr>"
  have s1: "avr_inv b ?s1"
    by (rule put [OF assms]) (use fl [OF assms] in \<open>simp add: flush_inv_def rings_init\<close>)
  obtain l t where l: "display_init 5 3 1 ?s1 = (l, t)" by fastforce
  have t: "avr_inv b t" using inv_display_init [OF s1, of 5 3 1] l by simp
  let ?s2 = "t\<lparr>a_flush := (a_flush t)\<lparr>fl_display_left := l\<rparr>\<rparr>"
  have s2: "avr_inv b ?s2" by (rule put [OF t]) (use fl [OF t] in \<open>simp add: flush_inv_def\<close>)
  obtain r u where r: "display_init 4 2 0 ?s2 = (r, u)" by fastforce
  have u: "avr_inv b u" using inv_display_init [OF s2, of 4 2 0] r by simp
  let ?s3 = "u\<lparr>a_flush := (a_flush u)\<lparr>fl_display_right := r, fl_brightness := FLUSH_BRIGHTNESS_MIN\<rparr>\<rparr>"
  have s3: "avr_inv b ?s3" by (rule put [OF u]) (use fl [OF u] in \<open>simp add: flush_inv_def\<close>)
  have "avr_inv b (flush_brightness_set FLUSH_BRIGHTNESS_MIN ?s3)" by (rule inv_flush [OF s3])
  from inv_flush_field(3) [OF this] show ?thesis
    unfolding flush_init_def Let_def l prod.case r by this
qed

lemma inv_mode_init: "avr_inv b s \<Longrightarrow> avr_inv b (mode_init s)"
  by (simp add: mode_init_def inv_module(6) mode_inv_def)

lemma inv_postpone_init:
  assumes "avr_inv b s"
  shows "avr_inv b (postpone_init s)"
proof -
  have "length (fold (\<lambda>i m. m[i := v]) is xs) = length xs" for "is" and xs :: bytes and v
    by (induction "is" arbitrary: xs) auto
  then show ?thesis
    using avr_invD(6) [OF assms] by (simp add: postpone_init_def inv_module(14) [OF assms] avr_link_ok_def)
qed

lemma inv_rotor_init:
  assumes "avr_inv b s"
  shows "avr_inv b (rotor_init s)"
proof -
  have "avr_inv b (s\<lparr>a_rotor := \<lparr>ro_j_event_buf = buf_init (ro_j_event_buf (a_rotor s)),
      ro_k_event_buf = buf_init (ro_k_event_buf (a_rotor s))\<rparr>\<rparr>)"
    using avr_invD(13) [OF assms] by (simp add: inv_module(9) [OF assms] rotor_inv_def rings_init)
  then show ?thesis by (simp add: rotor_init_def Let_def)
qed

lemma inv_twi_init:
  assumes "avr_inv False s"
  shows "avr_inv False (twi_init s)"
proof -
  have t: "twi_inv False (a_twi s)" by (rule avr_invD [OF assms])
  then have "avr_inv False (twi_set_mode MODE_IDLE s)"
    by (simp add: twi_set_mode_def inv_module(8) [OF assms] twi_inv_def)
  then have a: "avr_inv False (action_reset (twi_set_mode MODE_IDLE s))"
    by (rule inv_action_reset) (simp add: twi_set_mode_def)
  let ?t = "a_twi (action_reset (twi_set_mode MODE_IDLE s))"
  have "twi_inv False (?t\<lparr>tw_address := [0], tw_write_cb := [No_twi_callback],
      tw_read_cb := [No_twi_callback], tw_queue := buffer_init (tw_queue ?t)\<rparr>)"
    using avr_invD(11) [OF a] by (simp add: twi_inv_def rings_init)
  then show ?thesis
    unfolding twi_init_def Let_def inv_module(8) [OF a, symmetric] by simp
qed

text \<open>Registering the slave makes the bus ready for the first request.\<close>

lemma inv_watch_init:
  assumes "avr_inv False s"
  shows "avr_inv True (watch_init s)"
proof -
  have put: "avr_inv False (t\<lparr>a_watch := w\<rparr>)" if "avr_inv False t" "length (wa_buffer w) = 3" for t w
    using that by (simp add: inv_module(10))
  let ?s = "watch_alarm_control 0 (snd (watch_alarm_set 0 0 ((io_or EIMSK 4 (io_or EICRA 48 s))
     \<lparr>a_watch := (a_watch s)\<lparr>wa_buffer := [0, 0, 0]\<rparr>\<rparr>)))"
  have s: "avr_inv False ?s"
    unfolding watch_alarm_control_def watch_alarm_set_def
    by (auto intro!: put simp: assms)
  from avr_invD(11) [OF this]
  have "avr_inv True (snd (twi_slave_r TWI_ID_RTC RTC_ADDRESS Watch_read_callback ?s))"
    by (auto simp: twi_slave_r_def inv_module(8) [OF s] twi_inv_def length_Suc_conv)
  then show ?thesis
    unfolding watch_init_def Let_def twi_write_byte_def watch_set_def
    by (intro inv_twi_write_array) simp_all
qed

lemma avr_inv_start: "avr_inv True (avr_start avr_reset)"
proof -
  let ?s1 = "spi_init (decelerate avr_reset)"
  have "avr_inv False (decelerate avr_reset)" by (simp add: decelerate_def avr_inv_reset)
  then have s1: "avr_inv False ?s1" by (rule inv_spi_init)
  have "io_get (TIMSK i) ?s1 = 0" for i
    by (simp add: spi_init_def misconfirm_def interrupt_stop_def decelerate_def Let_def io_get_def
        io_or_def io_clear_def io_set_def avr_reset_def)
  then have s2: "avr_inv False (counter_init ?s1)" by (rule inv_counter_init [OF s1])
  let ?s3 = "cron_init (counter_init ?s1)"
  let ?s6 = "flush_init (decode_init (at_init ?s3))"
  note s3 = inv_cron_init [OF s2]
  have s6: "avr_inv False ?s6" by (intro inv_flush_init inv_decode_init inv_at_init s3)
  have "a_cron (flush_init t) = a_cron t" for t
    by (simp add: flush_init_def display_init_def flush_brightness_set_def Let_def only_portD [OF only_port_display(7)]
        only_portD [OF only_port_display(6)])
  then have "cr_callback_array (a_cron ?s6) = replicate 4 No_callback"
    using s3(2) by (simp add: decode_init_def at_init_def)
  with s6 have "avr_inv False (heartbeat_init ?s6)" by (rule inv_heartbeat_init)
  then have "avr_inv False (twi_init (rotor_init (menu_init (postpone_init (mode_init (heartbeat_init ?s6))))))"
    unfolding menu_init_def
    by (intro inv_twi_init inv_rotor_init inv_menu_field inv_postpone_init inv_mode_init)
  then show ?thesis
    unfolding avr_start_def avr_init_def Let_def by (intro inv_mode_set inv_watch_init) simp_all
qed

end
