(* ===== verification/Avr_System.thy ===== *)
theory Avr_System
  imports Avr_Memory Avr_Wire
begin

text \<open>
  The firmware as a transition system: the main loop of \<open>src/src/avr/avr.c\<close>, one call after the
  other, and between any two calls the interrupts whose lines are enabled. \<open>reach\<close> is what it can
  get to from power-on, whatever bytes, clock answers and knob positions the outside world offers.
\<close>

section \<open>Steps\<close>

text \<open>The call of the main loop that comes next.\<close>

datatype main_call = Counter_try | Cron_try | Decode_try | Postpone_try | Rotor_try | Twi_try

fun main_step :: "main_call \<times> avr \<Rightarrow> (main_call \<times> avr) option" where
  "main_step (Counter_try, s) = Some (Cron_try, counter_try run_counter s)"
| "main_step (Cron_try, s) = Some (Decode_try, cron_try run_cron s)"
| "main_step (Decode_try, s) = map_option (Pair Postpone_try) (decode_try s)"
| "main_step (Postpone_try, s) = Some (Rotor_try, postpone_try s)"
| "main_step (Rotor_try, s) = Some (Twi_try, rotor_try s)"
| "main_step (Twi_try, s) = Some (Counter_try, twi_try run_twi s)"

text \<open>
  The interrupts, with what the hardware puts into its registers first: the byte that the daemon
  shifted in, the positions of the knobs, the status and the byte of the two wire bus.
\<close>

datatype irq =
    Timer_irq u8
  | Spi_irq u8
  | Confirm_irq
  | Clock_irq
  | Knob_j_irq u8
  | Knob_k_irq u8
  | Twi_irq u8 u8

fun irq_enabled :: "irq \<Rightarrow> avr \<Rightarrow> bool" where
  "irq_enabled (Timer_irq i) s = timer_armed s i"
| "irq_enabled _ s = True"

fun run_irq :: "irq \<Rightarrow> avr \<Rightarrow> avr" where
  "run_irq (Timer_irq i) s = timer_isr i s"
| "run_irq (Spi_irq b) s = spi_stc_isr (io_set SPDR b s)"
| "run_irq Confirm_irq s = int3_isr s"
| "run_irq Clock_irq s = int2_isr s"
| "run_irq (Knob_j_irq v) s = pcint1_isr (io_set PINJ v s)"
| "run_irq (Knob_k_irq v) s = pcint2_isr (io_set PINK v s)"
| "run_irq (Twi_irq status b) s = twi_isr (io_set TWDR b (io_set TWSR status s))"

inductive reach :: "main_call \<times> avr \<Rightarrow> bool" where
  start: "reach (Counter_try, avr_start avr_reset)"
| step: "reach c \<Longrightarrow> main_step c = Some c' \<Longrightarrow> reach c'"
| interrupt: "reach (k, s) \<Longrightarrow> irq_enabled i s \<Longrightarrow> reach (k, run_irq i s)"

text \<open>Six steps without an interrupt are a round of the main loop.\<close>

lemma round_steps:
  "avr_round s = map_option snd (Option.bind (Option.bind (Option.bind (Option.bind (Option.bind
     (main_step (Counter_try, s)) main_step) main_step) main_step) main_step) main_step)"
  by (cases "decode_try (cron_try run_cron (counter_try run_counter s))") (simp_all add: avr_round_def Let_def)

section \<open>The memory stays well formed\<close>

lemma inv_main_step:
  assumes "avr_inv True s" "main_step (k, s) = Some (k', s')"
  shows "avr_inv True s'"
  using assms
  by (cases k) (auto simp: inv_counter_try inv_cron_try inv_decode_try inv_postpone_try inv_rotor_try
      inv_twi_try)

lemma inv_run_irq:
  assumes "avr_inv True s" "irq_enabled i s"
  shows "avr_inv True (run_irq i s)"
  using assms
  by (cases i) (simp_all add: inv_timer_isr inv_spi_stc_isr inv_int3_isr inv_watch inv_pcint inv_twi_isr)

lemma reach_inv: "reach c \<Longrightarrow> avr_inv True (snd c)"
proof (induction rule: reach.induct)
  case start
  then show ?case using avr_inv_start by simp
next
  case (step c c')
  obtain k s k' s' where "c = (k, s)" "c' = (k', s')" by (metis surj_pair)
  with step show ?case using inv_main_step by simp
next
  case (interrupt k s i)
  then show ?case by (simp add: inv_run_irq)
qed

text \<open>
  C2: from power-on on, whatever the daemon sends, the knobs do and the bus answers, and whenever
  interrupts occur: every array of the firmware has its declared length and every ring is well formed,
  every mode, state and menu entry is one of its enumeration, every function pointer is null or
  the function of its slot, a timer that may interrupt has a function, and the queue of the
  two wire bus consists of whole requests to a registered slave.
\<close>

theorem firmware_memory_inv:
  assumes "reach (k, s)"
  shows "avr_inv True s"
  using reach_inv [OF assms] by simp

lemma firmware_memory_inv_witness:
  "avr_inv True (run_irq (Spi_irq 7) (run_irq Confirm_irq (cron_try run_cron (counter_try run_counter (avr_start avr_reset)))))"
  by (rule firmware_memory_inv, rule interrupt [OF interrupt], rule step [of "(Cron_try, s)" for s],
      rule step [OF start]) simp_all

section \<open>When a step goes wrong\<close>

lemma header_from:
  assumes "avr_link_ok s" "decoder_ok (a_decode s)" "received s \<noteq> []"
    "seen (a_decode s) @ received s = EYE_CATCH # ys"
  obtains go d bs t where "decode_header s = (go, t)" "decoder_at s d bs t" "decoder_ok d"
    "seen (a_decode s) @ received s = seen d @ bs" "go \<longleftrightarrow> de_decoded d = 15" "\<not> go \<longrightarrow> bs = []"
proof -
  have "head_result s (a_decode s) (received s) (decode_header s)"
    by (rule header_result [OF decoder_at_self [OF assms(1)] assms(2)])
      (use assms(3,4) in \<open>auto simp: seen_def\<close>)
  then show ?thesis using that by (metis head_result_def prod.collapse)
qed

definition oversized :: "bytes \<Rightarrow> bool" where
  "oversized bs \<longleftrightarrow> length bs \<ge> 4 \<and> bs ! 0 = EYE_CATCH \<and> unat (bs ! 1 - 2) > 26
     \<and> unat (bs ! 1 - 2) \<le> length bs - 4"

lemma decode_try_fault:
  assumes "avr_link_ok s" "decoder_ok (a_decode s)"
  shows "decode_try s = None \<longleftrightarrow> oversized (seen (a_decode s) @ received s)"
proof (cases "received s = [] \<or> (de_decoded (a_decode s) = 0 \<and> hd (received s) \<noteq> EYE_CATCH)")
  case True
  have fine: "\<not> oversized (seen (a_decode s) @ received s)"
    using True by (cases "received s") (auto simp: oversized_def seen_def)
  show ?thesis
  proof (cases "received s = []")
    case True
    then show ?thesis
      using fine decoder_at_simps(8) [OF decoder_at_self [OF assms(1)]] by (simp add: decode_try_def)
  next
    case False
    then obtain b bs where b: "received s = b # bs" by (cases "received s") auto
    from read_symbol_at [OF decoder_at_self [OF assms(1), unfolded b], of 0] obtain t' where
      "spi_read_symbol 0 s = (1, t', b)" by blast
    then have "decode_header s = (False, t')"
      using \<open>received s = [] \<or> _\<close> False b by (simp add: decode_header_def decode_catch_def)
    then show ?thesis using fine by (simp add: decode_try_def)
  qed
next
  case False
  then have rec: "received s \<noteq> []" by simp
  have "\<exists>ys. seen (a_decode s) @ received s = EYE_CATCH # ys"
    using False by (cases "received s") (auto simp: seen_def)
  then obtain ys where ys: "seen (a_decode s) @ received s = EYE_CATCH # ys" by blast
  from header_from [OF assms rec ys] obtain go d bs t where h: "decode_header s = (go, t)"
    "decoder_at s d bs t" "decoder_ok d" "seen (a_decode s) @ received s = seen d @ bs"
    "go \<longleftrightarrow> de_decoded d = 15" "\<not> go \<longrightarrow> bs = []" .
  have try1: "decode_try s = (if go then decode_payload t else Some t)"
    using h(1) rec decoder_at_simps(8) [OF decoder_at_self [OF assms(1)]] by (simp add: decode_try_def)
  show ?thesis
  proof (cases go)
    case False
    then have "length (seen d @ bs) \<le> 3" using h(3,5,6) seen_short by simp
    then show ?thesis using False try1 by (simp add: h(4) oversized_def)
  next
    case True
    then have over: "oversized (seen (a_decode s) @ received s) \<longleftrightarrow>
        26 < unat (de_msg_size d - 2) \<and> unat (de_msg_size d - 2) \<le> length bs"
      using h(5) unfolding h(4) by (simp add: oversized_def seen_full)
    show ?thesis
      using payload_waits [OF h(2)] payload_overflows [OF h(2)] payload_dispatches [OF h(2) refl _ _ h(3)]
      unfolding over try1 by (cases "unat (de_msg_size d - 2) \<le> length bs"; force simp: True)
  qed
qed


text \<open>The interrupt of the confirm line starts the link anew.\<close>

lemma timer_keeps [simp]:
  "a_spi (counter_interrupt e i f s) = a_spi s" "a_decode (counter_interrupt e i f s) = a_decode s"
  "a_spi (engage_timer s) = a_spi s" "a_decode (engage_timer s) = a_decode s"
  "a_spi (at_schedule i d cb s) = a_spi s" "a_decode (at_schedule i d cb s) = a_decode s"
proof -
  show irq: "a_spi (counter_interrupt e i f s) = a_spi s" "a_decode (counter_interrupt e i f s) = a_decode s"
    for e i f s
    by (simp_all add: counter_interrupt_def control_register_set_def control_register_clear_def Let_def)
  show engage: "a_spi (engage_timer s) = a_spi s" "a_decode (engage_timer s) = a_decode s" for s
    using irq by (simp_all add: engage_timer_def counter_enable_def counter_register_write_def
        counter_interrupt_enable_def control_register_set_def value_register_get_def Let_def)
  show "a_spi (at_schedule i d cb s) = a_spi s" "a_decode (at_schedule i d cb s) = a_decode s"
    using engage by (simp_all add: at_schedule_def cron_enable_def cron_set_def Let_def)
qed

lemma int3_fresh:
  assumes "avr_link_ok s"
  shows "received (int3_isr s) = []" "de_decoded (a_decode (int3_isr s)) = 0"
proof -
  let ?t = "io_or PORTB CONFIRM_BIT (decode_init (s\<lparr>a_spi := \<lparr>sp_read_buf = buffer_clear (sp_read_buf (a_spi s)),
      sp_write_buf = buffer_clear (sp_write_buf (a_spi s))\<rparr>\<rparr>))"
  let ?u = "encode_msg_1 MSG_ID_VERSION SERIAL_ID_TO_IGNORE PROTOCOL_VERSION ?t"
  have "avr_link_ok ?t" using assms by (simp add: avr_link_ok_def decode_init_def)
  from encode_msg_posted(2) [OF this] have "received ?u = received ?t" by (simp add: posted_def)
  moreover have "off_link ?u = off_link ?t" by (simp add: encode_msg_1_def)
  then have "a_decode ?u = a_decode ?t" by (rule off_link_parts)
  ultimately have u: "received ?u = []" "de_decoded (a_decode ?u) = 0"
    by (simp_all add: received_def decode_init_def)
  show "received (int3_isr s) = []" "de_decoded (a_decode (int3_isr s)) = 0"
    using u unfolding int3_isr_def Let_def by (simp_all add: received_def)
qed

lemma reach_exchange: "reach (k, s) \<Longrightarrow> reach (k, snd (spi_exchange bs s))"
proof (induction bs arbitrary: s)
  case Nil
  then show ?case by simp
next
  case (Cons b bs)
  from interrupt [OF Cons.prems, of "Spi_irq b"] have "reach (k, spi_stc_isr (io_set SPDR b s))" by simp
  from Cons.IH [OF this] show ?case by (simp add: spi_byte_def case_prod_beta)
qed


section \<open>Stored function pointers\<close>

text \<open>The executors with a parameter for what the last pointer of a chain of calls does.\<close>

fun run_cron_with :: "(callback \<Rightarrow> avr \<Rightarrow> avr) \<Rightarrow> callback \<Rightarrow> avr \<Rightarrow> avr" where
  "run_cron_with leaf At_verify s = at_verify leaf s"
| "run_cron_with leaf Heartbeat_verify s = heartbeat_verify leaf s"
| "run_cron_with leaf cb s = leaf cb s"

fun run_counter_with :: "(callback \<Rightarrow> avr \<Rightarrow> avr) \<Rightarrow> callback \<Rightarrow> avr \<Rightarrow> avr" where
  "run_counter_with leaf Cron_interrupt s = cron_interrupt_function s"
| "run_counter_with leaf cb s = run_cron_with leaf cb s"

lemma run_with: "run_cron_with run_leaf cb s = run_cron cb s" "run_counter_with run_leaf cb s = run_counter cb s"
proof -
  show "run_cron_with run_leaf cb s = run_cron cb s" for cb s by (cases cb) simp_all
  then show "run_counter_with run_leaf cb s = run_counter cb s" by (cases cb) simp_all
qed

lemma at_verify_guarded:
  assumes "\<And>cb t. cb \<noteq> No_callback \<Longrightarrow> leaf cb t = leaf' cb t"
  shows "at_verify leaf s = at_verify leaf' s"
proof -
  have "at_verify_one leaf i t = at_verify_one leaf' i t" for i t
    by (simp add: at_verify_one_def Let_def assms)
  then have "at_verify_one leaf = at_verify_one leaf'" by (simp add: fun_eq_iff)
  then show ?thesis by (simp add: at_verify_def)
qed

lemma counter_call:
  assumes "avr_inv True s" "run Cron_interrupt = run' Cron_interrupt"
  shows "counter_try run s = counter_try run' s"
proof -
  let ?c = "a_counter s"
  have c: "counter_inv ?c" by (rule avr_invD [OF assms(1)])
  then have q: "buf_ok (ct_invoke_queue ?c)" "slots_ok timer_slots (ct_callback_array ?c)"
    by (simp_all add: counter_inv_def)
  obtain r k i where d: "buf_byte_drain (ct_invoke_queue ?c) 0 = (r, k, i)" by (metis prod_cases3)
  have "ct_callback_array ?c ! unat i = Cron_interrupt" if "r \<noteq> 0"
  proof -
    have i: "i \<le> MAX_ID" "ct_callback_array ?c ! unat i \<noteq> No_callback"
      using c buf.drain_subset(2) [OF q(1) d that] by (auto simp: counter_inv_def)
    then have "unat i < 6" by (simp add: u8_le_iff MAX_ID_def)
    with slots_nth [OF q(2), of "unat i"] i(2) show ?thesis
      by (auto simp: timer_slots_def nth_Cons' numeral_eq_Suc split: if_splits)
  qed
  then show ?thesis using assms(2) by (simp add: counter_try_def d Let_def)
qed

lemma cron_call:
  assumes "avr_inv True s" "\<And>cb t. cb \<noteq> No_callback \<Longrightarrow> leaf cb t = leaf' cb t"
  shows "cron_try (run_cron_with leaf) s = cron_try (run_cron_with leaf') s"
proof -
  let ?c = "a_cron s"
  have c: "cron_inv ?c" by (rule avr_invD [OF assms(1)])
  then have slots: "slots_ok cron_slots (cr_callback_array ?c)" by (simp add: cron_inv_def)
  obtain r k i where d: "buf_byte_drain (cr_queue ?c) CRON_ID_MAX = (r, k, i)" by (metis prod_cases3)
  let ?s = "s\<lparr>a_cron := ?c\<lparr>cr_queue := k\<rparr>\<rparr>" and ?cb = "cr_callback_array ?c ! unat i"
  have "run_cron_with leaf ?cb ?s = run_cron_with leaf' ?cb ?s" if "i < CRON_ID_MAX" "?cb \<noteq> No_callback"
  proof (cases "?cb = Heartbeat_verify")
    case True
    have "unat i < 4" using that(1) by (simp add: u8_less_iff)
    with slots_nth [OF slots, of "unat i"] True have "unat i = 3"
      by (auto simp: cron_slots_def nth_Cons' split: if_splits)
    then have "unat i = unat CRON_ID_HEARTBEAT" by simp
    then have "hb_report (a_heartbeat s) = Switch_to_watch" "hb_provoke (a_heartbeat s) = Spi_interrupt_start"
      using avr_invD(5) [OF assms(1)] True by (simp_all add: heartbeat_inv_def)
    moreover have "a_heartbeat (heartbeat_cancel t) = a_heartbeat t" for t
      by (simp add: heartbeat_cancel_def cron_disable_def cron_set_def disengage_timer_def
          counter_interrupt_disable_def counter_interrupt_def counter_disable_def
          control_register_clear_def Let_def)
    ultimately show ?thesis using True assms(2) by (simp add: heartbeat_verify_def Let_def)
  next
    case False
    then show ?thesis
      using that(2) assms(2) at_verify_guarded [of leaf leaf', OF assms(2)] by (cases ?cb) simp_all
  qed
  then show ?thesis unfolding cron_try_def d by (auto simp: Let_def simp del: cron_defs)
qed



end
