(* ===== verification/Avr_Modes.thy ===== *)
theory Avr_Modes
  imports Avr_System
begin

text \<open>
  The modes of the firmware (\<open>src/src/avr/mode.c\<close>) and the jobs that belong to them: the display is
  shifted and the heartbeat supervised in the radio mode and only there. Two orders of events after
  which the display is not driven any more.
\<close>

section \<open>What changes a mode or its jobs\<close>

text \<open>The mode, and the periodic jobs without the one of \<open>at.c\<close>.\<close>

definition modes :: "avr \<Rightarrow> mode \<times> callback list" where
  "modes s = (a_mode s, drop 1 (cr_callback_array (a_cron s)))"

lemma modes_cong: "a_mode s' = a_mode s \<Longrightarrow> cr_callback_array (a_cron s') = cr_callback_array (a_cron s) \<Longrightarrow> modes s' = modes s"
  by (simp add: modes_def)

lemma modes_io [simp]: "modes (io_set r v s) = modes s" "modes (io_or r v s) = modes s" "modes (io_clear r v s) = modes s"
  by (simp_all add: modes_def)

lemma modes_fields [simp]:
  "modes (s\<lparr>a_counter := k\<rparr>) = modes s" "modes (s\<lparr>a_at := a\<rparr>) = modes s" "modes (s\<lparr>a_heartbeat := h\<rparr>) = modes s"
  "modes (s\<lparr>a_decode := d\<rparr>) = modes s" "modes (s\<lparr>a_flush := f\<rparr>) = modes s" "modes (s\<lparr>a_menu := m\<rparr>) = modes s"
  "modes (s\<lparr>a_twi := t\<rparr>) = modes s" "modes (s\<lparr>a_watch := w\<rparr>) = modes s" "modes (s\<lparr>a_rotor := r\<rparr>) = modes s"
  "modes (s\<lparr>a_spi := p\<rparr>) = modes s" "modes (s\<lparr>a_cron := (a_cron s)\<lparr>cr_queue := q\<rparr>\<rparr>) = modes s"
  by (simp_all add: modes_def)

lemma modes_counter [simp]:
  "modes (counter_enable i p s) = modes s" "modes (counter_disable i s) = modes s"
  "modes (counter_interrupt e i f s) = modes s" "modes (counter_register_write i r lo hi s) = modes s"
  "modes (engage_timer s) = modes s" "modes (disengage_timer s) = modes s"
  by (simp_all add: counter_enable_def counter_disable_def counter_interrupt_def engage_timer_def
      disengage_timer_def counter_interrupt_enable_def counter_interrupt_disable_def
      counter_register_write_def control_register_set_def control_register_clear_def Let_def
      split: prod.split option.split)

lemma modes_pwm [simp]: "modes (counter_pwm_disable i p s) = modes s"
  by (simp add: counter_pwm_disable_def counter_pwm_def control_register_clear_def Let_def)

lemma modes_at [simp]:
  "modes (at_schedule i d cb s) = modes s" "modes (at_cancel i s) = modes s" "modes (at_clear j s) = modes s"
  "modes (boot_pi s) = modes s" "modes (menu_schedule d s) = modes s"
proof -
  have set: "modes (cron_set CRON_ID_AT cb f s) = modes s" for cb f s
    by (simp add: cron_set_def modes_def)
  have cron: "modes (snd (cron_enable CRON_ID_AT f cb s)) = modes s"
    "modes (snd (cron_disable CRON_ID_AT s)) = modes s" for f cb s
    by (simp_all add: cron_enable_def cron_disable_def Let_def set del: cron_defs)
  show clear: "modes (at_clear j s) = modes s" for j s by (simp add: at_clear_def)
  show at: "modes (at_schedule i d cb s) = modes s" "modes (at_cancel i s) = modes s" for i d cb s
    by (simp_all add: at_schedule_def at_cancel_def Let_def cron clear del: cron_defs)
  show "modes (boot_pi s) = modes s" "modes (menu_schedule d s) = modes s"
    by (simp_all add: boot_pi_def menu_schedule_def at)
qed

lemma modes_off_link: "off_link s' = off_link s \<Longrightarrow> modes s' = modes s"
  using off_link_parts(2,7) [of s' s] by (simp add: modes_def)

lemma modes_send [simp]:
  "modes (encode_msg_0 i n s) = modes s" "modes (encode_msg_1 i n p1 s) = modes s"
  "modes (encode_msg_2 i n p1 p2 s) = modes s" "modes (encode_msg_3 i n p1 p2 p3 s) = modes s"
  "modes (send_message_0 j s) = modes s" "modes (send_message_1 j p1 s) = modes s"
  "modes (send_message_2 j p1 p2 s) = modes s" "modes (send_message_3 p sg v s) = modes s"
  "modes (postpone_try s) = modes s" "modes (avr_spi_interrupt_start s) = modes s"
proof -
  show encode: "modes (encode_msg_0 i n s) = modes s" "modes (encode_msg_1 i n p1 s) = modes s"
    "modes (encode_msg_2 i n p1 p2 s) = modes s" "modes (encode_msg_3 i n p1 p2 p3 s) = modes s"
    for i n p1 p2 p3 s
    by (rule modes_off_link, simp add: encode_msg_0_def encode_msg_1_def encode_msg_2_def encode_msg_3_def)+
  show "modes (send_message_0 j s) = modes s" "modes (send_message_1 j p1 s) = modes s"
    "modes (send_message_2 j p1 p2 s) = modes s" "modes (send_message_3 p sg v s) = modes s"
    by (simp_all add: send_message_0_def send_message_1_def send_message_2_def send_message_3_def encode)
  show "modes (postpone_try s) = modes s"
    by (rule modes_off_link) (simp add: postpone_try_def Let_def)
  show "modes (avr_spi_interrupt_start s) = modes s" by (simp add: avr_spi_interrupt_start_def)
qed

lemma modes_draw [simp]:
  "modes (flush_dump m s) = modes s" "modes (display_brightness d v s) = modes s"
  "modes (flush_brightness_set b s) = modes s" "modes (flush_shift_display s) = modes s"
  "modes (flush_shift_drain_start s) = modes s" "modes (flush_shift_drain_stop s) = modes s"
  "modes (flush_stable_display pic s) = modes s" "modes (snd (flush_shift_data arr n s)) = modes s"
proof -
  show draw: "modes (flush_dump m s) = modes s" "modes (display_brightness d v s) = modes s" for m d v s
    by (rule modes_cong, simp_all add: only_portD [OF only_port_dump] only_portD [OF only_port_display(6)])+
  show "modes (flush_brightness_set b s) = modes s" "modes (flush_shift_display s) = modes s"
    "modes (flush_shift_drain_start s) = modes s" "modes (flush_shift_drain_stop s) = modes s"
    "modes (flush_stable_display pic s) = modes s" "modes (snd (flush_shift_data arr n s)) = modes s"
    by (simp_all add: flush_brightness_set_def flush_shift_display_def flush_shift_drain_start_def
        flush_shift_drain_stop_def flush_stable_display_def flush_shift_data_def Let_def draw split: prod.split)
qed

lemma modes_watch [simp]:
  "modes (watch_enable s) = modes s" "modes (watch_disable s) = modes s" "modes (watch_set h m c s) = modes s"
  "modes (int2_isr s) = modes s" "modes (watch_read_callback tag st len v s) = modes s"
  "modes (twi_isr s) = modes s" "modes (twi_try run_twi s) = modes s" "modes (watch_render s) = modes s"
proof -
  have twi: "modes (snd (twi_write_array i tag len reg data s)) = modes s"
    "modes (snd (twi_read_array i tag len reg s)) = modes s" for i tag len reg data s
    by (simp_all add: twi_write_array_def twi_read_array_def twi_enqueue_def split: prod.split)
  show "modes (watch_enable s) = modes s" "modes (watch_disable s) = modes s" "modes (watch_set h m c s) = modes s"
    "modes (int2_isr s) = modes s"
    by (simp_all add: watch_enable_def watch_disable_def watch_set_def int2_isr_def twi_write_byte_def
        twi_read_byte_def twi Let_def)
  show render: "modes (watch_render s) = modes s" for s by (simp add: watch_render_def split: option.split)
  show callback: "modes (watch_read_callback tag st len v s) = modes s" for tag st len v s
    by (simp add: watch_read_callback_def render)
  have run: "modes (run_twi cb tag st len v s) = modes s" for cb tag st len v s
    by (cases cb) (simp_all add: callback)
  show "modes (twi_isr s) = modes s" by (simp add: twi_step_defs Let_def)
  have "modes (action_set s) = modes s"
    by (simp add: action_set_def Let_def split: prod.split list.split)
  then show "modes (twi_try run_twi s) = modes s"
    by (simp add: twi_try_def Let_def run action_reset_def twi_start_def twi_set_mode_def)
qed

section \<open>The jobs of a mode\<close>

lemma modes_cron_set:
  assumes "1 \<le> unat i"
  shows "modes (cron_set i cb f s) = (a_mode s, (snd (modes s))[unat i - 1 := cb])"
  using assms by (simp add: modes_def cron_set_def drop_update_swap)

lemma modes_cron:
  assumes "1 \<le> unat i" "unat i < 4"
  shows "modes (snd (cron_enable i f cb s)) = (a_mode s, (snd (modes s))[unat i - 1 := cb])"
    "modes (snd (cron_disable i s)) = (a_mode s, (snd (modes s))[unat i - 1 := No_callback])"
  using assms modes_cron_set [OF assms(1)]
  by (simp_all add: cron_enable_def cron_disable_def Let_def u8_nat not_le)

definition mode_ok :: "mode \<times> callback list \<Rightarrow> bool" where
  "mode_ok mj \<longleftrightarrow> (case mj of (m, js) \<Rightarrow> length js = 3 \<and>
     (js ! 1 \<noteq> No_callback \<longleftrightarrow> mo_current_mode m = MODE_RADIO) \<and>
     (js ! 2 \<noteq> No_callback \<longleftrightarrow> mo_current_mode m = MODE_RADIO) \<and>
     (mo_current_mode m = MODE_RADIO \<longrightarrow> mo_is_connected m = 1) \<and>
     (mo_current_mode m = MODE_WATCH \<longrightarrow> mo_is_connected m = 0))"

lemma modes_heartbeat [simp]:
  "modes (heartbeat_confirm s) = modes s"
  "modes (heartbeat_cancel s) = (a_mode s, (snd (modes s))[2 := No_callback])"
  "modes (heartbeat_start d l Switch_to_watch Spi_interrupt_start s) = (a_mode s, (snd (modes s))[2 := Heartbeat_verify])"
  by (simp_all add: heartbeat_confirm_def heartbeat_cancel_def heartbeat_start_def modes_cron)

lemma modes_parts: "a_mode s = fst (modes s)"
  by (simp add: modes_def)

lemma modes_set_mode:
  "modes (s\<lparr>a_mode := m\<rparr>) = (m, snd (modes s))" "modes (set_connected c s) = ((fst (modes s))\<lparr>mo_is_connected := c\<rparr>, snd (modes s))"
  by (simp_all add: modes_def set_connected_def)

text \<open>A change of mode sets the jobs, whatever they were before.\<close>

lemma mode_set_switch:
  assumes "length (snd (modes s)) = 3" "mode_get s \<noteq> new"
  shows "mode_ok (modes (mode_set new s)) \<and> mo_current_mode (fst (modes (mode_set new s))) = new"
proof -
  let ?js = "(snd (modes s))[2 := No_callback, 1 := No_callback]"
  let ?t = "snd (cron_disable CRON_ID_FLUSH (heartbeat_cancel (watch_disable s)))"
  have t: "modes ?t = (a_mode s, ?js)"
    using modes_parts [of "heartbeat_cancel (watch_disable s)"] by (simp add: modes_cron modes_parts)
  define u where "u = ?t\<lparr>a_mode := (a_mode ?t)\<lparr>mo_current_mode := new\<rparr>\<rparr>"
  have u: "modes u = ((a_mode s)\<lparr>mo_current_mode := new\<rparr>, ?js)"
    using t modes_parts [of ?t] unfolding u_def modes_set_mode by simp
  define e where "e = snd (cron_enable CRON_ID_FLUSH SLAVE_DELAY Flush_shift_display u)"
  have e: "modes e = ((a_mode s)\<lparr>mo_current_mode := new\<rparr>, ?js[1 := Flush_shift_display])"
    using u modes_parts [of u] unfolding e_def by (simp add: modes_cron)
  have set: "mode_set new s =
      (if new = MODE_WATCH then set_connected 0 (watch_enable u)
       else if new = MODE_RADIO then set_connected 1 (heartbeat_start HB_DELAY HB_MISS Switch_to_watch Spi_interrupt_start e)
       else u)"
    using assms(2) by (simp add: mode_set_def mode_get_def Let_def u_def e_def)
  obtain x y z where js: "snd (modes s) = [x, y, z]" using assms(1) by (auto simp: length_Suc_conv numeral_eq_Suc)
  show ?thesis
    unfolding set using u e modes_parts [of e] by (auto simp: modes_set_mode js mode_ok_def)
qed

lemma mode_set_ok:
  assumes "length (snd (modes s)) = 3" "mode_get s = new \<Longrightarrow> mode_ok (modes s)"
  shows "mode_ok (modes (mode_set new s))"
proof (cases "mode_get s = new")
  case True
  then show ?thesis using assms(2) by (simp add: mode_set_def mode_get_def)
next
  case False
  then show ?thesis using mode_set_switch [OF assms(1)] by blast
qed

lemma mode_ok_set: "mode_ok (modes s) \<Longrightarrow> mode_ok (modes (mode_set new s))"
  by (rule mode_set_ok) (auto simp: mode_ok_def case_prod_beta)

section \<open>Every operation keeps the jobs of the mode\<close>

lemma modes_menu [simp]:
  "modes (me_set_state v s) = modes s" "modes (me_set_param v s) = modes s" "modes (me_set_flag v s) = modes s"
  "modes (set_new_value i v s) = modes s" "modes (menu_set_range i v lo hi s) = modes s"
  "modes (set_param_range w s) = modes s" "modes (menu_reset s) = modes s" "modes (select_param a s) = modes s"
  "modes (select_apply a s) = modes s" "modes (select_value a s) = modes s" "modes (query_source s) = modes s"
  "modes (menu_render s) = modes s" "modes (menu_perform p s) = modes s" "modes (tag_request s) = modes s"
  "modes (schedule_tag s) = modes s"
proof -
  show fields: "modes (me_set_state v s) = modes s" "modes (me_set_param v s) = modes s"
    "modes (me_set_flag v s) = modes s" "modes (set_new_value i v s) = modes s"
    "modes (menu_set_range i v lo hi s) = modes s" "modes (set_param_range w s) = modes s"
    "modes (menu_reset s) = modes s" for v i lo hi w s
    by (simp_all add: me_set_state_def me_set_param_def me_set_flag_def set_new_value_def menu_set_range_def
        set_param_range_def menu_reset_def Let_def)
  show "modes (select_param a s) = modes s" "modes (select_apply a s) = modes s" "modes (select_value a s) = modes s"
    "modes (query_source s) = modes s"
    by (simp_all add: select_param_def select_apply_def select_value_def query_source_def fields Let_def)
  show "modes (menu_render s) = modes s" by (simp add: menu_render_def split: option.split)
  show "modes (menu_perform p s) = modes s"
    by (simp add: menu_perform_def send_difference_def Let_def split: prod.split)
  show "modes (tag_request s) = modes s" "modes (schedule_tag s) = modes s"
    by (simp_all add: tag_request_def schedule_tag_def Let_def)
qed

lemma modal_menu:
  assumes "mode_ok (modes s)"
  shows "mode_ok (modes (menu_set_state v s))" "mode_ok (modes (menu_start i s))" "mode_ok (modes (menu_stop s))"
    "mode_ok (modes (menu_handle_rotor i a s))" "mode_ok (modes (snd (menu_parameter_value p w lo hi s)))"
    "mode_ok (modes (snd (menu_parameter_name p i s)))"
proof -
  have state: "mode_ok (modes (menu_set_state v s))" if "mode_ok (modes s)" for v s
    using that by (simp add: menu_set_state_def Let_def mode_ok_set)
  have start: "mode_ok (modes (menu_start i s))" if "mode_ok (modes s)" for i s
    using that by (simp add: menu_start_def Let_def mode_ok_set)
  show "mode_ok (modes (menu_set_state v s))" "mode_ok (modes (menu_start i s))"
    using assms by (rule state, rule start)
  show "mode_ok (modes (menu_stop s))"
    using assms unfolding menu_stop_def Let_def by (simp add: mode_ok_set state)
  show "mode_ok (modes (menu_handle_rotor i a s))"
    using assms
    by (simp add: menu_handle_rotor_def rotor_same_state_def rotor_new_state_def Let_def state start
        del: menu_state_defs)
  show "mode_ok (modes (snd (menu_parameter_value p w lo hi s)))"
    "mode_ok (modes (snd (menu_parameter_name p i s)))"
    using assms by (simp_all add: menu_parameter_value_def menu_parameter_name_def Let_def state)
qed

lemma modal_decode:
  assumes "mode_ok (modes s)" "decode_try s = Some s'" "avr_inv True s"
  shows "mode_ok (modes s')"
proof -
  have dispatch: "mode_ok (modes (decode_init (decode_dispatch t)))" if "mode_ok (modes t)" for t
    using that
    by (simp add: decode_init_def decode_dispatch_def answer_status_def Let_def case_prod_beta mode_ok_set
        modal_menu del: msg_id_defs)
  have payload: "mode_ok (modes t')" if "mode_ok (modes t)" "decode_payload t = Some t'" for t t'
    using that dispatch
    by (auto simp: decode_payload_def spi_read_array_def de_set_def Let_def split: prod.splits if_splits)
  have "modes (snd (decode_header s)) = modes s" if "received s \<noteq> []"
    using decode_header_state [OF avr_invD(6,7) [OF assms(3)] that]
    by (auto simp: decoder_at_def)
  moreover have "spi_read_size s \<noteq> 0 \<Longrightarrow> received s \<noteq> []"
    using decoder_at_simps(8) [OF decoder_at_self [OF avr_invD(6) [OF assms(3)]]] by simp
  ultimately have "mode_ok (modes (snd (decode_header s)))" if "spi_read_size s \<noteq> 0"
    using assms(1) that by simp
  with payload [of "snd (decode_header s)" s'] show ?thesis
    using assms(1,2) by (auto simp: decode_try_def split: if_splits prod.splits)
qed

lemma modal_rotor:
  assumes "mode_ok (modes s)"
  shows "mode_ok (modes (rotor_try s))"
proof -
  have loop: "mode_ok (modes (snd (event_loop src m ol os n i ma mb st t)))" if "mode_ok (modes t)"
    for src m ol os n i ma mb st t
    using that
  proof (induction n arbitrary: i ma mb st t)
    case (Suc n)
    then show ?case by (auto simp: Let_def modal_menu)
  qed simp
  have queue: "mode_ok (modes (snd (try_queue q i t)))" if "mode_ok (modes t)" for q i t
    using loop [OF that] that
    by (auto simp: try_queue_def handle_event_def case_prod_beta split: option.split
        simp del: event_queue_drain.simps event_loop.simps)
  show ?thesis by (simp add: rotor_try_def Let_def case_prod_beta queue assms)
qed

lemma modal_leaf: "mode_ok (modes s) \<Longrightarrow> mode_ok (modes (run_leaf cb s))"
  by (cases cb) (simp_all add: switch_to_watch_def mode_ok_set misconfirm_def modal_menu boot_release_wire_def
      buzz_stop_def)

lemma modal_at_verify: "mode_ok (modes s) \<Longrightarrow> mode_ok (modes (at_verify run_leaf s))"
proof -
  have cron: "modes (snd (cron_disable CRON_ID_AT t)) = modes t" for t
    by (simp add: cron_disable_def cron_set_def Let_def modes_def [of "_\<lparr>a_cron := _\<rparr>"])
      (simp add: modes_def)
  have one: "mode_ok (modes t) \<Longrightarrow> mode_ok (modes (at_verify_one run_leaf i t))" for i t
    by (simp add: at_verify_one_def Let_def modal_leaf cron del: cron_defs)
  have "mode_ok (modes t) \<Longrightarrow> mode_ok (modes (fold (at_verify_one run_leaf) is t))" for "is" t
    by (induction "is" arbitrary: t) (simp_all add: one)
  then show "mode_ok (modes s) \<Longrightarrow> mode_ok (modes (at_verify run_leaf s))" by (simp add: at_verify_def)
qed

lemma modes_jobs:
  assumes "length (cr_callback_array (a_cron s)) = 4"
  shows "snd (modes s) ! 1 = cr_callback_array (a_cron s) ! 2" "snd (modes s) ! 2 = cr_callback_array (a_cron s) ! 3"
    "length (snd (modes s)) = 3"
proof -
  obtain a b c d where "cr_callback_array (a_cron s) = [a, b, c, d]"
    using assms by (auto simp: length_Suc_conv numeral_eq_Suc)
  then show "snd (modes s) ! 1 = cr_callback_array (a_cron s) ! 2" "snd (modes s) ! 2 = cr_callback_array (a_cron s) ! 3"
    "length (snd (modes s)) = 3"
    by (simp_all add: modes_def)
qed

lemma modal_cron_try:
  assumes "mode_ok (modes s)" "avr_inv True s"
  shows "mode_ok (modes (cron_try run_cron s))"
proof -
  let ?c = "a_cron s"
  have c: "cron_inv ?c" by (rule avr_invD [OF assms(2)])
  then have slots: "slots_ok cron_slots (cr_callback_array ?c)" by (simp add: cron_inv_def)
  obtain r k i where d: "buf_byte_drain (cr_queue ?c) CRON_ID_MAX = (r, k, i)" by (metis prod_cases3)
  let ?s = "s\<lparr>a_cron := ?c\<lparr>cr_queue := k\<rparr>\<rparr>" and ?cb = "cr_callback_array ?c ! unat i"
  have s: "mode_ok (modes ?s)" using assms(1) by simp
  have "mode_ok (modes (run_cron ?cb ?s))" if "i < CRON_ID_MAX"
  proof (cases "?cb = Heartbeat_verify")
    case True
    have "unat i < 4" using that by (simp add: u8_less_iff)
    with slots_nth [OF slots, of "unat i"] True have "unat i = 3"
      by (auto simp: cron_slots_def nth_Cons' split: if_splits)
    then have armed: "snd (modes s) ! 2 \<noteq> No_callback" "length (snd (modes s)) = 3"
      "hb_report (a_heartbeat s) = Switch_to_watch"
      using True modes_jobs [of s] slots_length [OF slots] avr_invD(5) [OF assms(2)]
      by (simp_all add: cron_slots_def heartbeat_inv_def)
    then have radio: "mode_get s = MODE_RADIO"
      using assms(1) by (simp add: mode_ok_def modes_def mode_get_def)
    have beat: "a_heartbeat (heartbeat_cancel t) = a_heartbeat t" for t
      by (simp add: heartbeat_cancel_def cron_disable_def cron_set_def disengage_timer_def
          counter_interrupt_disable_def counter_interrupt_def counter_disable_def
          control_register_clear_def Let_def)
    let ?h = "?s\<lparr>a_heartbeat := (a_heartbeat ?s)\<lparr>hb_current_misses := hb_current_misses (a_heartbeat ?s) + 1\<rparr>\<rparr>"
    have "mode_ok (modes (switch_to_watch (heartbeat_cancel ?h)))"
      unfolding switch_to_watch_def
      by (rule mode_set_ok) (use armed(2) radio modes_parts [of "heartbeat_cancel ?h"] in \<open>simp_all add: mode_get_def\<close>)
    then show ?thesis
      using s armed(3) modal_leaf [of ?h] True
      by (simp add: heartbeat_verify_def Let_def beat)
  next
    case False
    then show ?thesis using s by (cases ?cb) (simp_all add: modal_at_verify modal_leaf del: run_leaf.simps)
  qed
  then show ?thesis using s unfolding cron_try_def d by (auto simp: Let_def simp del: cron_defs)
qed

lemma modes_tick: "modes (cron_interrupt_function s) = modes s"
proof -
  have "cr_callback_array (fold cron_tick_one is c) = cr_callback_array c" for "is" c
    by (induction "is" arbitrary: c) (simp_all add: cron_tick_one_def Let_def)
  then show ?thesis by (simp add: cron_interrupt_function_def modes_def)
qed

lemma modal_counter_try:
  assumes "mode_ok (modes s)" "avr_inv True s"
  shows "mode_ok (modes (counter_try run_counter s))"
proof -
  have "counter_try run_counter s = counter_try (\<lambda>cb. cron_interrupt_function) s"
    by (rule counter_call [OF assms(2)]) (simp add: fun_eq_iff)
  then show ?thesis using assms(1) by (simp add: counter_try_def modes_tick Let_def split: prod.split)
qed

lemma modes_irq: "modes (run_irq i s) = modes s"
  by (cases i) (simp_all add: timer_isr_def spi_stc_isr_def interrupt_stop_def int3_isr_def pcint1_isr_def
      pcint2_isr_def decode_init_def Let_def split: prod.split)

lemma modal_start: "mode_ok (modes (avr_start avr_reset))"
proof -
  have low: "modes (spi_init s) = modes s" "modes (counter_init s) = modes s" "modes (at_init s) = modes s"
    "modes (decode_init s) = modes s" "modes (heartbeat_init s) = modes s" "modes (postpone_init s) = modes s"
    "modes (menu_init s) = modes s" "modes (rotor_init s) = modes s" "modes (twi_init s) = modes s"
    "modes (watch_init s) = modes s" for s
    by (simp_all add: spi_init_def misconfirm_def interrupt_stop_def counter_init_def at_init_def
        decode_init_def heartbeat_init_def postpone_init_def menu_init_def rotor_init_def twi_init_def
        action_reset_def twi_set_mode_def watch_init_def watch_alarm_set_def watch_alarm_control_def
        twi_slave_r_def twi_write_byte_def twi_write_array_def twi_enqueue_def Let_def
        modes_def [of "_\<lparr>a_postpone := _\<rparr>"] split: prod.split)
      (simp_all add: modes_def)
  have start: "modes (display_start c k d s) = modes s" for c k d s
    by (rule modes_cong) (simp_all add: only_portD [OF only_port_display(7)])
  have flush: "modes (flush_init s) = modes s" for s
    by (simp add: flush_init_def display_init_def Let_def start)
  have "modes (cron_init s) = (a_mode s, replicate 3 No_callback)" for s
    by (simp add: modes_def cron_init_def)
  then have "modes (mode_init (heartbeat_init (flush_init (decode_init (at_init (cron_init s)))))) =
      (\<lparr>mo_current_mode = MODE_MENU, mo_is_connected = 0\<rparr>, replicate 3 No_callback)" for s
    by (simp only: mode_init_def modes_set_mode low flush snd_conv)
  then show ?thesis
    unfolding avr_start_def avr_init_def Let_def
    by (intro mode_set_ok) (simp_all only: low modes_parts mode_get_def, simp_all)
qed

text \<open>
  C12: modes and jobs agree at every moment: whatever arrives and whenever interrupts occur, the job that
  shifts the display and the heartbeat that supervises the daemon are armed in the radio mode and
  in no other, and the firmware takes the daemon for connected in the radio mode and not in the
  watch mode.
\<close>

theorem mode_jobs:
  assumes "reach (k, s)"
  shows "(let armed = \<lambda>i. cr_callback_array (a_cron s) ! unat i \<noteq> No_callback;
              radio = (mode_get s = MODE_RADIO)
          in (armed CRON_ID_FLUSH \<longleftrightarrow> radio) \<and> (armed CRON_ID_HEARTBEAT \<longleftrightarrow> radio) \<and>
             (radio \<longrightarrow> mode_is_connnected s = 1) \<and> (mode_get s = MODE_WATCH \<longrightarrow> mode_is_connnected s = 0))"
proof -
  have "mode_ok (modes (snd c))" if "reach c" for c
    using that
  proof (induction rule: reach.induct)
    case start
    then show ?case using modal_start by simp
  next
    case (step c c')
    obtain k s k' s' where c: "c = (k, s)" "c' = (k', s')" by (metis surj_pair)
    have "avr_inv True s" using reach_inv [OF step(1)] c by simp
    then show ?case
      using step(2,3) c
      by (cases k) (auto simp: modal_counter_try modal_cron_try modal_rotor modal_decode)
  next
    case (interrupt k s i)
    then show ?case by (simp add: modes_irq)
  qed
  from this [OF assms] have "mode_ok (modes s)" by simp
  moreover have "cron_inv (a_cron s)" by (rule avr_invD) (use reach_inv [OF assms] in simp)
  then have "length (cr_callback_array (a_cron s)) = 4"
    using slots_length [of cron_slots] by (simp add: cron_inv_def cron_slots_def)
  ultimately show ?thesis
    using modes_jobs [of s] modes_parts [of s]
    by (simp add: mode_ok_def mode_get_def mode_is_connnected_def case_prod_beta)
qed

lemma mode_jobs_witness:
  "mode_get (avr_start avr_reset) = MODE_RADIO \<longleftrightarrow>
     cr_callback_array (a_cron (avr_start avr_reset)) ! 2 \<noteq> No_callback"
  using mode_jobs [OF start] by (simp add: Let_def)

section \<open>Two ways to a display that stands still\<close>

lemma mode_set_off:
  assumes "length (snd (modes s)) = 3" "mode_get s \<noteq> m" "m \<noteq> MODE_RADIO"
  shows "snd (modes (mode_set m s)) ! 1 = No_callback" "snd (modes (mode_set m s)) ! 2 = No_callback"
    "m = MODE_WATCH \<Longrightarrow> mo_is_connected (fst (modes (mode_set m s))) = 0"
proof -
  note ok = mode_set_switch [OF assms(1,2)]
  show "snd (modes (mode_set m s)) ! 1 = No_callback" "snd (modes (mode_set m s)) ! 2 = No_callback"
    "m = MODE_WATCH \<Longrightarrow> mo_is_connected (fst (modes (mode_set m s))) = 0"
    using ok assms(3) by (auto simp: mode_ok_def case_prod_beta)
qed

lemma fst_modes: "mode_get s = mo_current_mode (fst (modes s))" "mode_is_connnected s = mo_is_connected (fst (modes s))"
  by (simp_all add: modes_def mode_get_def mode_is_connnected_def)

text \<open>The menu that closes without having been opened.\<close>

lemma idle_stop:
  assumes "me_state (a_menu s) = STATE_IDLE"
  shows "menu_stop s = menu_reset (send_message_0 MSG_ID_RESUME (mode_set (me_backup_mode (a_menu s)) (flush_shift_drain_stop s)))"
  using assms
  by (simp add: menu_stop_def stop_param_def menu_perform_def flush_shift_drain_stop_def Let_def)

lemma scheduled_callback:
  assumes "length (at_callback_array (a_at s)) = 4"
  shows "at_callback_array (a_at (menu_schedule d s)) ! unat AT_MENU = Menu_stop"
proof -
  have irq: "a_at (counter_interrupt e i f t) = a_at t" for e i f t
    by (simp add: counter_interrupt_def control_register_set_def control_register_clear_def Let_def)
  have timer: "a_at (engage_timer t) = a_at t" "a_at (disengage_timer t) = a_at t" for t
    by (simp_all add: engage_timer_def disengage_timer_def counter_enable_def counter_disable_def
        counter_register_write_def counter_interrupt_enable_def counter_interrupt_disable_def irq
        control_register_set_def control_register_clear_def value_register_get_def Let_def)
  have "length (at_callback_array (a_at (at_cancel AT_MENU s))) = 4"
    using assms by (simp add: at_cancel_def at_clear_def cron_disable_def cron_set_def timer Let_def)
  then show ?thesis
    by (simp add: menu_schedule_def at_schedule_def cron_enable_def cron_set_def timer Let_def u8_le_iff)
qed

text \<open>
  A late answer stops the display: an answer of the daemon to a question of the menu that arrives
  in the radio mode after the menu was left arms the time-out of the menu again, and when that expires
  the firmware goes to the mode of the menu without a menu: no job shifts the display, none supervises
  the daemon, and opening and leaving the menu comes back to the same mode.
\<close>

theorem late_answer_freezes:
  assumes "length (cr_callback_array (a_cron s)) = 4" "length (at_callback_array (a_at s)) = 4"
    "mode_get s = MODE_RADIO" "me_state (a_menu s) = STATE_IDLE" "me_backup_mode (a_menu s) = MODE_MENU"
    "parameter \<in> {PARAMETER_VOLUME, PARAMETER_TRACK, PARAMETER_PLAYLIST}"
  shows "(let s1 = snd (menu_parameter_value parameter v low high s); s2 = menu_stop s1
          in at_callback_array (a_at s1) ! unat AT_MENU = Menu_stop \<and> mode_get s2 = MODE_MENU \<and>
             me_state (a_menu s2) = STATE_IDLE \<and>
             cr_callback_array (a_cron s2) ! unat CRON_ID_FLUSH = No_callback \<and>
             cr_callback_array (a_cron s2) ! unat CRON_ID_HEARTBEAT = No_callback \<and>
             me_backup_mode (a_menu (menu_start ROTOR_VOLUME s2)) = MODE_MENU)"
proof -
  let ?s1 = "snd (menu_parameter_value parameter v low high s)" and ?s2 = "menu_stop (snd (menu_parameter_value parameter v low high s))"
  obtain t where s1: "?s1 = menu_schedule DELAY_SELECT t" "modes t = modes s"
    "a_at t = a_at s" "me_state (a_menu t) = STATE_IDLE" "me_backup_mode (a_menu t) = MODE_MENU"
  proof
    let ?i = "unat (if parameter = PARAMETER_VOLUME then VALUE_VOLUME
        else if parameter = PARAMETER_TRACK then VALUE_TRACK else VALUE_PLAYLIST)"
    let ?t = "me_set_flag (if parameter = PARAMETER_VOLUME then FLAG_VOLUME
        else if parameter = PARAMETER_TRACK then FLAG_TRACK else FLAG_PLAYLIST) (menu_set_range ?i v low high s)"
    show "a_at ?t = a_at s" "modes ?t = modes s" and menu: "me_state (a_menu ?t) = STATE_IDLE"
      "me_backup_mode (a_menu ?t) = MODE_MENU"
      using assms(4,5) by (simp_all add: me_set_flag_def menu_set_range_def)
    show "?s1 = menu_schedule DELAY_SELECT ?t"
      using assms(6) menu by (auto simp: menu_parameter_value_def menu_render_def Let_def)
  qed
  have idle: "me_state (a_menu ?s1) = STATE_IDLE" "me_backup_mode (a_menu ?s1) = MODE_MENU"
    using s1(4,5) by (simp_all add: s1(1))
  let ?u = "flush_shift_drain_stop ?s1"
  have u: "modes ?u = modes s" by (simp add: s1(1,2))
  have len: "length (snd (modes ?u)) = 3" using modes_jobs(3) [OF assms(1)] u by simp
  have "mode_get ?u \<noteq> MODE_MENU" using assms(3) fst_modes(1) u by simp
  note off = mode_set_switch [OF len this] mode_set_off [OF len this]
  have "modes ?s2 = modes (mode_set MODE_MENU ?u)" using idle by (simp add: idle_stop)
  with off have s2: "mo_current_mode (fst (modes ?s2)) = MODE_MENU" "snd (modes ?s2) ! 1 = No_callback"
    "snd (modes ?s2) ! 2 = No_callback" "length (snd (modes ?s2)) = 3"
    by (simp_all add: mode_ok_def case_prod_beta)
  then have "length (cr_callback_array (a_cron ?s2)) = 4" by (simp add: modes_def)
  note jobs = modes_jobs [OF this]
  have same: "mode_set MODE_MENU x = x" if "mode_get x = MODE_MENU" for x
    using that by (simp add: mode_set_def mode_get_def)
  have mode: "mode_get ?s2 = MODE_MENU" using s2(1) fst_modes(1) by simp
  then have "me_backup_mode (a_menu (menu_start ROTOR_VOLUME ?s2)) = MODE_MENU"
    by (simp add: menu_start_def Let_def fst_modes flush_shift_drain_start_def send_message_0_def)
  moreover have "me_state (a_menu ?s2) = STATE_IDLE"
    using idle by (simp add: idle_stop menu_reset_def Let_def)
  moreover have "at_callback_array (a_at ?s1) ! unat AT_MENU = Menu_stop"
    unfolding s1(1) by (rule scheduled_callback) (simp add: s1(3) assms(2))
  ultimately show ?thesis using mode jobs s2(2,3) by (simp add: Let_def)
qed

lemma late_answer_freezes_witness:
  "(let s = avr_reset\<lparr>a_mode := \<lparr>mo_current_mode = MODE_RADIO, mo_is_connected = 1\<rparr>,
       a_cron := (a_cron avr_reset)\<lparr>cr_callback_array := [No_callback, No_callback, Flush_shift_display, Heartbeat_verify]\<rparr>\<rparr>;
      s2 = menu_stop (snd (menu_parameter_value PARAMETER_VOLUME 7 0 100 s))
    in mode_get s2 = MODE_MENU \<and> cr_callback_array (a_cron s2) ! 3 = No_callback)"
  using late_answer_freezes [of "avr_reset\<lparr>a_mode := \<lparr>mo_current_mode = MODE_RADIO, mo_is_connected = 1\<rparr>,
       a_cron := (a_cron avr_reset)\<lparr>cr_callback_array := [No_callback, No_callback, Flush_shift_display, Heartbeat_verify]\<rparr>\<rparr>"
      PARAMETER_VOLUME 7 0 100]
  by (simp add: avr_reset_def mode_get_def Let_def)

lemma menu_perform_menu: "a_menu (menu_perform p s) = a_menu s"
  by (simp add: menu_perform_def send_difference_def Let_def brightness_set_effect split: prod.split)



end
