(* ===== verification/Avr_Preempt.thy ===== *)
theory Avr_Preempt
  imports Avr_Memory
begin

text \<open>
  The clock's interrupt in the middle of a request to the two wire bus. The rings of \<open>ring.c\<close> are
  accessed in atomic blocks, but \<open>twi_write_array\<close> of \<open>src/src/avr/twi.c\<close> fills its request into
  the queue byte by byte, each in an atomic block of its own, while the interrupt routine of
  \<open>src/src/avr/watch.c\<close> fills three requests into the same queue.
\<close>

text \<open>The write of one register, with the interrupt after \<open>k\<close> of the five bytes.\<close>

definition twi_write_byte_at :: "nat \<Rightarrow> u8 \<Rightarrow> u8 \<Rightarrow> u8 \<Rightarrow> u8 \<Rightarrow> avr \<Rightarrow> avr" where
  "twi_write_byte_at k i tag reg v s =
     (if i \<ge> TWI_ID_SIZE \<or> unat (buffer_space (tw_queue (a_twi s))) < 1 + unat OVERHEAD then int2_isr s
      else let bs = [push_bit 1 1 OR ACTION_WRITE, i, tag, reg, v]
           in case twi_enqueue (take k bs) s of
                (status, s) \<Rightarrow>
                  let s = int2_isr s
                  in if status = 0 then s else snd (twi_enqueue (drop k bs) s))"

text \<open>The bytes of the three reads.\<close>

definition clock_reads :: bytes where
  "clock_reads = [3, TWI_ID_RTC, BUFFER_HOUR, REG_HOUR, 3, TWI_ID_RTC, BUFFER_MINUTE, REG_MINUTE,
     3, TWI_ID_RTC, BUFFER_SECOND, REG_SECOND]"

lemma enqueue_held:
  assumes "buffer_ok (tw_queue (a_twi s))" "length (buffer_held (tw_queue (a_twi s))) + length bs < 255"
  shows "\<exists>q. twi_enqueue bs s = (1, s\<lparr>a_twi := (a_twi s)\<lparr>tw_queue := q\<rparr>\<rparr>) \<and> buffer_ok q \<and>
    buffer_held q = buffer_held (tw_queue (a_twi s)) @ bs"
  using queue_fill_held [OF assms] by (auto simp: twi_enqueue_def)

lemma read_byte_held:
  assumes "buffer_ok (tw_queue (a_twi s))" "length (buffer_held (tw_queue (a_twi s))) + 4 < 255"
  shows "\<exists>q. snd (twi_read_byte TWI_ID_RTC tag reg s) = s\<lparr>a_twi := (a_twi s)\<lparr>tw_queue := q\<rparr>\<rparr> \<and>
    buffer_ok q \<and> buffer_held q = buffer_held (tw_queue (a_twi s)) @ [3, TWI_ID_RTC, tag, reg]"
proof -
  have "length (buffer_held (tw_queue (a_twi s))) + length [3, TWI_ID_RTC, tag, reg] < 255"
    using assms(2) by simp
  from enqueue_held [OF assms(1) this] obtain q where
    q: "twi_enqueue [3, TWI_ID_RTC, tag, reg] s = (1, s\<lparr>a_twi := (a_twi s)\<lparr>tw_queue := q\<rparr>\<rparr>)" "buffer_ok q"
    "buffer_held q = buffer_held (tw_queue (a_twi s)) @ [3, TWI_ID_RTC, tag, reg]" by blast
  have "\<not> buffer_space (tw_queue (a_twi s)) < OVERHEAD"
    using buffer.space_held [OF assms(1)] assms(2) by (simp add: u8_less_iff)
  then have "twi_read_byte TWI_ID_RTC tag reg s = twi_enqueue [3, TWI_ID_RTC, tag, reg] s"
    by (simp add: twi_read_byte_def twi_read_array_def)
  with q show ?thesis by auto
qed

lemma clock_interrupt_held:
  assumes "buffer_ok (tw_queue (a_twi s))" "length (buffer_held (tw_queue (a_twi s))) + 12 < 255"
  shows "\<exists>q. int2_isr s = s\<lparr>a_twi := (a_twi s)\<lparr>tw_queue := q\<rparr>\<rparr> \<and> buffer_ok q \<and>
    buffer_held q = buffer_held (tw_queue (a_twi s)) @ clock_reads"
proof -
  let ?read = "\<lambda>tag reg s. snd (twi_read_byte TWI_ID_RTC tag reg s)"
  obtain q1 where q1: "?read BUFFER_HOUR REG_HOUR s = s\<lparr>a_twi := (a_twi s)\<lparr>tw_queue := q1\<rparr>\<rparr>" "buffer_ok q1"
    "buffer_held q1 = buffer_held (tw_queue (a_twi s)) @ [3, TWI_ID_RTC, BUFFER_HOUR, REG_HOUR]"
    using read_byte_held [OF assms(1)] assms(2) by fastforce
  let ?s1 = "s\<lparr>a_twi := (a_twi s)\<lparr>tw_queue := q1\<rparr>\<rparr>"
  have "buffer_ok (tw_queue (a_twi ?s1))" "length (buffer_held (tw_queue (a_twi ?s1))) + 4 < 255"
    using q1(2,3) assms(2) by simp_all
  from read_byte_held [OF this, of BUFFER_MINUTE REG_MINUTE] obtain q2 where
    q2: "?read BUFFER_MINUTE REG_MINUTE ?s1 = ?s1\<lparr>a_twi := (a_twi ?s1)\<lparr>tw_queue := q2\<rparr>\<rparr>" "buffer_ok q2"
    "buffer_held q2 = buffer_held q1 @ [3, TWI_ID_RTC, BUFFER_MINUTE, REG_MINUTE]" by auto
  let ?s2 = "?s1\<lparr>a_twi := (a_twi ?s1)\<lparr>tw_queue := q2\<rparr>\<rparr>"
  have "buffer_ok (tw_queue (a_twi ?s2))" "length (buffer_held (tw_queue (a_twi ?s2))) + 4 < 255"
    using q1(3) q2(2,3) assms(2) by simp_all
  from read_byte_held [OF this, of BUFFER_SECOND REG_SECOND] obtain q3 where
    "?read BUFFER_SECOND REG_SECOND ?s2 = ?s2\<lparr>a_twi := (a_twi ?s2)\<lparr>tw_queue := q3\<rparr>\<rparr>" "buffer_ok q3"
    "buffer_held q3 = buffer_held q2 @ [3, TWI_ID_RTC, BUFFER_SECOND, REG_SECOND]" by auto
  with q1 q2 show ?thesis unfolding int2_isr_def Let_def by (auto simp: clock_reads_def)
qed

text \<open>The interrupted write: the rest of its bytes lies behind the reads.\<close>

lemma write_at_held:
  assumes "buffer_ok (tw_queue (a_twi s))" "length (buffer_held (tw_queue (a_twi s))) + 17 < 255"
    "bs = [2, TWI_ID_RTC, tag, reg, v]"
  shows "\<exists>q. twi_write_byte_at k TWI_ID_RTC tag reg v s = s\<lparr>a_twi := (a_twi s)\<lparr>tw_queue := q\<rparr>\<rparr> \<and>
    buffer_ok q \<and>
    buffer_held q = buffer_held (tw_queue (a_twi s)) @ take k bs @ clock_reads @ drop k bs"
proof -
  have cut: "length (take k bs) \<le> 5" "length (take k bs) + length (drop k bs) = 5"
    using assms(3) by simp_all
  have "length (buffer_held (tw_queue (a_twi s))) + length (take k bs) < 255" using cut assms(2) by linarith
  from enqueue_held [OF assms(1) this] obtain q1 where
    q1: "twi_enqueue (take k bs) s = (1, s\<lparr>a_twi := (a_twi s)\<lparr>tw_queue := q1\<rparr>\<rparr>)" "buffer_ok q1"
    "buffer_held q1 = buffer_held (tw_queue (a_twi s)) @ take k bs" by blast
  let ?s1 = "s\<lparr>a_twi := (a_twi s)\<lparr>tw_queue := q1\<rparr>\<rparr>"
  have "buffer_ok (tw_queue (a_twi ?s1))" "length (buffer_held (tw_queue (a_twi ?s1))) + 12 < 255"
    using q1(2,3) assms(2) cut by simp_all
  from clock_interrupt_held [OF this] obtain q2 where
    q2: "int2_isr ?s1 = ?s1\<lparr>a_twi := (a_twi ?s1)\<lparr>tw_queue := q2\<rparr>\<rparr>" "buffer_ok q2"
    "buffer_held q2 = buffer_held q1 @ clock_reads" by auto
  let ?s2 = "?s1\<lparr>a_twi := (a_twi ?s1)\<lparr>tw_queue := q2\<rparr>\<rparr>"
  have "length clock_reads = 12" by (simp add: clock_reads_def)
  then have "length (buffer_held q2) + length (drop k bs) < 255" using q1(3) q2(3) assms(2) cut(2) by simp
  then have "buffer_ok (tw_queue (a_twi ?s2))"
    "length (buffer_held (tw_queue (a_twi ?s2))) + length (drop k bs) < 255" using q2(2) by simp_all
  from enqueue_held [OF this] obtain q3 where
    q3: "twi_enqueue (drop k bs) ?s2 = (1, ?s2\<lparr>a_twi := (a_twi ?s2)\<lparr>tw_queue := q3\<rparr>\<rparr>)" "buffer_ok q3"
    "buffer_held q3 = buffer_held q2 @ drop k bs" by auto
  have "\<not> unat (buffer_space (tw_queue (a_twi s))) < 1 + unat OVERHEAD"
    using buffer.space_held [OF assms(1)] assms(2) by simp
  moreover have "[push_bit 1 1 OR ACTION_WRITE, TWI_ID_RTC, tag, reg, v] = bs" using assms(3) by simp
  ultimately have "twi_write_byte_at k TWI_ID_RTC tag reg v s = snd (twi_enqueue (drop k bs) ?s2)"
    using q1(1) q2(1) by (simp add: twi_write_byte_at_def Let_def)
  with q1(3) q2(3) q3 show ?thesis by auto
qed

text \<open>The request that the bus starts with, when the queue begins with a write of one byte.\<close>

lemma starts_write:
  assumes "buffer_ok q" "buffer_held q = 2 # i # tag # reg # b # rest" "tw_mode (a_twi s) = MODE_IDLE"
    "tw_action (a_twi s) = ACTION_IDLE"
  shows "(let t = a_twi (twi_try call (s\<lparr>a_twi := (a_twi s)\<lparr>tw_queue := q\<rparr>\<rparr>))
          in tw_mode t = MODE_WRITE_START \<and> tw_id t = i \<and> tw_reg t = reg \<and> tw_data t ! 0 = b)"
proof -
  from queue_drain_held [OF assms(1), of 4] assms(2) obtain q1 where
    q1: "queue_drain 4 q = ([2, i, tag, reg], q1)" "buffer_ok q1" "buffer_held q1 = b # rest"
    by (auto simp: numeral_eq_Suc)
  from queue_drain_held [OF q1(2), of 1] q1(3) obtain q2 where
    q2: "queue_drain 1 q1 = ([b], q2)" by auto
  have "buffer_size q > 0"
    using buffer.size_held [OF assms(1)] assms(2) by (auto simp: u8_less_iff)
  then show ?thesis
    using q1(1) q2 assms(3,4)
    by (simp add: twi_try_def action_set_def twi_start_def twi_set_mode_def Let_def io_set_def
        del: queue_drain.simps)
qed

text \<open>
  C18: the requests to the two wire bus are not atomic: a write of a register of the clock that its interrupt
  hits between two of its five bytes leaves the queue without whole requests, and only then. The bus
  then starts with an unknown slave (after one byte), whose address and callback are read behind
  the arrays, or writes a wrong register or a wrong value.
\<close>

theorem twi_write_preempted:
  fixes tag reg v :: u8
  assumes "avr_inv True s" "buffer_held (tw_queue (a_twi s)) = []" "tw_mode (a_twi s) = MODE_IDLE"
    "tw_action (a_twi s) = ACTION_IDLE"
  defines "s' \<equiv> (\<lambda>k. twi_write_byte_at k TWI_ID_RTC tag reg v s)"
  shows "(avr_inv True (s' k) \<longleftrightarrow> k = 0 \<or> 5 \<le> k) \<and>
    (let start = \<lambda>k. a_twi (twi_try call (s' k));
         what = \<lambda>k. (tw_mode (start k), tw_id (start k), tw_reg (start k), tw_data (start k) ! 0)
     in what 1 = (MODE_WRITE_START, 3, REG_HOUR, 2) \<and> what 2 = (MODE_WRITE_START, TWI_ID_RTC, 0, 2) \<and>
        what 3 = (MODE_WRITE_START, TWI_ID_RTC, 3, 0) \<and> what 4 = (MODE_WRITE_START, TWI_ID_RTC, reg, 3))"
proof -
  let ?bs = "[2, TWI_ID_RTC, tag, reg, v]"
  have ok: "buffer_ok (tw_queue (a_twi s))" using avr_invD(11) [OF assms(1)] by (simp add: twi_inv_def)
  have held: "\<exists>q. s' k = s\<lparr>a_twi := (a_twi s)\<lparr>tw_queue := q\<rparr>\<rparr> \<and> buffer_ok q \<and>
      buffer_held q = take k ?bs @ clock_reads @ drop k ?bs" for k
    using write_at_held [OF ok _ refl, where tag = tag and reg = reg and v = v and k = k] assms(2) by (simp add: s'_def)
  have whole: "requests (take k ?bs @ clock_reads @ drop k ?bs) \<longleftrightarrow> k = 0 \<or> 5 \<le> k" for k
  proof -
    consider "k = 0" | "k = 1" | "k = 2" | "k = 3" | "k = 4" | "5 \<le> k" by linarith
    then show ?thesis by cases (simp_all add: clock_reads_def request_data_def)
  qed
  have "avr_inv True (s' k) \<longleftrightarrow> k = 0 \<or> 5 \<le> k" for k
  proof -
    from held [of k] obtain q where q: "s' k = s\<lparr>a_twi := (a_twi s)\<lparr>tw_queue := q\<rparr>\<rparr>" "buffer_ok q"
      "requests (buffer_held q) \<longleftrightarrow> k = 0 \<or> 5 \<le> k" using whole by auto
    moreover have "avr_inv True (s\<lparr>a_twi := (a_twi s)\<lparr>tw_queue := q\<rparr>\<rparr>) \<longleftrightarrow> requests (buffer_held q)"
      using avr_invD(11) [OF assms(1)] q(2) by (simp add: inv_module(8) [OF assms(1)] twi_inv_def)
    ultimately show ?thesis by simp
  qed
  moreover have "(let t = a_twi (twi_try call (s' k))
      in tw_mode t = MODE_WRITE_START \<and> tw_id t = i \<and> tw_reg t = r \<and> tw_data t ! 0 = b)"
    if "take k ?bs @ clock_reads @ drop k ?bs = 2 # i # tg # r # b # rest" for k i tg r b rest
  proof -
    from held [of k] that obtain q where "s' k = s\<lparr>a_twi := (a_twi s)\<lparr>tw_queue := q\<rparr>\<rparr>" "buffer_ok q"
      "buffer_held q = 2 # i # tg # r # b # rest" by auto
    with starts_write [OF this(2,3) assms(3,4)] show ?thesis by simp
  qed
  from this [of 1] this [of 2] this [of 3] this [of 4]
  have "(let start = \<lambda>k. a_twi (twi_try call (s' k));
         what = \<lambda>k. (tw_mode (start k), tw_id (start k), tw_reg (start k), tw_data (start k) ! 0)
     in what 1 = (MODE_WRITE_START, 3, REG_HOUR, 2) \<and> what 2 = (MODE_WRITE_START, TWI_ID_RTC, 0, 2) \<and>
        what 3 = (MODE_WRITE_START, TWI_ID_RTC, 3, 0) \<and> what 4 = (MODE_WRITE_START, TWI_ID_RTC, reg, 3))"
    by (simp add: clock_reads_def Let_def)
  ultimately show ?thesis by blast
qed

lemma twi_write_preempted_witness:
  "let s = snd (twi_slave_r TWI_ID_RTC RTC_ADDRESS Watch_read_callback avr_reset);
       s' = twi_write_byte_at 1 TWI_ID_RTC 0 REG_CONTROL REG_VALUE_DISABLE s
   in \<not> avr_inv True s' \<and> tw_id (a_twi (twi_try run_twi s')) = 3"
proof -
  let ?s = "snd (twi_slave_r TWI_ID_RTC RTC_ADDRESS Watch_read_callback avr_reset)"
  have inv: "avr_inv True ?s"
    using avr_invD(11) [OF avr_inv_reset]
    by (auto simp: twi_slave_r_def inv_module(8) [OF avr_inv_reset] twi_inv_def length_Suc_conv)
  have rest: "buffer_held (tw_queue (a_twi ?s)) = []" "tw_mode (a_twi ?s) = MODE_IDLE"
    "tw_action (a_twi ?s) = ACTION_IDLE"
    using avr_invD(11) [OF avr_inv_reset] by (simp_all add: twi_slave_r_def twi_inv_def)
  show ?thesis
    using twi_write_preempted [OF inv rest, where tag = 0 and reg = REG_CONTROL and
        v = REG_VALUE_DISABLE and k = 1 and call = run_twi]
    unfolding Let_def by (auto simp del: One_nat_def)
qed

end
