(* ===== verification/Avr_Clock.thy ===== *)
theory Avr_Clock
  imports Avr_Preempt
begin

text \<open>
  A second of the clock from its interrupt to the display: the interrupt of \<open>src/src/avr/watch.c\<close> queues
  three reads, \<open>twi.c\<close> carries each of them over the two wire bus to the clock, and the callback of
  the last one draws the time. The other side of the bus is the clock as its data sheet has it: it
  answers to its address, takes a register number and gives the register's value.
\<close>

section \<open>The clock on the bus\<close>

text \<open>The codes of an address that nobody acknowledges.\<close>

definition TW_MT_SLA_NACK :: u8 where "TW_MT_SLA_NACK = 0x20"
definition TW_MR_SLA_NACK :: u8 where "TW_MR_SLA_NACK = 0x48"

text \<open>One interrupt of the bus, with its status.\<close>

definition bus_event :: "u8 \<Rightarrow> avr \<Rightarrow> avr" where
  "bus_event code s = twi_isr (io_set TWSR code s)"

text \<open>
  The read of one register, as the clock with the registers \<open>regs\<close> answers to the bytes that the
  controller puts into its data register.
\<close>

definition clock_answers :: "(u8 \<Rightarrow> u8) \<Rightarrow> avr \<Rightarrow> avr" where
  "clock_answers regs s =
     (let s = bus_event TW_START s;
          s = bus_event (if io_get TWDR s = push_bit 1 RTC_ADDRESS then TW_MT_SLA_ACK else TW_MT_SLA_NACK) s;
          reg = io_get TWDR s;
          s = bus_event TW_MT_DATA_ACK s;
          s = bus_event TW_REP_START s;
          s = bus_event (if io_get TWDR s = push_bit 1 RTC_ADDRESS OR 1 then TW_MR_SLA_ACK else TW_MR_SLA_NACK) s
      in bus_event TW_MR_DATA_ACK (io_set TWDR (regs reg) s))"

text \<open>A request: the main loop starts it, the clock answers, the main loop calls the callback.\<close>

definition clock_request :: "(u8 \<Rightarrow> u8) \<Rightarrow> avr \<Rightarrow> avr" where
  "clock_request regs s = twi_try run_twi (clock_answers regs (twi_try run_twi s))"

definition clock_tick :: "(u8 \<Rightarrow> u8) \<Rightarrow> avr \<Rightarrow> avr" where
  "clock_tick regs s = (clock_request regs ^^ 3) (int2_isr s)"

section \<open>One request\<close>

text \<open>A free bus on which the clock is registered.\<close>

definition clock_ready :: "avr \<Rightarrow> bool" where
  "clock_ready s \<longleftrightarrow>
     (let t = a_twi s in
      tw_mode t = MODE_IDLE \<and> tw_action t = ACTION_IDLE \<and> tw_status t = TWI_SUCCESS
      \<and> length (tw_data t) = 128 \<and> buffer_ok (tw_queue t) \<and> tw_address t = [RTC_ADDRESS]
      \<and> tw_read_cb t = [Watch_read_callback]) \<and> length (wa_buffer (a_watch s)) = 3"

definition queued :: "avr \<Rightarrow> bytes" where
  "queued s = buffer_held (tw_queue (a_twi s))"

text \<open>The request on the bus.\<close>

definition read_started :: "u8 \<Rightarrow> u8 \<Rightarrow> avr \<Rightarrow> avr \<Rightarrow> bool" where
  "read_started tag reg s s' \<longleftrightarrow>
     (\<exists>q. buffer_ok q \<and> queued s = [3, TWI_ID_RTC, tag, reg] @ buffer_held q
        \<and> s' = s\<lparr>a_twi := (a_twi s)\<lparr>tw_queue := q, tw_action := ACTION_READ,
                tw_index := 0, tw_max_index := 1, tw_id := TWI_ID_RTC, tw_tag := tag, tw_reg := reg,
                tw_mode := MODE_READ_START\<rparr>, a_io := a_io s'\<rparr>)"

lemma read_starts:
  assumes "clock_ready s" "queued s = [3, TWI_ID_RTC, tag, reg] @ rest"
  shows "read_started tag reg s (twi_try run_twi s)"
proof -
  let ?q = "tw_queue (a_twi s)"
  have ok: "buffer_ok ?q" using assms(1) by (simp add: clock_ready_def Let_def)
  obtain q where q: "queue_drain 4 ?q = ([3, TWI_ID_RTC, tag, reg], q)" "buffer_ok q" "buffer_held q = rest"
    using queue_drain_held [OF ok, of 4] assms(2) by (auto simp: queued_def)
  have "buffer_size ?q > 0"
    using buffer.size_held [OF ok] assms(2) by (simp add: u8_less_iff queued_def)
  then have "twi_try run_twi s = twi_start MODE_READ_START (s\<lparr>a_twi := (a_twi s)\<lparr>tw_queue := q,
      tw_action := ACTION_READ, tw_index := 0, tw_max_index := 1, tw_id := TWI_ID_RTC, tw_tag := tag,
      tw_reg := reg\<rparr>\<rparr>)"
    using assms(1) q(1)
    by (simp add: twi_try_def action_set_def clock_ready_def Let_def del: queue_drain.simps)
  then show ?thesis
    unfolding read_started_def using q(2,3) assms(2)
    by (intro exI [of _ q]) (simp add: twi_start_def twi_set_mode_def io_set_def)
qed

text \<open>
  The interrupts of a read: each sets the mode and the registers of the bus; \<open>d\<close> is the byte that is
  sent.
\<close>

definition bus_moves :: "(twi \<Rightarrow> twi) \<Rightarrow> u8 \<Rightarrow> avr \<Rightarrow> avr \<Rightarrow> bool" where
  "bus_moves f d s s' \<longleftrightarrow> s' = s\<lparr>a_twi := f (a_twi s), a_io := a_io s'\<rparr> \<and> a_io s' TWDR = d"

lemmas read_step_defs = bus_moves_def bus_event_def twi_step_defs io_get_def io_set_def

lemma bus_moves_io:
  assumes "bus_moves f d s s'"
  obtains io where "s' = s\<lparr>a_twi := f (a_twi s), a_io := io\<rparr>" "io TWDR = d"
  using assms by (auto simp: bus_moves_def)

lemma bus_moves_trans:
  assumes "bus_moves f d s s'" "bus_moves g e s' s''"
  shows "bus_moves (\<lambda>t. g (f t)) e s s''"
proof -
  obtain io where s': "s' = s\<lparr>a_twi := f (a_twi s), a_io := io\<rparr>" using bus_moves_io [OF assms(1)] .
  obtain io2 where "s'' = s'\<lparr>a_twi := g (a_twi s'), a_io := io2\<rparr>" "io2 TWDR = e"
    using bus_moves_io [OF assms(2)] .
  then show ?thesis by (simp add: bus_moves_def s')
qed

lemma bus_moves_twi:
  assumes "bus_moves f d s s'"
  shows "a_twi s' = f (a_twi s)" "io_get TWDR s' = d"
proof -
  have "s' = s\<lparr>a_twi := f (a_twi s), a_io := a_io s'\<rparr>" using assms by (simp add: bus_moves_def)
  from arg_cong [OF this, of a_twi] show "a_twi s' = f (a_twi s)" by simp
  show "io_get TWDR s' = d" using assms by (simp add: bus_moves_def io_get_def)
qed

lemma read_events:
  "tw_mode (a_twi s) = MODE_READ_START \<Longrightarrow>
     bus_moves (tw_mode_update (\<lambda>_. MODE_READ_SLAVE)) (push_bit 1 (tw_address (a_twi s) ! unat (tw_id (a_twi s)))) s
       (bus_event TW_START s)"
  "tw_mode (a_twi s) = MODE_READ_SLAVE \<Longrightarrow>
     bus_moves (tw_mode_update (\<lambda>_. MODE_READ_REG)) (tw_reg (a_twi s)) s (bus_event TW_MT_SLA_ACK s)"
  "tw_mode (a_twi s) = MODE_READ_REG \<Longrightarrow>
     bus_moves (tw_mode_update (\<lambda>_. MODE_READ_RESTART)) (io_get TWDR s) s (bus_event TW_MT_DATA_ACK s)"
  "tw_mode (a_twi s) = MODE_READ_RESTART \<Longrightarrow>
     bus_moves (tw_mode_update (\<lambda>_. MODE_READ_RESTART_SLAVE))
       (push_bit 1 (tw_address (a_twi s) ! unat (tw_id (a_twi s))) OR 1) s (bus_event TW_REP_START s)"
  "tw_mode (a_twi s) = MODE_READ_RESTART_SLAVE \<Longrightarrow>
     bus_moves (tw_mode_update (\<lambda>_. MODE_READ_VALUE)) (io_get TWDR s) s (bus_event TW_MR_SLA_ACK s)"
  by (simp_all add: read_step_defs)

lemma read_event_value:
  assumes "tw_mode (a_twi s) = MODE_READ_VALUE" "tw_index (a_twi s) = 0" "tw_max_index (a_twi s) = 1"
  shows "bus_moves (\<lambda>t. t\<lparr>tw_data := (tw_data t)[0 := d], tw_index := 1, tw_mode := MODE_IDLE\<rparr>) d s
    (bus_event TW_MR_DATA_ACK (io_set TWDR d s))"
  using assms by (simp add: read_step_defs)

text \<open>The clock answers: the value of the register lies in the data of the bus.\<close>

lemma clock_read_answered:
  assumes "clock_ready s" "read_started tag reg s s1"
  shows "\<exists>q io. clock_answers regs s1 = s\<lparr>a_twi := (a_twi s)\<lparr>tw_queue := q, tw_action := ACTION_READ,
      tw_index := 1, tw_max_index := 1, tw_id := TWI_ID_RTC, tw_tag := tag, tw_reg := reg,
      tw_mode := MODE_IDLE, tw_data := (tw_data (a_twi s))[0 := regs reg]\<rparr>, a_io := io\<rparr>
    \<and> buffer_ok q \<and> queued s = [3, TWI_ID_RTC, tag, reg] @ buffer_held q"
proof -
  obtain q io where q: "buffer_ok q" "queued s = [3, TWI_ID_RTC, tag, reg] @ buffer_held q"
    and s1: "s1 = s\<lparr>a_twi := (a_twi s)\<lparr>tw_queue := q, tw_action := ACTION_READ,
        tw_index := 0, tw_max_index := 1, tw_id := TWI_ID_RTC, tw_tag := tag, tw_reg := reg,
        tw_mode := MODE_READ_START\<rparr>, a_io := io\<rparr>"
    using assms(2) by (auto simp: read_started_def)
  let ?t = "a_twi s1"
  have t: "tw_mode ?t = MODE_READ_START" "tw_index ?t = 0" "tw_max_index ?t = 1" "tw_reg ?t = reg"
    "tw_address ?t ! unat (tw_id ?t) = RTC_ADDRESS"
    using assms(1) by (simp_all add: s1 clock_ready_def Let_def)
  define s2 where "s2 = bus_event TW_START s1"
  have 2: "bus_moves (tw_mode_update (\<lambda>_. MODE_READ_SLAVE)) (push_bit 1 RTC_ADDRESS) s1 s2"
    using read_events(1) [OF t(1)] unfolding t(5) s2_def .
  define s3 where "s3 = bus_event TW_MT_SLA_ACK s2"
  have 3: "bus_moves (tw_mode_update (\<lambda>_. MODE_READ_REG)) reg s2 s3"
    using read_events(2) [of s2] t(4) unfolding s3_def bus_moves_twi [OF 2] by simp
  define s4 where "s4 = bus_event TW_MT_DATA_ACK s3"
  have 4: "bus_moves (tw_mode_update (\<lambda>_. MODE_READ_RESTART)) reg s3 s4"
    using read_events(3) [of s3] unfolding s4_def bus_moves_twi [OF 3] by simp
  define s5 where "s5 = bus_event TW_REP_START s4"
  have 5: "bus_moves (tw_mode_update (\<lambda>_. MODE_READ_RESTART_SLAVE)) (push_bit 1 RTC_ADDRESS OR 1) s4 s5"
    using read_events(4) [of s4] t(5)
    unfolding s5_def bus_moves_twi [OF 4] bus_moves_twi [OF 3] bus_moves_twi [OF 2] by simp
  define s6 where "s6 = bus_event TW_MR_SLA_ACK s5"
  have 6: "bus_moves (tw_mode_update (\<lambda>_. MODE_READ_VALUE)) (push_bit 1 RTC_ADDRESS OR 1) s5 s6"
    using read_events(5) [of s5] unfolding s6_def bus_moves_twi [OF 5] by simp
  note moves = bus_moves_trans [OF bus_moves_trans [OF bus_moves_trans [OF bus_moves_trans [OF 2 3] 4] 5] 6]
  have "tw_mode (a_twi s6) = MODE_READ_VALUE" "tw_index (a_twi s6) = 0" "tw_max_index (a_twi s6) = 1"
    unfolding bus_moves_twi [OF moves] using t(2,3) by simp_all
  note bus_moves_trans [OF moves read_event_value [OF this, of "regs reg"]]
  moreover have "clock_answers regs s1 = bus_event TW_MR_DATA_ACK (io_set TWDR (regs reg) s6)"
    unfolding clock_answers_def Let_def s2_def [symmetric] bus_moves_twi(2) [OF 2]
    by (simp only: refl if_True s3_def [symmetric] bus_moves_twi(2) [OF 3] s4_def [symmetric]
        s5_def [symmetric] bus_moves_twi(2) [OF 5] s6_def [symmetric])
  ultimately obtain io' where "clock_answers regs s1 = s1\<lparr>a_twi := ?t\<lparr>tw_mode := MODE_READ_VALUE,
      tw_data := (tw_data ?t)[0 := regs reg], tw_index := 1, tw_mode := MODE_IDLE\<rparr>, a_io := io'\<rparr>"
    by (auto elim: bus_moves_io)
  then have "clock_answers regs s1 = s\<lparr>a_twi := (a_twi s)\<lparr>tw_queue := q, tw_action := ACTION_READ,
      tw_index := 1, tw_max_index := 1, tw_id := TWI_ID_RTC, tw_tag := tag, tw_reg := reg,
      tw_mode := MODE_IDLE, tw_data := (tw_data (a_twi s))[0 := regs reg]\<rparr>, a_io := io'\<rparr>"
    by (simp add: s1)
  then show ?thesis using q by blast
qed

section \<open>The callback and the display\<close>

lemma watch_render_watch: "a_watch (watch_render s) = a_watch s"
  by (simp add: watch_render_def flush_stable_display_def only_portD [OF only_port_dump] split: option.split)

lemma reset_length: "length (fold (\<lambda>i d. d[i := 0]) is xs) = length (xs :: bytes)"
  by (induction "is" arbitrary: xs) auto

lemma action_reset_keeps:
  "a_watch (action_reset s) = a_watch s" "a_flush (action_reset s) = a_flush s"
  by (simp_all add: action_reset_def)

text \<open>
  A request leaves the bus free for the next one; the value is in the memory of the watch, and what
  the display shows is drawn from it.
\<close>

lemma clock_request_done:
  assumes "clock_ready s" "queued s = [3, TWI_ID_RTC, tag, reg] @ rest" "tag < 3"
  shows "clock_ready (clock_request regs s) \<and> queued (clock_request regs s) = rest
    \<and> wa_buffer (a_watch (clock_request regs s)) = (wa_buffer (a_watch s))[unat tag := regs reg]
    \<and> (\<exists>t. wa_buffer (a_watch t) = (wa_buffer (a_watch s))[unat tag := regs reg]
        \<and> a_flush (clock_request regs s) = a_flush (watch_render t))"
proof -
  let ?a = "clock_answers regs (twi_try run_twi s)"
  obtain q io where a: "?a = s\<lparr>a_twi := (a_twi s)\<lparr>tw_queue := q, tw_action := ACTION_READ,
      tw_index := 1, tw_max_index := 1, tw_id := TWI_ID_RTC, tw_tag := tag, tw_reg := reg,
      tw_mode := MODE_IDLE, tw_data := (tw_data (a_twi s))[0 := regs reg]\<rparr>, a_io := io\<rparr>"
    "buffer_ok q" "queued s = [3, TWI_ID_RTC, tag, reg] @ buffer_held q"
    using clock_read_answered [OF assms(1) read_starts [OF assms(1,2)]] by blast
  have rest: "buffer_held q = rest" using a(3) assms(2) by simp
  have s: "tw_status (a_twi s) = TWI_SUCCESS" "length (tw_data (a_twi s)) = 128"
    "tw_read_cb (a_twi s) = [Watch_read_callback]" "length (wa_buffer (a_watch s)) = 3"
    "tw_address (a_twi s) = [RTC_ADDRESS]"
    using assms(1) by (simp_all add: clock_ready_def Let_def)
  let ?b = "?a\<lparr>a_watch := (a_watch s)\<lparr>wa_buffer := (wa_buffer (a_watch s))[unat tag := regs reg]\<rparr>\<rparr>"
  have twi: "a_twi ?a = (a_twi s)\<lparr>tw_queue := q, tw_action := ACTION_READ,
      tw_index := 1, tw_max_index := 1, tw_id := TWI_ID_RTC, tw_tag := tag, tw_reg := reg,
      tw_mode := MODE_IDLE, tw_data := (tw_data (a_twi s))[0 := regs reg]\<rparr>" "a_watch ?a = a_watch s"
    unfolding a(1) by simp_all
  have head: "(tw_data (a_twi s))[0 := regs reg] ! 0 = regs reg" using s(2) by simp
  have call: "run_twi Watch_read_callback tag TWI_SUCCESS 1 ((tw_data (a_twi s))[0 := regs reg]) ?a
      = watch_render ?b"
    using assms(3) twi(2) by (simp add: watch_read_callback_def head WATCH_BUFFER_SIZE_def)
  then have r: "clock_request regs s = action_reset (watch_render ?b)"
    by (simp add: clock_request_def twi_try_def [of run_twi ?a] twi(1) s(1,3) del: run_twi.simps)
  have ready: "clock_ready (action_reset (watch_render ?b))"
    using s a(2)
    by (simp add: clock_ready_def action_reset_def watch_render_twi watch_render_watch twi(1) reset_length Let_def)
  have "queued (action_reset (watch_render ?b)) = rest"
    by (simp add: queued_def action_reset_def watch_render_twi twi(1) rest)
  moreover have "wa_buffer (a_watch (watch_render ?b)) = (wa_buffer (a_watch s))[unat tag := regs reg]"
    by (simp add: watch_render_watch)
  moreover have "wa_buffer (a_watch ?b) = (wa_buffer (a_watch s))[unat tag := regs reg]" by simp
  ultimately show ?thesis unfolding r action_reset_keeps using ready by blast
qed

text \<open>
  C25: one second of the clock: with the bus free, its interrupt and the three requests that follow put
  the time that is in the registers of the clock on the display, read over the two wire bus byte by
  byte, and leave the bus free for the next second.
\<close>

theorem clock_tick_shown:
  assumes "clock_ready s" "queued s = []" "h \<le> 23" "m \<le> 59" "sec \<le> 59"
    "regs REG_SECOND = rtc sec RTC_TO RTC_SECOND" "regs REG_MINUTE = rtc m RTC_TO RTC_MINUTE"
    "regs REG_HOUR = rtc h RTC_TO RTC_HOUR"
  shows "(let columns = replicate 10 0 @ number_columns False h @ glyph_columns FONT_COLON
                @ number_columns True m @ glyph_columns FONT_COLON @ number_columns True sec
          in fl_stable_data (a_flush (clock_tick regs s)) = columns @ replicate (64 - length columns) 0
             \<and> clock_ready (clock_tick regs s) \<and> queued (clock_tick regs s) = [])"
proof -
  have "buffer_ok (tw_queue (a_twi s))" using assms(1) by (simp add: clock_ready_def Let_def)
  then obtain q where i: "int2_isr s = s\<lparr>a_twi := (a_twi s)\<lparr>tw_queue := q\<rparr>\<rparr>" "buffer_ok q"
    "buffer_held q = clock_reads"
    using clock_interrupt_held [of s] assms(2) by (auto simp: queued_def)
  let ?r = "clock_request regs" and ?i = "int2_isr s"
  have 0: "clock_ready ?i" "queued ?i = [3, TWI_ID_RTC, BUFFER_HOUR, REG_HOUR]
      @ ([3, TWI_ID_RTC, BUFFER_MINUTE, REG_MINUTE] @ ([3, TWI_ID_RTC, BUFFER_SECOND, REG_SECOND] @ []))"
    using i assms(1) by (simp_all add: clock_ready_def queued_def clock_reads_def Let_def)
  note 1 = clock_request_done [OF 0, of regs]
  note 2 = clock_request_done [of "?r ?i", of BUFFER_MINUTE REG_MINUTE
      "[3, TWI_ID_RTC, BUFFER_SECOND, REG_SECOND] @ []" regs]
  note 3 = clock_request_done [of "?r (?r ?i)", of BUFFER_SECOND REG_SECOND "[]" regs]
  have tick: "clock_tick regs s = ?r (?r (?r ?i))" by (simp add: clock_tick_def numeral_3_eq_3)
  have watch: "wa_buffer (a_watch (?r (?r ?i)))
      = (wa_buffer (a_watch s))[2 := rtc h RTC_TO RTC_HOUR, 1 := rtc m RTC_TO RTC_MINUTE]"
    "clock_ready (?r (?r ?i))" "queued (?r (?r ?i)) = [3, TWI_ID_RTC, BUFFER_SECOND, REG_SECOND] @ []"
    using 1 2 assms(7,8) by (simp_all add: i(1))
  have "length (wa_buffer (a_watch s)) = 3" using assms(1) by (simp add: clock_ready_def Let_def)
  then have "(wa_buffer (a_watch s))[2 := x, 1 := y, 0 := z] = [z, y, x]" for x y z
    by (auto simp: length_Suc_conv numeral_3_eq_3 numeral_2_eq_2)
  then obtain t where t: "wa_buffer (a_watch t) = [rtc sec RTC_TO RTC_SECOND, rtc m RTC_TO RTC_MINUTE, rtc h RTC_TO RTC_HOUR]"
    "a_flush (clock_tick regs s) = a_flush (watch_render t)"
    "clock_ready (clock_tick regs s)" "queued (clock_tick regs s) = []"
    using 3 [OF watch(2,3)] watch(1) assms(6) unfolding tick by auto
  then show ?thesis using watch_shows_time [OF assms(3-5) t(1)] by (simp add: Let_def)
qed

definition clock_registered :: avr where
  "clock_registered = snd (twi_slave_r TWI_ID_RTC RTC_ADDRESS Watch_read_callback avr_reset)"

text \<open>The registers at 9:05:42.\<close>

definition sample_registers :: "u8 \<Rightarrow> u8" where
  "sample_registers r =
     (if r = REG_SECOND then rtc 42 RTC_TO RTC_SECOND
      else if r = REG_MINUTE then rtc 5 RTC_TO RTC_MINUTE else rtc 9 RTC_TO RTC_HOUR)"

lemma clock_tick_shown_witness:
  "(let columns = replicate 10 0 @ number_columns False 9 @ glyph_columns FONT_COLON
          @ number_columns True 5 @ glyph_columns FONT_COLON @ number_columns True 42
    in fl_stable_data (a_flush (clock_tick sample_registers clock_registered))
         = columns @ replicate (64 - length columns) 0
       \<and> clock_ready (clock_tick sample_registers clock_registered)
       \<and> queued (clock_tick sample_registers clock_registered) = [])"
proof -
  have ready: "clock_ready clock_registered"
    by (simp add: clock_ready_def clock_registered_def twi_slave_r_def avr_reset_def buffer_zero_def
        buffer_ok_def ring_ok_def BUFFER_SIZE_def)
  have "queued clock_registered = []"
    by (simp add: queued_def clock_registered_def twi_slave_r_def avr_reset_def buffer_zero_def
        buffer_held_def ring_abs_def)
  from clock_tick_shown [OF ready this, of 9 5 42 sample_registers] show ?thesis
    by (simp add: sample_registers_def REG_SECOND_def REG_MINUTE_def REG_HOUR_def del: mark_defs)
qed

end
