(* ===== verification/Avr_Silence.thy ===== *)
theory Avr_Silence
  imports Avr_Modes Avr_Sched
begin

text \<open>
  A daemon that falls silent: how the ticks of the timer (\<open>counter.c\<close>, \<open>cron.c\<close>), the heartbeat
  (\<open>heartbeat.c\<close>) and the modes (\<open>mode.c\<close>) of the firmware together lead from the radio mode to the
  clock when no message confirms the link.
\<close>

section \<open>What enabling and disabling a job changes\<close>

text \<open>The part of the memory that the silence is about.\<close>

definition beat_view :: "avr \<Rightarrow> mode \<times> heartbeat \<times> cron" where
  "beat_view s = (a_mode s, a_heartbeat s, a_cron s)"

lemma beat_view_iff:
  "beat_view s = (m, h, c) \<longleftrightarrow> a_mode s = m \<and> a_heartbeat s = h \<and> a_cron s = c"
  by (simp add: beat_view_def)

lemma beat_view_io [simp]:
  "beat_view (io_set r v s) = beat_view s" "beat_view (io_or r v s) = beat_view s"
  "beat_view (io_clear r v s) = beat_view s"
  by (simp_all add: beat_view_def io_set_def io_or_def io_clear_def)

lemma beat_view_timer [simp]:
  "beat_view (engage_timer s) = beat_view s" "beat_view (disengage_timer s) = beat_view s"
  by (simp_all add: engage_timer_def disengage_timer_def counter_interrupt_enable_def
      counter_interrupt_disable_def counter_interrupt_def counter_enable_def counter_disable_def
      control_register_set_def control_register_clear_def counter_register_write_def beat_view_def
      io_set_def io_or_def io_clear_def Let_def split: prod.split option.split)

definition job_set :: "nat \<Rightarrow> callback \<Rightarrow> u8 \<Rightarrow> cron \<Rightarrow> cron" where
  "job_set i cb f c = c\<lparr>cr_callback_array := (cr_callback_array c)[i := cb],
     cr_factor_array := (cr_factor_array c)[i := f], cr_counter_array := (cr_counter_array c)[i := 0]\<rparr>"

lemma beat_view_cron:
  assumes "i < CRON_ID_MAX" "beat_view s = (m, h, c)"
  shows "beat_view (snd (cron_enable i f cb s)) = (m, h, job_set (unat i) cb f c)"
    "beat_view (snd (cron_disable i s)) = (m, h, job_set (unat i) No_callback 0 c)"
proof -
  have set_job: "beat_view (cron_set i cb f s) = (m, h, job_set (unat i) cb f c)" for cb f
    using assms(2) by (simp add: beat_view_def cron_set_def job_set_def)
  show "beat_view (snd (cron_enable i f cb s)) = (m, h, job_set (unat i) cb f c)"
    "beat_view (snd (cron_disable i s)) = (m, h, job_set (unat i) No_callback 0 c)"
    using assms(1) set_job by (simp_all add: cron_enable_def cron_disable_def Let_def not_le [symmetric] del: cron_defs)
qed

lemma beat_view_twi [simp]: "beat_view (s\<lparr>a_twi := t\<rparr>) = beat_view s"
  by (simp add: beat_view_def)

lemma beat_view_watch [simp]:
  "beat_view (watch_disable s) = beat_view s" "beat_view (watch_enable s) = beat_view s"
  by (simp_all add: watch_disable_def watch_enable_def twi_write_byte_def twi_write_array_def
      twi_enqueue_def Let_def split: prod.split)

lemma beat_view_flush [simp]: "beat_view (flush_shift_display s) = beat_view s"
  by (simp add: beat_view_def flush_shift_display_def only_portD [OF only_port_dump] split: prod.split)

section \<open>Changes of the mode\<close>

text \<open>Which jobs are armed in the two modes; the first two are none of the modes' business.\<close>

definition radio_view :: "nat \<Rightarrow> avr \<Rightarrow> bool" where
  "radio_view misses s \<longleftrightarrow>
     a_mode s = \<lparr>mo_current_mode = MODE_RADIO, mo_is_connected = 1\<rparr>
     \<and> a_heartbeat s = \<lparr>hb_current_misses = of_nat misses, hb_max_misses = 4, hb_report = Switch_to_watch,
         hb_provoke = Spi_interrupt_start\<rparr>
     \<and> cron_ok (a_cron s) \<and> buf_ok (cr_queue (a_cron s))
     \<and> cr_callback_array (a_cron s) = [No_callback, No_callback, Flush_shift_display, Heartbeat_verify]
     \<and> cr_factor_array (a_cron s) ! 3 = HB_DELAY"

definition watch_view :: "avr \<Rightarrow> bool" where
  "watch_view s \<longleftrightarrow>
     a_mode s = \<lparr>mo_current_mode = MODE_WATCH, mo_is_connected = 0\<rparr>
     \<and> cron_ok (a_cron s) \<and> buf_ok (cr_queue (a_cron s))
     \<and> cr_callback_array (a_cron s) = replicate 4 No_callback"

definition jobs_queued :: "avr \<Rightarrow> bytes" where
  "jobs_queued s = buf_held (cr_queue (a_cron s))"

lemma beat_view_mode:
  assumes "beat_view s = (m, h, c)"
  shows "beat_view (s\<lparr>a_mode := x\<rparr>) = (x, h, c)" "beat_view (s\<lparr>a_heartbeat := y\<rparr>) = (m, y, c)"
    "beat_view (s\<lparr>a_cron := z\<rparr>) = (m, h, z)" "a_mode s = m"
  using assms by (simp_all add: beat_view_def)

lemma mode_cleared:
  assumes "beat_view s = (m, h, c)"
  shows "beat_view (snd (cron_disable CRON_ID_FLUSH (heartbeat_cancel (watch_disable s))))
    = (m, h, job_set 2 No_callback 0 (job_set 3 No_callback 0 c))"
proof -
  have "beat_view (heartbeat_cancel (watch_disable s)) = (m, h, job_set (unat CRON_ID_HEARTBEAT) No_callback 0 c)"
    unfolding heartbeat_cancel_def by (rule beat_view_cron(2)) (simp_all add: assms)
  from beat_view_cron(2) [OF _ this, of CRON_ID_FLUSH] show ?thesis by simp
qed

lemma to_watch:
  assumes "beat_view s = (m, h, c)" "mo_current_mode m \<noteq> MODE_WATCH"
  shows "beat_view (switch_to_watch s) = (\<lparr>mo_current_mode = MODE_WATCH, mo_is_connected = 0\<rparr>, h,
    job_set 2 No_callback 0 (job_set 3 No_callback 0 c))"
proof -
  let ?s = "snd (cron_disable CRON_ID_FLUSH (heartbeat_cancel (watch_disable s)))"
  note c = mode_cleared [OF assms(1)]
  let ?t = "watch_enable (?s\<lparr>a_mode := (a_mode ?s)\<lparr>mo_current_mode := MODE_WATCH\<rparr>\<rparr>)"
  have "beat_view ?t = (m\<lparr>mo_current_mode := MODE_WATCH\<rparr>, h,
      job_set 2 No_callback 0 (job_set 3 No_callback 0 c))"
    unfolding beat_view_watch using beat_view_mode [OF c] by simp
  then have "beat_view (set_connected 0 ?t) = (m\<lparr>mo_current_mode := MODE_WATCH, mo_is_connected := 0\<rparr>, h,
      job_set 2 No_callback 0 (job_set 3 No_callback 0 c))"
    unfolding set_connected_def using beat_view_mode [of ?t] by simp
  moreover have "switch_to_watch s = set_connected 0 ?t"
    using assms by (simp add: switch_to_watch_def mode_set_def beat_view_def Let_def del: cron_defs)
  ultimately show ?thesis by (cases m) simp
qed

lemma to_radio:
  assumes "beat_view s = (m, h, c)" "mo_current_mode m \<noteq> MODE_RADIO"
  shows "beat_view (mode_set MODE_RADIO s) =
    (\<lparr>mo_current_mode = MODE_RADIO, mo_is_connected = 1\<rparr>,
     \<lparr>hb_current_misses = 0, hb_max_misses = 4, hb_report = Switch_to_watch, hb_provoke = Spi_interrupt_start\<rparr>,
     job_set 3 Heartbeat_verify HB_DELAY (job_set 2 Flush_shift_display SLAVE_DELAY
       (job_set 2 No_callback 0 (job_set 3 No_callback 0 c))))"
proof -
  let ?s = "snd (cron_disable CRON_ID_FLUSH (heartbeat_cancel (watch_disable s)))"
  note c = mode_cleared [OF assms(1)]
  let ?c = "job_set 2 No_callback 0 (job_set 3 No_callback 0 c)"
  let ?t = "?s\<lparr>a_mode := (a_mode ?s)\<lparr>mo_current_mode := MODE_RADIO\<rparr>\<rparr>"
  have t: "beat_view ?t = (m\<lparr>mo_current_mode := MODE_RADIO\<rparr>, h, ?c)" using beat_view_mode [OF c] by simp
  let ?u = "snd (cron_enable CRON_ID_FLUSH SLAVE_DELAY Flush_shift_display ?t)"
  have u: "beat_view ?u = (m\<lparr>mo_current_mode := MODE_RADIO\<rparr>, h, job_set 2 Flush_shift_display SLAVE_DELAY ?c)"
    using beat_view_cron(1) [OF _ t, of CRON_ID_FLUSH] by simp
  let ?h = "\<lparr>hb_current_misses = 0, hb_max_misses = 4, hb_report = Switch_to_watch, hb_provoke = Spi_interrupt_start\<rparr>"
  have "beat_view (heartbeat_start HB_DELAY HB_MISS Switch_to_watch Spi_interrupt_start ?u) =
      (m\<lparr>mo_current_mode := MODE_RADIO\<rparr>, ?h, job_set 3 Heartbeat_verify HB_DELAY (job_set 2 Flush_shift_display SLAVE_DELAY ?c))"
    using beat_view_cron(1) [OF _ beat_view_mode(2) [OF u, of ?h], of CRON_ID_HEARTBEAT HB_DELAY Heartbeat_verify]
    by (simp add: heartbeat_start_def PROVOKE_LIMIT_def)
  note w = beat_view_mode [OF this]
  have "mode_set MODE_RADIO s = set_connected 1 (heartbeat_start HB_DELAY HB_MISS Switch_to_watch Spi_interrupt_start ?u)"
    using assms by (simp add: mode_set_def beat_view_def Let_def del: cron_defs)
  then show ?thesis unfolding set_connected_def using w by (cases m) simp
qed

section \<open>One tick and the main loop's part in it\<close>

text \<open>
  A tick of the timer, and \<open>cron_try\<close> of the four rounds of the main loop that at most are needed to
  run what the tick has queued.
\<close>

definition beat_tick :: "avr \<Rightarrow> avr" where
  "beat_tick s = (cron_try run_cron ^^ 4) (run_counter Cron_interrupt s)"

lemma cron_try_none:
  assumes "buf_ok (cr_queue (a_cron s))" "jobs_queued s = []"
  shows "\<exists>q. cron_try run_cron s = s\<lparr>a_cron := (a_cron s)\<lparr>cr_queue := q\<rparr>\<rparr> \<and> buf_ok q \<and> buf_held q = []"
proof -
  obtain q x where "buf_byte_drain (cr_queue (a_cron s)) CRON_ID_MAX = (0, q, x)" "buf_ok q" "buf_held q = []"
    using buf.drain_empty [OF assms(1)] assms(2) assms(1) unfolding jobs_queued_def by auto
  then show ?thesis by (auto simp: cron_try_def)
qed

lemma cron_try_job:
  assumes "buf_ok (cr_queue (a_cron s))" "jobs_queued s = i # js" "i < CRON_ID_MAX"
    "cr_callback_array (a_cron s) ! unat i = cb" "cb \<noteq> No_callback"
  shows "\<exists>q. cron_try run_cron s = run_cron cb (s\<lparr>a_cron := (a_cron s)\<lparr>cr_queue := q\<rparr>\<rparr>)
    \<and> buf_ok q \<and> buf_held q = js"
proof -
  obtain q where "buf_byte_drain (cr_queue (a_cron s)) CRON_ID_MAX = (1, q, i)" "buf_ok q" "buf_held q = js"
    using buf.drain_held [OF assms(1)] assms(2) unfolding jobs_queued_def by auto
  then show ?thesis using assms(3-5) by (auto simp: cron_try_def not_le [symmetric] simp del: cron_defs)
qed

definition beat_counter :: "avr \<Rightarrow> u8" where
  "beat_counter s = cr_counter_array (a_cron s) ! 3"

text \<open>In the radio mode, after so many misses, with these jobs waiting and this count of ticks.\<close>

definition radio_at :: "nat \<Rightarrow> bytes \<Rightarrow> u8 \<Rightarrow> avr \<Rightarrow> bool" where
  "radio_at misses js n s \<longleftrightarrow> radio_view misses s \<and> jobs_queued s = js \<and> beat_counter s = n"

lemma radio_idle:
  assumes "radio_at m [] n s"
  shows "radio_at m [] n (cron_try run_cron s)"
proof -
  have "buf_ok (cr_queue (a_cron s))" "jobs_queued s = []"
    using assms by (simp_all add: radio_at_def radio_view_def)
  from cron_try_none [OF this] show ?thesis
    using assms by (auto simp: radio_at_def radio_view_def jobs_queued_def beat_counter_def cron_ok_def)
qed

lemma radio_flush_job:
  assumes "radio_at m (CRON_ID_FLUSH # js) n s"
  shows "radio_at m js n (cron_try run_cron s)"
proof -
  have s: "radio_view m s" "jobs_queued s = CRON_ID_FLUSH # js" "beat_counter s = n"
    using assms by (simp_all add: radio_at_def)
  have ok: "buf_ok (cr_queue (a_cron s))" using s(1) by (simp add: radio_view_def)
  have job: "CRON_ID_FLUSH < CRON_ID_MAX"
    "cr_callback_array (a_cron s) ! unat CRON_ID_FLUSH = Flush_shift_display"
    using s(1) by (simp_all add: radio_view_def)
  from cron_try_job [OF ok s(2) job(1) job(2)] obtain q where
    q: "cron_try run_cron s = run_cron Flush_shift_display (s\<lparr>a_cron := (a_cron s)\<lparr>cr_queue := q\<rparr>\<rparr>)"
    "buf_ok q" "buf_held q = js" by auto
  let ?t = "s\<lparr>a_cron := (a_cron s)\<lparr>cr_queue := q\<rparr>\<rparr>"
  have view: "beat_view (cron_try run_cron s) = (a_mode s, a_heartbeat s, (a_cron s)\<lparr>cr_queue := q\<rparr>)"
    unfolding q(1) by (simp add: beat_view_def [of ?t])
  show ?thesis
    using s q(2,3) view
    by (simp add: beat_view_iff radio_at_def radio_view_def jobs_queued_def beat_counter_def cron_ok_def)
qed

lemma radio_beat_job:
  assumes "radio_at m (CRON_ID_HEARTBEAT # js) n s" "m < 4"
  shows "if m < 3 then radio_at (Suc m) js n (cron_try run_cron s)
    else watch_view (cron_try run_cron s) \<and> jobs_queued (cron_try run_cron s) = js"
proof -
  have s: "radio_view m s" "jobs_queued s = CRON_ID_HEARTBEAT # js" "beat_counter s = n"
    using assms(1) by (simp_all add: radio_at_def)
  have ok: "buf_ok (cr_queue (a_cron s))" using s(1) by (simp add: radio_view_def)
  have job: "CRON_ID_HEARTBEAT < CRON_ID_MAX"
    "cr_callback_array (a_cron s) ! unat CRON_ID_HEARTBEAT = Heartbeat_verify"
    using s(1) by (simp_all add: radio_view_def)
  from cron_try_job [OF ok s(2) job(1) job(2)] obtain q where
    q: "cron_try run_cron s = run_cron Heartbeat_verify (s\<lparr>a_cron := (a_cron s)\<lparr>cr_queue := q\<rparr>\<rparr>)"
    "buf_ok q" "buf_held q = js" by auto
  let ?c = "(a_cron s)\<lparr>cr_queue := q\<rparr>"
  let ?h = "(a_heartbeat s)\<lparr>hb_current_misses := of_nat (Suc m)\<rparr>"
  let ?t = "s\<lparr>a_cron := ?c, a_heartbeat := ?h\<rparr>"
  have view: "beat_view ?t = (a_mode s, ?h, ?c)" by (simp add: beat_view_def)
  have beat: "hb_max_misses ?h = 4" "hb_report ?h = Switch_to_watch" "hb_provoke ?h = Spi_interrupt_start"
    "hb_current_misses (a_heartbeat s) + 1 = of_nat (Suc m)"
    using s(1) by (simp_all add: radio_view_def)
  have limit: "(4 :: u8) \<le> of_nat (Suc m) \<longleftrightarrow> \<not> m < 3"
    using assms(2) by (simp add: u8_le_iff unat_of_nat_u8 not_less del: of_nat_Suc)
  show ?thesis
  proof (cases "m < 3")
    case True
    have "cron_try run_cron s = (if of_nat (Suc m) > PROVOKE_LIMIT then avr_spi_interrupt_start ?t else ?t)"
      using True limit beat unfolding q(1)
      by (simp add: heartbeat_verify_def Let_def del: of_nat_Suc)
    then have "beat_view (cron_try run_cron s) = (a_mode s, ?h, ?c)"
      using view by (simp add: avr_spi_interrupt_start_def)
    then show ?thesis
      using True s q(2,3)
      by (simp add: beat_view_iff radio_at_def radio_view_def jobs_queued_def beat_counter_def cron_ok_def)
  next
    case False
    have "cron_try run_cron s = switch_to_watch (heartbeat_cancel ?t)"
      using False limit beat unfolding q(1)
      by (simp add: heartbeat_verify_def Let_def del: of_nat_Suc)
    moreover have "beat_view (heartbeat_cancel ?t) = (a_mode s, ?h, job_set 3 No_callback 0 ?c)"
      using beat_view_cron(2) [OF _ view, of CRON_ID_HEARTBEAT] by (simp add: heartbeat_cancel_def)
    ultimately have "beat_view (cron_try run_cron s) = (\<lparr>mo_current_mode = MODE_WATCH, mo_is_connected = 0\<rparr>, ?h,
        job_set 2 No_callback 0 (job_set 3 No_callback 0 (job_set 3 No_callback 0 ?c)))"
      using to_watch [of "heartbeat_cancel ?t"] s(1) by (simp add: radio_view_def)
    then show ?thesis
      using False s q(2,3)
      by (simp add: beat_view_iff watch_view_def radio_view_def jobs_queued_def job_set_def cron_ok_def
          numeral_eq_Suc)
  qed
qed

section \<open>Silence\<close>

text \<open>A tick queues the jobs that are due, the display before the heartbeat.\<close>

lemma radio_tick:
  assumes "radio_at m old n s" "unat n < 50" "length old < 60"
  shows "\<exists>js \<in> {[], [CRON_ID_FLUSH]}. radio_at m (old @ js @ (if unat n = 49 then [CRON_ID_HEARTBEAT] else []))
    (if unat n = 49 then 0 else n + 1) (run_counter Cron_interrupt s)"
proof -
  let ?c = "a_cron s" and ?s = "run_counter Cron_interrupt s"
  have s: "radio_view m s" "buf_held (cr_queue ?c) = old" "cr_counter_array ?c ! 3 = n"
    using assms(1) by (simp_all add: radio_at_def jobs_queued_def beat_counter_def)
  have c: "cron_ok ?c" "buf_ok (cr_queue ?c)"
    "cr_callback_array ?c = [No_callback, No_callback, Flush_shift_display, Heartbeat_verify]"
    "cr_factor_array ?c ! 3 = 50"
    using s(1) by (simp_all add: radio_view_def)
  have tick: "ticked ?c 4 (cron_tick ?c)" by (rule cron_tick_effect [OF c(1,2)]) (simp add: s(2) assms(3))
  have same: "a_mode ?s = a_mode s" "a_heartbeat ?s = a_heartbeat s" "a_cron ?s = cron_tick ?c"
    by (simp_all add: cron_interrupt_function_def cron_tick_def)
  have "unat (n + 1) = Suc (unat n)" using assms(2) by (intro unat_u8_Suc) simp
  then have due: "cron_due ?c 3 \<longleftrightarrow> unat n = 49"
    using assms(2) by (auto simp: cron_due_def c(3,4) s(3) u8_le_iff)
  have four: "[0..<4] = [0, 1, 2, 3 :: nat]" by (simp add: upt_rec)
  have jobs: "filter (cron_due ?c) [0..<4]
      = (if cron_due ?c 2 then [2] else []) @ (if unat n = 49 then [3] else [])"
    using due by (simp add: four cron_due_def [of ?c 0] cron_due_def [of ?c "Suc 0"] c(3))
  have "radio_view m ?s"
    using tick s(1) unfolding radio_view_def same by (simp add: ticked_def)
  moreover have "beat_counter ?s = (if unat n = 49 then 0 else n + 1)"
    using tick due unfolding beat_counter_def same
    by (simp add: ticked_def cron_next_def c(3) s(3))
  moreover have "jobs_queued ?s
      = old @ (if cron_due ?c 2 then [CRON_ID_FLUSH] else []) @ (if unat n = 49 then [CRON_ID_HEARTBEAT] else [])"
    using tick unfolding jobs_queued_def same by (simp add: ticked_def s(2) jobs)
  ultimately show ?thesis unfolding radio_at_def by (intro bexI [of _ "if cron_due ?c 2 then [CRON_ID_FLUSH] else []"]) auto
qed

lemma four_calls: "(f ^^ 4) x = f (f (f (f x)))"
  by (simp add: numeral_eq_Suc)

lemma watch_idle:
  assumes "watch_view s" "jobs_queued s = []"
  shows "watch_view (cron_try run_cron s) \<and> jobs_queued (cron_try run_cron s) = []"
  using cron_try_none [of s] assms by (auto simp: watch_view_def jobs_queued_def cron_ok_def)

lemma watch_tick:
  assumes "watch_view s" "jobs_queued s = []"
  shows "watch_view (beat_tick s) \<and> jobs_queued (beat_tick s) = []"
proof -
  let ?c = "a_cron s" and ?s = "run_counter Cron_interrupt s"
  have c: "cron_ok ?c" "buf_ok (cr_queue ?c)" "buf_held (cr_queue ?c) = []"
    "cr_callback_array ?c = replicate 4 No_callback"
    using assms by (simp_all add: watch_view_def jobs_queued_def)
  have tick: "ticked ?c 4 (cron_tick ?c)" by (rule cron_tick_effect [OF c(1,2)]) (simp add: c(3))
  have same: "a_mode ?s = a_mode s" "a_cron ?s = cron_tick ?c"
    by (simp_all add: cron_interrupt_function_def cron_tick_def)
  have "filter (cron_due ?c) [0..<4] = []" by (simp add: cron_due_def c(4) filter_empty_conv)
  then have "watch_view ?s" "jobs_queued ?s = []"
    using tick assms(1) unfolding watch_view_def jobs_queued_def same by (simp_all add: ticked_def c(3))
  then show ?thesis unfolding beat_tick_def four_calls using watch_idle by blast
qed

lemma radio_beat_tick:
  assumes "radio_at m [] n s" "unat n < 50" "m < 4"
  shows "if unat n < 49 then radio_at m [] (n + 1) (beat_tick s)
    else if m < 3 then radio_at (Suc m) [] 0 (beat_tick s)
    else watch_view (beat_tick s) \<and> jobs_queued (beat_tick s) = []"
proof -
  let ?job = "cron_try run_cron" and ?s = "run_counter Cron_interrupt s"
  let ?n = "if unat n = 49 then 0 else n + 1" and ?js = "if unat n = 49 then [CRON_ID_HEARTBEAT] else []"
  have none: "length ([] :: bytes) < 60" by simp
  obtain js where js: "js = [] \<or> js = [CRON_ID_FLUSH]" "radio_at m (js @ ?js) ?n ?s"
    using radio_tick [OF assms(1,2) none, unfolded append_Nil] by blast
  have beat: "if unat n < 49 then radio_at m [] (n + 1) (?job t) else if m < 3 then radio_at (Suc m) [] 0 (?job t)
      else watch_view (?job t) \<and> jobs_queued (?job t) = []"
    if "radio_at m ?js ?n t" for t
    using that radio_idle [of m "n + 1" t] radio_beat_job [of m "[]" 0 t] assms(2,3)
    by (cases "unat n = 49") (simp_all split: if_splits)
  have stay: "if unat n < 49 then radio_at m [] (n + 1) (?job t) else if m < 3 then radio_at (Suc m) [] 0 (?job t)
      else watch_view (?job t) \<and> jobs_queued (?job t) = []"
    if "if unat n < 49 then radio_at m [] (n + 1) t else if m < 3 then radio_at (Suc m) [] 0 t
      else watch_view t \<and> jobs_queued t = []" for t
    using that radio_idle watch_idle by (auto split: if_splits)
  show ?thesis
  proof (cases "js = []")
    case True
    then have "radio_at m ?js ?n ?s" using js(2) by simp
    from stay [OF stay [OF stay [OF beat [OF this]]]] show ?thesis unfolding beat_tick_def four_calls .
  next
    case False
    then have "radio_at m (CRON_ID_FLUSH # ?js) ?n ?s" using js by simp
    from stay [OF stay [OF beat [OF radio_flush_job [OF this]]]] show ?thesis unfolding beat_tick_def four_calls .
  qed
qed

text \<open>The moment when the radio mode is entered.\<close>

lemma radio_entered:
  assumes "mode_get s \<noteq> MODE_RADIO" "cron_ok (a_cron s)" "buf_ok (cr_queue (a_cron s))" "jobs_queued s = []"
    "cr_callback_array (a_cron s) ! 0 = No_callback" "cr_callback_array (a_cron s) ! 1 = No_callback"
  shows "radio_at 0 [] 0 (mode_set MODE_RADIO s)"
proof -
  obtain a b c d where "cr_callback_array (a_cron s) = [a, b, c, d]"
    using assms(2) by (auto simp: cron_ok_def length_Suc_conv numeral_eq_Suc)
  then have "cr_callback_array (a_cron s) = [No_callback, No_callback, c, d]" using assms(5,6) by simp
  moreover have "length (cr_factor_array (a_cron s)) = 4" "length (cr_counter_array (a_cron s)) = 4"
    using assms(2) by (simp_all add: cron_ok_def)
  ultimately show ?thesis
    using to_radio [of s "a_mode s" "a_heartbeat s" "a_cron s"] assms(1,3,4)
    by (auto simp: beat_view_def mode_get_def radio_at_def radio_view_def cron_ok_def job_set_def
        jobs_queued_def beat_counter_def dest: arg_cong [where f = length])
qed

text \<open>
  A daemon that falls silent is noticed after exactly 200 ticks: from the moment when the radio mode
  is entered, with no one-shot job pending and no message that confirms the link, the firmware is in
  the radio mode and connected for 199 ticks, and from the next one on shows the clock,
  disconnected.
\<close>

theorem silence_detected:
  assumes "mode_get s \<noteq> MODE_RADIO" "cron_ok (a_cron s)" "buf_ok (cr_queue (a_cron s))" "jobs_queued s = []"
    "cr_callback_array (a_cron s) ! 0 = No_callback" "cr_callback_array (a_cron s) ! 1 = No_callback"
  shows "a_mode ((beat_tick ^^ n) (mode_set MODE_RADIO s)) =
    (if n < 200 then \<lparr>mo_current_mode = MODE_RADIO, mo_is_connected = 1\<rparr>
     else \<lparr>mo_current_mode = MODE_WATCH, mo_is_connected = 0\<rparr>)"
proof -
  let ?s = "\<lambda>n. (beat_tick ^^ n) (mode_set MODE_RADIO s)"
  have run: "if n < 200 then radio_at (n div 50) [] (of_nat (n mod 50)) (?s n)
      else watch_view (?s n) \<and> jobs_queued (?s n) = []" for n
  proof (induction n)
    case 0
    show ?case using radio_entered [OF assms] by simp
  next
    case (Suc n)
    show ?case
    proof (cases "n < 200")
      case True
      have small: "unat (of_nat (n mod 50) :: u8) = n mod 50" by (intro unat_of_nat_u8) simp
      have at: "radio_at (n div 50) [] (of_nat (n mod 50)) (?s n)" using Suc True by simp
      have "n div 50 < 4" using True by (simp add: less_mult_imp_div_less)
      note next_tick = radio_beat_tick [OF at _ this, unfolded small]
      have step: "?s (Suc n) = beat_tick (?s n)" by simp
      have dm: "Suc n div 50 = (if n mod 50 = 49 then Suc (n div 50) else n div 50)"
        "Suc n mod 50 = (if n mod 50 = 49 then 0 else Suc (n mod 50))"
        by (simp_all add: div_Suc mod_Suc)
      obtain q r where qr: "n = 50 * q + r" "r < 50" "n div 50 = q" "n mod 50 = r"
        by (metis mult_div_mod_eq mod_less_divisor zero_less_numeral)
      have last: "Suc n < 200 \<longleftrightarrow> n mod 50 < 49 \<or> n div 50 < 3"
        unfolding qr(3,4) using True qr(1,2) by arith
      show ?thesis unfolding step dm last using next_tick by (auto simp: ac_simps split: if_splits)
    next
      case False
      then show ?thesis using Suc watch_tick [of "?s n"] by simp
    qed
  qed
  show ?thesis using run [of n] by (auto simp: radio_at_def radio_view_def watch_view_def split: if_splits)
qed

lemma silence_detected_witness:
  "mode_get ((beat_tick ^^ 199) (mode_set MODE_RADIO avr_reset)) = MODE_RADIO
   \<and> mode_get ((beat_tick ^^ 200) (mode_set MODE_RADIO avr_reset)) = MODE_WATCH"
proof -
  have "mode_get avr_reset \<noteq> MODE_RADIO" "cron_ok (a_cron avr_reset)" "buf_ok (cr_queue (a_cron avr_reset))"
    "jobs_queued avr_reset = []" "cr_callback_array (a_cron avr_reset) ! 0 = No_callback"
    "cr_callback_array (a_cron avr_reset) ! 1 = No_callback"
    by (simp_all add: avr_reset_def mode_get_def cron_ok_def jobs_queued_def buf_zero_def buf_held_def ring_abs_def
        buf_ok_def ring_ok_def BUF_SIZE_def)
  note silence = silence_detected [OF this]
  show ?thesis unfolding mode_get_def by (simp only: silence) simp
qed

end
