(* ===== verification/Avr_Quiet.thy ===== *)
theory Avr_Quiet
  imports Avr_Silence
begin

text \<open>
  The firmware while nothing comes in: the steps of the main loop (\<open>avr.c\<close>), the ticks of the timer,
  the interrupts of the clock and of the two wire bus, but no byte of the daemon, no edge of its
  line and no knob. How long the radio mode lasts then, in every interleaving.
\<close>

section \<open>What stays as it is\<close>

text \<open>The bytes of the daemon, the events of the knobs and the ticks that wait to be handled.\<close>

definition in_view :: "avr \<Rightarrow> buffer_t \<times> rotor \<times> buf_t" where
  "in_view s = (sp_read_buf (a_spi s), a_rotor s, ct_invoke_queue (a_counter s))"

lemma in_view_cong:
  "a_spi s' = a_spi s \<Longrightarrow> a_rotor s' = a_rotor s \<Longrightarrow> a_counter s' = a_counter s \<Longrightarrow> in_view s' = in_view s"
  by (simp add: in_view_def)

lemma in_view_io [simp]:
  "in_view (io_set r v s) = in_view s" "in_view (io_or r v s) = in_view s"
  "in_view (io_clear r v s) = in_view s"
  by (simp_all add: in_view_def io_set_def io_or_def io_clear_def)

lemma in_view_fields [simp]:
  "in_view (s\<lparr>a_mode := m\<rparr>) = in_view s" "in_view (s\<lparr>a_heartbeat := h\<rparr>) = in_view s"
  "in_view (s\<lparr>a_cron := c\<rparr>) = in_view s" "in_view (s\<lparr>a_twi := t\<rparr>) = in_view s"
  "in_view (s\<lparr>a_watch := w\<rparr>) = in_view s" "in_view (s\<lparr>a_flush := f\<rparr>) = in_view s"
  by (simp_all add: in_view_def)

lemma in_view_timer [simp]:
  "in_view (engage_timer s) = in_view s" "in_view (disengage_timer s) = in_view s"
  by (simp_all add: engage_timer_def disengage_timer_def counter_interrupt_enable_def
      counter_interrupt_disable_def counter_interrupt_def counter_enable_def counter_disable_def
      control_register_set_def control_register_clear_def counter_register_write_def in_view_def
      io_set_def io_or_def io_clear_def Let_def split: prod.split option.split)

lemma in_view_cron [simp]:
  "in_view (snd (cron_enable i f cb s)) = in_view s" "in_view (snd (cron_disable i s)) = in_view s"
  by (simp_all add: cron_enable_def cron_disable_def cron_set_def Let_def)

lemma in_view_twi [simp]:
  "in_view (watch_disable s) = in_view s" "in_view (watch_enable s) = in_view s" "in_view (int2_isr s) = in_view s"
  by (simp_all add: watch_disable_def watch_enable_def int2_isr_def twi_write_byte_def twi_read_byte_def
      twi_write_array_def twi_read_array_def twi_enqueue_def Let_def split: prod.split)

lemma in_view_flush [simp]:
  "in_view (flush_dump m s) = in_view s" "in_view (flush_shift_display s) = in_view s"
  "in_view (flush_stable_display pic s) = in_view s"
proof -
  show dump: "in_view (flush_dump m s) = in_view s" for m s
    by (rule in_view_cong) (simp_all add: only_portD [OF only_port_dump])
  show "in_view (flush_shift_display s) = in_view s" "in_view (flush_stable_display pic s) = in_view s"
    by (simp_all add: flush_shift_display_def flush_stable_display_def dump Let_def split: prod.split)
qed

lemma in_view_mode [simp]: "in_view (mode_set m s) = in_view s" "in_view (heartbeat_cancel s) = in_view s"
  by (simp_all add: mode_set_def heartbeat_cancel_def heartbeat_start_def set_connected_def Let_def)

lemma in_view_job:
  assumes "cb = Flush_shift_display \<or> cb = Heartbeat_verify \<and> hb_report (a_heartbeat s) = Switch_to_watch
      \<and> hb_provoke (a_heartbeat s) = Spi_interrupt_start"
  shows "in_view (run_cron cb s) = in_view s"
proof -
  have keep: "a_heartbeat (heartbeat_cancel t) = a_heartbeat t" for t
    by (simp add: heartbeat_cancel_def cron_disable_def cron_set_def disengage_timer_def
        counter_interrupt_disable_def counter_interrupt_def counter_disable_def
        control_register_clear_def Let_def)
  show ?thesis
    using assms by (auto simp: heartbeat_verify_def switch_to_watch_def avr_spi_interrupt_start_def Let_def keep)
qed

lemma in_view_postpone [simp]: "in_view (postpone_try s) = in_view s"
  by (simp add: postpone_try_def postpone_flush_def spi_write_array_def avr_spi_interrupt_start_def
      in_view_def io_or_def io_set_def Let_def split: prod.split)

lemma in_view_bus [simp]: "in_view (twi_isr s) = in_view s" "in_view (twi_try run_twi s) = in_view s"
proof -
  show "in_view (twi_isr s) = in_view s" by (simp add: twi_step_defs Let_def)
  have render: "in_view (watch_render s) = in_view s" for s by (simp add: watch_render_def split: option.split)
  have callback: "in_view (watch_read_callback tag st len v s) = in_view s" for tag st len v s
    by (simp add: watch_read_callback_def render)
  have run: "in_view (run_twi cb tag st len v s) = in_view s" for cb tag st len v s
    by (cases cb) (simp_all add: callback)
  have "in_view (action_set s) = in_view s"
    by (simp add: action_set_def Let_def split: prod.split list.split)
  then show "in_view (twi_try run_twi s) = in_view s"
    by (simp add: twi_try_def Let_def run action_reset_def twi_start_def twi_set_mode_def)
qed

lemma beat_view_cong: "a_mode s' = a_mode s \<Longrightarrow> a_heartbeat s' = a_heartbeat s \<Longrightarrow> a_cron s' = a_cron s \<Longrightarrow>
    beat_view s' = beat_view s"
  by (simp add: beat_view_def)

lemma beat_view_quiet [simp]:
  "beat_view (postpone_try s) = beat_view s" "beat_view (twi_try run_twi s) = beat_view s"
  "beat_view (twi_isr s) = beat_view s" "beat_view (int2_isr s) = beat_view s"
  "beat_view (s\<lparr>a_counter := k\<rparr>) = beat_view s"
proof -
  have "off_link (postpone_try s) = off_link s" by (simp add: postpone_try_def Let_def)
  from off_link_parts [OF this] show "beat_view (postpone_try s) = beat_view s" by (simp add: beat_view_def)
  show "beat_view (twi_isr s) = beat_view s" by (simp add: twi_step_defs Let_def)
  show "beat_view (int2_isr s) = beat_view s"
    by (simp add: int2_isr_def twi_read_byte_def twi_read_array_def twi_enqueue_def Let_def split: prod.split)
  show "beat_view (s\<lparr>a_counter := k\<rparr>) = beat_view s" by (simp add: beat_view_def)
  have dump: "beat_view (flush_dump m s) = beat_view s" for m s
    by (rule beat_view_cong) (simp_all add: only_portD [OF only_port_dump])
  have field: "beat_view (s\<lparr>a_flush := f\<rparr>) = beat_view s" "beat_view (s\<lparr>a_watch := w\<rparr>) = beat_view s" for s f w
    by (simp_all add: beat_view_def)
  have "beat_view (watch_render s) = beat_view s" for s
    by (simp add: watch_render_def flush_stable_display_def dump field split: option.split)
  then have run: "beat_view (run_twi cb tag st len v s) = beat_view s" for cb tag st len v s
    by (cases cb) (simp_all add: watch_read_callback_def field)
  have "beat_view (action_set s) = beat_view s"
    by (simp add: action_set_def Let_def split: prod.split list.split)
  then show "beat_view (twi_try run_twi s) = beat_view s"
    by (simp add: twi_try_def Let_def run action_reset_def twi_start_def twi_set_mode_def)
qed

lemma radio_at_cong: "beat_view s' = beat_view s \<Longrightarrow> radio_at m js n s' = radio_at m js n s"
  by (simp add: beat_view_def radio_at_def radio_view_def jobs_queued_def beat_counter_def)

lemma watch_view_cong:
  "beat_view s' = beat_view s \<Longrightarrow> watch_view s' = watch_view s"
  "beat_view s' = beat_view s \<Longrightarrow> jobs_queued s' = jobs_queued s"
  by (simp_all add: beat_view_def watch_view_def jobs_queued_def)

section \<open>Steps of a firmware that nothing reaches\<close>

definition quiet :: "avr \<Rightarrow> bool" where
  "quiet s \<longleftrightarrow> spi_read_size s = 0 \<and> queue_head (ro_j_event_buf (a_rotor s)) = None
     \<and> queue_head (ro_k_event_buf (a_rotor s)) = None"

lemma quiet_cong: "in_view s' = in_view s \<Longrightarrow> quiet s' = quiet s"
  by (simp add: in_view_def quiet_def spi_read_size_def)

lemma quiet_idle: "quiet s \<Longrightarrow> decode_try s = Some s" "quiet s \<Longrightarrow> rotor_try s = s"
  by (simp_all add: quiet_def decode_try_def rotor_try_def try_queue_def)

text \<open>The flag: a tick of a timer. The ticks that wait, and the jobs, fit into their rings.\<close>

inductive quiet_step :: "main_call \<times> avr \<Rightarrow> bool \<Rightarrow> main_call \<times> avr \<Rightarrow> bool" where
  call: "main_step (k, s) = Some c \<Longrightarrow> length (jobs_queued s) < 60 \<Longrightarrow> quiet_step (k, s) False c"
| tick: "irq_enabled (Timer_irq i) s \<Longrightarrow> length (buf_held (ct_invoke_queue (a_counter s))) < 60 \<Longrightarrow>
    quiet_step (k, s) True (k, run_irq (Timer_irq i) s)"
| clock: "quiet_step (k, s) False (k, run_irq Clock_irq s)"
| bus: "quiet_step (k, s) False (k, run_irq (Twi_irq st b) s)"

inductive quiet_run :: "main_call \<times> avr \<Rightarrow> nat \<Rightarrow> main_call \<times> avr \<Rightarrow> bool" for c where
  none: "quiet_run c 0 c"
| more: "quiet_run c n d \<Longrightarrow> quiet_step d ticks e \<Longrightarrow> quiet_run c (n + (if ticks then 1 else 0)) e"

definition ticks_waiting :: "avr \<Rightarrow> nat" where
  "ticks_waiting s = length (buf_held (ct_invoke_queue (a_counter s)))"

definition beats_waiting :: "avr \<Rightarrow> nat" where
  "beats_waiting s = count_list (jobs_queued s) CRON_ID_HEARTBEAT"

text \<open>After \<open>e\<close> ticks have been handled since the radio mode was entered.\<close>

definition quiet_at :: "nat \<Rightarrow> avr \<Rightarrow> bool" where
  "quiet_at e s \<longleftrightarrow>
     (\<exists>m js. radio_at m js (of_nat (e mod 50)) s \<and> m < 4 \<and> set js \<subseteq> {CRON_ID_FLUSH, CRON_ID_HEARTBEAT}
        \<and> m + count_list js CRON_ID_HEARTBEAT = e div 50)
     \<or> watch_view s \<and> 200 \<le> e"

lemma quiet_at_cong:
  assumes "beat_view s' = beat_view s"
  shows "quiet_at e s' = quiet_at e s"
  by (simp only: quiet_at_def radio_at_cong [OF assms] watch_view_cong(1) [OF assms])


text \<open>The rings of the ticks and of the inputs under the steps that touch them.\<close>

lemma quiet_fields [simp]:
  "quiet (s\<lparr>a_counter := k\<rparr>) = quiet s" "quiet (s\<lparr>a_cron := c\<rparr>) = quiet s"
  by (simp_all add: quiet_def spi_read_size_def)

lemma ticks_waiting_cong: "in_view s' = in_view s \<Longrightarrow> ticks_waiting s' = ticks_waiting s"
  by (simp add: in_view_def ticks_waiting_def)

lemma counter_try_cases:
  assumes "avr_inv True s"
  obtains (none) "ticks_waiting s = 0" "counter_try run_counter s = s"
  | (tick) q where "ticks_waiting s = Suc (length (buf_held q))"
      "counter_try run_counter s = cron_interrupt_function (s\<lparr>a_counter := (a_counter s)\<lparr>ct_invoke_queue := q\<rparr>\<rparr>)"
proof -
  let ?q = "ct_invoke_queue (a_counter s)"
  have c: "counter_inv (a_counter s)" by (rule avr_invD [OF assms])
  then have q: "buf_ok ?q" by (simp add: counter_inv_def)
  have run: "counter_try run_counter s = counter_try (\<lambda>cb. cron_interrupt_function) s"
    by (rule counter_call [OF assms]) (simp add: fun_eq_iff)
  show thesis
  proof (cases rule: buf.drain_cases [OF q, of 0])
    case 1
    show thesis by (rule none) (use 1 in \<open>simp_all add: ticks_waiting_def counter_try_def\<close>)
  next
    case (2 r x xs)
    have "\<not> x > MAX_ID" using c 2(1) by (auto simp: counter_inv_def)
    then show thesis
      by (intro tick [of r]; (unfold run)?) (use 2 in \<open>simp_all add: ticks_waiting_def counter_try_def\<close>)
  qed
qed

lemma timer_waits:
  assumes "avr_inv True s" "ticks_waiting s < 60"
  shows "ticks_waiting (timer_isr i s) = Suc (ticks_waiting s)"
proof -
  let ?q = "ct_invoke_queue (a_counter s)"
  have "counter_inv (a_counter s)" by (rule avr_invD [OF assms(1)])
  then have "buf_ok ?q" by (simp add: counter_inv_def)
  from buf.fill_room [OF this, of i] assms(2) obtain q where
    "buf_byte_fill ?q i = (1, q)" "buf_held q = buf_held ?q @ [i]"
    by (auto simp: ticks_waiting_def)
  then show ?thesis by (simp add: timer_isr_def ticks_waiting_def)
qed

section \<open>A job of the main loop\<close>

lemma watch_pops:
  assumes "watch_view s"
  shows "\<exists>q. cron_try run_cron s = s\<lparr>a_cron := (a_cron s)\<lparr>cr_queue := q\<rparr>\<rparr> \<and> buf_ok q"
proof -
  have c: "buf_ok (cr_queue (a_cron s))" "cr_callback_array (a_cron s) = replicate 4 No_callback"
    using assms by (simp_all add: watch_view_def)
  show ?thesis
  proof (cases rule: buf.drain_cases [OF c(1), of CRON_ID_MAX])
    case 1
    then show ?thesis using c(1) by (intro exI [of _ "cr_queue (a_cron s)"]) (simp add: cron_try_def)
  next
    case (2 q x xs)
    have "x \<ge> CRON_ID_MAX \<or> replicate 4 No_callback ! unat x = No_callback"
      by (cases "unat x < 4") (simp_all add: u8_le_iff)
    then show ?thesis using c(2) 2 by (intro exI [of _ q]) (simp add: cron_try_def del: cron_defs)
  qed
qed

lemma job_in_view:
  assumes "quiet_at e s"
  shows "in_view (cron_try run_cron s) = in_view s"
  using assms unfolding quiet_at_def
proof (elim disjE conjE exE)
  assume "watch_view s"
  from watch_pops [OF this] show ?thesis by auto
next
  fix m js
  assume r: "radio_at m js (of_nat (e mod 50)) s" and js: "set js \<subseteq> {CRON_ID_FLUSH, CRON_ID_HEARTBEAT}"
  have s: "radio_view m s" "jobs_queued s = js" using r by (simp_all add: radio_at_def)
  then have ok: "buf_ok (cr_queue (a_cron s))"
    "cr_callback_array (a_cron s) = [No_callback, No_callback, Flush_shift_display, Heartbeat_verify]"
    "hb_report (a_heartbeat s) = Switch_to_watch" "hb_provoke (a_heartbeat s) = Spi_interrupt_start"
    by (simp_all add: radio_view_def)
  show ?thesis
  proof (cases js)
    case Nil
    from cron_try_none [OF ok(1)] s(2) Nil show ?thesis by auto
  next
    case (Cons i ks)
    let ?cb = "cr_callback_array (a_cron s) ! unat i"
    have i: "i < CRON_ID_MAX" "?cb = Flush_shift_display \<or> ?cb = Heartbeat_verify"
      using js Cons by (auto simp: ok(2))
    then have "?cb \<noteq> No_callback" by auto
    from cron_try_job [OF ok(1) s(2) [unfolded Cons] i(1) refl this] obtain q where
      "cron_try run_cron s = run_cron ?cb (s\<lparr>a_cron := (a_cron s)\<lparr>cr_queue := q\<rparr>\<rparr>)" by blast
    moreover have "in_view (run_cron ?cb t) = in_view t" if "a_heartbeat t = a_heartbeat s" for t
      by (rule in_view_job) (use i(2) ok(3,4) that in auto)
    ultimately show ?thesis by simp
  qed
qed

lemma quiet_job:
  assumes "quiet_at e s"
  shows "quiet_at e (cron_try run_cron s)"
  using assms unfolding quiet_at_def [of e s]
proof (elim disjE conjE exE)
  assume "watch_view s" and "200 \<le> e"
  with watch_pops [of s] show ?thesis by (auto simp: quiet_at_def watch_view_def cron_ok_def)
next
  fix m js
  assume r: "radio_at m js (of_nat (e mod 50)) s" and "m < 4"
    and js: "set js \<subseteq> {CRON_ID_FLUSH, CRON_ID_HEARTBEAT}" and e: "m + count_list js CRON_ID_HEARTBEAT = e div 50"
  have other: "CRON_ID_FLUSH \<noteq> CRON_ID_HEARTBEAT" by simp
  consider "js = []" | ks where "js = CRON_ID_FLUSH # ks" | ks where "js = CRON_ID_HEARTBEAT # ks"
    using js by (cases js) auto
  then show ?thesis
  proof cases
    case 1
    with radio_idle [of m _ s] r e \<open>m < 4\<close> show ?thesis unfolding quiet_at_def by fastforce
  next
    case 2
    from radio_flush_job [OF r [unfolded 2]] show ?thesis
      using e js \<open>m < 4\<close> other unfolding quiet_at_def 2 by (intro disjI1 exI [of _ m] exI [of _ ks]) auto
  next
    case (3 ks)
    note beat = radio_beat_job [OF r [unfolded 3] \<open>m < 4\<close>]
    show ?thesis
    proof (cases "m < 3")
      case True
      with beat have "radio_at (Suc m) ks (of_nat (e mod 50)) (cron_try run_cron s)" by simp
      then show ?thesis
        using e js True unfolding quiet_at_def 3 by (intro disjI1 exI [of _ "Suc m"] exI [of _ ks]) auto
    next
      case False
      with beat e \<open>m < 4\<close> show ?thesis unfolding quiet_at_def 3 by (intro disjI2) auto
    qed
  qed
qed


section \<open>A tick handled\<close>

lemma next_beat:
  "Suc e div 50 = (if e mod 50 = 49 then Suc (e div 50) else e div 50)"
  "Suc e mod 50 = (if e mod 50 = 49 then 0 else Suc (e mod 50))"
  by (simp_all add: div_Suc mod_Suc)

lemma quiet_tick:
  assumes "quiet_at e s" "length (jobs_queued s) < 60"
  shows "quiet_at (Suc e) (cron_interrupt_function s)"
  using assms(1) unfolding quiet_at_def [of e s]
proof (elim disjE conjE exE)
  assume s: "watch_view s" and "200 \<le> e"
  let ?c = "a_cron s"
  have c: "cron_ok ?c" "buf_ok (cr_queue ?c)" "length (buf_held (cr_queue ?c)) < 60"
    "cr_callback_array ?c = replicate 4 No_callback"
    using s assms(2) by (simp_all add: watch_view_def jobs_queued_def)
  have "ticked ?c 4 (cron_tick ?c)" by (rule cron_tick_effect [OF c(1,2,3)])
  then have "watch_view (cron_interrupt_function s)"
    using s by (simp add: watch_view_def cron_interrupt_function_def cron_tick_def ticked_def)
  with \<open>200 \<le> e\<close> show ?thesis by (simp add: quiet_at_def)
next
  fix m js
  assume r: "radio_at m js (of_nat (e mod 50)) s" and "m < 4"
    and js: "set js \<subseteq> {CRON_ID_FLUSH, CRON_ID_HEARTBEAT}" and e: "m + count_list js CRON_ID_HEARTBEAT = e div 50"
  have small: "unat (of_nat (e mod 50) :: u8) = e mod 50" by (intro unat_of_nat_u8) simp
  have "length js < 60" using r assms(2) by (simp add: radio_at_def)
  moreover have "unat (of_nat (e mod 50) :: u8) < 50" unfolding small by simp
  ultimately obtain ks where ks: "ks = [] \<or> ks = [CRON_ID_FLUSH]"
    "radio_at m (js @ ks @ (if e mod 50 = 49 then [CRON_ID_HEARTBEAT] else []))
      (if e mod 50 = 49 then 0 else of_nat (e mod 50) + 1) (cron_interrupt_function s)"
    using radio_tick [OF r, unfolded small run_counter.simps] unfolding small by blast
  have "(if e mod 50 = 49 then 0 else of_nat (e mod 50) + 1 :: u8) = of_nat (Suc e mod 50)"
    unfolding next_beat(2) by (simp add: ac_simps)
  with ks(2) have "radio_at m (js @ ks @ (if e mod 50 = 49 then [CRON_ID_HEARTBEAT] else []))
      (of_nat (Suc e mod 50)) (cron_interrupt_function s)" by simp
  moreover have "m + count_list (js @ ks @ (if e mod 50 = 49 then [CRON_ID_HEARTBEAT] else [])) CRON_ID_HEARTBEAT
      = Suc e div 50"
    using ks(1) e unfolding next_beat(1) by auto
  moreover have "set (js @ ks @ (if e mod 50 = 49 then [CRON_ID_HEARTBEAT] else []))
      \<subseteq> {CRON_ID_FLUSH, CRON_ID_HEARTBEAT}"
    using js ks(1) by auto
  ultimately show ?thesis using \<open>m < 4\<close> unfolding quiet_at_def by blast
qed

section \<open>Every step\<close>

definition quiet_inv :: "nat \<Rightarrow> avr \<Rightarrow> bool" where
  "quiet_inv e s \<longleftrightarrow> avr_inv True s \<and> quiet s \<and> quiet_at e s"

text \<open>The ticks that were handled when \<open>e\<close> were before.\<close>

lemma frame_step:
  assumes "quiet_inv e s" "avr_inv True t" "in_view t = in_view s" "beat_view t = beat_view s"
  shows "quiet_inv e t \<and> ticks_waiting t = ticks_waiting s"
  using assms(1,2) quiet_cong [OF assms(3)] ticks_waiting_cong [OF assms(3)] quiet_at_cong [OF assms(4)]
  by (simp add: quiet_inv_def)

lemma counter_step:
  assumes "quiet_inv e s" "length (jobs_queued s) < 60"
  shows "\<exists>e'. quiet_inv e' (counter_try run_counter s) \<and> e' + ticks_waiting (counter_try run_counter s) = e + ticks_waiting s"
proof -
  have s: "avr_inv True s" "quiet s" "quiet_at e s" using assms(1) by (simp_all add: quiet_inv_def)
  show ?thesis
  proof (cases rule: counter_try_cases [OF s(1)])
    case 1
    then show ?thesis using assms(1) by (intro exI [of _ e]) simp
  next
    case (2 q)
    let ?t = "s\<lparr>a_counter := (a_counter s)\<lparr>ct_invoke_queue := q\<rparr>\<rparr>"
    have "quiet_at e ?t" using quiet_at_cong [of ?t s e] s(3) by simp
    moreover have "length (jobs_queued ?t) < 60" using assms(2) by (simp add: jobs_queued_def)
    ultimately have "quiet_at (Suc e) (counter_try run_counter s)" unfolding 2(2) by (rule quiet_tick)
    moreover have "quiet (counter_try run_counter s)" "ticks_waiting (counter_try run_counter s) = length (buf_held q)"
      using s(2) unfolding 2(2) by (simp_all add: cron_interrupt_function_def ticks_waiting_def)
    ultimately show ?thesis
      using inv_counter_try [OF s(1)] 2(1) by (intro exI [of _ "Suc e"]) (simp add: quiet_inv_def)
  qed
qed

lemma job_step:
  assumes "quiet_inv e s"
  shows "quiet_inv e (cron_try run_cron s) \<and> ticks_waiting (cron_try run_cron s) = ticks_waiting s"
proof -
  have s: "avr_inv True s" "quiet s" "quiet_at e s" using assms by (simp_all add: quiet_inv_def)
  note v = job_in_view [OF s(3)]
  show ?thesis
    using quiet_job [OF s(3)] inv_cron_try [OF s(1)] s(2) quiet_cong [OF v] ticks_waiting_cong [OF v]
    by (simp add: quiet_inv_def)
qed

lemma quiet_step_inv:
  assumes "quiet_step c b d" "quiet_inv e (snd c)"
  shows "\<exists>e'. quiet_inv e' (snd d) \<and> e' + ticks_waiting (snd d) = e + ticks_waiting (snd c) + (if b then 1 else 0)"
  using assms
proof (induction rule: quiet_step.induct)
  case (call k s d)
  then have e: "quiet_inv e s" and s: "avr_inv True s" "quiet s" by (simp_all add: quiet_inv_def)
  obtain k' t where d: "d = (k', t)" by force
  have t: "avr_inv True t" by (rule inv_main_step [OF s(1) call(1) [unfolded d]])
  show ?case
  proof (cases k)
    case Counter_try
    with call(1) counter_step [OF e call(2)] show ?thesis by auto
  next
    case Cron_try
    with call(1) job_step [OF e] show ?thesis by auto
  next
    case Decode_try
    with call(1) e quiet_idle(1) [OF s(2)] show ?thesis by auto
  next
    case Postpone_try
    then have "t = postpone_try s" using call(1) d by simp
    with frame_step [OF e t] show ?thesis by (auto simp: d)
  next
    case Rotor_try
    with call(1) e quiet_idle(2) [OF s(2)] show ?thesis by auto
  next
    case Twi_try
    then have "t = twi_try run_twi s" using call(1) d by simp
    with frame_step [OF e t] show ?thesis by (auto simp: d)
  qed
next
  case (tick i s k)
  then have s: "avr_inv True s" "quiet s" "quiet_at e s" by (simp_all add: quiet_inv_def)
  have "ticks_waiting (timer_isr i s) = Suc (ticks_waiting s)"
    by (rule timer_waits [OF s(1)]) (simp add: ticks_waiting_def tick(2))
  moreover have "quiet_inv e (timer_isr i s)"
    using inv_run_irq [OF s(1) tick(1)] s quiet_at_cong [of "timer_isr i s" s e]
    by (simp add: quiet_inv_def timer_isr_def)
  ultimately show ?case by auto
next
  case (clock k s)
  then have s: "avr_inv True s" by (simp add: quiet_inv_def)
  from inv_run_irq [OF s, of Clock_irq] clock frame_step [of e s "int2_isr s"] show ?case by auto
next
  case (bus k s st b)
  let ?t = "io_set TWDR b (io_set TWSR st s)"
  have s: "avr_inv True s" using bus by (simp add: quiet_inv_def)
  from inv_run_irq [OF s, of "Twi_irq st b"] bus frame_step [of e s "twi_isr ?t"] show ?case by auto
qed

lemma quiet_run_inv:
  assumes "quiet_run c n d" "quiet_inv e (snd c)"
  shows "\<exists>e'. quiet_inv e' (snd d) \<and> e' + ticks_waiting (snd d) = e + ticks_waiting (snd c) + n"
  using assms
proof (induction rule: quiet_run.induct)
  case none
  then show ?case by auto
next
  case (more n d b f)
  then obtain e1 where e1: "quiet_inv e1 (snd d)" "e1 + ticks_waiting (snd d) = e + ticks_waiting (snd c) + n" by blast
  from quiet_step_inv [OF more(2) e1(1)] e1(2) show ?case by fastforce
qed


lemma quiet_end:
  assumes "quiet_at n t" "jobs_queued t = []"
  shows "a_mode t = (if n < 200 then \<lparr>mo_current_mode = MODE_RADIO, mo_is_connected = 1\<rparr>
     else \<lparr>mo_current_mode = MODE_WATCH, mo_is_connected = 0\<rparr>)"
proof (cases "watch_view t")
  case True
  moreover from this have "200 \<le> n" using assms(1) by (auto simp: quiet_at_def radio_at_def radio_view_def watch_view_def)
  ultimately show ?thesis by (simp add: watch_view_def)
next
  case False
  then obtain m where "radio_at m [] (of_nat (n mod 50)) t" "m < 4" "m = n div 50"
    using assms by (auto simp: quiet_at_def radio_at_def)
  moreover from this have "n < 200" by (simp add: div_less_iff_less_mult)
  ultimately show ?thesis by (simp add: radio_at_def radio_view_def)
qed



end
