(* ===== verification/System_Link.thy ===== *)
theory System_Link
  imports Pi_Mcu_Handle Avr_Wire
begin

text \<open>
  The two ends of the link together: the daemon's device (\<open>mcu_write_msg\<close> of
  \<open>src/src/pi/mcu-handle.cpp\<close>) on the wire of \<open>Avr_Wire\<close>, and a message with its confirmation.
\<close>

section \<open>Frames of both ends\<close>

lemma avr_frame_wrap: "avr_frame i n p = encode_wrap (n # i # p)"
  by (simp add: avr_frame_def encode_wrap_def add.commute)

lemma encode_join_frame: "encode_wrap (encode_join n i [Arr p]) = avr_frame i n p"
  by (simp add: avr_frame_wrap encode_join_bytes)

lemma decode_init_keeps:
  "sent (decode_init s) = sent s" "waiting (decode_init s) = waiting s" "received (decode_init s) = received s"
  "a_flush (decode_init s) = a_flush s" "avr_link_ok (decode_init s) = avr_link_ok s"
  "io_get r (decode_init s) = io_get r s"
  by (simp_all add: decode_init_def sent_def waiting_def received_def avr_link_ok_def io_get_def)

lemma decoder_at_io: "decoder_at s d bs t \<Longrightarrow> io_get r t = io_get r s"
  by (auto simp: decoder_at_def io_get_def)

section \<open>The firmware's part\<close>

text \<open>A numbered message is put aside without a touch of the registers.\<close>

lemma numbered_io:
  "n \<noteq> SERIAL_ID_TO_IGNORE \<Longrightarrow> io_get r (encode_msg_2 i n p1 p2 s) = io_get r s"
  by (simp add: encode_msg_2_def out_post_def out_put_def encode_msg_def postpone_message_def io_get_def)

lemma led_array_io:
  assumes "de_msg_id (a_decode s) = MSG_ID_LED_ARRAY" "de_msg_serial (a_decode s) \<noteq> SERIAL_ID_TO_IGNORE"
  shows "io_get r (decode_dispatch s) = io_get r s"
proof -
  have keeps: "a_decode (heartbeat_confirm s) = a_decode s" "io_get r (heartbeat_confirm s) = io_get r s"
    by (simp_all add: heartbeat_confirm_def io_get_def)
  obtain q t where f: "flush_shift_data (de_in_buf (a_decode s)) (de_msg_size (a_decode s) - 2)
      (heartbeat_confirm s) = (q, t)" by fastforce
  then have "io_get r t = io_get r s" "a_decode t = a_decode s"
    using keeps by (auto simp: flush_shift_data_def io_get_def split: if_splits prod.splits)
  with f keeps assms show ?thesis
    by (simp add: decode_dispatch_def answer_status_def Let_def numbered_io del: msg_id_defs mark_defs)
qed

text \<open>A frame with columns that has come in completely.\<close>

lemma columns_decoded:
  assumes "avr_link_ok s" "decoder_ok (a_decode s)" "de_decoded (a_decode s) = 0"
    "received s = avr_frame MSG_ID_LED_ARRAY n p" "sent s = []" "waiting s = []"
    "buffer_ok (fl_shift_data (a_flush s))" "fl_drain (a_flush s) = 0"
    "length (buffer_held (fl_shift_data (a_flush s))) + length p \<le> 229" "length p \<le> 26"
    "n \<noteq> SERIAL_ID_TO_IGNORE"
  shows "\<exists>s1. decode_try s = Some s1 \<and>
    buffer_held (fl_shift_data (a_flush s1)) = buffer_held (fl_shift_data (a_flush s)) @ p \<and>
    waiting s1 = avr_frame MSG_ID_STATUS n [STATUS_SUCCESS, MSG_ID_LED_ARRAY] \<and> sent s1 = [] \<and>
    received s1 = [] \<and> avr_link_ok s1 \<and> buffer_ok (fl_shift_data (a_flush s1)) \<and>
    (\<forall>r. io_get r s1 = io_get r s)"
proof -
  have rec: "received s \<noteq> []" using assms(4) by (simp add: avr_frame_def)
  have "seen (a_decode s) @ received s = avr_frame MSG_ID_LED_ARRAY n p @ []"
    using assms(3,4) by (simp add: seen_def)
  from decode_try_complete [OF assms(1,2) rec assms(10) this] obtain d t where
    t: "decode_try s = Some (decode_init (decode_dispatch t))" "decoder_at s d [] t"
    "de_msg_id d = MSG_ID_LED_ARRAY" "de_msg_serial d = n" "unat (de_msg_size d) = length p + 2"
    "de_in_buf d = p @ drop (length p) (de_in_buf (a_decode s))" by blast
  note at = decoder_at_simps [OF t(2)]
  have sz: "de_msg_size d = of_nat (length p + 2)"
    using t(5) assms(10) unat_of_nat_u8 [of "length p + 2"] by (simp only: u8_eq_iff)
  have link_t: "avr_link_ok t" by (rule decoder_at_link [OF t(2) assms(1)])
  have pre: "waiting t = []" "sent t = []" using assms(5,6) by (simp_all add: at)
  have io: "io_get r (decode_dispatch t) = io_get r s" for r
    using led_array_io [of t r] decoder_at_io [OF t(2), of r] t(3,4) assms(11) at(1)
    by (simp del: msg_id_defs mark_defs)
  show ?thesis
    using led_array_effect [OF link_t _ pre(1), of n p "drop (length p) (de_in_buf (a_decode s))"]
      t(1,3,4,6) sz assms(7-11) pre at(1,2,5) io
    by (simp add: Let_def decode_init_keeps del: of_nat_add mark_defs)
qed

text \<open>\<dots> and its confirmation leaves when there is room.\<close>

lemma columns_answered:
  assumes "avr_link_ok s1" "buffer_ok (fl_shift_data (a_flush s1))" "sent s1 = []" "received s1 = []"
    "length (buffer_held (fl_shift_data (a_flush s1))) \<le> 229" "waiting s1 \<noteq> []"
  shows "avr_link_ok (postpone_try s1)" "sent (postpone_try s1) = waiting s1"
    "received (postpone_try s1) = []" "a_flush (postpone_try s1) = a_flush s1" "line_up (postpone_try s1)"
    "io_get SPDR (postpone_try s1) = io_get SPDR s1"
  using postpone_try_effect [OF assms(1,2)] assms(3-6)
  by (auto simp: Let_def line_up_def IRQ_BIT_def)
    (auto simp: postpone_try_def Let_def postpone_flush_def spi_write_array_def case_prod_beta
      avr_spi_interrupt_start_def io_get_def io_or_def io_set_def)

section \<open>The daemon's part\<close>

text \<open>A message of the daemon on the wire: both ends change.\<close>

definition link_write :: "mcu_msg \<Rightarrow> mcu_handle \<times> avr \<Rightarrow> cpp_exn + (mcu_handle \<times> avr)" where
  "link_write msg hs =
     (case hs of (h, s) \<Rightarrow>
        (case mcu_write_msg (\<lambda>out. Some (fst (spi_exchange out s))) msg h of
           Inl e \<Rightarrow> Inl e
         | Inr h \<Rightarrow> Inr (h, if decode_get_serial msg = None then s
                            else snd (spi_exchange (encode_wrap msg) s))))"

lemma mcu_accept_device: "mcu_accept ms h = Inr h' \<Longrightarrow> mh_device h' = mh_device h"
proof (induction ms arbitrary: h)
  case Nil
  then show ?case by simp
next
  case (Cons m ms)
  then show ?case by (fastforce simp: case_prod_beta split: option.splits if_splits)
qed

lemma link_write_effect:
  assumes "spi_dev_ok (mh_device h)" "decode_get_serial msg = Some n"
    "spi_exchange (encode_wrap msg) s = (bs, s')"
    "feed mcu_parse_push (mh_parse h) bs = (p, ms)"
    "b = m_pending_id (block_engage (mh_block h) n)"
    "\<forall>m \<in> set ms. 2 \<le> length m \<and> (hd m = 0 \<or> hd m = b)"
  shows "\<exists>h'. link_write msg (h, s) = Inr (h', s') \<and> mh_parse h' = p \<and> spi_dev_ok (mh_device h') \<and>
    m_holder (mh_from_queue h') = m_holder (mh_from_queue h) @ ms \<and>
    m_pending_id (mh_block h') = (if b \<in> hd ` set ms then 0 else b)"
proof -
  let ?answer = "\<lambda>out. Some (fst (spi_exchange out s))"
  let ?h = "h\<lparr>mh_block := block_engage (mh_block h) n, mh_trace := mh_trace h @ [Sent n]\<rparr>"
  obtain in_msg d where tr: "spi_dev_transfer ?answer (encode_wrap msg) [] (mh_device h) = (in_msg, d)"
    by fastforce
  have "full_duplex ?answer" by (auto simp: full_duplex_def spi_exchange_length)
  from spi_dev_transfer_exact [OF this assms(1), of "encode_wrap msg" "[]"] tr assms(3)
  have d: "spi_dev_ok d" "in_msg = bs" by simp_all
  let ?h2 = "?h\<lparr>mh_device := d\<rparr>"
  have receives: "mcu_write_msg ?answer msg h = mcu_receive bs ?h2"
    using assms(2) tr d(2) by (simp add: mcu_write_msg_def Let_def)
  have feed2: "feed mcu_parse_push (mh_parse ?h2) bs = (p, ms)" using assms(4) by simp
  have "m_pending_id (mh_block ?h2) = b \<or> m_pending_id (mh_block ?h2) = 0" using assms(5) by simp
  from mcu_accept_all [OF assms(6) this] obtain h' where
    h': "mcu_accept ms ?h2 = Inr h'" "m_holder (mh_from_queue h') = m_holder (mh_from_queue ?h2) @ ms"
    "m_pending_id (mh_block h') = (if b \<in> hd ` set ms then 0 else m_pending_id (mh_block ?h2))" by blast
  have "mcu_receive bs ?h2 = Inr (h'\<lparr>mh_parse := p\<rparr>)"
    unfolding mcu_receive_accept feed2 snd_conv fst_conv h'(1) by simp
  with receives have "link_write msg (h, s) = Inr (h'\<lparr>mh_parse := p\<rparr>, s')"
    using assms(2,3) by (simp add: link_write_def)
  then show ?thesis
    using h'(2,3) mcu_accept_device [OF h'(1)] d(1) assms(5)
    by (intro exI [of _ "h'\<lparr>mh_parse := p\<rparr>"]) simp
qed

section \<open>A message and its confirmation\<close>

definition idle_msg :: mcu_msg where
  "idle_msg = encode_join SERIAL_ID_TO_IGNORE MSG_ID_IDLE []"

lemma idle_frame: "decode_get_serial idle_msg = Some 0" "length (encode_wrap idle_msg) = 4"
  by (simp_all add: idle_msg_def encode_join_bytes encode_wrap_def)

text \<open>Filler bytes leave an idle parser idle.\<close>

lemma feed_filler: "list_all (\<lambda>b. b \<noteq> EYE_CATCH) bs \<Longrightarrow> feed mcu_parse_push mcu_parse_new bs = (mcu_parse_new, [])"
  by (rule pi_parse.feed_noise)

text \<open>The confirmation, fetched with two idle messages.\<close>

lemma fetch_confirmation:
  assumes "avr_link_ok s" "received s = []" "sent s = encode_wrap [n, MSG_ID_STATUS, st, i]"
    "io_get SPDR s = SPI_WRITE_UNDERFLOW" "spi_dev_ok (mh_device h)" "mh_parse h = mcu_parse_new"
    "m_pending_id (mh_block h) = n" "n \<noteq> 0"
  shows "\<exists>h1 s1 h2 s2. link_write idle_msg (h, s) = Inr (h1, s1) \<and>
    m_pending_id (mh_block h1) = n \<and> link_write idle_msg (h1, s1) = Inr (h2, s2) \<and>
    \<not> block_is_engaged (mh_block h2) \<and> \<not> line_up s2 \<and> sent s2 = [] \<and>
    received s2 = encode_wrap idle_msg @ encode_wrap idle_msg \<and>
    m_holder (mh_from_queue h2) = m_holder (mh_from_queue h) @ [[n, MSG_ID_STATUS, st, i]]"
proof -
  let ?idle = "encode_wrap idle_msg" and ?m = "[n, MSG_ID_STATUS, st, i]"
  obtain s1 where s1: "spi_exchange ?idle s = ([SPI_WRITE_UNDERFLOW, EYE_CATCH, 4, n], s1)"
    "avr_link_ok s1" "received s1 = ?idle" "sent s1 = [st, i]" "io_get SPDR s1 = MSG_ID_STATUS"
  proof -
    have "length (received s) + length ?idle < 255" using assms(2) idle_frame(2) by simp
    from spi_exchange_room [OF assms(1) this] that [of "snd (spi_exchange ?idle s)"] show ?thesis
      using assms(2-4) idle_frame(2)
      by (cases "spi_exchange ?idle s") (simp add: Let_def encode_wrap_def numeral_eq_Suc)
  qed
  obtain s2 where s2: "spi_exchange ?idle s1 = ([MSG_ID_STATUS, st, i, SPI_WRITE_UNDERFLOW], s2)"
    "received s2 = ?idle @ ?idle" "sent s2 = []" "\<not> line_up s2"
  proof -
    have "length (received s1) + length ?idle < 255" using s1(3) idle_frame(2) by simp
    from spi_exchange_room [OF s1(2) this] that [of "snd (spi_exchange ?idle s1)"] show ?thesis
      using s1(3-5) idle_frame(2)
      by (cases "spi_exchange ?idle s1") (simp add: Let_def numeral_eq_Suc)
  qed
  obtain p ms where p: "feed mcu_parse_push mcu_parse_new [SPI_WRITE_UNDERFLOW, EYE_CATCH, 4, n] = (p, ms)"
    by fastforce
  have all: "feed mcu_parse_push mcu_parse_new
      ([SPI_WRITE_UNDERFLOW, EYE_CATCH, 4, n] @ [MSG_ID_STATUS, st, i, SPI_WRITE_UNDERFLOW])
      = (mcu_parse_new, [?m])"
  proof -
    have "[SPI_WRITE_UNDERFLOW, EYE_CATCH, 4, n] @ [MSG_ID_STATUS, st, i, SPI_WRITE_UNDERFLOW]
        = [SPI_WRITE_UNDERFLOW] @ encode_wrap ?m @ [SPI_WRITE_UNDERFLOW]"
      by (simp add: encode_wrap_def)
    moreover have "feed mcu_parse_push mcu_parse_new [SPI_WRITE_UNDERFLOW] = (mcu_parse_new, [])"
      by (rule feed_filler) simp
    moreover have "feed mcu_parse_push mcu_parse_new (encode_wrap ?m) = (mcu_parse_new, [?m])"
      by (rule feed_encode_wrap) simp_all
    ultimately show ?thesis by (simp only: feed_append prod.case) simp
  qed
  have "ms = []"
    using p by (simp add: mcu_parse_push_def mcu_parse_new_def decode_unwrap_def Let_def)
  with all p obtain q where q: "feed mcu_parse_push p [MSG_ID_STATUS, st, i, SPI_WRITE_UNDERFLOW] = (q, [?m])"
    unfolding feed_append p prod.case by (auto split: prod.splits)
  have keep: "m_pending_id (block_engage b 0) = m_pending_id b" for b
    by (simp add: block_engage_def)
  have f1: "feed mcu_parse_push (mh_parse h) [SPI_WRITE_UNDERFLOW, EYE_CATCH, 4, n] = (p, [])"
    unfolding assms(6) p \<open>ms = []\<close> by (rule refl)
  have b1: "n = m_pending_id (block_engage (mh_block h) 0)" unfolding keep by (rule assms(7) [symmetric])
  have "\<forall>m \<in> set []. 2 \<le> length m \<and> (hd m = 0 \<or> hd m = n)" by simp
  from link_write_effect [OF assms(5) idle_frame(1) s1(1) f1 b1 this] obtain h1 where
    h1: "link_write idle_msg (h, s) = Inr (h1, s1)" "mh_parse h1 = p" "spi_dev_ok (mh_device h1)"
    "m_holder (mh_from_queue h1) = m_holder (mh_from_queue h)" "m_pending_id (mh_block h1) = n" by auto
  have f2: "feed mcu_parse_push (mh_parse h1) [MSG_ID_STATUS, st, i, SPI_WRITE_UNDERFLOW] = (q, [?m])"
    unfolding h1(2) by (rule q)
  have b2: "n = m_pending_id (block_engage (mh_block h1) 0)" unfolding keep by (rule h1(5) [symmetric])
  have "\<forall>m \<in> set [?m]. 2 \<le> length m \<and> (hd m = 0 \<or> hd m = n)" by simp
  from link_write_effect [OF h1(3) idle_frame(1) s2(1) f2 b2 this] obtain h2 where
    h2: "link_write idle_msg (h1, s1) = Inr (h2, s2)"
    "m_holder (mh_from_queue h2) = m_holder (mh_from_queue h1) @ [?m]" "m_pending_id (mh_block h2) = 0" by auto
  from h1 h2 s2 show ?thesis by (auto simp: block_is_engaged_def)
qed

text \<open>
  C1: one message over the wire: when link and controller are at rest, a message with columns that
  the daemon writes engages its block; the firmware's next step of decoding appends the columns to
  the display's buffer, the step after it puts the confirmation into the send buffer and raises the
  interrupt line; the two idle messages that the daemon then writes fetch it, hand it to the
  dispatcher and relax the block, and the line is down again.
\<close>

theorem columns_over_wire:
  assumes "avr_link_ok s" "decoder_ok (a_decode s)" "de_decoded (a_decode s) = 0"
    "received s = []" "sent s = []" "waiting s = []" "io_get SPDR s \<noteq> EYE_CATCH"
    "buffer_ok (fl_shift_data (a_flush s))" "fl_drain (a_flush s) = 0"
    "length (buffer_held (fl_shift_data (a_flush s))) + length p \<le> 229" "length p \<le> unat LED_ARRAY_SIZE"
    "n \<noteq> SERIAL_ID_TO_IGNORE" "spi_dev_ok (mh_device h)" "mh_parse h = mcu_parse_new"
    "\<not> block_is_engaged (mh_block h)"
  shows "\<exists>h1 s1 s2 h3 s3 h4 s4.
    link_write (encode_join n MSG_ID_LED_ARRAY [Arr p]) (h, s) = Inr (h1, s1) \<and>
    m_pending_id (mh_block h1) = n \<and> decode_try s1 = Some s2 \<and>
    buffer_held (fl_shift_data (a_flush s2)) = buffer_held (fl_shift_data (a_flush s)) @ p \<and>
    line_up (postpone_try s2) \<and>
    link_write idle_msg (h1, postpone_try s2) = Inr (h3, s3) \<and> block_is_engaged (mh_block h3) \<and>
    link_write idle_msg (h3, s3) = Inr (h4, s4) \<and> \<not> block_is_engaged (mh_block h4) \<and> \<not> line_up s4 \<and>
    m_holder (mh_from_queue h4)
      = m_holder (mh_from_queue h) @ [[n, MSG_ID_STATUS, STATUS_SUCCESS, MSG_ID_LED_ARRAY]]"
proof -
  let ?msg = "encode_join n MSG_ID_LED_ARRAY [Arr p]" and ?f = "avr_frame MSG_ID_LED_ARRAY n p"
  have f: "encode_wrap ?msg = ?f" "length ?f \<noteq> 0" by (simp_all add: encode_join_frame avr_frame_def)
  have fits: "length (received s) + length ?f < 255" "length p \<le> 26"
    using assms(4,11) by (simp_all add: avr_frame_def)
  define s1 where "s1 = snd (spi_exchange ?f s)"
  obtain bs where ex: "spi_exchange ?f s = (bs, s1)" by (metis prod.collapse s1_def)
  note wire = spi_exchange_room [OF assms(1) fits(1), unfolded Let_def ex fst_conv snd_conv]
  have s1: "avr_link_ok s1" "received s1 = ?f" "sent s1 = []" "io_get SPDR s1 = SPI_WRITE_UNDERFLOW"
    using wire assms(4,5) f(2) by (simp_all add: nth_Cons')
  have "off_wire s1 = off_wire s" unfolding s1_def by (rule off_wire_exchange)
  note same = off_wire_parts [OF this]
  have waiting1: "waiting s1 = []" using assms(6) same(3) by (simp add: waiting_def)
  have "decoder_ok (a_decode s1)" "de_decoded (a_decode s1) = 0" "buffer_ok (fl_shift_data (a_flush s1))"
    "fl_drain (a_flush s1) = 0" "length (buffer_held (fl_shift_data (a_flush s1))) + length p \<le> 229"
    using assms(2,3,8-10) same(1,2) by simp_all
  from columns_decoded [OF s1(1) this(1,2) s1(2,3) waiting1 this(3-5) fits(2) assms(12)] obtain s2 where
    s2: "decode_try s1 = Some s2"
    "buffer_held (fl_shift_data (a_flush s2)) = buffer_held (fl_shift_data (a_flush s1)) @ p"
    "waiting s2 = avr_frame MSG_ID_STATUS n [STATUS_SUCCESS, MSG_ID_LED_ARRAY]" "sent s2 = []"
    "received s2 = []" "avr_link_ok s2" "buffer_ok (fl_shift_data (a_flush s2))"
    "\<forall>r. io_get r s2 = io_get r s1" by blast
  have "length (buffer_held (fl_shift_data (a_flush s2))) \<le> 229" "waiting s2 \<noteq> []"
    using s2(2,3) assms(10) same(2) by (simp_all add: avr_frame_def)
  note out = columns_answered [OF s2(6,7,4,5) this]
  have answer: "sent (postpone_try s2) = encode_wrap [n, MSG_ID_STATUS, STATUS_SUCCESS, MSG_ID_LED_ARRAY]"
    by (simp only: out(2) s2(3) avr_frame_wrap)
  have "bs = take (length ?f) (io_get SPDR s # replicate (length ?f) SPI_WRITE_UNDERFLOW)"
    using wire assms(5) by simp
  then have "list_all (\<lambda>b. b \<noteq> EYE_CATCH) bs"
    using assms(7) set_take_subset [of "length ?f" "io_get SPDR s # replicate (length ?f) SPI_WRITE_UNDERFLOW"]
    by (auto simp: list_all_iff)
  then have quiet: "feed mcu_parse_push (mh_parse h) bs = (mcu_parse_new, [])"
    unfolding assms(14) by (rule feed_filler)
  have b: "n = m_pending_id (block_engage (mh_block h) n)"
    using assms(12,15) by (simp add: block_engage_def)
  have serial: "decode_get_serial ?msg = Some n" by (simp add: encode_join_bytes)
  have ex1: "spi_exchange (encode_wrap ?msg) s = (bs, s1)" using ex f(1) by simp
  have none: "\<forall>m \<in> set []. 2 \<le> length m \<and> (hd m = 0 \<or> hd m = n)" by simp
  obtain h1 where h1: "link_write ?msg (h, s) = Inr (h1, s1)" "mh_parse h1 = mcu_parse_new"
    "spi_dev_ok (mh_device h1)" "m_holder (mh_from_queue h1) = m_holder (mh_from_queue h)"
    "m_pending_id (mh_block h1) = n"
    using link_write_effect [OF assms(13) serial ex1 quiet b none] by auto
  have "io_get SPDR (postpone_try s2) = SPI_WRITE_UNDERFLOW" using out(6) s2(8) s1(4) by simp
  moreover have "n \<noteq> 0" using assms(12) by simp
  ultimately obtain h3 s3 h4 s4 where fetch: "link_write idle_msg (h1, postpone_try s2) = Inr (h3, s3)"
    "m_pending_id (mh_block h3) = n" "link_write idle_msg (h3, s3) = Inr (h4, s4)"
    "\<not> block_is_engaged (mh_block h4)" "\<not> line_up s4"
    "m_holder (mh_from_queue h4) = m_holder (mh_from_queue h1) @ [[n, MSG_ID_STATUS, STATUS_SUCCESS, MSG_ID_LED_ARRAY]]"
    using fetch_confirmation [OF out(1,3) answer _ h1(3,2,5)] by blast
  have "block_is_engaged (mh_block h3)" using fetch(2) assms(12) by (simp add: block_is_engaged_def)
  then show ?thesis using h1 s2(1,2) out(5) fetch same(2) by metis
qed

lemma columns_over_wire_witness:
  "\<exists>h1 s1 s2 h3 s3 h4 s4.
    link_write (encode_join 9 MSG_ID_LED_ARRAY [Arr [1, 2, 3]]) (mcu_handle_new False, avr_reset) = Inr (h1, s1) \<and>
    decode_try s1 = Some s2 \<and> link_write idle_msg (h1, postpone_try s2) = Inr (h3, s3) \<and>
    link_write idle_msg (h3, s3) = Inr (h4, s4) \<and>
    m_holder (mh_from_queue h4) = [[9, MSG_ID_STATUS, STATUS_SUCCESS, MSG_ID_LED_ARRAY]]"
proof -
  have zero: "sent avr_reset = []" "waiting avr_reset = []" "de_decoded (a_decode avr_reset) = 0"
    "buffer_held (fl_shift_data (a_flush avr_reset)) = []" "fl_drain (a_flush avr_reset) = 0"
    "io_get SPDR avr_reset \<noteq> EYE_CATCH"
    by (simp_all add: sent_def waiting_def avr_reset_def buffer_zero_def buffer_held_def ring_abs_def io_get_def)
  have new: "spi_dev_ok (mh_device (mcu_handle_new False))" "mh_parse (mcu_handle_new False) = mcu_parse_new"
    "\<not> block_is_engaged (mh_block (mcu_handle_new False))" "m_holder (mh_from_queue (mcu_handle_new False)) = []"
    by (simp_all add: mcu_handle_new_def spi_dev_ok_def spi_dev_new_def block_is_engaged_def mcu_block_new_def)
  show ?thesis
    using columns_over_wire [OF link_zero(1) decode_zero(1) zero(3) decode_zero(3) zero(1,2,6) link_zero(2)
        zero(5), of "[1, 2, 3]" 9 "mcu_handle_new False"] zero(4) new by (simp only: append_Nil) fastforce
qed

end
