(* ===== verification/Old_Queue.thy ===== *)
theory Old_Queue
  imports Avr_Fifo
begin

text \<open>
  The queue of the previous controller, \<open>src/obsoleted/avr-2560/queue.c\<close>: an array whose first four
  cells hold its size, the positions of the oldest byte and of the next one to be written, and a
  flag for a full queue. The successor, \<open>src/src/avr/ring.c\<close>, has no such flag. Each function runs
  inside \<open>ATOMIC_BLOCK\<close>. \<open>queue_held\<close> reads the bytes held; the locale \<open>exact_queue\<close> is interpreted on
  the operations, which refine a bounded queue also where they fill it completely.
\<close>

section \<open>Operations\<close>

definition Q_SIZE :: nat where "Q_SIZE = 0"
definition Q_START :: nat where "Q_START = 1"
definition Q_FINISH :: nat where "Q_FINISH = 2"
definition Q_FULL :: nat where "Q_FULL = 3"
definition Q_SHIFT :: u8 where "Q_SHIFT = 4"

lemmas q_cell_defs = Q_SIZE_def Q_START_def Q_FINISH_def Q_FULL_def Q_SHIFT_def

definition get_capacity :: "bytes \<Rightarrow> u8" where
  "get_capacity buf = buf ! Q_SIZE - Q_SHIFT"

definition get_size :: "bytes \<Rightarrow> u8" where
  "get_size buf =
     (if buf ! Q_FULL \<noteq> 0 then get_capacity buf
      else if buf ! Q_FINISH \<ge> buf ! Q_START then buf ! Q_FINISH - buf ! Q_START
      else get_capacity buf - (buf ! Q_START - buf ! Q_FINISH))"

text \<open>The difference is one of \<open>int\<close>s.\<close>

definition is_fillable :: "bytes \<Rightarrow> u8 \<Rightarrow> u8" where
  "is_fillable buf fill_size =
     (if buf ! Q_FULL \<noteq> 0 then 0
      else of_flag (uint (get_capacity buf) - uint (get_size buf) \<ge> uint fill_size))"

definition is_drainable :: "bytes \<Rightarrow> u8 \<Rightarrow> u8" where
  "is_drainable buf drain_size = of_flag (get_size buf \<ge> drain_size)"

definition fill_symbol :: "bytes \<Rightarrow> u8 \<Rightarrow> bytes" where
  "fill_symbol buf symbol =
     (let buf = buf[unat (buf ! Q_FINISH) := symbol];
          buf = buf[Q_FINISH := buf ! Q_FINISH + 1];
          buf = (if buf ! Q_FINISH = buf ! Q_SIZE then buf[Q_FINISH := Q_SHIFT] else buf)
      in if buf ! Q_FINISH = buf ! Q_START then buf[Q_FULL := 1] else buf)"

definition drain_symbol :: "bytes \<Rightarrow> u8 \<times> bytes" where
  "drain_symbol buf =
     (let symbol = buf ! unat (buf ! Q_START);
          buf = buf[Q_START := buf ! Q_START + 1];
          buf = (if buf ! Q_START = buf ! Q_SIZE then buf[Q_START := Q_SHIFT] else buf)
      in (symbol, if buf ! Q_FULL = 1 then buf[Q_FULL := 0] else buf))"

definition queue_init :: "bytes \<Rightarrow> u8 \<Rightarrow> bytes" where
  "queue_init buf max_size =
     (let buf = buf[Q_SIZE := max_size];
          buf = buf[Q_START := Q_SHIFT];
          buf = buf[Q_FINISH := Q_SHIFT];
          buf = buf[Q_FULL := 0]
      in fold (\<lambda>i b. b[i := QUEUE_INIT_PATTERN]) [unat Q_SHIFT..<unat max_size] buf)"

definition queue_size :: "bytes \<Rightarrow> u8" where
  "queue_size buf = get_size buf"

definition queue_clear :: "bytes \<Rightarrow> bytes" where
  "queue_clear buf = queue_init buf (buf ! Q_SIZE)"

definition queue_space :: "bytes \<Rightarrow> u8" where
  "queue_space buf = get_capacity buf - get_size buf"

definition queue_symbol_fill :: "bytes \<Rightarrow> u8 \<Rightarrow> u8 \<times> bytes" where
  "queue_symbol_fill buf symbol =
     (let status = is_fillable buf 1
      in (status, if status \<noteq> 0 then fill_symbol buf symbol else buf))"

definition queue_symbol_drain :: "bytes \<Rightarrow> u8 \<Rightarrow> u8 \<times> bytes \<times> u8" where
  "queue_symbol_drain buf symbol =
     (let status = is_drainable buf 1
      in if status \<noteq> 0 then (case drain_symbol buf of (b, buf') \<Rightarrow> (status, buf', b))
         else (status, buf, symbol))"

text \<open>The position after \<open>n\<close> steps, each of which wraps.\<close>

definition next_cell :: "bytes \<Rightarrow> u8 \<Rightarrow> u8" where
  "next_cell buf j = (if j + 1 = buf ! Q_SIZE then Q_SHIFT else j + 1)"

text \<open>The argument of \<open>is_drainable\<close> is a byte: the index 255 asks for zero bytes.\<close>

definition queue_symbol_get :: "bytes \<Rightarrow> u8 \<Rightarrow> u8 \<Rightarrow> u8 \<times> u8" where
  "queue_symbol_get buf index symbol =
     (let status = of_flag (is_drainable buf (index + 1) \<noteq> 0)
      in (status,
          if status \<noteq> 0
          then buf ! unat (fold (\<lambda>_ j. next_cell buf j) [0..<unat index] (buf ! Q_START))
          else symbol))"

definition queue_array_fill :: "bytes \<Rightarrow> bytes \<Rightarrow> u8 \<Rightarrow> u8 \<times> bytes" where
  "queue_array_fill buf arr fill_size =
     (let status = is_fillable buf fill_size
      in (status,
          if status \<noteq> 0 then fold (\<lambda>i b. fill_symbol b (arr ! i)) [0..<unat fill_size] buf else buf))"

definition queue_drain_step :: "nat \<Rightarrow> bytes \<times> bytes \<Rightarrow> bytes \<times> bytes" where
  "queue_drain_step i p = (case p of (buf, arr) \<Rightarrow>
     case drain_symbol buf of (b, buf) \<Rightarrow> (buf, arr[i := b]))"

definition queue_array_drain :: "bytes \<Rightarrow> bytes \<Rightarrow> u8 \<Rightarrow> u8 \<times> bytes \<times> bytes" where
  "queue_array_drain buf arr drain_size =
     (let status = is_drainable buf drain_size
      in (status, if status \<noteq> 0 then fold queue_drain_step [0..<unat drain_size] (buf, arr) else (buf, arr)))"

definition queue_is_fillable :: "bytes \<Rightarrow> u8 \<Rightarrow> u8" where
  "queue_is_fillable buf fill_size = is_fillable buf fill_size"

definition queue_is_drainable :: "bytes \<Rightarrow> u8 \<Rightarrow> u8" where
  "queue_is_drainable buf drain_size = is_drainable buf drain_size"

section \<open>The bytes held\<close>

definition queue_ok :: "nat \<Rightarrow> bytes \<Rightarrow> bool" where
  "queue_ok cap buf \<longleftrightarrow> 0 < cap \<and> cap \<le> 251 \<and> cap + 4 \<le> length buf \<and> unat (buf ! Q_SIZE) = cap + 4 \<and>
     unat (buf ! Q_START) \<in> {4..<cap + 4} \<and> unat (buf ! Q_FINISH) \<in> {4..<cap + 4} \<and>
     buf ! Q_FULL \<in> {0, 1} \<and> (buf ! Q_FULL = 1 \<longrightarrow> buf ! Q_START = buf ! Q_FINISH)"

text \<open>The cell of the byte with index \<open>i\<close>, and the number of bytes.\<close>

definition cell :: "nat \<Rightarrow> nat \<Rightarrow> nat \<Rightarrow> nat" where
  "cell cap start i = (if start + i < cap + 4 then start + i else start + i - cap)"

definition queue_count :: "nat \<Rightarrow> bytes \<Rightarrow> nat" where
  "queue_count cap buf =
     (let s = unat (buf ! Q_START); f = unat (buf ! Q_FINISH)
      in if buf ! Q_FULL \<noteq> 0 then cap else if s \<le> f then f - s else cap + f - s)"

definition queue_held :: "nat \<Rightarrow> bytes \<Rightarrow> bytes" where
  "queue_held cap buf = map (\<lambda>i. buf ! cell cap (unat (buf ! Q_START)) i) [0..<queue_count cap buf]"

lemma queue_okD:
  assumes "queue_ok cap buf"
  shows "0 < cap" "cap \<le> 251" "cap + 4 \<le> length buf" "unat (buf ! 0) = cap + 4"
    "4 \<le> unat (buf ! 1)" "unat (buf ! 1) < cap + 4" "4 \<le> unat (buf ! 2)" "unat (buf ! 2) < cap + 4"
    "buf ! 3 = 0 \<or> buf ! 3 = 1" "buf ! 3 = 1 \<Longrightarrow> buf ! 1 = buf ! 2"
  using assms by (auto simp: queue_ok_def q_cell_defs)

text \<open>Reading the header.\<close>

lemma capacity_count: "queue_ok cap buf \<Longrightarrow> unat (get_capacity buf) = cap"
  using queue_okD [of cap buf] by (simp add: get_capacity_def q_cell_defs unat_u8_minus u8_le_iff)

lemma size_count:
  assumes "queue_ok cap buf"
  shows "unat (get_size buf) = queue_count cap buf"
proof -
  note ok = queue_okD [OF assms]
  have cap: "unat (get_capacity buf) = cap" by (rule capacity_count [OF assms])
  show ?thesis
  proof (cases "buf ! 3 = 0 \<and> unat (buf ! 2) < unat (buf ! 1)")
    case True
    then have "unat (buf ! 1 - buf ! 2) = unat (buf ! 1) - unat (buf ! 2)"
      by (simp add: unat_u8_minus u8_le_iff)
    moreover from this have "buf ! 1 - buf ! 2 \<le> get_capacity buf" using cap ok by (simp add: u8_le_iff)
    ultimately show ?thesis
      using True cap ok by (simp add: get_size_def queue_count_def q_cell_defs u8_le_iff unat_u8_minus)
  next
    case False
    then show ?thesis
      using cap ok by (auto simp: get_size_def queue_count_def q_cell_defs u8_le_iff unat_u8_minus Let_def)
  qed
qed

lemma count_le: "queue_ok cap buf \<Longrightarrow> queue_count cap buf \<le> cap"
  using queue_okD [of cap buf] by (auto simp: queue_count_def q_cell_defs Let_def)

lemma held_length [simp]: "length (queue_held cap buf) = queue_count cap buf"
  by (simp add: queue_held_def)

lemma full_count: "queue_ok cap buf \<Longrightarrow> (queue_count cap buf = cap) = (buf ! 3 \<noteq> 0)"
  using queue_okD [of cap buf] by (auto simp: queue_count_def q_cell_defs Let_def)

lemma fillable_count:
  assumes "queue_ok cap buf"
  shows "is_fillable buf n = of_flag (queue_count cap buf < cap \<and> queue_count cap buf + unat n \<le> cap)"
proof -
  have "uint (get_capacity buf) - uint (get_size buf) \<ge> uint n
      \<longleftrightarrow> int cap - int (queue_count cap buf) \<ge> int (unat n)"
    by (simp only: uint_nat capacity_count [OF assms] size_count [OF assms])
  also have "\<dots> \<longleftrightarrow> queue_count cap buf + unat n \<le> cap" by linarith
  finally show ?thesis
    using count_le [OF assms] full_count [OF assms]
    by (cases "buf ! 3 = 0") (simp_all add: is_fillable_def q_cell_defs)
qed

lemma drainable_count:
  "queue_ok cap buf \<Longrightarrow> is_drainable buf n = of_flag (unat n \<le> queue_count cap buf)"
  using size_count [of cap buf] by (simp add: is_drainable_def u8_le_iff)

text \<open>The cell for the next byte, and where the byte after the oldest one lies.\<close>

lemma cell_range: "4 \<le> s \<Longrightarrow> s < cap + 4 \<Longrightarrow> i < cap \<Longrightarrow> 4 \<le> cell cap s i \<and> cell cap s i < cap + 4"
  by (auto simp: cell_def)

lemma cell_inj: "s < cap + 4 \<Longrightarrow> i < cap \<Longrightarrow> j < cap \<Longrightarrow> cell cap s i = cell cap s j \<Longrightarrow> i = j"
  by (auto simp: cell_def split: if_splits)

lemma cell_finish:
  "queue_ok cap buf \<Longrightarrow> queue_count cap buf < cap \<Longrightarrow>
   cell cap (unat (buf ! 1)) (queue_count cap buf) = unat (buf ! 2)"
  using queue_okD [of cap buf] by (auto simp: queue_count_def cell_def q_cell_defs Let_def split: if_splits)

section \<open>Filling and draining\<close>

lemma unat_wrap:
  assumes "unat (x :: u8) < cap + 4" "cap \<le> 251" "unat y = cap + 4"
  shows "unat (if x + 1 = y then 4 else x + 1) = (if unat x + 1 = cap + 4 then 4 else unat x + 1)"
proof -
  have "unat (x + 1) = unat x + 1" using assms(1,2) by (simp add: unat_u8_Suc)
  then show ?thesis using assms(3) by (auto simp: u8_eq_iff)
qed

lemma fill_symbol_cells:
  assumes "queue_ok cap buf"
  shows "(let r = fill_symbol buf b; f = unat (buf ! 2); f' = (if f + 1 = cap + 4 then 4 else f + 1)
          in length r = length buf \<and> r ! 0 = buf ! 0 \<and> r ! 1 = buf ! 1 \<and> unat (r ! 2) = f' \<and>
             r ! 3 = (if f' = unat (buf ! 1) then 1 else buf ! 3) \<and>
             (\<forall>k \<ge> 4. r ! k = (if k = f then b else buf ! k)))"
proof -
  note ok = queue_okD [OF assms]
  note wrap = unat_wrap [OF ok(8,2,4)]
  have "buf ! 2 + 1 = buf ! 0 \<longleftrightarrow> unat (buf ! 2) + 1 = cap + 4"
    using ok by (simp add: u8_eq_iff unat_u8_Suc)
  moreover have "buf ! 2 + 1 = buf ! 1 \<longleftrightarrow> unat (buf ! 2) + 1 = unat (buf ! 1)"
    using ok by (simp add: u8_eq_iff unat_u8_Suc)
  moreover have "buf ! 1 = 4 \<longleftrightarrow> unat (buf ! 1) = 4" by (simp add: u8_eq_iff)
  ultimately show ?thesis
    using ok by (auto simp: fill_symbol_def q_cell_defs Let_def nth_list_update unat_u8_Suc)
qed

lemma fill_symbol_held:
  assumes "queue_ok cap buf" "queue_count cap buf < cap"
  shows "queue_ok cap (fill_symbol buf b)" "queue_held cap (fill_symbol buf b) = queue_held cap buf @ [b]"
proof -
  let ?r = "fill_symbol buf b" and ?s = "unat (buf ! 1)" and ?f = "unat (buf ! 2)" and ?n = "queue_count cap buf"
  note ok = queue_okD [OF assms(1)]
  note r = fill_symbol_cells [OF assms(1), of b, unfolded Let_def]
  have full: "buf ! 3 = 0" using full_count [OF assms(1)] assms(2) ok(9) by auto
  have count: "?n = (if ?s \<le> ?f then ?f - ?s else cap + ?f - ?s)"
    using full by (simp add: queue_count_def q_cell_defs)
  have eq: "?r ! 1 = ?r ! 2 \<longleftrightarrow> ?s = unat (?r ! 2)" using r by (simp add: u8_eq_iff)
  show q: "queue_ok cap ?r"
    using r ok full eq by (auto simp: queue_ok_def q_cell_defs split: if_splits)
  have grow: "queue_count cap ?r = Suc ?n"
    using r count full ok assms(2) by (auto simp: queue_count_def q_cell_defs Let_def split: if_splits)
  have f: "cell cap ?s ?n = ?f" by (rule cell_finish [OF assms])
  have "?r ! cell cap ?s i = buf ! cell cap ?s i" if "i < ?n" for i
  proof -
    have "cell cap ?s i \<noteq> ?f" using cell_inj [OF ok(6) _ assms(2), of i] f that assms(2) by auto
    moreover have "4 \<le> cell cap ?s i" using cell_range [OF ok(5,6), of i] that assms(2) by simp
    ultimately show ?thesis using r by simp
  qed
  moreover have "?r ! ?f = b" using r ok(7) by simp
  ultimately show "queue_held cap ?r = queue_held cap buf @ [b]"
    using f r by (simp add: queue_held_def grow q_cell_defs)
qed

lemma drain_symbol_cells:
  assumes "queue_ok cap buf"
  shows "(let r = snd (drain_symbol buf); s = unat (buf ! 1); s' = (if s + 1 = cap + 4 then 4 else s + 1)
          in length r = length buf \<and> r ! 0 = buf ! 0 \<and> unat (r ! 1) = s' \<and> r ! 2 = buf ! 2 \<and>
             r ! 3 = 0 \<and> (\<forall>k \<ge> 4. r ! k = buf ! k))"
proof -
  note ok = queue_okD [OF assms]
  have "buf ! 1 + 1 = buf ! 0 \<longleftrightarrow> unat (buf ! 1) + 1 = cap + 4"
    using ok by (simp add: u8_eq_iff unat_u8_Suc)
  then show ?thesis
    using ok by (auto simp: drain_symbol_def q_cell_defs Let_def nth_list_update unat_u8_Suc)
qed

lemma drain_symbol_held:
  assumes "queue_ok cap buf" "queue_count cap buf \<noteq> 0"
  shows "queue_ok cap (snd (drain_symbol buf))" "fst (drain_symbol buf) = hd (queue_held cap buf)"
    "queue_held cap (snd (drain_symbol buf)) = tl (queue_held cap buf)"
proof -
  let ?r = "snd (drain_symbol buf)" and ?s = "unat (buf ! 1)" and ?f = "unat (buf ! 2)"
    and ?n = "queue_count cap buf"
  note ok = queue_okD [OF assms(1)]
  note r = drain_symbol_cells [OF assms(1), unfolded Let_def]
  show q: "queue_ok cap ?r"
    using r ok by (auto simp: queue_ok_def q_cell_defs split: if_splits)
  have full: "buf ! 3 = 1 \<Longrightarrow> ?s = ?f" using ok(10) by simp
  have count: "?n = (if buf ! 3 \<noteq> 0 then cap else if ?s \<le> ?f then ?f - ?s else cap + ?f - ?s)"
    by (simp add: queue_count_def q_cell_defs Let_def)
  have shrink: "queue_count cap ?r = ?n - 1"
    using r count full ok assms(2) by (auto simp: queue_count_def q_cell_defs Let_def split: if_splits)
  have le: "?n \<le> cap" by (rule count_le [OF assms(1)])
  have first: "[0..<?n] = 0 # map Suc [0..<?n - 1]"
    using assms(2) by (cases ?n) (simp_all add: upt_conv_Cons map_Suc_upt del: upt_Suc)
  have "?r ! cell cap (unat (?r ! 1)) i = buf ! cell cap ?s (Suc i)" if "i < ?n - 1" for i
  proof -
    have "cell cap (unat (?r ! 1)) i = cell cap ?s (Suc i)"
      using r ok that le by (auto simp: cell_def)
    moreover have "4 \<le> cell cap ?s (Suc i)" using cell_range [OF ok(5,6), of "Suc i"] that le by simp
    ultimately show ?thesis using r by simp
  qed
  then show "queue_held cap ?r = tl (queue_held cap buf)"
    unfolding queue_held_def shrink first by (simp add: q_cell_defs)
  have "cell cap ?s 0 = ?s" using ok(6) by (simp add: cell_def)
  moreover have "fst (drain_symbol buf) = buf ! ?s"
    by (simp add: drain_symbol_def q_cell_defs Let_def)
  ultimately show "fst (drain_symbol buf) = hd (queue_held cap buf)"
    unfolding queue_held_def first by (simp add: q_cell_defs)
qed

section \<open>Refinement\<close>

lemma next_cells:
  assumes "queue_ok cap buf" "i < cap"
  shows "unat (fold (\<lambda>_ j. next_cell buf j) [0..<i] (buf ! Q_START)) = cell cap (unat (buf ! 1)) i"
  using assms(2)
proof (induction i)
  case 0
  then show ?case using queue_okD [OF assms(1)] by (simp add: cell_def q_cell_defs)
next
  case (Suc i)
  note ok = queue_okD [OF assms(1)]
  let ?j = "fold (\<lambda>_ j. next_cell buf j) [0..<i] (buf ! Q_START)"
  have j: "unat ?j = cell cap (unat (buf ! 1)) i" using Suc by simp
  then have "unat ?j < cap + 4" using cell_range [OF ok(5,6), of i] Suc.prems by simp
  from unat_wrap [OF this ok(2,4)]
  have "unat (next_cell buf ?j) = (if unat ?j + 1 = cap + 4 then 4 else unat ?j + 1)"
    unfolding next_cell_def q_cell_defs .
  moreover have "fold (\<lambda>_ j. next_cell buf j) [0..<Suc i] (buf ! Q_START) = next_cell buf ?j" by simp
  ultimately show ?case
    using ok(5,6) Suc.prems by (simp only: j) (auto simp: cell_def split: if_splits)
qed

lemma get_held_byte:
  assumes "queue_ok cap buf" "i \<noteq> 255"
  shows "queue_symbol_get buf i b =
    (if unat i < length (queue_held cap buf) then (1, queue_held cap buf ! unat i) else (0, b))"
proof -
  have "unat i \<noteq> unat (255 :: u8)" using assms(2) by (simp only: u8_eq_iff not_False_eq_True)
  moreover have "unat i \<le> unat (255 :: u8)" using unat_u8_le [of i] by simp
  ultimately have "unat i < unat (255 :: u8)" by (rule le_neq_implies_less [rotated])
  then have "unat i < 255" by simp
  then have "is_drainable buf (i + 1) = of_flag (unat i < queue_count cap buf)"
    unfolding drainable_count [OF assms(1)] by (simp add: unat_u8_Suc Suc_le_eq)
  moreover have "buf ! unat (fold (\<lambda>_ j. next_cell buf j) [0..<unat i] (buf ! Q_START)) = queue_held cap buf ! unat i"
    if "unat i < queue_count cap buf"
    using next_cells [OF assms(1), of "unat i"] that count_le [OF assms(1)]
    by (simp add: queue_held_def q_cell_defs)
  ultimately show ?thesis by (simp add: queue_symbol_get_def)
qed

lemma fill_symbols_held:
  "queue_ok cap buf \<Longrightarrow> queue_count cap buf + n \<le> cap \<Longrightarrow> n \<le> length arr \<Longrightarrow>
   queue_ok cap (fold (\<lambda>i b. fill_symbol b (arr ! i)) [0..<n] buf) \<and>
   queue_held cap (fold (\<lambda>i b. fill_symbol b (arr ! i)) [0..<n] buf) = queue_held cap buf @ take n arr"
proof (induction n)
  case 0
  then show ?case by simp
next
  case (Suc n)
  let ?r = "fold (\<lambda>i b. fill_symbol b (arr ! i)) [0..<n] buf"
  have IH: "queue_ok cap ?r" "queue_held cap ?r = queue_held cap buf @ take n arr" using Suc by simp_all
  from arg_cong [OF IH(2), of length] have "queue_count cap ?r < cap" using Suc.prems by simp
  from fill_symbol_held [OF IH(1) this, of "arr ! n"] show ?case
    using IH(2) Suc.prems(3) by (simp add: take_Suc_conv_app_nth)
qed

lemma drain_symbols_held:
  "queue_ok cap buf \<Longrightarrow> n \<le> queue_count cap buf \<Longrightarrow> n \<le> length arr \<Longrightarrow>
   (case fold queue_drain_step [0..<n] (buf, arr) of (r, out) \<Rightarrow>
      queue_ok cap r \<and> queue_held cap r = drop n (queue_held cap buf) \<and>
      out = take n (queue_held cap buf) @ drop n arr)"
proof (induction n)
  case 0
  then show ?case by simp
next
  case (Suc n)
  obtain r out where r: "fold queue_drain_step [0..<n] (buf, arr) = (r, out)" by fastforce
  with Suc have IH: "queue_ok cap r" "queue_held cap r = drop n (queue_held cap buf)"
    "out = take n (queue_held cap buf) @ drop n arr" by simp_all
  have n: "n < length (queue_held cap buf)" using Suc.prems(2) by simp
  from arg_cong [OF IH(2), of length] have "queue_count cap r \<noteq> 0" using Suc.prems(2) by simp
  note d = drain_symbol_held [OF IH(1) this]
  have "hd (queue_held cap r) = queue_held cap buf ! n" using IH(2) n by (simp add: hd_drop_conv_nth)
  then have "out[n := hd (queue_held cap r)] = take (Suc n) (queue_held cap buf) @ drop (Suc n) arr"
    using IH(3) n Suc.prems(3)
    by (simp add: list_update_append take_Suc_conv_app_nth Cons_nth_drop_Suc [symmetric])
  moreover have "queue_drain_step n (r, out) = (snd (drain_symbol r), out[n := hd (queue_held cap r)])"
    using d(2) by (simp add: queue_drain_step_def case_prod_beta)
  ultimately show ?case using d(1,3) r IH(2) by (simp add: drop_Suc tl_drop)
qed

lemma held_empty: "(queue_held cap buf = []) = (queue_count cap buf = 0)"
  by (simp add: queue_held_def)

text \<open>The operations as an exact queue of any capacity.\<close>

interpretation old_queue: exact_queue cap queue_size queue_space queue_symbol_fill queue_symbol_drain
  queue_array_fill queue_array_drain "queue_held cap" "queue_ok cap" queue_symbol_get
  for cap
proof unfold_locales
  fix q :: bytes and b n i :: u8 and arr :: bytes
  assume ok: "queue_ok cap q"
  have le: "queue_count cap q \<le> cap" by (rule count_le [OF ok])
  show "length (queue_held cap q) \<le> cap" using le by simp
  show "unat (queue_size q) = length (queue_held cap q)" using size_count [OF ok] by (simp add: queue_size_def)
  show "unat (queue_space q) = cap - length (queue_held cap q)"
    using le capacity_count [OF ok] size_count [OF ok] by (simp add: queue_space_def unat_u8_minus u8_le_iff)
  show "length (queue_held cap q) = cap \<Longrightarrow> queue_symbol_fill q b = (0, q)"
    using fillable_count [OF ok] by (simp add: queue_symbol_fill_def)
  show "queue_held cap q = [] \<Longrightarrow> queue_symbol_drain q b = (0, q, b)"
    using drainable_count [OF ok] by (simp add: queue_symbol_drain_def held_empty)
  show "queue_held cap q \<noteq> [] \<Longrightarrow>
      \<exists>q'. queue_symbol_drain q b = (1, q', hd (queue_held cap q)) \<and> queue_ok cap q' \<and>
        queue_held cap q' = tl (queue_held cap q)"
    using drainable_count [OF ok, of 1] drain_symbol_held [OF ok]
    by (simp add: queue_symbol_drain_def Let_def case_prod_beta Suc_le_eq held_empty)
  show "cap < unat n + length (queue_held cap q) \<Longrightarrow> queue_array_fill q arr n = (0, q)"
    using fillable_count [OF ok] by (simp add: queue_array_fill_def)
  show "length (queue_held cap q) < unat n \<Longrightarrow> queue_array_drain q arr n = (0, q, arr)"
    using drainable_count [OF ok] by (simp add: queue_array_drain_def)
  show "unat n \<le> length (queue_held cap q) \<Longrightarrow> unat n \<le> length arr \<Longrightarrow>
      \<exists>q'. queue_array_drain q arr n = (1, q', take (unat n) (queue_held cap q) @ drop (unat n) arr) \<and>
        queue_ok cap q' \<and> queue_held cap q' = drop (unat n) (queue_held cap q)"
    using drainable_count [OF ok] drain_symbols_held [OF ok, of "unat n" arr]
    by (cases "fold queue_drain_step [0..<unat n] (q, arr)") (auto simp: queue_array_drain_def)
  show "i \<noteq> 255 \<Longrightarrow> queue_symbol_get q i b =
      (if unat i < length (queue_held cap q) then (1, queue_held cap q ! unat i) else (0, b))"
    by (rule get_held_byte [OF ok])
  show "Suc (length (queue_held cap q)) < cap \<Longrightarrow>
      \<exists>q'. queue_symbol_fill q b = (1, q') \<and> queue_ok cap q' \<and> queue_held cap q' = queue_held cap q @ [b]"
    "Suc (length (queue_held cap q)) = cap \<Longrightarrow>
      \<exists>q'. queue_symbol_fill q b = (1, q') \<and> queue_ok cap q' \<and> queue_held cap q' = queue_held cap q @ [b]"
    using fillable_count [OF ok, of 1] fill_symbol_held [OF ok, of b] by (simp_all add: queue_symbol_fill_def)
  show "length (queue_held cap q) + unat n < cap \<Longrightarrow> unat n \<le> length arr \<Longrightarrow>
      \<exists>q'. queue_array_fill q arr n = (1, q') \<and> queue_ok cap q' \<and>
        queue_held cap q' = queue_held cap q @ take (unat n) arr"
    using fillable_count [OF ok, of n] fill_symbols_held [OF ok, of "unat n" arr] le
    by (simp add: queue_array_fill_def)
  show "0 < unat n \<Longrightarrow> length (queue_held cap q) + unat n = cap \<Longrightarrow> unat n \<le> length arr \<Longrightarrow>
      \<exists>q'. queue_array_fill q arr n = (1, q') \<and> queue_ok cap q' \<and>
        queue_held cap q' = queue_held cap q @ take (unat n) arr"
    using fillable_count [OF ok, of n] fill_symbols_held [OF ok, of "unat n" arr]
    by (simp add: queue_array_fill_def)
qed

definition old_queue_step :: "queue_op \<Rightarrow> bytes \<Rightarrow> bytes \<times> bytes" where
  "old_queue_step = queue_step queue_size queue_space queue_symbol_fill queue_symbol_drain queue_symbol_get
     queue_array_fill queue_array_drain"

lemma queue_init_ok:
  assumes "4 < unat sz" "unat sz \<le> length buf"
  shows "queue_ok (unat sz - 4) (queue_init buf sz)" "queue_held (unat sz - 4) (queue_init buf sz) = []"
proof -
  let ?b = "buf[0 := sz, Suc 0 := 4, 2 := 4, 3 := 0]"
  have "0 < length buf" using assms by linarith
  then have zero: "buf[0 := sz] ! 0 = sz" by simp
  have cells: "length (fold (\<lambda>i b. b[i := c]) [4..<n] ?b) = length ?b \<and>
      (\<forall>k < 4. fold (\<lambda>i b. b[i := c]) [4..<n] ?b ! k = ?b ! k)" for n and c :: u8
    by (induction n) auto
  have "queue_init buf sz = fold (\<lambda>i b. b[i := QUEUE_INIT_PATTERN]) [4..<unat sz] ?b"
    by (simp add: queue_init_def q_cell_defs Let_def)
  then have r: "length (queue_init buf sz) = length buf" "queue_init buf sz ! 0 = sz"
    "queue_init buf sz ! 1 = 4" "queue_init buf sz ! 2 = 4" "queue_init buf sz ! 3 = 0"
    using cells [of QUEUE_INIT_PATTERN "unat sz"] assms zero by simp_all
  then show "queue_ok (unat sz - 4) (queue_init buf sz)"
  proof -
    have "unat sz - 4 \<le> 251" using unat_u8_le [of sz] by linarith
    with r assms show ?thesis by (simp add: queue_ok_def q_cell_defs)
  qed
  show "queue_held (unat sz - 4) (queue_init buf sz) = []"
    using r by (simp add: queue_held_def queue_count_def q_cell_defs)
qed

text \<open>
  The queue of the previous controller was right where its successor is not: from its initialisation
  on every sequence of operations, also one that fills it completely, is answered as by a list of
  bounded length, byte for byte and status for status (for indices below 255 and arrays that are
  not empty).
\<close>

theorem old_queue_refines_fifo:
  assumes "4 < unat sz" "unat sz \<le> length buf" "list_all proper_op ops"
  shows "fst (run_ops old_queue_step ops (queue_init buf sz)) = fst (run_ops (fifo_step (unat sz - 4)) ops [])"
  using old_queue.exact_run_refines [OF queue_init_ok(1) [OF assms(1,2)] assms(3)]
  unfolding old_queue_step_def queue_init_ok(2) [OF assms(1,2)] by auto

lemma old_queue_refines_fifo_witness:
  "fst (run_ops old_queue_step [Fill 7, Fill 8, Drain, Fill 9, Size, Fill 10, Drain_array 2] (queue_init (replicate 6 0) 6))
     = [[1], [1], [1, 7], [1], [2], [0], [1, 8, 9]]"
  by (subst old_queue_refines_fifo) simp_all

text \<open>An index of 255 asks whether zero bytes can be drained, which is always so.\<close>

lemma old_queue_get_last:
  assumes "queue_ok cap buf"
  shows "fst (queue_symbol_get buf 255 b) = 1"
proof -
  have "(255 :: u8) + 1 = 0" by (simp add: u8_eq_iff unat_u8_plus_mod)
  then show ?thesis using drainable_count [OF assms, of 0] by (simp only: queue_symbol_get_def Let_def fst_conv) simp
qed

end
