(* ===== verification/Old_Control.thy ===== *)
theory Old_Control
  imports Avr_Link
begin

text \<open>
  Two regulators that were retired from the firmware, \<open>src/obsoleted/avr-2560/fan.c\<close> and \<open>boost.c\<close>,
  with \<open>feedback.c\<close> that both use: measurements are queued by an interrupt, the main loop compares
  each with a target and moves the width of a pulse. They are clients of the firmware's \<open>counter.c\<close>,
  \<open>buf.c\<close> and \<open>debug.c\<close>. The jobs \<open>CRON_ID_FAN\<close> and \<open>AT_FAN\<close> are in the headers no more: what
  registers and cancels them are arguments.
\<close>

section \<open>\<open>feedback.c\<close>\<close>

record feedback =
  fb_target :: u8
  fb_delta :: u8
  fb_ignore :: u8
  fb_data :: buf_t

definition feedback_init :: "u8 \<Rightarrow> u8 \<Rightarrow> u8 \<Rightarrow> feedback \<Rightarrow> feedback" where
  "feedback_init target delta ignore f =
     f\<lparr>fb_target := target, fb_delta := delta, fb_ignore := ignore, fb_data := buf_init (fb_data f)\<rparr>"

text \<open>\<open>control\<close> is the function pointer of the structure.\<close>

definition feedback_try :: "(u8 \<Rightarrow> 's \<Rightarrow> 's) \<Rightarrow> feedback \<Rightarrow> 's \<Rightarrow> feedback \<times> 's" where
  "feedback_try control f s =
     (case buf_byte_drain (fb_data f) 0 of
        (status, q, current) \<Rightarrow>
          if status = 0 then (f, s)
          else
            let f = f\<lparr>fb_data := q\<rparr>
            in if fb_ignore f > 1 then (f\<lparr>fb_ignore := fb_ignore f - 1\<rparr>, s)
               else
                 let delta = (if current > fb_target f then current - fb_target f
                              else fb_target f - current)
                 in (f, if delta > fb_delta f then control current s else s))"

definition feedback_data :: "u8 \<Rightarrow> feedback \<Rightarrow> feedback" where
  "feedback_data v f = f\<lparr>fb_data := snd (buf_byte_fill (fb_data f) v)\<rparr>"

section \<open>\<open>fan.c\<close>\<close>

record fan =
  fa_feedback :: feedback
  fa_started :: u8
  fa_pwm_value :: u8

definition FAN_TARGET :: u8 where "FAN_TARGET = 30"
definition FAN_DELTA :: u8 where "FAN_DELTA = 2"
definition FAN_IGNORE :: u8 where "FAN_IGNORE = 3"
definition FAN_PWM_MAX :: u8 where "FAN_PWM_MAX = 160"
definition FAN_PWM_MIN :: u8 where "FAN_PWM_MIN = 2"
definition FAN_DELTA_ROUGH :: u8 where "FAN_DELTA_ROUGH = 5"
definition COUNTER_PRESCALER_EXT_RISE :: u8 where
  "COUNTER_PRESCALER_EXT_RISE = COUNTER_PRESCALER_256 OR COUNTER_PRESCALER_8 OR COUNTER_PRESCALER_1"

lemmas fan_defs = FAN_TARGET_def FAN_DELTA_def FAN_IGNORE_def FAN_PWM_MAX_def FAN_PWM_MIN_def
  FAN_DELTA_ROUGH_def

text \<open>\<open>PORTH1\<close> switches the power, low is on; \<open>PORTE4\<close> carries the pulses.\<close>

definition fan_power :: "bool \<Rightarrow> avr \<Rightarrow> avr" where
  "fan_power on s =
     (if on then io_clear PORTH 2 (io_or DDRH 2 s) else io_clear DDRH 2 (io_or PORTH 2 s))"

definition fan_pwm :: "bool \<Rightarrow> fan \<times> avr \<Rightarrow> fan \<times> avr" where
  "fan_pwm on fs =
     (case fs of (f, s) \<Rightarrow>
        if on then
          let s = io_or DDRE 16 s;
              f = f\<lparr>fa_pwm_value := FAN_PWM_MIN\<rparr>;
              s = counter_register_write COUNTER_3 COUNTER_OUTPUT_COMPARE_A FAN_PWM_MAX 0 s;
              s = counter_register_write COUNTER_3 COUNTER_OUTPUT_COMPARE_B (fa_pwm_value f) 0 s;
              s = counter_pwm_enable COUNTER_3 0 s
          in (f, counter_enable COUNTER_3 COUNTER_PRESCALER_1 s)
        else
          let s = counter_disable COUNTER_3 s;
              s = counter_pwm_disable COUNTER_3 0 s
          in (f, io_clear DDRE 16 s))"

definition fan_measure :: "fan \<times> avr \<Rightarrow> fan \<times> avr" where
  "fan_measure fs =
     (case fs of (f, s) \<Rightarrow>
        case counter_register_read COUNTER_5 COUNTER_VALUE 0 s of
          (low, high) \<Rightarrow>
            let s = counter_register_write COUNTER_5 COUNTER_VALUE 0 0 s;
                high = (if low > 0x7F \<and> high < 0xFF then high + 1 else high)
            in (f\<lparr>fa_feedback := feedback_data high (fa_feedback f)\<rparr>, s))"

text \<open>The frequency meter: a counter of external edges, read by a periodic job.\<close>

definition fan_meter :: "(avr \<Rightarrow> avr) \<Rightarrow> (avr \<Rightarrow> avr) \<Rightarrow> bool \<Rightarrow> avr \<Rightarrow> avr" where
  "fan_meter cron_on cron_off on s =
     (if on then
        let s = counter_register_write COUNTER_5 COUNTER_VALUE 0 0 s;
            s = counter_enable COUNTER_5 COUNTER_PRESCALER_EXT_RISE s
        in cron_on s
      else counter_disable COUNTER_5 (cron_off s))"

definition fan_pwm_delta :: "u8 \<Rightarrow> u8" where
  "fan_pwm_delta meter_delta =
     (if meter_delta \<le> FAN_DELTA then 0
      else if meter_delta \<le> 3 * FAN_DELTA then 1 else FAN_DELTA_ROUGH)"

text \<open>The sums and differences of the code are of type \<open>int\<close>.\<close>

definition fan_control :: "u8 \<Rightarrow> u8 \<times> avr \<Rightarrow> u8 \<times> avr" where
  "fan_control current ps =
     (case ps of (pwm, s) \<Rightarrow>
        let need_more = current < FAN_TARGET;
            meter_delta = (if need_more then FAN_TARGET - current else current - FAN_TARGET);
            d = fan_pwm_delta meter_delta
        in if d = 0 then (pwm, debug_1 DEBUG_FAN 111 meter_delta s)
           else
             let pwm = (if need_more
                        then (if unat pwm + unat d < unat FAN_PWM_MAX then pwm + d else FAN_PWM_MAX)
                        else (if pwm > d \<and> unat pwm - unat d > unat FAN_PWM_MIN then pwm - d else FAN_PWM_MIN))
             in (pwm, counter_register_write COUNTER_3 COUNTER_OUTPUT_COMPARE_B pwm 0 s))"

definition fan_try :: "fan \<times> avr \<Rightarrow> fan \<times> avr" where
  "fan_try fs =
     (case fs of (f, s) \<Rightarrow>
        if fa_started f = 0 then (f, s)
        else case feedback_try fan_control (fa_feedback f) (fa_pwm_value f, s) of
               (fb, pwm, s) \<Rightarrow> (f\<lparr>fa_feedback := fb, fa_pwm_value := pwm\<rparr>, s))"

definition fan_start :: "(avr \<Rightarrow> avr) \<Rightarrow> (avr \<Rightarrow> avr) \<Rightarrow> fan \<times> avr \<Rightarrow> fan \<times> avr" where
  "fan_start cron_on cron_off fs =
     (case fs of (f, s) \<Rightarrow>
        let f = f\<lparr>fa_started := 1\<rparr>;
            f = f\<lparr>fa_feedback := feedback_init FAN_TARGET FAN_DELTA FAN_IGNORE (fa_feedback f)\<rparr>;
            s = fan_power True s
        in case fan_pwm True (f, s) of (f, s) \<Rightarrow> (f, fan_meter cron_on cron_off True s))"

definition fan_stop :: "(avr \<Rightarrow> avr) \<Rightarrow> (avr \<Rightarrow> avr) \<Rightarrow> fan \<times> avr \<Rightarrow> fan \<times> avr" where
  "fan_stop cron_on cron_off fs =
     (case fs of (f, s) \<Rightarrow>
        case fan_pwm False (f, fan_meter cron_on cron_off False s) of
          (f, s) \<Rightarrow> (f\<lparr>fa_started := 0\<rparr>, fan_power False s))"

text \<open>\<open>at_fan\<close> schedules the stop.\<close>

definition fan_init :: "(avr \<Rightarrow> avr) \<Rightarrow> (avr \<Rightarrow> avr) \<Rightarrow> (avr \<Rightarrow> avr) \<Rightarrow> fan \<times> avr \<Rightarrow> fan \<times> avr" where
  "fan_init cron_on cron_off at_fan fs =
     (case fs of (f, s) \<Rightarrow>
        case fan_start cron_on cron_off (f\<lparr>fa_started := 0\<rparr>, s) of (f, s) \<Rightarrow> (f, at_fan s))"

section \<open>\<open>boost.c\<close>\<close>

record boost =
  bo_feedback :: feedback
  bo_pwm :: u8

definition BOOST_TARGET :: u8 where "BOOST_TARGET = 102"
definition BOOST_DELTA :: u8 where "BOOST_DELTA = 2"
definition BOOST_IGNORE :: u8 where "BOOST_IGNORE = 100"
definition BOOST_FREQUENCY :: u8 where "BOOST_FREQUENCY = 160"
definition BOOST_PWM_MIN :: u8 where "BOOST_PWM_MIN = 0"
definition BOOST_DELTA_FINE :: u8 where "BOOST_DELTA_FINE = 1"
definition BOOST_DELTA_ROUGH :: u8 where "BOOST_DELTA_ROUGH = 1"

lemmas boost_defs = BOOST_TARGET_def BOOST_DELTA_def BOOST_IGNORE_def BOOST_FREQUENCY_def
  BOOST_PWM_MIN_def BOOST_DELTA_FINE_def BOOST_DELTA_ROUGH_def

text \<open>\<open>REFS1\<close> and \<open>ADLAR\<close>; \<open>ADEN\<close>, \<open>ADSC\<close>, \<open>ADATE\<close>, \<open>ADIE\<close> and the three bits of the prescaler.\<close>

definition adc_start :: "avr \<Rightarrow> avr" where
  "adc_start s = io_or ADCSRA 239 (io_or DIDR0 1 (io_or ADMUX 160 (io_set ADMUX 0 s)))"

definition adc_stop :: "avr \<Rightarrow> avr" where
  "adc_stop s = io_clear ADCSRA 136 s"

definition adc_isr :: "boost \<times> avr \<Rightarrow> boost \<times> avr" where
  "adc_isr bs = (case bs of (b, s) \<Rightarrow> (b\<lparr>bo_feedback := feedback_data (io_get ADCH s) (bo_feedback b)\<rparr>, s))"

definition boost_counter_start :: "u8 \<Rightarrow> avr \<Rightarrow> avr" where
  "boost_counter_start pwm s =
     (let s = counter_register_write COUNTER_4 COUNTER_OUTPUT_COMPARE_A BOOST_FREQUENCY 0 s;
          s = counter_register_write COUNTER_4 COUNTER_OUTPUT_COMPARE_B pwm 0 s;
          s = counter_pwm 1 COUNTER_4 1 s
      in counter_enable COUNTER_4 COUNTER_PRESCALER_1 s)"

definition boost_counter_stop :: "avr \<Rightarrow> avr" where
  "boost_counter_stop s = counter_pwm 0 COUNTER_4 1 (counter_disable COUNTER_4 s)"

definition boost_pwm_delta :: "u8 \<Rightarrow> u8" where
  "boost_pwm_delta param_delta =
     (if param_delta \<le> BOOST_DELTA then 0
      else if param_delta \<le> 5 * BOOST_DELTA then BOOST_DELTA_FINE else BOOST_DELTA_ROUGH)"

definition boost_control :: "u8 \<Rightarrow> u8 \<times> avr \<Rightarrow> u8 \<times> avr" where
  "boost_control current ps =
     (case ps of (pwm, s) \<Rightarrow>
        let need_more = current < BOOST_TARGET;
            param_delta = (if need_more then BOOST_TARGET - current else current - BOOST_TARGET);
            d = boost_pwm_delta param_delta
        in if d = 0 then (pwm, debug_1 DEBUG_BOOST 99 param_delta s)
           else
             let pwm = (if need_more
                        then (if unat pwm + unat d < unat BOOST_FREQUENCY then pwm + d else BOOST_FREQUENCY)
                        else (if pwm > d \<and> unat pwm - unat d > unat BOOST_PWM_MIN then pwm - d else BOOST_PWM_MIN))
             in (pwm, counter_register_write COUNTER_4 COUNTER_OUTPUT_COMPARE_B pwm 0 s))"

definition boost_start :: "boost \<times> avr \<Rightarrow> boost \<times> avr" where
  "boost_start bs =
     (case bs of (b, s) \<Rightarrow>
        let b = b\<lparr>bo_feedback := feedback_init BOOST_TARGET BOOST_DELTA BOOST_IGNORE (bo_feedback b)\<rparr>;
            b = b\<lparr>bo_pwm := BOOST_PWM_MIN\<rparr>;
            s = io_or DDRH 16 s
        in (b, adc_start (boost_counter_start (bo_pwm b) s)))"

definition boost_stop :: "boost \<times> avr \<Rightarrow> boost \<times> avr" where
  "boost_stop bs = (case bs of (b, s) \<Rightarrow> (b, boost_counter_stop (adc_stop s)))"

definition boost_try :: "boost \<times> avr \<Rightarrow> boost \<times> avr" where
  "boost_try bs =
     (case bs of (b, s) \<Rightarrow>
        case feedback_try boost_control (bo_feedback b) (bo_pwm b, s) of
          (fb, pwm, s) \<Rightarrow> (b\<lparr>bo_feedback := fb, bo_pwm := pwm\<rparr>, s))"

section \<open>What a regulator promises\<close>

text \<open>
  A regulator keeps its width in its range, keeps the compare register of its counter in step with it,
  and moves it towards the target by at least one for every measurement that is off by more than two.
\<close>

definition pulse_state :: "u8 \<Rightarrow> nat \<Rightarrow> nat \<Rightarrow> u8 \<times> avr \<Rightarrow> bool" where
  "pulse_state counter lo hi ps \<longleftrightarrow>
     (case ps of (p, s) \<Rightarrow> lo \<le> unat p \<and> unat p \<le> hi \<and> io_get (OCRB_L counter) s = p \<and>
        io_get (OCRB_H counter) s = 0 \<and> unat (io_get (OCRA_L counter) s) = hi \<and> io_get (OCRA_H counter) s = 0)"

definition off_target :: "nat \<Rightarrow> u8 \<Rightarrow> bool" where
  "off_target target c \<longleftrightarrow> unat c + 2 < target \<or> target + 2 < unat c"

text \<open>
  A measurement and the next step of the main loop; \<open>g\<close> is what the hardware and the interrupt do to
  the registers before.
\<close>

definition measured ::
  "(u8 \<Rightarrow> u8 \<times> avr \<Rightarrow> u8 \<times> avr) \<Rightarrow> u8 \<times> (avr \<Rightarrow> avr) \<Rightarrow> feedback \<times> u8 \<times> avr \<Rightarrow> feedback \<times> u8 \<times> avr" where
  "measured control vg fps =
     (case (vg, fps) of ((v, g), (f, p, s)) \<Rightarrow> feedback_try control (feedback_data v f) (p, g s))"

definition keeps_pulse :: "u8 \<Rightarrow> (avr \<Rightarrow> avr) \<Rightarrow> bool" where
  "keeps_pulse counter g \<longleftrightarrow>
     (\<forall>s. \<forall>r \<in> {OCRA_L counter, OCRA_H counter, OCRB_L counter, OCRB_H counter}. io_get r (g s) = io_get r s)"

lemma keeps_pulse_state:
  "keeps_pulse counter g \<Longrightarrow> pulse_state counter lo hi (p, s) \<Longrightarrow> pulse_state counter lo hi (p, g s)"
  by (simp add: keeps_pulse_def pulse_state_def)

text \<open>No measurement waits, and the target is the one given, with a tolerance of two.\<close>

definition feedback_idle :: "nat \<Rightarrow> feedback \<Rightarrow> bool" where
  "feedback_idle target f \<longleftrightarrow> buf_ok (fb_data f) \<and> buf_held (fb_data f) = [] \<and>
     unat (fb_target f) = target \<and> fb_delta f = 2"

lemma measured_step:
  assumes "feedback_idle target f"
  shows "\<exists>f'. measured control (v, g) (f, p, s)
      = (f', if fb_ignore f \<le> 1 \<and> off_target target v then control v (p, g s) else (p, g s))
    \<and> feedback_idle target f' \<and> fb_ignore f' = (if fb_ignore f \<le> 1 then fb_ignore f else fb_ignore f - 1)"
proof -
  have f: "buf_ok (fb_data f)" "buf_held (fb_data f) = []" "unat (fb_target f) = target" "fb_delta f = 2"
    using assms by (simp_all add: feedback_idle_def)
  from buf.fill_room [OF f(1), of v] f(2) obtain q where
    q: "buf_byte_fill (fb_data f) v = (1, q)" "buf_ok q" "buf_held q = [v]" by auto
  from buf.drain_held [OF q(2), of 0] q(3) obtain q' where
    q': "buf_byte_drain q 0 = (1, q', v)" "buf_ok q'" "buf_held q' = []" by auto
  have off: "2 < v - fb_target f \<longleftrightarrow> off_target target v" if "fb_target f < v"
    using f(3) that by (auto simp: off_target_def u8_less_iff unat_u8_minus u8_le_iff)
  have near: "2 < fb_target f - v \<longleftrightarrow> off_target target v" if "\<not> fb_target f < v"
    using f(3) that by (auto simp: off_target_def u8_less_iff unat_u8_minus u8_le_iff)
  have ign: "1 < fb_ignore f \<longleftrightarrow> \<not> fb_ignore f \<le> 1" by (simp add: not_le)
  show ?thesis
  proof (cases "fb_target f < v")
    case True
    then show ?thesis
      using q(1) q' f(3,4) off ign
      by (simp add: measured_def feedback_data_def feedback_try_def feedback_idle_def Let_def)
  next
    case False
    then show ?thesis
      using q(1) q' f(3,4) near ign
      by (simp add: measured_def feedback_data_def feedback_try_def feedback_idle_def Let_def)
  qed
qed

locale regulator =
  fixes control :: "u8 \<Rightarrow> u8 \<times> avr \<Rightarrow> u8 \<times> avr" and counter :: u8 and lo hi target :: nat
  assumes keeps: "off_target target c \<Longrightarrow> pulse_state counter lo hi ps \<Longrightarrow> pulse_state counter lo hi (control c ps)"
    and up: "unat c + 2 < target \<Longrightarrow> min hi (unat (fst ps) + 1) \<le> unat (fst (control c ps))"
    and down: "target + 2 < unat c \<Longrightarrow> unat (fst (control c ps)) \<le> max lo (unat (fst ps) - 1)"
begin

lemma run_keeps:
  "feedback_idle target f \<Longrightarrow> pulse_state counter lo hi ps \<Longrightarrow> \<forall>(v, g) \<in> set rs. keeps_pulse counter g \<Longrightarrow>
   feedback_idle target (fst (fold (measured control) rs (f, ps))) \<and>
   pulse_state counter lo hi (snd (fold (measured control) rs (f, ps))) \<and>
   unat (fb_ignore (fst (fold (measured control) rs (f, ps)))) \<le> max 1 (unat (fb_ignore f) - length rs)"
proof (induction rs arbitrary: f ps)
  case Nil
  then show ?case by simp
next
  case (Cons r rs)
  obtain v g where r: "r = (v, g)" by fastforce
  obtain p s where ps: "ps = (p, s)" by fastforce
  let ?ps = "if fb_ignore f \<le> 1 \<and> off_target target v then control v (p, g s) else (p, g s)"
  from measured_step [OF Cons.prems(1), of control v g p s] obtain f' where
    f': "measured control r (f, ps) = (f', ?ps)" "feedback_idle target f'"
    "fb_ignore f' = (if fb_ignore f \<le> 1 then fb_ignore f else fb_ignore f - 1)" unfolding r ps by blast
  have "keeps_pulse counter g" using Cons.prems(3) r by auto
  from keeps_pulse_state [OF this Cons.prems(2) [unfolded ps]]
  have st: "pulse_state counter lo hi ?ps" using keeps [of v "(p, g s)"] by simp
  have less: "unat (fb_ignore f') \<le> max 1 (unat (fb_ignore f) - 1)"
    using f'(3) by (auto simp: u8_le_iff unat_u8_minus)
  have "\<forall>(v, g) \<in> set rs. keeps_pulse counter g" using Cons.prems(3) by simp
  from Cons.IH [OF f'(2) st this] f'(1) less show ?case by (auto simp: max_def split: if_splits)
qed

text \<open>Measurements on one side drive the width to its end.\<close>

lemma run_drives:
  assumes "feedback_idle target f" "fb_ignore f \<le> 1"
  shows "\<forall>r \<in> set rs. unat (fst r) + 2 < target \<Longrightarrow>
      min hi (unat (fst ps) + length rs) \<le> unat (fst (snd (fold (measured control) rs (f, ps))))"
    "\<forall>r \<in> set rs. target + 2 < unat (fst r) \<Longrightarrow>
      unat (fst (snd (fold (measured control) rs (f, ps)))) \<le> max lo (unat (fst ps) - length rs)"
  using assms
proof (induction rs arbitrary: f ps)
  case Nil
  {
    case 1
    then show ?case by simp
  next
    case 2
    then show ?case by simp
  }
next
  case (Cons r rs)
  obtain v g where r: "r = (v, g)" by fastforce
  {
    case 1
    obtain p s where ps: "ps = (p, s)" by fastforce
    from measured_step [OF 1(2), of control v g p s] 1 obtain f' where
      f': "measured control r (f, ps) = (f', control v (p, g s))" "feedback_idle target f'" "fb_ignore f' \<le> 1"
      by (auto simp: off_target_def r ps)
    have "min hi (unat (fst (control v (p, g s))) + length rs)
        \<le> unat (fst (snd (fold (measured control) rs (f', control v (p, g s)))))"
      using Cons.IH(1) [OF _ f'(2,3)] 1 by simp
    with up [of v "(p, g s)"] f'(1) 1 show ?case by (simp add: r ps)
  next
    case 2
    obtain p s where ps: "ps = (p, s)" by fastforce
    from measured_step [OF 2(2), of control v g p s] 2 obtain f' where
      f': "measured control r (f, ps) = (f', control v (p, g s))" "feedback_idle target f'" "fb_ignore f' \<le> 1"
      by (auto simp: off_target_def r ps)
    have "unat (fst (snd (fold (measured control) rs (f', control v (p, g s)))))
        \<le> max lo (unat (fst (control v (p, g s))) - length rs)"
      using Cons.IH(2) [OF _ f'(2,3)] 2 by simp
    with down [of v "(p, g s)"] f'(1) 2 show ?case by (simp add: r ps)
  }
qed

lemma run_settles:
  assumes "feedback_idle target f" "pulse_state counter lo hi ps"
    "\<forall>(v, g) \<in> set (xs @ ys). keeps_pulse counter g" "unat (fb_ignore f) \<le> length xs + 1" "hi - lo \<le> length ys"
  shows "\<forall>r \<in> set ys. unat (fst r) + 2 < target \<Longrightarrow>
      unat (fst (snd (fold (measured control) (xs @ ys) (f, ps)))) = hi"
    "\<forall>r \<in> set ys. target + 2 < unat (fst r) \<Longrightarrow>
      unat (fst (snd (fold (measured control) (xs @ ys) (f, ps)))) = lo"
proof -
  obtain f' ps' where mid: "fold (measured control) xs (f, ps) = (f', ps')" by (metis surj_pair)
  have "\<forall>(v, g) \<in> set xs. keeps_pulse counter g" using assms(3) by auto
  from run_keeps [OF assms(1,2) this] assms(4) mid
  have m: "feedback_idle target f'" "pulse_state counter lo hi ps'" "fb_ignore f' \<le> 1"
    by (auto simp: u8_le_iff)
  have "\<forall>(v, g) \<in> set ys. keeps_pulse counter g" using assms(3) by auto
  from run_keeps [OF m(1,2) this]
  have "pulse_state counter lo hi (snd (fold (measured control) ys (f', ps')))" by blast
  then have r: "lo \<le> unat (fst (snd (fold (measured control) ys (f', ps'))))"
    "unat (fst (snd (fold (measured control) ys (f', ps')))) \<le> hi"
    by (simp_all add: pulse_state_def case_prod_beta)
  have p: "lo \<le> unat (fst ps')" "unat (fst ps') \<le> hi" using m(2) by (simp_all add: pulse_state_def case_prod_beta)
  show "\<forall>r \<in> set ys. unat (fst r) + 2 < target \<Longrightarrow>
      unat (fst (snd (fold (measured control) (xs @ ys) (f, ps)))) = hi"
    using run_drives(1) [OF m(1,3), of ys ps'] r p assms(5) by (simp add: mid)
  show "\<forall>r \<in> set ys. target + 2 < unat (fst r) \<Longrightarrow>
      unat (fst (snd (fold (measured control) (xs @ ys) (f, ps)))) = lo"
    using run_drives(2) [OF m(1,3), of ys ps'] r p assms(5) by (simp add: mid)
qed

end

section \<open>Both regulators keep it\<close>

lemma narrower:
  "(d :: u8) < p \<and> lo < unat p - unat d \<Longrightarrow> unat (p - d) = unat p - unat d"
  by (simp add: unat_u8_minus less_imp_le)

lemma fan_control_step:
  assumes "off_target 30 c"
  shows "\<exists>p' d. fan_control c (p, s) = (p', counter_register_write COUNTER_3 COUNTER_OUTPUT_COMPARE_B p' 0 s) \<and>
    1 \<le> d \<and> d \<le> 5 \<and>
    unat p' = (if unat c < 30 then min 160 (unat p + d) else if d + 2 < unat p then unat p - d else 2)"
proof -
  let ?m = "if c < 30 then 30 - c else c - 30"
  have "2 < unat ?m" using assms by (auto simp: off_target_def u8_less_iff u8_le_iff unat_u8_minus)
  then have m: "\<not> ?m \<le> 2" by (simp add: u8_le_iff)
  let ?d = "fan_pwm_delta ?m"
  have d: "?d = 1 \<or> ?d = 5" using m by (simp add: fan_pwm_delta_def fan_defs)
  then have dn: "1 \<le> unat ?d" "unat ?d \<le> 5" "?d \<noteq> 0" by auto
  let ?p = "if c < 30 then (if unat p + unat ?d < 160 then p + ?d else 160)
            else (if p > ?d \<and> unat p - unat ?d > 2 then p - ?d else 2)"
  have "fan_control c (p, s) = (?p, counter_register_write COUNTER_3 COUNTER_OUTPUT_COMPARE_B ?p 0 s)"
    using dn(3) by (cases "c < 30") (simp_all add: fan_control_def Let_def fan_defs)
  moreover have "unat ?p = (if unat c < 30 then min 160 (unat p + unat ?d)
      else if unat ?d + 2 < unat p then unat p - unat ?d else 2)"
  proof (cases "c < 30")
    case True
    then show ?thesis using unat_u8_plus [of p ?d] by (auto simp: u8_less_iff)
  next
    case False
    have "p > ?d \<and> unat p - unat ?d > 2 \<longleftrightarrow> unat ?d + 2 < unat p" by (auto simp: u8_less_iff)
    with False show ?thesis using narrower [of ?d p 2] by (auto simp: u8_less_iff)
  qed
  ultimately show ?thesis using dn(1,2) by blast
qed

lemma boost_control_step:
  assumes "off_target 102 c"
  shows "\<exists>p'. boost_control c (p, s) = (p', counter_register_write COUNTER_4 COUNTER_OUTPUT_COMPARE_B p' 0 s) \<and>
    unat p' = (if unat c < 102 then min 160 (unat p + 1) else unat p - 1)"
proof -
  let ?m = "if c < 102 then 102 - c else c - 102"
  have "2 < unat ?m" using assms by (auto simp: off_target_def u8_less_iff u8_le_iff unat_u8_minus)
  then have "\<not> ?m \<le> 2" by (simp add: u8_le_iff)
  then have d: "boost_pwm_delta ?m = 1" by (simp add: boost_pwm_delta_def boost_defs)
  let ?p = "if c < 102 then (if unat p + 1 < 160 then p + 1 else 160)
            else (if p > 1 \<and> unat p - 1 > 0 then p - 1 else 0)"
  have "boost_control c (p, s) = (?p, counter_register_write COUNTER_4 COUNTER_OUTPUT_COMPARE_B ?p 0 s)"
    using d by (cases "c < 102") (simp_all add: boost_control_def Let_def boost_defs)
  moreover have "unat ?p = (if unat c < 102 then min 160 (unat p + 1) else unat p - 1)"
  proof (cases "c < 102")
    case True
    then show ?thesis using unat_u8_Suc [of p] by (auto simp: u8_less_iff)
  next
    case False
    have "p > 1 \<and> unat p - 1 > 0 \<longleftrightarrow> 1 < unat p" by (auto simp: u8_less_iff)
    with False show ?thesis using narrower [of 1 p 0] by (auto simp: u8_less_iff)
  qed
  ultimately show ?thesis by blast
qed

lemma width_write:
  assumes "pulse_state counter lo hi (p, s)" "eight_bits counter = 0" "lo \<le> unat p'" "unat p' \<le> hi"
  shows "pulse_state counter lo hi (p', counter_register_write counter COUNTER_OUTPUT_COMPARE_B p' 0 s)"
  using assms by (simp add: pulse_state_def counter_register_write_def value_register_get_def)

lemma pulse_range: "pulse_state counter lo hi (p, s) \<Longrightarrow> lo \<le> unat p \<and> unat p \<le> hi"
  by (simp add: pulse_state_def)

lemma sixteen_bits: "eight_bits COUNTER_3 = 0" "eight_bits COUNTER_4 = 0"
  by (simp_all add: eight_bits_def)

interpretation fan_regulator: regulator fan_control COUNTER_3 2 160 30
proof unfold_locales
  fix c :: u8 and ps :: "u8 \<times> avr"
  obtain p s where ps: "ps = (p, s)" by fastforce
  {
    assume off: "off_target 30 c" and st: "pulse_state COUNTER_3 2 160 ps"
    from fan_control_step [OF off, of p s] obtain p' d where
      p': "fan_control c (p, s) = (p', counter_register_write COUNTER_3 COUNTER_OUTPUT_COMPARE_B p' 0 s)"
      "1 \<le> d" "unat p' = (if unat c < 30 then min 160 (unat p + d) else if d + 2 < unat p then unat p - d else 2)"
      by blast
    have "2 \<le> unat p'" "unat p' \<le> 160" using p'(3) pulse_range [OF st [unfolded ps]] by (auto split: if_splits)
    from width_write [OF st [unfolded ps] sixteen_bits(1) this] p'(1)
    show "pulse_state COUNTER_3 2 160 (fan_control c ps)" by (simp add: ps)
  next
    assume c: "unat c + 2 < 30"
    then have "off_target 30 c" by (simp add: off_target_def)
    from fan_control_step [OF this, of p s] c
    show "min 160 (unat (fst ps) + 1) \<le> unat (fst (fan_control c ps))" by (auto simp: ps)
  next
    assume c: "30 + 2 < unat c"
    then have "off_target 30 c" by (simp add: off_target_def)
    from fan_control_step [OF this, of p s] c
    show "unat (fst (fan_control c ps)) \<le> max 2 (unat (fst ps) - 1)" by (auto simp: ps)
  }
qed

interpretation boost_regulator: regulator boost_control COUNTER_4 0 160 102
proof unfold_locales
  fix c :: u8 and ps :: "u8 \<times> avr"
  obtain p s where ps: "ps = (p, s)" by fastforce
  {
    assume off: "off_target 102 c" and st: "pulse_state COUNTER_4 0 160 ps"
    from boost_control_step [OF off, of p s] obtain p' where
      p': "boost_control c (p, s) = (p', counter_register_write COUNTER_4 COUNTER_OUTPUT_COMPARE_B p' 0 s)"
      "unat p' = (if unat c < 102 then min 160 (unat p + 1) else unat p - 1)" by blast
    have "0 \<le> unat p'" "unat p' \<le> 160" using p'(2) pulse_range [OF st [unfolded ps]] by auto
    from width_write [OF st [unfolded ps] sixteen_bits(2) this] p'(1)
    show "pulse_state COUNTER_4 0 160 (boost_control c ps)" by (simp add: ps)
  next
    assume c: "unat c + 2 < 102"
    then have "off_target 102 c" by (simp add: off_target_def)
    from boost_control_step [OF this, of p s] c
    show "min 160 (unat (fst ps) + 1) \<le> unat (fst (boost_control c ps))" by (auto simp: ps)
  next
    assume c: "102 + 2 < unat c"
    then have "off_target 102 c" by (simp add: off_target_def)
    from boost_control_step [OF this, of p s] c
    show "unat (fst (boost_control c ps)) \<le> max 0 (unat (fst ps) - 1)" by (auto simp: ps)
  }
qed

text \<open>One second of the fan: the counter of edges has counted, the job reads it, the main loop regulates.\<close>

definition fan_second :: "u8 \<times> u8 \<Rightarrow> fan \<times> avr \<Rightarrow> fan \<times> avr" where
  "fan_second lh fs = (case fs of (f, s) \<Rightarrow>
     fan_try (fan_measure (f, io_set (TCNT_L COUNTER_5) (fst lh) (io_set (TCNT_H COUNTER_5) (snd lh) s))))"

definition fan_reading :: "u8 \<times> u8 \<Rightarrow> u8" where
  "fan_reading lh = (if fst lh > 0x7F \<and> snd lh < 0xFF then snd lh + 1 else snd lh)"

definition fan_parts :: "fan \<times> avr \<Rightarrow> feedback \<times> u8 \<times> avr" where
  "fan_parts fs = (case fs of (f, s) \<Rightarrow> (fa_feedback f, fa_pwm_value f, s))"

definition fan_count :: "u8 \<times> u8 \<Rightarrow> u8 \<times> (avr \<Rightarrow> avr)" where
  "fan_count lh = (fan_reading lh, \<lambda>s. counter_register_write COUNTER_5 COUNTER_VALUE 0 0
     (io_set (TCNT_L COUNTER_5) (fst lh) (io_set (TCNT_H COUNTER_5) (snd lh) s)))"

lemma fan_second_parts:
  assumes "fa_started (fst fs) \<noteq> 0"
  shows "fan_parts (fan_second lh fs) = measured fan_control (fan_count lh) (fan_parts fs)"
    "fa_started (fst (fan_second lh fs)) \<noteq> 0"
  using assms
  by (simp_all add: fan_second_def fan_parts_def fan_count_def fan_reading_def fan_measure_def fan_try_def
      measured_def counter_register_read_def counter_register_write_def value_register_get_def
      eight_bits_def case_prod_beta Let_def)

lemma fan_seconds_parts:
  "fa_started (fst fs) \<noteq> 0 \<Longrightarrow>
   fan_parts (fold fan_second rs fs) = fold (measured fan_control) (map fan_count rs) (fan_parts fs)"
  by (induction rs arbitrary: fs) (simp_all add: fan_second_parts)

lemma fan_count_keeps: "keeps_pulse COUNTER_3 (snd (fan_count lh))"
  by (simp add: keeps_pulse_def fan_count_def counter_register_write_def value_register_get_def eight_bits_def)

text \<open>Setting up the pulses: the registers that the mode of a counter is in are others.\<close>

lemma pulse_setup:
  assumes "eight_bits counter = 0" "lo \<le> unat width" "unat width \<le> unat period"
  shows "pulse_state counter lo (unat period) (width, counter_enable counter ps (counter_pwm 1 counter pol
    (counter_register_write counter COUNTER_OUTPUT_COMPARE_B width 0
      (counter_register_write counter COUNTER_OUTPUT_COMPARE_A period 0 s))))"
  using assms
  by (simp add: pulse_state_def counter_enable_def counter_pwm_def counter_register_write_def
      value_register_get_def control_register_set_def control_register_get_def Let_def)

lemma fan_started:
  assumes "length (buf_data (fb_data (fa_feedback f))) = 64" "keeps_pulse COUNTER_3 cron_on"
    "fan_start cron_on cron_off (f, s) = (f', s')"
  shows "fa_started f' = 1" "feedback_idle 30 (fa_feedback f')" "fb_ignore (fa_feedback f') = 3"
    "pulse_state COUNTER_3 2 160 (fa_pwm_value f', s')"
proof -
  let ?s = "io_or DDRE 16 (fan_power True s)"
  let ?w = "counter_enable COUNTER_3 COUNTER_PRESCALER_1 (counter_pwm 1 COUNTER_3 0
    (counter_register_write COUNTER_3 COUNTER_OUTPUT_COMPARE_B 2 0
      (counter_register_write COUNTER_3 COUNTER_OUTPUT_COMPARE_A 160 0 ?s)))"
  have f': "f' = f\<lparr>fa_started := 1, fa_feedback := feedback_init 30 2 3 (fa_feedback f), fa_pwm_value := 2\<rparr>"
    and s': "s' = fan_meter cron_on cron_off True ?w"
    using assms(3) by (simp_all add: fan_start_def fan_pwm_def counter_pwm_enable_def fan_defs Let_def)
  show "fa_started f' = 1" "fb_ignore (fa_feedback f') = 3" by (simp_all add: f' feedback_init_def)
  show "feedback_idle 30 (fa_feedback f')"
    using buf_init_empty [OF assms(1)] by (simp add: f' feedback_init_def feedback_idle_def)
  have "pulse_state COUNTER_3 2 (unat (160 :: u8)) (2, ?w)" by (rule pulse_setup [OF sixteen_bits(1)]) simp_all
  then have w: "pulse_state COUNTER_3 2 160 (2, ?w)" by simp
  have "keeps_pulse COUNTER_3 (fan_meter cron_on cron_off True)"
    using assms(2) by (simp add: keeps_pulse_def fan_meter_def counter_enable_def control_register_set_def
        control_register_get_def counter_register_write_def value_register_get_def eight_bits_def Let_def)
  from keeps_pulse_state [OF this w] show "pulse_state COUNTER_3 2 160 (fa_pwm_value f', s')"
    by (simp add: f' s')
qed

text \<open>
  The retired fan keeps its promises to the timer and to its target: from its start on, whatever the
  meter reads, the width of the pulses is the one in the compare register and lies between 2 and
  the period of 160, which the registers demand; and after two ignored readings, 158 readings below
  28 or above 32 bring it to its greatest or smallest value, wherever it was.
\<close>

theorem fan_regulates:
  assumes "length (buf_data (fb_data (fa_feedback f))) = 64" "keeps_pulse COUNTER_3 cron_on"
    "2 \<le> length xs" "158 \<le> length ys"
  shows "(let run = \<lambda>rs. fold fan_second rs (fan_start cron_on cron_off (f, s)); width = \<lambda>rs. fa_pwm_value (fst (run rs))
     in pulse_state COUNTER_3 2 160 (width zs, snd (run zs)) \<and>
       ((\<forall>r \<in> set ys. unat (fan_reading r) < 28) \<longrightarrow> width (xs @ ys) = 160) \<and>
       ((\<forall>r \<in> set ys. 32 < unat (fan_reading r)) \<longrightarrow> width (xs @ ys) = 2))"
proof -
  obtain f' s' where start: "fan_start cron_on cron_off (f, s) = (f', s')" by fastforce
  note st = fan_started [OF assms(1,2) start]
  let ?run = "\<lambda>rs. fold fan_second rs (f', s')"
  have parts: "fan_parts (?run rs) = fold (measured fan_control) (map fan_count rs)
      (fa_feedback f', fa_pwm_value f', s')" for rs
    using fan_seconds_parts [of "(f', s')" rs] st(1) by (simp add: fan_parts_def)
  have width: "(fa_pwm_value (fst (?run rs)), snd (?run rs)) = snd (fan_parts (?run rs))" for rs
    by (cases "?run rs") (simp add: fan_parts_def)
  have keeps: "\<forall>(v, g) \<in> set (map fan_count rs). keeps_pulse COUNTER_3 g" for rs
    using fan_count_keeps by (auto simp: case_prod_beta)
  have range: "pulse_state COUNTER_3 2 160 (fa_pwm_value (fst (?run zs)), snd (?run zs))"
    unfolding width parts using fan_regulator.run_keeps [OF st(2,4) keeps] by blast
  have last: "unat (fa_pwm_value (fst (?run (xs @ ys))))
      = unat (fst (snd (fold (measured fan_control) (map fan_count xs @ map fan_count ys)
          (fa_feedback f', fa_pwm_value f', s'))))"
    using arg_cong [OF width [of "xs @ ys"], of fst] parts [of "xs @ ys"] by simp
  have reading: "fst (fan_count r) = fan_reading r" for r by (simp add: fan_count_def)
  have "unat (fb_ignore (fa_feedback f')) \<le> length (map fan_count xs) + 1" "160 - 2 \<le> length (map fan_count ys)"
    using st(3) assms(3,4) by simp_all
  note settle = fan_regulator.run_settles [OF st(2,4) keeps [of "xs @ ys", unfolded map_append] this]
  have "fa_pwm_value (fst (?run (xs @ ys))) = 160" if "\<forall>r \<in> set ys. unat (fan_reading r) < 28"
  proof -
    have "\<forall>r \<in> set (map fan_count ys). unat (fst r) + 2 < 30" using that by (auto simp: reading)
    from settle(1) [OF this] last show ?thesis by (simp add: u8_eq_iff)
  qed
  moreover have "fa_pwm_value (fst (?run (xs @ ys))) = 2" if "\<forall>r \<in> set ys. 32 < unat (fan_reading r)"
  proof -
    have "\<forall>r \<in> set (map fan_count ys). 30 + 2 < unat (fst r)" using that by (auto simp: reading)
    from settle(2) [OF this] last show ?thesis by (simp add: u8_eq_iff)
  qed
  ultimately show ?thesis using range by (simp add: start Let_def)
qed

definition fan_zero :: fan where
  "fan_zero = \<lparr>fa_feedback = \<lparr>fb_target = 0, fb_delta = 0, fb_ignore = 0, fb_data = buf_zero\<rparr>,
     fa_started = 0, fa_pwm_value = FAN_PWM_MAX\<rparr>"

lemma fan_regulates_witness:
  "fa_pwm_value (fst (fold fan_second (replicate 160 (0, 9)) (fan_start (\<lambda>s. s) (\<lambda>s. s) (fan_zero, avr_reset)))) = 160"
proof -
  have buf: "length (buf_data (fb_data (fa_feedback fan_zero))) = 64" by (simp add: fan_zero_def buf_zero_def)
  have keeps: "keeps_pulse COUNTER_3 (\<lambda>s. s)" by (simp add: keeps_pulse_def)
  have "replicate 160 (0 :: u8, 9 :: u8) = replicate 2 (0, 9) @ replicate 158 (0, 9)"
    by (simp flip: replicate_add)
  moreover have "2 \<le> length (replicate 2 (0 :: u8, 9 :: u8))" "158 \<le> length (replicate 158 (0 :: u8, 9 :: u8))"
    by simp_all
  ultimately show ?thesis
    using fan_regulates [OF buf keeps, of "replicate 2 (0, 9)" "replicate 158 (0, 9)" "\<lambda>s. s" avr_reset]
    by (simp add: Let_def fan_reading_def)
qed

section \<open>The converter, measured by its interrupt\<close>

definition boost_sample :: "u8 \<Rightarrow> boost \<times> avr \<Rightarrow> boost \<times> avr" where
  "boost_sample v bs = (case bs of (b, s) \<Rightarrow> boost_try (adc_isr (b, io_set ADCH v s)))"

definition boost_parts :: "boost \<times> avr \<Rightarrow> feedback \<times> u8 \<times> avr" where
  "boost_parts bs = (case bs of (b, s) \<Rightarrow> (bo_feedback b, bo_pwm b, s))"

lemma boost_samples_parts:
  "boost_parts (fold boost_sample vs bs) = fold (measured boost_control) (map (\<lambda>v. (v, io_set ADCH v)) vs) (boost_parts bs)"
proof (induction vs arbitrary: bs)
  case Nil
  then show ?case by simp
next
  case (Cons v vs)
  have "boost_parts (boost_sample v bs) = measured boost_control (v, io_set ADCH v) (boost_parts bs)"
    by (simp add: boost_sample_def boost_parts_def boost_try_def adc_isr_def measured_def case_prod_beta)
  then show ?case using Cons.IH by simp
qed

text \<open>
  The same for the retired converter: its pulses stay within the period, and after 99 ignored
  samples, 160 samples below 100 or above 104 bring them to the greatest width or to zero.
\<close>

theorem boost_regulates:
  assumes "length (buf_data (fb_data (bo_feedback b))) = 64" "99 \<le> length xs" "160 \<le> length ys"
  shows "(let run = \<lambda>vs. fold boost_sample vs (boost_start (b, s)); width = \<lambda>vs. bo_pwm (fst (run vs))
     in pulse_state COUNTER_4 0 160 (width zs, snd (run zs)) \<and>
       ((\<forall>v \<in> set ys. unat v < 100) \<longrightarrow> width (xs @ ys) = 160) \<and>
       ((\<forall>v \<in> set ys. 104 < unat v) \<longrightarrow> width (xs @ ys) = 0))"
proof -
  let ?feed = "feedback_init 102 2 100 (bo_feedback b)"
  obtain b' s' where start: "boost_start (b, s) = (b', s')" by fastforce
  let ?w = "boost_counter_start 0 (io_or DDRH 16 s)"
  have b': "bo_feedback b' = ?feed" "bo_pwm b' = 0" and s': "s' = adc_start ?w"
    using start by (auto simp: boost_start_def boost_defs Let_def)
  have idle: "feedback_idle 102 ?feed" "fb_ignore ?feed = 100"
    using buf_init_empty [OF assms(1)] by (simp_all add: feedback_init_def feedback_idle_def)
  have "pulse_state COUNTER_4 0 (unat (160 :: u8)) (0, ?w)"
    using pulse_setup [OF sixteen_bits(2), of 0 0 160 COUNTER_PRESCALER_1 1 "io_or DDRH 16 s"]
    by (simp add: boost_counter_start_def boost_defs Let_def)
  then have "pulse_state COUNTER_4 0 160 (0, ?w)" by simp
  then have pulse: "pulse_state COUNTER_4 0 160 (0, s')" by (simp add: s' pulse_state_def adc_start_def)
  let ?in = "map (\<lambda>v. (v, io_set ADCH v))"
  have parts: "boost_parts (fold boost_sample vs (b', s')) = fold (measured boost_control) (?in vs) (?feed, 0, s')" for vs
    using boost_samples_parts [of vs "(b', s')"] by (simp add: boost_parts_def b')
  have width: "(bo_pwm (fst (fold boost_sample vs (b', s'))), snd (fold boost_sample vs (b', s')))
      = snd (fold (measured boost_control) (?in vs) (?feed, 0, s'))" for vs
    using parts [of vs] by (cases "fold boost_sample vs (b', s')") (simp add: boost_parts_def flip: parts)
  have keeps: "\<forall>(v, g) \<in> set (?in vs). keeps_pulse COUNTER_4 g" for vs
    by (auto simp: keeps_pulse_def)
  have range: "pulse_state COUNTER_4 0 160
      (bo_pwm (fst (fold boost_sample zs (b', s'))), snd (fold boost_sample zs (b', s')))"
    unfolding width using boost_regulator.run_keeps [OF idle(1) pulse keeps] by blast
  have "unat (fb_ignore ?feed) \<le> length (?in xs) + 1" "160 - 0 \<le> length (?in ys)"
    using idle(2) assms(2,3) by simp_all
  note settle = boost_regulator.run_settles [OF idle(1) pulse keeps [of "xs @ ys", unfolded map_append] this]
  have last: "bo_pwm (fst (fold boost_sample (xs @ ys) (b', s')))
      = fst (snd (fold (measured boost_control) (?in xs @ ?in ys) (?feed, 0, s')))"
    using arg_cong [OF width [of "xs @ ys"], of fst] by simp
  have "bo_pwm (fst (fold boost_sample (xs @ ys) (b', s'))) = 160" if "\<forall>v \<in> set ys. unat v < 100"
  proof -
    have "\<forall>r \<in> set (?in ys). unat (fst r) + 2 < 102" using that by auto
    from settle(1) [OF this] show ?thesis by (simp only: last u8_eq_iff) simp
  qed
  moreover have "bo_pwm (fst (fold boost_sample (xs @ ys) (b', s'))) = 0" if "\<forall>v \<in> set ys. 104 < unat v"
  proof -
    have "\<forall>r \<in> set (?in ys). 102 + 2 < unat (fst r)" using that by auto
    from settle(2) [OF this] show ?thesis by (simp only: last u8_eq_iff) simp
  qed
  ultimately show ?thesis using range by (simp add: start Let_def)
qed

end
