(* ===== verification/Old_Clock.thy ===== *)
theory Old_Clock
  imports Avr_Watch
begin

text \<open>
  Two software clocks of the previous controller: \<open>src/obsoleted/avr-2560/clock.c\<close>, which counts
  seconds, keeps an alarm and draws both with the firmware's \<open>render.c\<close>, and \<open>sync.c\<close>, which counts calls
  of a timer. Both count the time of the day; the successor reads a clock chip (\<open>watch.c\<close>).
\<close>

section \<open>\<open>clock.c\<close>\<close>

record clock =
  cl_second :: u8
  cl_minute :: u8
  cl_hour :: u8
  cl_alarm_engaged :: u8
  cl_alarm_minute :: u8
  cl_alarm_hour :: u8

definition CLOCK_HOUR_MAX :: u8 where "CLOCK_HOUR_MAX = 23"
definition CLOCK_MINUTE_MAX :: u8 where "CLOCK_MINUTE_MAX = 59"
definition CLOCK_SECOND_MAX :: u8 where "CLOCK_SECOND_MAX = 59"
definition LONG_INDENT :: nat where "LONG_INDENT = 22"
definition ALARM_SPACE :: nat where "ALARM_SPACE = 3"

lemmas clock_defs = CLOCK_HOUR_MAX_def CLOCK_MINUTE_MAX_def CLOCK_SECOND_MAX_def LONG_INDENT_def ALARM_SPACE_def

definition clock_init :: "clock \<Rightarrow> clock" where
  "clock_init c = \<lparr>cl_second = 0, cl_minute = 0, cl_hour = 0, cl_alarm_engaged = 0, cl_alarm_minute = 0,
     cl_alarm_hour = 0\<rparr>"

definition clock_set :: "u8 \<Rightarrow> u8 \<Rightarrow> clock \<Rightarrow> clock" where
  "clock_set new_hour new_minute c = c\<lparr>cl_hour := new_hour, cl_minute := new_minute, cl_second := 0\<rparr>"

definition clock_get :: "clock \<Rightarrow> u8 \<times> u8" where
  "clock_get c = (cl_hour c, cl_minute c)"

text \<open>The result tells whether the minute changed.\<close>

definition advance_second :: "clock \<Rightarrow> u8 \<times> clock" where
  "advance_second c =
     (if cl_second c < CLOCK_SECOND_MAX then (0, c\<lparr>cl_second := cl_second c + 1\<rparr>)
      else
        let c = c\<lparr>cl_second := 0\<rparr>
        in if cl_minute c < CLOCK_MINUTE_MAX then (1, c\<lparr>cl_minute := cl_minute c + 1\<rparr>)
           else
             let c = c\<lparr>cl_minute := 0\<rparr>
             in if cl_hour c < CLOCK_HOUR_MAX then (1, c\<lparr>cl_hour := cl_hour c + 1\<rparr>)
                else (1, c\<lparr>cl_hour := 0\<rparr>))"

text \<open>The comparison with the alarm is commented out in the code: nothing follows the two tests.\<close>

definition clock_advance_second :: "clock \<Rightarrow> clock" where
  "clock_advance_second c =
     (case advance_second c of
        (changed, c) \<Rightarrow> if changed = 0 then c else if cl_alarm_engaged c = 0 then c else c)"

definition clock_alarm_set :: "u8 \<Rightarrow> u8 \<Rightarrow> clock \<Rightarrow> u8 \<times> clock" where
  "clock_alarm_set a_hour a_minute c =
     (if a_hour > CLOCK_HOUR_MAX \<or> a_minute > CLOCK_MINUTE_MAX then (0, c)
      else (1, c\<lparr>cl_alarm_hour := a_hour, cl_alarm_minute := a_minute\<rparr>))"

definition clock_alarm_get :: "clock \<Rightarrow> u8 \<times> u8" where
  "clock_alarm_get c = (cl_alarm_hour c, cl_alarm_minute c)"

definition clock_alarm_control :: "u8 \<Rightarrow> clock \<Rightarrow> clock" where
  "clock_alarm_control engage c = c\<lparr>cl_alarm_engaged := (if engage = 0 then 0 else 1)\<rparr>"

definition clock_alarm_state :: "clock \<Rightarrow> u8" where
  "clock_alarm_state c = cl_alarm_engaged c"

definition clock_spaces :: "nat \<Rightarrow> buf_t \<Rightarrow> buf_t" where
  "clock_spaces n q = fold (\<lambda>_ q. snd (buf_byte_fill q 0)) [0..<n] q"

definition clock_render :: "clock \<Rightarrow> buf_t \<Rightarrow> buf_t option" where
  "clock_render c q =
     (let indent = (if cl_alarm_engaged c = 0 then LONG_INDENT else 0);
          q = clock_spaces indent q;
          q = snd (render_number (cl_hour c) RENDER_LEADING_DISABLE q);
          q = snd (render_symbol FONT_COLON q);
          q = snd (render_number (cl_minute c) RENDER_LEADING_TEN q);
          q = (if cl_alarm_engaged c \<noteq> 0
               then (let q = clock_spaces ALARM_SPACE q;
                         q = snd (render_number (cl_alarm_hour c) RENDER_LEADING_DISABLE q);
                         q = snd (render_symbol FONT_COLON q)
                     in snd (render_number (cl_alarm_minute c) RENDER_LEADING_TEN q))
               else q)
      in render_tail q)"

section \<open>\<open>sync.c\<close>\<close>

record sync =
  sy_hour :: u8
  sy_min :: u8
  sy_call_num :: u8

definition CALLS_PER_MINUTE :: u8 where "CALLS_PER_MINUTE = 30"
definition MINUTES_PER_HOUR :: u8 where "MINUTES_PER_HOUR = 60"
definition HOURS_PER_DAY :: u8 where "HOURS_PER_DAY = 24"

lemmas sync_defs = CALLS_PER_MINUTE_def MINUTES_PER_HOUR_def HOURS_PER_DAY_def

definition increment_minute :: "sync \<Rightarrow> sync" where
  "increment_minute y =
     (let y = y\<lparr>sy_min := sy_min y + 1\<rparr>
      in if sy_min y < MINUTES_PER_HOUR then y
         else
           let y = y\<lparr>sy_min := 0\<rparr>;
               y = y\<lparr>sy_hour := sy_hour y + 1\<rparr>
           in if sy_hour y < HOURS_PER_DAY then y else y\<lparr>sy_hour := 0\<rparr>)"

definition sync_call :: "sync \<Rightarrow> sync" where
  "sync_call y =
     (let y = y\<lparr>sy_call_num := sy_call_num y + 1\<rparr>
      in if sy_call_num y \<ge> CALLS_PER_MINUTE then increment_minute (y\<lparr>sy_call_num := 0\<rparr>) else y)"

definition sync_clock :: "u8 \<Rightarrow> u8 \<Rightarrow> sync \<Rightarrow> sync" where
  "sync_clock new_hour new_min y = y\<lparr>sy_hour := new_hour, sy_min := new_min, sy_call_num := 0\<rparr>"

text \<open>\<open>invoke_enable\<close> of the previous controller, which registers \<open>sync_call\<close>, is not in the sources.\<close>

definition sync_init :: "('i \<Rightarrow> 'i) \<Rightarrow> sync \<times> 'i \<Rightarrow> sync \<times> 'i" where
  "sync_init invoke_enable yi =
     (case yi of (y, i) \<Rightarrow> (y\<lparr>sy_hour := 0, sy_min := 0, sy_call_num := 0\<rparr>, invoke_enable i))"

section \<open>The time of the day\<close>

definition clock_ok :: "clock \<Rightarrow> bool" where
  "clock_ok c \<longleftrightarrow> cl_second c \<le> 59 \<and> cl_minute c \<le> 59 \<and> cl_hour c \<le> 23 \<and> cl_alarm_minute c \<le> 59 \<and>
     cl_alarm_hour c \<le> 23"

definition clock_time :: "clock \<Rightarrow> nat" where
  "clock_time c = unat (cl_hour c) * 3600 + unat (cl_minute c) * 60 + unat (cl_second c)"

lemma clock_time_less: "clock_ok c \<Longrightarrow> clock_time c < 86400"
  by (simp add: clock_ok_def clock_time_def u8_le_iff)

lemma advance_second_time:
  assumes "clock_ok c"
  shows "clock_ok (snd (advance_second c))"
    "clock_time (snd (advance_second c)) = (clock_time c + 1) mod 86400"
    "fst (advance_second c) = of_flag (clock_time (snd (advance_second c)) mod 60 = 0)"
proof -
  have small: "unat (cl_second c) \<le> 59" "unat (cl_minute c) \<le> 59" "unat (cl_hour c) \<le> 23"
    using assms by (simp_all add: clock_ok_def u8_le_iff)
  have alarm: "cl_alarm_minute c \<le> 59" "cl_alarm_hour c \<le> 23" using assms by (simp_all add: clock_ok_def)
  consider (sec) "unat (cl_second c) < 59" | (min) "unat (cl_second c) = 59" "unat (cl_minute c) < 59"
    | (hour) "unat (cl_second c) = 59" "unat (cl_minute c) = 59" "unat (cl_hour c) < 23"
    | (day) "unat (cl_second c) = 59" "unat (cl_minute c) = 59" "unat (cl_hour c) = 23"
    using small by linarith
  then have "clock_ok (snd (advance_second c)) \<and>
    clock_time (snd (advance_second c)) = (clock_time c + 1) mod 86400 \<and>
    fst (advance_second c) = of_flag (clock_time (snd (advance_second c)) mod 60 = 0)"
  proof cases
    case sec
    then have "advance_second c = (0, c\<lparr>cl_second := cl_second c + 1\<rparr>)"
      by (simp add: advance_second_def clock_defs u8_less_iff)
    moreover have "clock_time (c\<lparr>cl_second := cl_second c + 1\<rparr>) = clock_time c + 1"
      using sec by (simp add: clock_time_def unat_u8_Suc)
    moreover have "clock_time c + 1 < 86400" using sec small unfolding clock_time_def by linarith
    moreover have "clock_time c + 1 = unat (cl_second c) + 1 + 60 * (unat (cl_hour c) * 60 + unat (cl_minute c))"
      by (simp add: clock_time_def)
    then have "(clock_time c + 1) mod 60 \<noteq> 0" using sec by (simp only: mod_mult_self2) simp
    ultimately show ?thesis using sec small alarm by (simp add: clock_ok_def u8_le_iff unat_u8_Suc)
  next
    case min
    then have "advance_second c = (1, c\<lparr>cl_second := 0, cl_minute := cl_minute c + 1\<rparr>)"
      by (simp add: advance_second_def clock_defs u8_less_iff)
    then show ?thesis
      using min small alarm by (simp add: clock_ok_def clock_time_def u8_le_iff unat_u8_Suc)
  next
    case hour
    then have "advance_second c = (1, c\<lparr>cl_second := 0, cl_minute := 0, cl_hour := cl_hour c + 1\<rparr>)"
      by (simp add: advance_second_def clock_defs u8_less_iff)
    then show ?thesis
      using hour small alarm by (simp add: clock_ok_def clock_time_def u8_le_iff unat_u8_Suc)
  next
    case day
    then have "advance_second c = (1, c\<lparr>cl_second := 0, cl_minute := 0, cl_hour := 0\<rparr>)"
      by (simp add: advance_second_def clock_defs u8_less_iff)
    then show ?thesis
      using day alarm by (simp add: clock_ok_def clock_time_def u8_le_iff)
  qed
  then show "clock_ok (snd (advance_second c))"
    "clock_time (snd (advance_second c)) = (clock_time c + 1) mod 86400"
    "fst (advance_second c) = of_flag (clock_time (snd (advance_second c)) mod 60 = 0)" by blast+
qed

lemma clock_advance: "clock_advance_second c = snd (advance_second c)"
  by (simp add: clock_advance_second_def case_prod_beta)

lemma clock_seconds:
  assumes "clock_ok c"
  shows "clock_ok ((clock_advance_second ^^ n) c) \<and>
    clock_time ((clock_advance_second ^^ n) c) = (clock_time c + n) mod 86400"
proof (induction n)
  case 0
  then show ?case using assms clock_time_less by simp
next
  case (Suc n)
  let ?c = "(clock_advance_second ^^ n) c"
  have "(clock_advance_second ^^ Suc n) c = snd (advance_second ?c)" using clock_advance by simp
  moreover have "(clock_time c + Suc n) mod 86400 = (clock_time ?c + 1) mod 86400"
    using Suc by (simp add: mod_Suc_eq)
  ultimately show ?case using advance_second_time(1,2) [of ?c] Suc by presburger
qed

section \<open>Calls and minutes\<close>

definition sync_ok :: "sync \<Rightarrow> bool" where
  "sync_ok y \<longleftrightarrow> sy_call_num y < 30 \<and> sy_min y < 60 \<and> sy_hour y < 24"

text \<open>In calls of the timer, two seconds each.\<close>

definition sync_time :: "sync \<Rightarrow> nat" where
  "sync_time y = unat (sy_hour y) * 1800 + unat (sy_min y) * 30 + unat (sy_call_num y)"

lemma sync_call_time:
  assumes "sync_ok y"
  shows "sync_ok (sync_call y) \<and> sync_time (sync_call y) = (sync_time y + 1) mod 43200"
proof -
  have small: "unat (sy_call_num y) < 30" "unat (sy_min y) < 60" "unat (sy_hour y) < 24"
    using assms by (simp_all add: sync_ok_def u8_less_iff)
  consider (call) "unat (sy_call_num y) < 29" | (min) "unat (sy_call_num y) = 29" "unat (sy_min y) < 59"
    | (hour) "unat (sy_call_num y) = 29" "unat (sy_min y) = 59" "unat (sy_hour y) < 23"
    | (day) "unat (sy_call_num y) = 29" "unat (sy_min y) = 59" "unat (sy_hour y) = 23"
    using small by linarith
  then show ?thesis
  proof cases
    case call
    then have "sync_call y = y\<lparr>sy_call_num := sy_call_num y + 1\<rparr>"
      by (simp add: sync_call_def sync_defs u8_le_iff unat_u8_Suc)
    moreover have "sync_time y + 1 < 43200" using call small unfolding sync_time_def by linarith
    ultimately show ?thesis
      using call small by (simp add: sync_ok_def sync_time_def u8_less_iff unat_u8_Suc)
  next
    case min
    then have "sync_call y = y\<lparr>sy_call_num := 0, sy_min := sy_min y + 1\<rparr>"
      by (simp add: sync_call_def increment_minute_def sync_defs u8_le_iff u8_less_iff unat_u8_Suc)
    moreover have "sync_time y + 1 < 43200" using min small unfolding sync_time_def by linarith
    ultimately show ?thesis
      using min small by (simp add: sync_ok_def sync_time_def u8_less_iff unat_u8_Suc)
  next
    case hour
    then have "sync_call y = y\<lparr>sy_call_num := 0, sy_min := 0, sy_hour := sy_hour y + 1\<rparr>"
      by (simp add: sync_call_def increment_minute_def sync_defs u8_le_iff u8_less_iff unat_u8_Suc)
    moreover have "sync_time y + 1 < 43200" using hour small unfolding sync_time_def by linarith
    ultimately show ?thesis
      using hour small by (simp add: sync_ok_def sync_time_def u8_less_iff unat_u8_Suc)
  next
    case day
    then have "sync_call y = y\<lparr>sy_call_num := 0, sy_min := 0, sy_hour := 0\<rparr>"
      by (simp add: sync_call_def increment_minute_def sync_defs u8_le_iff u8_less_iff unat_u8_Suc)
    then show ?thesis using day by (simp add: sync_ok_def sync_time_def u8_less_iff)
  qed
qed

lemma sync_calls:
  assumes "sync_ok y"
  shows "sync_ok ((sync_call ^^ n) y) \<and> sync_time ((sync_call ^^ n) y) = (sync_time y + n) mod 43200"
proof (induction n)
  case 0
  have "sync_time y < 43200" using assms by (simp add: sync_ok_def sync_time_def u8_less_iff)
  then show ?case using assms by simp
next
  case (Suc n)
  let ?y = "(sync_call ^^ n) y"
  have "(sync_time y + Suc n) mod 43200 = (sync_time ?y + 1) mod 43200" using Suc by (simp add: mod_Suc_eq)
  then show ?case using sync_call_time [of ?y] Suc by simp
qed

lemma same_minute:
  fixes h m sec h' m' k :: nat
  assumes "h * 3600 + m * 60 + sec = 2 * (h' * 1800 + m' * 30 + k)" "sec < 60" "m < 60" "k < 30" "m' < 60"
  shows "h = h'" "m = m'"
proof -
  have digits: "(x * 60 + r) div 60 = x" if "r < 60" for x r :: nat using that by simp
  have "2 * k < 60" using assms(4) by simp
  have "(h * 60 + m) * 60 + sec = (h' * 60 + m') * 60 + 2 * k" using assms(1) by simp
  from arg_cong [OF this, of "\<lambda>x. x div 60"]
  have eq: "h * 60 + m = h' * 60 + m'" unfolding digits [OF assms(2)] digits [OF \<open>2 * k < 60\<close>] .
  then have "(h * 60 + m) div 60 = (h' * 60 + m') div 60" by simp
  then show "h = h'" using assms(3,5) by simp
  with eq show "m = m'" by simp
qed

text \<open>
  Both retired clocks count the time of the day: after any number of seconds, or of calls of the timer
  that come every two seconds, hours, minutes and seconds are those of the day, and the two clocks,
  set to the same time, agree for ever.
\<close>

theorem clocks_count_day:
  assumes "clock_ok c" "sync_ok y" "clock_time c = 2 * sync_time y"
  shows "clock_time ((clock_advance_second ^^ n) c) = (clock_time c + n) mod 86400 \<and>
    clock_ok ((clock_advance_second ^^ n) c) \<and>
    clock_get ((clock_advance_second ^^ (2 * k)) c) = (sy_hour ((sync_call ^^ k) y), sy_min ((sync_call ^^ k) y))"
proof -
  let ?c = "(clock_advance_second ^^ (2 * k)) c" and ?y = "(sync_call ^^ k) y"
  have c: "clock_ok ?c" "clock_time ?c = (clock_time c + 2 * k) mod 86400"
    using clock_seconds [OF assms(1), of "2 * k"] by simp_all
  have y: "sync_ok ?y" "sync_time ?y = (sync_time y + k) mod 43200"
    using sync_calls [OF assms(2), of k] by simp_all
  have "clock_time ?c = (2 * (sync_time y + k)) mod (2 * 43200)" using c(2) assms(3) by simp
  also have "\<dots> = 2 * sync_time ?y" by (simp only: mult_mod_right [symmetric] y(2))
  finally have same: "clock_time ?c = 2 * sync_time ?y" .
  have bounds: "unat (cl_second ?c) < 60" "unat (cl_minute ?c) < 60" "unat (sy_call_num ?y) < 30" "unat (sy_min ?y) < 60"
    using c(1) y(1) by (simp_all add: clock_ok_def sync_ok_def u8_le_iff u8_less_iff)
  note eq = same_minute [OF same [unfolded clock_time_def sync_time_def] bounds]
  have "clock_get ?c = (sy_hour ?y, sy_min ?y)" using eq by (simp add: clock_get_def u8_eq_iff)
  then show ?thesis using clock_seconds [OF assms(1), of n] by blast
qed

definition late_clock :: clock where
  "late_clock = \<lparr>cl_second = 58, cl_minute = 59, cl_hour = 23,
     cl_alarm_engaged = 0, cl_alarm_minute = 0, cl_alarm_hour = 0\<rparr>"

lemma clocks_count_day_witness:
  "clock_get ((clock_advance_second ^^ 2) late_clock) = (0, 0)"
proof -
  let ?c = "late_clock" and ?y = "\<lparr>sy_hour = 23, sy_min = 59, sy_call_num = 29\<rparr>"
  have "clock_ok ?c" "sync_ok ?y" "clock_time ?c = 2 * sync_time ?y"
    by (simp_all add: clock_ok_def sync_ok_def clock_time_def sync_time_def late_clock_def)
  from clocks_count_day [OF this, of 0 1] show ?thesis
    by (simp add: sync_call_def increment_minute_def sync_defs numeral_2_eq_2)
qed

section \<open>The picture of the clock\<close>

definition time_columns :: "u8 \<Rightarrow> u8 \<Rightarrow> bytes" where
  "time_columns h m = number_columns False h @ glyph_columns FONT_COLON @ number_columns True m"

lemma time_columns_size: "unat h < 100 \<Longrightarrow> unat m < 100 \<Longrightarrow> length (time_columns h m) \<le> 30"
  using number_columns_size [of h False] number_columns_size [of m True] glyph_size [of FONT_COLON] colon_glyph
  by (cases "fill_matrix FONT_COLON") (auto simp: time_columns_def)

lemma picture_time:
  assumes "picture q xs" "unat h < 100" "unat m < 100" "length xs \<le> 34"
  shows "picture (snd (render_number m RENDER_LEADING_TEN (snd (render_symbol FONT_COLON
      (snd (render_number h RENDER_LEADING_DISABLE q)))))) (xs @ time_columns h m)"
proof -
  have colon: "length (glyph_columns FONT_COLON) = 6"
    using glyph_size [of FONT_COLON] colon_glyph by (cases "fill_matrix FONT_COLON") auto
  note size = number_columns_size [OF assms(2), of False]
  from picture_number [OF assms(1,2), of 0 False] assms(4) obtain q1 where
    q1: "render_number h 0 q = (1, q1)" "picture q1 (xs @ number_columns False h)" by auto
  from picture_symbol [OF q1(2) colon_glyph] assms(4) size obtain q2 where
    q2: "render_symbol FONT_COLON q1 = (1, q2)" "picture q2 (xs @ number_columns False h @ glyph_columns FONT_COLON)"
    by auto
  from picture_number [OF q2(2) assms(3), of 1 True] assms(4) size colon obtain q3 where
    "render_number m 1 q2 = (1, q3)" "picture q3 (xs @ time_columns h m)"
    by (auto simp: time_columns_def)
  with q1(1) q2(1) show ?thesis by simp
qed

text \<open>
  The picture shows the time behind 22 dark columns, or the time and the time of the alarm with three
  dark columns between them, and is filled up with dark columns.
\<close>

theorem clock_picture:
  assumes "clock_ok c"
  shows "(let columns = (if cl_alarm_engaged c = 0 then replicate 22 0 @ time_columns (cl_hour c) (cl_minute c)
        else time_columns (cl_hour c) (cl_minute c) @ replicate 3 0 @ time_columns (cl_alarm_hour c) (cl_alarm_minute c))
     in length columns \<le> 64 \<and> (\<exists>pic. clock_render c (buf_init buf_zero) = Some pic \<and>
          picture pic (columns @ replicate (64 - length columns) 0)))"
proof -
  have small: "unat (cl_hour c) < 100" "unat (cl_minute c) < 100" "unat (cl_alarm_hour c) < 100"
    "unat (cl_alarm_minute c) < 100" using assms by (simp_all add: clock_ok_def u8_le_iff)
  note size = time_columns_size [OF small(1,2)] time_columns_size [OF small(3,4)]
  show ?thesis
  proof (cases "cl_alarm_engaged c = 0")
    case True
    have "picture (clock_spaces 22 (buf_init buf_zero)) (replicate 22 0)"
      using picture_zeros [OF picture_init, of 22] by (simp add: clock_spaces_def)
    from render_tail_ends [OF picture_time [OF this small(1,2)]] True size(1) show ?thesis
      by (auto simp: clock_render_def clock_defs Let_def)
  next
    case False
    have none: "clock_spaces 0 (buf_init buf_zero) = buf_init buf_zero" by (simp add: clock_spaces_def)
    from picture_time [OF picture_init small(1,2)]
    have "picture (snd (render_number (cl_minute c) RENDER_LEADING_TEN (snd (render_symbol FONT_COLON
      (snd (render_number (cl_hour c) RENDER_LEADING_DISABLE (buf_init buf_zero)))))))
      (time_columns (cl_hour c) (cl_minute c))" (is "picture ?q _") by simp
    from picture_zeros [OF this, of 3] size(1)
    have "picture (clock_spaces 3 ?q) (time_columns (cl_hour c) (cl_minute c) @ replicate 3 0)"
      unfolding clock_spaces_def by simp
    from render_tail_ends [OF picture_time [OF this small(3,4)]] False none size show ?thesis
      by (auto simp: clock_render_def clock_defs Let_def)
  qed
qed

end
