(* ===== verification/Old_Keys.thy ===== *)
theory Old_Keys
  imports Avr_Twi
begin

text \<open>
  The touch keys of the previous controller: the state machine of \<open>src/obsoleted/avr-2560/key-board.c\<close>,
  which sets up a touch sensor register by register and then reads its keys, on the driver of the
  two wire bus next to it, \<open>twi.c\<close>, which carries one request at a time. A step of the state machine
  waits for the end of a request, or for the interrupt of the sensor. The numbers of the messages
  are in the headers no more, so a message is a value of \<open>board_msg\<close>; \<open>kb_started\<close> is added to the state:
  the requests that were started.
\<close>

section \<open>State\<close>

datatype board_msg =
    Board_write_error u8
  | Board_read_error u8
  | Board_handle_error u8
  | Button u8 u8

datatype board_request = Write_byte u8 u8 | Write_word u8 u8 | Read_byte u8

record keys =
  kb_mode :: u8
  kb_advance :: u8
  kb_state :: u8
  kb_byte_buf :: u8
  kb_word_buf :: bytes
  kb_io :: io
  kb_sent :: "board_msg list"
  kb_started :: "board_request list"
  tb_mode :: u8
  tb_status :: u8
  tb_reg_buf :: u8
  tb_data_buf :: bytes
  tb_write_cb :: bool
  tb_read_cb :: bool
  tb_transfer_count :: u8
  tb_transfer_limit :: u8

definition key_set :: "ioreg \<Rightarrow> u8 \<Rightarrow> keys \<Rightarrow> keys" where
  "key_set r v k = k\<lparr>kb_io := (kb_io k)(r := v)\<rparr>"

definition key_or :: "ioreg \<Rightarrow> u8 \<Rightarrow> keys \<Rightarrow> keys" where
  "key_or r v k = key_set r (kb_io k r OR v) k"

definition key_clear :: "ioreg \<Rightarrow> u8 \<Rightarrow> keys \<Rightarrow> keys" where
  "key_clear r v k = key_set r (kb_io k r AND NOT v) k"

definition key_send :: "board_msg \<Rightarrow> keys \<Rightarrow> keys" where
  "key_send m k = k\<lparr>kb_sent := kb_sent k @ [m]\<rparr>"

section \<open>\<open>twi.c\<close>\<close>

text \<open>The modes of the driver, its results, and the control bits.\<close>

definition TB_WRITE_START :: u8 where "TB_WRITE_START = 0"
definition TB_WRITE_SLAVE :: u8 where "TB_WRITE_SLAVE = 1"
definition TB_WRITE_REG :: u8 where "TB_WRITE_REG = 2"
definition TB_WRITE_VALUE :: u8 where "TB_WRITE_VALUE = 3"
definition TB_READ_START :: u8 where "TB_READ_START = 4"
definition TB_READ_SLAVE :: u8 where "TB_READ_SLAVE = 5"
definition TB_READ_VALUE :: u8 where "TB_READ_VALUE = 6"
definition TB_READ_DONE :: u8 where "TB_READ_DONE = 7"
definition TB_IDLE :: u8 where "TB_IDLE = 8"

definition TB_SUCCESS :: u8 where "TB_SUCCESS = 0"
definition TB_WRITE_START_ERROR :: u8 where "TB_WRITE_START_ERROR = 1"
definition TB_WRITE_SLAVE_ERROR :: u8 where "TB_WRITE_SLAVE_ERROR = 2"
definition TB_WRITE_REG_ERROR :: u8 where "TB_WRITE_REG_ERROR = 3"
definition TB_WRITE_VALUE_ERROR :: u8 where "TB_WRITE_VALUE_ERROR = 4"
definition TB_READ_START_ERROR :: u8 where "TB_READ_START_ERROR = 5"
definition TB_READ_SLAVE_ERROR :: u8 where "TB_READ_SLAVE_ERROR = 6"
definition TB_READ_VALUE_ERROR :: u8 where "TB_READ_VALUE_ERROR = 7"
definition TB_READ_DONE_ERROR :: u8 where "TB_READ_DONE_ERROR = 8"
definition TB_WRITE_BYTE_ERROR :: u8 where "TB_WRITE_BYTE_ERROR = 9"
definition TB_WRITE_WORD_ERROR :: u8 where "TB_WRITE_WORD_ERROR = 10"
definition TB_READ_BYTE_ERROR :: u8 where "TB_READ_BYTE_ERROR = 11"

definition TW_MR_DATA_NACK :: u8 where "TW_MR_DATA_NACK = 0x58"
definition TWINT_BIT :: u8 where "TWINT_BIT = 128"
definition TWEA_BIT :: u8 where "TWEA_BIT = 64"
definition TWEN_TWIE :: u8 where "TWEN_TWIE = 5"
definition TRANSFER_BYTE :: u8 where "TRANSFER_BYTE = 0"
definition TRANSFER_WORD :: u8 where "TRANSFER_WORD = 7"
definition TB_SLAVE_ADDRESS :: u8 where "TB_SLAVE_ADDRESS = 0x17"

lemmas tb_defs =
  TB_WRITE_START_def TB_WRITE_SLAVE_def TB_WRITE_REG_def TB_WRITE_VALUE_def TB_READ_START_def
  TB_READ_SLAVE_def TB_READ_VALUE_def TB_READ_DONE_def TB_IDLE_def TB_SUCCESS_def
  TRANSFER_BYTE_def TRANSFER_WORD_def

definition tb_init :: "keys \<Rightarrow> keys" where
  "tb_init k =
     (let k = k\<lparr>tb_write_cb := False, tb_read_cb := False, tb_transfer_count := 0,
                tb_transfer_limit := TRANSFER_BYTE\<rparr>
      in key_or TWCR TWEN_TWIE (key_set TWBR 4 k))"

definition tb_busy :: "keys \<Rightarrow> u8" where
  "tb_busy k = of_flag (tb_write_cb k \<or> tb_read_cb k)"

definition tb_start :: "u8 \<Rightarrow> keys \<Rightarrow> keys" where
  "tb_start new_mode k =
     (let k = k\<lparr>tb_mode := (if new_mode = TB_WRITE_START then TB_WRITE_START else TB_READ_START)\<rparr>
      in key_or TWCR TWEN_TWIE (key_clear TWCR TWSTO_BIT (key_or TWCR TWSTA_BIT k)))"

definition tb_stop :: "keys \<Rightarrow> keys" where
  "tb_stop k = (key_clear TWCR TWSTA_BIT (key_or TWCR TWSTO_BIT k))\<lparr>tb_mode := TB_IDLE\<rparr>"

definition tb_read :: "u8 \<Rightarrow> keys \<Rightarrow> u8 \<times> keys" where
  "tb_read r k =
     (if tb_busy k \<noteq> 0 then (0, k)
      else (1, tb_start TB_WRITE_START (k\<lparr>tb_status := TB_SUCCESS, tb_read_cb := True, tb_reg_buf := r,
                 tb_transfer_count := 0, kb_started := kb_started k @ [Read_byte r]\<rparr>)))"

definition tb_read_byte :: "u8 \<Rightarrow> keys \<Rightarrow> u8 \<times> keys" where
  "tb_read_byte r k =
     tb_read r (k\<lparr>tb_transfer_limit := TRANSFER_BYTE, tb_data_buf := (tb_data_buf k)[0 := 111]\<rparr>)"

text \<open>\<open>request\<close> is what the trace notes.\<close>

definition tb_write :: "board_request \<Rightarrow> u8 \<Rightarrow> u8 \<Rightarrow> keys \<Rightarrow> u8 \<times> keys" where
  "tb_write request r v k =
     (if tb_busy k \<noteq> 0 then (0, k)
      else (1, tb_start TB_WRITE_START (k\<lparr>tb_status := TB_SUCCESS, tb_write_cb := True, tb_reg_buf := r,
                 tb_data_buf := (tb_data_buf k)[0 := v], tb_transfer_count := 0,
                 kb_started := kb_started k @ [request]\<rparr>)))"

definition tb_write_byte :: "u8 \<Rightarrow> u8 \<Rightarrow> keys \<Rightarrow> u8 \<times> keys" where
  "tb_write_byte r v k = tb_write (Write_byte r v) r v (k\<lparr>tb_transfer_limit := TRANSFER_BYTE\<rparr>)"

definition tb_write_word :: "u8 \<Rightarrow> u8 \<Rightarrow> keys \<Rightarrow> u8 \<times> keys" where
  "tb_write_word r v k = tb_write (Write_word r v) r v (k\<lparr>tb_transfer_limit := TRANSFER_WORD\<rparr>)"

definition tb_slave :: "u8 \<Rightarrow> u8" where
  "tb_slave rd = push_bit 1 TB_SLAVE_ADDRESS OR (if rd \<noteq> 0 then 1 else 0)"

definition tb_check_status :: "u8 \<Rightarrow> keys \<Rightarrow> u8" where
  "tb_check_status msk k = of_flag ((kb_io k TWSR AND 0xF8) AND msk = msk)"

definition tb_reading :: "keys \<Rightarrow> u8" where
  "tb_reading k = of_flag (tb_read_cb k)"

text \<open>What most branches of the interrupt routine share: an unexpected status ends the request.\<close>

definition tb_check :: "u8 \<Rightarrow> u8 \<Rightarrow> (keys \<Rightarrow> keys) \<Rightarrow> keys \<Rightarrow> keys" where
  "tb_check msk error act k =
     (if tb_check_status msk k = 0 then tb_stop (k\<lparr>tb_status := error\<rparr>) else act k)"

text \<open>The interrupt routine; its debug messages are left out.\<close>

definition tb_isr :: "keys \<Rightarrow> keys" where
  "tb_isr k =
     (let mode_old = tb_mode k;
          k = (if tb_mode k < TB_IDLE then k\<lparr>tb_mode := tb_mode k + 1\<rparr> else k);
          k =
            (if mode_old = TB_WRITE_START then
               tb_check TW_START TB_WRITE_START_ERROR (\<lambda>k. key_clear TWCR TWSTA_BIT (key_set TWDR (tb_slave 0) k)) k
             else if mode_old = TB_WRITE_SLAVE then
               tb_check TW_MT_SLA_ACK TB_WRITE_SLAVE_ERROR (\<lambda>k. key_set TWDR (tb_reg_buf k) k) k
             else if mode_old = TB_WRITE_REG then
               tb_check TW_MT_DATA_ACK TB_WRITE_REG_ERROR (\<lambda>k.
                 if tb_reading k \<noteq> 0 then tb_start TB_READ_START k else key_set TWDR (tb_data_buf k ! 0) k) k
             else if mode_old = TB_WRITE_VALUE then
               tb_check TW_MT_DATA_ACK TB_WRITE_VALUE_ERROR (\<lambda>k.
                 if tb_transfer_count k < tb_transfer_limit k
                 then k\<lparr>tb_transfer_count := tb_transfer_count k + 1, tb_mode := tb_mode k - 2\<rparr>
                 else tb_stop k) k
             else if mode_old = TB_READ_START then
               tb_check TW_REP_START TB_READ_START_ERROR (key_set TWDR (tb_slave 1)) k
             else if mode_old = TB_READ_SLAVE then
               tb_check TW_MR_SLA_ACK TB_READ_SLAVE_ERROR (\<lambda>k.
                 let k = key_clear TWCR TWSTA_BIT k
                 in if tb_transfer_count k < tb_transfer_limit k then key_or TWCR TWEA_BIT k else k) k
             else if mode_old = TB_READ_VALUE then
               tb_check TW_MR_DATA_ACK TB_READ_VALUE_ERROR (\<lambda>k.
                 let k = k\<lparr>tb_data_buf := (tb_data_buf k)[unat (tb_transfer_count k) := kb_io k TWDR]\<rparr>
                 in if tb_transfer_count k < tb_transfer_limit k
                    then key_or TWCR TWEA_BIT (k\<lparr>tb_transfer_count := tb_transfer_count k + 1, tb_mode := tb_mode k - 1\<rparr>)
                    else key_clear TWCR TWEA_BIT k) k
             else if mode_old = TB_READ_DONE then
               tb_stop (if tb_check_status TW_MR_DATA_NACK k = 0 then k\<lparr>tb_status := TB_READ_DONE_ERROR\<rparr> else k)
             else if mode_old = TB_IDLE then k\<lparr>tb_mode := TB_IDLE\<rparr>
             else k)
      in key_or TWCR TWINT_BIT k)"

definition tb_read_word :: "u8 \<Rightarrow> keys \<Rightarrow> u8 \<times> keys" where
  "tb_read_word r k = tb_read r (k\<lparr>tb_transfer_limit := TRANSFER_WORD\<rparr>)"

section \<open>Modes, registers and ways to advance\<close>

definition KB_ERROR :: u8 where "KB_ERROR = 0"
definition KB_RESET :: u8 where "KB_RESET = 1"
definition KB_ENABLE_READ :: u8 where "KB_ENABLE_READ = 2"
definition KB_ENABLE_CHECK :: u8 where "KB_ENABLE_CHECK = 3"
definition KB_USE_CHANNEL :: u8 where "KB_USE_CHANNEL = 4"
definition KB_GAIN :: u8 where "KB_GAIN = 5"
definition KB_THRESHOLD :: u8 where "KB_THRESHOLD = 6"
definition KB_AVERAGE_COUNT :: u8 where "KB_AVERAGE_COUNT = 7"
definition KB_FILTER :: u8 where "KB_FILTER = 8"
definition KB_DEBOUNCE_COUNT :: u8 where "KB_DEBOUNCE_COUNT = 9"
definition KB_SHORT_INTERVAL :: u8 where "KB_SHORT_INTERVAL = 10"
definition KB_LONG_INTERVAL :: u8 where "KB_LONG_INTERVAL = 11"
definition KB_OFFCAL_CYCLE :: u8 where "KB_OFFCAL_CYCLE = 12"
definition KB_OFFCAL_PLUS :: u8 where "KB_OFFCAL_PLUS = 13"
definition KB_OFFCAL_MINUS :: u8 where "KB_OFFCAL_MINUS = 14"
definition KB_CANCEL_COUNT_LOWER :: u8 where "KB_CANCEL_COUNT_LOWER = 15"
definition KB_CANCEL_COUNT_HIGHER :: u8 where "KB_CANCEL_COUNT_HIGHER = 16"
definition KB_CDAC_BASE :: u8 where "KB_CDAC_BASE = 17"
definition KB_MEASUREMENT_MODE :: u8 where "KB_MEASUREMENT_MODE = 18"
definition KB_PARAM_APPLY :: u8 where "KB_PARAM_APPLY = 19"
definition KB_WAKEUP_WAIT :: u8 where "KB_WAKEUP_WAIT = 20"
definition KB_LOOP_START :: u8 where "KB_LOOP_START = 21"
definition KB_READ_ERROR :: u8 where "KB_READ_ERROR = 22"
definition KB_CHECK_ERROR :: u8 where "KB_CHECK_ERROR = 23"
definition KB_READ_DATA :: u8 where "KB_READ_DATA = 24"
definition KB_HANDLE_DATA :: u8 where "KB_HANDLE_DATA = 25"
definition KB_LOOP_FINISH :: u8 where "KB_LOOP_FINISH = 26"

definition REG_CONTROL_1 :: u8 where "REG_CONTROL_1 = 0x1C"
definition REG_CONTROL_2 :: u8 where "REG_CONTROL_2 = 0x40"
definition REG_USE_CHANNEL :: u8 where "REG_USE_CHANNEL = 0x00"
definition REG_GAIN :: u8 where "REG_GAIN = 0x01"
definition REG_THRESHOLD :: u8 where "REG_THRESHOLD = 0x09"
definition REG_ERROR :: u8 where "REG_ERROR = 0x1A"
definition REG_AVERAGE_COUNT :: u8 where "REG_AVERAGE_COUNT = 0x1D"
definition REG_FILTER :: u8 where "REG_FILTER = 0x1E"
definition REG_DEBOUNCE_COUNT :: u8 where "REG_DEBOUNCE_COUNT = 0x1F"
definition REG_SHORT_INTERVAL :: u8 where "REG_SHORT_INTERVAL = 0x20"
definition REG_LONG_INTERVAL :: u8 where "REG_LONG_INTERVAL = 0x21"
definition REG_OFFCAL_CYCLE :: u8 where "REG_OFFCAL_CYCLE = 0x22"
definition REG_OFFCAL_PLUS :: u8 where "REG_OFFCAL_PLUS = 0x23"
definition REG_OFFCAL_MINUS :: u8 where "REG_OFFCAL_MINUS = 0x24"
definition REG_CANCEL_COUNT_LOWER :: u8 where "REG_CANCEL_COUNT_LOWER = 0x25"
definition REG_CANCEL_COUNT_HIGHER :: u8 where "REG_CANCEL_COUNT_HIGHER = 0x26"
definition REG_CDAC_BASE :: u8 where "REG_CDAC_BASE = 0x3D"
definition REG_MEASUREMENT_MODE :: u8 where "REG_MEASUREMENT_MODE = 0x3E"
definition REG_DATA :: u8 where "REG_DATA = 0x19"

definition ADVANCE_FLAG_RW :: u8 where "ADVANCE_FLAG_RW = 1"
definition ADVANCE_FLAG_INT :: u8 where "ADVANCE_FLAG_INT = 2"
definition ADVANCE_GO_RW :: u8 where "ADVANCE_GO_RW = 4"
definition ADVANCE_GO_INT :: u8 where "ADVANCE_GO_INT = 8"
definition ADVANCE_FLAG_MASK :: u8 where "ADVANCE_FLAG_MASK = ADVANCE_FLAG_RW OR ADVANCE_FLAG_INT"
definition ADVANCE_GO_MASK :: u8 where "ADVANCE_GO_MASK = ADVANCE_GO_RW OR ADVANCE_GO_INT"
definition ADVANCE_RW_MASK :: u8 where "ADVANCE_RW_MASK = ADVANCE_FLAG_RW OR ADVANCE_GO_RW"
definition ADVANCE_INT_MASK :: u8 where "ADVANCE_INT_MASK = ADVANCE_FLAG_INT OR ADVANCE_GO_INT"
definition READY_MASK :: u8 where "READY_MASK = 0x86"

lemmas kb_mode_defs =
  KB_ERROR_def KB_RESET_def KB_ENABLE_READ_def KB_ENABLE_CHECK_def KB_USE_CHANNEL_def KB_GAIN_def
  KB_THRESHOLD_def KB_AVERAGE_COUNT_def KB_FILTER_def KB_DEBOUNCE_COUNT_def KB_SHORT_INTERVAL_def
  KB_LONG_INTERVAL_def KB_OFFCAL_CYCLE_def KB_OFFCAL_PLUS_def KB_OFFCAL_MINUS_def
  KB_CANCEL_COUNT_LOWER_def KB_CANCEL_COUNT_HIGHER_def KB_CDAC_BASE_def KB_MEASUREMENT_MODE_def
  KB_PARAM_APPLY_def KB_WAKEUP_WAIT_def KB_LOOP_START_def KB_READ_ERROR_def KB_CHECK_ERROR_def
  KB_READ_DATA_def KB_HANDLE_DATA_def KB_LOOP_FINISH_def

lemmas kb_reg_defs =
  REG_CONTROL_1_def REG_CONTROL_2_def REG_USE_CHANNEL_def REG_GAIN_def REG_THRESHOLD_def
  REG_ERROR_def REG_AVERAGE_COUNT_def REG_FILTER_def REG_DEBOUNCE_COUNT_def
  REG_SHORT_INTERVAL_def REG_LONG_INTERVAL_def REG_OFFCAL_CYCLE_def REG_OFFCAL_PLUS_def
  REG_OFFCAL_MINUS_def REG_CANCEL_COUNT_LOWER_def REG_CANCEL_COUNT_HIGHER_def REG_CDAC_BASE_def
  REG_MEASUREMENT_MODE_def REG_DATA_def

lemmas advance_defs =
  ADVANCE_FLAG_MASK_def ADVANCE_GO_MASK_def ADVANCE_RW_MASK_def ADVANCE_INT_MASK_def
  ADVANCE_FLAG_RW_def ADVANCE_FLAG_INT_def ADVANCE_GO_RW_def ADVANCE_GO_INT_def


section \<open>\<open>key-board.c\<close>\<close>

definition advance_flag :: "u8 \<Rightarrow> keys \<Rightarrow> keys" where
  "advance_flag way k =
     (if way \<noteq> ADVANCE_FLAG_RW \<and> way \<noteq> ADVANCE_FLAG_INT then k\<lparr>kb_advance := 0\<rparr>
      else k\<lparr>kb_advance := way\<rparr>)"

definition advance_flag_empty :: "keys \<Rightarrow> u8" where
  "advance_flag_empty k = of_flag (kb_advance k OR ADVANCE_FLAG_MASK = 0)"

definition advance_go :: "u8 \<Rightarrow> keys \<Rightarrow> keys" where
  "advance_go way k =
     (if kb_advance k AND ADVANCE_GO_MASK \<noteq> 0 then k
      else
        let k = (if way AND ADVANCE_FLAG_RW \<noteq> 0 then k\<lparr>kb_advance := kb_advance k OR ADVANCE_GO_RW\<rparr> else k)
        in (if way AND ADVANCE_FLAG_INT \<noteq> 0 then k\<lparr>kb_advance := kb_advance k OR ADVANCE_GO_INT\<rparr> else k))"

definition advance_check :: "keys \<Rightarrow> u8" where
  "advance_check k =
     (let a = kb_advance k in
      if a AND ADVANCE_GO_MASK = 0 then 0
      else if a AND ADVANCE_FLAG_MASK = ADVANCE_FLAG_MASK then of_flag (a AND ADVANCE_GO_MASK = ADVANCE_GO_MASK)
      else if a AND ADVANCE_RW_MASK = ADVANCE_RW_MASK then 1
      else if a AND ADVANCE_INT_MASK = ADVANCE_INT_MASK then 1
      else 0)"

text \<open>The reset line of the sensor is bit 0 of port C.\<close>

definition board_reset :: "keys \<Rightarrow> keys" where
  "board_reset k =
     (let k = key_or PORTC 1 (key_clear PORTC 1 k)
      in advance_flag ADVANCE_FLAG_INT (k\<lparr>kb_mode := KB_RESET\<rparr>))"

definition key_board_init :: "keys \<Rightarrow> keys" where
  "key_board_init k =
     (let k = k\<lparr>kb_mode := KB_ERROR, kb_advance := 0, kb_state := 0, kb_byte_buf := 0,
                kb_word_buf := replicate 8 0\<rparr>
      in key_or PORTC 1 (key_or DDRC 1 k))"

definition write_completed :: "u8 \<Rightarrow> keys \<Rightarrow> keys" where
  "write_completed status k =
     (if status \<noteq> TB_SUCCESS then (key_send (Board_write_error status) k)\<lparr>kb_mode := KB_ERROR\<rparr>
      else advance_go ADVANCE_FLAG_RW k)"

definition key_write_byte :: "u8 \<Rightarrow> u8 \<Rightarrow> keys \<Rightarrow> keys" where
  "key_write_byte r v k =
     (let (ok, k) = tb_write_byte r v k
      in if ok = 0 then key_send (Board_write_error TB_WRITE_BYTE_ERROR) k else k)"

definition key_write_word :: "u8 \<Rightarrow> u8 \<Rightarrow> keys \<Rightarrow> keys" where
  "key_write_word r v k =
     (let (ok, k) = tb_write_word r v k
      in if ok = 0 then key_send (Board_write_error TB_WRITE_WORD_ERROR) k else k)"

definition read_byte_completed :: "u8 \<Rightarrow> bytes \<Rightarrow> keys \<Rightarrow> keys" where
  "read_byte_completed status data k =
     (if status \<noteq> TB_SUCCESS then (key_send (Board_read_error status) k)\<lparr>kb_mode := KB_ERROR\<rparr>
      else advance_go ADVANCE_FLAG_RW (k\<lparr>kb_byte_buf := data ! 0\<rparr>))"

definition key_read_byte :: "u8 \<Rightarrow> keys \<Rightarrow> keys" where
  "key_read_byte r k =
     (let (ok, k) = tb_read_byte r k
      in if ok = 0 then key_send (Board_read_error TB_READ_BYTE_ERROR) k else k)"

definition is_ready :: "keys \<Rightarrow> u8" where
  "is_ready k = of_flag (NOT (kb_byte_buf k) AND READY_MASK = READY_MASK)"

definition handle_data :: "u8 \<Rightarrow> keys \<Rightarrow> keys" where
  "handle_data new_state k =
     (if new_state = kb_state k then k
      else (key_send (Button new_state (kb_state k)) k)\<lparr>kb_state := new_state\<rparr>)"

text \<open>\<open>twi_try\<close> of the driver, which calls the two callbacks above.\<close>

definition tb_try :: "keys \<Rightarrow> keys" where
  "tb_try k =
     (if tb_mode k \<noteq> TB_IDLE \<or> tb_busy k = 0 then k
      else if tb_write_cb k then (write_completed (tb_status k) k)\<lparr>tb_write_cb := False\<rparr>
      else if tb_read_cb k then (read_byte_completed (tb_status k) (tb_data_buf k) k)\<lparr>tb_read_cb := False\<rparr>
      else k)"

text \<open>
  The \<open>switch\<close> of \<open>key_board_try\<close>: the new state, and whether to go on without waiting (\<open>jump\<close>).
\<close>

definition key_board_switch :: "keys \<Rightarrow> bool \<times> keys" where
  "key_board_switch k =
     (let m = kb_mode k in
      if m = KB_ERROR then (False, k)
      else if m = KB_RESET then (False, key_write_byte REG_CONTROL_1 0x88 k)
      else if m = KB_ENABLE_READ then (False, key_read_byte REG_CONTROL_1 k)
      else if m = KB_ENABLE_CHECK then (True, if is_ready k = 0 then k\<lparr>kb_mode := m - 2\<rparr> else k)
      else if m = KB_USE_CHANNEL then (False, key_write_byte REG_USE_CHANNEL 0xFF k)
      else if m = KB_GAIN then (False, key_write_word REG_GAIN 0x50 k)
      else if m = KB_THRESHOLD then (False, key_write_word REG_THRESHOLD 0x0A k)
      else if m = KB_AVERAGE_COUNT then (False, key_write_byte REG_AVERAGE_COUNT 0x80 k)
      else if m = KB_FILTER then (False, key_write_byte REG_FILTER 0 k)
      else if m = KB_DEBOUNCE_COUNT then (False, key_write_byte REG_DEBOUNCE_COUNT 1 k)
      else if m = KB_SHORT_INTERVAL then (False, key_write_byte REG_SHORT_INTERVAL 5 k)
      else if m = KB_LONG_INTERVAL then (False, key_write_byte REG_LONG_INTERVAL 1 k)
      else if m = KB_OFFCAL_CYCLE then (False, key_write_byte REG_OFFCAL_CYCLE 4 k)
      else if m = KB_OFFCAL_PLUS then (False, key_write_byte REG_OFFCAL_PLUS 3 k)
      else if m = KB_OFFCAL_MINUS then (False, key_write_byte REG_OFFCAL_MINUS 3 k)
      else if m = KB_CANCEL_COUNT_LOWER then (False, key_write_byte REG_CANCEL_COUNT_LOWER 0x32 k)
      else if m = KB_CANCEL_COUNT_HIGHER then (False, key_write_byte REG_CANCEL_COUNT_HIGHER 1 k)
      else if m = KB_CDAC_BASE then (False, key_write_byte REG_CDAC_BASE 0x80 k)
      else if m = KB_MEASUREMENT_MODE then (False, key_write_byte REG_MEASUREMENT_MODE 0 k)
      else if m = KB_PARAM_APPLY then (False, key_write_byte REG_CONTROL_1 0x8F k)
      else if m = KB_WAKEUP_WAIT then (False, advance_flag ADVANCE_FLAG_INT k)
      else if m = KB_LOOP_START then (False, key_write_byte REG_CONTROL_2 0 k)
      else if m = KB_READ_ERROR then (False, key_read_byte REG_ERROR k)
      else if m = KB_CHECK_ERROR then (True, if kb_byte_buf k AND 0x81 \<noteq> 0 then k\<lparr>kb_mode := KB_ERROR\<rparr> else k)
      else if m = KB_READ_DATA then (False, key_read_byte REG_DATA k)
      else if m = KB_HANDLE_DATA then (True, handle_data (kb_byte_buf k) k)
      else if m = KB_LOOP_FINISH then (False, advance_flag ADVANCE_FLAG_INT k)
      else (True, (key_send (Board_handle_error m) k)\<lparr>kb_mode := KB_ERROR\<rparr>))"

definition key_board_try :: "keys \<Rightarrow> keys" where
  "key_board_try k =
     (if kb_mode k = KB_ERROR \<or> advance_check k = 0 then k
      else
        let (jump, k) = key_board_switch (advance_flag ADVANCE_FLAG_RW k);
            k = (if kb_mode k \<noteq> KB_ERROR
                 then if kb_mode k < KB_LOOP_FINISH then k\<lparr>kb_mode := kb_mode k + 1\<rparr>
                      else k\<lparr>kb_mode := KB_LOOP_START\<rparr>
                 else k)
        in if jump then advance_go ADVANCE_FLAG_RW k else k)"

text \<open>Interrupt 2 is the one of the sensor: two bits of \<open>EICRA\<close> and one of \<open>EIMSK\<close>.\<close>

definition key_board_enable :: "keys \<Rightarrow> keys" where
  "key_board_enable k =
     (let k = tb_init (key_or EIMSK 4 (key_or EICRA 0x30 k))
      in board_reset (k\<lparr>kb_state := 0\<rparr>))"

definition key_board_disable :: "keys \<Rightarrow> keys" where
  "key_board_disable k = (key_clear EIMSK 4 (key_clear EICRA 0x30 k))\<lparr>kb_mode := KB_ERROR\<rparr>"

definition key_int2 :: "keys \<Rightarrow> keys" where
  "key_int2 k = advance_go ADVANCE_FLAG_INT k"

section \<open>Steps\<close>

text \<open>
  What can happen between two calls: a call of one of the two \<open>try\<close> functions by the main loop, the
  interrupt of the sensor, or the one of the bus, with the status and the data it finds.
\<close>

datatype key_event = Keys_try | Bus_try | Sensor_int | Bus_int u8 u8

fun key_step :: "key_event \<Rightarrow> keys \<Rightarrow> keys" where
  "key_step Keys_try k = key_board_try k"
| "key_step Bus_try k = tb_try k"
| "key_step Sensor_int k = key_int2 k"
| "key_step (Bus_int status data) k = tb_isr (key_set TWDR data (key_set TWSR status k))"

section \<open>What the driver leaves alone\<close>

lemma key_reg_fields [simp]:
  "kb_mode (key_set r v k) = kb_mode k" "kb_advance (key_set r v k) = kb_advance k"
  "kb_state (key_set r v k) = kb_state k" "kb_byte_buf (key_set r v k) = kb_byte_buf k"
  "kb_sent (key_set r v k) = kb_sent k" "kb_started (key_set r v k) = kb_started k"
  "tb_mode (key_set r v k) = tb_mode k" "tb_status (key_set r v k) = tb_status k"
  "tb_reg_buf (key_set r v k) = tb_reg_buf k" "tb_data_buf (key_set r v k) = tb_data_buf k"
  "tb_write_cb (key_set r v k) = tb_write_cb k" "tb_read_cb (key_set r v k) = tb_read_cb k"
  "tb_transfer_count (key_set r v k) = tb_transfer_count k"
  "tb_transfer_limit (key_set r v k) = tb_transfer_limit k"
  by (simp_all add: key_set_def)

text \<open>What the interrupt routine of the bus does not change.\<close>

definition same_board :: "keys \<Rightarrow> keys \<Rightarrow> bool" where
  "same_board a b \<longleftrightarrow>
     kb_mode a = kb_mode b \<and> kb_advance a = kb_advance b \<and> kb_state a = kb_state b
     \<and> kb_byte_buf a = kb_byte_buf b \<and> kb_sent a = kb_sent b \<and> kb_started a = kb_started b
     \<and> tb_write_cb a = tb_write_cb b \<and> tb_read_cb a = tb_read_cb b"

lemma same_board_trans: "same_board a b \<Longrightarrow> same_board b c \<Longrightarrow> same_board a c"
  by (simp add: same_board_def)

lemma same_board_refl [simp]: "same_board a a"
  by (simp add: same_board_def)

lemma same_board_reg [simp]:
  "same_board (key_set r v k) b = same_board k b" "same_board (key_or r v k) b = same_board k b"
  "same_board (key_clear r v k) b = same_board k b"
  by (simp_all add: same_board_def key_or_def key_clear_def)

lemma same_board_bus [simp]:
  "same_board (k\<lparr>tb_mode := m\<rparr>) b = same_board k b" "same_board (k\<lparr>tb_status := m\<rparr>) b = same_board k b"
  "same_board (k\<lparr>tb_data_buf := d\<rparr>) b = same_board k b"
  "same_board (k\<lparr>tb_transfer_count := c\<rparr>) b = same_board k b"
  by (simp_all add: same_board_def)

lemma same_board_twi [simp]:
  "same_board (tb_start m k) b = same_board k b" "same_board (tb_stop k) b = same_board k b"
  by (simp_all add: tb_start_def tb_stop_def Let_def)

lemma same_board_check:
  assumes "\<And>k. same_board (act k) b = same_board k b"
  shows "same_board (tb_check m e act k) b = same_board k b"
  using assms by (simp add: tb_check_def)

lemma same_board_isr: "same_board (tb_isr k) b = same_board k b"
  unfolding tb_isr_def Let_def by (simp add: same_board_check)

section \<open>An interrupt at the wrong moment\<close>

text \<open>
  The two flags of the state machine as one byte: it waits for the end of a request, and the
  interrupt has happened.
\<close>

definition wedged :: "keys \<Rightarrow> bool" where
  "wedged k \<longleftrightarrow> kb_advance k = ADVANCE_FLAG_RW OR ADVANCE_GO_INT"

lemma wedged_check: "wedged k \<Longrightarrow> advance_check k = 0"
  by (simp add: wedged_def advance_check_def advance_defs of_flag_def)

lemma wedged_go: "wedged k \<Longrightarrow> advance_go way k = k"
  by (simp add: wedged_def advance_go_def advance_defs)

lemma wedged_try:
  assumes "wedged k"
  shows "wedged (tb_try k) \<and> kb_started (tb_try k) = kb_started k \<and> kb_state (tb_try k) = kb_state k"
proof -
  have w: "wedged (k\<lparr>kb_byte_buf := x\<rparr>)" for x using assms by (simp add: wedged_def)
  show ?thesis
    using assms wedged_go[OF assms] wedged_go[OF w]
    by (simp add: tb_try_def write_completed_def read_byte_completed_def key_send_def wedged_def)
qed

lemma wedged_step:
  assumes "wedged k"
  shows "wedged (key_step e k) \<and> kb_started (key_step e k) = kb_started k
    \<and> kb_state (key_step e k) = kb_state k"
proof (cases e)
  case Keys_try
  then show ?thesis using assms by (simp add: key_board_try_def wedged_check)
next
  case Bus_try
  then show ?thesis using wedged_try[OF assms] by simp
next
  case Sensor_int
  then show ?thesis using assms by (simp add: key_int2_def wedged_go)
next
  case (Bus_int st d)
  have "same_board (tb_isr (key_set TWDR d (key_set TWSR st k))) k" by (simp add: same_board_isr)
  then show ?thesis using Bus_int assms by (simp add: same_board_def wedged_def)
qed

lemma wedged_steps:
  "wedged k \<Longrightarrow> wedged (fold key_step es k) \<and> kb_started (fold key_step es k) = kb_started k
    \<and> kb_state (fold key_step es k) = kb_state k"
proof (induction es arbitrary: k)
  case (Cons e es)
  then show ?case using wedged_step[OF Cons.prems, of e] by simp
qed simp

text \<open>
  When the interrupt of the sensor comes while the state machine waits for the end of a request,
  the keyboard is dead: whatever happens afterwards, in whatever order, no request is started any
  more and no change of a key is noticed, until the keyboard is enabled again.
\<close>

theorem sensor_interrupt_wedges:
  assumes "kb_advance k = ADVANCE_FLAG_RW"
  shows "kb_started (fold key_step (Sensor_int # es) k) = kb_started k
    \<and> kb_state (fold key_step (Sensor_int # es) k) = kb_state k"
proof -
  have "wedged (key_int2 k)"
    using assms by (simp add: key_int2_def advance_go_def wedged_def advance_defs)
  moreover have "kb_started (key_int2 k) = kb_started k \<and> kb_state (key_int2 k) = kb_state k"
    by (simp add: key_int2_def advance_go_def Let_def)
  ultimately show ?thesis using wedged_steps[of "key_int2 k" es] by simp
qed

text \<open>The memory of the controller after power-on.\<close>

definition blank_keys :: keys where
  "blank_keys = \<lparr>kb_mode = KB_RESET, kb_advance = 0, kb_state = 0, kb_byte_buf = 0,
     kb_word_buf = replicate 8 0, kb_io = (\<lambda>_. 0), kb_sent = [], kb_started = [], tb_mode = TB_IDLE,
     tb_status = 0, tb_reg_buf = 0, tb_data_buf = replicate 8 0, tb_write_cb = False,
     tb_read_cb = False, tb_transfer_count = 0, tb_transfer_limit = 0\<rparr>"

definition keys_waiting :: keys where
  "keys_waiting = fold key_step [Sensor_int, Keys_try] (key_board_enable (key_board_init blank_keys))"

theorem sensor_interrupt_wedges_witness:
  "kb_advance keys_waiting = ADVANCE_FLAG_RW
   \<and> kb_started keys_waiting = [Write_byte REG_CONTROL_1 0x88]
   \<and> kb_started (fold key_step (Sensor_int # [Bus_try, Keys_try]) keys_waiting) = kb_started keys_waiting"
proof -
  have a: "kb_advance keys_waiting = ADVANCE_FLAG_RW" by code_simp
  moreover have "kb_started keys_waiting = [Write_byte REG_CONTROL_1 0x88]" by code_simp
  ultimately show ?thesis using sensor_interrupt_wedges[OF a] by blast
qed

section \<open>The loop over the keys\<close>

text \<open>The bus as an answering sensor drives it: all bytes acknowledged, \<open>d\<close> read.\<close>

definition bus_wrote :: "key_event list" where
  "bus_wrote = [Bus_int TW_START 0, Bus_int TW_MT_SLA_ACK 0, Bus_int TW_MT_DATA_ACK 0,
     Bus_int TW_MT_DATA_ACK 0, Bus_try]"

definition bus_read :: "u8 \<Rightarrow> key_event list" where
  "bus_read d = [Bus_int TW_START 0, Bus_int TW_MT_SLA_ACK 0, Bus_int TW_MT_DATA_ACK 0,
     Bus_int TW_REP_START 0, Bus_int TW_MR_SLA_ACK 0, Bus_int TW_MR_DATA_ACK d,
     Bus_int TW_MR_DATA_NACK 0, Bus_try]"

definition key_cycle :: "u8 \<times> u8 \<Rightarrow> key_event list" where
  "key_cycle sample =
     [Sensor_int, Keys_try] @ bus_wrote @ [Keys_try] @ bus_read (fst sample)
     @ [Keys_try, Keys_try] @ bus_read (snd sample) @ [Keys_try, Keys_try]"

lemmas tw_status_defs =
  TW_START_def TW_MT_SLA_ACK_def TW_MT_DATA_ACK_def TW_REP_START_def TW_MR_SLA_ACK_def
  TW_MR_DATA_ACK_def TW_MR_DATA_NACK_def

text \<open>The bus is free, with memory for the answer.\<close>

definition bus_free :: "keys \<Rightarrow> bool" where
  "bus_free k \<longleftrightarrow> \<not> tb_write_cb k \<and> \<not> tb_read_cb k \<and> tb_data_buf k \<noteq> []"

text \<open>A request is on the bus, and the state machine waits for its end.\<close>

definition request_pending :: "keys \<Rightarrow> bool" where
  "request_pending k \<longleftrightarrow> tb_mode k = TB_WRITE_START \<and> tb_transfer_count k = 0 \<and> tb_transfer_limit k = 0
     \<and> tb_status k = TB_SUCCESS \<and> tb_data_buf k \<noteq> [] \<and> kb_advance k = ADVANCE_FLAG_RW"

text \<open>The same keyboard with a free bus, ready to go on.\<close>

definition request_done :: "keys \<Rightarrow> keys \<Rightarrow> bool" where
  "request_done k k' \<longleftrightarrow> bus_free k' \<and> kb_advance k' = ADVANCE_FLAG_RW OR ADVANCE_GO_RW
     \<and> kb_mode k' = kb_mode k \<and> kb_state k' = kb_state k \<and> kb_sent k' = kb_sent k
     \<and> kb_started k' = kb_started k"

lemmas bus_eval =
  tb_isr_def tb_check_def tb_check_status_def tb_reading_def tb_start_def tb_stop_def tb_try_def
  tb_busy_def write_completed_def read_byte_completed_def advance_go_def key_set_def key_or_def key_clear_def tb_defs tw_status_defs
  advance_defs bus_free_def of_flag_def Let_def

lemma write_answered:
  assumes "request_pending k" "tb_write_cb k" "\<not> tb_read_cb k"
  shows "request_done k (fold key_step bus_wrote k)"
  using assms by (simp add: request_pending_def request_done_def bus_wrote_def bus_eval)

lemma read_answered:
  assumes "request_pending k" "\<not> tb_write_cb k" "tb_read_cb k"
  shows "request_done k (fold key_step (bus_read d) k)
    \<and> kb_byte_buf (fold key_step (bus_read d) k) = d"
  using assms by (simp add: request_pending_def request_done_def bus_read_def bus_eval)

text \<open>The state in which the loop waits for the next measurement.\<close>

definition keys_idle :: "keys \<Rightarrow> bool" where
  "keys_idle k \<longleftrightarrow> kb_mode k = KB_LOOP_START \<and> kb_advance k = ADVANCE_FLAG_INT \<and> bus_free k"

definition same_keys :: "keys \<Rightarrow> keys \<Rightarrow> bool" where
  "same_keys k k' \<longleftrightarrow> kb_state k' = kb_state k \<and> kb_sent k' = kb_sent k"

lemmas loop_eval =
  key_board_try_def key_board_switch_def advance_check_def advance_flag_def advance_go_def
  handle_data_def key_send_def key_write_byte_def key_read_byte_def tb_write_byte_def tb_write_def
  tb_read_byte_def tb_read_def tb_busy_def tb_start_def key_set_def key_or_def key_clear_def
  request_pending_def bus_free_def same_keys_def of_flag_def advance_defs kb_mode_defs tb_defs Let_def

definition may_go :: "keys \<Rightarrow> bool" where
  "may_go k \<longleftrightarrow> bus_free k \<and> kb_advance k = ADVANCE_FLAG_RW OR ADVANCE_GO_RW"

lemma loop_write:
  assumes "bus_free k" "kb_mode k = KB_LOOP_START" "kb_advance k = ADVANCE_FLAG_INT"
  defines "k' \<equiv> key_board_try (key_int2 k)"
  shows "request_pending k' \<and> tb_write_cb k' \<and> \<not> tb_read_cb k' \<and> kb_mode k' = KB_READ_ERROR
    \<and> same_keys k k'"
  using assms by (simp add: loop_eval key_int2_def)

lemma loop_read:
  assumes "may_go k" "kb_mode k = KB_READ_ERROR \<or> kb_mode k = KB_READ_DATA"
  defines "k' \<equiv> key_board_try k"
  shows "request_pending k' \<and> \<not> tb_write_cb k' \<and> tb_read_cb k' \<and> kb_mode k' = kb_mode k + 1
    \<and> same_keys k k'"
  using assms(2) assms(1) unfolding k'_def by (elim disjE) (simp_all add: may_go_def loop_eval)

lemma loop_check:
  assumes "may_go k" "kb_mode k = KB_CHECK_ERROR" "kb_byte_buf k AND 0x81 = 0"
  defines "k' \<equiv> key_board_try k"
  shows "may_go k' \<and> kb_mode k' = KB_READ_DATA \<and> same_keys k k'"
  using assms by (simp add: may_go_def loop_eval)

lemma loop_handle:
  assumes "may_go k" "kb_mode k = KB_HANDLE_DATA"
  defines "k' \<equiv> key_board_try k"
  shows "may_go k' \<and> kb_mode k' = KB_LOOP_FINISH \<and> kb_state k' = kb_byte_buf k
    \<and> kb_sent k' = kb_sent k
        @ (if kb_byte_buf k = kb_state k then [] else [Button (kb_byte_buf k) (kb_state k)])"
  using assms by (simp add: may_go_def loop_eval)

lemma loop_finish:
  assumes "may_go k" "kb_mode k = KB_LOOP_FINISH"
  defines "k' \<equiv> key_board_try k"
  shows "keys_idle k' \<and> same_keys k k'"
  using assms by (simp add: may_go_def keys_idle_def loop_eval)

text \<open>A request, from the call that starts it to the next call.\<close>

lemma done_go:
  assumes "request_done k k'"
  shows "may_go k' \<and> kb_mode k' = kb_mode k \<and> same_keys k k'"
  using assms by (simp add: request_done_def may_go_def same_keys_def)

lemma same_keys_trans: "same_keys a b \<Longrightarrow> same_keys b c \<Longrightarrow> same_keys a c"
  by (simp add: same_keys_def)

lemma loop_read_done:
  fixes d :: u8
  assumes "may_go k" "kb_mode k = KB_READ_ERROR \<or> kb_mode k = KB_READ_DATA"
  defines "k' \<equiv> fold key_step (Keys_try # bus_read d) k"
  shows "may_go k' \<and> kb_mode k' = kb_mode k + 1 \<and> kb_byte_buf k' = d \<and> same_keys k k'"
proof -
  note r = loop_read[OF assms(1,2)]
  have "request_done (key_board_try k) k'" "kb_byte_buf k' = d"
    using r read_answered[of "key_board_try k" d] by (auto simp: k'_def)
  then show ?thesis using r done_go[of "key_board_try k" k'] same_keys_trans[of k "key_board_try k" k']
    by (simp add: k'_def)
qed

lemma key_cycle_once:
  fixes sample :: "u8 \<times> u8"
  assumes "keys_idle k" "fst sample AND 0x81 = 0"
  defines "k' \<equiv> fold key_step (key_cycle sample) k"
  shows "keys_idle k' \<and> kb_state k' = snd sample
    \<and> kb_sent k' = kb_sent k @ (if snd sample = kb_state k then [] else [Button (snd sample) (kb_state k)])"
proof -
  let ?a = "key_board_try (key_int2 k)"
  let ?b = "fold key_step bus_wrote ?a"
  let ?c = "fold key_step (Keys_try # bus_read (fst sample)) ?b"
  let ?d = "key_board_try ?c"
  let ?e = "fold key_step (Keys_try # bus_read (snd sample)) ?d"
  let ?f = "key_board_try ?e"
  have a: "request_pending ?a \<and> tb_write_cb ?a \<and> \<not> tb_read_cb ?a \<and> kb_mode ?a = KB_READ_ERROR \<and> same_keys k ?a"
    using loop_write[of k] assms(1) by (simp add: keys_idle_def)
  have b: "may_go ?b \<and> kb_mode ?b = KB_READ_ERROR \<and> same_keys k ?b"
    using a write_answered[of ?a] done_go[of ?a ?b] same_keys_trans by auto
  have c: "may_go ?c \<and> kb_mode ?c = KB_CHECK_ERROR \<and> kb_byte_buf ?c = fst sample \<and> same_keys k ?c"
    using b loop_read_done[of ?b "fst sample"] same_keys_trans
    by (auto simp: KB_READ_ERROR_def KB_CHECK_ERROR_def)
  have d: "may_go ?d \<and> kb_mode ?d = KB_READ_DATA \<and> same_keys k ?d"
    using c loop_check[of ?c] assms(2) same_keys_trans by auto
  have e: "may_go ?e \<and> kb_mode ?e = KB_HANDLE_DATA \<and> kb_byte_buf ?e = snd sample \<and> same_keys k ?e"
    using d loop_read_done[of ?d "snd sample"] same_keys_trans
    by (auto simp: KB_READ_DATA_def KB_HANDLE_DATA_def)
  have f: "may_go ?f \<and> kb_mode ?f = KB_LOOP_FINISH \<and> kb_state ?f = snd sample
      \<and> kb_sent ?f = kb_sent k @ (if snd sample = kb_state k then [] else [Button (snd sample) (kb_state k)])"
    using e loop_handle[of ?e] by (auto simp: same_keys_def)
  have "k' = key_board_try ?f" by (simp add: k'_def key_cycle_def)
  then show ?thesis using f loop_finish[of ?f] by (simp add: same_keys_def)
qed

text \<open>What the keys do between the samples.\<close>

fun key_changes :: "u8 \<Rightarrow> u8 list \<Rightarrow> board_msg list" where
  "key_changes s [] = []"
| "key_changes s (d # ds) = (if d = s then [] else [Button d s]) @ key_changes d ds"


section \<open>The set-up\<close>

text \<open>
  The events of a set-up without trouble: after the reset the status is read (ready), then all
  registers are written, two of them with eight bytes, and the sensor wakes up.
\<close>

definition bus_wrote_word :: "key_event list" where
  "bus_wrote_word = [Bus_int TW_START 0, Bus_int TW_MT_SLA_ACK 0]
     @ replicate 16 (Bus_int TW_MT_DATA_ACK 0) @ [Bus_try]"

definition set_up :: "key_event list" where
  "set_up = [Sensor_int, Keys_try] @ bus_wrote @ [Keys_try] @ bus_read 0x08 @ [Keys_try, Keys_try]
     @ bus_wrote @ [Keys_try] @ bus_wrote_word @ [Keys_try] @ bus_wrote_word
     @ concat (replicate 13 (Keys_try # bus_wrote)) @ [Keys_try]"

definition set_up_start :: keys where
  "set_up_start = key_board_enable (key_board_init blank_keys)"

definition keys_ready :: keys where
  "keys_ready = fold key_step set_up set_up_start"

text \<open>The set-up has come to a mode, after these requests, and nothing was sent.\<close>

definition set_up_at :: "u8 \<Rightarrow> board_request list \<Rightarrow> keys \<Rightarrow> bool" where
  "set_up_at m rs k \<longleftrightarrow> may_go k \<and> kb_mode k = m \<and> kb_started k = rs \<and> kb_sent k = [] \<and> kb_state k = 0"

text \<open>The registers written with one byte, and the mode in which.\<close>

definition byte_parameters :: "(u8 \<times> u8 \<times> u8) list" where
  "byte_parameters =
     [(KB_AVERAGE_COUNT, REG_AVERAGE_COUNT, 0x80), (KB_FILTER, REG_FILTER, 0),
      (KB_DEBOUNCE_COUNT, REG_DEBOUNCE_COUNT, 1), (KB_SHORT_INTERVAL, REG_SHORT_INTERVAL, 5),
      (KB_LONG_INTERVAL, REG_LONG_INTERVAL, 1), (KB_OFFCAL_CYCLE, REG_OFFCAL_CYCLE, 4),
      (KB_OFFCAL_PLUS, REG_OFFCAL_PLUS, 3), (KB_OFFCAL_MINUS, REG_OFFCAL_MINUS, 3),
      (KB_CANCEL_COUNT_LOWER, REG_CANCEL_COUNT_LOWER, 0x32),
      (KB_CANCEL_COUNT_HIGHER, REG_CANCEL_COUNT_HIGHER, 1), (KB_CDAC_BASE, REG_CDAC_BASE, 0x80),
      (KB_MEASUREMENT_MODE, REG_MEASUREMENT_MODE, 0), (KB_PARAM_APPLY, REG_CONTROL_1, 0x8F)]"

lemma done_at:
  assumes "request_done k k'" "kb_mode k = m" "kb_started k = rs" "kb_sent k = []" "kb_state k = 0"
  shows "set_up_at m rs k'"
  using assms by (simp add: request_done_def set_up_at_def may_go_def)

lemma byte_parameter:
  assumes "set_up_at m rs k" "(m, r, v) \<in> set ((KB_USE_CHANNEL, REG_USE_CHANNEL, 0xFF) # byte_parameters)"
  shows "set_up_at (m + 1) (rs @ [Write_byte r v]) (fold key_step (Keys_try # bus_wrote) k)"
proof -
  let ?k = "key_board_try k"
  have "request_pending ?k \<and> tb_write_cb ?k \<and> \<not> tb_read_cb ?k \<and> kb_mode ?k = m + 1
    \<and> kb_started ?k = rs @ [Write_byte r v] \<and> same_keys k ?k"
    using assms(2,1) unfolding byte_parameters_def set_simps insert_iff empty_iff prod.inject
    by (elim disjE conjE) (simp_all add: set_up_at_def may_go_def loop_eval)
  then show ?thesis
    using write_answered[of ?k] done_at[of ?k] assms(1) by (simp add: set_up_at_def same_keys_def)
qed

lemma byte_parameter_run:
  assumes "set_up_at m rs k" "set ps \<subseteq> set byte_parameters"
    "\<forall>i < length ps. fst (ps ! i) = m + of_nat i"
  shows "set_up_at (m + of_nat (length ps)) (rs @ map (\<lambda>(_, r, v). Write_byte r v) ps)
    (fold key_step (concat (replicate (length ps) (Keys_try # bus_wrote))) k)"
  using assms
proof (induction ps arbitrary: m rs k)
  case (Cons p ps)
  obtain r v where p: "p = (m, r, v)" using Cons.prems(3) by (cases p) force
  have "set_up_at (m + 1) (rs @ [Write_byte r v]) (fold key_step (Keys_try # bus_wrote) k)"
    using byte_parameter[of m rs k r v] Cons.prems(1,2) by (simp add: p)
  moreover have "\<forall>i < length ps. fst (ps ! i) = m + 1 + of_nat i"
    using Cons.prems(3) by (auto simp: ac_simps dest: spec[of _ "Suc _"])
  ultimately show ?case using Cons.IH Cons.prems(2) by (fastforce simp: p ac_simps)
qed simp

text \<open>A request of eight bytes, from the second address byte on; \<open>c\<close> bytes are written.\<close>

definition word_at :: "u8 \<Rightarrow> keys \<Rightarrow> keys \<Rightarrow> bool" where
  "word_at c k k' \<longleftrightarrow> tb_mode k' = TB_WRITE_REG \<and> tb_transfer_count k' = c
     \<and> tb_transfer_limit k' = TRANSFER_WORD \<and> tb_status k' = TB_SUCCESS \<and> tb_data_buf k' \<noteq> []
     \<and> kb_advance k' = ADVANCE_FLAG_RW \<and> tb_write_cb k' \<and> \<not> tb_read_cb k' \<and> kb_mode k' = kb_mode k
     \<and> kb_state k' = kb_state k \<and> kb_sent k' = kb_sent k \<and> kb_started k' = kb_started k"

definition data_ack :: "keys \<Rightarrow> keys" where
  "data_ack k = tb_isr (key_set TWDR 0 (key_set TWSR TW_MT_DATA_ACK k))"

lemma word_first:
  assumes "tb_mode k = TB_WRITE_START" "tb_transfer_count k = 0" "tb_transfer_limit k = TRANSFER_WORD"
    "tb_status k = TB_SUCCESS" "tb_data_buf k \<noteq> []" "kb_advance k = ADVANCE_FLAG_RW"
    "tb_write_cb k" "\<not> tb_read_cb k"
  shows "word_at 0 k (fold key_step [Bus_int TW_START 0, Bus_int TW_MT_SLA_ACK 0] k)"
  using assms by (simp add: word_at_def bus_eval)

lemma word_byte: "word_at c k k' \<Longrightarrow> c < 7 \<Longrightarrow> word_at (c + 1) k (data_ack (data_ack k'))"
  by (simp add: word_at_def data_ack_def bus_eval)

lemma word_last: "word_at 7 k k' \<Longrightarrow> request_done k (tb_try (data_ack (data_ack k')))"
  by (simp add: word_at_def request_done_def data_ack_def bus_eval)

lemma word_bytes: "word_at 0 k k' \<Longrightarrow> n \<le> 7 \<Longrightarrow> word_at (of_nat n) k ((data_ack ^^ (2 * n)) k')"
proof (induction n)
  case (Suc n)
  have "(of_nat n :: u8) < 7"
    using Suc.prems(2) by (simp add: word_less_nat_alt unat_of_nat)
  then show ?case
    using word_byte[of "of_nat n" k] Suc by (simp add: ac_simps)
qed simp

lemma data_acks: "fold key_step (replicate n (Bus_int TW_MT_DATA_ACK 0)) k = (data_ack ^^ n) k"
  by (induction n arbitrary: k) (simp_all add: data_ack_def funpow_swap1)

lemma word_answered:
  assumes "tb_mode k = TB_WRITE_START" "tb_transfer_count k = 0" "tb_transfer_limit k = TRANSFER_WORD"
    "tb_status k = TB_SUCCESS" "tb_data_buf k \<noteq> []" "kb_advance k = ADVANCE_FLAG_RW"
    "tb_write_cb k" "\<not> tb_read_cb k"
  shows "request_done k (fold key_step bus_wrote_word k)"
proof -
  let ?a = "fold key_step [Bus_int TW_START 0, Bus_int TW_MT_SLA_ACK 0] k"
  have "word_at (of_nat 7) k ((data_ack ^^ (2 * 7)) ?a)"
    using word_first[OF assms] by (rule word_bytes) simp
  then have "request_done k (tb_try (data_ack (data_ack ((data_ack ^^ 14) ?a))))"
    using word_last by simp
  moreover have "(16 :: nat) = Suc (Suc 14)" by simp
  then have "(data_ack ^^ 16) ?a = data_ack (data_ack ((data_ack ^^ 14) ?a))"
    by (simp only: funpow.simps comp_apply)
  ultimately show ?thesis
    by (simp only: bus_wrote_word_def fold_append comp_apply data_acks fold_simps key_step.simps)
qed

lemma word_parameter:
  assumes "set_up_at m rs k"
    "(m, r, v) \<in> set [(KB_GAIN, REG_GAIN, 0x50), (KB_THRESHOLD, REG_THRESHOLD, 0x0A)]"
  shows "set_up_at (m + 1) (rs @ [Write_word r v]) (fold key_step (Keys_try # bus_wrote_word) k)"
proof -
  let ?k = "key_board_try k"
  have "tb_mode ?k = TB_WRITE_START \<and> tb_transfer_count ?k = 0 \<and> tb_transfer_limit ?k = TRANSFER_WORD
    \<and> tb_status ?k = TB_SUCCESS \<and> tb_data_buf ?k \<noteq> [] \<and> kb_advance ?k = ADVANCE_FLAG_RW
    \<and> tb_write_cb ?k \<and> \<not> tb_read_cb ?k \<and> kb_mode ?k = m + 1
    \<and> kb_started ?k = rs @ [Write_word r v] \<and> same_keys k ?k"
    using assms(2,1) unfolding set_simps insert_iff empty_iff prod.inject
    by (elim disjE conjE)
      (simp_all add: set_up_at_def may_go_def loop_eval key_write_word_def tb_write_word_def)
  then show ?thesis
    using word_answered[of ?k] done_at[of ?k] assms(1) by (simp add: set_up_at_def same_keys_def)
qed

lemma set_up_reset:
  "set_up_at KB_ENABLE_READ [Write_byte REG_CONTROL_1 0x88]
    (fold key_step ([Sensor_int, Keys_try] @ bus_wrote) set_up_start)"
proof -
  let ?k = "fold key_step [Sensor_int, Keys_try] set_up_start"
  have "request_pending ?k \<and> tb_write_cb ?k \<and> \<not> tb_read_cb ?k \<and> kb_mode ?k = KB_ENABLE_READ
    \<and> kb_started ?k = [Write_byte REG_CONTROL_1 0x88] \<and> kb_sent ?k = [] \<and> kb_state ?k = 0"
    by (simp add: set_up_start_def key_board_enable_def key_board_init_def blank_keys_def tb_init_def
        board_reset_def key_int2_def loop_eval)
  then show ?thesis using write_answered[of ?k] done_at[of ?k] by simp
qed

lemma set_up_check:
  assumes "set_up_at KB_ENABLE_READ rs k"
  shows "set_up_at KB_USE_CHANNEL (rs @ [Read_byte REG_CONTROL_1])
    (fold key_step ([Keys_try] @ bus_read 0x08 @ [Keys_try]) k)"
proof -
  let ?k = "key_board_try k" and ?c = "fold key_step (Keys_try # bus_read 0x08) k"
  have k: "request_pending ?k \<and> \<not> tb_write_cb ?k \<and> tb_read_cb ?k \<and> kb_mode ?k = KB_ENABLE_CHECK
    \<and> kb_started ?k = rs @ [Read_byte REG_CONTROL_1] \<and> same_keys k ?k"
    using assms by (simp add: set_up_at_def may_go_def loop_eval)
  then have "request_done ?k ?c \<and> kb_byte_buf ?c = 0x08"
    using read_answered[of ?k "0x08"] by simp
  then have "set_up_at KB_ENABLE_CHECK (rs @ [Read_byte REG_CONTROL_1]) ?c \<and> kb_byte_buf ?c = 0x08"
    using k done_at[of ?k ?c] assms by (simp add: set_up_at_def same_keys_def)
  then have "set_up_at KB_USE_CHANNEL (rs @ [Read_byte REG_CONTROL_1]) (key_board_try ?c)"
    by (simp add: set_up_at_def may_go_def loop_eval is_ready_def READY_MASK_def)
  then show ?thesis by simp
qed

lemma set_up_wait:
  assumes "set_up_at KB_WAKEUP_WAIT rs k"
  shows "keys_idle (key_board_try k) \<and> kb_started (key_board_try k) = rs
    \<and> kb_sent (key_board_try k) = [] \<and> kb_state (key_board_try k) = 0"
  using assms by (simp add: set_up_at_def may_go_def keys_idle_def loop_eval)

theorem keys_set_up:
  "keys_idle keys_ready \<and> kb_sent keys_ready = [] \<and> kb_state keys_ready = 0
   \<and> kb_started keys_ready =
     [Write_byte REG_CONTROL_1 0x88, Read_byte REG_CONTROL_1, Write_byte REG_USE_CHANNEL 0xFF,
      Write_word REG_GAIN 0x50, Write_word REG_THRESHOLD 0x0A]
     @ map (\<lambda>(_, r, v). Write_byte r v) byte_parameters"
proof -
  let ?a = "fold key_step ([Sensor_int, Keys_try] @ bus_wrote) set_up_start"
  let ?b = "fold key_step ([Keys_try] @ bus_read 0x08 @ [Keys_try]) ?a"
  let ?c = "fold key_step (Keys_try # bus_wrote) ?b"
  let ?d = "fold key_step (Keys_try # bus_wrote_word) ?c"
  let ?e = "fold key_step (Keys_try # bus_wrote_word) ?d"
  let ?f = "fold key_step (concat (replicate (length byte_parameters) (Keys_try # bus_wrote))) ?e"
  have c: "set_up_at KB_GAIN [Write_byte REG_CONTROL_1 0x88, Read_byte REG_CONTROL_1,
      Write_byte REG_USE_CHANNEL 0xFF] ?c"
    using byte_parameter[OF set_up_check[OF set_up_reset]] by (simp add: KB_USE_CHANNEL_def KB_GAIN_def)
  have d: "set_up_at KB_THRESHOLD [Write_byte REG_CONTROL_1 0x88, Read_byte REG_CONTROL_1,
      Write_byte REG_USE_CHANNEL 0xFF, Write_word REG_GAIN 0x50] ?d"
    using word_parameter[OF c] by (simp add: KB_GAIN_def KB_THRESHOLD_def)
  have e: "set_up_at KB_AVERAGE_COUNT [Write_byte REG_CONTROL_1 0x88, Read_byte REG_CONTROL_1,
      Write_byte REG_USE_CHANNEL 0xFF, Write_word REG_GAIN 0x50, Write_word REG_THRESHOLD 0x0A] ?e"
    using word_parameter[OF d] by (simp add: KB_THRESHOLD_def KB_AVERAGE_COUNT_def)
  have "\<forall>i < length byte_parameters. fst (byte_parameters ! i) = KB_AVERAGE_COUNT + of_nat i"
    by code_simp
  then have "set_up_at KB_WAKEUP_WAIT ([Write_byte REG_CONTROL_1 0x88, Read_byte REG_CONTROL_1,
      Write_byte REG_USE_CHANNEL 0xFF, Write_word REG_GAIN 0x50, Write_word REG_THRESHOLD 0x0A]
      @ map (\<lambda>(_, r, v). Write_byte r v) byte_parameters) ?f"
    using byte_parameter_run[OF e subset_refl] by (simp add: byte_parameters_def kb_mode_defs)
  moreover have "length byte_parameters = 13" by code_simp
  then have "keys_ready = key_board_try ?f"
    by (simp only: keys_ready_def set_up_def fold_append comp_apply fold_simps key_step.simps)
  ultimately show ?thesis using set_up_wait[of _ ?f] by simp
qed


end
