(* ===== verification/Old_Codec.thy ===== *)
theory Old_Codec
  imports Util_Format
begin

text \<open>
  The network protocol of the retired servers. Requests and responses are texts of fields, every
  field followed by a backslash, behind a decimal length of the same kind. Two generations:
  \<open>src/obsoleted/old/core-old\<close> (\<open>token.hpp\<close>, \<open>network-codec.hpp\<close>, \<open>request.hpp\<close>, \<open>response.hpp\<close>), whose
  splitter skips empty fields and whose \<open>convert\<close> indexes the tokens without a check, and
  \<open>src/obsoleted/util\<close> (\<open>codec.hpp\<close>, \<open>request.hpp\<close>, \<open>response.hpp\<close>), which uses the splitter of
  \<open>src/src/util/token.hpp\<close> (theory \<open>Util_Format\<close>; the headers have since changed their namespace from
  \<open>unix\<close> to \<open>util\<close>). A read outside the token vector is \<open>Undefined\<close>.
\<close>

section \<open>\<open>core::token_t\<close>\<close>

text \<open>\<open>src.find_first_not_of (c, pos)\<close>\<close>

fun index_not :: "char \<Rightarrow> string \<Rightarrow> nat option" where
  "index_not c [] = None"
| "index_not c (x # xs) = (if x \<noteq> c then Some 0 else map_option Suc (index_not c xs))"

definition find_first_not_of :: "string \<Rightarrow> char \<Rightarrow> nat \<Rightarrow> nat option" where
  "find_first_not_of s c pos = map_option (\<lambda>i. pos + i) (index_not c (drop pos s))"

lemma index_not_less: "index_not c s = Some i \<Longrightarrow> i < length s"
  by (induction s arbitrary: i) (auto split: if_splits)

lemma find_first_not_of_range:
  "find_first_not_of s c pos = Some q \<Longrightarrow> pos \<le> q \<and> q < length s"
  by (auto simp: find_first_not_of_def dest!: index_not_less)

lemma str_find_range:
  "str_find s c (Some pos) = Some q \<Longrightarrow> pos \<le> q \<and> q < length s"
  by (auto simp: str_find_def dest!: index_of_Some)

text \<open>The \<open>do\<close> loop of \<open>tokenize\<close>, from \<open>prev_pos\<close>.\<close>

function core_tokenize_from :: "string \<Rightarrow> char \<Rightarrow> bool \<Rightarrow> nat \<Rightarrow> (nat \<times> nat) list" where
  "core_tokenize_from src refsymbol first_only prev_pos =
     (case str_find src refsymbol (Some prev_pos) of
        None \<Rightarrow> [(prev_pos, length src - prev_pos)]
      | Some pos \<Rightarrow>
          (prev_pos, pos - prev_pos) #
            (if first_only \<or> pos + 1 \<ge> length src then []
             else case find_first_not_of src refsymbol (pos + 1) of
                    None \<Rightarrow> []
                  | Some next_pos \<Rightarrow> core_tokenize_from src refsymbol first_only next_pos))"
  by pat_completeness auto
termination
  by (relation "measure (\<lambda>(src, _, _, prev_pos). length src - prev_pos)")
    (auto dest!: find_first_not_of_range str_find_range)

declare core_tokenize_from.simps [simp del]

definition core_tokenize ::
  "(nat \<times> nat) list \<Rightarrow> string \<Rightarrow> char \<Rightarrow> bool \<Rightarrow> bool \<times> (nat \<times> nat) list" where
  "core_tokenize dst src refsymbol first_only =
     (case find_first_not_of src refsymbol 0 of
        None \<Rightarrow> (False, dst)
      | Some prev_pos \<Rightarrow> (True, dst @ core_tokenize_from src refsymbol first_only prev_pos))"

text \<open>\<open>convert_info\<close>: \<open>pair_vector[vector_index]\<close> is not checked against the size of the vector.\<close>

fun core_convert_info ::
  "string \<Rightarrow> (nat \<times> nat) list \<Rightarrow> nat \<Rightarrow> (string \<Rightarrow> 's \<Rightarrow> 's \<times> bool) list \<Rightarrow> 's
     \<Rightarrow> cpp_exn + bool \<times> 's" where
  "core_convert_info src pairs i [] s = Inr (True, s)"
| "core_convert_info src pairs i (dec # decs) s =
     (if i \<ge> length pairs then Inl Undefined
      else case dec (substr_pair src (pairs ! i)) s of
             (s', good) \<Rightarrow>
               if good then core_convert_info src pairs (Suc i) decs s' else Inr (False, s'))"

definition core_convert ::
  "string \<Rightarrow> (nat \<times> nat) list \<Rightarrow> (string \<Rightarrow> 's \<Rightarrow> 's \<times> bool) list \<Rightarrow> 's
     \<Rightarrow> cpp_exn + bool \<times> 's" where
  "core_convert src pairs decs s = core_convert_info src pairs 0 decs s"

text \<open>\<open>token_t::decode\<close> for a 32-bit \<open>unsigned\<close>, an \<open>int\<close> and a \<open>std::string\<close> field.\<close>

definition decode_unsigned :: "('s \<Rightarrow> u32) \<Rightarrow> (u32 \<Rightarrow> 's \<Rightarrow> 's) \<Rightarrow> string \<Rightarrow> 's \<Rightarrow> 's \<times> bool" where
  "decode_unsigned get put src s =
     (case read_unsigned 32 src (unat (get s)) of (v, good) \<Rightarrow> (put (of_nat v) s, good))"

definition decode_int :: "('s \<Rightarrow> u32) \<Rightarrow> (u32 \<Rightarrow> 's \<Rightarrow> 's) \<Rightarrow> string \<Rightarrow> 's \<Rightarrow> 's \<times> bool" where
  "decode_int get put src s =
     (case read_signed 32 src (sint (get s)) of (v, good) \<Rightarrow> (put (of_int v) s, good))"

definition decode_string :: "(string \<Rightarrow> 's \<Rightarrow> 's) \<Rightarrow> string \<Rightarrow> 's \<Rightarrow> 's \<times> bool" where
  "decode_string put src s = (put src s, True)"

definition encode_unsigned :: "u32 \<Rightarrow> string" where
  "encode_unsigned v = dec_string (unat v)"

definition encode_int :: "u32 \<Rightarrow> string" where
  "encode_int v = dec_string_int (sint v)"

section \<open>\<open>core::request_t\<close> and \<open>core::response_t\<close>\<close>

record core_request =
  cr_action :: u32
  cr_tag :: string
  cr_format :: string
  cr_info :: string
  cr_duration :: u32

definition action_idle :: u32 where "action_idle = 0"
definition action_insert :: u32 where "action_insert = 1"
definition action_erase :: u32 where "action_erase = 2"
definition max_duration :: u32 where "max_duration = 300000"

definition core_request_new :: core_request where
  "core_request_new = \<lparr>cr_action = action_idle, cr_tag = [], cr_format = format_encode_empty,
     cr_info = [], cr_duration = max_duration\<rparr>"

definition core_request_fields :: "(string \<Rightarrow> core_request \<Rightarrow> core_request \<times> bool) list" where
  "core_request_fields =
     [decode_unsigned cr_action (\<lambda>v. cr_action_update (\<lambda>_. v)),
      decode_string (\<lambda>v. cr_tag_update (\<lambda>_. v)),
      decode_string (\<lambda>v. cr_format_update (\<lambda>_. v)),
      decode_string (\<lambda>v. cr_info_update (\<lambda>_. v)),
      decode_unsigned cr_duration (\<lambda>v. cr_duration_update (\<lambda>_. v))]"

definition core_request_encode :: "core_request \<Rightarrow> char \<Rightarrow> string" where
  "core_request_encode r refsymbol =
     convert_encode [] refsymbol
       [encode_unsigned (cr_action r), cr_tag r, cr_format r, cr_info r,
        encode_unsigned (cr_duration r)]"

record core_response =
  cs_status :: u32
  cs_reason :: string

definition status_ok :: u32 where "status_ok = 0"
definition status_error :: u32 where "status_error = 1"

definition core_response_new :: core_response where
  "core_response_new = \<lparr>cs_status = status_ok, cs_reason = []\<rparr>"

definition core_response_fields :: "(string \<Rightarrow> core_response \<Rightarrow> core_response \<times> bool) list" where
  "core_response_fields =
     [decode_int cs_status (\<lambda>v. cs_status_update (\<lambda>_. v)),
      decode_string (\<lambda>v. cs_reason_update (\<lambda>_. v))]"

definition core_response_encode :: "core_response \<Rightarrow> char \<Rightarrow> string" where
  "core_response_encode r refsymbol =
     convert_encode [] refsymbol [encode_int (cs_status r), cs_reason r]"

section \<open>\<open>core::network::codec_t\<close>\<close>

definition MAX_SIZE :: nat where "MAX_SIZE = 1024"
definition HEADER_SIZE :: nat where "HEADER_SIZE = 4"

text \<open>
  The length alone: the out parameter keeps its value when the field cannot be read. \<open>size_t\<close> has
  32 bits.
\<close>

definition decode_size_field :: "string \<Rightarrow> nat \<Rightarrow> nat \<times> bool" where
  "decode_size_field src msg_size = read_unsigned SIZE_BITS src msg_size"

definition core_decode_size :: "string \<Rightarrow> nat \<Rightarrow> cpp_exn + bool \<times> nat" where
  "core_decode_size src msg_size =
     (case core_tokenize [] src refsymbol_value True of
        (ok, pairs) \<Rightarrow>
          if \<not> ok then Inr (False, msg_size)
          else core_convert src pairs [decode_size_field] msg_size)"

text \<open>The sums of \<open>size_t\<close> wrap around. The result: \<open>None\<close> is false, otherwise \<open>dst\<close> and \<open>rest\<close>.\<close>

definition size_add :: "nat \<Rightarrow> nat \<Rightarrow> nat" where
  "size_add a b = (a + b) mod 2 ^ SIZE_BITS"

definition core_decode_frame :: "string \<Rightarrow> cpp_exn + (string \<times> string) option" where
  "core_decode_frame src =
     (case core_tokenize [] src refsymbol_value True of
        (ok, pairs) \<Rightarrow>
          if \<not> ok then Inr None
          else case core_convert src pairs [decode_size_field] 0 of
                 Inl e \<Rightarrow> Inl e
               | Inr (good, len) \<Rightarrow>
                   if \<not> good then Inr None
                   else let dst_start = size_add (fst (pairs ! 0) + snd (pairs ! 0)) 1
                        in if size_add dst_start len > length src then Inr None
                           else case str_substr src (Some dst_start) (Some len) of
                                  Inl e \<Rightarrow> Inl e
                                | Inr dst \<Rightarrow>
                                    if size_add dst_start len < length src
                                    then case str_substr src (Some (size_add dst_start len)) None of
                                           Inl e \<Rightarrow> Inl e
                                         | Inr rest \<Rightarrow> Inr (Some (dst, rest))
                                    else Inr (Some (dst, [])))"

definition core_decode ::
  "(string \<Rightarrow> 's \<Rightarrow> 's \<times> bool) list \<Rightarrow> string \<Rightarrow> 's \<Rightarrow> cpp_exn + bool \<times> 's" where
  "core_decode decs src dst =
     (case core_tokenize [] src refsymbol_value False of
        (ok, pairs) \<Rightarrow> if \<not> ok then Inr (False, dst) else core_convert src pairs decs dst)"

definition core_encode :: "('i \<Rightarrow> char \<Rightarrow> string) \<Rightarrow> 'i \<Rightarrow> string option" where
  "core_encode encode_info src =
     (let tmp = encode_info src refsymbol_value
      in if length tmp > MAX_SIZE then None
         else let prefix = (if length tmp < 10 then ''00'' else if length tmp < 100 then ''0'' else [])
              in Some (prefix @ dec_string (length tmp) @ [refsymbol_value] @ tmp))"

section \<open>\<open>unix::request_t\<close>, \<open>unix::response_t\<close> and \<open>unix::codec_t\<close>\<close>

record unix_request =
  ur_action :: u32
  ur_tag :: string
  ur_format :: string
  ur_info :: string

definition unix_request_new :: unix_request where
  "unix_request_new = \<lparr>ur_action = 0, ur_tag = [], ur_format = format_encode_empty, ur_info = []\<rparr>"

definition unix_request_fields :: "(string \<Rightarrow> unix_request \<Rightarrow> unix_request \<times> bool) list" where
  "unix_request_fields =
     [decode_unsigned ur_action (\<lambda>v. ur_action_update (\<lambda>_. v)),
      decode_string (\<lambda>v. ur_tag_update (\<lambda>_. v)),
      decode_string (\<lambda>v. ur_format_update (\<lambda>_. v)),
      decode_string (\<lambda>v. ur_info_update (\<lambda>_. v))]"

definition unix_request_encode :: "unix_request \<Rightarrow> char \<Rightarrow> string" where
  "unix_request_encode r refsymbol =
     convert_encode [] refsymbol
       [encode_unsigned (ur_action r), ur_tag r, ur_format r, ur_info r]"

record unix_response =
  us_status :: u32
  us_string :: string
  us_int :: u32

definition unix_response_new :: unix_response where
  "unix_response_new = \<lparr>us_status = 0, us_string = [], us_int = 0\<rparr>"

definition unix_response_fields :: "(string \<Rightarrow> unix_response \<Rightarrow> unix_response \<times> bool) list" where
  "unix_response_fields =
     [decode_unsigned us_status (\<lambda>v. us_status_update (\<lambda>_. v)),
      decode_string (\<lambda>v. us_string_update (\<lambda>_. v)),
      decode_unsigned us_int (\<lambda>v. us_int_update (\<lambda>_. v))]"

definition unix_response_encode :: "unix_response \<Rightarrow> char \<Rightarrow> string" where
  "unix_response_encode r refsymbol =
     convert_encode [] refsymbol
       [encode_unsigned (us_status r), us_string r, encode_unsigned (us_int r)]"

definition unix_decode_size :: "string \<Rightarrow> nat \<Rightarrow> bool \<times> nat" where
  "unix_decode_size src msg_size =
     (case tokenize [] src refsymbol_value True of
        (ok, pairs) \<Rightarrow>
          if \<not> ok then (False, msg_size) else convert_decode src pairs [decode_size_field] msg_size)"

text \<open>The copy \<open>tmp\<close> is not used, but \<open>substr\<close> throws on a text shorter than a header.\<close>

definition unix_decode ::
  "(string \<Rightarrow> 's \<Rightarrow> 's \<times> bool) list \<Rightarrow> string \<Rightarrow> 's \<Rightarrow> cpp_exn + bool \<times> 's" where
  "unix_decode decs src dst =
     (case tokenize [] src refsymbol_value False of
        (ok, pairs) \<Rightarrow>
          if \<not> ok then Inr (False, dst)
          else case str_substr src (Some HEADER_SIZE) None of
                 Inl e \<Rightarrow> Inl e
               | Inr tmp \<Rightarrow> Inr (convert_decode src pairs decs dst))"

definition unix_encode :: "('i \<Rightarrow> char \<Rightarrow> string) \<Rightarrow> 'i \<Rightarrow> string option" where
  "unix_encode encode_info src =
     (let tmp = encode_info src refsymbol_value;
          len = length tmp + HEADER_SIZE
      in if len > MAX_SIZE then None
         else let prefix = (if len < 10 then ''00'' else if len < 100 then ''0'' else [])
              in Some (prefix @ dec_string len @ [refsymbol_value] @ tmp))"

section \<open>The tokens of joined fields\<close>

text \<open>\<open>joined\<close> is what \<open>convert\<close> writes: every field followed by the separator.\<close>

definition joined :: "char \<Rightarrow> string list \<Rightarrow> string" where
  "joined c ws = concat (map (\<lambda>w. w @ [c]) ws)"

lemma joined_simps [simp]: "joined c [] = []" "joined c (w # ws) = w @ c # joined c ws"
  by (simp_all add: joined_def)

lemma joined_Nil_iff [simp]: "joined c ws = [] \<longleftrightarrow> ws = []"
  by (cases ws) auto

lemma convert_encode_joined: "convert_encode dst c ws = dst @ joined c ws"
  by (induction ws arbitrary: dst) auto

lemma index_not_hd: "w \<noteq> [] \<Longrightarrow> c \<notin> set w \<Longrightarrow> index_not c (w @ ys) = Some 0"
  by (cases w) auto

lemma words_by_joined:
  assumes "\<forall>w \<in> set ws. c \<notin> set w" "ws \<noteq> []"
  shows "words_by c (joined c ws) = ws"
  using assms
proof (induction ws)
  case Nil
  then show ?case by simp
next
  case (Cons w ws)
  then have w: "index_of c (w @ c # joined c ws) = Some (length w)"
    by (simp add: index_of_append)
  show ?case
  proof (cases "ws = []")
    case True
    with w show ?thesis by (subst words_by.simps) simp
  next
    case False
    with Cons have "words_by c (joined c ws) = ws" by simp
    moreover have "joined c ws \<noteq> []" using False by simp
    ultimately show ?thesis using w by (subst words_by.simps) simp
  qed
qed

lemma core_tokens_joined:
  assumes "drop pos src = joined c ws" "\<forall>w \<in> set ws. c \<notin> set w"
  shows "(case find_first_not_of src c pos of None \<Rightarrow> []
          | Some q \<Rightarrow> map (substr_pair src) (core_tokenize_from src c False q))
       = filter (\<lambda>w. w \<noteq> []) ws"
  using assms
proof (induction ws arbitrary: pos)
  case Nil
  then show ?case by (simp add: find_first_not_of_def)
next
  case (Cons w ws)
  have len: "length src - pos = length w + 1 + length (joined c ws)"
    using arg_cong [OF Cons.prems(1), of length] by simp
  then have pos: "pos \<le> length src" by simp
  have rest: "drop (pos + length w + 1) src = joined c ws"
  proof -
    have "drop (pos + length w + 1) src = drop (length w + 1) (drop pos src)"
      by (simp add: add.commute add.left_commute)
    then show ?thesis by (simp add: Cons.prems(1))
  qed
  have IH: "(case find_first_not_of src c (pos + length w + 1) of None \<Rightarrow> []
      | Some q \<Rightarrow> map (substr_pair src) (core_tokenize_from src c False q)) = filter (\<lambda>w. w \<noteq> []) ws"
    by (rule Cons.IH [OF rest]) (use Cons.prems in auto)
  show ?case
  proof (cases "w = []")
    case True
    then have "find_first_not_of src c pos = find_first_not_of src c (Suc pos)"
      using Cons.prems(1) rest by (simp add: find_first_not_of_def option.map_comp comp_def)
    with IH True show ?thesis by simp
  next
    case False
    have "find_first_not_of src c pos = Some pos"
      using False Cons.prems by (simp add: find_first_not_of_def index_not_hd)
    moreover have find: "str_find src c (Some pos) = Some (pos + length w)"
      using Cons.prems by (simp add: str_find_def index_of_append)
    moreover have "substr_pair src (pos, length w) = w"
      by (simp add: substr_pair_def Cons.prems(1))
    moreover have "pos + length w + 1 \<ge> length src \<longleftrightarrow> ws = []"
      using len joined_Nil_iff [of c ws] pos by (metis (no_types, lifting) One_nat_def add_Suc_right
        add_cancel_left_right diff_diff_left drop_eq_Nil length_0_conv rest)
    ultimately show ?thesis
      using IH False by (subst core_tokenize_from.simps) (auto split: option.splits)
  qed
qed

section \<open>Decoders on words\<close>

text \<open>Both \<open>convert\<close> functions run the decoders on the words of the tokens, in order.\<close>

fun run_decoders :: "(string \<Rightarrow> 's \<Rightarrow> 's \<times> bool) list \<Rightarrow> string list \<Rightarrow> 's \<Rightarrow> 's option" where
  "run_decoders [] ws s = Some s"
| "run_decoders (dec # decs) [] s = None"
| "run_decoders (dec # decs) (w # ws) s =
     (case dec w s of (s', good) \<Rightarrow> if good then run_decoders decs ws s' else None)"

lemma drop_map_nth:
  "i < length pairs \<Longrightarrow> drop i (map f pairs) = f (pairs ! i) # drop (Suc i) (map f pairs)"
  by (metis Cons_nth_drop_Suc length_map nth_map)

lemma core_convert_info_run:
  assumes "run_decoders decs (drop i (map (substr_pair src) pairs)) s = Some s'"
  shows "core_convert_info src pairs i decs s = Inr (True, s')"
  using assms
proof (induction decs arbitrary: i s)
  case Nil
  then show ?case by simp
next
  case (Cons dec decs)
  show ?case
  proof (cases "i < length pairs")
    case True
    with Cons show ?thesis by (auto simp: drop_map_nth split: prod.splits if_splits)
  next
    case False
    with Cons.prems show ?thesis by simp
  qed
qed

lemma convert_info_run:
  assumes "run_decoders decs (drop i (map (substr_pair src) pairs)) s = Some s'"
  shows "convert_info src pairs i decs s = (True, s')"
  using assms
proof (induction decs arbitrary: i s)
  case Nil
  then show ?case by simp
next
  case (Cons dec decs)
  show ?case
  proof (cases "i < length pairs")
    case True
    with Cons show ?thesis by (auto simp: drop_map_nth split: prod.splits if_splits)
  next
    case False
    with Cons.prems show ?thesis by simp
  qed
qed

text \<open>A decoder that succeeds on the words there are runs out of tokens afterwards.\<close>

lemma core_convert_info_short:
  assumes "drop i (map (substr_pair src) pairs) = ws" "length ws < length decs"
    and "run_decoders (take (length ws) decs) ws s \<noteq> None"
  shows "core_convert_info src pairs i decs s = Inl Undefined"
  using assms
proof (induction decs arbitrary: i ws s)
  case Nil
  then show ?case by simp
next
  case (Cons dec decs)
  show ?case
  proof (cases "i < length pairs")
    case True
    then obtain ws' where "ws = substr_pair src (pairs ! i) # ws'"
      and "drop (Suc i) (map (substr_pair src) pairs) = ws'"
      using Cons.prems(1) drop_map_nth [OF True] by metis
    with Cons.prems True Cons.IH [of "Suc i" ws'] show ?thesis
      by (auto split: prod.splits if_splits)
  next
    case False
    then show ?thesis by simp
  qed
qed

definition field_text :: "string \<Rightarrow> bool" where
  "field_text w \<longleftrightarrow> refsymbol_value \<notin> set w"

lemma digits_field_text: "list_all is_digit w \<Longrightarrow> field_text w"
  by (auto simp: field_text_def list_all_iff is_digit_def refsymbol_value_def)

lemma encode_unsigned_text [simp]: "field_text (encode_unsigned v)" "encode_unsigned v \<noteq> []"
  by (simp_all add: encode_unsigned_def digits_field_text dec_string_digits)

lemma encode_int_text [simp]: "field_text (encode_int v)" "encode_int v \<noteq> []"
proof -
  have "field_text (''-'' @ w)" if "list_all is_digit w" for w
    using digits_field_text [OF that] by (simp add: field_text_def refsymbol_value_def)
  then show "field_text (encode_int v)"
    by (simp add: encode_int_def dec_string_int_def digits_field_text dec_string_digits)
  show "encode_int v \<noteq> []" by (simp add: encode_int_def dec_string_int_def)
qed

lemma decode_unsigned_encode [simp]:
  "decode_unsigned get put (encode_unsigned v) s = (put v s, True)"
proof -
  have "unat v < 2 ^ 32" using unsigned_less [of v] by simp
  then show ?thesis
    by (simp add: decode_unsigned_def encode_unsigned_def read_unsigned_dec_string)
qed

lemma scan_number_minus:
  assumes "list_all is_digit ds"
  shows "scan_number (CHR ''-'' # ds) = Some (True, ds)"
  using assms by (simp add: scan_number_def is_space_def)

lemma decode_int_encode [simp]:
  "decode_int get put (encode_int v) s = (put v s, True)"
proof (cases "sint v < 0")
  case True
  have "- (2 ^ 31) \<le> sint v" using sint_ge [of v] by simp
  with True show ?thesis
    by (simp add: decode_int_def encode_int_def dec_string_int_def read_signed_def
        scan_number_minus dec_string_digits)
next
  case False
  have "sint v < 2 ^ 31" using sint_less [of v] by simp
  with False show ?thesis
    by (simp add: decode_int_def encode_int_def dec_string_int_def read_signed_def
        scan_number_digits dec_string_digits)
qed

lemma decode_string_simp [simp]: "decode_string put src s = (put src s, True)"
  by (simp add: decode_string_def)

section \<open>A whole text of fields\<close>

lemma core_tokens_of_joined:
  assumes "\<forall>w \<in> set ws. field_text w" "filter (\<lambda>w. w \<noteq> []) ws \<noteq> []"
  shows "\<exists>pairs. core_tokenize [] (joined refsymbol_value ws) refsymbol_value False = (True, pairs)
    \<and> map (substr_pair (joined refsymbol_value ws)) pairs = filter (\<lambda>w. w \<noteq> []) ws"
proof -
  let ?src = "joined refsymbol_value ws"
  have "(case find_first_not_of ?src refsymbol_value 0 of None \<Rightarrow> []
      | Some q \<Rightarrow> map (substr_pair ?src) (core_tokenize_from ?src refsymbol_value False q))
    = filter (\<lambda>w. w \<noteq> []) ws"
    using assms(1) by (intro core_tokens_joined) (simp_all add: field_text_def)
  with assms(2) show ?thesis by (cases "find_first_not_of ?src refsymbol_value 0")
      (auto simp: core_tokenize_def)
qed

lemma unix_tokens_of_joined:
  assumes "\<forall>w \<in> set ws. field_text w" "field_text h"
  shows "\<exists>pairs. tokenize [] (joined refsymbol_value (h # ws)) refsymbol_value False = (True, pairs)
    \<and> map (substr_pair (joined refsymbol_value (h # ws))) pairs = ws"
proof -
  let ?src = "joined refsymbol_value (h # ws)"
  have "words_by refsymbol_value ?src = h # ws"
    using assms by (intro words_by_joined) (auto simp: field_text_def)
  moreover have "0 < length ?src" by simp
  ultimately have "map (substr_pair ?src) (tokenize_from ?src refsymbol_value False 0) = ws"
    using tokenize_from_words [of 0 ?src refsymbol_value] by simp
  then show ?thesis by (simp add: tokenize_def)
qed

text \<open>The first word alone, as \<open>first_only\<close> gives it.\<close>

lemma core_tokenize_header:
  assumes "field_text h" "h \<noteq> []"
  shows "core_tokenize [] (h @ refsymbol_value # src) refsymbol_value True = (True, [(0, length h)])"
proof -
  have "find_first_not_of (h @ refsymbol_value # src) refsymbol_value 0 = Some 0"
    using assms by (simp add: find_first_not_of_def index_not_hd field_text_def)
  moreover have "str_find (h @ refsymbol_value # src) refsymbol_value (Some 0) = Some (length h)"
    using assms by (simp add: str_find_def index_of_append field_text_def)
  ultimately show ?thesis by (simp add: core_tokenize_def core_tokenize_from.simps)
qed

lemma unix_tokenize_header:
  assumes "field_text h"
  shows "tokenize [] (h @ refsymbol_value # src) refsymbol_value True = (True, [(0, length h)])"
  using assms by (simp add: tokenize_def tokenize_from.simps word_end_def str_find_def
      index_of_append field_text_def)

section \<open>Headers\<close>

lemma length_dec_string:
  "length (dec_string n) = (if n < 10 then 1 else Suc (length (dec_string (n div 10))))"
  by (subst dec_string.simps) simp

lemma length_dec_string_cases:
  "length (dec_string n) = (if n < 10 then 1 else if n < 100 then 2 else if n < 1000 then 3 else 4)"
  if "n < 10000"
  using that by (simp add: length_dec_string [of n] length_dec_string [of "n div 10"]
      length_dec_string [of "n div 100"] length_dec_string [of "n div 1000"]
      div_less_iff_less_mult flip: div_mult2_eq)

definition header_of :: "nat \<Rightarrow> string" where
  "header_of n = (if n < 10 then ''00'' else if n < 100 then ''0'' else []) @ dec_string n"

lemma digits_value_zero: "digits_value (CHR ''0'' # ds) = digits_value ds"
  by (simp add: digits_value_def digit_value_def)

lemma header_of_digits:
  "list_all is_digit (header_of n)" "header_of n \<noteq> []" "digits_value (header_of n) = n"
proof -
  have "is_digit (CHR ''0'')" by (simp add: is_digit_def)
  then show "list_all is_digit (header_of n)" by (simp add: header_of_def dec_string_digits)
  show "header_of n \<noteq> []" by (simp add: header_of_def)
  show "digits_value (header_of n) = n" by (simp add: header_of_def digits_value_zero)
qed

lemma header_of_text [simp]: "field_text (header_of n)" "header_of n \<noteq> []"
  using header_of_digits digits_field_text by auto

lemma length_header_of:
  "n \<le> MAX_SIZE \<Longrightarrow> length (header_of n) = (if n < 1000 then 3 else 4)"
  by (simp add: header_of_def MAX_SIZE_def length_dec_string_cases)

lemma decode_size_header:
  "n \<le> MAX_SIZE \<Longrightarrow> decode_size_field (header_of n) old = (n, True)"
  by (simp add: decode_size_field_def read_unsigned_digits header_of_digits MAX_SIZE_def
      SIZE_BITS_def)

text \<open>The frame of a body in either protocol: the length in the header counts \<open>extra\<close> more.\<close>

definition frame :: "nat \<Rightarrow> string \<Rightarrow> string" where
  "frame extra body = header_of (length body + extra) @ refsymbol_value # body"

lemma core_encode_frame:
  "core_encode enc r = Some txt \<longleftrightarrow>
     length (enc r refsymbol_value) \<le> MAX_SIZE \<and> txt = frame 0 (enc r refsymbol_value)"
  by (auto simp: core_encode_def frame_def header_of_def Let_def)

lemma unix_encode_frame:
  "unix_encode enc r = Some txt \<longleftrightarrow>
     length (enc r refsymbol_value) + HEADER_SIZE \<le> MAX_SIZE
       \<and> txt = frame HEADER_SIZE (enc r refsymbol_value)"
  by (auto simp: unix_encode_def frame_def header_of_def Let_def)

lemma core_decode_frame_frame:
  assumes "length body \<le> MAX_SIZE"
  shows "core_decode_frame (frame 0 body @ rest) = Inr (Some (body, rest))"
proof -
  let ?h = "header_of (length body)"
  have src: "frame 0 body @ rest = ?h @ refsymbol_value # (body @ rest)"
    by (simp add: frame_def)
  have tok: "core_tokenize [] (?h @ refsymbol_value # (body @ rest)) refsymbol_value True
      = (True, [(0, length ?h)])"
    by (rule core_tokenize_header) simp_all
  have len: "core_convert (?h @ refsymbol_value # (body @ rest)) [(0, length ?h)]
      [decode_size_field] 0 = Inr (True, length body)"
    using decode_size_header [OF assms] by (simp add: core_convert_def substr_pair_def)
  have h: "length ?h \<le> 4" using length_header_of [OF assms] by simp
  have start: "size_add (length ?h) (Suc 0) = Suc (length ?h)"
    using h by (simp add: size_add_def SIZE_BITS_def)
  have sum: "size_add (Suc (length ?h)) (length body) = Suc (length ?h) + length body"
    using h assms by (simp add: size_add_def SIZE_BITS_def MAX_SIZE_def)
  show ?thesis
    unfolding src core_decode_frame_def tok prod.case
    by (simp add: len start sum str_substr_def Let_def)
qed

lemma unix_decode_size_frame:
  assumes "length body + HEADER_SIZE \<le> MAX_SIZE"
  shows "unix_decode_size (frame HEADER_SIZE body @ rest) old = (True, length body + HEADER_SIZE)"
  using decode_size_header [OF assms] unix_tokenize_header [of "header_of (length body + HEADER_SIZE)"]
  by (simp add: unix_decode_size_def frame_def convert_decode_def substr_pair_def)

section \<open>Requests and responses as texts\<close>

lemma core_request_encode_joined:
  "core_request_encode r refsymbol_value = joined refsymbol_value
     [encode_unsigned (cr_action r), cr_tag r, cr_format r, cr_info r, encode_unsigned (cr_duration r)]"
  unfolding core_request_encode_def convert_encode_joined by simp

lemma core_request_decode:
  assumes "field_text (cr_tag r)" "field_text (cr_format r)" "field_text (cr_info r)"
  shows "core_decode core_request_fields (core_request_encode r refsymbol_value) old =
    (if [] \<in> {cr_tag r, cr_format r, cr_info r} then Inl Undefined else Inr (True, r))"
proof -
  let ?ws = "[encode_unsigned (cr_action r), cr_tag r, cr_format r, cr_info r,
    encode_unsigned (cr_duration r)]"
  let ?body = "joined refsymbol_value ?ws"
  obtain pairs
    where tok: "core_tokenize [] ?body refsymbol_value False = (True, pairs)"
    and words: "map (substr_pair ?body) pairs = filter (\<lambda>w. w \<noteq> []) ?ws"
    using core_tokens_of_joined [of ?ws] assms by auto
  have "core_convert ?body pairs core_request_fields old =
      (if [] \<in> {cr_tag r, cr_format r, cr_info r} then Inl Undefined else Inr (True, r))"
  proof (cases "[] \<in> {cr_tag r, cr_format r, cr_info r}")
    case False
    then have "run_decoders core_request_fields (drop 0 (map (substr_pair ?body) pairs)) old = Some r"
      unfolding words by (auto simp: core_request_fields_def)
    with False show ?thesis by (simp add: core_convert_def core_convert_info_run)
  next
    case True
    have "core_convert_info ?body pairs 0 core_request_fields old = Inl Undefined"
    proof (rule core_convert_info_short)
      show "drop 0 (map (substr_pair ?body) pairs) = filter (\<lambda>w. w \<noteq> []) ?ws"
        by (simp only: words drop_0)
      show "length (filter (\<lambda>w. w \<noteq> []) ?ws) < length core_request_fields"
        using True by (auto simp: core_request_fields_def)
      show "run_decoders (take (length (filter (\<lambda>w. w \<noteq> []) ?ws)) core_request_fields)
          (filter (\<lambda>w. w \<noteq> []) ?ws) old \<noteq> None"
        by (cases "cr_tag r = []"; cases "cr_format r = []"; cases "cr_info r = []")
          (simp_all add: core_request_fields_def)
    qed
    with True show ?thesis by (simp add: core_convert_def)
  qed
  with tok show ?thesis unfolding core_request_encode_joined by (simp add: core_decode_def)
qed

lemma core_response_encode_joined:
  "core_response_encode r refsymbol_value = joined refsymbol_value [encode_int (cs_status r), cs_reason r]"
  unfolding core_response_encode_def convert_encode_joined by simp

lemma core_response_decode:
  assumes "field_text (cs_reason r)" "cs_reason r \<noteq> []"
  shows "core_decode core_response_fields (core_response_encode r refsymbol_value) old = Inr (True, r)"
proof -
  let ?ws = "[encode_int (cs_status r), cs_reason r]"
  let ?body = "joined refsymbol_value ?ws"
  obtain pairs
    where tok: "core_tokenize [] ?body refsymbol_value False = (True, pairs)"
    and words: "map (substr_pair ?body) pairs = filter (\<lambda>w. w \<noteq> []) ?ws"
    using core_tokens_of_joined [of ?ws] assms by auto
  have "run_decoders core_response_fields (drop 0 (map (substr_pair ?body) pairs)) old = Some r"
    unfolding words using assms by (simp add: core_response_fields_def)
  with tok show ?thesis
    unfolding core_response_encode_joined
    by (simp add: core_decode_def core_convert_def core_convert_info_run)
qed

section \<open>Properties\<close>

text \<open>C40: A request of the first generation whose fields hold no separator and whose text fits survives
  the connection: the framed text, followed by anything, yields the body and exactly what
  followed, and decoding the body gives the request back when no text field is empty. With an
  empty field the splitter drops the word, and \<open>convert\<close> indexes the token vector past its end.\<close>

theorem core_request_roundtrip:
  assumes "field_text (cr_tag r)" "field_text (cr_format r)" "field_text (cr_info r)"
    and "core_encode core_request_encode r = Some txt"
  shows "\<exists>body. core_decode_frame (txt @ rest) = Inr (Some (body, rest))
    \<and> core_decode core_request_fields body old =
        (if [] \<in> {cr_tag r, cr_format r, cr_info r} then Inl Undefined else Inr (True, r))"
  using core_request_decode [OF assms(1-3)] assms(4) core_decode_frame_frame
  unfolding core_encode_frame by blast

definition sample_request :: core_request where
  "sample_request = \<lparr>cr_action = action_insert, cr_tag = ''a'', cr_format = format_encode_empty,
     cr_info = ''hi'', cr_duration = 7\<rparr>"

lemma core_request_roundtrip_witness:
  "\<exists>body. core_decode_frame (''011'' @ [refsymbol_value] @ ''1'' @ [refsymbol_value] @ ''a''
       @ [refsymbol_value] @ ''-'' @ [refsymbol_value] @ ''hi'' @ [refsymbol_value] @ ''7''
       @ [refsymbol_value] @ ''0'') = Inr (Some (body, ''0''))
    \<and> core_decode core_request_fields body core_request_new = Inr (True, sample_request)"
proof -
  have "core_encode core_request_encode sample_request = Some (''011'' @ [refsymbol_value] @ ''1''
      @ [refsymbol_value] @ ''a'' @ [refsymbol_value] @ ''-'' @ [refsymbol_value] @ ''hi''
      @ [refsymbol_value] @ ''7'' @ [refsymbol_value])"
    by (simp add: core_encode_def core_request_encode_def sample_request_def encode_unsigned_def
        dec_string.simps action_insert_def format_encode_empty_def MAX_SIZE_def
        char_of_def bit_Suc_0_iff)
  moreover have "field_text ''a''" "field_text ''-''" "field_text ''hi''"
    by (simp_all add: field_text_def refsymbol_value_def)
  ultimately show ?thesis
    using core_request_roundtrip [of sample_request _ "''0''" core_request_new]
    by (simp add: sample_request_def format_encode_empty_def)
qed

text \<open>
  A request of the second generation survives with empty fields as well; the decoder reads it
  behind its own header. The length that the header declares is the length of the frame only
  below 1000, where it has the three digits that \<open>header_size\<close> counts; from there on the frame is
  one character longer than it says.
\<close>

theorem unix_request_roundtrip:
  assumes "field_text (ur_tag r)" "field_text (ur_format r)" "field_text (ur_info r)"
    and "unix_encode unix_request_encode r = Some txt"
  shows "unix_decode unix_request_fields txt old = Inr (True, r)
    \<and> unix_decode_size (txt @ rest) n
        = (True, if length txt < 1000 then length txt else length txt - 1)"
proof
  let ?ws = "[encode_unsigned (ur_action r), ur_tag r, ur_format r, ur_info r]"
  let ?body = "joined refsymbol_value ?ws"
  let ?len = "length ?body + HEADER_SIZE"
  have enc: "unix_request_encode r refsymbol_value = ?body"
    unfolding unix_request_encode_def convert_encode_joined by simp
  from assms(4) have fits: "?len \<le> MAX_SIZE" and wire: "txt = frame HEADER_SIZE ?body"
    unfolding unix_encode_frame enc by blast+
  from wire have src: "txt = joined refsymbol_value (header_of ?len # ?ws)"
    by (simp add: frame_def)
  obtain pairs where tok: "tokenize [] txt refsymbol_value False = (True, pairs)"
    and words: "map (substr_pair txt) pairs = ?ws"
    using unix_tokens_of_joined [of ?ws "header_of ?len"] assms(1-3) unfolding src by auto
  have "run_decoders unix_request_fields (drop 0 (map (substr_pair txt) pairs)) old = Some r"
    unfolding words by (simp add: unix_request_fields_def)
  then have "convert_decode txt pairs unix_request_fields old = (True, r)"
    by (simp add: convert_decode_def convert_info_run)
  moreover have size: "length txt = (if ?len < 1000 then ?len else ?len + 1)"
    unfolding wire frame_def using length_header_of [OF fits] by (simp add: HEADER_SIZE_def)
  moreover have "HEADER_SIZE \<le> length txt" unfolding size by simp
  ultimately show "unix_decode unix_request_fields txt old = Inr (True, r)"
    by (simp add: unix_decode_def tok str_substr_def)
  show "unix_decode_size (txt @ rest) n
      = (True, if length txt < 1000 then length txt else length txt - 1)"
    unfolding size unfolding wire unix_decode_size_frame [OF fits] by auto
qed

text \<open>
  The bound that the header check computes wraps around: for every length that brings the end of
  the message back to at most the end of the text, the frame is accepted, and the text that is
  left begins at the wrapped position. For a length of minus three the whole text is left.
\<close>

theorem core_header_wraps:
  "core_decode_frame (''-3'' @ refsymbol_value # body)
     = Inr (Some (take (2 ^ 32 - 3) body, ''-3'' @ refsymbol_value # body))"
proof -
  have minus: "field_text ''-3''" by (simp add: field_text_def refsymbol_value_def)
  have tok: "core_tokenize [] (''-3'' @ refsymbol_value # body) refsymbol_value True = (True, [(0, 2)])"
    using core_tokenize_header [OF minus, of body] by simp
  have "read_unsigned 32 ''-3'' 0 = (2 ^ 32 - 3, True)"
    by (simp add: read_unsigned_def scan_number_def is_space_def is_digit_def digits_value_def
        digit_value_def)
  then have len: "core_convert (''-3'' @ refsymbol_value # body) [(0, 2)] [decode_size_field] 0
      = Inr (True, 2 ^ 32 - 3)"
    by (simp add: core_convert_def substr_pair_def decode_size_field_def SIZE_BITS_def)
  show ?thesis
    unfolding core_decode_frame_def tok prod.case
    using len by (simp add: size_add_def SIZE_BITS_def str_substr_def Let_def)
qed

end
