(* ===== verification/Old_Server.thy ===== *)
theory Old_Server
  imports Old_Codec "HOL-Library.List_Lexorder"
begin

text \<open>
  The first server, \<open>src/obsoleted/old/server-obsolete\<close>: the requests that wait to be shown
  (\<open>content.cpp\<close>), the thread that answers messages (\<open>daemon.cpp\<close>), the connection
  (\<open>session.cpp\<close>) and the client that sends one request and reads one response
  (\<open>src/obsoleted/old/core-old/client.hpp\<close>). The sockets are the bytes they carry; a run of the read
  loop that does not end is \<open>None\<close>, and what an exception does to the network thread is a value.
\<close>

section \<open>The map of requests\<close>

text \<open>
  \<open>std::map\<close> is the list of its entries by ascending key; an iterator is the key it stands at,
  \<open>None\<close> being \<open>end ()\<close>.
\<close>

type_synonym request_map = "(string \<times> core_request) list"

fun map_put :: "string \<Rightarrow> 'v \<Rightarrow> (string \<times> 'v) list \<Rightarrow> (string \<times> 'v) list" where
  "map_put k v [] = [(k, v)]"
| "map_put k v ((k', v') # m) =
     (if k < k' then (k, v) # (k', v') # m
      else if k = k' then (k, v) # m
      else (k', v') # map_put k v m)"

definition map_erase :: "string \<Rightarrow> (string \<times> 'v) list \<Rightarrow> (string \<times> 'v) list" where
  "map_erase k m = filter (\<lambda>e. fst e \<noteq> k) m"

definition map_begin :: "(string \<times> 'v) list \<Rightarrow> string option" where
  "map_begin m = (case m of [] \<Rightarrow> None | (k, _) # _ \<Rightarrow> Some k)"

definition map_next :: "(string \<times> 'v) list \<Rightarrow> string \<Rightarrow> string option" where
  "map_next m k = find (\<lambda>k'. k < k') (map fst m)"

record core_content =
  cc_map :: request_map
  cc_iter :: "string option"

definition core_content_new :: core_content where
  "core_content_new = \<lparr>cc_map = [], cc_iter = None\<rparr>"

definition reason_cant_erase :: "string \<Rightarrow> string" where
  "reason_cant_erase tag = ''Can't erase tag '' @ [CHR 0x22] @ tag @ [CHR 0x22] @ '' related info''"

definition core_content_update ::
  "core_request \<Rightarrow> core_response \<Rightarrow> core_content \<Rightarrow> core_response \<times> core_content" where
  "core_content_update request response c =
     (if cr_action request = action_idle
      then (response\<lparr>cs_status := status_ok, cs_reason := ''idle action''\<rparr>, c)
      else case map_of (cc_map c) (cr_tag request) of
             None \<Rightarrow>
               if cr_action request = action_insert
               then (response\<lparr>cs_status := status_ok, cs_reason := ''New entry is inserted''\<rparr>,
                     c\<lparr>cc_map := map_put (cr_tag request) request (cc_map c),
                       cc_iter := Some (cr_tag request)\<rparr>)
               else if cr_action request = action_erase
               then (response\<lparr>cs_status := status_error,
                              cs_reason := reason_cant_erase (cr_tag request)\<rparr>, c)
               else (response, c)
           | Some _ \<Rightarrow>
               if cr_action request = action_insert
               then (response\<lparr>cs_status := status_ok, cs_reason := ''Info map entry is updated''\<rparr>,
                     c\<lparr>cc_map := map_put (cr_tag request) request (cc_map c),
                       cc_iter := Some (cr_tag request)\<rparr>)
               else if cr_action request = action_erase
               then (response\<lparr>cs_status := status_ok, cs_reason := ''Info map entry is erased''\<rparr>,
                     c\<lparr>cc_map := map_erase (cr_tag request) (cc_map c), cc_iter := None\<rparr>)
               else (response\<lparr>cs_status := status_ok\<rparr>, c))"

text \<open>\<open>next\<close>: an iterator to an entry that is gone would be undefined.\<close>

definition core_content_next ::
  "core_content \<Rightarrow> cpp_exn + core_request option \<times> core_content" where
  "core_content_next c =
     (case map_begin (cc_map c) of
        None \<Rightarrow> Inr (None, c)
      | Some first \<Rightarrow>
          let it = (case cc_iter c of None \<Rightarrow> first | Some it \<Rightarrow> it)
          in case map_of (cc_map c) it of
               None \<Rightarrow> Inl Undefined
             | Some request \<Rightarrow> Inr (Some request, c\<lparr>cc_iter := map_next (cc_map c) it\<rparr>))"

text \<open>\<open>prepare\<close>; \<open>None\<close> is false. The loop of \<open>start\<close> shows the idle request instead.\<close>

definition core_prepare :: "core_request \<Rightarrow> core_request option" where
  "core_prepare request =
     (if cr_action request \<noteq> action_insert then None
      else if cr_duration request > max_duration then Some (request\<lparr>cr_duration := max_duration\<rparr>)
      else Some request)"

definition idle_request :: core_request where
  "idle_request = core_request_new\<lparr>cr_action := action_insert, cr_info := ''Nothing to display''\<rparr>"

definition core_show_next :: "core_content \<Rightarrow> cpp_exn + core_request option \<times> core_content" where
  "core_show_next c =
     (case core_content_next c of
        Inl e \<Rightarrow> Inl e
      | Inr (request, c') \<Rightarrow>
          (case Option.bind request core_prepare of
             Some r \<Rightarrow> Inr (Some r, c')
           | None \<Rightarrow> Inr (core_prepare idle_request, c')))"

section \<open>The message thread\<close>

text \<open>The body of the loop of \<open>update_load\<close>: the text sent back, if any.\<close>

definition core_update_load :: "string \<Rightarrow> core_content \<Rightarrow> cpp_exn + string option \<times> core_content" where
  "core_update_load info c =
     (case core_decode core_request_fields info core_request_new of
        Inl e \<Rightarrow> Inl e
      | Inr (False, _) \<Rightarrow>
          Inr (core_encode core_response_encode
                 (core_response_new\<lparr>cs_status := 1,
                    cs_reason := ''Failed to decode request message''\<rparr>), c)
      | Inr (True, request) \<Rightarrow>
          (case core_content_update request core_response_new c of
             (response, c') \<Rightarrow> Inr (core_encode core_response_encode response, c')))"

section \<open>The client\<close>

text \<open>
  \<open>read\<close>: exactly four bytes of header, then as many as the header says, into a buffer of
  \<open>max_size\<close> bytes. The connection offers \<open>wire\<close>; a read beyond its end throws.
\<close>

definition core_client_read :: "string \<Rightarrow> cpp_exn + bool" where
  "core_client_read wire =
     (if length wire < HEADER_SIZE then Inl (Runtime_error ''eof'')
      else case core_decode_size (take HEADER_SIZE wire) 0 of
             Inl e \<Rightarrow> Inl e
           | Inr (False, _) \<Rightarrow> Inr False
           | Inr (True, msg_size) \<Rightarrow>
               if msg_size > MAX_SIZE then Inl Undefined
               else if length wire < HEADER_SIZE + msg_size then Inl (Runtime_error ''eof'')
               else case core_decode core_response_fields
                           (take msg_size (drop HEADER_SIZE wire)) core_response_new of
                      Inl e \<Rightarrow> Inl e
                    | Inr (False, _) \<Rightarrow> Inr False
                    | Inr (True, response) \<Rightarrow> Inr (cs_status response = status_ok))"

section \<open>The connection: reading\<close>

text \<open>
  The \<open>while\<close> loop of the completion handler: pushes every whole message. An exception leaves
  the handler and \<open>m_asio_service.run\<close>, which ends the network thread.
\<close>

partial_function (option) core_read_loop ::
  "string \<Rightarrow> string list \<Rightarrow> (cpp_exn + string list \<times> string) option" where
  "core_read_loop buf queue =
     (case core_decode_frame buf of
        Inl e \<Rightarrow> Some (Inl e)
      | Inr None \<Rightarrow> Some (Inr (queue, buf))
      | Inr (Some (current_msg, next_msg)) \<Rightarrow> core_read_loop next_msg (queue @ [current_msg]))"

record core_session =
  se_read_buf :: string
  se_queue :: "string list"
  se_reading :: bool

definition core_session_start :: "core_session" where
  "core_session_start = \<lparr>se_read_buf = [], se_queue = [], se_reading = True\<rparr>"

definition NUL :: char where "NUL = CHR 0x00"

text \<open>
  One completion of \<open>async_read_some\<close>: the bytes are appended as a C string, so up to the
  first zero byte. Reading goes on only with an incomplete message in the buffer.
\<close>

definition core_session_read ::
  "bool \<Rightarrow> string \<Rightarrow> core_session \<Rightarrow> (cpp_exn + core_session) option" where
  "core_session_read code chunk s =
     (if code then Some (Inr (s\<lparr>se_reading := False\<rparr>))
      else case core_read_loop (se_read_buf s @ takeWhile (\<lambda>c. c \<noteq> NUL) chunk) (se_queue s) of
             None \<Rightarrow> None
           | Some (Inl e) \<Rightarrow> Some (Inl e)
           | Some (Inr (queue, buf)) \<Rightarrow>
               Some (Inr \<lparr>se_read_buf = buf, se_queue = queue, se_reading = buf \<noteq> []\<rparr>))"

text \<open>The chunks that arrive while the session is reading; later ones stay in the socket.\<close>

fun core_session_feed :: "string list \<Rightarrow> core_session \<Rightarrow> (cpp_exn + core_session) option" where
  "core_session_feed [] s = Some (Inr s)"
| "core_session_feed (chunk # chunks) s =
     (if \<not> se_reading s then Some (Inr s)
      else case core_session_read False chunk s of
             None \<Rightarrow> None
           | Some (Inl e) \<Rightarrow> Some (Inl e)
           | Some (Inr s') \<Rightarrow> core_session_feed chunks s')"

section \<open>The connection: writing\<close>

text \<open>
  \<open>async_write\<close> reads the raw buffer when the socket takes the bytes, so a write in progress is
  its size and the number of bytes taken so far.
\<close>

record core_writer =
  cw_buf :: string
  cw_raw :: string
  cw_ops :: "(nat \<times> nat) list"
  cw_wire :: string

definition core_writer_new :: core_writer where
  "core_writer_new = \<lparr>cw_buf = [], cw_raw = replicate (MAX_SIZE + 1) NUL, cw_ops = [], cw_wire = []\<rparr>"

definition core_do_write :: "core_writer \<Rightarrow> core_writer" where
  "core_do_write w =
     (if cw_raw w ! 0 = NUL then
        (if length (cw_buf w) > MAX_SIZE
         then w\<lparr>cw_raw := take MAX_SIZE (cw_buf w) @ drop MAX_SIZE (cw_raw w),
                cw_buf := drop MAX_SIZE (cw_buf w), cw_ops := cw_ops w @ [(MAX_SIZE, 0)]\<rparr>
         else w\<lparr>cw_raw := cw_buf w @ drop (length (cw_buf w)) (cw_raw w),
                cw_buf := [], cw_ops := cw_ops w @ [(length (cw_buf w), 0)]\<rparr>)
      else w\<lparr>cw_ops := cw_ops w @ [(0, 0)]\<rparr>)"

definition core_send :: "string \<Rightarrow> core_writer \<Rightarrow> core_writer" where
  "core_send info w =
     (if cw_buf w = [] then core_do_write (w\<lparr>cw_buf := info\<rparr>)
      else w\<lparr>cw_buf := cw_buf w @ info\<rparr>)"

text \<open>The socket takes \<open>n\<close> more bytes of the write \<open>i\<close>.\<close>

definition core_progress :: "nat \<Rightarrow> nat \<Rightarrow> core_writer \<Rightarrow> core_writer" where
  "core_progress i n w =
     (if i < length (cw_ops w) then
        (case cw_ops w ! i of (len, pos) \<Rightarrow>
           let k = min n (len - pos)
           in w\<lparr>cw_wire := cw_wire w @ take k (drop pos (cw_raw w)),
                cw_ops := (cw_ops w)[i := (len, pos + k)]\<rparr>)
      else w)"

text \<open>The completion handler of a write that has been taken whole; \<open>len\<close> is then \<open>size\<close>.\<close>

definition core_written :: "nat \<Rightarrow> core_writer \<Rightarrow> core_writer" where
  "core_written i w =
     (if i < length (cw_ops w) \<and> snd (cw_ops w ! i) = fst (cw_ops w ! i) then
        let w' = w\<lparr>cw_ops := take i (cw_ops w) @ drop (Suc i) (cw_ops w),
                   cw_raw := (cw_raw w)[0 := NUL]\<rparr>
        in if cw_buf w' = [] then w' else core_do_write w'
      else w)"

datatype write_event = Send string | Progress nat nat | Written nat

fun core_write_step :: "write_event \<Rightarrow> core_writer \<Rightarrow> core_writer" where
  "core_write_step (Send info) w = core_send info w"
| "core_write_step (Progress i n) w = core_progress i n w"
| "core_write_step (Written i) w = core_written i w"

section \<open>Partial frames\<close>

lemma take_frame:
  assumes "n < length (frame 0 body)"
  shows "take n (frame 0 body) =
    (if n \<le> length (header_of (length body)) then take n (header_of (length body))
     else header_of (length body) @ refsymbol_value
            # take (n - length (header_of (length body)) - 1) body)"
  by (auto simp: frame_def take_Cons')

lemma digits_value_take_le: "digits_value (take n ds) \<le> digits_value ds"
proof (induction ds rule: rev_induct)
  case Nil
  then show ?case by simp
next
  case (snoc d ds)
  have "digits_value ds \<le> digits_value (ds @ [d])" by (simp add: digits_value_def)
  with snoc show ?case by (cases "n \<le> length ds") auto
qed

lemma core_tokenize_word:
  assumes "field_text h" "h \<noteq> []"
  shows "core_tokenize [] h refsymbol_value True = (True, [(0, length h)])"
proof -
  have "find_first_not_of h refsymbol_value 0 = Some 0"
    using assms index_not_hd [of h refsymbol_value "[]"]
    by (simp add: find_first_not_of_def field_text_def)
  moreover have "str_find h refsymbol_value (Some 0) = None"
    using assms by (simp add: str_find_def index_of_None field_text_def)
  ultimately show ?thesis by (simp add: core_tokenize_def core_tokenize_from.simps)
qed

lemma core_decode_frame_short:
  assumes tok: "core_tokenize [] src refsymbol_value True = (True, [(0, length h)])"
    and h: "take (length h) src = h" "list_all is_digit h" "h \<noteq> []"
    and "digits_value h \<le> MAX_SIZE" "length h \<le> 4" "length src < length h + 1 + digits_value h"
  shows "core_decode_frame src = Inr None"
proof -
  have "decode_size_field h 0 = (digits_value h, True)"
    using assms by (simp add: decode_size_field_def read_unsigned_digits MAX_SIZE_def SIZE_BITS_def)
  then have len: "core_convert src [(0, length h)] [decode_size_field] 0 = Inr (True, digits_value h)"
    using h(1) by (simp add: core_convert_def substr_pair_def)
  have "size_add (length h) (Suc 0) = Suc (length h)"
    "size_add (Suc (length h)) (digits_value h) = Suc (length h) + digits_value h"
    using assms by (simp_all add: size_add_def SIZE_BITS_def MAX_SIZE_def)
  then show ?thesis
    unfolding core_decode_frame_def tok prod.case using len assms(7) by (simp add: Let_def)
qed

lemma core_decode_partial:
  assumes "length body \<le> MAX_SIZE" "n < length (frame 0 body)"
  shows "core_decode_frame (take n (frame 0 body)) = Inr None"
proof -
  let ?h = "header_of (length body)"
  have four: "length ?h \<le> 4" using length_header_of [OF assms(1)] by simp
  consider "n = 0" | "0 < n" "n \<le> length ?h" | "length ?h < n" by linarith
  then show ?thesis
  proof cases
    case 1
    then show ?thesis
      by (simp add: core_decode_frame_def core_tokenize_def find_first_not_of_def)
  next
    case 2
    have digits: "list_all is_digit (take n ?h)"
      using header_of_digits(1) by (auto simp: list_all_iff dest: in_set_takeD)
    have "digits_value (take n ?h) \<le> MAX_SIZE"
      using digits_value_take_le [of n ?h] header_of_digits(3) [of "length body"] assms(1) by simp
    moreover have "core_tokenize [] (take n ?h) refsymbol_value True = (True, [(0, length (take n ?h))])"
      using digits digits_field_text 2 by (intro core_tokenize_word) (auto simp: header_of_def)
    ultimately have "core_decode_frame (take n ?h) = Inr None"
      using digits four 2 by (intro core_decode_frame_short [of _ "take n ?h"]) auto
    with 2 show ?thesis by (simp add: take_frame [OF assms(2)])
  next
    case 3
    let ?part = "take (n - length ?h - 1) body"
    have "length ?part < length body" using assms(2) 3 by (simp add: frame_def)
    then have "core_decode_frame (?h @ refsymbol_value # ?part) = Inr None"
      using four assms(1) header_of_digits
      by (intro core_decode_frame_short [of _ ?h]) (simp_all add: core_tokenize_header)
    with 3 show ?thesis by (simp add: take_frame [OF assms(2)])
  qed
qed

lemma core_read_loop_frames:
  assumes "\<forall>body \<in> set bodies. length body \<le> MAX_SIZE" "core_decode_frame rest = Inr None"
  shows "core_read_loop (concat (map (frame 0) bodies) @ rest) queue = Some (Inr (queue @ bodies, rest))"
  using assms(1)
proof (induction bodies arbitrary: queue)
  case Nil
  then show ?case by (subst core_read_loop.simps) (simp add: assms(2))
next
  case (Cons body bodies)
  have "core_decode_frame (frame 0 body @ concat (map (frame 0) bodies) @ rest)
      = Inr (Some (body, concat (map (frame 0) bodies) @ rest))"
    using Cons.prems by (intro core_decode_frame_frame) simp
  with Cons show ?case by (subst core_read_loop.simps) simp
qed

section \<open>Properties\<close>

text \<open>
  A request that arrives in any pieces is pushed once, when its last byte is in, and the session
  stops reading: while pieces are missing nothing is pushed and reading goes on.
\<close>

lemma core_session_feed_frame:
  assumes "length body \<le> MAX_SIZE" "NUL \<notin> set body"
    and "\<forall>chunk \<in> set chunks. chunk \<noteq> []" "n < length (frame 0 body)"
    and "take n (frame 0 body) @ concat chunks = frame 0 body"
  shows "core_session_feed chunks \<lparr>se_read_buf = take n (frame 0 body), se_queue = queue,
      se_reading = True\<rparr>
    = Some (Inr \<lparr>se_read_buf = [], se_queue = queue @ [body], se_reading = False\<rparr>)"
  using assms(3-5)
proof (induction chunks arbitrary: n)
  case Nil
  then have "length (take n (frame 0 body)) = length (frame 0 body)" by simp
  with Nil.prems(2) show ?case by simp
next
  case (Cons chunk chunks)
  have nul: "NUL \<notin> set (frame 0 body)"
    using assms(2) header_of_digits(1) [of "length body"]
    by (auto simp: frame_def list_all_iff is_digit_def NUL_def refsymbol_value_def)
  have "set chunk \<subseteq> set (frame 0 body)"
    using arg_cong [OF Cons.prems(3), of set] by auto
  with nul have chunk: "takeWhile (\<lambda>c. c \<noteq> NUL) chunk = chunk" by auto
  let ?m = "n + length chunk"
  have buf: "take n (frame 0 body) @ chunk = take ?m (frame 0 body)"
  proof -
    have "take ?m (take n (frame 0 body) @ chunk @ concat chunks) = take n (frame 0 body) @ chunk"
      using Cons.prems(2) by simp
    with Cons.prems(3) show ?thesis by simp
  qed
  show ?case
  proof (cases "?m < length (frame 0 body)")
    case True
    then have partial: "core_decode_frame (take ?m (frame 0 body)) = Inr None"
      by (rule core_decode_partial [OF assms(1)])
    have "core_read_loop (take ?m (frame 0 body)) queue = Some (Inr (queue, take ?m (frame 0 body)))"
      by (subst core_read_loop.simps) (simp add: partial)
    moreover have "take ?m (frame 0 body) \<noteq> []" using Cons.prems(1) True by auto
    moreover have "take ?m (frame 0 body) @ concat chunks = frame 0 body"
      using Cons.prems(3) buf by (metis append_assoc concat.simps(2))
    ultimately show ?thesis
      using Cons.IH [OF _ True] Cons.prems(1) by (simp add: core_session_read_def chunk buf)
  next
    case False
    then have all: "take ?m (frame 0 body) = frame 0 body" by simp
    with Cons.prems(3) buf have "concat chunks = []" by (metis append_assoc append_self_conv concat.simps(2))
    with Cons.prems(1) have none: "chunks = []" by (cases chunks) auto
    have "core_decode_frame [] = Inr None"
      by (simp add: core_decode_frame_def core_tokenize_def find_first_not_of_def)
    with core_read_loop_frames [of "[body]" "[]" queue] assms(1) all
    have "core_read_loop (take ?m (frame 0 body)) queue = Some (Inr (queue @ [body], []))" by simp
    then show ?thesis by (simp add: core_session_read_def chunk buf none)
  qed
qed

text \<open>A request that arrives over a fresh connection in any number of pieces is pushed to the queue
  once, whole, and the session stops reading with an empty buffer.\<close>

theorem core_session_reads_request:
  assumes "core_encode core_request_encode r = Some (concat chunks)"
    and "\<forall>chunk \<in> set chunks. chunk \<noteq> []" "NUL \<notin> set (concat chunks)"
  shows "core_session_feed chunks core_session_start
    = Some (Inr \<lparr>se_read_buf = [], se_queue = [core_request_encode r refsymbol_value],
                 se_reading = False\<rparr>)"
proof -
  let ?body = "core_request_encode r refsymbol_value"
  from assms(1) have len: "length ?body \<le> MAX_SIZE" and all: "concat chunks = frame 0 ?body"
    unfolding core_encode_frame by blast+
  from all assms(3) have "NUL \<notin> set ?body" by (auto simp: frame_def)
  moreover have "0 < length (frame 0 ?body)" by (simp add: frame_def)
  ultimately show ?thesis
    using core_session_feed_frame [of ?body chunks 0 "[]"] len assms(2) all
    by (simp add: core_session_start_def)
qed

lemma core_session_reads_request_witness:
  "core_session_feed [''00'', ''8'' @ [refsymbol_value] @ ''1'', [refsymbol_value] @ ''a''
      @ [refsymbol_value, refsymbol_value, refsymbol_value] @ ''7'' @ [refsymbol_value]]
      core_session_start
    = Some (Inr \<lparr>se_read_buf = [],
        se_queue = [core_request_encode \<lparr>cr_action = 1, cr_tag = ''a'', cr_format = [],
          cr_info = [], cr_duration = 7\<rparr> refsymbol_value],
        se_reading = False\<rparr>)"
proof -
  have "core_encode core_request_encode \<lparr>cr_action = 1, cr_tag = ''a'', cr_format = [],
      cr_info = [], cr_duration = 7\<rparr> = Some (concat [''00'', ''8'' @ [refsymbol_value] @ ''1'',
        [refsymbol_value] @ ''a'' @ [refsymbol_value, refsymbol_value, refsymbol_value] @ ''7''
        @ [refsymbol_value]])"
    by (simp add: core_encode_def core_request_encode_def encode_unsigned_def dec_string.simps
        MAX_SIZE_def char_of_def bit_Suc_0_iff)
  from core_session_reads_request [OF this] show ?thesis
    by (simp add: NUL_def refsymbol_value_def)
qed

text \<open>Four characters hang the server: the handler that reads a length of minus three never
  returns, since the position behind the message wraps around to the beginning of the text, which
  therefore yields an empty message again and again. (The same length without its separator ends the network
  thread: \<open>substr\<close> throws.)\<close>

theorem core_session_hangs:
  "core_session_read False (''-3'' @ [refsymbol_value]) core_session_start = None
    \<and> core_session_read False ''-3'' core_session_start = Some (Inl Out_of_range)"
proof
  have "src \<noteq> ''-3'' @ [refsymbol_value]" if "core_read_loop src queue = Some out" for src queue out
  proof (rule core_read_loop.raw_induct [OF _ that])
    fix loop :: "string \<Rightarrow> string list \<Rightarrow> (cpp_exn + string list \<times> string) option"
    fix src queue out
    assume IH: "\<And>src queue out. loop src queue = Some out \<Longrightarrow> src \<noteq> ''-3'' @ [refsymbol_value]"
      and run: "(case core_decode_frame src of Inl e \<Rightarrow> Some (Inl e)
        | Inr None \<Rightarrow> Some (Inr (queue, src))
        | Inr (Some (current_msg, next_msg)) \<Rightarrow> loop next_msg (queue @ [current_msg])) = Some out"
    show "src \<noteq> ''-3'' @ [refsymbol_value]"
    proof
      assume src: "src = ''-3'' @ [refsymbol_value]"
      with run have "loop src (queue @ [[]]) = Some out"
        using core_header_wraps [of "[]"] by simp
      from IH [OF this] src show False by simp
    qed
  qed
  then have "core_read_loop (''-3'' @ [refsymbol_value]) [] = None"
    by (cases "core_read_loop (''-3'' @ [refsymbol_value]) []") blast+
  then show "core_session_read False (''-3'' @ [refsymbol_value]) core_session_start = None"
    by (simp add: core_session_read_def core_session_start_def NUL_def refsymbol_value_def)
  have tok: "core_tokenize [] ''-3'' refsymbol_value True = (True, [(0, length ''-3'')])"
    by (rule core_tokenize_word) (simp_all add: field_text_def refsymbol_value_def)
  have "decode_size_field ''-3'' 0 = (2 ^ 32 - 3, True)"
    by (simp add: decode_size_field_def SIZE_BITS_def read_unsigned_def scan_number_def
        is_space_def is_digit_def digits_value_def digit_value_def)
  then have "core_decode_frame ''-3'' = Inl Out_of_range"
    unfolding core_decode_frame_def tok prod.case
    by (simp add: core_convert_def substr_pair_def size_add_def SIZE_BITS_def str_substr_def Let_def)
  then have "core_read_loop ''-3'' [] = Some (Inl Out_of_range)"
    by (subst core_read_loop.simps) simp
  then show "core_session_read False ''-3'' core_session_start = Some (Inl Out_of_range)"
    by (simp add: core_session_read_def core_session_start_def NUL_def)
qed

text \<open>
  Writing. \<open>writer_ok sent\<close> holds while there is at most one write in progress: what the socket
  took, the rest of that write and the waiting text are what was sent.
\<close>

definition writer_ok :: "string \<Rightarrow> core_writer \<Rightarrow> bool" where
  "writer_ok sent w \<longleftrightarrow> length (cw_raw w) = MAX_SIZE + 1 \<and> NUL \<notin> set (cw_buf w) \<and>
     (case cw_ops w of
        [] \<Rightarrow> cw_raw w ! 0 = NUL \<and> cw_buf w = [] \<and> cw_wire w = sent
      | (len, pos) # ops \<Rightarrow> ops = [] \<and> 0 < len \<and> len \<le> MAX_SIZE \<and> pos \<le> len \<and> cw_raw w ! 0 \<noteq> NUL
          \<and> cw_wire w @ drop pos (take len (cw_raw w)) @ cw_buf w = sent)"

text \<open>A caller that waits: it sends while nothing is being written or behind waiting text.\<close>

fun core_polite :: "write_event \<Rightarrow> core_writer \<Rightarrow> bool" where
  "core_polite (Send info) w \<longleftrightarrow> info \<noteq> [] \<and> NUL \<notin> set info \<and> (cw_ops w = [] \<or> cw_buf w \<noteq> [])"
| "core_polite _ w \<longleftrightarrow> True"

fun sent_by :: "write_event \<Rightarrow> string" where
  "sent_by (Send info) = info"
| "sent_by _ = []"

fun core_polite_run :: "write_event list \<Rightarrow> core_writer \<Rightarrow> bool" where
  "core_polite_run [] w \<longleftrightarrow> True"
| "core_polite_run (e # es) w \<longleftrightarrow> core_polite e w \<and> core_polite_run es (core_write_step e w)"

lemma writer_ok_do_write:
  assumes "length (cw_raw w) = MAX_SIZE + 1" "cw_raw w ! 0 = NUL" "cw_ops w = []"
    and "cw_buf w \<noteq> []" "NUL \<notin> set (cw_buf w)" "cw_wire w @ cw_buf w = sent"
  shows "writer_ok sent (core_do_write w)"
proof -
  have "take n (cw_buf w) ! 0 \<noteq> NUL" if "0 < n" for n
    using assms(4,5) that by (cases "cw_buf w"; cases n) auto
  from this [of MAX_SIZE] this [of "length (cw_buf w)"] assms show ?thesis
    by (auto simp: writer_ok_def core_do_write_def nth_append MAX_SIZE_def dest: in_set_dropD)
qed

lemma writer_ok_step:
  assumes "writer_ok sent w" "core_polite e w"
  shows "writer_ok (sent @ sent_by e) (core_write_step e w)"
proof -
  consider "cw_ops w = []" | len pos where "cw_ops w = [(len, pos)]"
    using assms(1) by (auto simp: writer_ok_def split: list.splits)
  then show ?thesis
  proof cases
    case 1
    note ops = 1
    show ?thesis
    proof (cases e)
      case (Send info)
      have "writer_ok (sent @ info) (core_do_write (w\<lparr>cw_buf := info\<rparr>))"
        using assms ops Send by (intro writer_ok_do_write) (auto simp: writer_ok_def)
      with assms(1) ops Send show ?thesis by (simp add: writer_ok_def core_send_def)
    qed (use assms ops in \<open>auto simp: core_progress_def core_written_def\<close>)
  next
    case 2
    note ops = 2
    show ?thesis
    proof (cases e)
      case (Send info)
      with assms ops show ?thesis by (auto simp: writer_ok_def core_send_def)
    next
      case (Progress i n)
      define k where "k = min n (len - pos)"
      have "take k (drop pos (cw_raw w)) @ drop (pos + k) (take len (cw_raw w))
          = drop pos (take len (cw_raw w))"
      proof -
        have "take k (drop pos (cw_raw w)) = take k (drop pos (take len (cw_raw w)))"
          by (simp add: k_def drop_take)
        then show ?thesis by (metis add.commute append_take_drop_id drop_drop)
      qed
      moreover have "pos + k \<le> len" using assms(1) ops by (auto simp: k_def writer_ok_def)
      ultimately show ?thesis
        using assms ops Progress
        by (cases i) (auto simp: writer_ok_def core_progress_def simp flip: k_def)
    next
      case (Written i)
      show ?thesis
      proof (cases "i = 0 \<and> pos = len")
        case False
        with assms ops Written show ?thesis by (auto simp: core_written_def)
      next
        case True
        let ?w = "w\<lparr>cw_ops := [], cw_raw := (cw_raw w)[0 := NUL]\<rparr>"
        have "writer_ok sent (core_do_write ?w)" if "cw_buf w \<noteq> []"
          using assms ops True that by (intro writer_ok_do_write) (auto simp: writer_ok_def)
        moreover have "writer_ok sent ?w" if "cw_buf w = []"
          using assms(1) ops True that by (auto simp: writer_ok_def)
        ultimately show ?thesis
          using ops Written True by (simp add: core_written_def Let_def)
      qed
    qed
  qed
qed

lemma writer_ok_idle: "writer_ok sent w \<Longrightarrow> cw_ops w = [] \<Longrightarrow> cw_wire w = sent"
  by (simp add: writer_ok_def)

lemma writer_ok_run:
  "writer_ok sent w \<Longrightarrow> core_polite_run es w
    \<Longrightarrow> writer_ok (sent @ concat (map sent_by es)) (fold core_write_step es w)"
proof (induction es arbitrary: sent w)
  case Nil
  then show ?case by simp
next
  case (Cons e es)
  then have "writer_ok (sent @ sent_by e) (core_write_step e w)" by (simp add: writer_ok_step)
  from Cons.IH [OF this] Cons.prems(2) show ?case by simp
qed

text \<open>Two responses to one connection can be mixed. A caller that sends only behind waiting text or
  on an idle connection gets its texts onto the wire whole and in order; but a second \<open>send\<close> while the
  first write is still in progress starts a write of no bytes, whose completion declares the raw
  buffer free, and the second text overwrites what is left of the first.\<close>

theorem core_writes_in_order:
  "(\<forall>es. core_polite_run es core_writer_new \<longrightarrow>
       cw_ops (fold core_write_step es core_writer_new) = [] \<longrightarrow>
       cw_wire (fold core_write_step es core_writer_new) = concat (map sent_by es))
    \<and> cw_wire (fold core_write_step
          [Send ''first'', Progress 0 2, Send ''SECOND'', Written 1, Progress 0 3, Written 0,
           Progress 0 6] core_writer_new) = ''fiCON'' @ [NUL] @ ''ECOND''"
proof
  have "writer_ok [] core_writer_new" by (simp add: writer_ok_def core_writer_new_def)
  from writer_ok_run [OF this]
  have ok: "writer_ok (concat (map sent_by es)) (fold core_write_step es core_writer_new)"
    if "core_polite_run es core_writer_new" for es using that by simp
  show "\<forall>es. core_polite_run es core_writer_new \<longrightarrow>
       cw_ops (fold core_write_step es core_writer_new) = [] \<longrightarrow>
       cw_wire (fold core_write_step es core_writer_new) = concat (map sent_by es)"
    using ok writer_ok_idle by blast
  show "cw_wire (fold core_write_step
      [Send ''first'', Progress 0 2, Send ''SECOND'', Written 1, Progress 0 3, Written 0,
       Progress 0 6] core_writer_new) = ''fiCON'' @ [NUL] @ ''ECOND''"
    by (simp add: core_writer_new_def core_send_def core_do_write_def core_progress_def
        core_written_def MAX_SIZE_def NUL_def)
qed

lemma core_writes_in_order_witness:
  "cw_wire (fold core_write_step [Send ''ab'', Progress 0 1, Progress 0 1, Written 0]
      core_writer_new) = ''ab''"
proof -
  have "core_polite_run [Send ''ab'', Progress 0 1, Progress 0 1, Written 0] core_writer_new"
    "cw_ops (fold core_write_step [Send ''ab'', Progress 0 1, Progress 0 1, Written 0]
      core_writer_new) = []"
    by (simp_all add: core_writer_new_def core_send_def core_do_write_def core_progress_def
        core_written_def MAX_SIZE_def NUL_def)
  with core_writes_in_order show ?thesis by fastforce
qed

section \<open>The map of requests, in order\<close>

definition map_ok :: "(string \<times> 'v) list \<Rightarrow> bool" where
  "map_ok m \<longleftrightarrow> sorted_wrt (<) (map fst m)"

lemma keys_map_put: "fst ` set (map_put k v m) = insert k (fst ` set m)"
  by (induction k v m rule: map_put.induct) auto

lemma map_ok_put: "map_ok m \<Longrightarrow> map_ok (map_put k v m)"
proof (induction k v m rule: map_put.induct)
  case (1 k v)
  then show ?case by (simp add: map_ok_def)
next
  case (2 k v k' v' m)
  then show ?case using keys_map_put [of k v m] by (force simp: map_ok_def)
qed

lemma map_of_put: "map_ok m \<Longrightarrow> map_of (map_put k v m) = (map_of m)(k \<mapsto> v)"
proof (induction k v m rule: map_put.induct)
  case (1 k v)
  then show ?case by simp
next
  case (2 k v k' v' m)
  then show ?case by (auto simp: map_ok_def fun_eq_iff)
qed

lemma map_ok_erase: "map_ok m \<Longrightarrow> map_ok (map_erase k m)"
  by (induction m) (auto simp: map_ok_def map_erase_def)

text \<open>The content keeps the map ordered and its iterator on an entry.\<close>

definition core_content_ok :: "core_content \<Rightarrow> bool" where
  "core_content_ok c \<longleftrightarrow> map_ok (cc_map c) \<and>
     (case cc_iter c of None \<Rightarrow> True | Some k \<Rightarrow> k \<in> fst ` set (cc_map c))"

lemma core_content_ok_new: "core_content_ok core_content_new"
  by (simp add: core_content_ok_def core_content_new_def map_ok_def)

lemma core_content_ok_update:
  "core_content_ok c \<Longrightarrow> core_content_ok (snd (core_content_update request response c))"
  by (auto simp: core_content_ok_def core_content_update_def map_ok_put map_ok_erase keys_map_put
      split: option.splits)

lemma map_next_key: "map_next m k = Some k' \<Longrightarrow> k' \<in> fst ` set m"
  by (auto simp: map_next_def find_Some_iff)

lemma content_next_cases:
  assumes "core_content_ok c"
  shows "\<exists>r c'. core_content_next c = Inr (r, c') \<and> core_content_ok c' \<and> cc_map c' = cc_map c"
proof (cases "cc_map c")
  case Nil
  with assms show ?thesis by (simp add: core_content_next_def map_begin_def)
next
  case (Cons e m)
  define it where "it = (case cc_iter c of None \<Rightarrow> fst e | Some it \<Rightarrow> it)"
  have "it \<in> fst ` set (cc_map c)"
    using assms Cons by (auto simp: it_def core_content_ok_def split: option.splits)
  then obtain r where "map_of (cc_map c) it = Some r" by (metis map_of_eq_None_iff not_None_eq)
  moreover have "map_begin (cc_map c) = Some (fst e)" by (cases e) (simp add: map_begin_def Cons)
  ultimately have "core_content_next c = Inr (Some r, c\<lparr>cc_iter := map_next (cc_map c) it\<rparr>)"
    by (simp add: core_content_next_def Let_def flip: it_def)
  moreover have "core_content_ok (c\<lparr>cc_iter := map_next (cc_map c) it\<rparr>)"
    using assms map_next_key [of "cc_map c" it] by (auto simp: core_content_ok_def split: option.splits)
  ultimately show ?thesis by simp
qed

text \<open>What the two threads do to the content.\<close>

datatype content_event = Update core_request | Show_next

fun content_step :: "content_event \<Rightarrow> core_content \<Rightarrow> core_content" where
  "content_step (Update r) c = snd (core_content_update r core_response_new c)"
| "content_step Show_next c = (case core_show_next c of Inl _ \<Rightarrow> c | Inr (_, c') \<Rightarrow> c')"

lemma core_show_next_ok:
  assumes "core_content_ok c"
  shows "\<exists>r c'. core_show_next c = Inr (Some r, c') \<and> core_content_ok c' \<and> cc_map c' = cc_map c
    \<and> cr_action r = action_insert \<and> cr_duration r \<le> max_duration"
proof -
  obtain r c' where next_c: "core_content_next c = Inr (r, c')" "core_content_ok c'" "cc_map c' = cc_map c"
    using content_next_cases [OF assms] by blast
  have prepared: "cr_action q' = action_insert \<and> cr_duration q' \<le> max_duration"
    if "core_prepare q = Some q'" for q q'
    using that by (auto simp: core_prepare_def split: if_splits)
  have "core_prepare idle_request = Some idle_request"
    by (simp add: core_prepare_def idle_request_def core_request_new_def)
  with next_c prepared show ?thesis
    by (cases "Option.bind r core_prepare")
      (auto simp: core_show_next_def split: bind_splits)
qed

lemma core_content_ok_run: "core_content_ok c \<Longrightarrow> core_content_ok (fold content_step es c)"
proof (induction es arbitrary: c)
  case Nil
  then show ?case by simp
next
  case (Cons e es)
  have "core_content_ok (content_step e c)"
    using Cons.prems core_show_next_ok [OF Cons.prems] core_content_ok_update by (cases e) auto
  with Cons.IH show ?case by simp
qed

text \<open>Whatever requests arrive and whenever the display asks, there is something to show: the
  iterator never stands at an entry that is gone, and what is shown is an insertion of at most
  five minutes.\<close>

theorem core_content_always_shows:
  "\<exists>r c'. core_show_next (fold content_step es core_content_new) = Inr (Some r, c')
    \<and> cr_action r = action_insert \<and> cr_duration r \<le> max_duration"
  using core_show_next_ok [OF core_content_ok_run [OF core_content_ok_new]] by blast

text \<open>\<open>n\<close> calls of \<open>next\<close>.\<close>

fun core_round :: "nat \<Rightarrow> core_content \<Rightarrow> core_request option list \<times> core_content" where
  "core_round 0 c = ([], c)"
| "core_round (Suc n) c =
     (case core_content_next c of
        Inl _ \<Rightarrow> ([], c)
      | Inr (r, c') \<Rightarrow> (case core_round n c' of (rs, c'') \<Rightarrow> (r # rs, c'')))"

lemma map_next_sorted:
  assumes "map_ok (pre @ (k, v) # post)"
  shows "map_next (pre @ (k, v) # post) k = map_begin post"
    and "map_of (pre @ (k, v) # post) k = Some v"
proof -
  from assms have pre: "k' < k" if "k' \<in> fst ` set pre" for k'
    using that by (auto simp: map_ok_def sorted_wrt_append)
  then have "find (\<lambda>k'. k < k') (map fst pre) = None"
    by (auto simp: find_None_iff dest: order.strict_trans)
  moreover have "find (\<lambda>k'. k < k') (map fst post) = map_begin post"
    using assms by (cases post) (auto simp: map_ok_def sorted_wrt_append map_begin_def)
  ultimately show "map_next (pre @ (k, v) # post) k = map_begin post"
    by (induction pre) (auto simp: map_next_def split: if_splits)
  from pre have "map_of pre k = None" by (auto simp: map_of_eq_None_iff)
  then show "map_of (pre @ (k, v) # post) k = Some v" by (simp add: map_add_def)
qed

lemma core_round_suffix:
  assumes "map_ok (pre @ post)" "post \<noteq> []"
  shows "core_round (length post) \<lparr>cc_map = pre @ post, cc_iter = map_begin post\<rparr>
    = (map (\<lambda>e. Some (snd e)) post, \<lparr>cc_map = pre @ post, cc_iter = None\<rparr>)"
  using assms
proof (induction post arbitrary: pre)
  case Nil
  then show ?case by simp
next
  case (Cons e post)
  obtain k v where e: "e = (k, v)" by (metis surj_pair)
  have step: "core_content_next \<lparr>cc_map = pre @ e # post, cc_iter = Some k\<rparr>
      = Inr (Some v, \<lparr>cc_map = pre @ e # post, cc_iter = map_begin post\<rparr>)"
    using map_next_sorted [of pre k v post] Cons.prems(1)
    by (cases pre) (auto simp: core_content_next_def map_begin_def e)
  show ?case
  proof (cases "post = []")
    case True
    with step show ?thesis by (simp add: map_begin_def e)
  next
    case False
    with Cons.IH [of "pre @ [e]"] Cons.prems(1) step show ?thesis
      by (simp add: map_begin_def e split: list.splits)
  qed
qed

text \<open>The display is fair: from the end of the map, as many calls of \<open>next\<close> as there are entries
  give every entry once, in the order of the tags, and end at the end of the map again.\<close>

theorem core_content_fair:
  assumes "core_content_ok c" "cc_iter c = None"
  shows "core_round (length (cc_map c)) c = (map (\<lambda>e. Some (snd e)) (cc_map c), c)"
proof (cases "cc_map c")
  case Nil
  then show ?thesis by simp
next
  case (Cons e m)
  have c: "c = \<lparr>cc_map = cc_map c, cc_iter = None\<rparr>" using assms(2) by simp
  have "core_content_next c = core_content_next \<lparr>cc_map = cc_map c, cc_iter = map_begin (cc_map c)\<rparr>"
    using assms(2) Cons by (cases e) (simp add: core_content_next_def map_begin_def)
  then have "core_round (length (cc_map c)) c
      = core_round (length (cc_map c)) \<lparr>cc_map = cc_map c, cc_iter = map_begin (cc_map c)\<rparr>"
    using content_next_cases [OF assms(1)] Cons by auto
  with core_round_suffix [of "[]" "cc_map c"] Cons assms(1) c show ?thesis
    by (simp add: core_content_ok_def)
qed

lemma core_content_fair_witness:
  "fst (core_round 2 \<lparr>cc_map = [(''a'', sample_request), (''b'', idle_request)], cc_iter = None\<rparr>)
    = [Some sample_request, Some idle_request]"
proof -
  have "core_content_ok \<lparr>cc_map = [(''a'', sample_request), (''b'', idle_request)], cc_iter = None\<rparr>"
    by (simp add: core_content_ok_def map_ok_def less_char_def)
  from core_content_fair [OF this] show ?thesis by (simp add: numeral_2_eq_2)
qed

section \<open>A request and its answer\<close>

lemma core_client_reads_response:
  assumes "field_text (cs_reason r)" "cs_reason r \<noteq> []"
    and "length (core_response_encode r refsymbol_value) < 1000"
  shows "core_client_read (frame 0 (core_response_encode r refsymbol_value) @ rest)
    = Inr (cs_status r = status_ok)"
proof -
  let ?body = "core_response_encode r refsymbol_value"
  let ?h = "header_of (length ?body)"
  have h: "length ?h = 3" using assms(3) by (simp add: length_header_of MAX_SIZE_def)
  have four: "take HEADER_SIZE (frame 0 ?body @ rest) = ?h @ refsymbol_value # []"
    and after: "drop HEADER_SIZE (frame 0 ?body @ rest) = ?body @ rest"
    using h by (simp_all add: frame_def HEADER_SIZE_def)
  have "core_decode_size (?h @ refsymbol_value # []) 0 = Inr (True, length ?body)"
    using assms(3) decode_size_header [of "length ?body" 0] core_tokenize_header [of ?h "[]"]
    by (simp add: core_decode_size_def core_convert_def substr_pair_def MAX_SIZE_def)
  moreover have "length (frame 0 ?body @ rest) = HEADER_SIZE + length ?body + length rest"
    using h by (simp add: frame_def HEADER_SIZE_def)
  ultimately show ?thesis
    using assms(3) core_response_decode [OF assms(1,2)]
    unfolding core_client_read_def four after by (simp add: MAX_SIZE_def)
qed

lemma char_text_field_text [simp]:
  "field_text []" "field_text (c # w) \<longleftrightarrow> c \<noteq> refsymbol_value \<and> field_text w"
  "field_text (v @ w) \<longleftrightarrow> field_text v \<and> field_text w"
  by (auto simp: field_text_def)

lemma core_response_length:
  assumes "cs_status r = 0 \<or> cs_status r = 1"
  shows "length (core_response_encode r refsymbol_value) = length (cs_reason r) + 3"
  using assms unfolding core_response_encode_joined
  by (auto simp: encode_int_def dec_string_int_def dec_string.simps)

lemma core_update_answers:
  assumes "field_text (cr_tag r)" "length (cr_tag r) < 900" "cr_action r \<le> 2"
    and "core_content_update r core_response_new c = (response, c')"
  shows "field_text (cs_reason response)" "cs_reason response \<noteq> []"
    and "length (core_response_encode response refsymbol_value) < 1000"
proof -
  have "cr_action r = action_idle \<or> cr_action r = action_insert \<or> cr_action r = action_erase"
  proof -
    have "unat (cr_action r) \<le> 2" using assms(3) by (simp add: word_le_nat_alt)
    then consider "unat (cr_action r) = 0" | "unat (cr_action r) = 1" | "unat (cr_action r) = 2"
      by linarith
    then show ?thesis
      by cases (simp_all add: action_idle_def action_insert_def action_erase_def word_unat_eq_iff)
  qed
  then have *: "cs_reason response \<in> {''idle action'', ''New entry is inserted'',
      reason_cant_erase (cr_tag r), ''Info map entry is updated'', ''Info map entry is erased''}"
    and **: "cs_status response = 0 \<or> cs_status response = 1"
    using assms(4) by (auto simp: core_content_update_def core_response_new_def status_ok_def
        status_error_def split: option.splits if_splits)
  from * assms(1) show "field_text (cs_reason response)"
    by (auto simp: reason_cant_erase_def refsymbol_value_def)
  from * show "cs_reason response \<noteq> []" by (auto simp: reason_cant_erase_def)
  from * assms(2) have "length (cs_reason response) < 950" by (auto simp: reason_cant_erase_def)
  with core_response_length [OF **]
  show "length (core_response_encode response refsymbol_value) < 1000" by simp
qed

text \<open>C32: A client gets its answer: a well-formed request that reaches the server in any pieces is taken
  from the connection, updates the content as \<open>update\<close> says, and the response it is sent makes
  \<open>send\<close> return true exactly when the status is good.\<close>

theorem core_request_answered:
  assumes "field_text (cr_tag r)" "field_text (cr_format r)" "field_text (cr_info r)"
    and "[] \<notin> {cr_tag r, cr_format r, cr_info r}" "length (cr_tag r) < 900" "cr_action r \<le> 2"
    and "core_encode core_request_encode r = Some (concat chunks)"
    and "\<forall>chunk \<in> set chunks. chunk \<noteq> []" "NUL \<notin> set (concat chunks)"
    and "core_content_update r core_response_new c = (response, c')"
  shows "\<exists>msg reply. core_session_feed chunks core_session_start
        = Some (Inr \<lparr>se_read_buf = [], se_queue = [msg], se_reading = False\<rparr>)
    \<and> core_update_load msg c = Inr (Some reply, c')
    \<and> core_client_read (reply @ later) = Inr (cs_status response = status_ok)"
proof -
  let ?msg = "core_request_encode r refsymbol_value"
  let ?reply = "frame 0 (core_response_encode response refsymbol_value)"
  note good = core_update_answers [OF assms(1,5,6,10)]
  from assms(7) have len: "length ?msg \<le> MAX_SIZE" and all: "concat chunks = frame 0 ?msg"
    unfolding core_encode_frame by blast+
  from all assms(9) have "NUL \<notin> set ?msg" by (auto simp: frame_def)
  moreover have "0 < length (frame 0 ?msg)" by (simp add: frame_def)
  ultimately have "core_session_feed chunks core_session_start
      = Some (Inr \<lparr>se_read_buf = [], se_queue = [?msg], se_reading = False\<rparr>)"
    using core_session_feed_frame [of ?msg chunks 0 "[]"] len assms(8) all
    by (simp add: core_session_start_def)
  moreover have "core_encode core_response_encode response = Some ?reply"
    unfolding core_encode_frame using good(3) by (simp add: MAX_SIZE_def)
  then have "core_update_load ?msg c = Inr (Some ?reply, c')"
    using core_request_decode [OF assms(1-3)] assms(4,10) by (simp add: core_update_load_def)
  moreover have "core_client_read (?reply @ later) = Inr (cs_status response = status_ok)"
    using good by (rule core_client_reads_response)
  ultimately show ?thesis by blast
qed

definition sample_erase :: core_request where
  "sample_erase = \<lparr>cr_action = action_erase, cr_tag = ''a'', cr_format = ''-'', cr_info = ''x'',
     cr_duration = 7\<rparr>"

lemma core_request_answered_witness:
  "\<exists>msg reply. core_session_feed [''01'', ''0'' @ [refsymbol_value] @ ''2'' @ [refsymbol_value]
        @ ''a'' @ [refsymbol_value] @ ''-'' @ [refsymbol_value] @ ''x'' @ [refsymbol_value] @ ''7''
        @ [refsymbol_value]] core_session_start
      = Some (Inr \<lparr>se_read_buf = [], se_queue = [msg], se_reading = False\<rparr>)
    \<and> core_update_load msg core_content_new = Inr (Some reply, core_content_new)
    \<and> core_client_read reply = Inr False"
proof -
  let ?chunks = "[''01'', ''0'' @ [refsymbol_value] @ ''2'' @ [refsymbol_value] @ ''a''
    @ [refsymbol_value] @ ''-'' @ [refsymbol_value] @ ''x'' @ [refsymbol_value] @ ''7''
    @ [refsymbol_value]]"
  have texts: "field_text (cr_tag sample_erase)" "field_text (cr_format sample_erase)"
    "field_text (cr_info sample_erase)" "length (cr_tag sample_erase) < 900"
    "[] \<notin> {cr_tag sample_erase, cr_format sample_erase, cr_info sample_erase}"
    "cr_action sample_erase \<le> 2"
    by (simp_all add: sample_erase_def refsymbol_value_def action_erase_def)
  have wire: "core_encode core_request_encode sample_erase = Some (concat ?chunks)"
    by (simp add: core_encode_def core_request_encode_def sample_erase_def encode_unsigned_def
        dec_string.simps action_erase_def MAX_SIZE_def char_of_def bit_Suc_0_iff)
  have pieces: "\<forall>chunk \<in> set ?chunks. chunk \<noteq> []" "NUL \<notin> set (concat ?chunks)"
    by (simp_all add: NUL_def refsymbol_value_def)
  have "core_content_update sample_erase core_response_new core_content_new
      = (\<lparr>cs_status = status_error, cs_reason = reason_cant_erase ''a''\<rparr>, core_content_new)"
    by (simp add: core_content_update_def sample_erase_def core_content_new_def core_response_new_def
        action_erase_def action_idle_def action_insert_def)
  from core_request_answered [OF texts(1-3,5,4,6) wire pieces this, of "[]"] show ?thesis
    by (simp add: status_error_def status_ok_def)
qed

end
