(* ===== verification/Old_Arduino.thy ===== *)
theory Old_Arduino
  imports Prelude
begin

text \<open>
  The first controller, \<open>src/obsoleted/old/arduino-obsolete/c/arduino\<close>: its queues (\<open>queue.c\<close>), the
  messages of the serial line (\<open>src/obsoleted/old/core-old/device-id.h\<close>, \<open>codec.c\<close>), the matrix
  that waits to be shown (\<open>matrix.c\<close>), the serial port (\<open>uart.c\<close>, \<open>uart-read.c\<close>, \<open>uart-write.c\<close>), the
  commands for the display driver (\<open>spi-write.c\<close>) and the main loop (\<open>parse.c\<close>). A pointer into the
  array of a queue is an index; an access outside an array is a \<open>Fault\<close>. The bytes written to the
  data registers of the serial port and of the SPI are kept in the order of writing.
\<close>

section \<open>\<open>queue.c\<close>\<close>

record ard_queue =
  aq_data :: bytes
  aq_size :: u8
  aq_max :: u8

definition ard_queue_init :: "u8 \<Rightarrow> u8 \<Rightarrow> ard_queue" where
  "ard_queue_init max_size pattern =
     \<lparr>aq_data = replicate (unat max_size) pattern, aq_size = 0, aq_max = max_size\<rparr>"

text \<open>The sum is one of \<open>int\<close>s, so it does not wrap.\<close>

definition ard_queue_is_fillable :: "ard_queue \<Rightarrow> u8 \<Rightarrow> u8" where
  "ard_queue_is_fillable q fill_size =
     of_flag (unat (aq_size q) + unat fill_size \<le> unat (aq_max q))"

definition ard_queue_is_drainable :: "ard_queue \<Rightarrow> u8 \<Rightarrow> u8" where
  "ard_queue_is_drainable q drain_size = of_flag (aq_size q \<ge> drain_size)"

definition ard_queue_get :: "ard_queue \<Rightarrow> u8 \<Rightarrow> nat option" where
  "ard_queue_get q index = (if index \<ge> aq_size q then None else Some (unat index))"

definition ard_queue_fill_symbol :: "ard_queue \<Rightarrow> u8 \<Rightarrow> u8 \<times> ard_queue" where
  "ard_queue_fill_symbol q symbol =
     (if aq_size q \<ge> aq_max q then (0, q)
      else (1, q\<lparr>aq_data := (aq_data q)[unat (aq_size q) := symbol], aq_size := aq_size q + 1\<rparr>))"

definition ard_queue_drain :: "ard_queue \<Rightarrow> u8 \<Rightarrow> u8 \<times> ard_queue" where
  "ard_queue_drain q drain_size =
     (if drain_size > aq_size q then (0, q)
      else let delta = aq_size q - drain_size
           in (1, q\<lparr>aq_data := fold (\<lambda>i data. data[i := data ! (i + unat drain_size)])
                                 [0..<unat delta] (aq_data q),
                   aq_size := delta\<rparr>))"

definition ard_queue_drain_symbol :: "ard_queue \<Rightarrow> u8 option \<times> ard_queue" where
  "ard_queue_drain_symbol q =
     (if aq_size q = 0 then (None, q) else (Some (aq_data q ! 0), snd (ard_queue_drain q 1)))"

text \<open>\<open>src\<close> is what can be read from the pointer on; reading behind it is \<open>None\<close>.\<close>

definition ard_queue_refill :: "ard_queue \<Rightarrow> bytes \<Rightarrow> u8 \<Rightarrow> (u8 \<times> ard_queue) option" where
  "ard_queue_refill q src src_size =
     (if aq_max q < src_size then Some (0, q)
      else if unat src_size > length src then None
      else Some (1, q\<lparr>aq_data := fold (\<lambda>i data. data[i := src ! i]) [0..<unat src_size] (aq_data q),
                      aq_size := src_size\<rparr>))"

definition ard_queue_move :: "ard_queue \<Rightarrow> ard_queue \<Rightarrow> u8 \<times> ard_queue \<times> ard_queue" where
  "ard_queue_move src dst =
     (if aq_max dst < aq_size src then (0, src, dst)
      else (1, src\<lparr>aq_size := 0\<rparr>,
            dst\<lparr>aq_data := fold (\<lambda>i data. data[i := aq_data src ! i]) [0..<unat (aq_size src)]
                             (aq_data dst),
                aq_size := aq_size src\<rparr>))"

definition ard_queue_clear :: "ard_queue \<Rightarrow> ard_queue" where
  "ard_queue_clear q = q\<lparr>aq_size := 0\<rparr>"

section \<open>\<open>matrix.c\<close>\<close>

record ard_matrix =
  am_queue :: ard_queue
  am_type :: u8

definition ard_matrix_init :: "u8 \<Rightarrow> u8 \<Rightarrow> ard_matrix" where
  "ard_matrix_init buffer_size pattern =
     \<lparr>am_queue = ard_queue_init buffer_size pattern, am_type = 0\<rparr>"

definition ard_matrix_size :: "ard_matrix \<Rightarrow> u8" where
  "ard_matrix_size m = aq_size (am_queue m)"

definition ard_matrix_fill ::
  "ard_matrix \<Rightarrow> u8 \<Rightarrow> bytes \<Rightarrow> u8 \<Rightarrow> (u8 \<times> ard_matrix) option" where
  "ard_matrix_fill m type src sz =
     (if ard_matrix_size m \<noteq> 0 then Some (0, m)
      else case ard_queue_refill (am_queue m) src sz of
             None \<Rightarrow> None
           | Some (status, q) \<Rightarrow> Some (status, m\<lparr>am_type := type, am_queue := q\<rparr>))"

definition ard_matrix_move :: "ard_matrix \<Rightarrow> ard_matrix \<Rightarrow> u8 \<times> ard_matrix \<times> ard_matrix" where
  "ard_matrix_move src dst =
     (case ard_queue_move (am_queue src) (am_queue dst) of
        (status, qs, qd) \<Rightarrow>
          (status, src\<lparr>am_queue := qs\<rparr>, dst\<lparr>am_type := am_type src, am_queue := qd\<rparr>))"

definition ard_matrix_clear :: "ard_matrix \<Rightarrow> ard_matrix" where
  "ard_matrix_clear m = m\<lparr>am_type := 0, am_queue := ard_queue_clear (am_queue m)\<rparr>"

definition ard_matrix_get :: "ard_matrix \<Rightarrow> u8 \<Rightarrow> nat option" where
  "ard_matrix_get m index = ard_queue_get (am_queue m) index"

section \<open>\<open>device-id.h\<close>\<close>

definition DEV_MAX_BUFFER_SIZE :: u8 where "DEV_MAX_BUFFER_SIZE = 255"
definition DEV_MAX_SUB_MATRIX_SIZE :: u8 where "DEV_MAX_SUB_MATRIX_SIZE = 220"
definition DEV_HEADER_SIZE :: u8 where "DEV_HEADER_SIZE = 4"
definition DEV_EYE_CATCH :: u8 where "DEV_EYE_CATCH = 247"
definition DEV_DEVICE_SERIAL :: u8 where "DEV_DEVICE_SERIAL = 0"

definition DEV_INVALID_MSG :: u8 where "DEV_INVALID_MSG = 0"
definition DEV_BUTTON :: u8 where "DEV_BUTTON = 1"
definition DEV_HEADER_DECODE_FAILED :: u8 where "DEV_HEADER_DECODE_FAILED = 2"
definition DEV_STATUS :: u8 where "DEV_STATUS = 3"
definition DEV_BRIGHTNESS :: u8 where "DEV_BRIGHTNESS = 4"
definition DEV_HANDSHAKE :: u8 where "DEV_HANDSHAKE = 5"
definition DEV_INIT :: u8 where "DEV_INIT = 6"
definition DEV_SUB_MATRIX :: u8 where "DEV_SUB_MATRIX = 7"
definition DEV_PIXEL_DELAY :: u8 where "DEV_PIXEL_DELAY = 8"
definition DEV_PHRASE_DELAY :: u8 where "DEV_PHRASE_DELAY = 9"
definition DEV_STABLE_DELAY :: u8 where "DEV_STABLE_DELAY = 10"
definition DEV_UNINIT :: u8 where "DEV_UNINIT = 11"

lemmas dev_msg_defs = DEV_INVALID_MSG_def DEV_BUTTON_def DEV_HEADER_DECODE_FAILED_def DEV_STATUS_def
  DEV_BRIGHTNESS_def DEV_HANDSHAKE_def DEV_INIT_def DEV_SUB_MATRIX_def DEV_PIXEL_DELAY_def
  DEV_PHRASE_DELAY_def DEV_STABLE_DELAY_def DEV_UNINIT_def

definition DEV_STATUS_OK :: u8 where "DEV_STATUS_OK = 7"
definition DEV_STATUS_BUFFER_CORRUPTED_0 :: u8 where "DEV_STATUS_BUFFER_CORRUPTED_0 = 8"
definition DEV_STATUS_BUFFER_CORRUPTED_1 :: u8 where "DEV_STATUS_BUFFER_CORRUPTED_1 = 9"
definition DEV_STATUS_BUFFER_CORRUPTED_2 :: u8 where "DEV_STATUS_BUFFER_CORRUPTED_2 = 10"
definition DEV_STATUS_DRAIN_FAILURE :: u8 where "DEV_STATUS_DRAIN_FAILURE = 11"
definition DEV_STATUS_MSG_UNKNOWN_H :: u8 where "DEV_STATUS_MSG_UNKNOWN_H = 12"
definition DEV_STATUS_MSG_UNKNOWN_0 :: u8 where "DEV_STATUS_MSG_UNKNOWN_0 = 13"
definition DEV_STATUS_MSG_UNKNOWN_1 :: u8 where "DEV_STATUS_MSG_UNKNOWN_1 = 14"
definition DEV_STATUS_SUB_MATRIX_TOO_SHORT :: u8 where "DEV_STATUS_SUB_MATRIX_TOO_SHORT = 15"

definition SUB_MATRIX_TYPE_FIRST :: u8 where "SUB_MATRIX_TYPE_FIRST = 1"
definition SUB_MATRIX_TYPE_MIDDLE :: u8 where "SUB_MATRIX_TYPE_MIDDLE = 2"
definition SUB_MATRIX_TYPE_LAST :: u8 where "SUB_MATRIX_TYPE_LAST = 4"

definition DEV_BRIGHTNESS_MAX :: u8 where "DEV_BRIGHTNESS_MAX = 15"

section \<open>The state of the controller\<close>

record ard =
  a_read :: ard_queue
  a_write :: ard_queue
  a_uart :: bytes
  a_spi :: ard_queue
  a_send_count :: u8
  a_send_size :: u8
  a_spdr :: bytes
  a_msg_id :: u8
  a_msg_size :: u8
  a_msg_serial :: u8
  a_parse_matrix :: ard_matrix
  a_pixel_delay :: u8
  a_phrase_delay :: u8
  a_stable_delay :: u8

text \<open>What \<open>init\<close> leaves: \<open>parse_init\<close>, \<open>render_init\<close>, \<open>spi_write_init\<close>, \<open>uart_init\<close>.\<close>

definition ard_init :: ard where
  "ard_init = \<lparr>a_read = ard_queue_init 0xFF 44, a_write = ard_queue_init 50 222, a_uart = [],
     a_spi = ard_queue_init 50 3, a_send_count = 0, a_send_size = 0, a_spdr = [0],
     a_msg_id = DEV_INVALID_MSG, a_msg_size = 0, a_msg_serial = 0,
     a_parse_matrix = ard_matrix_init DEV_MAX_BUFFER_SIZE 177,
     a_pixel_delay = 6, a_phrase_delay = 12, a_stable_delay = 12\<rparr>"

section \<open>The serial port\<close>

definition ard_usart_rx :: "u8 \<Rightarrow> ard \<Rightarrow> ard" where
  "ard_usart_rx udr0 s = s\<lparr>a_read := snd (ard_queue_fill_symbol (a_read s) udr0)\<rparr>"

text \<open>
  \<open>uart_write_kick\<close>: after the loop that waits for the transmit buffer, the byte taken is written.
\<close>

definition ard_uart_write_kick :: "ard \<Rightarrow> ard" where
  "ard_uart_write_kick s =
     (case ard_queue_drain_symbol (a_write s) of
        (None, _) \<Rightarrow> s
      | (Some symbol, q) \<Rightarrow> s\<lparr>a_write := q, a_uart := a_uart s @ [symbol]\<rparr>)"

definition ard_usart_udre :: "ard \<Rightarrow> ard" where
  "ard_usart_udre s =
     (case ard_queue_drain_symbol (a_write s) of
        (None, _) \<Rightarrow> s
      | (Some symbol, q) \<Rightarrow> s\<lparr>a_write := q, a_uart := a_uart s @ [symbol]\<rparr>)"

section \<open>\<open>codec.c\<close>\<close>

definition ard_codec_encode_1 :: "u8 \<Rightarrow> u8 \<Rightarrow> u8 \<Rightarrow> ard \<Rightarrow> ard" where
  "ard_codec_encode_1 msg_id msg_serial_id data s =
     (if ard_queue_is_fillable (a_write s) (DEV_HEADER_SIZE + 1) = 0 then s
      else let q = snd (ard_queue_fill_symbol (a_write s) DEV_EYE_CATCH);
               q = snd (ard_queue_fill_symbol q 1);
               q = snd (ard_queue_fill_symbol q msg_serial_id);
               q = snd (ard_queue_fill_symbol q msg_id);
               q = snd (ard_queue_fill_symbol q data)
           in ard_uart_write_kick (s\<lparr>a_write := q\<rparr>))"

text \<open>\<open>src\<close> is the array from the pointer on; the result is size, id and serial number.\<close>

definition ard_codec_decode_header :: "bytes \<Rightarrow> (u8 \<times> u8 \<times> u8) option" where
  "ard_codec_decode_header src =
     (if src ! 0 \<noteq> DEV_EYE_CATCH then None else Some (src ! 1, src ! 3, src ! 2))"

section \<open>\<open>spi-write.c\<close>, the commands\<close>

definition CMD_SYSTEM_STOP :: u8 where "CMD_SYSTEM_STOP = 0"
definition CMD_SYSTEM_START :: u8 where "CMD_SYSTEM_START = 1"
definition ARD_CMD_NMOS_8COM :: u8 where "ARD_CMD_NMOS_8COM = 0x20"
definition CMD_MASTER_MODE :: u8 where "CMD_MASTER_MODE = 0x18"
definition ARD_CMD_LED_ON :: u8 where "ARD_CMD_LED_ON = 3"
definition CMD_BRIGHTNESS_PREFIX :: u8 where "CMD_BRIGHTNESS_PREFIX = 0xA0"
definition CMD_PREFIX :: u8 where "CMD_PREFIX = 0x80"
definition LENGTH_COMMAND :: u8 where "LENGTH_COMMAND = 2"

definition ard_start_send :: "ard \<Rightarrow> ard" where
  "ard_start_send s =
     (if a_send_count s > 0 \<or> ard_queue_is_drainable (a_spi s) 1 = 0 then s
      else s\<lparr>a_spdr := a_spdr s @ [0]\<rparr>)"

definition ard_fill_command :: "u8 \<Rightarrow> ard \<Rightarrow> ard" where
  "ard_fill_command cmd s =
     (let q = snd (ard_queue_fill_symbol (a_spi s) LENGTH_COMMAND);
          q = snd (ard_queue_fill_symbol q (CMD_PREFIX OR drop_bit 3 cmd));
          q = snd (ard_queue_fill_symbol q (push_bit 5 cmd))
      in ard_start_send (s\<lparr>a_spi := q\<rparr>))"

definition ard_brightness_command :: "u8 \<Rightarrow> u8" where
  "ard_brightness_command brightness = CMD_BRIGHTNESS_PREFIX OR (0xF AND brightness)"

definition ard_spi_write_initialize :: "ard \<Rightarrow> ard" where
  "ard_spi_write_initialize s =
     (let s = ard_fill_command CMD_SYSTEM_STOP s;
          s = ard_fill_command ARD_CMD_NMOS_8COM s;
          s = ard_fill_command CMD_MASTER_MODE s;
          s = ard_fill_command CMD_SYSTEM_START s;
          s = ard_fill_command ARD_CMD_LED_ON s;
          s = ard_fill_command (ard_brightness_command DEV_BRIGHTNESS_MAX) s
      in ard_fill_command (ard_brightness_command DEV_BRIGHTNESS_MAX) s)"

definition ard_spi_write_uninitialize :: "ard \<Rightarrow> ard" where
  "ard_spi_write_uninitialize s = ard_fill_command CMD_SYSTEM_STOP s"

definition ard_spi_write_brightness :: "u8 \<Rightarrow> ard \<Rightarrow> ard" where
  "ard_spi_write_brightness brightness s = ard_fill_command (ard_brightness_command brightness) s"

section \<open>\<open>parse.c\<close>\<close>

definition ard_parse_body_0 :: "ard \<Rightarrow> ard" where
  "ard_parse_body_0 s =
     (if a_msg_id s = DEV_INIT
      then ard_codec_encode_1 DEV_INIT (a_msg_serial s) DEV_STATUS_OK (ard_spi_write_initialize s)
      else if a_msg_id s = DEV_UNINIT
      then ard_codec_encode_1 DEV_UNINIT (a_msg_serial s) DEV_STATUS_OK (ard_spi_write_uninitialize s)
      else if a_msg_id s = DEV_HANDSHAKE
      then ard_codec_encode_1 DEV_HANDSHAKE (a_msg_serial s) DEV_STATUS_OK s
      else ard_codec_encode_1 DEV_INVALID_MSG (a_msg_serial s) DEV_STATUS_MSG_UNKNOWN_0 s)"

definition ard_parse_body_1 :: "u8 \<Rightarrow> ard \<Rightarrow> ard" where
  "ard_parse_body_1 data s =
     (if a_msg_id s = DEV_PIXEL_DELAY
      then ard_codec_encode_1 DEV_PIXEL_DELAY (a_msg_serial s) DEV_STATUS_OK (s\<lparr>a_pixel_delay := data\<rparr>)
      else if a_msg_id s = DEV_PHRASE_DELAY
      then ard_codec_encode_1 DEV_PHRASE_DELAY (a_msg_serial s) DEV_STATUS_OK (s\<lparr>a_phrase_delay := data\<rparr>)
      else if a_msg_id s = DEV_STABLE_DELAY
      then ard_codec_encode_1 DEV_STABLE_DELAY (a_msg_serial s) DEV_STATUS_OK (s\<lparr>a_stable_delay := data\<rparr>)
      else if a_msg_id s = DEV_BRIGHTNESS
      then ard_codec_encode_1 DEV_BRIGHTNESS (a_msg_serial s) DEV_STATUS_OK
             (ard_spi_write_brightness data s)
      else ard_codec_encode_1 DEV_STATUS (a_msg_serial s) DEV_STATUS_MSG_UNKNOWN_1 s)"

text \<open>
  Where one pass of the loop of \<open>parse\<close> ends: \<open>Stop\<close>, the loop is left; \<open>Again\<close>, the next pass;
  \<open>Blocked\<close>, the loop around \<open>matrix_fill\<close> spins, since the previous matrix has not been taken yet;
  the interrupts go on, and the pass can be resumed from its beginning, since it has changed
  nothing but the three static copies of the header.
\<close>

datatype ard_pass = Stop ard | Again ard | Blocked ard | Fault

definition ard_parse_body :: "ard \<Rightarrow> ard_pass" where
  "ard_parse_body s =
     (let unknown = ard_codec_encode_1 DEV_STATUS (a_msg_serial s)
      in if a_msg_id s \<in> {DEV_INIT, DEV_UNINIT, DEV_HANDSHAKE} then Again (ard_parse_body_0 s)
      else if a_msg_id s \<in> {DEV_PIXEL_DELAY, DEV_PHRASE_DELAY, DEV_STABLE_DELAY, DEV_BRIGHTNESS} then
        (case ard_queue_get (a_read s) DEV_HEADER_SIZE of
           None \<Rightarrow> Again (unknown DEV_STATUS_BUFFER_CORRUPTED_1 s)
         | Some data \<Rightarrow> Again (ard_parse_body_1 (aq_data (a_read s) ! data) s))
      else if a_msg_id s = DEV_SUB_MATRIX then
        (if a_msg_size s \<le> 2 then Again (unknown DEV_STATUS_SUB_MATRIX_TOO_SHORT s)
         else case ard_queue_get (a_read s) DEV_HEADER_SIZE of
             None \<Rightarrow> Again (unknown DEV_STATUS_BUFFER_CORRUPTED_1 s)
           | Some matrix_type \<Rightarrow>
               (case ard_queue_get (a_read s) (DEV_HEADER_SIZE + 1) of
                  None \<Rightarrow> Again (unknown DEV_STATUS_BUFFER_CORRUPTED_2 s)
                | Some data \<Rightarrow>
                    (case ard_matrix_fill (a_parse_matrix s) (aq_data (a_read s) ! matrix_type)
                            (drop data (aq_data (a_read s))) (a_msg_size s - 1) of
                       None \<Rightarrow> Fault
                     | Some (status, m) \<Rightarrow>
                         if status = 0 then Blocked (s\<lparr>a_parse_matrix := m\<rparr>)
                         else Again (unknown DEV_STATUS_OK (s\<lparr>a_parse_matrix := m\<rparr>)))))
      else Again (unknown DEV_STATUS_MSG_UNKNOWN_H s))"

definition ard_drop_symbol :: "ard \<Rightarrow> ard" where
  "ard_drop_symbol s = s\<lparr>a_read := snd (ard_queue_drain_symbol (a_read s))\<rparr>"

definition ard_parse_pass :: "ard \<Rightarrow> ard_pass" where
  "ard_parse_pass s =
     (if ard_queue_is_drainable (a_read s) DEV_HEADER_SIZE = 0 then Stop s
      else case ard_queue_get (a_read s) 0 of
             None \<Rightarrow>
               Again (ard_drop_symbol (ard_codec_encode_1 DEV_STATUS DEV_DEVICE_SERIAL
                        DEV_STATUS_BUFFER_CORRUPTED_0 s))
           | Some data \<Rightarrow>
               (case ard_codec_decode_header (drop data (aq_data (a_read s))) of
                  None \<Rightarrow>
                    Again (ard_drop_symbol (ard_codec_encode_1 DEV_HEADER_DECODE_FAILED
                             DEV_DEVICE_SERIAL (aq_data (a_read s) ! data) s))
                | Some (msg_size, msg_id, msg_serial) \<Rightarrow>
                    let s = s\<lparr>a_msg_size := msg_size, a_msg_id := msg_id, a_msg_serial := msg_serial\<rparr>
                    in if ard_queue_is_drainable (a_read s) (DEV_HEADER_SIZE + a_msg_size s) = 0
                       then Stop s
                       else case ard_parse_body s of
                              Again s \<Rightarrow>
                                (case ard_queue_drain (a_read s) (DEV_HEADER_SIZE + a_msg_size s) of
                                   (ok, q) \<Rightarrow>
                                     if ok = 0
                                     then Again (ard_codec_encode_1 DEV_STATUS (a_msg_serial s)
                                            DEV_STATUS_DRAIN_FAILURE s)
                                     else Again (s\<lparr>a_read := q\<rparr>))
                            | other \<Rightarrow> other))"

text \<open>\<open>parse\<close>; \<open>None\<close> when it does not return.\<close>

partial_function (option) ard_parse :: "ard \<Rightarrow> ard_pass option" where
  "ard_parse s =
     (case ard_parse_pass s of
        Again s' \<Rightarrow> ard_parse s'
      | other \<Rightarrow> Some other)"

section \<open>What the queues hold\<close>

definition ard_wf :: "ard_queue \<Rightarrow> bool" where
  "ard_wf q \<longleftrightarrow> length (aq_data q) = unat (aq_max q) \<and> aq_size q \<le> aq_max q"

definition ard_held :: "ard_queue \<Rightarrow> bytes" where
  "ard_held q = take (unat (aq_size q)) (aq_data q)"

lemma ard_wf_le: "ard_wf q \<Longrightarrow> unat (aq_size q) \<le> length (aq_data q)"
  by (simp add: ard_wf_def u8_le_iff)

lemma length_ard_held [simp]: "ard_wf q \<Longrightarrow> length (ard_held q) = unat (aq_size q)"
  using ard_wf_le [of q] by (simp add: ard_held_def)

lemma ard_held_init: "ard_wf (ard_queue_init n p)" "ard_held (ard_queue_init n p) = []"
  by (simp_all add: ard_wf_def ard_held_def ard_queue_init_def u8_le_iff)

lemma ard_fill_symbol:
  assumes "ard_wf q"
  shows "ard_queue_fill_symbol q x =
      (if unat (aq_size q) < unat (aq_max q) then (1, snd (ard_queue_fill_symbol q x)) else (0, q))"
    and "ard_wf (snd (ard_queue_fill_symbol q x))"
    and "aq_max (snd (ard_queue_fill_symbol q x)) = aq_max q"
    and "unat (aq_size q) < unat (aq_max q) \<Longrightarrow>
      ard_held (snd (ard_queue_fill_symbol q x)) = ard_held q @ [x]
      \<and> unat (aq_size (snd (ard_queue_fill_symbol q x))) = Suc (unat (aq_size q))"
proof -
  have inc: "unat (aq_size q + 1) = Suc (unat (aq_size q))" if "unat (aq_size q) < unat (aq_max q)"
    using that unat_u8_inc by (simp add: u8_less_iff)
  show "ard_queue_fill_symbol q x =
      (if unat (aq_size q) < unat (aq_max q) then (1, snd (ard_queue_fill_symbol q x)) else (0, q))"
    by (simp add: ard_queue_fill_symbol_def u8_le_iff)
  show "ard_wf (snd (ard_queue_fill_symbol q x))"
    using assms inc by (auto simp: ard_queue_fill_symbol_def ard_wf_def u8_le_iff)
  show "aq_max (snd (ard_queue_fill_symbol q x)) = aq_max q"
    by (simp add: ard_queue_fill_symbol_def)
  show "unat (aq_size q) < unat (aq_max q) \<Longrightarrow>
      ard_held (snd (ard_queue_fill_symbol q x)) = ard_held q @ [x]
      \<and> unat (aq_size (snd (ard_queue_fill_symbol q x))) = Suc (unat (aq_size q))"
    using assms inc
    by (auto simp: ard_queue_fill_symbol_def ard_held_def ard_wf_def u8_le_iff take_Suc_update_at)
qed

text \<open>The loop of \<open>drain\<close> moves the array to the left in place.\<close>

lemma fold_shift:
  "k + n \<le> length xs \<Longrightarrow>
     fold (\<lambda>i data. data[i := data ! (i + n)]) [0..<k] xs = take k (drop n xs) @ drop k xs"
proof (induction k)
  case 0
  then show ?case by simp
next
  case (Suc k)
  let ?ys = "take k (drop n xs) @ drop k xs"
  have "?ys ! (k + n) = xs ! (k + n)" using Suc.prems by (simp add: nth_append)
  moreover have "take (Suc k) (drop n xs) = take k (drop n xs) @ [xs ! (k + n)]"
    using Suc.prems by (simp add: take_Suc_conv_app_nth add.commute)
  moreover have "drop k xs = xs ! k # drop (Suc k) xs"
    using Suc.prems by (simp add: Cons_nth_drop_Suc)
  ultimately show ?case using Suc by (simp add: list_update_append)
qed

lemma ard_drain:
  assumes "ard_wf q"
  shows "fst (ard_queue_drain q n) = of_flag (n \<le> aq_size q)"
    and "ard_wf (snd (ard_queue_drain q n))"
    and "aq_max (snd (ard_queue_drain q n)) = aq_max q"
    and "n \<le> aq_size q \<Longrightarrow> ard_held (snd (ard_queue_drain q n)) = drop (unat n) (ard_held q)
      \<and> unat (aq_size (snd (ard_queue_drain q n))) = unat (aq_size q) - unat n"
proof -
  have delta: "unat (aq_size q - n) = unat (aq_size q) - unat n" if "n \<le> aq_size q"
    using that by (rule unat_u8_minus)
  then have shift: "fold (\<lambda>i data. data[i := data ! (i + unat n)]) [0..<unat (aq_size q - n)]
      (aq_data q) = take (unat (aq_size q - n)) (drop (unat n) (aq_data q))
        @ drop (unat (aq_size q - n)) (aq_data q)" if "n \<le> aq_size q"
    using that ard_wf_le [OF assms] by (intro fold_shift) (simp add: u8_le_iff)
  show "fst (ard_queue_drain q n) = of_flag (n \<le> aq_size q)"
    by (auto simp: ard_queue_drain_def Let_def)
  show "ard_wf (snd (ard_queue_drain q n))"
    using assms shift delta ard_wf_le [OF assms]
    by (cases "n \<le> aq_size q") (auto simp: ard_queue_drain_def Let_def ard_wf_def u8_le_iff u8_less_iff)
  show "aq_max (snd (ard_queue_drain q n)) = aq_max q"
    by (simp add: ard_queue_drain_def Let_def)
  show "n \<le> aq_size q \<Longrightarrow> ard_held (snd (ard_queue_drain q n)) = drop (unat n) (ard_held q)
      \<and> unat (aq_size (snd (ard_queue_drain q n))) = unat (aq_size q) - unat n"
    using shift delta ard_wf_le [OF assms]
    by (auto simp: ard_queue_drain_def Let_def ard_held_def drop_take u8_le_iff u8_less_iff)
qed

lemma ard_drain_symbol:
  assumes "ard_wf q"
  shows "ard_held q = [] \<Longrightarrow> ard_queue_drain_symbol q = (None, q)"
    and "ard_held q = x # xs \<Longrightarrow>
      fst (ard_queue_drain_symbol q) = Some x
      \<and> ard_held (snd (ard_queue_drain_symbol q)) = xs"
    and "ard_wf (snd (ard_queue_drain_symbol q))"
    and "aq_max (snd (ard_queue_drain_symbol q)) = aq_max q"
proof -
  have zero: "aq_size q = 0 \<longleftrightarrow> ard_held q = []"
    using length_ard_held [OF assms] by (metis length_0_conv unat_eq_zero)
  show "ard_held q = [] \<Longrightarrow> ard_queue_drain_symbol q = (None, q)"
    using zero by (simp add: ard_queue_drain_symbol_def)
  show "ard_held q = x # xs \<Longrightarrow> fst (ard_queue_drain_symbol q) = Some x
      \<and> ard_held (snd (ard_queue_drain_symbol q)) = xs"
  proof -
    assume held: "ard_held q = x # xs"
    then have "unat (aq_size q) = Suc (length xs)" using length_ard_held [OF assms] by simp
    then have "1 \<le> aq_size q" "aq_size q \<noteq> 0" by (auto simp: u8_le_iff)
    moreover have "aq_data q ! 0 = x"
      using held \<open>unat (aq_size q) = _\<close> by (metis ard_held_def nth_Cons_0 nth_take zero_less_Suc)
    ultimately show ?thesis
      using held ard_drain(4) [OF assms, of 1] by (simp add: ard_queue_drain_symbol_def)
  qed
  show "ard_wf (snd (ard_queue_drain_symbol q))" "aq_max (snd (ard_queue_drain_symbol q)) = aq_max q"
    using assms by (simp_all add: ard_queue_drain_symbol_def ard_drain)
qed

section \<open>The serial line: what is sent\<close>

definition ard_ok :: "ard \<Rightarrow> bool" where
  "ard_ok s \<longleftrightarrow> ard_wf (a_read s) \<and> aq_max (a_read s) = 0xFF
     \<and> ard_wf (a_write s) \<and> aq_max (a_write s) = 50
     \<and> ard_wf (a_spi s) \<and> aq_max (a_spi s) = 50
     \<and> ard_wf (am_queue (a_parse_matrix s)) \<and> aq_max (am_queue (a_parse_matrix s)) = 0xFF"

lemma ard_ok_init: "ard_ok ard_init"
  by (simp add: ard_ok_def ard_init_def ard_held_init ard_matrix_init_def DEV_MAX_BUFFER_SIZE_def)
    (simp add: ard_queue_init_def)

text \<open>Everything the controller has put on the line or is about to.\<close>

definition ard_sent :: "ard \<Rightarrow> bytes" where
  "ard_sent s = a_uart s @ ard_held (a_write s)"

lemma ard_same_write: "\<exists>q out. (s :: ard) = s\<lparr>a_write := q, a_uart := out\<rparr>"
  by (rule exI [of _ "a_write s"], rule exI [of _ "a_uart s"]) simp

lemma ard_kick:
  assumes "ard_wf (a_write s)"
  shows "ard_sent (ard_uart_write_kick s) = ard_sent s"
    and "ard_wf (a_write (ard_uart_write_kick s))"
    and "aq_max (a_write (ard_uart_write_kick s)) = aq_max (a_write s)"
    and "\<exists>q out. ard_uart_write_kick s = s\<lparr>a_write := q, a_uart := out\<rparr>"
proof -
  have "ard_sent (ard_uart_write_kick s) = ard_sent s
      \<and> ard_wf (a_write (ard_uart_write_kick s))
      \<and> aq_max (a_write (ard_uart_write_kick s)) = aq_max (a_write s)
      \<and> (\<exists>q out. ard_uart_write_kick s = s\<lparr>a_write := q, a_uart := out\<rparr>)"
  proof (cases "ard_held (a_write s)")
    case Nil
    with ard_drain_symbol(1) [OF assms] assms show ?thesis
      by (simp add: ard_uart_write_kick_def ard_same_write)
  next
    case (Cons x xs)
    obtain q where q: "ard_queue_drain_symbol (a_write s) = (Some x, q)" "ard_held q = xs"
      using ard_drain_symbol(2) [OF assms Cons] by (metis prod.collapse)
    with ard_drain_symbol(3,4) [OF assms] have "ard_wf q" "aq_max q = aq_max (a_write s)"
      by (metis snd_conv)+
    with q Cons show ?thesis by (auto simp: ard_uart_write_kick_def ard_sent_def)
  qed
  then show "ard_sent (ard_uart_write_kick s) = ard_sent s"
    "ard_wf (a_write (ard_uart_write_kick s))"
    "aq_max (a_write (ard_uart_write_kick s)) = aq_max (a_write s)"
    "\<exists>q out. ard_uart_write_kick s = s\<lparr>a_write := q, a_uart := out\<rparr>" by blast+
qed

definition ard_room :: "ard \<Rightarrow> bool" where
  "ard_room s \<longleftrightarrow> unat (aq_size (a_write s)) + 5 \<le> 50"

definition dev_reply :: "u8 \<Rightarrow> u8 \<Rightarrow> u8 \<Rightarrow> bytes" where
  "dev_reply msg_id serial data = [DEV_EYE_CATCH, 1, serial, msg_id, data]"

text \<open>A reply is queued whole or not at all, and nothing but the line changes.\<close>

lemma ard_encode_1:
  assumes "ard_ok s"
  shows "ard_sent (ard_codec_encode_1 i n d s)
      = ard_sent s @ (if ard_room s then dev_reply i n d else [])"
    and "ard_ok (ard_codec_encode_1 i n d s)"
    and "\<exists>q out. ard_codec_encode_1 i n d s = s\<lparr>a_write := q, a_uart := out\<rparr>"
proof -
  have wf: "ard_wf (a_write s)" "aq_max (a_write s) = 50" using assms by (simp_all add: ard_ok_def)
  have room: "ard_queue_is_fillable (a_write s) (DEV_HEADER_SIZE + 1) = of_flag (ard_room s)"
    by (simp add: ard_queue_is_fillable_def ard_room_def DEV_HEADER_SIZE_def wf(2))
  have "ard_sent (ard_codec_encode_1 i n d s)
        = ard_sent s @ (if ard_room s then dev_reply i n d else [])
      \<and> ard_ok (ard_codec_encode_1 i n d s)
      \<and> (\<exists>q out. ard_codec_encode_1 i n d s = s\<lparr>a_write := q, a_uart := out\<rparr>)"
  proof (cases "ard_room s")
    case False
    then have "ard_codec_encode_1 i n d s = s" by (simp add: ard_codec_encode_1_def room)
    with False assms show ?thesis by (simp add: ard_same_write)
  next
    case True
    define q1 where "q1 = snd (ard_queue_fill_symbol (a_write s) DEV_EYE_CATCH)"
    define q2 where "q2 = snd (ard_queue_fill_symbol q1 1)"
    define q3 where "q3 = snd (ard_queue_fill_symbol q2 n)"
    define q4 where "q4 = snd (ard_queue_fill_symbol q3 i)"
    define q5 where "q5 = snd (ard_queue_fill_symbol q4 d)"
    have enc: "ard_codec_encode_1 i n d s = ard_uart_write_kick (s\<lparr>a_write := q5\<rparr>)"
      using True by (simp add: ard_codec_encode_1_def room Let_def q1_def q2_def q3_def q4_def q5_def)
    have q1: "ard_wf q1" "aq_max q1 = 50" "ard_held q1 = ard_held (a_write s) @ [DEV_EYE_CATCH]"
      "unat (aq_size q1) = unat (aq_size (a_write s)) + 1"
      using True wf ard_fill_symbol [OF wf(1)] unfolding q1_def ard_room_def by simp_all
    have q2: "ard_wf q2" "aq_max q2 = 50" "ard_held q2 = ard_held q1 @ [1]"
      "unat (aq_size q2) = unat (aq_size (a_write s)) + 2"
      using True q1 ard_fill_symbol [OF q1(1)] unfolding q2_def ard_room_def by simp_all
    have q3: "ard_wf q3" "aq_max q3 = 50" "ard_held q3 = ard_held q2 @ [n]"
      "unat (aq_size q3) = unat (aq_size (a_write s)) + 3"
      using True q2 ard_fill_symbol [OF q2(1)] unfolding q3_def ard_room_def by simp_all
    have q4: "ard_wf q4" "aq_max q4 = 50" "ard_held q4 = ard_held q3 @ [i]"
      "unat (aq_size q4) = unat (aq_size (a_write s)) + 4"
      using True q3 ard_fill_symbol [OF q3(1)] unfolding q4_def ard_room_def by simp_all
    have q5: "ard_wf q5" "aq_max q5 = 50" "ard_held q5 = ard_held q4 @ [d]"
      using True q4 ard_fill_symbol [OF q4(1)] unfolding q5_def ard_room_def by simp_all
    have "ard_sent (s\<lparr>a_write := q5\<rparr>) = ard_sent s @ dev_reply i n d"
      by (simp add: ard_sent_def q1 q2 q3 q4 q5 dev_reply_def)
    with True assms ard_kick [of "s\<lparr>a_write := q5\<rparr>"] q5(1,2) show ?thesis
      unfolding enc by (auto simp: ard_ok_def)
  qed
  then show "ard_sent (ard_codec_encode_1 i n d s)
        = ard_sent s @ (if ard_room s then dev_reply i n d else [])"
    "ard_ok (ard_codec_encode_1 i n d s)"
    "\<exists>q out. ard_codec_encode_1 i n d s = s\<lparr>a_write := q, a_uart := out\<rparr>" by blast+
qed

lemma ard_encode_1_simps [simp]:
  assumes "ard_ok s"
  shows "a_read (ard_codec_encode_1 i n d s) = a_read s"
    "a_msg_size (ard_codec_encode_1 i n d s) = a_msg_size s"
    "a_parse_matrix (ard_codec_encode_1 i n d s) = a_parse_matrix s"
    "a_pixel_delay (ard_codec_encode_1 i n d s) = a_pixel_delay s"
    "a_phrase_delay (ard_codec_encode_1 i n d s) = a_phrase_delay s"
    "a_stable_delay (ard_codec_encode_1 i n d s) = a_stable_delay s"
    "a_spi (ard_codec_encode_1 i n d s) = a_spi s"
    "a_msg_serial (ard_codec_encode_1 i n d s) = a_msg_serial s"
  using ard_encode_1(3) [OF assms, of i n d] by auto

section \<open>A pass of the loop\<close>

text \<open>What every reaction to a message leaves alone.\<close>

definition ard_keeps :: "ard \<Rightarrow> ard \<Rightarrow> bool" where
  "ard_keeps s s' \<longleftrightarrow> ard_ok s' \<and> a_read s' = a_read s \<and> a_msg_size s' = a_msg_size s"

lemma ard_keeps_encode_1: "ard_keeps s0 s \<Longrightarrow> ard_keeps s0 (ard_codec_encode_1 i n d s)"
  using ard_encode_1(2) by (simp add: ard_keeps_def)

lemma ard_fill_command:
  assumes "ard_ok s"
  shows "ard_ok (ard_fill_command cmd s)"
    and "\<exists>q out. ard_fill_command cmd s = s\<lparr>a_spi := q, a_spdr := out\<rparr>"
proof -
  define q1 where "q1 = snd (ard_queue_fill_symbol (a_spi s) LENGTH_COMMAND)"
  define q2 where "q2 = snd (ard_queue_fill_symbol q1 (CMD_PREFIX OR drop_bit 3 cmd))"
  define q3 where "q3 = snd (ard_queue_fill_symbol q2 (push_bit 5 cmd))"
  have q1: "ard_wf q1" "aq_max q1 = 50"
    using assms ard_fill_symbol(2,3) by (simp_all add: q1_def ard_ok_def)
  have q2: "ard_wf q2" "aq_max q2 = 50"
    using q1 ard_fill_symbol(2,3) by (simp_all add: q2_def)
  have q3: "ard_wf q3" "aq_max q3 = 50"
    using q2 ard_fill_symbol(2,3) by (simp_all add: q3_def)
  have run: "ard_fill_command cmd s = ard_start_send (s\<lparr>a_spi := q3\<rparr>)"
    by (simp add: ard_fill_command_def Let_def q1_def q2_def q3_def)
  show "ard_ok (ard_fill_command cmd s)"
    unfolding run using assms q3 by (simp add: ard_ok_def ard_start_send_def)
  show "\<exists>q out. ard_fill_command cmd s = s\<lparr>a_spi := q, a_spdr := out\<rparr>"
    unfolding run ard_start_send_def
    by (cases "0 < a_send_count (s\<lparr>a_spi := q3\<rparr>)
        \<or> ard_queue_is_drainable (a_spi (s\<lparr>a_spi := q3\<rparr>)) 1 = 0", rule exI [of _ q3],
        rule exI [of _ "a_spdr s"], simp, rule exI [of _ q3], rule exI [of _ "a_spdr s @ [0]"], simp)
qed

lemma ard_keeps_command: "ard_keeps s0 s \<Longrightarrow> ard_keeps s0 (ard_fill_command cmd s)"
  using ard_fill_command [of s cmd] by (auto simp: ard_keeps_def)

lemma ard_keeps_body_0: "ard_keeps s0 s \<Longrightarrow> ard_keeps s0 (ard_parse_body_0 s)"
  by (simp add: ard_parse_body_0_def ard_spi_write_initialize_def ard_spi_write_uninitialize_def
      Let_def ard_keeps_encode_1 ard_keeps_command)

lemma ard_keeps_delays:
  "ard_keeps s0 s \<Longrightarrow> ard_keeps s0 (s\<lparr>a_pixel_delay := d\<rparr>)"
  "ard_keeps s0 s \<Longrightarrow> ard_keeps s0 (s\<lparr>a_phrase_delay := d\<rparr>)"
  "ard_keeps s0 s \<Longrightarrow> ard_keeps s0 (s\<lparr>a_stable_delay := d\<rparr>)"
  by (auto simp: ard_keeps_def ard_ok_def)

lemma ard_keeps_body_1: "ard_keeps s0 s \<Longrightarrow> ard_keeps s0 (ard_parse_body_1 d s)"
  by (simp add: ard_parse_body_1_def ard_spi_write_brightness_def ard_keeps_encode_1
      ard_keeps_command ard_keeps_delays)

lemma length_fold_copy: "length (fold (\<lambda>i data. data[i := f i]) is xs) = length xs"
  by (induction "is" arbitrary: xs) auto

lemma fold_copy:
  "k \<le> length src \<Longrightarrow> k \<le> length xs \<Longrightarrow>
     fold (\<lambda>i data. data[i := src ! i]) [0..<k] xs = take k src @ drop k xs"
proof (induction k)
  case 0
  then show ?case by simp
next
  case (Suc k)
  then have "drop k xs = xs ! k # drop (Suc k) xs" by (simp add: Cons_nth_drop_Suc)
  with Suc show ?case by (simp add: list_update_append take_Suc_conv_app_nth)
qed

lemma ard_matrix_fill_ok:
  assumes "ard_wf (am_queue m)" "ard_matrix_fill m t src n = Some (status, m')"
  shows "ard_wf (am_queue m') \<and> aq_max (am_queue m') = aq_max (am_queue m)
    \<and> (status = 0 \<longrightarrow> ard_held (am_queue m') = ard_held (am_queue m))
    \<and> (status \<noteq> 0 \<longrightarrow> status = 1 \<and> ard_held (am_queue m) = [] \<and> am_type m' = t
         \<and> ard_held (am_queue m') = take (unat n) src)"
proof (cases "ard_matrix_size m = 0 \<and> \<not> aq_max (am_queue m) < n")
  case False
  with assms show ?thesis
    by (auto simp: ard_matrix_fill_def ard_queue_refill_def split: if_splits)
next
  case True
  then have n: "unat n \<le> length src" "unat n \<le> length (aq_data (am_queue m))"
    using assms by (auto simp: ard_matrix_fill_def ard_queue_refill_def ard_wf_def u8_less_iff
        split: if_splits)
  with assms True have "m' = m\<lparr>am_type := t, am_queue := (am_queue m)
      \<lparr>aq_data := take (unat n) src @ drop (unat n) (aq_data (am_queue m)), aq_size := n\<rparr>\<rparr>"
    "status = 1"
    by (auto simp: ard_matrix_fill_def ard_queue_refill_def fold_copy)
  with True n assms(1) show ?thesis
    by (auto simp: ard_wf_def ard_held_def ard_matrix_size_def u8_le_iff u8_less_iff)
qed

lemma ard_keeps_body:
  assumes "ard_ok s" "ard_parse_body s = Again s'"
  shows "ard_keeps s s'"
proof -
  have self: "ard_keeps s s" using assms(1) by (simp add: ard_keeps_def)
  have matrix: "ard_keeps s (s\<lparr>a_parse_matrix := m\<rparr>)"
    if "ard_matrix_fill (a_parse_matrix s) t src n = Some (status, m)" for t src n status m
    using ard_matrix_fill_ok [OF _ that] assms(1) by (simp add: ard_keeps_def ard_ok_def)
  from assms(2) self matrix show ?thesis
    by (auto simp: ard_parse_body_def Let_def ard_keeps_body_0 ard_keeps_body_1 ard_keeps_encode_1
        split: if_splits option.splits prod.splits)
qed

lemma ard_header_bytes:
  assumes "ard_wf q" "4 \<le> aq_size q"
  shows "aq_data q ! 0 = ard_held q ! 0" "aq_data q ! 1 = ard_held q ! 1"
    "aq_data q ! 2 = ard_held q ! 2" "aq_data q ! 3 = ard_held q ! 3" "4 \<le> length (ard_held q)"
  using assms length_ard_held [OF assms(1)] by (simp_all add: ard_held_def u8_le_iff)

lemma ard_drop_symbol:
  assumes "ard_ok s" "0 < aq_size (a_read s)"
  shows "ard_ok (ard_drop_symbol s)" "ard_held (a_read (ard_drop_symbol s)) = tl (ard_held (a_read s))"
proof -
  have wf: "ard_wf (a_read s)" using assms(1) by (simp add: ard_ok_def)
  obtain x xs where held: "ard_held (a_read s) = x # xs"
    using length_ard_held [OF wf] assms(2)
    by (cases "ard_held (a_read s)") (auto simp: u8_less_iff)
  show "ard_ok (ard_drop_symbol s)"
    using assms(1) ard_drain_symbol(3,4) [OF wf] by (simp add: ard_ok_def ard_drop_symbol_def)
  show "ard_held (a_read (ard_drop_symbol s)) = tl (ard_held (a_read s))"
    using ard_drain_symbol(2) [OF wf held] held by (simp add: ard_drop_symbol_def)
qed

text \<open>The state in which the body of a message is handled: the header has been copied.\<close>

definition ard_copied :: "ard \<Rightarrow> ard" where
  "ard_copied s = s\<lparr>a_msg_size := ard_held (a_read s) ! 1, a_msg_id := ard_held (a_read s) ! 3,
     a_msg_serial := ard_held (a_read s) ! 2\<rparr>"

lemma ard_copied_ok: "ard_ok s \<Longrightarrow> ard_ok (ard_copied s)"
  by (simp add: ard_ok_def ard_copied_def)

lemma ard_copied_read [simp]: "a_read (ard_copied s) = a_read s"
  by (simp add: ard_copied_def)

lemma ard_pass_cases:
  assumes "ard_ok s" "4 \<le> aq_size (a_read s)"
  shows "ard_parse_pass s =
    (if ard_held (a_read s) ! 0 \<noteq> DEV_EYE_CATCH
     then Again (ard_drop_symbol (ard_codec_encode_1 DEV_HEADER_DECODE_FAILED DEV_DEVICE_SERIAL
            (ard_held (a_read s) ! 0) s))
     else if aq_size (a_read s) < 4 + ard_held (a_read s) ! 1 then Stop (ard_copied s)
     else case ard_parse_body (ard_copied s) of
            Again s' \<Rightarrow>
              (case ard_queue_drain (a_read s') (4 + a_msg_size s') of
                 (ok, q) \<Rightarrow> if ok = 0
                   then Again (ard_codec_encode_1 DEV_STATUS (a_msg_serial s') DEV_STATUS_DRAIN_FAILURE s')
                   else Again (s'\<lparr>a_read := q\<rparr>))
          | other \<Rightarrow> other)"
proof -
  have wf: "ard_wf (a_read s)" using assms(1) by (simp add: ard_ok_def)
  note header = ard_header_bytes [OF wf assms(2)]
  have pos: "0 < aq_size (a_read s)" using assms(2) by (simp add: u8_le_iff u8_less_iff)
  then have at: "ard_queue_get (a_read s) 0 = Some 0" by (simp add: ard_queue_get_def)
  have four: "ard_queue_is_drainable (a_read s) DEV_HEADER_SIZE = 1"
    using assms(2) by (simp add: ard_queue_is_drainable_def DEV_HEADER_SIZE_def)
  have dec: "ard_codec_decode_header (drop 0 (aq_data (a_read s))) =
      (if ard_held (a_read s) ! 0 \<noteq> DEV_EYE_CATCH then None
       else Some (ard_held (a_read s) ! 1, ard_held (a_read s) ! 3, ard_held (a_read s) ! 2))"
    using header by (simp add: ard_codec_decode_header_def)
  have avail: "ard_queue_is_drainable (a_read s) (4 + n) = 0 \<longleftrightarrow> aq_size (a_read s) < 4 + n" for n
    by (simp add: ard_queue_is_drainable_def not_le)
  show ?thesis
    unfolding ard_parse_pass_def four at option.case dec unfolding DEV_HEADER_SIZE_def
    using header(1) by (simp add: Let_def avail ard_copied_def)
qed

lemma ard_pass_stops:
  assumes "ard_ok s" "\<not> 4 \<le> aq_size (a_read s)"
  shows "ard_parse_pass s = Stop s"
  using assms by (simp add: ard_parse_pass_def ard_queue_is_drainable_def DEV_HEADER_SIZE_def)

lemma u8_wraps_at_252: "4 + (x :: u8) = 0 \<longleftrightarrow> x = 252"
proof
  assume "4 + x = 0"
  then have "x = - 4" by (simp add: eq_neg_iff_add_eq_0 add.commute)
  then show "x = 252" by simp
qed simp

text \<open>Every pass that is repeated takes at least one byte off the queue, but for a size of 252.\<close>

lemma ard_pass_progress:
  assumes "ard_ok s" "ard_parse_pass s = Again s'" "252 \<notin> set (ard_held (a_read s))"
  shows "ard_ok s'" "length (ard_held (a_read s')) < length (ard_held (a_read s))"
    "set (ard_held (a_read s')) \<subseteq> set (ard_held (a_read s))"
proof -
  have four: "4 \<le> aq_size (a_read s)" using assms ard_pass_stops by (cases "4 \<le> aq_size (a_read s)") auto
  have wf: "ard_wf (a_read s)" using assms(1) by (simp add: ard_ok_def)
  note header = ard_header_bytes [OF wf four]
  have "ard_ok s' \<and> length (ard_held (a_read s')) < length (ard_held (a_read s))
      \<and> set (ard_held (a_read s')) \<subseteq> set (ard_held (a_read s))"
  proof (cases "ard_held (a_read s) ! 0 = DEV_EYE_CATCH")
    case False
    let ?e = "ard_codec_encode_1 DEV_HEADER_DECODE_FAILED DEV_DEVICE_SERIAL (ard_held (a_read s) ! 0) s"
    from False assms(2) have "s' = ard_drop_symbol ?e"
      unfolding ard_pass_cases [OF assms(1) four] by simp
    moreover have "ard_ok ?e" "0 < aq_size (a_read ?e)"
      using assms(1) ard_encode_1(2) four by (simp_all add: u8_le_iff u8_less_iff)
    ultimately show ?thesis
      using ard_drop_symbol header(5) assms(1) list.set_sel(2) by (cases "ard_held (a_read s)") auto
  next
    case True
    let ?n = "4 + ard_held (a_read s) ! 1"
    from True assms(2) have avail: "\<not> aq_size (a_read s) < ?n"
      unfolding ard_pass_cases [OF assms(1) four] by auto
    with True assms(2) obtain s1 where body: "ard_parse_body (ard_copied s) = Again s1"
      unfolding ard_pass_cases [OF assms(1) four] by (auto split: ard_pass.splits)
    have keeps: "ard_ok s1" "a_read s1 = a_read s" "a_msg_size s1 = ard_held (a_read s) ! 1"
      using ard_keeps_body [OF ard_copied_ok [OF assms(1)] body] by (simp_all add: ard_keeps_def ard_copied_def)
    have drained: "?n \<le> aq_size (a_read s)" using avail by (simp add: not_less)
    with True assms(2) avail body have s': "s' = s1\<lparr>a_read := snd (ard_queue_drain (a_read s) ?n)\<rparr>"
      unfolding ard_pass_cases [OF assms(1) four] using ard_drain(1) [OF wf, of ?n]
      by (simp add: keeps split: prod.splits)
    have "ard_held (a_read s) ! 1 \<noteq> 252" using assms(3) header(5) nth_mem [of 1 "ard_held (a_read s)"]
      by (metis less_le_trans numeral_One numeral_less_iff semiring_norm(76))
    then have "?n \<noteq> 0" using u8_wraps_at_252 by blast
    then have pos: "0 < unat ?n" by (simp add: unat_gt_0)
    note d = ard_drain [OF wf, of ?n]
    have "ard_held (a_read s') = drop (unat ?n) (ard_held (a_read s))"
      using d(4) drained by (simp add: s')
    moreover have "ard_ok s'" using keeps(1) d(2,3) by (simp add: s' ard_ok_def keeps(2))
    ultimately show ?thesis using pos header(5) by (auto dest: in_set_dropD)
  qed
  then show "ard_ok s'" "length (ard_held (a_read s')) < length (ard_held (a_read s))"
    "set (ard_held (a_read s')) \<subseteq> set (ard_held (a_read s))" by blast+
qed

lemma ard_parse_returns:
  assumes "ard_ok s" "252 \<notin> set (ard_held (a_read s))"
  shows "\<exists>out. ard_parse s = Some out"
  using assms
proof (induction "length (ard_held (a_read s))" arbitrary: s rule: less_induct)
  case less
  show ?case
  proof (cases "ard_parse_pass s")
    case (Again s')
    note progress = ard_pass_progress [OF less.prems(1) Again less.prems(2)]
    have "\<exists>out. ard_parse s' = Some out"
      by (rule less.hyps) (use progress less.prems(2) in auto)
    with Again show ?thesis by (subst ard_parse.simps) simp
  qed (subst ard_parse.simps; simp)+
qed

text \<open>Zero bytes drained leave the queue as it is.\<close>

lemma ard_drain_none: "ard_wf q \<Longrightarrow> ard_queue_drain q 0 = (1, q)"
  using fold_shift [of "unat (aq_size q)" 0 "aq_data q"] ard_wf_le [of q]
  by (simp add: ard_queue_drain_def Let_def)

text \<open>A header with the size 252 in front.\<close>

definition ard_stuck :: "ard \<Rightarrow> bool" where
  "ard_stuck s \<longleftrightarrow> ard_ok s \<and> 4 \<le> aq_size (a_read s) \<and> ard_held (a_read s) ! 0 = DEV_EYE_CATCH
     \<and> ard_held (a_read s) ! 1 = 252 \<and> ard_held (a_read s) ! 3 \<noteq> DEV_SUB_MATRIX"

lemma u8_256: "(256 :: u8) = 0"
  by (simp add: word_unat_eq_iff)

lemma ard_stuck_pass:
  assumes "ard_stuck s"
  shows "\<exists>s'. ard_parse_pass s = Again s' \<and> ard_stuck s'"
proof -
  from assms have ok: "ard_ok s" "4 \<le> aq_size (a_read s)"
    and head: "ard_held (a_read s) ! 0 = DEV_EYE_CATCH" "ard_held (a_read s) ! 1 = 252"
    and id: "a_msg_id (ard_copied s) \<noteq> DEV_SUB_MATRIX"
    by (simp_all add: ard_stuck_def ard_copied_def)
  have wf: "ard_wf (a_read s)" using ok(1) by (simp add: ard_ok_def)
  have "\<exists>s1. ard_parse_body (ard_copied s) = Again s1"
    using id by (auto simp: ard_parse_body_def Let_def split: option.splits)
  then obtain s1 where body: "ard_parse_body (ard_copied s) = Again s1" by blast
  have keeps: "ard_ok s1" "a_read s1 = a_read s" "a_msg_size s1 = 252"
    using ard_keeps_body [OF ard_copied_ok [OF ok(1)] body] head
    by (simp_all add: ard_keeps_def ard_copied_def)
  have "ard_parse_pass s = Again (s1\<lparr>a_read := a_read s\<rparr>)"
    unfolding ard_pass_cases [OF ok] using head body keeps ard_drain_none [OF wf]
    by (simp add: u8_256)
  moreover have "ard_stuck (s1\<lparr>a_read := a_read s\<rparr>)"
    using assms keeps by (simp add: ard_stuck_def ard_ok_def)
  ultimately show ?thesis by blast
qed



section \<open>One message\<close>

text \<open>\<open>dev_message\<close> is a message of the server: the size counts the body alone.\<close>

definition dev_message :: "u8 \<Rightarrow> u8 \<Rightarrow> bytes \<Rightarrow> bytes" where
  "dev_message serial msg_id body = [DEV_EYE_CATCH, of_nat (length body), serial, msg_id] @ body"

text \<open>The reaction to a message whose body is there, as \<open>parse_body\<close> has it.\<close>

lemma ard_parse_one:
  assumes "ard_ok s" "ard_held (a_read s) = dev_message serial msg_id body" "length body \<le> 216"
    and "ard_parse_body (ard_copied s) = Again s1"
  shows "\<exists>q. ard_parse s = Some (Stop (s1\<lparr>a_read := q\<rparr>)) \<and> ard_held q = [] \<and> ard_ok (s1\<lparr>a_read := q\<rparr>)"
proof -
  let ?n = "4 + ard_held (a_read s) ! 1"
  have wf: "ard_wf (a_read s)" using assms(1) by (simp add: ard_ok_def)
  have len: "unat (aq_size (a_read s)) = 4 + length body"
    using length_ard_held [OF wf] assms(2) by (simp add: dev_message_def)
  then have four: "4 \<le> aq_size (a_read s)" by (simp add: u8_le_iff)
  have n: "unat ?n = 4 + length body"
    using assms(2,3) by (simp add: dev_message_def unat_word_ariths unat_of_nat)
  then have all: "?n = aq_size (a_read s)" using len by (simp add: u8_eq_iff)
  have head: "ard_held (a_read s) ! 0 = DEV_EYE_CATCH" using assms(2) by (simp add: dev_message_def)
  have keeps: "ard_ok s1" "a_read s1 = a_read s" "a_msg_size s1 = ard_held (a_read s) ! 1"
    using ard_keeps_body [OF ard_copied_ok [OF assms(1)] assms(4)]
    by (simp_all add: ard_keeps_def ard_copied_def)
  obtain q where drained: "ard_queue_drain (a_read s) ?n = (1, q)"
    using ard_drain(1) [OF wf, of ?n] all by (metis of_flag_simps(1) order_refl prod.collapse)
  note d = ard_drain [OF wf, of ?n, unfolded drained snd_conv]
  then have pass: "ard_parse_pass s = Again (s1\<lparr>a_read := q\<rparr>)"
    unfolding ard_pass_cases [OF assms(1) four] using head all assms(4) keeps drained by simp
  have "ard_held q = []" using d(4) all n assms(2) by (simp add: dev_message_def)
  moreover have ok: "ard_ok (s1\<lparr>a_read := q\<rparr>)"
    using keeps(1) d(2,3) by (simp add: ard_ok_def keeps(2))
  moreover have "\<not> 4 \<le> aq_size q"
    using length_ard_held [OF d(2)] \<open>ard_held q = []\<close> by (simp add: u8_le_iff)
  then have "ard_parse_pass (s1\<lparr>a_read := q\<rparr>) = Stop (s1\<lparr>a_read := q\<rparr>)"
    using ard_pass_stops [OF ok] by simp
  then have "ard_parse s = Some (Stop (s1\<lparr>a_read := q\<rparr>))"
    by (subst ard_parse.simps, simp only: pass ard_pass.case)
      (subst ard_parse.simps, simp)
  ultimately show ?thesis by blast
qed

text \<open>The answer that the protocol promises: the id of the reply and its status.\<close>

definition dev_answer :: "u8 \<Rightarrow> bytes \<Rightarrow> u8 \<times> u8" where
  "dev_answer msg_id body =
     (if msg_id \<in> {DEV_INIT, DEV_UNINIT, DEV_HANDSHAKE} then (msg_id, DEV_STATUS_OK)
      else if msg_id \<in> {DEV_PIXEL_DELAY, DEV_PHRASE_DELAY, DEV_STABLE_DELAY, DEV_BRIGHTNESS}
      then if body = [] then (DEV_STATUS, DEV_STATUS_BUFFER_CORRUPTED_1) else (msg_id, DEV_STATUS_OK)
      else if msg_id = DEV_SUB_MATRIX
      then (DEV_STATUS, if length body \<le> 2 then DEV_STATUS_SUB_MATRIX_TOO_SHORT else DEV_STATUS_OK)
      else (DEV_STATUS, DEV_STATUS_MSG_UNKNOWN_H))"

text \<open>Commands to the display and new delays do not touch the line or the waiting matrix.\<close>

definition ard_line_same :: "ard \<Rightarrow> ard \<Rightarrow> bool" where
  "ard_line_same s s' \<longleftrightarrow> ard_ok s' \<and> a_write s' = a_write s \<and> a_uart s' = a_uart s
     \<and> a_msg_serial s' = a_msg_serial s \<and> a_parse_matrix s' = a_parse_matrix s"

lemma ard_line_same_command: "ard_line_same s0 s \<Longrightarrow> ard_line_same s0 (ard_fill_command cmd s)"
  using ard_fill_command [of s cmd] by (auto simp: ard_line_same_def)

lemma ard_line_same_delays:
  "ard_line_same s0 s \<Longrightarrow> ard_line_same s0 (s\<lparr>a_pixel_delay := d\<rparr>)"
  "ard_line_same s0 s \<Longrightarrow> ard_line_same s0 (s\<lparr>a_phrase_delay := d\<rparr>)"
  "ard_line_same s0 s \<Longrightarrow> ard_line_same s0 (s\<lparr>a_stable_delay := d\<rparr>)"
  by (auto simp: ard_line_same_def ard_ok_def)

lemma ard_encode_after:
  assumes "ard_line_same s0 s" "ard_room s0"
  shows "ard_sent (ard_codec_encode_1 i (a_msg_serial s0) d s)
      = ard_sent s0 @ dev_reply i (a_msg_serial s0) d
    \<and> a_parse_matrix (ard_codec_encode_1 i (a_msg_serial s0) d s) = a_parse_matrix s0"
proof -
  have "ard_room s" "ard_sent s = ard_sent s0" "ard_ok s"
    using assms by (simp_all add: ard_line_same_def ard_room_def ard_sent_def)
  then show ?thesis using ard_encode_1(1) assms(1) by (simp add: ard_line_same_def)
qed

lemma ard_body_0_answer:
  assumes "ard_ok s" "ard_room s" "a_msg_id s \<in> {DEV_INIT, DEV_UNINIT, DEV_HANDSHAKE}"
  shows "ard_sent (ard_parse_body_0 s) = ard_sent s @ dev_reply (a_msg_id s) (a_msg_serial s) DEV_STATUS_OK
    \<and> a_parse_matrix (ard_parse_body_0 s) = a_parse_matrix s"
proof -
  have self: "ard_line_same s s" using assms(1) by (simp add: ard_line_same_def)
  then have "ard_line_same s (ard_spi_write_initialize s)" "ard_line_same s (ard_spi_write_uninitialize s)"
    by (simp_all add: ard_spi_write_initialize_def ard_spi_write_uninitialize_def Let_def
        ard_line_same_command)
  with self assms(3) ard_encode_after [OF _ assms(2)] show ?thesis
    by (auto simp: ard_parse_body_0_def)
qed

lemma ard_body_1_answer:
  assumes "ard_ok s" "ard_room s"
    and "a_msg_id s \<in> {DEV_PIXEL_DELAY, DEV_PHRASE_DELAY, DEV_STABLE_DELAY, DEV_BRIGHTNESS}"
  shows "ard_sent (ard_parse_body_1 d s) = ard_sent s @ dev_reply (a_msg_id s) (a_msg_serial s) DEV_STATUS_OK
    \<and> a_parse_matrix (ard_parse_body_1 d s) = a_parse_matrix s"
proof -
  have self: "ard_line_same s s" using assms(1) by (simp add: ard_line_same_def)
  then have "ard_line_same s (ard_spi_write_brightness d s)" "ard_line_same s (s\<lparr>a_pixel_delay := d\<rparr>)"
    "ard_line_same s (s\<lparr>a_phrase_delay := d\<rparr>)" "ard_line_same s (s\<lparr>a_stable_delay := d\<rparr>)"
    by (simp_all add: ard_spi_write_brightness_def ard_line_same_command ard_line_same_delays)
  with assms(3) ard_encode_after [OF _ assms(2)] show ?thesis
    by (auto simp: ard_parse_body_1_def)
qed

text \<open>The waiting matrix after a message.\<close>

definition dev_shown :: "u8 \<Rightarrow> bytes \<Rightarrow> ard_matrix \<Rightarrow> ard_matrix \<Rightarrow> bool" where
  "dev_shown msg_id body m m' \<longleftrightarrow>
     (if msg_id = DEV_SUB_MATRIX \<and> 2 < length body
      then am_type m' = hd body \<and> ard_held (am_queue m') = tl body
      else m' = m)"

lemma ard_copied_facts:
  assumes "ard_ok s" "ard_room s" "ard_held (a_read s) = dev_message serial msg_id body"
  shows "ard_ok (ard_copied s)" "ard_room (ard_copied s)" "ard_sent (ard_copied s) = ard_sent s"
    "a_parse_matrix (ard_copied s) = a_parse_matrix s" "a_msg_serial (ard_copied s) = serial"
    "a_msg_id (ard_copied s) = msg_id" "a_msg_size (ard_copied s) = of_nat (length body)"
  using assms(1) apply (rule ard_copied_ok)
  using assms(2,3) by (simp_all add: ard_copied_def ard_room_def ard_sent_def dev_message_def)

lemma ard_matrix_answer:
  assumes "ard_ok s" "ard_room s" "ard_held (am_queue (a_parse_matrix s)) = []"
    and "ard_held (a_read s) = dev_message serial DEV_SUB_MATRIX body" "length body \<le> 216"
  shows "\<exists>s'. ard_parse_body (ard_copied s) = Again s'
    \<and> ard_sent s' = ard_sent s @ dev_reply DEV_STATUS serial (snd (dev_answer DEV_SUB_MATRIX body))
    \<and> dev_shown DEV_SUB_MATRIX body (a_parse_matrix s) (a_parse_matrix s')"
proof -
  let ?c = "ard_copied s"
  have wf: "ard_wf (a_read s)" "length (aq_data (a_read s)) = 255"
    using assms(1) by (auto simp: ard_ok_def ard_wf_def)
  note c = ard_copied_facts [OF assms(1,2,4)]
  have n: "unat (a_msg_size ?c) = length body" using assms(5) c(7) by simp
  have len: "unat (aq_size (a_read s)) = 4 + length body"
    using length_ard_held [OF wf(1)] assms(4) by (simp add: dev_message_def)
  show ?thesis
  proof (cases "length body \<le> 2")
    case True
    then have "a_msg_size ?c \<le> 2" using n by (simp add: u8_le_iff)
    with True c ard_encode_1(1) [OF c(1)] ard_encode_1_simps [OF c(1)] show ?thesis
      by (simp add: ard_parse_body_def Let_def dev_msg_defs dev_answer_def dev_shown_def)
  next
    case False
    then have big: "\<not> a_msg_size ?c \<le> 2" using n by (simp add: u8_le_iff)
    then have n1: "unat (a_msg_size ?c - 1) = length body - 1"
      using n False by (subst unat_u8_minus) (simp_all add: u8_le_iff)
    have at4: "ard_queue_get (a_read s) DEV_HEADER_SIZE = Some 4"
      "ard_queue_get (a_read s) (DEV_HEADER_SIZE + 1) = Some 5"
      using len False by (auto simp: ard_queue_get_def DEV_HEADER_SIZE_def u8_le_iff)
    obtain t rest where body: "body = t # rest" using False by (cases body) auto
    have t: "aq_data (a_read s) ! 4 = t"
    proof -
      have "ard_held (a_read s) ! 4 = t" using assms(4) body by (simp add: dev_message_def)
      then show ?thesis using len by (simp add: ard_held_def body)
    qed
    have rest: "take (length rest) (drop 5 (aq_data (a_read s))) = rest"
    proof -
      have "drop 5 (ard_held (a_read s)) = rest" using assms(4) body by (simp add: dev_message_def)
      then show ?thesis using len body by (simp add: ard_held_def drop_take)
    qed
    have mwf: "ard_wf (am_queue (a_parse_matrix s))" "aq_max (am_queue (a_parse_matrix s)) = 255"
      using assms(1) by (simp_all add: ard_ok_def)
    have "ard_matrix_size (a_parse_matrix s) = 0"
      using length_ard_held [OF mwf(1)] assms(3) by (simp add: ard_matrix_size_def unat_eq_zero)
    moreover have "length body - 1 \<le> length (drop 5 (aq_data (a_read s)))" using assms(5) wf(2) by simp
    moreover have "\<not> 255 < a_msg_size ?c - 1" by (simp add: u8_less_iff not_less)
    ultimately obtain m' where fill: "ard_matrix_fill (a_parse_matrix s) t
        (drop 5 (aq_data (a_read s))) (a_msg_size ?c - 1) = Some (1, m')"
      by (simp add: ard_matrix_fill_def ard_queue_refill_def mwf(2) n1)
    note m' = ard_matrix_fill_ok [OF mwf(1) fill]
    have ok: "ard_ok (?c\<lparr>a_parse_matrix := m'\<rparr>)" using c(1) m' mwf(2) by (simp add: ard_ok_def)
    have "ard_parse_body ?c = Again (ard_codec_encode_1 DEV_STATUS serial DEV_STATUS_OK
        (?c\<lparr>a_parse_matrix := m'\<rparr>))"
      using big c at4 t fill by (simp add: ard_parse_body_def Let_def dev_msg_defs)
    moreover have "dev_shown DEV_SUB_MATRIX body (a_parse_matrix s) m'"
      using m' False body rest n1 by (simp add: dev_shown_def)
    ultimately show ?thesis
      using ard_encode_1(1) [OF ok] ok c False
      by (simp add: ard_room_def ard_sent_def dev_answer_def dev_msg_defs)
  qed
qed

lemma ard_parse_message:
  assumes "ard_ok s" "ard_room s" "ard_held (am_queue (a_parse_matrix s)) = []"
    and "ard_held (a_read s) = dev_message serial msg_id body" "length body \<le> 216"
  shows "\<exists>s'. ard_parse s = Some (Stop s') \<and> ard_ok s' \<and> ard_held (a_read s') = []
    \<and> ard_sent s' = ard_sent s @ dev_reply (fst (dev_answer msg_id body)) serial
                                  (snd (dev_answer msg_id body))
    \<and> dev_shown msg_id body (a_parse_matrix s) (a_parse_matrix s')"
proof -
  let ?c = "ard_copied s"
  note c = ard_copied_facts [OF assms(1,2,4)]
  have wf: "ard_wf (a_read s)" using assms(1) by (simp add: ard_ok_def)
  have len: "unat (aq_size (a_read s)) = 4 + length body"
    using length_ard_held [OF wf] assms(4) by (simp add: dev_message_def)
  have "\<exists>s'. ard_parse_body ?c = Again s'
    \<and> ard_sent s' = ard_sent s @ dev_reply (fst (dev_answer msg_id body)) serial
                                  (snd (dev_answer msg_id body))
    \<and> dev_shown msg_id body (a_parse_matrix s) (a_parse_matrix s')"
  proof -
    consider "msg_id \<in> {DEV_INIT, DEV_UNINIT, DEV_HANDSHAKE}"
      | "msg_id \<in> {DEV_PIXEL_DELAY, DEV_PHRASE_DELAY, DEV_STABLE_DELAY, DEV_BRIGHTNESS}"
      | "msg_id = DEV_SUB_MATRIX"
      | "msg_id \<notin> {DEV_INIT, DEV_UNINIT, DEV_HANDSHAKE, DEV_PIXEL_DELAY, DEV_PHRASE_DELAY,
          DEV_STABLE_DELAY, DEV_BRIGHTNESS, DEV_SUB_MATRIX}" by blast
    then show ?thesis
    proof cases
      case 1
      then have "ard_parse_body ?c = Again (ard_parse_body_0 ?c)"
        by (simp add: ard_parse_body_def Let_def c(6))
      with 1 c ard_body_0_answer [of ?c] show ?thesis
        by (auto simp: dev_answer_def dev_shown_def dev_msg_defs)
    next
      case 2
      have get: "ard_queue_get (a_read s) DEV_HEADER_SIZE = (if body = [] then None else Some 4)"
        using len by (auto simp: ard_queue_get_def DEV_HEADER_SIZE_def u8_le_iff)
      have "ard_parse_body ?c = Again (if body = []
          then ard_codec_encode_1 DEV_STATUS serial DEV_STATUS_BUFFER_CORRUPTED_1 ?c
          else ard_parse_body_1 (aq_data (a_read s) ! 4) ?c)"
        using 2 by (auto simp: ard_parse_body_def Let_def c(5,6) get dev_msg_defs)
      with 2 c ard_body_1_answer [of ?c] ard_encode_1(1) [OF c(1)] ard_encode_1_simps [OF c(1)]
      show ?thesis by (auto simp: dev_answer_def dev_shown_def dev_msg_defs)
    next
      case 3
      then show ?thesis
        using ard_matrix_answer [OF assms(1-3), of serial body] assms(4,5)
        by (simp add: dev_answer_def dev_msg_defs)
    next
      case 4
      then have "ard_parse_body ?c = Again (ard_codec_encode_1 DEV_STATUS serial DEV_STATUS_MSG_UNKNOWN_H ?c)"
        by (simp add: ard_parse_body_def Let_def c(5,6))
      with 4 c ard_encode_1(1) [OF c(1)] ard_encode_1_simps [OF c(1)] show ?thesis
        by (simp add: dev_answer_def dev_shown_def)
    qed
  qed
  then obtain s1 where s1: "ard_parse_body ?c = Again s1"
    "ard_sent s1 = ard_sent s @ dev_reply (fst (dev_answer msg_id body)) serial
       (snd (dev_answer msg_id body))"
    "dev_shown msg_id body (a_parse_matrix s) (a_parse_matrix s1)" by blast
  from ard_parse_one [OF assms(1,4,5) s1(1)] obtain q where
    "ard_parse s = Some (Stop (s1\<lparr>a_read := q\<rparr>))" "ard_held q = []" "ard_ok (s1\<lparr>a_read := q\<rparr>)" by blast
  with s1 show ?thesis by (auto simp: ard_sent_def)
qed

text \<open>The controller answers every message once: a message that is there completely, while there is
  room for a reply and no matrix waits to be shown, is taken off the queue, answered with the id
  and the status that the protocol promises, and a matrix with data replaces the waiting one.\<close>

theorem ard_parse_answers:
  assumes "ard_ok s" "ard_room s" "ard_held (am_queue (a_parse_matrix s)) = []"
    and "ard_held (a_read s) = dev_message serial msg_id body" "length body \<le> 216"
  shows "\<exists>s'. ard_parse s = Some (Stop s') \<and> ard_ok s' \<and> ard_held (a_read s') = []
    \<and> ard_sent s' = ard_sent s @ dev_reply (fst (dev_answer msg_id body)) serial
                                  (snd (dev_answer msg_id body))
    \<and> dev_shown msg_id body (a_parse_matrix s) (a_parse_matrix s')"
  using assms by (rule ard_parse_message)

lemma ard_parse_answers_witness:
  "\<exists>s'. ard_parse (ard_init\<lparr>a_read := \<lparr>aq_data = [247, 1, 3, 4, 9] @ replicate 250 44,
        aq_size = 5, aq_max = 255\<rparr>\<rparr>) = Some (Stop s')
    \<and> ard_sent s' = [247, 1, 3, 4, 7]"
proof -
  let ?s = "ard_init\<lparr>a_read := \<lparr>aq_data = [247, 1, 3, 4, 9] @ replicate 250 44,
    aq_size = 5, aq_max = 255\<rparr>\<rparr>"
  have "ard_ok ?s"
    by (simp add: ard_ok_def ard_wf_def ard_init_def ard_queue_init_def ard_matrix_init_def
        DEV_MAX_BUFFER_SIZE_def u8_le_iff)
  moreover have "ard_room ?s" "ard_held (am_queue (a_parse_matrix ?s)) = []" "ard_sent ?s = []"
    by (simp_all add: ard_room_def ard_sent_def ard_init_def ard_queue_init_def ard_matrix_init_def
        ard_held_def)
  moreover have "ard_held (a_read ?s) = dev_message 3 DEV_BRIGHTNESS [9]"
    by (simp add: ard_held_def dev_message_def DEV_EYE_CATCH_def DEV_BRIGHTNESS_def)
  ultimately show ?thesis
    using ard_parse_answers [of ?s 3 DEV_BRIGHTNESS "[9]"]
    by (auto simp: dev_answer_def dev_msg_defs dev_reply_def DEV_EYE_CATCH_def DEV_STATUS_OK_def)
qed

section \<open>The interrupt between taking a byte and writing it\<close>

text \<open>
  \<open>uart_write_kick\<close> runs with interrupts enabled: it takes a byte, waits for the transmit buffer and
  writes the byte. The second component is the byte it holds.
\<close>

datatype kick_event = Kick_take | Kick_put | Udre

fun ard_kick_step :: "kick_event \<Rightarrow> ard \<times> u8 option \<Rightarrow> ard \<times> u8 option" where
  "ard_kick_step Kick_take (s, _) =
     (case ard_queue_drain_symbol (a_write s) of (symbol, q) \<Rightarrow> (s\<lparr>a_write := q\<rparr>, symbol))"
| "ard_kick_step Kick_put (s, held) =
     (case held of None \<Rightarrow> (s, None) | Some symbol \<Rightarrow> (s\<lparr>a_uart := a_uart s @ [symbol]\<rparr>, None))"
| "ard_kick_step Udre (s, held) = (ard_usart_udre s, held)"

text \<open>The line can carry two bytes of a reply in the wrong order: without an interrupt the kick
  sends the oldest byte, but when the data register empties between taking the byte and writing
  it, the interrupt sends the second byte first.\<close>

theorem ard_kick_reorders:
  assumes "ard_wf (a_write s)" "ard_held (a_write s) = x # y # rest"
  shows "a_uart (fst (fold ard_kick_step [Kick_take, Kick_put, Udre] (s, None))) = a_uart s @ [x, y]
    \<and> a_uart (fst (fold ard_kick_step [Kick_take, Udre, Kick_put] (s, None))) = a_uart s @ [y, x]"
proof -
  obtain q where q: "ard_queue_drain_symbol (a_write s) = (Some x, q)" "ard_held q = y # rest" "ard_wf q"
    using ard_drain_symbol [OF assms(1)] assms(2) by (metis prod.collapse snd_conv)
  obtain q' where "ard_queue_drain_symbol q = (Some y, q')"
    using ard_drain_symbol(2) [OF q(3,2)] by (metis prod.collapse)
  with q(1) show ?thesis by (simp add: ard_usart_udre_def)
qed

lemma ard_kick_reorders_witness:
  "a_uart (fst (fold ard_kick_step [Kick_take, Udre, Kick_put]
      (ard_init\<lparr>a_write := \<lparr>aq_data = [247, 1] @ replicate 48 222, aq_size = 2, aq_max = 50\<rparr>\<rparr>, None)))
    = [1, 247]"
proof -
  let ?s = "ard_init\<lparr>a_write := \<lparr>aq_data = [247, 1] @ replicate 48 222, aq_size = 2, aq_max = 50\<rparr>\<rparr>"
  have "ard_wf (a_write ?s)" "ard_held (a_write ?s) = [247, 1]"
    by (simp_all add: ard_wf_def ard_held_def u8_le_iff)
  with ard_kick_reorders [of ?s 247 1 "[]"] show ?thesis by (simp add: ard_init_def)
qed

end
