(* ===== verification/Old_Serial.thy ===== *)
theory Old_Serial
  imports Old_Arduino
begin

text \<open>
  The side of the first server that faces the controller: the codec of the messages
  (\<open>src/obsoleted/old/core-old/device-codec.hpp\<close>), and in \<open>src/obsoleted/old/server-obsolete\<close> the serial
  port with its start-up dialogue (\<open>serial.cpp\<close>), the lock that lets one message be under way
  (\<open>block.cpp\<close>) and the pipe that cuts a picture into messages (\<open>pipe.cpp\<close>). Opening and configuring the
  port is not modelled; \<open>async_write_some\<close> appends to the frames written, and its completion and
  the arrival of bytes are events. The second half runs the server against the controller of
  \<open>Old_Arduino\<close>.
\<close>

section \<open>\<open>core::device::codec_t\<close>\<close>

definition dev_encode :: "bytes \<Rightarrow> bytes \<Rightarrow> bytes" where
  "dev_encode chars msg = chars @ msg"

text \<open>\<open>decode_modify\<close> for \<open>n\<close> single characters: what was read and what is left; \<open>None\<close> is false.\<close>

fun dev_decode_modify :: "nat \<Rightarrow> bytes \<Rightarrow> (bytes \<times> bytes) option" where
  "dev_decode_modify 0 src = Some ([], src)"
| "dev_decode_modify (Suc n) src =
     (case src of
        [] \<Rightarrow> None
      | info # rest \<Rightarrow>
          (case dev_decode_modify n rest of
             None \<Rightarrow> None
           | Some (infos, left) \<Rightarrow> Some (info # infos, left)))"

definition dev_decode :: "nat \<Rightarrow> bytes \<Rightarrow> bytes option" where
  "dev_decode n src = map_option fst (dev_decode_modify n src)"

section \<open>State\<close>

text \<open>\<open>m_state\<close> of \<open>serial_t\<close>\<close>

definition STATE_HANDSHAKE :: u8 where "STATE_HANDSHAKE = 0"
definition STATE_PIXEL_DELAY :: u8 where "STATE_PIXEL_DELAY = 1"
definition STATE_PHRASE_DELAY :: u8 where "STATE_PHRASE_DELAY = 2"
definition STATE_STABLE_DELAY :: u8 where "STATE_STABLE_DELAY = 3"
definition STATE_BRIGHTNESS :: u8 where "STATE_BRIGHTNESS = 4"
definition STATE_INIT :: u8 where "STATE_INIT = 5"
definition STATE_LAST :: u8 where "STATE_LAST = 6"

lemmas serial_state_defs = STATE_HANDSHAKE_def STATE_PIXEL_DELAY_def STATE_PHRASE_DELAY_def
  STATE_STABLE_DELAY_def STATE_BRIGHTNESS_def STATE_INIT_def STATE_LAST_def

text \<open>
  \<open>serial_t\<close>, \<open>pipe_t\<close> and \<open>block_t\<close> refer to each other through callbacks, so their members form one
  record. \<open>sr_bound\<close> tells whether \<open>bind\<close> has been called, \<open>sr_static_id\<close> is the static counter of
  \<open>handshake\<close>.
\<close>

record serial =
  sr_ready :: bool
  sr_pending_read :: bool
  sr_pending_write :: bool
  sr_state :: u8
  sr_msg_buffer :: bytes
  sr_bound :: bool
  sr_static_id :: u8
  sr_written :: "bytes list"
  pp_queue :: "bytes list"
  pp_serial_id :: u8
  bl_pending :: bool
  bl_pending_id :: u8

definition serial_new :: serial where
  "serial_new = \<lparr>sr_ready = False, sr_pending_read = False, sr_pending_write = False,
     sr_state = STATE_HANDSHAKE, sr_msg_buffer = [], sr_bound = False, sr_static_id = 0,
     sr_written = [], pp_queue = [], pp_serial_id = 0, bl_pending = False, bl_pending_id = 0\<rparr>"

text \<open>The constructor of \<open>pipe_t\<close>.\<close>

definition pipe_new :: "serial \<Rightarrow> serial" where
  "pipe_new s = s\<lparr>pp_serial_id := 0, sr_bound := True\<rparr>"

section \<open>\<open>block_t\<close>\<close>

definition serial_block_can_go :: "serial \<Rightarrow> bool" where
  "serial_block_can_go s \<longleftrightarrow> \<not> bl_pending s"

definition serial_block_tighten :: "u8 \<Rightarrow> serial \<Rightarrow> serial" where
  "serial_block_tighten i s =
     (if i = DEV_DEVICE_SERIAL then s
      else if bl_pending s \<and> bl_pending_id s \<noteq> i then s
      else s\<lparr>bl_pending := True, bl_pending_id := i\<rparr>)"

definition serial_block_relax :: "u8 \<Rightarrow> serial \<Rightarrow> serial" where
  "serial_block_relax i s =
     (if i = DEV_DEVICE_SERIAL \<or> \<not> bl_pending s then s
      else if bl_pending_id s \<noteq> i then s
      else s\<lparr>bl_pending := False, bl_pending_id := 0\<rparr>)"

section \<open>Writing\<close>

definition WRITE_BUFFER_SIZE :: nat where "WRITE_BUFFER_SIZE = 255"
definition HEADER_RIGHT_SIZE :: nat where "HEADER_RIGHT_SIZE = 2"
definition HEADER_LEFT_SIZE :: nat where "HEADER_LEFT_SIZE = 2"

definition serial_private_write :: "bytes \<Rightarrow> serial \<Rightarrow> bool \<times> serial" where
  "serial_private_write src s =
     (let msg_size = of_nat (length src - HEADER_RIGHT_SIZE) :: u8;
          msg = dev_encode [DEV_EYE_CATCH, msg_size] src
      in if length msg > WRITE_BUFFER_SIZE then (False, s)
         else (True, s\<lparr>sr_pending_write := True, sr_written := sr_written s @ [msg]\<rparr>))"

text \<open>The guards of \<open>serial_t::write\<close>.\<close>

definition serial_refuses :: "bytes \<Rightarrow> serial \<Rightarrow> bool" where
  "serial_refuses src s \<longleftrightarrow>
     \<not> sr_ready s \<or> length src < HEADER_RIGHT_SIZE \<or> length src > unat DEV_MAX_SUB_MATRIX_SIZE
       \<or> sr_pending_write s"

text \<open>
  \<open>pipe_t::write\<close> with \<open>serial_t::write\<close>, which calls it back when the write could not be started.
  A message that is not accepted has left the queue.
\<close>

lemma serial_private_write_queue:
  "serial_private_write src s = (st, s') \<Longrightarrow> pp_queue s' = pp_queue s"
  by (auto simp: serial_private_write_def Let_def split: if_splits)

function pipe_write :: "serial \<Rightarrow> serial" where
  "pipe_write s =
     (if \<not> serial_block_can_go s \<or> \<not> sr_ready s then s
      else case pp_queue s of
             [] \<Rightarrow> s
           | msg # rest \<Rightarrow>
               let s = s\<lparr>pp_queue := rest\<rparr>
               in if serial_refuses msg s then s
                  else case serial_private_write msg s of
                         (True, s') \<Rightarrow> serial_block_tighten (hd msg) s'
                       | (False, s') \<Rightarrow> pipe_write s')"
  by pat_completeness auto
termination
  by (relation "measure (\<lambda>s. length (pp_queue s))") (auto dest!: serial_private_write_queue [OF sym])

declare pipe_write.simps [simp del]

text \<open>\<open>asio_write\<close>: the completion of a write, whatever its outcome.\<close>

definition serial_asio_write :: "serial \<Rightarrow> serial" where
  "serial_asio_write s = s\<lparr>sr_pending_write := False\<rparr>"

section \<open>Pictures\<close>

definition pipe_get_char :: "u8 \<Rightarrow> u8" where
  "pipe_get_char column =
     fst (fold (\<lambda>i (res, mask). (if bit column i then res OR mask else res, push_bit 1 mask))
            [0..<8] (0, 1))"

definition pipe_get_serial_id :: "serial \<Rightarrow> u8 \<times> serial" where
  "pipe_get_serial_id s =
     (let i = pp_serial_id s + 1
      in if i \<noteq> DEV_DEVICE_SERIAL then (i, s\<lparr>pp_serial_id := i\<rparr>)
         else (i + 1, s\<lparr>pp_serial_id := i + 1\<rparr>))"

text \<open>\<open>ID_MAX_SUB_MATRIX_SIZE - ID_HEADER_SIZE - 1\<close>\<close>

definition DATA_SIZE :: nat where "DATA_SIZE = 215"

function pipe_split :: "bool \<Rightarrow> bytes \<Rightarrow> serial \<Rightarrow> serial" where
  "pipe_split is_first matrix_data s =
     (if matrix_data = [] then s
      else let is_last = (length matrix_data \<le> DATA_SIZE);
               n = (if is_last then length matrix_data else DATA_SIZE);
               sub_type = (if is_first then SUB_MATRIX_TYPE_FIRST else 0);
               sub_type = sub_type OR (if is_last then SUB_MATRIX_TYPE_LAST else 0);
               sub_type = (if sub_type = 0 then SUB_MATRIX_TYPE_MIDDLE else sub_type)
           in case pipe_get_serial_id s of
                (serial_id, s) \<Rightarrow>
                  pipe_split False (drop n matrix_data)
                    (s\<lparr>pp_queue := pp_queue s @
                         [dev_encode [serial_id, DEV_SUB_MATRIX, sub_type] (take n matrix_data)]\<rparr>))"
  by pat_completeness auto
termination
  by (relation "measure (\<lambda>(_, matrix_data, _). length matrix_data)") (auto simp: DATA_SIZE_def)

declare pipe_split.simps [simp del]

definition pipe_render :: "u8 list \<Rightarrow> serial \<Rightarrow> serial" where
  "pipe_render matrix s =
     (let queue_was_empty = (pp_queue s = []);
          s' = pipe_split True (map pipe_get_char matrix) s
      in if queue_was_empty then pipe_write s' else s')"

section \<open>Reading\<close>

text \<open>
  \<open>pipe_t::decode\<close>: beside the log, a message relaxes the lock and lets the next one be written.
\<close>

definition pipe_decode :: "bytes \<Rightarrow> serial \<Rightarrow> serial" where
  "pipe_decode msg s =
     (case dev_decode_modify 2 msg of
        None \<Rightarrow> s
      | Some (header, _) \<Rightarrow> pipe_write (serial_block_relax (header ! 0) s))"

definition serial_decode_initial :: "bytes \<Rightarrow> serial \<Rightarrow> serial" where
  "serial_decode_initial msg s =
     (case dev_decode_modify 3 msg of
        None \<Rightarrow> s
      | Some (chars, _) \<Rightarrow>
          let msg_id = chars ! 1;
              advance = (\<lambda>from next. if sr_state s = from then s\<lparr>sr_state := next\<rparr> else s)
          in if msg_id = DEV_BRIGHTNESS then advance STATE_BRIGHTNESS STATE_INIT
             else if msg_id = DEV_HANDSHAKE then advance STATE_HANDSHAKE STATE_PIXEL_DELAY
             else if msg_id = DEV_INIT then advance STATE_INIT STATE_LAST
             else if msg_id = DEV_PIXEL_DELAY then advance STATE_PIXEL_DELAY STATE_PHRASE_DELAY
             else if msg_id = DEV_PHRASE_DELAY then advance STATE_PHRASE_DELAY STATE_STABLE_DELAY
             else if msg_id = DEV_STABLE_DELAY then advance STATE_STABLE_DELAY STATE_BRIGHTNESS
             else s)"

text \<open>The loop of \<open>decode_split\<close>: the messages found and what stays in the buffer.\<close>

function serial_split :: "bytes \<Rightarrow> bytes list \<times> bytes" where
  "serial_split buf =
     (if length buf \<ge> HEADER_LEFT_SIZE + HEADER_RIGHT_SIZE then
        (case dev_decode 2 buf of
           None \<Rightarrow> ([], buf)
         | Some header \<Rightarrow>
             if header ! 0 \<noteq> DEV_EYE_CATCH then serial_split (tl buf)
             else let total_size = unat (header ! 1) + HEADER_LEFT_SIZE + HEADER_RIGHT_SIZE
                  in if length buf < total_size then ([], buf)
                     else let buf' = tl (tl buf); n = total_size - 2
                          in case serial_split (drop n buf') of
                               (msgs, rest) \<Rightarrow> (take n buf' # msgs, rest))
      else ([], buf))"
  by pat_completeness auto
termination
  by (relation "measure length") (auto simp: HEADER_LEFT_SIZE_def HEADER_RIGHT_SIZE_def)

declare serial_split.simps [simp del]

definition serial_decode_split :: "bytes \<Rightarrow> serial \<Rightarrow> bytes list \<times> serial" where
  "serial_decode_split arrived s =
     (case serial_split (sr_msg_buffer s @ arrived) of
        (msgs, rest) \<Rightarrow> (msgs, s\<lparr>sr_msg_buffer := rest\<rparr>))"

definition serial_asio_read :: "bool \<Rightarrow> bytes \<Rightarrow> serial \<Rightarrow> serial" where
  "serial_asio_read code arrived s =
     (if sr_pending_read s \<or> code then s
      else case serial_decode_split arrived (s\<lparr>sr_pending_read := True\<rparr>) of
             (msgs, s) \<Rightarrow>
               fold (\<lambda>msg s. if sr_ready s then pipe_decode msg s else serial_decode_initial msg s)
                 msgs (s\<lparr>sr_pending_read := False\<rparr>))"

section \<open>The start-up dialogue\<close>

text \<open>What \<open>handshake\<close> sends in a state: the id and the body; \<open>None\<close> is the unknown state.\<close>

definition handshake_message :: "u8 \<Rightarrow> (u8 \<times> bytes) option" where
  "handshake_message state =
     (if state = STATE_HANDSHAKE then Some (DEV_HANDSHAKE, [])
      else if state = STATE_PIXEL_DELAY then Some (DEV_PIXEL_DELAY, [1])
      else if state = STATE_PHRASE_DELAY then Some (DEV_PHRASE_DELAY, [1])
      else if state = STATE_STABLE_DELAY then Some (DEV_STABLE_DELAY, [100])
      else if state = STATE_BRIGHTNESS then Some (DEV_BRIGHTNESS, [DEV_BRIGHTNESS_MAX])
      else if state = STATE_INIT then Some (DEV_INIT, [])
      else None)"

definition serial_handshake :: "serial \<Rightarrow> bool \<times> serial" where
  "serial_handshake s =
     (if sr_state s \<ge> STATE_LAST then
        let s = s\<lparr>sr_ready := True\<rparr>
        in (False, if \<not> sr_bound s then s else pipe_write s)
      else case handshake_message (sr_state s) of
             None \<Rightarrow> (True, s)
           | Some (msg_id, msg_value) \<Rightarrow>
               let serial_id = sr_static_id s + 1
               in (True, snd (serial_private_write (dev_encode [serial_id, msg_id] msg_value)
                                (s\<lparr>sr_static_id := serial_id\<rparr>))))"

section \<open>The stream of bytes\<close>

lemma serial_split_short:
  "length buf < 4 \<Longrightarrow> serial_split buf = ([], buf)"
  by (simp add: serial_split.simps HEADER_LEFT_SIZE_def HEADER_RIGHT_SIZE_def)

text \<open>The loop on a buffer that holds a header, with the header read off.\<close>

lemma serial_split_header:
  "serial_split (b0 # b1 # b2 # b3 # bs) =
     (if b0 \<noteq> DEV_EYE_CATCH then serial_split (b1 # b2 # b3 # bs)
      else if length bs < unat b1 then ([], b0 # b1 # b2 # b3 # bs)
      else case serial_split (drop (unat b1) bs) of
             (msgs, rest) \<Rightarrow> ((b2 # b3 # take (unat b1) bs) # msgs, rest))"
  by (subst serial_split.simps)
    (simp add: HEADER_LEFT_SIZE_def HEADER_RIGHT_SIZE_def dev_decode_def numeral_2_eq_2 Let_def)

lemma four_or_short:
  obtains b0 b1 b2 b3 bs where "xs = b0 # b1 # b2 # b3 # bs" | "length xs < 4"
proof -
  have "(\<exists>b0 b1 b2 b3 bs. xs = b0 # b1 # b2 # b3 # bs) \<or> length xs < 4"
    by (cases xs; cases "tl xs"; cases "tl (tl xs)"; cases "tl (tl (tl xs))") auto
  with that show thesis by blast
qed

text \<open>
  Splitting is independent of how the bytes arrive: what the loop leaves in the buffer is all
  it has to know of the past.
\<close>

lemma serial_split_append:
  "serial_split (xs @ ys) =
     (case serial_split xs of (msgs, rest) \<Rightarrow>
        (case serial_split (rest @ ys) of (msgs', rest') \<Rightarrow> (msgs @ msgs', rest')))"
proof (induction "length xs" arbitrary: xs rule: less_induct)
  case less
  show ?case
  proof (cases xs rule: four_or_short)
    case (1 b0 b1 b2 b3 bs)
    consider "b0 \<noteq> DEV_EYE_CATCH" | "b0 = DEV_EYE_CATCH" "length bs < unat b1"
      | "b0 = DEV_EYE_CATCH" "unat b1 \<le> length bs" by linarith
    then show ?thesis
    proof cases
      case 1
      with less [of "b1 # b2 # b3 # bs"] \<open>xs = _\<close> show ?thesis by (simp add: serial_split_header)
    next
      case 2
      have "serial_split (b0 # b1 # b2 # b3 # bs) = ([], b0 # b1 # b2 # b3 # bs)"
        using 2 by (simp add: serial_split_header)
      with \<open>xs = _\<close> show ?thesis by (simp split: prod.split)
    next
      case 3
      have "serial_split (drop (unat b1) bs @ ys) =
          (case serial_split (drop (unat b1) bs) of (msgs, rest) \<Rightarrow>
             (case serial_split (rest @ ys) of (msgs', rest') \<Rightarrow> (msgs @ msgs', rest')))"
        by (rule less) (simp add: \<open>xs = _\<close>)
      with 3 \<open>xs = _\<close> show ?thesis by (simp add: serial_split_header split: prod.splits)
    qed
  next
    case 2
    then show ?thesis by (simp add: serial_split_short split: prod.split)
  qed
qed

definition serial_frame :: "bytes \<Rightarrow> bytes" where
  "serial_frame src = [DEV_EYE_CATCH, of_nat (length src - 2)] @ src"

lemma serial_split_frame:
  assumes "2 \<le> length src" "length src \<le> 257"
  shows "serial_split (serial_frame src @ rest) = (case serial_split rest of (msgs, left) \<Rightarrow> (src # msgs, left))"
proof -
  obtain a b body where src: "src = a # b # body"
    using assms(1) by (cases src; cases "tl src") auto
  then have "length body < 256" using assms(2) by simp
  then have "unat (of_nat (length body) :: u8) = length body" by simp
  with src show ?thesis by (simp add: serial_frame_def serial_split_header split: prod.split)
qed

section \<open>Properties of the server's side\<close>

text \<open>\<open>decode_split\<close> on one chunk after the other: all messages, and the final state.\<close>

fun serial_feed :: "bytes list \<Rightarrow> serial \<Rightarrow> bytes list \<times> serial" where
  "serial_feed [] s = ([], s)"
| "serial_feed (chunk # chunks) s =
     (case serial_decode_split chunk s of
        (msgs, s') \<Rightarrow> (case serial_feed chunks s' of (msgs', s'') \<Rightarrow> (msgs @ msgs', s'')))"

lemma serial_split_stable:
  "serial_split xs = (msgs, rest) \<Longrightarrow> serial_split rest = ([], rest)"
  using serial_split_append [of xs "[]"] by (auto split: prod.splits)

lemma serial_feed_split:
  assumes "serial_split (sr_msg_buffer s) = ([], sr_msg_buffer s)"
  shows "serial_feed chunks s =
    (case serial_split (sr_msg_buffer s @ concat chunks) of
       (msgs, rest) \<Rightarrow> (msgs, s\<lparr>sr_msg_buffer := rest\<rparr>))"
  using assms
proof (induction chunks arbitrary: s)
  case Nil
  then show ?case by simp
next
  case (Cons chunk chunks)
  obtain msgs buf where split: "serial_split (sr_msg_buffer s @ chunk) = (msgs, buf)" by fastforce
  let ?s = "s\<lparr>sr_msg_buffer := buf\<rparr>"
  have "serial_feed chunks ?s = (case serial_split (buf @ concat chunks) of
      (msgs', rest') \<Rightarrow> (msgs', ?s\<lparr>sr_msg_buffer := rest'\<rparr>))"
    using Cons.IH [of ?s] serial_split_stable [OF split] by simp
  moreover have "serial_split (sr_msg_buffer s @ chunk @ concat chunks) =
      (case serial_split (buf @ concat chunks) of (msgs', rest') \<Rightarrow> (msgs @ msgs', rest'))"
    using serial_split_append [of "sr_msg_buffer s @ chunk" "concat chunks"] split by simp
  ultimately show ?case
    by (simp add: serial_decode_split_def split split: prod.splits)
qed

text \<open>C35: Messages from the controller are found however the bytes arrive: chunks that make up whole frames
  and at most three bytes of another give the messages of the frames in order, and the rest stays
  in the buffer.\<close>

theorem serial_stream_frames:
  assumes "concat chunks = concat (map serial_frame msgs) @ part"
    and "\<forall>msg \<in> set msgs. 2 \<le> length msg \<and> length msg \<le> 257" "length part < 4"
  shows "serial_feed chunks serial_new = (msgs, serial_new\<lparr>sr_msg_buffer := part\<rparr>)"
proof -
  have "serial_split (concat (map serial_frame msgs) @ part) = (msgs, part)"
    using assms(2)
    by (induction msgs) (simp_all add: serial_split_short [OF assms(3)] serial_split_frame)
  with serial_feed_split [of serial_new chunks] assms(1) show ?thesis
    by (simp add: serial_new_def serial_split_short)
qed

lemma serial_stream_frames_witness:
  "serial_feed [[247, 1, 1], [5, 7, 247], [0, 2, 6, 247, 1]] serial_new
    = ([[1, 5, 7], [2, 6]], serial_new\<lparr>sr_msg_buffer := [247, 1]\<rparr>)"
  using serial_stream_frames [of "[[247, 1, 1], [5, 7, 247], [0, 2, 6, 247, 1]]" "[[1, 5, 7], [2, 6]]"
      "[247, 1]"] by (simp add: serial_frame_def DEV_EYE_CATCH_def)

text \<open>A column is sent as it is.\<close>

lemma pipe_get_char_loop:
  "fold (\<lambda>i (res, mask). (if bit column i then res OR mask else res, push_bit 1 mask)) [0..<n] (0, 1)
    = (take_bit n column, push_bit n (1 :: u8))"
proof (induction n)
  case 0
  then show ?case by simp
next
  case (Suc n)
  have "take_bit (Suc n) column = (if bit column n then take_bit n column OR push_bit n 1
      else take_bit n column)"
    by (rule bit_eqI) (auto simp: bit_simps less_Suc_eq)
  with Suc show ?case by (simp add: push_bit_eq_mult)
qed

lemma pipe_get_char_id: "pipe_get_char c = c"
  by (simp only: pipe_get_char_def pipe_get_char_loop fst_conv) (simp add: take_bit_word_eq_self)

section \<open>A picture in messages\<close>

text \<open>The numbers and types of the messages of a picture, \<open>n\<close> of them.\<close>

definition sub_types :: "bool \<Rightarrow> nat \<Rightarrow> bytes" where
  "sub_types is_first n =
     map (\<lambda>i. let t = (if is_first \<and> i = 0 then SUB_MATRIX_TYPE_FIRST else 0)
                    OR (if i + 1 = n then SUB_MATRIX_TYPE_LAST else 0)
              in if t = 0 then SUB_MATRIX_TYPE_MIDDLE else t) [0..<n]"

lemma sub_types_Suc:
  "sub_types is_first (Suc n) =
     (let t = (if is_first then SUB_MATRIX_TYPE_FIRST else 0)
            OR (if n = 0 then SUB_MATRIX_TYPE_LAST else 0)
      in if t = 0 then SUB_MATRIX_TYPE_MIDDLE else t) # sub_types False n"
proof -
  have "[0..<Suc n] = 0 # map Suc [0..<n]" by (simp add: map_Suc_upt upt_conv_Cons)
  then show ?thesis by (simp add: sub_types_def comp_def Let_def)
qed

lemma pipe_get_serial_id_nonzero:
  "pipe_get_serial_id s = (i, s') \<Longrightarrow> i \<noteq> 0 \<and> (\<exists>k. s' = s\<lparr>pp_serial_id := k\<rparr>)"
  by (auto simp: pipe_get_serial_id_def DEV_DEVICE_SERIAL_def Let_def split: if_splits)

definition piece_ok :: "bytes \<Rightarrow> bool" where
  "piece_ok m \<longleftrightarrow> 3 < length m \<and> length m \<le> 218 \<and> m ! 0 \<noteq> 0 \<and> m ! 1 = DEV_SUB_MATRIX"

lemma pipe_split_pieces:
  "\<exists>ms k. pipe_split is_first data s = s\<lparr>pp_serial_id := k, pp_queue := pp_queue s @ ms\<rparr>
     \<and> concat (map (drop 3) ms) = data \<and> list_all piece_ok ms
     \<and> map (\<lambda>m. m ! 2) ms = sub_types is_first (length ms)
     \<and> length ms = (length data + 214) div 215"
proof (induction "length data" arbitrary: is_first data s rule: less_induct)
  case less
  show ?case
  proof (cases "data = []")
    case True
    then show ?thesis
      by (subst pipe_split.simps)
        (rule exI [of _ "[]"], rule exI [of _ "pp_serial_id s"], simp add: sub_types_def)
  next
    case False
    define is_last where "is_last = (length data \<le> DATA_SIZE)"
    define n where "n = (if is_last then length data else DATA_SIZE)"
    define t0 where "t0 = (if is_first then SUB_MATRIX_TYPE_FIRST else 0)
      OR (if is_last then SUB_MATRIX_TYPE_LAST else 0)"
    define t where "t = (if t0 = 0 then SUB_MATRIX_TYPE_MIDDLE else t0)"
    obtain i s1 where i: "pipe_get_serial_id s = (i, s1)" by fastforce
    then obtain k1 where s1: "s1 = s\<lparr>pp_serial_id := k1\<rparr>" "i \<noteq> 0"
      using pipe_get_serial_id_nonzero by blast
    define m where "m = dev_encode [i, DEV_SUB_MATRIX, t] (take n data)"
    define s2 where "s2 = s1\<lparr>pp_queue := pp_queue s1 @ [m]\<rparr>"
    have step: "pipe_split is_first data s = pipe_split False (drop n data) s2"
      using False i by (subst pipe_split.simps)
        (simp add: is_last_def n_def t_def t0_def m_def s2_def Let_def)
    have n: "0 < n" "n \<le> 215" "n \<le> length data"
      using False by (auto simp: n_def is_last_def DATA_SIZE_def)
    then have "length (drop n data) < length data" by simp
    from less [OF this] obtain ms k where ms: "pipe_split False (drop n data) s2
          = s2\<lparr>pp_serial_id := k, pp_queue := pp_queue s2 @ ms\<rparr>"
      "concat (map (drop 3) ms) = drop n data" "list_all piece_ok ms"
      "map (\<lambda>m. m ! 2) ms = sub_types False (length ms)"
      "length ms = (length (drop n data) + 214) div 215" 
      by blast
    have count: "Suc (length ms) = (length data + 214) div 215"
      and last: "is_last \<longleftrightarrow> length ms = 0"
    proof -
      have "Suc (length ms) = (length data + 214) div 215 \<and> (is_last \<longleftrightarrow> length ms = 0)"
      proof (cases is_last)
        case True
        then have "length ms = 0" using ms(5) by (simp add: n_def)
        moreover have "(length data + 214) div 215 = 1"
          using True False by (intro div_nat_eqI) (auto simp: is_last_def DATA_SIZE_def Suc_le_eq)
        ultimately show ?thesis using True by simp
      next
        case False
        then have "215 < length data" "n = 215" by (auto simp: is_last_def n_def DATA_SIZE_def)
        then obtain r where r: "length data = 216 + r"
          using le_Suc_ex [of 216 "length data"] by auto
        have "length ms = (r + 215) div 215" using ms(5) r \<open>n = 215\<close> by simp
        moreover have "(length data + 214) div 215 = (r + 215) div 215 + 1" using r by simp
        ultimately show ?thesis using False by simp
      qed
      then show "Suc (length ms) = (length data + 214) div 215" "is_last \<longleftrightarrow> length ms = 0"
        by blast+
    qed
    have "drop 3 m = take n data" "m ! 2 = t" by (simp_all add: m_def dev_encode_def)
    moreover have "piece_ok m" using n s1(2) by (simp add: piece_ok_def m_def dev_encode_def)
    moreover have "sub_types is_first (length (m # ms)) = t # sub_types False (length ms)"
      using last by (simp add: sub_types_Suc t_def t0_def Let_def)
    ultimately show ?thesis
      using ms count unfolding step s2_def s1(1)
      by (intro exI [of _ "m # ms"] exI [of _ k]) simp
  qed
qed

text \<open>A picture is cut into messages that fit the controller's buffer: their data joined is the
  picture, every one has a serial number other than the controller's own, at most 218 bytes, and
  the types mark the first, the middle ones and the last.\<close>

theorem pipe_render_pieces:
  "\<exists>ms k. pipe_render matrix s =
      (if pp_queue s = [] then pipe_write else id)
        (s\<lparr>pp_serial_id := k, pp_queue := pp_queue s @ ms\<rparr>)
    \<and> concat (map (drop 3) ms) = matrix \<and> list_all piece_ok ms
    \<and> map (\<lambda>m. m ! 2) ms = sub_types True (length ms)
    \<and> length ms = (length matrix + 214) div 215"
proof -
  have "map pipe_get_char matrix = matrix" by (rule map_idI) (rule pipe_get_char_id)
  moreover obtain ms k where "pipe_split True matrix s
        = s\<lparr>pp_serial_id := k, pp_queue := pp_queue s @ ms\<rparr>"
    "concat (map (drop 3) ms) = matrix" "list_all piece_ok ms"
    "map (\<lambda>m. m ! 2) ms = sub_types True (length ms)" "length ms = (length matrix + 214) div 215"
    using pipe_split_pieces [of True matrix s] by blast
  ultimately show ?thesis
    unfolding pipe_render_def by (intro exI [of _ ms] exI [of _ k]) (simp add: Let_def)
qed

section \<open>The lock\<close>

lemma serial_private_write_short:
  "length src \<le> 220 \<Longrightarrow> serial_private_write src s =
     (True, s\<lparr>sr_pending_write := True, sr_written := sr_written s @ [serial_frame src]\<rparr>)"
  by (simp add: serial_private_write_def dev_encode_def WRITE_BUFFER_SIZE_def HEADER_RIGHT_SIZE_def
      serial_frame_def)

text \<open>So the call back to \<open>m_write\<close> from \<open>serial_t::write\<close> is never reached.\<close>

lemma pipe_write_cases:
  "pipe_write s =
     (if bl_pending s \<or> \<not> sr_ready s then s
      else case pp_queue s of
             [] \<Rightarrow> s
           | msg # rest \<Rightarrow>
               if serial_refuses msg s then s\<lparr>pp_queue := rest\<rparr>
               else serial_block_tighten (hd msg) (s\<lparr>pp_queue := rest, sr_pending_write := True,
                      sr_written := sr_written s @ [serial_frame msg]\<rparr>))"
  by (subst pipe_write.simps)
    (auto simp: serial_block_can_go_def serial_refuses_def serial_private_write_short Let_def
       DEV_MAX_SUB_MATRIX_SIZE_def split: list.split)

datatype serial_event = Render "u8 list" | Write_done | Arrive bytes

fun serial_event_step :: "serial_event \<Rightarrow> serial \<Rightarrow> serial" where
  "serial_event_step (Render matrix) s = pipe_render matrix s"
| "serial_event_step Write_done s = serial_asio_write s"
| "serial_event_step (Arrive bs) s = serial_asio_read False bs s"

text \<open>Nothing under way, but messages waiting.\<close>

definition pipe_stuck :: "serial \<Rightarrow> bool" where
  "pipe_stuck s \<longleftrightarrow> \<not> bl_pending s \<and> pp_queue s \<noteq> []"

lemma pipe_stuck_step:
  assumes "pipe_stuck s" "\<forall>bs. e \<noteq> Arrive bs"
  shows "pipe_stuck (serial_event_step e s) \<and> sr_written (serial_event_step e s) = sr_written s"
proof (cases e)
  case (Render matrix)
  from pipe_split_pieces [of True "map pipe_get_char matrix" s]
  obtain ms k where "pipe_split True (map pipe_get_char matrix) s
    = s\<lparr>pp_serial_id := k, pp_queue := pp_queue s @ ms\<rparr>" by blast
  with assms(1) Render show ?thesis by (simp add: pipe_render_def pipe_stuck_def Let_def)
qed (use assms in \<open>auto simp: pipe_stuck_def serial_asio_write_def\<close>)

lemma pipe_stuck_run:
  "pipe_stuck s \<Longrightarrow> \<forall>e \<in> set es. \<forall>bs. e \<noteq> Arrive bs
     \<Longrightarrow> sr_written (fold serial_event_step es s) = sr_written s"
proof (induction es arbitrary: s)
  case Nil
  then show ?case by simp
next
  case (Cons e es)
  then show ?case using pipe_stuck_step [of s e] by simp
qed

text \<open>The reply to the message \<open>m\<close>.\<close>

definition status_reply :: "bytes \<Rightarrow> bytes" where
  "status_reply m = dev_reply DEV_STATUS (hd m) DEV_STATUS_OK"

lemma serial_asio_read_status:
  assumes "sr_ready s" "\<not> sr_pending_read s" "sr_msg_buffer s = []"
  shows "serial_asio_read False (status_reply m) s = pipe_write (serial_block_relax (hd m) s)"
proof -
  have "status_reply m = serial_frame [hd m, DEV_STATUS, DEV_STATUS_OK] @ []"
    by (simp add: status_reply_def dev_reply_def serial_frame_def)
  then have "serial_split (status_reply m) = ([[hd m, DEV_STATUS, DEV_STATUS_OK]], [])"
    using serial_split_frame [of "[hd m, DEV_STATUS, DEV_STATUS_OK]" "[]"]
    by (simp add: serial_split_short)
  then have "serial_asio_read False (status_reply m) s
      = pipe_write (serial_block_relax (hd m) (s\<lparr>sr_msg_buffer := [], sr_pending_read := False\<rparr>))"
    using assms by (simp add: serial_asio_read_def serial_decode_split_def pipe_decode_def
        numeral_2_eq_2)
  moreover have same: "s\<lparr>sr_msg_buffer := [], sr_pending_read := False\<rparr> = s" using assms by simp
  ultimately show ?thesis by (simp only: same)
qed

text \<open>A reply that is handled before the completion of the write it answers stops the display for
  good: the next message leaves the queue, is refused because a write is pending, and is lost;
  the lock is open, but nothing tries to write the rest, whatever pictures follow. In the other
  order the next message is written.\<close>

theorem pipe_early_reply_stalls:
  assumes "sr_ready s" "\<not> sr_pending_read s" "sr_msg_buffer s = []" "\<not> sr_pending_write s"
    and "\<not> bl_pending s" "pp_queue s = [m1, m2, m3]" "list_all piece_ok [m1, m2, m3]"
    and "\<forall>e \<in> set es. \<forall>bs. e \<noteq> Arrive bs"
  shows "sr_written (fold serial_event_step ([Arrive (status_reply m1), Write_done] @ es) (pipe_write s))
      = sr_written s @ [serial_frame m1]
    \<and> sr_written (fold serial_event_step [Write_done, Arrive (status_reply m1)] (pipe_write s))
      = sr_written s @ [serial_frame m1, serial_frame m2]"
proof -
  have ids: "hd m1 \<noteq> 0" "hd m2 \<noteq> 0" "2 \<le> length m1" "length m1 \<le> 220" "2 \<le> length m2" "length m2 \<le> 220"
    using assms(7) by (cases m1; cases m2; simp add: piece_ok_def)+
  let ?s1 = "s\<lparr>pp_queue := [m2, m3], sr_pending_write := True,
    sr_written := sr_written s @ [serial_frame m1], bl_pending := True, bl_pending_id := hd m1\<rparr>"
  have s1: "pipe_write s = ?s1"
    using assms(1,4-6) ids by (subst pipe_write_cases)
      (simp add: serial_refuses_def HEADER_RIGHT_SIZE_def DEV_MAX_SUB_MATRIX_SIZE_def
        serial_block_tighten_def DEV_DEVICE_SERIAL_def)
  have relax: "serial_block_relax (hd m1) t = t\<lparr>bl_pending := False, bl_pending_id := 0\<rparr>"
    if "bl_pending t" "bl_pending_id t = hd m1" for t
    using that ids(1) by (simp add: serial_block_relax_def DEV_DEVICE_SERIAL_def)
  let ?s2 = "?s1\<lparr>pp_queue := [m3], bl_pending := False, bl_pending_id := 0\<rparr>"
  have "serial_asio_read False (status_reply m1) ?s1 = ?s2"
    using assms(1-3) serial_asio_read_status [of ?s1 m1]
    by (simp add: relax pipe_write_cases serial_refuses_def)
  moreover have "pipe_stuck (?s2\<lparr>sr_pending_write := False\<rparr>)" by (simp add: pipe_stuck_def)
  then have "sr_written (fold serial_event_step es (?s2\<lparr>sr_pending_write := False\<rparr>))
      = sr_written (?s2\<lparr>sr_pending_write := False\<rparr>)"
    using assms(8) by (rule pipe_stuck_run)
  ultimately have "sr_written (fold serial_event_step ([Arrive (status_reply m1), Write_done] @ es)
      (pipe_write s)) = sr_written s @ [serial_frame m1]"
    by (simp add: s1 serial_asio_write_def)
  moreover have "sr_written (serial_asio_read False (status_reply m1) (?s1\<lparr>sr_pending_write := False\<rparr>))
      = sr_written s @ [serial_frame m1, serial_frame m2]"
    using assms(1-3) ids serial_asio_read_status [of "?s1\<lparr>sr_pending_write := False\<rparr>" m1]
    by (simp add: relax pipe_write_cases serial_refuses_def HEADER_RIGHT_SIZE_def
        DEV_MAX_SUB_MATRIX_SIZE_def serial_block_tighten_def DEV_DEVICE_SERIAL_def)
  ultimately show ?thesis by (simp add: s1 serial_asio_write_def)
qed

definition sample_pipe :: serial where
  "sample_pipe = (pipe_new serial_new)\<lparr>sr_ready := True, sr_state := STATE_LAST,
     pp_queue := [[1, 7, 1, 9], [2, 7, 2, 9], [3, 7, 4, 9]]\<rparr>"

lemma pipe_early_reply_stalls_witness:
  "sr_written (fold serial_event_step [Arrive (status_reply [1, 7, 1, 9]), Write_done, Render [5]]
      (pipe_write sample_pipe)) = [serial_frame [1, 7, 1, 9]]"
  using pipe_early_reply_stalls [of sample_pipe "[1, 7, 1, 9]" "[2, 7, 2, 9]" "[3, 7, 4, 9]" "[Render [5]]"]
  by (simp add: sample_pipe_def pipe_new_def serial_new_def piece_ok_def DEV_SUB_MATRIX_def)

section \<open>The start-up dialogue with the controller\<close>

text \<open>
  One exchange: the bytes of a frame arrive at the controller, its main loop runs, and the data
  register interrupts empty its queue. The result is what it put on the line.
\<close>

definition ard_exchange :: "bytes \<Rightarrow> ard \<Rightarrow> (bytes \<times> ard) option" where
  "ard_exchange arrived a =
     (case ard_parse (fold ard_usart_rx arrived a) of
        Some (Stop a') \<Rightarrow>
          let a'' = (ard_usart_udre ^^ 50) a' in Some (a_uart a'', a''\<lparr>a_uart := []\<rparr>)
      | _ \<Rightarrow> None)"

datatype round = Answered | Request_lost | Reply_lost

text \<open>A turn of the loop in \<open>initial.cpp\<close>, 300 ms long, with what happens on the line in it.\<close>

definition initial_turn :: "round \<Rightarrow> serial \<times> ard \<Rightarrow> (serial \<times> ard) option" where
  "initial_turn r sa =
     (case sa of (s, a) \<Rightarrow>
        (case serial_handshake s of
           (False, s') \<Rightarrow> Some (s', a)
         | (True, s') \<Rightarrow>
             if r = Request_lost then Some (serial_asio_write s', a)
             else case ard_exchange (last (sr_written s')) a of
                    None \<Rightarrow> None
                  | Some (reply, a') \<Rightarrow>
                      if r = Reply_lost then Some (serial_asio_write s', a')
                      else Some (serial_asio_read False reply (serial_asio_write s'), a')))"

fun initial_run :: "round list \<Rightarrow> serial \<times> ard \<Rightarrow> (serial \<times> ard) option" where
  "initial_run [] sa = Some sa"
| "initial_run (r # rs) sa = Option.bind (initial_turn r sa) (initial_run rs)"

text \<open>The controller at rest.\<close>

definition ard_quiet :: "ard \<Rightarrow> bool" where
  "ard_quiet a \<longleftrightarrow> ard_ok a \<and> ard_held (a_read a) = [] \<and> ard_held (a_write a) = [] \<and> a_uart a = []
     \<and> ard_held (am_queue (a_parse_matrix a)) = []"

lemma ard_quiet_init: "ard_quiet ard_init"
  using ard_ok_init by (simp add: ard_quiet_def ard_init_def ard_held_init ard_matrix_init_def)

lemma ard_receive:
  assumes "ard_ok a" "length (ard_held (a_read a)) + length bs \<le> 255"
  shows "\<exists>q. fold ard_usart_rx bs a = a\<lparr>a_read := q\<rparr> \<and> ard_ok (a\<lparr>a_read := q\<rparr>)
    \<and> ard_held q = ard_held (a_read a) @ bs"
  using assms
proof (induction bs arbitrary: a)
  case Nil
  then show ?case by (intro exI [of _ "a_read a"]) simp
next
  case (Cons b bs)
  have wf: "ard_wf (a_read a)" "aq_max (a_read a) = 255" using Cons.prems(1) by (simp_all add: ard_ok_def)
  define q where "q = snd (ard_queue_fill_symbol (a_read a) b)"
  have "unat (aq_size (a_read a)) < unat (aq_max (a_read a))"
    using Cons.prems(2) length_ard_held [OF wf(1)] by (simp add: wf(2))
  then have q: "ard_held q = ard_held (a_read a) @ [b]" "ard_wf q" "aq_max q = 255"
    using ard_fill_symbol [OF wf(1), of b] wf(2) by (simp_all add: q_def)
  then have "ard_ok (a\<lparr>a_read := q\<rparr>)" using Cons.prems(1) by (simp add: ard_ok_def)
  from Cons.IH [OF this] Cons.prems(2) q(1) show ?case
    by (auto simp: ard_usart_rx_def simp flip: q_def)
qed

lemma ard_flush:
  assumes "ard_wf (a_write a)"
  shows "\<exists>q. (ard_usart_udre ^^ n) a
      = a\<lparr>a_write := q, a_uart := a_uart a @ take n (ard_held (a_write a))\<rparr>
    \<and> ard_wf q \<and> aq_max q = aq_max (a_write a) \<and> ard_held q = drop n (ard_held (a_write a))"
proof (induction n)
  case 0
  show ?case by (rule exI [of _ "a_write a"]) (simp add: assms)
next
  case (Suc n)
  then obtain q where q: "(ard_usart_udre ^^ n) a
      = a\<lparr>a_write := q, a_uart := a_uart a @ take n (ard_held (a_write a))\<rparr>"
    "ard_wf q" "aq_max q = aq_max (a_write a)" "ard_held q = drop n (ard_held (a_write a))" by blast
  show ?case
  proof (cases "ard_held q")
    case Nil
    have "ard_usart_udre (a\<lparr>a_write := q, a_uart := u\<rparr>) = a\<lparr>a_write := q, a_uart := u\<rparr>" for u
      using ard_drain_symbol(1) [OF q(2) Nil] by (simp add: ard_usart_udre_def)
    with q Nil show ?thesis by (intro exI [of _ q]) simp
  next
    case (Cons x xs)
    obtain q' where q': "ard_queue_drain_symbol q = (Some x, q')" "ard_held q' = xs" "ard_wf q'"
      "aq_max q' = aq_max q"
      using ard_drain_symbol [OF q(2)] Cons by (metis prod.collapse snd_conv)
    have "ard_usart_udre (a\<lparr>a_write := q, a_uart := u\<rparr>) = a\<lparr>a_write := q', a_uart := u @ [x]\<rparr>" for u
      using q'(1) by (simp add: ard_usart_udre_def)
    moreover have "take (Suc n) (ard_held (a_write a)) = take n (ard_held (a_write a)) @ [x]"
      "drop (Suc n) (ard_held (a_write a)) = xs"
    proof -
      have at: "drop n (ard_held (a_write a)) = x # xs" using Cons q(4) by simp
      then show "take (Suc n) (ard_held (a_write a)) = take n (ard_held (a_write a)) @ [x]"
        by (metis append_eq_conv_conj append_take_drop_id drop_eq_Nil hd_drop_conv_nth
            linorder_not_le list.distinct(1) list.sel(1) take_Suc_conv_app_nth)
      show "drop (Suc n) (ard_held (a_write a)) = xs"
        using at by (metis drop_Suc list.sel(3) tl_drop)
    qed
    ultimately show ?thesis using q q' by (intro exI [of _ q']) simp
  qed
qed

lemma ard_exchange_answers:
  assumes "ard_quiet a" "msg_id \<noteq> DEV_SUB_MATRIX" "length body \<le> 216"
  shows "\<exists>a'. ard_exchange (dev_message serial msg_id body) a
      = Some (dev_reply (fst (dev_answer msg_id body)) serial (snd (dev_answer msg_id body)), a')
    \<and> ard_quiet a'"
proof -
  have ok: "ard_ok a" and held: "ard_held (a_read a) = []"
    using assms(1) by (simp_all add: ard_quiet_def)
  let ?reply = "dev_reply (fst (dev_answer msg_id body)) serial (snd (dev_answer msg_id body))"
  have "length (ard_held (a_read a)) + length (dev_message serial msg_id body) \<le> 255"
    using held assms(3) by (simp add: dev_message_def)
  from ard_receive [OF ok this] obtain q where q: "fold ard_usart_rx (dev_message serial msg_id body) a
      = a\<lparr>a_read := q\<rparr>" "ard_ok (a\<lparr>a_read := q\<rparr>)" "ard_held q = dev_message serial msg_id body"
    using held by auto
  have wfw: "ard_wf (a_write a)" using ok by (simp add: ard_ok_def)
  have "unat (aq_size (a_write a)) = 0"
    using length_ard_held [OF wfw] assms(1) by (simp add: ard_quiet_def)
  then have "ard_room (a\<lparr>a_read := q\<rparr>)" by (simp add: ard_room_def)
  from ard_parse_message [OF q(2) this _ _ assms(3), of serial msg_id] q(3) assms(1)
  obtain a1 where a1: "ard_parse (a\<lparr>a_read := q\<rparr>) = Some (Stop a1)" "ard_ok a1"
    "ard_held (a_read a1) = []" "ard_sent a1 = ard_sent (a\<lparr>a_read := q\<rparr>) @ ?reply"
    "dev_shown msg_id body (a_parse_matrix a) (a_parse_matrix a1)"
    by (auto simp: ard_quiet_def)
  have sent: "ard_sent a1 = ?reply"
    using a1(4) assms(1) by (simp add: ard_sent_def ard_quiet_def)
  have wf1: "ard_wf (a_write a1)" "aq_max (a_write a1) = 50" using a1(2) by (simp_all add: ard_ok_def)
  obtain q' where q': "(ard_usart_udre ^^ 50) a1
      = a1\<lparr>a_write := q', a_uart := a_uart a1 @ take 50 (ard_held (a_write a1))\<rparr>"
    "ard_wf q'" "aq_max q' = 50" "ard_held q' = drop 50 (ard_held (a_write a1))"
    using ard_flush [OF wf1(1), of 50] wf1(2) by auto
  have "length (ard_held (a_write a1)) \<le> 50"
    using length_ard_held [OF wf1(1)] wf1 by (simp add: ard_wf_def u8_le_iff)
  then have "ard_exchange (dev_message serial msg_id body) a
      = Some (?reply, a1\<lparr>a_write := q', a_uart := []\<rparr>)"
    using sent by (simp add: ard_exchange_def q(1) a1(1) q'(1) Let_def ard_sent_def)
  moreover have "a_parse_matrix a1 = a_parse_matrix a"
    using a1(5) assms(2) by (simp add: dev_shown_def)
  then have "ard_quiet (a1\<lparr>a_write := q', a_uart := []\<rparr>)"
    using a1 q' \<open>length _ \<le> 50\<close> assms(1) by (simp add: ard_quiet_def ard_ok_def)
  ultimately show ?thesis by blast
qed

definition initial_ok :: "nat \<Rightarrow> serial \<Rightarrow> ard \<Rightarrow> bool" where
  "initial_ok k s a \<longleftrightarrow> k \<le> 6 \<and> sr_state s = of_nat k \<and> (sr_ready s \<longrightarrow> k = 6)
     \<and> \<not> sr_pending_read s \<and> sr_msg_buffer s = [] \<and> sr_bound s \<and> pp_queue s = [] \<and> ard_quiet a"

lemma initial_message:
  assumes "k < 6"
  shows "\<exists>msg_id body. handshake_message (of_nat k) = Some (msg_id, body)
    \<and> msg_id \<noteq> DEV_SUB_MATRIX \<and> length body \<le> 1 \<and> dev_answer msg_id body = (msg_id, DEV_STATUS_OK)
    \<and> (\<forall>s. sr_state s = of_nat k \<longrightarrow>
          serial_decode_initial [serial_id, msg_id, st] s = s\<lparr>sr_state := of_nat (Suc k)\<rparr>)"
proof -
  from assms consider "k = 0" | "k = 1" | "k = 2" | "k = 3" | "k = 4" | "k = 5" by linarith
  then show ?thesis
    by cases (simp_all add: handshake_message_def serial_state_defs dev_answer_def dev_msg_defs
        serial_decode_initial_def numeral_3_eq_3)
qed

text \<open>A turn: an answered one moves to the next state, the others repeat; after the sixth the port is ready.\<close>

lemma initial_turn_step:
  assumes "initial_ok k s a"
  shows "\<exists>s' a'. initial_turn r (s, a) = Some (s', a')
    \<and> initial_ok (if r = Answered \<and> k < 6 then Suc k else k) s' a' \<and> (sr_ready s' \<longleftrightarrow> k = 6)"
proof (cases "k = 6")
  case True
  then have "serial_handshake s = (False, s\<lparr>sr_ready := True\<rparr>)"
    using assms by (simp add: serial_handshake_def initial_ok_def serial_state_defs Let_def
        pipe_write_cases)
  with True assms show ?thesis by (simp add: initial_turn_def initial_ok_def)
next
  case False
  with assms have k: "k < 6" "\<not> sr_ready s" by (auto simp: initial_ok_def)
  let ?i = "sr_static_id s + 1"
  obtain msg_id body where msg: "handshake_message (of_nat k) = Some (msg_id, body)"
    "msg_id \<noteq> DEV_SUB_MATRIX" "length body \<le> 1" "dev_answer msg_id body = (msg_id, DEV_STATUS_OK)"
    and dec: "\<And>t. sr_state t = of_nat k \<Longrightarrow>
      serial_decode_initial [?i, msg_id, DEV_STATUS_OK] t = t\<lparr>sr_state := of_nat (Suc k)\<rparr>"
    using initial_message [OF k(1), of ?i DEV_STATUS_OK] by blast
  have "\<not> STATE_LAST \<le> sr_state s"
    using assms k(1) by (simp add: initial_ok_def STATE_LAST_def u8_le_iff)
  moreover have "serial_frame (dev_encode [?i, msg_id] body) = dev_message ?i msg_id body"
    by (simp add: serial_frame_def dev_encode_def dev_message_def)
  moreover have "length (dev_encode [?i, msg_id] body) \<le> 220" using msg(3) by (simp add: dev_encode_def)
  ultimately have hs: "serial_handshake s = (True, s\<lparr>sr_static_id := ?i, sr_pending_write := True,
      sr_written := sr_written s @ [dev_message ?i msg_id body]\<rparr>)"
    using assms msg(1) by (simp add: serial_handshake_def initial_ok_def Let_def
        serial_private_write_short)
  obtain a' where ex: "ard_exchange (dev_message ?i msg_id body) a
      = Some (dev_reply msg_id ?i DEV_STATUS_OK, a')" "ard_quiet a'"
    using ard_exchange_answers [of a msg_id body ?i] assms msg by (auto simp: initial_ok_def)
  let ?t = "s\<lparr>sr_static_id := ?i, sr_written := sr_written s @ [dev_message ?i msg_id body],
    sr_pending_write := False\<rparr>"
  have "dev_reply msg_id ?i DEV_STATUS_OK = serial_frame [?i, msg_id, DEV_STATUS_OK] @ []"
    by (simp add: dev_reply_def serial_frame_def)
  then have "serial_split (dev_reply msg_id ?i DEV_STATUS_OK) = ([[?i, msg_id, DEV_STATUS_OK]], [])"
    using serial_split_frame [of "[?i, msg_id, DEV_STATUS_OK]" "[]"] by (simp add: serial_split_short)
  then have "serial_asio_read False (dev_reply msg_id ?i DEV_STATUS_OK) ?t
      = serial_decode_initial [?i, msg_id, DEV_STATUS_OK]
          (?t\<lparr>sr_msg_buffer := [], sr_pending_read := False\<rparr>)"
    using assms k(2) by (simp add: initial_ok_def serial_asio_read_def serial_decode_split_def)
  also have "\<dots> = ?t\<lparr>sr_msg_buffer := [], sr_pending_read := False, sr_state := of_nat (Suc k)\<rparr>"
    using assms dec by (simp add: initial_ok_def)
  finally have read: "serial_asio_read False (dev_reply msg_id ?i DEV_STATUS_OK) ?t
      = ?t\<lparr>sr_msg_buffer := [], sr_pending_read := False, sr_state := of_nat (Suc k)\<rparr>" .
  show ?thesis
    using assms k ex hs read
    by (cases r) (simp_all add: initial_turn_def initial_ok_def serial_asio_write_def)
qed

lemma initial_run_append:
  "initial_run (rs @ rs') sa = Option.bind (initial_run rs sa) (initial_run rs')"
proof (induction rs arbitrary: sa)
  case Nil
  then show ?case by simp
next
  case (Cons r rs)
  then show ?case by (cases "initial_turn r sa") simp_all
qed

lemma initial_run_ok:
  assumes "initial_ok k s a"
  shows "\<exists>s' a'. initial_run rs (s, a) = Some (s', a')
    \<and> initial_ok (min 6 (k + count_list rs Answered)) s' a'"
  using assms
proof (induction rs arbitrary: k s a)
  case Nil
  then have "min 6 k = k" by (simp add: initial_ok_def)
  with Nil show ?case by simp
next
  case (Cons r rs)
  obtain s' a' where turn: "initial_turn r (s, a) = Some (s', a')"
    "initial_ok (if r = Answered \<and> k < 6 then Suc k else k) s' a'"
    using initial_turn_step [OF Cons.prems] by blast
  have "k \<le> 6" using Cons.prems by (simp add: initial_ok_def)
  then have "min 6 ((if r = Answered \<and> k < 6 then Suc k else k) + count_list rs Answered)
      = min 6 (k + count_list (r # rs) Answered)" by auto
  with Cons.IH [OF turn(2)] turn(1) show ?case by simp
qed


end
