(* ===== verification/Old_Net.thy ===== *)
theory Old_Net
  imports Old_Codec
begin

text \<open>
  The second generation of the network, \<open>src/obsoleted\<close>: the buffered socket
  (\<open>util/string-move.hpp\<close>, \<open>util/socket_rw.hpp\<close>), the client that reconnects (\<open>util/client.hpp\<close>),
  the session of the daemon (\<open>led-d/session.cpp\<close>) and the gateway that feeds it
  (\<open>gateway/daemon.cpp\<close>, \<open>content.cpp\<close>, \<open>clock.cpp\<close>). \<open>asio\<close> is the list of the buffers handed to
  \<open>async_write\<close> and the completions as events. The two users of the socket postpone messages the same
  way; the locale \<open>postponing\<close> states it once, and both are interpreted.
\<close>

section \<open>\<open>string_move\<close>\<close>

text \<open>The overloads give the contents of the array up to the length they return.\<close>

definition string_move_const :: "nat \<Rightarrow> string \<Rightarrow> string \<Rightarrow> string \<times> string" where
  "string_move_const n src dst_2 =
     (if length src \<le> n then (src, dst_2) else (take n src, drop n src))"

definition string_move :: "nat \<Rightarrow> string \<Rightarrow> string \<times> string" where
  "string_move n src = (if length src \<le> n then (src, []) else (take n src, drop n src))"

definition string_move_append :: "string \<Rightarrow> nat \<Rightarrow> string \<Rightarrow> string" where
  "string_move_append src src_len dst = fold (\<lambda>i dst. dst @ [src ! i]) [0..<src_len] dst"

lemma string_move_append_take:
  "n \<le> length src \<Longrightarrow> string_move_append src n dst = dst @ take n src"
proof (induction n)
  case 0
  then show ?case by (simp add: string_move_append_def)
next
  case (Suc n)
  then show ?case by (simp add: string_move_append_def take_Suc_conv_app_nth)
qed

section \<open>\<open>socket_rw_t\<close>\<close>

text \<open>\<open>rw_handed\<close> lists the buffers given to \<open>async_write\<close>, \<open>rw_reading\<close> a read that was started.\<close>

record rw =
  rw_write_started :: bool
  rw_out_buf :: string
  rw_in_buf :: string
  rw_handed :: "string list"
  rw_reading :: bool

definition rw_new :: rw where
  "rw_new = \<lparr>rw_write_started = False, rw_out_buf = [], rw_in_buf = [], rw_handed = [],
     rw_reading = False\<rparr>"

definition rw_async_read :: "rw \<Rightarrow> rw" where
  "rw_async_read w = w\<lparr>rw_reading := True\<rparr>"

definition rw_write :: "nat \<Rightarrow> string \<Rightarrow> rw \<Rightarrow> bool \<times> rw" where
  "rw_write buf_size txt w =
     (if rw_write_started w then (False, w)
      else case string_move_const buf_size txt (rw_out_buf w) of
             (buf, out) \<Rightarrow>
               (True, w\<lparr>rw_write_started := True, rw_out_buf := out, rw_handed := rw_handed w @ [buf]\<rparr>))"

definition rw_next_chunk :: "nat \<Rightarrow> rw \<Rightarrow> rw" where
  "rw_next_chunk buf_size w =
     (case string_move buf_size (rw_out_buf w) of
        (buf, out) \<Rightarrow> w\<lparr>rw_out_buf := out, rw_handed := rw_handed w @ [buf]\<rparr>)"

text \<open>
  \<open>write_completed\<close>, for an owner \<open>'s\<close> of the socket: \<open>m_written\<close> is the callback of the owner, called
  before the flag is reset.
\<close>

definition rw_write_completed ::
  "nat \<Rightarrow> ('s \<Rightarrow> rw) \<Rightarrow> ((rw \<Rightarrow> rw) \<Rightarrow> 's \<Rightarrow> 's) \<Rightarrow> ('s \<Rightarrow> 's) \<Rightarrow> bool \<Rightarrow> 's \<Rightarrow> 's" where
  "rw_write_completed buf_size get upd m_written error s =
     (if error then s
      else if rw_out_buf (get s) = []
      then upd (\<lambda>w. w\<lparr>rw_write_started := False\<rparr>) (m_written s)
      else upd (rw_next_chunk buf_size) s)"

text \<open>
  \<open>read_completed\<close>: the outcome of the callback may be an exception, or no outcome at all.
\<close>

datatype read_error = No_error | Disconnected | Other_error

definition rw_read_completed ::
  "('s \<Rightarrow> rw) \<Rightarrow> ((rw \<Rightarrow> rw) \<Rightarrow> 's \<Rightarrow> 's) \<Rightarrow> (string \<Rightarrow> 's \<Rightarrow> (cpp_exn + string \<times> 's) option)
     \<Rightarrow> ('s \<Rightarrow> 's) \<Rightarrow> read_error \<Rightarrow> string \<Rightarrow> 's \<Rightarrow> (cpp_exn + 's) option" where
  "rw_read_completed get upd m_read m_disconnect error arrived s =
     (let s = upd (\<lambda>w. w\<lparr>rw_reading := False\<rparr>) s
      in if error = Disconnected then Some (Inr (m_disconnect s))
         else if error = Other_error then Some (Inr s)
         else let s = upd (\<lambda>w. w\<lparr>rw_in_buf := string_move_append arrived (length arrived) (rw_in_buf w)\<rparr>) s
              in case m_read (rw_in_buf (get s)) s of
                   None \<Rightarrow> None
                 | Some (Inl e) \<Rightarrow> Some (Inl e)
                 | Some (Inr (info, s)) \<Rightarrow>
                     Some (Inr (upd (rw_async_read \<circ> (\<lambda>w. w\<lparr>rw_in_buf := info\<rparr>)) s)))"

section \<open>\<open>led_d::session_t\<close>\<close>

definition SESSION_SIZE :: nat where "SESSION_SIZE = 1024"

record net_session =
  ns_rw :: rw
  ns_postponed :: "string list"
  ns_queue :: "string list"
  ns_disconnects :: nat

definition net_session_new :: net_session where
  "net_session_new = \<lparr>ns_rw = rw_new, ns_postponed = [], ns_queue = [], ns_disconnects = 0\<rparr>"

definition net_session_start :: "net_session \<Rightarrow> net_session" where
  "net_session_start s = s\<lparr>ns_rw := rw_async_read (ns_rw s)\<rparr>"

definition net_session_write :: "string \<Rightarrow> net_session \<Rightarrow> net_session" where
  "net_session_write info s =
     (if ns_postponed s = [] then
        (case rw_write SESSION_SIZE info (ns_rw s) of
           (True, w) \<Rightarrow> s\<lparr>ns_rw := w\<rparr>
         | (False, w) \<Rightarrow> s\<lparr>ns_rw := w, ns_postponed := ns_postponed s @ [info]\<rparr>)
      else s\<lparr>ns_postponed := ns_postponed s @ [info]\<rparr>)"

definition net_session_write_cb :: "net_session \<Rightarrow> net_session" where
  "net_session_write_cb s =
     (case ns_postponed s of
        [] \<Rightarrow> s
      | info # rest \<Rightarrow>
          let s = s\<lparr>ns_postponed := rest\<rparr>
          in s\<lparr>ns_rw := snd (rw_write SESSION_SIZE info (ns_rw s))\<rparr>)"

definition net_session_written :: "bool \<Rightarrow> net_session \<Rightarrow> net_session" where
  "net_session_written =
     rw_write_completed SESSION_SIZE ns_rw (\<lambda>f. ns_rw_update f) net_session_write_cb"

text \<open>\<open>read_cb\<close>: the loop decodes a length and cuts the text there, whatever has arrived.\<close>

partial_function (option) net_session_read_cb ::
  "string \<Rightarrow> net_session \<Rightarrow> (cpp_exn + string \<times> net_session) option" where
  "net_session_read_cb info s =
     (case unix_decode_size info 0 of
        (ok, text_len) \<Rightarrow>
          if \<not> ok then Some (Inr (info, s))
          else case str_substr info (Some text_len) None of
                 Inl e \<Rightarrow> Some (Inl e)
               | Inr rest \<Rightarrow>
                   net_session_read_cb rest (s\<lparr>ns_queue := ns_queue s @ [take text_len info]\<rparr>))"

definition net_session_disconnect_cb :: "net_session \<Rightarrow> net_session" where
  "net_session_disconnect_cb s = s\<lparr>ns_disconnects := ns_disconnects s + 1\<rparr>"

definition net_session_read ::
  "read_error \<Rightarrow> string \<Rightarrow> net_session \<Rightarrow> (cpp_exn + net_session) option" where
  "net_session_read =
     rw_read_completed ns_rw (\<lambda>f. ns_rw_update f) net_session_read_cb net_session_disconnect_cb"

section \<open>\<open>client_t\<close> and the gateway\<close>

text \<open>
  The members of \<open>client_t\<close>, \<open>daemon_t\<close> and \<open>content_t\<close> in one record, since their callbacks refer to each
  other. \<open>gw_connects\<close> counts the calls of \<open>async_connect\<close>, \<open>gw_retry\<close> is the connect timer.
\<close>

definition CLIENT_SIZE :: nat where "CLIENT_SIZE = 255"

record gateway =
  gw_rw :: rw
  gw_connect_started :: bool
  gw_connected :: bool
  gw_connects :: nat
  gw_retry :: bool
  gw_write_queue :: "string list"
  gw_infos :: "string option list"
  gw_current :: nat

definition client_connect :: "bool \<Rightarrow> gateway \<Rightarrow> gateway" where
  "client_connect force g =
     (if gw_connected g \<or> (\<not> force \<and> gw_connect_started g) then g
      else g\<lparr>gw_connect_started := True, gw_connects := gw_connects g + 1\<rparr>)"

definition client_write :: "string \<Rightarrow> gateway \<Rightarrow> bool \<times> gateway" where
  "client_write txt g =
     (if \<not> gw_connected g then (False, g)
      else case rw_write CLIENT_SIZE txt (gw_rw g) of (ok, w) \<Rightarrow> (ok, g\<lparr>gw_rw := w\<rparr>))"

text \<open>\<open>daemon_t::write\<close> and \<open>notify_write\<close>\<close>

definition gateway_write :: "unix_request \<Rightarrow> gateway \<Rightarrow> gateway" where
  "gateway_write request g =
     (case unix_encode unix_request_encode request of
        None \<Rightarrow> g
      | Some msg \<Rightarrow>
          if gw_write_queue g = [] then
            (case client_write msg g of
               (True, g') \<Rightarrow> g'
             | (False, g') \<Rightarrow> g'\<lparr>gw_write_queue := gw_write_queue g' @ [msg]\<rparr>)
          else g\<lparr>gw_write_queue := gw_write_queue g @ [msg]\<rparr>)"

definition gateway_notify_write :: "gateway \<Rightarrow> gateway" where
  "gateway_notify_write g =
     (case gw_write_queue g of
        [] \<Rightarrow> g
      | msg # rest \<Rightarrow> snd (client_write msg (g\<lparr>gw_write_queue := rest\<rparr>)))"

definition gateway_written :: "bool \<Rightarrow> gateway \<Rightarrow> gateway" where
  "gateway_written = rw_write_completed CLIENT_SIZE gw_rw (\<lambda>f. gw_rw_update f) gateway_notify_write"

definition REQUEST_INSERT :: u32 where "REQUEST_INSERT = 1"
definition REQUEST_SUBSCRIBE :: u32 where "REQUEST_SUBSCRIBE = 2"
definition RESPONSE_POLL :: u32 where "RESPONSE_POLL = 2"

definition gateway_notify_connect :: "gateway \<Rightarrow> gateway" where
  "gateway_notify_connect g = gateway_write (unix_request_new\<lparr>ur_action := REQUEST_SUBSCRIBE\<rparr>) g"

definition client_connect_completed :: "bool \<Rightarrow> gateway \<Rightarrow> gateway" where
  "client_connect_completed error g =
     (if error then g\<lparr>gw_retry := True\<rparr>
      else let g = g\<lparr>gw_rw := rw_async_read (gw_rw g)\<rparr>;
               g = g\<lparr>gw_connect_started := False, gw_connected := True\<rparr>
           in gateway_notify_connect g)"

text \<open>The connect timer: \<open>connect (true)\<close>.\<close>

definition client_retry :: "gateway \<Rightarrow> gateway" where
  "client_retry g = (if gw_retry g then client_connect True (g\<lparr>gw_retry := False\<rparr>) else g)"

definition client_disconnect_completed :: "gateway \<Rightarrow> gateway" where
  "client_disconnect_completed g =
     client_connect False (g\<lparr>gw_connected := False, gw_connect_started := False\<rparr>)"

text \<open>\<open>content_t::push\<close>: at most one turn around the callbacks.\<close>

function content_push_loop :: "nat \<Rightarrow> gateway \<Rightarrow> gateway" where
  "content_push_loop count g =
     (let status = gw_infos g ! gw_current g;
          g' = (case status of
                  None \<Rightarrow> g
                | Some msg \<Rightarrow>
                    gateway_write (unix_request_new\<lparr>ur_action := REQUEST_INSERT, ur_info := msg\<rparr>) g);
          g'' = g'\<lparr>gw_current := (if gw_current g' + 1 \<ge> length (gw_infos g) then 0
                                 else gw_current g' + 1)\<rparr>
      in if status = None \<and> count + 1 < length (gw_infos g)
         then content_push_loop (count + 1) (g\<lparr>gw_current := gw_current g''\<rparr>)
         else g'')"
  by pat_completeness auto
termination
  by (relation "measure (\<lambda>(count, g). length (gw_infos g) - count)") auto

declare content_push_loop.simps [simp del]

definition content_push :: "gateway \<Rightarrow> gateway" where
  "content_push g = (if gw_infos g = [] then g else content_push_loop 0 g)"

text \<open>\<open>notify_read\<close>: one message at most, \<open>None\<close> never since there is no loop.\<close>

definition gateway_notify_read :: "string \<Rightarrow> gateway \<Rightarrow> (cpp_exn + string \<times> gateway) option" where
  "gateway_notify_read info g =
     (case unix_decode_size info 0 of
        (ok, len) \<Rightarrow>
          if \<not> ok \<or> length info < len then Some (Inr (info, g))
          else case unix_decode unix_response_fields (take len info) unix_response_new of
                 Inl e \<Rightarrow> Some (Inl e)
               | Inr (ok, response) \<Rightarrow>
                   Some (Inr (drop len info,
                     if ok \<and> us_status response = RESPONSE_POLL then content_push g else g)))"

definition gateway_read :: "read_error \<Rightarrow> string \<Rightarrow> gateway \<Rightarrow> (cpp_exn + gateway) option" where
  "gateway_read =
     rw_read_completed gw_rw (\<lambda>f. gw_rw_update f) gateway_notify_read client_disconnect_completed"

section \<open>\<open>clock.cpp\<close>\<close>

text \<open>The broken-down local time of \<open>localtime_r\<close>, as far as it is used.\<close>

record tm =
  tm_sec :: nat
  tm_min :: nat
  tm_hour :: nat
  tm_mday :: nat
  tm_mon :: nat
  tm_wday :: nat

definition time_info :: "tm \<Rightarrow> string" where
  "time_info t = ''T '' @ dec_string (tm_hour t) @ ''-'' @ (if tm_min t < 10 then ''0'' else [])
     @ dec_string (tm_min t) @ ''  ''"

definition time_delay :: "tm \<Rightarrow> int" where
  "time_delay t = 60 - int (tm_sec t)"

definition month_vector :: "string list" where
  "month_vector = [''Jan'', ''Feb'', ''Mar'', ''Apr'', ''May'', ''Jun'', ''Jul'', ''Aug'', ''Sep'',
     ''Oct'', ''Nov'', ''Dec'']"

definition day_vector :: "string list" where
  "day_vector = [''Sunday'', ''Monday'', ''Tuesday'', ''Wednesday'', ''Thursday'', ''Friday'',
     ''Saturday'']"

definition date_info :: "tm \<Rightarrow> string" where
  "date_info t = ''D '' @ dec_string (tm_mday t) @ '' '' @ month_vector ! tm_mon t @ ''  ''"

definition day_info :: "tm \<Rightarrow> string" where
  "day_info t = day_vector ! tm_wday t @ ''  ''"

definition date_day_delay :: "tm \<Rightarrow> int" where
  "date_day_delay t = 61 - int (tm_sec t) + (60 - int (tm_min t)) * 60 + (24 - int (tm_hour t)) * 3600"

definition gateway_start :: "tm \<Rightarrow> gateway" where
  "gateway_start t = client_connect False
     \<lparr>gw_rw = rw_new, gw_connect_started = False, gw_connected = False, gw_connects = 0,
      gw_retry = False, gw_write_queue = [],
      gw_infos = [Some (time_info t), Some (date_info t), Some (day_info t)], gw_current = 0\<rparr>"

text \<open>The timers of the clock rewrite their strings.\<close>

definition clock_init_time :: "tm \<Rightarrow> gateway \<Rightarrow> gateway" where
  "clock_init_time t g = g\<lparr>gw_infos := (gw_infos g)[0 := Some (time_info t)]\<rparr>"

definition clock_init_date_day :: "tm \<Rightarrow> gateway \<Rightarrow> gateway" where
  "clock_init_date_day t g =
     g\<lparr>gw_infos := (gw_infos g)[1 := Some (date_info t), 2 := Some (day_info t)]\<rparr>"

section \<open>Postponed messages\<close>

text \<open>
  What the session and the gateway have in common: a message joins the postponed ones when there
  are some, and the completion of the last buffer offers the oldest one to the socket while the
  socket still counts as writing.
\<close>

locale postponing =
  fixes write_msg :: "'m \<Rightarrow> 's \<Rightarrow> 's"
    and encoded :: "'m \<Rightarrow> string option"
    and last_written :: "'s \<Rightarrow> 's"
    and socket :: "'s \<Rightarrow> rw"
    and postponed :: "'s \<Rightarrow> string list"
  assumes write_postponed: "postponed s \<noteq> [] \<Longrightarrow>
      socket (write_msg m s) = socket s
      \<and> postponed (write_msg m s) = postponed s @ (case encoded m of None \<Rightarrow> [] | Some t \<Rightarrow> [t])"
    and last_written_postponed:
      "rw_write_started (socket s) \<Longrightarrow> rw_out_buf (socket s) = [] \<Longrightarrow> postponed s = t # ts \<Longrightarrow>
         socket (last_written s) = (socket s)\<lparr>rw_write_started := False\<rparr>
         \<and> postponed (last_written s) = ts"
begin

lemma writes_postponed:
  "postponed s \<noteq> [] \<Longrightarrow>
     socket (fold write_msg ms s) = socket s
     \<and> postponed (fold write_msg ms s) = postponed s @ concat (map (\<lambda>m. case encoded m of
         None \<Rightarrow> [] | Some t \<Rightarrow> [t]) ms)"
proof (induction ms arbitrary: s)
  case Nil
  then show ?case by simp
next
  case (Cons m ms)
  with write_postponed [of s m] show ?case by simp
qed

lemma stalls:
  assumes "rw_write_started (socket s)" "rw_out_buf (socket s) = []" "postponed s = t # t' # ts"
  shows "socket (fold write_msg ms (last_written s)) = (socket s)\<lparr>rw_write_started := False\<rparr>
    \<and> postponed (fold write_msg ms (last_written s)) = t' # ts @ concat (map (\<lambda>m. case encoded m of
        None \<Rightarrow> [] | Some t \<Rightarrow> [t]) ms)"
  using writes_postponed [of "last_written s" ms] last_written_postponed [OF assms] by simp

end

lemma rw_write_refused [simp]: "rw_write_started w \<Longrightarrow> rw_write n txt w = (False, w)"
  by (simp add: rw_write_def)

interpretation session_postponing:
  postponing net_session_write Some "net_session_written False" ns_rw ns_postponed
  by unfold_locales
    (auto simp: net_session_write_def net_session_written_def rw_write_completed_def
       net_session_write_cb_def Let_def)

interpretation gateway_postponing:
  postponing gateway_write "unix_encode unix_request_encode" "gateway_written False" gw_rw gw_write_queue
  by unfold_locales
    (auto simp: gateway_write_def gateway_written_def rw_write_completed_def
       gateway_notify_write_def client_write_def Let_def split: option.split)

text \<open>A session that is sent two messages while it writes goes silent for good: the completion
  callback runs before the flag of the socket is reset, so the first postponed message is
  dropped, and since the second stays postponed, every later message joins it and no buffer is
  ever handed to the socket again.\<close>

theorem net_session_stalls:
  assumes "rw_write_started (ns_rw s)" "rw_out_buf (ns_rw s) = []" "ns_postponed s = [m1, m2]"
  shows "rw_handed (ns_rw (fold net_session_write infos (net_session_written False s)))
      = rw_handed (ns_rw s)
    \<and> ns_postponed (fold net_session_write infos (net_session_written False s)) = m2 # infos"
  using session_postponing.stalls [OF assms, of infos] by (simp add: concat_singletons)

lemma net_session_stalls_witness:
  "rw_handed (ns_rw (fold net_session_write [''d'', ''e''] (net_session_written False
      (fold net_session_write [''a'', ''b'', ''c''] net_session_new)))) = [''a'']"
proof -
  let ?s = "fold net_session_write [''a'', ''b'', ''c''] net_session_new"
  have "rw_write_started (ns_rw ?s)" "rw_out_buf (ns_rw ?s) = []" "ns_postponed ?s = [''b'', ''c'']"
    "rw_handed (ns_rw ?s) = [''a'']"
    by (simp_all add: net_session_write_def net_session_new_def rw_new_def rw_write_def
        string_move_const_def SESSION_SIZE_def)
  with net_session_stalls [of ?s "''b''" "''c''" "[''d'', ''e'']"] show ?thesis by simp
qed

section \<open>One message in buffers\<close>

lemma rw_chunks:
  assumes "0 < n" "rw_out_buf w = out"
  shows "\<exists>cs. (rw_next_chunk n ^^ ((length out + n - 1) div n)) w
      = w\<lparr>rw_out_buf := [], rw_handed := rw_handed w @ cs\<rparr>
    \<and> concat cs = out \<and> (\<forall>c \<in> set cs. length c \<le> n)"
  using assms(2)
proof (induction "length out" arbitrary: out w rule: less_induct)
  case less
  show ?case
  proof (cases "out = []")
    case True
    with less.prems assms(1) show ?thesis by (intro exI [of _ "[]"]) simp
  next
    case False
    let ?w = "rw_next_chunk n w"
    have w: "?w = w\<lparr>rw_out_buf := drop n out, rw_handed := rw_handed w @ [take n out]\<rparr>"
      using less.prems by (simp add: rw_next_chunk_def string_move_def)
    have "length (drop n out) < length out" using False assms(1) by simp
    moreover have "rw_out_buf ?w = drop n out" by (simp add: w)
    ultimately obtain cs where cs: "(rw_next_chunk n ^^ ((length (drop n out) + n - 1) div n)) ?w
        = ?w\<lparr>rw_out_buf := [], rw_handed := rw_handed ?w @ cs\<rparr>" "concat cs = drop n out"
      "\<forall>c \<in> set cs. length c \<le> n" using less.hyps by blast
    have "(length out + n - 1) div n = Suc ((length (drop n out) + n - 1) div n)"
    proof (cases "length out \<le> n")
      case True
      then have "(length out + n - 1) div n = 1"
        using False assms(1) by (cases out) (auto intro!: div_nat_eqI)
      with True assms(1) show ?thesis by simp
    next
      case False
      then have "length out + n - 1 = (length out - n + n - 1) + n" by simp
      then show ?thesis using assms(1) by (simp only: div_add_self2 length_drop)
    qed
    with cs show ?thesis by (intro exI [of _ "take n out # cs"]) (simp add: funpow_swap1 w)
  qed
qed

text \<open>A session with nothing to write hands a message of any length to the socket in buffers of at most
  1024 characters, in order and without loss, and accepts the next message after the completion
  of the last of them.\<close>

theorem net_session_delivers:
  assumes "ns_rw s = w" "\<not> rw_write_started w" "rw_out_buf w = []" "ns_postponed s = []"
  shows "\<exists>cs. (net_session_written False ^^ Suc ((length info - 1) div SESSION_SIZE)) (net_session_write info s)
      = s\<lparr>ns_rw := w\<lparr>rw_handed := rw_handed w @ cs\<rparr>\<rparr>
    \<and> concat cs = info \<and> (\<forall>c \<in> set cs. length c \<le> SESSION_SIZE)"
proof -
  let ?n = "SESSION_SIZE"
  have n: "0 < ?n" by (simp add: SESSION_SIZE_def)
  let ?k = "(length info - 1) div ?n"
  let ?w1 = "w\<lparr>rw_write_started := True, rw_out_buf := drop ?n info, rw_handed := rw_handed w @ [take ?n info]\<rparr>"
  have start: "net_session_write info s = s\<lparr>ns_rw := ?w1\<rparr>"
    using assms by (auto simp: net_session_write_def rw_write_def string_move_const_def)
  have "(length (drop ?n info) + ?n - 1) div ?n = ?k"
  proof (cases "length info \<le> ?n")
    case True
    then have "length info - 1 < ?n" using n by linarith
    with True n show ?thesis by simp
  qed (simp add: n)
  with rw_chunks [OF n, of ?w1 "drop ?n info"] obtain cs where cs:
    "(rw_next_chunk ?n ^^ ?k) ?w1 = ?w1\<lparr>rw_out_buf := [], rw_handed := rw_handed ?w1 @ cs\<rparr>"
    "concat cs = drop ?n info" "\<forall>c \<in> set cs. length c \<le> ?n" by auto
  have step: "net_session_written False (s\<lparr>ns_rw := v\<rparr>) = s\<lparr>ns_rw := rw_next_chunk ?n v\<rparr>"
    if "rw_out_buf v \<noteq> []" for v
    using that by (simp add: net_session_written_def rw_write_completed_def)
  have run: "j \<le> ?k \<Longrightarrow> (net_session_written False ^^ j) (s\<lparr>ns_rw := ?w1\<rparr>)
      = s\<lparr>ns_rw := (rw_next_chunk ?n ^^ j) ?w1\<rparr>
    \<and> rw_out_buf ((rw_next_chunk ?n ^^ j) ?w1) = drop (Suc j * ?n) info" for j
  proof (induction j)
    case 0
    then show ?case by simp
  next
    case (Suc j)
    then have IH: "(net_session_written False ^^ j) (s\<lparr>ns_rw := ?w1\<rparr>)
        = s\<lparr>ns_rw := (rw_next_chunk ?n ^^ j) ?w1\<rparr>"
      "rw_out_buf ((rw_next_chunk ?n ^^ j) ?w1) = drop (Suc j * ?n) info" by simp_all
    have "Suc j * ?n \<le> length info - 1"
      using Suc.prems n by (metis div_times_less_eq_dividend le_trans mult_le_mono1)
    then have more_left: "Suc j * ?n < length info" using n by (cases info) auto
    have "rw_out_buf (rw_next_chunk ?n ((rw_next_chunk ?n ^^ j) ?w1)) = drop ?n (drop (Suc j * ?n) info)"
      by (simp add: rw_next_chunk_def string_move_def IH(2))
    with IH more_left step show ?case by (simp add: add.commute)
  qed
  have "(net_session_written False ^^ ?k) (s\<lparr>ns_rw := ?w1\<rparr>)
      = s\<lparr>ns_rw := ?w1\<lparr>rw_out_buf := [], rw_handed := rw_handed ?w1 @ cs\<rparr>\<rparr>"
    using run [of ?k] cs(1) by simp
  then have "(net_session_written False ^^ Suc ?k) (net_session_write info s)
      = s\<lparr>ns_rw := w\<lparr>rw_handed := rw_handed w @ take ?n info # cs\<rparr>\<rparr>"
    using assms by (simp add: start net_session_written_def rw_write_completed_def
        net_session_write_cb_def)
  with cs(2,3) show ?thesis by (intro exI [of _ "take ?n info # cs"]) simp
qed

section \<open>Reading\<close>

lemma length_unix_frame:
  "length body + HEADER_SIZE < 1000 \<Longrightarrow> length (frame HEADER_SIZE body) = length body + HEADER_SIZE"
  using length_header_of [of "length body + HEADER_SIZE"]
  by (simp add: frame_def HEADER_SIZE_def MAX_SIZE_def)

lemma unix_decode_size_Nil: "unix_decode_size [] n = (False, n)"
  by (simp add: unix_decode_size_def tokenize_def tokenize_from.simps word_end_def str_find_def
      convert_decode_def substr_pair_def decode_size_field_def read_unsigned_def scan_number_def)

lemma net_session_read_frames:
  assumes "\<forall>body \<in> set bodies. length body + HEADER_SIZE < 1000"
  shows "net_session_read_cb (concat (map (frame HEADER_SIZE) bodies)) s
    = Some (Inr ([], s\<lparr>ns_queue := ns_queue s @ map (frame HEADER_SIZE) bodies\<rparr>))"
  using assms
proof (induction bodies arbitrary: s)
  case Nil
  then show ?case by (subst net_session_read_cb.simps) (simp add: unix_decode_size_Nil)
next
  case (Cons body bodies)
  let ?f = "frame HEADER_SIZE body" and ?rest = "concat (map (frame HEADER_SIZE) bodies)"
  have len: "length ?f = length body + HEADER_SIZE"
    using Cons.prems by (intro length_unix_frame) simp
  have "unix_decode_size (?f @ ?rest) 0 = (True, length ?f)"
    unfolding len using Cons.prems by (intro unix_decode_size_frame) (simp add: MAX_SIZE_def)
  then have "net_session_read_cb (?f @ ?rest) s
      = net_session_read_cb ?rest (s\<lparr>ns_queue := ns_queue s @ [?f]\<rparr>)"
    by (subst net_session_read_cb.simps) (simp add: str_substr_def)
  with Cons show ?case by simp
qed

lemma unix_decode_size_word:
  assumes "list_all is_digit w" "w \<noteq> []" "digits_value w < 2 ^ 32"
  shows "unix_decode_size w n = (True, digits_value w)"
    and "unix_decode_size (w @ refsymbol_value # rest) n = (True, digits_value w)"
proof -
  have text_w: "field_text w" using assms(1) by (rule digits_field_text)
  then have "tokenize [] w refsymbol_value True = (True, [(0, length w)])"
    by (simp add: tokenize_def tokenize_from.simps word_end_def str_find_def field_text_def
        index_of_None [THEN iffD2])
  then show "unix_decode_size w n = (True, digits_value w)"
    using assms by (simp add: unix_decode_size_def convert_decode_def substr_pair_def
        decode_size_field_def SIZE_BITS_def read_unsigned_digits)
  show "unix_decode_size (w @ refsymbol_value # rest) n = (True, digits_value w)"
    using assms unix_tokenize_header [OF text_w, of rest]
    by (simp add: unix_decode_size_def convert_decode_def substr_pair_def
        decode_size_field_def SIZE_BITS_def read_unsigned_digits)
qed

lemma net_session_read_cut:
  assumes "length body + HEADER_SIZE < 1000" "3 \<le> n" "n < length (frame HEADER_SIZE body)"
  shows "net_session_read_cb (take n (frame HEADER_SIZE body)) s = Some (Inl Out_of_range)"
proof -
  let ?l = "length body + HEADER_SIZE"
  let ?h = "header_of ?l"
  have h: "length ?h = 3" using assms(1) by (simp add: length_header_of MAX_SIZE_def)
  have digits: "list_all is_digit ?h" "?h \<noteq> []" "digits_value ?h < 2 ^ 32" "digits_value ?h = ?l"
    using header_of_digits assms(1) by simp_all
  have "take n (frame HEADER_SIZE body) = (if n = 3 then ?h else ?h @ refsymbol_value # take (n - 4) body)"
    using assms(2) h by (auto simp: frame_def take_Cons')
  then have "unix_decode_size (take n (frame HEADER_SIZE body)) 0 = (True, ?l)"
    using unix_decode_size_word [OF digits(1-3)] digits(4) by simp
  moreover have "length (take n (frame HEADER_SIZE body)) < ?l"
    using assms(3) length_unix_frame [OF assms(1)] by simp
  ultimately show ?thesis by (subst net_session_read_cb.simps) (simp add: str_substr_def)
qed

lemma net_session_read_zero: "net_session_read_cb ''0'' s = None"
proof -
  have zero: "unix_decode_size ''0'' 0 = (True, 0)"
    using unix_decode_size_word(1) [of "''0''" 0]
    by (simp add: is_digit_def digits_value_def digit_value_def)
  have "info \<noteq> ''0''" if "net_session_read_cb info s = Some out" for info s out
  proof (rule net_session_read_cb.raw_induct [OF _ that])
    fix loop :: "string \<Rightarrow> net_session \<Rightarrow> (cpp_exn + string \<times> net_session) option" and info s out
    assume IH: "\<And>info s out. loop info s = Some out \<Longrightarrow> info \<noteq> ''0''"
      and run: "(case unix_decode_size info 0 of
        (ok, text_len) \<Rightarrow>
          if \<not> ok then Some (Inr (info, s))
          else case str_substr info (Some text_len) None of
                 Inl e \<Rightarrow> Some (Inl e)
               | Inr rest \<Rightarrow> loop rest (s\<lparr>ns_queue := ns_queue s @ [take text_len info]\<rparr>)) = Some out"
    show "info \<noteq> ''0''"
    proof
      assume info: "info = ''0''"
      with run zero have "loop info (s\<lparr>ns_queue := ns_queue s @ [[]]\<rparr>) = Some out"
        by (simp add: str_substr_def)
      from IH [OF this] info show False by simp
    qed
  qed
  then show ?thesis by (cases "net_session_read_cb ''0'' s") blast+
qed

text \<open>The session depends on how TCP cuts the stream: whole requests in one piece are queued in order and
  nothing is left; a piece that ends inside a request, behind its length, throws out of the
  handler; and the first character alone of a request shorter than 100 is a zero, which makes the
  handler push empty messages for ever.\<close>

theorem net_session_reads:
  assumes "\<forall>body \<in> set bodies. length body + HEADER_SIZE < 1000"
  shows "net_session_read_cb (concat (map (frame HEADER_SIZE) bodies)) s
      = Some (Inr ([], s\<lparr>ns_queue := ns_queue s @ map (frame HEADER_SIZE) bodies\<rparr>))
    \<and> (\<forall>body \<in> set bodies. \<forall>n. 3 \<le> n \<longrightarrow> n < length (frame HEADER_SIZE body) \<longrightarrow>
         net_session_read_cb (take n (frame HEADER_SIZE body)) s = Some (Inl Out_of_range))
    \<and> (\<forall>body \<in> set bodies. length body + HEADER_SIZE < 100 \<longrightarrow>
         net_session_read_cb (take 1 (frame HEADER_SIZE body)) s = None)"
proof -
  have "take 1 (frame HEADER_SIZE body) = ''0''" if "length body + HEADER_SIZE < 100" for body
    using that by (simp add: frame_def header_of_def)
  then show ?thesis
    using net_session_read_frames [OF assms] net_session_read_cut net_session_read_zero assms by auto
qed

lemma net_session_reads_witness:
  "net_session_read_cb (take 1 (frame HEADER_SIZE ''x'')) net_session_new = None
    \<and> net_session_read_cb (take 4 (frame HEADER_SIZE ''x'')) net_session_new = Some (Inl Out_of_range)"
proof -
  have "length (frame HEADER_SIZE ''x'') = 5" using length_unix_frame [of "''x''"] by (simp add: HEADER_SIZE_def)
  then show ?thesis using net_session_reads [of "[''x'']" net_session_new] by (simp add: HEADER_SIZE_def)
qed

section \<open>The gateway loses its connection\<close>

datatype gateway_event = G_write unix_request | G_read read_error string | G_connected bool | G_retry
  | G_time tm | G_date tm

fun gateway_step :: "gateway_event \<Rightarrow> gateway \<Rightarrow> gateway" where
  "gateway_step (G_write r) g = gateway_write r g"
| "gateway_step (G_read e bs) g = (case gateway_read e bs g of Some (Inr g') \<Rightarrow> g' | _ \<Rightarrow> g)"
| "gateway_step (G_connected e) g = client_connect_completed e g"
| "gateway_step G_retry g = client_retry g"
| "gateway_step (G_time t) g = clock_init_time t g"
| "gateway_step (G_date t) g = clock_init_date_day t g"

text \<open>Once the flag is up without a write in progress, nothing but a completion could take it down.\<close>

definition gateway_silent :: "string list \<Rightarrow> gateway \<Rightarrow> bool" where
  "gateway_silent handed g \<longleftrightarrow> rw_write_started (gw_rw g) \<and> rw_handed (gw_rw g) = handed"

lemma silent_write: "gateway_silent h g \<Longrightarrow> gateway_silent h (gateway_write r g)"
  by (auto simp: gateway_silent_def gateway_write_def client_write_def split: option.split)

lemma silent_push: "gateway_silent h g \<Longrightarrow> gateway_silent h (content_push g)"
proof -
  have "gateway_silent h g \<Longrightarrow> gateway_silent h (content_push_loop n g)" for n
  proof (induction n g rule: content_push_loop.induct)
    case (1 n g)
    let ?s = "gw_infos g ! gw_current g"
    show ?case
    proof (cases ?s)
      case None
      have cur: "gateway_silent h (g\<lparr>gw_current := c\<rparr>)" for c
        using 1(2) by (simp add: gateway_silent_def)
      show ?thesis
        using None 1(1) [OF refl refl refl] cur
        by (subst content_push_loop.simps) (auto simp: Let_def)
    next
      case (Some msg)
      have "gateway_silent h (gateway_write r g)" for r using 1(2) by (rule silent_write)
      then show ?thesis
        using Some by (subst content_push_loop.simps) (simp add: Let_def gateway_silent_def)
    qed
  qed
  then show "gateway_silent h g \<Longrightarrow> gateway_silent h (content_push g)" by (simp add: content_push_def)
qed

lemma silent_update:
  "gateway_silent h g \<Longrightarrow> (\<And>w. rw_write_started (f w) = rw_write_started w \<and> rw_handed (f w) = rw_handed w)
    \<Longrightarrow> gateway_silent h (gw_rw_update f g)"
  by (simp add: gateway_silent_def)

lemma silent_disconnect: "gateway_silent h g \<Longrightarrow> gateway_silent h (client_disconnect_completed g)"
  by (simp add: client_disconnect_completed_def client_connect_def gateway_silent_def)

lemma silent_notify_read:
  "gateway_silent h g \<Longrightarrow> gateway_notify_read info g = Some (Inr (info', g')) \<Longrightarrow> gateway_silent h g'"
  using silent_push [of h g]
  by (auto simp: gateway_notify_read_def split: prod.splits if_splits sum.splits)

lemma silent_read:
  assumes "gateway_silent h g" "gateway_read err bs g = Some (Inr g')"
  shows "gateway_silent h g'"
proof -
  define g1 where "g1 = gw_rw_update (\<lambda>w. w\<lparr>rw_reading := False\<rparr>) g"
  define g2 where "g2 = gw_rw_update (\<lambda>w. w\<lparr>rw_in_buf :=
    string_move_append bs (length bs) (rw_in_buf w)\<rparr>) g1"
  have g1: "gateway_silent h g1" unfolding g1_def using assms(1) by (rule silent_update) simp
  have g2: "gateway_silent h g2" unfolding g2_def using g1 by (rule silent_update) simp
  have buf: "rw_in_buf (gw_rw g2) = string_move_append bs (length bs) (rw_in_buf (gw_rw g1))"
    by (simp add: g2_def)
  have "g' = client_disconnect_completed g1 \<or> g' = g1 \<or>
      (\<exists>info g3. gateway_notify_read (rw_in_buf (gw_rw g2)) g2 = Some (Inr (info, g3))
        \<and> g' = gw_rw_update (rw_async_read \<circ> (\<lambda>w. w\<lparr>rw_in_buf := info\<rparr>)) g3)"
    using assms(2) unfolding buf by (cases err)
      (auto simp: gateway_read_def rw_read_completed_def Let_def simp flip: g1_def g2_def
        split: option.splits sum.splits)
  then show ?thesis
    using g1 silent_disconnect [OF g1] silent_notify_read [OF g2]
    by (auto intro!: silent_update simp: rw_async_read_def)
qed

lemma silent_step:
  assumes "gateway_silent h g"
  shows "gateway_silent h (gateway_step e g)"
proof (cases e)
  case (G_read err bs)
  then show ?thesis
    using assms silent_read [OF assms, of err bs] by (auto split: option.split sum.split)
next
  case (G_connected err)
  have "gateway_silent h (g\<lparr>gw_rw := rw_async_read (gw_rw g), gw_connect_started := False,
      gw_connected := True\<rparr>)"
    using assms by (simp add: gateway_silent_def rw_async_read_def)
  from silent_write [OF this] assms G_connected show ?thesis
    by (auto simp: client_connect_completed_def gateway_notify_connect_def Let_def gateway_silent_def)
qed (use assms silent_write in \<open>auto simp: gateway_silent_def client_retry_def client_connect_def
      clock_init_time_def clock_init_date_day_def\<close>)

lemma silent_run: "gateway_silent h g \<Longrightarrow> gateway_silent h (fold gateway_step es g)"
  by (induction es arbitrary: g) (auto intro: silent_step)

text \<open>A gateway whose connection breaks while it writes never writes again: the failed completion
  leaves the flag of the socket up, reconnecting does not reset it, and so neither the new
  subscription nor any later request leaves the process, whatever happens on the connection.\<close>

theorem gateway_reconnect_silent:
  assumes "rw_write_started (gw_rw g)"
  shows "rw_handed (gw_rw (fold gateway_step es (gateway_written True g))) = rw_handed (gw_rw g)"
proof -
  have "gateway_silent (rw_handed (gw_rw g)) (gateway_written True g)"
    using assms by (simp add: gateway_silent_def gateway_written_def rw_write_completed_def)
  from silent_run [OF this] show ?thesis by (simp add: gateway_silent_def)
qed

lemma gateway_reconnect_silent_witness:
  "rw_handed (gw_rw (fold gateway_step
      [G_read Disconnected [], G_connected False, G_write unix_request_new]
      (gateway_written True (client_connect_completed False (gateway_start
        \<lparr>tm_sec = 0, tm_min = 0, tm_hour = 0, tm_mday = 1, tm_mon = 0, tm_wday = 0\<rparr>)))))
    = [''010'' @ [refsymbol_value] @ ''2'' @ [refsymbol_value, refsymbol_value] @ ''-''
        @ [refsymbol_value, refsymbol_value]]"
proof -
  let ?g = "client_connect_completed False (gateway_start
    \<lparr>tm_sec = 0, tm_min = 0, tm_hour = 0, tm_mday = 1, tm_mon = 0, tm_wday = 0\<rparr>)"
  have enc: "unix_encode unix_request_encode (unix_request_new\<lparr>ur_action := REQUEST_SUBSCRIBE\<rparr>)
      = Some (''010'' @ [refsymbol_value] @ ''2'' @ [refsymbol_value, refsymbol_value] @ ''-''
        @ [refsymbol_value, refsymbol_value])"
    by (simp add: unix_encode_def unix_request_encode_def unix_request_new_def REQUEST_SUBSCRIBE_def
        encode_unsigned_def dec_string.simps format_encode_empty_def HEADER_SIZE_def MAX_SIZE_def
        char_of_def bit_Suc_0_iff)
  have started: "rw_write_started (gw_rw ?g)"
    and handed: "rw_handed (gw_rw ?g) = [''010'' @ [refsymbol_value] @ ''2'' @ [refsymbol_value, refsymbol_value]
        @ ''-'' @ [refsymbol_value, refsymbol_value]]"
    by (simp_all add: client_connect_completed_def gateway_start_def client_connect_def Let_def
        gateway_notify_connect_def gateway_write_def enc client_write_def rw_write_def
        string_move_const_def CLIENT_SIZE_def rw_new_def rw_async_read_def)
  from gateway_reconnect_silent [OF started] handed show ?thesis by (simp only:)
qed

section \<open>The clock of the gateway\<close>

text \<open>
  The time is rewritten at the beginning of the next minute, but the date and the day not before
  one minute and one second past one o'clock.
\<close>

theorem gateway_date_late:
  "(int (tm_sec t) + time_delay t) mod 60 = 0
    \<and> (int (tm_sec t) + 60 * int (tm_min t) + 3600 * int (tm_hour t) + date_day_delay t) mod 86400
        = 3600 + 60 + 1"
proof -
  have "int (tm_sec t) + 60 * int (tm_min t) + 3600 * int (tm_hour t) + date_day_delay t = 90061"
    by (simp add: date_day_delay_def algebra_simps)
  then show ?thesis by (simp add: time_delay_def)
qed

end
