(* ===== verification/Old_Menu.thy ===== *)
theory Old_Menu
  imports Cpp_Text
begin

text \<open>
  The menu that the daemon had before the controller took it over, \<open>src/obsoleted/led-d/menu.cpp\<close>, and
  the playlist it was to share, \<open>playlist.cpp\<close>. The numbers of the knobs and of their actions come from
  a header that is not in the tree (\<open>unix/constant.h\<close>), so they are parameters. Commands and
  statuses are what is pushed to the queues; the timers are events. \<open>m_delta\<close> is an \<open>int\<close> that is
  assumed not to overflow.
\<close>

record rotor_constants =
  rc_volume :: nat
  rc_clockwise :: nat
  rc_counter :: nat
  rc_push :: nat

definition rotor_constants_ok :: "rotor_constants \<Rightarrow> bool" where
  "rotor_constants_ok c \<longleftrightarrow> distinct [rc_clockwise c, rc_counter c, rc_push c]"

datatype menu_id = TRACK | VOLUME

datatype menu_command = MPC_CURRENT | MPC_PLAY | VOLUME_GET | VOLUME_SET

datatype menu_status = MENU_SET | MENU_ADD

record old_menu =
  om_delta :: int
  om_id :: "menu_id option"
  om_range :: "(int \<times> int) option"
  om_value :: "int option"
  om_adding :: bool
  om_playlist :: "string list"
  om_volume_range :: "(int \<times> int) option"
  om_volume_get :: string
  om_volume_set :: string
  om_commands :: "(menu_command \<times> string) list"
  om_statuses :: "(menu_status \<times> string) list"
  om_menu_timer :: bool
  om_track_timer :: bool

definition old_menu_new :: old_menu where
  "old_menu_new = \<lparr>om_delta = 0, om_id = None, om_range = None, om_value = None,
     om_adding = False, om_playlist = [], om_volume_range = None, om_volume_get = [],
     om_volume_set = [], om_commands = [], om_statuses = [], om_menu_timer = False,
     om_track_timer = False\<rparr>"

definition CURRENT_TRACK :: string where "CURRENT_TRACK = ''mpc -f %position% current''"
definition START_TRACK :: string where "START_TRACK = ''mpc play ''"

definition menu_to_int :: "string \<Rightarrow> int option" where
  "menu_to_int src = (case read_signed 32 src 0 of (val, good) \<Rightarrow> if good then Some val else None)"

definition menu_command_issue :: "menu_command \<Rightarrow> string \<Rightarrow> old_menu \<Rightarrow> old_menu" where
  "menu_command_issue i txt m = m\<lparr>om_commands := om_commands m @ [(i, txt)]\<rparr>"

definition menu_track_add :: "string \<Rightarrow> old_menu \<Rightarrow> old_menu" where
  "menu_track_add track m =
     (let m = (if \<not> om_adding m then m\<lparr>om_adding := True, om_playlist := []\<rparr> else m)
      in if track \<noteq> [] then m\<lparr>om_playlist := om_playlist m @ [track]\<rparr>
         else m\<lparr>om_adding := False\<rparr>)"

definition menu_track_clear :: "old_menu \<Rightarrow> old_menu" where
  "menu_track_clear m = m\<lparr>om_playlist := []\<rparr>"

definition menu_volume_range :: "string \<Rightarrow> string \<Rightarrow> old_menu \<Rightarrow> old_menu" where
  "menu_volume_range low_str high_str m =
     (case (menu_to_int low_str, menu_to_int high_str) of
        (Some low, Some high) \<Rightarrow> m\<lparr>om_volume_range := Some (low, high)\<rparr>
      | _ \<Rightarrow> m)"

definition menu_id_to_letter :: "old_menu \<Rightarrow> char" where
  "menu_id_to_letter m =
     (case om_id m of None \<Rightarrow> CHR '' '' | Some TRACK \<Rightarrow> CHR ''T'' | Some VOLUME \<Rightarrow> CHR ''V'')"

definition menu_display_text :: "old_menu \<Rightarrow> string" where
  "menu_display_text m =
     [menu_id_to_letter m, CHR '' ''] @ (if om_delta m \<ge> 0 then ''+'' else ''-'')
       @ dec_string_int (if om_delta m \<ge> 0 then om_delta m else - om_delta m)
       @ (case om_value m of None \<Rightarrow> [] | Some v \<Rightarrow> '' '' @ dec_string_int v)"

definition menu_display :: "old_menu \<Rightarrow> old_menu" where
  "menu_display m =
     (let m = m\<lparr>om_statuses := om_statuses m @ [(MENU_SET, menu_display_text m)],
               om_menu_timer := True\<rparr>
      in if om_id m = Some TRACK then m\<lparr>om_track_timer := True\<rparr> else m)"

definition old_menu_set_range :: "old_menu \<Rightarrow> old_menu" where
  "old_menu_set_range m =
     (case om_id m of
        None \<Rightarrow> m
      | Some TRACK \<Rightarrow>
          if om_playlist m \<noteq> [] then m\<lparr>om_range := Some (0, int (length (om_playlist m) - 1))\<rparr> else m
      | Some VOLUME \<Rightarrow>
          (case om_volume_range m of None \<Rightarrow> m | Some r \<Rightarrow> m\<lparr>om_range := Some r\<rparr>))"

definition menu_get_value :: "old_menu \<Rightarrow> old_menu" where
  "menu_get_value m =
     (case om_id m of
        None \<Rightarrow> m
      | Some TRACK \<Rightarrow> menu_command_issue MPC_CURRENT CURRENT_TRACK m
      | Some VOLUME \<Rightarrow> menu_command_issue VOLUME_GET (om_volume_get m) m)"

definition menu_set_value :: "old_menu \<Rightarrow> old_menu" where
  "menu_set_value m =
     (case (om_id m, om_value m) of
        (Some TRACK, Some v) \<Rightarrow> menu_command_issue MPC_PLAY (START_TRACK @ dec_string_int v) m
      | (Some VOLUME, Some v) \<Rightarrow>
          menu_command_issue VOLUME_SET (om_volume_set m @ '' '' @ dec_string_int v) m
      | _ \<Rightarrow> m)"

definition menu_select_param :: "menu_id \<Rightarrow> old_menu \<Rightarrow> old_menu" where
  "menu_select_param i m =
     menu_get_value (old_menu_set_range (m\<lparr>om_id := Some i, om_delta := 0, om_value := None\<rparr>))"

definition menu_inc_id :: "bool \<Rightarrow> old_menu \<Rightarrow> menu_id" where
  "menu_inc_id dir m =
     (case om_id m of None \<Rightarrow> TRACK | Some TRACK \<Rightarrow> VOLUME | Some VOLUME \<Rightarrow> TRACK)"

definition menu_select_dir :: "bool \<Rightarrow> old_menu \<Rightarrow> old_menu" where
  "menu_select_dir inc m = menu_select_param (menu_inc_id inc m) m"

text \<open>\<open>select ()\<close>: nothing is done on either path.\<close>

definition menu_select :: "old_menu \<Rightarrow> old_menu" where
  "menu_select m = m"

definition menu_wrapable :: "old_menu \<Rightarrow> bool" where
  "menu_wrapable m \<longleftrightarrow> om_id m \<noteq> None \<and> om_id m \<noteq> Some VOLUME"

definition menu_applyable :: "old_menu \<Rightarrow> bool" where
  "menu_applyable m \<longleftrightarrow> om_id m = Some VOLUME"

definition menu_inc_value :: "bool \<Rightarrow> old_menu \<Rightarrow> old_menu" where
  "menu_inc_value dir m =
     (case (om_id m, om_value m, om_range m) of
        (Some _, Some v, Some (low, high)) \<Rightarrow>
          if dir \<and> v < high then m\<lparr>om_value := Some (v + 1)\<rparr>
          else if \<not> dir \<and> v > low then m\<lparr>om_value := Some (v - 1)\<rparr>
          else if menu_wrapable m then m\<lparr>om_value := Some (if dir then low else high)\<rparr>
          else m
      | _ \<Rightarrow> m)"

text \<open>\<open>value (bool)\<close>, which \<open>rotor\<close> no longer calls.\<close>

definition menu_value_dir :: "bool \<Rightarrow> old_menu \<Rightarrow> old_menu" where
  "menu_value_dir direction m =
     (if om_id m = None \<or> om_value m = None then m
      else if om_range m = None then m
      else let m' = menu_inc_value direction m;
               m' = (if om_value m \<noteq> om_value m' \<and> menu_applyable m' then menu_set_value m' else m')
           in menu_display m')"

definition menu_value :: "old_menu \<Rightarrow> old_menu" where
  "menu_value m = (menu_set_value m)\<lparr>om_id := None, om_range := None, om_value := None\<rparr>"

definition menu_rotor :: "rotor_constants \<Rightarrow> nat \<Rightarrow> nat \<Rightarrow> old_menu \<Rightarrow> old_menu" where
  "menu_rotor c rotor_id action m =
     (let m = (if om_id m = None
               then menu_select_param (if rotor_id = rc_volume c then VOLUME else TRACK) m else m);
          m = (if action = rc_clockwise c then m\<lparr>om_delta := om_delta m + 1\<rparr>
               else if action = rc_counter c then m\<lparr>om_delta := om_delta m - 1\<rparr>
               else if action = rc_push c
               then (if rotor_id = rc_volume c then menu_select m else menu_value m)
               else m)
      in menu_display m)"

definition menu_current_track :: "string \<Rightarrow> old_menu \<Rightarrow> old_menu" where
  "menu_current_track src m =
     (if om_id m \<noteq> Some TRACK then m
      else case menu_to_int src of
             None \<Rightarrow> m
           | Some position \<Rightarrow> menu_display (m\<lparr>om_value := Some position\<rparr>))"

definition menu_current_volume :: "string \<Rightarrow> old_menu \<Rightarrow> old_menu" where
  "menu_current_volume src m =
     (if om_id m \<noteq> Some VOLUME then m
      else case menu_to_int src of
             None \<Rightarrow> m
           | Some level \<Rightarrow> menu_display (m\<lparr>om_value := Some level\<rparr>))"

definition menu_timeout :: "bool \<Rightarrow> old_menu \<Rightarrow> old_menu" where
  "menu_timeout error m = (if error then m else m\<lparr>om_statuses := om_statuses m @ [(MENU_SET, [])]\<rparr>)"

definition menu_track_timeout :: "bool \<Rightarrow> old_menu \<Rightarrow> old_menu" where
  "menu_track_timeout error m =
     (if error then m
      else case (om_id m, om_value m, om_range m) of
             (Some TRACK, Some v, Some _) \<Rightarrow>
               if v < 0 \<or> nat v \<ge> length (om_playlist m) then m
               else m\<lparr>om_statuses := om_statuses m @ [(MENU_ADD, '' '' @ om_playlist m ! nat v)]\<rparr>
           | _ \<Rightarrow> m)"

section \<open>\<open>playlist_t\<close>\<close>

record playlist =
  pl_list :: "string list"
  pl_add_started :: bool

definition playlist_add :: "string \<Rightarrow> playlist \<Rightarrow> playlist" where
  "playlist_add track p =
     (let p = (if \<not> pl_add_started p then p\<lparr>pl_add_started := True, pl_list := []\<rparr> else p)
      in if track \<noteq> [] then p\<lparr>pl_list := pl_list p @ [track]\<rparr> else p\<lparr>pl_add_started := False\<rparr>)"

definition playlist_clear :: "playlist \<Rightarrow> playlist" where
  "playlist_clear p = p\<lparr>pl_list := []\<rparr>"

section \<open>Properties\<close>

text \<open>The tracks that arrive between two empty ones replace the list.\<close>

lemma playlist_adds:
  "pl_add_started p \<Longrightarrow> \<forall>t \<in> set ts. t \<noteq> []
     \<Longrightarrow> fold playlist_add ts p = p\<lparr>pl_list := pl_list p @ ts\<rparr>"
proof (induction ts arbitrary: p)
  case Nil
  then show ?case by simp
next
  case (Cons t ts)
  then have "playlist_add t p = p\<lparr>pl_list := pl_list p @ [t]\<rparr>" by (simp add: playlist_add_def)
  with Cons show ?case by simp
qed

theorem playlist_loaded:
  assumes "\<not> pl_add_started p" "\<forall>t \<in> set ts. t \<noteq> []"
  shows "fold playlist_add (ts @ [[]]) p = \<lparr>pl_list = ts, pl_add_started = False\<rparr>"
proof (cases ts)
  case Nil
  with assms show ?thesis by (simp add: playlist_add_def)
next
  case (Cons t ts')
  let ?p = "p\<lparr>pl_add_started := True, pl_list := [t]\<rparr>"
  have "playlist_add t p = ?p" using assms Cons by (simp add: playlist_add_def)
  moreover have "fold playlist_add ts' ?p = ?p\<lparr>pl_list := [t] @ ts'\<rparr>"
    using assms(2) Cons playlist_adds [of ?p ts'] by simp
  ultimately show ?thesis using Cons by (simp add: playlist_add_def)
qed

text \<open>A value in its range stays there, by turning in either direction.\<close>

theorem menu_inc_value_range:
  assumes "om_range m = Some (low, high)" "om_value m = Some v" "low \<le> v" "v \<le> high"
  shows "\<exists>v'. om_value (menu_inc_value dir m) = Some v' \<and> low \<le> v' \<and> v' \<le> high"
proof (cases "om_id m")
  case None
  with assms show ?thesis by (simp add: menu_inc_value_def)
next
  case (Some i)
  then have "om_value (menu_inc_value dir m) =
      (if dir \<and> v < high then Some (v + 1) else if \<not> dir \<and> v > low then Some (v - 1)
       else if menu_wrapable m then Some (if dir then low else high) else Some v)"
    using assms by (simp add: menu_inc_value_def)
  with assms(3,4) show ?thesis by (cases dir) auto
qed

text \<open>What turns and the display leave alone.\<close>

definition turn_same :: "old_menu \<Rightarrow> old_menu \<Rightarrow> bool" where
  "turn_same m m' \<longleftrightarrow> om_id m' = om_id m \<and> om_value m' = om_value m \<and> om_commands m' = om_commands m
     \<and> om_playlist m' = om_playlist m"

lemma display_same: "turn_same m (menu_display m)"
  by (simp add: turn_same_def menu_display_def Let_def)

lemma turn_one:
  assumes "om_id m \<noteq> None" "a = rc_clockwise c \<or> a = rc_counter c"
  shows "turn_same m (menu_rotor c r a m)"
proof -
  have "menu_rotor c r a m = menu_display (m\<lparr>om_delta := om_delta m + 1\<rparr>)
      \<or> menu_rotor c r a m = menu_display (m\<lparr>om_delta := om_delta m - 1\<rparr>)"
  proof -
    obtain i where "om_id m = Some i" using assms(1) by auto
    with assms(2) show ?thesis
      unfolding menu_rotor_def Let_def by (cases "a = rc_clockwise c") simp_all
  qed
  moreover have "turn_same m (m\<lparr>om_delta := d\<rparr>)" for d by (simp add: turn_same_def)
  ultimately show ?thesis using display_same unfolding turn_same_def by metis
qed

lemma turns_same:
  "om_id m \<noteq> None \<Longrightarrow> \<forall>(r, a) \<in> set ts. a = rc_clockwise c \<or> a = rc_counter c
     \<Longrightarrow> turn_same m (fold (\<lambda>(r, a). menu_rotor c r a) ts m)"
proof (induction ts arbitrary: m)
  case Nil
  then show ?case by (simp add: turn_same_def)
next
  case (Cons t ts)
  obtain r a where t: "t = (r, a)" by (cases t)
  with Cons.prems have "turn_same m (menu_rotor c r a m)" by (intro turn_one) auto
  moreover from this have "turn_same (menu_rotor c r a m)
      (fold (\<lambda>(r, a). menu_rotor c r a) ts (menu_rotor c r a m))"
    using Cons.prems by (intro Cons.IH) (auto simp: turn_same_def)
  ultimately show ?case by (simp add: t turn_same_def)
qed

text \<open>The knob has no effect: however the knobs are turned after a track is reported, pushing the track
  knob asks the player for the track that is playing anyway; the turns only change the number on the
  display.\<close>

theorem menu_turns_ignored:
  assumes "rotor_constants_ok c" "om_id m = Some TRACK" "menu_to_int src = Some position"
    and "\<forall>(r, a) \<in> set turns. a = rc_clockwise c \<or> a = rc_counter c" "r \<noteq> rc_volume c"
  shows "om_commands (menu_rotor c r (rc_push c)
      (fold (\<lambda>(r, a). menu_rotor c r a) turns (menu_current_track src m)))
    = om_commands m @ [(MPC_PLAY, START_TRACK @ dec_string_int position)]"
proof -
  let ?m1 = "menu_current_track src m"
  have m1: "om_id ?m1 = Some TRACK" "om_value ?m1 = Some position" "om_commands ?m1 = om_commands m"
    using assms(2,3) display_same [of "m\<lparr>om_value := Some position\<rparr>"]
    by (simp_all add: menu_current_track_def turn_same_def)
  let ?m2 = "fold (\<lambda>(r, a). menu_rotor c r a) turns ?m1"
  have "turn_same ?m1 ?m2" using turns_same [OF _ assms(4)] m1(1) by simp
  then have "om_id ?m2 = Some TRACK" "om_value ?m2 = Some position" "om_commands ?m2 = om_commands m"
    using m1 by (simp_all add: turn_same_def)
  then have "om_commands (menu_value ?m2)
      = om_commands m @ [(MPC_PLAY, START_TRACK @ dec_string_int position)]"
    by (simp add: menu_value_def menu_set_value_def menu_command_issue_def)
  moreover have "menu_rotor c r (rc_push c) ?m2 = menu_display (menu_value ?m2)"
    using assms(1,5) \<open>om_id ?m2 = Some TRACK\<close>
    unfolding menu_rotor_def Let_def rotor_constants_ok_def by (simp only: distinct.simps) simp
  ultimately show ?thesis using display_same [of "menu_value ?m2"] by (simp add: turn_same_def)
qed

lemma menu_turns_ignored_witness:
  "om_commands (menu_rotor \<lparr>rc_volume = 2, rc_clockwise = 0, rc_counter = 1, rc_push = 2\<rparr> 1 2
      (fold (\<lambda>(r, a). menu_rotor \<lparr>rc_volume = 2, rc_clockwise = 0, rc_counter = 1, rc_push = 2\<rparr> r a)
        [(1, 0), (1, 0), (1, 1)] (menu_current_track ''5'' (old_menu_new\<lparr>om_id := Some TRACK\<rparr>))))
    = [(MPC_PLAY, ''mpc play 5'')]"
proof -
  have five: "menu_to_int ''5'' = Some 5"
    by (simp add: menu_to_int_def read_signed_def scan_number_def is_space_def is_digit_def
        digits_value_def digit_value_def)
  have "dec_string_int 5 = ''5''"
    by (simp add: dec_string_int_def dec_string.simps char_of_def bit_Suc_0_iff)
  with menu_turns_ignored [of "\<lparr>rc_volume = 2, rc_clockwise = 0, rc_counter = 1, rc_push = 2\<rparr>"
      "old_menu_new\<lparr>om_id := Some TRACK\<rparr>" "''5''" 5 "[(1, 0), (1, 0), (1, 1)]" 1] five
  show ?thesis by (simp add: rotor_constants_ok_def old_menu_new_def START_TRACK_def)
qed

text \<open>
  The name that appears after ten seconds is that of the track behind the one reported, and none
  for the last: the player numbers its tracks from one, the vector from zero.
\<close>

theorem menu_shows_next_name:
  assumes "om_id m = Some TRACK" "om_range m \<noteq> None" "menu_to_int src = Some (int position)"
  shows "om_statuses (menu_track_timeout False (menu_current_track src m))
    = om_statuses (menu_current_track src m) @
        (if position < length (om_playlist m) then [(MENU_ADD, '' '' @ om_playlist m ! position)] else [])"
  using assms by (auto simp: menu_track_timeout_def menu_current_track_def menu_display_def Let_def)

end
