(* ===== verification/Old_Font.thy ===== *)
theory Old_Font
  imports Pi_Render Old_Codec Old_Serial
begin

text \<open>
  Fonts and texts of the first server: the matrix of columns (\<open>core-old/matrix.hpp\<close>), the tables
  (\<open>hex-font.cpp\<close>), the font with the places of its symbols (\<open>font.cpp\<close>), the names and the directory
  of the fonts (\<open>font-name.hpp\<close>, \<open>font-dir.cpp\<close>), and the drawing of a text by formats (\<open>render.cpp\<close>,
  with the format of \<open>Util_Format\<close>, whose code is the same but for the tokenizer). \<open>has_sign\<close> is whether \<open>char\<close> has a sign on the
  machine. A failed extraction of a column, an index behind the end of a vector or a string, is \<open>None\<close>.
\<close>

section \<open>Matrices\<close>

text \<open>The messages of \<open>std::invalid_argument\<close>.\<close>

datatype matrix_error = Incorrect_y | Incorrect_start_x

definition core_matrix_add :: "u8 \<Rightarrow> matrix \<Rightarrow> matrix" where
  "core_matrix_add column m = m @ [column]"

text \<open>Columns of another matrix, from \<open>start\<close> on.\<close>

definition core_matrix_add_part :: "matrix \<Rightarrow> nat \<Rightarrow> nat \<Rightarrow> matrix \<Rightarrow> matrix option" where
  "core_matrix_add_part arg start part_size m =
     (if part_size \<noteq> 0 \<and> start + part_size > length arg then None
      else Some (fold (\<lambda>i m. m @ [arg ! i]) [start..<start + part_size] m))"

text \<open>\<open>column.set (y, help_t::test (row, x))\<close> for every \<open>x\<close> of the row.\<close>

definition core_fill_row :: "u8 \<Rightarrow> nat \<Rightarrow> nat \<Rightarrow> matrix \<Rightarrow> matrix" where
  "core_fill_row row y start_x m =
     fold (\<lambda>x m. m[start_x + x := (if bit row x then set_bit y else unset_bit y) (m ! (start_x + x))])
       [0..<8] m"

definition core_add_row :: "u8 \<Rightarrow> nat \<Rightarrow> nat \<Rightarrow> matrix \<Rightarrow> matrix_error + matrix" where
  "core_add_row row y start_x m =
     (if y \<ge> 8 then Inl Incorrect_y
      else if start_x = length m then Inr (core_fill_row row y start_x (m @ replicate 8 0))
      else if start_x + 8 = length m then Inr (core_fill_row row y start_x m)
      else Inl Incorrect_start_x)"

definition core_matrix_invert :: "matrix \<Rightarrow> matrix" where
  "core_matrix_invert m = map (\<lambda>column. NOT column) m"

section \<open>A font\<close>

text \<open>The columns of the base class, and the start and the size of every symbol.\<close>

record core_font =
  cf_columns :: matrix
  cf_vector :: "(nat \<times> nat) list"

definition core_font_new :: core_font where
  "core_font_new = \<lparr>cf_columns = [], cf_vector = replicate 256 (0, 0)\<rparr>"

definition core_symbol_index :: "bool \<Rightarrow> char \<Rightarrow> nat" where
  "core_symbol_index has_sign s =
     (let shift = if has_sign then 128 else 0;
          code = if has_sign \<and> of_char s \<ge> (128 :: int) then of_char s - 256 else of_char s
      in nat (shift + code))"

definition core_get_symbol :: "bool \<Rightarrow> core_font \<Rightarrow> char \<Rightarrow> nat \<times> nat" where
  "core_get_symbol has_sign f s = cf_vector f ! core_symbol_index has_sign s"

definition core_add_symbol :: "bool \<Rightarrow> char \<Rightarrow> matrix \<Rightarrow> core_font \<Rightarrow> core_font" where
  "core_add_symbol has_sign s m f =
     (let f = f\<lparr>cf_vector := (cf_vector f)[core_symbol_index has_sign s := (length (cf_columns f), length m)]\<rparr>
      in f\<lparr>cf_columns := cf_columns f @ m\<rparr>)"

section \<open>The tables\<close>

definition hex_ibm_font :: "u8 list list" where
  "hex_ibm_font = [
  [0x00, 0x00, 0x00, 0x00, 0x00, 0x00, 0x00, 0x00], [0x00, 0x00, 0x00, 0x00, 0x00, 0x00, 0x00, 0x00],
  [0x00, 0x00, 0x00, 0x00, 0x00, 0x00, 0x00, 0x00], [0x00, 0x00, 0x00, 0x00, 0x00, 0x00, 0x00, 0x00],
  [0x00, 0x00, 0x00, 0x00, 0x00, 0x00, 0x00, 0x00], [0x00, 0x00, 0x00, 0x00, 0x00, 0x00, 0x00, 0x00],
  [0x00, 0x00, 0x00, 0x00, 0x00, 0x00, 0x00, 0x00], [0x00, 0x00, 0x00, 0x00, 0x00, 0x00, 0x00, 0x00],
  [0x00, 0x00, 0x00, 0x00, 0x00, 0x00, 0x00, 0x00], [0x00, 0x00, 0x00, 0x00, 0x00, 0x00, 0x00, 0x00],
  [0x00, 0x00, 0x00, 0x00, 0x00, 0x00, 0x00, 0x00], [0x00, 0x00, 0x00, 0x00, 0x00, 0x00, 0x00, 0x00],
  [0x00, 0x00, 0x00, 0x00, 0x00, 0x00, 0x00, 0x00], [0x00, 0x00, 0x00, 0x00, 0x00, 0x00, 0x00, 0x00],
  [0x00, 0x00, 0x00, 0x00, 0x00, 0x00, 0x00, 0x00], [0x00, 0x00, 0x00, 0x00, 0x00, 0x00, 0x00, 0x00],
  [0x00, 0x00, 0x00, 0x00, 0x00, 0x00, 0x00, 0x00], [0x00, 0x00, 0x00, 0x00, 0x00, 0x00, 0x00, 0x00],
  [0x00, 0x00, 0x00, 0x00, 0x00, 0x00, 0x00, 0x00], [0x00, 0x00, 0x00, 0x00, 0x00, 0x00, 0x00, 0x00],
  [0x00, 0x00, 0x00, 0x00, 0x00, 0x00, 0x00, 0x00], [0x00, 0x00, 0x00, 0x00, 0x00, 0x00, 0x00, 0x00],
  [0x00, 0x00, 0x00, 0x00, 0x00, 0x00, 0x00, 0x00], [0x00, 0x00, 0x00, 0x00, 0x00, 0x00, 0x00, 0x00],
  [0x00, 0x00, 0x00, 0x00, 0x00, 0x00, 0x00, 0x00], [0x00, 0x00, 0x00, 0x00, 0x00, 0x00, 0x00, 0x00],
  [0x00, 0x00, 0x00, 0x00, 0x00, 0x00, 0x00, 0x00], [0x00, 0x00, 0x00, 0x00, 0x00, 0x00, 0x00, 0x00],
  [0x00, 0x00, 0x00, 0x00, 0x00, 0x00, 0x00, 0x00], [0x00, 0x00, 0x00, 0x00, 0x00, 0x00, 0x00, 0x00],
  [0x00, 0x00, 0x00, 0x00, 0x00, 0x00, 0x00, 0x00], [0x00, 0x00, 0x00, 0x00, 0x00, 0x00, 0x00, 0x00],
  [0x00, 0x00, 0x00, 0x00, 0x00, 0x00, 0x00, 0x00], [0x18, 0x3C, 0x3C, 0x18, 0x18, 0x00, 0x18, 0x00],
  [0x36, 0x36, 0x00, 0x00, 0x00, 0x00, 0x00, 0x00], [0x36, 0x36, 0x7F, 0x36, 0x7F, 0x36, 0x36, 0x00],
  [0x0C, 0x3E, 0x03, 0x1E, 0x30, 0x1F, 0x0C, 0x00], [0x00, 0x63, 0x33, 0x18, 0x0C, 0x66, 0x63, 0x00],
  [0x1C, 0x36, 0x1C, 0x6E, 0x3B, 0x33, 0x6E, 0x00], [0x06, 0x06, 0x03, 0x00, 0x00, 0x00, 0x00, 0x00],
  [0x18, 0x0C, 0x06, 0x06, 0x06, 0x0C, 0x18, 0x00], [0x06, 0x0C, 0x18, 0x18, 0x18, 0x0C, 0x06, 0x00],
  [0x00, 0x66, 0x3C, 0xFF, 0x3C, 0x66, 0x00, 0x00], [0x00, 0x0C, 0x0C, 0x3F, 0x0C, 0x0C, 0x00, 0x00],
  [0x00, 0x00, 0x00, 0x00, 0x00, 0x0C, 0x0C, 0x06], [0x00, 0x00, 0x00, 0x3F, 0x00, 0x00, 0x00, 0x00],
  [0x00, 0x00, 0x00, 0x00, 0x00, 0x0C, 0x0C, 0x00], [0x60, 0x30, 0x18, 0x0C, 0x06, 0x03, 0x01, 0x00],
  [0x3E, 0x63, 0x73, 0x7B, 0x6F, 0x67, 0x3E, 0x00], [0x0C, 0x0E, 0x0C, 0x0C, 0x0C, 0x0C, 0x3F, 0x00],
  [0x1E, 0x33, 0x30, 0x1C, 0x06, 0x33, 0x3F, 0x00], [0x1E, 0x33, 0x30, 0x1C, 0x30, 0x33, 0x1E, 0x00],
  [0x38, 0x3C, 0x36, 0x33, 0x7F, 0x30, 0x78, 0x00], [0x3F, 0x03, 0x1F, 0x30, 0x30, 0x33, 0x1E, 0x00],
  [0x1C, 0x06, 0x03, 0x1F, 0x33, 0x33, 0x1E, 0x00], [0x3F, 0x33, 0x30, 0x18, 0x0C, 0x0C, 0x0C, 0x00],
  [0x1E, 0x33, 0x33, 0x1E, 0x33, 0x33, 0x1E, 0x00], [0x1E, 0x33, 0x33, 0x3E, 0x30, 0x18, 0x0E, 0x00],
  [0x00, 0x0C, 0x0C, 0x00, 0x00, 0x0C, 0x0C, 0x00], [0x00, 0x0C, 0x0C, 0x00, 0x00, 0x0C, 0x0C, 0x06],
  [0x18, 0x0C, 0x06, 0x03, 0x06, 0x0C, 0x18, 0x00], [0x00, 0x00, 0x3F, 0x00, 0x00, 0x3F, 0x00, 0x00],
  [0x06, 0x0C, 0x18, 0x30, 0x18, 0x0C, 0x06, 0x00], [0x1E, 0x33, 0x30, 0x18, 0x0C, 0x00, 0x0C, 0x00],
  [0x3E, 0x63, 0x7B, 0x7B, 0x7B, 0x03, 0x1E, 0x00], [0x0C, 0x1E, 0x33, 0x33, 0x3F, 0x33, 0x33, 0x00],
  [0x3F, 0x66, 0x66, 0x3E, 0x66, 0x66, 0x3F, 0x00], [0x3C, 0x66, 0x03, 0x03, 0x03, 0x66, 0x3C, 0x00],
  [0x1F, 0x36, 0x66, 0x66, 0x66, 0x36, 0x1F, 0x00], [0x7F, 0x46, 0x16, 0x1E, 0x16, 0x46, 0x7F, 0x00],
  [0x7F, 0x46, 0x16, 0x1E, 0x16, 0x06, 0x0F, 0x00], [0x3C, 0x66, 0x03, 0x03, 0x73, 0x66, 0x7C, 0x00],
  [0x33, 0x33, 0x33, 0x3F, 0x33, 0x33, 0x33, 0x00], [0x1E, 0x0C, 0x0C, 0x0C, 0x0C, 0x0C, 0x1E, 0x00],
  [0x78, 0x30, 0x30, 0x30, 0x33, 0x33, 0x1E, 0x00], [0x67, 0x66, 0x36, 0x1E, 0x36, 0x66, 0x67, 0x00],
  [0x0F, 0x06, 0x06, 0x06, 0x46, 0x66, 0x7F, 0x00], [0x63, 0x77, 0x7F, 0x7F, 0x6B, 0x63, 0x63, 0x00],
  [0x63, 0x67, 0x6F, 0x7B, 0x73, 0x63, 0x63, 0x00], [0x1C, 0x36, 0x63, 0x63, 0x63, 0x36, 0x1C, 0x00],
  [0x3F, 0x66, 0x66, 0x3E, 0x06, 0x06, 0x0F, 0x00], [0x1E, 0x33, 0x33, 0x33, 0x3B, 0x1E, 0x38, 0x00],
  [0x3F, 0x66, 0x66, 0x3E, 0x36, 0x66, 0x67, 0x00], [0x1E, 0x33, 0x07, 0x0E, 0x38, 0x33, 0x1E, 0x00],
  [0x3F, 0x2D, 0x0C, 0x0C, 0x0C, 0x0C, 0x1E, 0x00], [0x33, 0x33, 0x33, 0x33, 0x33, 0x33, 0x3F, 0x00],
  [0x33, 0x33, 0x33, 0x33, 0x33, 0x1E, 0x0C, 0x00], [0x63, 0x63, 0x63, 0x6B, 0x7F, 0x77, 0x63, 0x00],
  [0x63, 0x63, 0x36, 0x1C, 0x1C, 0x36, 0x63, 0x00], [0x33, 0x33, 0x33, 0x1E, 0x0C, 0x0C, 0x1E, 0x00],
  [0x7F, 0x63, 0x31, 0x18, 0x4C, 0x66, 0x7F, 0x00], [0x1E, 0x06, 0x06, 0x06, 0x06, 0x06, 0x1E, 0x00],
  [0x03, 0x06, 0x0C, 0x18, 0x30, 0x60, 0x40, 0x00], [0x1E, 0x18, 0x18, 0x18, 0x18, 0x18, 0x1E, 0x00],
  [0x08, 0x1C, 0x36, 0x63, 0x00, 0x00, 0x00, 0x00], [0x00, 0x00, 0x00, 0x00, 0x00, 0x00, 0x00, 0xFF],
  [0x0C, 0x0C, 0x18, 0x00, 0x00, 0x00, 0x00, 0x00], [0x00, 0x00, 0x1E, 0x30, 0x3E, 0x33, 0x6E, 0x00],
  [0x07, 0x06, 0x06, 0x3E, 0x66, 0x66, 0x3B, 0x00], [0x00, 0x00, 0x1E, 0x33, 0x03, 0x33, 0x1E, 0x00],
  [0x38, 0x30, 0x30, 0x3E, 0x33, 0x33, 0x6E, 0x00], [0x00, 0x00, 0x1E, 0x33, 0x3F, 0x03, 0x1E, 0x00],
  [0x1C, 0x36, 0x06, 0x0F, 0x06, 0x06, 0x0F, 0x00], [0x00, 0x00, 0x6E, 0x33, 0x33, 0x3E, 0x30, 0x1F],
  [0x07, 0x06, 0x36, 0x6E, 0x66, 0x66, 0x67, 0x00], [0x0C, 0x00, 0x0E, 0x0C, 0x0C, 0x0C, 0x1E, 0x00],
  [0x30, 0x00, 0x30, 0x30, 0x30, 0x33, 0x33, 0x1E], [0x07, 0x06, 0x66, 0x36, 0x1E, 0x36, 0x67, 0x00],
  [0x0E, 0x0C, 0x0C, 0x0C, 0x0C, 0x0C, 0x1E, 0x00], [0x00, 0x00, 0x33, 0x7F, 0x7F, 0x6B, 0x63, 0x00],
  [0x00, 0x00, 0x1F, 0x33, 0x33, 0x33, 0x33, 0x00], [0x00, 0x00, 0x1E, 0x33, 0x33, 0x33, 0x1E, 0x00],
  [0x00, 0x00, 0x3B, 0x66, 0x66, 0x3E, 0x06, 0x0F], [0x00, 0x00, 0x6E, 0x33, 0x33, 0x3E, 0x30, 0x78],
  [0x00, 0x00, 0x3B, 0x6E, 0x66, 0x06, 0x0F, 0x00], [0x00, 0x00, 0x3E, 0x03, 0x1E, 0x30, 0x1F, 0x00],
  [0x08, 0x0C, 0x3E, 0x0C, 0x0C, 0x2C, 0x18, 0x00], [0x00, 0x00, 0x33, 0x33, 0x33, 0x33, 0x6E, 0x00],
  [0x00, 0x00, 0x33, 0x33, 0x33, 0x1E, 0x0C, 0x00], [0x00, 0x00, 0x63, 0x6B, 0x7F, 0x7F, 0x36, 0x00],
  [0x00, 0x00, 0x63, 0x36, 0x1C, 0x36, 0x63, 0x00], [0x00, 0x00, 0x33, 0x33, 0x33, 0x3E, 0x30, 0x1F],
  [0x00, 0x00, 0x3F, 0x19, 0x0C, 0x26, 0x3F, 0x00], [0x38, 0x0C, 0x0C, 0x07, 0x0C, 0x0C, 0x38, 0x00],
  [0x18, 0x18, 0x18, 0x00, 0x18, 0x18, 0x18, 0x00], [0x07, 0x0C, 0x0C, 0x38, 0x0C, 0x0C, 0x07, 0x00],
  [0x6E, 0x3B, 0x00, 0x00, 0x00, 0x00, 0x00, 0x00], [0x00, 0x00, 0x00, 0x00, 0x00, 0x00, 0x00, 0x00]]"

definition hex_greek_font :: "u8 list list" where
  "hex_greek_font = [
  [0x2D, 0x00, 0x0C, 0x0C, 0x0C, 0x2C, 0x18, 0x00], [0x0C, 0x1E, 0x33, 0x33, 0x3F, 0x33, 0x33, 0x00],
  [0x3F, 0x66, 0x66, 0x3E, 0x66, 0x66, 0x3F, 0x00], [0x3F, 0x33, 0x03, 0x03, 0x03, 0x03, 0x03, 0x00],
  [0x08, 0x1C, 0x1C, 0x36, 0x36, 0x63, 0x7F, 0x00], [0x7F, 0x46, 0x16, 0x1E, 0x16, 0x46, 0x7F, 0x00],
  [0x7F, 0x63, 0x31, 0x18, 0x4C, 0x66, 0x7F, 0x00], [0x33, 0x33, 0x33, 0x3F, 0x33, 0x33, 0x33, 0x00],
  [0x1C, 0x36, 0x63, 0x7F, 0x63, 0x36, 0x1C, 0x00], [0x1E, 0x0C, 0x0C, 0x0C, 0x0C, 0x0C, 0x1E, 0x00],
  [0x67, 0x66, 0x36, 0x1E, 0x36, 0x66, 0x67, 0x00], [0x08, 0x1C, 0x1C, 0x36, 0x36, 0x63, 0x63, 0x00],
  [0x63, 0x77, 0x7F, 0x7F, 0x6B, 0x63, 0x63, 0x00], [0x63, 0x67, 0x6F, 0x7B, 0x73, 0x63, 0x63, 0x00],
  [0x7F, 0x63, 0x00, 0x3E, 0x00, 0x63, 0x7F, 0x00], [0x1C, 0x36, 0x63, 0x63, 0x63, 0x36, 0x1C, 0x00],
  [0x7F, 0x36, 0x36, 0x36, 0x36, 0x36, 0x36, 0x00], [0x3F, 0x66, 0x66, 0x3E, 0x06, 0x06, 0x0F, 0x00],
  [0x00, 0x01, 0x02, 0x04, 0x4F, 0x90, 0xA0, 0x40], [0x7F, 0x63, 0x06, 0x0C, 0x06, 0x63, 0x7F, 0x00],
  [0x3F, 0x2D, 0x0C, 0x0C, 0x0C, 0x0C, 0x1E, 0x00], [0x33, 0x33, 0x33, 0x1E, 0x0C, 0x0C, 0x1E, 0x00],
  [0x18, 0x7E, 0xDB, 0xDB, 0xDB, 0x7E, 0x18, 0x00], [0x63, 0x63, 0x36, 0x1C, 0x36, 0x63, 0x63, 0x00],
  [0xDB, 0xDB, 0xDB, 0x7E, 0x18, 0x18, 0x3C, 0x00], [0x3E, 0x63, 0x63, 0x63, 0x36, 0x36, 0x77, 0x00],
  [0x33, 0x00, 0x1E, 0x0C, 0x0C, 0x0C, 0x1E, 0x00], [0x33, 0x00, 0x33, 0x33, 0x1E, 0x0C, 0x1E, 0x00],
  [0x70, 0x00, 0x6E, 0x3B, 0x13, 0x3B, 0x6E, 0x00], [0x38, 0x00, 0x1E, 0x03, 0x0E, 0x03, 0x1E, 0x00],
  [0x38, 0x00, 0x1F, 0x33, 0x33, 0x33, 0x33, 0x30], [0x38, 0x00, 0x0C, 0x0C, 0x0C, 0x2C, 0x18, 0x00],
  [0x2D, 0x00, 0x33, 0x33, 0x33, 0x33, 0x1E, 0x00], [0x00, 0x00, 0x6E, 0x3B, 0x13, 0x3B, 0x6E, 0x00],
  [0x00, 0x1E, 0x33, 0x1F, 0x33, 0x1F, 0x03, 0x03], [0x00, 0x00, 0x33, 0x33, 0x1E, 0x0C, 0x0C, 0x00],
  [0x38, 0x0C, 0x18, 0x3E, 0x33, 0x33, 0x1E, 0x00], [0x00, 0x00, 0x1E, 0x03, 0x0E, 0x03, 0x1E, 0x00],
  [0x00, 0x3F, 0x06, 0x03, 0x03, 0x1E, 0x30, 0x1C], [0x00, 0x00, 0x1F, 0x33, 0x33, 0x33, 0x33, 0x30],
  [0x00, 0x00, 0x1E, 0x33, 0x3F, 0x33, 0x1E, 0x00], [0x00, 0x00, 0x0C, 0x0C, 0x0C, 0x2C, 0x18, 0x00],
  [0x00, 0x00, 0x33, 0x1B, 0x0F, 0x1B, 0x33, 0x00], [0x00, 0x03, 0x06, 0x0C, 0x1C, 0x36, 0x63, 0x00],
  [0x00, 0x00, 0x66, 0x66, 0x66, 0x3E, 0x06, 0x03], [0x00, 0x00, 0x33, 0x33, 0x33, 0x1E, 0x0C, 0x00],
  [0x1E, 0x03, 0x0E, 0x03, 0x03, 0x1E, 0x30, 0x1C], [0x00, 0x00, 0x1E, 0x33, 0x33, 0x33, 0x1E, 0x00],
  [0x00, 0x00, 0x7F, 0x36, 0x36, 0x36, 0x36, 0x00], [0x00, 0x00, 0x3C, 0x66, 0x66, 0x36, 0x06, 0x06],
  [0x00, 0x00, 0x3E, 0x03, 0x03, 0x1E, 0x30, 0x1C], [0x00, 0x00, 0x7E, 0x1B, 0x1B, 0x1B, 0x0E, 0x00],
  [0x00, 0x00, 0x7E, 0x18, 0x18, 0x58, 0x30, 0x00], [0x00, 0x00, 0x33, 0x33, 0x33, 0x33, 0x1E, 0x00],
  [0x00, 0x00, 0x76, 0xDB, 0xDB, 0x7E, 0x18, 0x00], [0x00, 0x63, 0x36, 0x1C, 0x1C, 0x36, 0x63, 0x00],
  [0x00, 0x00, 0xDB, 0xDB, 0xDB, 0x7E, 0x18, 0x00], [0x00, 0x00, 0x36, 0x63, 0x6B, 0x7F, 0x36, 0x00]]"

definition hex_slim_font :: "u8 list" where
  "hex_slim_font = [
  0x00, 0x00, 0x00, 0x00, 0x00, 0x00, 0x00, 0x5F, 0x00, 0x00, 0x00, 0x07, 0x00, 0x07, 0x00,
  0x14, 0x7F, 0x14, 0x7F, 0x14, 0x24, 0x2A, 0x7F, 0x2A, 0x12, 0x23, 0x13, 0x08, 0x64, 0x62,
  0x36, 0x49, 0x55, 0x22, 0x50, 0x00, 0x05, 0x03, 0x00, 0x00, 0x00, 0x1C, 0x22, 0x41, 0x00,
  0x00, 0x41, 0x22, 0x1C, 0x00, 0x08, 0x2A, 0x1C, 0x2A, 0x08, 0x08, 0x08, 0x3E, 0x08, 0x08,
  0x00, 0x50, 0x30, 0x00, 0x00, 0x08, 0x08, 0x08, 0x08, 0x08, 0x00, 0x60, 0x60, 0x00, 0x00,
  0x20, 0x10, 0x08, 0x04, 0x02, 0x3E, 0x51, 0x49, 0x45, 0x3E, 0x00, 0x42, 0x7F, 0x40, 0x00,
  0x42, 0x61, 0x51, 0x49, 0x46, 0x21, 0x41, 0x45, 0x4B, 0x31, 0x18, 0x14, 0x12, 0x7F, 0x10,
  0x27, 0x45, 0x45, 0x45, 0x39, 0x3C, 0x4A, 0x49, 0x49, 0x30, 0x01, 0x71, 0x09, 0x05, 0x03,
  0x36, 0x49, 0x49, 0x49, 0x36, 0x06, 0x49, 0x49, 0x29, 0x1E, 0x00, 0x36, 0x36, 0x00, 0x00,
  0x00, 0x56, 0x36, 0x00, 0x00, 0x00, 0x08, 0x14, 0x22, 0x41, 0x14, 0x14, 0x14, 0x14, 0x14,
  0x41, 0x22, 0x14, 0x08, 0x00, 0x02, 0x01, 0x51, 0x09, 0x06, 0x32, 0x49, 0x79, 0x41, 0x3E,
  0x7E, 0x11, 0x11, 0x11, 0x7E, 0x7F, 0x49, 0x49, 0x49, 0x36, 0x3E, 0x41, 0x41, 0x41, 0x22,
  0x7F, 0x41, 0x41, 0x22, 0x1C, 0x7F, 0x49, 0x49, 0x49, 0x41, 0x7F, 0x09, 0x09, 0x01, 0x01,
  0x3E, 0x41, 0x41, 0x51, 0x32, 0x7F, 0x08, 0x08, 0x08, 0x7F, 0x00, 0x41, 0x7F, 0x41, 0x00,
  0x20, 0x40, 0x41, 0x3F, 0x01, 0x7F, 0x08, 0x14, 0x22, 0x41, 0x7F, 0x40, 0x40, 0x40, 0x40,
  0x7F, 0x02, 0x04, 0x02, 0x7F, 0x7F, 0x04, 0x08, 0x10, 0x7F, 0x3E, 0x41, 0x41, 0x41, 0x3E,
  0x7F, 0x09, 0x09, 0x09, 0x06, 0x3E, 0x41, 0x51, 0x21, 0x5E, 0x7F, 0x09, 0x19, 0x29, 0x46,
  0x46, 0x49, 0x49, 0x49, 0x31, 0x01, 0x01, 0x7F, 0x01, 0x01, 0x3F, 0x40, 0x40, 0x40, 0x3F,
  0x1F, 0x20, 0x40, 0x20, 0x1F, 0x7F, 0x20, 0x18, 0x20, 0x7F, 0x63, 0x14, 0x08, 0x14, 0x63,
  0x03, 0x04, 0x78, 0x04, 0x03, 0x61, 0x51, 0x49, 0x45, 0x43, 0x00, 0x00, 0x7F, 0x41, 0x41,
  0x02, 0x04, 0x08, 0x10, 0x20, 0x41, 0x41, 0x7F, 0x00, 0x00, 0x04, 0x02, 0x01, 0x02, 0x04,
  0x40, 0x40, 0x40, 0x40, 0x40, 0x00, 0x01, 0x02, 0x04, 0x00, 0x20, 0x54, 0x54, 0x54, 0x78,
  0x7F, 0x48, 0x44, 0x44, 0x38, 0x38, 0x44, 0x44, 0x44, 0x20, 0x38, 0x44, 0x44, 0x48, 0x7F,
  0x38, 0x54, 0x54, 0x54, 0x18, 0x08, 0x7E, 0x09, 0x01, 0x02, 0x08, 0x14, 0x54, 0x54, 0x3C,
  0x7F, 0x08, 0x04, 0x04, 0x78, 0x00, 0x44, 0x7D, 0x40, 0x00, 0x20, 0x40, 0x44, 0x3D, 0x00,
  0x00, 0x7F, 0x10, 0x28, 0x44, 0x00, 0x41, 0x7F, 0x40, 0x00, 0x7C, 0x04, 0x18, 0x04, 0x78,
  0x7C, 0x08, 0x04, 0x04, 0x78, 0x38, 0x44, 0x44, 0x44, 0x38, 0x7C, 0x14, 0x14, 0x14, 0x08,
  0x08, 0x14, 0x14, 0x18, 0x7C, 0x7C, 0x08, 0x04, 0x04, 0x08, 0x48, 0x54, 0x54, 0x54, 0x20,
  0x04, 0x3F, 0x44, 0x40, 0x20, 0x3C, 0x40, 0x40, 0x20, 0x7C, 0x1C, 0x20, 0x40, 0x20, 0x1C,
  0x3C, 0x40, 0x30, 0x40, 0x3C, 0x44, 0x28, 0x10, 0x28, 0x44, 0x0C, 0x50, 0x50, 0x50, 0x3C,
  0x44, 0x64, 0x54, 0x4C, 0x44, 0x00, 0x08, 0x36, 0x41, 0x00, 0x00, 0x00, 0x7F, 0x00, 0x00,
  0x00, 0x41, 0x36, 0x08, 0x00, 0x08, 0x08, 0x2A, 0x1C, 0x08, 0x08, 0x1C, 0x2A, 0x08, 0x08]"

section \<open>Filling a font\<close>

datatype font_id = Id_greek | Id_ibm | Id_slim | Id_unknown

text \<open>The rows of one symbol; \<open>start_x\<close> is the size of the matrix before the first.\<close>

fun core_add_rows :: "u8 list \<Rightarrow> nat \<Rightarrow> nat \<Rightarrow> matrix \<Rightarrow> matrix_error + matrix" where
  "core_add_rows [] row_y start_x symbol = Inr symbol"
| "core_add_rows (row # rows) row_y start_x symbol =
     (case core_add_row row row_y start_x symbol of
        Inl e \<Rightarrow> Inl e
      | Inr symbol \<Rightarrow> core_add_rows rows (Suc row_y) start_x symbol)"

fun core_fill_rows :: "bool \<Rightarrow> u8 list list \<Rightarrow> nat \<Rightarrow> nat \<Rightarrow> core_font \<Rightarrow> matrix_error + core_font" where
  "core_fill_rows has_sign [] shift i f = Inr f"
| "core_fill_rows has_sign (row_vector # hex_font) shift i f =
     (case core_add_rows row_vector 0 0 [] of
        Inl e \<Rightarrow> Inl e
      | Inr symbol \<Rightarrow>
          core_fill_rows has_sign hex_font shift (Suc i) (core_add_symbol has_sign (char_of (i + shift)) symbol f))"

text \<open>Five columns are a symbol, a sixth one separates it from the next.\<close>

definition core_fill_columns :: "bool \<Rightarrow> u8 list \<Rightarrow> nat \<Rightarrow> core_font \<Rightarrow> core_font" where
  "core_fill_columns has_sign hex_font shift f =
     fst (fold (\<lambda>column_id (f, symbol).
         let symbol = core_matrix_add (hex_font ! column_id) symbol
         in if column_id mod 5 = 4
            then (core_add_symbol has_sign (char_of (column_id div 5 + shift)) (core_matrix_add 0 symbol) f, [])
            else (f, symbol))
       [0..<length hex_font] (f, []))"

definition core_fill :: "bool \<Rightarrow> core_font \<Rightarrow> font_id \<Rightarrow> matrix_error + bool \<times> core_font" where
  "core_fill has_sign f i =
     (case i of
        Id_ibm \<Rightarrow> map_sum id (Pair True) (core_fill_rows has_sign hex_ibm_font 0 0 f)
      | Id_greek \<Rightarrow> map_sum id (Pair True) (core_fill_rows has_sign hex_greek_font 65 0 f)
      | Id_slim \<Rightarrow> Inr (True, core_fill_columns has_sign hex_slim_font 32 f)
      | Id_unknown \<Rightarrow> Inr (False, f))"

section \<open>The directory of the fonts\<close>

definition font_name_init :: "string list" where
  "font_name_init = [''greek'', ''ibm'', ''slim'']"

fun font_rank :: "font_id \<Rightarrow> nat" where
  "font_rank Id_greek = 0"
| "font_rank Id_ibm = 1"
| "font_rank Id_slim = 2"
| "font_rank Id_unknown = 3"

definition core_font_name :: "font_id \<Rightarrow> string" where
  "core_font_name i = (if font_rank i \<ge> 3 then [] else font_name_init ! font_rank i)"

definition core_font_id :: "string \<Rightarrow> font_id" where
  "core_font_id name =
     (case find (\<lambda>i. font_name_init ! font_rank i = name) [Id_greek, Id_ibm, Id_slim] of
        Some i \<Rightarrow> i | None \<Rightarrow> Id_unknown)"

text \<open>The pointers; \<open>None\<close> is null.\<close>

record core_font_dir =
  fd_vector :: "core_font option list"
  fd_default :: "core_font option"

definition core_dir_put :: "bool \<Rightarrow> font_id \<Rightarrow> core_font_dir \<Rightarrow> matrix_error + core_font_dir" where
  "core_dir_put has_sign i d =
     (case core_fill has_sign core_font_new i of
        Inl e \<Rightarrow> Inl e
      | Inr (filled, f) \<Rightarrow>
          Inr (if \<not> filled then d
               else d\<lparr>fd_default := if i = Id_ibm then Some f else fd_default d,
                      fd_vector := (fd_vector d)[font_rank i := Some f]\<rparr>))"

definition core_font_dir_new :: "bool \<Rightarrow> matrix_error + core_font_dir" where
  "core_font_dir_new has_sign =
     (case core_dir_put has_sign Id_ibm \<lparr>fd_vector = replicate 3 None, fd_default = None\<rparr> of
        Inl e \<Rightarrow> Inl e
      | Inr d \<Rightarrow>
          (case core_dir_put has_sign Id_greek d of
             Inl e \<Rightarrow> Inl e
           | Inr d \<Rightarrow> core_dir_put has_sign Id_slim d))"

text \<open>An unknown default is only logged.\<close>

definition core_font_dir_init :: "string \<Rightarrow> core_font_dir \<Rightarrow> bool \<times> core_font_dir" where
  "core_font_dir_init default_name d =
     (if default_name = [] then (fd_default d \<noteq> None, d)
      else if core_font_id default_name = Id_unknown then (fd_default d \<noteq> None, d)
      else
        let d = d\<lparr>fd_default := fd_vector d ! font_rank (core_font_id default_name)\<rparr>
        in (fd_default d \<noteq> None, d))"

definition core_is_font :: "string \<Rightarrow> bool" where
  "core_is_font name \<longleftrightarrow> core_font_id name \<noteq> Id_unknown"

definition core_get_font :: "string \<Rightarrow> core_font_dir \<Rightarrow> core_font option" where
  "core_get_font name d =
     (if core_font_id name \<noteq> Id_unknown then fd_vector d ! font_rank (core_font_id name) else fd_default d)"

text \<open>\<open>render_t::init\<close>, after the construction of the directory.\<close>

definition core_render_init :: "bool \<Rightarrow> string \<Rightarrow> matrix_error + bool \<times> core_font_dir" where
  "core_render_init has_sign default_font =
     (case core_font_dir_new has_sign of Inl e \<Rightarrow> Inl e | Inr d \<Rightarrow> Inr (core_font_dir_init default_font d))"

section \<open>Drawing\<close>

fun core_pixel_loop :: "bool \<Rightarrow> core_font \<Rightarrow> string \<Rightarrow> nat list \<Rightarrow> matrix \<Rightarrow> matrix option" where
  "core_pixel_loop has_sign f text [] tmp = Some tmp"
| "core_pixel_loop has_sign f text (pos # ps) tmp =
     (case text_at text pos of
        None \<Rightarrow> None
      | Some c \<Rightarrow>
          (case core_get_symbol has_sign f c of (start, n) \<Rightarrow>
             case core_matrix_add_part (cf_columns f) start n tmp of
               None \<Rightarrow> None
             | Some tmp \<Rightarrow> core_pixel_loop has_sign f text ps tmp))"

text \<open>The result: \<open>None\<close> is a null pointer, an index behind the text or behind the font.\<close>

definition core_pixelize_format ::
  "bool \<Rightarrow> core_font_dir \<Rightarrow> matrix \<Rightarrow> string \<Rightarrow> format_t \<Rightarrow> (bool \<times> matrix) option" where
  "core_pixelize_format has_sign d matrix text format =
     (case core_get_font (e_info (m_font format)) d of
        None \<Rightarrow> None
      | Some f \<Rightarrow>
          let info_start = e_info (m_start format);
              info_finish = size_add info_start
                (if is_unlimited format then length text else e_info (m_size format))
          in case core_pixel_loop has_sign f text [info_start..<info_finish] [] of
               None \<Rightarrow> None
             | Some tmp \<Rightarrow>
                 Some (True, matrix @ (if e_info (m_inversion format) then core_matrix_invert tmp else tmp)))"

text \<open>\<open>format_t::split\<close> with the tokenizer of this generation.\<close>

definition core_format_split :: "format_t list \<Rightarrow> string \<Rightarrow> bool \<times> format_t list" where
  "core_format_split dst src =
     (case core_tokenize [] src refsymbol_replace False of
        (ok, pairs) \<Rightarrow>
          if \<not> ok then (False, dst)
          else let dst = dst @ format_split_loop format_new 0 pairs src in (dst \<noteq> [], dst))"

fun core_pixelize_all ::
  "bool \<Rightarrow> core_font_dir \<Rightarrow> matrix \<Rightarrow> string \<Rightarrow> format_t list \<Rightarrow> (bool \<times> matrix) option" where
  "core_pixelize_all has_sign d matrix text [] = Some (True, matrix)"
| "core_pixelize_all has_sign d matrix text (fmt # fmts) =
     (case core_pixelize_format has_sign d matrix text fmt of
        None \<Rightarrow> None
      | Some (_, matrix) \<Rightarrow> core_pixelize_all has_sign d matrix text fmts)"

definition core_pixelize ::
  "bool \<Rightarrow> core_font_dir \<Rightarrow> matrix \<Rightarrow> string \<Rightarrow> string \<Rightarrow> (bool \<times> matrix) option" where
  "core_pixelize has_sign d matrix text format_string =
     (case core_format_split [] format_string of
        (ok, format_list) \<Rightarrow>
          if \<not> ok then core_pixelize_format has_sign d matrix text format_new
          else core_pixelize_all has_sign d matrix text format_list)"


text \<open>\<open>content_t::show\<close>; the answer of \<open>render\<close> is only logged.\<close>

definition core_show :: "bool \<Rightarrow> core_font_dir \<Rightarrow> core_request \<Rightarrow> serial \<Rightarrow> serial option" where
  "core_show has_sign d request s =
     (case core_pixelize has_sign d [] (cr_info request) (cr_format request) of
        None \<Rightarrow> None
      | Some (pixelized, matrix) \<Rightarrow> Some (if \<not> pixelized then s else pipe_render matrix s))"

section \<open>The fonts of the second server\<close>

text \<open>
  \<open>src/obsoleted/led-d/font-dir.cpp\<close>. Its class \<open>font_t\<close> is not there: \<open>font_add\<close> is its operation, the
  tables are the calls of \<open>font_add\<close> and \<open>font.add\<close> in their order.
\<close>

definition dir_ibm_calls :: "(char \<times> matrix) list" where
  "dir_ibm_calls = [
  (CHR '' '', [0x00, 0x00, 0x00, 0x00, 0x00, 0x00, 0x00, 0x00]), (CHR ''!'', [0x18, 0x3C, 0x3C, 0x18, 0x18, 0x00, 0x18, 0x00]),
  (CHR 0x22, [0x36, 0x36, 0x00, 0x00, 0x00, 0x00, 0x00, 0x00]), (CHR ''#'', [0x36, 0x36, 0x7F, 0x36, 0x7F, 0x36, 0x36, 0x00]),
  (CHR ''$'', [0x0C, 0x3E, 0x03, 0x1E, 0x30, 0x1F, 0x0C, 0x00]), (CHR ''%'', [0x00, 0x63, 0x33, 0x18, 0x0C, 0x66, 0x63, 0x00]),
  (CHR ''&'', [0x1C, 0x36, 0x1C, 0x6E, 0x3B, 0x33, 0x6E, 0x00]), (CHR 0x27, [0x06, 0x06, 0x03, 0x00, 0x00, 0x00, 0x00, 0x00]),
  (CHR ''('', [0x18, 0x0C, 0x06, 0x06, 0x06, 0x0C, 0x18, 0x00]), (CHR '')'', [0x06, 0x0C, 0x18, 0x18, 0x18, 0x0C, 0x06, 0x00]),
  (CHR ''*'', [0x00, 0x66, 0x3C, 0xFF, 0x3C, 0x66, 0x00, 0x00]), (CHR ''+'', [0x00, 0x0C, 0x0C, 0x3F, 0x0C, 0x0C, 0x00, 0x00]),
  (CHR '','', [0x00, 0x00, 0x00, 0x00, 0x00, 0x0C, 0x0C, 0x06]), (CHR ''-'', [0x00, 0x00, 0x00, 0x3F, 0x00, 0x00, 0x00, 0x00]),
  (CHR ''.'', [0x00, 0x00, 0x00, 0x00, 0x00, 0x0C, 0x0C, 0x00]), (CHR ''/'', [0x60, 0x30, 0x18, 0x0C, 0x06, 0x03, 0x01, 0x00]),
  (CHR ''0'', [0x3E, 0x63, 0x73, 0x7B, 0x6F, 0x67, 0x3E, 0x00]), (CHR ''1'', [0x0C, 0x0E, 0x0C, 0x0C, 0x0C, 0x0C, 0x3F, 0x00]),
  (CHR ''2'', [0x1E, 0x33, 0x30, 0x1C, 0x06, 0x33, 0x3F, 0x00]), (CHR ''3'', [0x1E, 0x33, 0x30, 0x1C, 0x30, 0x33, 0x1E, 0x00]),
  (CHR ''4'', [0x38, 0x3C, 0x36, 0x33, 0x7F, 0x30, 0x78, 0x00]), (CHR ''5'', [0x3F, 0x03, 0x1F, 0x30, 0x30, 0x33, 0x1E, 0x00]),
  (CHR ''6'', [0x1C, 0x06, 0x03, 0x1F, 0x33, 0x33, 0x1E, 0x00]), (CHR ''7'', [0x3F, 0x33, 0x30, 0x18, 0x0C, 0x0C, 0x0C, 0x00]),
  (CHR ''8'', [0x1E, 0x33, 0x33, 0x1E, 0x33, 0x33, 0x1E, 0x00]), (CHR ''9'', [0x1E, 0x33, 0x33, 0x3E, 0x30, 0x18, 0x0E, 0x00]),
  (CHR '':'', [0x00, 0x0C, 0x0C, 0x00, 0x00, 0x0C, 0x0C, 0x00]), (CHR ''/'', [0x00, 0x0C, 0x0C, 0x00, 0x00, 0x0C, 0x0C, 0x06]),
  (CHR ''<'', [0x18, 0x0C, 0x06, 0x03, 0x06, 0x0C, 0x18, 0x00]), (CHR ''='', [0x00, 0x00, 0x3F, 0x00, 0x00, 0x3F, 0x00, 0x00]),
  (CHR ''>'', [0x06, 0x0C, 0x18, 0x30, 0x18, 0x0C, 0x06, 0x00]), (CHR ''?'', [0x1E, 0x33, 0x30, 0x18, 0x0C, 0x00, 0x0C, 0x00]),
  (CHR ''@'', [0x3E, 0x63, 0x7B, 0x7B, 0x7B, 0x03, 0x1E, 0x00]), (CHR ''A'', [0x0C, 0x1E, 0x33, 0x33, 0x3F, 0x33, 0x33, 0x00]),
  (CHR ''B'', [0x3F, 0x66, 0x66, 0x3E, 0x66, 0x66, 0x3F, 0x00]), (CHR ''C'', [0x3C, 0x66, 0x03, 0x03, 0x03, 0x66, 0x3C, 0x00]),
  (CHR ''D'', [0x1F, 0x36, 0x66, 0x66, 0x66, 0x36, 0x1F, 0x00]), (CHR ''E'', [0x7F, 0x46, 0x16, 0x1E, 0x16, 0x46, 0x7F, 0x00]),
  (CHR ''F'', [0x7F, 0x46, 0x16, 0x1E, 0x16, 0x06, 0x0F, 0x00]), (CHR ''G'', [0x3C, 0x66, 0x03, 0x03, 0x73, 0x66, 0x7C, 0x00]),
  (CHR ''H'', [0x33, 0x33, 0x33, 0x3F, 0x33, 0x33, 0x33, 0x00]), (CHR ''I'', [0x1E, 0x0C, 0x0C, 0x0C, 0x0C, 0x0C, 0x1E, 0x00]),
  (CHR ''J'', [0x78, 0x30, 0x30, 0x30, 0x33, 0x33, 0x1E, 0x00]), (CHR ''K'', [0x67, 0x66, 0x36, 0x1E, 0x36, 0x66, 0x67, 0x00]),
  (CHR ''L'', [0x0F, 0x06, 0x06, 0x06, 0x46, 0x66, 0x7F, 0x00]), (CHR ''M'', [0x63, 0x77, 0x7F, 0x7F, 0x6B, 0x63, 0x63, 0x00]),
  (CHR ''N'', [0x63, 0x67, 0x6F, 0x7B, 0x73, 0x63, 0x63, 0x00]), (CHR ''O'', [0x1C, 0x36, 0x63, 0x63, 0x63, 0x36, 0x1C, 0x00]),
  (CHR ''P'', [0x3F, 0x66, 0x66, 0x3E, 0x06, 0x06, 0x0F, 0x00]), (CHR ''Q'', [0x1E, 0x33, 0x33, 0x33, 0x3B, 0x1E, 0x38, 0x00]),
  (CHR ''R'', [0x3F, 0x66, 0x66, 0x3E, 0x36, 0x66, 0x67, 0x00]), (CHR ''S'', [0x1E, 0x33, 0x07, 0x0E, 0x38, 0x33, 0x1E, 0x00]),
  (CHR ''T'', [0x3F, 0x2D, 0x0C, 0x0C, 0x0C, 0x0C, 0x1E, 0x00]), (CHR ''U'', [0x33, 0x33, 0x33, 0x33, 0x33, 0x33, 0x3F, 0x00]),
  (CHR ''V'', [0x33, 0x33, 0x33, 0x33, 0x33, 0x1E, 0x0C, 0x00]), (CHR ''W'', [0x63, 0x63, 0x63, 0x6B, 0x7F, 0x77, 0x63, 0x00]),
  (CHR ''X'', [0x63, 0x63, 0x36, 0x1C, 0x1C, 0x36, 0x63, 0x00]), (CHR ''Y'', [0x33, 0x33, 0x33, 0x1E, 0x0C, 0x0C, 0x1E, 0x00]),
  (CHR ''Z'', [0x7F, 0x63, 0x31, 0x18, 0x4C, 0x66, 0x7F, 0x00]), (CHR ''['', [0x1E, 0x06, 0x06, 0x06, 0x06, 0x06, 0x1E, 0x00]),
  (CHR 0x5C, [0x03, 0x06, 0x0C, 0x18, 0x30, 0x60, 0x40, 0x00]), (CHR '']'', [0x1E, 0x18, 0x18, 0x18, 0x18, 0x18, 0x1E, 0x00]),
  (CHR ''^'', [0x08, 0x1C, 0x36, 0x63, 0x00, 0x00, 0x00, 0x00]), (CHR ''_'', [0x00, 0x00, 0x00, 0x00, 0x00, 0x00, 0x00, 0xFF]),
  (CHR 0x60, [0x0C, 0x0C, 0x18, 0x00, 0x00, 0x00, 0x00, 0x00]), (CHR ''a'', [0x00, 0x00, 0x1E, 0x30, 0x3E, 0x33, 0x6E, 0x00]),
  (CHR ''b'', [0x07, 0x06, 0x06, 0x3E, 0x66, 0x66, 0x3B, 0x00]), (CHR ''c'', [0x00, 0x00, 0x1E, 0x33, 0x03, 0x33, 0x1E, 0x00]),
  (CHR ''d'', [0x38, 0x30, 0x30, 0x3E, 0x33, 0x33, 0x6E, 0x00]), (CHR ''e'', [0x00, 0x00, 0x1E, 0x33, 0x3F, 0x03, 0x1E, 0x00]),
  (CHR ''f'', [0x1C, 0x36, 0x06, 0x0F, 0x06, 0x06, 0x0F, 0x00]), (CHR ''g'', [0x00, 0x00, 0x6E, 0x33, 0x33, 0x3E, 0x30, 0x1F]),
  (CHR ''h'', [0x07, 0x06, 0x36, 0x6E, 0x66, 0x66, 0x67, 0x00]), (CHR ''i'', [0x0C, 0x00, 0x0E, 0x0C, 0x0C, 0x0C, 0x1E, 0x00]),
  (CHR ''j'', [0x30, 0x00, 0x30, 0x30, 0x30, 0x33, 0x33, 0x1E]), (CHR ''k'', [0x07, 0x06, 0x66, 0x36, 0x1E, 0x36, 0x67, 0x00]),
  (CHR ''l'', [0x0E, 0x0C, 0x0C, 0x0C, 0x0C, 0x0C, 0x1E, 0x00]), (CHR ''m'', [0x00, 0x00, 0x33, 0x7F, 0x7F, 0x6B, 0x63, 0x00]),
  (CHR ''n'', [0x00, 0x00, 0x1F, 0x33, 0x33, 0x33, 0x33, 0x00]), (CHR ''o'', [0x00, 0x00, 0x1E, 0x33, 0x33, 0x33, 0x1E, 0x00]),
  (CHR ''p'', [0x00, 0x00, 0x3B, 0x66, 0x66, 0x3E, 0x06, 0x0F]), (CHR ''q'', [0x00, 0x00, 0x6E, 0x33, 0x33, 0x3E, 0x30, 0x78]),
  (CHR ''r'', [0x00, 0x00, 0x3B, 0x6E, 0x66, 0x06, 0x0F, 0x00]), (CHR ''s'', [0x00, 0x00, 0x3E, 0x03, 0x1E, 0x30, 0x1F, 0x00]),
  (CHR ''t'', [0x08, 0x0C, 0x3E, 0x0C, 0x0C, 0x2C, 0x18, 0x00]), (CHR ''u'', [0x00, 0x00, 0x33, 0x33, 0x33, 0x33, 0x6E, 0x00]),
  (CHR ''v'', [0x00, 0x00, 0x33, 0x33, 0x33, 0x1E, 0x0C, 0x00]), (CHR ''w'', [0x00, 0x00, 0x63, 0x6B, 0x7F, 0x7F, 0x36, 0x00]),
  (CHR ''x'', [0x00, 0x00, 0x63, 0x36, 0x1C, 0x36, 0x63, 0x00]), (CHR ''y'', [0x00, 0x00, 0x33, 0x33, 0x33, 0x3E, 0x30, 0x1F]),
  (CHR ''z'', [0x00, 0x00, 0x3F, 0x19, 0x0C, 0x26, 0x3F, 0x00]), (CHR ''{'', [0x38, 0x0C, 0x0C, 0x07, 0x0C, 0x0C, 0x38, 0x00]),
  (CHR ''|'', [0x18, 0x18, 0x18, 0x00, 0x18, 0x18, 0x18, 0x00]), (CHR ''}'', [0x07, 0x0C, 0x0C, 0x38, 0x0C, 0x0C, 0x07, 0x00]),
  (CHR ''~'', [0x6E, 0x3B, 0x00, 0x00, 0x00, 0x00, 0x00, 0x00])]"

definition dir_slim_calls :: "(char \<times> matrix) list" where
  "dir_slim_calls = [
  (CHR '' '', [0x00, 0x00, 0x00, 0x00, 0x00]), (CHR ''!'', [0x00, 0x00, 0x5F, 0x00, 0x00]),
  (CHR 0x22, [0x00, 0x07, 0x00, 0x07, 0x00]), (CHR ''#'', [0x14, 0x7F, 0x14, 0x7F, 0x14]),
  (CHR ''$'', [0x24, 0x2A, 0x7F, 0x2A, 0x12]), (CHR ''%'', [0x23, 0x13, 0x08, 0x64, 0x62]),
  (CHR ''&'', [0x36, 0x49, 0x55, 0x22, 0x50]), (CHR 0x27, [0x00, 0x05, 0x03, 0x00, 0x00]),
  (CHR ''('', [0x00, 0x1C, 0x22, 0x41, 0x00]), (CHR '')'', [0x00, 0x41, 0x22, 0x1C, 0x00]),
  (CHR ''*'', [0x08, 0x2A, 0x1C, 0x2A, 0x08]), (CHR ''+'', [0x08, 0x08, 0x3E, 0x08, 0x08]),
  (CHR '','', [0x00, 0x50, 0x30, 0x00, 0x00]), (CHR ''-'', [0x08, 0x08, 0x08, 0x08, 0x08]),
  (CHR ''.'', [0x00, 0x60, 0x60, 0x00, 0x00]), (CHR ''/'', [0x20, 0x10, 0x08, 0x04, 0x02]),
  (CHR ''0'', [0x3E, 0x51, 0x49, 0x45, 0x3E]), (CHR ''1'', [0x00, 0x42, 0x7F, 0x40, 0x00]),
  (CHR ''2'', [0x42, 0x61, 0x51, 0x49, 0x46]), (CHR ''3'', [0x21, 0x41, 0x45, 0x4B, 0x31]),
  (CHR ''4'', [0x18, 0x14, 0x12, 0x7F, 0x10]), (CHR ''5'', [0x27, 0x45, 0x45, 0x45, 0x39]),
  (CHR ''6'', [0x3C, 0x4A, 0x49, 0x49, 0x30]), (CHR ''7'', [0x01, 0x71, 0x09, 0x05, 0x03]),
  (CHR ''8'', [0x36, 0x49, 0x49, 0x49, 0x36]), (CHR ''9'', [0x06, 0x49, 0x49, 0x29, 0x1E]),
  (CHR '':'', [0x00, 0x36, 0x36, 0x00, 0x00]), (CHR '';'', [0x00, 0x56, 0x36, 0x00, 0x00]),
  (CHR ''<'', [0x00, 0x08, 0x14, 0x22, 0x41]), (CHR ''='', [0x14, 0x14, 0x14, 0x14, 0x14]),
  (CHR ''>'', [0x41, 0x22, 0x14, 0x08, 0x00]), (CHR ''?'', [0x02, 0x01, 0x51, 0x09, 0x06]),
  (CHR ''@'', [0x32, 0x49, 0x79, 0x41, 0x3E]), (CHR ''A'', [0x7E, 0x11, 0x11, 0x11, 0x7E]),
  (CHR ''B'', [0x7F, 0x49, 0x49, 0x49, 0x36]), (CHR ''C'', [0x3E, 0x41, 0x41, 0x41, 0x22]),
  (CHR ''D'', [0x7F, 0x41, 0x41, 0x22, 0x1C]), (CHR ''E'', [0x7F, 0x49, 0x49, 0x49, 0x41]),
  (CHR ''F'', [0x7F, 0x09, 0x09, 0x01, 0x01]), (CHR ''G'', [0x3E, 0x41, 0x41, 0x51, 0x32]),
  (CHR ''H'', [0x7F, 0x08, 0x08, 0x08, 0x7F]), (CHR ''I'', [0x00, 0x41, 0x7F, 0x41, 0x00]),
  (CHR ''J'', [0x20, 0x40, 0x41, 0x3F, 0x01]), (CHR ''K'', [0x7F, 0x08, 0x14, 0x22, 0x41]),
  (CHR ''L'', [0x7F, 0x40, 0x40, 0x40, 0x40]), (CHR ''M'', [0x7F, 0x02, 0x04, 0x02, 0x7F]),
  (CHR ''N'', [0x7F, 0x04, 0x08, 0x10, 0x7F]), (CHR ''O'', [0x3E, 0x41, 0x41, 0x41, 0x3E]),
  (CHR ''P'', [0x7F, 0x09, 0x09, 0x09, 0x06]), (CHR ''Q'', [0x3E, 0x41, 0x51, 0x21, 0x5E]),
  (CHR ''R'', [0x7F, 0x09, 0x19, 0x29, 0x46]), (CHR ''S'', [0x46, 0x49, 0x49, 0x49, 0x31]),
  (CHR ''T'', [0x01, 0x01, 0x7F, 0x01, 0x01]), (CHR ''U'', [0x3F, 0x40, 0x40, 0x40, 0x3F]),
  (CHR ''V'', [0x1F, 0x20, 0x40, 0x20, 0x1F]), (CHR ''W'', [0x7F, 0x20, 0x18, 0x20, 0x7F]),
  (CHR ''X'', [0x63, 0x14, 0x08, 0x14, 0x63]), (CHR ''Y'', [0x03, 0x04, 0x78, 0x04, 0x03]),
  (CHR ''Z'', [0x61, 0x51, 0x49, 0x45, 0x43]), (CHR ''['', [0x00, 0x00, 0x7F, 0x41, 0x41]),
  (CHR 0x5C, [0x02, 0x04, 0x08, 0x10, 0x20]), (CHR '']'', [0x41, 0x41, 0x7F, 0x00, 0x00]),
  (CHR ''^'', [0x04, 0x02, 0x01, 0x02, 0x04]), (CHR ''_'', [0x40, 0x40, 0x40, 0x40, 0x40]),
  (CHR 0x60, [0x00, 0x01, 0x02, 0x04, 0x00]), (CHR ''a'', [0x20, 0x54, 0x54, 0x54, 0x78]),
  (CHR ''b'', [0x7F, 0x48, 0x44, 0x44, 0x38]), (CHR ''c'', [0x38, 0x44, 0x44, 0x44, 0x20]),
  (CHR ''d'', [0x38, 0x44, 0x44, 0x48, 0x7F]), (CHR ''e'', [0x38, 0x54, 0x54, 0x54, 0x18]),
  (CHR ''f'', [0x08, 0x7E, 0x09, 0x01, 0x02]), (CHR ''g'', [0x08, 0x14, 0x54, 0x54, 0x3C]),
  (CHR ''h'', [0x7F, 0x08, 0x04, 0x04, 0x78]), (CHR ''i'', [0x00, 0x44, 0x7D, 0x40, 0x00]),
  (CHR ''j'', [0x20, 0x40, 0x44, 0x3D, 0x00]), (CHR ''k'', [0x00, 0x7F, 0x10, 0x28, 0x44]),
  (CHR ''l'', [0x00, 0x41, 0x7F, 0x40, 0x00]), (CHR ''m'', [0x7C, 0x04, 0x18, 0x04, 0x78]),
  (CHR ''n'', [0x7C, 0x08, 0x04, 0x04, 0x78]), (CHR ''o'', [0x38, 0x44, 0x44, 0x44, 0x38]),
  (CHR ''p'', [0x7C, 0x14, 0x14, 0x14, 0x08]), (CHR ''q'', [0x08, 0x14, 0x14, 0x18, 0x7C]),
  (CHR ''r'', [0x7C, 0x08, 0x04, 0x04, 0x08]), (CHR ''s'', [0x48, 0x54, 0x54, 0x54, 0x20]),
  (CHR ''t'', [0x04, 0x3F, 0x44, 0x40, 0x20]), (CHR ''u'', [0x3C, 0x40, 0x40, 0x20, 0x7C]),
  (CHR ''v'', [0x1C, 0x20, 0x40, 0x20, 0x1C]), (CHR ''w'', [0x3C, 0x40, 0x30, 0x40, 0x3C]),
  (CHR ''x'', [0x44, 0x28, 0x10, 0x28, 0x44]), (CHR ''y'', [0x0C, 0x50, 0x50, 0x50, 0x3C]),
  (CHR ''z'', [0x44, 0x64, 0x54, 0x4C, 0x44]), (CHR ''{'', [0x00, 0x08, 0x36, 0x41, 0x00]),
  (CHR ''|'', [0x00, 0x00, 0x7F, 0x00, 0x00]), (CHR ''}'', [0x00, 0x41, 0x36, 0x08, 0x00])]"

definition dir_rotate :: "matrix \<Rightarrow> matrix" where
  "dir_rotate src =
     map (\<lambda>k. foldl (\<lambda>rotated src_byte.
            let rotated = push_bit 1 rotated
            in if src_byte AND push_bit k 1 \<noteq> 0 then rotated OR 1 else rotated) 0 (rev src))
       [0..<8]"

definition dir_font_add :: "(char \<Rightarrow> matrix \<Rightarrow> 'f \<Rightarrow> 'f) \<Rightarrow> char \<Rightarrow> matrix \<Rightarrow> 'f \<Rightarrow> 'f" where
  "dir_font_add font_add symbol src font =
     (if length src \<noteq> 8 then font_add symbol src font else font_add symbol (dir_rotate src) font)"

definition dir_get_info :: "(char \<Rightarrow> matrix \<Rightarrow> 'f \<Rightarrow> 'f) \<Rightarrow> 'f \<Rightarrow> font_id \<Rightarrow> 'f" where
  "dir_get_info font_add font i =
     (case i of
        Id_ibm \<Rightarrow> fold (\<lambda>(symbol, src). dir_font_add font_add symbol src) dir_ibm_calls font
      | Id_slim \<Rightarrow> fold (\<lambda>(symbol, src). font_add symbol src) dir_slim_calls font
      | _ \<Rightarrow> font)"

text \<open>\<open>font_name_t::get\<close> of \<open>src/obsoleted/util\<close>: an unknown name is the name of the first font.\<close>

definition unix_font_id :: "string \<Rightarrow> font_id" where
  "unix_font_id name =
     (case find (\<lambda>i. font_name_init ! font_rank i = name) [Id_greek, Id_ibm, Id_slim] of
        Some i \<Rightarrow> i | None \<Rightarrow> Id_ibm)"

definition dir_font_map :: "(char \<Rightarrow> matrix \<Rightarrow> 'f \<Rightarrow> 'f) \<Rightarrow> 'f \<Rightarrow> font_id \<rightharpoonup> 'f" where
  "dir_font_map font_add font =
     [Id_ibm \<mapsto> dir_get_info font_add font Id_ibm, Id_slim \<mapsto> dir_get_info font_add font Id_slim]"

definition dir_get_font :: "(font_id \<rightharpoonup> 'f) \<Rightarrow> string \<Rightarrow> cpp_exn + 'f" where
  "dir_get_font font_map name =
     (case font_map (unix_font_id name) of None \<Rightarrow> Inl Out_of_range | Some f \<Rightarrow> Inr f)"

text \<open>The constructor: the map and the default font.\<close>

definition dir_new :: "(char \<Rightarrow> matrix \<Rightarrow> 'f \<Rightarrow> 'f) \<Rightarrow> 'f \<Rightarrow> string \<Rightarrow> cpp_exn + (font_id \<rightharpoonup> 'f) \<times> 'f" where
  "dir_new font_add font default_font =
     (let font_map = dir_font_map font_add font
      in case dir_get_font font_map default_font of Inl e \<Rightarrow> Inl e | Inr f \<Rightarrow> Inr (font_map, f))"

section \<open>What a symbol looks like\<close>

text \<open>Eight rows fill the bits of eight columns.\<close>

lemma core_fill_row_length [simp]: "length (core_fill_row row y start_x m) = length m"
proof -
  have "length (fold (\<lambda>x m. m[start_x + x := g x m]) xs m) = length m" for xs g and m :: matrix
    by (induction xs arbitrary: m) simp_all
  then show ?thesis unfolding core_fill_row_def .
qed

lemma core_fill_row_nth:
  assumes "length m = 8" "x < 8"
  shows "core_fill_row row y 0 m ! x = (if bit row x then set_bit y else unset_bit y) (m ! x)"
proof -
  let ?f = "\<lambda>x m. m[0 + x := (if bit row x then set_bit y else unset_bit y) (m ! (0 + x))]"
  have "n \<le> 8 \<Longrightarrow> length (fold ?f [0..<n] m) = 8 \<and>
      (\<forall>x < 8. fold ?f [0..<n] m ! x = (if x < n then (if bit row x then set_bit y else unset_bit y) (m ! x) else m ! x))"
    for n
    by (induction n) (auto simp: assms(1) nth_list_update less_Suc_eq)
  from this [of 8] assms(2) show ?thesis unfolding core_fill_row_def by simp
qed

lemma core_add_rows_bits:
  assumes "length m = 8" "y + length rows \<le> 8"
  shows "\<exists>m'. core_add_rows rows y 0 m = Inr m' \<and> length m' = 8 \<and>
    (\<forall>x < 8. \<forall>i < 8. bit (m' ! x) i = (if y \<le> i \<and> i < y + length rows then bit (rows ! (i - y)) x else bit (m ! x) i))"
  using assms
proof (induction rows arbitrary: y m)
  case Nil
  then show ?case by auto
next
  case (Cons row rows)
  let ?m = "core_fill_row row y 0 m"
  have y: "\<not> y \<ge> 8" "Suc y + length rows \<le> 8" using Cons.prems(2) by simp_all
  have "core_add_row row y 0 m = Inr ?m" using Cons.prems(1) y(1) by (auto simp: core_add_row_def)
  moreover have "bit (?m ! x) i = (if i = y then bit row x else bit (m ! x) i)" if "x < 8" "i < 8" for x i
    using that y(1) core_fill_row_nth [OF Cons.prems(1) that(1), of row y]
    by (auto simp: bit_set_bit_iff bit_unset_bit_iff)
  moreover obtain m' where "core_add_rows rows (Suc y) 0 ?m = Inr m'" "length m' = 8"
    "\<forall>x < 8. \<forall>i < 8. bit (m' ! x) i = (if Suc y \<le> i \<and> i < Suc y + length rows then bit (rows ! (i - Suc y)) x else bit (?m ! x) i)"
    using Cons.IH [of ?m "Suc y"] Cons.prems(1) y(2) by auto
  ultimately show ?case by (auto simp: nth_Cons' Suc_le_eq not_less le_less_Suc_eq)
qed

lemma core_add_rows_transpose:
  assumes "length rows = 8"
  shows "core_add_rows rows 0 0 [] = Inr (transpose_matrix rows)"
proof -
  obtain row rest where rows: "rows = row # rest" using assms by (cases rows) auto
  have "core_add_rows rows 0 0 [] = core_add_rows rows 0 0 (replicate 8 0)"
    unfolding rows by (simp add: core_add_row_def)
  moreover obtain m where m: "core_add_rows rows 0 0 (replicate 8 0) = Inr m" "length m = 8"
    "\<forall>x < 8. \<forall>i < 8. bit (m ! x) i = bit (rows ! i) x"
    using core_add_rows_bits [of "replicate 8 0" 0 rows] assms by auto
  moreover have "m = transpose_matrix rows"
  proof (rule nth_equalityI)
    show len: "length m = length (transpose_matrix rows)"
      using m(2) assms by (simp add: transpose_matrix_def numeral_eq_Suc)
    fix x assume "x < length m"
    then have x: "x < 8" using m(2) by simp
    show "m ! x = transpose_matrix rows ! x"
    proof (rule bit_word_eqI)
      fix i assume "i < LENGTH(8)"
      then show "bit (m ! x) i = bit (transpose_matrix rows ! x) i"
        using m(3) x font_transpose_correct [OF assms, of i x] by simp
    qed
  qed
  ultimately show ?thesis by simp
qed


section \<open>What a font shows\<close>

text \<open>The places of two characters differ, with and without a sign.\<close>

lemma char_code: "(of_char c :: int) = int (of_char c)" "(of_char c :: nat) < 256"
  by (simp_all add: of_nat_of_char)

lemma core_symbol_index_nat:
  "core_symbol_index has_sign c =
     (if \<not> has_sign then of_char c else if of_char c \<ge> (128 :: nat) then of_char c - 128 else of_char c + 128)"
  by (auto simp: core_symbol_index_def Let_def char_code(1) nat_add_distrib)

lemma core_symbol_index_less: "core_symbol_index has_sign c < 256"
proof -
  obtain n :: nat where n: "of_char c = n" "n < 256" using char_code(2) [of c] by blast
  show ?thesis unfolding core_symbol_index_nat n(1) by (rule if_split [THEN iffD2]) (use n(2) in auto)
qed

lemma core_symbol_index_eq [simp]:
  "core_symbol_index has_sign c = core_symbol_index has_sign c' \<longleftrightarrow> c = c'"
proof
  assume eq: "core_symbol_index has_sign c = core_symbol_index has_sign c'"
  obtain n n' :: nat where "of_char c = n" "n < 256" "of_char c' = n'" "n' < 256"
    using char_code(2) [of c] char_code(2) [of c'] by blast
  then have "n = n'" using eq unfolding core_symbol_index_nat by (auto split: if_splits)
  then show "c = c'" using \<open>of_char c = n\<close> \<open>of_char c' = n'\<close> by (metis of_char_eq_iff)
qed simp

definition core_font_ok :: "core_font \<Rightarrow> bool" where
  "core_font_ok f \<longleftrightarrow> length (cf_vector f) = 256 \<and> (\<forall>(a, n) \<in> set (cf_vector f). a + n \<le> length (cf_columns f))"

definition core_glyph :: "bool \<Rightarrow> core_font \<Rightarrow> char \<Rightarrow> matrix" where
  "core_glyph has_sign f c = (case core_get_symbol has_sign f c of (a, n) \<Rightarrow> take n (drop a (cf_columns f)))"

lemma core_symbol_range:
  assumes "core_font_ok f" "core_get_symbol has_sign f c = (a, n)"
  shows "a + n \<le> length (cf_columns f)"
proof -
  have "core_symbol_index has_sign c < length (cf_vector f)"
    using core_symbol_index_less assms(1) by (simp add: core_font_ok_def)
  then have "(a, n) \<in> set (cf_vector f)" using assms(2) unfolding core_get_symbol_def by (metis nth_mem)
  then show ?thesis using assms(1) by (auto simp: core_font_ok_def)
qed

lemma core_font_new_ok: "core_font_ok core_font_new" "core_glyph has_sign core_font_new c = []"
  by (simp_all add: core_font_ok_def core_font_new_def core_glyph_def core_get_symbol_def core_symbol_index_less)

lemma core_add_symbol_ok:
  assumes "core_font_ok f"
  shows "core_font_ok (core_add_symbol has_sign c m f)"
  using assms by (fastforce simp: core_font_ok_def core_add_symbol_def Let_def dest!: set_update_subset_insert [THEN subsetD])

lemma core_add_symbol_glyph:
  assumes "core_font_ok f"
  shows "core_glyph has_sign (core_add_symbol has_sign c m f) c' = (if c' = c then m else core_glyph has_sign f c')"
proof (cases "c' = c")
  case True
  have "core_symbol_index has_sign c < length (cf_vector f)"
    using core_symbol_index_less assms by (simp add: core_font_ok_def)
  then show ?thesis using True by (simp add: core_glyph_def core_get_symbol_def core_add_symbol_def)
next
  case False
  obtain a n where s: "core_get_symbol has_sign f c' = (a, n)" by force
  have "core_get_symbol has_sign (core_add_symbol has_sign c m f) c' = (a, n)"
    using False s by (auto simp: core_get_symbol_def core_add_symbol_def nth_list_update)
  then show ?thesis
    using False s core_symbol_range [OF assms s] by (simp add: core_glyph_def core_add_symbol_def)
qed

lemma core_fill_rows_ok:
  assumes "core_font_ok f" "list_all (\<lambda>rows. length rows = 8) hex" "i + shift + length hex \<le> 256"
  shows "\<exists>f'. core_fill_rows has_sign hex shift i f = Inr f' \<and> core_font_ok f' \<and>
    (\<forall>c. core_glyph has_sign f' c =
      (if i + shift \<le> of_char c \<and> of_char c < i + shift + length hex
       then transpose_matrix (hex ! (of_char c - (i + shift))) else core_glyph has_sign f c))"
  using assms
proof (induction hex arbitrary: i f)
  case Nil
  then show ?case by auto
next
  case (Cons rows hex)
  let ?f = "core_add_symbol has_sign (char_of (i + shift)) (transpose_matrix rows) f"
  have i: "i + shift < 256" using Cons.prems(3) by simp
  have here: "c = char_of (i + shift) \<longleftrightarrow> of_char c = i + shift" for c :: char
    using i char_of_eq_iff [of "i + shift" c] by (auto simp: take_bit_eq_mod)
  have "core_add_rows rows 0 0 [] = Inr (transpose_matrix rows)"
    using Cons.prems(2) by (simp add: core_add_rows_transpose)
  moreover obtain f' where "core_fill_rows has_sign hex shift (Suc i) ?f = Inr f'" "core_font_ok f'"
    "\<forall>c. core_glyph has_sign f' c = (if Suc i + shift \<le> of_char c \<and> of_char c < Suc i + shift + length hex
       then transpose_matrix (hex ! (of_char c - (Suc i + shift))) else core_glyph has_sign ?f c)"
    using Cons.IH [of ?f "Suc i"] Cons.prems core_add_symbol_ok by auto
  ultimately show ?case
    by (auto simp: core_add_symbol_glyph [OF Cons.prems(1)] here nth_Cons' Suc_le_eq)
qed


lemma five_from: "[n..<n + 5] = [n, n + 1, n + 2, n + 3, n + 4]"
  by (simp add: upt_conv_Cons)

definition slim_symbol :: "nat \<Rightarrow> matrix" where
  "slim_symbol k = take 5 (drop (5 * k) hex_slim_font) @ [0]"

lemma core_fill_columns_ok:
  assumes "core_font_ok f" "length hex = 5 * n" "n + shift \<le> 256"
  shows "core_font_ok (core_fill_columns has_sign hex shift f) \<and>
    (\<forall>c. core_glyph has_sign (core_fill_columns has_sign hex shift f) c =
      (if shift \<le> of_char c \<and> of_char c < shift + n then take 5 (drop (5 * (of_char c - shift)) hex) @ [0]
       else core_glyph has_sign f c))"
proof -
  let ?step = "\<lambda>column_id (f, symbol).
      let symbol = core_matrix_add (hex ! column_id) symbol
      in if column_id mod 5 = 4
         then (core_add_symbol has_sign (char_of (column_id div 5 + shift)) (core_matrix_add 0 symbol) f, [])
         else (f, symbol)"
  have "k \<le> n \<Longrightarrow> \<exists>f'. fold ?step [0..<5 * k] (f, []) = (f', []) \<and> core_font_ok f' \<and>
    (\<forall>c. core_glyph has_sign f' c =
      (if shift \<le> of_char c \<and> of_char c < shift + k then take 5 (drop (5 * (of_char c - shift)) hex) @ [0]
       else core_glyph has_sign f c))" for k
  proof (induction k)
    case 0
    then show ?case using assms(1) by auto
  next
    case (Suc k)
    then obtain f' where f': "fold ?step [0..<5 * k] (f, []) = (f', [])" "core_font_ok f'"
      "\<forall>c. core_glyph has_sign f' c =
        (if shift \<le> of_char c \<and> of_char c < shift + k then take 5 (drop (5 * (of_char c - shift)) hex) @ [0]
         else core_glyph has_sign f c)"
      by auto
    have ids: "[0..<5 * Suc k] = [0..<5 * k] @ [5 * k, 5 * k + 1, 5 * k + 2, 5 * k + 3, 5 * k + 4]"
    proof -
      have "5 * Suc k = 5 * k + 5" by simp
      then show ?thesis using upt_add_eq_append [of 0 "5 * k" 5] by (simp only: five_from le0)
    qed
    let ?m = "[hex ! (5 * k), hex ! (5 * k + 1), hex ! (5 * k + 2), hex ! (5 * k + 3), hex ! (5 * k + 4)]"
    have "5 * k + 5 \<le> length hex" using Suc.prems assms(2) by simp
    then have m: "take 5 (drop (5 * k) hex) = ?m"
      by (simp add: list_eq_iff_nth_eq less_Suc_eq numeral_eq_Suc nth_Cons')
    let ?f = "core_add_symbol has_sign (char_of (k + shift)) (?m @ [0]) f'"
    have "fold ?step [0..<5 * Suc k] (f, []) = (?f, [])"
      unfolding ids fold_append o_apply f'(1)
      by (simp add: core_matrix_add_def mod_Suc div_Suc)
    moreover have "k + shift < 256" using Suc.prems assms(3) by simp
    then have "c = char_of (k + shift) \<longleftrightarrow> of_char c = k + shift" for c :: char
      using char_of_eq_iff [of "k + shift" c] by (auto simp: take_bit_eq_mod)
    ultimately show ?case
      using f'(2,3) core_add_symbol_ok [OF f'(2)] m
      by (auto simp: core_add_symbol_glyph [OF f'(2)] less_Suc_eq)
  qed
  from this [of n] show ?thesis unfolding core_fill_columns_def assms(2) by auto
qed

section \<open>The directory\<close>

lemma hex_rows: "list_all (\<lambda>rows. length rows = 8) hex_ibm_font" "length hex_ibm_font = 128"
    "list_all (\<lambda>rows. length rows = 8) hex_greek_font" "length hex_greek_font = 58"
    "length hex_slim_font = 5 * 96"
  by (simp_all add: hex_ibm_font_def hex_greek_font_def hex_slim_font_def)

lemma core_dir_ready:
  obtains d ibm greek slim where
    "core_font_dir_new has_sign = Inr d" "fd_vector d = [Some greek, Some ibm, Some slim]" "fd_default d = Some ibm"
    "core_font_ok ibm" "core_font_ok greek" "core_font_ok slim"
    "\<And>c. of_char c < (128 :: nat) \<Longrightarrow> core_glyph has_sign ibm c = transpose_matrix (hex_ibm_font ! of_char c)"
    "\<And>c. (32 :: nat) \<le> of_char c \<Longrightarrow> of_char c < (128 :: nat) \<Longrightarrow>
      core_glyph has_sign slim c = slim_symbol (of_char c - 32)"
proof -
  obtain ibm where ibm: "core_fill_rows has_sign hex_ibm_font 0 0 core_font_new = Inr ibm" "core_font_ok ibm"
    "\<And>c. of_char c < (128 :: nat) \<Longrightarrow> core_glyph has_sign ibm c = transpose_matrix (hex_ibm_font ! of_char c)"
    using core_fill_rows_ok [OF core_font_new_ok(1) hex_rows(1), of 0 0 has_sign] hex_rows(2) by auto
  obtain greek where greek: "core_fill_rows has_sign hex_greek_font 65 0 core_font_new = Inr greek" "core_font_ok greek"
    using core_fill_rows_ok [OF core_font_new_ok(1) hex_rows(3), of 0 65 has_sign] hex_rows(4) by auto
  have slim: "core_font_ok (core_fill_columns has_sign hex_slim_font 32 core_font_new)"
    "\<And>c. (32 :: nat) \<le> of_char c \<Longrightarrow> of_char c < (128 :: nat) \<Longrightarrow>
      core_glyph has_sign (core_fill_columns has_sign hex_slim_font 32 core_font_new) c = slim_symbol (of_char c - 32)"
    using core_fill_columns_ok [OF core_font_new_ok(1) hex_rows(5), of 32 has_sign] by (simp_all add: slim_symbol_def)
  let ?slim = "core_fill_columns has_sign hex_slim_font 32 core_font_new"
  let ?d = "\<lparr>fd_vector = [Some greek, Some ibm, Some ?slim], fd_default = Some ibm\<rparr>"
  have three: "replicate 3 x = [x, x, x]" for x :: "core_font option" by (simp add: numeral_3_eq_3)
  have "core_font_dir_new has_sign = Inr ?d"
    by (simp add: core_font_dir_new_def core_dir_put_def core_fill_def ibm(1) greek(1) three numeral_2_eq_2)
  then show thesis by (rule that [OF _ _ _ ibm(2) greek(2) slim(1) ibm(3) slim(2)]) simp_all
qed


section \<open>Drawing\<close>

lemma core_matrix_add_part_eq:
  assumes "start + n \<le> length arg"
  shows "core_matrix_add_part arg start n m = Some (m @ take n (drop start arg))"
proof -
  have "k \<le> n \<Longrightarrow> fold (\<lambda>i m. m @ [arg ! i]) [start..<start + k] m = m @ take k (drop start arg)" for k
    using assms by (induction k) (simp_all add: take_Suc_conv_app_nth)
  from this [of n] assms show ?thesis by (simp add: core_matrix_add_part_def)
qed

lemma core_pixel_loop_glyphs:
  assumes "core_font_ok f" "list_all (\<lambda>p. p < length text) ps"
  shows "core_pixel_loop has_sign f text ps tmp = Some (tmp @ concat (map (\<lambda>p. core_glyph has_sign f (text ! p)) ps))"
  using assms(2)
proof (induction ps arbitrary: tmp)
  case Nil
  then show ?case by simp
next
  case (Cons p ps)
  obtain a n where s: "core_get_symbol has_sign f (text ! p) = (a, n)" by force
  from core_matrix_add_part_eq [OF core_symbol_range [OF assms(1) s]] Cons s
  show ?case by (simp add: text_at_def core_glyph_def)
qed

lemma pixel_loop_glyphs:
  assumes "list_all (\<lambda>p. p < length text \<and> drawable (text ! p)) ps"
  shows "pixel_loop (font_new garbage) text ps tmp =
    Some (tmp @ concat (map (\<lambda>p. find_symbol (to_uint16 (text ! p)) fill_data) ps), font_new garbage)"
  using assms
proof (induction ps arbitrary: tmp)
  case Nil
  then show ?case by simp
next
  case (Cons p ps)
  then have "font_get (font_new garbage) (text ! p) = (find_symbol (to_uint16 (text ! p)) fill_data, font_new garbage)"
    by (simp add: font_get_basic drawable_basic) (simp add: font_new_def)
  with Cons show ?case by (simp add: text_at_def)
qed

text \<open>The tables of the two generations agree on what the present daemon can draw.\<close>

lemma drawable_char:
  assumes "drawable c"
  shows "of_char c \<in> {32..<127 :: nat}" "of_char c \<noteq> (59 :: nat)"
  using assms of_char_eq_iff [where 'a = nat, of c "CHR '';''"] by (auto simp: drawable_def)

lemma ibm_row:
  assumes "drawable c"
  shows "find_symbol (to_uint16 c) fill_data = transpose_matrix (hex_ibm_font ! of_char c)"
proof -
  have "list_all (\<lambda>n. n = 59 \<or> raw_basic basic_glyphs (char_of n) = Some (hex_ibm_font ! n)) [32..<127]"
    by code_simp
  then have "raw_basic basic_glyphs (char_of (of_char c :: nat)) = Some (hex_ibm_font ! of_char c)"
    using drawable_char [OF assms] unfolding list_all_iff set_upt by blast
  then show ?thesis by (simp add: find_symbol_basic [OF drawable_basic [OF assms]])
qed

text \<open>The positions that a format selects.\<close>

definition format_size :: "string \<Rightarrow> format_t \<Rightarrow> nat" where
  "format_size text fmt = (if is_unlimited fmt then length text else e_info (m_size fmt))"

lemma pixelize_formats_agree:
  assumes "list_all drawable text" "length text < npos"
    "e_info (m_start fmt) + format_size text fmt \<le> length text"
    "core_get_font (e_info (m_font fmt)) d = Some f" "core_font_ok f"
    "\<And>c. of_char c < (128 :: nat) \<Longrightarrow> core_glyph has_sign f c = transpose_matrix (hex_ibm_font ! of_char c)"
  defines "columns \<equiv> concat (map (\<lambda>c. transpose_matrix (hex_ibm_font ! of_char c))
      (take (format_size text fmt) (drop (e_info (m_start fmt)) text)))"
  defines "shown \<equiv> (if e_info (m_inversion fmt) then matrix_invert columns else columns)"
  shows "core_pixelize_format has_sign d m text fmt = Some (True, m @ shown)"
    "pixelize_format (font_new garbage) m text fmt = Some (True, m @ shown, font_new garbage)"
proof -
  let ?ps = "[e_info (m_start fmt)..<e_info (m_start fmt) + format_size text fmt]"
  have fits: "(e_info (m_start fmt) + format_size text fmt) mod 2 ^ SIZE_BITS = e_info (m_start fmt) + format_size text fmt"
    using assms(2,3) by (simp add: npos_def)
  have ps: "list_all (\<lambda>p. p < length text) ?ps" "list_all (\<lambda>p. p < length text \<and> drawable (text ! p)) ?ps"
    using assms(1,3) by (auto simp: list_all_iff)
  have chars: "map (\<lambda>p. text ! p) ?ps = take (format_size text fmt) (drop (e_info (m_start fmt)) text)"
    using assms(3) by (intro nth_equalityI) auto
  have small: "of_char c < (128 :: nat)" if "drawable c" for c using drawable_char(1) [OF that] by simp
  have "map (\<lambda>p. core_glyph has_sign f (text ! p)) ?ps = map (\<lambda>c. transpose_matrix (hex_ibm_font ! of_char c)) (map (\<lambda>p. text ! p) ?ps)"
    using ps(2) by (auto simp: list_all_iff assms(6) small)
  moreover have "map (\<lambda>p. find_symbol (to_uint16 (text ! p)) fill_data) ?ps
      = map (\<lambda>c. transpose_matrix (hex_ibm_font ! of_char c)) (map (\<lambda>p. text ! p) ?ps)"
    using ps(2) by (auto simp: list_all_iff ibm_row)
  ultimately have "core_pixel_loop has_sign f text ?ps [] = Some columns"
    "pixel_loop (font_new garbage) text ?ps [] = Some (columns, font_new garbage)"
    using core_pixel_loop_glyphs [OF assms(5) ps(1), of has_sign "[]"] pixel_loop_glyphs [OF ps(2), of garbage "[]"]
    by (simp_all add: columns_def chars)
  then show "core_pixelize_format has_sign d m text fmt = Some (True, m @ shown)"
    "pixelize_format (font_new garbage) m text fmt = Some (True, m @ shown, font_new garbage)"
    using assms(4) fits
    by (simp_all add: core_pixelize_format_def pixelize_format_def Let_def size_add_def format_size_def [symmetric]
        shown_def core_matrix_invert_def matrix_invert_def)
qed


section \<open>Texts\<close>

definition format_columns :: "string \<Rightarrow> format_t \<Rightarrow> matrix" where
  "format_columns text fmt =
     (let columns = concat (map (\<lambda>c. transpose_matrix (hex_ibm_font ! of_char c))
          (take (format_size text fmt) (drop (e_info (m_start fmt)) text)))
      in if e_info (m_inversion fmt) then matrix_invert columns else columns)"

text \<open>A format that selects characters of the text, in the font that is the default.\<close>

definition format_fits :: "string \<Rightarrow> format_t \<Rightarrow> bool" where
  "format_fits text fmt \<longleftrightarrow> e_info (m_start fmt) + format_size text fmt \<le> length text
     \<and> core_font_id (e_info (m_font fmt)) \<in> {Id_ibm, Id_unknown}"

lemma core_render_ready:
  obtains d f where "core_render_init has_sign [] = Inr (True, d)" "core_font_ok f"
    "\<And>name. core_font_id name \<in> {Id_ibm, Id_unknown} \<Longrightarrow> core_get_font name d = Some f"
    "\<And>c. of_char c < (128 :: nat) \<Longrightarrow> core_glyph has_sign f c = transpose_matrix (hex_ibm_font ! of_char c)"
proof -
  obtain d ibm greek slim where d: "core_font_dir_new has_sign = Inr d"
    "fd_vector d = [Some greek, Some ibm, Some slim]" "fd_default d = Some ibm" "core_font_ok ibm"
    "\<And>c. of_char c < (128 :: nat) \<Longrightarrow> core_glyph has_sign ibm c = transpose_matrix (hex_ibm_font ! of_char c)"
    by (rule core_dir_ready [of has_sign]) blast
  show thesis
    by (rule that [OF _ d(4) _ d(5)])
      (use d(1-3) in \<open>auto simp: core_render_init_def core_font_dir_init_def core_get_font_def\<close>)
qed

lemma core_formats_drawn:
  assumes "list_all drawable text" "length text < npos" "core_font_ok f"
    "\<And>name. core_font_id name \<in> {Id_ibm, Id_unknown} \<Longrightarrow> core_get_font name d = Some f"
    "\<And>c. of_char c < (128 :: nat) \<Longrightarrow> core_glyph has_sign f c = transpose_matrix (hex_ibm_font ! of_char c)"
    "list_all (format_fits text) fmts"
  shows "core_pixelize_all has_sign d m text fmts = Some (True, m @ concat (map (format_columns text) fmts))
    \<and> pixelize_all (font_new garbage) m text fmts = Some (True, m @ concat (map (format_columns text) fmts), font_new garbage)"
  using assms(6)
proof (induction fmts arbitrary: m)
  case Nil
  then show ?case by simp
next
  case (Cons fmt fmts)
  then have fmt: "e_info (m_start fmt) + format_size text fmt \<le> length text"
    "core_get_font (e_info (m_font fmt)) d = Some f"
    using assms(4) by (simp_all add: format_fits_def)
  note drawn = pixelize_formats_agree [OF assms(1,2) fmt assms(3,5)]
  have "core_pixelize_format has_sign d m text fmt = Some (True, m @ format_columns text fmt)"
    "pixelize_format (font_new garbage) m text fmt = Some (True, m @ format_columns text fmt, font_new garbage)"
    using drawn by (simp_all only: format_columns_def Let_def)
  with Cons show ?case by simp
qed


lemma format_columns_length:
  assumes "list_all drawable text" "format_fits text fmt"
  shows "length (format_columns text fmt) = 8 * format_size text fmt"
proof -
  let ?cs = "take (format_size text fmt) (drop (e_info (m_start fmt)) text)"
  have "length (transpose_matrix (hex_ibm_font ! of_char c)) = 8" if "drawable c" for c
    using drawable_glyph [OF that] ibm_row [OF that] by simp
  moreover have "set ?cs \<subseteq> set text" using set_take_subset set_drop_subset by (rule order_trans)
  ultimately have "map (\<lambda>c. length (transpose_matrix (hex_ibm_font ! of_char c))) ?cs = map (\<lambda>c. 8) ?cs"
    using assms(1) by (intro map_cong) (auto simp: list_all_iff)
  then have "length (concat (map (\<lambda>c. transpose_matrix (hex_ibm_font ! of_char c)) ?cs)) = 8 * length ?cs"
    by (simp add: length_concat o_def sum_list_triv del: map_eq_conv)
  moreover have "length ?cs = format_size text fmt" using assms(2) by (auto simp: format_fits_def)
  ultimately show ?thesis unfolding format_columns_def Let_def matrix_invert_def by simp
qed

definition sample_formats :: "format_t list" where
  "sample_formats = [format_new\<lparr>m_size := (m_size format_new)\<lparr>e_info := 1\<rparr>, m_inversion := (m_inversion format_new)\<lparr>e_info := True\<rparr>\<rparr>,
     format_new]"



section \<open>From a request to the messages for the controller\<close>

definition shown_formats :: "core_request \<Rightarrow> format_t list" where
  "shown_formats request =
     (case core_format_split [] (cr_format request) of (ok, fmts) \<Rightarrow> if ok then fmts else [format_new])"

lemma core_pixelize_shown:
  "core_pixelize has_sign d m (cr_info r) (cr_format r) = core_pixelize_all has_sign d m (cr_info r) (shown_formats r)"
  by (auto simp: core_pixelize_def shown_formats_def core_pixelize_format_def Let_def split: prod.split option.split)


definition sample_show :: core_request where
  "sample_show = \<lparr>cr_action = action_insert, cr_tag = ''a'', cr_format = ''-'', cr_info = ''led'', cr_duration = 0\<rparr>"

lemma sample_show_info: "cr_info sample_show = ''led''"
  by (simp add: sample_show_def)

lemma sample_show_formats: "shown_formats sample_show = [format_new]"
  by (simp add: shown_formats_def sample_show_def core_format_split_def core_tokenize_def find_first_not_of_def
      core_tokenize_from.simps str_find_def refsymbol_replace_def format_split_loop.simps format_split_one.simps
      substr_pair_def format_decode_def format_new_def entry_new_def format_end_key_def)


section \<open>A format that starts inside the text\<close>

lemma core_pixel_loop_behind:
  "\<exists>p \<in> set ps. p > length text \<Longrightarrow> core_pixel_loop has_sign f text ps tmp = None"
proof (induction ps arbitrary: tmp)
  case Nil
  then show ?case by simp
next
  case (Cons p ps)
  then show ?case
    by (cases "p > length text") (auto simp: text_at_def split: option.split prod.split)
qed

text \<open>
  Without a size, the end is the start plus the length of the text: a format that starts at the
  third character or later makes the server read behind the text.
\<close>

theorem format_start_reads_behind:
  assumes "is_unlimited fmt" "2 \<le> e_info (m_start fmt)" "e_info (m_start fmt) + length text < npos" "text \<noteq> []"
  shows "core_pixelize_format has_sign d m text fmt = None"
proof -
  let ?start = "e_info (m_start fmt)"
  have "size_add ?start (length text) = ?start + length text"
    using assms(3) by (simp add: size_add_def npos_def)
  moreover have "max ?start (Suc (length text)) \<in> set [?start..<?start + length text]"
    using assms(2,4) by (auto simp: Suc_le_eq)
  then have "\<exists>p \<in> set [?start..<?start + length text]. p > length text"
    by (rule bexI [rotated]) simp
  ultimately show ?thesis
    using core_pixel_loop_behind assms(1) by (simp add: core_pixelize_format_def split: option.split)
qed

theorem format_start_reads_behind_witness:
  "core_pixelize_format True d [] ''led'' (format_new\<lparr>m_start := (m_start format_new)\<lparr>e_info := 2\<rparr>\<rparr>) = None"
  by (rule format_start_reads_behind) (simp_all add: format_new_def entry_new_def is_unlimited_def npos_def SIZE_BITS_def)

section \<open>The fonts of the second server\<close>

lemma dir_rotate_transpose: "length src = 8 \<Longrightarrow> dir_rotate src = transpose_matrix src"
  by (simp add: dir_rotate_def transpose_matrix_def transpose_byte_def numeral_eq_Suc upt_rec)

text \<open>
  The second server hands the glyphs of the present daemon to its font, in the same order and with
  the same mistake: the picture of the semicolon has the key of the slash.
\<close>

theorem dir_calls_as_present:
  "map (\<lambda>(c, m). Add_basic c m) dir_ibm_calls = basic_glyphs
   \<and> dir_get_info (\<lambda>c m calls. calls @ [(c, m)]) [] Id_ibm = map (\<lambda>(c, m). (c, transpose_matrix m)) dir_ibm_calls"
proof
  show "map (\<lambda>(c, m). Add_basic c m) dir_ibm_calls = basic_glyphs"
    by (simp add: dir_ibm_calls_def basic_glyphs_def)
  have "fold (\<lambda>(c, src). dir_font_add (\<lambda>c m calls. calls @ [(c, m)]) c src) ps calls
      = calls @ map (\<lambda>(c, m). (c, transpose_matrix m)) ps"
    if "list_all (\<lambda>(c, m). length m = 8) ps" for ps calls
    using that by (induction ps arbitrary: calls) (auto simp: dir_font_add_def dir_rotate_transpose)
  moreover have "list_all (\<lambda>(c, m). length m = 8) dir_ibm_calls" by (simp add: dir_ibm_calls_def)
  ultimately show "dir_get_info (\<lambda>c m calls. calls @ [(c, m)]) [] Id_ibm = map (\<lambda>(c, m). (c, transpose_matrix m)) dir_ibm_calls"
    by (simp add: dir_get_info_def)
qed

text \<open>Its slim font is the one of the first server, but for the column between two characters and the
  two arrows at its end.\<close>

theorem dir_slim_as_first:
  "concat (map snd dir_slim_calls) = take 470 hex_slim_font
   \<and> map (\<lambda>(c, _). of_char c) dir_slim_calls = [32..<126 :: nat]"
  by (simp add: dir_slim_calls_def hex_slim_font_def upt_conv_Cons)

text \<open>
  A name that is in the list of names but not in the map: the greek font is asked for and the lookup
  throws, in the constructor too. Unknown names get the first font.
\<close>

theorem dir_greek_throws:
  "dir_get_font (dir_font_map font_add font) ''greek'' = Inl Out_of_range
   \<and> dir_new font_add font ''greek'' = Inl Out_of_range
   \<and> (core_font_id name = Id_unknown \<longrightarrow>
       dir_get_font (dir_font_map font_add font) name = Inr (dir_get_info font_add font Id_ibm))"
  by (auto simp: dir_get_font_def dir_new_def dir_font_map_def unix_font_id_def core_font_id_def font_name_init_def
      split: if_splits)

end
