(* ===== verification/Old_Scroll.thy ===== *)
theory Old_Scroll
  imports Old_Arduino
begin

text \<open>
  How the first controller shows a matrix (\<open>src/obsoleted/old/arduino-obsolete/c/arduino\<close>): the messages
  for the display driver and the interrupt that sends them (\<open>spi-write.c\<close>), and the states of the
  timer that shows a short matrix in the middle and rolls a long one (\<open>render.c\<close>). A pointer to a matrix
  is the matrix it points to, so swapping the pointers swaps the two. The array that \<open>handle_pixel\<close> does
  not initialise is an argument.
\<close>

section \<open>\<open>spi-write.c\<close>: a matrix\<close>

definition LENGTH_DATA :: u8 where "LENGTH_DATA = 34"
definition ARD_DATA_PREFIX :: u8 where "ARD_DATA_PREFIX = 0xA0"
definition DATA_BUFFER_MASK :: u8 where "DATA_BUFFER_MASK = 3"
definition SPI_WRITE_MATRIX_SIZE :: u8 where "SPI_WRITE_MATRIX_SIZE = 32"

definition ard_transpose :: "u8 \<Rightarrow> u8" where
  "ard_transpose src =
     (let low = src AND 0xF;
          high = src AND 0xF0;
          result = low AND 1;
          result = push_bit 1 result; low = drop_bit 1 low; result = result OR (low AND 1);
          result = push_bit 1 result; low = drop_bit 1 low; result = result OR (low AND 1);
          result = push_bit 1 result; low = drop_bit 1 low; result = result OR (low AND 1);
          result = push_bit 1 result;
          high = drop_bit 4 high;
          result = result OR (high AND 1);
          result = push_bit 1 result; high = drop_bit 1 high; result = result OR (high AND 1);
          result = push_bit 1 result; high = drop_bit 1 high; result = result OR (high AND 1);
          result = push_bit 1 result; high = drop_bit 1 high; result = result OR (high AND 1)
      in result)"

definition ard_fill_data :: "u8 \<Rightarrow> u8 \<Rightarrow> ard_queue \<Rightarrow> u8 \<times> ard_queue" where
  "ard_fill_data data buf q =
     (let tmp = data AND DATA_BUFFER_MASK;
          q = snd (ard_queue_fill_symbol q (buf OR drop_bit 2 data))
      in (push_bit 6 tmp, q))"

text \<open>\<open>data\<close> is what can be read from the pointer on.\<close>

definition ard_get_data :: "bytes \<Rightarrow> u8 \<Rightarrow> u8 \<Rightarrow> u8 \<Rightarrow> u8" where
  "ard_get_data data left_empty data_size index =
     (if index < left_empty then 0
      else let shift = index - left_empty
           in if shift < data_size then data ! unat shift else 0)"

definition ard_spi_write_matrix :: "bytes \<Rightarrow> u8 \<Rightarrow> u8 \<Rightarrow> ard \<Rightarrow> ard" where
  "ard_spi_write_matrix data left_empty data_size s =
     (let q = snd (ard_queue_fill_symbol (a_spi s) LENGTH_DATA);
          q = snd (ard_queue_fill_symbol q ARD_DATA_PREFIX);
          first_symbol = ard_get_data data left_empty data_size 0;
          bits_first = drop_bit 2 (ard_transpose first_symbol);
          (bits_buf, q) = fold (\<lambda>i (bits_buf, q).
              let symbol = ard_get_data data left_empty data_size (of_nat i)
              in ard_fill_data (ard_transpose symbol) bits_buf q)
            [0..<unat SPI_WRITE_MATRIX_SIZE] (0, q);
          q = snd (ard_queue_fill_symbol q (bits_buf OR bits_first))
      in ard_start_send (s\<lparr>a_spi := q\<rparr>))"

definition ard_spi_write_matrix_test :: "u8 \<Rightarrow> u8 \<Rightarrow> u8 \<Rightarrow> ard \<Rightarrow> ard" where
  "ard_spi_write_matrix_test pattern start matrix_size s =
     ard_spi_write_matrix (replicate (unat SPI_WRITE_MATRIX_SIZE) pattern) start matrix_size s"

section \<open>\<open>render.c\<close>: the state\<close>

datatype scroll_state = Scroll_empty | Scroll_stable | Scroll_pixel | Scroll_rendered

text \<open>The last field is the line that selects the driver.\<close>

record scroll =
  sc_ard :: ard
  sc_state :: scroll_state
  sc_matrix_a :: ard_matrix
  sc_matrix_b :: ard_matrix
  sc_index_left :: u8
  sc_index_a :: u8
  sc_delay_tick :: u8
  sc_delay_factor :: u8
  sc_tcnt :: u8
  sc_selected :: bool

definition DELAY_TICK_MAX :: u8 where "DELAY_TICK_MAX = 180"
definition DELAY_FACTOR_EMPTY :: u8 where "DELAY_FACTOR_EMPTY = 6"
definition DELAY_FACTOR_ZERO :: u8 where "DELAY_FACTOR_ZERO = 0"

text \<open>The interrupt at the end of a transfer.\<close>

definition ard_spi_stc :: "scroll \<Rightarrow> scroll" where
  "ard_spi_stc s =
     (let start =
        (if a_send_count (sc_ard s) \<noteq> 0 then Some s
         else case ard_queue_drain_symbol (a_spi (sc_ard s)) of
                (None, _) \<Rightarrow> None
              | (Some send_size, q) \<Rightarrow>
                  Some (s\<lparr>sc_ard := (sc_ard s)\<lparr>a_spi := q, a_send_size := send_size\<rparr>, sc_selected := True\<rparr>))
      in case start of
           None \<Rightarrow> s
         | Some s \<Rightarrow>
             if a_send_count (sc_ard s) \<ge> a_send_size (sc_ard s)
             then s\<lparr>sc_ard := (sc_ard s)\<lparr>a_send_count := 0, a_send_size := 0\<rparr>, sc_selected := False\<rparr>
             else case ard_queue_drain_symbol (a_spi (sc_ard s)) of
                    (None, _) \<Rightarrow> s\<lparr>sc_selected := False\<rparr>
                  | (Some data, q) \<Rightarrow>
                      s\<lparr>sc_ard := (sc_ard s)\<lparr>a_spi := q, a_send_count := a_send_count (sc_ard s) + 1,
                         a_spdr := a_spdr (sc_ard s) @ [data]\<rparr>\<rparr>)"

definition scroll_set_delay :: "u8 \<Rightarrow> u8 \<Rightarrow> scroll \<Rightarrow> scroll" where
  "scroll_set_delay tick factor s = s\<lparr>sc_delay_tick := tick, sc_delay_factor := factor\<rparr>"

definition scroll_software_init :: "scroll \<Rightarrow> scroll" where
  "scroll_software_init s =
     scroll_set_delay DELAY_TICK_MAX DELAY_FACTOR_EMPTY
       (s\<lparr>sc_state := Scroll_empty, sc_index_left := 0, sc_index_a := 0\<rparr>)"

text \<open>\<open>render_init\<close>, over what the rest of the start leaves.\<close>

definition scroll_render_init :: "ard \<Rightarrow> scroll" where
  "scroll_render_init a =
     scroll_software_init
       \<lparr>sc_ard = a\<lparr>a_pixel_delay := 6, a_phrase_delay := 12, a_stable_delay := 12\<rparr>, sc_state = Scroll_empty,
        sc_matrix_a = ard_matrix_init DEV_MAX_BUFFER_SIZE 222, sc_matrix_b = ard_matrix_init DEV_MAX_BUFFER_SIZE 223,
        sc_index_left = 0, sc_index_a = 0, sc_delay_tick = 0, sc_delay_factor = 0, sc_tcnt = DELAY_TICK_MAX,
        sc_selected = False\<rparr>"

definition scroll_swap_matrices :: "scroll \<Rightarrow> scroll" where
  "scroll_swap_matrices s = s\<lparr>sc_matrix_a := sc_matrix_b s, sc_matrix_b := sc_matrix_a s\<rparr>"

section \<open>\<open>render.c\<close>: the handlers\<close>

definition scroll_handle_empty :: "scroll \<Rightarrow> scroll" where
  "scroll_handle_empty s =
     (if ard_matrix_size (sc_matrix_a s) = 0 \<and> ard_matrix_size (sc_matrix_b s) = 0
      then scroll_set_delay DELAY_TICK_MAX DELAY_FACTOR_EMPTY s
      else
        let s = (if ard_matrix_size (sc_matrix_a s) = 0 \<and> ard_matrix_size (sc_matrix_b s) \<noteq> 0
                 then scroll_swap_matrices s else s);
            s = s\<lparr>sc_state := if ard_matrix_size (sc_matrix_a s) \<le> SPI_WRITE_MATRIX_SIZE
                             then Scroll_stable else Scroll_pixel\<rparr>;
            s = (if sc_state s = Scroll_pixel
                 then s\<lparr>sc_index_left := (if am_type (sc_matrix_a s) AND SUB_MATRIX_TYPE_FIRST \<noteq> 0
                                         then SPI_WRITE_MATRIX_SIZE else 0),
                        sc_index_a := 0\<rparr>
                 else s)
        in scroll_set_delay DELAY_TICK_MAX DELAY_FACTOR_ZERO s)"

definition scroll_handle_stable :: "scroll \<Rightarrow> scroll" where
  "scroll_handle_stable s =
     (let m = sc_matrix_a s;
          left_shift = (SPI_WRITE_MATRIX_SIZE - ard_matrix_size m) div 2;
          s = (case ard_matrix_get m 0 of
                 None \<Rightarrow> s
               | Some i \<Rightarrow> s\<lparr>sc_ard := ard_spi_write_matrix (drop i (aq_data (am_queue m))) left_shift
                                        (ard_matrix_size m) (sc_ard s)\<rparr>);
          s = s\<lparr>sc_matrix_a := ard_matrix_clear m, sc_state := Scroll_rendered\<rparr>
      in scroll_set_delay DELAY_TICK_MAX (a_stable_delay (sc_ard s)) s)"

text \<open>The comparison is one of \<open>int\<close>s.\<close>

definition scroll_fill_buffer :: "bytes \<Rightarrow> scroll \<Rightarrow> u8 \<times> bytes" where
  "scroll_fill_buffer data s =
     (let a = sc_matrix_a s; b = sc_matrix_b s;
          fill_size = SPI_WRITE_MATRIX_SIZE - sc_index_left s;
          data_size = (if int (unat fill_size) \<le> int (unat (ard_matrix_size a)) - int (unat (sc_index_a s))
                       then fill_size else ard_matrix_size a - sc_index_a s);
          data = (case ard_matrix_get a (sc_index_a s) of
                    None \<Rightarrow> data
                  | Some src \<Rightarrow> fold (\<lambda>i data. data[i := aq_data (am_queue a) ! (src + i)]) [0..<unat data_size] data)
      in if fill_size = data_size \<or> am_type a AND SUB_MATRIX_TYPE_LAST \<noteq> 0 \<or> ard_matrix_size b = 0
         then (data_size, data)
         else
           let fill_b_size = fill_size - data_size;
               fill_b_size = (if fill_b_size > ard_matrix_size b then ard_matrix_size b else fill_b_size);
               data = (case ard_matrix_get b 0 of
                         None \<Rightarrow> data
                       | Some src \<Rightarrow>
                           fold (\<lambda>j data. data[j := aq_data (am_queue b) ! (src + (j - unat data_size))])
                             [unat data_size..<unat fill_b_size + unat data_size] data)
           in (data_size + fill_b_size, data))"

definition scroll_increment_index :: "scroll \<Rightarrow> u8 \<times> scroll" where
  "scroll_increment_index s =
     (if sc_index_left s > 0 then (1, s\<lparr>sc_index_left := sc_index_left s - 1\<rparr>)
      else if sc_index_a s < ard_matrix_size (sc_matrix_a s) then (1, s\<lparr>sc_index_a := sc_index_a s + 1\<rparr>)
      else
        let type = am_type (sc_matrix_a s);
            s = s\<lparr>sc_matrix_a := ard_matrix_clear (sc_matrix_a s)\<rparr>
        in if type AND SUB_MATRIX_TYPE_LAST \<noteq> 0 then (0, s)
           else
             let s = (scroll_swap_matrices s)\<lparr>sc_index_a := 0\<rparr>
             in (of_flag (ard_matrix_size (sc_matrix_a s) \<noteq> 0), s))"

definition scroll_handle_pixel :: "bytes \<Rightarrow> scroll \<Rightarrow> scroll" where
  "scroll_handle_pixel garbage s =
     (case scroll_fill_buffer garbage s of
        (data_size, buffer) \<Rightarrow>
          let s = s\<lparr>sc_ard := ard_spi_write_matrix buffer (sc_index_left s) data_size (sc_ard s)\<rparr>
          in case scroll_increment_index s of
               (more_left, s) \<Rightarrow>
                 let s = (if more_left = 0 then s\<lparr>sc_state := Scroll_rendered\<rparr> else s)
                 in scroll_set_delay DELAY_TICK_MAX
                      (if sc_state s = Scroll_rendered then a_phrase_delay (sc_ard s) else a_pixel_delay (sc_ard s)) s)"

definition scroll_handle_rendered :: "scroll \<Rightarrow> scroll" where
  "scroll_handle_rendered s = scroll_software_init s"

text \<open>A matrix that the parser has filled moves to the first empty place.\<close>

definition scroll_take_parsed :: "scroll \<Rightarrow> scroll" where
  "scroll_take_parsed s =
     (let parsed = a_parse_matrix (sc_ard s)
      in if ard_matrix_size parsed = 0 then s
         else if ard_matrix_size (sc_matrix_a s) = 0 then
           (case ard_matrix_move parsed (sc_matrix_a s) of
              (_, parsed, m) \<Rightarrow> s\<lparr>sc_ard := (sc_ard s)\<lparr>a_parse_matrix := parsed\<rparr>, sc_matrix_a := m\<rparr>)
         else if ard_matrix_size (sc_matrix_b s) = 0 then
           (case ard_matrix_move parsed (sc_matrix_b s) of
              (_, parsed, m) \<Rightarrow> s\<lparr>sc_ard := (sc_ard s)\<lparr>a_parse_matrix := parsed\<rparr>, sc_matrix_b := m\<rparr>)
         else s)"

definition scroll_timer :: "bytes \<Rightarrow> scroll \<Rightarrow> scroll" where
  "scroll_timer garbage s =
     (if sc_delay_factor s > 0
      then s\<lparr>sc_delay_factor := sc_delay_factor s - 1, sc_tcnt := sc_delay_tick s\<rparr>
      else
        let s = (case sc_state s of
                   Scroll_empty \<Rightarrow> scroll_handle_empty s
                 | Scroll_stable \<Rightarrow> scroll_handle_stable s
                 | Scroll_pixel \<Rightarrow> scroll_handle_pixel garbage s
                 | Scroll_rendered \<Rightarrow> scroll_handle_rendered s);
            s = scroll_take_parsed s
        in s\<lparr>sc_tcnt := sc_delay_tick s\<rparr>)"


section \<open>The bits of a picture on the wire\<close>

text \<open>The bits of a byte, the most significant one first, as the SPI shifts them out.\<close>

definition bits_of :: "u8 \<Rightarrow> bool list" where
  "bits_of x = map (bit x) [7, 6, 5, 4, 3, 2, 1, 0]"

definition column_bits :: "u8 \<Rightarrow> bool list" where
  "column_bits x = map (bit x) [0, 1, 2, 3, 4, 5, 6, 7]"

lemma bits_and_masks:
  "bit ((x :: u8) AND 1) n \<longleftrightarrow> n = 0 \<and> bit x n" "bit ((x :: u8) AND 15) n \<longleftrightarrow> n < 4 \<and> bit x n"
  "bit ((x :: u8) AND 240) n \<longleftrightarrow> 4 \<le> n \<and> bit x n"
proof -
  have masks: "(15 :: u8) = mask 4" "(240 :: u8) = push_bit 4 (mask 4)" by (simp_all add: mask_eq_exp_minus_1)
  have "bit x n \<Longrightarrow> n < 8" using bit_imp_le_length [of x n] by auto
  then show "bit (x AND 15) n \<longleftrightarrow> n < 4 \<and> bit x n" "bit (x AND 240) n \<longleftrightarrow> 4 \<le> n \<and> bit x n"
    unfolding masks bit_and_iff bit_push_bit_iff bit_mask_iff by auto
  show "bit (x AND 1) n \<longleftrightarrow> n = 0 \<and> bit x n" by (auto simp: bit_simps)
qed

lemma bits_of_parts:
  "bit ((x :: u8) OR y) n \<longleftrightarrow> bit x n \<or> bit y n" "bit (drop_bit k x) n \<longleftrightarrow> bit x (k + n)"
  "bit (push_bit k x) n \<longleftrightarrow> k \<le> n \<and> n < 8 \<and> bit x (n - k)"
  by (auto simp: bit_simps)

lemma bit_transpose: "n < 8 \<Longrightarrow> bit (ard_transpose x) n = bit x (7 - n)"
proof -
  assume "n < 8"
  then consider "n = 0" | "n = 1" | "n = 2" | "n = 3" | "n = 4" | "n = 5" | "n = 6" | "n = 7" by linarith
  then show ?thesis
    unfolding ard_transpose_def Let_def bits_of_parts bits_and_masks
    by cases (simp_all add: numeral_2_eq_2 numeral_3_eq_3)
qed

lemma bits_of_transpose: "bits_of (ard_transpose x) = column_bits x"
  by (simp add: bits_of_def column_bits_def bit_transpose)

lemma u8_bit_out: "8 \<le> n \<Longrightarrow> \<not> bit (x :: u8) n"
  using bit_imp_le_length [of x n] by auto

lemma bits_of_pack:
  "bits_of (push_bit 6 (a AND DATA_BUFFER_MASK) OR drop_bit 2 b) = drop 6 (bits_of a) @ take 6 (bits_of b)"
  by (simp add: bits_of_def DATA_BUFFER_MASK_def bit_simps u8_bit_out)

text \<open>The bytes of a sequence of columns: each byte has the last two bits of one and six of the next.\<close>

fun pack_data :: "u8 \<Rightarrow> u8 list \<Rightarrow> u8 list" where
  "pack_data buf [] = [buf]"
| "pack_data buf (d # ds) = (buf OR drop_bit 2 d) # pack_data (push_bit 6 (d AND DATA_BUFFER_MASK)) ds"

lemma pack_data_length [simp]: "length (pack_data buf ds) = Suc (length ds)" "pack_data buf ds \<noteq> []"
proof -
  show len: "length (pack_data buf ds) = Suc (length ds)" for buf ds
    by (induction ds arbitrary: buf) (simp_all del: push_bit_and)
  then show "pack_data buf ds \<noteq> []" by (metis length_0_conv nat.distinct(1))
qed

lemma pack_data_bits:
  "concat (map bits_of (butlast (pack_data (push_bit 6 (a AND DATA_BUFFER_MASK)) ds)
      @ [last (pack_data (push_bit 6 (a AND DATA_BUFFER_MASK)) ds) OR drop_bit 2 e]))
    = drop 6 (bits_of a) @ concat (map bits_of ds) @ take 6 (bits_of e)"
proof (induction ds arbitrary: a)
  case Nil
  then show ?case by (simp add: bits_of_pack del: push_bit_and)
next
  case (Cons d ds)
  from Cons.IH [of d] show ?case by (simp add: bits_of_pack del: push_bit_and)
qed

section \<open>A message of the display driver\<close>

definition ard_fill_list :: "bytes \<Rightarrow> ard_queue \<Rightarrow> ard_queue" where
  "ard_fill_list xs q = fold (\<lambda>x q. snd (ard_queue_fill_symbol q x)) xs q"

lemma ard_fill_list_held:
  assumes "ard_wf q" "unat (aq_size q) + length xs \<le> unat (aq_max q)"
  shows "ard_wf (ard_fill_list xs q) \<and> ard_held (ard_fill_list xs q) = ard_held q @ xs
    \<and> aq_max (ard_fill_list xs q) = aq_max q
    \<and> unat (aq_size (ard_fill_list xs q)) = unat (aq_size q) + length xs"
  using assms
proof (induction xs arbitrary: q)
  case Nil
  then show ?case by (simp add: ard_fill_list_def)
next
  case (Cons x xs)
  have room: "unat (aq_size q) < unat (aq_max q)" using Cons.prems(2) by simp
  note f = ard_fill_symbol(2,3) [OF Cons.prems(1), of x] ard_fill_symbol(4) [OF Cons.prems(1) room, of x]
  have "ard_fill_list (x # xs) q = ard_fill_list xs (snd (ard_queue_fill_symbol q x))"
    by (simp add: ard_fill_list_def)
  with Cons.IH [OF f(1)] Cons.prems(2) f(2,3) show ?case by simp
qed

lemma fold_fill_data:
  "fold (\<lambda>symbol (bits_buf, q). ard_fill_data symbol bits_buf q) ds (buf, q)
    = (last (pack_data buf ds), ard_fill_list (butlast (pack_data buf ds)) q)"
proof (induction ds arbitrary: buf q)
  case Nil
  then show ?case by (simp add: ard_fill_list_def)
next
  case (Cons d ds)
  then show ?case by (simp add: ard_fill_data_def ard_fill_list_def)
qed

text \<open>The 32 columns that are shown.\<close>

definition shown_columns :: "bytes \<Rightarrow> u8 \<Rightarrow> u8 \<Rightarrow> u8 list" where
  "shown_columns data left_empty data_size = map (\<lambda>i. ard_get_data data left_empty data_size (of_nat i)) [0..<32]"

definition matrix_message :: "u8 list \<Rightarrow> bytes" where
  "matrix_message columns =
     (let packed = pack_data 0 (map ard_transpose columns)
      in ARD_DATA_PREFIX # butlast packed @ [last packed OR drop_bit 2 (ard_transpose (hd columns))])"

lemma ard_spi_write_matrix_queue:
  "ard_spi_write_matrix data left_empty data_size s =
    ard_start_send (s\<lparr>a_spi := ard_fill_list (LENGTH_DATA # matrix_message (shown_columns data left_empty data_size)) (a_spi s)\<rparr>)"
proof -
  let ?sym = "\<lambda>i. ard_transpose (ard_get_data data left_empty data_size (of_nat i))"
  have "fold (\<lambda>i (bits_buf, q). ard_fill_data (?sym i) bits_buf q) [0..<32] (0, q)
      = fold (\<lambda>symbol (bits_buf, q). ard_fill_data symbol bits_buf q) (map ?sym [0..<32]) (0, q)" for q
    by (simp add: fold_map comp_def)
  then have f: "fold (\<lambda>i (bits_buf, q). ard_fill_data (?sym i) bits_buf q) [0..<32] (0, q)
      = (last (pack_data 0 (map ?sym [0..<32])), ard_fill_list (butlast (pack_data 0 (map ?sym [0..<32]))) q)" for q
    unfolding fold_fill_data .
  have hd: "hd (shown_columns data left_empty data_size) = ard_get_data data left_empty data_size 0"
    by (simp add: shown_columns_def hd_map)
  have "map ard_transpose (shown_columns data left_empty data_size) = map ?sym [0..<32]"
    by (simp add: shown_columns_def)
  then show ?thesis
    unfolding ard_spi_write_matrix_def Let_def matrix_message_def hd
    by (simp add: f SPI_WRITE_MATRIX_SIZE_def) (simp add: ard_fill_list_def)
qed


text \<open>
  The command and the address, every column from its lowest bit on, and once more the first six bits
  of the first column, which the driver writes where they are already.
\<close>

lemma matrix_message_bits:
  assumes "columns \<noteq> []"
  shows "concat (map bits_of (matrix_message columns)) = [True, False, True] @ replicate 7 False
    @ concat (map column_bits columns) @ take 6 (column_bits (hd columns))"
proof -
  have "bits_of \<circ> ard_transpose = column_bits" by (simp add: fun_eq_iff bits_of_transpose)
  then have columns: "map bits_of (map ard_transpose columns) = map column_bits columns" by simp
  have zero: "push_bit 6 ((0 :: u8) AND DATA_BUFFER_MASK) = 0" "drop 6 (bits_of 0) = [False, False]"
    by (simp_all add: bits_of_def)
  have "concat (map bits_of (butlast (pack_data 0 (map ard_transpose columns))
      @ [last (pack_data 0 (map ard_transpose columns)) OR drop_bit 2 (ard_transpose (hd columns))]))
    = [False, False] @ concat (map column_bits columns) @ take 6 (column_bits (hd columns))"
    using pack_data_bits [of 0 "map ard_transpose columns" "ard_transpose (hd columns)"]
    unfolding columns zero bits_of_transpose .
  moreover have "bits_of ARD_DATA_PREFIX = [True, False, True, False, False, False, False, False]"
    by (simp add: bits_of_def ARD_DATA_PREFIX_def)
  ultimately show ?thesis by (simp add: matrix_message_def Let_def numeral_eq_Suc)
qed

lemma matrix_message_length: "length (matrix_message columns) = length columns + 2"
  by (simp add: matrix_message_def Let_def)

section \<open>The interrupts of a message\<close>

lemma ard_drain_symbol_held:
  assumes "ard_wf q" "ard_held q = x # xs"
  shows "\<exists>q'. ard_queue_drain_symbol q = (Some x, q') \<and> ard_wf q' \<and> ard_held q' = xs \<and> aq_max q' = aq_max q"
  using ard_drain_symbol(2) [OF assms] ard_drain_symbol(3,4) [OF assms(1)]
  by (intro exI [of _ "snd (ard_queue_drain_symbol q)"]) (simp add: prod_eq_iff)

definition spi_sent :: "scroll \<Rightarrow> bytes" where
  "spi_sent s = a_spdr (sc_ard s)"

definition ard_waits :: "scroll \<Rightarrow> bytes" where
  "ard_waits s = ard_held (a_spi (sc_ard s))"

text \<open>In the middle of a message: so many of its bytes are written to the data register.\<close>

definition sending :: "bytes \<Rightarrow> nat \<Rightarrow> bytes \<Rightarrow> bytes \<Rightarrow> scroll \<Rightarrow> bool" where
  "sending bytes k out rest s \<longleftrightarrow> ard_wf (a_spi (sc_ard s)) \<and> sc_selected s
     \<and> a_send_size (sc_ard s) = of_nat (length bytes) \<and> a_send_count (sc_ard s) = of_nat k
     \<and> ard_waits s = drop k bytes @ rest \<and> spi_sent s = out @ take k bytes"

lemma send_first:
  assumes "ard_wf (a_spi (sc_ard s))" "a_send_count (sc_ard s) = 0" "ard_waits s = of_nat (length bytes) # bytes @ rest"
    "bytes \<noteq> []" "length bytes < 256"
  shows "sending bytes 1 (spi_sent s) rest (ard_spi_stc s)"
proof -
  obtain b bs where bytes: "bytes = b # bs" using assms(4) by (cases bytes) auto
  obtain q where q: "ard_queue_drain_symbol (a_spi (sc_ard s)) = (Some (of_nat (length bytes)), q)" "ard_wf q"
    "ard_held q = b # bs @ rest"
    using ard_drain_symbol_held [OF assms(1)] assms(3) bytes unfolding ard_waits_def by auto
  obtain q' where q': "ard_queue_drain_symbol q = (Some b, q')" "ard_wf q'" "ard_held q' = bs @ rest"
    using ard_drain_symbol_held [OF q(2,3)] by auto
  have "\<not> (of_nat (length bytes) :: u8) \<le> 0" using assms(4,5) by (simp add: u8_le_iff unat_of_nat_u8)
  then show ?thesis
    using q q' assms(2) by (simp add: ard_spi_stc_def sending_def ard_waits_def spi_sent_def bytes)
qed

lemma send_next:
  assumes "sending bytes k out rest s" "0 < k" "k < length bytes" "length bytes < 256"
  shows "sending bytes (Suc k) out rest (ard_spi_stc s)"
proof -
  note s = assms(1) [unfolded sending_def ard_waits_def spi_sent_def]
  have next_byte: "drop k bytes = bytes ! k # drop (Suc k) bytes" using assms(3) by (simp add: Cons_nth_drop_Suc)
  then have "ard_held (a_spi (sc_ard s)) = bytes ! k # drop (Suc k) bytes @ rest" using s by simp
  from ard_drain_symbol_held [OF _ this] s obtain q where
    q: "ard_queue_drain_symbol (a_spi (sc_ard s)) = (Some (bytes ! k), q)" "ard_wf q"
    "ard_held q = drop (Suc k) bytes @ rest" by auto
  have "(of_nat k :: u8) \<noteq> 0" "\<not> (of_nat (length bytes) :: u8) \<le> of_nat k"
    using assms(2-4) by (simp_all add: u8_le_iff u8_eq_iff unat_of_nat_u8)
  then show ?thesis
    using s q assms(3)
    by (simp add: ard_spi_stc_def sending_def ard_waits_def spi_sent_def take_Suc_conv_app_nth ac_simps)
qed

lemma send_last:
  assumes "sending bytes (length bytes) out rest s" "bytes \<noteq> []" "length bytes < 256"
  shows "spi_sent (ard_spi_stc s) = out @ bytes \<and> ard_waits (ard_spi_stc s) = rest
    \<and> \<not> sc_selected (ard_spi_stc s) \<and> a_send_count (sc_ard (ard_spi_stc s)) = 0
    \<and> ard_wf (a_spi (sc_ard (ard_spi_stc s)))"
proof -
  have "(of_nat (length bytes) :: u8) \<noteq> 0" using assms(2,3) by (simp add: u8_eq_iff unat_of_nat_u8)
  then show ?thesis
    using assms(1) by (simp add: ard_spi_stc_def sending_def ard_waits_def spi_sent_def)
qed

text \<open>
  A message that waits first is sent whole, with the driver selected, by one interrupt for each of its
  bytes; the next interrupt deselects the driver, writes nothing, and so is the last: whatever waits
  behind the message stays there until something else is queued.
\<close>

lemma driver_message_sent:
  assumes "ard_wf (a_spi (sc_ard s))" "a_send_count (sc_ard s) = 0" "ard_waits s = of_nat (length bytes) # bytes @ rest"
    "bytes \<noteq> []" "length bytes < 256"
  defines "t \<equiv> (ard_spi_stc ^^ Suc (length bytes)) s"
  shows "0 < k \<Longrightarrow> k \<le> length bytes \<Longrightarrow> sending bytes k (spi_sent s) rest ((ard_spi_stc ^^ k) s)"
    and "spi_sent t = spi_sent s @ bytes \<and> ard_waits t = rest \<and> \<not> sc_selected t \<and> a_send_count (sc_ard t) = 0
      \<and> ard_wf (a_spi (sc_ard t))"
proof -
  show run: "sending bytes k (spi_sent s) rest ((ard_spi_stc ^^ k) s)" if "0 < k" "k \<le> length bytes" for k
    using that
  proof (induction k)
    case (Suc k)
    show ?case
    proof (cases "k = 0")
      case True
      then show ?thesis using send_first [OF assms(1-5)] by simp
    next
      case False
      then show ?thesis using Suc send_next [of bytes k _ rest] assms(5) by simp
    qed
  qed simp
  show "spi_sent t = spi_sent s @ bytes \<and> ard_waits t = rest \<and> \<not> sc_selected t \<and> a_send_count (sc_ard t) = 0
      \<and> ard_wf (a_spi (sc_ard t))"
    using send_last [OF run [of "length bytes"]] assms(4,5) by (simp add: t_def)
qed


text \<open>
  The seven commands of an initialization are queued at once. The interrupt after the last byte of a
  message writes nothing, so only the first one is sent and the others wait: the first picture
  does not fit behind them.
\<close>

definition command_bytes :: "u8 \<Rightarrow> bytes" where
  "command_bytes cmd = [CMD_PREFIX OR drop_bit 3 cmd, push_bit 5 cmd]"

definition commands_wait :: "bytes \<Rightarrow> ard \<Rightarrow> bool" where
  "commands_wait xs s \<longleftrightarrow> ard_wf (a_spi s) \<and> aq_max (a_spi s) = 50 \<and> ard_held (a_spi s) = xs \<and> a_send_count s = 0"

lemma fill_command_waits:
  assumes "commands_wait xs s" "length xs \<le> 47"
  shows "commands_wait (xs @ 2 # command_bytes cmd) (ard_fill_command cmd s)"
proof -
  let ?b = "2 # command_bytes cmd"
  have "ard_fill_command cmd s = ard_start_send (s\<lparr>a_spi := ard_fill_list ?b (a_spi s)\<rparr>)"
    by (simp add: ard_fill_command_def ard_fill_list_def command_bytes_def LENGTH_COMMAND_def)
  moreover have "unat (aq_size (a_spi s)) = length xs"
    using assms(1) length_ard_held [of "a_spi s"] by (simp add: commands_wait_def)
  then have "unat (aq_size (a_spi s)) + length ?b \<le> unat (aq_max (a_spi s))"
    using assms by (simp add: commands_wait_def command_bytes_def)
  ultimately show ?thesis
    using assms(1) ard_fill_list_held [of "a_spi s" ?b] by (simp add: commands_wait_def ard_start_send_def)
qed

lemma fill_commands_wait:
  "length xs + 3 * length cs \<le> 50 \<Longrightarrow> commands_wait xs s
    \<Longrightarrow> commands_wait (xs @ concat (map (\<lambda>c. 2 # command_bytes c) cs)) (fold ard_fill_command cs s)"
proof (induction cs arbitrary: xs s)
  case (Cons c cs)
  from Cons.IH [OF _ fill_command_waits [OF Cons.prems(2), of c]] Cons.prems(1) show ?case
    by (simp add: command_bytes_def)
qed simp

definition init_commands :: "u8 list" where
  "init_commands = [CMD_SYSTEM_STOP, ARD_CMD_NMOS_8COM, CMD_MASTER_MODE, CMD_SYSTEM_START, ARD_CMD_LED_ON,
     ard_brightness_command DEV_BRIGHTNESS_MAX, ard_brightness_command DEV_BRIGHTNESS_MAX]"

theorem init_commands_stall:
  assumes "commands_wait [] (sc_ard s)"
  defines "t \<equiv> (ard_spi_stc ^^ 3) (s\<lparr>sc_ard := ard_spi_write_initialize (sc_ard s)\<rparr>)"
  shows "spi_sent t = spi_sent (s\<lparr>sc_ard := ard_spi_write_initialize (sc_ard s)\<rparr>) @ command_bytes (hd init_commands)
    \<and> ard_waits t = concat (map (\<lambda>c. 2 # command_bytes c) (tl init_commands))
    \<and> \<not> sc_selected t \<and> 50 < length (ard_waits t) + 35"
proof -
  have init: "ard_spi_write_initialize a = fold ard_fill_command init_commands a" for a
    by (simp add: ard_spi_write_initialize_def init_commands_def Let_def)
  from fill_commands_wait [of "[]" init_commands, OF _ assms(1)]
  have waits: "commands_wait (concat (map (\<lambda>c. 2 # command_bytes c) init_commands)) (ard_spi_write_initialize (sc_ard s))"
    by (simp add: init init_commands_def)
  have split: "init_commands = hd init_commands # tl init_commands" by (simp add: init_commands_def)
  let ?s = "s\<lparr>sc_ard := ard_spi_write_initialize (sc_ard s)\<rparr>"
  have held: "ard_waits ?s = of_nat (length (command_bytes (hd init_commands))) # command_bytes (hd init_commands)
      @ concat (map (\<lambda>c. 2 # command_bytes c) (tl init_commands))"
    using waits by (subst (asm) split) (simp add: commands_wait_def ard_waits_def command_bytes_def)
  from waits have "ard_wf (a_spi (sc_ard ?s))" "a_send_count (sc_ard ?s) = 0" by (simp_all add: commands_wait_def)
  from driver_message_sent(2) [OF this held] show ?thesis
    by (simp add: t_def command_bytes_def init_commands_def numeral_3_eq_3)
qed


section \<open>The picture of a rolling matrix\<close>

definition scroll_picture :: "bytes \<Rightarrow> scroll \<Rightarrow> u8 list" where
  "scroll_picture garbage s =
     (case scroll_fill_buffer garbage s of (n, buffer) \<Rightarrow> shown_columns buffer (sc_index_left s) n)"

definition holds_matrix :: "ard_matrix \<Rightarrow> u8 list \<Rightarrow> bool" where
  "holds_matrix m columns \<longleftrightarrow> ard_wf (am_queue m) \<and> ard_held (am_queue m) = columns"

definition last_piece :: "ard_matrix \<Rightarrow> bool" where
  "last_piece m \<longleftrightarrow> am_type m AND SUB_MATRIX_TYPE_LAST \<noteq> 0"

text \<open>So many empty columns are left in front, so many columns of the matrix have gone.\<close>

definition rolling :: "u8 list \<Rightarrow> u8 list \<Rightarrow> nat \<Rightarrow> nat \<Rightarrow> scroll \<Rightarrow> bool" where
  "rolling as bs left gone s \<longleftrightarrow> sc_state s = Scroll_pixel
     \<and> holds_matrix (sc_matrix_a s) as \<and> holds_matrix (sc_matrix_b s) bs
     \<and> sc_index_left s = of_nat left \<and> left \<le> 32 \<and> sc_index_a s = of_nat gone \<and> gone \<le> length as"

lemma holds_matrix_size:
  assumes "holds_matrix m columns"
  shows "unat (ard_matrix_size m) = length columns" "length columns < 256"
    "i < length columns \<Longrightarrow> aq_data (am_queue m) ! i = columns ! i"
    "ard_matrix_get m (of_nat i) = (if i mod 256 < length columns then Some (i mod 256) else None)"
proof -
  have q: "ard_wf (am_queue m)" "ard_held (am_queue m) = columns" using assms by (simp_all add: holds_matrix_def)
  show size: "unat (ard_matrix_size m) = length columns"
    using length_ard_held [OF q(1)] q(2) by (simp add: ard_matrix_size_def)
  then show small: "length columns < 256" by (metis unat_u8_less)
  show "i < length columns \<Longrightarrow> aq_data (am_queue m) ! i = columns ! i"
  proof -
    assume "i < length columns"
    then have "take (length columns) (aq_data (am_queue m)) ! i = aq_data (am_queue m) ! i" by simp
    then show "aq_data (am_queue m) ! i = columns ! i"
      using q(2) size by (simp add: ard_held_def ard_matrix_size_def)
  qed
  show "ard_matrix_get m (of_nat i) = (if i mod 256 < length columns then Some (i mod 256) else None)"
    using size by (simp add: ard_matrix_get_def ard_queue_get_def ard_matrix_size_def u8_le_iff unat_of_nat)
qed

lemma fold_write_nth:
  "i < length data \<Longrightarrow> fold (\<lambda>j data. data[j := f j]) [m..<n] data ! i = (if m \<le> i \<and> i < n then f i else data ! i)"
proof (induction n)
  case (Suc n)
  have "length (fold (\<lambda>j data. data[j := f j]) [m..<n] data) = length data"
    by (rule length_fold_copy)
  then show ?case using Suc by (cases "m \<le> n"; cases "i = n") (auto simp: nth_list_update)
qed simp

lemma ard_get_data_nth:
  assumes "i < 256" "left < 256"
  shows "ard_get_data data (of_nat left) n (of_nat i) =
    (if i < left then 0 else if i - left < unat n then data ! (i - left) else 0)"
proof -
  have "unat (of_nat i - of_nat left :: u8) = i - left" if "left \<le> i"
    using that assms by (simp add: unat_u8_minus unat_of_nat_u8 u8_le_iff)
  then show ?thesis
    using assms by (auto simp: ard_get_data_def Let_def u8_less_iff unat_of_nat_u8)
qed


text \<open>What \<open>fill_buffer\<close> copies: columns of the first matrix and, where it is not the last piece, of the second.\<close>

lemma scroll_fill_buffer_eq:
  assumes "rolling as bs left gone s" "length garbage = 32"
  defines "n \<equiv> min (32 - left) (length as - gone)"
  defines "bs' \<equiv> (if last_piece (sc_matrix_a s) then [] else take (32 - left - n) bs)"
  shows "\<exists>size buffer. scroll_fill_buffer garbage s = (size, buffer) \<and> unat size = n + length bs'
    \<and> (\<forall>j < n + length bs'. buffer ! j = (drop gone as @ bs') ! j)"
proof -
  let ?a = "sc_matrix_a s" and ?b = "sc_matrix_b s"
  have r: "holds_matrix ?a as" "holds_matrix ?b bs" "sc_index_left s = of_nat left" "left \<le> 32"
    "sc_index_a s = of_nat gone" "gone \<le> length as"
    using assms(1) by (simp_all add: rolling_def)
  note a = holds_matrix_size [OF r(1)] and b = holds_matrix_size [OF r(2)]
  have left: "unat (sc_index_left s) = left" "unat (sc_index_a s) = gone"
    using r(3-6) a(2) by (simp_all add: unat_of_nat_u8)
  have fill: "unat (SPI_WRITE_MATRIX_SIZE - sc_index_left s) = 32 - left"
    using left r(4) by (simp add: SPI_WRITE_MATRIX_SIZE_def unat_u8_minus u8_le_iff)
  have rest: "unat (ard_matrix_size ?a - sc_index_a s) = length as - gone"
    using left r(6) a(1) by (simp add: unat_u8_minus u8_le_iff)
  define k where "k = (if int (unat (SPI_WRITE_MATRIX_SIZE - sc_index_left s)) \<le> int (unat (ard_matrix_size ?a)) - int (unat (sc_index_a s))
    then SPI_WRITE_MATRIX_SIZE - sc_index_left s else ard_matrix_size ?a - sc_index_a s)"
  have n: "unat k = n" using fill rest r(6) unfolding k_def left a(1) by (auto simp: n_def)
  define data where "data = (case ard_matrix_get ?a (sc_index_a s) of None \<Rightarrow> garbage
      | Some src \<Rightarrow> fold (\<lambda>i data. data[i := aq_data (am_queue ?a) ! (src + i)]) [0..<n] garbage)"
  have gone: "gone mod 256 = gone" using r(6) a(2) by simp
  have data: "length data = 32" "\<And>j. j < n \<Longrightarrow> data ! j = as ! (gone + j)"
    using r(6) assms(2)
    by (auto simp: data_def r(5) a(4) gone length_fold_copy fold_write_nth a(3) n_def)
  have drop_as: "(drop gone as @ xs) ! j = as ! (gone + j)" if "j < n" for j xs
    using that r(6) by (simp add: n_def nth_append)
  show ?thesis
  proof (cases "32 - left = n \<or> last_piece ?a \<or> bs = []")
    case True
    have "SPI_WRITE_MATRIX_SIZE - sc_index_left s = k \<longleftrightarrow> 32 - left = n" unfolding u8_eq_iff fill n ..
    moreover have "ard_matrix_size ?b = 0 \<longleftrightarrow> bs = []" using b(1) by (simp add: u8_eq_iff)
    ultimately have "scroll_fill_buffer garbage s = (k, data)"
      using True unfolding scroll_fill_buffer_def Let_def k_def [symmetric] n data_def last_piece_def by simp
    moreover have "bs' = []" using True by (auto simp: bs'_def)
    ultimately show ?thesis using n data(2) r(6) by (intro exI [of _ k] exI [of _ data]) simp
  next
    case False
    have "SPI_WRITE_MATRIX_SIZE - sc_index_left s = k \<longleftrightarrow> 32 - left = n" unfolding u8_eq_iff fill n ..
    moreover have size_b: "ard_matrix_size ?b = 0 \<longleftrightarrow> bs = []" using b(1) by (simp add: u8_eq_iff)
    ultimately have go: "\<not> (SPI_WRITE_MATRIX_SIZE - sc_index_left s = k \<or> am_type ?a AND SUB_MATRIX_TYPE_LAST \<noteq> 0
        \<or> ard_matrix_size ?b = 0)"
      using False by (simp add: last_piece_def)
    let ?f = "SPI_WRITE_MATRIX_SIZE - sc_index_left s - k"
    have f: "unat ?f = 32 - left - n" using fill n by (subst unat_u8_minus) (auto simp: u8_le_iff n_def)
    let ?m = "if ?f > ard_matrix_size ?b then ard_matrix_size ?b else ?f"
    have m: "unat ?m = length bs'" using f b(1) False by (auto simp: bs'_def u8_less_iff)
    have get: "ard_matrix_get ?b 0 = Some 0" using b(4) [of 0] False by simp
    let ?data = "fold (\<lambda>j data. data[j := aq_data (am_queue ?b) ! (0 + (j - n))]) [n..<length bs' + n] data"
    have "scroll_fill_buffer garbage s = (k + ?m, ?data)"
      using go unfolding scroll_fill_buffer_def Let_def k_def [symmetric] n data_def [symmetric] m get by simp
    moreover have "length bs' \<le> 32 - left - n" "n \<le> 32 - left" by (simp_all add: bs'_def n_def)
    then have fits: "n + length bs' \<le> 32" by linarith
    then have "unat (k + ?m) = n + length bs'" using n m by (subst unat_u8_plus) auto
    moreover have n_as: "n = length as - gone" using False by (auto simp: n_def min_def)
    have "?data ! j = (drop gone as @ bs') ! j" if "j < n + length bs'" for j
    proof (cases "j < n")
      case True
      then show ?thesis using data fits drop_as [OF True] by (simp add: fold_write_nth)
    next
      case False
      then have j: "j - n < length bs'" "n \<le> j" using that by simp_all
      have "(drop gone as @ bs') ! j = bs' ! (j - n)" using False n_as by (simp add: nth_append)
      moreover have "bs' ! (j - n) = bs ! (j - n)" "j - n < length bs" using j(1) by (simp_all add: bs'_def split: if_splits)
      ultimately show ?thesis using that j(2) data(1) fits b(3) by (simp add: fold_write_nth add.commute)
    qed
    ultimately show ?thesis by blast
  qed
qed


text \<open>The picture: the columns in order, behind the empty ones, cut to the display.\<close>

definition window :: "u8 list \<Rightarrow> nat \<Rightarrow> u8 list" where
  "window columns left = take 32 (replicate left 0 @ columns @ replicate 32 0)"

lemma append_take_nth:
  assumes "j < min r (length xs) + length (take (r - min r (length xs)) ys)"
  shows "(xs @ take (r - min r (length xs)) ys) ! j = (xs @ ys) ! j" "j < length (xs @ ys)"
proof -
  show "(xs @ take (r - min r (length xs)) ys) ! j = (xs @ ys) ! j"
    using assms by (cases "r \<le> length xs") (auto simp: nth_append)
  show "j < length (xs @ ys)" using assms by (auto split: if_splits)
qed

lemma scroll_picture_window:
  assumes "rolling as bs left gone s" "length garbage = 32"
  shows "scroll_picture garbage s = window (drop gone as @ (if last_piece (sc_matrix_a s) then [] else bs)) left"
proof -
  define xs where "xs = drop gone as"
  define ys where "ys = (if last_piece (sc_matrix_a s) then [] else bs)"
  have cut: "(if last_piece (sc_matrix_a s) then [] else take (32 - left - min (32 - left) (length xs)) bs)
      = take (32 - left - min (32 - left) (length xs)) ys" "length as - gone = length xs"
    by (simp_all add: xs_def ys_def)
  let ?cut = "take (32 - left - min (32 - left) (length xs)) ys"
  from scroll_fill_buffer_eq [OF assms, unfolded cut, folded xs_def] obtain size buffer where
    sb: "scroll_fill_buffer garbage s = (size, buffer) \<and> unat size = min (32 - left) (length xs) + length ?cut
      \<and> (\<forall>j < min (32 - left) (length xs) + length ?cut. buffer ! j = (xs @ ?cut) ! j)"
    by (elim exE) (rule that)
  then have f: "scroll_fill_buffer garbage s = (size, buffer)"
    "unat size = min (32 - left) (length xs) + length ?cut"
    "\<And>j. j < unat size \<Longrightarrow> buffer ! j = (xs @ ?cut) ! j"
    by simp_all
  have left: "sc_index_left s = of_nat left" "left \<le> 32" using assms(1) by (simp_all add: rolling_def)
  have buffer: "buffer ! j = (xs @ ys) ! j" "j < length (xs @ ys)" if "j < unat size" for j
    using f(3) [OF that] append_take_nth [OF that [unfolded f(2)]] by simp_all
  have size: "unat size = min (32 - left) (length (xs @ ys))" unfolding f(2) by auto
  have "scroll_picture garbage s = window (xs @ ys) left"
  proof (rule nth_equalityI)
    show "length (scroll_picture garbage s) = length (window (xs @ ys) left)"
      using left(2) by (simp add: scroll_picture_def f(1) shown_columns_def window_def)
    fix i assume "i < length (scroll_picture garbage s)"
    then have i: "i < 32" by (simp add: scroll_picture_def f(1) shown_columns_def)
    have shown: "scroll_picture garbage s ! i = (if i < left then 0 else if i - left < unat size then buffer ! (i - left) else 0)"
      using i left by (simp add: scroll_picture_def f(1) shown_columns_def ard_get_data_nth)
    have wanted: "window (xs @ ys) left ! i = (if i < left then 0 else if i - left < length (xs @ ys) then (xs @ ys) ! (i - left) else 0)"
      using i unfolding window_def by (subst nth_take) (auto simp add: nth_append less_diff_conv2 simp del: append_assoc)
    show "scroll_picture garbage s ! i = window (xs @ ys) left ! i"
    proof (cases "left \<le> i \<and> i - left < unat size")
      case True
      then show ?thesis using buffer unfolding shown wanted by auto
    next
      case False
      then have "i < left \<or> \<not> i - left < length (xs @ ys)" using i unfolding size by linarith
      then show ?thesis using False unfolding shown wanted by auto
    qed
  qed
  then show ?thesis by (simp only: xs_def ys_def)
qed


section \<open>Rolling\<close>

lemma holds_cleared: "ard_wf (am_queue m) \<Longrightarrow> holds_matrix (ard_matrix_clear m) []"
  by (simp add: holds_matrix_def ard_matrix_clear_def ard_queue_clear_def ard_wf_def ard_held_def u8_le_iff)

lemma increment_index_rolling:
  assumes "rolling as bs left gone s"
  shows "0 < left \<Longrightarrow> scroll_increment_index s = (1, s\<lparr>sc_index_left := of_nat (left - 1)\<rparr>)"
    and "left = 0 \<Longrightarrow> gone < length as \<Longrightarrow> scroll_increment_index s = (1, s\<lparr>sc_index_a := of_nat (Suc gone)\<rparr>)"
    and "left = 0 \<Longrightarrow> gone = length as \<Longrightarrow> scroll_increment_index s =
      (if last_piece (sc_matrix_a s) then (0, s\<lparr>sc_matrix_a := ard_matrix_clear (sc_matrix_a s)\<rparr>)
       else (of_flag (bs \<noteq> []), s\<lparr>sc_matrix_a := sc_matrix_b s, sc_matrix_b := ard_matrix_clear (sc_matrix_a s), sc_index_a := 0\<rparr>))"
proof -
  have r: "holds_matrix (sc_matrix_a s) as" "holds_matrix (sc_matrix_b s) bs" "sc_index_left s = of_nat left" "left \<le> 32"
    "sc_index_a s = of_nat gone" "gone \<le> length as"
    using assms by (simp_all add: rolling_def)
  note a = holds_matrix_size [OF r(1)] and b = holds_matrix_size [OF r(2)]
  have i: "unat (sc_index_left s) = left" "unat (sc_index_a s) = gone"
    using r(3-6) a(2) by (simp_all add: unat_of_nat_u8)
  have tests: "sc_index_left s > 0 \<longleftrightarrow> 0 < left" "sc_index_a s < ard_matrix_size (sc_matrix_a s) \<longleftrightarrow> gone < length as"
    "ard_matrix_size (sc_matrix_b s) = 0 \<longleftrightarrow> bs = []"
    using i a(1) b(1) by (simp_all add: u8_less_iff u8_eq_iff)
  show "scroll_increment_index s = (1, s\<lparr>sc_index_left := of_nat (left - 1)\<rparr>)" if "0 < left"
    using that tests by (simp add: scroll_increment_index_def r(3) of_nat_diff)
  show "scroll_increment_index s = (1, s\<lparr>sc_index_a := of_nat (Suc gone)\<rparr>)" if "left = 0" "gone < length as"
    using that tests by (simp add: scroll_increment_index_def r(5) ac_simps)
  show "scroll_increment_index s =
      (if last_piece (sc_matrix_a s) then (0, s\<lparr>sc_matrix_a := ard_matrix_clear (sc_matrix_a s)\<rparr>)
       else (of_flag (bs \<noteq> []), s\<lparr>sc_matrix_a := sc_matrix_b s, sc_matrix_b := ard_matrix_clear (sc_matrix_a s), sc_index_a := 0\<rparr>))"
    if "left = 0" "gone = length as"
    using that tests by (simp add: scroll_increment_index_def last_piece_def scroll_swap_matrices_def)
qed

text \<open>What one picture leaves, beside the delay.\<close>

lemma handle_pixel_rolling:
  fixes garbage :: bytes
  assumes "rolling as bs left gone s"
  defines "t \<equiv> scroll_handle_pixel garbage s"
  shows "0 < left \<Longrightarrow> rolling as bs (left - 1) gone t \<and> sc_matrix_a t = sc_matrix_a s \<and> sc_matrix_b t = sc_matrix_b s"
    and "left = 0 \<Longrightarrow> gone < length as \<Longrightarrow>
      rolling as bs 0 (Suc gone) t \<and> sc_matrix_a t = sc_matrix_a s \<and> sc_matrix_b t = sc_matrix_b s"
    and "left = 0 \<Longrightarrow> gone = length as \<Longrightarrow> last_piece (sc_matrix_a s) \<Longrightarrow>
      sc_state t = Scroll_rendered \<and> holds_matrix (sc_matrix_a t) [] \<and> sc_matrix_b t = sc_matrix_b s"
    and "left = 0 \<Longrightarrow> gone = length as \<Longrightarrow> \<not> last_piece (sc_matrix_a s) \<Longrightarrow> bs \<noteq> [] \<Longrightarrow>
      rolling bs [] 0 0 t \<and> sc_matrix_a t = sc_matrix_b s"
    and "left = 0 \<Longrightarrow> gone = length as \<Longrightarrow> \<not> last_piece (sc_matrix_a s) \<Longrightarrow> bs = [] \<Longrightarrow> sc_state t = Scroll_rendered"
proof -
  let ?s = "s\<lparr>sc_ard := ard_spi_write_matrix (snd (scroll_fill_buffer garbage s)) (sc_index_left s)
    (fst (scroll_fill_buffer garbage s)) (sc_ard s)\<rparr>"
  have r: "rolling as bs left gone ?s" using assms(1) by (simp add: rolling_def)
  note inc = increment_index_rolling [OF r]
  have wf: "ard_wf (am_queue (sc_matrix_a s))" using assms(1) by (simp add: rolling_def holds_matrix_def)
  note defs = t_def scroll_handle_pixel_def Let_def case_prod_beta scroll_set_delay_def
  show "rolling as bs (left - 1) gone t \<and> sc_matrix_a t = sc_matrix_a s \<and> sc_matrix_b t = sc_matrix_b s" if "0 < left"
    using inc(1) [OF that] assms(1) unfolding defs by (auto simp: rolling_def)
  show "rolling as bs 0 (Suc gone) t \<and> sc_matrix_a t = sc_matrix_a s \<and> sc_matrix_b t = sc_matrix_b s"
    if "left = 0" "gone < length as"
    using inc(2) [OF that] assms(1) that unfolding defs by (simp add: rolling_def)
  show "sc_state t = Scroll_rendered \<and> holds_matrix (sc_matrix_a t) [] \<and> sc_matrix_b t = sc_matrix_b s"
    if "left = 0" "gone = length as" "last_piece (sc_matrix_a s)"
    using inc(3) [OF that(1,2)] that(3) holds_cleared [OF wf] unfolding defs by simp
  show "rolling bs [] 0 0 t \<and> sc_matrix_a t = sc_matrix_b s"
    if "left = 0" "gone = length as" "\<not> last_piece (sc_matrix_a s)" "bs \<noteq> []"
    using inc(3) [OF that(1,2)] that holds_cleared [OF wf] assms(1) unfolding defs by (simp add: rolling_def)
  show "sc_state t = Scroll_rendered"
    if "left = 0" "gone = length as" "\<not> last_piece (sc_matrix_a s)" "bs = []"
    using inc(3) [OF that(1,2)] that(3,4) unfolding defs by simp
qed

text \<open>
  Between two pieces the picture stands still for a turn: the last picture of a piece that has gone
  is the first one of the next piece.
\<close>

theorem seam_repeats:
  assumes "rolling as bs 0 (length as) s" "\<not> last_piece (sc_matrix_a s)" "32 \<le> length bs"
    "length garbage = 32" "length garbage' = 32"
  shows "scroll_picture garbage' (scroll_handle_pixel garbage s) = scroll_picture garbage s"
proof -
  have "bs \<noteq> []" using assms(3) by auto
  with handle_pixel_rolling(4) [OF assms(1) refl refl assms(2)]
  have "rolling bs [] 0 0 (scroll_handle_pixel garbage s)" by blast
  from scroll_picture_window [OF this assms(5)] scroll_picture_window [OF assms(1,4)] assms(2,3)
  show ?thesis by (auto simp: window_def)
qed


section \<open>A whole phrase\<close>

definition scroll_ok :: "scroll \<Rightarrow> bool" where
  "scroll_ok s \<longleftrightarrow> list_all (\<lambda>m. ard_wf (am_queue m) \<and> aq_max (am_queue m) = 255)
     [sc_matrix_a s, sc_matrix_b s, a_parse_matrix (sc_ard s)]"

text \<open>
  The timer while it rolls, with the picture of each turn that shows one, between steps of everything
  else: the parser with its matrix, the serial line and the interrupts of the SPI.
\<close>

inductive scroll_step :: "scroll \<Rightarrow> u8 list list \<Rightarrow> scroll \<Rightarrow> bool" where
  wait: "0 < sc_delay_factor s \<Longrightarrow> scroll_step s [] (scroll_timer garbage s)"
| turn: "sc_delay_factor s = 0 \<Longrightarrow> sc_state s = Scroll_pixel \<Longrightarrow> length garbage = 32 \<Longrightarrow>
    scroll_step s [scroll_picture garbage s] (scroll_timer garbage s)"
| other: "ard_ok a \<Longrightarrow> scroll_step s [] (s\<lparr>sc_ard := a, sc_selected := b\<rparr>)"

inductive scroll_run :: "scroll \<Rightarrow> u8 list list \<Rightarrow> scroll \<Rightarrow> bool" for s where
  none: "scroll_run s [] s"
| more: "scroll_run s ps t \<Longrightarrow> scroll_step t qs u \<Longrightarrow> scroll_run s (ps @ qs) u"

lemma ard_move_ok:
  assumes "ard_wf p" "aq_max p = 255" "ard_wf q" "aq_max q = 255"
  shows "case ard_queue_move p q of (_, p', q') \<Rightarrow>
    ard_wf p' \<and> aq_max p' = 255 \<and> ard_wf q' \<and> aq_max q' = 255"
proof -
  have "unat (aq_size p) \<le> 255" using assms(1,2) by (simp add: ard_wf_def u8_le_iff)
  then show ?thesis
    using assms by (auto simp: ard_queue_move_def ard_wf_def length_fold_copy u8_le_iff)
qed

lemma take_parsed_ok:
  assumes "scroll_ok s"
  shows "scroll_ok (scroll_take_parsed s)"
    and "ard_matrix_size (sc_matrix_a s) \<noteq> 0 \<Longrightarrow> sc_matrix_a (scroll_take_parsed s) = sc_matrix_a s"
    and "sc_state (scroll_take_parsed s) = sc_state s" "sc_index_left (scroll_take_parsed s) = sc_index_left s"
    "sc_index_a (scroll_take_parsed s) = sc_index_a s"
proof -
  let ?p = "am_queue (a_parse_matrix (sc_ard s))"
  have moved: "case ard_queue_move ?p (am_queue m) of (_, p', q') \<Rightarrow>
      ard_wf p' \<and> aq_max p' = 255 \<and> ard_wf q' \<and> aq_max q' = 255" if "m \<in> {sc_matrix_a s, sc_matrix_b s}" for m
    using assms that by (intro ard_move_ok) (auto simp: scroll_ok_def)
  show "scroll_ok (scroll_take_parsed s)"
    using assms moved [of "sc_matrix_a s"] moved [of "sc_matrix_b s"]
    by (auto simp: scroll_take_parsed_def Let_def scroll_ok_def ard_matrix_move_def split: prod.splits)
  show "ard_matrix_size (sc_matrix_a s) \<noteq> 0 \<Longrightarrow> sc_matrix_a (scroll_take_parsed s) = sc_matrix_a s"
    "sc_state (scroll_take_parsed s) = sc_state s" "sc_index_left (scroll_take_parsed s) = sc_index_left s"
    "sc_index_a (scroll_take_parsed s) = sc_index_a s"
    by (simp_all add: scroll_take_parsed_def Let_def split: prod.split)
qed

text \<open>After \<open>k\<close> pictures of a phrase in one piece.\<close>

definition phrase_at :: "u8 list \<Rightarrow> nat \<Rightarrow> scroll \<Rightarrow> bool" where
  "phrase_at as k s \<longleftrightarrow> scroll_ok s \<and>
     (if k \<le> 32 + length as
      then rolling as (ard_held (am_queue (sc_matrix_b s))) (32 - k) (k - 32) s \<and> last_piece (sc_matrix_a s)
      else k = 33 + length as \<and> sc_state s = Scroll_rendered)"

definition phrase_picture :: "u8 list \<Rightarrow> nat \<Rightarrow> u8 list" where
  "phrase_picture as k = take 32 (drop k (replicate 32 0 @ as @ replicate 32 0))"

lemma phrase_window:
  "k \<le> 32 + length as \<Longrightarrow> window (drop (k - 32) as) (32 - k) = phrase_picture as k"
  by (cases "k \<le> 32") (auto simp: window_def phrase_picture_def)


lemma spi_write_matrix_parse [simp]: "a_parse_matrix (ard_spi_write_matrix data left n s) = a_parse_matrix s"
  by (simp add: ard_spi_write_matrix_def ard_start_send_def Let_def case_prod_beta)

lemma matrix_clear_ok:
  "ard_wf (am_queue m) \<Longrightarrow> aq_max (am_queue m) = 255 \<Longrightarrow>
   ard_wf (am_queue (ard_matrix_clear m)) \<and> aq_max (am_queue (ard_matrix_clear m)) = 255"
  by (simp add: ard_matrix_clear_def ard_queue_clear_def ard_wf_def u8_le_iff)

lemma handle_pixel_ok: "scroll_ok s \<Longrightarrow> scroll_ok (scroll_handle_pixel garbage s)"
  by (auto simp: scroll_ok_def scroll_handle_pixel_def scroll_increment_index_def scroll_swap_matrices_def
      scroll_set_delay_def Let_def matrix_clear_ok split: prod.split)

lemma rolling_size: "rolling as bs left gone s \<Longrightarrow> as \<noteq> [] \<Longrightarrow> ard_matrix_size (sc_matrix_a s) \<noteq> 0"
  using holds_matrix_size(1) [of "sc_matrix_a s" as] by (auto simp: rolling_def u8_eq_iff)

text \<open>What the parser hands over does not touch the piece that rolls.\<close>

lemma phrase_at_taken:
  assumes "rolling as bs (32 - k) (k - 32) t" "last_piece (sc_matrix_a t)" "k \<le> 32 + length as"
    "scroll_ok t" "as \<noteq> []"
  shows "phrase_at as k ((scroll_take_parsed t)\<lparr>sc_tcnt := c\<rparr>)"
proof -
  note t = take_parsed_ok [OF assms(4)]
  note a = t(2) [OF rolling_size [OF assms(1,5)]]
  have "rolling as (ard_held (am_queue (sc_matrix_b (scroll_take_parsed t)))) (32 - k) (k - 32) (scroll_take_parsed t)"
    using assms(1) t(1,3-5) a by (simp add: rolling_def holds_matrix_def scroll_ok_def)
  then show ?thesis
    using assms(2,3) t(1) a by (simp add: phrase_at_def rolling_def scroll_ok_def)
qed

lemma timer_pixel:
  "sc_delay_factor s = 0 \<Longrightarrow> sc_state s = Scroll_pixel \<Longrightarrow>
   \<exists>c. scroll_timer garbage s = (scroll_take_parsed (scroll_handle_pixel garbage s))\<lparr>sc_tcnt := c\<rparr>"
  unfolding scroll_timer_def by (simp add: Let_def) blast

lemma phrase_turn:
  assumes "phrase_at as k s" "as \<noteq> []" "sc_delay_factor s = 0" "sc_state s = Scroll_pixel" "length garbage = 32"
  shows "phrase_at as (Suc k) (scroll_timer garbage s)" "scroll_picture garbage s = phrase_picture as k"
proof -
  let ?t = "scroll_handle_pixel garbage s"
  let ?bs = "ard_held (am_queue (sc_matrix_b s))"
  have k: "k \<le> 32 + length as" and last: "last_piece (sc_matrix_a s)" and ok: "scroll_ok s"
    and r: "rolling as ?bs (32 - k) (k - 32) s"
    using assms(1,4) by (auto simp: phrase_at_def split: if_splits)
  note okt = handle_pixel_ok [OF ok, of garbage] and step = handle_pixel_rolling [OF r, of garbage]
  obtain c where timer: "scroll_timer garbage s = (scroll_take_parsed ?t)\<lparr>sc_tcnt := c\<rparr>"
    using timer_pixel [OF assms(3,4)] by blast
  show "scroll_picture garbage s = phrase_picture as k"
    using scroll_picture_window [OF r assms(5)] last phrase_window [OF k] by simp
  consider "k < 32" | "32 \<le> k" "k < 32 + length as" | "k = 32 + length as" using k by linarith
  then show "phrase_at as (Suc k) (scroll_timer garbage s)"
  proof cases
    case 1
    then have "rolling as ?bs (32 - Suc k) (Suc k - 32) ?t" "sc_matrix_a ?t = sc_matrix_a s" using step(1) by simp_all
    then show ?thesis unfolding timer using 1 last okt assms(2) by (intro phrase_at_taken) simp_all
  next
    case 2
    then have "k - 32 < length as" "32 - k = 0" "32 - Suc k = 0" "Suc k - 32 = Suc (k - 32)" by linarith+
    then have "rolling as ?bs (32 - Suc k) (Suc k - 32) ?t" "sc_matrix_a ?t = sc_matrix_a s" using step(2) by metis+
    then show ?thesis unfolding timer using 2 last okt assms(2) by (intro phrase_at_taken) simp_all
  next
    case 3
    then have "sc_state ?t = Scroll_rendered" using step(3) last by simp
    then show ?thesis unfolding timer using 3 take_parsed_ok(1,3) [OF okt] by (simp add: phrase_at_def scroll_ok_def)
  qed
qed

lemma phrase_at_same:
  assumes "phrase_at as k s" "scroll_ok t" "sc_state t = sc_state s" "sc_matrix_a t = sc_matrix_a s"
    "sc_matrix_b t = sc_matrix_b s" "sc_index_left t = sc_index_left s" "sc_index_a t = sc_index_a s"
  shows "phrase_at as k t"
  using assms unfolding phrase_at_def rolling_def by (simp split: if_splits)

lemma phrase_step:
  assumes "scroll_step s ps t" "phrase_at as k s" "as \<noteq> []"
  shows "phrase_at as (k + length ps) t \<and> ps = map (phrase_picture as) [k..<k + length ps]"
  using assms
proof cases
  case (wait garbage)
  then have "phrase_at as k t"
    using assms(2) by (intro phrase_at_same [OF assms(2)]) (simp_all add: phrase_at_def scroll_timer_def scroll_ok_def)
  then show ?thesis using wait by simp
next
  case (turn garbage)
  then show ?thesis using phrase_turn [OF assms(2,3)] by simp
next
  case (other a b)
  then have "phrase_at as k t"
    using assms(2) by (intro phrase_at_same [OF assms(2)]) (simp_all add: phrase_at_def scroll_ok_def ard_ok_def)
  then show ?thesis using other by simp
qed

lemma phrase_run:
  assumes "scroll_run s ps t" "phrase_at as 0 s" "as \<noteq> []"
  shows "phrase_at as (length ps) t \<and> ps = map (phrase_picture as) [0..<length ps]"
  using assms
proof (induction rule: scroll_run.induct)
  case none
  then show ?case by simp
next
  case (more ps t qs u)
  then have "phrase_at as (length ps) t" and ps: "ps = map (phrase_picture as) [0..<length ps]" by blast+
  from phrase_step [OF more.hyps(2) this(1) assms(3)]
  have "phrase_at as (length ps + length qs) u" "qs = map (phrase_picture as) [length ps..<length ps + length qs]" by blast+
  moreover have "[0..<length ps + length qs] = [0..<length ps] @ [length ps..<length ps + length qs]"
    by (rule upt_add_eq_append) simp
  ultimately show ?case using ps by (metis length_append map_append)
qed

lemma phrase_begins:
  assumes "scroll_ok s0" "sc_state s0 = Scroll_empty" "sc_delay_factor s0 = 0"
    "ard_held (am_queue (sc_matrix_a s0)) = as" "32 < length as"
    "am_type (sc_matrix_a s0) AND SUB_MATRIX_TYPE_FIRST \<noteq> 0" "last_piece (sc_matrix_a s0)"
  shows "phrase_at as 0 (scroll_timer garbage s0)"
proof -
  have a: "holds_matrix (sc_matrix_a s0) as" using assms(1,4) by (simp add: holds_matrix_def scroll_ok_def)
  note size = holds_matrix_size(1) [OF a]
  have long: "ard_matrix_size (sc_matrix_a s0) \<noteq> 0" "\<not> ard_matrix_size (sc_matrix_a s0) \<le> SPI_WRITE_MATRIX_SIZE"
    using size assms(5) by (auto simp: u8_eq_iff u8_le_iff SPI_WRITE_MATRIX_SIZE_def)
  define t where "t = s0\<lparr>sc_state := Scroll_pixel, sc_index_left := 32, sc_index_a := 0,
    sc_delay_tick := DELAY_TICK_MAX, sc_delay_factor := DELAY_FACTOR_ZERO\<rparr>"
  have "scroll_handle_empty s0 = t"
    using long assms(6) by (simp add: t_def scroll_handle_empty_def Let_def scroll_set_delay_def SPI_WRITE_MATRIX_SIZE_def)
  then have timer: "scroll_timer garbage s0 = (scroll_take_parsed t)\<lparr>sc_tcnt := sc_delay_tick (scroll_take_parsed t)\<rparr>"
    using assms(2,3) by (simp add: scroll_timer_def Let_def)
  have "rolling as (ard_held (am_queue (sc_matrix_b t))) (32 - 0) (0 - 32) t"
    using a assms(1) by (simp add: rolling_def t_def holds_matrix_def scroll_ok_def)
  then show ?thesis
    unfolding timer using assms(1,5,7) by (intro phrase_at_taken) (auto simp: t_def scroll_ok_def)
qed



definition demo_scroll :: scroll where
  "demo_scroll = (scroll_render_init ard_init)\<lparr>sc_delay_factor := 0,
     sc_matrix_a := \<lparr>am_queue = \<lparr>aq_data = replicate 255 7, aq_size = 40, aq_max = 255\<rparr>,
                     am_type = SUB_MATRIX_TYPE_FIRST OR SUB_MATRIX_TYPE_LAST\<rparr>\<rparr>"

lemma demo_scroll_ready:
  "scroll_ok demo_scroll" "sc_state demo_scroll = Scroll_empty" "sc_delay_factor demo_scroll = 0"
  "ard_held (am_queue (sc_matrix_a demo_scroll)) = replicate 40 7"
  "am_type (sc_matrix_a demo_scroll) AND SUB_MATRIX_TYPE_FIRST \<noteq> 0"
  "am_type (sc_matrix_a demo_scroll) AND SUB_MATRIX_TYPE_LAST \<noteq> 0"
proof -
  show "scroll_ok demo_scroll"
    using ard_ok_init by (simp add: ard_ok_def demo_scroll_def scroll_ok_def scroll_render_init_def scroll_software_init_def
        scroll_set_delay_def ard_matrix_init_def ard_queue_init_def ard_wf_def u8_le_iff DEV_MAX_BUFFER_SIZE_def)
  show "sc_state demo_scroll = Scroll_empty" "sc_delay_factor demo_scroll = 0"
    by (simp_all add: demo_scroll_def scroll_render_init_def scroll_software_init_def scroll_set_delay_def)
  show "ard_held (am_queue (sc_matrix_a demo_scroll)) = replicate 40 7"
    by (simp add: demo_scroll_def ard_held_def)
  show "am_type (sc_matrix_a demo_scroll) AND SUB_MATRIX_TYPE_FIRST \<noteq> 0"
    "am_type (sc_matrix_a demo_scroll) AND SUB_MATRIX_TYPE_LAST \<noteq> 0"
    by (simp_all add: demo_scroll_def SUB_MATRIX_TYPE_FIRST_def SUB_MATRIX_TYPE_LAST_def)
qed

lemma demo_scroll_turns:
  "sc_delay_factor (scroll_timer garbage demo_scroll) = 0" "sc_state (scroll_timer garbage demo_scroll) = Scroll_pixel"
proof -
  have "phrase_at (replicate 40 7) 0 (scroll_timer garbage demo_scroll)"
    using demo_scroll_ready by (intro phrase_begins) (simp_all add: last_piece_def)
  then show "sc_state (scroll_timer garbage demo_scroll) = Scroll_pixel" by (simp add: phrase_at_def rolling_def)
  have "sc_delay_factor (scroll_take_parsed s) = sc_delay_factor s" for s
    by (simp add: scroll_take_parsed_def Let_def split: prod.split)
  moreover have "ard_matrix_size (sc_matrix_a demo_scroll) = 40" by (simp add: demo_scroll_def ard_matrix_size_def)
  ultimately show "sc_delay_factor (scroll_timer garbage demo_scroll) = 0"
    using demo_scroll_ready(2,3)
    by (simp add: scroll_timer_def Let_def scroll_handle_empty_def scroll_set_delay_def DELAY_FACTOR_ZERO_def)
qed


end
