(* ===== verification/Old_Chip.thy ===== *)
theory Old_Chip
  imports Avr_Display
begin

text \<open>
  How the eight bit controller of the very first display wrote to its two LED matrices
  (\<open>src/obsoleted/old/lib-obsolete/int/mcu/atmega8a/ht1632c.c\<close>): the macros that move bits over the lines
  of port C, the commands and the columns, and what a matrix on its three lines gets to see: whole
  transactions, and the columns that those for data leave in its memory. The pauses between writes
  take no part in the model.
\<close>

section \<open>The port\<close>

record chip_port =
  cp_port :: u8
  cp_wire :: bytes

definition cp_write :: "u8 \<Rightarrow> chip_port \<Rightarrow> chip_port" where
  "cp_write v p = p\<lparr>cp_port := v, cp_wire := cp_wire p @ [v]\<rparr>"

definition cp_or :: "u8 \<Rightarrow> chip_port \<Rightarrow> chip_port" where
  "cp_or m p = cp_write (cp_port p OR m) p"

definition cp_clear :: "u8 \<Rightarrow> chip_port \<Rightarrow> chip_port" where
  "cp_clear m p = cp_write (cp_port p AND NOT m) p"

text \<open>\<open>LEFT_MATRIX\<close> and \<open>RIGHT_MATRIX\<close>: the lines of select, clock and data.\<close>

definition LEFT_MATRIX :: display where
  "LEFT_MATRIX = \<lparr>di_cs = push_bit 0 1, di_clk = push_bit 1 1, di_data = push_bit 2 1\<rparr>"

definition RIGHT_MATRIX :: display where
  "RIGHT_MATRIX = \<lparr>di_cs = push_bit 3 1, di_clk = push_bit 4 1, di_data = push_bit 5 1\<rparr>"

section \<open>The macros\<close>

definition SLAVE_SELECT_ACTIVATE :: "display \<Rightarrow> chip_port \<Rightarrow> chip_port" where
  "SLAVE_SELECT_ACTIVATE m = cp_clear (di_cs m)"

definition SLAVE_SELECT_RELAX :: "display \<Rightarrow> chip_port \<Rightarrow> chip_port" where
  "SLAVE_SELECT_RELAX m = cp_or (di_cs m)"

definition SLAVE_SELECT_PULSE :: "display \<Rightarrow> chip_port \<Rightarrow> chip_port" where
  "SLAVE_SELECT_PULSE m p = SLAVE_SELECT_ACTIVATE m (SLAVE_SELECT_RELAX m p)"

definition CLOCK_RELAX :: "display \<Rightarrow> chip_port \<Rightarrow> chip_port" where
  "CLOCK_RELAX m = cp_clear (di_clk m)"

definition CLOCK_ACTIVATE :: "display \<Rightarrow> chip_port \<Rightarrow> chip_port" where
  "CLOCK_ACTIVATE m = cp_or (di_clk m)"

text \<open>A turn of the loop of \<open>WRITE_DATA\<close>, and the bits that its mask runs through, up or down.\<close>

definition WRITE_BIT :: "display \<Rightarrow> u8 \<Rightarrow> nat \<Rightarrow> chip_port \<Rightarrow> chip_port" where
  "WRITE_BIT m data i p =
     (let p = CLOCK_RELAX m p;
          p = (if data AND push_bit i 1 \<noteq> 0 then cp_or (di_data m) p else cp_clear (di_data m) p)
      in CLOCK_ACTIVATE m p)"

definition mask_bits :: "nat \<Rightarrow> nat \<Rightarrow> nat list" where
  "mask_bits start finish =
     (if start < finish then [start..<Suc finish] else rev [finish..<Suc start])"

definition WRITE_DATA :: "display \<Rightarrow> u8 \<Rightarrow> nat \<Rightarrow> nat \<Rightarrow> chip_port \<Rightarrow> chip_port" where
  "WRITE_DATA m data start finish = fold (WRITE_BIT m data) (mask_bits start finish)"

definition WRITE_PREFIX :: "display \<Rightarrow> u8 \<Rightarrow> chip_port \<Rightarrow> chip_port" where
  "WRITE_PREFIX m prefix = WRITE_DATA m prefix 2 0"

definition WRITE_COMMAND :: "display \<Rightarrow> u8 \<Rightarrow> chip_port \<Rightarrow> chip_port" where
  "WRITE_COMMAND m command p = WRITE_DATA m 0 0 0 (WRITE_DATA m command 7 0 p)"

definition WRITE_ADDRESS :: "display \<Rightarrow> u8 \<Rightarrow> chip_port \<Rightarrow> chip_port" where
  "WRITE_ADDRESS m address = WRITE_DATA m address 6 0"

definition WRITE_WORD :: "display \<Rightarrow> u8 \<Rightarrow> chip_port \<Rightarrow> chip_port" where
  "WRITE_WORD m word = WRITE_DATA m word 0 3"

definition COMMAND_PREFIX :: u8 where "COMMAND_PREFIX = 0x4"
definition CHIP_DATA_PREFIX :: u8 where "CHIP_DATA_PREFIX = 0x5"
definition COMMAND_SYSTEM_DISABLE :: u8 where "COMMAND_SYSTEM_DISABLE = 0x0"
definition COMMAND_SYSTEM_ENABLE :: u8 where "COMMAND_SYSTEM_ENABLE = 0x1"
definition COMMAND_NMOS_8COM :: u8 where "COMMAND_NMOS_8COM = 0x20"
definition COMMAND_LED_ON :: u8 where "COMMAND_LED_ON = 0x3"
definition COMMAND_BRIGHTNESS_MASK :: u8 where "COMMAND_BRIGHTNESS_MASK = 0xA0"

definition START_MATRIX :: "display \<Rightarrow> chip_port \<Rightarrow> chip_port" where
  "START_MATRIX m p =
     (let p = SLAVE_SELECT_PULSE m p;
          p = WRITE_PREFIX m COMMAND_PREFIX p;
          p = WRITE_COMMAND m COMMAND_SYSTEM_DISABLE p;
          p = WRITE_COMMAND m COMMAND_NMOS_8COM p;
          p = WRITE_COMMAND m COMMAND_SYSTEM_ENABLE p;
          p = WRITE_COMMAND m COMMAND_LED_ON p;
          p = WRITE_COMMAND m (COMMAND_BRIGHTNESS_MASK OR 0xF) p
      in SLAVE_SELECT_RELAX m p)"

definition STOP_MATRIX :: "display \<Rightarrow> chip_port \<Rightarrow> chip_port" where
  "STOP_MATRIX m p =
     SLAVE_SELECT_RELAX m
       (WRITE_COMMAND m COMMAND_SYSTEM_DISABLE (WRITE_PREFIX m COMMAND_PREFIX (SLAVE_SELECT_PULSE m p)))"

definition BRIGHTNESS_MATRIX :: "display \<Rightarrow> u8 \<Rightarrow> chip_port \<Rightarrow> chip_port" where
  "BRIGHTNESS_MATRIX m level p =
     SLAVE_SELECT_RELAX m (WRITE_COMMAND m level (WRITE_PREFIX m COMMAND_PREFIX (SLAVE_SELECT_PULSE m p)))"

definition DATA_MATRIX :: "display \<Rightarrow> u8 \<Rightarrow> u8 \<Rightarrow> u8 \<Rightarrow> chip_port \<Rightarrow> chip_port" where
  "DATA_MATRIX m address word_low word_high p =
     (let p = SLAVE_SELECT_PULSE m p;
          p = WRITE_PREFIX m CHIP_DATA_PREFIX p;
          p = WRITE_ADDRESS m address p;
          p = WRITE_WORD m word_low p;
          p = WRITE_WORD m word_high p
      in SLAVE_SELECT_RELAX m p)"

section \<open>The functions\<close>

definition ht1632c_start :: "chip_port \<Rightarrow> chip_port" where
  "ht1632c_start p = START_MATRIX RIGHT_MATRIX (START_MATRIX LEFT_MATRIX p)"

definition ht1632c_stop :: "chip_port \<Rightarrow> chip_port" where
  "ht1632c_stop p = STOP_MATRIX RIGHT_MATRIX (STOP_MATRIX LEFT_MATRIX p)"

definition ht1632c_brightness :: "u8 \<Rightarrow> chip_port \<Rightarrow> chip_port" where
  "ht1632c_brightness level p =
     (let command = COMMAND_BRIGHTNESS_MASK OR (0xF AND level)
      in BRIGHTNESS_MATRIX RIGHT_MATRIX command (BRIGHTNESS_MATRIX LEFT_MATRIX command p))"

definition ht1632c_data :: "u8 \<Rightarrow> u8 \<Rightarrow> u8 \<Rightarrow> chip_port \<Rightarrow> chip_port" where
  "ht1632c_data column left_data right_data p =
     (let address = 2 * (column AND 0x1F);
          p = DATA_MATRIX LEFT_MATRIX address (left_data AND 0xF) (drop_bit 4 (left_data AND 0xF0)) p
      in DATA_MATRIX RIGHT_MATRIX address (right_data AND 0xF) (drop_bit 4 (right_data AND 0xF0)) p)"

section \<open>What a matrix sees\<close>

text \<open>
  While its select line is low a matrix takes a bit at every rising edge of its clock; when the line
  goes up it has seen a transaction. The state is the port, the bits so far and the transactions.
\<close>

type_synonym chip_view = "u8 \<times> bool list \<times> bool list list"

definition chip_see :: "display \<Rightarrow> u8 \<Rightarrow> chip_view \<Rightarrow> chip_view" where
  "chip_see d v view = (case view of (old, bits, ts) \<Rightarrow>
     (v, if v AND di_cs d \<noteq> 0 then []
         else if old AND di_clk d = 0 \<and> v AND di_clk d \<noteq> 0 then bits @ [v AND di_data d \<noteq> 0] else bits,
         if v AND di_cs d \<noteq> 0 \<and> bits \<noteq> [] then ts @ [bits] else ts))"

definition chip_saw :: "display \<Rightarrow> chip_port \<Rightarrow> chip_view" where
  "chip_saw d p = fold (chip_see d) (cp_wire p) (0, [], [])"

definition chip_transactions :: "display \<Rightarrow> chip_port \<Rightarrow> bool list list" where
  "chip_transactions d p = snd (snd (chip_saw d p))"

lemma chip_saw_write: "chip_saw d (cp_write v p) = chip_see d v (chip_saw d p)"
  by (simp add: chip_saw_def cp_write_def)

lemma cp_port_write [simp]: "cp_port (cp_write v p) = v"
  by (simp add: cp_write_def)

text \<open>Between two operations: the matrix knows the port, and has no bits unless it is selected.\<close>

definition chip_at :: "display \<Rightarrow> chip_port \<Rightarrow> bool list \<Rightarrow> bool list list \<Rightarrow> bool" where
  "chip_at d p bits ts \<longleftrightarrow> chip_saw d p = (cp_port p, bits, ts)
     \<and> (cp_port p AND di_cs d \<noteq> 0 \<longrightarrow> bits = [])"

definition chip_selected :: "display \<Rightarrow> chip_port \<Rightarrow> bool" where
  "chip_selected d p \<longleftrightarrow> cp_port p AND di_cs d = 0"

lemma write_bit_seen:
  assumes "display_ok d" "chip_at d p bits ts" "chip_selected d p"
  shows "chip_at d (WRITE_BIT d data i p) (bits @ [bit data i]) ts" "chip_selected d (WRITE_BIT d data i p)"
proof -
  obtain a b c where abc: "a < 8" "b < 8" "c < 8" "a \<noteq> b" "a \<noteq> c" "b \<noteq> c"
    "di_cs d = 2 ^ a" "di_clk d = 2 ^ b" "di_data d = 2 ^ c"
    using assms(1) by (auto simp: display_ok_def)
  have sel: "\<not> bit (cp_port p) a" using assms(3) abc by (simp add: chip_selected_def and_bit_mask)
  have val: "data AND push_bit i 1 = 0 \<longleftrightarrow> \<not> bit data i"
    using and_bit_mask [of data i] by (simp add: push_bit_eq_mult)
  show "chip_selected d (WRITE_BIT d data i p)"
    using abc sel by (auto simp: chip_selected_def WRITE_BIT_def Let_def CLOCK_RELAX_def CLOCK_ACTIVATE_def
        cp_or_def cp_clear_def and_bit_mask bit_simps)
  show "chip_at d (WRITE_BIT d data i p) (bits @ [bit data i]) ts"
    using abc sel assms(2) val
    by (auto simp: chip_at_def WRITE_BIT_def Let_def CLOCK_RELAX_def CLOCK_ACTIVATE_def
        cp_or_def cp_clear_def chip_saw_write chip_see_def and_bit_mask bit_simps)
qed


lemma write_data_seen:
  assumes "display_ok d" "chip_at d p bits ts" "chip_selected d p"
  shows "chip_at d (WRITE_DATA d data start finish p) (bits @ map (bit data) (mask_bits start finish)) ts
    \<and> chip_selected d (WRITE_DATA d data start finish p)"
proof -
  have "chip_at d (fold (WRITE_BIT d data) is p) (bits @ map (bit data) is) ts
      \<and> chip_selected d (fold (WRITE_BIT d data) is p)" for "is"
    using assms(2,3)
  proof (induction "is" arbitrary: p bits)
    case (Cons i "is")
    from Cons.IH [OF write_bit_seen [OF assms(1) Cons.prems]] show ?case by simp
  qed simp
  then show ?thesis by (simp add: WRITE_DATA_def)
qed

lemma pulse_seen:
  assumes "display_ok d" "chip_at d p [] ts"
  shows "chip_at d (SLAVE_SELECT_PULSE d p) [] ts \<and> chip_selected d (SLAVE_SELECT_PULSE d p)"
proof -
  obtain a b c where abc: "a < 8" "b < 8" "c < 8" "a \<noteq> b" "a \<noteq> c" "b \<noteq> c"
    "di_cs d = 2 ^ a" "di_clk d = 2 ^ b" "di_data d = 2 ^ c"
    using assms(1) by (auto simp: display_ok_def)
  then show ?thesis
    using assms(2)
    by (auto simp: chip_at_def chip_selected_def SLAVE_SELECT_PULSE_def SLAVE_SELECT_ACTIVATE_def SLAVE_SELECT_RELAX_def
        cp_or_def cp_clear_def chip_saw_write chip_see_def and_bit_mask bit_simps)
qed

lemma relax_seen:
  assumes "display_ok d" "chip_at d p bits ts" "bits \<noteq> []"
  shows "chip_at d (SLAVE_SELECT_RELAX d p) [] (ts @ [bits])"
proof -
  obtain a b c where abc: "a < 8" "b < 8" "c < 8" "a \<noteq> b" "a \<noteq> c" "b \<noteq> c"
    "di_cs d = 2 ^ a" "di_clk d = 2 ^ b" "di_data d = 2 ^ c"
    using assms(1) by (auto simp: display_ok_def)
  then show ?thesis
    using assms(2,3)
    by (auto simp: chip_at_def SLAVE_SELECT_RELAX_def cp_or_def chip_saw_write chip_see_def and_bit_mask bit_simps)
qed

section \<open>The other matrix\<close>

definition chip_lines :: "display \<Rightarrow> u8 set" where
  "chip_lines d = {di_cs d, di_clk d, di_data d}"

lemma lines_unseen:
  assumes "display_ok d" "display_ok e" "chip_lines d \<inter> chip_lines e = {}" "m \<in> chip_lines d" "chip_at e p [] ts"
  shows "chip_at e (cp_or m p) [] ts" "chip_at e (cp_clear m p) [] ts"
proof -
  obtain a b c where abc: "a < 8" "b < 8" "c < 8" "di_cs e = 2 ^ a" "di_clk e = 2 ^ b" "di_data e = 2 ^ c"
    using assms(2) by (auto simp: display_ok_def)
  obtain i where m: "i < 8" "m = 2 ^ i" using assms(1,4) by (auto simp: display_ok_def chip_lines_def)
  have "m \<noteq> di_cs e" "m \<noteq> di_clk e" using assms(3,4) by (auto simp: chip_lines_def)
  then have "i \<noteq> a" "i \<noteq> b" using abc m by auto
  then show "chip_at e (cp_or m p) [] ts" "chip_at e (cp_clear m p) [] ts"
    using abc m assms(5)
    by (auto simp: chip_at_def cp_or_def cp_clear_def chip_saw_write chip_see_def and_bit_mask bit_simps)
qed

lemma chip_lines_in [simp]: "di_cs d \<in> chip_lines d" "di_clk d \<in> chip_lines d" "di_data d \<in> chip_lines d"
  by (simp_all add: chip_lines_def)

lemma macros_unseen:
  assumes "display_ok d" "display_ok e" "chip_lines d \<inter> chip_lines e = {}" "chip_at e p [] ts"
  shows "chip_at e (SLAVE_SELECT_PULSE d p) [] ts" "chip_at e (SLAVE_SELECT_RELAX d p) [] ts"
    "chip_at e (WRITE_DATA d data start finish p) [] ts"
proof -
  note unseen = lines_unseen [OF assms(1-3)]
  show "chip_at e (SLAVE_SELECT_PULSE d p) [] ts" "chip_at e (SLAVE_SELECT_RELAX d p) [] ts"
    unfolding SLAVE_SELECT_PULSE_def SLAVE_SELECT_ACTIVATE_def SLAVE_SELECT_RELAX_def
    by (intro unseen chip_lines_in assms(4))+
  have bit: "chip_at e (WRITE_BIT d data i q) [] ts" if "chip_at e q [] ts" for i q
    unfolding WRITE_BIT_def Let_def CLOCK_RELAX_def CLOCK_ACTIVATE_def
    by (cases "data AND push_bit i 1 \<noteq> 0") (use that in \<open>simp_all add: unseen\<close>)
  have "chip_at e (fold (WRITE_BIT d data) xs q) [] ts" if "chip_at e q [] ts" for xs q
    using that by (induction xs arbitrary: q) (simp_all add: bit)
  then show "chip_at e (WRITE_DATA d data start finish p) [] ts" using assms(4) by (simp add: WRITE_DATA_def)
qed

lemma matrices_ok: "display_ok LEFT_MATRIX" "display_ok RIGHT_MATRIX"
  "chip_lines LEFT_MATRIX \<inter> chip_lines RIGHT_MATRIX = {}" "chip_lines RIGHT_MATRIX \<inter> chip_lines LEFT_MATRIX = {}"
proof -
  show "display_ok LEFT_MATRIX"
    unfolding display_ok_def LEFT_MATRIX_def by (intro exI [of _ 0] exI [of _ 1] exI [of _ 2]) simp
  show "display_ok RIGHT_MATRIX"
    unfolding display_ok_def RIGHT_MATRIX_def by (intro exI [of _ 3] exI [of _ 4] exI [of _ 5]) simp
  show "chip_lines LEFT_MATRIX \<inter> chip_lines RIGHT_MATRIX = {}" "chip_lines RIGHT_MATRIX \<inter> chip_lines LEFT_MATRIX = {}"
    by (simp_all add: chip_lines_def LEFT_MATRIX_def RIGHT_MATRIX_def)
qed


section \<open>Transactions\<close>

definition chips_at :: "chip_port \<Rightarrow> bool list list \<Rightarrow> bool list list \<Rightarrow> bool" where
  "chips_at p left right \<longleftrightarrow> chip_at LEFT_MATRIX p [] left \<and> chip_at RIGHT_MATRIX p [] right"

definition command_bits :: "u8 \<Rightarrow> bool list" where
  "command_bits command = map (bit command) [7, 6, 5, 4, 3, 2, 1, 0] @ [False]"

definition data_bits :: "u8 \<Rightarrow> u8 \<Rightarrow> bool list" where
  "data_bits column x =
     [True, False, True] @ map (bit (2 * (column AND 0x1F))) [6, 5, 4, 3, 2, 1, 0] @ map (bit x) [0..<8]"

lemma mask_bits_eq:
  "mask_bits 2 0 = [2, 1, 0]" "mask_bits 7 0 = [7, 6, 5, 4, 3, 2, 1, 0]" "mask_bits 0 0 = [0]"
  "mask_bits 6 0 = [6, 5, 4, 3, 2, 1, 0]" "mask_bits 0 3 = [0, 1, 2, 3]"
  by (simp_all add: mask_bits_def upt_rec)

text \<open>A list of commands in one selection.\<close>

lemma commands_seen:
  assumes "display_ok d" "chip_at d p [] ts"
  shows "chip_at d (SLAVE_SELECT_RELAX d (fold (WRITE_COMMAND d) cs (WRITE_PREFIX d COMMAND_PREFIX (SLAVE_SELECT_PULSE d p)))) []
    (ts @ [[True, False, False] @ concat (map command_bits cs)])"
proof -
  have prefix: "map (bit COMMAND_PREFIX) [2, 1, 0] = [True, False, False]" by (simp add: COMMAND_PREFIX_def)
  note w = write_data_seen [OF assms(1)]
  from pulse_seen [OF assms] have "chip_at d (SLAVE_SELECT_PULSE d p) [] ts" "chip_selected d (SLAVE_SELECT_PULSE d p)" by blast+
  from w [OF this, of COMMAND_PREFIX 2 0]
  have start: "chip_at d (WRITE_PREFIX d COMMAND_PREFIX (SLAVE_SELECT_PULSE d p)) [True, False, False] ts
    \<and> chip_selected d (WRITE_PREFIX d COMMAND_PREFIX (SLAVE_SELECT_PULSE d p))"
    by (simp only: WRITE_PREFIX_def mask_bits_eq prefix append.simps)
  have run: "chip_at d (fold (WRITE_COMMAND d) cs q) (bits @ concat (map command_bits cs)) ts
      \<and> chip_selected d (fold (WRITE_COMMAND d) cs q)" if "chip_at d q bits ts \<and> chip_selected d q" for cs q bits
    using that
  proof (induction cs arbitrary: q bits)
    case (Cons c cs)
    from w [OF conjunct1 [OF Cons.prems] conjunct2 [OF Cons.prems], of c 7 0]
    have "chip_at d (WRITE_DATA d c 7 0 q) (bits @ map (bit c) [7, 6, 5, 4, 3, 2, 1, 0]) ts"
      "chip_selected d (WRITE_DATA d c 7 0 q)" by (simp_all only: mask_bits_eq)
    from w [OF this, of 0 0 0]
    have "chip_at d (WRITE_COMMAND d c q) (bits @ command_bits c) ts \<and> chip_selected d (WRITE_COMMAND d c q)"
      by (simp add: WRITE_COMMAND_def mask_bits_eq command_bits_def)
    from Cons.IH [OF this] show ?case by simp
  qed simp
  show ?thesis using relax_seen [OF assms(1)] run [OF start] by simp
qed

lemma commands_unseen:
  assumes "display_ok d" "display_ok e" "chip_lines d \<inter> chip_lines e = {}" "chip_at e p [] ts"
  shows "chip_at e (SLAVE_SELECT_RELAX d (fold (WRITE_COMMAND d) cs (WRITE_PREFIX d COMMAND_PREFIX (SLAVE_SELECT_PULSE d p)))) [] ts"
proof -
  note unseen = macros_unseen [OF assms(1-3)]
  have "chip_at e (fold (WRITE_COMMAND d) cs q) [] ts" if "chip_at e q [] ts" for cs q
    using that by (induction cs arbitrary: q) (simp_all add: WRITE_COMMAND_def unseen(3))
  then show ?thesis by (simp add: unseen(1,2) unseen(3) assms(4) WRITE_PREFIX_def)
qed

lemma data_matrix_seen:
  assumes "display_ok d" "chip_at d p [] ts"
  shows "chip_at d (DATA_MATRIX d (2 * (column AND 0x1F)) (x AND 0xF) (drop_bit 4 (x AND 0xF0)) p) []
    (ts @ [data_bits column x])"
proof -
  have prefix: "map (bit CHIP_DATA_PREFIX) [2, 1, 0] = [True, False, True]" by (simp add: CHIP_DATA_PREFIX_def)
  have masks: "(0xF :: u8) = mask 4" "(0xF0 :: u8) = push_bit 4 (mask 4)"
    by (simp_all add: mask_eq_exp_minus_1 push_bit_eq_mult)
  have low: "map (bit (x AND 0xF)) [0, 1, 2, 3] = map (bit x) [0, 1, 2, 3]"
    unfolding masks by (simp add: bit_and_iff bit_mask_iff)
  have high: "map (bit (drop_bit 4 (x AND 0xF0))) [0, 1, 2, 3] = map (bit x) [4, 5, 6, 7]"
    unfolding masks by (simp add: bit_drop_bit_eq bit_and_iff bit_push_bit_iff bit_mask_iff del: push_bit_mask_eq)
  have "[0..<8] = [0, 1, 2, 3] @ [4, 5, 6, 7 :: nat]" by code_simp
  then have eight: "map (bit x) [0..<8] = map (bit x) [0, 1, 2, 3] @ map (bit x) [4, 5, 6, 7]" by (simp only: map_append)
  let ?a = "2 * (column AND 0x1F)"
  define p1 where "p1 = SLAVE_SELECT_PULSE d p"
  define p2 where "p2 = WRITE_DATA d CHIP_DATA_PREFIX 2 0 p1"
  define p3 where "p3 = WRITE_DATA d ?a 6 0 p2"
  define p4 where "p4 = WRITE_DATA d (x AND 0xF) 0 3 p3"
  define p5 where "p5 = WRITE_DATA d (drop_bit 4 (x AND 0xF0)) 0 3 p4"
  note w = write_data_seen [OF assms(1) conjunct1 conjunct2]
  have s1: "chip_at d p1 [] ts \<and> chip_selected d p1" unfolding p1_def by (rule pulse_seen [OF assms])
  have s2: "chip_at d p2 [True, False, True] ts \<and> chip_selected d p2"
    using w [OF s1 s1, of CHIP_DATA_PREFIX 2 0] by (simp only: p2_def mask_bits_eq prefix append.simps)
  have s3: "chip_at d p3 ([True, False, True] @ map (bit ?a) [6, 5, 4, 3, 2, 1, 0]) ts \<and> chip_selected d p3"
    using w [OF s2 s2, of ?a 6 0] by (simp only: p3_def mask_bits_eq)
  have s4: "chip_at d p4 (([True, False, True] @ map (bit ?a) [6, 5, 4, 3, 2, 1, 0]) @ map (bit x) [0, 1, 2, 3]) ts \<and> chip_selected d p4"
    using w [OF s3 s3, of "x AND 0xF" 0 3] by (simp only: p4_def mask_bits_eq low)
  have s5: "chip_at d p5 (data_bits column x) ts"
    using conjunct1 [OF w [OF s4 s4, of "drop_bit 4 (x AND 0xF0)" 0 3]]
    by (simp only: p5_def mask_bits_eq high data_bits_def eight append_assoc)
  have "DATA_MATRIX d ?a (x AND 0xF) (drop_bit 4 (x AND 0xF0)) p = SLAVE_SELECT_RELAX d p5"
    unfolding DATA_MATRIX_def Let_def WRITE_PREFIX_def WRITE_ADDRESS_def WRITE_WORD_def p5_def p4_def p3_def p2_def p1_def ..
  then show ?thesis using relax_seen [OF assms(1) s5] by (simp add: data_bits_def)
qed

lemma data_matrix_unseen:
  assumes "display_ok d" "display_ok e" "chip_lines d \<inter> chip_lines e = {}" "chip_at e p [] ts"
  shows "chip_at e (DATA_MATRIX d address low high p) [] ts"
  unfolding DATA_MATRIX_def Let_def WRITE_PREFIX_def WRITE_ADDRESS_def WRITE_WORD_def
  by (intro macros_unseen [OF assms(1-3)] assms(4))


lemma chips_started:
  assumes "chips_at p left right"
  defines "ts \<equiv> [True, False, False] @ concat (map command_bits [COMMAND_SYSTEM_DISABLE, COMMAND_NMOS_8COM,
    COMMAND_SYSTEM_ENABLE, COMMAND_LED_ON, COMMAND_BRIGHTNESS_MASK OR 0xF])"
  shows "chips_at (ht1632c_start p) (left @ [ts]) (right @ [ts])"
proof -
  let ?cs = "[COMMAND_SYSTEM_DISABLE, COMMAND_NMOS_8COM, COMMAND_SYSTEM_ENABLE, COMMAND_LED_ON, COMMAND_BRIGHTNESS_MASK OR 0xF]"
  have start: "START_MATRIX d q = SLAVE_SELECT_RELAX d (fold (WRITE_COMMAND d) ?cs (WRITE_PREFIX d COMMAND_PREFIX (SLAVE_SELECT_PULSE d q)))"
    for d q by (simp add: START_MATRIX_def Let_def)
  show ?thesis
    using assms(1) unfolding chips_at_def ht1632c_start_def start ts_def
    by (intro conjI commands_seen commands_unseen matrices_ok) simp_all
qed

lemma chips_stopped:
  assumes "chips_at p left right"
  defines "ts \<equiv> [True, False, False] @ command_bits COMMAND_SYSTEM_DISABLE"
  shows "chips_at (ht1632c_stop p) (left @ [ts]) (right @ [ts])"
proof -
  let ?cs = "[COMMAND_SYSTEM_DISABLE]"
  have stop: "STOP_MATRIX d q = SLAVE_SELECT_RELAX d (fold (WRITE_COMMAND d) ?cs (WRITE_PREFIX d COMMAND_PREFIX (SLAVE_SELECT_PULSE d q)))"
    for d q by (simp add: STOP_MATRIX_def)
  have ts: "ts = [True, False, False] @ concat (map command_bits ?cs)" by (simp add: ts_def)
  show ?thesis
    using assms(1) unfolding chips_at_def ht1632c_stop_def stop ts
    by (intro conjI commands_seen commands_unseen matrices_ok) simp_all
qed

lemma chips_bright:
  fixes level :: u8
  assumes "chips_at p left right"
  defines "ts \<equiv> [True, False, False] @ command_bits (COMMAND_BRIGHTNESS_MASK OR (0xF AND level))"
  shows "chips_at (ht1632c_brightness level p) (left @ [ts]) (right @ [ts])"
proof -
  let ?c = "COMMAND_BRIGHTNESS_MASK OR (0xF AND level)"
  have bright: "BRIGHTNESS_MATRIX d c q = SLAVE_SELECT_RELAX d (fold (WRITE_COMMAND d) [c] (WRITE_PREFIX d COMMAND_PREFIX (SLAVE_SELECT_PULSE d q)))"
    for d c q by (simp add: BRIGHTNESS_MATRIX_def)
  have ts: "ts = [True, False, False] @ concat (map command_bits [?c])" by (simp add: ts_def)
  show ?thesis
    using assms(1) unfolding chips_at_def ht1632c_brightness_def Let_def bright ts
    by (intro conjI commands_seen commands_unseen matrices_ok) simp_all
qed

lemma chips_data:
  assumes "chips_at p left right"
  shows "chips_at (ht1632c_data column x y p) (left @ [data_bits column x]) (right @ [data_bits column y])"
  using assms unfolding chips_at_def ht1632c_data_def Let_def
  by (intro conjI data_matrix_seen data_matrix_unseen matrices_ok) simp_all

section \<open>The columns of a matrix\<close>

text \<open>A matrix stores the eight bits of a transaction for data at the address, four bits to an address.\<close>

definition chip_store :: "bool list \<Rightarrow> u8 list \<Rightarrow> u8 list" where
  "chip_store bits columns =
     (if take 3 bits = [True, False, True] \<and> length bits = 18
      then columns[horner_sum of_bool 2 (rev (take 7 (drop 3 bits))) div 2 := horner_sum of_bool 2 (drop 10 bits)]
      else columns)"

definition chip_columns :: "bool list list \<Rightarrow> u8 list" where
  "chip_columns ts = fold chip_store ts (replicate 32 0)"

lemma chip_store_command: "chip_store (True # False # False # bits) columns = columns"
  by (simp add: chip_store_def)

lemma chip_store_data: "chip_store (data_bits column x) columns = columns[unat (column AND 0x1F) := x]"
proof -
  let ?a = "2 * (column AND 0x1F)"
  define address where "address = map (bit ?a) [6, 5, 4, 3, 2, 1, 0]"
  define column_bits where "column_bits = map (bit x) [0..<8]"
  have small: "unat (column AND 0x1F) < 32"
  proof -
    have "(0x1F :: u8) = mask 5" by (simp add: mask_eq_exp_minus_1)
    then have "column AND 0x1F = take_bit 5 column" by (simp add: take_bit_eq_mask)
    then show ?thesis using take_bit_nat_less_exp [of 5 "unat column"] by (simp add: unsigned_take_bit_eq)
  qed
  have "[6, 5, 4, 3, 2, 1, 0] = rev [0..<7 :: nat]" by code_simp
  then have "rev address = map (bit ?a) [0..<7]" unfolding address_def by (simp only: rev_map rev_rev_ident)
  also have "\<dots> = map (bit (unat ?a)) [0..<7]" by (rule map_cong) (simp_all add: bit_unsigned_iff bit_imp_le_length)
  finally have "horner_sum of_bool 2 (rev address) = take_bit 7 (unat ?a)" by (simp only: horner_sum_bit_eq_take_bit)
  also have "unat ?a = 2 * unat (column AND 0x1F)" using small by (simp add: unat_word_ariths)
  finally have a: "horner_sum of_bool 2 (rev address) div 2 = unat (column AND 0x1F)"
    using small by (simp add: take_bit_nat_eq_self)
  have c: "horner_sum of_bool 2 column_bits = x"
    using horner_sum_bit_eq_take_bit [of x 8] by (simp add: column_bits_def take_bit_word_eq_self)
  have lengths: "length address = 7" "length column_bits = 8" by (simp_all add: address_def column_bits_def)
  have split: "data_bits column x = [True, False, True] @ address @ column_bits"
    by (simp only: data_bits_def address_def column_bits_def append_assoc)
  have "take 3 (data_bits column x) = [True, False, True]" "drop 3 (data_bits column x) = address @ column_bits"
    "drop 10 (data_bits column x) = column_bits" "length (data_bits column x) = 18"
    unfolding split using lengths by simp_all
  then show ?thesis using lengths a c by (simp add: chip_store_def)
qed

end
