(* ===== verification/Old_Mega.thy ===== *)
theory Old_Mega
  imports Old_Chip
begin

text \<open>
  The eight bit controller of the very first display (\<open>src/obsoleted/old/lib-obsolete/int/mcu/atmega8a/atmega8a.c\<close>,
  with the numbers of \<open>libled/spi-message.h\<close>): the interrupt that takes and answers messages byte by byte, and
  the main loop that shows the matrix, whole or scrolling, between them. \<open>None\<close> is a write behind an array.
  The main loop is cut at the columns it writes and at its pauses; an interrupt inside one of these is
  not modelled, nor are the test of the lamps and the directions of the ports.
\<close>

section \<open>\<open>spi-message.h\<close>\<close>

definition SPI_MASTER_START :: u8 where "SPI_MASTER_START = 230"
definition SPI_MASTER_FINISH :: u8 where "SPI_MASTER_FINISH = 231"
definition SPI_SLAVE_MSG_START :: u8 where "SPI_SLAVE_MSG_START = 101"
definition SPI_SLAVE_MSG_STOP :: u8 where "SPI_SLAVE_MSG_STOP = 102"
definition SPI_SLAVE_MSG_HANDSHAKE :: u8 where "SPI_SLAVE_MSG_HANDSHAKE = 103"
definition SPI_SLAVE_MSG_MATRIX :: u8 where "SPI_SLAVE_MSG_MATRIX = 104"
definition SPI_SLAVE_MSG_DELAY :: u8 where "SPI_SLAVE_MSG_DELAY = 105"
definition SPI_SLAVE_MSG_BRIGHTNESS :: u8 where "SPI_SLAVE_MSG_BRIGHTNESS = 106"
definition SPI_SLAVE_MSG_SWITCH_RELAY :: u8 where "SPI_SLAVE_MSG_SWITCH_RELAY = 107"
definition SPI_SLAVE_START :: u8 where "SPI_SLAVE_START = 240"
definition SPI_SLAVE_FINISH :: u8 where "SPI_SLAVE_FINISH = 241"
definition SPI_STATUS_OK :: u8 where "SPI_STATUS_OK = 7"
definition SPI_STATUS_NO_FINISH :: u8 where "SPI_STATUS_NO_FINISH = 8"
definition SPI_STATUS_MESSAGE_ID_UNKNOWN :: u8 where "SPI_STATUS_MESSAGE_ID_UNKNOWN = 9"
definition SPI_STATUS_LONG_MESSAGE_ID_UNKNOWN :: u8 where "SPI_STATUS_LONG_MESSAGE_ID_UNKNOWN = 10"
definition SPI_STATUS_PARSE_ERROR :: u8 where "SPI_STATUS_PARSE_ERROR = 11"
definition SPI_STATUS_NO_ARRAY_START :: u8 where "SPI_STATUS_NO_ARRAY_START = 12"
definition SPI_STATUS_NO_ARRAY_FINISH :: u8 where "SPI_STATUS_NO_ARRAY_FINISH = 13"
definition SPI_STATUS_TOO_LONG_MATRIX :: u8 where "SPI_STATUS_TOO_LONG_MATRIX = 14"
definition SPI_STATUS_UNKNOWN_DELAY_ID :: u8 where "SPI_STATUS_UNKNOWN_DELAY_ID = 15"
definition SPI_STATUS_BRIGHTNESS_OUT_OF_RANGE :: u8 where "SPI_STATUS_BRIGHTNESS_OUT_OF_RANGE = 16"
definition SPI_MATRIX_ARRAY_START :: u8 where "SPI_MATRIX_ARRAY_START = 0"
definition SPI_MATRIX_ARRAY_FINISH :: u8 where "SPI_MATRIX_ARRAY_FINISH = 1"
definition SPI_DELAY_SCROLL_SHIFT :: u8 where "SPI_DELAY_SCROLL_SHIFT = 0"
definition SPI_BRIGHTNESS_MIN :: u8 where "SPI_BRIGHTNESS_MIN = 0"
definition SPI_BRIGHTNESS_MAX :: u8 where "SPI_BRIGHTNESS_MAX = 15"
definition SPI_SLAVE_MSG_MAX :: nat where "SPI_SLAVE_MSG_MAX = 108"
definition SPI_STATUS_MAX :: nat where "SPI_STATUS_MAX = 17"
definition SPI_SLAVE_MAX_MSG_LENGTH :: nat where "SPI_SLAVE_MAX_MSG_LENGTH = 31"
definition SPI_MATRIX_CAPACITY :: nat where "SPI_MATRIX_CAPACITY = 600"

lemmas spi_message_ids =
  SPI_MASTER_START_def SPI_MASTER_FINISH_def SPI_SLAVE_MSG_START_def SPI_SLAVE_MSG_STOP_def
  SPI_SLAVE_MSG_HANDSHAKE_def SPI_SLAVE_MSG_MATRIX_def SPI_SLAVE_MSG_DELAY_def
  SPI_SLAVE_MSG_BRIGHTNESS_def SPI_SLAVE_MSG_SWITCH_RELAY_def SPI_SLAVE_START_def SPI_SLAVE_FINISH_def
  SPI_STATUS_OK_def SPI_STATUS_NO_FINISH_def SPI_STATUS_MESSAGE_ID_UNKNOWN_def
  SPI_STATUS_LONG_MESSAGE_ID_UNKNOWN_def SPI_STATUS_PARSE_ERROR_def SPI_STATUS_NO_ARRAY_START_def
  SPI_STATUS_NO_ARRAY_FINISH_def SPI_STATUS_TOO_LONG_MATRIX_def SPI_STATUS_UNKNOWN_DELAY_ID_def
  SPI_STATUS_BRIGHTNESS_OUT_OF_RANGE_def SPI_MATRIX_ARRAY_START_def SPI_MATRIX_ARRAY_FINISH_def
  SPI_DELAY_SCROLL_SHIFT_def SPI_BRIGHTNESS_MIN_def SPI_BRIGHTNESS_MAX_def

section \<open>State\<close>

definition TRANSFER_IDLE :: u8 where "TRANSFER_IDLE = push_bit 0 1"
definition TRANSFER_READING :: u8 where "TRANSFER_READING = push_bit 1 1"
definition TRANSFER_MATRIX_STARTED :: u8 where "TRANSFER_MATRIX_STARTED = push_bit 2 1"
definition TRANSFER_MATRIX_RENDERED :: u8 where "TRANSFER_MATRIX_RENDERED = push_bit 3 1"
definition DISPLAY_HALF_CAPACITY :: nat where "DISPLAY_HALF_CAPACITY = 32"
definition DISPLAY_CAPACITY :: nat where "DISPLAY_CAPACITY = DISPLAY_HALF_CAPACITY * 2"

lemmas transfer_flags =
  TRANSFER_IDLE_def TRANSFER_READING_def TRANSFER_MATRIX_STARTED_def TRANSFER_MATRIX_RENDERED_def

text \<open>The variables, the data register as it goes out next, and the ports of the displays and the relay.\<close>

record mega =
  mg_flag :: u8
  mg_buffer :: bytes
  mg_buffer_size :: u8
  mg_index :: u16
  mg_matrix :: bytes
  mg_matrix_size :: u16
  mg_delay :: u8
  mg_spdr :: u8
  mg_chip :: chip_port
  mg_portd :: u8

text \<open>\<open>sw_init\<close>, over what the reset leaves.\<close>

definition mega_sw_init :: mega where
  "mega_sw_init = \<lparr>mg_flag = TRANSFER_READING, mg_buffer = replicate SPI_SLAVE_MAX_MSG_LENGTH 0, mg_buffer_size = 0,
     mg_index = 0, mg_matrix = replicate SPI_MATRIX_CAPACITY 0, mg_matrix_size = 0, mg_delay = 30, mg_spdr = 0,
     mg_chip = \<lparr>cp_port = 0, cp_wire = []\<rparr>, mg_portd = 0\<rparr>"

definition mega_toggle_led :: "nat \<Rightarrow> mega \<Rightarrow> mega" where
  "mega_toggle_led leg s = s\<lparr>mg_portd := mg_portd s XOR push_bit leg 1\<rparr>"

section \<open>Messages\<close>

definition mega_read_complete :: "u8 \<Rightarrow> mega \<Rightarrow> mega" where
  "mega_read_complete status s =
     (let s = s\<lparr>mg_flag := mg_flag s OR TRANSFER_IDLE\<rparr>;
          s = s\<lparr>mg_buffer := ((mg_buffer s)[0 := SPI_MASTER_START, 1 := status, 2 := SPI_MASTER_FINISH]),
                mg_buffer_size := 3\<rparr>;
          s = s\<lparr>mg_spdr := mg_buffer s ! 0, mg_index := 0\<rparr>
      in s\<lparr>mg_flag := mg_flag s AND NOT (TRANSFER_IDLE OR TRANSFER_READING)\<rparr>)"

definition mega_write_complete :: "mega \<Rightarrow> mega" where
  "mega_write_complete s =
     (let s = s\<lparr>mg_flag := mg_flag s OR TRANSFER_IDLE, mg_buffer_size := 0, mg_index := 0\<rparr>;
          s = s\<lparr>mg_flag := mg_flag s AND NOT TRANSFER_IDLE\<rparr>
      in s\<lparr>mg_flag := mg_flag s OR TRANSFER_READING\<rparr>)"

definition mega_check_finish :: "u8 \<Rightarrow> u8" where
  "mega_check_finish info = (if info = SPI_SLAVE_FINISH then SPI_STATUS_OK else SPI_STATUS_NO_FINISH)"

text \<open>A write to the displays.\<close>

definition mega_chip :: "(chip_port \<Rightarrow> chip_port) \<Rightarrow> mega \<Rightarrow> mega" where
  "mega_chip f s = s\<lparr>mg_chip := f (mg_chip s)\<rparr>"

definition mega_read_start :: "u8 \<Rightarrow> mega \<Rightarrow> mega" where
  "mega_read_start info s =
     (let old = mg_buffer_size s; s = s\<lparr>mg_buffer_size := old + 1\<rparr>
      in if old = 2 then mega_read_complete (mega_check_finish info) (mega_chip ht1632c_start s) else s)"

definition mega_read_stop :: "u8 \<Rightarrow> mega \<Rightarrow> mega" where
  "mega_read_stop info s =
     (let old = mg_buffer_size s; s = s\<lparr>mg_buffer_size := old + 1\<rparr>
      in if old = 2 then mega_read_complete (mega_check_finish info) (mega_chip ht1632c_stop s) else s)"

definition mega_read_handshake :: "u8 \<Rightarrow> mega \<Rightarrow> mega" where
  "mega_read_handshake info s =
     (let old = mg_buffer_size s; s = s\<lparr>mg_buffer_size := old + 1\<rparr>
      in if old = 2 then mega_read_complete (mega_check_finish info) s else s)"

definition mega_read_matrix :: "u8 \<Rightarrow> mega \<Rightarrow> mega option" where
  "mega_read_matrix info s =
     (let s = s\<lparr>mg_flag := mg_flag s OR TRANSFER_MATRIX_STARTED\<rparr>;
          s = s\<lparr>mg_flag := mg_flag s AND NOT TRANSFER_MATRIX_RENDERED\<rparr>
      in if mg_buffer_size s = 2
         then Some (s\<lparr>mg_matrix_size := ucast info, mg_buffer_size := mg_buffer_size s + 1\<rparr>)
         else if mg_buffer_size s = 3
         then Some (s\<lparr>mg_matrix_size := mg_matrix_size s + 255 * ucast info, mg_buffer_size := mg_buffer_size s + 1\<rparr>)
         else if mg_buffer_size s = 4
         then Some (s\<lparr>mg_index := 0, mg_buffer_size := mg_buffer_size s + 1\<rparr>)
         else if mg_index s < mg_matrix_size s
         then if unat (mg_index s) < length (mg_matrix s)
              then Some (s\<lparr>mg_matrix := (mg_matrix s)[unat (mg_index s) := info], mg_index := mg_index s + 1\<rparr>)
              else None
         else if mg_index s = mg_matrix_size s
         then Some (s\<lparr>mg_index := mg_index s + 1\<rparr>)
         else let s = mega_read_complete (mega_check_finish info) s
              in Some (s\<lparr>mg_flag := mg_flag s AND NOT TRANSFER_MATRIX_STARTED\<rparr>))"

definition mega_read_delay :: "u8 \<Rightarrow> mega \<Rightarrow> mega" where
  "mega_read_delay info s =
     (let old = mg_buffer_size s; s = s\<lparr>mg_buffer_size := old + 1\<rparr>
      in if old = 2 then s
         else if old = 3 then s\<lparr>mg_delay := info\<rparr>
         else mega_read_complete (mega_check_finish info) s)"

definition mega_read_brightness :: "u8 \<Rightarrow> mega \<Rightarrow> mega" where
  "mega_read_brightness info s =
     (let old = mg_buffer_size s; s = s\<lparr>mg_buffer_size := old + 1\<rparr>
      in if old = 2 then s\<lparr>mg_buffer := (mg_buffer s)[2 := info]\<rparr>
         else
           let s = (if mg_buffer s ! 2 < SPI_BRIGHTNESS_MIN \<or> mg_buffer s ! 2 > SPI_BRIGHTNESS_MAX
                    then mega_read_complete SPI_STATUS_BRIGHTNESS_OUT_OF_RANGE s else s);
               s = mega_chip (ht1632c_brightness (mg_buffer s ! 2)) s
           in mega_read_complete (mega_check_finish info) s)"

definition mega_switch_relay :: "u8 \<Rightarrow> mega \<Rightarrow> mega" where
  "mega_switch_relay state s =
     s\<lparr>mg_portd := if state \<noteq> 0 then mg_portd s OR push_bit 0 1 else mg_portd s AND NOT (push_bit 0 1)\<rparr>"

definition mega_read_switch_relay :: "u8 \<Rightarrow> mega \<Rightarrow> mega" where
  "mega_read_switch_relay info s =
     (let old = mg_buffer_size s; s = s\<lparr>mg_buffer_size := old + 1\<rparr>
      in if old = 2 then s\<lparr>mg_buffer := (mg_buffer s)[2 := info]\<rparr>
         else mega_read_complete (mega_check_finish info) (mega_switch_relay (mg_buffer s ! 2) s))"

definition mega_read :: "u8 \<Rightarrow> mega \<Rightarrow> mega option" where
  "mega_read info s =
     (if mg_buffer_size s = 0 then
        Some (if info = SPI_SLAVE_START
              then s\<lparr>mg_buffer := (mg_buffer s)[unat (mg_buffer_size s) := SPI_SLAVE_START], mg_buffer_size := mg_buffer_size s + 1\<rparr>
              else s)
      else if mg_buffer_size s = 1 then
        Some (s\<lparr>mg_buffer := (mg_buffer s)[unat (mg_buffer_size s) := info], mg_buffer_size := mg_buffer_size s + 1\<rparr>)
      else let msg = mg_buffer s ! 1
           in if msg = SPI_SLAVE_MSG_START then Some (mega_read_start info s)
              else if msg = SPI_SLAVE_MSG_STOP then Some (mega_read_stop info s)
              else if msg = SPI_SLAVE_MSG_HANDSHAKE then Some (mega_read_handshake info s)
              else if msg = SPI_SLAVE_MSG_MATRIX then mega_read_matrix info s
              else if msg = SPI_SLAVE_MSG_DELAY then Some (mega_read_delay info s)
              else if msg = SPI_SLAVE_MSG_BRIGHTNESS then Some (mega_read_brightness info s)
              else if msg = SPI_SLAVE_MSG_SWITCH_RELAY then Some (mega_read_switch_relay info s)
              else Some (if info = SPI_SLAVE_FINISH then mega_read_complete SPI_STATUS_MESSAGE_ID_UNKNOWN s else s))"

text \<open>The interrupt, after a byte has come in.\<close>

definition mega_spi_stc :: "u8 \<Rightarrow> mega \<Rightarrow> mega option" where
  "mega_spi_stc info s =
     (let s = mega_toggle_led 1 s
      in if mg_flag s AND TRANSFER_IDLE \<noteq> 0 then Some s
         else if mg_flag s AND TRANSFER_READING \<noteq> 0 then mega_read info (s\<lparr>mg_spdr := 0\<rparr>)
         else
           let s = s\<lparr>mg_index := mg_index s + 1\<rparr>
           in Some (if mg_index s < ucast (mg_buffer_size s)
                    then s\<lparr>mg_spdr := mg_buffer s ! unat (mg_index s)\<rparr>
                    else mega_write_complete s))"

section \<open>Showing the matrix\<close>

definition is_matrix_consistent :: "mega \<Rightarrow> bool" where
  "is_matrix_consistent s \<longleftrightarrow> mg_flag s AND TRANSFER_MATRIX_STARTED = 0"

definition mega_get_column :: "u16 \<Rightarrow> mega \<Rightarrow> u8" where
  "mega_get_column index s =
     (if \<not> is_matrix_consistent s \<or> index \<ge> mg_matrix_size s then 0 else mg_matrix s ! unat index)"

definition display_data :: "u8 \<Rightarrow> u8 \<Rightarrow> u8 \<Rightarrow> mega \<Rightarrow> mega" where
  "display_data index left_data right_data = mega_chip (ht1632c_data index left_data right_data)"

definition mega_clear :: "mega \<Rightarrow> mega" where
  "mega_clear s = fold (\<lambda>i. display_data (of_nat i) 0 0) [0..<DISPLAY_HALF_CAPACITY] s"

text \<open>Where the main loop is: at its top, or before a column of the whole or of the scrolling picture.\<close>

datatype mega_pc = Mega_main | Mega_fixed u8 | Mega_scroll u16 u16 u8

definition render_matrix_fixed :: "u8 \<Rightarrow> mega \<Rightarrow> mega_pc \<times> mega" where
  "render_matrix_fixed index s =
     (if unat index < DISPLAY_HALF_CAPACITY then
        if \<not> is_matrix_consistent s then (Mega_main, s)
        else (Mega_fixed (index + 1),
              display_data index (mega_get_column (ucast index) s)
                (mega_get_column (ucast index + of_nat DISPLAY_HALF_CAPACITY) s) s)
      else (Mega_main, s\<lparr>mg_flag := mg_flag s OR TRANSFER_MATRIX_RENDERED\<rparr>))"

definition render_matrix_scroll :: "u16 \<Rightarrow> u16 \<Rightarrow> u8 \<Rightarrow> mega \<Rightarrow> mega_pc \<times> mega" where
  "render_matrix_scroll scroll_max scroll display s =
     (if scroll < scroll_max then
        if unat display < DISPLAY_HALF_CAPACITY then
          if \<not> is_matrix_consistent s then (Mega_main, s)
          else
            let column = scroll + ucast display;
                left_index = (if unat column \<ge> DISPLAY_CAPACITY then column - of_nat DISPLAY_CAPACITY
                              else of_nat SPI_MATRIX_CAPACITY);
                right_index = (if unat column + DISPLAY_HALF_CAPACITY \<ge> DISPLAY_CAPACITY
                               then column + of_nat DISPLAY_HALF_CAPACITY - of_nat DISPLAY_CAPACITY
                               else of_nat SPI_MATRIX_CAPACITY)
            in (Mega_scroll scroll_max scroll (display + 1),
                display_data display (mega_get_column left_index s) (mega_get_column right_index s) s)
        else (Mega_scroll scroll_max (scroll + 1) 0, s)
      else (Mega_main, s))"

text \<open>A step of the main loop; the first one of a picture clears the displays.\<close>

fun mega_main :: "mega_pc \<Rightarrow> mega \<Rightarrow> mega_pc \<times> mega" where
  "mega_main Mega_main s =
     (if is_matrix_consistent s then
        if unat (mg_matrix_size s) \<le> DISPLAY_CAPACITY then
          if mg_flag s AND TRANSFER_MATRIX_RENDERED \<noteq> 0 then (Mega_main, s) else (Mega_fixed 0, mega_clear s)
        else (Mega_scroll (2 * of_nat DISPLAY_CAPACITY + mg_matrix_size s) 0 0, mega_clear s)
      else (Mega_main, s))"
| "mega_main (Mega_fixed index) s = render_matrix_fixed index s"
| "mega_main (Mega_scroll scroll_max scroll display) s = render_matrix_scroll scroll_max scroll display s"


section \<open>The bus\<close>

text \<open>
  The master exchanges bytes: what the data register holds goes out, the byte that comes in takes its
  place, and the interrupt follows.
\<close>

fun mega_bus :: "bytes \<Rightarrow> mega \<Rightarrow> (bytes \<times> mega) option" where
  "mega_bus [] s = Some ([], s)"
| "mega_bus (b # bs) s =
     (case mega_spi_stc b (s\<lparr>mg_spdr := b\<rparr>) of
        None \<Rightarrow> None
      | Some t \<Rightarrow>
          (case mega_bus bs t of
             None \<Rightarrow> None
           | Some (outs, u) \<Rightarrow> Some (mg_spdr s # outs, u)))"

lemma mega_bus_append:
  "mega_bus (xs @ ys) s = (case mega_bus xs s of
     None \<Rightarrow> None
   | Some (outs, t) \<Rightarrow> (case mega_bus ys t of None \<Rightarrow> None | Some (outs', u) \<Rightarrow> Some (outs @ outs', u)))"
  by (induction xs arbitrary: s) (simp_all split: option.splits prod.splits)

lemma flag_tests:
  "f AND TRANSFER_IDLE = 0 \<longleftrightarrow> \<not> bit f 0" "f AND TRANSFER_READING = 0 \<longleftrightarrow> \<not> bit f 1"
  "f AND TRANSFER_MATRIX_STARTED = 0 \<longleftrightarrow> \<not> bit f 2" "f AND TRANSFER_MATRIX_RENDERED = 0 \<longleftrightarrow> \<not> bit f 3"
  using and_bit_mask [of f 0] and_bit_mask [of f 1] and_bit_mask [of f 2] and_bit_mask [of f 3]
  by (simp_all add: transfer_flags push_bit_eq_mult)

lemma flag_bit:
  "bit TRANSFER_IDLE n \<longleftrightarrow> n = 0" "bit TRANSFER_READING n \<longleftrightarrow> n = 1"
  "bit TRANSFER_MATRIX_STARTED n \<longleftrightarrow> n = 2" "bit TRANSFER_MATRIX_RENDERED n \<longleftrightarrow> n = 3"
  unfolding transfer_flags bit_push_bit_iff by (auto simp: bit_1_iff)

lemma flag_not: "bit (NOT (f :: u8)) n \<longleftrightarrow> n < 8 \<and> \<not> bit f n"
  by (simp add: bit_not_iff)

lemmas flag_bits = bit_or_iff bit_and_iff flag_not flag_bit

section \<open>Memory\<close>

definition mega_ok :: "mega \<Rightarrow> bool" where
  "mega_ok s \<longleftrightarrow> length (mg_buffer s) = 31 \<and> length (mg_matrix s) = 600 \<and> \<not> bit (mg_flag s) 0
     \<and> (\<not> bit (mg_flag s) 2 \<longrightarrow> unat (mg_matrix_size s) \<le> 600)
     \<and> (bit (mg_flag s) 1 \<and> mg_buffer_size s > 4 \<and> mg_buffer s ! 1 = SPI_SLAVE_MSG_MATRIX \<longrightarrow>
          unat (mg_index s) \<le> 600 \<or> unat (mg_index s) = Suc (unat (mg_matrix_size s)) \<and> unat (mg_matrix_size s) \<le> 600)"

text \<open>The bytes of the bus between the steps of the main loop.\<close>

inductive mega_step :: "mega_pc \<times> mega \<Rightarrow> mega_pc \<times> mega \<Rightarrow> bool" where
  main: "mega_step (pc, s) (mega_main pc s)"
| byte: "mega_spi_stc b (s\<lparr>mg_spdr := b\<rparr>) = Some t \<Longrightarrow> mega_step (pc, s) (pc, t)"

inductive mega_reach :: "mega_pc \<Rightarrow> mega \<Rightarrow> bool" where
  start: "mega_reach Mega_main mega_sw_init"
| step: "mega_reach pc s \<Longrightarrow> mega_step (pc, s) (pc', t) \<Longrightarrow> mega_reach pc' t"

lemma mega_ok_cong:
  assumes "mega_ok s" "mg_buffer t = mg_buffer s" "length (mg_matrix t) = length (mg_matrix s)" "mg_flag t = mg_flag s"
    "mg_matrix_size t = mg_matrix_size s" "mg_index t = mg_index s" "mg_buffer_size t = mg_buffer_size s"
  shows "mega_ok t"
  using assms unfolding mega_ok_def by simp

lemma mega_ok_complete:
  assumes "length (mg_buffer s) = 31" "length (mg_matrix s) = 600"
    "bit (mg_flag s) 2 \<or> unat (mg_matrix_size s) \<le> 600"
  shows "mega_ok (mega_read_complete status s)"
  using assms by (auto simp: mega_ok_def mega_read_complete_def Let_def flag_bits)

lemma mega_ok_init: "mega_ok mega_sw_init"
  by (simp add: mega_ok_def mega_sw_init_def SPI_SLAVE_MAX_MSG_LENGTH_def SPI_MATRIX_CAPACITY_def flag_bits)


text \<open>The only byte that is written behind the matrix.\<close>

definition mega_overflow :: "mega \<Rightarrow> bool" where
  "mega_overflow s \<longleftrightarrow> bit (mg_flag s) 1 \<and> mg_buffer_size s > 4 \<and> mg_buffer s ! 1 = SPI_SLAVE_MSG_MATRIX
     \<and> unat (mg_index s) = 600 \<and> 600 < unat (mg_matrix_size s)"

lemma mega_chip_simps [simp]:
  "mg_buffer (mega_chip f s) = mg_buffer s" "mg_matrix (mega_chip f s) = mg_matrix s"
  "mg_flag (mega_chip f s) = mg_flag s" "mg_matrix_size (mega_chip f s) = mg_matrix_size s"
  "mg_index (mega_chip f s) = mg_index s" "mg_buffer_size (mega_chip f s) = mg_buffer_size s"
  "mg_delay (mega_chip f s) = mg_delay s" "mg_spdr (mega_chip f s) = mg_spdr s"
  "mg_portd (mega_chip f s) = mg_portd s" "mg_chip (mega_chip f s) = f (mg_chip s)"
  by (simp_all add: mega_chip_def)

lemma u8_phases: "\<lbrakk>(x :: u8) \<noteq> 0; x \<noteq> 1; x \<noteq> 2; x \<noteq> 3; x \<noteq> 4\<rbrakk> \<Longrightarrow> 4 < x"
  by (simp add: u8_less_iff u8_eq_iff)

lemma mega_ok_simple_reads:
  assumes "mega_ok s" "mg_buffer s ! 1 \<noteq> SPI_SLAVE_MSG_MATRIX"
  shows "mega_ok (mega_read_start info s)" "mega_ok (mega_read_stop info s)" "mega_ok (mega_read_handshake info s)"
    "mega_ok (mega_read_delay info s)" "mega_ok (mega_read_brightness info s)" "mega_ok (mega_read_switch_relay info s)"
proof -
  have s: "length (mg_buffer s) = 31" "length (mg_matrix s) = 600" "bit (mg_flag s) 2 \<or> unat (mg_matrix_size s) \<le> 600"
    using assms(1) by (auto simp: mega_ok_def)
  have other: "mega_ok (s\<lparr>mg_buffer_size := n\<rparr>)" "mega_ok (s\<lparr>mg_buffer_size := n, mg_delay := x\<rparr>)"
    "mega_ok (s\<lparr>mg_buffer_size := n, mg_buffer := (mg_buffer s)[2 := x]\<rparr>)" for n x
    using assms by (simp_all add: mega_ok_def)
  show "mega_ok (mega_read_start info s)" "mega_ok (mega_read_stop info s)" "mega_ok (mega_read_handshake info s)"
    "mega_ok (mega_read_delay info s)" "mega_ok (mega_read_switch_relay info s)"
    using s other
    by (simp_all add: mega_read_start_def mega_read_stop_def mega_read_handshake_def mega_read_delay_def
        mega_read_switch_relay_def mega_switch_relay_def Let_def mega_ok_complete)
  have complete: "length (mg_buffer (mega_read_complete st t)) = length (mg_buffer t)"
    "mg_matrix (mega_read_complete st t) = mg_matrix t" "mg_matrix_size (mega_read_complete st t) = mg_matrix_size t"
    "bit (mg_flag (mega_read_complete st t)) 2 = bit (mg_flag t) 2" for st t
    by (simp_all add: mega_read_complete_def Let_def flag_bits)
  show "mega_ok (mega_read_brightness info s)"
    using s other by (simp add: mega_read_brightness_def Let_def mega_ok_complete complete)
qed

lemma mega_ok_read_matrix:
  assumes "mega_ok s" "bit (mg_flag s) 1" "mg_buffer s ! 1 = SPI_SLAVE_MSG_MATRIX"
    "mg_buffer_size s \<noteq> 0" "mg_buffer_size s \<noteq> 1"
  shows "mega_read_matrix info s = None \<longleftrightarrow> mega_overflow s"
    and "mega_read_matrix info s = Some t \<Longrightarrow> mega_ok t"
proof -
  have s: "length (mg_buffer s) = 31" "length (mg_matrix s) = 600" "\<not> bit (mg_flag s) 0"
    using assms(1) by (simp_all add: mega_ok_def)
  have phase: "mg_buffer_size s = 2 \<or> mg_buffer_size s = 3 \<or> mg_buffer_size s = 4 \<or>
      4 < mg_buffer_size s \<and> (unat (mg_index s) \<le> 600 \<or> unat (mg_index s) = Suc (unat (mg_matrix_size s)) \<and> unat (mg_matrix_size s) \<le> 600)"
    using assms u8_phases [of "mg_buffer_size s"] by (auto simp: mega_ok_def)
  have numbers: "\<not> (4 :: u8) < 2" "\<not> (4 :: u8) < 3" "\<not> (4 :: u8) < 4" by (simp_all add: u8_less_iff)
  show "mega_read_matrix info s = None \<longleftrightarrow> mega_overflow s"
    using phase assms(2,3) s numbers
    by (auto simp: mega_read_matrix_def mega_overflow_def Let_def word_less_nat_alt)
  assume t: "mega_read_matrix info s = Some t"
  show "mega_ok t"
  proof (cases "mg_buffer_size s = 2 \<or> mg_buffer_size s = 3 \<or> mg_buffer_size s = 4")
    case True
    then show ?thesis
      using t s by (auto simp: mega_read_matrix_def mega_ok_def Let_def flag_bits)
  next
    case False
    then have big: "4 < mg_buffer_size s"
      "unat (mg_index s) \<le> 600 \<or> unat (mg_index s) = Suc (unat (mg_matrix_size s)) \<and> unat (mg_matrix_size s) \<le> 600"
      using phase by auto
    define u where "u = s\<lparr>mg_flag := (mg_flag s OR TRANSFER_MATRIX_STARTED) AND NOT TRANSFER_MATRIX_RENDERED\<rparr>"
    have u: "length (mg_buffer u) = 31" "length (mg_matrix u) = 600" "\<not> bit (mg_flag u) 0" "bit (mg_flag u) 2"
      "mg_index u = mg_index s" "mg_matrix_size u = mg_matrix_size s" "mg_matrix u = mg_matrix s"
      using s by (simp_all add: u_def flag_bits)
    have run: "mega_read_matrix info s =
      (if mg_index s < mg_matrix_size s
       then if unat (mg_index s) < 600
            then Some (u\<lparr>mg_matrix := (mg_matrix s)[unat (mg_index s) := info], mg_index := mg_index s + 1\<rparr>) else None
       else if mg_index s = mg_matrix_size s then Some (u\<lparr>mg_index := mg_index s + 1\<rparr>)
       else let c = mega_read_complete (mega_check_finish info) u
            in Some (c\<lparr>mg_flag := mg_flag c AND NOT TRANSFER_MATRIX_STARTED\<rparr>))"
      using False s unfolding mega_read_matrix_def Let_def u_def by simp
    have inc: "unat (mg_index s + 1) = Suc (unat (mg_index s))" if "unat (mg_index s) \<le> 600"
      using that by (simp add: unat_word_ariths)
    consider "mg_index s < mg_matrix_size s" "unat (mg_index s) < 600" | "mg_index s = mg_matrix_size s"
      | "mg_matrix_size s < mg_index s"
      using t run by (auto split: if_splits)
    then show ?thesis
    proof cases
      case 1
      then show ?thesis using t u inc unfolding run by (auto simp: mega_ok_def)
    next
      case 2
      then show ?thesis using t u inc big(2) unfolding run by (auto simp: mega_ok_def)
    next
      case 3
      then have "unat (mg_matrix_size s) < unat (mg_index s)" by (simp add: word_less_nat_alt)
      then have small: "unat (mg_matrix_size s) \<le> 600" using big(2) by linarith
      define c where "c = mega_read_complete (mega_check_finish info) u"
      have "\<not> mg_index s < mg_matrix_size s" "mg_index s \<noteq> mg_matrix_size s" using 3 by auto
      then have t': "t = c\<lparr>mg_flag := mg_flag c AND NOT TRANSFER_MATRIX_STARTED\<rparr>"
        using t unfolding run c_def by (simp add: Let_def)
      have c: "mega_ok c" "mg_matrix_size c = mg_matrix_size s" "\<not> bit (mg_flag c) 1"
        using mega_ok_complete [of u "mega_check_finish info"] u small
        by (simp_all add: c_def mega_read_complete_def Let_def flag_bits)
      then show ?thesis using small unfolding t' by (simp add: mega_ok_def flag_bits)
    qed
  qed
qed


lemma mega_stc_ok:
  assumes "mega_ok s"
  shows "mega_spi_stc b (s\<lparr>mg_spdr := b\<rparr>) = None \<longleftrightarrow> mega_overflow s"
    and "mega_spi_stc b (s\<lparr>mg_spdr := b\<rparr>) = Some t \<Longrightarrow> mega_ok t"
proof -
  define u where "u = mega_toggle_led 1 (s\<lparr>mg_spdr := b\<rparr>)"
  have u: "mega_ok u" using assms by (rule mega_ok_cong) (simp_all add: u_def mega_toggle_led_def)
  define v where "v = u\<lparr>mg_spdr := 0\<rparr>"
  have v: "mega_ok v" using u by (rule mega_ok_cong) (simp_all add: v_def)
  have same: "mg_flag u = mg_flag s" "mega_overflow v \<longleftrightarrow> mega_overflow s" "mg_flag v = mg_flag s"
    by (simp_all add: v_def u_def mega_toggle_led_def mega_overflow_def)
  have awake: "\<not> bit (mg_flag s) 0" using assms by (simp add: mega_ok_def)
  have read: "mega_read b v = None \<longleftrightarrow> mega_overflow v" "mega_read b v = Some t \<Longrightarrow> mega_ok t"
    if "bit (mg_flag s) 1"
  proof -
    note matrix = mega_ok_read_matrix [OF v, of b] and simple = mega_ok_simple_reads [OF v, of b]
    have ids: "SPI_SLAVE_MSG_MATRIX \<noteq> SPI_SLAVE_MSG_START" "SPI_SLAVE_MSG_MATRIX \<noteq> SPI_SLAVE_MSG_STOP"
      "SPI_SLAVE_MSG_MATRIX \<noteq> SPI_SLAVE_MSG_HANDSHAKE" by (simp_all add: spi_message_ids)
    have low: "\<not> (4 :: u8) < 0" "\<not> (4 :: u8) < 1" by (simp_all add: u8_less_iff)
    have len: "length (mg_buffer v) = 31" "length (mg_matrix v) = 600"
      "bit (mg_flag v) 2 \<or> unat (mg_matrix_size v) \<le> 600" "\<not> bit (mg_flag v) 0"
      using v by (auto simp: mega_ok_def)
    show "mega_read b v = None \<longleftrightarrow> mega_overflow v"
    proof (cases "mg_buffer_size v = 0 \<or> mg_buffer_size v = 1 \<or> mg_buffer v ! 1 \<noteq> SPI_SLAVE_MSG_MATRIX")
      case True
      then have "\<not> mega_overflow v" using low by (auto simp: mega_overflow_def)
      moreover have "mega_read b v \<noteq> None" using True by (auto simp: mega_read_def Let_def)
      ultimately show ?thesis by simp
    next
      case False
      then have "mega_read b v = mega_read_matrix b v" using ids by (simp add: mega_read_def Let_def)
      then show ?thesis using False matrix(1) that same by simp
    qed
    assume "mega_read b v = Some t"
    then consider "mg_buffer_size v = 0" "t = v \<or> t = v\<lparr>mg_buffer := (mg_buffer v)[0 := SPI_SLAVE_START], mg_buffer_size := 1\<rparr>"
      | "mg_buffer_size v = 1" "t = v\<lparr>mg_buffer := (mg_buffer v)[1 := b], mg_buffer_size := 2\<rparr>"
      | "mg_buffer_size v \<noteq> 0" "mg_buffer_size v \<noteq> 1" "mg_buffer v ! 1 = SPI_SLAVE_MSG_MATRIX" "mega_read_matrix b v = Some t"
      | "mg_buffer v ! 1 \<noteq> SPI_SLAVE_MSG_MATRIX" "t \<in> {mega_read_start b v, mega_read_stop b v, mega_read_handshake b v,
          mega_read_delay b v, mega_read_brightness b v, mega_read_switch_relay b v}"
      | "t = v \<or> t = mega_read_complete SPI_STATUS_MESSAGE_ID_UNKNOWN v"
      using ids by (auto simp: mega_read_def Let_def split: if_splits)
    then show "mega_ok t"
    proof cases
      case 1
      then show ?thesis using v low by (auto simp: mega_ok_def u8_less_iff)
    next
      case 2
      then show ?thesis using v by (simp add: mega_ok_def u8_less_iff)
    next
      case 3
      then show ?thesis using matrix(2) that same by simp
    next
      case 4
      then show ?thesis using simple by auto
    next
      case 5
      then show ?thesis using v len mega_ok_complete by auto
    qed
  qed
  have run: "mega_spi_stc b (s\<lparr>mg_spdr := b\<rparr>) = (if bit (mg_flag s) 1 then mega_read b v else
      (let w = u\<lparr>mg_index := mg_index u + 1\<rparr>
       in Some (if mg_index w < ucast (mg_buffer_size w) then w\<lparr>mg_spdr := mg_buffer w ! unat (mg_index w)\<rparr>
                else mega_write_complete w)))"
    using awake unfolding mega_spi_stc_def Let_def u_def [symmetric] v_def by (simp add: same flag_tests)
  have not_over: "\<not> bit (mg_flag s) 1 \<Longrightarrow> \<not> mega_overflow s" by (simp add: mega_overflow_def)
  show "mega_spi_stc b (s\<lparr>mg_spdr := b\<rparr>) = None \<longleftrightarrow> mega_overflow s"
    unfolding run using read(1) same not_over by (simp add: Let_def)
  assume t: "mega_spi_stc b (s\<lparr>mg_spdr := b\<rparr>) = Some t"
  show "mega_ok t"
  proof (cases "bit (mg_flag s) 1")
    case True
    then show ?thesis using read(2) t unfolding run by simp
  next
    case False
    then have "mega_ok (u\<lparr>mg_index := mg_index u + 1, mg_spdr := x\<rparr>)"
      "mega_ok (mega_write_complete (u\<lparr>mg_index := mg_index u + 1\<rparr>))" for x
      using u same by (simp_all add: mega_ok_def mega_write_complete_def Let_def flag_bits u8_less_iff)
    then show ?thesis using t False unfolding run by (auto simp: Let_def split: if_splits)
  qed
qed


text \<open>The main loop changes the displays and the mark that the matrix is shown, and nothing else.\<close>

definition mega_shows :: "mega \<Rightarrow> mega \<Rightarrow> bool" where
  "mega_shows s t \<longleftrightarrow> t\<lparr>mg_chip := mg_chip s, mg_flag := mg_flag s\<rparr> = s
     \<and> (mg_flag t = mg_flag s \<or> mg_flag t = mg_flag s OR TRANSFER_MATRIX_RENDERED)"

lemma mega_clear_chip: "mega_clear s = mega_chip (fold (\<lambda>i. ht1632c_data (of_nat i) 0 0) [0..<32]) s"
proof -
  have "fold (\<lambda>i. display_data (of_nat i) 0 0) xs s = mega_chip (fold (\<lambda>i. ht1632c_data (of_nat i) 0 0) xs) s" for xs
    by (induction xs arbitrary: s) (simp_all add: display_data_def mega_chip_def)
  then show ?thesis by (simp only: mega_clear_def DISPLAY_HALF_CAPACITY_def)
qed

lemma mega_shows_chip: "mega_shows s s" "mega_shows s (mega_chip f s)"
  by (simp_all add: mega_shows_def mega_chip_def)

lemma mega_main_shows: "mega_shows s (snd (mega_main pc s))"
proof (cases pc)
  case Mega_main
  then show ?thesis by (simp add: mega_shows_chip mega_clear_chip)
next
  case (Mega_fixed i)
  have "mega_shows s (s\<lparr>mg_flag := mg_flag s OR TRANSFER_MATRIX_RENDERED\<rparr>)" by (simp add: mega_shows_def)
  then show ?thesis using Mega_fixed by (simp add: render_matrix_fixed_def mega_shows_chip display_data_def)
next
  case (Mega_scroll m k d)
  then show ?thesis by (simp add: render_matrix_scroll_def Let_def mega_shows_chip display_data_def)
qed

lemma mega_shows_ok: "mega_shows s t \<Longrightarrow> mega_ok s \<Longrightarrow> mega_ok t"
proof -
  assume s: "mega_shows s t" "mega_ok s"
  then have "t\<lparr>mg_chip := mg_chip s, mg_flag := mg_flag s\<rparr> = s" by (simp add: mega_shows_def)
  then have "mg_buffer t = mg_buffer s" "mg_matrix t = mg_matrix s" "mg_matrix_size t = mg_matrix_size s"
    "mg_index t = mg_index s" "mg_buffer_size t = mg_buffer_size s"
    by (cases s; cases t; simp)+
  then show ?thesis using s by (auto simp: mega_shows_def mega_ok_def flag_bits)
qed

lemma mega_reach_ok: "mega_reach pc s \<Longrightarrow> mega_ok s"
proof (induction rule: mega_reach.induct)
  case start
  show ?case by (rule mega_ok_init)
next
  case (step pc s pc' t)
  from step.hyps(2) step.IH show ?case
    by (cases rule: mega_step.cases) (auto intro: mega_shows_ok [OF mega_main_shows] dest: mega_stc_ok(2) simp: prod_eq_iff)
qed






end
