(* ===== verification/Old_Hw.thy ===== *)
theory Old_Hw
  imports Old_Mega
begin

text \<open>
  The messages to the controller of the very first display, from both sides. What the controller does
  with a frame and how it answers, as a refinement of the messages' meaning; the master that builds the frames and
  looks for the answers (\<open>src/obsoleted/old/lib-obsolete/int/ledhw\<close>: \<open>src/spi-io.cpp\<close> and \<open>src/spi.cpp\<close>), and the two together.
  What \<open>open\<close>, \<open>write\<close>, \<open>read\<close> and \<open>close\<close> return are arguments.
\<close>

section \<open>A message and its answer\<close>

definition mega_takes :: "mega \<Rightarrow> bytes \<Rightarrow> mega \<Rightarrow> bool" where
  "mega_takes s bs t \<longleftrightarrow> (\<exists>outs. mega_bus bs s = Some (outs, t))"

lemma mega_takes_one: "mega_spi_stc b (s\<lparr>mg_spdr := b\<rparr>) = Some t \<Longrightarrow> mega_takes s [b] t"
  by (simp add: mega_takes_def)

lemma mega_takes_append: "mega_takes s xs t \<Longrightarrow> mega_takes t ys u \<Longrightarrow> mega_takes s (xs @ ys) u"
  by (auto simp: mega_takes_def mega_bus_append)

lemma mega_takes_Cons: "mega_takes s [b] t \<Longrightarrow> mega_takes t bs u \<Longrightarrow> mega_takes s (b # bs) u"
  using mega_takes_append [of s "[b]" t bs u] by simp

text \<open>What the messages are about, beside their answers.\<close>

definition mega_same :: "mega \<Rightarrow> mega \<Rightarrow> bool" where
  "mega_same s t \<longleftrightarrow> mg_chip t = mg_chip s \<and> mg_delay t = mg_delay s \<and> mg_matrix t = mg_matrix s
     \<and> mg_matrix_size t = mg_matrix_size s \<and> bit (mg_flag t) 2 = bit (mg_flag s) 2
     \<and> bit (mg_flag t) 3 = bit (mg_flag s) 3 \<and> bit (mg_portd t) 0 = bit (mg_portd s) 0"

lemma mega_same_trans: "mega_same s t \<Longrightarrow> mega_same t u \<Longrightarrow> mega_same s u"
  by (simp add: mega_same_def)

text \<open>Reading, so many bytes being taken.\<close>

definition mega_reads :: "u8 \<Rightarrow> mega \<Rightarrow> bool" where
  "mega_reads n s \<longleftrightarrow> length (mg_buffer s) = 31 \<and> length (mg_matrix s) = 600
     \<and> \<not> bit (mg_flag s) 0 \<and> bit (mg_flag s) 1 \<and> mg_buffer_size s = n"

text \<open>About to answer.\<close>

definition mega_answers :: "u8 \<Rightarrow> mega \<Rightarrow> bool" where
  "mega_answers status s \<longleftrightarrow> length (mg_buffer s) = 31 \<and> length (mg_matrix s) = 600
     \<and> \<not> bit (mg_flag s) 0 \<and> \<not> bit (mg_flag s) 1 \<and> mg_buffer_size s = 3 \<and> mg_index s = 0
     \<and> mg_buffer s ! 0 = SPI_MASTER_START \<and> mg_buffer s ! 1 = status \<and> mg_buffer s ! 2 = SPI_MASTER_FINISH
     \<and> mg_spdr s = SPI_MASTER_START"

definition mega_heard :: "mega \<Rightarrow> mega" where
  "mega_heard s = s\<lparr>mg_portd := mg_portd s XOR push_bit 1 1, mg_spdr := 0\<rparr>"

lemma mega_heard_simps [simp]:
  "mg_buffer (mega_heard s) = mg_buffer s" "mg_matrix (mega_heard s) = mg_matrix s"
  "mg_flag (mega_heard s) = mg_flag s" "mg_matrix_size (mega_heard s) = mg_matrix_size s"
  "mg_index (mega_heard s) = mg_index s" "mg_buffer_size (mega_heard s) = mg_buffer_size s"
  "mg_delay (mega_heard s) = mg_delay s" "mg_chip (mega_heard s) = mg_chip s"
  "bit (mg_portd (mega_heard s)) 0 = bit (mg_portd s) 0"
  by (simp_all add: mega_heard_def bit_simps)

lemma mega_same_heard [simp]: "mega_same s (mega_heard s)"
  by (simp add: mega_same_def)

lemma mega_stc_reads: "mega_reads n s \<Longrightarrow> mega_spi_stc b (s\<lparr>mg_spdr := b\<rparr>) = mega_read b (mega_heard s)"
  by (simp add: mega_spi_stc_def mega_toggle_led_def Let_def flag_tests mega_reads_def mega_heard_def)

lemma mega_complete_answers:
  assumes "length (mg_buffer s) = 31" "length (mg_matrix s) = 600"
  shows "mega_answers status (mega_read_complete status s)" "mega_same s (mega_read_complete status s)"
  using assms by (simp_all add: mega_answers_def mega_same_def mega_read_complete_def Let_def flag_bits)

text \<open>The start of a message and its id.\<close>

lemma mega_header:
  assumes "mega_reads 0 s"
  shows "\<exists>t. mega_takes s [SPI_SLAVE_START, msg] t \<and> mega_reads 2 t \<and> mg_buffer t ! 1 = msg \<and> mega_same s t"
proof -
  define h where "h = mega_heard s"
  define t where "t = h\<lparr>mg_buffer := (mg_buffer h)[0 := SPI_SLAVE_START], mg_buffer_size := 1\<rparr>"
  have t: "mega_takes s [SPI_SLAVE_START] t"
    using assms by (intro mega_takes_one) (simp add: mega_stc_reads mega_read_def mega_reads_def t_def h_def)
  have r: "mega_reads 1 t" using assms by (simp add: mega_reads_def t_def h_def)
  define h' where "h' = mega_heard t"
  define u where "u = h'\<lparr>mg_buffer := (mg_buffer h')[1 := msg], mg_buffer_size := 2\<rparr>"
  have "mega_takes t [msg] u"
    using r by (intro mega_takes_one) (simp add: mega_stc_reads mega_read_def mega_reads_def u_def h'_def)
  with t have "mega_takes s [SPI_SLAVE_START, msg] u" by (rule mega_takes_Cons)
  moreover have "mega_reads 2 u" "mg_buffer u ! 1 = msg" using r by (simp_all add: mega_reads_def u_def h'_def)
  moreover have "mega_same s u" by (simp add: mega_same_def u_def h'_def t_def h_def)
  ultimately show ?thesis by blast
qed

text \<open>Bytes between messages are passed over.\<close>

lemma mega_idle_bytes:
  assumes "mega_reads 0 s" "SPI_SLAVE_START \<notin> set bs"
  shows "\<exists>outs t. mega_bus bs s = Some (outs, t) \<and> length outs = length bs \<and> mega_reads 0 t \<and> mega_same s t"
  using assms
proof (induction bs arbitrary: s)
  case Nil
  then show ?case by (simp add: mega_same_def)
next
  case (Cons b bs)
  then have "mega_spi_stc b (s\<lparr>mg_spdr := b\<rparr>) = Some (mega_heard s)" "mega_reads 0 (mega_heard s)"
    by (auto simp: mega_stc_reads mega_read_def mega_reads_def)
  moreover from Cons.IH [OF this(2)] Cons.prems(2) obtain outs t where
    "mega_bus bs (mega_heard s) = Some (outs, t)" "length outs = length bs" "mega_reads 0 t" "mega_same (mega_heard s) t"
    by auto
  ultimately show ?case using mega_same_trans [OF mega_same_heard] by auto
qed

text \<open>While the controller answers it does not look at the bytes it gets, and then waits for a message again.\<close>

lemma mega_answer_read:
  assumes "mega_answers status s" "SPI_SLAVE_START \<notin> set rest"
  shows "\<exists>outs t. mega_bus (a # b # c # rest) s = Some (SPI_MASTER_START # status # SPI_MASTER_FINISH # outs, t)
    \<and> length outs = length rest \<and> mega_reads 0 t \<and> mega_same s t"
proof -
  define led where "led = (\<lambda>s :: mega. mg_portd s XOR push_bit 1 1)"
  define s1 where "s1 = s\<lparr>mg_portd := led s, mg_index := 1, mg_spdr := status\<rparr>"
  define s2 where "s2 = s1\<lparr>mg_portd := led s1, mg_index := 2, mg_spdr := SPI_MASTER_FINISH\<rparr>"
  define s3 where "s3 = mega_write_complete (s2\<lparr>mg_spdr := c, mg_portd := led s2, mg_index := 3\<rparr>)"
  have small: "(1 :: u16) < ucast (3 :: u8)" "(2 :: u16) < ucast (3 :: u8)" "\<not> (3 :: u16) < ucast (3 :: u8)"
    by (simp_all add: word_less_nat_alt)
  have 1: "mega_spi_stc a (s\<lparr>mg_spdr := a\<rparr>) = Some s1"
    using assms(1) small unfolding mega_answers_def
    by (simp add: mega_spi_stc_def mega_toggle_led_def Let_def flag_tests s1_def led_def)
  have 2: "mega_spi_stc b (s1\<lparr>mg_spdr := b\<rparr>) = Some s2"
    using assms(1) small unfolding mega_answers_def
    by (simp add: mega_spi_stc_def mega_toggle_led_def Let_def flag_tests s1_def s2_def led_def)
  have 3: "mega_spi_stc c (s2\<lparr>mg_spdr := c\<rparr>) = Some s3"
    using assms(1) small unfolding mega_answers_def
    by (simp add: mega_spi_stc_def mega_toggle_led_def Let_def flag_tests s1_def s2_def s3_def led_def)
  have ready: "mega_reads 0 s3" and same: "mega_same s s3"
    using assms(1) by (simp_all add: mega_answers_def mega_reads_def mega_same_def s3_def s2_def s1_def led_def
        mega_write_complete_def Let_def flag_bits bit_simps)
  from mega_idle_bytes [OF ready assms(2)] obtain outs t where
    t: "mega_bus rest s3 = Some (outs, t)" "length outs = length rest" "mega_reads 0 t" "mega_same s3 t" by blast
  have "mg_spdr s = SPI_MASTER_START" "mg_spdr s1 = status" "mg_spdr s2 = SPI_MASTER_FINISH"
    using assms(1) by (simp_all add: mega_answers_def s1_def s2_def)
  then have "mega_bus (a # b # c # rest) s = Some (SPI_MASTER_START # status # SPI_MASTER_FINISH # outs, t)"
    using 1 2 3 t(1) by simp
  then show ?thesis using t mega_same_trans [OF same] by blast
qed


section \<open>What a message does\<close>

text \<open>
  The controller as its master sees it: what it has written to the displays, the pace, the columns to
  show, the relay and whether the columns are shown; and its messages.
\<close>

record mega_view =
  mv_chip :: chip_port
  mv_delay :: u8
  mv_columns :: bytes
  mv_relay :: bool
  mv_shown :: bool

datatype mega_msg =
  Mega_start | Mega_stop | Mega_handshake | Mega_matrix bytes | Mega_delay u8 | Mega_brightness u8 | Mega_relay u8

fun mega_body :: "mega_msg \<Rightarrow> bytes" where
  "mega_body Mega_start = [SPI_SLAVE_MSG_START]"
| "mega_body Mega_stop = [SPI_SLAVE_MSG_STOP]"
| "mega_body Mega_handshake = [SPI_SLAVE_MSG_HANDSHAKE]"
| "mega_body (Mega_matrix columns) =
     [SPI_SLAVE_MSG_MATRIX, of_nat (length columns mod 255), of_nat (length columns div 255), SPI_MATRIX_ARRAY_START]
     @ columns @ [SPI_MATRIX_ARRAY_FINISH]"
| "mega_body (Mega_delay x) = [SPI_SLAVE_MSG_DELAY, SPI_DELAY_SCROLL_SHIFT, x]"
| "mega_body (Mega_brightness x) = [SPI_SLAVE_MSG_BRIGHTNESS, x]"
| "mega_body (Mega_relay x) = [SPI_SLAVE_MSG_SWITCH_RELAY, x]"

fun mega_valid :: "mega_msg \<Rightarrow> bool" where
  "mega_valid (Mega_matrix columns) \<longleftrightarrow> length columns \<le> 600"
| "mega_valid (Mega_brightness x) \<longleftrightarrow> x \<le> 15"
| "mega_valid _ \<longleftrightarrow> True"

fun mega_apply :: "mega_msg \<Rightarrow> mega_view \<Rightarrow> mega_view" where
  "mega_apply Mega_start v = v\<lparr>mv_chip := ht1632c_start (mv_chip v)\<rparr>"
| "mega_apply Mega_stop v = v\<lparr>mv_chip := ht1632c_stop (mv_chip v)\<rparr>"
| "mega_apply Mega_handshake v = v"
| "mega_apply (Mega_matrix columns) v = v\<lparr>mv_columns := columns, mv_shown := False\<rparr>"
| "mega_apply (Mega_delay x) v = v\<lparr>mv_delay := x\<rparr>"
| "mega_apply (Mega_brightness x) v = v\<lparr>mv_chip := ht1632c_brightness x (mv_chip v)\<rparr>"
| "mega_apply (Mega_relay x) v = v\<lparr>mv_relay := (x \<noteq> 0)\<rparr>"

definition mega_abs :: "mega \<Rightarrow> mega_view" where
  "mega_abs s = \<lparr>mv_chip = mg_chip s, mv_delay = mg_delay s, mv_columns = take (unat (mg_matrix_size s)) (mg_matrix s),
     mv_relay = bit (mg_portd s) 0, mv_shown = bit (mg_flag s) 3\<rparr>"

definition mega_frame :: "mega_msg \<Rightarrow> bytes" where
  "mega_frame msg = SPI_SLAVE_START # mega_body msg @ [SPI_SLAVE_FINISH]"

text \<open>Between two messages, with the matrix whole.\<close>

definition mega_ready :: "mega \<Rightarrow> bool" where
  "mega_ready s \<longleftrightarrow> mega_reads 0 s \<and> is_matrix_consistent s"

lemma mega_same_view: "mega_same s t \<Longrightarrow> mega_abs t = mega_abs s"
  by (simp add: mega_same_def mega_abs_def)

lemma mega_same_consistent: "mega_same s t \<Longrightarrow> is_matrix_consistent t = is_matrix_consistent s"
  by (simp add: mega_same_def is_matrix_consistent_def flag_tests)

text \<open>The bytes after the id of a message, when a function takes the byte after them as the end.\<close>

lemma mega_takes_read:
  "mega_reads n s \<Longrightarrow> mega_read b (mega_heard s) = Some t \<Longrightarrow> mega_takes s [b] t"
  by (intro mega_takes_one) (simp add: mega_stc_reads)

lemma mega_read_calls:
  assumes "mega_reads n s" "n \<noteq> 0" "n \<noteq> 1"
  shows "mg_buffer s ! 1 = SPI_SLAVE_MSG_START \<Longrightarrow> mega_takes s [b] (mega_read_start b (mega_heard s))"
    "mg_buffer s ! 1 = SPI_SLAVE_MSG_STOP \<Longrightarrow> mega_takes s [b] (mega_read_stop b (mega_heard s))"
    "mg_buffer s ! 1 = SPI_SLAVE_MSG_HANDSHAKE \<Longrightarrow> mega_takes s [b] (mega_read_handshake b (mega_heard s))"
    "mg_buffer s ! 1 = SPI_SLAVE_MSG_MATRIX \<Longrightarrow> mega_read_matrix b (mega_heard s) = Some t \<Longrightarrow> mega_takes s [b] t"
    "mg_buffer s ! 1 = SPI_SLAVE_MSG_DELAY \<Longrightarrow> mega_takes s [b] (mega_read_delay b (mega_heard s))"
    "mg_buffer s ! 1 = SPI_SLAVE_MSG_BRIGHTNESS \<Longrightarrow> mega_takes s [b] (mega_read_brightness b (mega_heard s))"
    "mg_buffer s ! 1 = SPI_SLAVE_MSG_SWITCH_RELAY \<Longrightarrow> mega_takes s [b] (mega_read_switch_relay b (mega_heard s))"
  using assms mega_takes_read [OF assms(1)]
  by (simp_all add: mega_read_def Let_def mega_reads_def spi_message_ids)


lemma mega_finish_ok: "mega_check_finish SPI_SLAVE_FINISH = SPI_STATUS_OK"
  by (simp add: mega_check_finish_def)

definition mega_done :: "mega_view \<Rightarrow> mega \<Rightarrow> bool" where
  "mega_done v s \<longleftrightarrow> mega_answers SPI_STATUS_OK s \<and> mega_abs s = v \<and> is_matrix_consistent s"

lemma mega_complete_done:
  assumes "length (mg_buffer s) = 31" "length (mg_matrix s) = 600" "is_matrix_consistent s"
  shows "mega_done (mega_abs s) (mega_read_complete SPI_STATUS_OK s)"
  using mega_complete_answers [OF assms(1,2), of SPI_STATUS_OK] assms(3) mega_same_view mega_same_consistent
  by (auto simp: mega_done_def)

text \<open>Messages without data.\<close>

lemma mega_plain_body:
  assumes "mega_reads 2 s" "is_matrix_consistent s"
  shows "mg_buffer s ! 1 = SPI_SLAVE_MSG_START \<Longrightarrow> \<exists>t. mega_takes s [SPI_SLAVE_FINISH] t \<and> mega_done (mega_apply Mega_start (mega_abs s)) t"
    "mg_buffer s ! 1 = SPI_SLAVE_MSG_STOP \<Longrightarrow> \<exists>t. mega_takes s [SPI_SLAVE_FINISH] t \<and> mega_done (mega_apply Mega_stop (mega_abs s)) t"
    "mg_buffer s ! 1 = SPI_SLAVE_MSG_HANDSHAKE \<Longrightarrow> \<exists>t. mega_takes s [SPI_SLAVE_FINISH] t \<and> mega_done (mega_apply Mega_handshake (mega_abs s)) t"
proof -
  let ?h = "(mega_heard s)\<lparr>mg_buffer_size := 3\<rparr>"
  note call = mega_read_calls [OF assms(1), of SPI_SLAVE_FINISH]
  have len: "length (mg_buffer s) = 31" "length (mg_matrix s) = 600" "mg_buffer_size s = 2"
    using assms(1) by (simp_all add: mega_reads_def)
  have fin: "mega_done (mega_abs (mega_chip f ?h)) (mega_read_complete SPI_STATUS_OK (mega_chip f ?h))"
    "mega_done (mega_abs ?h) (mega_read_complete SPI_STATUS_OK ?h)" for f
    using len assms(2) by (intro mega_complete_done; simp add: is_matrix_consistent_def)+
  have abs: "mega_abs (mega_chip f ?h) = (mega_abs s)\<lparr>mv_chip := f (mg_chip s)\<rparr>" "mega_abs ?h = mega_abs s" for f
    by (simp_all add: mega_abs_def)
  show "\<exists>t. mega_takes s [SPI_SLAVE_FINISH] t \<and> mega_done (mega_apply Mega_start (mega_abs s)) t"
    if "mg_buffer s ! 1 = SPI_SLAVE_MSG_START"
    using call(1) [OF _ _ that] fin(1) [of ht1632c_start] len
    by (intro exI [of _ "mega_read_start SPI_SLAVE_FINISH (mega_heard s)"])
      (simp add: mega_read_start_def Let_def mega_finish_ok abs, simp add: mega_abs_def)
  show "\<exists>t. mega_takes s [SPI_SLAVE_FINISH] t \<and> mega_done (mega_apply Mega_stop (mega_abs s)) t"
    if "mg_buffer s ! 1 = SPI_SLAVE_MSG_STOP"
    using call(2) [OF _ _ that] fin(1) [of ht1632c_stop] len
    by (intro exI [of _ "mega_read_stop SPI_SLAVE_FINISH (mega_heard s)"])
      (simp add: mega_read_stop_def Let_def mega_finish_ok abs, simp add: mega_abs_def)
  show "\<exists>t. mega_takes s [SPI_SLAVE_FINISH] t \<and> mega_done (mega_apply Mega_handshake (mega_abs s)) t"
    if "mg_buffer s ! 1 = SPI_SLAVE_MSG_HANDSHAKE"
    using call(3) [OF _ _ that] fin(2) len
    by (intro exI [of _ "mega_read_handshake SPI_SLAVE_FINISH (mega_heard s)"])
      (simp add: mega_read_handshake_def Let_def mega_finish_ok abs)
qed


text \<open>Messages with data.\<close>

lemma mega_delay_body:
  assumes "mega_reads 2 s" "is_matrix_consistent s" "mg_buffer s ! 1 = SPI_SLAVE_MSG_DELAY"
  shows "\<exists>t. mega_takes s [i, x, SPI_SLAVE_FINISH] t \<and> mega_done (mega_apply (Mega_delay x) (mega_abs s)) t"
proof -
  define s1 where "s1 = (mega_heard s)\<lparr>mg_buffer_size := 3\<rparr>"
  define s2 where "s2 = (mega_heard s1)\<lparr>mg_buffer_size := 4, mg_delay := x\<rparr>"
  define s3 where "s3 = (mega_heard s2)\<lparr>mg_buffer_size := 5\<rparr>"
  have r: "mega_reads 3 s1" "mega_reads 4 s2" "length (mg_buffer s3) = 31" "length (mg_matrix s3) = 600" "mg_buffer_size s = 2"
    using assms(1) by (simp_all add: mega_reads_def s1_def s2_def s3_def)
  have id: "mg_buffer s1 ! 1 = SPI_SLAVE_MSG_DELAY" "mg_buffer s2 ! 1 = SPI_SLAVE_MSG_DELAY"
    using assms(3) by (simp_all add: s1_def s2_def)
  have "mega_takes s [i] s1"
    using mega_read_calls(5) [OF assms(1) _ _ assms(3), of i] r by (simp add: mega_read_delay_def Let_def s1_def)
  moreover have "mega_takes s1 [x] s2"
    using mega_read_calls(5) [OF r(1) _ _ id(1), of x] by (simp add: mega_read_delay_def Let_def s1_def s2_def)
  moreover have "mega_takes s2 [SPI_SLAVE_FINISH] (mega_read_complete SPI_STATUS_OK s3)"
    using mega_read_calls(5) [OF r(2) _ _ id(2), of SPI_SLAVE_FINISH]
    by (simp add: mega_read_delay_def Let_def s2_def s3_def mega_finish_ok)
  moreover have "is_matrix_consistent s3" using assms(2) by (simp add: is_matrix_consistent_def s1_def s2_def s3_def)
  from mega_complete_done [OF r(3,4) this]
  have "mega_done (mega_apply (Mega_delay x) (mega_abs s)) (mega_read_complete SPI_STATUS_OK s3)"
    by (simp add: mega_abs_def s1_def s2_def s3_def)
  ultimately show ?thesis using mega_takes_Cons by blast
qed

lemma mega_brightness_body:
  assumes "mega_reads 2 s" "is_matrix_consistent s" "mg_buffer s ! 1 = SPI_SLAVE_MSG_BRIGHTNESS" "x \<le> 15"
  shows "\<exists>t. mega_takes s [x, SPI_SLAVE_FINISH] t \<and> mega_done (mega_apply (Mega_brightness x) (mega_abs s)) t"
proof -
  define s1 where "s1 = (mega_heard s)\<lparr>mg_buffer_size := 3, mg_buffer := (mg_buffer s)[2 := x]\<rparr>"
  define s2 where "s2 = mega_chip (ht1632c_brightness x) ((mega_heard s1)\<lparr>mg_buffer_size := 4\<rparr>)"
  have r: "mega_reads 3 s1" "length (mg_buffer s2) = 31" "length (mg_matrix s2) = 600" "mg_buffer_size s = 2"
    "mg_buffer s1 ! 2 = x"
    using assms(1) by (simp_all add: mega_reads_def s1_def s2_def)
  have id: "mg_buffer s1 ! 1 = SPI_SLAVE_MSG_BRIGHTNESS" using assms(3) by (simp add: s1_def)
  have range: "\<not> x < SPI_BRIGHTNESS_MIN" "\<not> SPI_BRIGHTNESS_MAX < x"
    using assms(4) by (simp_all add: spi_message_ids u8_less_iff u8_le_iff)
  have "mega_takes s [x] s1"
    using mega_read_calls(6) [OF assms(1) _ _ assms(3), of x] r by (simp add: mega_read_brightness_def Let_def s1_def)
  moreover have "mg_buffer_size s1 = 3" by (simp add: s1_def)
  then have "mega_takes s1 [SPI_SLAVE_FINISH] (mega_read_complete SPI_STATUS_OK s2)"
    using mega_read_calls(6) [OF r(1) _ _ id, of SPI_SLAVE_FINISH] range r(5)
    by (simp add: mega_read_brightness_def Let_def s2_def mega_finish_ok)
  moreover have "is_matrix_consistent s2" using assms(2) by (simp add: is_matrix_consistent_def s1_def s2_def)
  from mega_complete_done [OF r(2,3) this]
  have "mega_done (mega_apply (Mega_brightness x) (mega_abs s)) (mega_read_complete SPI_STATUS_OK s2)"
    by (simp add: mega_abs_def s1_def s2_def)
  ultimately show ?thesis using mega_takes_Cons by blast
qed

lemma mega_relay_body:
  assumes "mega_reads 2 s" "is_matrix_consistent s" "mg_buffer s ! 1 = SPI_SLAVE_MSG_SWITCH_RELAY"
  shows "\<exists>t. mega_takes s [x, SPI_SLAVE_FINISH] t \<and> mega_done (mega_apply (Mega_relay x) (mega_abs s)) t"
proof -
  define s1 where "s1 = (mega_heard s)\<lparr>mg_buffer_size := 3, mg_buffer := (mg_buffer s)[2 := x]\<rparr>"
  define s2 where "s2 = mega_switch_relay x ((mega_heard s1)\<lparr>mg_buffer_size := 4\<rparr>)"
  have r: "mega_reads 3 s1" "length (mg_buffer s2) = 31" "length (mg_matrix s2) = 600" "mg_buffer_size s = 2"
    "mg_buffer s1 ! 2 = x" "mg_buffer_size s1 = 3"
    using assms(1) by (simp_all add: mega_reads_def s1_def s2_def mega_switch_relay_def)
  have id: "mg_buffer s1 ! 1 = SPI_SLAVE_MSG_SWITCH_RELAY" using assms(3) by (simp add: s1_def)
  have takes: "mega_takes s [x] s1" "mega_takes s1 [SPI_SLAVE_FINISH] (mega_read_complete SPI_STATUS_OK s2)"
    using mega_read_calls(7) [OF assms(1) _ _ assms(3), of x] mega_read_calls(7) [OF r(1) _ _ id, of SPI_SLAVE_FINISH] r(4-6)
    by (simp_all add: mega_read_switch_relay_def Let_def s1_def s2_def mega_finish_ok)
  have "is_matrix_consistent s2"
    using assms(2) by (simp add: is_matrix_consistent_def s1_def s2_def mega_switch_relay_def)
  moreover have "mega_abs s2 = mega_apply (Mega_relay x) (mega_abs s)"
    by (simp add: mega_abs_def s1_def s2_def mega_switch_relay_def bit_simps)
  ultimately have "mega_done (mega_apply (Mega_relay x) (mega_abs s)) (mega_read_complete SPI_STATUS_OK s2)"
    using mega_complete_done [OF r(2,3)] by simp
  with takes show ?thesis using mega_takes_Cons by blast
qed


text \<open>In the middle of a matrix: so many of its columns are in place.\<close>

definition mega_fills :: "nat \<Rightarrow> bytes \<Rightarrow> mega \<Rightarrow> bool" where
  "mega_fills n cs s \<longleftrightarrow> mega_reads 5 s \<and> mg_buffer s ! 1 = SPI_SLAVE_MSG_MATRIX \<and> bit (mg_flag s) 2 \<and> \<not> bit (mg_flag s) 3
     \<and> mg_matrix_size s = of_nat n \<and> mg_index s = of_nat (length cs) \<and> length cs \<le> n \<and> n \<le> 600
     \<and> take (length cs) (mg_matrix s) = cs"

definition mega_rest :: "mega \<Rightarrow> chip_port \<times> u8 \<times> bool" where
  "mega_rest s = (mg_chip s, mg_delay s, bit (mg_portd s) 0)"

lemma mega_mark:
  "length (mg_buffer s) = 31 \<Longrightarrow> mega_reads n s \<Longrightarrow>
   mega_reads n (s\<lparr>mg_flag := (mg_flag s OR TRANSFER_MATRIX_STARTED) AND NOT TRANSFER_MATRIX_RENDERED\<rparr>)"
  by (simp add: mega_reads_def flag_bits)

lemma mega_matrix_head:
  assumes "mega_reads 2 s" "mg_buffer s ! 1 = SPI_SLAVE_MSG_MATRIX" "n \<le> 600"
  shows "\<exists>t. mega_takes s [of_nat (n mod 255), of_nat (n div 255), x] t \<and> mega_fills n [] t \<and> mega_rest t = mega_rest s"
proof -
  define mark where "mark = (\<lambda>f. (f OR TRANSFER_MATRIX_STARTED) AND NOT TRANSFER_MATRIX_RENDERED)"
  define s1 where "s1 = (mega_heard s)\<lparr>mg_flag := mark (mg_flag s), mg_matrix_size := ucast (of_nat (n mod 255) :: u8), mg_buffer_size := 3\<rparr>"
  define s2 where "s2 = (mega_heard s1)\<lparr>mg_flag := mark (mg_flag s1),
      mg_matrix_size := mg_matrix_size s1 + 255 * ucast (of_nat (n div 255) :: u8), mg_buffer_size := 4\<rparr>"
  define s3 where "s3 = (mega_heard s2)\<lparr>mg_flag := mark (mg_flag s2), mg_index := 0, mg_buffer_size := 5\<rparr>"
  have r: "mega_reads 3 s1" "mega_reads 4 s2" "mega_reads 5 s3" "mg_buffer_size s = 2"
    using assms(1) by (simp_all add: mega_reads_def s1_def s2_def s3_def mark_def flag_bits)
  have id: "mg_buffer s1 ! 1 = SPI_SLAVE_MSG_MATRIX" "mg_buffer s2 ! 1 = SPI_SLAVE_MSG_MATRIX"
    using assms(2) by (simp_all add: s1_def s2_def)
  have "mega_takes s [of_nat (n mod 255)] s1"
    by (rule mega_read_calls(4) [OF assms(1) _ _ assms(2)]) (simp_all add: mega_read_matrix_def Let_def s1_def mark_def r)
  moreover have "mega_takes s1 [of_nat (n div 255)] s2"
    by (rule mega_read_calls(4) [OF r(1) _ _ id(1)]) (simp_all add: mega_read_matrix_def Let_def s1_def s2_def mark_def)
  moreover have "mega_takes s2 [x] s3"
    by (rule mega_read_calls(4) [OF r(2) _ _ id(2)]) (simp_all add: mega_read_matrix_def Let_def s2_def s3_def mark_def)
  moreover have "mg_matrix_size s3 = of_nat n"
  proof -
    have "n mod 255 < 256" "n div 255 < 256" using assms(3) mod_less_divisor [of 255 n] by auto
    then have "unat (of_nat (n mod 255) :: u8) = n mod 255" "unat (of_nat (n div 255) :: u8) = n div 255"
      by (simp_all only: unat_of_nat_u8)
    then have "ucast (of_nat (n mod 255) :: u8) = (of_nat (n mod 255) :: u16)" "ucast (of_nat (n div 255) :: u8) = (of_nat (n div 255) :: u16)"
      by (metis of_nat_unat)+
    then have "mg_matrix_size s3 = of_nat (n mod 255) + 255 * of_nat (n div 255)" by (simp add: s1_def s2_def s3_def)
    also have "\<dots> = of_nat (n mod 255 + 255 * (n div 255))" by (simp only: of_nat_add of_nat_mult of_nat_numeral)
    finally show ?thesis by simp
  qed
  then have "mega_fills n [] s3"
    using r assms(2,3) by (simp add: mega_fills_def s3_def s2_def s1_def mark_def flag_bits)
  moreover have "mega_rest s3 = mega_rest s" by (simp add: mega_rest_def s1_def s2_def s3_def)
  ultimately show ?thesis using mega_takes_Cons by meson
qed

lemma u16_index:
  assumes "i \<le> 601" "n \<le> 600"
  shows "(of_nat i :: u16) < of_nat n \<longleftrightarrow> i < n" "(of_nat i :: u16) = of_nat n \<longleftrightarrow> i = n" "unat (of_nat i :: u16) = i"
proof -
  have nats: "unat (of_nat i :: u16) = i" "unat (of_nat n :: u16) = n" using assms by (simp_all add: unat_of_nat)
  show "(of_nat i :: u16) < of_nat n \<longleftrightarrow> i < n" "unat (of_nat i :: u16) = i" using nats by (simp_all add: word_less_nat_alt)
  show "(of_nat i :: u16) = of_nat n \<longleftrightarrow> i = n" using nats by metis
qed

lemma mega_matrix_column:
  assumes "mega_fills n cs s" "length cs < n"
  shows "\<exists>t. mega_takes s [c] t \<and> mega_fills n (cs @ [c]) t \<and> mega_rest t = mega_rest s"
proof -
  let ?flag = "(mg_flag s OR TRANSFER_MATRIX_STARTED) AND NOT TRANSFER_MATRIX_RENDERED"
  define t where "t = (mega_heard s)\<lparr>mg_flag := ?flag, mg_matrix := (mg_matrix s)[length cs := c], mg_index := mg_index s + 1\<rparr>"
  have s: "mega_reads 5 s" "mg_buffer s ! 1 = SPI_SLAVE_MSG_MATRIX" "mg_buffer_size s = 5" "length (mg_matrix s) = 600"
    "mg_index s = of_nat (length cs)" "mg_matrix_size s = of_nat n" "n \<le> 600" "take (length cs) (mg_matrix s) = cs"
    using assms(1) by (simp_all add: mega_fills_def mega_reads_def)
  note u16 = u16_index [of "length cs" n, OF _ s(7)]
  have "mega_read_matrix c (mega_heard s) = Some t"
    using s(3-7) u16 assms(2) by (simp add: mega_read_matrix_def Let_def t_def)
  from mega_read_calls(4) [OF s(1) _ _ s(2) this] have "mega_takes s [c] t" by simp
  moreover have "mega_fills n (cs @ [c]) t"
    using assms s by (simp add: mega_fills_def t_def mega_reads_def flag_bits take_Suc_conv_app_nth)
  moreover have "mega_rest t = mega_rest s" by (simp add: mega_rest_def t_def)
  ultimately show ?thesis by blast
qed

lemma mega_matrix_columns:
  assumes "mega_fills n cs s" "length cs + length ds \<le> n"
  shows "\<exists>t. mega_takes s ds t \<and> mega_fills n (cs @ ds) t \<and> mega_rest t = mega_rest s"
  using assms
proof (induction ds arbitrary: cs s)
  case Nil
  then show ?case by (simp add: mega_takes_def)
next
  case (Cons d ds)
  from mega_matrix_column [OF Cons.prems(1), of d] Cons.prems(2) obtain t where
    t: "mega_takes s [d] t" "mega_fills n (cs @ [d]) t" "mega_rest t = mega_rest s" by auto
  from Cons.IH [OF t(2)] Cons.prems(2) obtain u where
    "mega_takes t ds u" "mega_fills n (cs @ d # ds) u" "mega_rest u = mega_rest t" by auto
  with t(3) mega_takes_Cons [OF t(1)] show ?case by auto
qed


lemma mega_matrix_body:
  assumes "mega_reads 2 s" "mg_buffer s ! 1 = SPI_SLAVE_MSG_MATRIX" "length columns \<le> 600"
  shows "\<exists>t. mega_takes s (tl (mega_body (Mega_matrix columns)) @ [SPI_SLAVE_FINISH]) t
    \<and> mega_done (mega_apply (Mega_matrix columns) (mega_abs s)) t"
proof -
  let ?n = "length columns"
  from mega_matrix_head [OF assms, of SPI_MATRIX_ARRAY_START] obtain t where
    t: "mega_takes s [of_nat (?n mod 255), of_nat (?n div 255), SPI_MATRIX_ARRAY_START] t" "mega_fills ?n [] t"
    "mega_rest t = mega_rest s" by blast
  from mega_matrix_columns [OF t(2), of columns] obtain u where
    u: "mega_takes t columns u" "mega_fills ?n columns u" "mega_rest u = mega_rest t" by auto
  define mark where "mark = (\<lambda>f. (f OR TRANSFER_MATRIX_STARTED) AND NOT TRANSFER_MATRIX_RENDERED)"
  have uf: "mega_reads 5 u" "mg_buffer u ! 1 = SPI_SLAVE_MSG_MATRIX" "mg_buffer_size u = 5" "length (mg_matrix u) = 600"
    "length (mg_buffer u) = 31" "mg_index u = of_nat ?n" "mg_matrix_size u = of_nat ?n" "take ?n (mg_matrix u) = columns"
    "\<not> bit (mg_flag u) 0" "bit (mg_flag u) 1"
    using u(2) by (simp_all add: mega_fills_def mega_reads_def)
  define v where "v = (mega_heard u)\<lparr>mg_flag := mark (mg_flag u), mg_index := mg_index u + 1\<rparr>"
  have "mega_read_matrix SPI_MATRIX_ARRAY_FINISH (mega_heard u) = Some v"
    using uf by (simp add: mega_read_matrix_def Let_def v_def mark_def)
  from mega_read_calls(4) [OF uf(1) _ _ uf(2) this] have uv: "mega_takes u [SPI_MATRIX_ARRAY_FINISH] v" by simp
  have v: "mega_reads 5 v" "mg_buffer v ! 1 = SPI_SLAVE_MSG_MATRIX"
    using uf by (simp_all add: v_def mega_reads_def mark_def flag_bits)
  define w where "w = (mega_heard v)\<lparr>mg_flag := mark (mg_flag v)\<rparr>"
  define c where "c = mega_read_complete SPI_STATUS_OK w"
  define z where "z = c\<lparr>mg_flag := mg_flag c AND NOT TRANSFER_MATRIX_STARTED\<rparr>"
  have index: "mg_index v = of_nat (Suc ?n)" "mg_matrix_size v = of_nat ?n" "mg_buffer_size v = 5"
    using uf by (simp_all add: v_def)
  have "\<not> (of_nat (Suc ?n) :: u16) < of_nat ?n" "(of_nat (Suc ?n) :: u16) \<noteq> of_nat ?n"
    using u16_index(1,2) [of "Suc ?n" ?n] assms(3) by auto
  then have "mega_read_matrix SPI_SLAVE_FINISH (mega_heard v) = Some z"
    using index by (simp add: mega_read_matrix_def Let_def z_def c_def w_def mark_def mega_finish_ok)
  from mega_read_calls(4) [OF v(1) _ _ v(2) this] have vz: "mega_takes v [SPI_SLAVE_FINISH] z" by simp
  have "mega_answers SPI_STATUS_OK c" "mega_same w c"
    using uf by (auto simp: c_def w_def v_def intro!: mega_complete_answers)
  then have "mega_answers SPI_STATUS_OK z" "is_matrix_consistent z" "\<not> bit (mg_flag z) 3"
    "mg_matrix z = mg_matrix u" "mg_matrix_size z = of_nat ?n" "mega_rest z = mega_rest u"
    using uf by (simp_all add: z_def mega_answers_def is_matrix_consistent_def flag_tests flag_bits mega_same_def w_def v_def
        mark_def mega_rest_def)
  moreover have "unat (of_nat ?n :: u16) = ?n" using assms(3) by (simp add: unat_of_nat)
  ultimately have "mega_done (mega_apply (Mega_matrix columns) (mega_abs s)) z"
    using uf t(3) u(3) by (simp_all add: mega_done_def mega_abs_def mega_rest_def)
  moreover have "mega_takes s (tl (mega_body (Mega_matrix columns)) @ [SPI_SLAVE_FINISH]) z"
    using mega_takes_append [OF t(1) mega_takes_append [OF u(1) mega_takes_append [OF uv vz]]] by simp
  ultimately show ?thesis by blast
qed

text \<open>Every message that the controller knows.\<close>

lemma mega_takes_message:
  assumes "mega_ready s" "mega_valid msg"
  shows "\<exists>t. mega_takes s (mega_frame msg) t \<and> mega_done (mega_apply msg (mega_abs s)) t"
proof -
  obtain i rest where body: "mega_body msg = i # rest" by (cases msg) auto
  from mega_header [of s i] assms(1) obtain t where
    t: "mega_takes s [SPI_SLAVE_START, i] t" "mega_reads 2 t" "mg_buffer t ! 1 = i" "mega_same s t"
    by (auto simp: mega_ready_def)
  have abs: "mega_abs t = mega_abs s" and cons: "is_matrix_consistent t"
    using t(4) mega_same_view mega_same_consistent assms(1) by (auto simp: mega_ready_def)
  note plain = mega_plain_body [OF t(2) cons]
  have "\<exists>u. mega_takes t (rest @ [SPI_SLAVE_FINISH]) u \<and> mega_done (mega_apply msg (mega_abs t)) u"
  proof (cases msg)
    case (Mega_matrix columns)
    then have "rest = tl (mega_body (Mega_matrix columns))" "mg_buffer t ! 1 = SPI_SLAVE_MSG_MATRIX" "length columns \<le> 600"
      using body t(3) assms(2) by auto
    with mega_matrix_body [OF t(2), of columns] Mega_matrix show ?thesis by blast
  next
    case (Mega_delay x)
    with mega_delay_body [OF t(2) cons] body t(3) show ?thesis by auto
  next
    case (Mega_brightness x)
    with mega_brightness_body [OF t(2) cons] body t(3) assms(2) show ?thesis by auto
  next
    case (Mega_relay x)
    with mega_relay_body [OF t(2) cons] body t(3) show ?thesis by auto
  qed (use plain body t(3) in auto)
  then obtain u where u: "mega_takes t (rest @ [SPI_SLAVE_FINISH]) u" "mega_done (mega_apply msg (mega_abs s)) u"
    unfolding abs by blast
  have "mega_frame msg = [SPI_SLAVE_START, i] @ rest @ [SPI_SLAVE_FINISH]" by (simp add: mega_frame_def body)
  with mega_takes_append [OF t(1) u(1)] u(2) show ?thesis by auto
qed

lemma mega_takes_answer:
  assumes "mega_ready s" "mega_valid msg" "SPI_SLAVE_START \<notin> set idle" "length idle = 15"
  shows "\<exists>outs answer t. mega_bus (mega_frame msg @ idle) s = Some (outs @ answer, t) \<and> length answer = 15
    \<and> take 3 answer = [SPI_MASTER_START, SPI_STATUS_OK, SPI_MASTER_FINISH]
    \<and> mega_ready t \<and> mega_abs t = mega_apply msg (mega_abs s)"
proof -
  from mega_takes_message [OF assms(1,2)] obtain outs u where
    u: "mega_bus (mega_frame msg) s = Some (outs, u)" "mega_done (mega_apply msg (mega_abs s)) u"
    by (auto simp: mega_takes_def)
  obtain a b c rest where idle: "idle = a # b # c # rest" "length rest = 12"
    using assms(4) by (auto simp: numeral_eq_Suc length_Suc_conv)
  have "SPI_SLAVE_START \<notin> set rest" using assms(3) idle by simp
  from mega_answer_read [OF _ this, of SPI_STATUS_OK u a b c] u(2) obtain more t where
    t: "mega_bus idle u = Some (SPI_MASTER_START # SPI_STATUS_OK # SPI_MASTER_FINISH # more, t)" "length more = 12"
    "mega_reads 0 t" "mega_same u t"
    unfolding idle(1) using idle(2) by (auto simp: mega_done_def)
  define answer where "answer = SPI_MASTER_START # SPI_STATUS_OK # SPI_MASTER_FINISH # more"
  have "mega_bus (mega_frame msg @ idle) s = Some (outs @ answer, t)"
    using t(1) u(1) by (simp add: mega_bus_append answer_def)
  moreover have "length answer = 15" "take 3 answer = [SPI_MASTER_START, SPI_STATUS_OK, SPI_MASTER_FINISH]"
    using t(2) by (simp_all add: answer_def)
  moreover have "mega_ready t" "mega_abs t = mega_apply msg (mega_abs s)"
    using t(3,4) u(2) mega_same_view mega_same_consistent by (auto simp: mega_ready_def mega_done_def)
  ultimately show ?thesis by blast
qed


section \<open>The master: \<open>spi-io.cpp\<close>\<close>

datatype io_exn = Open_failed | Close_failed | Not_opened | Write_failed | Read_failed | No_reply | Status_error string

record spi_io =
  io_fd :: int
  io_message :: bytes

definition io_new :: spi_io where
  "io_new = \<lparr>io_fd = -1, io_message = []\<rparr>"

definition io_start :: "int \<Rightarrow> spi_io \<Rightarrow> io_exn option \<times> spi_io" where
  "io_start opened io =
     (let io = io\<lparr>io_fd := opened\<rparr>
      in if io_fd io < 0 then (Some Open_failed, io) else (None, io))"

definition io_stop :: "int \<Rightarrow> spi_io \<Rightarrow> io_exn option \<times> spi_io" where
  "io_stop closed io =
     (if io_fd io < 0 then (None, io)
      else if closed \<noteq> 0 then (Some Close_failed, io)
      else (None, io\<lparr>io_fd := -1\<rparr>))"

definition io_message_start :: "spi_io \<Rightarrow> spi_io" where
  "io_message_start io = io\<lparr>io_message := [] @ [NOT SPI_SLAVE_START]\<rparr>"

definition io_message_add :: "u8 \<Rightarrow> spi_io \<Rightarrow> spi_io" where
  "io_message_add msg_body io = io\<lparr>io_message := io_message io @ [NOT msg_body]\<rparr>"

definition io_message_add_vector :: "bytes \<Rightarrow> spi_io \<Rightarrow> spi_io" where
  "io_message_add_vector msg_body io = fold io_message_add msg_body io"

definition io_message_finish :: "spi_io \<Rightarrow> bytes \<times> spi_io" where
  "io_message_finish io =
     (let io = io\<lparr>io_message := io_message io @ [NOT SPI_SLAVE_FINISH]\<rparr> in (io_message io, io))"

definition io_write :: "bytes \<Rightarrow> int \<Rightarrow> spi_io \<Rightarrow> io_exn option" where
  "io_write msg written io =
     (if io_fd io < 0 then Some Not_opened
      else if written \<noteq> int (length msg) then Some Write_failed else None)"

text \<open>The buffer that is read has fifteen bytes.\<close>

fun io_find_reply :: "bytes \<Rightarrow> u8 option" where
  "io_find_reply (a # b # c # rest) =
     (if a = SPI_MASTER_START \<and> c = SPI_MASTER_FINISH then Some b else io_find_reply (b # c # rest))"
| "io_find_reply _ = None"

definition io_read :: "int \<Rightarrow> bytes \<Rightarrow> spi_io \<Rightarrow> io_exn + u8" where
  "io_read got raw_msg io =
     (if io_fd io < 0 then Inl Not_opened
      else if got \<noteq> int (length raw_msg) then Inl Read_failed
      else case io_find_reply raw_msg of Some status \<Rightarrow> Inr status | None \<Rightarrow> Inl No_reply)"

section \<open>The master: \<open>spi.cpp\<close>\<close>

text \<open>What the kernel returns for a message: of \<open>write\<close>, of \<open>read\<close>, and what was read.\<close>

type_synonym spi_answer = "int \<times> int \<times> bytes"

definition spi_get_error_list :: "string list" where
  "spi_get_error_list = (replicate SPI_STATUS_MAX ''Unknown error'')
     [unat SPI_STATUS_OK := ''No-error'',
      unat SPI_STATUS_MESSAGE_ID_UNKNOWN := ''Message id is unknown'',
      unat SPI_STATUS_LONG_MESSAGE_ID_UNKNOWN := ''Long message id is unknown'',
      unat SPI_STATUS_PARSE_ERROR := ''Parse error'',
      unat SPI_STATUS_NO_ARRAY_START := ''There is no array start'',
      unat SPI_STATUS_NO_ARRAY_FINISH := ''There is no array finish'',
      unat SPI_STATUS_TOO_LONG_MATRIX := ''Matrix is too long'',
      unat SPI_STATUS_UNKNOWN_DELAY_ID := ''Delay id is unknown'',
      unat SPI_STATUS_BRIGHTNESS_OUT_OF_RANGE := ''Brightness is out of range'']"

definition spi_get_error :: "u8 \<Rightarrow> string" where
  "spi_get_error err_id =
     (if unat err_id \<ge> length spi_get_error_list then ''Unknown error during spi read''
      else spi_get_error_list ! unat err_id)"

definition spi_send :: "bytes \<Rightarrow> spi_answer \<Rightarrow> spi_io \<Rightarrow> io_exn option" where
  "spi_send msg answer io =
     (case answer of (written, got, raw_msg) \<Rightarrow>
        case io_write msg written io of
          Some e \<Rightarrow> Some e
        | None \<Rightarrow>
            (case io_read got raw_msg io of
               Inl e \<Rightarrow> Some e
             | Inr status \<Rightarrow> if status \<noteq> SPI_STATUS_OK then Some (Status_error (spi_get_error status)) else None))"

definition spi_status_send :: "bytes \<Rightarrow> spi_answer \<Rightarrow> spi_io \<Rightarrow> bool" where
  "spi_status_send msg answer io = (spi_send msg answer io = None)"

text \<open>Starting, adding the body and finishing.\<close>

definition spi_message :: "bytes \<Rightarrow> spi_io \<Rightarrow> bytes \<times> spi_io" where
  "spi_message body io = io_message_finish (io_message_add_vector body (io_message_start io))"

fun spi_requests :: "bytes list \<Rightarrow> (nat \<Rightarrow> spi_answer) \<Rightarrow> spi_io \<Rightarrow> io_exn option \<times> spi_io" where
  "spi_requests [] answers io = (None, io)"
| "spi_requests (body # bodies) answers io =
     (case spi_message body io of (msg, io) \<Rightarrow>
        case spi_send msg (answers 0) io of
          Some e \<Rightarrow> (Some e, io)
        | None \<Rightarrow> spi_requests bodies (answers \<circ> Suc) io)"

definition spi_start :: "int \<Rightarrow> (nat \<Rightarrow> spi_answer) \<Rightarrow> spi_io \<Rightarrow> bool \<times> spi_io" where
  "spi_start opened answers io =
     (case io_start opened io of
        (Some e, io) \<Rightarrow> (False, io)
      | (None, io) \<Rightarrow>
          (case spi_requests
             [[SPI_SLAVE_MSG_HANDSHAKE], [SPI_SLAVE_MSG_DELAY, SPI_DELAY_SCROLL_SHIFT, 30],
              [SPI_SLAVE_MSG_BRIGHTNESS, SPI_BRIGHTNESS_MAX], [SPI_SLAVE_MSG_START]] answers io of
             (e, io) \<Rightarrow> (e = None, io)))"

definition spi_stop :: "spi_answer \<Rightarrow> int \<Rightarrow> spi_io \<Rightarrow> spi_io" where
  "spi_stop answer closed io =
     (case spi_message [SPI_SLAVE_MSG_STOP] io of (msg, io) \<Rightarrow>
        case spi_send msg answer io of Some e \<Rightarrow> io | None \<Rightarrow> snd (io_stop closed io))"

definition spi_get_char :: "u8 \<Rightarrow> u8" where
  "spi_get_char column =
     fst (fold (\<lambda>i (res, m). (if bit column i then res OR m else res, push_bit 1 m)) [0..<8] (0, 1))"

definition spi_render :: "bytes \<Rightarrow> spi_answer \<Rightarrow> spi_io \<Rightarrow> bool \<times> spi_io" where
  "spi_render columns answer io =
     (if length columns > SPI_MATRIX_CAPACITY then (False, io)
      else
        let io = io_message_start io;
            io = io_message_add_vector
              [SPI_SLAVE_MSG_MATRIX, of_nat (length columns mod 255), of_nat (length columns div 255), SPI_MATRIX_ARRAY_START] io;
            io = fold (\<lambda>column. io_message_add (spi_get_char column)) columns io;
            io = io_message_add SPI_MATRIX_ARRAY_FINISH io
        in case io_message_finish io of (msg, io) \<Rightarrow> (spi_status_send msg answer io, io))"

definition spi_brightness :: "int \<Rightarrow> spi_answer \<Rightarrow> spi_io \<Rightarrow> bool \<times> spi_io" where
  "spi_brightness level answer io =
     (if level < int (unat SPI_BRIGHTNESS_MIN) \<or> level > int (unat SPI_BRIGHTNESS_MAX) then (False, io)
      else case spi_message [SPI_SLAVE_MSG_BRIGHTNESS, of_int level] io of
             (msg, io) \<Rightarrow> (spi_status_send msg answer io, io))"

definition spi_switch_relay :: "bool \<Rightarrow> spi_answer \<Rightarrow> spi_io \<Rightarrow> bool \<times> spi_io" where
  "spi_switch_relay on answer io =
     (let state = (if on then 1 else 0)
      in case spi_message [SPI_SLAVE_MSG_SWITCH_RELAY, state] io of
           (msg, io) \<Rightarrow> (spi_status_send msg answer io, io))"


section \<open>The two together\<close>

text \<open>
  The lines between the two invert what the master sends, not what it reads. While it reads, the master
  sends something: \<open>idle\<close>, as the controller sees it.
\<close>

definition spi_link :: "bytes \<Rightarrow> mega \<Rightarrow> bytes \<Rightarrow> (spi_answer \<times> mega) option" where
  "spi_link idle s msg =
     (case mega_bus (map NOT msg @ idle) s of
        None \<Rightarrow> None
      | Some (outs, t) \<Rightarrow> Some ((int (length msg), int (length idle), drop (length msg) outs), t))"

lemma mega_bus_length: "mega_bus bs s = Some (outs, t) \<Longrightarrow> length outs = length bs"
  by (induction bs arbitrary: s outs) (auto split: option.splits prod.splits)

lemma io_message_add_vector_eq:
  "io_message_add_vector bs io = io\<lparr>io_message := io_message io @ map NOT bs\<rparr>"
  unfolding io_message_add_vector_def
  by (induction bs arbitrary: io) (simp_all add: io_message_add_def)

definition spi_framed :: "mega_msg \<Rightarrow> spi_io \<Rightarrow> spi_io" where
  "spi_framed msg io = io\<lparr>io_message := map NOT (mega_frame msg)\<rparr>"

lemma spi_message_frame: "spi_message (mega_body msg) io = (map NOT (mega_frame msg), spi_framed msg io)"
  by (simp add: spi_message_def io_message_start_def io_message_add_vector_eq io_message_finish_def mega_frame_def
      spi_framed_def Let_def)

lemma spi_get_char_id: "spi_get_char column = column"
proof -
  have upto: "[0..<8] = [0, 1, 2, 3, 4, 5, 6, 7 :: nat]" by code_simp
  define m where "m = (\<lambda>i. push_bit i (1 :: u8))"
  have m: "push_bit 1 (m i) = m (Suc i)" "bit (m i) j \<longleftrightarrow> j = i \<and> i < 8" for i j
    unfolding m_def bit_push_bit_iff by (auto simp: bit_1_iff push_bit_push_bit simp del: push_bit_of_1)
  have "fold (\<lambda>i (res, m). (if bit column i then res OR m else res, push_bit 1 m)) [0..<n] (0, m 0)
      = (take_bit n column, m n)" for n
  proof (induction n)
    case (Suc n)
    have "(if bit column n then take_bit n column OR m n else take_bit n column) = take_bit (Suc n) column"
      by (rule bit_eqI) (auto simp: bit_or_iff bit_take_bit_iff m less_Suc_eq)
    then show ?case using Suc.IH by (simp only: upt_Suc_append fold_append fold_simps comp_def m(1) prod.case le0)
  qed simp
  from this [of 8] show ?thesis by (simp add: spi_get_char_def m_def take_bit_word_eq_self)
qed

lemma spi_render_frame:
  assumes "length columns \<le> 600"
  shows "spi_render columns answer io =
    (spi_status_send (map NOT (mega_frame (Mega_matrix columns))) answer (spi_framed (Mega_matrix columns) io),
     spi_framed (Mega_matrix columns) io)"
proof -
  have "fold (\<lambda>column. io_message_add (spi_get_char column)) columns i = io_message_add_vector columns i" for i
    by (simp add: spi_get_char_id io_message_add_vector_def)
  then show ?thesis
    using assms by (simp add: spi_render_def SPI_MATRIX_CAPACITY_def Let_def io_message_start_def io_message_add_vector_eq
        io_message_add_def io_message_finish_def mega_frame_def spi_framed_def)
qed

text \<open>A message over the wire: the controller does it, and the master is told so.\<close>

lemma spi_link_message:
  assumes "mega_ready s" "mega_valid msg" "SPI_SLAVE_START \<notin> set idle" "length idle = 15"
  shows "\<exists>answer t. spi_link idle s (map NOT (mega_frame msg)) = Some (answer, t)
    \<and> mega_ready t \<and> mega_abs t = mega_apply msg (mega_abs s)
    \<and> (\<forall>io. 0 \<le> io_fd io \<longrightarrow> spi_send (map NOT (mega_frame msg)) answer io = None)"
proof -
  from mega_takes_answer [OF assms] obtain outs answer t where
    run: "mega_bus (mega_frame msg @ idle) s = Some (outs @ answer, t)" "length answer = 15"
    and answer: "take 3 answer = [SPI_MASTER_START, SPI_STATUS_OK, SPI_MASTER_FINISH]"
    and t: "mega_ready t" "mega_abs t = mega_apply msg (mega_abs s)" by blast
  have len: "length outs = length (mega_frame msg)" using mega_bus_length [OF run(1)] run(2) assms(4) by simp
  obtain rest where "answer = SPI_MASTER_START # SPI_STATUS_OK # SPI_MASTER_FINISH # rest"
    using append_take_drop_id [of 3 answer, symmetric] unfolding answer by simp
  then have "io_find_reply answer = Some SPI_STATUS_OK" by simp
  moreover have "map NOT (map NOT (mega_frame msg)) = mega_frame msg" by (simp add: comp_def)
  then have "spi_link idle s (map NOT (mega_frame msg)) = Some ((int (length (mega_frame msg)), 15, answer), t)"
    using run(1) len assms(4) by (simp add: spi_link_def)
  ultimately show ?thesis
    using t run(2) by (intro exI conjI) (auto simp: spi_send_def io_write_def io_read_def)
qed


text \<open>One message after the other.\<close>

definition spi_bytes :: "mega_msg \<Rightarrow> bytes" where
  "spi_bytes msg = map NOT (mega_frame msg)"

fun spi_links :: "bytes \<Rightarrow> mega \<Rightarrow> bytes list \<Rightarrow> (spi_answer list \<times> mega) option" where
  "spi_links idle s [] = Some ([], s)"
| "spi_links idle s (msg # msgs) =
     (case spi_link idle s msg of
        None \<Rightarrow> None
      | Some (answer, t) \<Rightarrow>
          (case spi_links idle t msgs of None \<Rightarrow> None | Some (answers, u) \<Rightarrow> Some (answer # answers, u)))"

lemma spi_links_requests:
  assumes "mega_ready s" "list_all mega_valid msgs" "SPI_SLAVE_START \<notin> set idle" "length idle = 15" "0 \<le> io_fd io"
  shows "\<exists>answers t. spi_links idle s (map spi_bytes msgs) = Some (answers, t) \<and> mega_ready t
    \<and> mega_abs t = fold mega_apply msgs (mega_abs s) \<and> fst (spi_requests (map mega_body msgs) ((!) answers) io) = None"
  using assms
proof (induction msgs arbitrary: s io)
  case (Cons m ms)
  from spi_link_message [OF Cons.prems(1) _ Cons.prems(3,4), of m] Cons.prems(2) obtain answer t where
    t: "spi_link idle s (map NOT (mega_frame m)) = Some (answer, t)" "mega_ready t" "mega_abs t = mega_apply m (mega_abs s)"
    "\<And>io. 0 \<le> io_fd io \<Longrightarrow> spi_send (map NOT (mega_frame m)) answer io = None" by auto
  have fd: "0 \<le> io_fd (spi_framed m io)" using Cons.prems(5) by (simp add: spi_framed_def)
  have "list_all mega_valid ms" using Cons.prems(2) by simp
  from Cons.IH [OF t(2) this Cons.prems(3,4) fd] obtain answers u where
    u: "spi_links idle t (map spi_bytes ms) = Some (answers, u)" "mega_ready u"
    "mega_abs u = fold mega_apply ms (mega_abs t)" "fst (spi_requests (map mega_body ms) ((!) answers) (spi_framed m io)) = None"
    by blast
  have "(!) (answer # answers) \<circ> Suc = (!) answers" by auto
  then have "fst (spi_requests (map mega_body (m # ms)) ((!) (answer # answers)) io) = None"
    using t(4) [OF fd] u(4) by (simp add: spi_message_frame)
  moreover have "spi_links idle s (map spi_bytes (m # ms)) = Some (answer # answers, u)"
    using t(1) u(1) by (simp add: spi_bytes_def [of m])
  ultimately show ?case using t(3) u(2,3) by (intro exI [of _ "answer # answers"] exI [of _ u]) simp
qed simp

text \<open>
  The first display starts. When the device can be opened and the controller waits for a message,
  the four messages of the start are answered over the wire, the start succeeds, and the controller
  has set its pace, the brightness of the displays and has switched them on, in this order.
\<close>

theorem spi_starts:
  assumes "mega_ready s" "SPI_SLAVE_START \<notin> set idle" "length idle = 15" "0 \<le> fd"
  shows "\<exists>answers t. spi_links idle s (map spi_bytes
      [Mega_handshake, Mega_delay 30, Mega_brightness 15, Mega_start]) = Some (answers, t)
    \<and> fst (spi_start fd ((!) answers) io) \<and> mega_ready t \<and> mg_delay t = 30
    \<and> mg_chip t = ht1632c_start (ht1632c_brightness 15 (mg_chip s))"
proof -
  let ?msgs = "[Mega_handshake, Mega_delay 30, Mega_brightness 15, Mega_start]"
  from spi_links_requests [OF assms(1) _ assms(2,3), of ?msgs "io\<lparr>io_fd := fd\<rparr>"] assms(4) obtain answers t where
    t: "spi_links idle s (map spi_bytes ?msgs) = Some (answers, t)" "mega_ready t"
    "mega_abs t = fold mega_apply ?msgs (mega_abs s)"
    "fst (spi_requests (map mega_body ?msgs) ((!) answers) (io\<lparr>io_fd := fd\<rparr>)) = None" by auto
  have bodies: "map mega_body ?msgs = [[SPI_SLAVE_MSG_HANDSHAKE], [SPI_SLAVE_MSG_DELAY, SPI_DELAY_SCROLL_SHIFT, 30],
      [SPI_SLAVE_MSG_BRIGHTNESS, SPI_BRIGHTNESS_MAX], [SPI_SLAVE_MSG_START]]" by (simp add: SPI_BRIGHTNESS_MAX_def)
  have "fst (spi_start fd ((!) answers) io)"
    using t(4) assms(4) unfolding bodies by (simp add: spi_start_def io_start_def Let_def case_prod_beta)
  moreover have "mg_chip t = ht1632c_start (ht1632c_brightness 15 (mg_chip s))" "mg_delay t = 30"
    using t(3) by (simp_all add: mega_abs_def)
  ultimately show ?thesis using t(1,2) by blast
qed

lemma mega_ready_init: "mega_ready mega_sw_init"
  using mega_ok_init
  by (simp add: mega_ready_def mega_reads_def mega_ok_def mega_sw_init_def is_matrix_consistent_def flag_tests flag_bits)


lemma spi_starts_witness:
  "\<exists>answers. fst (spi_start 3 ((!) answers) io_new)"
proof -
  have "SPI_SLAVE_START \<notin> set (replicate 15 0)" by (simp add: SPI_SLAVE_START_def)
  from spi_starts [OF mega_ready_init this, of 3 io_new] show ?thesis by fastforce
qed

text \<open>
  A brightness that is out of range gets two answers, of which the second one counts: the status is
  \<open>OK\<close>, and the level that is set is that of the first answer's last byte.
\<close>

theorem brightness_range_ignored:
  assumes "mega_reads 3 s" "mg_buffer s ! 1 = SPI_SLAVE_MSG_BRIGHTNESS" "SPI_BRIGHTNESS_MAX < mg_buffer s ! 2"
  shows "\<exists>t. mega_takes s [SPI_SLAVE_FINISH] t \<and> mega_answers SPI_STATUS_OK t
    \<and> mg_chip t = ht1632c_brightness SPI_MASTER_FINISH (mg_chip s)"
proof -
  define u where "u = mega_read_complete SPI_STATUS_BRIGHTNESS_OUT_OF_RANGE ((mega_heard s)\<lparr>mg_buffer_size := 4\<rparr>)"
  have s: "mg_buffer_size s = 3" "length (mg_buffer s) = 31" "length (mg_matrix s) = 600"
    using assms(1) by (simp_all add: mega_reads_def)
  have u: "mg_buffer u ! 2 = SPI_MASTER_FINISH" "mg_chip u = mg_chip s" "length (mg_buffer u) = 31" "length (mg_matrix u) = 600"
    using s by (simp_all add: u_def mega_read_complete_def Let_def)
  define v where "v = mega_chip (ht1632c_brightness SPI_MASTER_FINISH) u"
  have "mega_takes s [SPI_SLAVE_FINISH] (mega_read_complete SPI_STATUS_OK v)"
    using mega_read_calls(6) [OF assms(1) _ _ assms(2), of SPI_SLAVE_FINISH] assms(3) s u(1)
    by (simp add: mega_read_brightness_def Let_def u_def [symmetric] v_def [symmetric] mega_finish_ok)
  moreover have "mega_answers SPI_STATUS_OK (mega_read_complete SPI_STATUS_OK v)" "mega_same v (mega_read_complete SPI_STATUS_OK v)"
    using u by (auto simp: v_def intro!: mega_complete_answers)
  ultimately show ?thesis using u(2) by (auto simp: mega_same_def v_def)
qed

end
