(* ===== verification/Old_Marquee.thy ===== *)
theory Old_Marquee
  imports Old_Hw
begin

text \<open>
  What the two matrices of the very first display show: the pictures that the main loop of
  \<open>Old_Mega\<close> writes, read out of the memory of the matrices, from the columns that the master sends.
\<close>

section \<open>The picture\<close>

definition chips_idle :: "chip_port \<Rightarrow> bool" where
  "chips_idle p \<longleftrightarrow> (\<exists>left right. chips_at p left right)"

definition left_columns :: "mega \<Rightarrow> u8 list" where
  "left_columns s = chip_columns (chip_transactions LEFT_MATRIX (mg_chip s))"

definition right_columns :: "mega \<Rightarrow> u8 list" where
  "right_columns s = chip_columns (chip_transactions RIGHT_MATRIX (mg_chip s))"

text \<open>Sixty-four columns, from left to right.\<close>

definition mega_picture :: "mega \<Rightarrow> u8 list" where
  "mega_picture s = left_columns s @ right_columns s"

lemma chips_at_transactions:
  "chips_at p left right \<Longrightarrow> chip_transactions LEFT_MATRIX p = left \<and> chip_transactions RIGHT_MATRIX p = right"
  by (simp add: chips_at_def chip_at_def chip_transactions_def)

lemma chip_columns_length [simp]: "length (chip_columns ts) = 32"
proof -
  have "length (fold chip_store ts cs) = length cs" for cs
    by (induction ts arbitrary: cs) (simp_all add: chip_store_def)
  then show ?thesis by (simp add: chip_columns_def)
qed

lemma chip_columns_append: "chip_columns (ts @ [bits]) = chip_store bits (chip_columns ts)"
  by (simp add: chip_columns_def)

lemma data_columns:
  fixes x y :: u8
  assumes "chips_idle (mg_chip s)" "i < 32"
  defines "t \<equiv> display_data (of_nat i) x y s"
  shows "chips_idle (mg_chip t)" "left_columns t = (left_columns s)[i := x]" "right_columns t = (right_columns s)[i := y]"
proof -
  obtain left right where at: "chips_at (mg_chip s) left right" using assms(1) by (auto simp: chips_idle_def)
  note data = chips_data [OF at, of "of_nat i" x y]
  have "unat (of_nat i AND 0x1F :: u8) = i"
  proof -
    have "(0x1F :: u8) = mask 5" by (simp add: mask_eq_exp_minus_1)
    then have "of_nat i AND 0x1F = take_bit 5 (of_nat i :: u8)" by (simp add: take_bit_eq_mask)
    then have "unat (of_nat i AND 0x1F :: u8) = take_bit 5 (unat (of_nat i :: u8))" by (simp add: unsigned_take_bit_eq)
    also have "unat (of_nat i :: u8) = i" using assms(2) by (intro unat_of_nat_u8) simp
    finally show ?thesis using assms(2) by (simp add: take_bit_nat_eq_self)
  qed
  then have store: "chip_store (data_bits (of_nat i) z) cs = cs[i := z]" for z cs by (simp add: chip_store_data)
  have t: "mg_chip t = ht1632c_data (of_nat i) x y (mg_chip s)" by (simp add: t_def display_data_def)
  show "chips_idle (mg_chip t)" using data unfolding t chips_idle_def by blast
  show "left_columns t = (left_columns s)[i := x]" "right_columns t = (right_columns s)[i := y]"
    unfolding left_columns_def right_columns_def t
    using chips_at_transactions [OF at] chips_at_transactions [OF data] by (simp_all add: chip_columns_append store)
qed

section \<open>The main loop\<close>

definition mega_loop :: "nat \<Rightarrow> mega_pc \<times> mega \<Rightarrow> mega_pc \<times> mega" where
  "mega_loop n = (\<lambda>(pc, s). mega_main pc s) ^^ n"

lemma mega_loop_simps:
  "mega_loop 0 c = c" "mega_loop (Suc n) (pc, s) = mega_loop n (mega_main pc s)"
  "mega_loop (m + n) c = mega_loop n (mega_loop m c)"
  "mega_loop (Suc n) c = (case mega_loop n c of (pc, s) \<Rightarrow> mega_main pc s)"
proof -
  show "mega_loop (m + n) c = mega_loop n (mega_loop m c)" by (simp add: mega_loop_def funpow_add add.commute [of m])
  show "mega_loop (Suc n) (pc, s) = mega_loop n (mega_main pc s)" by (simp add: mega_loop_def funpow_Suc_right del: funpow.simps)
qed (simp_all add: mega_loop_def)

text \<open>The matrix holds these columns, and no message is on its way.\<close>

definition mega_holds :: "u8 list \<Rightarrow> mega \<Rightarrow> bool" where
  "mega_holds cs s \<longleftrightarrow> is_matrix_consistent s \<and> mg_matrix_size s = of_nat (length cs) \<and> length cs \<le> 600
     \<and> take (length cs) (mg_matrix s) = cs \<and> chips_idle (mg_chip s)"

lemma mega_holds_column:
  assumes "mega_holds cs s" "i < 65536"
  shows "mega_get_column (of_nat i) s = (if i < length cs then cs ! i else 0)"
proof -
  have n: "unat (of_nat (length cs) :: u16) = length cs" "unat (of_nat i :: u16) = i"
    using assms by (simp_all add: mega_holds_def unat_of_nat)
  have "mg_matrix s ! i = cs ! i" if "i < length cs"
    using assms(1) that by (metis mega_holds_def nth_take)
  then show ?thesis
    using assms(1) n by (simp add: mega_get_column_def mega_holds_def word_le_nat_alt)
qed

lemma mega_holds_data:
  assumes "mega_holds cs s" "i < 32"
  shows "mega_holds cs (display_data (of_nat i) x y s)"
  using assms data_columns(1) [OF _ assms(2), of s x y]
  by (simp add: mega_holds_def) (simp add: display_data_def is_matrix_consistent_def)

text \<open>A picture is written column by column.\<close>

lemma update_take_drop:
  "i < length xs \<Longrightarrow> i < length ys \<Longrightarrow> (take i ys @ drop i xs)[i := ys ! i] = take (Suc i) ys @ drop (Suc i) xs"
  by (rule nth_equalityI) (auto simp: nth_list_update nth_append less_Suc_eq)


section \<open>Scrolling\<close>

text \<open>The columns between a display's width of empty ones, and the \<open>k\<close>-th picture of the scroll.\<close>

definition marquee_strip :: "u8 list \<Rightarrow> u8 list" where
  "marquee_strip cs = replicate 64 0 @ cs @ replicate 128 0"

definition marquee_picture :: "u8 list \<Rightarrow> nat \<Rightarrow> u8 list" where
  "marquee_picture cs k = take 64 (drop k (marquee_strip cs))"

lemma marquee_strip_nth:
  "i < 192 + length cs \<Longrightarrow> marquee_strip cs ! i = (if 64 \<le> i \<and> i - 64 < length cs then cs ! (i - 64) else 0)"
  by (auto simp: marquee_strip_def nth_append)

lemma scroll_column:
  assumes "mega_holds cs s" "k < 128 + length cs" "d < 32"
  shows "render_matrix_scroll (of_nat (128 + length cs)) (of_nat k) (of_nat d) s =
    (Mega_scroll (of_nat (128 + length cs)) (of_nat k) (of_nat (Suc d)),
     display_data (of_nat d) (marquee_strip cs ! (k + d)) (marquee_strip cs ! (k + d + 32)) s)"
proof -
  have n: "length cs \<le> 600" using assms(1) by (simp add: mega_holds_def)
  have u8: "unat (of_nat d :: u8) = d" using assms(3) by (intro unat_of_nat_u8) simp
  have less: "(of_nat k :: u16) < of_nat (128 + length cs)"
    using assms(2) n by (simp add: word_less_nat_alt unat_of_nat del: of_nat_add)
  have "of_nat (unat (of_nat d :: u8)) = (ucast (of_nat d :: u8) :: u16)" by (rule of_nat_unat)
  then have column: "of_nat k + ucast (of_nat d :: u8) = (of_nat (k + d) :: u16)" unfolding u8 by (simp only: of_nat_add)
  have at: "unat (of_nat (k + d) :: u16) = k + d" using assms n by (simp add: unat_of_nat del: of_nat_add)
  have left: "mega_get_column (if 64 \<le> k + d then of_nat (k + d) - of_nat 64 else of_nat 600) s = marquee_strip cs ! (k + d)"
  proof (cases "64 \<le> k + d")
    case True
    then have "(of_nat (k + d) - of_nat 64 :: u16) = of_nat (k + d - 64)" by (simp only: of_nat_diff)
    then show ?thesis using True assms n mega_holds_column [OF assms(1), of "k + d - 64"]
      by (simp only: if_True) (simp add: marquee_strip_nth)
  next
    case False
    then show ?thesis using assms n mega_holds_column [OF assms(1), of 600]
      by (simp only: if_False) (simp add: marquee_strip_nth)
  qed
  have right: "mega_get_column (if 64 \<le> k + d + 32 then of_nat (k + d) + of_nat 32 - of_nat 64 else of_nat 600) s
      = marquee_strip cs ! (k + d + 32)"
  proof (cases "64 \<le> k + d + 32")
    case True
    then have "(of_nat (k + d) + of_nat 32 - of_nat 64 :: u16) = of_nat (k + d + 32 - 64)"
      by (simp only: of_nat_diff of_nat_add)
    then show ?thesis using True assms n mega_holds_column [OF assms(1), of "k + d + 32 - 64"]
      by (simp only: if_True) (simp add: marquee_strip_nth)
  next
    case False
    then show ?thesis using assms n mega_holds_column [OF assms(1), of 600]
      by (simp only: if_False) (simp add: marquee_strip_nth)
  qed
  have half: "DISPLAY_HALF_CAPACITY = 32" "DISPLAY_CAPACITY = 64" "SPI_MATRIX_CAPACITY = 600"
    by (simp_all add: DISPLAY_HALF_CAPACITY_def DISPLAY_CAPACITY_def SPI_MATRIX_CAPACITY_def)
  have inc: "of_nat d + 1 = (of_nat (Suc d) :: u8)" by simp
  have "is_matrix_consistent s" using assms(1) by (simp add: mega_holds_def)
  then show ?thesis
    unfolding render_matrix_scroll_def Let_def column at u8 half left right inc using less assms(3)
    by (simp only: if_True not_True_eq_False if_False)
qed

text \<open>One picture, and then the pause that ends it.\<close>

lemma scroll_columns:
  assumes "mega_holds cs s" "k < 128 + length cs" "d \<le> 32"
  shows "\<exists>t. mega_loop d (Mega_scroll (of_nat (128 + length cs)) (of_nat k) 0, s)
      = (Mega_scroll (of_nat (128 + length cs)) (of_nat k) (of_nat d), t) \<and> mega_holds cs t
    \<and> left_columns t = take d (drop k (marquee_strip cs)) @ drop d (left_columns s)
    \<and> right_columns t = take d (drop (k + 32) (marquee_strip cs)) @ drop d (right_columns s)"
  using assms(3)
proof (induction d)
  case 0
  then show ?case using assms(1) by (simp add: mega_loop_simps)
next
  case (Suc d)
  then obtain t where t: "mega_loop d (Mega_scroll (of_nat (128 + length cs)) (of_nat k) 0, s)
      = (Mega_scroll (of_nat (128 + length cs)) (of_nat k) (of_nat d), t)" "mega_holds cs t"
    "left_columns t = take d (drop k (marquee_strip cs)) @ drop d (left_columns s)"
    "right_columns t = take d (drop (k + 32) (marquee_strip cs)) @ drop d (right_columns s)" by auto
  define u where "u = display_data (of_nat d) (marquee_strip cs ! (k + d)) (marquee_strip cs ! (k + d + 32)) t"
  have d: "d < 32" using Suc.prems by simp
  have idle: "chips_idle (mg_chip t)" using t(2) by (simp add: mega_holds_def)
  have len: "length (marquee_strip cs) = 192 + length cs" by (simp add: marquee_strip_def)
  have nths: "marquee_strip cs ! (k + d) = drop k (marquee_strip cs) ! d"
    "marquee_strip cs ! (k + d + 32) = drop (k + 32) (marquee_strip cs) ! d"
    using assms(2) d len by (simp_all add: ac_simps)
  have step: "mega_loop (Suc d) (Mega_scroll (of_nat (128 + length cs)) (of_nat k) 0, s)
      = (Mega_scroll (of_nat (128 + length cs)) (of_nat k) (of_nat (Suc d)), u)"
    unfolding mega_loop_simps(4) t(1) prod.case mega_main.simps u_def by (rule scroll_column [OF t(2) assms(2) d])
  have "left_columns u = take (Suc d) (drop k (marquee_strip cs)) @ drop (Suc d) (left_columns s)"
    unfolding u_def data_columns(2) [OF idle d] t(3) nths
    using d len assms(2) by (intro update_take_drop) (simp_all add: left_columns_def)
  moreover have "right_columns u = take (Suc d) (drop (k + 32) (marquee_strip cs)) @ drop (Suc d) (right_columns s)"
    unfolding u_def data_columns(3) [OF idle d] t(4) nths
    using d len assms(2) by (intro update_take_drop) (simp_all add: right_columns_def)
  moreover have "mega_holds cs u" unfolding u_def by (rule mega_holds_data [OF t(2) d])
  ultimately show ?case using step by blast
qed

lemma scroll_picture_written:
  assumes "mega_holds cs s" "k < 128 + length cs"
  shows "\<exists>t. mega_loop 32 (Mega_scroll (of_nat (128 + length cs)) (of_nat k) 0, s)
      = (Mega_scroll (of_nat (128 + length cs)) (of_nat k) 32, t) \<and> mega_holds cs t \<and> mega_picture t = marquee_picture cs k"
proof -
  from scroll_columns [OF assms, of 32] obtain t where
    t: "mega_loop 32 (Mega_scroll (of_nat (128 + length cs)) (of_nat k) 0, s)
      = (Mega_scroll (of_nat (128 + length cs)) (of_nat k) (of_nat 32), t)" "mega_holds cs t"
    "left_columns t = take 32 (drop k (marquee_strip cs)) @ drop 32 (left_columns s)"
    "right_columns t = take 32 (drop (k + 32) (marquee_strip cs)) @ drop 32 (right_columns s)" by auto
  have "mega_picture t = take 32 (drop k (marquee_strip cs)) @ take 32 (drop (k + 32) (marquee_strip cs))"
    unfolding mega_picture_def t(3,4) by (simp add: left_columns_def right_columns_def)
  also have "\<dots> = marquee_picture cs k"
    using take_add [of 32 32 "drop k (marquee_strip cs)"] by (simp add: marquee_picture_def add.commute)
  finally show ?thesis using t(1,2) by auto
qed

lemma scroll_pause:
  assumes "k < 128 + length cs" "length cs \<le> 600"
  shows "mega_main (Mega_scroll (of_nat (128 + length cs)) (of_nat k) 32) s = (Mega_scroll (of_nat (128 + length cs)) (of_nat (Suc k)) 0, s)"
proof -
  have "(of_nat k :: u16) < of_nat (128 + length cs)"
    using assms by (simp add: word_less_nat_alt unat_of_nat del: of_nat_add)
  then show ?thesis by (simp add: render_matrix_scroll_def DISPLAY_HALF_CAPACITY_def add.commute [of 1])
qed

lemma scroll_pictures:
  assumes "mega_holds cs s" "k \<le> 128 + length cs"
  shows "\<exists>t. mega_loop (33 * k) (Mega_scroll (of_nat (128 + length cs)) 0 0, s)
      = (Mega_scroll (of_nat (128 + length cs)) (of_nat k) 0, t) \<and> mega_holds cs t"
  using assms(2)
proof (induction k)
  case 0
  then show ?case using assms(1) by (simp add: mega_loop_simps)
next
  case (Suc k)
  then obtain t where t: "mega_loop (33 * k) (Mega_scroll (of_nat (128 + length cs)) 0 0, s)
      = (Mega_scroll (of_nat (128 + length cs)) (of_nat k) 0, t)" "mega_holds cs t" by auto
  have k: "k < 128 + length cs" using Suc.prems by simp
  from scroll_picture_written [OF t(2) k] obtain u where
    u: "mega_loop 32 (Mega_scroll (of_nat (128 + length cs)) (of_nat k) 0, t)
      = (Mega_scroll (of_nat (128 + length cs)) (of_nat k) 32, u)" "mega_holds cs u" by blast
  have n: "length cs \<le> 600" using t(2) by (simp add: mega_holds_def)
  have "33 * Suc k = (33 * k + 32) + 1" by simp
  then have "mega_loop (33 * Suc k) (Mega_scroll (of_nat (128 + length cs)) 0 0, s)
      = mega_loop 1 (Mega_scroll (of_nat (128 + length cs)) (of_nat k) 32, u)"
    by (simp only: mega_loop_simps(3) t(1) u(1))
  then show ?case using u(2) scroll_pause [OF k n] by (simp add: mega_loop_simps(1,2))
qed


section \<open>From the top of the main loop\<close>

lemma mega_holds_clear: "mega_holds cs s \<Longrightarrow> mega_holds cs (mega_clear s)"
proof -
  have "mega_holds cs (fold (\<lambda>i. display_data (of_nat i) 0 0) xs s)" if "mega_holds cs s" "set xs \<subseteq> {..<32}" for xs
    using that by (induction xs arbitrary: s) (simp_all add: mega_holds_data)
  moreover have "set [0..<32] \<subseteq> {..<32 :: nat}" by auto
  ultimately show "mega_holds cs s \<Longrightarrow> mega_holds cs (mega_clear s)"
    by (simp only: mega_clear_def DISPLAY_HALF_CAPACITY_def)
qed

lemma mega_main_top:
  assumes "mega_holds cs s"
  shows "64 < length cs \<Longrightarrow> mega_main Mega_main s = (Mega_scroll (of_nat (128 + length cs)) 0 0, mega_clear s)"
    and "length cs \<le> 64 \<Longrightarrow> \<not> bit (mg_flag s) 3 \<Longrightarrow> mega_main Mega_main s = (Mega_fixed 0, mega_clear s)"
proof -
  have "unat (mg_matrix_size s) = length cs" "is_matrix_consistent s" "mg_matrix_size s = of_nat (length cs)"
    using assms by (simp_all add: mega_holds_def unat_of_nat)
  then show "64 < length cs \<Longrightarrow> mega_main Mega_main s = (Mega_scroll (of_nat (128 + length cs)) 0 0, mega_clear s)"
    "length cs \<le> 64 \<Longrightarrow> \<not> bit (mg_flag s) 3 \<Longrightarrow> mega_main Mega_main s = (Mega_fixed 0, mega_clear s)"
    by (simp_all add: DISPLAY_CAPACITY_def DISPLAY_HALF_CAPACITY_def flag_tests)
qed

lemma long_shown:
  assumes "mega_holds cs s" "64 < length cs" "k < 128 + length cs"
  shows "mega_picture (snd (mega_loop (33 * k + 33) (Mega_main, s))) = marquee_picture cs k"
proof -
  from scroll_pictures [OF mega_holds_clear [OF assms(1)], of k] assms(3) obtain t where
    t: "mega_loop (33 * k) (Mega_scroll (of_nat (128 + length cs)) 0 0, mega_clear s)
      = (Mega_scroll (of_nat (128 + length cs)) (of_nat k) 0, t)" "mega_holds cs t" by auto
  from scroll_picture_written [OF t(2) assms(3)] obtain u where
    u: "mega_loop 32 (Mega_scroll (of_nat (128 + length cs)) (of_nat k) 0, t)
      = (Mega_scroll (of_nat (128 + length cs)) (of_nat k) 32, u)" "mega_picture u = marquee_picture cs k" by blast
  have "33 * k + 33 = Suc (33 * k + 32)" by simp
  then have "mega_loop (33 * k + 33) (Mega_main, s)
      = mega_loop 32 (mega_loop (33 * k) (mega_main Mega_main s))" by (simp only: mega_loop_simps(2,3))
  then show ?thesis using mega_main_top(1) [OF assms(1,2)] t(1) u by simp
qed

lemma fixed_columns:
  assumes "mega_holds cs s" "d \<le> 32" "length cs \<le> 64"
  shows "\<exists>t. mega_loop d (Mega_fixed 0, s) = (Mega_fixed (of_nat d), t) \<and> mega_holds cs t
    \<and> left_columns t = take d (cs @ replicate 64 0) @ drop d (left_columns s)
    \<and> right_columns t = take d (drop 32 (cs @ replicate 64 0)) @ drop d (right_columns s)"
  using assms(2)
proof (induction d)
  case 0
  then show ?case using assms(1) by (simp add: mega_loop_simps)
next
  case (Suc d)
  let ?cs = "cs @ replicate 64 0"
  from Suc obtain t where t: "mega_loop d (Mega_fixed 0, s) = (Mega_fixed (of_nat d), t)" "mega_holds cs t"
    "left_columns t = take d ?cs @ drop d (left_columns s)"
    "right_columns t = take d (drop 32 ?cs) @ drop d (right_columns s)" by auto
  have d: "d < 32" using Suc.prems by simp
  have idle: "chips_idle (mg_chip t)" "is_matrix_consistent t" using t(2) by (simp_all add: mega_holds_def)
  have u8: "unat (of_nat d :: u8) = d" using d by (intro unat_of_nat_u8) simp
  have "of_nat (unat (of_nat d :: u8)) = (ucast (of_nat d :: u8) :: u16)" by (rule of_nat_unat)
  then have cast: "ucast (of_nat d :: u8) = (of_nat d :: u16)" "of_nat d + of_nat 32 = (of_nat (d + 32) :: u16)"
    unfolding u8 by (simp_all only: of_nat_add)
  have padded: "?cs ! i = (if i < length cs then cs ! i else 0)" if "i < 64" for i
    using that by (simp add: nth_append)
  have "drop 32 ?cs ! d = ?cs ! (d + 32)" using d by (simp add: add.commute del: drop_append)
  then have columns: "mega_get_column (of_nat d) t = ?cs ! d" "mega_get_column (of_nat (d + 32)) t = drop 32 ?cs ! d"
    using mega_holds_column [OF t(2), of d] mega_holds_column [OF t(2), of "d + 32"] d padded [of d] padded [of "d + 32"]
    by simp_all
  define u where "u = display_data (of_nat d) (?cs ! d) (drop 32 ?cs ! d) t"
  have half: "DISPLAY_HALF_CAPACITY = 32" by (simp add: DISPLAY_HALF_CAPACITY_def)
  have inc: "of_nat d + 1 = (of_nat (Suc d) :: u8)" by simp
  have step: "mega_loop (Suc d) (Mega_fixed 0, s) = (Mega_fixed (of_nat (Suc d)), u)"
    unfolding mega_loop_simps(4) t(1) prod.case mega_main.simps render_matrix_fixed_def u8 half cast columns u_def inc
    using d idle(2) by (simp only: if_True not_True_eq_False if_False)
  have "left_columns u = take (Suc d) ?cs @ drop (Suc d) (left_columns s)"
    unfolding u_def data_columns(2) [OF idle(1) d] t(3)
    using d by (intro update_take_drop) (simp_all add: left_columns_def)
  moreover have "right_columns u = take (Suc d) (drop 32 ?cs) @ drop (Suc d) (right_columns s)"
    unfolding u_def data_columns(3) [OF idle(1) d] t(4)
    using d by (intro update_take_drop) (simp_all add: right_columns_def)
  moreover have "mega_holds cs u" unfolding u_def by (rule mega_holds_data [OF t(2) d])
  ultimately show ?case using step by blast
qed

lemma short_shown:
  assumes "mega_holds cs s" "length cs \<le> 64" "\<not> bit (mg_flag s) 3"
  shows "mega_picture (snd (mega_loop 33 (Mega_main, s))) = take 64 (cs @ replicate 64 0)"
proof -
  from fixed_columns [OF mega_holds_clear [OF assms(1)] _ assms(2), of 32] obtain t where
    t: "mega_loop 32 (Mega_fixed 0, mega_clear s) = (Mega_fixed (of_nat 32), t)"
    "left_columns t = take 32 (cs @ replicate 64 0) @ drop 32 (left_columns (mega_clear s))"
    "right_columns t = take 32 (drop 32 (cs @ replicate 64 0)) @ drop 32 (right_columns (mega_clear s))" by auto
  have "mega_picture t = take 32 (cs @ replicate 64 0) @ take 32 (drop 32 (cs @ replicate 64 0))"
    unfolding mega_picture_def t(2,3) by (simp add: left_columns_def right_columns_def)
  also have "\<dots> = take 64 (cs @ replicate 64 0)" using take_add [of 32 32 "cs @ replicate 64 0"] by simp
  finally have picture: "mega_picture t = take 64 (cs @ replicate 64 0)" .
  have "33 = Suc 32" by simp
  then have "mega_loop 33 (Mega_main, s) = mega_loop 32 (mega_main Mega_main s)" by (simp only: mega_loop_simps(2))
  then show ?thesis using mega_main_top(2) [OF assms] t(1) picture by simp
qed


section \<open>From the master to the displays\<close>

text \<open>Between two steps no matrix is in the middle of a transaction.\<close>

definition chip_ops :: "(chip_port \<Rightarrow> chip_port) set" where
  "chip_ops = {id, ht1632c_start, ht1632c_stop} \<union> range ht1632c_brightness"

lemma chips_idle_ops: "f \<in> chip_ops \<Longrightarrow> chips_idle p \<Longrightarrow> chips_idle (f p)"
  using chips_started chips_stopped chips_bright unfolding chips_idle_def chip_ops_def by fastforce

lemma mega_complete_chip [simp]: "mg_chip (mega_read_complete st s) = mg_chip s"
  by (simp add: mega_read_complete_def Let_def)

lemma mega_read_chip:
  assumes "mega_read b s = Some t"
  shows "\<exists>f \<in> chip_ops. mg_chip t = f (mg_chip s)"
proof -
  have "mega_read_matrix b s = Some t \<Longrightarrow> mg_chip t = mg_chip s"
    by (auto simp: mega_read_matrix_def Let_def split: if_splits)
  then have "mg_chip t \<in> {mg_chip s, ht1632c_start (mg_chip s), ht1632c_stop (mg_chip s)} \<union> (\<lambda>x. ht1632c_brightness x (mg_chip s)) ` UNIV"
    using assms by (auto simp: mega_read_def mega_read_start_def mega_read_stop_def mega_read_handshake_def
        mega_read_delay_def mega_read_brightness_def mega_read_switch_relay_def mega_switch_relay_def Let_def split: if_splits)
  then show ?thesis by (auto simp: chip_ops_def)
qed

lemma mega_stc_chip:
  assumes "mega_spi_stc b s = Some t"
  shows "\<exists>f \<in> chip_ops. mg_chip t = f (mg_chip s)"
proof -
  have id: "id \<in> chip_ops" by (simp add: chip_ops_def)
  show ?thesis
    using assms mega_read_chip [of b "(mega_toggle_led 1 s)\<lparr>mg_spdr := 0\<rparr>" t] id
    by (auto simp: mega_spi_stc_def Let_def mega_toggle_led_def mega_write_complete_def split: if_splits intro!: bexI [of _ id])
qed

lemma chips_idle_data: "chips_idle p \<Longrightarrow> chips_idle (ht1632c_data i x y p)"
  using chips_data unfolding chips_idle_def by blast

lemma mega_reach_idle: "mega_reach pc s \<Longrightarrow> chips_idle (mg_chip s)"
proof (induction rule: mega_reach.induct)
  case start
  have "display_ok LEFT_MATRIX" "display_ok RIGHT_MATRIX" by (rule matrices_ok)+
  then show ?case
    by (auto simp: chips_idle_def chips_at_def chip_at_def chip_saw_def mega_sw_init_def)
next
  case (step pc s pc' t)
  from step.hyps(2) show ?case
  proof (cases rule: mega_step.cases)
    case main
    have "chips_idle (fold (\<lambda>i. ht1632c_data (of_nat i) 0 0) xs p)" if "chips_idle p" for xs p
      using that by (induction xs arbitrary: p) (simp_all add: chips_idle_data)
    then have "chips_idle (mg_chip (snd (mega_main pc s)))"
      using step.IH by (cases pc) (simp_all add: mega_clear_chip render_matrix_fixed_def render_matrix_scroll_def
          display_data_def chips_idle_data Let_def)
    then show ?thesis using main by (metis snd_conv)
  next
    case (byte b)
    from mega_stc_chip [OF byte(2)] chips_idle_ops step.IH show ?thesis by auto
  qed
qed

lemma mega_bus_ok: "mega_ok s \<Longrightarrow> mega_bus bs s = Some (outs, t) \<Longrightarrow> mega_ok t"
proof (induction bs arbitrary: s outs)
  case (Cons b bs)
  then obtain u outs' where "mega_spi_stc b (s\<lparr>mg_spdr := b\<rparr>) = Some u" "mega_bus bs u = Some (outs', t)"
    by (auto split: option.splits)
  with Cons.IH mega_stc_ok(2) [OF Cons.prems(1)] show ?case by blast
qed simp

lemma columns_sent:
  assumes "mega_reach pc s" "mega_ready s" "length columns \<le> 600"
    "SPI_SLAVE_START \<notin> set idle" "length idle = 15" "0 \<le> io_fd io"
  shows "\<exists>answer t. spi_link idle s (map NOT (mega_frame (Mega_matrix columns))) = Some (answer, t)
    \<and> fst (spi_render columns answer io) \<and> mega_holds columns t \<and> \<not> bit (mg_flag t) 3"
proof -
  from spi_link_message [OF assms(2) _ assms(4,5), of "Mega_matrix columns"] assms(3) obtain answer t where
    t: "spi_link idle s (map NOT (mega_frame (Mega_matrix columns))) = Some (answer, t)" "mega_ready t"
    "mega_abs t = mega_apply (Mega_matrix columns) (mega_abs s)"
    "\<And>io. 0 \<le> io_fd io \<Longrightarrow> spi_send (map NOT (mega_frame (Mega_matrix columns))) answer io = None" by auto
  have "0 \<le> io_fd (spi_framed (Mega_matrix columns) io)" using assms(6) by (simp add: spi_framed_def)
  then have sent: "fst (spi_render columns answer io)" using t(4) by (simp add: spi_render_frame [OF assms(3)] spi_status_send_def)
  have idle: "chips_idle (mg_chip t)" "\<not> bit (mg_flag t) 3" and cs: "take (unat (mg_matrix_size t)) (mg_matrix t) = columns"
    using t(3) mega_reach_idle [OF assms(1)] by (simp_all add: mega_abs_def)
  from t(1) obtain outs where "mega_bus (map NOT (map NOT (mega_frame (Mega_matrix columns))) @ idle) s = Some (outs, t)"
    by (auto simp: spi_link_def split: option.splits)
  then have "mega_ok t" by (rule mega_bus_ok [OF mega_reach_ok [OF assms(1)]])
  then have "unat (mg_matrix_size t) \<le> 600" "length (mg_matrix t) = 600"
    using t(2) by (simp_all add: mega_ready_def is_matrix_consistent_def flag_tests mega_ok_def)
  then have "unat (mg_matrix_size t) = length columns" using cs by (metis length_take min.absorb2)
  moreover have "of_nat (unat (mg_matrix_size t)) = mg_matrix_size t" by simp
  ultimately have "mg_matrix_size t = of_nat (length columns)" "take (length columns) (mg_matrix t) = columns"
    using cs by simp_all
  then show ?thesis
    using t(1,2) sent idle assms(3) by (auto simp: mega_holds_def mega_ready_def)
qed

text \<open>
  C29: The first display end to end. When the master renders columns that fit, over the wire, while the
  controller waits for a message at the top of its main loop, rendering succeeds; up to the width of the two
  matrices the columns then stand at their left, and more columns roll through both matrices, picture by
  picture and without a gap, from the empty display in front of them to the empty one behind them.
\<close>

theorem columns_displayed:
  assumes "mega_reach Mega_main s" "mega_ready s" "length columns \<le> 600"
    "SPI_SLAVE_START \<notin> set idle" "length idle = 15" "0 \<le> io_fd io"
  shows "\<exists>answer t. spi_link idle s (map NOT (mega_frame (Mega_matrix columns))) = Some (answer, t)
    \<and> fst (spi_render columns answer io)
    \<and> (if length columns \<le> 64
       then mega_picture (snd (mega_loop 33 (Mega_main, t))) = take 64 (columns @ replicate 64 0)
       else \<forall>k < 128 + length columns.
         mega_picture (snd (mega_loop (33 * k + 33) (Mega_main, t))) = marquee_picture columns k)"
proof -
  from columns_sent [OF assms] obtain answer t where
    t: "spi_link idle s (map NOT (mega_frame (Mega_matrix columns))) = Some (answer, t)"
    "fst (spi_render columns answer io)" "mega_holds columns t" "\<not> bit (mg_flag t) 3" by blast
  have "if length columns \<le> 64
      then mega_picture (snd (mega_loop 33 (Mega_main, t))) = take 64 (columns @ replicate 64 0)
      else \<forall>k < 128 + length columns.
        mega_picture (snd (mega_loop (33 * k + 33) (Mega_main, t))) = marquee_picture columns k"
    using short_shown [OF t(3) _ t(4)] long_shown [OF t(3)] by simp
  then show ?thesis using t(1,2) by blast
qed

lemma columns_displayed_witness:
  "\<exists>answer t. fst (spi_render (replicate 70 9) answer (io_new\<lparr>io_fd := 3\<rparr>))
    \<and> mega_picture (snd (mega_loop (33 * 5 + 33) (Mega_main, t))) = marquee_picture (replicate 70 9) 5"
proof -
  have "SPI_SLAVE_START \<notin> set (replicate 15 0)" by (simp add: SPI_SLAVE_START_def)
  from columns_displayed [OF mega_reach.start mega_ready_init _ this, of "replicate 70 9" "io_new\<lparr>io_fd := 3\<rparr>"]
  obtain answer t where "fst (spi_render (replicate 70 9) answer (io_new\<lparr>io_fd := 3\<rparr>))"
    "\<And>k. k < 198 \<Longrightarrow> mega_picture (snd (mega_loop (33 * k + 33) (Mega_main, t))) = marquee_picture (replicate 70 9) k"
    by auto
  moreover from this(2) [of 5]
  have "mega_picture (snd (mega_loop (33 * 5 + 33) (Mega_main, t))) = marquee_picture (replicate 70 9) 5" by simp
  ultimately show ?thesis by blast
qed

end
