(* ===== verification/Old_Window.thy ===== *)
theory Old_Window
  imports Prelude
begin

text \<open>
  The driver for displays without a controller that the master of the very first display had
  (\<open>src/obsoleted/old/lib-obsolete/int/ledhw/src\<close>: \<open>window.cpp\<close> and \<open>ht1632c.cpp\<close>): a window that moves over a
  matrix, and the loop that draws only the columns that a move changes. Clearing the display is a stub
  in the code and changes nothing here; a column drawn is recorded with its position.
\<close>

section \<open>\<open>window.cpp\<close>\<close>

record matrix_window =
  win_position :: int
  win_matrix :: "u8 list"

definition window_new :: "u8 list \<Rightarrow> matrix_window" where
  "window_new m = \<lparr>win_position = 0, win_matrix = m\<rparr>"

definition window_new_at :: "u8 list \<Rightarrow> nat \<Rightarrow> matrix_window" where
  "window_new_at m start_position = \<lparr>win_position = - int start_position, win_matrix = m\<rparr>"

definition window_get_column :: "nat \<Rightarrow> matrix_window \<Rightarrow> u8" where
  "window_get_column position w =
     (let index = win_position w + int position
      in if index < 0 \<or> index \<ge> int (length (win_matrix w)) then 0 else win_matrix w ! nat index)"

definition window_left_shift :: "matrix_window \<Rightarrow> matrix_window" where
  "window_left_shift w = w\<lparr>win_position := win_position w + 1\<rparr>"

section \<open>\<open>ht1632c.cpp\<close>\<close>

text \<open>The columns drawn, in order, with their positions.\<close>

type_synonym drawing = "(u8 \<times> nat) list"

record driver =
  dr_go_ahead :: bool
  dr_buffer :: "u8 list"
  dr_matrix :: "u8 list"
  dr_drawn :: drawing

definition FIXED_LIMIT :: nat where "FIXED_LIMIT = 8"

definition driver_new :: driver where
  "driver_new = \<lparr>dr_go_ahead = True, dr_buffer = [], dr_matrix = [], dr_drawn = []\<rparr>"

definition driver_render :: "u8 list \<Rightarrow> driver \<Rightarrow> driver" where
  "driver_render m d = d\<lparr>dr_buffer := m\<rparr>"

definition driver_stop :: "driver \<Rightarrow> driver" where
  "driver_stop d = d\<lparr>dr_go_ahead := False\<rparr>"

definition driver_update :: "driver \<Rightarrow> driver" where
  "driver_update d = (if dr_buffer d = [] then d else d\<lparr>dr_matrix := dr_buffer d, dr_buffer := []\<rparr>)"

definition draw_fixed :: "u8 list \<Rightarrow> drawing" where
  "draw_fixed m = map (\<lambda>i. (window_get_column i (window_new m), i)) [0..<FIXED_LIMIT]"

text \<open>The columns of one turn of the scroll, and the loop over the turns.\<close>

definition draw_changes :: "matrix_window \<Rightarrow> matrix_window \<Rightarrow> drawing" where
  "draw_changes w prev =
     concat (map (\<lambda>j. if window_get_column j w \<noteq> window_get_column j prev then [(window_get_column j w, j)] else [])
       [0..<FIXED_LIMIT])"

fun draw_turns :: "nat \<Rightarrow> matrix_window \<Rightarrow> matrix_window \<Rightarrow> drawing list" where
  "draw_turns 0 w prev = []"
| "draw_turns (Suc n) w prev =
     (let w = window_left_shift w in draw_changes w prev # draw_turns n w (window_left_shift prev))"

definition draw_scroll :: "u8 list \<Rightarrow> drawing list" where
  "draw_scroll m =
     draw_turns (length m + 2 * FIXED_LIMIT) (window_new_at m FIXED_LIMIT) (window_new_at m FIXED_LIMIT)"

text \<open>A turn of the thread, up to its wait.\<close>

definition driver_load :: "driver \<Rightarrow> driver" where
  "driver_load d =
     (if \<not> dr_go_ahead d then d
      else
        let d = driver_update d
        in d\<lparr>dr_drawn := dr_drawn d @ (if length (dr_matrix d) > FIXED_LIMIT then concat (draw_scroll (dr_matrix d))
                                      else draw_fixed (dr_matrix d))\<rparr>)"

section \<open>Drawing only what changes\<close>

text \<open>The columns on the display, and what a window shows.\<close>

definition paint :: "drawing \<Rightarrow> u8 list \<Rightarrow> u8 list" where
  "paint ds shown = fold (\<lambda>(column, position) shown. shown[position := column]) ds shown"

definition window_view :: "matrix_window \<Rightarrow> u8 list" where
  "window_view w = map (\<lambda>j. window_get_column j w) [0..<FIXED_LIMIT]"

text \<open>The window over the columns as a strip with empty ones on both sides.\<close>

lemma window_view_strip:
  assumes "i \<le> length m + 16"
  shows "window_view \<lparr>win_position = int i - 8, win_matrix = m\<rparr> = take 8 (drop i (replicate 8 0 @ m @ replicate 16 0))"
proof (rule nth_equalityI)
  have len: "length (replicate 8 0 @ m @ replicate 16 0) = 24 + length m" by simp
  show "length (window_view \<lparr>win_position = int i - 8, win_matrix = m\<rparr>) = length (take 8 (drop i (replicate 8 0 @ m @ replicate 16 0)))"
    using assms len by (simp only: window_view_def FIXED_LIMIT_def length_map length_upt length_take length_drop)
  fix j assume "j < length (window_view \<lparr>win_position = int i - 8, win_matrix = m\<rparr>)"
  then have j: "j < 8" by (simp add: window_view_def FIXED_LIMIT_def)
  have "take 8 (drop i (replicate 8 0 @ m @ replicate 16 0)) ! j = (replicate 8 0 @ m @ replicate 16 0) ! (i + j)"
    using nth_drop [of i "replicate 8 0 @ m @ replicate 16 0" j] j assms len by (simp only: nth_take)
  also have "\<dots> = (if 8 \<le> i + j \<and> i + j - 8 < length m then m ! (i + j - 8) else 0)"
    using j assms by (auto simp: nth_append)
  also have "\<dots> = window_view \<lparr>win_position = int i - 8, win_matrix = m\<rparr> ! j"
  proof -
    have "nat (int i - 8 + int j) = i + j - 8" by linarith
    then show ?thesis using j by (auto simp: window_view_def FIXED_LIMIT_def window_get_column_def Let_def)
  qed
  finally show "window_view \<lparr>win_position = int i - 8, win_matrix = m\<rparr> ! j = take 8 (drop i (replicate 8 0 @ m @ replicate 16 0)) ! j" ..
qed

lemma paint_changes: "paint (draw_changes w prev) (window_view prev) = window_view w"
proof -
  let ?step = "\<lambda>j. if window_get_column j w \<noteq> window_get_column j prev then [(window_get_column j w, j)] else []"
  have run: "paint (concat (map ?step [0..<n])) (window_view prev)
      = map (\<lambda>j. window_get_column j w) [0..<n] @ drop n (window_view prev)" if "n \<le> FIXED_LIMIT" for n
    using that
  proof (induction n)
    case (Suc n)
    have len: "length (window_view prev) = FIXED_LIMIT" "window_view prev ! n = window_get_column n prev"
      using Suc.prems by (simp_all add: window_view_def)
    have "drop n (window_view prev) = window_get_column n prev # drop (Suc n) (window_view prev)"
      using Suc.prems len by (metis Cons_nth_drop_Suc Suc_le_lessD)
    then show ?case using Suc by (simp add: paint_def list_update_append)
  qed (simp add: paint_def)
  from run [of FIXED_LIMIT] show ?thesis by (simp add: draw_changes_def window_view_def)
qed

text \<open>
  Drawing only the columns that change is as good as drawing them all: on a display that shows nothing,
  turn \<open>i\<close> of the scroll leaves the picture that lies \<open>i + 1\<close> columns into the matrix with empty
  columns around it.
\<close>

theorem scroll_changes_suffice:
  assumes "n \<le> length m + 16"
  shows "paint (concat (take n (draw_scroll m))) (replicate 8 0) = take 8 (drop n (replicate 8 0 @ m @ replicate 16 0))"
proof -
  define at where "at = (\<lambda>i. \<lparr>win_position = int i - 8, win_matrix = m\<rparr>)"
  have shift: "window_left_shift (at i) = at (Suc i)" for i by (simp add: at_def window_left_shift_def)
  have turns: "draw_turns k (at i) (at i) = map (\<lambda>j. draw_changes (at (i + Suc j)) (at (i + j))) [0..<k]" for k i
  proof (induction k arbitrary: i)
    case (Suc k)
    have "map (\<lambda>j. draw_changes (at (i + Suc j)) (at (i + j))) [0..<Suc k]
        = draw_changes (at (Suc i)) (at i) # map (\<lambda>j. draw_changes (at (Suc i + Suc j)) (at (Suc i + j))) [0..<k]"
      unfolding upt_conv_Cons [OF zero_less_Suc] map_Suc_upt [symmetric] by simp
    then show ?case using Suc.IH [of "Suc i"] by (simp add: shift Let_def)
  qed simp
  have start: "window_new_at m FIXED_LIMIT = at 0" by (simp add: at_def window_new_at_def FIXED_LIMIT_def)
  have scroll: "draw_scroll m = map (\<lambda>j. draw_changes (at (Suc j)) (at j)) [0..<length m + 16]"
    using turns [of "length m + 16" 0] unfolding draw_scroll_def start by (simp add: FIXED_LIMIT_def)
  have append: "paint (xs @ ys) shown = paint ys (paint xs shown)" for xs ys shown by (simp add: paint_def)
  have "paint (concat (map (\<lambda>j. draw_changes (at (Suc j)) (at j)) [0..<k])) (window_view (at 0)) = window_view (at k)" for k
    by (induction k) (simp_all add: append paint_changes, simp add: paint_def)
  then have "paint (concat (take n (draw_scroll m))) (window_view (at 0)) = window_view (at n)"
    using assms by (simp add: scroll take_map)
  then show ?thesis
    using window_view_strip [of 0 m] window_view_strip [OF assms] by (simp add: at_def)
qed

end
