(* ===== verification/Old_Bitbang.thy ===== *)
theory Old_Bitbang
  imports Protocol
begin

text \<open>
  SPI by hand: the lines that an earlier server moved itself
  (\<open>src/obsoleted/old/server-obsolete/bitbang.cpp\<close>). \<open>libgpiod\<close> is a parameter: setting a line and reading
  one change the world \<open>'w\<close> and return a number. The pauses between the moves take no part in the model, nor
  do the entries of the log. At the end a world with a slave on the lines: the two exchange bytes.
\<close>

datatype bb_line = Bb_ss | Bb_mosi | Bb_clk | Bb_miso

section \<open>Lines and bytes\<close>

type_synonym 'w bb_set = "bb_line \<Rightarrow> int \<Rightarrow> 'w \<Rightarrow> int \<times> 'w"
type_synonym 'w bb_get = "bb_line \<Rightarrow> 'w \<Rightarrow> int \<times> 'w"

text \<open>A failure to write is only logged.\<close>

definition bb_write_line :: "'w bb_set \<Rightarrow> bb_line \<Rightarrow> int \<Rightarrow> 'w \<Rightarrow> 'w" where
  "bb_write_line set_value line v w = snd (set_value line v w)"

definition bb_read_line :: "'w bb_get \<Rightarrow> bb_line \<Rightarrow> 'w \<Rightarrow> int \<times> 'w" where
  "bb_read_line get_value line w =
     (case get_value line w of (result, w) \<Rightarrow> (if result \<noteq> 0 \<and> result \<noteq> 1 then 0 else result, w))"

text \<open>The loop over the bits, with the mask of the next one.\<close>

fun bb_bits :: "'w bb_set \<Rightarrow> 'w bb_get \<Rightarrow> nat \<Rightarrow> u8 \<Rightarrow> u8 \<Rightarrow> u8 \<Rightarrow> 'w \<Rightarrow> u8 \<times> 'w" where
  "bb_bits set_value get_value 0 msk out got w = (got, w)"
| "bb_bits set_value get_value (Suc n) msk out got w =
     (let w = bb_write_line set_value Bb_mosi (if out AND msk \<noteq> 0 then 1 else 0) w;
          w = bb_write_line set_value Bb_clk 1 w
      in case bb_read_line get_value Bb_miso w of
           (bit_read, w) \<Rightarrow>
             let w = bb_write_line set_value Bb_clk 0 w;
                 got = (if bit_read \<noteq> 0 then got OR msk else got)
             in bb_bits set_value get_value n (drop_bit 1 msk) out got w)"

definition bb_transfer_char :: "'w bb_set \<Rightarrow> 'w bb_get \<Rightarrow> u8 \<Rightarrow> 'w \<Rightarrow> u8 \<times> 'w" where
  "bb_transfer_char set_value get_value out w =
     (let w = bb_write_line set_value Bb_ss 0 w
      in case bb_bits set_value get_value 8 (push_bit 7 1) out 0 w of
           (got, w) \<Rightarrow> (got, bb_write_line set_value Bb_ss 1 w))"

fun bb_transfer :: "'w bb_set \<Rightarrow> 'w bb_get \<Rightarrow> bytes \<Rightarrow> bytes \<Rightarrow> 'w \<Rightarrow> bytes \<times> 'w" where
  "bb_transfer set_value get_value [] in_msg w = (in_msg, w)"
| "bb_transfer set_value get_value (out # outs) in_msg w =
     (case bb_transfer_char set_value get_value out w of
        (got, w) \<Rightarrow> bb_transfer set_value get_value outs (in_msg @ [got]) w)"

section \<open>Start and stop\<close>

definition DRAIN_MAX_COUNT :: nat where "DRAIN_MAX_COUNT = 1000"
definition DRAIN_MIN_EMPTY :: nat where "DRAIN_MIN_EMPTY = 50"

text \<open>So many turns are left; whether the channel was drained.\<close>

fun bb_drain_loop :: "'w bb_set \<Rightarrow> 'w bb_get \<Rightarrow> nat \<Rightarrow> nat \<Rightarrow> 'w \<Rightarrow> bool \<times> 'w" where
  "bb_drain_loop set_value get_value 0 empty_count w = (False, w)"
| "bb_drain_loop set_value get_value (Suc n) empty_count w =
     (case bb_transfer_char set_value get_value 0 w of
        (from_mcu, w) \<Rightarrow>
          let empty_count = (if from_mcu = SPI_WRITE_UNDERFLOW then empty_count + 1 else 0)
          in if empty_count \<ge> DRAIN_MIN_EMPTY then (True, w)
             else bb_drain_loop set_value get_value n empty_count w)"

definition bb_drain :: "'w bb_set \<Rightarrow> 'w bb_get \<Rightarrow> 'w \<Rightarrow> string option \<times> 'w" where
  "bb_drain set_value get_value w =
     (case bb_drain_loop set_value get_value DRAIN_MAX_COUNT 0 w of
        (drained, w) \<Rightarrow> (if drained then None else Some ''bitbang: Failed to drain Spi channel'', w))"

text \<open>
  \<open>start\<close>: whether there is a chip, which lines it gives, what the requests return. The result is the
  error and the lines that are held.
\<close>

definition bb_start ::
  "'w bb_set \<Rightarrow> 'w bb_get \<Rightarrow> bool \<Rightarrow> (bb_line \<Rightarrow> bool) \<Rightarrow> (bb_line \<Rightarrow> int) \<Rightarrow> 'w \<Rightarrow> (string option \<times> bb_line list) \<times> 'w" where
  "bb_start set_value get_value chip has_line request w =
     (if \<not> chip then ((Some ''bitbang: Empty chip'', []), w)
      else if \<not> has_line Bb_ss then ((Some ''bitbang: Failed to get ss line'', []), w)
      else if \<not> has_line Bb_mosi then ((Some ''bitbang: Failed to get mosi line'', [Bb_ss]), w)
      else if \<not> has_line Bb_clk then ((Some ''bitbang: Failed to get clk line'', [Bb_ss, Bb_mosi]), w)
      else if \<not> has_line Bb_miso then ((Some ''bitbang: Failed to get miso line'', [Bb_ss, Bb_mosi, Bb_clk]), w)
      else
        let lines = [Bb_ss, Bb_mosi, Bb_clk, Bb_miso]
        in if request Bb_ss \<noteq> 0 then ((Some ''bitbang: Failed to request ss'', lines), w)
           else if request Bb_mosi \<noteq> 0 then ((Some ''bitbang: Failed to request mosi'', lines), w)
           else if request Bb_clk \<noteq> 0 then ((Some ''bitbang: Failed to request clk'', lines), w)
           else if request Bb_miso \<noteq> 0 then ((Some ''bitbang: Failed to request miso'', lines), w)
           else case bb_drain set_value get_value w of (e, w) \<Rightarrow> ((e, lines), w))"

text \<open>The destructor gives back the lines it holds, in this order.\<close>

definition bb_destroy :: "bb_line list \<Rightarrow> bb_line list" where
  "bb_destroy held = filter (\<lambda>line. line \<in> set held) [Bb_ss, Bb_mosi, Bb_clk, Bb_miso]"

lemma bb_start_releases:
  "bb_destroy (snd (fst (bb_start set_value get_value chip has_line request w)))
    = snd (fst (bb_start set_value get_value chip has_line request w))"
  by (simp add: bb_start_def bb_destroy_def Let_def split: prod.split)

section \<open>Draining\<close>

text \<open>What the turns read, were they never to end.\<close>

fun bb_answer :: "'w bb_set \<Rightarrow> 'w bb_get \<Rightarrow> 'w \<Rightarrow> nat \<Rightarrow> u8" where
  "bb_answer set_value get_value w 0 = fst (bb_transfer_char set_value get_value 0 w)"
| "bb_answer set_value get_value w (Suc i) =
     bb_answer set_value get_value (snd (bb_transfer_char set_value get_value 0 w)) i"

lemma bb_drain_loop_iff:
  assumes "e < 50"
  shows "fst (bb_drain_loop set_value get_value n e w) \<longleftrightarrow>
    (\<exists>k < n. (\<forall>j \<le> k. k < j + 50 \<longrightarrow> bb_answer set_value get_value w j = SPI_WRITE_UNDERFLOW) \<and> 50 \<le> e + Suc k)"
  using assms
proof (induction n arbitrary: e w)
  case 0
  then show ?case by simp
next
  case (Suc n)
  obtain x v where one: "bb_transfer_char set_value get_value 0 w = (x, v)" by force
  let ?A = "bb_answer set_value get_value w" and ?B = "bb_answer set_value get_value v"
  have A: "?A 0 = x" "?A (Suc j) = ?B j" for j by (simp_all add: one)
  have split: "(\<forall>j \<le> Suc k. P j) \<longleftrightarrow> P 0 \<and> (\<forall>j \<le> k. P (Suc j))" for P k
    using All_less_Suc2 [of "Suc k" P] by (simp add: less_Suc_eq_le)
  have all: "(\<forall>j \<le> Suc k. Suc k < j + 50 \<longrightarrow> ?A j = SPI_WRITE_UNDERFLOW)
      \<longleftrightarrow> (Suc k < 50 \<longrightarrow> x = SPI_WRITE_UNDERFLOW) \<and> (\<forall>j \<le> k. k < j + 50 \<longrightarrow> ?B j = SPI_WRITE_UNDERFLOW)" for k
    unfolding split A by auto
  have right: "(\<exists>k < Suc n. (\<forall>j \<le> k. k < j + 50 \<longrightarrow> ?A j = SPI_WRITE_UNDERFLOW) \<and> 50 \<le> e + Suc k) \<longleftrightarrow>
      (x = SPI_WRITE_UNDERFLOW \<and> 50 \<le> e + 1) \<or>
      (\<exists>k < n. (Suc k < 50 \<longrightarrow> x = SPI_WRITE_UNDERFLOW) \<and> (\<forall>j \<le> k. k < j + 50 \<longrightarrow> ?B j = SPI_WRITE_UNDERFLOW)
        \<and> 50 \<le> e + Suc (Suc k))"
    unfolding Ex_less_Suc2 all by (simp add: A conj_assoc del: bb_answer.simps)
  show ?case
  proof (cases "x = SPI_WRITE_UNDERFLOW")
    case True
    then show ?thesis
      using Suc.IH [of "e + 1" v] Suc.prems unfolding right by (auto simp: one Let_def DRAIN_MIN_EMPTY_def)
  next
    case False
    then show ?thesis
      using Suc.IH [of 0 v] unfolding right by (auto simp: one Let_def DRAIN_MIN_EMPTY_def not_less)
  qed
qed

text \<open>
  The channel counts as drained exactly when the device reports fifty times in a row, within a
  thousand bytes, that it has nothing to send.
\<close>

theorem bb_drain_iff:
  "fst (bb_drain set_value get_value w) = None \<longleftrightarrow>
    (\<exists>i. i + 50 \<le> 1000 \<and> (\<forall>j < 50. bb_answer set_value get_value w (i + j) = SPI_WRITE_UNDERFLOW))"
proof -
  let ?A = "bb_answer set_value get_value w"
  have "fst (bb_drain set_value get_value w) = None \<longleftrightarrow> fst (bb_drain_loop set_value get_value 1000 0 w)"
    by (simp add: bb_drain_def DRAIN_MAX_COUNT_def split: prod.split)
  also have "\<dots> \<longleftrightarrow> (\<exists>k < 1000. (\<forall>j \<le> k. k < j + 50 \<longrightarrow> ?A j = SPI_WRITE_UNDERFLOW) \<and> 50 \<le> Suc k)"
    using bb_drain_loop_iff [of 0] by simp
  also have "\<dots> \<longleftrightarrow> (\<exists>i. i + 50 \<le> 1000 \<and> (\<forall>j < 50. ?A (i + j) = SPI_WRITE_UNDERFLOW))"
  proof
    assume "\<exists>k < 1000. (\<forall>j \<le> k. k < j + 50 \<longrightarrow> ?A j = SPI_WRITE_UNDERFLOW) \<and> 50 \<le> Suc k"
    then obtain k where k: "k < 1000" "\<And>j. j \<le> k \<Longrightarrow> k < j + 50 \<Longrightarrow> ?A j = SPI_WRITE_UNDERFLOW" "50 \<le> Suc k" by blast
    have "?A (k - 49 + j) = SPI_WRITE_UNDERFLOW" if "j < 50" for j using that k(3) by (intro k(2)) linarith+
    then show "\<exists>i. i + 50 \<le> 1000 \<and> (\<forall>j < 50. ?A (i + j) = SPI_WRITE_UNDERFLOW)"
      using k(1,3) by (intro exI [of _ "k - 49"]) auto
  next
    assume "\<exists>i. i + 50 \<le> 1000 \<and> (\<forall>j < 50. ?A (i + j) = SPI_WRITE_UNDERFLOW)"
    then obtain i where i: "i + 50 \<le> 1000" "\<And>j. j < 50 \<Longrightarrow> ?A (i + j) = SPI_WRITE_UNDERFLOW" by blast
    have "?A j = SPI_WRITE_UNDERFLOW" if "j \<le> i + 49" "i + 49 < j + 50" for j
      using i(2) [of "j - i"] that by simp
    then show "\<exists>k < 1000. (\<forall>j \<le> k. k < j + 50 \<longrightarrow> ?A j = SPI_WRITE_UNDERFLOW) \<and> 50 \<le> Suc k"
      using i(1) by (intro exI [of _ "i + 49"]) auto
  qed
  finally show ?thesis .
qed

section \<open>A slave on the lines\<close>

text \<open>
  A device with a shift register of eight bits: while it is selected it takes a bit when the clock goes up
  and moves when the clock goes down; the bit at the top is on the line to the master.
\<close>

record bb_slave =
  bs_ss :: int
  bs_clk :: int
  bs_mosi :: int
  bs_register :: u8
  bs_latch :: bool

fun slave_set :: "bb_slave bb_set" where
  "slave_set Bb_ss v s = (0, s\<lparr>bs_ss := v\<rparr>)"
| "slave_set Bb_mosi v s = (0, s\<lparr>bs_mosi := v\<rparr>)"
| "slave_set Bb_clk v s =
     (0, let t = s\<lparr>bs_clk := v\<rparr>
         in if bs_ss s \<noteq> 0 \<or> bs_clk s = v then t
            else if v = 1 then t\<lparr>bs_latch := (bs_mosi s = 1)\<rparr>
            else t\<lparr>bs_register := push_bit 1 (bs_register s) OR (if bs_latch s then 1 else 0)\<rparr>)"
| "slave_set Bb_miso v s = (-1, s)"

definition slave_get :: "bb_slave bb_get" where
  "slave_get line s = (if bit (bs_register s) 7 then 1 else 0, s)"

definition slave_idle :: "bb_slave \<Rightarrow> bool" where
  "slave_idle s \<longleftrightarrow> bs_ss s = 1 \<and> bs_clk s = 0"

lemma bb_bits_slave:
  assumes "bs_ss s = 0" "bs_clk s = 0" "n \<le> 8"
    "bs_register s = push_bit (8 - n) reg OR drop_bit n out"
  shows "\<exists>t. bb_bits slave_set slave_get n (drop_bit (8 - n) (push_bit 7 1)) out (push_bit n (drop_bit n reg)) s = (reg, t)
    \<and> bs_ss t = 0 \<and> bs_clk t = 0 \<and> bs_register t = out"
  using assms
proof (induction n arbitrary: s)
  case 0
  have "push_bit 8 reg = 0" by (rule bit_eqI) (auto simp: bit_push_bit_iff bit_imp_le_length dest: bit_imp_le_length)
  then show ?case using 0 by simp
next
  case (Suc n)
  have n: "n < 8" using Suc.prems(3) by simp
  have gone: "\<not> bit x k" if "8 \<le> k" for x :: u8 and k using that bit_imp_le_length [of x k] by auto
  have msk: "drop_bit (8 - Suc n) (push_bit 7 (1 :: u8)) = push_bit n 1"
    by (rule bit_eqI) (use n in \<open>auto simp: bit_drop_bit_eq bit_push_bit_iff bit_1_iff simp del: push_bit_of_1\<close>)
  have mosi: "out AND push_bit n 1 \<noteq> 0 \<longleftrightarrow> bit out n"
    using and_exp_eq_0_iff_not_bit [of out n] by (simp add: push_bit_eq_mult)
  have miso: "bit (bs_register s) 7 \<longleftrightarrow> bit reg n"
    using n gone [of "Suc n + 7" out] unfolding Suc.prems(4) by (simp add: bit_or_iff bit_push_bit_iff bit_drop_bit_eq)
  define t where "t = s\<lparr>bs_mosi := if bit out n then 1 else 0, bs_clk := 1, bs_latch := bit out n\<rparr>"
  define u where "u = t\<lparr>bs_clk := 0, bs_register := push_bit 1 (bs_register s) OR (if bit out n then 1 else 0)\<rparr>"
  have up: "bb_write_line slave_set Bb_clk 1 (bb_write_line slave_set Bb_mosi (if out AND push_bit n 1 \<noteq> 0 then 1 else 0) s) = t"
    using Suc.prems(1,2) unfolding mosi by (simp add: bb_write_line_def t_def)
  have down: "bb_write_line slave_set Bb_clk 0 t = u"
    using Suc.prems(1) by (simp add: bb_write_line_def t_def u_def)
  have got: "(if bit reg n then push_bit (Suc n) (drop_bit (Suc n) reg) OR push_bit n 1 else push_bit (Suc n) (drop_bit (Suc n) reg))
      = push_bit n (drop_bit n reg)"
  proof (rule bit_eqI)
    fix k
    have top: "bit (push_bit m (drop_bit m reg)) k \<longleftrightarrow> m \<le> k \<and> bit reg k" for m
      unfolding bit_push_bit_iff bit_drop_bit_eq using gone [of k reg] by (cases "k < 8") auto
    have one: "bit (push_bit n (1 :: u8)) k \<longleftrightarrow> k = n"
      unfolding bit_push_bit_iff using n by (auto simp: bit_1_iff)
    show "bit (if bit reg n then push_bit (Suc n) (drop_bit (Suc n) reg) OR push_bit n 1 else push_bit (Suc n) (drop_bit (Suc n) reg)) k
        \<longleftrightarrow> bit (push_bit n (drop_bit n reg)) k"
      by (cases "bit reg n") (simp_all only: if_True if_False bit_or_iff top one, auto simp: Suc_le_eq le_less)
  qed
  have register: "bs_register u = push_bit (8 - n) reg OR drop_bit n out"
  proof (rule bit_eqI)
    have ur: "bs_register u = push_bit 1 (bs_register s) OR (if bit out n then 1 else 0)" by (simp add: u_def)
    fix k assume "possible_bit TYPE(8 word) k"
    then have k: "k < 8" by (simp add: possible_bit_word)
    have latch: "bit (if bit out n then 1 else 0 :: u8) k \<longleftrightarrow> k = 0 \<and> bit out n" by (simp add: bit_1_iff)
    show "bit (bs_register u) k \<longleftrightarrow> bit (push_bit (8 - n) reg OR drop_bit n out) k"
    proof (cases k)
      case 0
      then show ?thesis
        using n latch unfolding u_def by (simp add: bit_or_iff bit_push_bit_iff bit_drop_bit_eq del: push_bit_Suc)
    next
      case (Suc k')
      have index: "8 - Suc n \<le> k' \<longleftrightarrow> 8 - n \<le> Suc k'" "k' - (8 - Suc n) = Suc k' - (8 - n)" "Suc n + k' = n + Suc k'"
        using n by linarith+
      have "bit (bs_register u) k \<longleftrightarrow> bit (bs_register s) k'"
        using k latch unfolding ur Suc bit_or_iff bit_push_bit_iff by auto
      also have "\<dots> \<longleftrightarrow> bit (push_bit (8 - n) reg OR drop_bit n out) k"
        using k unfolding Suc.prems(4) Suc bit_or_iff bit_push_bit_iff bit_drop_bit_eq index by auto
      finally show ?thesis .
    qed
  qed
  have u: "bs_ss u = 0" "bs_clk u = 0" using Suc.prems(1) by (simp_all add: u_def t_def)
  from Suc.IH [OF u _ register] n obtain v where
    v: "bb_bits slave_set slave_get n (drop_bit (8 - n) (push_bit 7 1)) out (push_bit n (drop_bit n reg)) u = (reg, v)"
    "bs_ss v = 0" "bs_clk v = 0" "bs_register v = out" by auto
  have next_mask: "drop_bit 1 (push_bit n (1 :: u8)) = drop_bit (8 - n) (push_bit 7 1)"
    by (rule bit_eqI) (use n in \<open>auto simp: bit_drop_bit_eq bit_push_bit_iff bit_1_iff simp del: push_bit_of_1\<close>)
  have "bb_read_line slave_get Bb_miso t = (if bit reg n then 1 else 0, t)"
    using miso by (simp add: bb_read_line_def slave_get_def t_def)
  then have "bb_bits slave_set slave_get (Suc n) (push_bit n 1) out (push_bit (Suc n) (drop_bit (Suc n) reg)) s = (reg, v)"
    using v(1) got unfolding bb_bits.simps Let_def up next_mask by (auto simp: down split: if_splits)
  then show ?case using v(2-4) unfolding msk by blast
qed

text \<open>A byte, and a message: what was in the register comes back, what goes out is in the register.\<close>

lemma bb_transfer_char_slave:
  assumes "slave_idle s"
  shows "\<exists>t. bb_transfer_char slave_set slave_get out s = (bs_register s, t) \<and> slave_idle t \<and> bs_register t = out"
proof -
  let ?s = "s\<lparr>bs_ss := 0\<rparr>"
  have zero: "drop_bit 8 (x :: u8) = 0" "push_bit 8 (x :: u8) = 0" for x
    using bit_imp_le_length [of x] by (auto intro!: bit_eqI simp: bit_drop_bit_eq bit_push_bit_iff dest!: bit_imp_le_length)
  have "bs_register ?s = push_bit (8 - 8) (bs_register s) OR drop_bit 8 out" by (simp add: zero)
  from bb_bits_slave [OF _ _ _ this] assms obtain t where
    "bb_bits slave_set slave_get 8 (push_bit 7 1) out 0 ?s = (bs_register s, t)" "bs_clk t = 0" "bs_register t = out"
    by (auto simp: slave_idle_def zero)
  then show ?thesis
    by (simp add: bb_transfer_char_def bb_write_line_def slave_idle_def)
qed

text \<open>
  A transfer by hand is an exchange: byte by byte the server reads what the register of the slave
  held, and leaves what it sends there.
\<close>

theorem bb_transfer_exchanges:
  assumes "slave_idle s"
  shows "fst (bb_transfer slave_set slave_get outs [] s) = butlast (bs_register s # outs)
    \<and> bs_register (snd (bb_transfer slave_set slave_get outs [] s)) = last (bs_register s # outs)"
proof -
  have "fst (bb_transfer slave_set slave_get outs got s) = got @ butlast (bs_register s # outs)
    \<and> bs_register (snd (bb_transfer slave_set slave_get outs got s)) = last (bs_register s # outs)" for got
    using assms
  proof (induction outs arbitrary: got s)
    case (Cons x xs)
    from bb_transfer_char_slave [OF Cons.prems, of x] obtain t where
      t: "bb_transfer_char slave_set slave_get x s = (bs_register s, t)" "slave_idle t" "bs_register t = x" by blast
    from Cons.IH [OF t(2)] show ?case using t(1,3) by simp
  qed simp
  from this [of "[]"] show ?thesis by simp
qed

end
