(* ===== verification/Old_Button.thy ===== *)
theory Old_Button
  imports Old_Scroll "HOL-Library.While_Combinator"
begin

text \<open>
  The rest of the first controller (\<open>src/obsoleted/old/arduino-obsolete/c/arduino\<close>): the buttons, which
  it tells apart by how slowly the voltage on their lines rises (\<open>button.c\<close>), the picture of the start
  (\<open>self-test.c\<close>), the registers that the start sets up, and \<open>main\<close> (\<open>arduino.c\<close>). A read of the port
  is an argument.
\<close>

section \<open>The buttons\<close>

definition ID_BUTTON_MIN :: u8 where "ID_BUTTON_MIN = push_bit 0 1"
definition ID_BUTTON_0 :: u8 where "ID_BUTTON_0 = ID_BUTTON_MIN"
definition ID_BUTTON_1 :: u8 where "ID_BUTTON_1 = push_bit 1 1"
definition ID_BUTTON_2 :: u8 where "ID_BUTTON_2 = push_bit 2 1"
definition ID_BUTTON_MAX :: u8 where "ID_BUTTON_MAX = ID_BUTTON_2"

definition LONG_DELAY :: u8 where "LONG_DELAY = 1"
definition SHORT_DELAY :: u8 where "SHORT_DELAY = 250"
definition RISE_THRESHOLD :: u8 where "RISE_THRESHOLD = 120"
definition SHORT_DELAY_NUMBER :: u8 where "SHORT_DELAY_NUMBER = 255"
definition BUTTON_NUMBER :: nat where "BUTTON_NUMBER = 3"
definition BTN_OUT_0 :: u8 where "BTN_OUT_0 = push_bit 0 1"
definition BTN_OUT_1 :: u8 where "BTN_OUT_1 = push_bit 2 1"
definition BTN_OUT_2 :: u8 where "BTN_OUT_2 = push_bit 4 1"
definition BTN_OUT_MASK :: u8 where "BTN_OUT_MASK = BTN_OUT_0 OR BTN_OUT_1 OR BTN_OUT_2"
definition BTN_IN_0 :: u8 where "BTN_IN_0 = push_bit 1 1"
definition BTN_IN_1 :: u8 where "BTN_IN_1 = push_bit 3 1"
definition BTN_IN_2 :: u8 where "BTN_IN_2 = push_bit 5 1"

text \<open>The variables of the unit, its registers and the rest of the controller.\<close>

record buttons =
  bt_delays :: "u8 list"
  bt_delay_count :: u8
  bt_old_pressed :: u8
  bt_send_disabled :: u8
  bt_tccr2a :: u8
  bt_tccr2b :: u8
  bt_timsk2 :: u8
  bt_tcnt2 :: u8
  bt_ddrc :: u8
  bt_portc :: u8
  bt_ard :: ard

definition count_clear :: "buttons \<Rightarrow> buttons" where
  "count_clear s =
     s\<lparr>bt_delays := replicate BUTTON_NUMBER 0, bt_delay_count := 0, bt_old_pressed := 0, bt_send_disabled := 0\<rparr>"

definition ard_button_init :: "buttons \<Rightarrow> buttons" where
  "ard_button_init s =
     (count_clear s)\<lparr>bt_tccr2a := 0, bt_tccr2b := push_bit 2 1 OR push_bit 1 1 OR push_bit 0 1,
        bt_timsk2 := push_bit 0 1, bt_ddrc := BTN_OUT_0 OR BTN_OUT_1 OR BTN_OUT_2\<rparr>"

text \<open>\<open>pinc\<close> is what the port reads at this moment.\<close>

definition pin_check :: "u8 \<Rightarrow> u8 \<Rightarrow> nat \<Rightarrow> buttons \<Rightarrow> buttons" where
  "pin_check pinc pin i s =
     (if pinc AND pin = 0 then s\<lparr>bt_delays := (bt_delays s)[i := bt_delays s ! i + 1]\<rparr> else s)"

text \<open>The loop has the button and the sum as its variables.\<close>

definition button_count :: "u8 \<Rightarrow> u8" where
  "button_count button_pushed =
     snd (while (\<lambda>(one_button, sum). one_button \<noteq> ID_BUTTON_MAX)
            (\<lambda>(one_button, sum). (push_bit 1 one_button, if button_pushed AND one_button \<noteq> 0 then sum + 1 else sum))
            (ID_BUTTON_MIN, 0))"

definition button_compare :: "u8 \<Rightarrow> buttons \<Rightarrow> buttons" where
  "button_compare new_button_pressed s =
     (let old_count = button_count (bt_old_pressed s);
          new_count = button_count new_button_pressed
      in if new_count < old_count then
           let s = (if bt_send_disabled s = 0
                    then s\<lparr>bt_send_disabled := 1,
                           bt_ard := ard_codec_encode_1 DEV_BUTTON DEV_DEVICE_SERIAL new_button_pressed (bt_ard s)\<rparr>
                    else s)
           in if new_count = 0 then s\<lparr>bt_send_disabled := 0\<rparr> else s
         else s)"

definition buttons_pressed :: "u8 list \<Rightarrow> u8" where
  "buttons_pressed delays =
     (let pressed = 0;
          pressed = (if delays ! 0 > RISE_THRESHOLD then pressed OR ID_BUTTON_0 else pressed);
          pressed = (if delays ! 1 > RISE_THRESHOLD then pressed OR ID_BUTTON_1 else pressed)
      in if delays ! 2 > RISE_THRESHOLD then pressed OR ID_BUTTON_2 else pressed)"

definition analyse_delays :: "buttons \<Rightarrow> buttons" where
  "analyse_delays s =
     (let button_pressed = buttons_pressed (bt_delays s);
          s = button_compare button_pressed s
      in s\<lparr>bt_old_pressed := button_pressed\<rparr>)"

text \<open>The interrupt; the port is read three times.\<close>

definition button_timer2 :: "u8 \<Rightarrow> u8 \<Rightarrow> u8 \<Rightarrow> buttons \<Rightarrow> buttons" where
  "button_timer2 pinc_0 pinc_1 pinc_2 s =
     (if bt_delay_count s = 0 then s\<lparr>bt_delay_count := bt_delay_count s + 1, bt_portc := bt_portc s OR BTN_OUT_MASK\<rparr>
      else
        let s = s\<lparr>bt_delay_count := bt_delay_count s + 1\<rparr>;
            s = pin_check pinc_0 BTN_IN_0 0 s;
            s = pin_check pinc_1 BTN_IN_1 1 s;
            s = pin_check pinc_2 BTN_IN_2 2 s
        in if bt_delay_count s < SHORT_DELAY_NUMBER then s\<lparr>bt_tcnt2 := SHORT_DELAY\<rparr>
           else let s = count_clear (analyse_delays s)
                in s\<lparr>bt_portc := bt_portc s AND NOT BTN_OUT_MASK, bt_tcnt2 := LONG_DELAY\<rparr>)"

section \<open>The start\<close>

definition ard_self_test :: "u8 \<Rightarrow> ard \<Rightarrow> ard" where
  "ard_self_test pattern s =
     (let s = ard_spi_write_initialize s;
          s = ard_spi_write_brightness DEV_BRIGHTNESS_MAX s
      in ard_spi_write_matrix_test pattern 0 32 s)"

text \<open>The registers that the units of the start write, apart from the data registers.\<close>

record ard_ports =
  ap_ddrb :: u8
  ap_spcr :: u8
  ap_ubrr0l :: u8
  ap_ubrr0h :: u8
  ap_ucsr0a :: u8
  ap_ucsr0b :: u8
  ap_ucsr0c :: u8
  ap_tccr0a :: u8
  ap_tccr0b :: u8
  ap_tifr0 :: u8
  ap_timsk0 :: u8

definition spi_write_init_ports :: "ard_ports \<Rightarrow> ard_ports" where
  "spi_write_init_ports p =
     p\<lparr>ap_ddrb := push_bit 2 1 OR push_bit 3 1 OR push_bit 5 1,
       ap_spcr := push_bit 7 1 OR push_bit 6 1 OR push_bit 4 1 OR push_bit 3 1 OR push_bit 2 1 OR push_bit 1 1 OR push_bit 0 1\<rparr>"

definition uart_init_ports :: "ard_ports \<Rightarrow> ard_ports" where
  "uart_init_ports p =
     (let p = p\<lparr>ap_ubrr0l := 16, ap_ubrr0h := 0\<rparr>;
          p = p\<lparr>ap_ucsr0a := ap_ucsr0a p AND NOT (push_bit 1 1)\<rparr>;
          p = p\<lparr>ap_ucsr0a := ap_ucsr0a p AND NOT (push_bit 0 1)\<rparr>
      in p\<lparr>ap_ucsr0b := push_bit 4 1 OR push_bit 3 1 OR push_bit 7 1 OR push_bit 5 1, ap_ucsr0c := push_bit 1 1 OR push_bit 2 1\<rparr>)"

definition render_init_ports :: "ard_ports \<Rightarrow> ard_ports" where
  "render_init_ports p =
     p\<lparr>ap_tccr0a := 0, ap_tccr0b := push_bit 2 1 OR push_bit 0 1, ap_tifr0 := ap_tifr0 p OR push_bit 0 1,
       ap_timsk0 := ap_timsk0 p OR push_bit 0 1\<rparr>"

text \<open>\<open>main\<close> up to its loop, whose turns are \<open>ard_parse\<close> on the first component.\<close>

definition ard_main_start :: "ard_ports \<Rightarrow> scroll \<times> ard_ports" where
  "ard_main_start p =
     (let s = scroll_render_init ard_init;
          p = uart_init_ports (spi_write_init_ports (render_init_ports p))
      in (s\<lparr>sc_ard := ard_self_test 0xFF (sc_ard s)\<rparr>, p))"


section \<open>What the buttons measure\<close>

text \<open>The button with the highest bit ends the loop before it is counted.\<close>

lemma button_count_eq: "button_count p = (if bit p 0 then 1 else 0) + (if bit p 1 then 1 else 0)"
proof -
  have one: "p AND 1 \<noteq> 0 \<longleftrightarrow> bit p 0" by (simp add: and_one_eq bit_0 odd_iff_mod_2_eq_one)
  have two: "p AND 2 \<noteq> 0 \<longleftrightarrow> bit p 1"
    using and_exp_eq_0_iff_not_bit [of p 1] by simp
  show ?thesis
    unfolding button_count_def ID_BUTTON_MIN_def ID_BUTTON_MAX_def ID_BUTTON_2_def
    by (subst while_unfold, subst while_unfold, subst while_unfold) (simp add: one two)
qed

fun button_run :: "(u8 \<times> u8 \<times> u8) list \<Rightarrow> buttons \<Rightarrow> buttons" where
  "button_run [] s = s"
| "button_run ((p0, p1, p2) # ps) s = button_run ps (button_timer2 p0 p1 p2 s)"

lemma button_run_append: "button_run (ps @ qs) s = button_run qs (button_run ps s)"
  by (induction ps s rule: button_run.induct) simp_all

text \<open>So often the line of button \<open>i\<close> was still low.\<close>

definition low_count :: "nat \<Rightarrow> (u8 \<times> u8 \<times> u8) list \<Rightarrow> nat" where
  "low_count i ps = length (filter (\<lambda>(p0, p1, p2). [p0 AND BTN_IN_0, p1 AND BTN_IN_1, p2 AND BTN_IN_2] ! i = 0) ps)"

definition buttons_clear :: "buttons \<Rightarrow> bool" where
  "buttons_clear s \<longleftrightarrow> bt_delays s = [0, 0, 0] \<and> bt_delay_count s = 0 \<and> bt_old_pressed s = 0 \<and> bt_send_disabled s = 0"

lemma count_clear_clear: "buttons_clear (count_clear s)"
  by (simp add: buttons_clear_def count_clear_def BUTTON_NUMBER_def numeral_3_eq_3)

text \<open>The three samples of an interrupt.\<close>

definition pins_checked :: "u8 \<times> u8 \<times> u8 \<Rightarrow> buttons \<Rightarrow> buttons" where
  "pins_checked p s =
     (case p of (p0, p1, p2) \<Rightarrow>
        pin_check p2 BTN_IN_2 2 (pin_check p1 BTN_IN_1 1 (pin_check p0 BTN_IN_0 0 (s\<lparr>bt_delay_count := bt_delay_count s + 1\<rparr>))))"

lemma pins_checked_counts:
  assumes "bt_delays s = map (\<lambda>i. of_nat (low_count i ps)) [0..<3]"
  shows "bt_delays (pins_checked p s) = map (\<lambda>i. of_nat (low_count i (ps @ [p]))) [0..<3]"
    "bt_delay_count (pins_checked p s) = bt_delay_count s + 1" "bt_old_pressed (pins_checked p s) = bt_old_pressed s"
    "bt_send_disabled (pins_checked p s) = bt_send_disabled s" "bt_ard (pins_checked p s) = bt_ard s"
  using assms
  by (auto simp: pins_checked_def pin_check_def low_count_def numeral_3_eq_3 upt_rec [of _ "Suc _"] nth_Cons' split: prod.splits)

lemma button_timer2_sample:
  assumes "0 < unat (bt_delay_count s)" "unat (bt_delay_count s) < 254"
  shows "button_timer2 p0 p1 p2 s = (pins_checked (p0, p1, p2) s)\<lparr>bt_tcnt2 := SHORT_DELAY\<rparr>"
proof -
  have "bt_delay_count (pins_checked (p0, p1, p2) s) = bt_delay_count s + 1"
    by (simp add: pins_checked_def pin_check_def)
  moreover have "bt_delay_count s + 1 < SHORT_DELAY_NUMBER"
    using assms unat_u8_inc [of "bt_delay_count s" 255] by (simp add: SHORT_DELAY_NUMBER_def u8_less_iff)
  moreover have "bt_delay_count s \<noteq> 0" using assms(1) by auto
  ultimately show ?thesis by (simp add: button_timer2_def pins_checked_def Let_def)
qed


lemma button_run_samples:
  assumes "buttons_clear s" "length ps \<le> 253"
  shows "bt_delays (button_run (p # ps) s) = map (\<lambda>i. of_nat (low_count i ps)) [0..<3]
    \<and> bt_delay_count (button_run (p # ps) s) = of_nat (Suc (length ps)) \<and> bt_old_pressed (button_run (p # ps) s) = 0
    \<and> bt_send_disabled (button_run (p # ps) s) = 0 \<and> bt_ard (button_run (p # ps) s) = bt_ard s"
  using assms(2)
proof (induction ps rule: rev_induct)
  case Nil
  show ?case
    using assms(1) by (cases p) (simp add: button_timer2_def buttons_clear_def low_count_def numeral_3_eq_3)
next
  case (snoc q qs)
  let ?t = "button_run (p # qs) s"
  obtain q0 q1 q2 where q: "q = (q0, q1, q2)" by (cases q)
  from snoc have IH: "bt_delays ?t = map (\<lambda>i. of_nat (low_count i qs)) [0..<3]"
    "bt_delay_count ?t = of_nat (Suc (length qs))" "bt_old_pressed ?t = 0" "bt_send_disabled ?t = 0" "bt_ard ?t = bt_ard s" by simp_all
  have count: "unat (bt_delay_count ?t) = Suc (length qs)"
    using snoc.prems unfolding IH(2) by (subst unat_of_nat_u8) simp_all
  have "button_run (p # qs @ [q]) s = (pins_checked q ?t)\<lparr>bt_tcnt2 := SHORT_DELAY\<rparr>"
    using button_timer2_sample [of ?t q0 q1 q2] count snoc.prems button_run_append [of "p # qs" "[q]" s] by (simp add: q)
  then show ?case using pins_checked_counts [OF IH(1), of q] IH(2-5) by simp
qed

text \<open>
  After the long delay every count is the number of samples that found its line still low; none of the
  254 samples wraps a count around.
\<close>

theorem buttons_measured:
  assumes "buttons_clear s" "length ps \<le> 253" "i < 3"
  shows "unat (bt_delays (button_run (p # ps) s) ! i) = low_count i ps"
proof -
  have "low_count i ps \<le> length ps" by (simp add: low_count_def)
  then show ?thesis
    using button_run_samples [OF assms(1,2), of p] assms(2,3) by (simp add: unat_of_nat_u8)
qed

text \<open>After the last sample the lines are let down and everything starts anew, whatever was measured.\<close>

lemma analyse_forgets:
  assumes "bt_old_pressed s = 0"
  shows "analyse_delays s = s\<lparr>bt_old_pressed := buttons_pressed (bt_delays s)\<rparr>"
proof -
  have "\<not> button_count n < button_count 0" for n by (simp add: button_count_eq)
  then show ?thesis using assms by (simp add: analyse_delays_def button_compare_def Let_def)
qed

theorem buttons_period:
  assumes "buttons_clear s" "length ps = 255"
  shows "buttons_clear (button_run ps s) \<and> bt_portc (button_run ps s) AND BTN_OUT_MASK = 0 \<and> bt_tcnt2 (button_run ps s) = LONG_DELAY"
proof -
  from assms(2) have long: "ps \<noteq> []" "tl ps \<noteq> []" by (auto simp: tl_Nil)
  define p qs q where "p = hd ps" and "qs = butlast (tl ps)" and "q = last (tl ps)"
  then have ps: "ps = p # qs @ [q]" "length qs = 253" using long assms(2) by simp_all
  obtain q0 q1 q2 where q: "q = (q0, q1, q2)" by (cases q)
  let ?t = "button_run (p # qs) s"
  have "bt_delay_count ?t = 254" using button_run_samples [OF assms(1), of qs p] ps(2) by simp
  moreover have "button_run ps s = button_timer2 q0 q1 q2 ?t"
    using button_run_append [of "p # qs" "[q]" s] by (simp add: ps(1) q)
  moreover have "(x AND NOT y) AND y = 0" for x y :: u8 by (rule bit_eqI) (auto simp: bit_simps)
  ultimately show ?thesis
    by (simp add: button_timer2_def SHORT_DELAY_NUMBER_def Let_def pin_check_def count_clear_clear [unfolded buttons_clear_def] buttons_clear_def)
qed

text \<open>
  \<open>count_clear\<close> runs after every analysis and clears the old state of the buttons too, with which the
  next analysis compares: the count of the old buttons is always zero, and no message is ever sent.
\<close>

theorem buttons_never_report: "bt_ard (button_run ps (ard_button_init s)) = bt_ard s"
proof -
  have step: "bt_old_pressed t = 0 \<Longrightarrow> bt_old_pressed (button_timer2 p0 p1 p2 t) = 0 \<and> bt_ard (button_timer2 p0 p1 p2 t) = bt_ard t"
    for t p0 p1 p2
    by (simp add: button_timer2_def Let_def analyse_forgets pin_check_def count_clear_def)
  have "bt_old_pressed t = 0 \<Longrightarrow> bt_ard (button_run ps t) = bt_ard t" for t
    by (induction ps t rule: button_run.induct) (simp_all add: step)
  from this [of "ard_button_init s"] show ?thesis by (simp add: ard_button_init_def count_clear_def)
qed

text \<open>Were the old state kept, the third button would still not count.\<close>

lemma third_button_uncounted: "button_count (p OR ID_BUTTON_2) = button_count p"
proof -
  have "\<not> bit ID_BUTTON_2 0" "\<not> bit ID_BUTTON_2 1" by (simp_all add: ID_BUTTON_2_def bit_0)
  then show ?thesis unfolding button_count_eq by (simp add: bit_or_iff)
qed

section \<open>The picture of the start\<close>

lemma ard_fill_list_full:
  assumes "ard_wf q" "unat (aq_size q) = unat (aq_max q)"
  shows "ard_fill_list xs q = q"
proof -
  have "snd (ard_queue_fill_symbol q x) = q" for x using ard_fill_symbol(1) [OF assms(1), of x] assms(2) by (simp add: prod_eq_iff)
  then show ?thesis by (induction xs) (simp_all add: ard_fill_list_def)
qed

lemma ard_fill_list_torn:
  assumes "ard_wf q"
  shows "ard_held (ard_fill_list xs q) = ard_held q @ take (unat (aq_max q) - unat (aq_size q)) xs"
proof -
  have le: "unat (aq_size q) \<le> unat (aq_max q)" using ard_wf_le [OF assms] assms by (simp add: ard_wf_def u8_le_iff)
  let ?n = "unat (aq_max q) - unat (aq_size q)"
  have split: "ard_fill_list xs q = ard_fill_list (drop ?n xs) (ard_fill_list (take ?n xs) q)"
    unfolding ard_fill_list_def by (simp only: fold_append [symmetric, THEN fun_cong, unfolded comp_def] append_take_drop_id)
  have len: "unat (aq_size q) + length (take ?n xs) \<le> unat (aq_max q)" using le by simp
  note first = ard_fill_list_held [OF assms len]
  show ?thesis
  proof (cases "length xs \<le> ?n")
    case True
    then show ?thesis using first split by (simp add: ard_fill_list_def)
  next
    case False
    then have "ard_fill_list (drop ?n xs) (ard_fill_list (take ?n xs) q) = ard_fill_list (take ?n xs) q"
      using first le by (intro ard_fill_list_full) auto
    then show ?thesis using first split by simp
  qed
qed


text \<open>
  The start queues eight commands and a picture at once, 59 bytes for 50 places: the picture loses its
  last nine bytes, while its length still announces them.
\<close>

theorem self_test_torn:
  assumes "commands_wait [] s"
  shows "ard_held (a_spi (ard_self_test pattern s))
    = concat (map (\<lambda>c. 2 # command_bytes c) (init_commands @ [ard_brightness_command DEV_BRIGHTNESS_MAX]))
      @ LENGTH_DATA # take 25 (matrix_message (replicate 32 pattern))"
proof -
  let ?cs = "init_commands @ [ard_brightness_command DEV_BRIGHTNESS_MAX]"
  let ?a = "fold ard_fill_command ?cs s"
  have waits: "commands_wait (concat (map (\<lambda>c. 2 # command_bytes c) ?cs)) ?a"
    using fill_commands_wait [of "[]" ?cs, OF _ assms] by (simp add: init_commands_def)
  then have a: "ard_wf (a_spi ?a)" "aq_max (a_spi ?a) = 50" "ard_held (a_spi ?a) = concat (map (\<lambda>c. 2 # command_bytes c) ?cs)"
    by (simp_all add: commands_wait_def)
  have "length (ard_held (a_spi ?a)) = 24" unfolding a(3) by (simp add: init_commands_def command_bytes_def)
  then have size: "unat (aq_size (a_spi ?a)) = 24" using length_ard_held [OF a(1)] by simp
  have columns: "shown_columns (replicate 32 pattern) 0 32 = replicate 32 pattern"
    by (rule nth_equalityI) (simp_all add: shown_columns_def ard_get_data_def u8_less_iff unat_of_nat)
  have "ard_self_test pattern s = ard_spi_write_matrix_test pattern 0 32 ?a"
    by (simp add: ard_self_test_def ard_spi_write_initialize_def ard_spi_write_brightness_def init_commands_def Let_def)
  also have "\<dots> = ard_start_send (?a\<lparr>a_spi := ard_fill_list (LENGTH_DATA # matrix_message (replicate 32 pattern)) (a_spi ?a)\<rparr>)"
    unfolding ard_spi_write_matrix_test_def ard_spi_write_matrix_queue by (simp add: SPI_WRITE_MATRIX_SIZE_def columns)
  finally have "ard_held (a_spi (ard_self_test pattern s))
      = ard_held (ard_fill_list (LENGTH_DATA # matrix_message (replicate 32 pattern)) (a_spi ?a))"
    by (simp add: ard_start_send_def)
  also have "\<dots> = ard_held (a_spi ?a) @ take 26 (LENGTH_DATA # matrix_message (replicate 32 pattern))"
    using ard_fill_list_torn [OF a(1)] a(2) size by simp
  finally show ?thesis unfolding a(3) by simp
qed

text \<open>The start of \<open>main\<close> leaves it so.\<close>

lemma main_start_torn:
  "length (ard_held (a_spi (sc_ard (fst (ard_main_start p))))) = 50"
proof -
  let ?s = "sc_ard (scroll_render_init ard_init)"
  have "commands_wait [] ?s"
    using ard_held_init [of 50 3]
    by (simp add: commands_wait_def scroll_render_init_def scroll_software_init_def scroll_set_delay_def ard_init_def ard_queue_init_def)
  from self_test_torn [OF this] show ?thesis
    by (simp add: ard_main_start_def Let_def init_commands_def command_bytes_def matrix_message_length)
qed

end
