(* ===== verification/Old_Touch.thy ===== *)
theory Old_Touch
  imports Prelude
begin

text \<open>
  The touch pads of an earlier controller (\<open>src/obsoleted/avr-2560/button-old.c\<close>): the main loop charges
  one pad after the other, an interrupt of the comparator says that the pad is touched, one of a timer paces
  the loop. A scan goes over the eleven pads; when all pads are released again a message tells which were
  touched, and for how many scans. The numbers of the messages are in the headers no more, so a message
  is a value of \<open>touch_msg\<close>. Registers are memory.
\<close>

section \<open>State\<close>

datatype touch_msg = Touch_button u8 u8 u8 | Touch_debug u8

definition HANDLE_BEFORE_PULSE :: u8 where "HANDLE_BEFORE_PULSE = 0"
definition HANDLE_PULSE :: u8 where "HANDLE_PULSE = 1"
definition HANDLE_BEFORE_PROCESS :: u8 where "HANDLE_BEFORE_PROCESS = 2"
definition HANDLE_PROCESS :: u8 where "HANDLE_PROCESS = 3"
definition PAD_WORD_SIZE :: u8 where "PAD_WORD_SIZE = 8"
definition MIN_BUTTON :: u8 where "MIN_BUTTON = 0"
definition MAX_BUTTON :: u8 where "MAX_BUTTON = 10"
definition NUM_CYCLES :: u8 where "NUM_CYCLES = MAX_BUTTON + 1"
definition MUX3_MASK :: u8 where "MUX3_MASK = push_bit 0 1 OR push_bit 1 1 OR push_bit 2 1"
definition DRIVE_PIN_MASK :: u8 where "DRIVE_PIN_MASK = push_bit 0 1"

lemmas handle_defs = HANDLE_BEFORE_PULSE_def HANDLE_PULSE_def HANDLE_BEFORE_PROCESS_def HANDLE_PROCESS_def

text \<open>A set of pads is a pair of bytes.\<close>

type_synonym pads = "u8 \<times> u8"

record touch =
  to_handle :: u8
  to_is_pressed :: u8
  to_prev :: pads
  to_current :: pads
  to_button_state :: pads
  to_interval :: u8
  to_current_button :: u8
  to_debug :: u8
  to_porta :: u8
  to_ddra :: u8
  to_acsr :: u8
  to_didr1 :: u8
  to_admux :: u8
  to_adcsrb :: u8
  to_tccr2a :: u8
  to_tccr2b :: u8
  to_ocr2a :: u8
  to_timsk2 :: u8
  to_sent :: "touch_msg list"

section \<open>Sets of pads\<close>

definition state_equal :: "pads \<Rightarrow> pads \<Rightarrow> u8" where
  "state_equal a b = of_flag (fst a = fst b \<and> snd a = snd b)"

definition state_update :: "pads \<Rightarrow> pads \<Rightarrow> pads" where
  "state_update src dst = (fst dst OR fst src, snd dst OR snd src)"

definition state_is_zero :: "pads \<Rightarrow> u8" where
  "state_is_zero s = of_flag (fst s = 0 \<and> snd s = 0)"

definition state_raise_bit :: "pads \<Rightarrow> u8 \<Rightarrow> pads" where
  "state_raise_bit s b =
     (if b < PAD_WORD_SIZE then (fst s OR push_bit (unat b) 1, snd s)
      else (fst s, snd s OR push_bit (unat (b - PAD_WORD_SIZE)) 1))"

section \<open>The main loop\<close>

definition touch_send :: "touch \<Rightarrow> touch" where
  "touch_send s = s\<lparr>to_sent := to_sent s @ [Touch_button (fst (to_button_state s)) (snd (to_button_state s)) (to_interval s)]\<rparr>"

definition process_data_button :: "touch \<Rightarrow> touch" where
  "process_data_button s =
     (let s = (if to_is_pressed s = 1 then s\<lparr>to_current := state_raise_bit (to_current s) (to_current_button s)\<rparr> else s)
      in s\<lparr>to_current_button := to_current_button s + 1\<rparr>)"

definition process_data_array :: "touch \<Rightarrow> touch" where
  "process_data_array s =
     (let s = (if state_equal (to_current s) (to_prev s) = 0
               then s\<lparr>to_button_state := state_update (to_current s) (to_button_state s)\<rparr> else s);
          s = (if state_is_zero (to_current s) = 0 then s\<lparr>to_interval := to_interval s + 1\<rparr>
               else if state_is_zero (to_button_state s) = 0 then
                 let s = touch_send s
                 in s\<lparr>to_interval := 0, to_button_state := (0, 0), to_current := (0, 0)\<rparr>
               else s)
      in s\<lparr>to_prev := to_current s, to_current := (0, 0), to_current_button := MIN_BUTTON\<rparr>)"

definition touch_pulse :: "bool \<Rightarrow> touch \<Rightarrow> touch" where
  "touch_pulse v s = s\<lparr>to_porta := (if v then to_porta s OR DRIVE_PIN_MASK else to_porta s AND NOT DRIVE_PIN_MASK)\<rparr>"

definition enable_comparator :: "touch \<Rightarrow> touch" where
  "enable_comparator s =
     (let s = s\<lparr>to_acsr := to_acsr s AND NOT (push_bit 4 1)\<rparr>
      in s\<lparr>to_acsr := to_acsr s OR push_bit 3 1\<rparr>)"

definition disable_comparator :: "touch \<Rightarrow> touch" where
  "disable_comparator s = s\<lparr>to_acsr := to_acsr s AND NOT (push_bit 3 1)\<rparr>"

definition touch_timer_init :: "touch \<Rightarrow> touch" where
  "touch_timer_init s =
     s\<lparr>to_tccr2b := to_tccr2b s OR (push_bit 2 1 OR push_bit 1 1 OR push_bit 0 1), to_tccr2a := to_tccr2a s OR push_bit 1 1,
       to_ocr2a := 2, to_timsk2 := to_timsk2 s OR (push_bit 1 1 OR push_bit 0 1)\<rparr>"

text \<open>The program does not call this one.\<close>

definition select_button :: "touch \<Rightarrow> touch" where
  "select_button s =
     (let s = s\<lparr>to_admux := to_admux s AND NOT MUX3_MASK\<rparr>;
          s = s\<lparr>to_adcsrb := to_adcsrb s AND NOT (push_bit 3 1)\<rparr>;
          s = (if to_current_button s \<ge> PAD_WORD_SIZE then s\<lparr>to_adcsrb := to_adcsrb s OR push_bit 3 1\<rparr> else s)
      in s\<lparr>to_admux := to_admux s OR (to_current_button s AND MUX3_MASK)\<rparr>)"

definition process_data :: "touch \<Rightarrow> touch" where
  "process_data s = (if to_current_button s = NUM_CYCLES then process_data_array s else process_data_button s)"

definition generate_pulse :: "touch \<Rightarrow> touch" where
  "generate_pulse s =
     (if to_current_button s = NUM_CYCLES then disable_comparator s
      else let s = disable_comparator s; s = s\<lparr>to_is_pressed := 0\<rparr> in enable_comparator s)"

text \<open>The start, over what the memory and the registers hold.\<close>

definition touch_init :: "touch \<Rightarrow> touch" where
  "touch_init s =
     (let s = s\<lparr>to_handle := HANDLE_BEFORE_PULSE, to_interval := 0, to_current := (0, 0), to_prev := (0, 0),
                to_button_state := (0, 0), to_current_button := MIN_BUTTON\<rparr>;
          s = touch_timer_init s
      in s\<lparr>to_ddra := to_ddra s OR DRIVE_PIN_MASK, to_didr1 := to_didr1 s OR (push_bit 1 1 OR push_bit 0 1),
           to_acsr := to_acsr s OR (push_bit 1 1 OR push_bit 0 1), to_debug := 0\<rparr>)"

definition touch_try :: "touch \<Rightarrow> touch" where
  "touch_try s =
     (if to_handle s \<noteq> HANDLE_PULSE \<and> to_handle s \<noteq> HANDLE_PROCESS then s
      else if to_handle s = HANDLE_PULSE then (generate_pulse s)\<lparr>to_handle := HANDLE_BEFORE_PROCESS\<rparr>
      else (process_data (touch_pulse False s))\<lparr>to_handle := HANDLE_BEFORE_PULSE\<rparr>)"

section \<open>The interrupts\<close>

definition touch_timer2 :: "touch \<Rightarrow> touch" where
  "touch_timer2 s =
     (if to_handle s = HANDLE_BEFORE_PULSE then s\<lparr>to_handle := HANDLE_PULSE\<rparr>
      else if to_handle s = HANDLE_BEFORE_PROCESS then s\<lparr>to_handle := HANDLE_PROCESS\<rparr>
      else s)"

definition touch_comparator :: "touch \<Rightarrow> touch" where
  "touch_comparator s =
     (let s = (if to_is_pressed s = 0 then s\<lparr>to_sent := to_sent s @ [Touch_debug (to_current_button s)]\<rparr> else s)
      in s\<lparr>to_is_pressed := 1\<rparr>)"

text \<open>The turns of the main loop and the two interrupts, in any order.\<close>

datatype touch_event = Try_pads | Tick | Touched

fun touch_step :: "touch_event \<Rightarrow> touch \<Rightarrow> touch" where
  "touch_step Try_pads s = touch_try s"
| "touch_step Tick s = touch_timer2 s"
| "touch_step Touched s = touch_comparator s"

definition touch_run :: "touch_event list \<Rightarrow> touch \<Rightarrow> touch" where
  "touch_run es s = fold touch_step es s"


section \<open>A round\<close>

fun is_report :: "touch_msg \<Rightarrow> bool" where
  "is_report (Touch_button a b c) = True"
| "is_report (Touch_debug a) = False"

definition reports :: "touch \<Rightarrow> touch_msg list" where
  "reports s = filter is_report (to_sent s)"

text \<open>What a report depends on.\<close>

definition pads_at :: "u8 \<Rightarrow> pads \<Rightarrow> pads \<Rightarrow> pads \<Rightarrow> u8 \<Rightarrow> u8 \<Rightarrow> touch_msg list \<Rightarrow> touch \<Rightarrow> bool" where
  "pads_at h prev cur acc n k ms s \<longleftrightarrow> to_handle s = h \<and> to_prev s = prev \<and> to_current s = cur
     \<and> to_button_state s = acc \<and> to_interval s = n \<and> to_current_button s = k \<and> reports s = ms"

lemma touch_run_simps [simp]:
  "touch_run [] s = s" "touch_run (e # es) s = touch_run es (touch_step e s)"
  "touch_run (es @ fs) s = touch_run fs (touch_run es s)"
  by (simp_all add: touch_run_def)

text \<open>Events that do not move the loop; only the comparator leaves a trace.\<close>

definition idle_event :: "u8 \<Rightarrow> touch_event \<Rightarrow> bool" where
  "idle_event h e \<longleftrightarrow> e = Touched \<or> (e = Try_pads \<and> h \<noteq> HANDLE_PULSE \<and> h \<noteq> HANDLE_PROCESS)
     \<or> (e = Tick \<and> h \<noteq> HANDLE_BEFORE_PULSE \<and> h \<noteq> HANDLE_BEFORE_PROCESS)"

lemma idle_run:
  assumes "\<forall>e \<in> set es. idle_event h e" "pads_at h prev cur acc n k ms s"
  shows "pads_at h prev cur acc n k ms (touch_run es s)
    \<and> to_is_pressed (touch_run es s) = (if Touched \<in> set es then 1 else to_is_pressed s)"
  using assms
proof (induction es arbitrary: s)
  case (Cons e es)
  have "pads_at h prev cur acc n k ms (touch_step e s)
    \<and> to_is_pressed (touch_step e s) = (if e = Touched then 1 else to_is_pressed s)"
    using Cons.prems by (cases e) (auto simp: pads_at_def idle_event_def touch_try_def touch_timer2_def touch_comparator_def reports_def)
  with Cons.IH [of "touch_step e s"] Cons.prems(1) show ?case by auto
qed simp

text \<open>
  A round charges a pad and looks at it: the timer, the loop, the timer, the loop, with any events
  between them that do not move the loop. The pad counts as touched when the comparator
  answers between the two turns of the loop.
\<close>

definition pad_round :: "bool \<Rightarrow> touch_event list \<Rightarrow> bool" where
  "pad_round pressed es \<longleftrightarrow> (\<exists>xs ys zs ws. es = Tick # xs @ Try_pads # ys @ Tick # zs @ Try_pads # ws
     \<and> set xs \<subseteq> {Tick, Touched} \<and> set ys \<subseteq> {Try_pads, Touched} \<and> set zs \<subseteq> {Tick, Touched} \<and> set ws \<subseteq> {Try_pads, Touched}
     \<and> (pressed \<longleftrightarrow> Touched \<in> set ys \<union> set zs))"

lemma pad_round_run:
  assumes "pad_round pressed es" "pads_at HANDLE_BEFORE_PULSE prev cur acc n k ms s"
  shows "\<exists>u. pads_at HANDLE_PROCESS prev cur acc n k ms u \<and> (k \<noteq> NUM_CYCLES \<longrightarrow> to_is_pressed u = of_flag pressed)
    \<and> (\<forall>prev cur acc n k ms. pads_at HANDLE_BEFORE_PULSE prev cur acc n k ms (touch_try u)
          \<longrightarrow> pads_at HANDLE_BEFORE_PULSE prev cur acc n k ms (touch_run es s))"
proof -
  from assms(1) obtain xs ys zs ws where
    es: "es = Tick # xs @ Try_pads # ys @ Tick # zs @ Try_pads # ws" and
    sets: "set xs \<subseteq> {Tick, Touched}" "set ys \<subseteq> {Try_pads, Touched}" "set zs \<subseteq> {Tick, Touched}" "set ws \<subseteq> {Try_pads, Touched}"
    and pressed: "pressed \<longleftrightarrow> Touched \<in> set ys \<union> set zs"
    unfolding pad_round_def by blast
  have idle: "\<forall>e \<in> set xs. idle_event HANDLE_PULSE e" "\<forall>e \<in> set ys. idle_event HANDLE_BEFORE_PROCESS e"
    "\<forall>e \<in> set zs. idle_event HANDLE_PROCESS e" "\<forall>e \<in> set ws. idle_event HANDLE_BEFORE_PULSE e"
    using sets by (auto simp: idle_event_def handle_defs)
  define s1 where "s1 = touch_run xs (touch_timer2 s)"
  define s2 where "s2 = touch_run ys (touch_try s1)"
  define u where "u = touch_run zs (touch_timer2 s2)"
  have "pads_at HANDLE_PULSE prev cur acc n k ms (touch_timer2 s)"
    using assms(2) by (simp add: pads_at_def touch_timer2_def reports_def)
  from idle_run [OF idle(1) this] have s1: "pads_at HANDLE_PULSE prev cur acc n k ms s1" by (simp add: s1_def)
  have "pads_at HANDLE_BEFORE_PROCESS prev cur acc n k ms (touch_try s1)
    \<and> (k \<noteq> NUM_CYCLES \<longrightarrow> to_is_pressed (touch_try s1) = 0)"
    using s1 by (auto simp: pads_at_def touch_try_def generate_pulse_def enable_comparator_def disable_comparator_def reports_def Let_def)
  with idle_run [OF idle(2), of prev cur acc n k ms "touch_try s1"]
  have s2: "pads_at HANDLE_BEFORE_PROCESS prev cur acc n k ms s2"
    "k \<noteq> NUM_CYCLES \<Longrightarrow> to_is_pressed s2 = of_flag (Touched \<in> set ys)"
    by (simp_all add: s2_def of_flag_def)
  have "pads_at HANDLE_PROCESS prev cur acc n k ms (touch_timer2 s2) \<and> to_is_pressed (touch_timer2 s2) = to_is_pressed s2"
    using s2(1) by (simp add: pads_at_def touch_timer2_def reports_def handle_defs)
  with idle_run [OF idle(3), of prev cur acc n k ms "touch_timer2 s2"] s2(2) pressed
  have u: "pads_at HANDLE_PROCESS prev cur acc n k ms u" "k \<noteq> NUM_CYCLES \<Longrightarrow> to_is_pressed u = of_flag pressed"
    by (auto simp: u_def of_flag_def)
  have run: "touch_run es s = touch_run ws (touch_try u)" unfolding es by (simp add: u_def s2_def s1_def)
  then show ?thesis
    using u idle_run [OF idle(4), THEN conjunct1] unfolding run by (intro exI [of _ u] conjI allI impI) simp_all
qed

lemma pad_round_button:
  assumes "pad_round pressed es" "pads_at HANDLE_BEFORE_PULSE prev cur acc n k ms s" "k \<noteq> NUM_CYCLES"
  shows "pads_at HANDLE_BEFORE_PULSE prev (if pressed then state_raise_bit cur k else cur) acc n (k + 1) ms (touch_run es s)"
proof -
  from pad_round_run [OF assms(1,2)] assms(3) obtain u where u: "pads_at HANDLE_PROCESS prev cur acc n k ms u"
    "to_is_pressed u = of_flag pressed"
    "\<And>prev cur acc n k ms. pads_at HANDLE_BEFORE_PULSE prev cur acc n k ms (touch_try u)
       \<Longrightarrow> pads_at HANDLE_BEFORE_PULSE prev cur acc n k ms (touch_run es s)" by blast
  show ?thesis
    by (rule u(3)) (use u(1,2) assms(3) in \<open>auto simp: pads_at_def touch_try_def process_data_def process_data_button_def
      touch_pulse_def reports_def handle_defs Let_def\<close>)
qed

text \<open>What a finished scan leads to: the pads of this press, its length, and the report at its end.\<close>

definition scan_done :: "pads \<Rightarrow> pads \<Rightarrow> u8 \<Rightarrow> pads \<times> u8 \<times> touch_msg list" where
  "scan_done cur acc n =
     (if cur \<noteq> (0, 0) then (state_update cur acc, n + 1, [])
      else if acc \<noteq> (0, 0) then ((0, 0), 0, [Touch_button (fst acc) (snd acc) n])
      else ((0, 0), n, []))"

lemma pad_round_array:
  assumes "pad_round pressed es" "pads_at HANDLE_BEFORE_PULSE prev cur acc n NUM_CYCLES ms s"
    "state_update prev acc = acc" "scan_done cur acc n = (acc', n', ms')"
  shows "pads_at HANDLE_BEFORE_PULSE cur (0, 0) acc' n' 0 (ms @ ms') (touch_run es s) \<and> state_update cur acc' = acc'"
proof -
  from pad_round_run [OF assms(1,2)] obtain u where u: "pads_at HANDLE_PROCESS prev cur acc n NUM_CYCLES ms u"
    "\<And>prev cur acc n k ms. pads_at HANDLE_BEFORE_PULSE prev cur acc n k ms (touch_try u)
       \<Longrightarrow> pads_at HANDLE_BEFORE_PULSE prev cur acc n k ms (touch_run es s)" by blast
  have acc: "cur = prev \<Longrightarrow> state_update cur acc = acc" "state_update (0, 0) acc = acc"
    using assms(3) by (simp_all add: state_update_def)
  have same: "(fst cur = fst prev \<and> snd cur = snd prev) \<longleftrightarrow> cur = prev"
    "fst x = 0 \<and> snd x = 0 \<longleftrightarrow> x = (0, 0)" for x :: pads by (auto simp: prod_eq_iff)
  have "pads_at HANDLE_BEFORE_PULSE cur (0, 0) acc' n' 0 (ms @ ms') (touch_try u)"
    using u(1) assms(4) acc unfolding scan_done_def
    by (auto simp: pads_at_def touch_try_def process_data_def process_data_array_def touch_send_def
        state_equal_def state_is_zero_def same touch_pulse_def reports_def handle_defs MIN_BUTTON_def Let_def split: if_splits)
  moreover have "state_update cur acc' = acc'"
    using assms(4) by (auto simp: scan_done_def state_update_def split: if_splits)
  ultimately show ?thesis using u(2) by blast
qed


section \<open>Scans and presses\<close>

definition touched :: "nat \<Rightarrow> bool list \<Rightarrow> pads" where
  "touched m bs = fold (\<lambda>i c. if bs ! i then state_raise_bit c (of_nat i) else c) [0..<m] (0, 0)"

text \<open>Eleven rounds for the pads, and one more that looks at the whole.\<close>

definition pad_scan :: "bool list \<Rightarrow> touch_event list \<Rightarrow> bool" where
  "pad_scan bs es \<longleftrightarrow> length bs = 11 \<and> (\<exists>rounds rest pressed. es = concat rounds @ rest \<and> length rounds = 11
     \<and> (\<forall>i < 11. pad_round (bs ! i) (rounds ! i)) \<and> pad_round pressed rest)"

lemma touched_simps:
  "touched 0 bs = (0, 0)"
  "touched (Suc m) bs = (if bs ! m then state_raise_bit (touched m bs) (of_nat m) else touched m bs)"
  by (simp_all add: touched_def)

lemma touched_bits:
  assumes "m \<le> 11"
  shows "bit (fst (touched m bs)) i \<longleftrightarrow> i < 8 \<and> i < m \<and> bs ! i"
    "bit (snd (touched m bs)) i \<longleftrightarrow> 8 + i < m \<and> bs ! (8 + i)"
proof -
  have "(\<forall>i. bit (fst (touched m bs)) i \<longleftrightarrow> i < 8 \<and> i < m \<and> bs ! i) \<and> (\<forall>i. bit (snd (touched m bs)) i \<longleftrightarrow> 8 + i < m \<and> bs ! (8 + i))"
    using assms
  proof (induction m)
    case 0
    then show ?case by (simp add: touched_simps)
  next
    case (Suc m)
    then have m: "unat (of_nat m :: u8) = m" "(of_nat m :: u8) < PAD_WORD_SIZE \<longleftrightarrow> m < 8"
      by (simp_all add: unat_of_nat_u8 u8_less_iff PAD_WORD_SIZE_def)
    have high: "unat ((of_nat m :: u8) - PAD_WORD_SIZE) = m - 8" if "\<not> m < 8"
      using m that by (subst unat_u8_minus) (simp_all add: PAD_WORD_SIZE_def u8_le_iff)
    have one: "bit (push_bit k (1 :: u8)) i \<longleftrightarrow> i = k" if "k < 8" for k i
      unfolding bit_push_bit_iff using that by (auto simp: bit_1_iff)
    show ?case
    proof (cases "bs ! m")
      case False
      then show ?thesis using Suc unfolding touched_simps by (auto simp: less_Suc_eq)
    next
      case True
      then show ?thesis
        using Suc m high one [of m] one [of "m - 8"] unfolding touched_simps
        by (cases "m < 8") (auto simp: state_raise_bit_def bit_or_iff less_Suc_eq simp del: push_bit_of_1)
    qed
  qed
  then show "bit (fst (touched m bs)) i \<longleftrightarrow> i < 8 \<and> i < m \<and> bs ! i"
    "bit (snd (touched m bs)) i \<longleftrightarrow> 8 + i < m \<and> bs ! (8 + i)" by blast+
qed

lemma pad_scan_run:
  assumes "pad_scan bs es" "pads_at HANDLE_BEFORE_PULSE prev (0, 0) acc n 0 ms s" "state_update prev acc = acc"
    "scan_done (touched 11 bs) acc n = (acc', n', ms')"
  shows "pads_at HANDLE_BEFORE_PULSE (touched 11 bs) (0, 0) acc' n' 0 (ms @ ms') (touch_run es s)
    \<and> state_update (touched 11 bs) acc' = acc'"
proof -
  from assms(1) obtain rounds rest pressed where es: "es = concat rounds @ rest" "length rounds = 11"
    "\<And>i. i < 11 \<Longrightarrow> pad_round (bs ! i) (rounds ! i)" "pad_round pressed rest" unfolding pad_scan_def by blast
  have "pads_at HANDLE_BEFORE_PULSE prev (touched m bs) acc n (of_nat m) ms (touch_run (concat (take m rounds)) s)" if "m \<le> 11" for m
    using that
  proof (induction m)
    case 0
    then show ?case using assms(2) by (simp add: touched_simps)
  next
    case (Suc m)
    have "(of_nat m :: u8) \<noteq> NUM_CYCLES"
      using Suc.prems by (simp add: u8_eq_iff unat_of_nat_u8 NUM_CYCLES_def MAX_BUTTON_def)
    from pad_round_button [OF es(3) [of m] Suc.IH this] Suc.prems es(2) show ?case
      by (simp add: take_Suc_conv_app_nth touched_simps add.commute)
  qed
  from this [of 11] es(2) have "pads_at HANDLE_BEFORE_PULSE prev (touched 11 bs) acc n NUM_CYCLES ms (touch_run (concat rounds) s)"
    by (simp add: NUM_CYCLES_def MAX_BUTTON_def)
  from pad_round_array [OF es(4) this assms(3,4)] show ?thesis by (simp add: es(1))
qed

text \<open>The reports of a series of scans.\<close>

fun press_reports :: "pads \<Rightarrow> u8 \<Rightarrow> pads list \<Rightarrow> touch_msg list" where
  "press_reports acc n [] = []"
| "press_reports acc n (cur # curs) = (case scan_done cur acc n of (acc', n', ms) \<Rightarrow> ms @ press_reports acc' n' curs)"

theorem touch_reports:
  assumes "list_all2 pad_scan bss ess" "pads_at HANDLE_BEFORE_PULSE prev (0, 0) acc n 0 ms s" "state_update prev acc = acc"
  shows "reports (touch_run (concat ess) s) = ms @ press_reports acc n (map (touched 11) bss)"
  using assms
proof (induction bss ess arbitrary: prev acc n ms s rule: list_all2_induct)
  case Nil
  then show ?case by (simp add: pads_at_def)
next
  case (Cons bs bss es ess)
  obtain acc' n' ms' where d: "scan_done (touched 11 bs) acc n = (acc', n', ms')" by (cases "scan_done (touched 11 bs) acc n")
  note run = pad_scan_run [OF Cons.hyps(1) Cons.prems d]
  from Cons.IH [OF run [THEN conjunct1] run [THEN conjunct2]] show ?case by (simp add: d)
qed


lemma press_reports_press:
  assumes "\<forall>c \<in> set cs. c \<noteq> (0, 0)" "fold state_update cs acc \<noteq> (0, 0)"
  shows "press_reports acc n (cs @ [(0, 0)])
    = [Touch_button (fst (fold state_update cs acc)) (snd (fold state_update cs acc)) (n + of_nat (length cs))]"
  using assms
proof (induction cs arbitrary: acc n)
  case (Cons c cs)
  from Cons.IH [of "state_update c acc" "n + 1"] Cons.prems show ?case by (simp add: scan_done_def add.assoc)
qed (simp add: scan_done_def)

lemma fold_state_update_bits:
  "bit (fst (fold state_update cs acc)) i \<longleftrightarrow> bit (fst acc) i \<or> (\<exists>c \<in> set cs. bit (fst c) i)"
  "bit (snd (fold state_update cs acc)) i \<longleftrightarrow> bit (snd acc) i \<or> (\<exists>c \<in> set cs. bit (snd c) i)"
  by (induction cs arbitrary: acc) (auto simp: state_update_def bit_or_iff)

lemma touched_zero: "length bs = 11 \<Longrightarrow> touched 11 bs = (0, 0) \<longleftrightarrow> True \<notin> set bs"
proof -
  assume len: "length bs = 11"
  have "touched 11 bs = (0, 0) \<longleftrightarrow> (\<forall>i. \<not> bit (fst (touched 11 bs)) i) \<and> (\<forall>i. \<not> bit (snd (touched 11 bs)) i)"
    by (auto simp: prod_eq_iff intro!: bit_eqI)
  also have "\<dots> \<longleftrightarrow> (\<forall>i < 11. \<not> bs ! i)"
  proof
    assume no: "(\<forall>i. \<not> bit (fst (touched 11 bs)) i) \<and> (\<forall>i. \<not> bit (snd (touched 11 bs)) i)"
    have "\<not> bs ! i" if "i < 11" for i
      using no touched_bits(1) [of 11 bs i] touched_bits(2) [of 11 bs "i - 8"] that by (cases "i < 8") auto
    then show "\<forall>i < 11. \<not> bs ! i" by blast
  qed (auto simp: touched_bits)
  also have "\<dots> \<longleftrightarrow> True \<notin> set bs" using len by (auto simp: in_set_conv_nth)
  finally show ?thesis .
qed


text \<open>The calls that select a pad are commented out: the multiplexer stays where it is.\<close>

lemma touch_never_selects: "to_admux (touch_run es s) = to_admux s \<and> to_adcsrb (touch_run es s) = to_adcsrb s"
proof -
  have "to_admux (touch_step e s) = to_admux s \<and> to_adcsrb (touch_step e s) = to_adcsrb s" for e s
    by (cases e) (simp_all add: touch_try_def generate_pulse_def enable_comparator_def disable_comparator_def process_data_def
        process_data_array_def process_data_button_def touch_send_def touch_pulse_def touch_timer2_def touch_comparator_def Let_def)
  then show ?thesis by (induction es arbitrary: s) simp_all
qed


text \<open>A scan without anything between the events that move the loop.\<close>

definition plain_round :: "bool \<Rightarrow> touch_event list" where
  "plain_round p = [Tick, Try_pads] @ (if p then [Touched] else []) @ [Tick, Try_pads]"

definition plain_scan :: "bool list \<Rightarrow> touch_event list" where
  "plain_scan bs = concat (map plain_round bs) @ plain_round False"

lemma plain_round_pad: "pad_round p (plain_round p)"
proof -
  have "plain_round p = Tick # [] @ Try_pads # (if p then [Touched] else []) @ Tick # [] @ Try_pads # []"
    by (simp add: plain_round_def)
  then show ?thesis
    unfolding pad_round_def by (intro exI conjI) (assumption, auto)
qed

lemma plain_scan_pad: "length bs = 11 \<Longrightarrow> pad_scan bs (plain_scan bs)"
  unfolding pad_scan_def plain_scan_def using plain_round_pad by (intro conjI exI [of _ "map plain_round bs"]) auto

definition sample_touch :: touch where
  "sample_touch = \<lparr>to_handle = 0, to_is_pressed = 0, to_prev = (0, 0), to_current = (0, 0), to_button_state = (0, 0), to_interval = 0,
     to_current_button = 0, to_debug = 0, to_porta = 0, to_ddra = 0, to_acsr = 0, to_didr1 = 0, to_admux = 0, to_adcsrb = 0,
     to_tccr2a = 0, to_tccr2b = 0, to_ocr2a = 0, to_timsk2 = 0, to_sent = []\<rparr>"


end
