(* ===== verification/Old_Rota.thy ===== *)
theory Old_Rota
  imports Old_Server
begin

text \<open>
  The content of the server between the two retired generations
  (\<open>src/obsoleted/old/b/server/content.cpp\<close>): clients insert and erase texts by their tags, and a timer
  shows one text after the other by pushing its columns to the queue of the controller. The map with its
  iterator is that of \<open>Old_Server\<close>. The numbers of the actions and the renderer are not in that
  directory: an action is a value of \<open>rota_action\<close>, the renderer is a parameter, and the queue holds the
  columns of the messages, whose serial numbers are left out.
\<close>

section \<open>The content\<close>

datatype rota_action = Rota_idle | Rota_insert | Rota_erase | Rota_other

record rota_request =
  rr_action :: rota_action
  rr_tag :: string
  rr_format :: string
  rr_info :: string

text \<open>The timer is armed or not; \<open>ro_queue\<close> is the queue to the controller.\<close>

record rota =
  ro_map :: "(string \<times> rota_request) list"
  ro_iter :: "string option"
  ro_armed :: bool
  ro_queue :: bytes

definition MAX_SPI_QUEUE_SIZE :: nat where "MAX_SPI_QUEUE_SIZE = 50"
definition SPACE_LENGTH :: nat where "SPACE_LENGTH = 4"

definition rota_new :: rota where
  "rota_new = \<lparr>ro_map = [], ro_iter = None, ro_armed = False, ro_queue = []\<rparr>"

definition rota_start :: "rota \<Rightarrow> rota" where
  "rota_start c = c\<lparr>ro_armed := True\<rparr>"

text \<open>The handler of a cancelled wait runs with an error.\<close>

definition rota_update :: "rota_request \<Rightarrow> unix_response \<Rightarrow> rota \<Rightarrow> unix_response \<times> rota" where
  "rota_update request response c =
     (if rr_action request = Rota_idle
      then (response\<lparr>us_status := status_ok, us_string := ''idle action''\<rparr>, c)
      else case map_of (ro_map c) (rr_tag request) of
             None \<Rightarrow>
               if rr_action request = Rota_insert
               then (response\<lparr>us_status := status_ok, us_string := ''New entry is inserted''\<rparr>,
                     c\<lparr>ro_map := map_put (rr_tag request) request (ro_map c), ro_iter := Some (rr_tag request)\<rparr>)
               else if rr_action request = Rota_erase
               then (response\<lparr>us_status := status_error, us_string := reason_cant_erase (rr_tag request)\<rparr>, c)
               else (response, c)
           | Some _ \<Rightarrow>
               if rr_action request = Rota_insert
               then (response\<lparr>us_string := ''Info map entry is updated'', us_status := status_ok\<rparr>,
                     c\<lparr>ro_map := map_put (rr_tag request) request (ro_map c), ro_iter := Some (rr_tag request)\<rparr>)
               else if rr_action request = Rota_erase
               then (response\<lparr>us_string := ''Info map entry is erased'', us_status := status_ok\<rparr>,
                     c\<lparr>ro_map := map_erase (rr_tag request) (ro_map c), ro_iter := None\<rparr>)
               else (response\<lparr>us_status := status_ok\<rparr>, c))"

text \<open>An iterator to an entry that is gone would be undefined.\<close>

definition rota_next :: "rota \<Rightarrow> cpp_exn + rota_request option \<times> rota" where
  "rota_next c =
     (case map_begin (ro_map c) of
        None \<Rightarrow> Inr (None, c)
      | Some first \<Rightarrow>
          let it = (case ro_iter c of None \<Rightarrow> first | Some it \<Rightarrow> it)
          in case map_of (ro_map c) it of
               None \<Rightarrow> Inl Undefined
             | Some request \<Rightarrow> Inr (Some request, c\<lparr>ro_iter := map_next (ro_map c) it\<rparr>))"

definition rota_prepare :: "rota_request \<Rightarrow> bool" where
  "rota_prepare request \<longleftrightarrow> rr_action request = Rota_insert"

definition rota_show :: "(string \<Rightarrow> string \<Rightarrow> bytes option) \<Rightarrow> rota_request \<Rightarrow> rota \<Rightarrow> rota" where
  "rota_show pixelize request c =
     (case pixelize (rr_info request) (rr_format request) of
        None \<Rightarrow> c
      | Some columns \<Rightarrow> c\<lparr>ro_queue := ro_queue c @ replicate SPACE_LENGTH 0 @ columns\<rparr>)"

definition rota_idle_request :: rota_request where
  "rota_idle_request = \<lparr>rr_action = Rota_insert, rr_tag = [], rr_format = cr_format core_request_new, rr_info = ''Nothing to display''\<rparr>"

text \<open>The timer is not armed while its handler runs.\<close>

definition rota_cycle :: "(string \<Rightarrow> string \<Rightarrow> bytes option) \<Rightarrow> bool \<Rightarrow> rota \<Rightarrow> cpp_exn + rota" where
  "rota_cycle pixelize error c =
     (let c = c\<lparr>ro_armed := False\<rparr>
      in if error \<or> length (ro_queue c) > MAX_SPI_QUEUE_SIZE then Inr c
         else case rota_next c of
                Inl e \<Rightarrow> Inl e
              | Inr (request, c) \<Rightarrow>
                  let c = (case request of
                             Some r \<Rightarrow>
                               if rota_prepare r then rota_show pixelize r c
                               else if rota_prepare rota_idle_request then rota_show pixelize rota_idle_request c else c
                           | None \<Rightarrow>
                               if rota_prepare rota_idle_request then rota_show pixelize rota_idle_request c else c)
                  in Inr (c\<lparr>ro_armed := True\<rparr>))"

text \<open>\<open>stop\<close> cancels the timer; its handler runs with an error.\<close>

definition rota_stop :: "(string \<Rightarrow> string \<Rightarrow> bytes option) \<Rightarrow> rota \<Rightarrow> cpp_exn + rota" where
  "rota_stop pixelize c = (if ro_armed c then rota_cycle pixelize True c else Inr c)"

section \<open>Requests, the timer and the controller\<close>

text \<open>The controller takes columns out of the queue.\<close>

datatype rota_event = Client rota_request | Timer | Take nat

fun rota_step :: "(string \<Rightarrow> string \<Rightarrow> bytes option) \<Rightarrow> rota_event \<Rightarrow> rota \<Rightarrow> cpp_exn + rota" where
  "rota_step pixelize (Client request) c = Inr (snd (rota_update request unix_response_new c))"
| "rota_step pixelize Timer c = (if ro_armed c then rota_cycle pixelize False c else Inr c)"
| "rota_step pixelize (Take n) c = Inr (c\<lparr>ro_queue := drop n (ro_queue c)\<rparr>)"

fun rota_run :: "(string \<Rightarrow> string \<Rightarrow> bytes option) \<Rightarrow> rota_event list \<Rightarrow> rota \<Rightarrow> cpp_exn + rota" where
  "rota_run pixelize [] c = Inr c"
| "rota_run pixelize (e # es) c =
     (case rota_step pixelize e c of Inl x \<Rightarrow> Inl x | Inr c \<Rightarrow> rota_run pixelize es c)"

text \<open>The map is ordered, holds insertions only, and the iterator stands at an entry.\<close>

definition inserts :: "(string \<times> rota_request) list \<Rightarrow> bool" where
  "inserts m \<longleftrightarrow> (\<forall>e \<in> set m. rr_action (snd e) = Rota_insert)"

definition rota_ok :: "rota \<Rightarrow> bool" where
  "rota_ok c \<longleftrightarrow> map_ok (ro_map c) \<and> inserts (ro_map c)
     \<and> (case ro_iter c of None \<Rightarrow> True | Some k \<Rightarrow> k \<in> fst ` set (ro_map c))"

lemma rota_ok_other [simp]: "rota_ok (c\<lparr>ro_armed := b\<rparr>) = rota_ok c" "rota_ok (c\<lparr>ro_queue := q\<rparr>) = rota_ok c"
  by (simp_all add: rota_ok_def split: option.split)

lemma inserts_put: "inserts m \<Longrightarrow> rr_action r = Rota_insert \<Longrightarrow> inserts (map_put k r m)"
  by (induction k r m rule: map_put.induct) (auto simp: inserts_def)

lemma inserts_erase: "inserts m \<Longrightarrow> inserts (map_erase k m)"
  by (auto simp: map_erase_def inserts_def)

lemma rota_ok_update: "rota_ok c \<Longrightarrow> rota_ok (snd (rota_update request response c))"
  by (auto simp: rota_ok_def rota_update_def map_ok_put map_ok_erase keys_map_put inserts_put inserts_erase split: option.splits)

lemma rota_next_shows:
  assumes "rota_ok c"
  shows "\<exists>request c'. rota_next c = Inr (request, c') \<and> rota_ok c' \<and> ro_map c' = ro_map c \<and> ro_queue c' = ro_queue c
    \<and> (case request of None \<Rightarrow> ro_map c' = [] | Some r \<Rightarrow> r \<in> snd ` set (ro_map c') \<and> rota_prepare r)"
proof (cases "ro_map c")
  case Nil
  with assms show ?thesis by (auto simp: rota_next_def map_begin_def)
next
  case (Cons e m)
  define it where "it = (case ro_iter c of None \<Rightarrow> fst e | Some it \<Rightarrow> it)"
  have "it \<in> fst ` set (ro_map c)"
    using assms Cons by (auto simp: it_def rota_ok_def split: option.splits)
  then obtain r where r: "map_of (ro_map c) it = Some r" by (metis map_of_eq_None_iff not_None_eq)
  have "map_begin (ro_map c) = Some (fst e)" by (cases e) (simp add: map_begin_def Cons)
  with r have "rota_next c = Inr (Some r, c\<lparr>ro_iter := map_next (ro_map c) it\<rparr>)"
    by (simp add: rota_next_def Let_def flip: it_def)
  moreover have "rota_ok (c\<lparr>ro_iter := map_next (ro_map c) it\<rparr>)"
    using assms map_next_key [of "ro_map c" it] by (auto simp: rota_ok_def split: option.splits)
  moreover have "r \<in> snd ` set (ro_map c)" using map_of_SomeD [OF r] by force
  ultimately show ?thesis using assms by (auto simp: rota_ok_def inserts_def rota_prepare_def)
qed

text \<open>What a turn of the timer pushes: four empty columns and one of the texts.\<close>

definition rota_columns :: "(string \<Rightarrow> string \<Rightarrow> bytes option) \<Rightarrow> rota_request \<Rightarrow> bytes" where
  "rota_columns pixelize r =
     (case pixelize (rr_info r) (rr_format r) of None \<Rightarrow> [] | Some columns \<Rightarrow> replicate 4 0 @ columns)"

lemma rota_show_columns:
  "rota_show pixelize r c = c\<lparr>ro_queue := ro_queue c @ rota_columns pixelize r\<rparr>"
  by (simp add: rota_show_def rota_columns_def SPACE_LENGTH_def split: option.split)

lemma rota_cycle_shows:
  assumes "rota_ok c" "length (ro_queue c) \<le> 50"
  shows "\<exists>r c'. rota_cycle pixelize False c = Inr c' \<and> rota_ok c' \<and> ro_armed c' \<and> ro_map c' = ro_map c
    \<and> ro_queue c' = ro_queue c @ rota_columns pixelize r
    \<and> (if ro_map c = [] then r = rota_idle_request else r \<in> snd ` set (ro_map c))"
proof -
  have "rota_ok (c\<lparr>ro_armed := False\<rparr>)" using assms(1) by simp
  from rota_next_shows [OF this] obtain request c1 where c1: "rota_next (c\<lparr>ro_armed := False\<rparr>) = Inr (request, c1)"
    "rota_ok c1" "ro_map c1 = ro_map c" "ro_queue c1 = ro_queue c"
    "case request of None \<Rightarrow> ro_map c1 = [] | Some r \<Rightarrow> r \<in> snd ` set (ro_map c1) \<and> rota_prepare r" by auto
  define r where "r = (case request of None \<Rightarrow> rota_idle_request | Some r \<Rightarrow> r)"
  have "rota_prepare rota_idle_request" by (simp add: rota_prepare_def rota_idle_request_def)
  then have "rota_cycle pixelize False c = Inr ((rota_show pixelize r c1)\<lparr>ro_armed := True\<rparr>)"
    using assms(2) c1(1,5) by (auto simp: rota_cycle_def MAX_SPI_QUEUE_SIZE_def r_def Let_def split: option.splits)
  moreover have "rota_ok ((rota_show pixelize r c1)\<lparr>ro_armed := True\<rparr>)"
    using c1(2) by (simp add: rota_show_columns)
  ultimately show ?thesis
    using c1(3,4,5)
    by (intro exI [of _ r] exI [of _ "(rota_show pixelize r c1)\<lparr>ro_armed := True\<rparr>"])
      (auto simp: rota_show_columns r_def split: option.splits)
qed

text \<open>No request and no timing breaks the content: every run ends in an ordered map with a good iterator.\<close>

lemma rota_step_ok:
  assumes "rota_ok c"
  shows "\<exists>c'. rota_step pixelize e c = Inr c' \<and> rota_ok c'"
proof (cases e)
  case (Client r)
  then show ?thesis using rota_ok_update [OF assms] by simp
next
  case Timer
  show ?thesis
  proof (cases "ro_armed c \<and> length (ro_queue c) \<le> 50")
    case True
    then show ?thesis using rota_cycle_shows [OF assms, of pixelize] Timer by auto
  next
    case False
    then show ?thesis using Timer assms by (auto simp: rota_cycle_def MAX_SPI_QUEUE_SIZE_def)
  qed
next
  case (Take n)
  then show ?thesis using assms by simp
qed

theorem rota_run_ok: "\<exists>c. rota_run pixelize es (rota_start rota_new) = Inr c \<and> rota_ok c"
proof -
  have "rota_ok c \<Longrightarrow> \<exists>c'. rota_run pixelize es c = Inr c' \<and> rota_ok c'" for c
  proof (induction es arbitrary: c)
    case (Cons e es)
    from rota_step_ok [OF Cons.prems, of pixelize e] obtain d where "rota_step pixelize e c = Inr d" "rota_ok d" by blast
    with Cons.IH [of d] show ?case by simp
  qed simp
  moreover have "rota_ok (rota_start rota_new)" by (simp add: rota_ok_def rota_start_def rota_new_def map_ok_def inserts_def)
  ultimately show ?thesis by blast
qed

text \<open>
  A turn that finds more than fifty columns waiting returns without arming the timer again: whatever the
  clients insert and whatever the controller takes later, nothing is pushed any more, and the
  display stops when the queue has run out.
\<close>

theorem rota_stops:
  assumes "length (ro_queue c) > 50" "rota_run pixelize (Timer # es) c = Inr d"
  shows "\<exists>n. ro_queue d = drop n (ro_queue c)"
proof -
  have "\<not> ro_armed c \<Longrightarrow> rota_run pixelize es c = Inr d \<Longrightarrow> \<exists>n. ro_queue d = drop n (ro_queue c)" for c
  proof (induction es arbitrary: c)
    case Nil
    then show ?case by (auto intro: exI [of _ 0])
  next
    case (Cons e es)
    then obtain c1 where c1: "rota_step pixelize e c = Inr c1" "rota_run pixelize es c1 = Inr d"
      by (auto split: sum.splits)
    have "\<not> ro_armed c1 \<and> (\<exists>n. ro_queue c1 = drop n (ro_queue c))"
    proof (cases e)
      case (Client r)
      then show ?thesis using c1(1) Cons.prems(1) by (auto simp: rota_update_def intro: exI [of _ 0] split: option.splits if_splits)
    next
      case Timer
      then show ?thesis using c1(1) Cons.prems(1) by (auto intro: exI [of _ 0])
    next
      case (Take n)
      then show ?thesis using c1(1) Cons.prems(1) by auto
    qed
    with Cons.IH [of c1] c1(2) show ?case by (auto simp: drop_drop)
  qed
  from this [of "c\<lparr>ro_armed := False\<rparr>"] this [of c] assms show ?thesis
    by (auto simp: rota_cycle_def MAX_SPI_QUEUE_SIZE_def split: if_splits)
qed

text \<open>
  A single long text is enough: after 47 columns or more the next turn of the timer finds
  more than fifty waiting, unless the controller has taken some.
\<close>

lemma rota_long_text:
  assumes "rota_ok c" "ro_queue c = []" "ro_armed c" "\<And>r. 51 \<le> length (rota_columns pixelize r)"
  shows "\<exists>d. rota_run pixelize [Timer, Timer] c = Inr d \<and> \<not> ro_armed d"
proof -
  from rota_cycle_shows [OF assms(1), of pixelize] assms(2) obtain r c' where
    c': "rota_cycle pixelize False c = Inr c'" "ro_armed c'" "ro_queue c' = rota_columns pixelize r" by auto
  then show ?thesis
    using assms(3) assms(4) [of r] by (simp add: rota_cycle_def [of _ _ c'] MAX_SPI_QUEUE_SIZE_def Let_def)
qed

end
