(* ===== verification/Old_Schedule.thy ===== *)
theory Old_Schedule
  imports Old_Net Old_Server "HOL-Library.Multiset"
begin

text \<open>
  The first gateway (\<open>src/obsoleted/old/a/info-gateway\<close>): a thread that runs callbacks at their times
  (\<open>schedule.cpp\<close>), the clock whose three callbacks send time, date and day (\<open>clock.cpp\<close>), and the
  daemon that keeps what it has sent (\<open>daemon.cpp\<close>). Time is counted in nanoseconds and passes between
  any two steps; the local time of a second is the parameter \<open>localtime\<close>. The request is the one of the
  first server.
\<close>

section \<open>The schedule\<close>

text \<open>A multimap: an entry goes behind those with the same key.\<close>

fun mm_insert :: "int \<Rightarrow> 'c \<Rightarrow> (int \<times> 'c) list \<Rightarrow> (int \<times> 'c) list" where
  "mm_insert t c [] = [(t, c)]"
| "mm_insert t c ((t', c') # m) = (if t < t' then (t, c) # (t', c') # m else (t', c') # mm_insert t c m)"

datatype clock_cb = Get_time | Get_date | Get_day

text \<open>
  The thread: before the check of the flag, before it takes the lock, waiting (with the time at which the
  wait ends by itself), before a callback, inside the exchange with the server, at its end, and
  gone with an exception that nothing catches.
\<close>

datatype sched_thread =
    Sched_top
  | Sched_look
  | Sched_wait "int option"
  | Sched_call clock_cb
  | Sched_send clock_cb int
  | Sched_done
  | Sched_dead

record info_gw =
  ig_now :: int
  ig_go :: bool
  ig_map :: "(int \<times> clock_cb) list"
  ig_thread :: sched_thread
  ig_requests :: "(string \<times> core_request) list"
  ig_sent :: "core_request list"

definition NS :: int where "NS = 1000000000"

definition sched_notify :: "info_gw \<Rightarrow> info_gw" where
  "sched_notify s = (case ig_thread s of Sched_wait _ \<Rightarrow> s\<lparr>ig_thread := Sched_top\<rparr> | _ \<Rightarrow> s)"

definition sched_schedule :: "int \<Rightarrow> clock_cb \<Rightarrow> info_gw \<Rightarrow> info_gw" where
  "sched_schedule delay cb s =
     (let point = ig_now s + delay * NS
      in sched_notify (s\<lparr>ig_map := mm_insert point cb (ig_map s)\<rparr>))"

definition sched_stop :: "info_gw \<Rightarrow> info_gw" where
  "sched_stop s = sched_notify (s\<lparr>ig_go := False\<rparr>)"

text \<open>The part of the loop under the lock.\<close>

definition sched_look :: "info_gw \<Rightarrow> info_gw" where
  "sched_look s =
     (case ig_map s of
        [] \<Rightarrow> s\<lparr>ig_thread := Sched_wait None\<rparr>
      | (future_point, callback) # m \<Rightarrow>
          if ig_now s < future_point then s\<lparr>ig_thread := Sched_wait (Some future_point)\<rparr>
          else s\<lparr>ig_map := m, ig_thread := Sched_call callback\<rparr>)"

section \<open>The daemon\<close>

datatype priority = Prio_high | Prio_medium | Prio_low

text \<open>\<open>info\<close> up to the exchange with the server; the priority is not used.\<close>

definition ig_info :: "priority \<Rightarrow> core_request \<Rightarrow> info_gw \<Rightarrow> info_gw" where
  "ig_info prio request s =
     (if cr_action request = action_insert
      then s\<lparr>ig_requests := map_put (cr_tag request) request (ig_requests s)\<rparr>
      else if cr_action request = action_erase
      then s\<lparr>ig_requests := map_erase (cr_tag request) (ig_requests s)\<rparr>
      else s)"

text \<open>
  \<open>stop\<close>, once the thread is gone: every request is sent again as an erasure, until an exchange throws;
  whether all were sent.
\<close>

fun ig_erase_all :: "(core_request \<Rightarrow> bool) \<Rightarrow> (string \<times> core_request) list \<Rightarrow> core_request list \<times> bool" where
  "ig_erase_all answers [] = ([], True)"
| "ig_erase_all answers ((tag, request) # m) =
     (let r = request\<lparr>cr_action := action_erase\<rparr>
      in if answers r then case ig_erase_all answers m of (rs, done_all) \<Rightarrow> (r # rs, done_all)
         else ([], False))"

section \<open>The clock\<close>

definition time_tag :: string where "time_tag = ''clock-time''"
definition date_tag :: string where "date_tag = ''clock-date''"
definition day_tag :: string where "day_tag = ''clock-day''"
definition ig_time_prefix :: string where "ig_time_prefix = ''T ''"
definition ig_date_prefix :: string where "ig_date_prefix = ''D ''"

definition ig_time_info :: "tm \<Rightarrow> string" where
  "ig_time_info t =
     ig_time_prefix @ dec_string (tm_hour t) @ ''-'' @ (if tm_min t < 10 then ''0'' else []) @ dec_string (tm_min t)"

definition ig_date_info :: "tm \<Rightarrow> string" where
  "ig_date_info t = ig_date_prefix @ dec_string (tm_mday t) @ '' '' @ month_vector ! tm_mon t"

definition tomorrow_delay :: "tm \<Rightarrow> int" where
  "tomorrow_delay t = 61 - int (tm_sec t) + (60 - int (tm_min t)) * 60 + (24 - int (tm_hour t)) * 3600"

definition ig_request :: "string \<Rightarrow> string \<Rightarrow> core_request" where
  "ig_request tag info = core_request_new\<lparr>cr_action := action_insert, cr_tag := tag, cr_info := info\<rparr>"

text \<open>What a callback sends, with which priority, and when it runs again.\<close>

fun clock_cb_request :: "clock_cb \<Rightarrow> tm \<Rightarrow> core_request" where
  "clock_cb_request Get_time t = ig_request time_tag (ig_time_info t)"
| "clock_cb_request Get_date t = ig_request date_tag (ig_date_info t)"
| "clock_cb_request Get_day t = ig_request day_tag (day_vector ! tm_wday t)"

fun clock_priority :: "clock_cb \<Rightarrow> priority" where
  "clock_priority Get_time = Prio_medium"
| "clock_priority Get_date = Prio_low"
| "clock_priority Get_day = Prio_low"

fun clock_delay :: "clock_cb \<Rightarrow> tm \<Rightarrow> int" where
  "clock_delay Get_time t = 60 - int (tm_sec t)"
| "clock_delay Get_date t = tomorrow_delay t"
| "clock_delay Get_day t = tomorrow_delay t"

text \<open>A callback reads the clock and starts the exchange; after it, it schedules itself.\<close>

definition clock_begin :: "(int \<Rightarrow> tm) \<Rightarrow> clock_cb \<Rightarrow> info_gw \<Rightarrow> info_gw" where
  "clock_begin localtime cb s =
     (ig_info (clock_priority cb) (clock_cb_request cb (localtime (ig_now s div NS))) s)\<lparr>ig_thread := Sched_send cb (ig_now s)\<rparr>"

definition clock_end :: "(int \<Rightarrow> tm) \<Rightarrow> clock_cb \<Rightarrow> int \<Rightarrow> info_gw \<Rightarrow> info_gw" where
  "clock_end localtime cb began s =
     (let t = localtime (began div NS);
          s = s\<lparr>ig_sent := ig_sent s @ [clock_cb_request cb t]\<rparr>;
          s = sched_schedule (clock_delay cb t) cb s
      in s\<lparr>ig_thread := Sched_top\<rparr>)"

text \<open>The start: the constructor of the clock schedules its callbacks, before the thread runs.\<close>

definition gw_init :: "int \<Rightarrow> info_gw" where
  "gw_init now =
     sched_schedule 0 Get_day (sched_schedule 0 Get_date (sched_schedule 0 Get_time
       \<lparr>ig_now = now, ig_go = True, ig_map = [], ig_thread = Sched_top, ig_requests = [], ig_sent = []\<rparr>))"

section \<open>Steps\<close>

text \<open>A wait may also end without a reason.\<close>

inductive gw_step :: "(int \<Rightarrow> tm) \<Rightarrow> info_gw \<Rightarrow> info_gw \<Rightarrow> bool" for localtime where
  time: "0 \<le> d \<Longrightarrow> gw_step localtime s (s\<lparr>ig_now := ig_now s + d\<rparr>)"
| check: "ig_thread s = Sched_top \<Longrightarrow> gw_step localtime s (s\<lparr>ig_thread := if ig_go s then Sched_look else Sched_done\<rparr>)"
| look: "ig_thread s = Sched_look \<Longrightarrow> gw_step localtime s (sched_look s)"
| wake: "ig_thread s = Sched_wait w \<Longrightarrow> gw_step localtime s (s\<lparr>ig_thread := Sched_top\<rparr>)"
| call: "ig_thread s = Sched_call cb \<Longrightarrow> gw_step localtime s (clock_begin localtime cb s)"
| answer: "ig_thread s = Sched_send cb t \<Longrightarrow> gw_step localtime s (clock_end localtime cb t s)"
| throw: "ig_thread s = Sched_send cb t \<Longrightarrow> gw_step localtime s (s\<lparr>ig_thread := Sched_dead\<rparr>)"
| stop: "gw_step localtime s (sched_stop s)"

inductive gw_reach :: "(int \<Rightarrow> tm) \<Rightarrow> int \<Rightarrow> info_gw \<Rightarrow> bool" for localtime now where
  init: "gw_reach localtime now (gw_init now)"
| step: "gw_reach localtime now s \<Longrightarrow> gw_step localtime s t \<Longrightarrow> gw_reach localtime now t"


section \<open>What is pending\<close>

text \<open>Every callback is either scheduled or running, so the thread never waits without an end.\<close>

definition pending :: "info_gw \<Rightarrow> clock_cb multiset" where
  "pending s = mset (map snd (ig_map s))
     + (case ig_thread s of Sched_call cb \<Rightarrow> {#cb#} | Sched_send cb _ \<Rightarrow> {#cb#} | _ \<Rightarrow> {#})"

lemma mm_insert_mset: "mset (mm_insert t c m) = add_mset (t, c) (mset m)"
  by (induction t c m rule: mm_insert.induct) auto

lemma mm_insert_set: "set (mm_insert t c m) = insert (t, c) (set m)"
  using mm_insert_mset [of t c m] by (metis set_mset_add_mset_insert set_mset_mset)

lemma mm_insert_sorted: "sorted (map fst m) \<Longrightarrow> sorted (map fst (mm_insert t c m))"
  by (induction t c m rule: mm_insert.induct) (auto simp: mm_insert_set)

fun clock_tag :: "clock_cb \<Rightarrow> string" where
  "clock_tag Get_time = time_tag"
| "clock_tag Get_date = date_tag"
| "clock_tag Get_day = day_tag"

lemma clock_cb_request_fields:
  "cr_tag (clock_cb_request cb t) = clock_tag cb" "cr_action (clock_cb_request cb t) = action_insert"
  by (cases cb; simp add: ig_request_def)+

lemma clock_tag_inject: "clock_tag cb = clock_tag cb' \<longleftrightarrow> cb = cb'"
  by (cases cb; cases cb') (simp_all add: time_tag_def date_tag_def day_tag_def)

text \<open>
  What the server has been told last under the tag of a callback was true when the callback began, and
  the callback comes again when its delay after the end of the exchange is over.
\<close>

definition told :: "(int \<Rightarrow> tm) \<Rightarrow> clock_cb \<Rightarrow> int \<Rightarrow> info_gw \<Rightarrow> bool" where
  "told localtime cb t0 s \<longleftrightarrow> t0 \<le> ig_now s
     \<and> map_of (ig_requests s) (clock_tag cb) = Some (clock_cb_request cb (localtime (t0 div NS)))"

definition scheduled :: "(int \<Rightarrow> tm) \<Rightarrow> int \<Rightarrow> clock_cb \<Rightarrow> int \<Rightarrow> info_gw \<Rightarrow> bool" where
  "scheduled localtime start cb d s \<longleftrightarrow> d = start \<or> (\<exists>t0 t1. told localtime cb t0 s \<and> t0 \<le> t1 \<and> t1 \<le> ig_now s
     \<and> d = t1 + clock_delay cb (localtime (t0 div NS)) * NS)"

definition gw_ok :: "(int \<Rightarrow> tm) \<Rightarrow> int \<Rightarrow> info_gw \<Rightarrow> bool" where
  "gw_ok localtime start s \<longleftrightarrow> map_ok (ig_requests s) \<and> sorted (map fst (ig_map s)) \<and> ig_thread s \<noteq> Sched_wait None
     \<and> (ig_thread s \<noteq> Sched_dead \<longrightarrow> pending s = {#Get_time, Get_date, Get_day#})
     \<and> (\<forall>(d, cb) \<in> set (ig_map s). scheduled localtime start cb d s)
     \<and> (\<forall>cb t0. ig_thread s = Sched_send cb t0 \<longrightarrow> told localtime cb t0 s)"

lemma gw_ok_init: "gw_ok localtime now (gw_init now)"
  by (auto simp: gw_ok_def gw_init_def sched_schedule_def sched_notify_def pending_def map_ok_def scheduled_def add_mset_commute)

lemma told_mono:
  assumes "told localtime cb t0 s" "ig_requests t = ig_requests s" "ig_now s \<le> ig_now t"
  shows "told localtime cb t0 t"
  using assms by (simp add: told_def)

lemma scheduled_mono:
  assumes "scheduled localtime start cb d s" "ig_requests t = ig_requests s" "ig_now s \<le> ig_now t"
  shows "scheduled localtime start cb d t"
proof (cases "d = start")
  case False
  then obtain t0 t1 where "told localtime cb t0 s" "t0 \<le> t1" "t1 \<le> ig_now s" "d = t1 + clock_delay cb (localtime (t0 div NS)) * NS"
    using assms(1) unfolding scheduled_def by blast
  moreover from this assms(3) have "told localtime cb t0 t" "t1 \<le> ig_now t" using told_mono [OF _ assms(2,3)] by auto
  ultimately show ?thesis unfolding scheduled_def by blast
qed (simp add: scheduled_def)

text \<open>Steps that leave the requests and the map alone.\<close>

lemma gw_ok_same:
  assumes "gw_ok localtime start s" "ig_requests t = ig_requests s" "ig_now s \<le> ig_now t" "ig_map t = ig_map s"
    "ig_thread t \<noteq> Sched_wait None" "ig_thread t \<noteq> Sched_dead \<longrightarrow> ig_thread s \<noteq> Sched_dead \<and> pending t = pending s"
    "\<And>cb t0. ig_thread t = Sched_send cb t0 \<Longrightarrow> ig_thread s = Sched_send cb t0"
  shows "gw_ok localtime start t"
  using assms(1,2,4-7) scheduled_mono [OF _ assms(2,3)] told_mono [OF _ assms(2,3)] unfolding gw_ok_def by fastforce

lemma sched_look_ok:
  assumes "gw_ok localtime start s" "ig_thread s = Sched_look"
  shows "gw_ok localtime start (sched_look s)"
proof (cases "ig_map s")
  case Nil
  with assms show ?thesis by (simp add: gw_ok_def pending_def)
next
  case (Cons e m)
  obtain d cb where e: "e = (d, cb)" by (cases e)
  show ?thesis
  proof (cases "ig_now s < d")
    case True
    show ?thesis
      by (rule gw_ok_same [OF assms(1)]) (use True Cons e assms(2) in \<open>simp_all add: sched_look_def pending_def\<close>)
  next
    case False
    then have "sched_look s = s\<lparr>ig_map := m, ig_thread := Sched_call cb\<rparr>" by (simp add: sched_look_def Cons e)
    moreover have "scheduled localtime start cb' d' (s\<lparr>ig_map := m, ig_thread := Sched_call cb\<rparr>)"
      if "scheduled localtime start cb' d' s" for cb' d'
      using scheduled_mono [OF that] by simp
    ultimately show ?thesis using assms Cons e by (auto simp: gw_ok_def pending_def)
  qed
qed

lemma clock_begin_ok:
  assumes "gw_ok localtime start s" "ig_thread s = Sched_call cb"
  shows "gw_ok localtime start (clock_begin localtime cb s)"
proof -
  let ?r = "clock_cb_request cb (localtime (ig_now s div NS))"
  let ?t = "clock_begin localtime cb s"
  have t: "?t = s\<lparr>ig_requests := map_put (clock_tag cb) ?r (ig_requests s), ig_thread := Sched_send cb (ig_now s)\<rparr>"
    by (simp add: clock_begin_def ig_info_def clock_cb_request_fields)
  have ok: "map_ok (ig_requests s)" "pending s = {#Get_time, Get_date, Get_day#}" using assms by (simp_all add: gw_ok_def)
  have other: "cb' \<noteq> cb" if "(d', cb') \<in> set (ig_map s)" for cb' d'
  proof
    assume "cb' = cb"
    then have "cb \<in> set (map snd (ig_map s))" using that by force
    then have "0 < count (mset (map snd (ig_map s))) cb" by (simp only: count_greater_zero_iff set_mset_mset)
    moreover have "count (pending s) cb = 1" unfolding ok(2) by (cases cb) simp_all
    moreover have "count (pending s) cb = count (mset (map snd (ig_map s))) cb + 1" using assms(2) by (simp add: pending_def)
    ultimately show False by linarith
  qed
  have "scheduled localtime start cb' d' ?t" if "(d', cb') \<in> set (ig_map s)" for cb' d'
    using assms(1) that other [OF that] ok(1)
    by (auto simp: gw_ok_def scheduled_def told_def t map_of_put clock_tag_inject)
  moreover have "told localtime cb (ig_now s) ?t" using ok(1) by (simp add: told_def t map_of_put)
  ultimately show ?thesis
    using assms ok by (auto simp: gw_ok_def t pending_def map_ok_put)
qed

lemma clock_end_simps:
  assumes "ig_thread s = Sched_send cb t0"
  shows "ig_requests (clock_end localtime cb t0 s) = ig_requests s" "ig_now (clock_end localtime cb t0 s) = ig_now s"
    "ig_map (clock_end localtime cb t0 s) = mm_insert (ig_now s + clock_delay cb (localtime (t0 div NS)) * NS) cb (ig_map s)"
    "ig_thread (clock_end localtime cb t0 s) = Sched_top"
  using assms by (simp_all add: clock_end_def sched_schedule_def sched_notify_def Let_def)

lemma clock_end_ok:
  assumes "gw_ok localtime start s" "ig_thread s = Sched_send cb t0"
  shows "gw_ok localtime start (clock_end localtime cb t0 s)"
proof -
  let ?d = "ig_now s + clock_delay cb (localtime (t0 div NS)) * NS"
  let ?t = "clock_end localtime cb t0 s"
  note t = clock_end_simps [OF assms(2), of localtime]
  have "told localtime cb t0 s" using assms by (simp add: gw_ok_def)
  then have "told localtime cb t0 ?t" "t0 \<le> ig_now s" using told_mono [of localtime cb t0 s ?t] t by (simp_all add: told_def)
  then have "scheduled localtime start cb ?d ?t" using t(2) unfolding scheduled_def by (metis order_refl)
  moreover have "scheduled localtime start cb' d' ?t" if "(d', cb') \<in> set (ig_map s)" for cb' d'
    using assms(1) that scheduled_mono [of localtime start cb' d' s ?t] t by (auto simp: gw_ok_def)
  ultimately show ?thesis
    using assms t by (auto simp: gw_ok_def pending_def mm_insert_set mm_insert_mset mm_insert_sorted)
qed

lemma gw_step_ok: "gw_step localtime s t \<Longrightarrow> gw_ok localtime start s \<Longrightarrow> gw_ok localtime start t"
proof (induction rule: gw_step.induct)
  case (time d s)
  then show ?case by - (rule gw_ok_same [of localtime start s], simp_all add: gw_ok_def pending_def)
next
  case (check s)
  then show ?case by - (rule gw_ok_same [of localtime start s], simp_all add: pending_def split: if_splits)
next
  case (look s)
  then show ?case by (rule sched_look_ok [rotated])
next
  case (wake s w)
  then show ?case by - (rule gw_ok_same [of localtime start s], simp_all add: pending_def)
next
  case (call s cb)
  then show ?case by (rule clock_begin_ok [rotated])
next
  case (answer s cb t)
  then show ?case by (rule clock_end_ok [rotated])
next
  case (throw s cb t)
  then show ?case by - (rule gw_ok_same [of localtime start s], simp_all)
next
  case (stop s)
  then show ?case
    by - (rule gw_ok_same [of localtime start s],
      auto simp: sched_stop_def sched_notify_def pending_def gw_ok_def split: sched_thread.splits)
qed

lemma gw_reach_ok: "gw_reach localtime start s \<Longrightarrow> gw_ok localtime start s"
  by (induction rule: gw_reach.induct) (simp_all add: gw_ok_init gw_step_ok)


section \<open>What the display shows\<close>

text \<open>
  The thread never sleeps without an end, and a callback never runs before its time nor before an
  earlier one.
\<close>

theorem sched_wait_ends:
  assumes "gw_reach localtime start s"
  shows "ig_thread s \<noteq> Sched_wait None"
  using gw_reach_ok [OF assms] by (simp add: gw_ok_def)

lemma sched_look_due:
  assumes "gw_reach localtime start s" "ig_thread (sched_look s) = Sched_call cb" "ig_thread s = Sched_look"
  shows "\<exists>d. (d, cb) \<in> set (ig_map s) \<and> d \<le> ig_now s \<and> (\<forall>(d', cb') \<in> set (ig_map s). d \<le> d')"
proof -
  have "sorted (map fst (ig_map s))" using gw_reach_ok [OF assms(1)] by (simp add: gw_ok_def)
  then show ?thesis
    using assms(2,3) by (intro exI [of _ "fst (hd (ig_map s))"], cases "ig_map s") (auto simp: sched_look_def split: if_splits)
qed

text \<open>
  A local time whose seconds and minutes are those of the count of seconds, as everywhere with whole minutes
  between the zones.
\<close>

definition minutes_regular :: "(int \<Rightarrow> tm) \<Rightarrow> bool" where
  "minutes_regular localtime \<longleftrightarrow> (\<forall>s. int (tm_sec (localtime s)) = s mod 60)
     \<and> (\<forall>s s'. s div 60 = s' div 60 \<longrightarrow>
          tm_hour (localtime s) = tm_hour (localtime s') \<and> tm_min (localtime s) = tm_min (localtime s'))"

lemma due_split: "t1 + (c - t0 div n) * n = c * n + t0 mod n + (t1 - t0)" for t0 t1 c n :: int
  using minus_mod_eq_div_mult [of t0 n] by (simp add: left_diff_distrib)

text \<open>
  Whatever the thread, the clock and the server do: after the first exchange the time that the server was
  told last is right for the whole minute in which the callback read it, and the callback is due
  again at the end of that minute, less than a second late but for what the exchange took.
\<close>

theorem minute_shown:
  assumes "gw_reach localtime start s" "minutes_regular localtime" "(d, Get_time) \<in> set (ig_map s)" "d \<noteq> start"
  shows "\<exists>t0 t1 r. map_of (ig_requests s) time_tag = Some r \<and> t0 \<le> t1 \<and> t1 \<le> ig_now s
    \<and> (\<forall>t. t div NS div 60 = t0 div NS div 60 \<longrightarrow> cr_info r = ig_time_info (localtime (t div NS)))
    \<and> d = (t0 div NS div 60 + 1) * 60 * NS + t0 mod NS + (t1 - t0)"
proof -
  have "scheduled localtime start Get_time d s" using gw_reach_ok [OF assms(1)] assms(3) by (auto simp: gw_ok_def)
  with assms(4) obtain t0 t1 where t: "told localtime Get_time t0 s" "t0 \<le> t1" "t1 \<le> ig_now s"
    "d = t1 + (60 - int (tm_sec (localtime (t0 div NS)))) * NS" unfolding scheduled_def by auto
  let ?r = "ig_request time_tag (ig_time_info (localtime (t0 div NS)))"
  have r: "map_of (ig_requests s) time_tag = Some ?r" using t(1) by (simp add: told_def)
  have info: "cr_info ?r = ig_time_info (localtime (t div NS))" if "t div NS div 60 = t0 div NS div 60" for t
  proof -
    have "tm_hour (localtime (t div NS)) = tm_hour (localtime (t0 div NS))"
      "tm_min (localtime (t div NS)) = tm_min (localtime (t0 div NS))"
      using assms(2) that unfolding minutes_regular_def by blast+
    then show ?thesis by (simp add: ig_request_def ig_time_info_def)
  qed
  let ?s = "t0 div NS"
  have "60 - int (tm_sec (localtime ?s)) = (?s div 60 + 1) * 60 - ?s"
    using assms(2) minus_mult_div_eq_mod [of ?s 60] by (simp add: minutes_regular_def algebra_simps)
  then have "d = (?s div 60 + 1) * 60 * NS + t0 mod NS + (t1 - t0)" using t(4) by (simp only: due_split)
  with r info t(2,3) show ?thesis by blast
qed

text \<open>
  The date and the day come again at one minute and one second past one in the night, not at midnight:
  for that hour they are those of yesterday.
\<close>

definition days_regular :: "(int \<Rightarrow> tm) \<Rightarrow> bool" where
  "days_regular localtime \<longleftrightarrow> (\<forall>s. int (tm_sec (localtime s)) = s mod 60
     \<and> int (tm_min (localtime s)) = s div 60 mod 60 \<and> int (tm_hour (localtime s)) = s div 3600 mod 24)"

theorem date_comes_late:
  assumes "gw_reach localtime start s" "days_regular localtime" "(d, cb) \<in> set (ig_map s)" "d \<noteq> start" "cb \<noteq> Get_time"
  shows "\<exists>t0 t1. map_of (ig_requests s) (clock_tag cb) = Some (clock_cb_request cb (localtime (t0 div NS)))
    \<and> t0 \<le> t1 \<and> t1 \<le> ig_now s \<and> d = ((t0 div NS div 86400 + 1) * 86400 + 3661) * NS + t0 mod NS + (t1 - t0)"
proof -
  have "scheduled localtime start cb d s" using gw_reach_ok [OF assms(1)] assms(3) by (auto simp: gw_ok_def)
  moreover have "clock_delay cb = tomorrow_delay" using assms(5) by (cases cb) (simp_all add: fun_eq_iff)
  ultimately obtain t0 t1 where t: "told localtime cb t0 s" "t0 \<le> t1" "t1 \<le> ig_now s"
    "d = t1 + tomorrow_delay (localtime (t0 div NS)) * NS" using assms(4) unfolding scheduled_def by auto
  let ?s = "t0 div NS"
  have split: "x = 86400 * (x div 86400) + 3600 * (x div 3600 mod 24) + 60 * (x div 60 mod 60) + x mod 60" for x :: int
  proof -
    have "x div 3600 = x div 60 div 60" "x div 86400 = x div 3600 div 24" by (simp_all add: zdiv_zmult2_eq [symmetric])
    then show ?thesis
      using mult_div_mod_eq [of 60 x] mult_div_mod_eq [of 60 "x div 60"] mult_div_mod_eq [of 24 "x div 3600"] by linarith
  qed
  have "tomorrow_delay (localtime ?s) = (?s div 86400 + 1) * 86400 + 3661 - ?s"
    using assms(2) split [of ?s] by (simp add: tomorrow_delay_def days_regular_def)
  then have "d = ((?s div 86400 + 1) * 86400 + 3661) * NS + t0 mod NS + (t1 - t0)" using t(4) by (simp only: due_split)
  with t(1-3) show ?thesis unfolding told_def by blast
qed

text \<open>
  \<open>stop\<close> notifies without the lock: between the check of the flag and the wait it is lost, and the thread
  that is joined sleeps until the next callback is due.
\<close>

theorem sched_stop_late:
  assumes "ig_thread s = Sched_look" "ig_map s = (d, cb) # m" "ig_now s < d"
  shows "ig_thread (sched_look (sched_stop s)) = Sched_wait (Some d) \<and> \<not> ig_go (sched_look (sched_stop s))"
  using assms by (simp add: sched_stop_def sched_notify_def sched_look_def)

text \<open>An exchange that throws, as it does without a server, ends the thread: nothing is ever sent again.\<close>

theorem sched_dead_stays:
  assumes "gw_step localtime s t" "ig_thread s = Sched_dead"
  shows "ig_thread t = Sched_dead \<and> ig_sent t = ig_sent s"
  using assms by (cases rule: gw_step.cases) (simp_all add: sched_stop_def sched_notify_def)

text \<open>When the daemon stops with a server that answers, every text is erased there.\<close>

lemma ig_erase_all_sent:
  assumes "\<forall>r. answers r"
  shows "ig_erase_all answers m = (map (\<lambda>(tag, r). r\<lparr>cr_action := action_erase\<rparr>) m, True)"
  using assms by (induction m) (auto simp: Let_def)


text \<open>A clock at Greenwich, and the first turn of the thread.\<close>

definition sample_local :: "int \<Rightarrow> tm" where
  "sample_local s = \<lparr>tm_sec = nat (s mod 60), tm_min = nat (s div 60 mod 60), tm_hour = nat (s div 3600 mod 24),
     tm_mday = 1, tm_mon = 0, tm_wday = 0\<rparr>"

lemma sample_local_regular: "minutes_regular sample_local" "days_regular sample_local"
proof -
  have "s div 3600 = s div 60 div 60" for s :: int by (simp add: zdiv_zmult2_eq [symmetric])
  then show "minutes_regular sample_local" "days_regular sample_local"
    by (simp_all add: minutes_regular_def days_regular_def sample_local_def)
qed

lemma minute_shown_witness:
  "\<exists>s. gw_reach sample_local 0 s \<and> (60 * NS, Get_time) \<in> set (ig_map s)
    \<and> (\<exists>t0 t1 r. map_of (ig_requests s) time_tag = Some r \<and> t0 \<le> t1 \<and> t1 \<le> ig_now s
      \<and> (\<forall>t. t div NS div 60 = t0 div NS div 60 \<longrightarrow> cr_info r = ig_time_info (sample_local (t div NS)))
      \<and> 60 * NS = (t0 div NS div 60 + 1) * 60 * NS + t0 mod NS + (t1 - t0))"
proof -
  let ?s1 = "(gw_init 0)\<lparr>ig_thread := Sched_look\<rparr>"
  let ?s2 = "sched_look ?s1"
  let ?s3 = "clock_begin sample_local Get_time ?s2"
  let ?s = "clock_end sample_local Get_time 0 ?s3"
  have init: "ig_thread (gw_init 0) = Sched_top" "ig_go (gw_init 0)"
    "ig_map (gw_init 0) = [(0, Get_time), (0, Get_date), (0, Get_day)]" "ig_now (gw_init 0) = 0" "ig_requests (gw_init 0) = []"
    by (simp_all add: gw_init_def sched_schedule_def sched_notify_def)
  have s2: "ig_thread ?s2 = Sched_call Get_time" "ig_now ?s2 = 0" "ig_map ?s2 = [(0, Get_date), (0, Get_day)]" "ig_requests ?s2 = []"
    using init by (simp_all add: sched_look_def)
  have s3: "ig_thread ?s3 = Sched_send Get_time 0" "ig_now ?s3 = 0" "ig_map ?s3 = [(0, Get_date), (0, Get_day)]"
    "map_of (ig_requests ?s3) time_tag = Some (clock_cb_request Get_time (sample_local 0))"
    using s2 by (simp_all add: clock_begin_def ig_info_def ig_request_def)
  have s: "(60 * NS, Get_time) \<in> set (ig_map ?s)"
    unfolding clock_end_simps(3) [OF s3(1)] s3(2) mm_insert_set by (simp add: sample_local_def)
  have "gw_reach sample_local 0 ?s1" using gw_reach.step [OF gw_reach.init gw_step.check [OF init(1)], of sample_local] init(2) by simp
  then have "gw_reach sample_local 0 ?s2" by (rule gw_reach.step) (simp add: gw_step.look)
  then have "gw_reach sample_local 0 ?s3" by (rule gw_reach.step) (simp add: gw_step.call s2(1))
  then have reach: "gw_reach sample_local 0 ?s" by (rule gw_reach.step) (rule gw_step.answer [OF s3(1)])
  have "60 * NS \<noteq> 0" by (simp add: NS_def)
  from minute_shown [OF reach sample_local_regular(1) s this] reach s show ?thesis by blast
qed

end
