(* ===== verification/Old_Mutex.thy ===== *)
theory Old_Mutex
  imports Util_Queue
begin

text \<open>
  The queues of the retired server (\<open>src/obsoleted/old/server-obsolete/mutex-queue.hpp\<close> and
  \<open>condition-queue.hpp\<close>): a list behind a mutex with two functions, one that a push into the empty queue
  calls after it has let the mutex go, and one that a pop from the empty queue calls with the mutex in
  hand. The functions work on a world \<open>'w\<close>; during a wait the queue may change.
\<close>

section \<open>\<open>mutex::queue_t\<close>\<close>

record ('a, 'w) mutex_queue =
  mx_holder :: "'a list"
  mx_notify :: "'w \<Rightarrow> 'w"
  mx_wait :: "'a list \<times> 'w \<Rightarrow> 'a list \<times> 'w"

definition mxq_new :: "('a, 'w) mutex_queue" where
  "mxq_new = \<lparr>mx_holder = [], mx_notify = (\<lambda>w. w), mx_wait = (\<lambda>s. s)\<rparr>"

definition mxq_set_notify_wait ::
  "('w \<Rightarrow> 'w) \<Rightarrow> ('a list \<times> 'w \<Rightarrow> 'a list \<times> 'w) \<Rightarrow> ('a, 'w) mutex_queue \<Rightarrow> ('a, 'w) mutex_queue" where
  "mxq_set_notify_wait notify wait q = q\<lparr>mx_notify := notify, mx_wait := wait\<rparr>"

text \<open>\<open>push\<close> up to the end of the lock, with the length it found, and the rest.\<close>

definition mxq_push_locked :: "('a, 'w) mutex_queue \<Rightarrow> 'a \<Rightarrow> nat \<times> ('a, 'w) mutex_queue" where
  "mxq_push_locked q r = (length (mx_holder q), q\<lparr>mx_holder := mx_holder q @ [r]\<rparr>)"

definition mxq_push :: "('a, 'w) mutex_queue \<times> 'w \<Rightarrow> 'a \<Rightarrow> ('a, 'w) mutex_queue \<times> 'w" where
  "mxq_push s r =
     (case s of (q, w) \<Rightarrow>
        case mxq_push_locked q r of (len, q) \<Rightarrow> (q, if len = 0 then mx_notify q w else w))"

text \<open>\<open>pop\<close>: what it does when it has not to wait, or has waited.\<close>

definition mxq_take :: "('a, 'w) mutex_queue \<Rightarrow> 'a option \<times> ('a, 'w) mutex_queue" where
  "mxq_take q =
     (case mx_holder q of [] \<Rightarrow> (None, q) | r # rs \<Rightarrow> (Some r, q\<lparr>mx_holder := rs\<rparr>))"

definition mxq_pop :: "('a, 'w) mutex_queue \<times> 'w \<Rightarrow> 'a option \<times> ('a, 'w) mutex_queue \<times> 'w" where
  "mxq_pop s =
     (case s of (q, w) \<Rightarrow>
        let (holder, w) = (if length (mx_holder q) = 0 then mx_wait q (mx_holder q, w) else (mx_holder q, w))
        in case mxq_take (q\<lparr>mx_holder := holder\<rparr>) of (r, q) \<Rightarrow> (r, q, w))"

definition mxq_clear :: "('a, 'w) mutex_queue \<Rightarrow> ('a, 'w) mutex_queue" where
  "mxq_clear q = q\<lparr>mx_holder := []\<rparr>"

definition mxq_notify_one :: "('a, 'w) mutex_queue \<times> 'w \<Rightarrow> ('a, 'w) mutex_queue \<times> 'w" where
  "mxq_notify_one s = (fst s, mx_notify (fst s) (snd s))"

definition mxq_empty :: "('a, 'w) mutex_queue \<Rightarrow> bool" where
  "mxq_empty q \<longleftrightarrow> mx_holder q = []"

definition mxq_size :: "('a, 'w) mutex_queue \<Rightarrow> nat" where
  "mxq_size q = length (mx_holder q)"

text \<open>Without the two functions it is the queue that the daemon has now.\<close>

interpretation mxq: fifo "\<lambda>q x. fst (mxq_push (q, ()) x)" "\<lambda>q. mxq_take q" mx_holder
  by unfold_locales (simp_all add: mxq_push_def mxq_push_locked_def mxq_take_def)

lemma mxq_pop_new:
  assumes "mx_wait q = (\<lambda>s. s)"
  shows "mxq_pop (q, w) = (case mxq_take q of (r, q) \<Rightarrow> (r, q, w))"
  using assms by (cases q) (simp add: mxq_pop_def)

section \<open>\<open>condition::queue_t\<close>: many that push, one that pops\<close>

text \<open>
  Where the one that pops is; how many that push have let the mutex go and are about to notify;
  what was pushed and what was popped.
\<close>

datatype popper = Popper_away | Popper_waits | Popper_woken

record 'a waiting_room =
  wr_queue :: "('a, unit) mutex_queue"
  wr_popper :: popper
  wr_notifying :: nat
  wr_in :: "'a list"
  wr_out :: "'a list"

definition room_take :: "'a waiting_room \<Rightarrow> 'a waiting_room" where
  "room_take s =
     (case mxq_take (wr_queue s) of
        (None, q) \<Rightarrow> s\<lparr>wr_queue := q, wr_popper := Popper_away\<rparr>
      | (Some r, q) \<Rightarrow> s\<lparr>wr_queue := q, wr_popper := Popper_away, wr_out := wr_out s @ [r]\<rparr>)"

definition room_push :: "'a \<Rightarrow> 'a waiting_room \<Rightarrow> 'a waiting_room" where
  "room_push r s =
     (case mxq_push_locked (wr_queue s) r of
        (len, q) \<Rightarrow> s\<lparr>wr_queue := q, wr_notifying := (if len = 0 then wr_notifying s + 1 else wr_notifying s),
                      wr_in := wr_in s @ [r]\<rparr>)"

inductive room_step :: "'a waiting_room \<Rightarrow> 'a waiting_room \<Rightarrow> bool" where
  push: "room_step s (room_push r s)"
| notify: "0 < wr_notifying s \<Longrightarrow>
    room_step s (s\<lparr>wr_notifying := wr_notifying s - 1,
      wr_popper := (if wr_popper s = Popper_waits then Popper_woken else wr_popper s)\<rparr>)"
| pop_waits: "wr_popper s = Popper_away \<Longrightarrow> mx_holder (wr_queue s) = [] \<Longrightarrow> room_step s (s\<lparr>wr_popper := Popper_waits\<rparr>)"
| pop_takes: "wr_popper s = Popper_away \<Longrightarrow> mx_holder (wr_queue s) \<noteq> [] \<Longrightarrow> room_step s (room_take s)"
| spurious: "wr_popper s = Popper_waits \<Longrightarrow> room_step s (s\<lparr>wr_popper := Popper_woken\<rparr>)"
| woken: "wr_popper s = Popper_woken \<Longrightarrow> room_step s (room_take s)"

inductive room_reach :: "'a waiting_room \<Rightarrow> bool" where
  start: "room_reach \<lparr>wr_queue = mxq_new, wr_popper = Popper_away, wr_notifying = 0, wr_in = [], wr_out = []\<rparr>"
| step: "room_reach s \<Longrightarrow> room_step s t \<Longrightarrow> room_reach t"

definition room_ok :: "'a waiting_room \<Rightarrow> bool" where
  "room_ok s \<longleftrightarrow> wr_in s = wr_out s @ mx_holder (wr_queue s)
     \<and> (wr_popper s = Popper_waits \<and> mx_holder (wr_queue s) \<noteq> [] \<longrightarrow> 0 < wr_notifying s)"

lemma room_take_ok: "room_ok s \<Longrightarrow> room_ok (room_take s)"
  by (cases "mx_holder (wr_queue s)") (simp_all add: room_ok_def room_take_def mxq_take_def)

lemma room_step_ok: "room_step s t \<Longrightarrow> room_ok s \<Longrightarrow> room_ok t"
  by (induction rule: room_step.induct) (auto simp: room_take_ok, auto simp: room_ok_def room_push_def mxq_push_locked_def)

text \<open>
  No wake-up is lost: while the one that pops sleeps and something is queued, one of those that push is
  about to notify. What was popped is always the beginning of what was pushed, in this order.
\<close>

theorem room_no_lost_wakeup:
  assumes "room_reach s"
  shows "wr_in s = wr_out s @ mx_holder (wr_queue s)
     \<and> (wr_popper s = Popper_waits \<and> mx_holder (wr_queue s) \<noteq> [] \<longrightarrow> 0 < wr_notifying s)"
proof -
  have "room_ok s"
    using assms by (induction rule: room_reach.induct) (simp_all add: room_step_ok room_ok_def [of "\<lparr>wr_queue = _, wr_popper = _, wr_notifying = _, wr_in = _, wr_out = _\<rparr>"] mxq_new_def)
  then show ?thesis by (simp add: room_ok_def)
qed

end
