(* ===== verification/Old_Uart.thy ===== *)
theory Old_Uart
  imports Old_Serial Cpp_Text
begin

text \<open>
  The serial port of a device library (\<open>src/obsoleted/old/lib-obsolete/device/src/uart.cpp\<close>), the one before
  the port of \<open>Old_Serial\<close>, with the same codec. The terminal is the environment: what \<open>::read\<close> and \<open>::write\<close>
  return are arguments, opening and configuring it is its success. A read that waits for a message
  takes one answer of \<open>::read\<close> after the other; with the last one it still waits.
\<close>

section \<open>The port\<close>

text \<open>The bytes of a read, none when its time is over, or an error with its text.\<close>

datatype tty_answer = Tty_bytes bytes | Tty_error string

record uart =
  ua_buffer :: bytes
  ua_error :: string
  ua_line :: bytes

definition MAX_READ_SIZE :: nat where "MAX_READ_SIZE = 80"
definition UART_HEADER_LEFT :: nat where "UART_HEADER_LEFT = 2"
definition UART_HEADER_RIGHT :: nat where "UART_HEADER_RIGHT = 2"

text \<open>
  \<open>write_tty\<close>: the loop that copies the message stores zeros; only a result of zero counts as a failure.
\<close>

definition uart_write_tty :: "int \<Rightarrow> string \<Rightarrow> bytes \<Rightarrow> uart \<Rightarrow> bool \<times> uart" where
  "uart_write_tty result strerror msg s =
     (let buffer = map (\<lambda>info. 0) msg;
          s = s\<lparr>ua_line := ua_line s @ take (nat result) buffer\<rparr>
      in if result = 0 then (False, s\<lparr>ua_error := ''uart: Failed to write to linux device: '' @ [CHR 0x22] @ strerror @ [CHR 0x22]\<rparr>)
         else (True, s))"

definition uart_write :: "int \<Rightarrow> string \<Rightarrow> bytes \<Rightarrow> uart \<Rightarrow> bool \<times> uart" where
  "uart_write result strerror src s =
     (if length src < UART_HEADER_RIGHT \<or> length src > unat DEV_MAX_SUB_MATRIX_SIZE then (False, s)
      else let msg_size = of_nat (length src - UART_HEADER_RIGHT);
               msg = dev_encode [DEV_EYE_CATCH, msg_size] src
           in uart_write_tty result strerror msg s)"

text \<open>
  \<open>read_decode\<close>: the range that is spliced ends one byte behind the message; behind the end of the list the
  behaviour is undefined. A message that is not complete counts as read.
\<close>

definition uart_read_decode :: "uart \<Rightarrow> cpp_exn + bool \<times> bytes \<times> uart" where
  "uart_read_decode s =
     (if length (ua_buffer s) < UART_HEADER_LEFT then Inr (False, [], s)
      else case dev_decode 2 (ua_buffer s) of
             Some [eye_catch, msg_size] \<Rightarrow>
               if eye_catch \<noteq> DEV_EYE_CATCH
               then Inr (False, [], s\<lparr>ua_buffer := tl (ua_buffer s),
                                     ua_error := ua_error s @ ''Expecting eye catch found something different ''\<rparr>)
               else if unat msg_size < UART_HEADER_RIGHT
               then Inr (False, [], s\<lparr>ua_error := ua_error s @ ''Message size is too small''\<rparr>)
               else let target_size = UART_HEADER_RIGHT + unat msg_size
                    in if length (ua_buffer s) \<ge> UART_HEADER_LEFT + target_size then
                         let rest = drop UART_HEADER_LEFT (ua_buffer s)
                         in if length rest < target_size + 1 then Inl Undefined
                            else Inr (True, take (target_size + 1) rest, s\<lparr>ua_buffer := drop (target_size + 1) rest\<rparr>)
                       else Inr (True, [], s)
           | _ \<Rightarrow> Inr (False, [], s))"

definition uart_read_tty :: "tty_answer \<Rightarrow> uart \<Rightarrow> bool \<times> uart" where
  "uart_read_tty answer s =
     (case answer of
        Tty_bytes bs \<Rightarrow> (True, s\<lparr>ua_buffer := ua_buffer s @ take (MAX_READ_SIZE - 1) bs\<rparr>)
      | Tty_error strerror \<Rightarrow>
          (False, s\<lparr>ua_error := ua_error s @ ''Error during ::read call '' @ [CHR 0x22] @ strerror @ [CHR 0x22]\<rparr>))"

text \<open>\<open>read\<close>: whether it succeeded, the message and the answers that are left; \<open>None\<close> when it still waits.\<close>

fun uart_read :: "bool \<Rightarrow> tty_answer list \<Rightarrow> uart \<Rightarrow> cpp_exn + (bool \<times> bytes \<times> tty_answer list \<times> uart) option" where
  "uart_read block answers s =
     (case (if ua_buffer s \<noteq> [] then uart_read_decode s else Inr (False, [], s)) of
        Inl e \<Rightarrow> Inl e
      | Inr (True, msg, s) \<Rightarrow> Inr (Some (True, msg, answers, s))
      | Inr (False, _, s) \<Rightarrow>
          (case answers of
             [] \<Rightarrow> Inr None
           | answer # answers \<Rightarrow>
               (case uart_read_tty answer s of
                  (False, s) \<Rightarrow> if block then uart_read block answers s else Inr (Some (ua_error s = [], [], answers, s))
                | (True, s) \<Rightarrow>
                    (case uart_read_decode s of
                       Inl e \<Rightarrow> Inl e
                     | Inr (True, msg, s) \<Rightarrow> Inr (Some (True, msg, answers, s))
                     | Inr (False, _, s) \<Rightarrow>
                         if block then uart_read block answers s else Inr (Some (ua_error s = [], [], answers, s))))))"

definition uart_get_error :: "uart \<Rightarrow> string \<times> uart" where
  "uart_get_error s = (ua_error s, s\<lparr>ua_error := []\<rparr>)"

text \<open>\<open>read_status\<close>; a single character goes to the text as it is.\<close>

definition uart_read_status :: "u8 \<Rightarrow> tty_answer list \<Rightarrow> uart \<Rightarrow> cpp_exn + (tty_answer list \<times> uart) option" where
  "uart_read_status status answers s =
     (case uart_read True answers s of
        Inl e \<Rightarrow> Inl e
      | Inr None \<Rightarrow> Inr None
      | Inr (Some (False, _, _, s)) \<Rightarrow>
          Inl (Runtime_error (''uart: Failed to read message: '' @ [CHR 0x22] @ fst (uart_get_error s) @ [CHR 0x22]))
      | Inr (Some (True, msg, answers, s)) \<Rightarrow>
          (case dev_decode_modify 2 msg of
             Some ([serial_id, msg_id], msg) \<Rightarrow>
               if msg_id \<noteq> DEV_STATUS
               then Inl (Runtime_error (''uart: Waiting for status, but '' @ [CHR 0x22, char_of (unat msg_id), CHR 0x22] @ '' is arrived''))
               else (case dev_decode_modify 1 msg of
                       Some ([msg_status], _) \<Rightarrow>
                         if msg_status \<noteq> status
                         then Inl (Runtime_error (''uart: Arrived status value: '' @ [CHR 0x22, char_of (unat msg_status), CHR 0x22]
                                @ '' doesn't match expected one: '' @ [CHR 0x22, char_of (unat status), CHR 0x22]))
                         else Inr (Some (answers, s))
                     | _ \<Rightarrow> Inl (Runtime_error ''uart: Failed to decode status value''))
           | _ \<Rightarrow> Inl (Runtime_error ''uart: Failed to decode status message'')))"

definition uart_write_status :: "int \<Rightarrow> string \<Rightarrow> bytes \<Rightarrow> uart \<Rightarrow> cpp_exn + uart" where
  "uart_write_status result strerror msg s =
     (case uart_write result strerror msg s of
        (True, s) \<Rightarrow> Inr s
      | (False, s) \<Rightarrow> Inl (Runtime_error (''Failed to write '' @ [CHR 0x22] @ fst (uart_get_error s) @ [CHR 0x22])))"

text \<open>
  The constructor, once the port is open: the greeting, whose number is in the headers no more, and six
  messages with their answers. \<open>writes\<close> are the results of \<open>::write\<close>.
\<close>

definition uart_messages :: "bytes list" where
  "uart_messages =
     [dev_encode [DEV_HANDSHAKE, 1] [], dev_encode [DEV_PIXEL_DELAY, 2, 5] [], dev_encode [DEV_PHRASE_DELAY, 3, 15] [],
      dev_encode [DEV_STABLE_DELAY, 4, 50] [], dev_encode [DEV_BRIGHTNESS, 5, DEV_BRIGHTNESS_MAX] [], dev_encode [DEV_INIT, 6] []]"

fun uart_dialogue :: "(int \<times> string) list \<Rightarrow> bytes list \<Rightarrow> tty_answer list \<Rightarrow> uart \<Rightarrow> cpp_exn + (tty_answer list \<times> uart) option" where
  "uart_dialogue ((result, strerror) # writes) (msg # msgs) answers s =
     (case uart_write_status result strerror msg s of
        Inl e \<Rightarrow> Inl e
      | Inr s \<Rightarrow>
          (case uart_read_status DEV_STATUS_OK answers s of
             Inr (Some (answers, s)) \<Rightarrow> uart_dialogue writes msgs answers s
           | r \<Rightarrow> r))"
| "uart_dialogue writes msgs answers s = Inr (Some (answers, s))"

definition uart_new :: "u8 \<Rightarrow> (int \<times> string) list \<Rightarrow> tty_answer list \<Rightarrow> cpp_exn + (tty_answer list \<times> uart) option" where
  "uart_new hello writes answers =
     (case uart_read_status hello answers \<lparr>ua_buffer = [], ua_error = [], ua_line = []\<rparr> of
        Inr (Some (answers, s)) \<Rightarrow> uart_dialogue writes uart_messages answers s
      | r \<Rightarrow> r)"


section \<open>What it does\<close>

text \<open>Whatever is written, only zeros are put on the line.\<close>

theorem uart_writes_zeros: "\<exists>n. ua_line (snd (uart_write result strerror src s)) = ua_line s @ replicate n 0"
  by (auto simp: uart_write_def uart_write_tty_def Let_def map_replicate_const intro: exI [of _ 0])

text \<open>A write that fails in the kernel counts as a success.\<close>

lemma uart_write_error_ignored:
  assumes "result < 0" "2 \<le> length src" "length src \<le> 220"
  shows "fst (uart_write result strerror src s) \<and> ua_line (snd (uart_write result strerror src s)) = ua_line s"
  using assms by (simp add: uart_write_def uart_write_tty_def UART_HEADER_RIGHT_def DEV_MAX_SUB_MATRIX_SIZE_def)

text \<open>The head of the buffer, as \<open>read_decode\<close> sees it.\<close>

lemma uart_read_decode_Cons:
  assumes "ua_buffer s = eye # sz # rest"
  shows "uart_read_decode s =
    (if eye \<noteq> DEV_EYE_CATCH
     then Inr (False, [], s\<lparr>ua_buffer := sz # rest, ua_error := ua_error s @ ''Expecting eye catch found something different ''\<rparr>)
     else if unat sz < 2 then Inr (False, [], s\<lparr>ua_error := ua_error s @ ''Message size is too small''\<rparr>)
     else if length rest < unat sz + 2 then Inr (True, [], s)
     else if length rest = unat sz + 2 then Inl Undefined
     else Inr (True, take (unat sz + 3) rest, s\<lparr>ua_buffer := drop (unat sz + 3) rest\<rparr>))"
  using assms
  by (auto simp: uart_read_decode_def UART_HEADER_LEFT_def UART_HEADER_RIGHT_def dev_decode_def numeral_2_eq_2 numeral_3_eq_3 Let_def)

text \<open>
  A message with a body of fewer than two bytes stays at the head of the buffer for ever: whatever arrives
  behind it, the read that waits for a message never comes back. The status messages of the controller
  have a body of one byte.
\<close>

lemma uart_stuck:
  assumes "ua_buffer s = DEV_EYE_CATCH # sz # rest" "unat sz < 2"
  shows "uart_read True answers s = Inr None"
  using assms
proof (induction answers arbitrary: s rest)
  case Nil
  then show ?case by (simp add: uart_read_decode_Cons [OF Nil.prems(1)])
next
  case (Cons answer answers)
  define t where "t = s\<lparr>ua_error := ua_error s @ ''Message size is too small''\<rparr>"
  have d: "uart_read_decode s = Inr (False, [], t)"
    using Cons.prems(2) by (simp add: uart_read_decode_Cons [OF Cons.prems(1)] t_def)
  obtain ok u where u: "uart_read_tty answer t = (ok, u)" by force
  then obtain rest' where rest': "ua_buffer u = DEV_EYE_CATCH # sz # rest'"
    using Cons.prems(1) by (cases answer) (auto simp: uart_read_tty_def t_def)
  define v where "v = u\<lparr>ua_error := ua_error u @ ''Message size is too small''\<rparr>"
  have "uart_read_decode u = Inr (False, [], v)" "ua_buffer v = DEV_EYE_CATCH # sz # rest'"
    using Cons.prems(2) rest' by (simp_all add: uart_read_decode_Cons [OF rest'] v_def)
  then show ?case
    using Cons.IH [OF rest' Cons.prems(2)] Cons.IH [of v rest'] Cons.prems(1,2) d u by (cases ok) simp_all
qed

theorem uart_status_hangs:
  assumes "ua_buffer s = dev_reply msg_id serial status @ rest"
  shows "uart_read_status expected answers s = Inr None"
proof -
  have "ua_buffer s = DEV_EYE_CATCH # 1 # [serial, msg_id, status] @ rest" using assms by (simp add: dev_reply_def)
  from uart_stuck [OF this] show ?thesis by (simp add: uart_read_status_def)
qed

text \<open>
  A longer message is never read as it was sent: while it is incomplete an empty one is read, when it
  is complete and nothing follows the behaviour is undefined, and when something follows its first byte
  is read with it.
\<close>

theorem uart_frame_misread:
  assumes "ua_buffer s = dev_message serial msg_id body @ rest" "2 \<le> length body" "length body < 256"
  shows "uart_read_decode s = (case rest of [] \<Rightarrow> Inl Undefined
    | x # xs \<Rightarrow> Inr (True, serial # msg_id # body @ [x], s\<lparr>ua_buffer := xs\<rparr>))"
proof -
  have "unat (of_nat (length body) :: u8) = length body" using assms(3) by (rule unat_of_nat_u8)
  moreover from this have "ua_buffer s = DEV_EYE_CATCH # of_nat (length body) # (serial # msg_id # body @ rest)"
    using assms(1) by (simp add: dev_message_def)
  note uart_read_decode_Cons [OF this]
  ultimately show ?thesis using assms(2) by (cases rest) (simp_all add: numeral_3_eq_3)
qed

lemma uart_part_empty:
  assumes "ua_buffer s = take n (dev_message serial msg_id body)" "2 \<le> n" "n < length body + 4" "2 \<le> length body" "length body < 256"
  shows "uart_read_decode s = Inr (True, [], s)"
proof -
  have len: "unat (of_nat (length body) :: u8) = length body" using assms(5) by (rule unat_of_nat_u8)
  define m where "m = n - 2"
  then have m: "n = Suc (Suc m)" using assms(2) by simp
  have "ua_buffer s = DEV_EYE_CATCH # of_nat (length body) # take m (serial # msg_id # body)"
    using assms(1) by (simp add: dev_message_def m)
  from uart_read_decode_Cons [OF this] len assms(3,4) m show ?thesis by simp
qed

end
