(* ===== verification/Old_Matrix.thy ===== *)
theory Old_Matrix
  imports Old_Scroll
begin

text \<open>
  An earlier matrix of the first controller (\<open>src/obsoleted/old/arduino-obsolete/b\<close>), which renders in the main
  loop: \<open>matrix.c\<close>, and the timer that it waits for, \<open>matrix-timer.c\<close>. \<open>ID_MAX_MATRIX_SIZE\<close> is a comment in
  the header that is left (500, in another place 700), so the length of the array is a parameter. Loops that may not end are
  \<open>partial_function\<close>s; an access outside the array is a value of its own. The busy wait of the timer is a wait
  for its variable to be zero. The 32 columns that are written to the driver are kept in order.
\<close>

section \<open>State\<close>

definition PHYSICAL_MATRIX_SIZE :: u8 where "PHYSICAL_MATRIX_SIZE = SPI_WRITE_MATRIX_SIZE"
definition MATRIX_UPDATE_STARTED :: u8 where "MATRIX_UPDATE_STARTED = push_bit 0 1"
definition MATRIX_UPDATE_FINISHED :: u8 where "MATRIX_UPDATE_FINISHED = push_bit 1 1"
definition MATRIX_RENDERED :: u8 where "MATRIX_RENDERED = push_bit 2 1"
definition SUB_MATRIX_TYPE_MASK :: u8 where
  "SUB_MATRIX_TYPE_MASK = SUB_MATRIX_TYPE_FIRST OR SUB_MATRIX_TYPE_MIDDLE OR SUB_MATRIX_TYPE_LAST"
definition TIMER_INITIAL_VALUE :: u8 where "TIMER_INITIAL_VALUE = 100"

record bmatrix =
  bm_data :: bytes
  bm_size :: "16 word"
  bm_state :: u8
  bm_pixel_delay :: u8
  bm_phrase_delay :: u8
  bm_stable_delay :: u8
  bm_delay_factor :: u8
  bm_tcnt0 :: u8
  bm_timsk0 :: u8
  bm_tccr0a :: u8
  bm_tccr0b :: u8
  bm_tifr0 :: u8
  bm_pictures :: "bytes list"

text \<open>A result may be an access outside the array.\<close>

datatype 'a access = Inside 'a | Outside

section \<open>The timer\<close>

definition matrix_timer_init :: "bmatrix \<Rightarrow> bmatrix" where
  "matrix_timer_init s = s\<lparr>bm_delay_factor := 0, bm_tccr0a := 0, bm_tccr0b := push_bit 2 1 OR push_bit 0 1\<rparr>"

definition matrix_timer_ovf :: "bmatrix \<Rightarrow> bmatrix" where
  "matrix_timer_ovf s =
     (let s = (if bm_delay_factor s > 0 then s\<lparr>bm_delay_factor := bm_delay_factor s - 1\<rparr> else s)
      in s\<lparr>bm_tcnt0 := TIMER_INITIAL_VALUE\<rparr>)"

definition matrix_timer_enable :: "bmatrix \<Rightarrow> bmatrix" where
  "matrix_timer_enable s = s\<lparr>bm_tcnt0 := TIMER_INITIAL_VALUE, bm_tifr0 := bm_tifr0 s OR push_bit 0 1,
                            bm_timsk0 := bm_timsk0 s OR push_bit 0 1\<rparr>"

definition matrix_timer_disable :: "bmatrix \<Rightarrow> bmatrix" where
  "matrix_timer_disable s = s\<lparr>bm_timsk0 := bm_timsk0 s AND NOT (push_bit 0 1)\<rparr>"

text \<open>The interrupts that come while the loop waits.\<close>

definition matrix_timer_wait :: "u8 \<Rightarrow> bmatrix \<Rightarrow> bmatrix" where
  "matrix_timer_wait dot1_sec_delay s =
     (let s = matrix_timer_enable s;
          s = (matrix_timer_ovf ^^ unat (bm_delay_factor s)) s
      in matrix_timer_disable s)"

section \<open>The matrix\<close>

text \<open>The loop of \<open>matrix_init\<close>, whose index is a byte.\<close>

partial_function (option) bm_clear_loop :: "nat \<Rightarrow> u8 \<Rightarrow> bytes \<Rightarrow> bytes option" where
  "bm_clear_loop max_size i data =
     (if unat i < max_size then bm_clear_loop max_size (i + 1) (data[unat i := 0]) else Some data)"

definition bmatrix_init :: "nat \<Rightarrow> bmatrix \<Rightarrow> bmatrix option" where
  "bmatrix_init max_size s =
     (case bm_clear_loop max_size 0 (bm_data s) of
        None \<Rightarrow> None
      | Some data \<Rightarrow> Some (s\<lparr>bm_data := data, bm_size := 0, bm_state := 0, bm_pixel_delay := 2, bm_phrase_delay := 10\<rparr>))"

definition buffer_left_shift :: "bytes \<Rightarrow> u8 \<Rightarrow> u8 \<Rightarrow> bytes" where
  "buffer_left_shift buffer step fill_pattern =
     (let n = unat PHYSICAL_MATRIX_SIZE - unat step;
          buffer = fold (\<lambda>i b. b[i := b ! (i + unat step)]) [0..<n] buffer
      in fold (\<lambda>j b. b[j := fill_pattern]) [n..<unat PHYSICAL_MATRIX_SIZE] buffer)"

text \<open>The first loop of \<open>buffer_right_shift\<close>, whose index is never negative.\<close>

partial_function (option) right_shift_loop :: "u8 \<Rightarrow> u8 \<Rightarrow> bytes \<Rightarrow> bytes access option" where
  "right_shift_loop step i buffer =
     (if 0 \<le> i then
        (if unat i + unat step < length buffer
         then right_shift_loop step (i - 1) (buffer[unat i + unat step := buffer ! unat i])
         else Some Outside)
      else Some (Inside buffer))"

definition buffer_right_shift :: "bytes \<Rightarrow> u8 \<Rightarrow> u8 \<Rightarrow> bytes access option" where
  "buffer_right_shift buffer step fill_pattern =
     (case right_shift_loop step (PHYSICAL_MATRIX_SIZE - step - 1) buffer of
        Some (Inside buffer) \<Rightarrow> Some (Inside (fold (\<lambda>j b. b[j := fill_pattern]) [0..<unat step] buffer))
      | r \<Rightarrow> r)"

definition center_data :: "bmatrix \<Rightarrow> bmatrix access option" where
  "center_data s =
     (if unat (bm_size s) \<ge> unat PHYSICAL_MATRIX_SIZE then Some (Inside s)
      else
        let left = of_nat ((unat PHYSICAL_MATRIX_SIZE - unat (bm_size s)) div 2) :: u8
        in case buffer_right_shift (bm_data s) left 0 of
             None \<Rightarrow> None
           | Some Outside \<Rightarrow> Some Outside
           | Some (Inside data) \<Rightarrow>
               let sz = unat (bm_size s) + unat left;
                   data = fold (\<lambda>i b. b[i := 0]) [sz..<unat PHYSICAL_MATRIX_SIZE] data
               in Some (Inside (s\<lparr>bm_data := data, bm_size := of_nat (unat PHYSICAL_MATRIX_SIZE)\<rparr>)))"

definition show_picture :: "bytes \<Rightarrow> bmatrix \<Rightarrow> bmatrix" where
  "show_picture buffer s = s\<lparr>bm_pictures := bm_pictures s @ [take (unat PHYSICAL_MATRIX_SIZE) buffer]\<rparr>"

text \<open>\<open>render_shift\<close>; the sum of size and width is an \<open>int\<close>, the index has sixteen bits.\<close>

definition bm_render_shift :: "bmatrix \<Rightarrow> bmatrix" where
  "bm_render_shift s =
     (let buffer = replicate (unat PHYSICAL_MATRIX_SIZE) 0;
          s = snd (fold (\<lambda>j (buffer, s).
                let info = (if j < unat (bm_size s) then bm_data s ! j else 0);
                    buffer = buffer_left_shift buffer 1 info
                in (buffer, matrix_timer_wait (bm_pixel_delay s) (show_picture buffer s)))
              [0..<unat (bm_size s) + unat PHYSICAL_MATRIX_SIZE] (buffer, s));
          s = matrix_timer_wait (bm_phrase_delay s) s
      in s\<lparr>bm_state := bm_state s OR MATRIX_RENDERED\<rparr>)"

definition bm_render_stable :: "bmatrix \<Rightarrow> bmatrix" where
  "bm_render_stable s =
     (let s = show_picture (bm_data s) s;
          s = matrix_timer_wait (bm_stable_delay s) s
      in s\<lparr>bm_state := bm_state s OR MATRIX_RENDERED\<rparr>)"

definition bm_render :: "bmatrix \<Rightarrow> bmatrix" where
  "bm_render s = (if unat (bm_size s) > unat PHYSICAL_MATRIX_SIZE then bm_render_shift s else bm_render_stable s)"

section \<open>The messages of the parser\<close>

definition matrix_update_start :: "u8 \<Rightarrow> bmatrix \<Rightarrow> u8 \<times> bmatrix" where
  "matrix_update_start type s =
     (if type AND SUB_MATRIX_TYPE_FIRST \<noteq> 0 then (1, s\<lparr>bm_state := MATRIX_UPDATE_STARTED, bm_size := 0\<rparr>)
      else if type AND SUB_MATRIX_TYPE_MASK = 0 then (0, s)
      else (1, s))"

definition matrix_update :: "nat \<Rightarrow> bytes \<Rightarrow> u8 \<Rightarrow> bmatrix \<Rightarrow> u8 \<times> bmatrix" where
  "matrix_update max_size update_data update_size s =
     (if unat (bm_size s) + unat update_size > max_size then (0, s)
      else (1, s\<lparr>bm_data := fold (\<lambda>i b. b[unat (bm_size s) + i := update_data ! i]) [0..<unat update_size] (bm_data s),
                 bm_size := bm_size s + ucast update_size\<rparr>))"

definition matrix_update_finish :: "u8 \<Rightarrow> bmatrix \<Rightarrow> (u8 \<times> bmatrix) access option" where
  "matrix_update_finish type s =
     (if type AND SUB_MATRIX_TYPE_LAST = 0 then Some (Inside (1, s))
      else case center_data s of
             None \<Rightarrow> None
           | Some Outside \<Rightarrow> Some Outside
           | Some (Inside s) \<Rightarrow> Some (Inside (1, bm_render (s\<lparr>bm_state := bm_state s OR MATRIX_UPDATE_FINISHED\<rparr>))))"

definition matrix_pixel_delay :: "u8 \<Rightarrow> bmatrix \<Rightarrow> bmatrix" where
  "matrix_pixel_delay d s = s\<lparr>bm_pixel_delay := d\<rparr>"

definition matrix_phrase_delay :: "u8 \<Rightarrow> bmatrix \<Rightarrow> bmatrix" where
  "matrix_phrase_delay d s = s\<lparr>bm_phrase_delay := d\<rparr>"

definition matrix_stable_delay :: "u8 \<Rightarrow> bmatrix \<Rightarrow> bmatrix" where
  "matrix_stable_delay d s = s\<lparr>bm_stable_delay := d\<rparr>"

section \<open>Loops that do not end\<close>

text \<open>A byte never reaches a length of 256 or more.\<close>

theorem matrix_init_hangs:
  assumes "256 \<le> max_size"
  shows "bmatrix_init max_size s = None"
proof -
  have "False" if "bm_clear_loop max_size i data = Some d" for i :: u8 and data d
  proof -
    have "max_size = max_size \<longrightarrow> False"
    proof (rule bm_clear_loop.raw_induct [OF _ that, of "\<lambda>m i data d. m = max_size \<longrightarrow> False"])
      fix f and m and i :: u8 and data d
      assume IH: "\<And>m (i :: u8) data d. f m i data = Some d \<Longrightarrow> m = max_size \<longrightarrow> False"
        and body: "(if unat i < m then f m (i + 1) (data[unat i := 0]) else Some data) = Some d"
      show "m = max_size \<longrightarrow> False"
      proof
        assume "m = max_size"
        then have "unat i < m" using assms unat_u8_less [of i] by linarith
        with body IH \<open>m = max_size\<close> show False by auto
      qed
    qed
    then show False by simp
  qed
  then have "bm_clear_loop max_size 0 (bm_data s) = None" by (cases "bm_clear_loop max_size 0 (bm_data s)") auto
  then show ?thesis by (simp add: bmatrix_init_def)
qed

text \<open>
  A matrix that is narrower than the display is to be moved to the middle, but the index of the loop that moves
  it is never below zero: in an array of 500 the main loop hangs, in a shorter one it may write behind it.
\<close>

theorem center_data_hangs:
  assumes "unat (bm_size s) < 32" "287 \<le> length (bm_data s)"
  shows "center_data s = None"
proof -
  let ?left = "of_nat ((32 - unat (bm_size s)) div 2) :: u8"
  have "unat ?left = (32 - unat (bm_size s)) div 2" by (rule unat_of_nat_u8) simp
  then have left: "unat ?left \<le> 16" by simp
  have "False" if "right_shift_loop ?left i buffer = Some r" "287 \<le> length buffer" for i :: u8 and buffer r
  proof -
    have "?left = ?left \<and> 287 \<le> length buffer \<longrightarrow> False"
    proof (rule right_shift_loop.raw_induct [OF _ that(1), of "\<lambda>l i buffer r. l = ?left \<and> 287 \<le> length buffer \<longrightarrow> False"])
      fix f and l i :: u8 and buffer r
      assume IH: "\<And>l (i :: u8) buffer r. f l i buffer = Some r \<Longrightarrow> l = ?left \<and> 287 \<le> length buffer \<longrightarrow> False"
        and body: "(if 0 \<le> i then if unat i + unat l < length buffer then f l (i - 1) (buffer[unat i + unat l := buffer ! unat i])
            else Some Outside else Some (Inside buffer)) = Some r"
      show "l = ?left \<and> 287 \<le> length buffer \<longrightarrow> False"
      proof
        assume l: "l = ?left \<and> 287 \<le> length buffer"
        then have "unat l \<le> 16" "287 \<le> length buffer" using left by (simp_all only:)
        then have "unat i + unat l < length buffer" using unat_u8_less [of i] by linarith
        with body have "f l (i - 1) (buffer[unat i + unat l := buffer ! unat i]) = Some r" by simp
        from IH [OF this] l show False by simp
      qed
    qed
    with that(2) show False by simp
  qed
  then have "right_shift_loop ?left i (bm_data s) = None" for i
    using assms(2) by (cases "right_shift_loop ?left i (bm_data s)") auto
  then show ?thesis
    using assms(1) by (simp add: center_data_def buffer_right_shift_def PHYSICAL_MATRIX_SIZE_def SPI_WRITE_MATRIX_SIZE_def)
qed

text \<open>The waits do not wait: nothing ever gives the variable that they look at another value than zero.\<close>

lemma matrix_timer_never_waits:
  assumes "bm_delay_factor s = 0"
  shows "bm_delay_factor (matrix_timer_wait d s) = 0 \<and> matrix_timer_wait d s = matrix_timer_wait d' s
    \<and> bm_delay_factor (matrix_timer_ovf s) = 0"
  using assms by (simp add: matrix_timer_wait_def matrix_timer_enable_def matrix_timer_disable_def matrix_timer_ovf_def)


section \<open>A wide matrix\<close>

lemma buffer_left_shift_one:
  assumes "length buffer = 32"
  shows "buffer_left_shift buffer 1 x = tl buffer @ [x]"
proof -
  have shifted: "fold (\<lambda>i b. b[i := b ! (i + 1)]) [0..<m] buffer = take m (tl buffer) @ drop m buffer" if "m \<le> 31" for m
    using that
  proof (induction m)
    case (Suc m)
    have "(take m (tl buffer) @ drop m buffer) ! (m + 1) = tl buffer ! m"
      using Suc.prems assms by (simp add: nth_append nth_tl min_def)
    moreover have "drop m buffer = buffer ! m # drop (Suc m) buffer" using Suc.prems assms by (simp add: Cons_nth_drop_Suc)
    ultimately show ?case
      using Suc assms by (simp add: list_update_append take_Suc_conv_app_nth min_def)
  qed simp
  have "unat PHYSICAL_MATRIX_SIZE = 32" by (simp add: PHYSICAL_MATRIX_SIZE_def SPI_WRITE_MATRIX_SIZE_def)
  then have "buffer_left_shift buffer 1 x = (fold (\<lambda>i b. b[i := b ! (i + 1)]) [0..<31] buffer)[31 := x]"
    by (simp add: buffer_left_shift_def upt_rec [of 31 32])
  also have "\<dots> = (take 31 (tl buffer) @ drop 31 buffer)[31 := x]" using shifted [of 31] by simp
  also have "\<dots> = tl buffer @ [x]"
  proof -
    have "drop 31 buffer = [buffer ! 31]" using assms Cons_nth_drop_Suc [of 31 buffer] by simp
    moreover have "take 31 (tl buffer) = tl buffer" using assms by simp
    ultimately show ?thesis using assms by (simp add: list_update_append)
  qed
  finally show ?thesis .
qed

lemma matrix_timer_wait_keeps:
  "bm_pictures (matrix_timer_wait d s) = bm_pictures s \<and> bm_data (matrix_timer_wait d s) = bm_data s
    \<and> bm_size (matrix_timer_wait d s) = bm_size s \<and> bm_state (matrix_timer_wait d s) = bm_state s"
proof -
  have "bm_pictures ((matrix_timer_ovf ^^ n) t) = bm_pictures t \<and> bm_data ((matrix_timer_ovf ^^ n) t) = bm_data t
    \<and> bm_size ((matrix_timer_ovf ^^ n) t) = bm_size t \<and> bm_state ((matrix_timer_ovf ^^ n) t) = bm_state t" for n t
    by (induction n) (simp_all add: matrix_timer_ovf_def Let_def)
  then show ?thesis by (simp add: matrix_timer_wait_def matrix_timer_enable_def matrix_timer_disable_def Let_def)
qed

text \<open>
  A matrix that is wider than the display runs through it from right to left: each picture is the one before,
  moved by a column, from the first column at the right edge to the last one gone.
\<close>

theorem wide_matrix_shown:
  assumes "32 < unat (bm_size s)" "unat (bm_size s) \<le> length (bm_data s)"
  defines "cols \<equiv> replicate 32 0 @ take (unat (bm_size s)) (bm_data s) @ replicate 32 0"
  shows "bm_pictures (bm_render s) = bm_pictures s @ map (\<lambda>j. take 32 (drop (Suc j) cols)) [0..<unat (bm_size s) + 32]"
proof -
  have width: "unat PHYSICAL_MATRIX_SIZE = 32" by (simp add: PHYSICAL_MATRIX_SIZE_def SPI_WRITE_MATRIX_SIZE_def)
  let ?n = "unat (bm_size s)"
  let ?turn = "\<lambda>j (buffer, s). let info = (if j < unat (bm_size s) then bm_data s ! j else 0);
      buffer = buffer_left_shift buffer 1 info in (buffer, matrix_timer_wait (bm_pixel_delay s) (show_picture buffer s))"
  have len: "length cols = ?n + 64" using assms(2) by (simp add: cols_def)
  have at: "cols ! (32 + j) = (if j < ?n then bm_data s ! j else 0)" if "j < ?n + 32" for j
    using that assms(2) by (auto simp: cols_def nth_append)
  have run: "case fold ?turn [0..<m] (replicate 32 0, s) of (buffer, t) \<Rightarrow> buffer = take 32 (drop m cols)
      \<and> bm_pictures t = bm_pictures s @ map (\<lambda>j. take 32 (drop (Suc j) cols)) [0..<m]
      \<and> bm_size t = bm_size s \<and> bm_data t = bm_data s" if "m \<le> ?n + 32" for m
    using that
  proof (induction m)
    case 0
    then show ?case by (simp add: cols_def)
  next
    case (Suc m)
    obtain buffer t where t: "fold ?turn [0..<m] (replicate 32 0, s) = (buffer, t)" by force
    have IH: "buffer = take 32 (drop m cols)" "bm_size t = bm_size s" "bm_data t = bm_data s"
      "bm_pictures t = bm_pictures s @ map (\<lambda>j. take 32 (drop (Suc j) cols)) [0..<m]"
      using Suc t by simp_all
    have "take 32 (drop (Suc m) cols) = tl (take 32 (drop m cols)) @ [cols ! (32 + m)]"
      using Suc.prems len by (intro nth_equalityI) (auto simp: nth_append nth_tl intro!: arg_cong [of _ _ "nth cols"])
    moreover have "length buffer = 32" using IH(1) Suc.prems len by simp
    from buffer_left_shift_one [OF this] have "buffer_left_shift buffer 1 (cols ! (32 + m)) = tl buffer @ [cols ! (32 + m)]" .
    ultimately have b: "buffer_left_shift buffer 1 (if m < ?n then bm_data s ! m else 0) = take 32 (drop (Suc m) cols)"
      using IH(1) at [of m] Suc.prems by simp
    let ?b = "take 32 (drop (Suc m) cols)"
    have "fold ?turn [0..<Suc m] (replicate 32 0, s) = ?turn m (buffer, t)"
      unfolding upt_Suc_append [OF le0] fold_append comp_def t by simp
    also have "\<dots> = (?b, matrix_timer_wait (bm_pixel_delay t) (show_picture ?b t))"
      unfolding prod.case Let_def IH(2,3) b ..
    finally show ?case
      using IH(2-4) matrix_timer_wait_keeps by (simp add: show_picture_def width)
  qed
  from run [of "?n + 32"] show ?thesis
    using assms(1) matrix_timer_wait_keeps
    by (simp add: bm_render_def width bm_render_shift_def Let_def split: prod.splits)
qed

end
