(* ===== verification/Spec2Isabelle.thy ===== *)
theory Spec2Isabelle
  imports Util_Queue Util_Format Pi_Base Pi_Bash Pi_Lifetime Pi_Content Pi_Handle Pi_Dispatch Pi_Ticker Pi_Mcu_Handle Pi_Popen
    Avr_Main Avr_Sched Avr_Fifo Avr_Pictures Avr_Wire Avr_Memory Avr_System Avr_Modes Avr_Preempt Avr_Clock Avr_Silence Avr_Quiet System_Link
    Old_Queue Old_Control Old_Clock Old_Keys
    Old_Codec Old_Server Old_Arduino Old_Serial Old_Net Old_Menu Old_Font Old_Scroll Old_Marquee Old_Window Old_Bitbang Old_Button Old_Touch Old_Rota Old_Schedule Old_Mutex Old_Uart Old_Matrix
begin

text \<open>
  A model of \<open>led-server\<close>: the daemon \<open>led-d\<close> on a Raspberry Pi, the firmware of the
  controller that drives two LED displays, and the protocol between them.

  \<^bold>\<open>The program.\<close> The daemon (\<open>src/src/pi\<close>, helpers in \<open>src/src/util\<close>) runs three threads: the
  shell (\<open>bash.cpp\<close>) starts commands as child processes (\<open>popen.cpp\<close>) and turns their output into
  statuses; the dispatcher (\<open>handle.cpp\<close>) turns statuses into content, renders content to columns
  (\<open>content.cpp\<close>, \<open>render.cpp\<close>, \<open>font.cpp\<close>) and the controller's messages into commands; the link
  (\<open>mcu-handle.cpp\<close>) exchanges frames with the controller over SPI (\<open>spi-dev.cpp\<close>,
  \<open>spi-enable.cpp\<close>, \<open>spi-interrupt.cpp\<close>), one numbered message at a time (\<open>mcu-block.cpp\<close>). They
  talk through queues (\<open>condition-queue.hpp\<close>). The firmware (\<open>src/src/avr\<close>) is one endless loop
  (\<open>avr.c\<close>) over cooperating units, with interrupts for SPI bytes, timers, the two wire bus and
  the knobs: it buffers columns (\<open>flush.c\<close>) and shows them (\<open>display.c\<close>), decodes and answers
  messages (\<open>decode.c\<close>, \<open>encode.c\<close>, \<open>postpone.c\<close>), keeps a menu (\<open>menu.c\<close>, \<open>mode.c\<close>) and shows a clock
  (\<open>watch.c\<close>) when the daemon is silent (\<open>heartbeat.c\<close>). Both share \<open>src/src/const/constant.h\<close>.

  \<^bold>\<open>Foundations.\<close> \<open>Prelude\<close>: bytes and lemmas on words and lists. \<open>Protocol\<close>: \<open>constant.h\<close>.
  \<open>Cpp_Text\<close>: what the daemon uses of \<open>std::string\<close>, number formatting and parsing, exceptions
  as values of \<open>cpp_exn\<close>. \<open>Framing\<close>: the locale \<open>frame_parser\<close> of byte-wise parsers, interpreted on
  the daemon's parser.

  \<^bold>\<open>The daemon.\<close> \<open>Util_Queue\<close> (queues with the locale \<open>fifo\<close>, log core, final action), \<open>Util_Format\<close>
  (tokens and formats), \<open>Pi_Mcu\<close> (encoding, decoding, parser, block, serial numbers),
  \<open>Pi_Mcu_Handle\<close> (the link's rounds, \<open>mcu_step\<close> for their interleaving), \<open>Pi_Spi\<close> (device and lines),
  \<open>Pi_Font\<close> and \<open>Pi_Render\<close>, \<open>Pi_Command\<close>, \<open>Pi_Popen\<close>, \<open>Pi_Bash\<close> (with \<open>bash_step\<close>: loop, callbacks and
  \<open>stop\<close> between atomic regions), \<open>Pi_Lifetime\<close> (the destructor of \<open>popen_t\<close> and who owns it), \<open>Pi_Content\<close>, \<open>Pi_Handle\<close>,
  \<open>Pi_Dispatch\<close> (the thread of the dispatcher between the pushes of the others), \<open>Pi_Ticker\<close> (dispatcher,
  link and controller together: when the running text goes on), \<open>Pi_Base\<close> (start, stop, \<open>main\<close>).

  \<^bold>\<open>The firmware.\<close> \<open>Avr_Ring\<close> and \<open>Avr_Buf\<close> (the rings and the locale that abstracts them to lists,
  interpreted on the 64-byte \<open>buf\<close> and the 255-byte \<open>buffer\<close>), \<open>Avr_Const\<close> (constants, glyphs),
  \<open>Avr_State\<close> (the static variables of each unit as a record, all of them and the registers in
  the record \<open>avr\<close>), \<open>Avr_Timer\<close> (\<open>counter.c\<close>, \<open>cron.c\<close>, \<open>at.c\<close>, \<open>heartbeat.c\<close>), \<open>Avr_Sched\<close> (their
  properties), \<open>Avr_Display\<close> (the bus of the displays and what a display on it reads), \<open>Avr_Flush\<close>,
  \<open>Avr_Link\<close> (\<open>spi.c\<close>, \<open>postpone.c\<close>, \<open>encode.c\<close>, \<open>debug.c\<close>), \<open>Avr_Twi\<close>, \<open>Avr_Watch\<close> (\<open>watch.c\<close>, \<open>font.c\<close>,
  \<open>render.c\<close>, \<open>boot.c\<close>, \<open>buzz.c\<close>), \<open>Avr_Menu\<close> (\<open>menu.c\<close>, \<open>mode.c\<close>), \<open>Avr_Main\<close> (\<open>decode.c\<close>, \<open>rotor.c\<close>,
  \<open>avr.c\<close>). On top of the units: \<open>Avr_Fifo\<close> (the buffers refine a bounded queue), \<open>Avr_Pictures\<close>
  (every picture is finished), \<open>Avr_Memory\<close> (the invariant \<open>avr_inv\<close> of the whole memory, kept by every
  operation and interrupt), \<open>Avr_System\<close> (the main loop with interrupts between its calls as the
  transition system \<open>reach\<close>), \<open>Avr_Modes\<close> (modes and what is armed in them), \<open>Avr_Silence\<close> (ticks,
  jobs, heartbeat and mode together when the daemon falls silent), \<open>Avr_Quiet\<close> (the same in every
  interleaving of the main loop with the interrupts, while nothing arrives), \<open>Avr_Clock\<close> (a second of the clock,
  from its interrupt over the bus to the display), \<open>Avr_Preempt\<close> (an interrupt inside an operation), \<open>Avr_Wire\<close> (the bytes of the wire). \<open>System_Link\<close> and this
  theory join the two programs.

  \<^bold>\<open>The previous controller.\<close> \<open>src/obsoleted/avr-2560\<close> keeps units of an earlier firmware that rest on
  parts which the present one still has. \<open>Old_Queue\<close> (\<open>queue.c\<close>, the ring before \<open>ring.c\<close>, against the same
  abstract queue), \<open>Old_Control\<close> (\<open>feedback.c\<close> with its users \<open>fan.c\<close> and \<open>boost.c\<close>, over the counters of
  \<open>Avr_Timer\<close>; the locale \<open>regulator\<close> is interpreted on both), \<open>Old_Clock\<close> (\<open>clock.c\<close>, \<open>sync.c\<close>, drawn with the
  font of \<open>Avr_Watch\<close>), \<open>Old_Keys\<close> (\<open>key-board.c\<close> on its own \<open>twi.c\<close>: the set-up of a touch sensor and the
  loop over its keys, as steps of the main loop and two interrupts), \<open>Old_Touch\<close> (\<open>button-old.c\<close>, the touch pads before
  it: charged one after the other, and each press reported once in every interleaving).

  \<^bold>\<open>The retired servers.\<close> \<open>src/obsoleted/old\<close> and \<open>src/obsoleted/{util,led-d,gateway}\<close> keep two earlier
  generations, in which clients sent their texts to the daemon over TCP. \<open>Old_Codec\<close>: requests,
  responses and their frames, in both generations. \<open>Old_Server\<close>: the content, the connections and the
  update loop of the first server. \<open>Old_Arduino\<close>: its controller, from the serial interrupts over the
  parser to the commands for the display's driver. \<open>Old_Serial\<close>: the serial port and the pipe of messages
  to that controller, with the start-up dialogue of the two. \<open>Old_Net\<close>: the sockets of the second
  generation, their session in the server and the gateway that fills the display with time and date
  (the locale \<open>postponing\<close> is interpreted on both). \<open>Old_Menu\<close>: the menu that the second server kept itself.
  \<open>Old_Font\<close>: the fonts and the renderer of the first server, against those of \<open>Pi_Font\<close> and \<open>Pi_Render\<close>, and
  the directory of the second one. \<open>Old_Bitbang\<close>: SPI moved by hand, bit by bit. \<open>Old_Scroll\<close>: how the first controller rolls a matrix through the
  display, with the messages to the display's driver and the interrupt that sends them. \<open>Old_Button\<close>: its
  buttons, its start and its test of the display. \<open>Old_Rota\<close>: the content of a server between the two.
  \<open>Old_Schedule\<close>: the first gateway, a thread that runs callbacks at their times, with the clock that tells
  the server time and date. \<open>Old_Mutex\<close>: the queues between the threads of the first server.
  \<open>Old_Uart\<close>: the serial port of an earlier library. \<open>Old_Matrix\<close>: the matrix of an earlier state of the
  controller, rendered in its main loop.

  \<^bold>\<open>The very first display.\<close> \<open>src/obsoleted/old/lib-obsolete/int\<close>: a library that drove a controller over SPI,
  and the controller with two matrices of lamps. \<open>Old_Chip\<close>: the bits on the lines of a matrix and the
  transactions it sees (\<open>ht1632c.c\<close>). \<open>Old_Mega\<close>: the controller (\<open>atmega8a.c\<close>) as steps of its main loop and bytes
  of the bus, and its memory in every interleaving of the two. \<open>Old_Hw\<close>: what its messages do, and the
  master that sends them (\<open>spi-io.cpp\<close>, \<open>spi.cpp\<close>). \<open>Old_Marquee\<close>: the pictures, from the columns of the master to the
  memories of the two matrices. \<open>Old_Window\<close>: an unused driver that draws only the columns that change.

  \<^bold>\<open>Conventions.\<close> Definitions keep the names of the code, with the class or unit as a prefix where
  two share one. Machine integers are words of their width. A callback is a value of an
  enumeration of the functions the program registers, run by a definition that matches on it.
  Answers of the kernel, of \<open>libgpiod\<close>, of the C library and of the devices are arguments. An
  exception is \<open>Inl\<close>, an access behind an array of the firmware \<open>None\<close>. \<open>render_tail\<close> of the
  firmware is a \<open>partial_function\<close>: it fills a picture until it is full; \<open>Avr_Pictures\<close> shows for which
  buffers it ends, and that it does for every picture of the program. No definition uses fuel: loops of the
  retired servers that may not end are \<open>partial_function\<close>s too.

  \<^bold>\<open>What is shown.\<close> For the link: frames survive any cut and any noise before them, the daemon's side
  is a stop and wait protocol in every interleaving, the firmware answers each message with
  columns once its buffers have room for another, and the two together, over the bytes of the wire,
  carry columns to the display buffer and the confirmation back. For the firmware as a whole: its
  memory is well formed in every reachable state, no null function is called, the one step that can
  write outside an array is known, and the jobs that are armed are those of the mode.
  For the shell: the statuses of commands are counted in
  every interleaving, and are independent of how the output is cut into reads; the readers of child
  processes are never destroyed. For the
  dispatcher: what each status and each message of the controller leads to, that nothing waits while
  it sleeps, and under which conditions the running text never runs dry. For the display: the
  columns of texts, numbers and the clock, and the bits on the wire. For the menu: bounds of the
  values and the effect of leaving it, up to the command of the daemon. For the timers: the
  periods, and the tick at which a silent daemon is given up. For the clock: each second reaches the display. For the previous controller: its queue is an exact bounded queue, its fan is regulated to
  the target, its two clocks count the day alike, its keys are reported as they change. Theorems also pin down where the code does not do what it intends to: a lost wake-up, a
  second status after a timeout, a full ring that reads empty, a missing size check, one-shot jobs
  that starve each other, bus requests torn by an interrupt, a late answer that stops the display,
  a handshake that the menu undoes, an interrupt that stops the keys, and others. For the retired servers: requests are answered end to
  end, the start-up dialogue comes through on a bad line, frames and pictures are cut and joined
  without loss; and where they hang, stall or go silent: sizes that wrap around, callbacks that
  run too early, messages taken from a queue before they are accepted.

  \<^bold>\<open>Not modelled.\<close> Log output; the argument parser, \<open>asio\<close> and the creation of threads (their results
  are arguments); busy waiting in the firmware; \<open>buzz_init\<close>, which names a constant that is commented out and is not called;
  preemption of the firmware's main loop inside an operation, but for the case of \<open>Avr_Preempt\<close>
  (interrupt routines are operations of their own, the rings' accesses being atomic blocks in the
  code); shell scripts, unit files, tests, which only print what a device answers; the rest of
  the directory \<open>obsoleted\<close>: the libraries \<open>asio\<close> and \<open>libdaemon\<close> that are copied there, the programs
  that launch a process as a daemon (\<open>launch.hpp\<close>, \<open>arg.cpp\<close>, \<open>log.hpp\<close>), which only call the two, further copies and versions of
  the gateway, of the controller and of the codecs, test programs, and
  four units of the previous controller without behaviour of their own (\<open>poll.c\<close>, whose functions return at
  once, \<open>dac.c\<close>, whose bodies are comments, \<open>timer.c\<close>, which sets registers and calls what it is given, and
  \<open>render.c\<close>, which passes the bytes of a table on to a function that the present firmware has no more).
\<close>

section \<open>Columns from the daemon to the display buffer and back\<close>

lemma deliver_keeps:
  "sent (deliver bs s) = sent s" "waiting (deliver bs s) = waiting s" "a_flush (deliver bs s) = a_flush s"
  by (simp_all add: deliver_def sent_def waiting_def)

text \<open>The firmware's frames, read by the daemon's parser.\<close>

lemma feed_avr_frame:
  "length p < 254 \<Longrightarrow> feed mcu_parse_push mcu_parse_new (avr_frame i n p) = (mcu_parse_new, [n # i # p])"
  unfolding avr_frame_wrap by (rule feed_encode_wrap) simp_all

text \<open>
  The life of a piece of text: a message with columns that the daemon writes while its block is
  engaged with the message's number is decoded by the firmware, its columns are put behind those
  waiting for the display, and the confirmation that the firmware sends back once its buffers
  have room for the next message relaxes the daemon's block and reaches the daemon's dispatcher.
\<close>

theorem columns_confirmed:
  assumes "avr_link_ok s" "decoder_ok (a_decode s)" "de_decoded (a_decode s) = 0"
    "received s = []" "sent s = []" "waiting s = []"
    "buffer_ok (fl_shift_data (a_flush s))" "fl_drain (a_flush s) = 0"
    "length (buffer_held (fl_shift_data (a_flush s))) + length p \<le> 229" "length p \<le> unat LED_ARRAY_SIZE"
    "n \<noteq> SERIAL_ID_TO_IGNORE" "mh_parse h = mcu_parse_new" "m_pending_id (mh_block h) = n"
  shows "\<exists>s1 h1. decode_try (deliver (encode_wrap (encode_join n MSG_ID_LED_ARRAY [Arr p])) s) = Some s1 \<and>
    buffer_held (fl_shift_data (a_flush s1)) = buffer_held (fl_shift_data (a_flush s)) @ p \<and>
    mcu_receive (sent (postpone_try s1)) h = Inr h1 \<and> \<not> block_is_engaged (mh_block h1) \<and>
    m_holder (mh_from_queue h1)
      = m_holder (mh_from_queue h) @ [[n, MSG_ID_STATUS, STATUS_SUCCESS, MSG_ID_LED_ARRAY]]"
proof -
  let ?f = "avr_frame MSG_ID_LED_ARRAY n p"
  let ?s = "deliver ?f s"
  have size: "length (received s) + length ?f < 255" "length p \<le> 26"
    using assms(4,10) by (simp_all add: avr_frame_def)
  note dl = deliver_received [OF assms(1) size(1)]
  have rec: "received ?s = ?f" "?f \<noteq> []" using dl(2) assms(4) by (simp_all add: avr_frame_def)
  have ok: "decoder_ok (a_decode ?s)" "received ?s \<noteq> []" using dl(3) assms(2) rec by simp_all
  have "seen (a_decode ?s) @ received ?s = ?f @ []" using dl(3) assms(3) rec by (simp add: seen_def)
  from decode_try_complete [OF dl(1) ok size(2) this] obtain d t where
    t: "decode_try ?s = Some (decode_init (decode_dispatch t))" "decoder_at ?s d [] t"
    "de_msg_id d = MSG_ID_LED_ARRAY" "de_msg_serial d = n" "unat (de_msg_size d) = length p + 2"
    "de_in_buf d = p @ drop (length p) (de_in_buf (a_decode ?s))" by blast
  note at = decoder_at_simps [OF t(2)]
  have shift: "a_flush t = a_flush s" by (simp add: at deliver_keeps)
  have sz: "de_msg_size d = of_nat (length p + 2)"
    using t(5) size(2) unat_of_nat_u8 [of "length p + 2"] by (simp only: u8_eq_iff)
  have link_t: "avr_link_ok t" by (rule decoder_at_link [OF t(2) dl(1)])
  have pre: "waiting t = []" "sent t = []" using assms(5,6) by (simp_all add: at deliver_keeps)
  let ?s1 = "decode_init (decode_dispatch t)"
  have effect: "buffer_held (fl_shift_data (a_flush ?s1)) = buffer_held (fl_shift_data (a_flush s)) @ p"
    "waiting ?s1 = avr_frame MSG_ID_STATUS n [STATUS_SUCCESS, MSG_ID_LED_ARRAY]"
    "sent ?s1 = []" "received ?s1 = []" "avr_link_ok ?s1" "buffer_ok (fl_shift_data (a_flush ?s1))"
    using led_array_effect [OF link_t _ pre(1), of n p "drop (length p) (de_in_buf (a_decode ?s))"]
      t(3,4,6) sz size(2) assms(7-9,11) shift pre at(1,2)
    by (simp_all add: Let_def decode_init_keeps del: of_nat_add mark_defs)
  have "sent (postpone_try ?s1) = avr_frame MSG_ID_STATUS n [STATUS_SUCCESS, MSG_ID_LED_ARRAY]"
    using postpone_try_effect [OF effect(5,6)] effect(1-4) assms(9) by (simp add: Let_def)
  then have answer: "sent (postpone_try ?s1) = encode_wrap [n, MSG_ID_STATUS, STATUS_SUCCESS, MSG_ID_LED_ARRAY]"
    by (simp only: avr_frame_wrap)
  let ?m = "[n, MSG_ID_STATUS, STATUS_SUCCESS, MSG_ID_LED_ARRAY]"
  have feed: "feed mcu_parse_push mcu_parse_new (encode_wrap ?m) = (mcu_parse_new, [?m])"
    by (rule feed_encode_wrap) simp_all
  obtain h1 where h1: "mcu_accept [?m] h = Inr h1"
    "m_holder (mh_from_queue h1) = m_holder (mh_from_queue h) @ [?m]" "m_pending_id (mh_block h1) = 0"
    using mcu_accept_all [of "[?m]" "m_pending_id (mh_block h)" h] assms(13) by auto
  then have "mcu_receive (encode_wrap ?m) h = Inr (h1\<lparr>mh_parse := mcu_parse_new\<rparr>)"
    by (simp only: mcu_receive_accept assms(12) feed snd_conv fst_conv sum.case)
  with effect(1) h1 answer t(1) show ?thesis
    unfolding encode_join_frame
    by (intro exI [of _ ?s1] exI [of _ "h1\<lparr>mh_parse := mcu_parse_new\<rparr>"]) (simp add: block_is_engaged_def)
qed

lemma columns_confirmed_witness:
  "\<exists>s1 h1. decode_try (deliver (encode_wrap (encode_join 9 MSG_ID_LED_ARRAY [Arr [1, 2, 3]])) avr_reset) = Some s1 \<and>
    mcu_receive (sent (postpone_try s1)) ((mcu_handle_new False)\<lparr>mh_block := \<lparr>m_pending_id = 9\<rparr>\<rparr>) = Inr h1 \<and>
    m_holder (mh_from_queue h1) = [[9, MSG_ID_STATUS, STATUS_SUCCESS, MSG_ID_LED_ARRAY]]"
proof -
  have zero: "sent avr_reset = []" "waiting avr_reset = []" "de_decoded (a_decode avr_reset) = 0"
    "buffer_held (fl_shift_data (a_flush avr_reset)) = []" "fl_drain (a_flush avr_reset) = 0"
    by (simp_all add: sent_def waiting_def avr_reset_def buffer_zero_def buffer_held_def ring_abs_def)
  show ?thesis
    using columns_confirmed [OF link_zero(1) decode_zero(1) zero(3) decode_zero(3) zero(1,2) link_zero(2)
        zero(5), of "[1, 2, 3]" 9 "(mcu_handle_new False)\<lparr>mh_block := \<lparr>m_pending_id = 9\<rparr>\<rparr>"] zero(4)
    by (auto simp: mcu_handle_new_def mq_new_def)
qed

section \<open>A knob turned and a playlist loaded\<close>

text \<open>
  C7: the playlist that the user dials is the playlist that is loaded: when the menu is left with a
  chosen playlist number, the firmware sends the difference to the number that the daemon gave it,
  and the daemon, which still has that number, issues the command for exactly the chosen one,
  and remembers it unless it is zero.
\<close>

theorem dialled_playlist_loaded:
  assumes "avr_link_ok s" "me_state (a_menu s) = STATE_APPLY" "me_param_id (a_menu s) = PARAM_APPLY"
    "me_secondary_param (a_menu s) = PARAM_PLAYLIST"
    "me_param_flag (a_menu s) AND FLAG_MASK_PLAYLIST = FLAG_MASK_PLAYLIST"
    "mode_is_connnected s \<noteq> 0" "mode_get s = MODE_MENU" "me_backup_mode (a_menu s) = MODE_RADIO"
    "sent s = []" "me_param_old (a_menu s) ! unat VALUE_PLAYLIST = h_playlist_id h"
    "me_param_new (a_menu s) ! unat VALUE_PLAYLIST = new" "new \<noteq> h_playlist_id h"
  shows "\<exists>m1 m2. feed mcu_parse_push mcu_parse_new (sent (menu_stop s)) = (mcu_parse_new, [m1, m2]) \<and>
    handle_mcu m1 h = Inr (h\<lparr>h_playlist_id := (if new = 0 then h_playlist_id h else new),
      h_command_queue := (h_command_queue h)\<lparr>m_holder := m_holder (h_command_queue h)
        @ [command_new MPC_PLAYLIST_SET (''led-mpc.sh playlist-set '' @ dec_string (unat new)) 3]\<rparr>\<rparr>)
    \<and> m2 = [SERIAL_ID_TO_IGNORE, MSG_ID_RESUME]"
proof -
  obtain sign_code abs_value where sa: "get_sign_abs (h_playlist_id h) new = (sign_code, abs_value)" by fastforce
  let ?m1 = "[SERIAL_ID_TO_IGNORE, MSG_ID_PARAM_SET, PARAMETER_PLAYLIST, sign_code, abs_value]"
  let ?m2 = "[SERIAL_ID_TO_IGNORE, MSG_ID_RESUME]"
  have sent: "sent (menu_stop s) = encode_wrap ?m1 @ encode_wrap ?m2"
    using menu_stop_playlist [OF assms(1-8) _ assms(10,11) _ sa] assms(9,12)
    by (simp add: avr_frame_wrap del: mark_defs msg_id_defs parameter_defs)
  have "feed mcu_parse_push mcu_parse_new (encode_wrap ?m1) = (mcu_parse_new, [?m1])"
    "feed mcu_parse_push mcu_parse_new (encode_wrap ?m2) = (mcu_parse_new, [?m2])"
    by (rule feed_encode_wrap; simp)+
  then have feed: "feed mcu_parse_push mcu_parse_new (sent (menu_stop s)) = (mcu_parse_new, [?m1, ?m2])"
    unfolding sent by (simp add: feed_append del: mark_defs msg_id_defs parameter_defs)
  note sign_facts = get_sign_abs_apply [OF sa]
  have zero: "(unat new = 0) = (new = 0)" by (simp add: unat_eq_zero)
  have "handle_mcu ?m1 h = Inr (h\<lparr>h_playlist_id := (if new = 0 then h_playlist_id h else new),
      h_command_queue := (h_command_queue h)\<lparr>m_holder := m_holder (h_command_queue h)
        @ [command_new MPC_PLAYLIST_SET (''led-mpc.sh playlist-set '' @ dec_string (unat new)) 3]\<rparr>\<rparr>)"
    using handle_mcu_playlist [OF sign_facts(1) sign_facts(2) [symmetric],
        of SERIAL_ID_TO_IGNORE "[]"] zero by simp
  with feed show ?thesis by blast
qed

definition sample_dial :: avr where
  "sample_dial = avr_reset\<lparr>a_mode := \<lparr>mo_current_mode = MODE_MENU, mo_is_connected = 1\<rparr>,
     a_menu := (a_menu avr_reset)\<lparr>me_backup_mode := MODE_RADIO, me_param_flag := FLAG_MASK_PLAYLIST,
       me_param_old := [0, 7, 0, 0], me_param_new := [0, 3, 0, 0], me_param_id := PARAM_APPLY,
       me_secondary_param := PARAM_PLAYLIST, me_state := STATE_APPLY\<rparr>\<rparr>"

lemma dialled_playlist_loaded_witness:
  "\<exists>m1 m2 h. feed mcu_parse_push mcu_parse_new (sent (menu_stop sample_dial)) = (mcu_parse_new, [m1, m2]) \<and>
    handle_mcu m1 ((handle_new 0 sample_content)\<lparr>h_playlist_id := 7\<rparr>) = Inr h \<and> h_playlist_id h = 3"
proof -
  have link: "avr_link_ok sample_dial" "sent sample_dial = []"
    using link_zero(1)
    by (simp_all add: sample_dial_def avr_link_ok_def sent_def avr_reset_def buffer_zero_def
        buffer_held_def ring_abs_def)
  have menu: "me_state (a_menu sample_dial) = STATE_APPLY" "me_param_id (a_menu sample_dial) = PARAM_APPLY"
    "me_secondary_param (a_menu sample_dial) = PARAM_PLAYLIST"
    "me_param_flag (a_menu sample_dial) AND FLAG_MASK_PLAYLIST = FLAG_MASK_PLAYLIST"
    "mode_is_connnected sample_dial \<noteq> 0" "mode_get sample_dial = MODE_MENU"
    "me_backup_mode (a_menu sample_dial) = MODE_RADIO"
    "me_param_old (a_menu sample_dial) ! unat VALUE_PLAYLIST
       = h_playlist_id ((handle_new 0 sample_content)\<lparr>h_playlist_id := 7\<rparr>)"
    "me_param_new (a_menu sample_dial) ! unat VALUE_PLAYLIST = 3"
    by (simp_all add: sample_dial_def mode_is_connnected_def mode_get_def)
  show ?thesis
    using dialled_playlist_loaded [OF link(1) menu(1-7) link(2) menu(8,9)] by fastforce
qed

end
